(* ===== verification/Prelude.thy ===== *)
theory Prelude
  imports
    Main
    "HOL-Library.Finite_Map"
    "HOL-Library.Char_ord"
    "HOL-Library.List_Lexorder"
    "HOL-Library.Word"
    "HOL-Library.Multiset"
begin

text \<open>
  Shared vocabulary of the development: how Go's data is represented, and the generic facts about
  finite maps, sorting and decimal printing that the component theories use.

  A Go \<^verbatim>\<open>string\<close> and a Go \<^verbatim>\<open>[]byte\<close> are both \<^typ>\<open>string\<close>: a \<^typ>\<open>char\<close> is exactly a byte, and
  with \<^theory_text>\<open>Char_ord\<close> and \<^theory_text>\<open>List_Lexorder\<close> the order on \<^typ>\<open>string\<close> is Go's bytewise string order. A Go
  \<^verbatim>\<open>map[K]V\<close> is a finite map \<open>('k, 'v) fmap\<close>; ranging over a map, whose order Go leaves open, is
  either order-independent in the code or sorted there, and is modelled over the sorted keys.
  Slices are lists. Values are immutable in HOL, so \<^verbatim>\<open>Clone\<close> is the identity.
\<close>

named_theorems fm_simps \<open>lookups in the finite maps the model builds\<close>
named_theorems inv_intros \<open>how an operation keeps a component's invariant\<close>

type_synonym bytes = string

subsection \<open>Machine integers of the code\<close>

type_synonym u8 = "8 word"
type_synonym u32 = "32 word"
type_synonym u64 = "64 word"

text \<open>\<^verbatim>\<open>math.MaxInt64\<close>, the open-interval sentinel of the sequence numbers.\<close>

definition max_int64 :: int where
  "max_int64 = 9223372036854775807"

subsection \<open>Finite maps: the sorted key list\<close>

definition fm_keys :: "('k::linorder, 'v) fmap \<Rightarrow> 'k list" where
  "fm_keys m = sorted_list_of_set (fmdom' m)"

lemma fm_keys_code [code]: "fm_keys (fmap_of_list xs) = sort (remdups (map fst xs))"
proof -
  have "fmdom' (fmap_of_list xs) = set (map fst xs)"
    by (auto simp: fmdom'_alt_def fmdom_of_list fset_of_list.rep_eq)
  then show ?thesis
    by (simp only: fm_keys_def sorted_list_of_set_sort_remdups)
qed

lemma finite_fmdom' [simp]: "finite (fmdom' m)"
  by (simp add: fmdom'_alt_def)

lemma set_fm_keys [simp]: "set (fm_keys m) = fmdom' m"
  by (simp add: fm_keys_def)

lemma distinct_fm_keys [simp]: "distinct (fm_keys m)"
  by (simp add: fm_keys_def)

lemma sorted_fm_keys [simp]: "sorted (fm_keys m)"
  by (simp add: fm_keys_def)

lemma fm_keys_empty [simp]: "fm_keys fmempty = []"
  by (simp add: fm_keys_def)

lemma fmlookup_Some_dom: "fmlookup m k = Some v \<Longrightarrow> k \<in> fmdom' m"
  by (rule fmdom'I)

lemma fmlookup_None_dom: "fmlookup m k = None \<longleftrightarrow> k \<notin> fmdom' m"
  by (auto simp: fmlookup_dom'_iff)

text \<open>Ranging over a map to build another one: filter and map the entries.\<close>

definition fm_collect :: "('k \<Rightarrow> 'v \<Rightarrow> 'w option) \<Rightarrow> ('k, 'v) fmap \<Rightarrow> ('k, 'w) fmap" where
  "fm_collect f m =
     fmmap the (fmfilter (\<lambda>k. case fmlookup m k of None \<Rightarrow> False | Some v \<Rightarrow> f k v \<noteq> None)
       (fmmap_keys f m))"

lemma fmlookup_collect [simp, fm_simps]:
  "fmlookup (fm_collect f m) k = (case fmlookup m k of None \<Rightarrow> None | Some v \<Rightarrow> f k v)"
  by (auto simp: fm_collect_def split: option.splits)

lemma fm_collect_dom: "k \<in> fmdom' (fm_collect f m) \<longleftrightarrow> (\<exists>v. fmlookup m k = Some v \<and> f k v \<noteq> None)"
  by (auto simp: fmlookup_dom'_iff split: option.splits)

text \<open>A finite map from a key list and a total function on the keys.\<close>

definition fm_tabulate :: "'k list \<Rightarrow> ('k \<Rightarrow> 'v) \<Rightarrow> ('k, 'v) fmap" where
  "fm_tabulate ks f = fmap_of_list (map (\<lambda>k. (k, f k)) ks)"

lemma fmlookup_tabulate [simp, fm_simps]:
  "fmlookup (fm_tabulate ks f) k = (if k \<in> set ks then Some (f k) else None)"
  by (induction ks) (auto simp: fm_tabulate_def fmlookup_of_list)

subsection \<open>Sorting a slice by a key\<close>

text \<open>
  \<^verbatim>\<open>sort.Slice\<close> with a strict less on a key. Go's sort is not stable; every use in the modelled code
  sorts by a key that is unique in the slice, where all sorts agree, or is shown to be independent of
  the order of equal keys.
\<close>

lemma sort_key_unique:
  assumes "mset xs = mset ys" and "inj_on f (set xs)"
  shows "sort_key f xs = sort_key f ys"
  by (rule sort_key_inj_key_eq) (use assms in auto)

subsection \<open>Decimal printing (fmt's %d on a non-negative integer)\<close>

fun dec_digits :: "nat \<Rightarrow> string" where
  "dec_digits n =
     (if n < 10 then [char_of (48 + n)] else dec_digits (n div 10) @ [char_of (48 + n mod 10)])"

declare dec_digits.simps [simp del]

definition dec_value :: "string \<Rightarrow> nat" where
  "dec_value s = foldl (\<lambda>a c. 10 * a + (of_char c - 48)) 0 s"

lemma of_char_digit [simp]: "d < 10 \<Longrightarrow> (of_char (char_of (48 + d :: nat)) :: nat) = 48 + d"
  by simp

lemma dec_value_digits: "dec_value (dec_digits n) = n"
proof (induction n rule: dec_digits.induct)
  case (1 n)
  show ?case
  proof (cases "n < 10")
    case True
    then show ?thesis by (subst dec_digits.simps) (simp add: dec_value_def)
  next
    case False
    with "1.IH" have "dec_value (dec_digits (n div 10)) = n div 10" by simp
    with False show ?thesis
      by (subst dec_digits.simps) (simp add: dec_value_def)
  qed
qed

lemma dec_digits_inj [simp]: "dec_digits m = dec_digits n \<longleftrightarrow> m = n"
  by (metis dec_value_digits)

lemma dec_digits_range: "c \<in> set (dec_digits n) \<Longrightarrow> 48 \<le> (of_char c :: nat) \<and> (of_char c :: nat) \<le> 57"
proof (induction n rule: dec_digits.induct)
  case (1 n)
  show ?case
  proof (cases "n < 10")
    case True
    with "1.prems" show ?thesis by (subst (asm) dec_digits.simps) simp
  next
    case False
    with "1.prems" have "c \<in> set (dec_digits (n div 10)) \<or> c = char_of (48 + n mod 10)"
      by (subst (asm) dec_digits.simps) auto
    moreover have "n mod 10 < 10" by simp
    ultimately show ?thesis using "1.IH" [OF False] of_char_digit [of "n mod 10"] by auto
  qed
qed

lemma dec_digits_nonempty [simp]: "dec_digits n \<noteq> []"
  by (subst dec_digits.simps) simp

subsection \<open>Lists\<close>

lemma find_append: "find P (xs @ ys) = (case find P xs of None \<Rightarrow> find P ys | Some x \<Rightarrow> Some x)"
  by (induction xs) auto

lemma find_map_inv:
  assumes "\<And>x. x \<in> set xs \<Longrightarrow> P (f x) = Q x"
  shows "find P (map f xs) = map_option f (find Q xs)"
  using assms by (induction xs) auto

lemma find_unique:
  assumes "x \<in> set xs" and "P x" and "\<And>y. y \<in> set xs \<Longrightarrow> P y \<Longrightarrow> y = x"
  shows "find P xs = Some x"
  using assms(1,3)
proof (induction xs)
  case (Cons y ys)
  show ?case
  proof (cases "P y")
    case True
    then have "y = x" by (intro Cons.prems(2)) simp_all
    with \<open>P x\<close> show ?thesis by simp
  next
    case False
    with \<open>P x\<close> Cons.prems(1) have "x \<in> set ys" by auto
    then have "find P ys = Some x" by (rule Cons.IH) (simp add: Cons.prems(2))
    with False show ?thesis by simp
  qed
qed simp

lemma find_SomeD: "find P xs = Some x \<Longrightarrow> x \<in> set xs \<and> P x"
  by (auto simp: find_Some_iff)

lemma find_cong_set: "(\<And>x. x \<in> set xs \<Longrightarrow> P x = Q x) \<Longrightarrow> find P xs = find Q xs"
  by (rule find_cong) auto

end
