(* ===== verification/ColMask.thy ===== *)
theory ColMask
  imports Prelude
begin

text \<open>
  Column masks, after \<^verbatim>\<open>internal/core/mask.go\<close>: a \<^verbatim>\<open>ColMask\<close> is a slice of 64-bit words, bit \<open>c mod 64\<close> of
  word \<open>c div 64\<close> standing for column id \<open>c\<close>. The locale \<open>column_set\<close> is what the rest of the code relies
  on (a set of column ids with insertion, union and enumeration); \<open>cmask\<close> interprets it on the bit
  vectors. \<open>mask_ok\<close> bounds the length by \<open>2 ^ 26\<close> words, the widest mask a 32-bit column id can
  produce; within it \<^verbatim>\<open>Cols\<close> does not wrap a column id around.
\<close>

unbundle bit_operations_syntax

type_synonym colid = u32
type_synonym colmask = "u64 list"

subsection \<open>The operations of mask.go\<close>

definition mask_has :: "colmask \<Rightarrow> colid \<Rightarrow> bool" where
  "mask_has m c =
     (let w = unat (c div 64) in
      if w \<ge> length m then False
      else m ! w AND push_bit (unat (c mod 64)) 1 \<noteq> 0)"

definition mask_set :: "colmask \<Rightarrow> colid \<Rightarrow> colmask" where
  "mask_set m c =
     (let w = unat (c div 64);
          m' = m @ replicate (Suc w - length m) 0
      in m'[w := m' ! w OR push_bit (unat (c mod 64)) 1])"

definition mask_or :: "colmask \<Rightarrow> colmask \<Rightarrow> colmask" where
  "mask_or m k =
     map (\<lambda>i. (if i < length m then m ! i else 0) OR (if i < length k then k ! i else 0))
       [0..<max (length m) (length k)]"

definition mask_intersects :: "colmask \<Rightarrow> colmask \<Rightarrow> bool" where
  "mask_intersects m k =
     list_ex (\<lambda>i. m ! i AND k ! i \<noteq> 0) [0..<min (length m) (length k)]"

definition mask_is_zero :: "colmask \<Rightarrow> bool" where
  "mask_is_zero m = list_all (\<lambda>w. w = 0) m"

text \<open>\<^verbatim>\<open>bits.OnesCount64\<close>: the number of set bits.\<close>

definition ones_count64 :: "u64 \<Rightarrow> nat" where
  "ones_count64 w = length (filter (bit w) [0..<64])"

definition mask_count :: "colmask \<Rightarrow> nat" where
  "mask_count m = foldl (\<lambda>n w. n + ones_count64 w) 0 m"

definition mask_cols :: "colmask \<Rightarrow> colid list" where
  "mask_cols m =
     concat (map (\<lambda>w. map (\<lambda>b. of_nat (w * 64 + b))
       (filter (\<lambda>b. m ! w AND push_bit b 1 \<noteq> 0) [0..<64])) [0..<length m])"

definition union_cols :: "colmask \<Rightarrow> colmask \<Rightarrow> colid list" where
  "union_cols a b = sort (remdups (mask_cols a @ mask_cols b))"

subsection \<open>What a client may rely on\<close>

locale column_set =
  fixes empty :: 'm
    and has :: "'m \<Rightarrow> colid \<Rightarrow> bool"
    and add :: "'m \<Rightarrow> colid \<Rightarrow> 'm"
    and union :: "'m \<Rightarrow> 'm \<Rightarrow> 'm"
    and enum :: "'m \<Rightarrow> colid list"
    and ok :: "'m \<Rightarrow> bool"
  assumes has_empty: "\<not> has empty c"
    and has_add: "has (add m c) d \<longleftrightarrow> d = c \<or> has m d"
    and has_union: "has (union m k) d \<longleftrightarrow> has m d \<or> has k d"
    and set_enum: "ok m \<Longrightarrow> set (enum m) = {c. has m c}"
    and ok_empty: "ok empty"
    and ok_add: "ok m \<Longrightarrow> ok (add m c)"
    and ok_union: "ok m \<Longrightarrow> ok k \<Longrightarrow> ok (union m k)"
begin

text \<open>Collecting the columns of a list that satisfy a test.\<close>

lemma has_collect:
  "has (foldl (\<lambda>m c. if P c then add m c else m) m cs) d \<longleftrightarrow> has m d \<or> (d \<in> set cs \<and> P d)"
  by (induction cs arbitrary: m) (auto simp: has_add)

lemma ok_collect: "ok m \<Longrightarrow> ok (foldl (\<lambda>m c. if P c then add m c else m) m cs)"
  by (induction cs arbitrary: m) (auto simp: ok_add)

text \<open>Accumulating masks over a run of versions, as the merge does.\<close>

lemma has_accumulate:
  "has (foldl (\<lambda>a v. if P v then union a (f v) else a) m vs) d
     \<longleftrightarrow> has m d \<or> (\<exists>v \<in> set vs. P v \<and> has (f v) d)"
  by (induction vs arbitrary: m) (auto simp: has_union)

lemma ok_accumulate:
  "ok m \<Longrightarrow> (\<And>v. v \<in> set vs \<Longrightarrow> ok (f v)) \<Longrightarrow>
     ok (foldl (\<lambda>a v. if P v then union a (f v) else a) m vs)"
  by (induction vs arbitrary: m) (auto simp: ok_union)

lemma enum_union: "ok m \<Longrightarrow> ok k \<Longrightarrow> set (enum (union m k)) = set (enum m) \<union> set (enum k)"
  by (auto simp: set_enum ok_union has_union)

end

subsection \<open>The bit vectors are such a set\<close>

definition mask_ok :: "colmask \<Rightarrow> bool" where
  "mask_ok m \<longleftrightarrow> length m \<le> 2 ^ 26"

lemma mask_has_bit:
  "mask_has m c \<longleftrightarrow> unat c div 64 < length m \<and> bit (m ! (unat c div 64)) (unat c mod 64)"
  by (simp add: mask_has_def Let_def bit_iff_and_push_bit_not_eq_0 unat_div unat_mod not_le)

lemma length_mask_set: "length (mask_set m c) = max (length m) (Suc (unat c div 64))"
  by (simp add: mask_set_def Let_def unat_div)

lemma colid_word_bound: "unat (c :: colid) div 64 < 2 ^ 26"
proof -
  have "unat c < 2 ^ LENGTH(32)" by (rule unsigned_less)
  then show ?thesis by simp
qed

lemma mask_has_empty [simp]: "\<not> mask_has [] c"
  by (simp add: mask_has_bit)

lemma nth_mask_set:
  assumes "i < length (mask_set m c)"
  shows "mask_set m c ! i =
    (if i < length m then m ! i else 0) OR (if i = unat c div 64 then push_bit (unat c mod 64) 1 else 0)"
  using assms
  by (auto simp: mask_set_def Let_def unat_div unat_mod nth_append nth_list_update)

lemma mask_has_set: "mask_has (mask_set m c) d \<longleftrightarrow> d = c \<or> mask_has m d"
proof -
  have eq: "d = c \<longleftrightarrow> unat d div 64 = unat c div 64 \<and> unat d mod 64 = unat c mod 64"
    by (metis div_mult_mod_eq word_unat_eq_iff)
  show ?thesis
  proof (cases "unat d div 64 < length (mask_set m c)")
    case True
    then show ?thesis
      by (auto simp: mask_has_bit nth_mask_set bit_or_iff eq bit_exp_iff
          split: if_splits)
  next
    case False
    then show ?thesis
      by (auto simp: mask_has_bit length_mask_set eq)
  qed
qed

lemma mask_has_or: "mask_has (mask_or m k) d \<longleftrightarrow> mask_has m d \<or> mask_has k d"
  by (cases "unat d div 64 < max (length m) (length k)")
    (auto simp: mask_has_bit mask_or_def bit_or_iff )

lemma mask_cols_upt:
  "mask_cols m = map of_nat (filter (\<lambda>i. bit (m ! (i div 64)) (i mod 64)) [0..<64 * length m])"
proof -
  have split: "[0..<64 * n] = concat (map (\<lambda>w. map (\<lambda>b. w * 64 + b) [0..<64]) [0..<n])" for n
  proof (induction n)
    case (Suc n)
    have "[0..<64 * Suc n] = [0..<64 * n] @ [64 * n..<64 * n + 64]"
      using upt_add_eq_append [of 0 "64 * n" 64] by (simp add: add.commute)
    also have "[64 * n..<64 * n + 64] = map (\<lambda>b. n * 64 + b) [0..<64]"
      using map_add_upt [of "64 * n" 64] by (simp add: mult.commute add.commute)
    finally show ?case using Suc.IH by simp
  qed simp
  have "filter (\<lambda>i. bit (m ! (i div 64)) (i mod 64)) (map (\<lambda>b. w * 64 + b) [0..<64])
      = map (\<lambda>b. w * 64 + b) (filter (\<lambda>b. m ! w AND push_bit b 1 \<noteq> 0) [0..<64])" for w
    unfolding filter_map
    by (intro arg_cong [where f = "map _"] filter_cong) (auto simp: bit_iff_and_push_bit_not_eq_0)
  then show ?thesis
    by (simp add: mask_cols_def split filter_concat map_concat o_def del: of_nat_add of_nat_mult)
qed

lemma set_mask_cols:
  assumes "mask_ok m"
  shows "set (mask_cols m) = {c. mask_has m c}"
proof (intro set_eqI iffI)
  fix c :: colid
  assume "c \<in> set (mask_cols m)"
  then obtain i where i: "i < 64 * length m" "bit (m ! (i div 64)) (i mod 64)" "c = of_nat i"
    by (auto simp: mask_cols_upt)
  with assms have "i < 2 ^ 32" by (simp add: mask_ok_def)
  then have "unat c = i" using i(3) by (simp add: unsigned_of_nat take_bit_nat_eq_self)
  with i show "c \<in> {c. mask_has m c}" by (auto simp: mask_has_bit)
next
  fix c :: colid
  assume "c \<in> {c. mask_has m c}"
  then have h: "unat c div 64 < length m" "bit (m ! (unat c div 64)) (unat c mod 64)"
    by (auto simp: mask_has_bit)
  then have "unat c < 64 * length m" by linarith
  with h have "of_nat (unat c) \<in> set (mask_cols m)"
    unfolding mask_cols_upt set_map by (intro imageI) simp
  then show "c \<in> set (mask_cols m)" by simp
qed

lemma mask_ok_empty [simp]: "mask_ok []"
  by (simp add: mask_ok_def)

lemma mask_ok_set: "mask_ok m \<Longrightarrow> mask_ok (mask_set m c)"
  using colid_word_bound [of c] by (simp add: mask_ok_def length_mask_set)

lemma mask_ok_or: "mask_ok m \<Longrightarrow> mask_ok k \<Longrightarrow> mask_ok (mask_or m k)"
  by (simp add: mask_ok_def mask_or_def)

interpretation cmask: column_set "[]" mask_has mask_set mask_or mask_cols mask_ok
  by unfold_locales
    (auto simp: mask_has_set mask_has_or set_mask_cols mask_ok_set mask_ok_or)

lemma sorted_mask_cols:
  assumes "mask_ok m"
  shows "sorted (mask_cols m)" "distinct (mask_cols m)"
proof -
  let ?is = "filter (\<lambda>i. bit (m ! (i div 64)) (i mod 64)) [0..<64 * length m]"
  have b: "i < 2 ^ 32" if "i \<in> set ?is" for i
    using that assms by (auto simp: mask_ok_def)
  have s: "sorted_wrt (<) ?is"
    by (intro sorted_wrt_filter) simp
  have "of_nat i < (of_nat j :: colid)" if "i \<in> set ?is" "j \<in> set ?is" "i < j" for i j
    using that b [of i] b [of j] by (simp add: word_less_nat_alt unsigned_of_nat take_bit_nat_eq_self)
  then have "sorted_wrt (<) (map of_nat ?is :: colid list)"
    using s by (auto simp: sorted_wrt_map intro: sorted_wrt_mono_rel [rotated])
  then show "sorted (mask_cols m)" "distinct (mask_cols m)"
    by (simp_all add: mask_cols_upt strict_sorted_iff)
qed

end
