(* ===== verification/CoreValue.thy ===== *)
theory CoreValue
  imports ColMask Complex_Main
begin

text \<open>
  Cell values, after \<^verbatim>\<open>internal/core/value.go\<close> (first half): the value record and its constructors,
  \<^verbatim>\<open>Equal\<close>, the frozen canonical byte encoding \<^verbatim>\<open>Value.Encode\<close> with its framing helpers, and
  \<^verbatim>\<open>normalizeDecimal\<close>. An int64 is a 64-bit word read as two's complement, a float64 is its IEEE-754 bit
  pattern. The locale \<open>canonical_eq\<close> is the contract an \<^verbatim>\<open>Equal\<close> of this code has: it is equality of a
  canonical representation, restricted to the values it accepts.
\<close>

type_synonym i64 = "64 word"

datatype core_error =
    NaNError
  | KindError u8
  | EmptyNumeric
  | MalformedNumeric string
  | ColumnError colid core_error

subsection \<open>Kinds and values\<close>

text \<open>\<open>KindOther\<close> is any uint8 above the eight frozen tags.\<close>

datatype kind =
    KindNull | KindBool | KindInt | KindFloat | KindNumeric | KindText | KindBytes | KindTime
  | KindOther u8

fun kind_byte :: "kind \<Rightarrow> u8" where
  "kind_byte KindNull = 0"
| "kind_byte KindBool = 1"
| "kind_byte KindInt = 2"
| "kind_byte KindFloat = 3"
| "kind_byte KindNumeric = 4"
| "kind_byte KindText = 5"
| "kind_byte KindBytes = 6"
| "kind_byte KindTime = 7"
| "kind_byte (KindOther k) = k"

record val =
  val_kind :: kind
  val_bool :: bool
  val_int :: i64
  val_float :: u64
  val_text :: string
  val_bytes :: bytes

text \<open>Go's zero value of the struct.\<close>

definition zero_val :: val where
  "zero_val = \<lparr>val_kind = KindNull, val_bool = False, val_int = 0, val_float = 0,
     val_text = [], val_bytes = []\<rparr>"

definition null_val :: val where
  "null_val = zero_val\<lparr>val_kind := KindNull\<rparr>"

definition bool_val :: "bool \<Rightarrow> val" where
  "bool_val b = zero_val\<lparr>val_kind := KindBool, val_bool := b\<rparr>"

definition int_val :: "i64 \<Rightarrow> val" where
  "int_val i = zero_val\<lparr>val_kind := KindInt, val_int := i\<rparr>"

definition text_val :: "string \<Rightarrow> val" where
  "text_val s = zero_val\<lparr>val_kind := KindText, val_text := s\<rparr>"

definition bytes_val :: "bytes \<Rightarrow> val" where
  "bytes_val b = zero_val\<lparr>val_kind := KindBytes, val_bytes := b\<rparr>"

text \<open>\<^verbatim>\<open>Time\<close> takes the instant as its \<^verbatim>\<open>UnixMicro\<close> count.\<close>

definition time_val :: "i64 \<Rightarrow> val" where
  "time_val us = zero_val\<lparr>val_kind := KindTime, val_int := us\<rparr>"

subsection \<open>float64 as its bits\<close>

definition float_is_nan :: "u64 \<Rightarrow> bool" where
  "float_is_nan b \<longleftrightarrow>
     b AND 0x7FF0000000000000 = 0x7FF0000000000000 \<and> b AND 0x000FFFFFFFFFFFFF \<noteq> 0"

definition float_is_zero :: "u64 \<Rightarrow> bool" where
  "float_is_zero b \<longleftrightarrow> b AND 0x7FFFFFFFFFFFFFFF = 0"

text \<open>Go's \<^verbatim>\<open>==\<close> on float64: false on a NaN, true between the two zeros.\<close>

definition float_eq :: "u64 \<Rightarrow> u64 \<Rightarrow> bool" where
  "float_eq a b \<longleftrightarrow>
     \<not> float_is_nan a \<and> \<not> float_is_nan b \<and> (a = b \<or> float_is_zero a \<and> float_is_zero b)"

text \<open>\<^verbatim>\<open>if f == 0 { f = 0 }\<close>: negative zero becomes positive zero.\<close>

definition float_collapse :: "u64 \<Rightarrow> u64" where
  "float_collapse b = (if float_is_zero b then 0 else b)"

definition float_val :: "u64 \<Rightarrow> val" where
  "float_val f = zero_val\<lparr>val_kind := KindFloat, val_float := float_collapse f\<rparr>"

lemma float_zero_not_nan: "float_is_zero b \<Longrightarrow> \<not> float_is_nan b"
proof
  assume z: "float_is_zero b" and n: "float_is_nan b"
  have "b AND 0x7FF0000000000000 = (b AND 0x7FFFFFFFFFFFFFFF) AND 0x7FF0000000000000"
    by (simp add: and.assoc)
  with z n show False by (simp add: float_is_zero_def float_is_nan_def)
qed

lemma float_is_zero_0 [simp]: "float_is_zero 0"
  by (simp add: float_is_zero_def)

lemma float_nan_0 [simp]: "\<not> float_is_nan 0"
  by (simp add: float_is_nan_def)

lemma float_collapse_zero [simp]: "float_is_zero (float_collapse b) = float_is_zero b"
  by (simp add: float_collapse_def)

lemma float_eq_iff:
  "float_eq a b \<longleftrightarrow> \<not> float_is_nan a \<and> \<not> float_is_nan b \<and> float_collapse a = float_collapse b"
  by (auto simp: float_eq_def float_collapse_def)

subsection \<open>Equal\<close>

definition val_equal :: "val \<Rightarrow> val \<Rightarrow> bool" where
  "val_equal v w =
     (if val_kind v \<noteq> val_kind w then False
      else case val_kind v of
        KindNull \<Rightarrow> True
      | KindBool \<Rightarrow> val_bool v = val_bool w
      | KindInt \<Rightarrow> val_int v = val_int w
      | KindTime \<Rightarrow> val_int v = val_int w
      | KindFloat \<Rightarrow> float_eq (val_float v) (val_float w)
      | KindNumeric \<Rightarrow> val_text v = val_text w
      | KindText \<Rightarrow> val_text v = val_text w
      | KindBytes \<Rightarrow> val_bytes v = val_bytes w
      | KindOther _ \<Rightarrow> False)"

definition val_is_null :: "val \<Rightarrow> bool" where
  "val_is_null v \<longleftrightarrow> val_kind v = KindNull"

text \<open>What an \<^verbatim>\<open>Equal\<close> method promises its callers.\<close>

locale canonical_eq =
  fixes eq :: "'a \<Rightarrow> 'a \<Rightarrow> bool"
    and ok :: "'a \<Rightarrow> bool"
    and repr :: "'a \<Rightarrow> 'r"
  assumes eq_iff: "eq a b \<longleftrightarrow> ok a \<and> ok b \<and> repr a = repr b"
begin

lemma eq_refl_iff: "eq a a \<longleftrightarrow> ok a"
  by (simp add: eq_iff)

lemma eq_sym: "eq a b \<Longrightarrow> eq b a"
  by (simp add: eq_iff)

lemma eq_trans: "eq a b \<Longrightarrow> eq b c \<Longrightarrow> eq a c"
  by (simp add: eq_iff)

lemma eq_okD: "eq a b \<Longrightarrow> ok a \<and> ok b"
  by (simp add: eq_iff)

lemma eq_ok_iff: "ok a \<Longrightarrow> ok b \<Longrightarrow> eq a b \<longleftrightarrow> repr a = repr b"
  by (simp add: eq_iff)

end

text \<open>The canonical representation of a cell: the payload its kind selects.\<close>

datatype cell =
    CNull | CBool bool | CInt i64 | CFloat u64 | CNumeric string | CText string | CBytes bytes
  | CTime i64 | COther u8

definition cell_of :: "val \<Rightarrow> cell" where
  "cell_of v =
     (case val_kind v of
        KindNull \<Rightarrow> CNull
      | KindBool \<Rightarrow> CBool (val_bool v)
      | KindInt \<Rightarrow> CInt (val_int v)
      | KindFloat \<Rightarrow> CFloat (float_collapse (val_float v))
      | KindNumeric \<Rightarrow> CNumeric (val_text v)
      | KindText \<Rightarrow> CText (val_text v)
      | KindBytes \<Rightarrow> CBytes (val_bytes v)
      | KindTime \<Rightarrow> CTime (val_int v)
      | KindOther k \<Rightarrow> COther k)"

text \<open>The values \<^verbatim>\<open>Equal\<close> accepts as equal to themselves: every kind the code defines, NaN left out.\<close>

definition val_ok :: "val \<Rightarrow> bool" where
  "val_ok v =
     (case val_kind v of
        KindFloat \<Rightarrow> \<not> float_is_nan (val_float v)
      | KindOther _ \<Rightarrow> False
      | _ \<Rightarrow> True)"

lemma val_equal_iff: "val_equal v w \<longleftrightarrow> val_ok v \<and> val_ok w \<and> cell_of v = cell_of w"
  by (cases "val_kind v"; cases "val_kind w")
    (simp_all add: val_equal_def val_ok_def cell_of_def float_eq_iff)

interpretation veq: canonical_eq val_equal val_ok cell_of
  by unfold_locales (rule val_equal_iff)

lemma null_val_ok [simp]: "val_ok null_val"
  by (simp add: val_ok_def null_val_def zero_val_def)

lemma cell_of_null [simp]: "cell_of null_val = CNull"
  by (simp add: cell_of_def null_val_def zero_val_def)

subsection \<open>The canonical encoding\<close>

definition be32 :: "u32 \<Rightarrow> bytes" where
  "be32 w = map (\<lambda>i. char_of (unat (drop_bit (8 * i) w))) [3, 2, 1, 0]"

definition be64 :: "u64 \<Rightarrow> bytes" where
  "be64 w = map (\<lambda>i. char_of (unat (drop_bit (8 * i) w))) [7, 6, 5, 4, 3, 2, 1, 0]"

definition append_uint32 :: "bytes \<Rightarrow> u32 \<Rightarrow> bytes" where
  "append_uint32 dst n = dst @ be32 n"

definition append_uint64 :: "bytes \<Rightarrow> u64 \<Rightarrow> bytes" where
  "append_uint64 dst n = dst @ be64 n"

text \<open>The length is written as a uint32: \<^verbatim>\<open>uint32(len(payload))\<close> wraps at \<open>2 ^ 32\<close>.\<close>

definition append_len_prefixed :: "bytes \<Rightarrow> bytes \<Rightarrow> bytes" where
  "append_len_prefixed dst payload = (dst @ be32 (of_nat (length payload))) @ payload"

definition val_encode :: "val \<Rightarrow> bytes \<Rightarrow> core_error + bytes" where
  "val_encode v dst0 =
     (let dst = dst0 @ [char_of (unat (kind_byte (val_kind v)))] in
      case val_kind v of
        KindNull \<Rightarrow> Inr dst
      | KindBool \<Rightarrow> if val_bool v then Inr (dst @ [char_of (1::nat)]) else Inr (dst @ [char_of (0::nat)])
      | KindInt \<Rightarrow> Inr (dst @ be64 (val_int v))
      | KindTime \<Rightarrow> Inr (dst @ be64 (val_int v))
      | KindFloat \<Rightarrow>
          if float_is_nan (val_float v) then Inl NaNError
          else Inr (dst @ be64 (float_collapse (val_float v)))
      | KindNumeric \<Rightarrow> Inr (append_len_prefixed dst (val_text v))
      | KindText \<Rightarrow> Inr (append_len_prefixed dst (val_text v))
      | KindBytes \<Rightarrow> Inr (append_len_prefixed dst (val_bytes v))
      | KindOther k \<Rightarrow> Inl (KindError k))"

text \<open>\<^verbatim>\<open>MustEncode\<close>: \<^term>\<open>None\<close> is the panic.\<close>

definition val_must_encode :: "val \<Rightarrow> bytes \<Rightarrow> bytes option" where
  "val_must_encode v dst = (case val_encode v dst of Inl _ \<Rightarrow> None | Inr b \<Rightarrow> Some b)"

end
