(* ===== verification/CoreDecimal.thy ===== *)
theory CoreDecimal
  imports CoreValue
begin

text \<open>
  Exact decimals, after \<^verbatim>\<open>normalizeDecimal\<close>, \<^verbatim>\<open>Numeric\<close> and \<^verbatim>\<open>MustNumeric\<close> of \<^verbatim>\<open>internal/core/value.go\<close>.
  \<open>decimal_value\<close> is the number an accepted text denotes; the lemmas show that normalisation keeps
  that number and that two accepted texts get the same spelling exactly when they denote the same
  number, so the canonical encoding of a numeric depends on its value alone.
\<close>

subsection \<open>strings.TrimSpace\<close>

text \<open>
  The UTF-8 encodings of the code points of \<^verbatim>\<open>unicode.IsSpace\<close>: the six ASCII spaces, U+0085, U+00A0,
  U+1680, U+2000 to U+200A, U+2028, U+2029, U+202F, U+205F and U+3000.
\<close>

definition space_encodings :: "string list" where
  "space_encodings =
     [[CHR 0x09], [CHR 0x0A], [CHR 0x0B], [CHR 0x0C], [CHR 0x0D], [CHR 0x20], [CHR 0xC2, CHR 0x85],
      [CHR 0xC2, CHR 0xA0], [CHR 0xE1, CHR 0x9A, CHR 0x80], [CHR 0xE2, CHR 0x80, CHR 0x80],
      [CHR 0xE2, CHR 0x80, CHR 0x81], [CHR 0xE2, CHR 0x80, CHR 0x82],
      [CHR 0xE2, CHR 0x80, CHR 0x83], [CHR 0xE2, CHR 0x80, CHR 0x84],
      [CHR 0xE2, CHR 0x80, CHR 0x85], [CHR 0xE2, CHR 0x80, CHR 0x86],
      [CHR 0xE2, CHR 0x80, CHR 0x87], [CHR 0xE2, CHR 0x80, CHR 0x88],
      [CHR 0xE2, CHR 0x80, CHR 0x89], [CHR 0xE2, CHR 0x80, CHR 0x8A],
      [CHR 0xE2, CHR 0x80, CHR 0xA8], [CHR 0xE2, CHR 0x80, CHR 0xA9],
      [CHR 0xE2, CHR 0x80, CHR 0xAF], [CHR 0xE2, CHR 0x81, CHR 0x9F],
      [CHR 0xE3, CHR 0x80, CHR 0x80]]"

definition strip_space :: "string \<Rightarrow> string option" where
  "strip_space s =
     map_option (\<lambda>e. drop (length e) s)
       (find (\<lambda>e. take (length e) s = e) space_encodings)"

lemma space_encodings_nonempty: "e \<in> set space_encodings \<Longrightarrow> e \<noteq> []"
  by (auto simp: space_encodings_def)

lemma strip_space_shorter: "strip_space s = Some t \<Longrightarrow> length t < length s"
proof -
  assume "strip_space s = Some t"
  then obtain e where e: "e \<in> set space_encodings" "take (length e) s = e" "t = drop (length e) s"
    by (auto simp: strip_space_def dest: find_SomeD)
  then have "0 < length e" using space_encodings_nonempty by auto
  moreover have "length e \<le> length s" using e(2) by (metis length_take min.cobounded1 min_def)
  ultimately show ?thesis unfolding e(3) length_drop by linarith
qed

function trim_left_space :: "string \<Rightarrow> string" where
  "trim_left_space s = (case strip_space s of None \<Rightarrow> s | Some t \<Rightarrow> trim_left_space t)"
  by pat_completeness auto
termination
  by (relation "measure length") (auto dest: strip_space_shorter)

text \<open>On the right, an encoding is stripped off the end; the search is over the reversed text.\<close>

definition strip_space_right :: "string \<Rightarrow> string option" where
  "strip_space_right s =
     map_option (\<lambda>e. take (length s - length e) s)
       (find (\<lambda>e. length e \<le> length s \<and> drop (length s - length e) s = e) space_encodings)"

lemma strip_space_right_shorter: "strip_space_right s = Some t \<Longrightarrow> length t < length s"
proof -
  assume "strip_space_right s = Some t"
  then obtain e where e: "e \<in> set space_encodings" "length e \<le> length s"
      "t = take (length s - length e) s"
    by (auto simp: strip_space_right_def dest: find_SomeD)
  then have "0 < length e" using space_encodings_nonempty by auto
  with e(2) show ?thesis unfolding e(3) length_take by linarith
qed

function trim_right_space :: "string \<Rightarrow> string" where
  "trim_right_space s = (case strip_space_right s of None \<Rightarrow> s | Some t \<Rightarrow> trim_right_space t)"
  by pat_completeness auto
termination
  by (relation "measure length") (auto dest: strip_space_right_shorter)

declare trim_left_space.simps [simp del] trim_right_space.simps [simp del]

definition trim_space :: "string \<Rightarrow> string" where
  "trim_space s = trim_right_space (trim_left_space s)"

subsection \<open>normalizeDecimal\<close>

definition is_digit :: "char \<Rightarrow> bool" where
  "is_digit c \<longleftrightarrow> CHR ''0'' \<le> c \<and> c \<le> CHR ''9''"

definition trim_left_zeros :: "string \<Rightarrow> string" where
  "trim_left_zeros s = dropWhile (\<lambda>c. c = CHR ''0'') s"

definition trim_right_zeros :: "string \<Rightarrow> string" where
  "trim_right_zeros s = rev (dropWhile (\<lambda>c. c = CHR ''0'') (rev s))"

text \<open>The sign: a leading plus or minus is consumed.\<close>

definition split_sign :: "string \<Rightarrow> bool \<times> string" where
  "split_sign t =
     (case t of
        [] \<Rightarrow> (False, t)
      | c # r \<Rightarrow> if c = CHR ''+'' then (False, r) else if c = CHR ''-'' then (True, r) else (False, t))"

text \<open>Cutting at the first point (\<^verbatim>\<open>strings.IndexByte\<close>).\<close>

definition split_point :: "string \<Rightarrow> string \<times> string" where
  "split_point t =
     (takeWhile (\<lambda>c. c \<noteq> CHR ''.'') t, drop 1 (dropWhile (\<lambda>c. c \<noteq> CHR ''.'') t))"

definition normalize_decimal :: "string \<Rightarrow> core_error + string" where
  "normalize_decimal s =
     (let t = trim_space s in
      if t = [] then Inl EmptyNumeric
      else
        let (neg, t) = split_sign t;
            (int_part, frac_part) = split_point t
        in
        if int_part = [] \<and> frac_part = [] then Inl (MalformedNumeric s)
        else if \<not> list_all is_digit (int_part @ frac_part) then Inl (MalformedNumeric s)
        else
          let int_part = trim_left_zeros int_part;
              int_part = (if int_part = [] then ''0'' else int_part);
              frac_part = trim_right_zeros frac_part;
              out = (if frac_part \<noteq> [] then int_part @ ''.'' @ frac_part else int_part)
          in
          if out = ''0'' then Inr ''0''
          else Inr (if neg then CHR ''-'' # out else out))"

definition numeric_val :: "string \<Rightarrow> core_error + val" where
  "numeric_val s =
     (case normalize_decimal s of
        Inl e \<Rightarrow> Inl e
      | Inr n \<Rightarrow> Inr (zero_val\<lparr>val_kind := KindNumeric, val_text := n\<rparr>))"

text \<open>\<^verbatim>\<open>MustNumeric\<close>: \<^term>\<open>None\<close> is the panic.\<close>

definition must_numeric :: "string \<Rightarrow> val option" where
  "must_numeric s = (case numeric_val s of Inl _ \<Rightarrow> None | Inr v \<Rightarrow> Some v)"

subsection \<open>Digit strings as numbers\<close>

definition dig :: "char \<Rightarrow> nat" where
  "dig c = of_char c - 48"

definition digits_value :: "string \<Rightarrow> nat" where
  "digits_value s = foldl (\<lambda>a c. 10 * a + dig c) 0 s"

lemma is_digit_iff: "is_digit c \<longleftrightarrow> (48::nat) \<le> of_char c \<and> of_char c \<le> (57::nat)"
  by (simp add: is_digit_def less_eq_char_def)

lemma is_digit_not: "is_digit c \<Longrightarrow> c \<noteq> CHR ''.'' \<and> c \<noteq> CHR ''-'' \<and> c \<noteq> CHR ''+''"
  by (auto simp: is_digit_def)

lemma dig_less: "is_digit c \<Longrightarrow> dig c < 10"
  by (auto simp: is_digit_iff dig_def)

lemma dig_inj: "is_digit c \<Longrightarrow> is_digit d \<Longrightarrow> dig c = dig d \<Longrightarrow> c = d"
proof -
  assume "is_digit c" "is_digit d" "dig c = dig d"
  then have "(of_char c :: nat) = of_char d" unfolding is_digit_iff dig_def by linarith
  then show "c = d" by simp
qed

lemma dig_zero: "is_digit c \<Longrightarrow> dig c = 0 \<longleftrightarrow> c = CHR ''0''"
  using dig_inj [of c "CHR ''0''"] by (auto simp: dig_def is_digit_def)

lemma digits_value_foldl: "foldl (\<lambda>a c. 10 * a + dig c) n s = n * 10 ^ length s + digits_value s"
proof (induction s rule: rev_induct)
  case (snoc c s)
  then show ?case by (simp add: digits_value_def algebra_simps)
qed (simp add: digits_value_def)

lemma digits_value_Nil [simp]: "digits_value [] = 0"
  by (simp add: digits_value_def)

lemma digits_value_append: "digits_value (s @ t) = digits_value s * 10 ^ length t + digits_value t"
  unfolding digits_value_def [of "s @ t"] foldl_append digits_value_foldl [of "foldl _ _ s"]
  by (simp add: digits_value_def [of s])

lemma digits_value_Cons: "digits_value (c # s) = dig c * 10 ^ length s + digits_value s"
  using digits_value_append [of "[c]" s] by (simp add: digits_value_def)

lemma digits_value_less: "list_all is_digit s \<Longrightarrow> digits_value s < 10 ^ length s"
proof (induction s)
  case (Cons c s)
  then have "dig c \<le> 9" "digits_value s < 10 ^ length s"
    using dig_less [of c] by auto
  then have "dig c * 10 ^ length s \<le> 9 * 10 ^ length s" by (intro mult_right_mono) simp_all
  with \<open>digits_value s < 10 ^ length s\<close>
  have "dig c * 10 ^ length s + digits_value s < 10 * 10 ^ length s" by linarith
  then show ?case by (simp add: digits_value_Cons)
qed simp

lemma digits_value_zeros: "digits_value (replicate n (CHR ''0'')) = 0"
  by (induction n) (simp_all add: digits_value_Cons dig_def)

text \<open>A digit string of a given length is determined by its number.\<close>

lemma digits_value_inj:
  assumes "list_all is_digit s" "list_all is_digit t" "length s = length t"
    and "digits_value s = digits_value t"
  shows "s = t"
  using assms(3,1,2,4)
proof (induction s t rule: list_induct2)
  case (Cons c s d t)
  let ?k = "10 ^ length t :: nat"
  have lt: "digits_value s < ?k" "digits_value t < ?k"
    using Cons.prems digits_value_less [of s] digits_value_less [of t] Cons.hyps by simp_all
  have eq: "dig c * ?k + digits_value s = dig d * ?k + digits_value t"
    using Cons by (simp add: digits_value_Cons)
  then have "(dig c * ?k + digits_value s) div ?k = (dig d * ?k + digits_value t) div ?k" by simp
  with lt have "dig c = dig d" by simp
  with eq have "digits_value s = digits_value t" by simp
  with Cons \<open>dig c = dig d\<close> dig_inj show ?case by auto
qed simp

text \<open>Without leading zeros the number determines the length too.\<close>

definition no_lead :: "string \<Rightarrow> bool" where
  "no_lead s \<longleftrightarrow> (s = [] \<or> hd s \<noteq> CHR ''0'')"

lemma no_lead_lower:
  assumes "list_all is_digit s" "no_lead s" "s \<noteq> []"
  shows "10 ^ (length s - 1) \<le> digits_value s"
proof -
  obtain c r where s: "s = c # r" using assms(3) by (cases s) auto
  with assms have "dig c \<noteq> 0" by (simp add: no_lead_def dig_zero)
  then have "1 * 10 ^ length r \<le> dig c * 10 ^ length r" by (intro mult_right_mono) simp_all
  with s show ?thesis by (simp add: digits_value_Cons trans_le_add1 del: One_nat_def)
qed

lemma no_lead_length_le:
  assumes "list_all is_digit s" "no_lead s" "list_all is_digit t"
    and "digits_value s = digits_value t"
  shows "length s \<le> length t"
proof (rule ccontr)
  assume "\<not> ?thesis"
  then have "length t \<le> length s - 1" "s \<noteq> []" by auto
  then have "(10::nat) ^ length t \<le> 10 ^ (length s - 1)" by (intro power_increasing) simp_all
  with digits_value_less [OF assms(3)] have "digits_value t < 10 ^ (length s - 1)" by linarith
  with no_lead_lower [OF assms(1,2) \<open>s \<noteq> []\<close>] assms(4) show False by simp
qed

lemma no_lead_inj:
  assumes "list_all is_digit s" "no_lead s" "list_all is_digit t" "no_lead t"
    and "digits_value s = digits_value t"
  shows "s = t"
  using digits_value_inj [OF assms(1,3) _ assms(5)]
    le_antisym [OF no_lead_length_le [OF assms(1,2,3,5)] no_lead_length_le [OF assms(3,4,1) assms(5) [symmetric]]]
  by blast


subsection \<open>Trimming zeros\<close>

definition no_trail :: "string \<Rightarrow> bool" where
  "no_trail s \<longleftrightarrow> (s = [] \<or> last s \<noteq> CHR ''0'')"

lemma trim_left_zeros_split: "\<exists>k. s = replicate k (CHR ''0'') @ trim_left_zeros s"
proof (induction s)
  case (Cons c s)
  then obtain k where k: "s = replicate k (CHR ''0'') @ trim_left_zeros s" by blast
  show ?case
  proof (cases "c = CHR ''0''")
    case True
    have "c # s = replicate (Suc k) (CHR ''0'') @ trim_left_zeros s" using True k by simp
    moreover have "trim_left_zeros (c # s) = trim_left_zeros s"
      using True by (simp add: trim_left_zeros_def)
    ultimately show ?thesis by metis
  next
    case False
    then show ?thesis by (intro exI [of _ 0]) (simp add: trim_left_zeros_def)
  qed
qed (simp add: trim_left_zeros_def)

lemma trim_right_zeros_split: "\<exists>k. s = trim_right_zeros s @ replicate k (CHR ''0'')"
proof -
  obtain k where "rev s = replicate k (CHR ''0'') @ trim_left_zeros (rev s)"
    using trim_left_zeros_split by blast
  then have "rev (rev s) = rev (replicate k (CHR ''0'') @ trim_left_zeros (rev s))" by simp
  then have "s = rev (trim_left_zeros (rev s)) @ replicate k (CHR ''0'')" by simp
  then show ?thesis by (auto simp: trim_right_zeros_def trim_left_zeros_def)
qed

lemma no_lead_trim: "no_lead (trim_left_zeros s)"
  using hd_dropWhile [of "\<lambda>c. c = CHR ''0''" s] by (auto simp: no_lead_def trim_left_zeros_def)

lemma no_trail_trim: "no_trail (trim_right_zeros s)"
  using hd_dropWhile [of "\<lambda>c. c = CHR ''0''" "rev s"]
  by (auto simp: no_trail_def trim_right_zeros_def last_rev)

lemma trim_left_zeros_id: "no_lead s \<Longrightarrow> trim_left_zeros s = s"
  by (cases s) (auto simp: no_lead_def trim_left_zeros_def)

lemma trim_right_zeros_id: "no_trail s \<Longrightarrow> trim_right_zeros s = s"
  by (cases s rule: rev_cases) (auto simp: no_trail_def trim_right_zeros_def)

lemma digits_trim_left: "list_all is_digit s \<Longrightarrow> list_all is_digit (trim_left_zeros s)"
  using trim_left_zeros_split [of s] by (metis list_all_append)

lemma digits_trim_right: "list_all is_digit s \<Longrightarrow> list_all is_digit (trim_right_zeros s)"
  using trim_right_zeros_split [of s] by (metis list_all_append)

lemma value_trim_left: "digits_value (trim_left_zeros s) = digits_value s"
  by (metis trim_left_zeros_split digits_value_append digits_value_zeros add_0 mult_0)

subsection \<open>The number of a decimal\<close>

text \<open>The number of an integer part and a fraction part, and the number of an accepted text.\<close>

definition frac_value :: "string \<Rightarrow> string \<Rightarrow> rat" where
  "frac_value ip fp = of_nat (digits_value (ip @ fp)) / 10 ^ length fp"

definition decimal_value :: "string \<Rightarrow> rat" where
  "decimal_value s =
     (let (neg, t) = split_sign (trim_space s); (ip, fp) = split_point t in
      if neg then - frac_value ip fp else frac_value ip fp)"

lemma frac_value_trim: "frac_value (trim_left_zeros ip) (trim_right_zeros fp) = frac_value ip fp"
proof -
  let ?F = "trim_right_zeros fp"
  obtain k where k: "fp = ?F @ replicate k (CHR ''0'')" using trim_right_zeros_split by blast
  have "digits_value (ip @ fp) = digits_value (ip @ ?F) * 10 ^ k"
    by (subst k) (simp add: digits_value_append digits_value_zeros power_add algebra_simps)
  moreover have "length fp = length ?F + k" by (subst k) simp
  ultimately have "frac_value ip fp = frac_value ip ?F"
    by (simp add: frac_value_def power_add)
  then show ?thesis by (simp add: frac_value_def digits_value_append value_trim_left)
qed

lemma frac_value_zero_part: "frac_value ''0'' fp = frac_value [] fp"
  by (simp add: frac_value_def digits_value_append digits_value_Cons dig_def)

lemma frac_value_cross:
  "frac_value ip fp = frac_value ip' fp' \<longleftrightarrow>
   digits_value (ip @ fp) * 10 ^ length fp' = digits_value (ip' @ fp') * 10 ^ length fp"
proof -
  have "frac_value ip fp = frac_value ip' fp' \<longleftrightarrow>
      (of_nat (digits_value (ip @ fp)) * 10 ^ length fp' :: rat)
      = of_nat (digits_value (ip' @ fp')) * 10 ^ length fp"
    by (simp add: frac_value_def frac_eq_eq)
  also have "\<dots> \<longleftrightarrow> (of_nat (digits_value (ip @ fp) * 10 ^ length fp') :: rat)
      = of_nat (digits_value (ip' @ fp') * 10 ^ length fp)"
    by simp
  finally show ?thesis by (simp only: of_nat_eq_iff)
qed

lemma int_part_div:
  assumes "list_all is_digit fp"
  shows "digits_value (ip @ fp) * 10 ^ n div 10 ^ (length fp + n) = digits_value ip"
proof -
  have "digits_value fp * 10 ^ n < 10 ^ length fp * 10 ^ n"
    using digits_value_less [OF assms] by simp
  then have "digits_value fp * 10 ^ n < 10 ^ (length fp + n)" by (simp add: power_add)
  moreover have "digits_value (ip @ fp) * 10 ^ n
      = digits_value fp * 10 ^ n + digits_value ip * 10 ^ (length fp + n)"
    by (simp add: digits_value_append power_add algebra_simps)
  ultimately show ?thesis by simp
qed

text \<open>Equal fractions, one padded with zeros to the length of the other.\<close>

lemma frac_part_inj_le:
  assumes "list_all is_digit f" "list_all is_digit g" "no_trail g" "length f \<le> length g"
    and eq: "digits_value f * 10 ^ length g = digits_value g * 10 ^ length f"
  shows "f = g"
proof -
  define d where "d = length g - length f"
  have len: "length g = length f + d" using assms(4) by (simp add: d_def)
  have "digits_value f * 10 ^ d * 10 ^ length f = digits_value g * 10 ^ length f"
    using eq by (simp add: len power_add algebra_simps)
  then have "digits_value (f @ replicate d (CHR ''0'')) = digits_value g"
    by (simp add: digits_value_append digits_value_zeros)
  moreover have "list_all is_digit (f @ replicate d (CHR ''0''))"
    using assms(1) by (auto simp: list_all_iff is_digit_def)
  ultimately have g: "f @ replicate d (CHR ''0'') = g"
    using digits_value_inj [of "f @ replicate d (CHR ''0'')" g] assms(2) len by simp
  have "d = 0"
  proof (rule ccontr)
    assume "d \<noteq> 0"
    then have "g \<noteq> []" "last g = CHR ''0''" using g by auto
    with assms(3) show False by (simp add: no_trail_def)
  qed
  with g show ?thesis by simp
qed

lemma frac_part_inj:
  assumes "list_all is_digit f" "list_all is_digit g" "no_trail f" "no_trail g"
    and "digits_value f * 10 ^ length g = digits_value g * 10 ^ length f"
  shows "f = g"
  using frac_part_inj_le [of f g] frac_part_inj_le [of g f] assms
  by (metis nle_le)

lemma frac_value_inj:
  assumes "list_all is_digit (ip @ fp)" "list_all is_digit (ip' @ fp')"
    and "no_lead ip" "no_lead ip'" "no_trail fp" "no_trail fp'"
    and "frac_value ip fp = frac_value ip' fp'"
  shows "ip = ip' \<and> fp = fp'"
proof -
  have dig: "list_all is_digit ip" "list_all is_digit fp" "list_all is_digit ip'" "list_all is_digit fp'"
    using assms(1,2) by simp_all
  have cross: "digits_value (ip @ fp) * 10 ^ length fp' = digits_value (ip' @ fp') * 10 ^ length fp"
    using assms(7) frac_value_cross by blast
  then have "digits_value ip = digits_value ip'"
    using int_part_div [OF dig(2), of ip "length fp'"] int_part_div [OF dig(4), of ip' "length fp"]
    by (simp add: add.commute)
  then have ip: "ip = ip'" using no_lead_inj dig assms(3,4) by blast
  then have "digits_value fp * 10 ^ length fp' = digits_value fp' * 10 ^ length fp"
    using cross by (simp add: digits_value_append algebra_simps)
  then have "fp = fp'" using frac_part_inj dig assms(5,6) by blast
  with ip show ?thesis ..
qed

subsection \<open>Canonical texts\<close>

text \<open>The text \<^const>\<open>normalize_decimal\<close> writes for a sign and the two trimmed parts.\<close>

definition canon_body :: "string \<Rightarrow> string \<Rightarrow> string" where
  "canon_body ip fp =
     (let ip' = (if ip = [] then ''0'' else ip) in if fp \<noteq> [] then ip' @ ''.'' @ fp else ip')"

definition canon_text :: "bool \<Rightarrow> string \<Rightarrow> string \<Rightarrow> string" where
  "canon_text neg ip fp =
     (if canon_body ip fp = ''0'' then ''0''
      else if neg then CHR ''-'' # canon_body ip fp else canon_body ip fp)"

definition decimal_parts :: "string \<Rightarrow> bool \<times> string \<times> string" where
  "decimal_parts s = (let (neg, t) = split_sign (trim_space s) in (neg, split_point t))"

definition decimal_ok :: "string \<Rightarrow> bool" where
  "decimal_ok s \<longleftrightarrow>
     (let (neg, ip, fp) = decimal_parts s in
      trim_space s \<noteq> [] \<and> \<not> (ip = [] \<and> fp = []) \<and> list_all is_digit (ip @ fp))"

lemma normalize_decimal_iff:
  "normalize_decimal s = Inr n \<longleftrightarrow>
     decimal_ok s \<and>
     (case decimal_parts s of (neg, ip, fp) \<Rightarrow>
        n = canon_text neg (trim_left_zeros ip) (trim_right_zeros fp))"
proof -
  obtain neg t where t: "split_sign (trim_space s) = (neg, t)" by fastforce
  obtain ip fp where p: "split_point t = (ip, fp)" by fastforce
  show ?thesis
    by (auto simp: normalize_decimal_def decimal_ok_def decimal_parts_def t p canon_text_def
        canon_body_def Let_def)
qed

lemma decimal_value_parts:
  "decimal_value s =
     (case decimal_parts s of (neg, ip, fp) \<Rightarrow> if neg then - frac_value ip fp else frac_value ip fp)"
  by (simp add: decimal_value_def decimal_parts_def split_beta Let_def)

lemma canon_body_zero: "no_lead ip \<Longrightarrow> canon_body ip fp = ''0'' \<longleftrightarrow> ip = [] \<and> fp = []"
  by (auto simp: canon_body_def Let_def no_lead_def append_eq_Cons_conv)

lemma digit_not_space:
  assumes "is_digit c \<or> c = CHR ''-'' \<or> c = CHR ''.''" and "e \<in> set space_encodings"
  shows "hd e \<noteq> c \<and> last e \<noteq> c"
proof -
  have "list_all (\<lambda>e. \<not> is_digit (hd e) \<and> hd e \<noteq> CHR ''-'' \<and> hd e \<noteq> CHR ''.''
      \<and> \<not> is_digit (last e) \<and> last e \<noteq> CHR ''-'' \<and> last e \<noteq> CHR ''.'') space_encodings"
    by code_simp
  with assms show ?thesis by (auto simp: list_all_iff)
qed

lemma trim_space_plain:
  assumes "s \<noteq> []" "\<forall>e \<in> set space_encodings. hd e \<noteq> hd s \<and> last e \<noteq> last s"
  shows "trim_space s = s"
proof -
  have "strip_space s = None"
  proof -
    have "take (length e) s \<noteq> e" if e: "e \<in> set space_encodings" for e
    proof
      assume eq: "take (length e) s = e"
      have "hd (take (length e) s) = hd s" using space_encodings_nonempty [OF e] by simp
      with eq assms(2) e show False by simp
    qed
    then show ?thesis by (simp add: strip_space_def find_None_iff)
  qed
  then have left: "trim_left_space s = s" by (subst trim_left_space.simps) simp
  have "drop (length s - length e) s \<noteq> e" if e: "e \<in> set space_encodings" "length e \<le> length s" for e
  proof
    assume eq: "drop (length s - length e) s = e"
    have "last (drop (length s - length e) s) = last s"
      using assms(1) space_encodings_nonempty [OF e(1)] e(2) by (intro last_drop) (cases s; cases e; simp)
    with eq assms(2) e(1) show False by simp
  qed
  then have "strip_space_right s = None" by (auto simp: strip_space_right_def find_None_iff)
  then show ?thesis unfolding trim_space_def left by (subst trim_right_space.simps) simp
qed

lemma trim_space_id:
  assumes "s \<noteq> []" "is_digit (hd s) \<or> hd s = CHR ''-'' \<or> hd s = CHR ''.''"
    and "is_digit (last s) \<or> last s = CHR ''-'' \<or> last s = CHR ''.''"
  shows "trim_space s = s"
  by (rule trim_space_plain [OF assms(1)])
    (use digit_not_space [OF assms(2)] digit_not_space [OF assms(3)] in auto)

lemma canon_body_shape:
  assumes "list_all is_digit (ip @ fp)"
  shows "canon_body ip fp \<noteq> []" "is_digit (hd (canon_body ip fp))" "is_digit (last (canon_body ip fp))"
proof -
  have d0: "is_digit (CHR ''0'')" by (simp add: is_digit_def)
  show "canon_body ip fp \<noteq> []" by (simp add: canon_body_def Let_def)
  show "is_digit (hd (canon_body ip fp))"
    using assms d0 by (cases ip) (auto simp: canon_body_def Let_def)
  show "is_digit (last (canon_body ip fp))"
    using assms d0 by (auto simp: canon_body_def Let_def list_all_iff)
qed

lemma split_point_plain: "\<forall>c \<in> set j. c \<noteq> CHR ''.'' \<Longrightarrow> split_point j = (j, [])"
  by (simp add: split_point_def takeWhile_eq_all_conv [THEN iffD2] dropWhile_eq_Nil_conv [THEN iffD2])

lemma split_point_dot: "\<forall>c \<in> set j. c \<noteq> CHR ''.'' \<Longrightarrow> split_point (j @ CHR ''.'' # fp) = (j, fp)"
  by (simp add: split_point_def takeWhile_append2 dropWhile_append2)

lemma canon_text_parts:
  assumes "list_all is_digit (ip @ fp)" "no_lead ip"
  shows "decimal_parts (canon_text neg ip fp)
           = (neg \<and> canon_body ip fp \<noteq> ''0'', if ip = [] then ''0'' else ip, fp)"
    and "trim_space (canon_text neg ip fp) = canon_text neg ip fp"
proof -
  let ?b = "canon_body ip fp"
  note shape = canon_body_shape [OF assms(1)]
  have d0: "is_digit (CHR ''0'')" by (simp add: is_digit_def)
  show trim: "trim_space (canon_text neg ip fp) = canon_text neg ip fp"
    by (rule trim_space_id) (use shape d0 in \<open>auto simp: canon_text_def\<close>)
  have "hd ?b \<noteq> CHR ''+'' \<and> hd ?b \<noteq> CHR ''-''" using shape(2) by (auto simp: is_digit_def)
  then have sign: "split_sign ?b = (False, ?b)"
    using shape(1) by (cases ?b) (auto simp: split_sign_def)
  have "split_sign (canon_text neg ip fp) = (neg \<and> ?b \<noteq> ''0'', ?b)"
  proof (cases "?b = ''0''")
    case True
    then show ?thesis by (simp add: canon_text_def split_sign_def)
  next
    case False
    then show ?thesis using sign by (simp add: canon_text_def split_sign_def)
  qed
  moreover have "split_point ?b = (if ip = [] then ''0'' else ip, fp)"
  proof -
    define j where "j = (if ip = [] then ''0'' else ip)"
    have "\<forall>c \<in> set j. c \<noteq> CHR ''.''"
      using assms(1) is_digit_not by (auto simp: list_all_iff j_def)
    moreover have "?b = (if fp \<noteq> [] then j @ ''.'' @ fp else j)"
      by (simp add: canon_body_def j_def)
    ultimately have "split_point ?b = (j, fp)" using split_point_plain split_point_dot by simp
    then show ?thesis by (simp only: j_def)
  qed
  ultimately show "decimal_parts (canon_text neg ip fp)
           = (neg \<and> ?b \<noteq> ''0'', if ip = [] then ''0'' else ip, fp)"
    by (simp add: decimal_parts_def trim)
qed

lemma frac_value_pos: "ip \<noteq> [] \<or> fp \<noteq> [] \<Longrightarrow> list_all is_digit (ip @ fp) \<Longrightarrow> no_lead ip \<Longrightarrow> no_trail fp
    \<Longrightarrow> 0 < frac_value ip fp"
proof -
  assume a: "ip \<noteq> [] \<or> fp \<noteq> []" "list_all is_digit (ip @ fp)" "no_lead ip" "no_trail fp"
  have "frac_value ip fp \<noteq> frac_value [] []"
  proof
    assume "frac_value ip fp = frac_value [] []"
    then have "ip = [] \<and> fp = []"
      by (intro frac_value_inj) (use a in \<open>simp_all add: no_lead_def no_trail_def\<close>)
    with a(1) show False by simp
  qed
  moreover have "0 \<le> frac_value ip fp" by (simp add: frac_value_def)
  ultimately show ?thesis by (simp add: frac_value_def)
qed

text \<open>The number of a canonical text, and what an accepted text normalises to.\<close>

definition signed :: "bool \<Rightarrow> rat \<Rightarrow> rat" where
  "signed neg q = (if neg then - q else q)"

lemma decimal_accepted:
  assumes "normalize_decimal s = Inr n"
  obtains neg ip fp where "n = canon_text neg ip fp" "list_all is_digit (ip @ fp)"
    "no_lead ip" "no_trail fp" "decimal_value s = signed neg (frac_value ip fp)"
proof -
  obtain neg ip fp where p: "decimal_parts s = (neg, ip, fp)" by (metis prod.exhaust)
  with assms have ok: "decimal_ok s"
    and n: "n = canon_text neg (trim_left_zeros ip) (trim_right_zeros fp)"
    by (simp_all add: normalize_decimal_iff)
  have "list_all is_digit (trim_left_zeros ip @ trim_right_zeros fp)"
    using ok p digits_trim_left digits_trim_right by (simp add: decimal_ok_def)
  moreover have "decimal_value s = signed neg (frac_value (trim_left_zeros ip) (trim_right_zeros fp))"
    by (simp add: decimal_value_parts p frac_value_trim signed_def)
  ultimately show thesis using that n no_lead_trim no_trail_trim by blast
qed

lemma canon_text_value:
  assumes "list_all is_digit (ip @ fp)" "no_lead ip"
  shows "decimal_value (canon_text neg ip fp) = signed neg (frac_value ip fp)"
proof (cases "canon_body ip fp = ''0''")
  case True
  with assms(2) have "ip = [] \<and> fp = []" by (simp add: canon_body_zero)
  then show ?thesis
    using canon_text_parts [OF assms] True
    by (simp add: decimal_value_parts signed_def frac_value_def digits_value_Cons dig_def)
next
  case False
  then show ?thesis
    using canon_text_parts [OF assms]
    by (cases "ip = []") (auto simp: decimal_value_parts signed_def frac_value_zero_part)
qed

lemma canon_text_ok:
  assumes "list_all is_digit (ip @ fp)" "no_lead ip"
  shows "decimal_ok (canon_text neg ip fp)"
  using canon_text_parts [OF assms, of neg] assms(1) canon_body_shape(1) [OF assms(1)]
  by (auto simp: decimal_ok_def canon_text_def is_digit_def)

lemma canon_text_inj:
  assumes "list_all is_digit (ip @ fp)" "no_lead ip" "no_trail fp"
    and "list_all is_digit (ip' @ fp')" "no_lead ip'" "no_trail fp'"
    and eq: "signed neg (frac_value ip fp) = signed neg' (frac_value ip' fp')"
  shows "canon_text neg ip fp = canon_text neg' ip' fp'"
proof (cases "ip = [] \<and> fp = []")
  case True
  then have "frac_value ip' fp' = 0" using eq by (auto simp: signed_def frac_value_def split: if_splits)
  then have "ip' = [] \<and> fp' = []" using frac_value_pos [of ip' fp'] assms by fastforce
  with True show ?thesis by (simp add: canon_text_def canon_body_def)
next
  case False
  then have pos: "0 < frac_value ip fp" using frac_value_pos assms by blast
  then have "ip' \<noteq> [] \<or> fp' \<noteq> []" using eq by (auto simp: signed_def frac_value_def split: if_splits)
  then have pos': "0 < frac_value ip' fp'" using frac_value_pos assms by blast
  have "neg = neg'" "frac_value ip fp = frac_value ip' fp'"
    using eq pos pos' by (auto simp: signed_def split: if_splits)
  then show ?thesis using frac_value_inj assms by blast
qed

lemma normalize_decimal_unique:
  assumes "normalize_decimal s = Inr m" "normalize_decimal t = Inr n"
    and eq: "decimal_value s = decimal_value t"
  shows "m = n"
proof -
  obtain neg ip fp where m: "m = canon_text neg ip fp" and d: "list_all is_digit (ip @ fp)"
    and nl: "no_lead ip" and nt: "no_trail fp" and v: "decimal_value s = signed neg (frac_value ip fp)"
    using decimal_accepted [OF assms(1)] .
  obtain neg' ip' fp' where n: "n = canon_text neg' ip' fp'" and d': "list_all is_digit (ip' @ fp')"
    and nl': "no_lead ip'" and nt': "no_trail fp'"
    and v': "decimal_value t = signed neg' (frac_value ip' fp')"
    using decimal_accepted [OF assms(2)] .
  show "m = n" unfolding m n
    using canon_text_inj [OF d nl nt d' nl' nt'] eq v v' by simp
qed

text \<open>
  an accepted decimal keeps its number: the text \<^verbatim>\<open>normalizeDecimal\<close> stores denotes exactly
  the number that was written, and normalising it again changes nothing.
\<close>

theorem normalize_decimal_preserves:
  assumes "normalize_decimal s = Inr n"
  shows "decimal_value n = decimal_value s \<and> normalize_decimal n = Inr n"
proof -
  obtain neg ip fp where n: "n = canon_text neg ip fp" and d: "list_all is_digit (ip @ fp)"
    and nl: "no_lead ip" and nt: "no_trail fp" and v: "decimal_value s = signed neg (frac_value ip fp)"
    using decimal_accepted [OF assms] .
  have val: "decimal_value n = decimal_value s" using canon_text_value [OF d nl] n v by simp
  have "decimal_ok n" using canon_text_ok [OF d nl] n by simp
  then obtain m where m: "normalize_decimal n = Inr m"
    by (cases "decimal_parts n") (simp add: normalize_decimal_iff)
  have "m = n" using normalize_decimal_unique [OF m assms val] .
  with val m show ?thesis by simp
qed

theorem normalize_decimal_preserves_witness:
  "normalize_decimal ''-012.50 '' = Inr ''-12.5'' \<and> decimal_value ''-12.5'' = decimal_value ''-012.50 ''"
proof -
  have e: "normalize_decimal ''-012.50 '' = Inr ''-12.5''" by code_simp
  with normalize_decimal_preserves [OF e] show ?thesis by simp
qed

text \<open>
  C25: the spelling is canonical: two accepted texts are normalised to one spelling exactly when they
  denote the same number.
\<close>

theorem normalize_decimal_canonical:
  assumes "normalize_decimal s = Inr m" and "normalize_decimal t = Inr n"
  shows "m = n \<longleftrightarrow> decimal_value s = decimal_value t"
proof
  assume "m = n"
  then show "decimal_value s = decimal_value t"
    using assms by (metis decimal_accepted canon_text_value)
next
  assume eq: "decimal_value s = decimal_value t"
  show "m = n" by (rule normalize_decimal_unique [OF assms eq])
qed

theorem normalize_decimal_canonical_witness:
  "normalize_decimal ''+1.50'' = Inr ''1.5'' \<and> normalize_decimal ''01.5'' = Inr ''1.5'' \<and>
   decimal_value ''+1.50'' = decimal_value ''01.5''"
proof -
  have e: "normalize_decimal ''+1.50'' = Inr ''1.5''" by code_simp
  have f: "normalize_decimal ''01.5'' = Inr ''1.5''" by code_simp
  show ?thesis
    by (intro conjI e f iffD1 [OF normalize_decimal_canonical [OF e f] refl])
qed

text \<open>The decimal text of a number is made of digits and reads back as the number.\<close>

lemma dec_digits_is_digit: "list_all is_digit (dec_digits n)"
  using dec_digits_range [of _ n] by (auto simp: list_all_iff is_digit_iff)

lemma digits_value_dec: "digits_value (dec_digits n) = n"
  using dec_value_digits [of n] by (simp add: digits_value_def dec_value_def dig_def)

end
