(* ===== verification/CoreRow.thy ===== *)
theory CoreRow
  imports CoreValue
begin

text \<open>
  Row images and primary keys, after the second half of \<^verbatim>\<open>internal/core/value.go\<close> and \<^verbatim>\<open>MaskOf\<close> of
  \<^verbatim>\<open>internal/core/mask.go\<close>. A \<^verbatim>\<open>Row\<close> is a Go map that may be nil, so it is an optional finite map.
  The lemmas show that \<^verbatim>\<open>Row.Equal\<close> meets the contract \<open>canonical_eq\<close>, that \<^verbatim>\<open>MaskOf\<close> marks exactly
  the schema columns whose values differ, and that the canonical encodings are prefix-free: two rows
  (two keys) with one encoding have the same cells.
\<close>

type_synonym row = "(colid, val) fmap option"
type_synonym pk = string

subsection \<open>Rows\<close>

definition row_cols :: "row \<Rightarrow> colid list" where
  "row_cols r = (case r of None \<Rightarrow> [] | Some m \<Rightarrow> fm_keys m)"

definition row_get :: "row \<Rightarrow> colid \<Rightarrow> val" where
  "row_get r c =
     (case r of None \<Rightarrow> null_val
      | Some m \<Rightarrow> (case fmlookup m c of Some v \<Rightarrow> v | None \<Rightarrow> null_val))"

definition row_equal :: "row \<Rightarrow> row \<Rightarrow> bool" where
  "row_equal r o' =
     (if (r = None) \<noteq> (o' = None) then False
      else list_all (\<lambda>c. val_equal (row_get r c) (row_get o' c)) (row_cols r)
         \<and> list_all (\<lambda>c. c \<in> set (row_cols r) \<or> val_equal (row_get o' c) (row_get r c)) (row_cols o'))"

text \<open>\<^verbatim>\<open>Row.Encode\<close>: the loop over the columns, which stops at the first error.\<close>

fun row_encode_cols :: "row \<Rightarrow> bytes \<Rightarrow> colid list \<Rightarrow> core_error + bytes" where
  "row_encode_cols r dst [] = Inr dst"
| "row_encode_cols r dst (c # cs) =
     (case val_encode (row_get r c) (append_uint32 dst c) of
        Inl e \<Rightarrow> Inl (ColumnError c e)
      | Inr dst' \<Rightarrow> row_encode_cols r dst' cs)"

definition row_encode :: "row \<Rightarrow> bytes \<Rightarrow> colid list \<Rightarrow> core_error + bytes" where
  "row_encode r dst cols = row_encode_cols r (append_uint32 dst (of_nat (length cols))) cols"

text \<open>\<^verbatim>\<open>MakePK\<close>; \<^term>\<open>None\<close> is the panic of \<^verbatim>\<open>MustEncode\<close>.\<close>

fun make_pk_cols :: "row \<Rightarrow> bytes \<Rightarrow> colid list \<Rightarrow> bytes option" where
  "make_pk_cols r buf [] = Some buf"
| "make_pk_cols r buf (c # cs) =
     (case val_must_encode (row_get r c) buf of
        None \<Rightarrow> None
      | Some buf' \<Rightarrow> make_pk_cols r buf' cs)"

definition make_pk :: "row \<Rightarrow> colid list \<Rightarrow> pk option" where
  "make_pk r pk_cols = make_pk_cols r (append_uint32 [] (of_nat (length pk_cols))) pk_cols"

definition mask_of :: "row \<Rightarrow> row \<Rightarrow> colid list \<Rightarrow> colmask" where
  "mask_of before after cols =
     foldl (\<lambda>m c. if \<not> val_equal (row_get before c) (row_get after c) then mask_set m c else m) [] cols"

subsection \<open>Equality of rows\<close>

definition row_ok :: "row \<Rightarrow> bool" where
  "row_ok r \<longleftrightarrow> (\<forall>c \<in> set (row_cols r). val_ok (row_get r c))"

definition row_repr :: "row \<Rightarrow> bool \<times> (colid \<Rightarrow> cell)" where
  "row_repr r = (r = None, \<lambda>c. cell_of (row_get r c))"

lemma row_get_outside: "c \<notin> set (row_cols r) \<Longrightarrow> row_get r c = null_val"
  by (auto simp: row_get_def row_cols_def fmlookup_dom'_iff split: option.splits)

lemma row_get_None [simp]: "row_get None c = null_val"
  by (simp add: row_get_def)

lemma row_ok_iff: "row_ok r \<longleftrightarrow> (\<forall>c. val_ok (row_get r c))"
  unfolding row_ok_def by (metis null_val_ok row_get_outside)

lemma row_equal_pointwise:
  "row_equal r s \<longleftrightarrow> (r = None \<longleftrightarrow> s = None) \<and> (\<forall>c. val_equal (row_get r c) (row_get s c))"
proof
  assume eq: "row_equal r s"
  have "val_equal (row_get r c) (row_get s c)" for c
  proof (cases "c \<in> set (row_cols r)")
    case True
    with eq show ?thesis by (auto simp: row_equal_def list_all_iff split: if_splits)
  next
    case out: False
    show ?thesis
    proof (cases "c \<in> set (row_cols s)")
      case True
      with eq out have "val_equal (row_get s c) (row_get r c)"
        by (auto simp: row_equal_def list_all_iff split: if_splits)
      then show ?thesis by (rule veq.eq_sym)
    next
      case False
      with out show ?thesis by (simp add: row_get_outside veq.eq_refl_iff)
    qed
  qed
  with eq show "(r = None \<longleftrightarrow> s = None) \<and> (\<forall>c. val_equal (row_get r c) (row_get s c))"
    by (auto simp: row_equal_def split: if_splits)
next
  assume "(r = None \<longleftrightarrow> s = None) \<and> (\<forall>c. val_equal (row_get r c) (row_get s c))"
  then show "row_equal r s" by (auto simp: row_equal_def list_all_iff veq.eq_sym)
qed

lemma row_equal_iff: "row_equal r s \<longleftrightarrow> row_ok r \<and> row_ok s \<and> row_repr r = row_repr s"
  by (auto simp: row_equal_pointwise row_ok_iff row_repr_def val_equal_iff fun_eq_iff)

interpretation req: canonical_eq row_equal row_ok row_repr
  by unfold_locales (rule row_equal_iff)

lemma row_ok_None [simp]: "row_ok None"
  by (simp add: row_ok_iff)

lemma row_get_upd: "row_get (Some (fmupd c v m)) d = (if d = c then v else row_get (Some m) d)"
  by (simp add: row_get_def)

lemma row_get_empty [simp]: "row_get (Some fmempty) c = null_val"
  by (simp add: row_get_def)

lemma row_get_tabulate:
  "row_get (Some (fm_tabulate cs f)) c = (if c \<in> set cs then f c else null_val)"
  by (simp add: row_get_def)

subsection \<open>MaskOf\<close>

lemma mask_has_Nil [simp]: "\<not> mask_has [] c"
  by (simp add: mask_has_def)

lemma mask_has_mask_of_aux:
  "mask_has (foldl (\<lambda>m c. if P c then mask_set m c else m) m0 cols) c
     \<longleftrightarrow> mask_has m0 c \<or> c \<in> set cols \<and> P c"
  by (induction cols arbitrary: m0) (auto simp: mask_has_set)

lemma mask_has_mask_of:
  "mask_has (mask_of before after cols) c
     \<longleftrightarrow> c \<in> set cols \<and> \<not> val_equal (row_get before c) (row_get after c)"
  by (simp add: mask_of_def mask_has_mask_of_aux mask_has_Nil)

subsection \<open>Big-endian integers\<close>

text \<open>What \<^verbatim>\<open>binary.BigEndian\<close> reads back.\<close>

definition be_value :: "bytes \<Rightarrow> nat" where
  "be_value bs = foldl (\<lambda>a c. 256 * a + of_char c) 0 bs"

lemma be_value_foldl: "foldl (\<lambda>a c. 256 * a + of_char c) n bs = n * 256 ^ length bs + be_value bs"
  by (induction bs rule: rev_induct) (simp_all add: be_value_def algebra_simps)

lemma be_value_Cons: "be_value (c # bs) = of_char c * 256 ^ length bs + be_value bs"
proof -
  have "be_value (c # bs) = foldl (\<lambda>a c. 256 * a + of_char c) (of_char c) bs"
    by (simp add: be_value_def)
  then show ?thesis by (simp only: be_value_foldl)
qed

lemma be_value_Nil [simp]: "be_value [] = 0"
  by (simp add: be_value_def)

lemma unat_drop_bytes: "unat (drop_bit (8 * i) w) = unat w div 256 ^ i"
  unfolding unat_drop_bit_eq by (simp add: drop_bit_eq_div power_mult)

lemma be_value_bytes:
  "be_value (map (\<lambda>i. char_of (unat (drop_bit (8 * i) w))) (rev [0..<k])) = unat w mod 256 ^ k"
proof (induction k)
  case (Suc k)
  have "be_value (map (\<lambda>i. char_of (unat (drop_bit (8 * i) w))) (rev [0..<Suc k]))
      = unat w div 256 ^ k mod 256 * 256 ^ k + unat w mod 256 ^ k"
    using Suc by (simp add: be_value_Cons unat_drop_bytes)
  also have "\<dots> = unat w mod (256 ^ k * 256)" by (simp add: mod_mult2_eq)
  finally show ?case by (simp add: mult.commute)
qed simp

lemma be_value_be32: "be_value (be32 w) = unat w"
proof -
  have "be32 w = map (\<lambda>i. char_of (unat (drop_bit (8 * i) w))) (rev [0..<4])"
    by (simp add: be32_def upt_rec)
  then have "be_value (be32 w) = unat w mod 256 ^ 4" by (simp only: be_value_bytes)
  moreover have "unat w < 2 ^ 32" using unsigned_less [of w] by simp
  ultimately show ?thesis by simp
qed

lemma be_value_be64: "be_value (be64 w) = unat w"
proof -
  have "be64 w = map (\<lambda>i. char_of (unat (drop_bit (8 * i) w))) (rev [0..<8])"
    by (simp add: be64_def upt_rec)
  then have "be_value (be64 w) = unat w mod 256 ^ 8" by (simp only: be_value_bytes)
  moreover have "unat w < 2 ^ 64" using unsigned_less [of w] by simp
  ultimately show ?thesis by simp
qed

lemma length_be32 [simp]: "length (be32 w) = 4"
  by (simp add: be32_def)

lemma length_be64 [simp]: "length (be64 w) = 8"
  by (simp add: be64_def)

lemma be32_append_inj [simp]: "be32 a @ x = be32 b @ y \<longleftrightarrow> a = b \<and> x = y"
proof -
  have "be32 a = be32 b \<Longrightarrow> a = b" using be_value_be32 [of a] be_value_be32 [of b] by (metis unsigned_word_eqI)
  then show ?thesis by (auto simp: append_eq_append_conv)
qed

lemma be64_append_inj [simp]: "be64 a @ x = be64 b @ y \<longleftrightarrow> a = b \<and> x = y"
proof -
  have "be64 a = be64 b \<Longrightarrow> a = b" using be_value_be64 [of a] be_value_be64 [of b] by (metis unsigned_word_eqI)
  then show ?thesis by (auto simp: append_eq_append_conv)
qed

subsection \<open>The encodings are prefix-free\<close>

text \<open>The payloads Go can frame without the uint32 length wrapping.\<close>

definition val_fits :: "val \<Rightarrow> bool" where
  "val_fits v \<longleftrightarrow> length (val_text v) < 2 ^ 32 \<and> length (val_bytes v) < 2 ^ 32"

lemma u32_length_inj:
  "m < 2 ^ 32 \<Longrightarrow> n < 2 ^ 32 \<Longrightarrow> (of_nat m :: u32) = of_nat n \<longleftrightarrow> m = n"
proof -
  assume m: "m < 2 ^ 32" and n: "n < 2 ^ 32"
  have "unat (of_nat m :: u32) = m" "unat (of_nat n :: u32) = n"
    using m n by (simp_all add: unsigned_of_nat take_bit_nat_eq_self)
  then show ?thesis by metis
qed

text \<open>What an accepted value's encoding appends, by its representation.\<close>

fun cell_bytes :: "cell \<Rightarrow> bytes" where
  "cell_bytes CNull = [char_of (0::nat)]"
| "cell_bytes (CBool b) = [char_of (1::nat), char_of (if b then 1 else 0 :: nat)]"
| "cell_bytes (CInt i) = char_of (2::nat) # be64 i"
| "cell_bytes (CFloat b) = char_of (3::nat) # be64 b"
| "cell_bytes (CNumeric s) = char_of (4::nat) # be32 (of_nat (length s)) @ s"
| "cell_bytes (CText s) = char_of (5::nat) # be32 (of_nat (length s)) @ s"
| "cell_bytes (CBytes s) = char_of (6::nat) # be32 (of_nat (length s)) @ s"
| "cell_bytes (CTime i) = char_of (7::nat) # be64 i"
| "cell_bytes (COther k) = []"

fun cell_fits :: "cell \<Rightarrow> bool" where
  "cell_fits (CNumeric s) \<longleftrightarrow> length s < 2 ^ 32"
| "cell_fits (CText s) \<longleftrightarrow> length s < 2 ^ 32"
| "cell_fits (CBytes s) \<longleftrightarrow> length s < 2 ^ 32"
| "cell_fits (COther _) \<longleftrightarrow> False"
| "cell_fits _ \<longleftrightarrow> True"

lemma val_encode_cell: "val_encode v dst = Inr e \<longleftrightarrow> val_ok v \<and> e = dst @ cell_bytes (cell_of v)"
  by (cases "val_kind v")
    (auto simp: val_encode_def val_ok_def cell_of_def append_len_prefixed_def Let_def)

lemma val_encode_error:
  "val_encode v dst = Inl e \<longleftrightarrow>
     (val_kind v = KindFloat \<and> float_is_nan (val_float v) \<and> e = NaNError) \<or>
     (\<exists>k. val_kind v = KindOther k \<and> e = KindError k)"
  by (cases "val_kind v") (auto simp: val_encode_def Let_def)

lemma cell_bytes_prefix_free:
  assumes "cell_fits a" "cell_fits b" "cell_bytes a @ x = cell_bytes b @ y"
  shows "a = b \<and> x = y"
  using assms by (cases a; cases b) (auto simp: u32_length_inj append_eq_append_conv split: if_splits)

lemma val_fits_cell: "val_fits v \<Longrightarrow> val_ok v \<Longrightarrow> cell_fits (cell_of v)"
  by (cases "val_kind v") (auto simp: val_fits_def val_ok_def cell_of_def)

lemma val_must_encode_cell:
  "val_must_encode v dst = Some e \<longleftrightarrow> val_ok v \<and> e = dst @ cell_bytes (cell_of v)"
  by (auto simp: val_must_encode_def val_encode_cell split: sum.splits)
    (metis val_encode_cell sum.distinct(1) sum.exhaust)+

subsection \<open>Encodings of rows and keys\<close>

definition cols_bytes :: "row \<Rightarrow> colid list \<Rightarrow> bytes" where
  "cols_bytes r cs = concat (map (\<lambda>c. be32 c @ cell_bytes (cell_of (row_get r c))) cs)"

definition tuple_cells :: "row \<Rightarrow> colid list \<Rightarrow> cell list" where
  "tuple_cells r cs = map (\<lambda>c. cell_of (row_get r c)) cs"

lemma row_encode_cols_iff:
  "row_encode_cols r dst cs = Inr e \<longleftrightarrow>
     (\<forall>c \<in> set cs. val_ok (row_get r c)) \<and> e = dst @ cols_bytes r cs"
proof (induction cs arbitrary: dst)
  case (Cons c cs)
  show ?case
  proof (cases "val_encode (row_get r c) (append_uint32 dst c)")
    case (Inl x)
    then have "\<not> val_ok (row_get r c)" using val_encode_cell by (metis sum.distinct(1))
    with Inl show ?thesis by simp
  next
    case (Inr d)
    then have d: "val_ok (row_get r c)" "d = append_uint32 dst c @ cell_bytes (cell_of (row_get r c))"
      using val_encode_cell by blast+
    have "row_encode_cols r dst (c # cs) = Inr e \<longleftrightarrow> row_encode_cols r d cs = Inr e"
      using Inr by simp
    also have "\<dots> \<longleftrightarrow> (\<forall>c \<in> set cs. val_ok (row_get r c)) \<and> e = d @ cols_bytes r cs"
      by (rule Cons.IH)
    finally show ?thesis using d by (simp add: append_uint32_def cols_bytes_def)
  qed
qed (auto simp: cols_bytes_def)

lemma row_encode_iff:
  "row_encode r dst cs = Inr e \<longleftrightarrow>
     (\<forall>c \<in> set cs. val_ok (row_get r c)) \<and> e = dst @ be32 (of_nat (length cs)) @ cols_bytes r cs"
  by (simp add: row_encode_def row_encode_cols_iff append_uint32_def)

lemma make_pk_cols_iff:
  "make_pk_cols r buf cs = Some e \<longleftrightarrow>
     (\<forall>c \<in> set cs. val_ok (row_get r c)) \<and> e = buf @ concat (map cell_bytes (tuple_cells r cs))"
proof (induction cs arbitrary: buf)
  case (Cons c cs)
  show ?case
  proof (cases "val_must_encode (row_get r c) buf")
    case None
    then have "\<not> val_ok (row_get r c)" using val_must_encode_cell by (metis option.distinct(1))
    with None show ?thesis by simp
  next
    case (Some d)
    then have d: "val_ok (row_get r c)" "d = buf @ cell_bytes (cell_of (row_get r c))"
      using val_must_encode_cell by blast+
    have "make_pk_cols r buf (c # cs) = Some e \<longleftrightarrow> make_pk_cols r d cs = Some e"
      using Some by simp
    also have "\<dots> \<longleftrightarrow> (\<forall>c \<in> set cs. val_ok (row_get r c))
        \<and> e = d @ concat (map cell_bytes (tuple_cells r cs))"
      by (rule Cons.IH)
    finally show ?thesis using d by (simp add: tuple_cells_def)
  qed
qed (auto simp: tuple_cells_def)

lemma make_pk_iff:
  "make_pk r cs = Some e \<longleftrightarrow>
     (\<forall>c \<in> set cs. val_ok (row_get r c)) \<and>
     e = be32 (of_nat (length cs)) @ concat (map cell_bytes (tuple_cells r cs))"
  by (simp add: make_pk_def make_pk_cols_iff append_uint32_def)

lemma cells_bytes_prefix_free:
  assumes "length as = length bs" "list_all cell_fits as" "list_all cell_fits bs"
    and "concat (map cell_bytes as) @ x = concat (map cell_bytes bs) @ y"
  shows "as = bs \<and> x = y"
  using assms
proof (induction as bs rule: list_induct2)
  case (Cons a as b bs)
  then have "cell_bytes a @ (concat (map cell_bytes as) @ x) = cell_bytes b @ (concat (map cell_bytes bs) @ y)"
    by simp
  then have "a = b \<and> concat (map cell_bytes as) @ x = concat (map cell_bytes bs) @ y"
    by (rule cell_bytes_prefix_free [rotated 2]) (use Cons.prems in simp_all)
  with Cons show ?case by simp
qed simp

lemma cols_bytes_prefix_free:
  assumes "length cs = length ds"
    and "list_all cell_fits (tuple_cells r cs)" "list_all cell_fits (tuple_cells s ds)"
    and "cols_bytes r cs @ x = cols_bytes s ds @ y"
  shows "cs = ds \<and> tuple_cells r cs = tuple_cells s ds \<and> x = y"
  using assms
proof (induction cs ds rule: list_induct2)
  case (Cons c cs d ds)
  let ?a = "cell_of (row_get r c)" and ?b = "cell_of (row_get s d)"
  have fits: "cell_fits ?a" "cell_fits ?b" using Cons.prems by (simp_all add: tuple_cells_def)
  have "be32 c @ (cell_bytes ?a @ (cols_bytes r cs @ x))
      = be32 d @ (cell_bytes ?b @ (cols_bytes s ds @ y))"
    using Cons.prems(3) by (simp add: cols_bytes_def del: be32_append_inj)
  then have cd: "c = d" and "cell_bytes ?a @ (cols_bytes r cs @ x) = cell_bytes ?b @ (cols_bytes s ds @ y)"
    unfolding be32_append_inj by blast+
  then have "?a = ?b \<and> cols_bytes r cs @ x = cols_bytes s ds @ y"
    using cell_bytes_prefix_free [OF fits] by blast
  with Cons cd show ?case by (auto simp: tuple_cells_def)
qed (simp add: tuple_cells_def cols_bytes_def)

definition row_fits :: "row \<Rightarrow> bool" where
  "row_fits r \<longleftrightarrow> (\<forall>c. val_fits (row_get r c))"

lemma fits_tuple:
  "row_fits r \<Longrightarrow> \<forall>c \<in> set cs. val_ok (row_get r c) \<Longrightarrow> list_all cell_fits (tuple_cells r cs)"
  by (auto simp: tuple_cells_def list_all_iff row_fits_def val_fits_cell)

text \<open>
  C24: \<^verbatim>\<open>Row.Encode\<close> is injective: two rows (and two column lists, of fewer than \<open>2 ^ 32\<close> columns, with
  payloads shorter than \<open>2 ^ 32\<close> bytes) that get the same bytes have the same columns and the same cells.
\<close>

theorem row_encode_injective:
  assumes "row_encode r [] cs = Inr e" and "row_encode s [] ds = Inr e"
    and "row_fits r" "row_fits s" "length cs < 2 ^ 32" "length ds < 2 ^ 32"
  shows "cs = ds \<and> (\<forall>c \<in> set cs. val_equal (row_get r c) (row_get s c))"
proof -
  have ok: "\<forall>c \<in> set cs. val_ok (row_get r c)" "\<forall>c \<in> set ds. val_ok (row_get s c)"
    using assms(1,2) by (simp_all add: row_encode_iff)
  have "be32 (of_nat (length cs)) @ cols_bytes r cs = be32 (of_nat (length ds)) @ cols_bytes s ds"
    using assms(1,2) by (simp add: row_encode_iff)
  then have "(of_nat (length cs) :: u32) = of_nat (length ds)" and "cols_bytes r cs = cols_bytes s ds"
    unfolding be32_append_inj by simp_all
  then have "length cs = length ds" and "cols_bytes r cs @ [] = cols_bytes s ds @ []"
    using assms(5,6) u32_length_inj by simp_all
  then have *: "cs = ds \<and> tuple_cells r cs = tuple_cells s ds"
    using cols_bytes_prefix_free fits_tuple [OF assms(3) ok(1)] fits_tuple [OF assms(4) ok(2)] by blast
  then show ?thesis using ok by (auto simp: tuple_cells_def val_equal_iff)
qed

definition sample_row :: row where
  "sample_row = Some (fmap_of_list [(1, int_val 7), (2, text_val ''ab'')])"

lemma sample_row_get:
  "row_get sample_row c = (if c = 1 then int_val 7 else if c = 2 then text_val ''ab'' else null_val)"
  by (auto simp: row_get_def sample_row_def fmlookup_of_list)

lemma sample_row_fits: "row_fits sample_row"
  by (auto simp: row_fits_def val_fits_def sample_row_get int_val_def text_val_def null_val_def zero_val_def)

lemma sample_row_ok: "val_ok (row_get sample_row c)"
  by (auto simp: sample_row_get val_ok_def int_val_def text_val_def null_val_def zero_val_def)

theorem row_encode_injective_witness:
  "\<exists>e. row_encode sample_row [] [1, 2] = Inr e \<and> val_equal (row_get sample_row 2) (row_get sample_row 2)"
proof -
  obtain e where e: "row_encode sample_row [] [1, 2] = Inr e"
    using row_encode_iff [of sample_row "[]" "[1, 2]"] sample_row_ok by blast
  from row_encode_injective [OF e e sample_row_fits sample_row_fits] e show ?thesis by simp
qed

text \<open>
  \<^verbatim>\<open>MakePK\<close> identifies a row by its key tuple: two rows get one key exactly when they have equally
  many key columns holding equal values, in order.
\<close>

theorem make_pk_identifies:
  assumes "make_pk r ps = Some k" and "make_pk s qs = Some k'"
    and "row_fits r" "row_fits s" "length ps < 2 ^ 32" "length qs < 2 ^ 32"
  shows "k = k' \<longleftrightarrow> list_all2 (\<lambda>p q. val_equal (row_get r p) (row_get s q)) ps qs"
proof -
  have ok: "\<forall>c \<in> set ps. val_ok (row_get r c)" "\<forall>c \<in> set qs. val_ok (row_get s c)"
    and k: "k = be32 (of_nat (length ps)) @ concat (map cell_bytes (tuple_cells r ps))"
      "k' = be32 (of_nat (length qs)) @ concat (map cell_bytes (tuple_cells s qs))"
    using assms(1,2) by (simp_all add: make_pk_iff)
  have "k = k' \<longleftrightarrow> tuple_cells r ps = tuple_cells s qs"
  proof
    assume "k = k'"
    then have len: "(of_nat (length ps) :: u32) = of_nat (length qs)"
      and bs: "concat (map cell_bytes (tuple_cells r ps)) = concat (map cell_bytes (tuple_cells s qs))"
      unfolding k be32_append_inj by simp_all
    then have "length (tuple_cells r ps) = length (tuple_cells s qs)"
      using assms(5,6) u32_length_inj by (simp add: tuple_cells_def)
    with bs show "tuple_cells r ps = tuple_cells s qs"
      using cells_bytes_prefix_free [of _ _ "[]" "[]"] fits_tuple [OF assms(3) ok(1)]
        fits_tuple [OF assms(4) ok(2)] by simp
  next
    assume "tuple_cells r ps = tuple_cells s qs"
    moreover from this have "length ps = length qs"
      unfolding tuple_cells_def by (rule map_eq_imp_length_eq)
    ultimately show "k = k'" unfolding k by simp
  qed
  also have "\<dots> \<longleftrightarrow> list_all2 (\<lambda>p q. val_equal (row_get r p) (row_get s q)) ps qs"
  proof -
    have "tuple_cells r ps = tuple_cells s qs
        \<longleftrightarrow> list_all2 (\<lambda>p q. cell_of (row_get r p) = cell_of (row_get s q)) ps qs"
      unfolding tuple_cells_def
      by (simp add: list.rel_map list.rel_eq [symmetric])
    also have "\<dots> \<longleftrightarrow> list_all2 (\<lambda>p q. val_equal (row_get r p) (row_get s q)) ps qs"
      using ok by (auto simp: val_equal_iff list_all2_iff dest: set_zip_leftD set_zip_rightD)
    finally show ?thesis .
  qed
  finally show ?thesis .
qed

theorem make_pk_identifies_witness:
  "\<exists>k. make_pk sample_row [1, 2] = Some k \<and>
       list_all2 (\<lambda>p q. val_equal (row_get sample_row p) (row_get sample_row q)) [1, 2] [1, 2]"
proof -
  obtain k where k: "make_pk sample_row [1, 2] = Some k"
    using make_pk_iff [of sample_row "[1, 2]"] sample_row_ok by blast
  from make_pk_identifies [OF k k sample_row_fits sample_row_fits] k show ?thesis by simp
qed

end
