(* ===== verification/CoreChange.thy ===== *)
theory CoreChange
  imports CoreRow "HOL-Library.Product_Lexorder"
begin

text \<open>
  Changes, conflicts and tables, after \<^verbatim>\<open>internal/core/change.go\<close>: the vocabulary the reference
  model and the engine share. \<^verbatim>\<open>Table.Equal\<close> meets the same contract as \<^verbatim>\<open>Row.Equal\<close>.
\<close>

subsection \<open>Operations\<close>

text \<open>\<open>OpOther\<close> is any other uint8; the code treats it like a write everywhere.\<close>

datatype op = OpInsert | OpUpdate | OpDelete | OpOther u8

fun op_string :: "op \<Rightarrow> string" where
  "op_string OpInsert = ''insert''"
| "op_string OpUpdate = ''update''"
| "op_string OpDelete = ''delete''"
| "op_string (OpOther _) = ''?''"

subsection \<open>Change sets\<close>

record change =
  ch_pk :: pk
  ch_op :: op
  ch_row :: row
  ch_changed :: colmask

type_synonym changeset = "(pk, change) fmap"

definition cs_sorted :: "changeset \<Rightarrow> change list" where
  "cs_sorted cs = sort_key ch_pk (map (\<lambda>k. the (fmlookup cs k)) (fm_keys cs))"

text \<open>A change set built the way every caller builds it: each change sits under its own key.\<close>

definition cs_keyed :: "changeset \<Rightarrow> bool" where
  "cs_keyed cs \<longleftrightarrow> (\<forall>k ch. fmlookup cs k = Some ch \<longrightarrow> ch_pk ch = k)"

lemma cs_sorted_keyed:
  assumes "cs_keyed cs"
  shows "cs_sorted cs = map (\<lambda>k. the (fmlookup cs k)) (fm_keys cs)"
proof -
  let ?f = "\<lambda>k. the (fmlookup cs k)"
  have "map (ch_pk \<circ> ?f) (fm_keys cs) = map id (fm_keys cs)"
    by (rule map_cong) (use assms in \<open>auto simp: cs_keyed_def fmlookup_dom'_iff\<close>)
  then have "sorted (map ch_pk (map ?f (fm_keys cs)))" by simp
  then show ?thesis unfolding cs_sorted_def by (rule sort_key_id_if_sorted)
qed

lemma set_cs_sorted: "set (cs_sorted cs) = {ch. \<exists>k. fmlookup cs k = Some ch}"
  by (force simp: cs_sorted_def fmlookup_dom'_iff image_iff)

lemma cs_sorted_pks: "cs_keyed cs \<Longrightarrow> map ch_pk (cs_sorted cs) = fm_keys cs"
proof -
  assume k: "cs_keyed cs"
  have "map (ch_pk \<circ> (\<lambda>k. the (fmlookup cs k))) (fm_keys cs) = map id (fm_keys cs)"
    by (rule map_cong) (use k in \<open>auto simp: cs_keyed_def fmlookup_dom'_iff\<close>)
  then show ?thesis by (simp add: cs_sorted_keyed [OF k])
qed

subsection \<open>Conflicts\<close>

datatype conflict_kind = ConflictCell | ConflictAddAdd | ConflictDeleteModify | ConflictConstraint

fun conflict_kind_num :: "conflict_kind \<Rightarrow> nat" where
  "conflict_kind_num ConflictCell = 1"
| "conflict_kind_num ConflictAddAdd = 2"
| "conflict_kind_num ConflictDeleteModify = 3"
| "conflict_kind_num ConflictConstraint = 4"

lemma conflict_kind_num_inj [simp]: "conflict_kind_num a = conflict_kind_num b \<longleftrightarrow> a = b"
  by (cases a; cases b) simp_all

instantiation conflict_kind :: linorder
begin

definition less_eq_conflict_kind :: "conflict_kind \<Rightarrow> conflict_kind \<Rightarrow> bool" where
  "less_eq_conflict_kind a b \<longleftrightarrow> conflict_kind_num a \<le> conflict_kind_num b"

definition less_conflict_kind :: "conflict_kind \<Rightarrow> conflict_kind \<Rightarrow> bool" where
  "less_conflict_kind a b \<longleftrightarrow> conflict_kind_num a < conflict_kind_num b"

instance
  by standard (auto simp: less_eq_conflict_kind_def less_conflict_kind_def)

end

fun conflict_kind_string :: "conflict_kind \<Rightarrow> string" where
  "conflict_kind_string ConflictCell = ''cell''"
| "conflict_kind_string ConflictAddAdd = ''add_add''"
| "conflict_kind_string ConflictDeleteModify = ''delete_modify''"
| "conflict_kind_string ConflictConstraint = ''constraint''"

record conflict =
  cf_pk :: pk
  cf_kind :: conflict_kind
  cf_col :: colid
  cf_has_col :: bool
  cf_base :: val
  cf_ours :: val
  cf_theirs :: val

text \<open>\<^verbatim>\<open>Conflict{PK: pk, Kind: kind}\<close>: the other fields are Go's zero values.\<close>

definition row_conflict :: "pk \<Rightarrow> conflict_kind \<Rightarrow> conflict" where
  "row_conflict p k = \<lparr>cf_pk = p, cf_kind = k, cf_col = 0, cf_has_col = False,
     cf_base = zero_val, cf_ours = zero_val, cf_theirs = zero_val\<rparr>"

definition cell_conflict :: "pk \<Rightarrow> colid \<Rightarrow> val \<Rightarrow> val \<Rightarrow> val \<Rightarrow> conflict" where
  "cell_conflict p c bv av tv = \<lparr>cf_pk = p, cf_kind = ConflictCell, cf_col = c, cf_has_col = True,
     cf_base = bv, cf_ours = av, cf_theirs = tv\<rparr>"

definition conflict_key :: "conflict \<Rightarrow> pk \<times> conflict_kind \<times> colid" where
  "conflict_key c = (cf_pk c, cf_kind c, cf_col c)"

definition sort_conflicts :: "conflict list \<Rightarrow> conflict list" where
  "sort_conflicts cs = sort_key conflict_key cs"

lemma sort_conflicts_empty [simp]: "sort_conflicts cs = [] \<longleftrightarrow> cs = []"
  by (metis sort_conflicts_def sort_key_const set_empty set_sort)

lemma set_sort_conflicts [simp]: "set (sort_conflicts cs) = set cs"
  by (simp add: sort_conflicts_def)

subsection \<open>Tables\<close>

type_synonym table = "(pk, row) fmap"

definition table_equal :: "table \<Rightarrow> table \<Rightarrow> bool" where
  "table_equal t s =
     (if length (fm_keys t) \<noteq> length (fm_keys s) then False
      else list_all (\<lambda>k. case fmlookup s k of
                           None \<Rightarrow> False
                         | Some r' \<Rightarrow> row_equal (the (fmlookup t k)) r') (fm_keys t))"

definition table_keys :: "table \<Rightarrow> pk list" where
  "table_keys t = fm_keys t"

definition table_ok :: "table \<Rightarrow> bool" where
  "table_ok t \<longleftrightarrow> (\<forall>k r. fmlookup t k = Some r \<longrightarrow> row_ok r)"

definition table_repr :: "table \<Rightarrow> pk \<Rightarrow> (bool \<times> (colid \<Rightarrow> cell)) option" where
  "table_repr t = (\<lambda>k. map_option row_repr (fmlookup t k))"

lemma length_fm_keys: "length (fm_keys t) = card (fmdom' t)"
  by (simp add: fm_keys_def)

lemma table_repr_dom: "table_repr t = table_repr s \<Longrightarrow> fmdom' t = fmdom' s"
  by (metis fmlookup_None_dom map_option_is_None subsetI subset_antisym table_repr_def)

lemma table_equal_iff: "table_equal t s \<longleftrightarrow> table_ok t \<and> table_ok s \<and> table_repr t = table_repr s"
proof
  assume eq: "table_equal t s"
  have entry: "\<exists>r'. fmlookup s k = Some r' \<and> row_equal r r'" if "fmlookup t k = Some r" for k r
  proof -
    have "k \<in> fmdom' t" using that by (rule fmlookup_Some_dom)
    with eq have "case fmlookup s k of None \<Rightarrow> False | Some r' \<Rightarrow> row_equal (the (fmlookup t k)) r'"
      by (auto simp: table_equal_def list_all_iff split: if_splits)
    with that show ?thesis by (auto split: option.splits)
  qed
  then have sub: "fmdom' t \<subseteq> fmdom' s" by (fastforce simp: fmlookup_dom'_iff)
  have "card (fmdom' t) = card (fmdom' s)"
    using eq by (auto simp: table_equal_def length_fm_keys split: if_splits)
  with sub have dom: "fmdom' t = fmdom' s" by (simp add: card_subset_eq)
  have "table_repr t k = table_repr s k" for k
  proof (cases "fmlookup t k")
    case None
    then have "fmlookup s k = None" using dom by (simp add: fmlookup_None_dom)
    with None show ?thesis by (simp add: table_repr_def)
  next
    case (Some r)
    with entry obtain r' where "fmlookup s k = Some r'" "row_equal r r'" by blast
    with Some show ?thesis by (simp add: table_repr_def row_equal_iff)
  qed
  moreover have "table_ok t" using entry by (fastforce simp: table_ok_def row_equal_iff)
  moreover have "table_ok s"
    unfolding table_ok_def
  proof (intro allI impI)
    fix k r' assume s: "fmlookup s k = Some r'"
    then have "k \<in> fmdom' t" using dom by (simp add: fmlookup_Some_dom)
    then obtain r where "fmlookup t k = Some r" by (auto simp: fmlookup_dom'_iff)
    with entry s show "row_ok r'" by (fastforce simp: row_equal_iff)
  qed
  ultimately show "table_ok t \<and> table_ok s \<and> table_repr t = table_repr s" by blast
next
  assume a: "table_ok t \<and> table_ok s \<and> table_repr t = table_repr s"
  then have "fmdom' t = fmdom' s" using table_repr_dom by blast
  moreover have "case fmlookup s k of None \<Rightarrow> False | Some r' \<Rightarrow> row_equal (the (fmlookup t k)) r'"
    if "k \<in> fmdom' t" for k
  proof -
    obtain r where r: "fmlookup t k = Some r" using \<open>k \<in> fmdom' t\<close> by (auto simp: fmlookup_dom'_iff)
    have "table_repr t k = table_repr s k" using a by simp
    then obtain r' where r': "fmlookup s k = Some r'" "row_repr r = row_repr r'"
      using r by (cases "fmlookup s k") (auto simp: table_repr_def)
    with r a show ?thesis by (auto simp: table_ok_def row_equal_iff)
  qed
  ultimately show "table_equal t s" by (simp add: table_equal_def length_fm_keys list_all_iff)
qed

interpretation teq: canonical_eq table_equal table_ok table_repr
  by unfold_locales (rule table_equal_iff)

subsection \<open>Schema\<close>

record schema =
  sc_cols :: "colid list"
  sc_pk_cols :: "colid list"

end
