(* ===== verification/CommitGraph.thy ===== *)
theory CommitGraph
  imports Prelude
begin

text \<open>
  The commit DAG and its merge bases. The reference model and the engine each walk the parent links
  of their own commit table; what they walk is a finite map from a commit id to its parent list. The
  engine collects the ancestors breadth first (\<^verbatim>\<open>reach\<close> in \<^verbatim>\<open>Engine.MergeBase\<close>), the model depth first
  (\<^verbatim>\<open>Repo.ancestors\<close>); both walks stop, both compute reachability, so both name the same bases.
  The locale \<open>ancestry\<close> is the interface the selection of bases has with either walk.
\<close>

type_synonym cid = string
type_synonym graph = "(cid, cid list) fmap"

definition parents_of :: "graph \<Rightarrow> cid \<Rightarrow> cid list" where
  "parents_of g c = (case fmlookup g c of None \<Rightarrow> [] | Some ps \<Rightarrow> ps)"

text \<open>Reachability along parent links.\<close>

inductive reaches :: "graph \<Rightarrow> cid \<Rightarrow> cid \<Rightarrow> bool" for g where
  reaches_refl: "reaches g c c"
| reaches_step: "reaches g c d \<Longrightarrow> p \<in> set (parents_of g d) \<Longrightarrow> reaches g c p"

lemma reaches_trans: "reaches g a b \<Longrightarrow> reaches g b c \<Longrightarrow> reaches g a c"
  by (rotate_tac 1, induction rule: reaches.induct) (auto intro: reaches.intros)

lemma reaches_parent: "p \<in> set (parents_of g c) \<Longrightarrow> reaches g p d \<Longrightarrow> reaches g c d"
  by (rule reaches_trans [of g c p]) (auto intro: reaches.intros)

text \<open>Every id a walk can meet is the start or a parent of some commit.\<close>

definition all_parents :: "graph \<Rightarrow> cid set" where
  "all_parents g = (\<Union>ps \<in> fset (fmran g). set ps)"

lemma finite_all_parents [simp]: "finite (all_parents g)"
  by (simp add: all_parents_def)

lemma parents_of_all: "p \<in> set (parents_of g c) \<Longrightarrow> p \<in> all_parents g"
  by (cases "fmlookup g c") (auto simp: parents_of_def all_parents_def intro!: bexI dest: fmranI)

subsection \<open>Breadth first, as the engine does\<close>

text \<open>The inner loop: a parent not yet seen gets a distance and joins the queue.\<close>

fun reach_parents :: "nat \<Rightarrow> cid list \<Rightarrow> (cid, nat) fmap \<Rightarrow> cid list \<Rightarrow> (cid, nat) fmap \<times> cid list" where
  "reach_parents d [] dist queue = (dist, queue)"
| "reach_parents d (p # ps) dist queue =
     (if fmlookup dist p = None then reach_parents d ps (fmupd p (d + 1) dist) (queue @ [p])
      else reach_parents d ps dist queue)"

lemma reach_parents_dom:
  "fmdom' (fst (reach_parents d ps dist queue)) = fmdom' dist \<union> set ps"
  by (induction d ps dist queue rule: reach_parents.induct) (auto simp: fmlookup_None_dom)

lemma reach_parents_queue:
  "\<exists>new. snd (reach_parents d ps dist queue) = queue @ new \<and> set new = set ps - fmdom' dist \<and> distinct new"
proof (induction d ps dist queue rule: reach_parents.induct)
  case (2 d p ps dist queue)
  show ?case
  proof (cases "fmlookup dist p = None")
    case True
    with 2 obtain new where "snd (reach_parents d ps (fmupd p (d + 1) dist) (queue @ [p])) = (queue @ [p]) @ new"
      "set new = set ps - fmdom' (fmupd p (d + 1) dist)" "distinct new" by blast
    with True show ?thesis by (intro exI [of _ "p # new"]) (auto simp: fmlookup_None_dom)
  next
    case False
    with 2 show ?thesis by (auto simp: fmlookup_None_dom)
  qed
qed simp

function reach_loop :: "graph \<Rightarrow> (cid, nat) fmap \<Rightarrow> cid list \<Rightarrow> (cid, nat) fmap" where
  "reach_loop g dist [] = dist"
| "reach_loop g dist (cur # queue) =
     (case fmlookup g cur of
        None \<Rightarrow> reach_loop g dist queue
      | Some ps \<Rightarrow>
          let (dist', queue') = reach_parents (case fmlookup dist cur of None \<Rightarrow> 0 | Some d \<Rightarrow> d) ps dist queue
          in reach_loop g dist' queue')"
  by pat_completeness auto

lemma reach_parents_measure:
  assumes "fmlookup g cur = Some ps" and "reach_parents d ps dist queue = (dist', queue')"
  shows "2 * card (all_parents g - fmdom' dist') + length queue'
       < Suc (2 * card (all_parents g - fmdom' dist) + length queue)"
proof -
  obtain new where q: "queue' = queue @ new" and new: "set new = set ps - fmdom' dist" "distinct new"
    using reach_parents_queue [of d ps dist queue] assms(2) by auto
  have dom: "fmdom' dist' = fmdom' dist \<union> set ps"
    using reach_parents_dom [of d ps dist queue] assms(2) by simp
  have sub: "set new \<subseteq> all_parents g - fmdom' dist"
    using new(1) parents_of_all [of _ g cur] assms(1) by (auto simp: parents_of_def)
  have eq: "all_parents g - fmdom' dist' = (all_parents g - fmdom' dist) - set new"
    using dom new(1) by auto
  have "card (all_parents g - fmdom' dist') = card (all_parents g - fmdom' dist) - length new"
    unfolding eq using sub new(2) by (simp add: card_Diff_subset distinct_card)
  moreover have "length new \<le> card (all_parents g - fmdom' dist)"
    using card_mono [OF _ sub] new(2) by (simp add: distinct_card)
  ultimately show ?thesis using q by simp
qed

termination reach_loop
proof (relation "measure (\<lambda>(g, dist, queue). 2 * card (all_parents g - fmdom' dist) + length queue)",
    goal_cases)
  case (3 g dist cur queue ps r dist' queue')
  then have "reach_parents (case fmlookup dist cur of None \<Rightarrow> 0 | Some d \<Rightarrow> d) ps dist queue = (dist', queue')"
    by simp
  from reach_parents_measure [OF 3(1) this] show ?case by simp
qed simp_all

definition reach :: "graph \<Rightarrow> cid \<Rightarrow> (cid, nat) fmap" where
  "reach g start = reach_loop g (fmap_of_list [(start, 0)]) [start]"

text \<open>
  The loop ends with a set of seen commits that is closed under parents, and it never leaves what the
  start reaches.
\<close>

definition closed_but :: "graph \<Rightarrow> cid set \<Rightarrow> cid set \<Rightarrow> bool" where
  "closed_but g S Q \<longleftrightarrow> (\<forall>c \<in> S - Q. set (parents_of g c) \<subseteq> S)"

lemma closed_reaches:
  assumes "closed_but g S {}" and "reaches g c d" and "c \<in> S"
  shows "d \<in> S"
  using assms(2,3) by induction (use assms(1) in \<open>auto simp: closed_but_def\<close>)

lemma reach_loop_grows: "fmdom' dist \<subseteq> fmdom' (reach_loop g dist queue)"
proof (induction g dist queue rule: reach_loop.induct)
  case (2 g dist cur queue)
  then show ?case
    using reach_parents_dom
    by (auto split: option.splits prod.splits) (metis UnCI fst_conv subsetD)+
qed simp

lemma reach_loop_closed:
  "set queue \<subseteq> fmdom' dist \<Longrightarrow> closed_but g (fmdom' dist) (set queue) \<Longrightarrow>
   closed_but g (fmdom' (reach_loop g dist queue)) {}"
proof (induction g dist queue rule: reach_loop.induct)
  case (2 g dist cur queue)
  show ?case
  proof (cases "fmlookup g cur")
    case None
    then have "parents_of g cur = []" by (simp add: parents_of_def)
    then have "closed_but g (fmdom' dist) (set queue)"
      using 2(4) by (auto simp: closed_but_def)
    with 2(1) [OF None] 2(3) None show ?thesis by simp
  next
    case (Some ps)
    obtain dist' queue' where r:
      "reach_parents (case fmlookup dist cur of None \<Rightarrow> 0 | Some d \<Rightarrow> d) ps dist queue = (dist', queue')"
      by fastforce
    obtain new where q: "queue' = queue @ new" "set new = set ps - fmdom' dist"
      using reach_parents_queue [of _ ps dist queue] r by (metis snd_conv)
    have dom: "fmdom' dist' = fmdom' dist \<union> set ps"
      using reach_parents_dom [of _ ps dist queue] r by (metis fst_conv)
    have "closed_but g (fmdom' dist') (set queue')"
      unfolding closed_but_def
    proof
      fix c assume c: "c \<in> fmdom' dist' - set queue'"
      show "set (parents_of g c) \<subseteq> fmdom' dist'"
      proof (cases "c = cur")
        case True
        then show ?thesis using Some dom by (simp add: parents_of_def)
      next
        case False
        with c q dom have "c \<in> fmdom' dist - set (cur # queue)" by auto
        with 2(4) dom show ?thesis by (auto simp: closed_but_def)
      qed
    qed
    moreover have "set queue' \<subseteq> fmdom' dist'" using 2(3) q dom by auto
    ultimately show ?thesis using 2(2) [OF Some r [symmetric] refl] Some r by simp
  qed
qed simp

lemma reach_loop_sound:
  "set queue \<subseteq> fmdom' dist \<Longrightarrow> fmdom' dist \<subseteq> {c. reaches g a c} \<Longrightarrow>
   fmdom' (reach_loop g dist queue) \<subseteq> {c. reaches g a c}"
proof (induction g dist queue rule: reach_loop.induct)
  case (2 g dist cur queue)
  show ?case
  proof (cases "fmlookup g cur")
    case None
    with 2(1) [OF None] 2(3,4) show ?thesis by simp
  next
    case (Some ps)
    obtain dist' queue' where r:
      "reach_parents (case fmlookup dist cur of None \<Rightarrow> 0 | Some d \<Rightarrow> d) ps dist queue = (dist', queue')"
      by fastforce
    obtain new where q: "queue' = queue @ new" "set new = set ps - fmdom' dist"
      using reach_parents_queue [of _ ps dist queue] r by (metis snd_conv)
    have dom: "fmdom' dist' = fmdom' dist \<union> set ps"
      using reach_parents_dom [of _ ps dist queue] r by (metis fst_conv)
    have "reaches g a cur" using 2(3,4) by auto
    then have "set ps \<subseteq> {c. reaches g a c}"
      using Some by (auto simp: parents_of_def intro: reaches_step)
    with dom 2(4) have "fmdom' dist' \<subseteq> {c. reaches g a c}" by simp
    moreover have "set queue' \<subseteq> fmdom' dist'" using 2(3) q dom by auto
    ultimately show ?thesis using 2(2) [OF Some r [symmetric] refl] Some r by simp
  qed
qed simp

lemma fmdom'_reach: "fmdom' (reach g a) = {c. reaches g a c}"
proof
  let ?d = "fmap_of_list [(a, 0 :: nat)]"
  have d: "fmdom' ?d = {a}" by (simp add: fmdom'_alt_def)
  show "fmdom' (reach g a) \<subseteq> {c. reaches g a c}"
    unfolding reach_def by (rule reach_loop_sound) (auto simp: d intro: reaches_refl)
  have cl: "closed_but g (fmdom' (reach g a)) {}"
    unfolding reach_def by (rule reach_loop_closed) (auto simp: d closed_but_def)
  have "a \<in> fmdom' (reach g a)"
    using reach_loop_grows [of ?d g "[a]"] d by (auto simp: reach_def)
  then show "{c. reaches g a c} \<subseteq> fmdom' (reach g a)"
    using closed_reaches [OF cl] by auto
qed

subsection \<open>Depth first, as the model does\<close>

text \<open>The pending calls of \<^verbatim>\<open>walk\<close> are a stack: the parents of a new commit go in front.\<close>

function anc_walk :: "graph \<Rightarrow> cid list \<Rightarrow> (cid, bool) fmap \<Rightarrow> (cid, bool) fmap" where
  "anc_walk g [] seen = seen"
| "anc_walk g (c # stack) seen =
     (if fmlookup seen c = Some True then anc_walk g stack seen
      else anc_walk g (parents_of g c @ stack) (fmupd c True seen))"
  by pat_completeness auto

definition anc_todo :: "graph \<Rightarrow> cid list \<Rightarrow> (cid, bool) fmap \<Rightarrow> cid set" where
  "anc_todo g stack seen = (all_parents g \<union> set stack) - {c. fmlookup seen c = Some True}"

lemma finite_anc_todo [simp]: "finite (anc_todo g stack seen)"
  by (simp add: anc_todo_def)

lemma anc_todo_new:
  assumes "fmlookup seen c \<noteq> Some True"
  shows "card (anc_todo g (parents_of g c @ stack) (fmupd c True seen)) < card (anc_todo g (c # stack) seen)"
proof (rule psubset_card_mono)
  have "anc_todo g (parents_of g c @ stack) (fmupd c True seen) \<subseteq> anc_todo g (c # stack) seen - {c}"
    using parents_of_all by (auto simp: anc_todo_def split: if_splits)
  moreover have "c \<in> anc_todo g (c # stack) seen" using assms by (simp add: anc_todo_def)
  ultimately show "anc_todo g (parents_of g c @ stack) (fmupd c True seen) \<subset> anc_todo g (c # stack) seen"
    by blast
qed simp

lemma anc_todo_pop: "card (anc_todo g stack seen) \<le> card (anc_todo g (c # stack) seen)"
  by (rule card_mono) (auto simp: anc_todo_def)

termination anc_walk
proof (relation "(\<lambda>(g, stack, seen). card (anc_todo g stack seen)) <*mlex*>
      measure (\<lambda>(g, stack, seen). length stack)", goal_cases)
  case 1
  then show ?case by (simp add: wf_mlex)
next
  case (2 g c stack seen)
  then show ?case using anc_todo_pop by (auto simp: mlex_iff le_less)
next
  case (3 g c stack seen)
  then show ?case using anc_todo_new by (auto simp: mlex_iff)
qed

definition ancestors :: "graph \<Rightarrow> cid \<Rightarrow> (cid, bool) fmap" where
  "ancestors g c = anc_walk g [c] fmempty"

definition all_true :: "(cid, bool) fmap \<Rightarrow> bool" where
  "all_true seen \<longleftrightarrow> (\<forall>c b. fmlookup seen c = Some b \<longrightarrow> b)"

lemma all_true_dom: "all_true seen \<Longrightarrow> fmlookup seen c = Some True \<longleftrightarrow> c \<in> fmdom' seen"
  unfolding all_true_def fmlookup_dom'_iff by (metis (full_types))

lemma all_true_upd: "all_true seen \<Longrightarrow> all_true (fmupd c True seen)"
  by (auto simp: all_true_def)

lemma anc_walk_props:
  "all_true seen \<Longrightarrow> set stack \<union> fmdom' seen \<subseteq> {c. reaches g a c} \<Longrightarrow>
   (\<forall>c \<in> fmdom' seen. set (parents_of g c) \<subseteq> fmdom' seen \<union> set stack) \<Longrightarrow>
   all_true (anc_walk g stack seen) \<and> fmdom' (anc_walk g stack seen) \<subseteq> {c. reaches g a c} \<and>
   set stack \<union> fmdom' seen \<subseteq> fmdom' (anc_walk g stack seen) \<and>
   closed_but g (fmdom' (anc_walk g stack seen)) {}"
proof (induction g stack seen rule: anc_walk.induct)
  case (1 g seen)
  then show ?case by (simp add: closed_but_def)
next
  case (2 g c stack seen)
  show ?case
  proof (cases "fmlookup seen c = Some True")
    case True
    then have "c \<in> fmdom' seen" by (rule fmlookup_Some_dom)
    with 2(1) [OF True] 2(3-5) True show ?thesis by auto
  next
    case False
    have pars: "set (parents_of g c) \<subseteq> {d. reaches g a d}"
      using 2(4) by (auto intro: reaches_step)
    have "all_true (fmupd c True seen)" using 2(3) by (rule all_true_upd)
    moreover have "set (parents_of g c @ stack) \<union> fmdom' (fmupd c True seen) \<subseteq> {d. reaches g a d}"
      using 2(4) pars by auto
    moreover have "\<forall>d \<in> fmdom' (fmupd c True seen).
        set (parents_of g d) \<subseteq> fmdom' (fmupd c True seen) \<union> set (parents_of g c @ stack)"
      using 2(5) by auto
    ultimately show ?thesis using 2(2) [OF False] False by auto
  qed
qed

lemma ancestors_props: "all_true (ancestors g a)" "fmdom' (ancestors g a) = {c. reaches g a c}"
proof -
  have *: "all_true (ancestors g a) \<and> fmdom' (ancestors g a) \<subseteq> {c. reaches g a c} \<and>
      set [a] \<union> fmdom' (fmempty :: (cid, bool) fmap) \<subseteq> fmdom' (ancestors g a) \<and>
      closed_but g (fmdom' (ancestors g a)) {}"
    unfolding ancestors_def by (rule anc_walk_props) (auto simp: all_true_def intro: reaches_refl)
  then show "all_true (ancestors g a)" by simp
  show "fmdom' (ancestors g a) = {c. reaches g a c}"
    using * closed_reaches by fastforce
qed

subsection \<open>Merge bases\<close>

text \<open>The selection both \<^verbatim>\<open>MergeBase\<close> functions make, over either walk's map.\<close>

definition bases_of :: "(cid \<Rightarrow> (cid, 'v) fmap) \<Rightarrow> cid \<Rightarrow> cid \<Rightarrow> cid list" where
  "bases_of anc a b =
     (let da = anc a; db = anc b;
          common = filter (\<lambda>c. fmlookup db c \<noteq> None) (fm_keys da)
      in sort (filter (\<lambda>c. \<not> list_ex (\<lambda>d. d \<noteq> c \<and> fmlookup (anc d) c \<noteq> None) common) common))"

definition engine_merge_base :: "graph \<Rightarrow> cid \<Rightarrow> cid \<Rightarrow> cid list" where
  "engine_merge_base g a b = bases_of (reach g) a b"

definition model_merge_base :: "graph \<Rightarrow> cid \<Rightarrow> cid \<Rightarrow> cid list" where
  "model_merge_base g a b = bases_of (ancestors g) a b"

text \<open>The best common ancestors: those no other common ancestor reaches.\<close>

definition best_common :: "graph \<Rightarrow> cid \<Rightarrow> cid \<Rightarrow> cid set" where
  "best_common g a b =
     {c. reaches g a c \<and> reaches g b c \<and>
         (\<forall>d. reaches g a d \<and> reaches g b d \<and> reaches g d c \<longrightarrow> d = c)}"

locale ancestry =
  fixes g :: graph and anc :: "cid \<Rightarrow> (cid, 'v) fmap"
  assumes anc_dom: "fmdom' (anc a) = {c. reaches g a c}"
begin

lemma anc_lookup: "fmlookup (anc a) c \<noteq> None \<longleftrightarrow> reaches g a c"
  using anc_dom by (simp add: fmlookup_None_dom)

lemma set_bases: "set (bases_of anc a b) = best_common g a b"
  unfolding bases_of_def Let_def set_sort set_filter list_ex_iff set_fm_keys anc_dom anc_lookup
    best_common_def
  by blast

lemma bases_sorted: "sorted (bases_of anc a b) \<and> distinct (bases_of anc a b)"
  by (simp add: bases_of_def Let_def)

lemma bases_unique: "bases_of anc a b = sorted_list_of_set (best_common g a b)"
  using bases_sorted set_bases by (metis sorted_list_of_set.idem_if_sorted_distinct)

end

interpretation bfs: ancestry g "reach g" for g
  by unfold_locales (rule fmdom'_reach)

interpretation dfs: ancestry g "ancestors g" for g
  by unfold_locales (rule ancestors_props(2))

lemma merge_base_agree: "engine_merge_base g a b = model_merge_base g a b"
  by (simp add: engine_merge_base_def model_merge_base_def bfs.bases_unique dfs.bases_unique)

end
