(* ===== verification/EngineDefs.thy ===== *)
theory EngineDefs
  imports CoreChange CommitGraph
begin

text \<open>
  The version engine, after \<^verbatim>\<open>internal/engine/engine.go\<close>: a flat list of row versions over half-open
  sequence intervals, branches with the resolution chain captured at fork time, commits with the chain
  in force when they were made, and sessions. One definition per method, in the order of the file.
  An int64 sequence number is an \<^typ>\<open>int\<close> (the invariants keep it below \<^const>\<open>max_int64\<close>); the Go
  counters of ids are \<^typ>\<open>nat\<close>. A method that can fail returns a sum, with the error on the left; a
  nil map or a nil branch that the code would dereference is the error \<open>NilDeref\<close>.
\<close>

subsection \<open>State\<close>

definition max_seq :: int where
  "max_seq = max_int64"

record version =
  v_branch :: string
  v_pk :: pk
  v_from :: int
  v_to :: int
  v_op :: op
  v_commit :: string
  v_session :: string
  v_changed :: colmask
  v_row :: row

record segment =
  sg_branch :: string
  sg_seq :: int

record branch =
  b_name :: string
  b_head_seq :: int
  b_head_commit :: string
  b_parent :: string
  b_fork_seq :: int
  b_fork_commit :: string
  b_chain :: "segment list"

record commit_meta =
  cm_id :: string
  cm_parents :: "string list"
  cm_branch :: string
  cm_seq :: int
  cm_chain :: "segment list"

record session =
  s_id :: string
  s_branch :: string
  s_base :: string
  s_base_seq :: int
  s_open :: bool

record engine =
  e_schema :: schema
  e_rows :: "version list"
  e_branches :: "(string, branch) fmap"
  e_commits :: "(string, commit_meta) fmap"
  e_sessions :: "(string, session) fmap"
  e_next_id :: nat
  e_next_sess :: nat

record merge_result =
  mr_base :: string
  mr_result :: table
  mr_conflicts :: "conflict list"
  mr_clean :: bool
  mr_commit :: string

datatype repo_error =
    NoBranch string
  | BranchExists string
  | NoParentBranch string
  | MergeBases nat
  | BranchHasNoParent string
  | SessionsNotPermitted string
  | NoOpenSession string
  | BranchMoved
  | NilDeref

definition root_branch :: string where
  "root_branch = ''main''"

definition commit_id :: "nat \<Rightarrow> string" where
  "commit_id n = CHR ''c'' # dec_digits n"

definition session_id :: "nat \<Rightarrow> string" where
  "session_id n = CHR ''s'' # dec_digits n"

definition new_commit_id :: "engine \<Rightarrow> engine \<times> string" where
  "new_commit_id e = (let n = e_next_id e + 1 in (e\<lparr>e_next_id := n\<rparr>, commit_id n))"

definition new_engine :: "schema \<Rightarrow> engine" where
  "new_engine sc =
     (let (e, root) = new_commit_id
            \<lparr>e_schema = sc, e_rows = [], e_branches = fmempty, e_commits = fmempty,
             e_sessions = fmempty, e_next_id = 0, e_next_sess = 0\<rparr>
      in e\<lparr>e_branches := fmupd root_branch
             \<lparr>b_name = root_branch, b_head_seq = 0, b_head_commit = root, b_parent = [],
              b_fork_seq = 0, b_fork_commit = [], b_chain = []\<rparr> (e_branches e),
           e_commits := fmupd root
             \<lparr>cm_id = root, cm_parents = [], cm_branch = root_branch, cm_seq = 0,
              cm_chain = [\<lparr>sg_branch = root_branch, sg_seq = 0\<rparr>]\<rparr> (e_commits e)\<rparr>)"

definition engine_head :: "engine \<Rightarrow> string \<Rightarrow> string" where
  "engine_head e branch =
     (case fmlookup (e_branches e) branch of Some b \<Rightarrow> b_head_commit b | None \<Rightarrow> [])"

definition engine_fork_commit :: "engine \<Rightarrow> string \<Rightarrow> string" where
  "engine_fork_commit e branch =
     (case fmlookup (e_branches e) branch of Some b \<Rightarrow> b_fork_commit b | None \<Rightarrow> [])"

definition engine_head_seq :: "engine \<Rightarrow> string \<Rightarrow> int" where
  "engine_head_seq e branch =
     (case fmlookup (e_branches e) branch of Some b \<Rightarrow> b_head_seq b | None \<Rightarrow> 0)"

definition version_count :: "engine \<Rightarrow> nat" where
  "version_count e = length (e_rows e)"

subsection \<open>Resolution\<close>

definition chain_for :: "engine \<Rightarrow> string \<Rightarrow> int \<Rightarrow> segment list" where
  "chain_for e branch at_seq =
     (case fmlookup (e_branches e) branch of
        None \<Rightarrow> [\<lparr>sg_branch = branch, sg_seq = at_seq\<rparr>]
      | Some b \<Rightarrow> \<lparr>sg_branch = branch, sg_seq = at_seq\<rparr> # b_chain b)"

text \<open>\<^term>\<open>None\<close>: the code dereferences the nil branch.\<close>

definition inherited_chain_from :: "engine \<Rightarrow> string \<Rightarrow> segment list option" where
  "inherited_chain_from e parent =
     (case fmlookup (e_branches e) parent of
        None \<Rightarrow> None
      | Some p \<Rightarrow> Some (\<lparr>sg_branch = parent, sg_seq = b_head_seq p\<rparr> # b_chain p))"

text \<open>The two maps \<^verbatim>\<open>best\<close> and \<^verbatim>\<open>bestPrio\<close> of \<^verbatim>\<open>winners\<close>, and its closure \<^verbatim>\<open>consider\<close>.\<close>

type_synonym best = "(pk, version) fmap \<times> (pk, int) fmap"

definition consider_version :: "int \<Rightarrow> version \<Rightarrow> best \<Rightarrow> best" where
  "consider_version prio v st =
     (let (best, best_prio) = st in
      if (case fmlookup best_prio (v_pk v) of Some p \<Rightarrow> p \<le> prio | None \<Rightarrow> False) then st
      else (fmupd (v_pk v) v best, fmupd (v_pk v) prio best_prio))"

text \<open>The version is in interval for a segment and not staged.\<close>

definition in_segment :: "segment \<Rightarrow> version \<Rightarrow> bool" where
  "in_segment seg v \<longleftrightarrow>
     v_session v = [] \<and> v_branch v = sg_branch seg \<and> v_from v \<le> sg_seq seg \<and> sg_seq seg < v_to v"

definition scan_segment :: "version list \<Rightarrow> int \<Rightarrow> segment \<Rightarrow> best \<Rightarrow> best" where
  "scan_segment rows prio seg st =
     foldl (\<lambda>st v. if in_segment seg v then consider_version prio v st else st) st rows"

definition scan_staged :: "version list \<Rightarrow> string \<Rightarrow> best \<Rightarrow> best" where
  "scan_staged rows sid st =
     (if sid \<noteq> [] then foldl (\<lambda>st v. if v_session v = sid then consider_version (-1) v st else st) st rows
      else st)"

definition winners :: "version list \<Rightarrow> segment list \<Rightarrow> string \<Rightarrow> (pk, version) fmap" where
  "winners rows chain sid =
     fst (foldl (\<lambda>st (prio, seg). scan_segment rows (int prio) seg st)
            (scan_staged rows sid (fmempty, fmempty)) (enumerate 0 chain))"

definition resolve_chain :: "version list \<Rightarrow> segment list \<Rightarrow> string \<Rightarrow> table" where
  "resolve_chain rows chain sid =
     fm_collect (\<lambda>p v. if v_op v = OpDelete then None else Some (v_row v)) (winners rows chain sid)"

text \<open>\<^term>\<open>None\<close> is the nil table of an unknown branch.\<close>

definition resolve :: "engine \<Rightarrow> string \<Rightarrow> table option" where
  "resolve e branch =
     (case fmlookup (e_branches e) branch of
        None \<Rightarrow> None
      | Some b \<Rightarrow> Some (resolve_chain (e_rows e) (chain_for e branch (b_head_seq b)) []))"

text \<open>Reading through a nil map finds nothing.\<close>

definition nil_table :: "table option \<Rightarrow> table" where
  "nil_table t = (case t of None \<Rightarrow> fmempty | Some m \<Rightarrow> m)"

definition state_at_commit :: "engine \<Rightarrow> string \<Rightarrow> table" where
  "state_at_commit e c =
     (case fmlookup (e_commits e) c of
        None \<Rightarrow> fmempty
      | Some cm \<Rightarrow> resolve_chain (e_rows e) (cm_chain cm) [])"

text \<open>Pass 1 of the two-pass read: keys with a live in-interval version that matches, in any segment.\<close>

definition filter_candidates :: "version list \<Rightarrow> segment list \<Rightarrow> (row \<Rightarrow> bool) \<Rightarrow> (pk, bool) fmap" where
  "filter_candidates rows chain pred =
     foldl (\<lambda>acc seg.
         foldl (\<lambda>acc v.
             if v_session v \<noteq> [] \<or> v_branch v \<noteq> sg_branch seg then acc
             else if v_from v \<le> sg_seq seg \<and> sg_seq seg < v_to v \<and> v_op v \<noteq> OpDelete \<and> pred (v_row v)
                  then fmupd (v_pk v) True acc else acc) acc rows)
       fmempty chain"

definition resolve_filtered :: "engine \<Rightarrow> string \<Rightarrow> (row \<Rightarrow> bool) \<Rightarrow> table option" where
  "resolve_filtered e branch pred =
     (case fmlookup (e_branches e) branch of
        None \<Rightarrow> None
      | Some b \<Rightarrow>
          let chain = chain_for e branch (b_head_seq b);
              candidates = filter_candidates (e_rows e) chain pred
          in Some (fm_collect
               (\<lambda>p v. if fmlookup candidates p \<noteq> Some True \<or> v_op v = OpDelete then None
                      else if pred (v_row v) then Some (v_row v) else None)
               (winners (e_rows e) chain [])))"

subsection \<open>Writes\<close>

fun close_open :: "version list \<Rightarrow> string \<Rightarrow> pk \<Rightarrow> int \<Rightarrow> version list" where
  "close_open [] branch p seq = []"
| "close_open (v # vs) branch p seq =
     (if v_branch v = branch \<and> v_pk v = p \<and> v_session v = [] \<and> v_to v = max_seq
      then v\<lparr>v_to := seq\<rparr> # vs
      else v # close_open vs branch p seq)"

definition record_commit :: "engine \<Rightarrow> string \<Rightarrow> string \<Rightarrow> int \<Rightarrow> string list \<Rightarrow> engine" where
  "record_commit e c branch seq parents =
     e\<lparr>e_commits := fmupd c
        \<lparr>cm_id = c, cm_parents = parents, cm_branch = branch, cm_seq = seq,
         cm_chain = chain_for e branch seq\<rparr> (e_commits e)\<rparr>"

text \<open>One version written by a commit on a branch: the open version is closed, the new one appended.\<close>

definition committed_version ::
  "string \<Rightarrow> pk \<Rightarrow> int \<Rightarrow> op \<Rightarrow> string \<Rightarrow> colmask \<Rightarrow> row \<Rightarrow> version" where
  "committed_version branch p seq op' c changed r =
     \<lparr>v_branch = branch, v_pk = p, v_from = seq, v_to = max_seq, v_op = op', v_commit = c,
      v_session = [], v_changed = changed, v_row = r\<rparr>"

definition opt_row :: "row option \<Rightarrow> row" where
  "opt_row r = (case r of None \<Rightarrow> None | Some x \<Rightarrow> x)"

text \<open>The body of the loop of \<^verbatim>\<open>Commit\<close>.\<close>

definition commit_change ::
  "schema \<Rightarrow> table \<Rightarrow> string \<Rightarrow> int \<Rightarrow> string \<Rightarrow> version list \<Rightarrow> change \<Rightarrow> version list" where
  "commit_change sc current branch new_seq c rows ch =
     (let before = fmlookup current (ch_pk ch); live = (before \<noteq> None) in
      if ch_op ch = OpDelete then
        if \<not> live then rows
        else close_open rows branch (ch_pk ch) new_seq
             @ [committed_version branch (ch_pk ch) new_seq OpDelete c
                  (mask_of (opt_row before) None (sc_cols sc)) None]
      else
        let op' = (if \<not> live then OpInsert else OpUpdate);
            changed = mask_of (opt_row before) (ch_row ch) (sc_cols sc)
        in close_open rows branch (ch_pk ch) new_seq
           @ [committed_version branch (ch_pk ch) new_seq op' c changed (ch_row ch)])"

definition engine_commit :: "engine \<Rightarrow> string \<Rightarrow> changeset \<Rightarrow> repo_error + engine \<times> string" where
  "engine_commit e branch cs =
     (case fmlookup (e_branches e) branch of
        None \<Rightarrow> Inl (NoBranch branch)
      | Some b \<Rightarrow>
          let current = nil_table (resolve e branch);
              new_seq = b_head_seq b + 1;
              (e1, c) = new_commit_id e;
              parent = b_head_commit b;
              rows = foldl (commit_change (e_schema e1) current branch new_seq c) (e_rows e1) (cs_sorted cs);
              e2 = e1\<lparr>e_rows := rows,
                     e_branches := fmupd branch (b\<lparr>b_head_seq := new_seq, b_head_commit := c\<rparr>) (e_branches e1)\<rparr>
          in Inr (record_commit e2 c branch new_seq [parent], c))"

definition create_branch :: "engine \<Rightarrow> string \<Rightarrow> string \<Rightarrow> repo_error + engine" where
  "create_branch e name from =
     (if fmlookup (e_branches e) name \<noteq> None then Inl (BranchExists name)
      else case fmlookup (e_branches e) from of
        None \<Rightarrow> Inl (NoParentBranch from)
      | Some p \<Rightarrow>
          (case inherited_chain_from e from of
             None \<Rightarrow> Inl NilDeref
           | Some tail \<Rightarrow>
               Inr (e\<lparr>e_branches := fmupd name
                       \<lparr>b_name = name, b_head_seq = 0, b_head_commit = b_head_commit p,
                        b_parent = from, b_fork_seq = b_head_seq p, b_fork_commit = b_head_commit p,
                        b_chain = tail\<rparr> (e_branches e)\<rparr>)))"

definition chain_depth :: "engine \<Rightarrow> string \<Rightarrow> nat" where
  "chain_depth e branch =
     (case fmlookup (e_branches e) branch of
        None \<Rightarrow> 0
      | Some b \<Rightarrow> length (chain_for e branch (b_head_seq b)))"

subsection \<open>Merge bases\<close>

definition engine_graph :: "engine \<Rightarrow> graph" where
  "engine_graph e = fmmap cm_parents (e_commits e)"

definition merge_base :: "engine \<Rightarrow> string \<Rightarrow> string \<Rightarrow> string list" where
  "merge_base e a b = engine_merge_base (engine_graph e) a b"

subsection \<open>Masks\<close>

text \<open>Reading a mask map: a missing key is the nil mask.\<close>

definition mask_at :: "(pk, colmask) fmap \<Rightarrow> pk \<Rightarrow> colmask" where
  "mask_at m p = (case fmlookup m p of None \<Rightarrow> [] | Some x \<Rightarrow> x)"

definition accumulate_mask :: "version list \<Rightarrow> string \<Rightarrow> int \<Rightarrow> int \<Rightarrow> (pk, colmask) fmap" where
  "accumulate_mask rows branch from_seq to_seq =
     foldl (\<lambda>out v.
         if v_branch v \<noteq> branch \<or> v_session v \<noteq> [] then out
         else if v_from v > from_seq \<and> v_from v \<le> to_seq
              then fmupd (v_pk v) (mask_or (mask_at out (v_pk v)) (v_changed v)) out
              else out)
       fmempty rows"

text \<open>The closure \<^verbatim>\<open>add\<close> of \<^verbatim>\<open>maskSince\<close>.\<close>

definition mask_add :: "version list \<Rightarrow> string \<Rightarrow> int \<Rightarrow> int \<Rightarrow> (pk, colmask) fmap \<Rightarrow> (pk, colmask) fmap" where
  "mask_add rows branch lo hi out =
     (if hi \<le> lo then out
      else let acc = accumulate_mask rows branch lo hi in
           foldl (\<lambda>out p. fmupd p (mask_or (mask_at out p) (mask_at acc p)) out) out (fm_keys acc))"

text \<open>The map \<^verbatim>\<open>baseUpper\<close> from the base's chain (a later segment of a branch overwrites an earlier).\<close>

definition base_upper :: "segment list \<Rightarrow> (string, int) fmap" where
  "base_upper chain = foldl (\<lambda>m s. fmupd (sg_branch s) (sg_seq s) m) fmempty chain"

definition mask_chain_diff ::
  "version list \<Rightarrow> segment list \<Rightarrow> segment list \<Rightarrow> (pk, colmask) fmap" where
  "mask_chain_diff rows base_chain chain =
     (let upper = base_upper base_chain;
          out = foldl (\<lambda>out seg.
                    case fmlookup upper (sg_branch seg) of
                      None \<Rightarrow> mask_add rows (sg_branch seg) 0 (sg_seq seg) out
                    | Some base_seq \<Rightarrow>
                        let (lo, hi) = (if sg_seq seg < base_seq then (sg_seq seg, base_seq)
                                        else (base_seq, sg_seq seg))
                        in mask_add rows (sg_branch seg) lo hi out)
                  fmempty chain
      in foldl (\<lambda>out s.
             if sg_branch s \<notin> sg_branch ` set chain
             then mask_add rows (sg_branch s) 0 (sg_seq s) out else out)
           out base_chain)"

definition mask_since :: "engine \<Rightarrow> string \<Rightarrow> string \<Rightarrow> (pk, colmask) fmap" where
  "mask_since e branch base_commit =
     (case fmlookup (e_commits e) base_commit of
        None \<Rightarrow> fmempty
      | Some cm \<Rightarrow>
          mask_chain_diff (e_rows e) (cm_chain cm) (chain_for e branch (engine_head_seq e branch)))"

end
