(* ===== verification/EngineOps.thy ===== *)
theory EngineOps
  imports EngineDefs
begin

text \<open>
  The operations of \<^verbatim>\<open>internal/engine/engine.go\<close> that build on resolution and masks: the three-way
  merge, \<^verbatim>\<open>Merge\<close> and \<^verbatim>\<open>UpdateFromParent\<close>, the sessions, \<^verbatim>\<open>Diff\<close>, the invariant probes of the property
  harness and \<^verbatim>\<open>PlanUpdateWhere\<close>. The case table of the merge is shared with the reference model,
  which differs in how it merges the cells of one row.
\<close>

subsection \<open>Three-way merge\<close>

definition same_opt :: "row option \<Rightarrow> row option \<Rightarrow> bool" where
  "same_opt a b =
     (case a of
        None \<Rightarrow> b = None
      | Some x \<Rightarrow> (case b of None \<Rightarrow> False | Some y \<Rightarrow> row_equal x y))"

text \<open>One key: what goes into the result and which conflicts are raised.\<close>

definition merge_case ::
  "(pk \<Rightarrow> row \<Rightarrow> row \<Rightarrow> row \<Rightarrow> row \<times> conflict list) \<Rightarrow> pk \<Rightarrow>
   row option \<Rightarrow> row option \<Rightarrow> row option \<Rightarrow> row option \<times> conflict list" where
  "merge_case cells p b a t =
     (let a_changed = \<not> same_opt b a; t_changed = \<not> same_opt b t in
      if \<not> a_changed \<and> \<not> t_changed then (b, [])
      else if \<not> a_changed then (t, [])
      else if \<not> t_changed then (a, [])
      else if same_opt a t then (a, [])
      else if b = None then (None, [row_conflict p ConflictAddAdd])
      else if a = None \<or> t = None then (None, [row_conflict p ConflictDeleteModify])
      else
        let (merged, cc) = cells p (opt_row b) (opt_row a) (opt_row t)
        in if cc \<noteq> [] then (None, cc) else (Some merged, []))"

text \<open>One cell: the switch over the three values.\<close>

definition merge_cell ::
  "pk \<Rightarrow> row \<Rightarrow> row \<Rightarrow> row \<Rightarrow> (colid, val) fmap \<times> conflict list \<Rightarrow> colid \<Rightarrow>
   (colid, val) fmap \<times> conflict list" where
  "merge_cell p b a t st c =
     (let (merged, cc) = st; bv = row_get b c; av = row_get a c; tv = row_get t c in
      if val_equal av bv then (fmupd c tv merged, cc)
      else if val_equal tv bv then (fmupd c av merged, cc)
      else if val_equal av tv then (fmupd c av merged, cc)
      else (merged, cc @ [cell_conflict p c bv av tv]))"

text \<open>The cells of one row, narrowed by the two masks.\<close>

definition masked_cells ::
  "colid list \<Rightarrow> (pk, colmask) fmap \<Rightarrow> (pk, colmask) fmap \<Rightarrow>
   pk \<Rightarrow> row \<Rightarrow> row \<Rightarrow> row \<Rightarrow> row \<times> conflict list" where
  "masked_cells cols mask_o mask_t p b a t =
     (let candidates = union_cols (mask_at mask_o p) (mask_at mask_t p);
          untouched = foldl (\<lambda>m c. if c \<notin> set candidates then fmupd c (row_get b c) m else m)
                        fmempty cols;
          (merged, cc) = foldl (merge_cell p b a t) (untouched, []) candidates
      in (Some merged, cc))"

definition merge_keys :: "table \<Rightarrow> table \<Rightarrow> table \<Rightarrow> pk list" where
  "merge_keys base ours theirs = sort (remdups (fm_keys base @ fm_keys ours @ fm_keys theirs))"

definition merge_with ::
  "(pk \<Rightarrow> row \<Rightarrow> row \<Rightarrow> row \<Rightarrow> row \<times> conflict list) \<Rightarrow> table \<Rightarrow> table \<Rightarrow> table \<Rightarrow>
   table \<times> conflict list" where
  "merge_with cells base ours theirs =
     (let (out, conflicts) =
        foldl (\<lambda>(out, conflicts) p.
            let (r, cc) = merge_case cells p (fmlookup base p) (fmlookup ours p) (fmlookup theirs p)
            in (case r of None \<Rightarrow> out | Some x \<Rightarrow> fmupd p x out, conflicts @ cc))
          (fmempty, []) (merge_keys base ours theirs)
      in (out, sort_conflicts conflicts))"

definition merge_states ::
  "schema \<Rightarrow> table \<Rightarrow> table \<Rightarrow> table \<Rightarrow> (pk, colmask) fmap \<Rightarrow> (pk, colmask) fmap \<Rightarrow>
   table \<times> conflict list" where
  "merge_states sc base ours theirs mask_o mask_t =
     merge_with (masked_cells (sc_cols sc) mask_o mask_t) base ours theirs"

text \<open>The two loops of \<^verbatim>\<open>applyMergeResult\<close>: rows to write, then rows to delete.\<close>

definition apply_row ::
  "schema \<Rightarrow> table \<Rightarrow> table \<Rightarrow> string \<Rightarrow> int \<Rightarrow> string \<Rightarrow> version list \<Rightarrow> pk \<Rightarrow> version list" where
  "apply_row sc current result branch new_seq c rows p =
     (let r = opt_row (fmlookup result p); before = fmlookup current p; live = (before \<noteq> None) in
      if live \<and> row_equal (opt_row before) r then rows
      else
        let op' = (if \<not> live then OpInsert else OpUpdate)
        in close_open rows branch p new_seq
           @ [committed_version branch p new_seq op' c (mask_of (opt_row before) r (sc_cols sc)) r])"

definition apply_delete ::
  "schema \<Rightarrow> table \<Rightarrow> table \<Rightarrow> string \<Rightarrow> int \<Rightarrow> string \<Rightarrow> version list \<Rightarrow> pk \<Rightarrow> version list" where
  "apply_delete sc current result branch new_seq c rows p =
     (if fmlookup result p \<noteq> None then rows
      else close_open rows branch p new_seq
           @ [committed_version branch p new_seq OpDelete c
                (mask_of (opt_row (fmlookup current p)) None (sc_cols sc)) None])"

definition apply_rows ::
  "schema \<Rightarrow> table \<Rightarrow> table \<Rightarrow> string \<Rightarrow> int \<Rightarrow> string \<Rightarrow> version list \<Rightarrow> version list" where
  "apply_rows sc current result branch new_seq c rows =
     foldl (apply_delete sc current result branch new_seq c)
       (foldl (apply_row sc current result branch new_seq c) rows (table_keys result))
       (table_keys current)"

definition apply_merge_result ::
  "engine \<Rightarrow> string \<Rightarrow> table \<Rightarrow> string list \<Rightarrow> repo_error + engine \<times> string" where
  "apply_merge_result e branch result parents =
     (case fmlookup (e_branches e) branch of
        None \<Rightarrow> Inl NilDeref
      | Some b \<Rightarrow>
          let current = nil_table (resolve e branch);
              new_seq = b_head_seq b + 1;
              (e1, c) = new_commit_id e;
              rows = apply_rows (e_schema e1) current result branch new_seq c (e_rows e1);
              e2 = e1\<lparr>e_rows := rows,
                     e_branches := fmupd branch (b\<lparr>b_head_seq := new_seq, b_head_commit := c\<rparr>) (e_branches e1)\<rparr>
          in Inr (record_commit e2 c branch new_seq parents, c))"

definition merge :: "engine \<Rightarrow> string \<Rightarrow> string \<Rightarrow> repo_error + engine \<times> merge_result" where
  "merge e from into =
     (case fmlookup (e_branches e) from of
        None \<Rightarrow> Inl (NoBranch from)
      | Some fb \<Rightarrow>
     (case fmlookup (e_branches e) into of
        None \<Rightarrow> Inl (NoBranch into)
      | Some tb \<Rightarrow>
          let bases = merge_base e (b_head_commit tb) (b_head_commit fb) in
          if length bases \<noteq> 1 then Inl (MergeBases (length bases))
          else
            let base = hd bases;
                (result, conflicts) =
                  merge_states (e_schema e) (state_at_commit e base)
                    (nil_table (resolve e into)) (nil_table (resolve e from))
                    (mask_since e into base) (mask_since e from base);
                mr = \<lparr>mr_base = base, mr_result = result, mr_conflicts = conflicts,
                      mr_clean = (conflicts = []), mr_commit = []\<rparr>
            in if mr_clean mr then
                 (case apply_merge_result e into result [b_head_commit tb, b_head_commit fb] of
                    Inl err \<Rightarrow> Inl err
                  | Inr (e', c) \<Rightarrow> Inr (e', mr\<lparr>mr_commit := c\<rparr>))
               else Inr (e, mr)))"

definition update_from_parent :: "engine \<Rightarrow> string \<Rightarrow> repo_error + engine \<times> merge_result" where
  "update_from_parent e branch =
     (case fmlookup (e_branches e) branch of
        None \<Rightarrow> Inl (NoBranch branch)
      | Some b \<Rightarrow>
     (if b_parent b = [] then Inl (BranchHasNoParent branch)
      else case fmlookup (e_branches e) (b_parent b) of
        None \<Rightarrow> Inl NilDeref
      | Some p \<Rightarrow>
     (if b_head_commit p = b_fork_commit b
      then Inr (e, \<lparr>mr_base = b_fork_commit b, mr_result = nil_table (resolve e branch),
                    mr_conflicts = [], mr_clean = True, mr_commit = []\<rparr>)
      else
        let base = b_fork_commit b;
            (result, conflicts) =
              merge_states (e_schema e) (state_at_commit e base)
                (nil_table (resolve e branch)) (nil_table (resolve e (b_parent b)))
                (mask_since e branch base) (mask_since e (b_parent b) base);
            mr = \<lparr>mr_base = base, mr_result = result, mr_conflicts = conflicts,
                  mr_clean = (conflicts = []), mr_commit = []\<rparr>
        in if \<not> mr_clean mr then Inr (e, mr)
           else
             let parents = [b_head_commit b, b_head_commit p] in
             case inherited_chain_from e (b_parent b) of
               None \<Rightarrow> Inl NilDeref
             | Some tail \<Rightarrow>
                 let e1 = e\<lparr>e_branches := fmupd branch
                            (b\<lparr>b_fork_seq := b_head_seq p, b_fork_commit := b_head_commit p, b_chain := tail\<rparr>)
                            (e_branches e)\<rparr>
                 in (case apply_merge_result e1 branch result parents of
                       Inl err \<Rightarrow> Inl err
                     | Inr (e', c) \<Rightarrow> Inr (e', mr\<lparr>mr_commit := c\<rparr>)))))"

subsection \<open>Sessions\<close>

definition open_session :: "engine \<Rightarrow> string \<Rightarrow> repo_error + engine \<times> string" where
  "open_session e branch =
     (case fmlookup (e_branches e) branch of
        None \<Rightarrow> Inl (NoBranch branch)
      | Some b \<Rightarrow>
          if branch = root_branch then Inl (SessionsNotPermitted root_branch)
          else
            let n = e_next_sess e + 1; sid = session_id n in
            Inr (e\<lparr>e_next_sess := n,
                   e_sessions := fmupd sid
                     \<lparr>s_id = sid, s_branch = branch, s_base = b_head_commit b,
                      s_base_seq = b_head_seq b, s_open = True\<rparr> (e_sessions e)\<rparr>, sid))"

definition session_resolve :: "engine \<Rightarrow> string \<Rightarrow> table option" where
  "session_resolve e sid =
     (case fmlookup (e_sessions e) sid of
        None \<Rightarrow> None
      | Some s \<Rightarrow>
          if \<not> s_open s then None
          else case fmlookup (e_commits e) (s_base s) of
            None \<Rightarrow> None
          | Some cm \<Rightarrow> Some (resolve_chain (e_rows e) (cm_chain cm) sid))"

text \<open>The staged row of the key, if the session has one: the loop stops at the first.\<close>

fun upsert_staged :: "version list \<Rightarrow> string \<Rightarrow> pk \<Rightarrow> op \<Rightarrow> row \<Rightarrow> colmask \<Rightarrow> (version list) option" where
  "upsert_staged [] sid p op' r changed = None"
| "upsert_staged (v # vs) sid p op' r changed =
     (if v_session v = sid \<and> v_pk v = p
      then Some (v\<lparr>v_op := op', v_row := r, v_changed := mask_or (v_changed v) changed\<rparr> # vs)
      else map_option (Cons v) (upsert_staged vs sid p op' r changed))"

text \<open>The body of the loop of \<^verbatim>\<open>SessionWrite\<close>, over the staged rows and the session's view.\<close>

definition session_change ::
  "schema \<Rightarrow> string \<Rightarrow> string \<Rightarrow> int \<Rightarrow> version list \<times> table \<Rightarrow> change \<Rightarrow> version list \<times> table" where
  "session_change sc sid branch head_seq st ch =
     (let (rows, view) = st; before = fmlookup view (ch_pk ch); live = (before \<noteq> None) in
      if ch_op ch = OpDelete \<and> \<not> live then st
      else
        let (op', r) = (if ch_op ch = OpDelete then (OpDelete, None)
                        else (if \<not> live then OpInsert else OpUpdate, ch_row ch));
            changed = mask_of (opt_row before) r (sc_cols sc);
            rows' = (case upsert_staged rows sid (ch_pk ch) op' r changed of
                       Some rs \<Rightarrow> rs
                     | None \<Rightarrow> rows @ [\<lparr>v_branch = branch, v_pk = ch_pk ch, v_from = head_seq + 1,
                                 v_to = max_seq, v_op = op', v_commit = [], v_session = sid,
                                 v_changed = changed, v_row = r\<rparr>])
        in (rows', if op' = OpDelete then fmdrop (ch_pk ch) view else fmupd (ch_pk ch) r view))"

text \<open>A nil view would panic at its first assignment.\<close>

definition session_write :: "engine \<Rightarrow> string \<Rightarrow> changeset \<Rightarrow> repo_error + engine" where
  "session_write e sid cs =
     (case fmlookup (e_sessions e) sid of
        None \<Rightarrow> Inl (NoOpenSession sid)
      | Some s \<Rightarrow>
          if \<not> s_open s then Inl (NoOpenSession sid)
          else case session_resolve e sid of
            None \<Rightarrow> Inl NilDeref
          | Some view \<Rightarrow>
              (case fmlookup (e_branches e) (s_branch s) of
                 None \<Rightarrow> Inl NilDeref
               | Some b \<Rightarrow>
                   let (rows, _) = foldl (session_change (e_schema e) sid (s_branch s) (b_head_seq b))
                                     (e_rows e, view) (cs_sorted cs)
                   in Inr (e\<lparr>e_rows := rows\<rparr>)))"

text \<open>
  \<^verbatim>\<open>CommitSession\<close> closes the open versions of the staged keys (in key order), then stamps the staged
  rows in place.
\<close>

definition stamp :: "string \<Rightarrow> string \<Rightarrow> int \<Rightarrow> version \<Rightarrow> version" where
  "stamp sid c seq v =
     (if v_session v = sid
      then v\<lparr>v_session := [], v_commit := c, v_from := seq, v_to := max_seq\<rparr> else v)"

definition staged_keys :: "version list \<Rightarrow> string \<Rightarrow> pk list" where
  "staged_keys rows sid = sort (map v_pk (filter (\<lambda>v. v_session v = sid) rows))"

definition commit_session :: "engine \<Rightarrow> string \<Rightarrow> repo_error + engine \<times> string" where
  "commit_session e sid =
     (case fmlookup (e_sessions e) sid of
        None \<Rightarrow> Inl (NoOpenSession sid)
      | Some s \<Rightarrow>
          if \<not> s_open s then Inl (NoOpenSession sid)
          else case fmlookup (e_branches e) (s_branch s) of
            None \<Rightarrow> Inl NilDeref
          | Some b \<Rightarrow>
              if b_head_commit b \<noteq> s_base s then Inl BranchMoved
              else
                let new_seq = b_head_seq b + 1;
                    (e1, c) = new_commit_id e;
                    parent = b_head_commit b;
                    closed = foldl (\<lambda>rows p. close_open rows (s_branch s) p new_seq) (e_rows e1)
                               (staged_keys (e_rows e1) sid);
                    e2 = e1\<lparr>e_rows := map (stamp sid c new_seq) closed,
                            e_branches := fmupd (s_branch s)
                              (b\<lparr>b_head_seq := new_seq, b_head_commit := c\<rparr>) (e_branches e1),
                            e_sessions := fmupd sid (s\<lparr>s_open := False\<rparr>) (e_sessions e1)\<rparr>
                in Inr (record_commit e2 c (s_branch s) new_seq [parent], c))"

definition abandon_session :: "engine \<Rightarrow> string \<Rightarrow> engine" where
  "abandon_session e sid =
     (case fmlookup (e_sessions e) sid of
        None \<Rightarrow> e
      | Some s \<Rightarrow> e\<lparr>e_rows := filter (\<lambda>v. v_session v \<noteq> sid) (e_rows e),
                     e_sessions := fmupd sid (s\<lparr>s_open := False\<rparr>) (e_sessions e)\<rparr>)"

subsection \<open>Diff\<close>

definition diff_change ::
  "schema \<Rightarrow> pk \<Rightarrow> row option \<Rightarrow> row option \<Rightarrow> change option" where
  "diff_change sc p before after =
     (case (before, after) of
        (Some b, None) \<Rightarrow> Some \<lparr>ch_pk = p, ch_op = OpDelete, ch_row = None, ch_changed = []\<rparr>
      | (None, Some a) \<Rightarrow>
          Some \<lparr>ch_pk = p, ch_op = OpInsert, ch_row = a, ch_changed = mask_of None a (sc_cols sc)\<rparr>
      | (Some b, Some a) \<Rightarrow>
          if \<not> row_equal b a
          then Some \<lparr>ch_pk = p, ch_op = OpUpdate, ch_row = a, ch_changed = mask_of b a (sc_cols sc)\<rparr>
          else None
      | (None, None) \<Rightarrow> None)"

definition touched_keys :: "version list \<Rightarrow> string \<Rightarrow> int \<Rightarrow> int \<Rightarrow> pk list" where
  "touched_keys rows branch from_seq to_seq =
     remdups (map v_pk (filter (\<lambda>v. v_branch v = branch \<and> v_session v = []
                                  \<and> v_from v > from_seq \<and> v_from v \<le> to_seq) rows))"

definition diff :: "engine \<Rightarrow> string \<Rightarrow> int \<Rightarrow> int \<Rightarrow> changeset" where
  "diff e branch from_seq to_seq =
     (let before = resolve_chain (e_rows e) (chain_for e branch from_seq) [];
          after = resolve_chain (e_rows e) (chain_for e branch to_seq) []
      in foldl (\<lambda>out p. case diff_change (e_schema e) p (fmlookup before p) (fmlookup after p) of
                          None \<Rightarrow> out | Some ch \<Rightarrow> fmupd p ch out)
           fmempty (touched_keys (e_rows e) branch from_seq to_seq))"

subsection \<open>Probes\<close>

definition open_versions_per_key :: "engine \<Rightarrow> (string, (pk, nat) fmap) fmap" where
  "open_versions_per_key e =
     foldl (\<lambda>out v.
         if v_session v \<noteq> [] \<or> v_to v \<noteq> max_seq then out
         else
           let m = (case fmlookup out (v_branch v) of None \<Rightarrow> fmempty | Some m \<Rightarrow> m);
               n = (case fmlookup m (v_pk v) of None \<Rightarrow> 0 | Some n \<Rightarrow> n)
           in fmupd (v_branch v) (fmupd (v_pk v) (n + 1) m) out)
       fmempty (e_rows e)"

text \<open>The versions of one key in order, and the check of each adjacent pair.\<close>

fun adjacent_sane :: "version list \<Rightarrow> bool" where
  "adjacent_sane (u # v # vs) \<longleftrightarrow> \<not> v_from v < v_to u \<and> adjacent_sane (v # vs)"
| "adjacent_sane _ \<longleftrightarrow> True"

definition intervals_sane :: "engine \<Rightarrow> bool" where
  "intervals_sane e =
     (let committed = filter (\<lambda>v. v_session v = []) (e_rows e);
          keys = remdups (map (\<lambda>v. (v_branch v, v_pk v)) committed)
      in list_all (\<lambda>(b, p). adjacent_sane
           (sort_key v_from (filter (\<lambda>v. v_branch v = b \<and> v_pk v = p) committed))) keys)"

definition staged_on_branch :: "engine \<Rightarrow> string \<Rightarrow> nat" where
  "staged_on_branch e branch =
     length (filter (\<lambda>v. v_branch v = branch \<and> v_session v \<noteq> []) (e_rows e))"

definition zero_hash_on_branch :: "engine \<Rightarrow> string \<Rightarrow> nat" where
  "zero_hash_on_branch e branch =
     length (filter (\<lambda>v. v_branch v = branch \<and> v_commit v = [] \<and> v_session v = []) (e_rows e))"

subsection \<open>Predicate updates\<close>

definition plan_changes :: "(row \<Rightarrow> row) \<Rightarrow> table \<Rightarrow> changeset" where
  "plan_changes assign matched =
     fm_collect (\<lambda>p r.
         let next = assign r in
         if \<not> row_equal next r
         then Some \<lparr>ch_pk = p, ch_op = OpUpdate, ch_row = next, ch_changed = []\<rparr> else None)
       matched"

definition plan_update_where ::
  "engine \<Rightarrow> string \<Rightarrow> (row \<Rightarrow> bool) \<Rightarrow> (row \<Rightarrow> row) \<Rightarrow> changeset" where
  "plan_update_where e branch pred assign =
     plan_changes assign (nil_table (resolve_filtered e branch pred))"

end
