(* ===== verification/ModelDefs.thy ===== *)
theory ModelDefs
  imports EngineOps
begin

text \<open>
  The reference model, after \<^verbatim>\<open>internal/model/model.go\<close>: every commit holds a full snapshot of the
  table, so resolving is a lookup and merging compares three snapshots value by value. One definition
  per method. A nil pointer the code would dereference is \<open>NilDeref\<close>.
\<close>

record mcommit =
  mc_id :: string
  mc_parents :: "string list"
  mc_branch :: string
  mc_seq :: int
  mc_state :: table

record mbranch =
  mb_name :: string
  mb_head :: string
  mb_parent :: string
  mb_fork_commit :: string

record msession =
  ms_id :: string
  ms_branch :: string
  ms_base :: string
  ms_overlay :: table
  ms_open :: bool

record repo =
  r_schema :: schema
  r_commits :: "(string, mcommit) fmap"
  r_branches :: "(string, mbranch) fmap"
  r_sessions :: "(string, msession) fmap"
  r_next_id :: nat
  r_next_sess :: nat

definition model_new_commit_id :: "repo \<Rightarrow> repo \<times> string" where
  "model_new_commit_id r = (let n = r_next_id r + 1 in (r\<lparr>r_next_id := n\<rparr>, commit_id n))"

definition model_new :: "schema \<Rightarrow> repo" where
  "model_new sc =
     (let (r, root) = model_new_commit_id
            \<lparr>r_schema = sc, r_commits = fmempty, r_branches = fmempty, r_sessions = fmempty,
             r_next_id = 0, r_next_sess = 0\<rparr>
      in r\<lparr>r_commits := fmupd root
             \<lparr>mc_id = root, mc_parents = [], mc_branch = root_branch, mc_seq = 0, mc_state = fmempty\<rparr>
             (r_commits r),
           r_branches := fmupd root_branch
             \<lparr>mb_name = root_branch, mb_head = root, mb_parent = [], mb_fork_commit = []\<rparr>
             (r_branches r)\<rparr>)"

definition model_branches :: "repo \<Rightarrow> string list" where
  "model_branches r = fm_keys (r_branches r)"

definition model_head :: "repo \<Rightarrow> string \<Rightarrow> string" where
  "model_head r branch =
     (case fmlookup (r_branches r) branch of Some b \<Rightarrow> mb_head b | None \<Rightarrow> [])"

definition model_fork_commit :: "repo \<Rightarrow> string \<Rightarrow> string" where
  "model_fork_commit r branch =
     (case fmlookup (r_branches r) branch of Some b \<Rightarrow> mb_fork_commit b | None \<Rightarrow> [])"

text \<open>\<^term>\<open>None\<close>: the branch is unknown (a nil table), or its head commit is missing (a nil pointer).\<close>

definition model_state :: "repo \<Rightarrow> string \<Rightarrow> table option" where
  "model_state r c = map_option mc_state (fmlookup (r_commits r) c)"

definition model_resolve :: "repo \<Rightarrow> string \<Rightarrow> table option" where
  "model_resolve r branch =
     (case fmlookup (r_branches r) branch of
        None \<Rightarrow> None
      | Some b \<Rightarrow> model_state r (mb_head b))"

definition model_resolve_at :: "repo \<Rightarrow> string \<Rightarrow> table option" where
  "model_resolve_at r c = model_state r c"

definition model_apply :: "table \<Rightarrow> changeset \<Rightarrow> table" where
  "model_apply state cs =
     foldl (\<lambda>next ch. if ch_op ch = OpDelete then fmdrop (ch_pk ch) next
                      else fmupd (ch_pk ch) (ch_row ch) next) state (cs_sorted cs)"

text \<open>Storing a commit and moving the branch to it.\<close>

definition model_add_commit ::
  "repo \<Rightarrow> string \<Rightarrow> mbranch \<Rightarrow> string list \<Rightarrow> int \<Rightarrow> table \<Rightarrow> repo \<times> string" where
  "model_add_commit r branch b parents seq state =
     (let (r1, c) = model_new_commit_id r in
      (r1\<lparr>r_commits := fmupd c
           \<lparr>mc_id = c, mc_parents = parents, mc_branch = branch, mc_seq = seq, mc_state = state\<rparr>
           (r_commits r1),
         r_branches := fmupd branch (b\<lparr>mb_head := c\<rparr>) (r_branches r1)\<rparr>, c))"

definition model_commit :: "repo \<Rightarrow> string \<Rightarrow> changeset \<Rightarrow> repo_error + repo \<times> string" where
  "model_commit r branch cs =
     (case fmlookup (r_branches r) branch of
        None \<Rightarrow> Inl (NoBranch branch)
      | Some b \<Rightarrow>
          (case fmlookup (r_commits r) (mb_head b) of
             None \<Rightarrow> Inl NilDeref
           | Some parent \<Rightarrow>
               Inr (model_add_commit r branch b [mb_head b] (mc_seq parent + 1)
                      (model_apply (mc_state parent) cs))))"

definition model_create_branch :: "repo \<Rightarrow> string \<Rightarrow> string \<Rightarrow> repo_error + repo" where
  "model_create_branch r name from =
     (if fmlookup (r_branches r) name \<noteq> None then Inl (BranchExists name)
      else case fmlookup (r_branches r) from of
        None \<Rightarrow> Inl (NoParentBranch from)
      | Some p \<Rightarrow>
          Inr (r\<lparr>r_branches := fmupd name
                 \<lparr>mb_name = name, mb_head = mb_head p, mb_parent = from, mb_fork_commit = mb_head p\<rparr>
                 (r_branches r)\<rparr>))"

definition model_graph :: "repo \<Rightarrow> graph" where
  "model_graph r = fmmap mc_parents (r_commits r)"

definition model_bases :: "repo \<Rightarrow> string \<Rightarrow> string \<Rightarrow> string list" where
  "model_bases r a b = model_merge_base (model_graph r) a b"

text \<open>\<^verbatim>\<open>mergeCells\<close>: every column of the schema, no masks.\<close>

definition full_cells ::
  "colid list \<Rightarrow> pk \<Rightarrow> row \<Rightarrow> row \<Rightarrow> row \<Rightarrow> row \<times> conflict list" where
  "full_cells cols p b a t =
     (let (merged, conflicts) = foldl (merge_cell p b a t) (fmempty, []) cols
      in (Some merged, conflicts))"

definition merge_tables :: "schema \<Rightarrow> table \<Rightarrow> table \<Rightarrow> table \<Rightarrow> table \<times> conflict list" where
  "merge_tables sc base ours theirs = merge_with (full_cells (sc_cols sc)) base ours theirs"

definition model_merge :: "repo \<Rightarrow> string \<Rightarrow> string \<Rightarrow> repo_error + repo \<times> merge_result" where
  "model_merge r from into =
     (case fmlookup (r_branches r) from of
        None \<Rightarrow> Inl (NoBranch from)
      | Some fb \<Rightarrow>
     (case fmlookup (r_branches r) into of
        None \<Rightarrow> Inl (NoBranch into)
      | Some tb \<Rightarrow>
          let bases = model_bases r (mb_head tb) (mb_head fb) in
          if length bases \<noteq> 1 then Inl (MergeBases (length bases))
          else
            let base = hd bases in
            (case (fmlookup (r_commits r) base, fmlookup (r_commits r) (mb_head tb),
                   fmlookup (r_commits r) (mb_head fb)) of
               (Some cb, Some ct, Some cf) \<Rightarrow>
                 let (result, conflicts) =
                       merge_tables (r_schema r) (mc_state cb) (mc_state ct) (mc_state cf);
                     mr = \<lparr>mr_base = base, mr_result = result, mr_conflicts = conflicts,
                           mr_clean = (conflicts = []), mr_commit = []\<rparr>
                 in if mr_clean mr then
                      let (r', c) = model_add_commit r into tb [mb_head tb, mb_head fb]
                                      (mc_seq ct + 1) result
                      in Inr (r', mr\<lparr>mr_commit := c\<rparr>)
                    else Inr (r, mr)
             | _ \<Rightarrow> Inl NilDeref)))"

definition model_update_from_parent :: "repo \<Rightarrow> string \<Rightarrow> repo_error + repo \<times> merge_result" where
  "model_update_from_parent r branch =
     (case fmlookup (r_branches r) branch of
        None \<Rightarrow> Inl (NoBranch branch)
      | Some b \<Rightarrow>
     (if mb_parent b = [] then Inl (BranchHasNoParent branch)
      else case fmlookup (r_branches r) (mb_parent b) of
        None \<Rightarrow> Inl NilDeref
      | Some p \<Rightarrow>
     (if mb_head p = mb_fork_commit b
      then (case fmlookup (r_commits r) (mb_head b) of
              None \<Rightarrow> Inl NilDeref
            | Some cb \<Rightarrow> Inr (r, \<lparr>mr_base = mb_fork_commit b, mr_result = mc_state cb,
                                mr_conflicts = [], mr_clean = True, mr_commit = []\<rparr>))
      else
        let base = mb_fork_commit b in
        (case (fmlookup (r_commits r) base, fmlookup (r_commits r) (mb_head b),
               fmlookup (r_commits r) (mb_head p)) of
           (Some cb, Some co, Some cp) \<Rightarrow>
             let (result, conflicts) =
                   merge_tables (r_schema r) (mc_state cb) (mc_state co) (mc_state cp);
                 mr = \<lparr>mr_base = base, mr_result = result, mr_conflicts = conflicts,
                       mr_clean = (conflicts = []), mr_commit = []\<rparr>
             in if mr_clean mr then
                  let (r', c) = model_add_commit r branch (b\<lparr>mb_fork_commit := mb_head p\<rparr>)
                                  [mb_head b, mb_head p] (mc_seq co + 1) result
                  in Inr (r', mr\<lparr>mr_commit := c\<rparr>)
                else Inr (r, mr)
         | _ \<Rightarrow> Inl NilDeref))))"

subsection \<open>Sessions\<close>

definition model_open_session :: "repo \<Rightarrow> string \<Rightarrow> repo_error + repo \<times> string" where
  "model_open_session r branch =
     (case fmlookup (r_branches r) branch of
        None \<Rightarrow> Inl (NoBranch branch)
      | Some b \<Rightarrow>
          if branch = root_branch then Inl (SessionsNotPermitted root_branch)
          else case fmlookup (r_commits r) (mb_head b) of
            None \<Rightarrow> Inl NilDeref
          | Some cb \<Rightarrow>
              let n = r_next_sess r + 1; sid = session_id n in
              Inr (r\<lparr>r_next_sess := n,
                     r_sessions := fmupd sid
                       \<lparr>ms_id = sid, ms_branch = branch, ms_base = mb_head b,
                        ms_overlay = mc_state cb, ms_open = True\<rparr> (r_sessions r)\<rparr>, sid))"

definition model_session_write :: "repo \<Rightarrow> string \<Rightarrow> changeset \<Rightarrow> repo_error + repo" where
  "model_session_write r sid cs =
     (case fmlookup (r_sessions r) sid of
        None \<Rightarrow> Inl (NoOpenSession sid)
      | Some s \<Rightarrow>
          if \<not> ms_open s then Inl (NoOpenSession sid)
          else Inr (r\<lparr>r_sessions := fmupd sid
                      (s\<lparr>ms_overlay := model_apply (ms_overlay s) cs\<rparr>) (r_sessions r)\<rparr>))"

definition model_session_resolve :: "repo \<Rightarrow> string \<Rightarrow> table option" where
  "model_session_resolve r sid =
     (case fmlookup (r_sessions r) sid of
        None \<Rightarrow> None
      | Some s \<Rightarrow> if \<not> ms_open s then None else Some (ms_overlay s))"

definition model_commit_session :: "repo \<Rightarrow> string \<Rightarrow> repo_error + repo \<times> string" where
  "model_commit_session r sid =
     (case fmlookup (r_sessions r) sid of
        None \<Rightarrow> Inl (NoOpenSession sid)
      | Some s \<Rightarrow>
          if \<not> ms_open s then Inl (NoOpenSession sid)
          else case fmlookup (r_branches r) (ms_branch s) of
            None \<Rightarrow> Inl NilDeref
          | Some b \<Rightarrow>
              if mb_head b \<noteq> ms_base s then Inl BranchMoved
              else case fmlookup (r_commits r) (mb_head b) of
                None \<Rightarrow> Inl NilDeref
              | Some cb \<Rightarrow>
                  let (r', c) = model_add_commit r (ms_branch s) b [mb_head b] (mc_seq cb + 1) (ms_overlay s)
                  in Inr (r'\<lparr>r_sessions := fmupd sid (s\<lparr>ms_open := False\<rparr>) (r_sessions r')\<rparr>, c))"

definition model_abandon_session :: "repo \<Rightarrow> string \<Rightarrow> repo" where
  "model_abandon_session r sid =
     (case fmlookup (r_sessions r) sid of
        None \<Rightarrow> r
      | Some s \<Rightarrow> r\<lparr>r_sessions := fmupd sid (s\<lparr>ms_open := False\<rparr>) (r_sessions r)\<rparr>)"

subsection \<open>Reads over snapshots\<close>

definition snapshot_diff :: "schema \<Rightarrow> table \<Rightarrow> table \<Rightarrow> changeset" where
  "snapshot_diff sc before after =
     foldl (\<lambda>out p.
         if fmlookup before p = None
         then fmupd p \<lparr>ch_pk = p, ch_op = OpInsert, ch_row = opt_row (fmlookup after p),
                       ch_changed = mask_of None (opt_row (fmlookup after p)) (sc_cols sc)\<rparr> out
         else out)
       (foldl (\<lambda>out p.
           case fmlookup after p of
             None \<Rightarrow> fmupd p \<lparr>ch_pk = p, ch_op = OpDelete, ch_row = None, ch_changed = []\<rparr> out
           | Some tr \<Rightarrow>
               let fr = opt_row (fmlookup before p) in
               if \<not> row_equal fr tr
               then fmupd p \<lparr>ch_pk = p, ch_op = OpUpdate, ch_row = tr,
                             ch_changed = mask_of fr tr (sc_cols sc)\<rparr> out
               else out) fmempty (fm_keys before))
       (fm_keys after)"

definition model_diff :: "repo \<Rightarrow> string \<Rightarrow> string \<Rightarrow> changeset" where
  "model_diff r from_commit to_commit =
     snapshot_diff (r_schema r) (nil_table (model_resolve_at r from_commit))
       (nil_table (model_resolve_at r to_commit))"

definition filter_table :: "(row \<Rightarrow> bool) \<Rightarrow> table \<Rightarrow> table" where
  "filter_table pred t = fm_collect (\<lambda>p r. if pred r then Some r else None) t"

definition model_resolve_filtered :: "repo \<Rightarrow> string \<Rightarrow> (row \<Rightarrow> bool) \<Rightarrow> table" where
  "model_resolve_filtered r branch pred = filter_table pred (nil_table (model_resolve r branch))"

definition model_plan_update_where ::
  "repo \<Rightarrow> string \<Rightarrow> (row \<Rightarrow> bool) \<Rightarrow> (row \<Rightarrow> row) \<Rightarrow> changeset" where
  "model_plan_update_where r branch pred assign =
     plan_changes assign (model_resolve_filtered r branch pred)"

end
