(* ===== verification/EngineVis.thy ===== *)
theory EngineVis
  imports ModelDefs
begin

text \<open>
  What the engine's reads and masks depend on. \<open>hist rows b p\<close> is the list of the committed versions of
  key \<open>p\<close> on branch \<open>b\<close>; \<open>seg_row\<close> is what one segment shows of a key, \<open>chain_row\<close> what a resolution
  chain shows. The lemmas prove that \<^verbatim>\<open>winners\<close> picks the first segment of the chain that has a version
  in interval (a session's staged row first), that \<^verbatim>\<open>resolveChain\<close> computes \<open>chain_row\<close>, and which
  columns \<^verbatim>\<open>accumulateMask\<close> and \<^verbatim>\<open>maskSince\<close> mark.
\<close>

type_synonym hists = "string \<Rightarrow> pk \<Rightarrow> version list"

definition hist :: "version list \<Rightarrow> hists" where
  "hist rows b p = filter (\<lambda>v. v_session v = [] \<and> v_branch v = b \<and> v_pk v = p) rows"

definition staged :: "version list \<Rightarrow> string \<Rightarrow> pk \<Rightarrow> version list" where
  "staged rows sid p = filter (\<lambda>v. v_session v = sid \<and> v_pk v = p) rows"

text \<open>The row a version stands for: a tombstone stands for none.\<close>

definition live :: "version \<Rightarrow> row option" where
  "live v = (if v_op v = OpDelete then None else Some (v_row v))"

definition seg_version :: "version list \<Rightarrow> int \<Rightarrow> version option" where
  "seg_version h s = find (\<lambda>v. v_from v \<le> s \<and> s < v_to v) h"

fun chain_version :: "hists \<Rightarrow> segment list \<Rightarrow> pk \<Rightarrow> version option" where
  "chain_version H [] p = None"
| "chain_version H (g # T) p =
     (case seg_version (H (sg_branch g) p) (sg_seq g) of
        Some v \<Rightarrow> Some v
      | None \<Rightarrow> chain_version H T p)"

definition seg_row :: "version list \<Rightarrow> int \<Rightarrow> row option option" where
  "seg_row h s = map_option live (seg_version h s)"

fun chain_row :: "hists \<Rightarrow> segment list \<Rightarrow> pk \<Rightarrow> row option" where
  "chain_row H [] p = None"
| "chain_row H (g # T) p =
     (case seg_row (H (sg_branch g) p) (sg_seq g) of Some r \<Rightarrow> r | None \<Rightarrow> chain_row H T p)"

lemma chain_row_version:
  "chain_row H C p = (case chain_version H C p of None \<Rightarrow> None | Some v \<Rightarrow> live v)"
  by (induction H C p rule: chain_row.induct) (auto simp: seg_row_def split: option.splits)

lemma seg_version_hist:
  "find (\<lambda>v. in_segment g v \<and> v_pk v = p) rows = seg_version (hist rows (sg_branch g) p) (sg_seq g)"
  by (induction rows) (auto simp: seg_version_def hist_def in_segment_def)

subsection \<open>winners\<close>

text \<open>The state of the scan holds \<open>f\<close>, and every priority seen so far is at most \<open>k\<close>.\<close>

definition best_is :: "best \<Rightarrow> (pk \<Rightarrow> version option) \<Rightarrow> int \<Rightarrow> bool" where
  "best_is st f k \<longleftrightarrow>
     (\<forall>p. fmlookup (fst st) p = f p \<and> (fmlookup (snd st) p = None \<longleftrightarrow> f p = None)
        \<and> (\<forall>q. fmlookup (snd st) p = Some q \<longrightarrow> q \<le> k))"

lemma best_is_mono: "best_is st f k \<Longrightarrow> k \<le> l \<Longrightarrow> best_is st f l"
  unfolding best_is_def by (meson order_trans)

lemma best_is_consider:
  assumes "best_is st f k"
  shows "best_is (consider_version k v st)
    (\<lambda>p. case f p of Some w \<Rightarrow> Some w | None \<Rightarrow> if v_pk v = p then Some v else None) k"
proof (cases "f (v_pk v)")
  case None
  then have "fmlookup (snd st) (v_pk v) = None" using assms by (simp add: best_is_def)
  then have "consider_version k v st = (fmupd (v_pk v) v (fst st), fmupd (v_pk v) k (snd st))"
    by (simp add: consider_version_def split_beta)
  then show ?thesis
    using assms None by (auto simp: best_is_def split: option.splits)
next
  case (Some w)
  then obtain q where "fmlookup (snd st) (v_pk v) = Some q" "q \<le> k"
    using assms by (metis best_is_def option.exhaust option.distinct(1))
  then have "consider_version k v st = st" by (simp add: consider_version_def split_beta)
  moreover have "(\<lambda>p. case f p of Some w \<Rightarrow> Some w | None \<Rightarrow> if v_pk v = p then Some v else None) = f"
    using Some by (auto simp: fun_eq_iff split: option.splits)
  ultimately show ?thesis using assms by simp
qed

lemma best_is_scan:
  assumes "best_is st f k"
  shows "best_is (foldl (\<lambda>st v. if P v then consider_version k v st else st) st rows)
    (\<lambda>p. case f p of Some w \<Rightarrow> Some w | None \<Rightarrow> find (\<lambda>v. P v \<and> v_pk v = p) rows) k"
  using assms
proof (induction rows arbitrary: st f)
  case Nil
  have "(\<lambda>p. case f p of Some w \<Rightarrow> Some w | None \<Rightarrow> find (\<lambda>v. P v \<and> v_pk v = p) []) = f"
    by (auto simp: fun_eq_iff split: option.splits)
  with Nil show ?case by (simp del: find.simps)
next
  case (Cons v rows)
  let ?f = "\<lambda>p. case f p of Some w \<Rightarrow> Some w | None \<Rightarrow> if v_pk v = p then Some v else None"
  show ?case
  proof (cases "P v")
    case True
    have eq: "(\<lambda>p. case ?f p of Some w \<Rightarrow> Some w | None \<Rightarrow> find (\<lambda>v. P v \<and> v_pk v = p) rows)
        = (\<lambda>p. case f p of Some w \<Rightarrow> Some w | None \<Rightarrow> find (\<lambda>v. P v \<and> v_pk v = p) (v # rows))"
      using True by (auto simp: fun_eq_iff split: option.splits)
    show ?thesis
      using Cons.IH [OF best_is_consider [OF Cons.prems, of v]] True unfolding eq by simp
  next
    case False
    then have eq: "(\<lambda>p. case f p of Some w \<Rightarrow> Some w | None \<Rightarrow> find (\<lambda>v. P v \<and> v_pk v = p) (v # rows))
        = (\<lambda>p. case f p of Some w \<Rightarrow> Some w | None \<Rightarrow> find (\<lambda>v. P v \<and> v_pk v = p) rows)"
      by (auto simp: fun_eq_iff split: option.splits)
    show ?thesis unfolding eq using Cons.IH [OF Cons.prems] False by simp
  qed
qed

lemma best_is_chain:
  assumes "best_is st f (int k - 1)"
  shows "best_is (foldl (\<lambda>st (prio, seg). scan_segment rows (int prio) seg st) st (enumerate k chain))
    (\<lambda>p. case f p of Some w \<Rightarrow> Some w | None \<Rightarrow> chain_version (hist rows) chain p)
    (int (k + length chain) - 1)"
  using assms
proof (induction chain arbitrary: st f k)
  case Nil
  have "(\<lambda>p. case f p of Some w \<Rightarrow> Some w | None \<Rightarrow> chain_version (hist rows) [] p) = f"
    by (auto simp: fun_eq_iff split: option.splits)
  with Nil show ?case by (simp del: chain_version.simps)
next
  case (Cons g chain)
  let ?f = "\<lambda>p. case f p of Some w \<Rightarrow> Some w
                          | None \<Rightarrow> find (\<lambda>v. in_segment g v \<and> v_pk v = p) rows"
  have "best_is st f (int k)" using Cons.prems by (rule best_is_mono) simp
  then have "best_is (scan_segment rows (int k) g st) ?f (int (Suc k) - 1)"
    unfolding scan_segment_def using best_is_scan [of st f "int k" "in_segment g" rows] by simp
  from Cons.IH [OF this]
  have "best_is (foldl (\<lambda>st (prio, seg). scan_segment rows (int prio) seg st) st (enumerate k (g # chain)))
     (\<lambda>p. case ?f p of Some w \<Rightarrow> Some w | None \<Rightarrow> chain_version (hist rows) chain p)
     (int (k + length (g # chain)) - 1)"
    by simp
  moreover have "(\<lambda>p. case ?f p of Some w \<Rightarrow> Some w | None \<Rightarrow> chain_version (hist rows) chain p)
      = (\<lambda>p. case f p of Some w \<Rightarrow> Some w | None \<Rightarrow> chain_version (hist rows) (g # chain) p)"
    by (auto simp: fun_eq_iff seg_version_hist split: option.splits)
  ultimately show ?case by simp
qed

text \<open>What a session shows of a key: its staged version, or else the chain's.\<close>

definition view_version :: "version list \<Rightarrow> segment list \<Rightarrow> string \<Rightarrow> pk \<Rightarrow> version option" where
  "view_version rows chain sid p =
     (case (if sid = [] then [] else staged rows sid p) of
        v # _ \<Rightarrow> Some v
      | [] \<Rightarrow> chain_version (hist rows) chain p)"

lemma find_staged:
  "find (\<lambda>v. v_session v = sid \<and> v_pk v = p) rows
     = (case staged rows sid p of [] \<Rightarrow> None | v # _ \<Rightarrow> Some v)"
  by (induction rows) (auto simp: staged_def)

lemma fmlookup_winners: "fmlookup (winners rows chain sid) p = view_version rows chain sid p"
proof -
  let ?f = "\<lambda>p. if sid = [] then None else find (\<lambda>v. v_session v = sid \<and> v_pk v = p) rows"
  have "best_is (fmempty, fmempty) (\<lambda>p. None) (-1)" by (simp add: best_is_def)
  from best_is_scan [OF this, of "\<lambda>v. v_session v = sid" rows]
  have "best_is (scan_staged rows sid (fmempty, fmempty)) ?f (int 0 - 1)"
    by (auto simp: scan_staged_def best_is_def)
  from best_is_chain [OF this]
  have "fmlookup (winners rows chain sid) p
      = (case ?f p of Some w \<Rightarrow> Some w | None \<Rightarrow> chain_version (hist rows) chain p)"
    by (simp add: best_is_def winners_def)
  then show ?thesis
    by (auto simp: view_version_def find_staged split: list.splits option.splits)
qed

definition view_row :: "version list \<Rightarrow> segment list \<Rightarrow> string \<Rightarrow> pk \<Rightarrow> row option" where
  "view_row rows chain sid p =
     (case (if sid = [] then [] else staged rows sid p) of
        v # _ \<Rightarrow> live v
      | [] \<Rightarrow> chain_row (hist rows) chain p)"

lemma fmlookup_resolve_session [fm_simps]:
  "fmlookup (resolve_chain rows chain sid) p = view_row rows chain sid p"
  by (auto simp: resolve_chain_def fmlookup_winners view_version_def view_row_def chain_row_version
      live_def split: list.splits option.splits)

lemma fmlookup_resolve_chain [fm_simps]:
  "fmlookup (resolve_chain rows chain []) p = chain_row (hist rows) chain p"
  by (simp add: fmlookup_resolve_session view_row_def)

subsection \<open>Masks\<close>

definition marked :: "version list \<Rightarrow> int \<Rightarrow> int \<Rightarrow> colid \<Rightarrow> bool" where
  "marked h lo hi c \<longleftrightarrow> (\<exists>v \<in> set h. lo < v_from v \<and> v_from v \<le> hi \<and> mask_has (v_changed v) c)"

definition has_at :: "(pk, colmask) fmap \<Rightarrow> pk \<Rightarrow> colid \<Rightarrow> bool" where
  "has_at m p c \<longleftrightarrow> mask_has (mask_at m p) c"

lemma has_at_empty [simp]: "\<not> has_at fmempty p c"
  by (simp add: has_at_def mask_at_def)

lemma has_at_upd:
  "has_at (fmupd q (mask_or (mask_at m q) n) m) p c \<longleftrightarrow> has_at m p c \<or> p = q \<and> mask_has n c"
  by (auto simp: has_at_def mask_at_def mask_has_or)

lemma has_at_accumulate:
  "has_at (accumulate_mask rows b lo hi) p c \<longleftrightarrow> marked (hist rows b p) lo hi c"
proof -
  have "has_at (foldl (\<lambda>out v. if v_branch v \<noteq> b \<or> v_session v \<noteq> [] then out
         else if v_from v > lo \<and> v_from v \<le> hi
              then fmupd (v_pk v) (mask_or (mask_at out (v_pk v)) (v_changed v)) out
              else out) out rows) p c
      \<longleftrightarrow> has_at out p c \<or> marked (hist rows b p) lo hi c" for out
  proof (induction rows arbitrary: out)
    case Nil
    then show ?case by (simp add: marked_def hist_def)
  next
    case (Cons v rows)
    show ?case
      by (simp only: foldl.simps Cons.IH) (auto simp: marked_def hist_def has_at_upd)
  qed
  then show ?thesis by (simp add: accumulate_mask_def)
qed

lemma marked_empty_range: "hi \<le> lo \<Longrightarrow> \<not> marked h lo hi c"
  by (auto simp: marked_def)

lemma has_at_mask_add:
  "has_at (mask_add rows b lo hi out) p c \<longleftrightarrow> has_at out p c \<or> marked (hist rows b p) lo hi c"
proof -
  let ?acc = "accumulate_mask rows b lo hi"
  have fold: "has_at (foldl (\<lambda>out p. fmupd p (mask_or (mask_at out p) (mask_at ?acc p)) out) out ks) p c
      \<longleftrightarrow> has_at out p c \<or> p \<in> set ks \<and> has_at ?acc p c" for ks out
  proof (induction ks arbitrary: out)
    case (Cons k ks)
    show ?case
      by (simp only: foldl.simps Cons.IH has_at_upd) (auto simp: has_at_def)
  qed simp
  have "has_at ?acc p c \<Longrightarrow> p \<in> set (fm_keys ?acc)"
    by (cases "fmlookup ?acc p") (auto simp: has_at_def mask_at_def fmlookup_Some_dom)
  then show ?thesis
    by (auto simp: mask_add_def Let_def fold has_at_accumulate marked_empty_range)
qed

text \<open>The columns two chains may disagree on, by the ranges \<^verbatim>\<open>maskSince\<close> scans.\<close>

definition seg_seq_of :: "segment list \<Rightarrow> string \<Rightarrow> int option" where
  "seg_seq_of C b = map_option sg_seq (find (\<lambda>g. sg_branch g = b) C)"

definition diff_marked :: "hists \<Rightarrow> segment list \<Rightarrow> segment list \<Rightarrow> pk \<Rightarrow> colid \<Rightarrow> bool" where
  "diff_marked H B C p c \<longleftrightarrow>
     (\<exists>g \<in> set C. case seg_seq_of B (sg_branch g) of
                    None \<Rightarrow> marked (H (sg_branch g) p) 0 (sg_seq g) c
                  | Some s \<Rightarrow> marked (H (sg_branch g) p) (min s (sg_seq g)) (max s (sg_seq g)) c) \<or>
     (\<exists>g \<in> set B. sg_branch g \<notin> sg_branch ` set C \<and> marked (H (sg_branch g) p) 0 (sg_seq g) c)"

lemma base_upper_lookup:
  assumes "distinct (map sg_branch B)"
  shows "fmlookup (base_upper B) b = seg_seq_of B b"
proof -
  have "fmlookup (foldl (\<lambda>m s. fmupd (sg_branch s) (sg_seq s) m) m B) b
      = (case seg_seq_of B b of None \<Rightarrow> fmlookup m b | Some s \<Rightarrow> Some s)" for m
    using assms
  proof (induction B arbitrary: m)
    case (Cons g B)
    have "sg_branch g = b \<Longrightarrow> seg_seq_of B b = None"
      using Cons.prems by (auto simp: seg_seq_of_def find_None_iff image_iff)
    then show ?case
      using Cons.IH [of "fmupd (sg_branch g) (sg_seq g) m"] Cons.prems
      by (auto simp: seg_seq_of_def split: option.splits)
  qed (simp add: seg_seq_of_def)
  then show ?thesis by (auto simp: base_upper_def split: option.splits)
qed

lemma has_at_chain_diff:
  assumes "distinct (map sg_branch B)"
  shows "has_at (mask_chain_diff rows B C) p c \<longleftrightarrow> diff_marked (hist rows) B C p c"
proof -
  let ?step = "\<lambda>out seg. case fmlookup (base_upper B) (sg_branch seg) of
        None \<Rightarrow> mask_add rows (sg_branch seg) 0 (sg_seq seg) out
      | Some base_seq \<Rightarrow>
          let (lo, hi) = (if sg_seq seg < base_seq then (sg_seq seg, base_seq) else (base_seq, sg_seq seg))
          in mask_add rows (sg_branch seg) lo hi out"
  let ?mk = "\<lambda>g. case seg_seq_of B (sg_branch g) of
                    None \<Rightarrow> marked (hist rows (sg_branch g) p) 0 (sg_seq g) c
                  | Some s \<Rightarrow> marked (hist rows (sg_branch g) p) (min s (sg_seq g)) (max s (sg_seq g)) c"
  have step: "has_at (?step out g) p c \<longleftrightarrow> has_at out p c \<or> ?mk g" for out g
    by (auto simp: base_upper_lookup [OF assms] has_at_mask_add Let_def min_def max_def
        split: option.splits)
  have one: "has_at (foldl ?step out gs) p c \<longleftrightarrow> has_at out p c \<or> (\<exists>g \<in> set gs. ?mk g)" for gs out
    by (induction gs arbitrary: out) (simp_all only: foldl.simps step list.set, auto)
  have two: "has_at (foldl (\<lambda>out s. if sg_branch s \<notin> sg_branch ` set C
             then mask_add rows (sg_branch s) 0 (sg_seq s) out else out) out gs) p c
      \<longleftrightarrow> has_at out p c \<or> (\<exists>g \<in> set gs. sg_branch g \<notin> sg_branch ` set C
            \<and> marked (hist rows (sg_branch g) p) 0 (sg_seq g) c)" for gs out
    by (induction gs arbitrary: out) (auto simp: has_at_mask_add)
  show ?thesis
    unfolding mask_chain_diff_def Let_def [of "base_upper B"] two Let_def [of "foldl _ _ _"] one
      diff_marked_def by simp
qed

end
