(* ===== verification/MaskSound.thy ===== *)
theory MaskSound
  imports EngineVis
begin

text \<open>
  Soundness of the changed-column masks (findings F4 and F5 of the code): for two resolution chains
  the engine may compare, a column of the schema that \<^verbatim>\<open>maskSince\<close> does not mark has the same cell in
  both views. The argument needs four facts about the version list, each kept by every operation:
  the versions of a key on a branch are contiguous in sequence order; a version's mask covers what it
  changed against its predecessor; a column no version of a branch marks still has the inherited cell;
  and the chains name paths of the branch tree.
\<close>

subsection \<open>Contiguous versions\<close>

fun contig :: "version list \<Rightarrow> bool" where
  "contig [] \<longleftrightarrow> True"
| "contig [v] \<longleftrightarrow> v_from v < max_seq \<and> v_to v = max_seq"
| "contig (u # v # r) \<longleftrightarrow> v_from u < v_from v \<and> v_to u = v_from v \<and> contig (v # r)"

lemma contig_tl: "contig (u # r) \<Longrightarrow> contig r"
  by (cases r) simp_all

lemma contig_from_less: "contig (u # r) \<Longrightarrow> v \<in> set r \<Longrightarrow> v_from u < v_from v"
  by (induction r arbitrary: u) (auto, fastforce)

lemma contig_visible:
  "contig h \<Longrightarrow> s < max_seq \<Longrightarrow> seg_version h s \<noteq> None \<longleftrightarrow> h \<noteq> [] \<and> v_from (hd h) \<le> s"
  by (induction h rule: contig.induct) (auto simp: seg_version_def)

lemma contig_invisible:
  assumes "contig h" "s < max_seq" "seg_version h s = None" "v \<in> set h"
  shows "s < v_from v"
proof -
  obtain u r where h: "h = u # r" using assms(4) by (cases h) auto
  then have "s < v_from u" using contig_visible [OF assms(1,2)] assms(3) by auto
  with h assms(1,4) contig_from_less [of u r v] show ?thesis by auto
qed

lemma contig_persists:
  "contig h \<Longrightarrow> s \<le> t \<Longrightarrow> t < max_seq \<Longrightarrow> seg_version h s \<noteq> None \<Longrightarrow> seg_version h t \<noteq> None"
  by (simp only: contig_visible) auto

lemma seg_version_mem: "seg_version h s = Some v \<Longrightarrow> v \<in> set h \<and> v_from v \<le> s \<and> s < v_to v"
  by (auto simp: seg_version_def dest: find_SomeD)

lemma seg_version_Cons2:
  "contig (u # v # r) \<Longrightarrow> v_from v \<le> s \<Longrightarrow> seg_version (u # v # r) s = seg_version (v # r) s"
  by (simp add: seg_version_def)

subsection \<open>Masks cover the changes\<close>

definition cellv :: "row option \<Rightarrow> colid \<Rightarrow> cell" where
  "cellv r c = cell_of (row_get (opt_row r) c)"

fun mask_steps :: "colid set \<Rightarrow> version list \<Rightarrow> bool" where
  "mask_steps S (u # v # r) \<longleftrightarrow>
     (\<forall>c \<in> S. \<not> mask_has (v_changed v) c \<longrightarrow> cellv (live u) c = cellv (live v) c) \<and> mask_steps S (v # r)"
| "mask_steps S _ \<longleftrightarrow> True"

lemma marked_sub: "marked r lo' hi c \<Longrightarrow> lo \<le> lo' \<Longrightarrow> marked (u # r) lo hi c"
  by (force simp: marked_def)

lemma unmarked_same:
  assumes "contig h" "mask_steps S h" "c \<in> S" "s \<le> t" "t < max_seq" "\<not> marked h s t c"
    and "seg_version h s = Some u" "seg_version h t = Some w"
  shows "cellv (live u) c = cellv (live w) c"
  using assms
proof (induction h arbitrary: s u rule: contig.induct)
  case (2 v)
  then show ?case by (auto simp: seg_version_def split: if_splits)
next
  case (3 a b r)
  show ?case
  proof (cases "v_from b \<le> s")
    case True
    then have "seg_version (b # r) s = Some u" "seg_version (b # r) t = Some w"
      using 3(2) 3(5) 3(8,9) seg_version_Cons2 [of a b r] by auto
    moreover have "\<not> marked (b # r) s t c" using 3(7) marked_sub by blast
    ultimately show ?thesis using 3(1) [of s u] 3(2-6) True by auto
  next
    case s: False
    have ua: "u = a"
      using s 3(2) 3(8) seg_version_mem [OF 3(8)] contig_from_less [of b r u]
      by (force simp: seg_version_def split: if_splits dest: find_SomeD)
    show ?thesis
    proof (cases "v_from b \<le> t")
      case True
      have "\<not> mask_has (v_changed b) c" using s True 3(7) by (auto simp: marked_def)
      then have ab: "cellv (live a) c = cellv (live b) c" using 3(3,4) by auto
      have b: "seg_version (b # r) (v_from b) = Some b"
        using 3(2) by (cases r) (auto simp: seg_version_def)
      have w: "seg_version (b # r) t = Some w"
        using 3(2) 3(9) True seg_version_Cons2 [of a b r] by auto
      have "\<not> marked (b # r) (v_from b) t c" using s 3(7) marked_sub by (metis linear not_le)
      then have "cellv (live b) c = cellv (live w) c"
        using 3(1) [of "v_from b" b] 3(2-4) 3(6) True b w by auto
      with ua ab show ?thesis by simp
    next
      case False
      then have "w = a"
        using 3(2) 3(9) seg_version_mem [OF 3(9)] contig_from_less [of b r w]
        by (force simp: seg_version_def split: if_splits dest: find_SomeD)
      with ua show ?thesis by simp
    qed
  qed
qed (simp add: seg_version_def)

subsection \<open>Chains\<close>

text \<open>An unmarked column of a branch's own versions still has the cell of the inherited tail.\<close>

fun chain_ok :: "hists \<Rightarrow> colid set \<Rightarrow> segment list \<Rightarrow> pk \<Rightarrow> bool" where
  "chain_ok H S [] p \<longleftrightarrow> True"
| "chain_ok H S (g # T) p \<longleftrightarrow>
     chain_ok H S T p \<and>
     (\<forall>r c. seg_row (H (sg_branch g) p) (sg_seq g) = Some r \<longrightarrow> c \<in> S \<longrightarrow>
        \<not> marked (H (sg_branch g) p) 0 (sg_seq g) c \<longrightarrow> cellv r c = cellv (chain_row H T p) c)"

text \<open>The branch names of a chain: each the parent of the one before, down to the root.\<close>

fun tree_path :: "(string \<Rightarrow> string) \<Rightarrow> string list \<Rightarrow> bool" where
  "tree_path par [] \<longleftrightarrow> False"
| "tree_path par [x] \<longleftrightarrow> x = root_branch"
| "tree_path par (x # y # r) \<longleftrightarrow> x \<noteq> root_branch \<and> par x = y \<and> tree_path par (y # r)"

lemma tree_path_unique: "tree_path par (x # r) \<Longrightarrow> tree_path par (x # r') \<Longrightarrow> r = r'"
proof (induction r arbitrary: x r')
  case Nil
  then show ?case by (cases r') auto
next
  case (Cons y r)
  then show ?case by (cases r') auto
qed

lemma tree_path_suffix: "tree_path par (xs @ y # r) \<Longrightarrow> tree_path par (y # r)"
proof (induction xs)
  case (Cons x xs)
  then show ?case by (cases xs) auto
qed simp

lemma tree_path_root: "tree_path par xs \<Longrightarrow> root_branch \<in> set xs"
  by (induction par xs rule: tree_path.induct) auto

lemma tree_path_distinct: "tree_path par xs \<Longrightarrow> distinct xs"
proof (induction xs)
  case (Cons x r)
  have "x \<notin> set r"
  proof
    assume "x \<in> set r"
    then obtain a b where r: "r = a @ x # b" by (meson split_list)
    with Cons.prems have "tree_path par ((x # a) @ x # b)" by simp
    then have "tree_path par (x # b)" by (rule tree_path_suffix)
    then have "r = b" using Cons.prems tree_path_unique by blast
    with r show False by simp
  qed
  moreover have "distinct r" using Cons by (cases r) auto
  ultimately show ?case by simp
qed simp

lemma tree_path_heads:
  assumes "tree_path par (x # r)" "tree_path par (y # q)" "x \<in> set (y # q)" "y \<in> set (x # r)"
  shows "x = y \<and> r = q"
proof -
  obtain a b where 1: "y # q = a @ x # b" using assms(3) by (meson split_list)
  obtain d e where 2: "x # r = d @ y # e" using assms(4) by (meson split_list)
  have "tree_path par (x # b)" using assms(2) tree_path_suffix unfolding 1 by blast
  then have "b = r" using assms(1) tree_path_unique by blast
  moreover have "tree_path par (y # e)" using assms(1) tree_path_suffix unfolding 2 by blast
  then have "e = q" using assms(2) tree_path_unique by blast
  ultimately have "length a = 0" using arg_cong [OF 1, of length] arg_cong [OF 2, of length] by simp
  with 1 \<open>b = r\<close> show ?thesis by simp
qed

abbreviation names :: "segment list \<Rightarrow> string list" where
  "names C \<equiv> map sg_branch C"

text \<open>What the histories of one key must satisfy.\<close>

definition hist_good :: "hists \<Rightarrow> colid set \<Rightarrow> pk \<Rightarrow> bool" where
  "hist_good H S p \<longleftrightarrow>
     (\<forall>b. contig (H b p) \<and> mask_steps S (H b p) \<and> (\<forall>v \<in> set (H b p). 0 < v_from v))"

definition seqs_ok :: "segment list \<Rightarrow> bool" where
  "seqs_ok C \<longleftrightarrow> (\<forall>g \<in> set C. 0 \<le> sg_seq g \<and> sg_seq g < max_seq)"

lemma unmarked_segment:
  assumes "chain_ok H S (g # T) p" "c \<in> S" "\<not> marked (H (sg_branch g) p) 0 (sg_seq g) c"
  shows "cellv (chain_row H (g # T) p) c = cellv (chain_row H T p) c"
  using assms by (auto split: option.splits)

text \<open>One branch at two sequence numbers, over tails that agree on the cell.\<close>

lemma unmarked_between_le:
  assumes good: "hist_good H S p" and "c \<in> S" "sg_branch g = sg_branch g'" "sg_seq g \<le> sg_seq g'"
    and "0 \<le> sg_seq g" "sg_seq g' < max_seq"
    and ok: "chain_ok H S (g # T) p" "chain_ok H S (g' # T') p"
    and unm: "\<not> marked (H (sg_branch g) p) (sg_seq g) (sg_seq g') c"
    and tails: "cellv (chain_row H T p) c = cellv (chain_row H T' p) c"
  shows "cellv (chain_row H (g # T) p) c = cellv (chain_row H (g' # T') p) c"
proof -
  let ?h = "H (sg_branch g) p"
  have h: "contig ?h" "mask_steps S ?h" using good by (auto simp: hist_good_def)
  show ?thesis
  proof (cases "seg_version ?h (sg_seq g)")
    case (Some u)
    then obtain w where w: "seg_version ?h (sg_seq g') = Some w"
      using contig_persists [OF h(1) assms(4,6)] by auto
    have "cellv (live u) c = cellv (live w) c"
      by (rule unmarked_same [OF h assms(2,4,6) unm Some w])
    with Some w show ?thesis by (simp add: seg_row_def assms(3) [symmetric])
  next
    case None
    have "\<not> marked ?h 0 (sg_seq g') c"
      using unm contig_invisible [OF h(1) _ None] assms(4,6) by (auto simp: marked_def)
    then have "cellv (chain_row H (g' # T') p) c = cellv (chain_row H T' p) c"
      using unmarked_segment [OF ok(2) assms(2)] assms(3) by simp
    with None tails show ?thesis by (simp add: seg_row_def)
  qed
qed

lemma seg_seq_of_skip: "sg_branch g \<noteq> b \<Longrightarrow> seg_seq_of (g # B) b = seg_seq_of B b"
  by (simp add: seg_seq_of_def)

lemma diff_unmarked_fst:
  assumes "\<not> diff_marked H B (g # C) p c" "sg_branch g \<notin> set (names B)"
  shows "\<not> diff_marked H B C p c \<and> \<not> marked (H (sg_branch g) p) 0 (sg_seq g) c"
proof -
  have "seg_seq_of B (sg_branch g) = None"
    using assms(2) by (auto simp: seg_seq_of_def find_None_iff image_iff)
  moreover have "\<And>d. d \<in> set B \<Longrightarrow> sg_branch d \<noteq> sg_branch g" using assms(2) by (auto simp: image_iff)
  ultimately show ?thesis using assms by (auto simp: diff_marked_def)
qed

lemma diff_unmarked_snd:
  assumes "\<not> diff_marked H (g # B) C p c" "sg_branch g \<notin> set (names C)"
  shows "\<not> diff_marked H B C p c \<and> \<not> marked (H (sg_branch g) p) 0 (sg_seq g) c"
proof -
  have "seg_seq_of (g # B) (sg_branch d) = seg_seq_of B (sg_branch d)" if "d \<in> set C" for d
    using assms(2) that by (intro seg_seq_of_skip) auto
  with assms show ?thesis by (auto simp: diff_marked_def)
qed

lemma diff_unmarked_both:
  assumes "\<not> diff_marked H (g # B) (g' # C) p c" "sg_branch g = sg_branch g'"
    and "sg_branch g' \<notin> set (names C)" "sg_branch g \<notin> set (names B)"
  shows "\<not> diff_marked H B C p c \<and>
    \<not> marked (H (sg_branch g) p) (min (sg_seq g) (sg_seq g')) (max (sg_seq g) (sg_seq g')) c"
proof -
  have "seg_seq_of (g # B) (sg_branch d) = seg_seq_of B (sg_branch d)" if "d \<in> set C" for d
    using assms(2,3) that by (intro seg_seq_of_skip) auto
  moreover have "seg_seq_of (g # B) (sg_branch g') = Some (sg_seq g)"
    using assms(2) by (simp add: seg_seq_of_def)
  moreover have "sg_branch d \<noteq> sg_branch g'" if "d \<in> set B" for d
    using assms(2,4) that by (auto simp: image_iff)
  ultimately show ?thesis using assms(1,2) unfolding diff_marked_def by auto
qed

lemma mask_sound_aux:
  assumes good: "hist_good H S p" and c: "c \<in> S"
  shows "chain_ok H S B p \<Longrightarrow> chain_ok H S C p \<Longrightarrow> seqs_ok B \<Longrightarrow> seqs_ok C \<Longrightarrow>
    (B = [] \<and> C = []) \<or> (tree_path par (names B) \<and> tree_path par (names C)) \<Longrightarrow>
    \<not> diff_marked H B C p c \<Longrightarrow> cellv (chain_row H B p) c = cellv (chain_row H C p) c"
proof (induction "length B + length C" arbitrary: B C rule: less_induct)
  case less
  show ?case
  proof (cases "B = [] \<and> C = []")
    case False
    then have paths: "tree_path par (names B)" "tree_path par (names C)" using less.prems(5) by auto
    obtain g B' where B: "B = g # B'" using paths(1) by (cases B) auto
    obtain g' C' where C: "C = g' # C'" using paths(2) by (cases C) auto
    have dist: "sg_branch g \<notin> set (names B')" "sg_branch g' \<notin> set (names C')"
      using tree_path_distinct [OF paths(1)] tree_path_distinct [OF paths(2)] B C by auto
    have tails: "chain_ok H S B' p" "chain_ok H S C' p" "seqs_ok B'" "seqs_ok C'"
      using less.prems(1-4) B C by (auto simp: seqs_ok_def)
    show ?thesis
    proof (cases "sg_branch g' \<in> set (names B)")
      case False
      then have "C' \<noteq> []" using tree_path_root [OF paths(1)] paths(2) C by auto
      then have p': "tree_path par (names C')" using paths(2) C by (cases C') auto
      note d = diff_unmarked_fst [OF less.prems(6) [unfolded C] False]
      have "cellv (chain_row H B p) c = cellv (chain_row H C' p) c"
        using less.hyps [of B C'] less.prems(1,3) tails paths(1) p' d C by simp
      also have "\<dots> = cellv (chain_row H C p) c"
        using unmarked_segment [OF less.prems(2) [unfolded C] c] d C by simp
      finally show ?thesis .
    next
      case in_B: True
      show ?thesis
      proof (cases "sg_branch g \<in> set (names C)")
        case False
        then have "B' \<noteq> []" using tree_path_root [OF paths(2)] paths(1) B by auto
        then have p': "tree_path par (names B')" using paths(1) B by (cases B') auto
        note d = diff_unmarked_snd [OF less.prems(6) [unfolded B] False]
        have "cellv (chain_row H B p) c = cellv (chain_row H B' p) c"
          using unmarked_segment [OF less.prems(1) [unfolded B] c] d B by simp
        also have "\<dots> = cellv (chain_row H C p) c"
          using less.hyps [of B' C] less.prems(2,4) tails paths(2) p' d B by simp
        finally show ?thesis .
      next
        case True
        have same: "sg_branch g = sg_branch g' \<and> names B' = names C'"
          using tree_path_heads [of par "sg_branch g" "names B'" "sg_branch g'" "names C'"]
            paths in_B True B C by simp
        note d = diff_unmarked_both [OF less.prems(6) [unfolded B C] _ dist(2,1)]
        have p': "(B' = [] \<and> C' = []) \<or> (tree_path par (names B') \<and> tree_path par (names C'))"
        proof (cases B')
          case Nil
          then show ?thesis using same by simp
        next
          case (Cons x xs)
          then show ?thesis using paths(1) same B by (cases C') auto
        qed
        have IH: "cellv (chain_row H B' p) c = cellv (chain_row H C' p) c"
          using less.hyps [of B' C'] tails p' d same B C by simp
        have seqs: "0 \<le> sg_seq g" "sg_seq g < max_seq" "0 \<le> sg_seq g'" "sg_seq g' < max_seq"
          using less.prems(3,4) B C by (auto simp: seqs_ok_def)
        show ?thesis
        proof (cases "sg_seq g \<le> sg_seq g'")
          case True
          then show ?thesis
            using unmarked_between_le [OF good c _ True seqs(1,4) less.prems(1) [unfolded B]
                less.prems(2) [unfolded C] _ IH] d same B C by (simp add: min_def max_def)
        next
          case False
          then have le: "sg_seq g' \<le> sg_seq g" by simp
          have "cellv (chain_row H C p) c = cellv (chain_row H B p) c" unfolding B C
          proof (rule unmarked_between_le [OF good c _ le seqs(3,2) less.prems(2) [unfolded C]
                less.prems(1) [unfolded B] _ IH [symmetric]])
            show "sg_branch g' = sg_branch g" using same by simp
            show "\<not> marked (H (sg_branch g') p) (sg_seq g') (sg_seq g) c"
              using d same False by (simp add: min_def max_def)
          qed
          then show ?thesis by simp
        qed
      qed
    qed
  qed simp
qed

lemma mask_sound:
  assumes "hist_good H S p" "c \<in> S" "chain_ok H S B p" "chain_ok H S C p" "seqs_ok B" "seqs_ok C"
    and "tree_path par (names B)" "tree_path par (names C)" "\<not> diff_marked H B C p c"
  shows "cellv (chain_row H B p) c = cellv (chain_row H C p) c"
  using mask_sound_aux [OF assms(1,2,3,4,5,6) _ assms(9)] assms(7,8) by blast

end
