(* ===== verification/MergeFacts.thy ===== *)
theory MergeFacts
  imports MaskSound
begin

text \<open>
  The three-way merge. \<open>merge_with\<close> is characterised key by key; the masked cell merge of the engine
  and the full cell merge of the model are compared: where the masks are sound they give the same row
  and the same conflicts. \<open>cell_pick\<close> is the outcome of one cell, \<^term>\<open>None\<close> for a conflict.
\<close>

subsection \<open>Cells\<close>

definition cell_pick :: "row \<Rightarrow> row \<Rightarrow> row \<Rightarrow> colid \<Rightarrow> val option" where
  "cell_pick b a t c =
     (let bv = row_get b c; av = row_get a c; tv = row_get t c in
      if val_equal av bv then Some tv
      else if val_equal tv bv then Some av
      else if val_equal av tv then Some av
      else None)"

definition cell_conflicts :: "pk \<Rightarrow> row \<Rightarrow> row \<Rightarrow> row \<Rightarrow> colid list \<Rightarrow> conflict list" where
  "cell_conflicts p b a t cs =
     map (\<lambda>c. cell_conflict p c (row_get b c) (row_get a c) (row_get t c))
       (filter (\<lambda>c. cell_pick b a t c = None) cs)"

lemma merge_cell_pick:
  "merge_cell p b a t (m, cc) c =
     (case cell_pick b a t c of
        Some v \<Rightarrow> (fmupd c v m, cc)
      | None \<Rightarrow> (m, cc @ [cell_conflict p c (row_get b c) (row_get a c) (row_get t c)]))"
  by (simp add: merge_cell_def cell_pick_def Let_def)

lemma fold_merge_cell:
  "row_get (Some (fst (foldl (merge_cell p b a t) (m, cc) cs))) c
     = (if c \<in> set cs then case cell_pick b a t c of Some v \<Rightarrow> v | None \<Rightarrow> row_get (Some m) c
        else row_get (Some m) c)"
  "snd (foldl (merge_cell p b a t) (m, cc) cs) = cc @ cell_conflicts p b a t cs"
proof (induction cs arbitrary: m cc)
  case (Cons d cs)
  {
    case 1
    show ?case
    proof (cases "cell_pick b a t d")
      case None
      then show ?thesis using Cons.IH(1) by (auto simp: merge_cell_pick split: option.splits)
    next
      case (Some v)
      then show ?thesis
        using Cons.IH(1) by (auto simp: merge_cell_pick row_get_upd split: option.splits)
    qed
  next
    case 2
    show ?case
      by (cases "cell_pick b a t d") (simp_all add: merge_cell_pick Cons.IH(2) cell_conflicts_def)
  }
qed (simp_all add: cell_conflicts_def)

lemma full_cells_row:
  "row_get (fst (full_cells cols p b a t)) c
     = (if c \<in> set cols then case cell_pick b a t c of Some v \<Rightarrow> v | None \<Rightarrow> null_val else null_val)"
  "snd (full_cells cols p b a t) = cell_conflicts p b a t cols"
  "fst (full_cells cols p b a t) \<noteq> None"
  by (auto simp: full_cells_def split_beta fold_merge_cell split: option.splits)

definition mask_candidates :: "(pk, colmask) fmap \<Rightarrow> (pk, colmask) fmap \<Rightarrow> pk \<Rightarrow> colid list" where
  "mask_candidates mo mt p = union_cols (mask_at mo p) (mask_at mt p)"

lemma fold_untouched:
  "row_get (Some (foldl (\<lambda>m c. if c \<notin> K then fmupd c (row_get b c) m else m) m cols)) c
     = (if c \<in> set cols \<and> c \<notin> K then row_get b c else row_get (Some m) c)"
  by (induction cols arbitrary: m) (auto simp: row_get_upd)

lemma masked_cells_row:
  "row_get (fst (masked_cells cols mo mt p b a t)) c
     = (if c \<in> set (mask_candidates mo mt p)
        then case cell_pick b a t c of Some v \<Rightarrow> v | None \<Rightarrow> null_val
        else if c \<in> set cols then row_get b c else null_val)"
  "snd (masked_cells cols mo mt p b a t) = cell_conflicts p b a t (mask_candidates mo mt p)"
  "fst (masked_cells cols mo mt p b a t) \<noteq> None"
  by (auto simp: masked_cells_def split_beta Let_def fold_merge_cell fold_untouched
      mask_candidates_def split: option.splits)

definition masks_ok :: "(pk, colmask) fmap \<Rightarrow> bool" where
  "masks_ok m \<longleftrightarrow> (\<forall>p. mask_ok (mask_at m p))"

lemma set_mask_candidates:
  assumes "masks_ok mo" "masks_ok mt"
  shows "c \<in> set (mask_candidates mo mt p) \<longleftrightarrow> has_at mo p c \<or> has_at mt p c"
  using assms by (simp add: mask_candidates_def union_cols_def masks_ok_def set_mask_cols has_at_def)

lemma distinct_mask_candidates [simp]: "distinct (mask_candidates mo mt p)"
  by (simp add: mask_candidates_def union_cols_def)

subsection \<open>Keys\<close>

lemma set_merge_keys: "set (merge_keys b o' t) = fmdom' b \<union> fmdom' o' \<union> fmdom' t"
  by (auto simp: merge_keys_def)

lemma distinct_merge_keys [simp]: "distinct (merge_keys b o' t)"
  by (simp add: merge_keys_def)

lemma merge_case_absent [simp]: "merge_case cells p None None None = (None, [])"
  by (simp add: merge_case_def same_opt_def)

lemma fold_merge_keys:
  assumes "distinct ks"
  shows "fmlookup (fst (foldl (\<lambda>(out, conflicts) p. let (r, cc) = f p
            in (case r of None \<Rightarrow> out | Some x \<Rightarrow> fmupd p x out, conflicts @ cc)) (out, cf) ks)) q
      = (if q \<in> set ks \<and> fst (f q) \<noteq> None then fst (f q) else fmlookup out q)"
    and "snd (foldl (\<lambda>(out, conflicts) p. let (r, cc) = f p
            in (case r of None \<Rightarrow> out | Some x \<Rightarrow> fmupd p x out, conflicts @ cc)) (out, cf) ks)
      = cf @ concat (map (\<lambda>p. snd (f p)) ks)"
  using assms
proof (induction ks arbitrary: out cf)
  case (Cons k ks)
  obtain r cc where f: "f k = (r, cc)" by fastforce
  {
    case 1
    then show ?case
      using Cons.IH(1) [of "case r of None \<Rightarrow> out | Some x \<Rightarrow> fmupd k x out" "cf @ cc"] f
      by (auto split: option.splits)
  next
    case 2
    then show ?case
      using Cons.IH(2) [of "case r of None \<Rightarrow> out | Some x \<Rightarrow> fmupd k x out" "cf @ cc"] f by simp
  }
qed simp_all

abbreviation merge_at ::
  "(pk \<Rightarrow> row \<Rightarrow> row \<Rightarrow> row \<Rightarrow> row \<times> conflict list) \<Rightarrow> table \<Rightarrow> table \<Rightarrow> table \<Rightarrow> pk \<Rightarrow>
   row option \<times> conflict list" where
  "merge_at cells b a t p \<equiv> merge_case cells p (fmlookup b p) (fmlookup a p) (fmlookup t p)"

lemma fmlookup_merge_with [fm_simps]:
  "fmlookup (fst (merge_with cells b a t)) p = fst (merge_at cells b a t p)"
proof -
  have "p \<notin> set (merge_keys b a t) \<Longrightarrow> merge_at cells b a t p = (None, [])"
    by (simp add: set_merge_keys fmlookup_None_dom [THEN iffD2])
  then show ?thesis
    using fold_merge_keys(1) [OF distinct_merge_keys, of "merge_at cells b a t" fmempty "[]" b a t p]
    by (auto simp: merge_with_def split_beta)
qed

lemma snd_merge_with:
  "snd (merge_with cells b a t)
     = sort_conflicts (concat (map (\<lambda>p. snd (merge_at cells b a t p)) (merge_keys b a t)))"
  using fold_merge_keys(2) [OF distinct_merge_keys, of "merge_at cells b a t" fmempty "[]" b a t]
  by (simp add: merge_with_def split_beta)

lemma merge_with_clean:
  "snd (merge_with cells b a t) = [] \<longleftrightarrow> (\<forall>p. snd (merge_at cells b a t p) = [])"
proof -
  have "snd (merge_at cells b a t p) = []" if "p \<notin> set (merge_keys b a t)" for p
    using that by (simp add: set_merge_keys fmlookup_None_dom [THEN iffD2])
  then have "(\<forall>p \<in> set (merge_keys b a t). snd (merge_at cells b a t p) = [])
      \<longleftrightarrow> (\<forall>p. snd (merge_at cells b a t p) = [])" by blast
  then show ?thesis
    unfolding snd_merge_with sort_conflicts_empty concat_eq_Nil_conv set_map ball_simps by simp
qed

subsection \<open>A clean merge follows the side that moved\<close>

definition opt_repr :: "row option \<Rightarrow> (bool \<times> (colid \<Rightarrow> cell)) option" where
  "opt_repr r = map_option row_repr r"

definition opt_ok :: "row option \<Rightarrow> bool" where
  "opt_ok r \<longleftrightarrow> (case r of None \<Rightarrow> True | Some x \<Rightarrow> row_ok x)"

lemma same_opt_iff: "same_opt a b \<longleftrightarrow> opt_ok a \<and> opt_ok b \<and> opt_repr a = opt_repr b"
  by (auto simp: same_opt_def opt_ok_def opt_repr_def row_equal_iff split: option.splits)

interpretation oeq: canonical_eq same_opt opt_ok opt_repr
  by unfold_locales (rule same_opt_iff)

lemma opt_repr_cellv: "opt_repr a = opt_repr b \<Longrightarrow> cellv a c = cellv b c"
  by (cases a; cases b) (simp_all add: opt_repr_def cellv_def opt_row_def row_repr_def fun_eq_iff)

lemma same_opt_cellv: "same_opt a b \<Longrightarrow> cellv a c = cellv b c"
  using opt_repr_cellv same_opt_iff by blast

lemma merge_case_cells:
  assumes "\<not> same_opt (Some b) (Some a)" "\<not> same_opt (Some b) (Some t)" "\<not> same_opt (Some a) (Some t)"
  shows "merge_case cells p (Some b) (Some a) (Some t)
    = (if snd (cells p b a t) \<noteq> [] then (None, snd (cells p b a t)) else (Some (fst (cells p b a t)), []))"
  using assms by (simp add: merge_case_def Let_def split_beta opt_row_def)

lemma merge_case_clash:
  assumes "\<not> same_opt b a" "\<not> same_opt b t" "\<not> same_opt a t" "b = None \<or> a = None \<or> t = None"
  shows "merge_case cells p b a t
    = (None, [row_conflict p (if b = None then ConflictAddAdd else ConflictDeleteModify)])"
  using assms by (auto simp: merge_case_def Let_def)

lemma cell_pick_follows:
  "cell_pick b a t c = Some v \<Longrightarrow> cell_of (row_get a c) = cell_of (row_get b c)
    \<Longrightarrow> cell_of v = cell_of (row_get t c)"
  by (auto simp: cell_pick_def Let_def val_equal_iff split: if_splits)

text \<open>
  If our side still has the base's cell, a clean masked merge has their cell; it suffices that the
  cells no mask marks have not changed on their side.
\<close>

lemma merge_follows:
  assumes clean: "snd (merge_case (masked_cells cols mo mt) p b a t) = []"
    and c: "c \<in> set cols" and ours: "cellv a c = cellv b c"
    and sound: "c \<notin> set (mask_candidates mo mt p) \<Longrightarrow> cellv t c = cellv b c"
  shows "cellv (fst (merge_case (masked_cells cols mo mt) p b a t)) c = cellv t c"
proof -
  consider (none) "same_opt b a" "same_opt b t" | (theirs) "same_opt b a" "\<not> same_opt b t"
    | (ours) "\<not> same_opt b a" "same_opt b t" | (both) "\<not> same_opt b a" "\<not> same_opt b t" "same_opt a t"
    | (cells) "\<not> same_opt b a" "\<not> same_opt b t" "\<not> same_opt a t" by blast
  then show ?thesis
  proof cases
    case cells
    have "b \<noteq> None \<and> a \<noteq> None \<and> t \<noteq> None"
    proof (rule ccontr)
      assume "\<not> ?thesis"
      then have "b = None \<or> a = None \<or> t = None" by blast
      from merge_case_clash [OF cells this] clean show False by simp
    qed
    then obtain bx ax tx where x: "b = Some bx" "a = Some ax" "t = Some tx" by blast
    let ?m = "masked_cells cols mo mt p bx ax tx"
    note case_eq = merge_case_cells [OF cells [unfolded x], of "masked_cells cols mo mt" p]
    then have nil: "snd ?m = []" using clean x by (auto split: if_splits)
    have fst_eq: "fst (merge_case (masked_cells cols mo mt) p b a t) = Some (fst ?m)"
      using case_eq nil x by simp
    have rows: "opt_row b = bx" "opt_row a = ax" "opt_row t = tx" using x by (simp_all add: opt_row_def)
    show ?thesis
    proof (cases "c \<in> set (mask_candidates mo mt p)")
      case True
      then have "cell_pick bx ax tx c \<noteq> None"
        using nil by (auto simp: masked_cells_row cell_conflicts_def filter_empty_conv)
      then obtain v where v: "cell_pick bx ax tx c = Some v" by blast
      then have "cell_of v = cellv t c"
        using cell_pick_follows [OF v] ours rows by (simp add: cellv_def)
      with True v show ?thesis by (simp add: fst_eq cellv_def [of "Some _"] opt_row_def masked_cells_row)
    next
      case False
      have "cellv (fst (merge_case (masked_cells cols mo mt) p b a t)) c = cell_of (row_get bx c)"
        using False c by (simp add: fst_eq cellv_def opt_row_def masked_cells_row)
      then show ?thesis using sound [OF False] rows by (simp add: cellv_def)
    qed
  next
    case none
    then show ?thesis using same_opt_cellv [OF none(2)] by (simp add: merge_case_def Let_def)
  next
    case theirs
    then show ?thesis by (simp add: merge_case_def Let_def)
  next
    case (ours)
    then show ?thesis using same_opt_cellv [OF ours(2)] assms(3) by (simp add: merge_case_def Let_def)
  next
    case both
    then show ?thesis using same_opt_cellv [OF both(3)] by (simp add: merge_case_def Let_def)
  qed
qed

subsection \<open>Masked and full cells agree\<close>

text \<open>A conflict by the cells it names; rows and conflicts are compared by representation.\<close>

type_synonym conflict_rep = "(pk \<times> conflict_kind \<times> colid) \<times> bool \<times> cell \<times> cell \<times> cell"

definition conflict_repr :: "conflict \<Rightarrow> conflict_rep" where
  "conflict_repr c = (conflict_key c, cf_has_col c, cell_of (cf_base c), cell_of (cf_ours c), cell_of (cf_theirs c))"

text \<open>One outcome of a key: the row by its representation, the conflicts as a set.\<close>

definition outcome_repr ::
  "row option \<times> conflict list \<Rightarrow> (bool \<times> (colid \<Rightarrow> cell)) option \<times> conflict_rep set" where
  "outcome_repr o' = (opt_repr (fst o'), conflict_repr ` set (snd o'))"

lemma cell_pick_repr:
  assumes "row_ok b" "row_ok a" "row_ok t" "row_ok b'" "row_ok a'" "row_ok t'"
    and "cell_of (row_get b c) = cell_of (row_get b' c)" "cell_of (row_get a c) = cell_of (row_get a' c)"
      "cell_of (row_get t c) = cell_of (row_get t' c)"
  shows "map_option cell_of (cell_pick b a t c) = map_option cell_of (cell_pick b' a' t' c)"
  using assms by (simp add: cell_pick_def Let_def val_equal_iff row_ok_iff)

lemma cell_pick_ok:
  "cell_pick b a t c = Some v \<Longrightarrow> row_ok a \<Longrightarrow> row_ok t \<Longrightarrow> val_ok v"
  by (auto simp: cell_pick_def Let_def row_ok_iff split: if_splits)

lemma cell_pick_unchanged:
  assumes "row_ok b" "row_ok a" "row_ok t" "cell_of (row_get a c) = cell_of (row_get b c)"
  shows "cell_pick b a t c = Some (row_get t c)"
  using assms by (simp add: cell_pick_def val_equal_iff row_ok_iff)

lemma row_conflict_repr [simp]: "conflict_repr (row_conflict p k) = ((p, k, 0), False, CNull, CNull, CNull)"
  by (simp add: conflict_repr_def row_conflict_def conflict_key_def cell_of_def zero_val_def)

lemma cell_conflicts_repr:
  "conflict_repr ` set (cell_conflicts p b a t cs)
     = (\<lambda>c. ((p, ConflictCell, c), True, cell_of (row_get b c), cell_of (row_get a c), cell_of (row_get t c)))
       ` {c \<in> set cs. cell_pick b a t c = None}"
  by (auto simp: cell_conflicts_def conflict_repr_def cell_conflict_def conflict_key_def image_iff)

lemma cell_conflicts_empty: "cell_conflicts p b a t cs = [] \<longleftrightarrow> (\<forall>c \<in> set cs. cell_pick b a t c \<noteq> None)"
  by (auto simp: cell_conflicts_def filter_empty_conv)

text \<open>The merge of one key, with masks sound for the key, against the merge of equal rows in full.\<close>

lemma merge_case_agree:
  assumes ok: "opt_ok b" "opt_ok a" "opt_ok t" "opt_ok b'" "opt_ok a'" "opt_ok t'"
    and rep: "opt_repr b = opt_repr b'" "opt_repr a = opt_repr a'" "opt_repr t = opt_repr t'"
    and sub: "set (mask_candidates mo mt p) \<subseteq> set cols"
    and sound: "\<And>c. c \<in> set cols \<Longrightarrow> c \<notin> set (mask_candidates mo mt p) \<Longrightarrow>
        cellv a c = cellv b c \<and> cellv t c = cellv b c"
  shows "outcome_repr (merge_case (masked_cells cols mo mt) p b a t)
       = outcome_repr (merge_case (full_cells cols) p b' a' t')"
proof -
  have same: "same_opt b a = same_opt b' a'" "same_opt b t = same_opt b' t'" "same_opt a t = same_opt a' t'"
    using ok rep by (simp_all add: same_opt_iff)
  have none: "b = None \<longleftrightarrow> b' = None" "a = None \<longleftrightarrow> a' = None" "t = None \<longleftrightarrow> t' = None"
    using rep by (auto simp: opt_repr_def)
  consider (easy) "same_opt b a \<or> same_opt b t \<or> same_opt a t"
    | (clash) "\<not> same_opt b a" "\<not> same_opt b t" "\<not> same_opt a t" "b = None \<or> a = None \<or> t = None"
    | (cells) "\<not> same_opt b a" "\<not> same_opt b t" "\<not> same_opt a t" "b \<noteq> None" "a \<noteq> None" "t \<noteq> None"
    by blast
  then show ?thesis
  proof cases
    case easy
    then show ?thesis using same rep by (auto simp: merge_case_def Let_def outcome_repr_def)
  next
    case clash
    have "outcome_repr (merge_case (full_cells cols) p b' a' t')
        = outcome_repr (None, [row_conflict p (if b' = None then ConflictAddAdd else ConflictDeleteModify)])"
      using merge_case_clash [of b' a' t' "full_cells cols" p] clash same none by simp
    then show ?thesis using merge_case_clash [OF clash] none by simp
  next
    case cells
    then obtain bx ax tx where x: "b = Some bx" "a = Some ax" "t = Some tx" by blast
    obtain bx' ax' tx' where x': "b' = Some bx'" "a' = Some ax'" "t' = Some tx'"
      using cells(4-6) none by blast
    have okx: "row_ok bx" "row_ok ax" "row_ok tx" "row_ok bx'" "row_ok ax'" "row_ok tx'"
      using ok x x' by (simp_all add: opt_ok_def)
    have get: "cell_of (row_get bx c) = cell_of (row_get bx' c)"
      "cell_of (row_get ax c) = cell_of (row_get ax' c)"
      "cell_of (row_get tx c) = cell_of (row_get tx' c)" for c
      using rep x x' by (simp_all add: opt_repr_def row_repr_def fun_eq_iff)
    have pick: "map_option cell_of (cell_pick bx ax tx c) = map_option cell_of (cell_pick bx' ax' tx' c)" for c
      by (rule cell_pick_repr) (use okx get in auto)
    then have pick_None: "cell_pick bx ax tx c = None \<longleftrightarrow> cell_pick bx' ax' tx' c = None" for c
      by (metis map_option_is_None)
    have unm: "cell_pick bx ax tx c = Some (row_get tx c) \<and> cell_of (row_get tx c) = cell_of (row_get bx c)"
      if "c \<in> set cols" "c \<notin> set (mask_candidates mo mt p)" for c
      using sound [OF that] okx x cell_pick_unchanged by (simp add: cellv_def opt_row_def)
    let ?m = "masked_cells cols mo mt p bx ax tx" and ?f = "full_cells cols p bx' ax' tx'"
    have cf: "conflict_repr ` set (snd ?m) = conflict_repr ` set (snd ?f)"
      unfolding masked_cells_row full_cells_row cell_conflicts_repr get pick_None
    proof (intro arg_cong [where f = "image _"])
      show "{c \<in> set (mask_candidates mo mt p). cell_pick bx' ax' tx' c = None}
          = {c \<in> set cols. cell_pick bx' ax' tx' c = None}"
        using sub unm pick_None by (metis (no_types, lifting) option.distinct(1) subsetD)
    qed
    then have nil: "snd ?m = [] \<longleftrightarrow> snd ?f = []" by (metis image_is_empty set_empty)
    have rows: "row_repr (fst ?m) = row_repr (fst ?f)" if "snd ?m = []"
    proof -
      have "cell_of (row_get (fst ?m) c) = cell_of (row_get (fst ?f) c)" for c
      proof (cases "c \<in> set (mask_candidates mo mt p)")
        case True
        then have "c \<in> set cols" using sub by auto
        with True show ?thesis
          using pick [of c] by (auto simp: masked_cells_row full_cells_row split: option.splits)
      next
        case False
        then show ?thesis
          using unm [of c] pick [of c] by (auto simp: masked_cells_row full_cells_row split: option.splits)
      qed
      then show ?thesis by (simp add: row_repr_def masked_cells_row full_cells_row fun_eq_iff)
    qed
    have "merge_case (masked_cells cols mo mt) p b a t
        = (if snd ?m \<noteq> [] then (None, snd ?m) else (Some (fst ?m), []))"
      unfolding x by (rule merge_case_cells) (use cells x in simp_all)
    moreover have "merge_case (full_cells cols) p b' a' t'
        = (if snd ?f \<noteq> [] then (None, snd ?f) else (Some (fst ?f), []))"
      unfolding x' by (rule merge_case_cells) (use cells same x' in simp_all)
    ultimately show ?thesis
      using nil cf rows by (auto simp: outcome_repr_def opt_repr_def)
  qed
qed

end
