(* ===== verification/HistAdvance.thy ===== *)
theory HistAdvance
  imports MergeFacts
begin

text \<open>
  One commit on one branch, seen through the histories: some keys of the branch get a new version at
  the next sequence number, each closing the version that was open. Whatever a chain at or below the
  heads shows, and every mask range below the heads, is unchanged by it; the histories stay contiguous
  and the new head's chain keeps its mask property.
\<close>

definition close_last :: "int \<Rightarrow> version list \<Rightarrow> version list" where
  "close_last s h = (if h = [] then [] else butlast h @ [(last h)\<lparr>v_to := s\<rparr>])"

definition push :: "version \<Rightarrow> version list \<Rightarrow> version list" where
  "push n h = close_last (v_from n) h @ [n]"

lemma close_last_simps [simp]:
  "close_last s [] = []"
  "close_last s [v] = [v\<lparr>v_to := s\<rparr>]"
  "close_last s (u # v # r) = u # close_last s (v # r)"
  by (simp_all add: close_last_def)

lemma live_to [simp]: "live (v\<lparr>v_to := s\<rparr>) = live v"
  by (simp add: live_def)

text \<open>A branch's history below its head.\<close>

definition hist_at :: "int \<Rightarrow> version list \<Rightarrow> bool" where
  "hist_at k h \<longleftrightarrow> contig h \<and> (\<forall>v \<in> set h. 0 < v_from v \<and> v_from v \<le> k)"

lemma hist_at_tl: "hist_at k (u # r) \<Longrightarrow> hist_at k r"
  by (auto simp: hist_at_def dest: contig_tl)

lemma contig_last_open: "contig h \<Longrightarrow> h \<noteq> [] \<Longrightarrow> v_to (last h) = max_seq \<and> v_from (last h) < max_seq"
  by (induction h rule: contig.induct) auto

lemma hist_at_last:
  assumes "hist_at k h" "h \<noteq> []" "k \<le> s" "s < max_seq"
  shows "seg_version h s = Some (last h)"
  using assms
proof (induction h rule: contig.induct)
  case (2 v)
  then show ?case by (auto simp: hist_at_def seg_version_def)
next
  case (3 u v r)
  then have "v_from v \<le> s" by (auto simp: hist_at_def)
  then show ?case
    using 3 hist_at_tl [OF 3(2)] seg_version_Cons2 [of u v r s] by (auto simp: hist_at_def)
qed simp

lemma hist_at_empty: "seg_version [] s = None"
  by (simp add: seg_version_def)

lemma push_below:
  assumes "hist_at k h" "v_from n = k + 1" "s \<le> k" "k + 1 < max_seq"
  shows "seg_row (push n h) s = seg_row h s"
proof -
  have "map_option live (find (\<lambda>v. v_from v \<le> s \<and> s < v_to v) (close_last (k + 1) h @ [n]))
      = map_option live (find (\<lambda>v. v_from v \<le> s \<and> s < v_to v) h)"
    using assms(1)
  proof (induction h rule: contig.induct)
    case 1
    then show ?case using assms by simp
  next
    case (2 v)
    then show ?case using assms(2-4) by (auto simp: hist_at_def)
  next
    case (3 u v r)
    then show ?case using hist_at_tl [OF 3(2)] by auto
  qed
  then show ?thesis using assms(2) by (simp add: seg_row_def seg_version_def push_def)
qed

lemma close_last_from: "map v_from (close_last s h) = map v_from h"
  by (induction h rule: contig.induct) simp_all

lemma close_last_set:
  "v \<in> set (close_last s h) \<Longrightarrow> \<exists>u \<in> set h. v_from v = v_from u \<and> v_changed v = v_changed u"
  by (induction h rule: contig.induct) auto

lemma close_last_set':
  "u \<in> set h \<Longrightarrow> \<exists>v \<in> set (close_last s h). v_from v = v_from u \<and> v_changed v = v_changed u"
  by (induction h rule: contig.induct) auto

lemma marked_close_last [simp]: "marked (close_last s h) lo hi c = marked h lo hi c"
  unfolding marked_def by (metis close_last_set close_last_set')

lemma marked_push:
  "marked (push n h) lo hi c \<longleftrightarrow>
     marked h lo hi c \<or> lo < v_from n \<and> v_from n \<le> hi \<and> mask_has (v_changed n) c"
proof -
  have "marked (push n h) lo hi c \<longleftrightarrow> marked (close_last (v_from n) h) lo hi c \<or> marked [n] lo hi c"
    by (auto simp: marked_def push_def)
  then show ?thesis by (auto simp: marked_def [of "[n]"])
qed

lemma contig_push:
  assumes "hist_at k h" "v_from n = k + 1" "k + 1 < max_seq" "v_to n = max_seq"
  shows "contig (push n h)"
proof -
  have "contig (close_last (k + 1) h @ [n])"
    using assms(1)
  proof (induction h rule: contig.induct)
    case 1
    then show ?case using assms by simp
  next
    case (2 v)
    then show ?case using assms(2-4) by (auto simp: hist_at_def)
  next
    case (3 u v r)
    have "contig (close_last (k + 1) (v # r) @ [n])" using 3(1) hist_at_tl [OF 3(2)] .
    moreover obtain w q where w: "close_last (k + 1) (v # r) = w # q" "v_from w = v_from v"
      using close_last_from [of "k + 1" "v # r"] by (cases "close_last (k + 1) (v # r)") auto
    ultimately show ?case using 3(2) by (simp add: hist_at_def)
  qed
  then show ?thesis using assms(2) by (simp add: push_def)
qed

lemma hist_at_push:
  assumes "hist_at k h" "v_from n = k + 1" "k + 1 < max_seq" "v_to n = max_seq" "0 \<le> k"
  shows "hist_at (k + 1) (push n h)"
  using contig_push [OF assms(1-4)] assms
  by (auto simp: hist_at_def push_def dest!: close_last_set)

lemma hist_at_mono: "hist_at k h \<Longrightarrow> k \<le> l \<Longrightarrow> hist_at l h"
  by (auto simp: hist_at_def)

lemma mask_steps_push:
  assumes "mask_steps S h"
    and "h \<noteq> [] \<Longrightarrow> (\<forall>c \<in> S. \<not> mask_has (v_changed n) c \<longrightarrow> cellv (live (last h)) c = cellv (live n) c)"
  shows "mask_steps S (push n h)"
proof -
  have "mask_steps S (close_last s h @ [n])" for s
    using assms
  proof (induction h rule: contig.induct)
    case (3 u v r)
    have "mask_steps S (close_last s (v # r) @ [n])" using 3 by simp
    moreover obtain w q where "close_last s (v # r) = w # q"
      "v_changed w = v_changed v" "live w = live v"
      by (cases r) auto
    ultimately show ?case using 3(2) by simp
  qed simp_all
  then show ?thesis by (simp add: push_def)
qed

lemma push_at_head:
  assumes "v_to n = max_seq" "v_from n < max_seq" "hist_at k h" "v_from n = k + 1"
  shows "seg_row (push n h) (v_from n) = Some (live n)"
proof -
  have c: "contig (push n h)" by (rule contig_push [OF assms(3,4)]) (use assms in simp_all)
  have "v_from v \<le> k + 1" if "v \<in> set (push n h)" for v
    using that assms(3,4) by (auto simp: push_def hist_at_def dest!: close_last_set)
  then have "hist_at (k + 1) (push n h) \<or> \<not> (\<forall>v \<in> set (push n h). 0 < v_from v)"
    using c by (auto simp: hist_at_def)
  moreover have "seg_version g (k + 1) = Some (last g)"
    if "contig g" "\<forall>v \<in> set g. v_from v \<le> k + 1" "g \<noteq> []" for g
    using that
  proof (induction g rule: contig.induct)
    case (2 v)
    then show ?case using assms by (auto simp: seg_version_def)
  next
    case (3 u v r)
    then show ?case using seg_version_Cons2 [of u v r "k + 1"] by auto
  qed simp
  ultimately have "seg_version (push n h) (k + 1) = Some (last (push n h))"
    using c \<open>\<And>v. v \<in> set (push n h) \<Longrightarrow> v_from v \<le> k + 1\<close> by (simp add: push_def)
  then show ?thesis using assms(4) by (simp add: seg_row_def push_def)
qed

subsection \<open>The step on all histories\<close>

definition advances :: "hists \<Rightarrow> hists \<Rightarrow> string \<Rightarrow> (pk \<Rightarrow> version option) \<Rightarrow> bool" where
  "advances H H' b N \<longleftrightarrow>
     (\<forall>x p. H' x p = (if x = b then (case N p of None \<Rightarrow> H x p | Some n \<Rightarrow> push n (H x p)) else H x p))"

definition new_versions :: "int \<Rightarrow> (pk \<Rightarrow> version option) \<Rightarrow> bool" where
  "new_versions s N \<longleftrightarrow> (\<forall>p n. N p = Some n \<longrightarrow> v_from n = s \<and> v_to n = max_seq)"

definition hists_at :: "(string \<Rightarrow> int) \<Rightarrow> hists \<Rightarrow> bool" where
  "hists_at heads H \<longleftrightarrow> (\<forall>b p. hist_at (heads b) (H b p))"

definition bounded :: "(string \<Rightarrow> int) \<Rightarrow> segment list \<Rightarrow> bool" where
  "bounded heads C \<longleftrightarrow> (\<forall>g \<in> set C. 0 \<le> sg_seq g \<and> sg_seq g \<le> heads (sg_branch g))"

lemma bounded_simps [simp]:
  "bounded heads []"
  "bounded heads (g # C) \<longleftrightarrow> 0 \<le> sg_seq g \<and> sg_seq g \<le> heads (sg_branch g) \<and> bounded heads C"
  by (auto simp: bounded_def)

lemma advances_seg_row:
  assumes "advances H H' b N" "new_versions (heads b + 1) N" "hists_at heads H"
    and "heads b + 1 < max_seq" "s \<le> heads x"
  shows "seg_row (H' x p) s = seg_row (H x p) s"
proof (cases "x = b \<and> N p \<noteq> None")
  case True
  then obtain n where n: "N p = Some n" by blast
  have "seg_row (push n (H b p)) s = seg_row (H b p) s"
    by (rule push_below [of "heads b"])
      (use True n assms(2-5) in \<open>auto simp: new_versions_def hists_at_def\<close>)
  with True n assms(1) show ?thesis by (simp add: advances_def)
next
  case False
  with assms(1) show ?thesis by (auto simp: advances_def)
qed

lemma advances_marked:
  assumes "advances H H' b N" "new_versions (heads b + 1) N" "hi \<le> heads x"
  shows "marked (H' x p) lo hi c = marked (H x p) lo hi c"
  using assms by (auto simp: advances_def new_versions_def marked_push split: option.splits)

lemma advances_chain_row:
  assumes "advances H H' b N" "new_versions (heads b + 1) N" "hists_at heads H"
    and "heads b + 1 < max_seq" "bounded heads C"
  shows "chain_row H' C p = chain_row H C p"
  using assms(5)
  by (induction C) (simp_all add: advances_seg_row [OF assms(1-4)] cong: option.case_cong)

lemma advances_chain_ok:
  assumes "advances H H' b N" "new_versions (heads b + 1) N" "hists_at heads H"
    and "heads b + 1 < max_seq" "bounded heads C"
  shows "chain_ok H' S C p = chain_ok H S C p"
  using assms(5)
  by (induction C)
    (simp_all add: advances_seg_row [OF assms(1-4)] advances_chain_row [OF assms(1-4)]
      advances_marked [where heads = heads, OF assms(1,2)])

lemma advances_hists_at:
  assumes "advances H H' b N" "new_versions (heads b + 1) N" "hists_at heads H"
    and "heads b + 1 < max_seq" "0 \<le> heads b"
  shows "hists_at (heads(b := heads b + 1)) H'"
  unfolding hists_at_def
proof (intro allI)
  fix x p
  show "hist_at ((heads(b := heads b + 1)) x) (H' x p)"
  proof (cases "x = b")
    case True
    show ?thesis
    proof (cases "N p")
      case None
      then show ?thesis
        using True assms(1,3) hist_at_mono [of "heads b" "H b p" "heads b + 1"]
        by (simp add: advances_def hists_at_def)
    next
      case (Some n)
      have "hist_at (heads b + 1) (push n (H b p))"
        by (rule hist_at_push) (use assms Some in \<open>auto simp: new_versions_def hists_at_def\<close>)
      then show ?thesis using True Some assms(1) by (simp add: advances_def)
    qed
  next
    case False
    then show ?thesis using assms(1,3) by (simp add: advances_def hists_at_def)
  qed
qed

text \<open>The chain of a branch at a sequence number.\<close>

abbreviation seg :: "string \<Rightarrow> int \<Rightarrow> segment" where
  "seg b s \<equiv> \<lparr>sg_branch = b, sg_seq = s\<rparr>"

text \<open>The masks of the new versions cover what changed against the view before the write.\<close>

definition masks_cover ::
  "hists \<Rightarrow> colid set \<Rightarrow> string \<Rightarrow> int \<Rightarrow> segment list \<Rightarrow> (pk \<Rightarrow> version option) \<Rightarrow> bool" where
  "masks_cover H S b k T N \<longleftrightarrow>
     (\<forall>p n c. N p = Some n \<longrightarrow> c \<in> S \<longrightarrow> \<not> mask_has (v_changed n) c \<longrightarrow>
        cellv (live n) c = cellv (chain_row H (seg b k # T) p) c)"

definition mask_hists :: "colid set \<Rightarrow> hists \<Rightarrow> bool" where
  "mask_hists S H \<longleftrightarrow> (\<forall>b p. mask_steps S (H b p))"

lemma visible_head:
  assumes "hists_at heads H" "H b p \<noteq> []" "heads b \<le> s" "s < max_seq"
  shows "seg_row (H b p) s = Some (live (last (H b p)))"
  using hist_at_last [of "heads b" "H b p" s] assms by (simp add: seg_row_def hists_at_def)

lemma advances_mask_hists:
  assumes "advances H H' b N" "hists_at heads H" "heads b < max_seq"
    and "mask_hists S H" "masks_cover H S b (heads b) T N"
  shows "mask_hists S H'"
  unfolding mask_hists_def
proof (intro allI)
  fix x p
  show "mask_steps S (H' x p)"
  proof (cases "x = b \<and> N p \<noteq> None")
    case True
    then obtain n where n: "N p = Some n" by blast
    have "mask_steps S (push n (H b p))"
    proof (rule mask_steps_push)
      show "mask_steps S (H b p)" using assms(4) by (simp add: mask_hists_def)
      show "\<forall>c \<in> S. \<not> mask_has (v_changed n) c \<longrightarrow> cellv (live (last (H b p))) c = cellv (live n) c"
        if "H b p \<noteq> []"
        using assms(5) n visible_head [OF assms(2) that] assms(3) by (simp add: masks_cover_def)
    qed
    with True n assms(1) show ?thesis by (simp add: advances_def)
  next
    case False
    then show ?thesis using assms(1,4) by (auto simp: advances_def mask_hists_def)
  qed
qed

text \<open>What the new head shows.\<close>

lemma advances_head_row:
  assumes "advances H H' b N" "new_versions (heads b + 1) N" "hists_at heads H"
    and "heads b + 1 < max_seq" "bounded heads T"
  shows "chain_row H' (seg b (heads b + 1) # T) p
    = (case N p of Some n \<Rightarrow> live n | None \<Rightarrow> chain_row H (seg b (heads b) # T) p)"
proof (cases "N p")
  case None
  have "seg_row (H b p) (heads b + 1) = seg_row (H b p) (heads b)"
  proof (cases "H b p = []")
    case False
    then show ?thesis using visible_head [OF assms(3) False] assms(4) by simp
  qed (simp add: seg_row_def hist_at_empty)
  moreover have "H' b p = H b p" using assms(1) None by (simp add: advances_def)
  ultimately show ?thesis using None advances_chain_row [OF assms] by (simp cong: option.case_cong)
next
  case (Some n)
  have "H' b p = push n (H b p)" using assms(1) Some by (simp add: advances_def)
  moreover have "seg_row (push n (H b p)) (v_from n) = Some (live n)"
    by (rule push_at_head [of _ "heads b"])
      (use assms Some in \<open>auto simp: new_versions_def hists_at_def\<close>)
  moreover have "v_from n = heads b + 1" using assms(2) Some by (simp add: new_versions_def)
  ultimately show ?thesis using Some by simp
qed

text \<open>
  The mask property of the new head's chain, over a tail \<open>T'\<close> that may differ from the old tail \<open>T\<close>:
  it suffices that a column equal to the old tail's is, after the write, equal to the new tail's.
\<close>

lemma advances_new_chain_ok:
  assumes adv: "advances H H' b N" "new_versions (heads b + 1) N" "hists_at heads H"
    and max: "heads b + 1 < max_seq" and pos: "0 \<le> heads b"
    and old: "chain_ok H S (seg b (heads b) # T) p"
    and T': "chain_ok H S T' p" "bounded heads T'"
    and cover: "masks_cover H S b (heads b) T' N"
    and follow: "\<And>c. c \<in> S \<Longrightarrow> (\<And>n. N p = Some n \<Longrightarrow> \<not> mask_has (v_changed n) c) \<Longrightarrow>
        cellv (chain_row H (seg b (heads b) # T) p) c = cellv (chain_row H T p) c \<Longrightarrow>
        cellv (chain_row H' (seg b (heads b + 1) # T') p) c = cellv (chain_row H T' p) c"
  shows "chain_ok H' S (seg b (heads b + 1) # T') p"
proof -
  let ?h = "H b p"
  note chain_T' = advances_chain_row [OF adv max T'(2)]
  note head = advances_head_row [OF adv max T'(2)]
  have "cellv r c = cellv (chain_row H T' p) c"
    if vis: "seg_row (H' b p) (heads b + 1) = Some r" and c: "c \<in> S"
      and unm: "\<not> marked (H' b p) 0 (heads b + 1) c" for r c
  proof -
    have r: "chain_row H' (seg b (heads b + 1) # T') p = r" using vis by simp
    have new: "\<not> mask_has (v_changed n) c" if n: "N p = Some n" for n
    proof -
      have "H' b p = push n ?h" "v_from n = heads b + 1"
        using adv n by (simp_all add: advances_def new_versions_def)
      then show ?thesis using unm pos marked_push [of n ?h 0 "heads b + 1" c] by auto
    qed
    show ?thesis
    proof (cases "?h = []")
      case True
      then obtain n where n: "N p = Some n"
        using vis adv(1) by (cases "N p") (auto simp: advances_def seg_row_def hist_at_empty)
      have "r = live n" using head [of p] r n by simp
      moreover have "cellv (live n) c = cellv (chain_row H (seg b (heads b) # T') p) c"
        using cover n c new [OF n] by (simp add: masks_cover_def)
      ultimately show ?thesis using True by (simp add: seg_row_def hist_at_empty)
    next
      case False
      have "\<not> marked ?h 0 (heads b) c"
      proof
        assume "marked ?h 0 (heads b) c"
        then have "marked (H' b p) 0 (heads b) c"
          using advances_marked [where heads = heads, OF adv(1,2), of "heads b" b p 0 c] by simp
        then have "marked (H' b p) 0 (heads b + 1) c" by (auto simp: marked_def)
        with unm show False ..
      qed
      moreover have "seg_row ?h (heads b) = Some (live (last ?h))"
        by (rule visible_head [OF adv(3) False]) (use max in simp_all)
      ultimately have "cellv (chain_row H (seg b (heads b) # T) p) c = cellv (chain_row H T p) c"
        using old c by simp
      from follow [OF c new this] show ?thesis unfolding r .
    qed
  qed
  then show ?thesis using T'(1) by (simp add: advances_chain_ok [OF adv max T'(2)] chain_T')
qed

end
