(* ===== verification/EngineRows.thy ===== *)
theory EngineRows
  imports HistAdvance
begin

text \<open>
  How the engine's write loops change the version list: each loop writes a list of new versions, one
  for each key it touches, and every write closes the key's open version and appends. The lemmas give
  the effect on the histories (it is an \<open>advances\<close> step), on staged rows and on everything else.
\<close>

subsection \<open>Closing the open version\<close>

lemma hist_simps [simp]:
  "hist [] b p = []"
  "hist (v # rows) b p
     = (if v_session v = [] \<and> v_branch v = b \<and> v_pk v = p then v # hist rows b p else hist rows b p)"
  "hist (rows @ rows') b p = hist rows b p @ hist rows' b p"
  by (simp_all add: hist_def)

lemma hist_close_open_same: "hist (close_open rows b p s) b p = close_open (hist rows b p) b p s"
  by (induction rows) auto

lemma hist_close_open_other: "x \<noteq> b \<or> q \<noteq> p \<Longrightarrow> hist (close_open rows b p s) x q = hist rows x q"
  by (induction rows) auto

lemma contig_from_max: "contig (v # r) \<Longrightarrow> v_from v < max_seq"
proof (induction r arbitrary: v)
  case (Cons u r)
  then have "v_from u < max_seq" by simp
  with Cons.prems show ?case by simp
qed simp

lemma close_open_contig:
  "contig h \<Longrightarrow> (\<forall>v \<in> set h. v_session v = [] \<and> v_branch v = b \<and> v_pk v = p) \<Longrightarrow>
   close_open h b p s = close_last s h"
proof (induction h rule: contig.induct)
  case (3 u v r)
  have "v_to u \<noteq> max_seq" using 3(2) contig_from_max [of v r] by simp
  then have "close_open (u # v # r) b p s = u # close_open (v # r) b p s" by simp
  moreover have "close_open (v # r) b p s = close_last s (v # r)" by (rule 3(1)) (use 3(2,3) in simp_all)
  ultimately show ?case by (simp only: close_last_simps)
qed simp_all

lemma hist_mem: "v \<in> set (hist rows b p) \<longleftrightarrow> v \<in> set rows \<and> v_session v = [] \<and> v_branch v = b \<and> v_pk v = p"
  by (auto simp: hist_def)

lemma hist_close_open:
  assumes "contig (hist rows b p)"
  shows "hist (close_open rows b p s) x q
    = (if x = b \<and> q = p then close_last s (hist rows b p) else hist rows x q)"
  using close_open_contig [OF assms] hist_close_open_same hist_close_open_other
  by (simp add: hist_mem)

lemma staged_simps [simp]:
  "staged [] sid p = []"
  "staged (v # rows) sid p
     = (if v_session v = sid \<and> v_pk v = p then v # staged rows sid p else staged rows sid p)"
  "staged (rows @ rows') sid p = staged rows sid p @ staged rows' sid p"
  by (simp_all add: staged_def)

lemma staged_close_open [simp]: "sid \<noteq> [] \<Longrightarrow> staged (close_open rows b p s) sid q = staged rows sid q"
  by (induction rows) auto

lemma filter_close_open:
  "(\<And>v. P v \<Longrightarrow> v_session v \<noteq> [] \<or> v_branch v \<noteq> b) \<Longrightarrow> filter P (close_open rows b p s) = filter P rows"
proof (induction rows)
  case (Cons v rows)
  have "P (v\<lparr>v_to := s\<rparr>) \<Longrightarrow> v_session v \<noteq> [] \<or> v_branch v \<noteq> b" using Cons.prems [of "v\<lparr>v_to := s\<rparr>"] by simp
  with Cons show ?case by auto
qed simp

lemma close_open_all:
  "(\<And>u. Q u \<Longrightarrow> Q (u\<lparr>v_to := s\<rparr>)) \<Longrightarrow> (\<forall>u \<in> set rows. Q u) \<Longrightarrow> \<forall>v \<in> set (close_open rows b p s). Q v"
  by (induction rows) auto

subsection \<open>Writing versions\<close>

definition write_version :: "version list \<Rightarrow> version \<Rightarrow> version list" where
  "write_version rows n = close_open rows (v_branch n) (v_pk n) (v_from n) @ [n]"

lemma hist_write_version:
  assumes "contig (hist rows (v_branch n) (v_pk n))" "v_session n = []"
  shows "hist (write_version rows n) x q
    = (if x = v_branch n \<and> q = v_pk n then push n (hist rows x q) else hist rows x q)"
  using assms by (auto simp: write_version_def hist_close_open push_def)

definition committed_on :: "string \<Rightarrow> int \<Rightarrow> version list \<Rightarrow> bool" where
  "committed_on b s ns \<longleftrightarrow>
     (\<forall>n \<in> set ns. v_branch n = b \<and> v_session n = [] \<and> v_from n = s \<and> v_to n = max_seq) \<and>
     distinct (map v_pk ns)"

lemma hist_write_versions:
  assumes "committed_on b s ns" "\<forall>p. contig (hist rows b p)"
  shows "hist (foldl write_version rows ns) x p
    = (if x = b then case find (\<lambda>n. v_pk n = p) ns of None \<Rightarrow> hist rows x p | Some n \<Rightarrow> push n (hist rows x p)
       else hist rows x p)"
proof -
  have "hist (foldl write_version rows ns) x p
    = (if x = b then case find (\<lambda>n. v_pk n = p) ns of None \<Rightarrow> hist rows x p | Some n \<Rightarrow> push n (hist rows x p)
       else hist rows x p)"
    if "\<forall>p \<in> v_pk ` set ns. contig (hist rows b p)" for rows
    using assms(1) that
  proof (induction ns arbitrary: rows)
    case (Cons n ns)
    have n: "v_branch n = b" "v_session n = []" "v_pk n \<notin> v_pk ` set ns"
      and ns: "committed_on b s ns"
      using Cons.prems(1) by (auto simp: committed_on_def)
    have h: "hist (write_version rows n) x q
        = (if x = b \<and> q = v_pk n then push n (hist rows x q) else hist rows x q)" for x q
      using hist_write_version [of rows n] n Cons.prems(2) by simp
    have "\<forall>p \<in> v_pk ` set ns. contig (hist (write_version rows n) b p)"
      using Cons.prems(2) n(3) unfolding h by (auto simp: image_iff)
    note IH = Cons.IH [OF ns this]
    have "v_pk n = p \<Longrightarrow> find (\<lambda>n. v_pk n = p) ns = None"
      using n(3) by (auto simp: find_None_iff image_iff)
    then show ?case using IH h by (auto split: option.splits)
  qed simp
  then show ?thesis using assms(2) by blast
qed

lemma advances_write_versions:
  assumes "committed_on b s ns" "hists_at heads (hist rows)"
  shows "advances (hist rows) (hist (foldl write_version rows ns)) b (\<lambda>p. find (\<lambda>n. v_pk n = p) ns)"
proof -
  have "\<forall>p. contig (hist rows b p)" using assms(2) by (auto simp: hists_at_def hist_at_def)
  from hist_write_versions [OF assms(1) this] show ?thesis by (simp add: advances_def)
qed

lemma new_versions_find:
  "committed_on b s ns \<Longrightarrow> new_versions s (\<lambda>p. find (\<lambda>n. v_pk n = p) ns)"
  by (auto simp: committed_on_def new_versions_def dest: find_SomeD)

lemma write_versions_staged:
  "committed_on b s ns \<Longrightarrow> sid \<noteq> [] \<Longrightarrow> staged (foldl write_version rows ns) sid q = staged rows sid q"
proof (induction ns arbitrary: rows)
  case (Cons n ns)
  then have "staged (write_version rows n) sid q = staged rows sid q"
    by (simp add: write_version_def committed_on_def)
  then show ?case using Cons by (simp add: committed_on_def)
qed simp

lemma write_versions_filter:
  assumes "committed_on b s ns" "\<And>v. P v \<Longrightarrow> v_branch v \<noteq> b"
  shows "filter P (foldl write_version rows ns) = filter P rows"
  using assms(1)
proof (induction ns arbitrary: rows)
  case (Cons n ns)
  have "v_branch n = b" using Cons.prems by (simp add: committed_on_def)
  then have "filter P (write_version rows n) = filter P rows"
    using assms(2) filter_close_open [of P b] by (auto simp: write_version_def)
  then show ?case using Cons by (auto simp: committed_on_def)
qed simp

lemma write_versions_all:
  assumes "\<And>u s. Q u \<Longrightarrow> Q (u\<lparr>v_to := s\<rparr>)" "\<forall>u \<in> set rows. Q u" "\<forall>n \<in> set ns. Q n"
  shows "\<forall>v \<in> set (foldl write_version rows ns). Q v"
  using assms(2,3)
proof (induction ns arbitrary: rows)
  case (Cons n ns)
  have "\<forall>v \<in> set (write_version rows n). Q v"
    using close_open_all [OF assms(1) Cons.prems(1)] Cons.prems(2) by (simp add: write_version_def)
  from Cons.IH [OF this] Cons.prems(2) show ?case by simp
qed simp

subsection \<open>The loops\<close>

definition commit_version :: "schema \<Rightarrow> table \<Rightarrow> string \<Rightarrow> int \<Rightarrow> string \<Rightarrow> change \<Rightarrow> version option" where
  "commit_version sc current b s c ch =
     (let before = fmlookup current (ch_pk ch) in
      if ch_op ch = OpDelete then
        if before = None then None
        else Some (committed_version b (ch_pk ch) s OpDelete c
                     (mask_of (opt_row before) None (sc_cols sc)) None)
      else Some (committed_version b (ch_pk ch) s (if before = None then OpInsert else OpUpdate) c
                   (mask_of (opt_row before) (ch_row ch) (sc_cols sc)) (ch_row ch)))"

definition opt_list :: "'a option \<Rightarrow> 'a list" where
  "opt_list x = (case x of None \<Rightarrow> [] | Some y \<Rightarrow> [y])"

definition collect_some :: "('a \<Rightarrow> 'b option) \<Rightarrow> 'a list \<Rightarrow> 'b list" where
  "collect_some f xs = concat (map (\<lambda>x. opt_list (f x)) xs)"

lemma collect_some_simps [simp]:
  "collect_some f [] = []"
  "collect_some f (x # xs) = opt_list (f x) @ collect_some f xs"
  by (simp_all add: collect_some_def)

lemma set_collect_some: "set (collect_some f xs) = {y. \<exists>x \<in> set xs. f x = Some y}"
  by (induction xs) (auto simp: opt_list_def split: option.splits)

lemma foldl_collect:
  assumes "\<And>rows x. x \<in> set xs \<Longrightarrow> step rows x = (case f x of None \<Rightarrow> rows | Some n \<Rightarrow> write_version rows n)"
  shows "foldl step rows xs = foldl write_version rows (collect_some f xs)"
  using assms
proof (induction xs arbitrary: rows)
  case (Cons x xs)
  then show ?case by (cases "f x") (simp_all add: opt_list_def)
qed simp

lemma find_collect:
  assumes "distinct (map key xs)" "\<And>x y. x \<in> set xs \<Longrightarrow> f x = Some y \<Longrightarrow> v_pk y = key x"
  shows "find (\<lambda>n. v_pk n = p) (collect_some f xs)
    = (case find (\<lambda>x. key x = p) xs of None \<Rightarrow> None | Some x \<Rightarrow> f x)"
  using assms
proof (induction xs)
  case (Cons x xs)
  have IH: "find (\<lambda>n. v_pk n = p) (collect_some f xs)
      = (case find (\<lambda>x. key x = p) xs of None \<Rightarrow> None | Some x \<Rightarrow> f x)"
    using Cons by simp
  have "key x = p \<Longrightarrow> find (\<lambda>x. key x = p) xs = None"
    using Cons.prems(1) by (auto simp: find_None_iff image_iff)
  then show ?case
    using IH Cons.prems(2) [of x] by (cases "f x") (auto simp: opt_list_def)
qed simp

lemma distinct_collect:
  assumes "distinct (map key xs)" "\<And>x y. x \<in> set xs \<Longrightarrow> f x = Some y \<Longrightarrow> v_pk y = key x"
  shows "distinct (map v_pk (collect_some f xs))"
  using assms
proof (induction xs)
  case (Cons x xs)
  have "v_pk ` set (collect_some f xs) \<subseteq> key ` set xs"
    using Cons.prems(2) by (fastforce simp: set_collect_some)
  then have "key x \<notin> v_pk ` set (collect_some f xs)" using Cons.prems(1) by auto
  then have "f x = Some a \<Longrightarrow> v_pk a \<notin> v_pk ` set (collect_some f xs)" for a
    using Cons.prems(2) [of x a] by simp
  then show ?case
    using Cons.IH Cons.prems by (cases "f x") (simp_all add: opt_list_def)
qed simp

lemma commit_fold:
  "foldl (commit_change sc current b s c) rows chs
     = foldl write_version rows (collect_some (commit_version sc current b s c) chs)"
  by (rule foldl_collect)
    (auto simp: commit_change_def commit_version_def Let_def write_version_def committed_version_def)

definition apply_version ::
  "schema \<Rightarrow> table \<Rightarrow> table \<Rightarrow> string \<Rightarrow> int \<Rightarrow> string \<Rightarrow> pk \<Rightarrow> version option" where
  "apply_version sc current result b s c p =
     (let before = fmlookup current p in
      case fmlookup result p of
        Some r \<Rightarrow>
          if before \<noteq> None \<and> row_equal (opt_row before) r then None
          else Some (committed_version b p s (if before = None then OpInsert else OpUpdate) c
                       (mask_of (opt_row before) r (sc_cols sc)) r)
      | None \<Rightarrow>
          if before = None then None
          else Some (committed_version b p s OpDelete c (mask_of (opt_row before) None (sc_cols sc)) None))"

definition apply_versions ::
  "schema \<Rightarrow> table \<Rightarrow> table \<Rightarrow> string \<Rightarrow> int \<Rightarrow> string \<Rightarrow> version list" where
  "apply_versions sc current result b s c =
     collect_some (apply_version sc current result b s c)
       (fm_keys result @ filter (\<lambda>p. fmlookup result p = None) (fm_keys current))"

lemma collect_some_append: "collect_some f (xs @ ys) = collect_some f xs @ collect_some f ys"
  by (simp add: collect_some_def)

lemma collect_some_filter:
  "(\<And>x. x \<in> set xs \<Longrightarrow> \<not> P x \<Longrightarrow> g x = None) \<Longrightarrow> (\<And>x. x \<in> set xs \<Longrightarrow> P x \<Longrightarrow> g x = f x) \<Longrightarrow>
   collect_some f (filter P xs) = collect_some g xs"
  by (induction xs) (auto simp: opt_list_def)

lemma apply_fold:
  "apply_rows sc current result b s c rows = foldl write_version rows (apply_versions sc current result b s c)"
proof -
  have 1: "foldl (apply_row sc current result b s c) rows (fm_keys result)
      = foldl write_version rows (collect_some (apply_version sc current result b s c) (fm_keys result))" for rows
  proof (rule foldl_collect)
    fix rows p assume "p \<in> set (fm_keys result)"
    then obtain r where "fmlookup result p = Some r" by (auto simp: fmlookup_dom'_iff)
    then show "apply_row sc current result b s c rows p
        = (case apply_version sc current result b s c p of None \<Rightarrow> rows | Some n \<Rightarrow> write_version rows n)"
      by (simp add: apply_row_def apply_version_def Let_def opt_row_def [of "Some r"] write_version_def
          committed_version_def)
  qed
  let ?g = "\<lambda>p. if fmlookup result p = None then apply_version sc current result b s c p else None"
  have 2: "foldl (apply_delete sc current result b s c) rows (fm_keys current)
      = foldl write_version rows (collect_some ?g (fm_keys current))" for rows
  proof (rule foldl_collect)
    fix rows p assume "p \<in> set (fm_keys current)"
    then obtain r where "fmlookup current p = Some r" by (auto simp: fmlookup_dom'_iff)
    then show "apply_delete sc current result b s c rows p
        = (case ?g p of None \<Rightarrow> rows | Some n \<Rightarrow> write_version rows n)"
      by (simp add: apply_delete_def apply_version_def Let_def write_version_def committed_version_def)
  qed
  have "collect_some ?g (fm_keys current)
      = collect_some (apply_version sc current result b s c) (filter (\<lambda>p. fmlookup result p = None) (fm_keys current))"
    by (rule collect_some_filter [symmetric]) auto
  with 1 2 show ?thesis
    by (simp add: apply_rows_def table_keys_def apply_versions_def collect_some_append)
qed

subsection \<open>What each loop writes for a key\<close>

lemma find_keyed:
  assumes "cs_keyed cs"
  shows "find (\<lambda>ch. ch_pk ch = p) (cs_sorted cs) = fmlookup cs p"
proof (cases "fmlookup cs p")
  case None
  then have "\<forall>ch \<in> set (cs_sorted cs). ch_pk ch \<noteq> p"
    using assms by (auto simp: set_cs_sorted cs_keyed_def)
  then show ?thesis using None by (simp add: find_None_iff)
next
  case (Some ch)
  have "find (\<lambda>ch. ch_pk ch = p) (cs_sorted cs) = Some ch"
    by (rule find_unique) (use Some assms in \<open>auto simp: set_cs_sorted cs_keyed_def\<close>)
  with Some show ?thesis by simp
qed

lemma commit_versions_find:
  assumes "cs_keyed cs"
  shows "find (\<lambda>n. v_pk n = p) (collect_some (commit_version sc current b s c) (cs_sorted cs))
    = (case fmlookup cs p of None \<Rightarrow> None | Some ch \<Rightarrow> commit_version sc current b s c ch)"
proof -
  have "find (\<lambda>n. v_pk n = p) (collect_some (commit_version sc current b s c) (cs_sorted cs))
    = (case find (\<lambda>ch. ch_pk ch = p) (cs_sorted cs) of None \<Rightarrow> None | Some x \<Rightarrow> commit_version sc current b s c x)"
    by (rule find_collect)
      (auto simp: cs_sorted_pks [OF assms] commit_version_def committed_version_def Let_def split: if_splits)
  then show ?thesis by (simp add: find_keyed [OF assms])
qed

lemma commit_versions_on:
  assumes "cs_keyed cs"
  shows "committed_on b s (collect_some (commit_version sc current b s c) (cs_sorted cs))"
proof -
  have "distinct (map v_pk (collect_some (commit_version sc current b s c) (cs_sorted cs)))"
    by (rule distinct_collect [where key = ch_pk])
      (auto simp: cs_sorted_pks [OF assms] commit_version_def committed_version_def Let_def split: if_splits)
  then show ?thesis
    by (auto simp: committed_on_def set_collect_some commit_version_def committed_version_def Let_def
        split: if_splits)
qed

lemma apply_keys_distinct:
  "distinct (fm_keys result @ filter (\<lambda>p. fmlookup result p = None) (fm_keys current))"
  by (auto simp: fmlookup_dom'_iff)

lemma apply_version_pk: "apply_version sc current result b s c p = Some n \<Longrightarrow>
    v_pk n = p \<and> v_branch n = b \<and> v_session n = [] \<and> v_from n = s \<and> v_to n = max_seq \<and> v_commit n = c"
  by (auto simp: apply_version_def committed_version_def Let_def split: if_splits option.splits)

lemma apply_versions_find:
  "find (\<lambda>n. v_pk n = p) (apply_versions sc current result b s c) = apply_version sc current result b s c p"
proof -
  let ?ks = "fm_keys result @ filter (\<lambda>p. fmlookup result p = None) (fm_keys current)"
  have "find (\<lambda>n. v_pk n = p) (apply_versions sc current result b s c)
    = (case find (\<lambda>x. id x = p) ?ks of None \<Rightarrow> None | Some x \<Rightarrow> apply_version sc current result b s c x)"
    unfolding apply_versions_def
    by (rule find_collect) (use apply_keys_distinct in \<open>auto dest: apply_version_pk\<close>)
  also have "\<dots> = apply_version sc current result b s c p"
  proof (cases "p \<in> set ?ks")
    case True
    then have "find (\<lambda>x. id x = p) ?ks = Some p" by (intro find_unique) auto
    then show ?thesis by simp
  next
    case False
    then have "fmlookup result p = None" "fmlookup current p = None"
      by (auto simp: fmlookup_None_dom)
    moreover have "find (\<lambda>x. id x = p) ?ks = None" using False by (auto simp: find_None_iff)
    ultimately show ?thesis by (simp add: apply_version_def)
  qed
  finally show ?thesis .
qed

lemma apply_versions_on: "committed_on b s (apply_versions sc current result b s c)"
proof -
  have "distinct (map v_pk (apply_versions sc current result b s c))"
    unfolding apply_versions_def
    by (rule distinct_collect [where key = id]) (use apply_keys_distinct in \<open>auto dest: apply_version_pk\<close>)
  then show ?thesis
    by (auto simp: committed_on_def apply_versions_def set_collect_some dest: apply_version_pk)
qed

end
