(* ===== verification/EngineInv.thy ===== *)
theory EngineInv
  imports EngineRows
begin

text \<open>
  The invariant of the engine, and that every operation keeps it. It has four parts: the version list
  (contiguous intervals below the branch heads, masks that cover what changed), the branches (each
  head's chain names a path of the branch tree and shows what the head commit's recorded chain shows),
  the commits (ids are the numbers handed out, parents are older, recorded chains stay valid) and the
  sessions (staged rows belong to open sessions off the root branch, one for each key, and come after
  the committed versions of the key while the branch has not moved).
\<close>

definition e_cols :: "engine \<Rightarrow> colid set" where
  "e_cols e = set (sc_cols (e_schema e))"

definition e_hist :: "engine \<Rightarrow> hists" where
  "e_hist e = hist (e_rows e)"

definition par_of :: "engine \<Rightarrow> string \<Rightarrow> string" where
  "par_of e x = (case fmlookup (e_branches e) x of Some b \<Rightarrow> b_parent b | None \<Rightarrow> [])"

definition commit_chain :: "engine \<Rightarrow> string \<Rightarrow> segment list" where
  "commit_chain e c = (case fmlookup (e_commits e) c of Some cm \<Rightarrow> cm_chain cm | None \<Rightarrow> [])"

definition commit_row :: "engine \<Rightarrow> string \<Rightarrow> pk \<Rightarrow> row option" where
  "commit_row e c p = chain_row (e_hist e) (commit_chain e c) p"

definition head_chain :: "string \<Rightarrow> branch \<Rightarrow> segment list" where
  "head_chain b bb = seg b (b_head_seq bb) # b_chain bb"

definition branch_row :: "engine \<Rightarrow> string \<Rightarrow> branch \<Rightarrow> pk \<Rightarrow> row option" where
  "branch_row e b bb p = chain_row (e_hist e) (head_chain b bb) p"

text \<open>A chain in use, and the tail of one below a branch.\<close>

definition tail_in :: "engine \<Rightarrow> segment list \<Rightarrow> bool" where
  "tail_in e T \<longleftrightarrow>
     set (names T) \<subseteq> fmdom' (e_branches e) \<and> bounded (engine_head_seq e) T \<and>
     (\<forall>p. chain_ok (e_hist e) (e_cols e) T p)"

definition chain_in :: "engine \<Rightarrow> segment list \<Rightarrow> bool" where
  "chain_in e C \<longleftrightarrow> tree_path (par_of e) (names C) \<and> tail_in e C"

definition inv_rows :: "engine \<Rightarrow> bool" where
  "inv_rows e \<longleftrightarrow>
     hists_at (engine_head_seq e) (e_hist e) \<and> mask_hists (e_cols e) (e_hist e) \<and>
     (\<forall>v \<in> set (e_rows e). mask_ok (v_changed v) \<and> (\<forall>c. mask_has (v_changed v) c \<longrightarrow> c \<in> e_cols e))"

definition inv_branch :: "engine \<Rightarrow> string \<Rightarrow> branch \<Rightarrow> bool" where
  "inv_branch e b bb \<longleftrightarrow>
     0 \<le> b_head_seq bb \<and> b_head_seq bb < int (e_next_id e) \<and> chain_in e (head_chain b bb) \<and>
     b_head_commit bb \<in> fmdom' (e_commits e) \<and>
     (\<forall>p. commit_row e (b_head_commit bb) p = branch_row e b bb p) \<and>
     (b = root_branch \<longrightarrow> b_parent bb = []) \<and>
     (b \<noteq> root_branch \<longrightarrow>
        b_fork_commit bb \<in> fmdom' (e_commits e) \<and>
        (\<forall>p. commit_row e (b_fork_commit bb) p = chain_row (e_hist e) (b_chain bb) p))"

definition inv_branches :: "engine \<Rightarrow> bool" where
  "inv_branches e \<longleftrightarrow>
     root_branch \<in> fmdom' (e_branches e) \<and>
     (\<forall>b bb. fmlookup (e_branches e) b = Some bb \<longrightarrow> inv_branch e b bb)"

definition inv_commits :: "engine \<Rightarrow> bool" where
  "inv_commits e \<longleftrightarrow>
     fmdom' (e_commits e) = commit_id ` {1..e_next_id e} \<and>
     (\<forall>c cm. fmlookup (e_commits e) c = Some cm \<longrightarrow> chain_in e (cm_chain cm)) \<and>
     (\<forall>i cm. fmlookup (e_commits e) (commit_id i) = Some cm \<longrightarrow>
        (cm_parents cm = [] \<longleftrightarrow> i = 1) \<and>
        (\<forall>q \<in> set (cm_parents cm). \<exists>j. 1 \<le> j \<and> j < i \<and> q = commit_id j))"

definition open_at :: "engine \<Rightarrow> string \<Rightarrow> session \<Rightarrow> bool" where
  "open_at e sid s \<longleftrightarrow> fmlookup (e_sessions e) sid = Some s \<and> s_open s"

definition ses_rows :: "version list \<Rightarrow> string \<Rightarrow> string \<Rightarrow> pk \<Rightarrow> version list" where
  "ses_rows rows b sid p =
     filter (\<lambda>v. v_branch v = b \<and> v_pk v = p \<and> (v_session v = [] \<or> v_session v = sid)) rows"

definition inv_sessions :: "engine \<Rightarrow> bool" where
  "inv_sessions e \<longleftrightarrow>
     (\<forall>sid s. fmlookup (e_sessions e) sid = Some s \<longrightarrow>
        (\<exists>k. 1 \<le> k \<and> k \<le> e_next_sess e \<and> sid = session_id k) \<and>
        (s_open s \<longrightarrow> s_branch s \<in> fmdom' (e_branches e) \<and> s_branch s \<noteq> root_branch \<and>
           s_base s \<in> fmdom' (e_commits e)))"

definition inv_staged :: "engine \<Rightarrow> bool" where
  "inv_staged e \<longleftrightarrow>
     (\<forall>v \<in> set (e_rows e).
        if v_session v = [] then v_commit v \<in> fmdom' (e_commits e)
        else \<exists>s. open_at e (v_session v) s \<and> v_branch v = s_branch s \<and> v_commit v = []) \<and>
     (\<forall>sid p. sid \<noteq> [] \<longrightarrow> length (staged (e_rows e) sid p) \<le> 1) \<and>
     (\<forall>sid s p v c. open_at e sid s \<longrightarrow> v \<in> set (staged (e_rows e) sid p) \<longrightarrow> c \<in> e_cols e \<longrightarrow>
        \<not> mask_has (v_changed v) c \<longrightarrow> cellv (live v) c = cellv (commit_row e (s_base s) p) c) \<and>
     (\<forall>sid s bb p. open_at e sid s \<longrightarrow> fmlookup (e_branches e) (s_branch s) = Some bb \<longrightarrow>
        b_head_commit bb = s_base s \<longrightarrow>
        ses_rows (e_rows e) (s_branch s) sid p
          = hist (e_rows e) (s_branch s) p @ staged (e_rows e) sid p)"

definition engine_inv :: "engine \<Rightarrow> bool" where
  "engine_inv e \<longleftrightarrow>
     inv_rows e \<and> inv_branches e \<and> inv_commits e \<and> inv_sessions e \<and> inv_staged e \<and>
     int (e_next_id e) \<le> max_seq"

text \<open>The sequence counters have room for one more commit.\<close>

definition has_room :: "engine \<Rightarrow> bool" where
  "has_room e \<longleftrightarrow> int (e_next_id e) < max_seq"

lemma commit_id_inj [simp]: "commit_id i = commit_id j \<longleftrightarrow> i = j"
  by (simp add: commit_id_def)

lemma session_id_inj [simp]: "session_id i = session_id j \<longleftrightarrow> i = j"
  by (simp add: session_id_def)

lemma ids_nonempty [simp]: "commit_id i \<noteq> []" "session_id i \<noteq> []"
  by (simp_all add: commit_id_def session_id_def)

lemma inv_commits_fresh: "inv_commits e \<Longrightarrow> commit_id (e_next_id e + 1) \<notin> fmdom' (e_commits e)"
  by (auto simp: inv_commits_def)

lemma engine_head_seq_simp: "fmlookup (e_branches e) b = Some bb \<Longrightarrow> engine_head_seq e b = b_head_seq bb"
  by (simp add: engine_head_seq_def)

lemma chain_for_head:
  "fmlookup (e_branches e) b = Some bb \<Longrightarrow> chain_for e b (b_head_seq bb) = head_chain b bb"
  by (simp add: chain_for_def head_chain_def)

lemma fmlookup_resolve [fm_simps]:
  "fmlookup (e_branches e) b = Some bb \<Longrightarrow> fmlookup (nil_table (resolve e b)) p = branch_row e b bb p"
  by (simp add: resolve_def nil_table_def fmlookup_resolve_chain chain_for_head branch_row_def e_hist_def)

lemma fmlookup_state_at_commit [fm_simps]: "fmlookup (state_at_commit e c) p = commit_row e c p"
  by (simp add: state_at_commit_def commit_row_def commit_chain_def fmlookup_resolve_chain e_hist_def
      split: option.splits)

subsection \<open>Changing what chains do not depend on\<close>

lemma tree_path_cong: "(\<And>x. x \<in> set xs \<Longrightarrow> f x = g x) \<Longrightarrow> tree_path f xs = tree_path g xs"
  by (induction f xs rule: tree_path.induct) auto

lemma chain_in_cong:
  assumes "e_hist e' = e_hist e" "e_schema e' = e_schema e"
    and "fmdom' (e_branches e) \<subseteq> fmdom' (e_branches e')"
    and "\<And>x. x \<in> fmdom' (e_branches e) \<Longrightarrow> engine_head_seq e' x = engine_head_seq e x \<and> par_of e' x = par_of e x"
    and "chain_in e C"
  shows "chain_in e' C"
proof -
  have n: "set (names C) \<subseteq> fmdom' (e_branches e)" using assms(5) by (simp add: chain_in_def tail_in_def)
  have "tree_path (par_of e') (names C) = tree_path (par_of e) (names C)"
    by (rule tree_path_cong) (use n assms(4) in auto)
  moreover have "engine_head_seq e' (sg_branch g) = engine_head_seq e (sg_branch g)" if "g \<in> set C" for g
    using n assms(4) that by auto
  then have "bounded (engine_head_seq e') C = bounded (engine_head_seq e) C" by (simp add: bounded_def)
  ultimately show ?thesis
    using assms n by (auto simp: chain_in_def tail_in_def e_cols_def)
qed

subsection \<open>One commit\<close>

definition advanced ::
  "engine \<Rightarrow> string \<Rightarrow> branch \<Rightarrow> version list \<Rightarrow> (string, session) fmap \<Rightarrow> string list \<Rightarrow> engine" where
  "advanced e b bb rows ss parents =
     e\<lparr>e_next_id := e_next_id e + 1, e_rows := rows, e_sessions := ss,
       e_branches := fmupd b (bb\<lparr>b_head_seq := b_head_seq bb + 1, b_head_commit := commit_id (e_next_id e + 1)\<rparr>)
                       (e_branches e),
       e_commits := fmupd (commit_id (e_next_id e + 1))
         \<lparr>cm_id = commit_id (e_next_id e + 1), cm_parents = parents, cm_branch = b,
          cm_seq = b_head_seq bb + 1, cm_chain = seg b (b_head_seq bb + 1) # b_chain bb\<rparr> (e_commits e)\<rparr>"

text \<open>
  What an operation must show: the branch it moves, the tail the branch then has, the versions it
  writes, and that a column equal to the old tail's becomes equal to the new tail's unless it is marked.
\<close>

definition moves ::
  "engine \<Rightarrow> string \<Rightarrow> branch \<Rightarrow> branch \<Rightarrow> version list \<Rightarrow> (pk \<Rightarrow> version option) \<Rightarrow> bool" where
  "moves e b b0 bb rows N \<longleftrightarrow>
     fmlookup (e_branches e) b = Some b0 \<and>
     b_parent bb = b_parent b0 \<and> b_head_seq bb = b_head_seq b0 \<and>
     tree_path (par_of e) (names (head_chain b bb)) \<and> tail_in e (b_chain bb) \<and>
     (b \<noteq> root_branch \<longrightarrow> b_fork_commit bb \<in> fmdom' (e_commits e) \<and>
        (\<forall>p. commit_row e (b_fork_commit bb) p = chain_row (e_hist e) (b_chain bb) p)) \<and>
     advances (e_hist e) (hist rows) b N \<and> new_versions (b_head_seq b0 + 1) N \<and>
     masks_cover (e_hist e) (e_cols e) b (b_head_seq b0) (b_chain bb) N \<and>
     (\<forall>p c. c \<in> e_cols e \<longrightarrow> (\<forall>n. N p = Some n \<longrightarrow> \<not> mask_has (v_changed n) c) \<longrightarrow>
        cellv (branch_row e b b0 p) c = cellv (chain_row (e_hist e) (b_chain b0) p) c \<longrightarrow>
        cellv (case N p of Some n \<Rightarrow> live n | None \<Rightarrow> branch_row e b bb p) c
          = cellv (chain_row (e_hist e) (b_chain bb) p) c) \<and>
     (\<forall>v \<in> set rows. mask_ok (v_changed v) \<and> (\<forall>c. mask_has (v_changed v) c \<longrightarrow> c \<in> e_cols e))"

lemma advanced_simps [simp]:
  "e_schema (advanced e b bb rows ss ps) = e_schema e"
  "e_rows (advanced e b bb rows ss ps) = rows"
  "e_sessions (advanced e b bb rows ss ps) = ss"
  "e_next_id (advanced e b bb rows ss ps) = e_next_id e + 1"
  "e_next_sess (advanced e b bb rows ss ps) = e_next_sess e"
  "e_cols (advanced e b bb rows ss ps) = e_cols e"
  "e_hist (advanced e b bb rows ss ps) = hist rows"
  by (simp_all add: advanced_def e_cols_def e_hist_def)

lemma advanced_branches:
  "fmlookup (e_branches (advanced e b bb rows ss ps)) x
    = (if x = b then Some (bb\<lparr>b_head_seq := b_head_seq bb + 1, b_head_commit := commit_id (e_next_id e + 1)\<rparr>)
       else fmlookup (e_branches e) x)"
  by (simp add: advanced_def)

lemma advanced_commits:
  "fmlookup (e_commits (advanced e b bb rows ss ps)) c
    = (if c = commit_id (e_next_id e + 1)
       then Some \<lparr>cm_id = commit_id (e_next_id e + 1), cm_parents = ps, cm_branch = b,
                  cm_seq = b_head_seq bb + 1, cm_chain = seg b (b_head_seq bb + 1) # b_chain bb\<rparr>
       else fmlookup (e_commits e) c)"
  by (simp add: advanced_def)

lemma advanced_dom_commits [simp]:
  "fmdom' (e_commits (advanced e b bb rows ss ps)) = insert (commit_id (e_next_id e + 1)) (fmdom' (e_commits e))"
  by (simp add: advanced_def)

lemma advanced_heads:
  assumes "moves e b b0 bb rows N"
  shows "engine_head_seq (advanced e b bb rows ss ps) = (engine_head_seq e)(b := engine_head_seq e b + 1)"
    and "par_of (advanced e b bb rows ss ps) = par_of e"
    and "fmdom' (e_branches (advanced e b bb rows ss ps)) = fmdom' (e_branches e)"
  using assms
  by (auto simp: moves_def engine_head_seq_def par_of_def fun_eq_iff advanced_def fmdom'I)

lemma moves_facts:
  assumes "moves e b b0 bb rows N" "inv_rows e" "inv_branches e" "has_room e"
  shows "engine_head_seq e b = b_head_seq b0" "0 \<le> b_head_seq b0" "b_head_seq b0 + 1 < max_seq"
    "hists_at (engine_head_seq e) (e_hist e)" "advances (e_hist e) (hist rows) b N"
    "new_versions (engine_head_seq e b + 1) N" "b_head_seq bb = b_head_seq b0" "inv_branch e b b0"
    "engine_head_seq e b + 1 < max_seq"
proof -
  have b0: "fmlookup (e_branches e) b = Some b0" using assms(1) by (simp add: moves_def)
  then show i: "inv_branch e b b0" using assms(3) by (simp add: inv_branches_def)
  show h: "engine_head_seq e b = b_head_seq b0" using b0 by (rule engine_head_seq_simp)
  show "0 \<le> b_head_seq b0" "b_head_seq b0 + 1 < max_seq"
    using i assms(4) by (simp_all add: inv_branch_def has_room_def)
  with h show "engine_head_seq e b + 1 < max_seq" by simp
  show "hists_at (engine_head_seq e) (e_hist e)" using assms(2) by (simp add: inv_rows_def)
  show "advances (e_hist e) (hist rows) b N" "new_versions (engine_head_seq e b + 1) N"
    "b_head_seq bb = b_head_seq b0"
    using assms(1) h by (simp_all add: moves_def)
qed

lemma bounded_mono: "bounded f C \<Longrightarrow> (\<And>x. f x \<le> g x) \<Longrightarrow> bounded g C"
  unfolding bounded_def by (meson order_trans)

lemma tail_in_advanced:
  assumes "moves e b b0 bb rows N" "inv_rows e" "inv_branches e" "has_room e" "tail_in e T"
  shows "tail_in (advanced e b bb rows ss ps) T"
    and "chain_row (hist rows) T p = chain_row (e_hist e) T p"
proof -
  note m = moves_facts [OF assms(1-4)]
  have bd: "bounded (engine_head_seq e) T" using assms(5) by (simp add: tail_in_def)
  show "chain_row (hist rows) T p = chain_row (e_hist e) T p"
    by (rule advances_chain_row [OF m(5,6,4,9) bd])
  have "bounded (engine_head_seq (advanced e b bb rows ss ps)) T"
    using bd by (rule bounded_mono) (simp add: advanced_heads [OF assms(1)])
  moreover have "chain_ok (hist rows) (e_cols e) T p" for p
    using advances_chain_ok [OF m(5,6,4,9) bd] assms(5) by (simp add: tail_in_def)
  ultimately show "tail_in (advanced e b bb rows ss ps) T"
    using assms(5) by (simp add: tail_in_def advanced_heads [OF assms(1)])
qed

lemma chain_in_advanced:
  assumes "moves e b b0 bb rows N" "inv_rows e" "inv_branches e" "has_room e" "chain_in e C"
  shows "chain_in (advanced e b bb rows ss ps) C"
  using tail_in_advanced [OF assms(1-4)] assms(5) by (simp add: chain_in_def advanced_heads [OF assms(1)])

lemma commit_row_advanced:
  assumes "moves e b b0 bb rows N" "inv_rows e" "inv_branches e" "has_room e" "inv_commits e"
    and "c \<in> fmdom' (e_commits e)"
  shows "commit_row (advanced e b bb rows ss ps) c p = commit_row e c p"
proof -
  obtain cm where cm: "fmlookup (e_commits e) c = Some cm" using assms(6) by (auto simp: fmlookup_dom'_iff)
  then have "tail_in e (cm_chain cm)" using assms(5) by (auto simp: inv_commits_def chain_in_def)
  moreover have "c \<noteq> commit_id (e_next_id e + 1)" using inv_commits_fresh [OF assms(5)] assms(6) by auto
  ultimately show ?thesis
    using tail_in_advanced(2) [OF assms(1-4)] cm
    by (simp add: commit_row_def commit_chain_def advanced_commits)
qed

text \<open>The new head shows the written versions over the new tail.\<close>

lemma head_row_advanced:
  assumes "moves e b b0 bb rows N" "inv_rows e" "inv_branches e" "has_room e"
  shows "chain_row (hist rows) (seg b (b_head_seq bb + 1) # b_chain bb) p
    = (case N p of Some n \<Rightarrow> live n | None \<Rightarrow> branch_row e b bb p)"
proof -
  note m = moves_facts [OF assms]
  have "bounded (engine_head_seq e) (b_chain bb)" using assms(1) by (simp add: moves_def tail_in_def)
  from advances_head_row [OF m(5,6,4,9) this] show ?thesis
    by (simp only: m(1,7) branch_row_def head_chain_def)
qed

lemma new_chain_in:
  assumes "moves e b b0 bb rows N" "inv_rows e" "inv_branches e" "has_room e"
  shows "chain_in (advanced e b bb rows ss ps) (seg b (b_head_seq bb + 1) # b_chain bb)"
proof -
  note m = moves_facts [OF assms]
  have mv: "tree_path (par_of e) (names (head_chain b bb))" "tail_in e (b_chain bb)"
    "masks_cover (e_hist e) (e_cols e) b (b_head_seq b0) (b_chain bb) N"
    using assms(1) by (simp_all add: moves_def)
  have b: "b \<in> fmdom' (e_branches e)" using assms(1) by (simp add: moves_def fmdom'I)
  note tl = tail_in_advanced(1) [OF assms mv(2)]
  have "chain_ok (hist rows) (e_cols e) (seg b (engine_head_seq e b + 1) # b_chain bb) p" for p
  proof (rule advances_new_chain_ok [where T = "b_chain b0" and N = N])
    show "chain_ok (e_hist e) (e_cols e) (seg b (engine_head_seq e b) # b_chain b0) p"
      using m(8) by (simp add: inv_branch_def chain_in_def tail_in_def head_chain_def m(1))
    show "chain_ok (e_hist e) (e_cols e) (b_chain bb) p" "bounded (engine_head_seq e) (b_chain bb)"
      using mv(2) by (simp_all add: tail_in_def)
    show "masks_cover (e_hist e) (e_cols e) b (engine_head_seq e b) (b_chain bb) N" using mv(3) m(1) by simp
    fix c assume c: "c \<in> e_cols e" "\<And>n. N p = Some n \<Longrightarrow> \<not> mask_has (v_changed n) c"
      and eq: "cellv (chain_row (e_hist e) (seg b (engine_head_seq e b) # b_chain b0) p) c
        = cellv (chain_row (e_hist e) (b_chain b0) p) c"
    have "cellv (branch_row e b b0 p) c = cellv (chain_row (e_hist e) (b_chain b0) p) c"
      using eq by (simp only: branch_row_def head_chain_def m(1))
    then have "cellv (case N p of Some n \<Rightarrow> live n | None \<Rightarrow> branch_row e b bb p) c
        = cellv (chain_row (e_hist e) (b_chain bb) p) c"
      using assms(1) c unfolding moves_def by blast
    then show "cellv (chain_row (hist rows) (seg b (engine_head_seq e b + 1) # b_chain bb) p) c
        = cellv (chain_row (e_hist e) (b_chain bb) p) c"
      using head_row_advanced [OF assms, of p] by (simp only: m(1,7))
  qed (use m in simp_all)
  moreover have "bounded (engine_head_seq (advanced e b bb rows ss ps)) (seg b (b_head_seq bb + 1) # b_chain bb)"
    using tl m by (simp add: tail_in_def advanced_heads [OF assms(1)])
  ultimately show ?thesis
    using tl mv(1) b m(1,7) by (simp add: chain_in_def tail_in_def advanced_heads [OF assms(1)] head_chain_def)
qed

lemma inv_rows_advanced:
  assumes "moves e b b0 bb rows N" "inv_rows e" "inv_branches e" "has_room e"
  shows "inv_rows (advanced e b bb rows ss ps)"
proof -
  note m = moves_facts [OF assms]
  have "hists_at ((engine_head_seq e)(b := engine_head_seq e b + 1)) (hist rows)"
    by (rule advances_hists_at [OF m(5,6,4,9)]) (use m in simp)
  moreover have "mask_hists (e_cols e) (hist rows)"
  proof (rule advances_mask_hists [OF m(5,4)])
    show "engine_head_seq e b < max_seq" using m(9) by simp
    show "mask_hists (e_cols e) (e_hist e)" using assms(2) by (simp add: inv_rows_def)
    show "masks_cover (e_hist e) (e_cols e) b (engine_head_seq e b) (b_chain bb) N"
      using assms(1) m(1) by (simp add: moves_def)
  qed
  ultimately show ?thesis
    using assms(1) by (simp add: inv_rows_def advanced_heads [OF assms(1)] moves_def)
qed

lemma inv_branches_advanced:
  assumes "moves e b b0 bb rows N" "inv_rows e" "inv_branches e" "has_room e" "inv_commits e"
  shows "inv_branches (advanced e b bb rows ss ps)"
  unfolding inv_branches_def
proof (intro conjI allI impI)
  let ?e = "advanced e b bb rows ss ps"
  note m = moves_facts [OF assms(1-4)]
  note cr = commit_row_advanced [OF assms(1-5)]
  show "root_branch \<in> fmdom' (e_branches ?e)"
    using assms(3) by (simp add: inv_branches_def advanced_heads [OF assms(1)])
  fix x xx assume x: "fmlookup (e_branches ?e) x = Some xx"
  show "inv_branch ?e x xx"
  proof (cases "x = b")
    case True
    let ?c = "seg b (b_head_seq bb + 1) # b_chain bb"
    have xx: "xx = bb\<lparr>b_head_seq := b_head_seq bb + 1, b_head_commit := commit_id (e_next_id e + 1)\<rparr>"
      using x True by (simp add: advanced_branches)
    have hc: "head_chain x xx = ?c" by (simp add: head_chain_def xx True)
    have "b_fork_commit bb \<in> fmdom' (e_commits ?e) \<and>
        (\<forall>p. commit_row ?e (b_fork_commit bb) p = chain_row (hist rows) (b_chain bb) p)"
      if "b \<noteq> root_branch"
    proof -
      have f: "b_fork_commit bb \<in> fmdom' (e_commits e)" "tail_in e (b_chain bb)"
        "\<And>p. commit_row e (b_fork_commit bb) p = chain_row (e_hist e) (b_chain bb) p"
        using assms(1) that by (simp_all add: moves_def)
      then show ?thesis using cr tail_in_advanced(2) [OF assms(1-4) f(2)] by auto
    qed
    moreover have "commit_row ?e (commit_id (e_next_id e + 1)) p = branch_row ?e x xx p" for p
      unfolding branch_row_def hc by (simp add: commit_row_def commit_chain_def advanced_commits)
    moreover have "chain_in ?e (head_chain x xx)" unfolding hc by (rule new_chain_in [OF assms(1-4)])
    moreover have "b_parent bb = b_parent b0" using assms(1) by (simp add: moves_def)
    ultimately show ?thesis
      using m(2,7,8) by (simp add: inv_branch_def) (simp add: xx True)
  next
    case False
    then have b: "fmlookup (e_branches e) x = Some xx" using x by (simp add: advanced_branches)
    then have i: "inv_branch e x xx" using assms(3) by (simp add: inv_branches_def)
    then have ch: "chain_in e (head_chain x xx)" by (simp add: inv_branch_def)
    have tl: "tail_in e (head_chain x xx)" "tail_in e (b_chain xx)"
      using ch by (simp_all add: chain_in_def tail_in_def head_chain_def)
    have rows: "chain_row (hist rows) (head_chain x xx) p = chain_row (e_hist e) (head_chain x xx) p"
      "chain_row (hist rows) (b_chain xx) p = chain_row (e_hist e) (b_chain xx) p" for p
      using tail_in_advanced(2) [OF assms(1-4)] tl by blast+
    show ?thesis
      using i cr chain_in_advanced [OF assms(1-4) ch] rows
      by (auto simp: inv_branch_def branch_row_def subset_iff)
  qed
qed

lemma inv_commits_advanced:
  assumes "moves e b b0 bb rows N" "inv_rows e" "inv_branches e" "has_room e" "inv_commits e"
    and "ps \<noteq> []" "set ps \<subseteq> fmdom' (e_commits e)"
  shows "inv_commits (advanced e b bb rows ss ps)"
  unfolding inv_commits_def
proof (intro conjI allI impI)
  let ?e = "advanced e b bb rows ss ps"
  let ?n = "e_next_id e + 1"
  have dom: "fmdom' (e_commits e) = commit_id ` {1..e_next_id e}" using assms(5) by (simp add: inv_commits_def)
  show "fmdom' (e_commits ?e) = commit_id ` {1..e_next_id ?e}"
  proof -
    have "fmdom' (e_commits ?e) = insert (commit_id ?n) (fmdom' (e_commits e))" by simp
    also have "\<dots> = commit_id ` insert ?n {1..e_next_id e}" using dom by simp
    also have "insert ?n {1..e_next_id e} = {1..?n}" by auto
    finally show ?thesis by simp
  qed
  show "chain_in ?e (cm_chain cm)" if "fmlookup (e_commits ?e) c = Some cm" for c cm
    using that new_chain_in [OF assms(1-4)] chain_in_advanced [OF assms(1-4)] assms(5)
    by (auto simp: advanced_commits inv_commits_def split: if_splits)
  fix i cm assume cm: "fmlookup (e_commits ?e) (commit_id i) = Some cm"
  have "(cm_parents cm = [] \<longleftrightarrow> i = 1) \<and>
     (\<forall>q \<in> set (cm_parents cm). \<exists>j. 1 \<le> j \<and> j < i \<and> q = commit_id j)"
  proof (cases "i = ?n")
    case True
    have "e_next_id e \<noteq> 0"
    proof
      assume "e_next_id e = 0"
      then have "fmdom' (e_commits e) = {}" using dom by simp
      with assms(6,7) show False by (cases ps) auto
    qed
    moreover have "\<exists>j. 1 \<le> j \<and> j < i \<and> q = commit_id j" if "q \<in> set ps" for q
    proof -
      have "q \<in> commit_id ` {1..e_next_id e}" using that assms(7) dom by blast
      then obtain j where "q = commit_id j" "j \<in> {1..e_next_id e}" by blast
      then show ?thesis using True by auto
    qed
    moreover have "cm_parents cm = ps" using cm True by (auto simp: advanced_commits)
    ultimately show ?thesis using assms(6) True by simp
  next
    case False
    then show ?thesis using cm assms(5) by (simp add: advanced_commits inv_commits_def)
  qed
  then show "(cm_parents cm = []) = (i = 1)"
    "\<forall>q \<in> set (cm_parents cm). \<exists>j. 1 \<le> j \<and> j < i \<and> q = commit_id j" by blast+
qed
end
