(* ===== verification/EngineCommit.thy ===== *)
theory EngineCommit
  imports EngineInv
begin

text \<open>
  The operations that add a commit by a write loop (\<^verbatim>\<open>Commit\<close>, \<^verbatim>\<open>applyMergeResult\<close>, \<^verbatim>\<open>Merge\<close>,
  \<^verbatim>\<open>UpdateFromParent\<close>) keep the engine's invariant, and the state they leave. The mask soundness of
  the chains is stated here for the engine: a column \<^verbatim>\<open>maskSince\<close> leaves unmarked has not moved.
\<close>

subsection \<open>Sessions during a commit\<close>

lemma inv_sessions_advanced:
  assumes "inv_sessions e" "moves e b b0 bb rows N"
  shows "inv_sessions (advanced e b bb rows (e_sessions e) ps)"
  using assms(1) by (fastforce simp: inv_sessions_def advanced_heads [OF assms(2)])

lemma inv_staged_advanced:
  assumes inv: "inv_staged e" "inv_sessions e" "inv_rows e" "inv_branches e" "inv_commits e" "has_room e"
    and mv: "moves e b b0 bb (foldl write_version (e_rows e) ns) N"
    and on: "committed_on b s ns" and cm: "\<forall>n \<in> set ns. v_commit n = commit_id (e_next_id e + 1)"
  shows "inv_staged (advanced e b bb (foldl write_version (e_rows e) ns) (e_sessions e) ps)"
proof -
  let ?rows = "foldl write_version (e_rows e) ns"
  let ?e = "advanced e b bb ?rows (e_sessions e) ps"
  have open_eq: "open_at ?e = open_at e" by (simp add: open_at_def fun_eq_iff)
  have st: "staged ?rows sid p = staged (e_rows e) sid p" if "sid \<noteq> []" for sid p
    by (rule write_versions_staged [OF on that])
  have sid: "sid \<noteq> [] \<and> s_base s \<in> fmdom' (e_commits e)" if "open_at e sid s" for sid s
    using that inv(2) unfolding open_at_def inv_sessions_def by (metis ids_nonempty(2))
  have row: "commit_row ?e (s_base s) p = commit_row e (s_base s) p" if "open_at e sid s" for sid s p
    by (rule commit_row_advanced [OF mv inv(3,4,6,5)]) (use sid that in blast)
  have 1: "\<forall>v \<in> set ?rows. if v_session v = [] then v_commit v \<in> fmdom' (e_commits ?e)
        else \<exists>s. open_at e (v_session v) s \<and> v_branch v = s_branch s \<and> v_commit v = []"
  proof (rule write_versions_all)
    show "\<forall>u \<in> set (e_rows e). if v_session u = [] then v_commit u \<in> fmdom' (e_commits ?e)
        else \<exists>s. open_at e (v_session u) s \<and> v_branch u = s_branch s \<and> v_commit u = []"
      using inv(1) unfolding inv_staged_def by (auto split: if_splits)
    show "\<forall>n \<in> set ns. if v_session n = [] then v_commit n \<in> fmdom' (e_commits ?e)
        else \<exists>s. open_at e (v_session n) s \<and> v_branch n = s_branch s \<and> v_commit n = []"
      using on cm by (auto simp: committed_on_def)
  qed auto
  have 4: "ses_rows ?rows (s_branch s) sid p = hist ?rows (s_branch s) p @ staged ?rows sid p"
    if o': "open_at e sid s" and b': "fmlookup (e_branches ?e) (s_branch s) = Some bb'"
      and h: "b_head_commit bb' = s_base s" for sid s bb' p
  proof -
    have ne: "s_branch s \<noteq> b"
    proof
      assume "s_branch s = b"
      then have "s_base s = commit_id (e_next_id e + 1)" using b' h by (auto simp: advanced_branches)
      with inv_commits_fresh [OF inv(5)] sid [OF o'] show False by simp
    qed
    then have "ses_rows ?rows (s_branch s) sid p = ses_rows (e_rows e) (s_branch s) sid p"
      unfolding ses_rows_def by (intro write_versions_filter [OF on]) auto
    moreover have "hist ?rows (s_branch s) p = hist (e_rows e) (s_branch s) p"
      unfolding hist_def using ne by (intro write_versions_filter [OF on]) auto
    moreover have "fmlookup (e_branches e) (s_branch s) = Some bb'"
      using b' ne by (simp add: advanced_branches)
    ultimately show ?thesis
      using inv(1) o' h st sid [OF o'] unfolding inv_staged_def by simp
  qed
  show ?thesis
    unfolding inv_staged_def open_eq advanced_simps
  proof (intro conjI allI impI)
    show "\<forall>v \<in> set ?rows. if v_session v = [] then v_commit v \<in> fmdom' (e_commits ?e)
        else \<exists>s. open_at e (v_session v) s \<and> v_branch v = s_branch s \<and> v_commit v = []" by (rule 1)
    show "length (staged ?rows sid p) \<le> 1" if "sid \<noteq> []" for sid p
      using inv(1) that st by (simp add: inv_staged_def)
    show "cellv (live v) c = cellv (commit_row ?e (s_base s) p) c"
      if "open_at e sid s" "v \<in> set (staged ?rows sid p)" "c \<in> e_cols e" "\<not> mask_has (v_changed v) c"
      for sid s p v c
      using inv(1) that st row sid unfolding inv_staged_def by metis
  qed (rule 4)
qed

subsection \<open>A write loop moves the branch\<close>

definition covers :: "engine \<Rightarrow> string \<Rightarrow> branch \<Rightarrow> version list \<Rightarrow> bool" where
  "covers e b bb ns \<longleftrightarrow>
     (\<forall>n \<in> set ns. mask_ok (v_changed n) \<and> (\<forall>c. mask_has (v_changed n) c \<longrightarrow> c \<in> e_cols e) \<and>
        (\<forall>c \<in> e_cols e. \<not> mask_has (v_changed n) c \<longrightarrow>
           cellv (live n) c = cellv (branch_row e b bb (v_pk n)) c))"

lemma mask_of_covers:
  "mask_ok (mask_of r s cs)"
  "mask_has (mask_of r s cs) c \<Longrightarrow> c \<in> set cs"
  "c \<in> set cs \<Longrightarrow> \<not> mask_has (mask_of r s cs) c \<Longrightarrow> cell_of (row_get s c) = cell_of (row_get r c)"
proof -
  show "mask_ok (mask_of r s cs)" unfolding mask_of_def by (rule cmask.ok_collect) simp
  show "mask_has (mask_of r s cs) c \<Longrightarrow> c \<in> set cs" by (simp add: mask_has_mask_of)
  show "c \<in> set cs \<Longrightarrow> \<not> mask_has (mask_of r s cs) c \<Longrightarrow> cell_of (row_get s c) = cell_of (row_get r c)"
    by (simp add: mask_has_mask_of val_equal_iff)
qed

lemma moves_writes:
  assumes inv: "engine_inv e" and b0: "fmlookup (e_branches e) b = Some b0"
    and bb: "b_parent bb = b_parent b0" "b_head_seq bb = b_head_seq b0"
    and tl: "tree_path (par_of e) (names (head_chain b bb))" "tail_in e (b_chain bb)"
    and fork: "b \<noteq> root_branch \<Longrightarrow> b_fork_commit bb \<in> fmdom' (e_commits e) \<and>
        (\<forall>p. commit_row e (b_fork_commit bb) p = chain_row (e_hist e) (b_chain bb) p)"
    and on: "committed_on b (b_head_seq b0 + 1) ns" and cov: "covers e b bb ns"
    and follow: "\<And>p c. c \<in> e_cols e \<Longrightarrow>
        (\<And>n. find (\<lambda>n. v_pk n = p) ns = Some n \<Longrightarrow> \<not> mask_has (v_changed n) c) \<Longrightarrow>
        cellv (branch_row e b b0 p) c = cellv (chain_row (e_hist e) (b_chain b0) p) c \<Longrightarrow>
        cellv (case find (\<lambda>n. v_pk n = p) ns of Some n \<Rightarrow> live n | None \<Rightarrow> branch_row e b bb p) c
          = cellv (chain_row (e_hist e) (b_chain bb) p) c"
  shows "moves e b b0 bb (foldl write_version (e_rows e) ns) (\<lambda>p. find (\<lambda>n. v_pk n = p) ns)"
proof -
  have rows: "inv_rows e" using inv by (simp add: engine_inv_def)
  have "masks_cover (e_hist e) (e_cols e) b (b_head_seq b0) (b_chain bb) (\<lambda>p. find (\<lambda>n. v_pk n = p) ns)"
    unfolding masks_cover_def
  proof (intro allI impI)
    fix p n c assume n: "find (\<lambda>n. v_pk n = p) ns = Some n" and c: "c \<in> e_cols e" "\<not> mask_has (v_changed n) c"
    have "n \<in> set ns" "v_pk n = p" using find_SomeD [OF n] by auto
    then have "cellv (live n) c = cellv (branch_row e b bb p) c" using cov c by (auto simp: covers_def)
    then show "cellv (live n) c = cellv (chain_row (e_hist e) (seg b (b_head_seq b0) # b_chain bb) p) c"
      by (simp only: branch_row_def head_chain_def bb)
  qed
  moreover have "\<forall>v \<in> set (foldl write_version (e_rows e) ns). mask_ok (v_changed v) \<and>
      (\<forall>c. mask_has (v_changed v) c \<longrightarrow> c \<in> e_cols e)"
    by (rule write_versions_all) (use rows cov in \<open>auto simp: inv_rows_def covers_def\<close>)
  moreover have "advances (e_hist e) (hist (foldl write_version (e_rows e) ns)) b (\<lambda>p. find (\<lambda>n. v_pk n = p) ns)"
    unfolding e_hist_def
    by (rule advances_write_versions [OF on, of "engine_head_seq e"])
      (use rows in \<open>simp add: inv_rows_def e_hist_def\<close>)
  ultimately show ?thesis
    unfolding moves_def using b0 bb tl fork new_versions_find [OF on] follow by blast
qed

lemma engine_inv_branch: "engine_inv e \<Longrightarrow> fmlookup (e_branches e) b = Some bb \<Longrightarrow> inv_branch e b bb"
  by (simp add: engine_inv_def inv_branches_def)

lemma branch_tail:
  assumes "engine_inv e" "fmlookup (e_branches e) b = Some bb"
  shows "tree_path (par_of e) (names (head_chain b bb))" "tail_in e (b_chain bb)"
    "b \<noteq> root_branch \<Longrightarrow> b_fork_commit bb \<in> fmdom' (e_commits e) \<and>
        (\<forall>p. commit_row e (b_fork_commit bb) p = chain_row (e_hist e) (b_chain bb) p)"
  using engine_inv_branch [OF assms]
  by (auto simp: inv_branch_def chain_in_def tail_in_def head_chain_def)

lemma moves_same_tail:
  assumes inv: "engine_inv e" and b0: "fmlookup (e_branches e) b = Some b0"
    and on: "committed_on b (b_head_seq b0 + 1) ns" and cov: "covers e b b0 ns"
  shows "moves e b b0 b0 (foldl write_version (e_rows e) ns) (\<lambda>p. find (\<lambda>n. v_pk n = p) ns)"
proof (rule moves_writes [OF inv b0 refl refl branch_tail [OF inv b0] on cov])
  fix p c assume c: "c \<in> e_cols e" "\<And>n. find (\<lambda>n. v_pk n = p) ns = Some n \<Longrightarrow> \<not> mask_has (v_changed n) c"
    and eq: "cellv (branch_row e b b0 p) c = cellv (chain_row (e_hist e) (b_chain b0) p) c"
  show "cellv (case find (\<lambda>n. v_pk n = p) ns of Some n \<Rightarrow> live n | None \<Rightarrow> branch_row e b b0 p) c
          = cellv (chain_row (e_hist e) (b_chain b0) p) c"
  proof (cases "find (\<lambda>n. v_pk n = p) ns")
    case (Some n)
    have "n \<in> set ns" "v_pk n = p" using find_SomeD [OF Some] by auto
    then have "cellv (live n) c = cellv (branch_row e b b0 p) c"
      using cov c(1) c(2) [OF Some] by (auto simp: covers_def)
    then show ?thesis using eq Some by simp
  qed (simp add: eq)
qed

theorem engine_inv_advanced:
  assumes inv: "engine_inv e" "has_room e"
    and mv: "moves e b b0 bb (foldl write_version (e_rows e) ns) N"
    and on: "committed_on b s ns" "\<forall>n \<in> set ns. v_commit n = commit_id (e_next_id e + 1)"
    and ps: "ps \<noteq> []" "set ps \<subseteq> fmdom' (e_commits e)"
  shows "engine_inv (advanced e b bb (foldl write_version (e_rows e) ns) (e_sessions e) ps)"
proof -
  have i: "inv_rows e" "inv_branches e" "inv_commits e" "inv_sessions e" "inv_staged e"
    using inv(1) by (simp_all add: engine_inv_def)
  show ?thesis
    unfolding engine_inv_def
    using inv_rows_advanced [OF mv i(1,2) inv(2)] inv_branches_advanced [OF mv i(1,2) inv(2) i(3)]
      inv_commits_advanced [OF mv i(1,2) inv(2) i(3) ps] inv_sessions_advanced [OF i(4) mv]
      inv_staged_advanced [OF i(5,4,1,2,3) inv(2) mv on] inv(2)
    by (simp add: has_room_def)
qed

subsection \<open>Commit\<close>

definition commit_writes :: "engine \<Rightarrow> string \<Rightarrow> branch \<Rightarrow> changeset \<Rightarrow> version list" where
  "commit_writes e b b0 cs =
     collect_some (commit_version (e_schema e) (nil_table (resolve e b)) b (b_head_seq b0 + 1)
       (commit_id (e_next_id e + 1))) (cs_sorted cs)"

lemma chain_for_update:
  "chain_for (e\<lparr>e_rows := rows, e_next_id := n\<rparr>\<lparr>e_branches := fmupd b bb (e_branches e)\<rparr>) b s
     = seg b s # b_chain bb"
  by (simp add: chain_for_def)

lemma engine_commit_eq:
  assumes "fmlookup (e_branches e) b = Some b0"
  shows "engine_commit e b cs = Inr
    (advanced e b b0 (foldl write_version (e_rows e) (commit_writes e b b0 cs)) (e_sessions e) [b_head_commit b0],
     commit_id (e_next_id e + 1))"
  using assms
  by (simp add: engine_commit_def new_commit_id_def Let_def commit_fold commit_writes_def record_commit_def
      advanced_def chain_for_def)

lemma commit_writes_on:
  "cs_keyed cs \<Longrightarrow> committed_on b (b_head_seq b0 + 1) (commit_writes e b b0 cs)"
  by (simp add: commit_writes_def commit_versions_on)

lemma commit_writes_commit: "\<forall>n \<in> set (commit_writes e b b0 cs). v_commit n = commit_id (e_next_id e + 1)"
  by (auto simp: commit_writes_def set_collect_some commit_version_def committed_version_def Let_def
      split: if_splits)

lemma cellv_live_committed [simp]:
  "cellv (live (committed_version b p s OpDelete c m r)) d = CNull"
  "cellv None d = CNull"
  by (simp_all add: cellv_def live_def committed_version_def opt_row_def)

lemma commit_writes_cover:
  assumes "fmlookup (e_branches e) b = Some b0"
  shows "covers e b b0 (commit_writes e b b0 cs)"
  unfolding covers_def
proof
  fix n assume "n \<in> set (commit_writes e b b0 cs)"
  then obtain ch where n: "commit_version (e_schema e) (nil_table (resolve e b)) b (b_head_seq b0 + 1)
      (commit_id (e_next_id e + 1)) ch = Some n"
    by (auto simp: commit_writes_def set_collect_some)
  let ?before = "branch_row e b b0 (ch_pk ch)"
  obtain r where r: "v_changed n = mask_of (opt_row ?before) r (sc_cols (e_schema e))"
    "v_pk n = ch_pk ch" "\<And>c. cellv (live n) c = cell_of (row_get r c)"
    using n by (auto simp: commit_version_def Let_def fmlookup_resolve [OF assms] committed_version_def
        live_def cellv_def opt_row_def split: if_splits)
  show "mask_ok (v_changed n) \<and> (\<forall>c. mask_has (v_changed n) c \<longrightarrow> c \<in> e_cols e) \<and>
        (\<forall>c \<in> e_cols e. \<not> mask_has (v_changed n) c \<longrightarrow>
           cellv (live n) c = cellv (branch_row e b b0 (v_pk n)) c)"
    unfolding r e_cols_def cellv_def [of ?before] using mask_of_covers by blast
qed

lemma head_in_commits:
  "engine_inv e \<Longrightarrow> fmlookup (e_branches e) b = Some b0 \<Longrightarrow> b_head_commit b0 \<in> fmdom' (e_commits e)"
  using engine_inv_branch by (auto simp: inv_branch_def)

lemma engine_inv_commit [inv_intros]:
  assumes "engine_inv e" "has_room e" "cs_keyed cs" "engine_commit e b cs = Inr (e', c)"
  shows "engine_inv e'"
proof -
  obtain b0 where b0: "fmlookup (e_branches e) b = Some b0"
    using assms(4) by (auto simp: engine_commit_def split: option.splits)
  have e': "e' = advanced e b b0 (foldl write_version (e_rows e) (commit_writes e b b0 cs)) (e_sessions e)
      [b_head_commit b0]"
    using assms(4) engine_commit_eq [OF b0] by simp
  show ?thesis
    unfolding e'
    by (rule engine_inv_advanced [OF assms(1,2) moves_same_tail [OF assms(1) b0]])
      (use commit_writes_on [OF assms(3)] commit_writes_cover [OF b0] commit_writes_commit
        head_in_commits [OF assms(1) b0] in auto)
qed

text \<open>What a commit leaves on the branch: each change applied, every other key as it was.\<close>

definition change_row :: "change \<Rightarrow> row option" where
  "change_row ch = (if ch_op ch = OpDelete then None else Some (ch_row ch))"

lemma live_commit_version:
  "commit_version sc current b s c ch = Some n \<Longrightarrow> live n = change_row ch"
  "commit_version sc current b s c ch = None \<Longrightarrow> fmlookup current (ch_pk ch) = None \<and> change_row ch = None"
  by (auto simp: commit_version_def Let_def committed_version_def live_def change_row_def split: if_splits)

lemma engine_commit_row:
  assumes inv: "engine_inv e" "has_room e" "cs_keyed cs" and c: "engine_commit e b cs = Inr (e', c)"
    and b0: "fmlookup (e_branches e) b = Some b0"
  shows "fmlookup (nil_table (resolve e' b)) p
    = (case fmlookup cs p of Some ch \<Rightarrow> change_row ch | None \<Rightarrow> branch_row e b b0 p)"
proof -
  let ?ns = "commit_writes e b b0 cs"
  let ?rows = "foldl write_version (e_rows e) ?ns"
  have e': "e' = advanced e b b0 ?rows (e_sessions e) [b_head_commit b0]"
    using c engine_commit_eq [OF b0] by simp
  note mv = moves_same_tail [OF inv(1) b0 commit_writes_on [OF inv(3)] commit_writes_cover [OF b0]]
  have i: "inv_rows e" "inv_branches e" using inv(1) by (simp_all add: engine_inv_def)
  have "fmlookup (e_branches e') b
      = Some (b0\<lparr>b_head_seq := b_head_seq b0 + 1, b_head_commit := commit_id (e_next_id e + 1)\<rparr>)"
    by (simp add: e' advanced_branches)
  from fmlookup_resolve [OF this] have "fmlookup (nil_table (resolve e' b)) p
      = chain_row (hist ?rows) (seg b (b_head_seq b0 + 1) # b_chain b0) p"
    by (simp add: e' branch_row_def head_chain_def del: chain_row.simps)
  also have "\<dots> = (case find (\<lambda>n. v_pk n = p) ?ns of Some n \<Rightarrow> live n | None \<Rightarrow> branch_row e b b0 p)"
    by (rule head_row_advanced [OF mv i inv(2)])
  also have "\<dots> = (case fmlookup cs p of Some ch \<Rightarrow> change_row ch | None \<Rightarrow> branch_row e b b0 p)"
  proof (cases "fmlookup cs p")
    case (Some ch)
    then have pk: "ch_pk ch = p" using inv(3) by (simp add: cs_keyed_def)
    let ?v = "commit_version (e_schema e) (nil_table (resolve e b)) b (b_head_seq b0 + 1)
        (commit_id (e_next_id e + 1)) ch"
    have find: "find (\<lambda>n. v_pk n = p) ?ns = ?v"
      using Some by (simp add: commit_writes_def commit_versions_find [OF inv(3)])
    show ?thesis
    proof (cases ?v)
      case None
      from live_commit_version(2) [OF this] show ?thesis
        using find None Some pk by (simp add: fmlookup_resolve [OF b0])
    next
      case v: (Some n)
      from live_commit_version(1) [OF this] show ?thesis using find v Some by simp
    qed
  qed (simp add: commit_writes_def commit_versions_find [OF inv(3)])
  finally show ?thesis .
qed

end
