(* ===== verification/EngineMerge.thy ===== *)
theory EngineMerge
  imports EngineCommit
begin

text \<open>
  \<^verbatim>\<open>Merge\<close> and \<^verbatim>\<open>UpdateFromParent\<close>: the masks they accumulate are sound, the operations keep the
  engine's invariant, and after a clean merge the target shows the merged table.
\<close>

subsection \<open>Mask soundness for the engine\<close>

lemma chain_in_seqs:
  assumes "engine_inv e" "chain_in e C"
  shows "seqs_ok C"
proof -
  have "engine_head_seq e b < max_seq" if "b \<in> fmdom' (e_branches e)" for b
  proof -
    obtain bb where bb: "fmlookup (e_branches e) b = Some bb" using \<open>b \<in> _\<close> by (auto simp: fmlookup_dom'_iff)
    have "b_head_seq bb < int (e_next_id e)" "int (e_next_id e) \<le> max_seq"
      using engine_inv_branch [OF assms(1) bb] assms(1) by (simp_all add: inv_branch_def engine_inv_def)
    then show ?thesis by (simp add: engine_head_seq_simp [OF bb])
  qed
  moreover have "sg_branch g \<in> fmdom' (e_branches e) \<and> 0 \<le> sg_seq g \<and> sg_seq g \<le> engine_head_seq e (sg_branch g)"
    if "g \<in> set C" for g
    using assms(2) that by (auto simp: chain_in_def tail_in_def bounded_def)
  ultimately show ?thesis unfolding seqs_ok_def by (meson order_le_less_trans)
qed

lemma engine_hist_good: "engine_inv e \<Longrightarrow> hist_good (e_hist e) (e_cols e) p"
  by (auto simp: engine_inv_def inv_rows_def hists_at_def hist_at_def mask_hists_def hist_good_def)

lemma chains_mask_sound:
  assumes "engine_inv e" "chain_in e B" "chain_in e C" "c \<in> e_cols e"
    and "\<not> has_at (mask_chain_diff (e_rows e) B C) p c"
  shows "cellv (chain_row (e_hist e) B p) c = cellv (chain_row (e_hist e) C p) c"
proof (rule mask_sound [OF engine_hist_good [OF assms(1)] assms(4)])
  have B: "tree_path (par_of e) (names B)" using assms(2) by (simp add: chain_in_def)
  show "\<not> diff_marked (e_hist e) B C p c"
    using assms(5) has_at_chain_diff [OF tree_path_distinct [OF B]] by (simp add: e_hist_def)
qed (use assms chain_in_seqs in \<open>auto simp: chain_in_def tail_in_def\<close>)

lemma commit_chain_in:
  assumes "engine_inv e" "c \<in> fmdom' (e_commits e)"
  shows "chain_in e (commit_chain e c)"
proof -
  obtain cm where cm: "fmlookup (e_commits e) c = Some cm" using assms(2) by (auto simp: fmlookup_dom'_iff)
  have "inv_commits e" using assms(1) by (simp add: engine_inv_def)
  with cm show ?thesis by (simp add: inv_commits_def commit_chain_def)
qed

lemma head_chain_in:
  "engine_inv e \<Longrightarrow> fmlookup (e_branches e) b = Some bb \<Longrightarrow> chain_in e (head_chain b bb)"
  using engine_inv_branch by (auto simp: inv_branch_def)

lemma mask_since_eq:
  assumes "fmlookup (e_branches e) b = Some bb" "c \<in> fmdom' (e_commits e)"
  shows "mask_since e b c = mask_chain_diff (e_rows e) (commit_chain e c) (head_chain b bb)"
  using assms
  by (auto simp: mask_since_def commit_chain_def fmlookup_dom'_iff engine_head_seq_simp chain_for_head)

lemma mask_since_sound_cell:
  assumes "engine_inv e" "fmlookup (e_branches e) b = Some bb" "base \<in> fmdom' (e_commits e)"
    and "c \<in> e_cols e" "\<not> has_at (mask_since e b base) p c"
  shows "cellv (branch_row e b bb p) c = cellv (commit_row e base p) c"
  using chains_mask_sound [OF assms(1) commit_chain_in [OF assms(1,3)] head_chain_in [OF assms(1,2)] assms(4)]
    assms(5)
  by (simp add: mask_since_eq [OF assms(2,3)] branch_row_def commit_row_def)

subsection \<open>Masks stay in range and inside the schema\<close>

definition masks_in :: "colid set \<Rightarrow> (pk, colmask) fmap \<Rightarrow> bool" where
  "masks_in S m \<longleftrightarrow> (\<forall>p. mask_ok (mask_at m p) \<and> (\<forall>c. has_at m p c \<longrightarrow> c \<in> S))"

lemma masks_in_empty [simp]: "masks_in S fmempty"
  by (simp add: masks_in_def mask_at_def)

lemma mask_at_upd: "mask_at (fmupd q n m) p = (if p = q then n else mask_at m p)"
  by (simp add: mask_at_def)

lemma masks_in_upd:
  assumes "masks_in S m" "mask_ok n" "\<And>c. mask_has n c \<Longrightarrow> c \<in> S"
  shows "masks_in S (fmupd q (mask_or (mask_at m q) n) m)"
  using assms by (auto simp: masks_in_def has_at_upd mask_at_upd mask_ok_or)

lemma masks_in_accumulate:
  assumes "\<forall>v \<in> set rows. mask_ok (v_changed v) \<and> (\<forall>c. mask_has (v_changed v) c \<longrightarrow> c \<in> S)"
  shows "masks_in S (accumulate_mask rows b lo hi)"
proof -
  have "masks_in S (foldl (\<lambda>out v. if v_branch v \<noteq> b \<or> v_session v \<noteq> [] then out
         else if v_from v > lo \<and> v_from v \<le> hi
              then fmupd (v_pk v) (mask_or (mask_at out (v_pk v)) (v_changed v)) out
              else out) out rows)" if "masks_in S out" for out
    using assms that
  proof (induction rows arbitrary: out)
    case (Cons v rows)
    have "masks_in S (fmupd (v_pk v) (mask_or (mask_at out (v_pk v)) (v_changed v)) out)"
      by (rule masks_in_upd) (use Cons.prems in auto)
    then show ?case using Cons by simp
  qed simp
  then show ?thesis by (simp add: accumulate_mask_def)
qed

lemma masks_in_add:
  assumes "\<forall>v \<in> set rows. mask_ok (v_changed v) \<and> (\<forall>c. mask_has (v_changed v) c \<longrightarrow> c \<in> S)"
    and "masks_in S out"
  shows "masks_in S (mask_add rows b lo hi out)"
proof -
  let ?acc = "accumulate_mask rows b lo hi"
  have acc: "masks_in S ?acc" by (rule masks_in_accumulate [OF assms(1)])
  have "masks_in S (foldl (\<lambda>out p. fmupd p (mask_or (mask_at out p) (mask_at ?acc p)) out) out ks)" for ks
    using assms(2)
  proof (induction ks arbitrary: out)
    case (Cons k ks)
    have "masks_in S (fmupd k (mask_or (mask_at out k) (mask_at ?acc k)) out)"
      by (rule masks_in_upd) (use Cons.prems acc in \<open>auto simp: masks_in_def has_at_def\<close>)
    then show ?case using Cons.IH by simp
  qed simp
  then show ?thesis using assms(2) by (simp add: mask_add_def Let_def)
qed

lemma foldl_pres: "P a \<Longrightarrow> (\<And>a x. P a \<Longrightarrow> P (f a x)) \<Longrightarrow> P (foldl f a xs)"
  by (induction xs arbitrary: a) auto

lemma masks_in_chain_diff:
  assumes "\<forall>v \<in> set rows. mask_ok (v_changed v) \<and> (\<forall>c. mask_has (v_changed v) c \<longrightarrow> c \<in> S)"
  shows "masks_in S (mask_chain_diff rows B C)"
  unfolding mask_chain_diff_def Let_def
  by (intro foldl_pres [of "masks_in S"])
    (auto intro!: masks_in_add [OF assms] split: option.splits)

lemma masks_in_since:
  assumes "engine_inv e"
  shows "masks_in (e_cols e) (mask_since e b c)"
  using masks_in_chain_diff [of "e_rows e" "e_cols e"] assms
  by (auto simp: mask_since_def engine_inv_def inv_rows_def split: option.splits)

lemma masks_in_ok: "masks_in S m \<Longrightarrow> masks_ok m"
  by (simp add: masks_in_def masks_ok_def)

lemma candidates_since:
  assumes "engine_inv e"
  shows "c \<in> set (mask_candidates (mask_since e x base) (mask_since e y base) p)
      \<longleftrightarrow> has_at (mask_since e x base) p c \<or> has_at (mask_since e y base) p c"
    and "set (mask_candidates (mask_since e x base) (mask_since e y base) p) \<subseteq> e_cols e"
proof -
  have m: "masks_in (e_cols e) (mask_since e x base)" "masks_in (e_cols e) (mask_since e y base)"
    using masks_in_since [OF assms] by auto
  show *: "c \<in> set (mask_candidates (mask_since e x base) (mask_since e y base) p)
      \<longleftrightarrow> has_at (mask_since e x base) p c \<or> has_at (mask_since e y base) p c" for c
    by (rule set_mask_candidates [OF masks_in_ok [OF m(1)] masks_in_ok [OF m(2)]])
  show "set (mask_candidates (mask_since e x base) (mask_since e y base) p) \<subseteq> e_cols e"
    using m unfolding subset_iff * masks_in_def by blast
qed

subsection \<open>Applying a merged table\<close>

definition apply_writes :: "engine \<Rightarrow> string \<Rightarrow> branch \<Rightarrow> table \<Rightarrow> table \<Rightarrow> version list" where
  "apply_writes e b bb current result =
     apply_versions (e_schema e) current result b (b_head_seq bb + 1) (commit_id (e_next_id e + 1))"

lemma apply_merge_result_eq:
  assumes "fmlookup (e_branches e) b = Some bb"
  shows "apply_merge_result e b result ps = Inr
    (advanced e b bb (foldl write_version (e_rows e) (apply_writes e b bb (nil_table (resolve e b)) result))
       (e_sessions e) ps, commit_id (e_next_id e + 1))"
  using assms
  by (simp add: apply_merge_result_def new_commit_id_def Let_def apply_fold apply_writes_def record_commit_def
      advanced_def chain_for_def)

lemma apply_writes_on: "committed_on b (b_head_seq bb + 1) (apply_writes e b bb current result)"
  by (simp add: apply_writes_def apply_versions_on)

lemma apply_writes_commit: "\<forall>n \<in> set (apply_writes e b bb current result). v_commit n = commit_id (e_next_id e + 1)"
  by (auto simp: apply_writes_def apply_versions_def set_collect_some dest: apply_version_pk)

lemma apply_version_some:
  assumes "apply_version sc current result b s c p = Some n"
  shows "\<exists>r. v_changed n = mask_of (opt_row (fmlookup current p)) r (sc_cols sc) \<and>
    (\<forall>d. cellv (live n) d = cell_of (row_get r d)) \<and> live n = fmlookup result p"
  using assms
  by (auto simp: apply_version_def Let_def committed_version_def live_def cellv_def opt_row_def
      split: if_splits option.splits)

lemma apply_version_none:
  assumes "apply_version sc current result b s c p = None"
  shows "fmlookup current p = fmlookup result p \<or> same_opt (fmlookup current p) (fmlookup result p)"
  using assms
  by (auto simp: apply_version_def Let_def same_opt_def opt_row_def split: if_splits option.splits)

lemma apply_writes_cover:
  assumes "\<And>p. fmlookup current p = branch_row e b bb p"
  shows "covers e b bb (apply_writes e b bb current result)"
  unfolding covers_def
proof
  fix n assume "n \<in> set (apply_writes e b bb current result)"
  then obtain p where p: "apply_version (e_schema e) current result b (b_head_seq bb + 1)
      (commit_id (e_next_id e + 1)) p = Some n"
    by (auto simp: apply_writes_def apply_versions_def set_collect_some)
  obtain r where r: "v_changed n = mask_of (opt_row (branch_row e b bb p)) r (sc_cols (e_schema e))"
    "\<And>d. cellv (live n) d = cell_of (row_get r d)"
    using apply_version_some [OF p] assms by auto
  have pk: "v_pk n = p" using apply_version_pk [OF p] by simp
  show "mask_ok (v_changed n) \<and> (\<forall>c. mask_has (v_changed n) c \<longrightarrow> c \<in> e_cols e) \<and>
        (\<forall>c \<in> e_cols e. \<not> mask_has (v_changed n) c \<longrightarrow>
           cellv (live n) c = cellv (branch_row e b bb (v_pk n)) c)"
    unfolding r pk e_cols_def cellv_def [of "branch_row e b bb p"] using mask_of_covers by blast
qed

text \<open>After the writes the branch shows the result: the very row, or one equal to it.\<close>

definition row_like :: "row option \<Rightarrow> row option \<Rightarrow> bool" where
  "row_like a b \<longleftrightarrow> a = b \<or> same_opt a b"

lemma row_like_cellv: "row_like a b \<Longrightarrow> cellv a c = cellv b c"
  using same_opt_cellv by (auto simp: row_like_def)

lemma apply_writes_row:
  assumes "\<And>p. fmlookup current p = branch_row e b bb p"
  shows "row_like (case find (\<lambda>n. v_pk n = p) (apply_writes e b bb current result) of
      Some n \<Rightarrow> live n | None \<Rightarrow> branch_row e b bb p) (fmlookup result p)"
proof (cases "find (\<lambda>n. v_pk n = p) (apply_writes e b bb current result)")
  case None
  then have "apply_version (e_schema e) current result b (b_head_seq bb + 1) (commit_id (e_next_id e + 1)) p = None"
    by (simp add: apply_writes_def apply_versions_find)
  from apply_version_none [OF this] show ?thesis using None assms by (simp add: row_like_def)
next
  case (Some n)
  then have "apply_version (e_schema e) current result b (b_head_seq bb + 1) (commit_id (e_next_id e + 1)) p = Some n"
    by (simp add: apply_writes_def apply_versions_find)
  from apply_version_some [OF this] show ?thesis using Some by (auto simp: row_like_def)
qed

subsection \<open>Merge\<close>

definition merged :: "engine \<Rightarrow> string \<Rightarrow> string \<Rightarrow> string \<Rightarrow> table \<times> conflict list" where
  "merged e base into from =
     merge_states (e_schema e) (state_at_commit e base) (nil_table (resolve e into)) (nil_table (resolve e from))
       (mask_since e into base) (mask_since e from base)"

text \<open>The engine after a merged table is applied to a branch (whose record may have a new tail).\<close>

definition applied :: "engine \<Rightarrow> string \<Rightarrow> branch \<Rightarrow> table \<Rightarrow> table \<Rightarrow> string list \<Rightarrow> engine" where
  "applied e b bb current result ps =
     advanced e b bb (foldl write_version (e_rows e) (apply_writes e b bb current result)) (e_sessions e) ps"

lemma engine_merge_cases:
  assumes "merge e from into = Inr (e', mr)"
  obtains fb tb where "fmlookup (e_branches e) from = Some fb" "fmlookup (e_branches e) into = Some tb"
    and "merge_base e (b_head_commit tb) (b_head_commit fb) = [mr_base mr]"
    and "mr_result mr = fst (merged e (mr_base mr) into from)"
    and "mr_conflicts mr = snd (merged e (mr_base mr) into from)"
    and "mr_clean mr \<longleftrightarrow> mr_conflicts mr = []"
    and "if mr_clean mr
         then e' = applied e into tb (nil_table (resolve e into)) (mr_result mr) [b_head_commit tb, b_head_commit fb]
              \<and> mr_commit mr = commit_id (e_next_id e + 1)
         else e' = e \<and> mr_commit mr = []"
proof -
  obtain fb where fb: "fmlookup (e_branches e) from = Some fb"
    using assms by (auto simp: merge_def split: option.splits)
  obtain tb where tb: "fmlookup (e_branches e) into = Some tb"
    using assms fb by (auto simp: merge_def split: option.splits)
  let ?bs = "merge_base e (b_head_commit tb) (b_head_commit fb)"
  have len: "length ?bs = 1"
    using assms fb tb by (auto simp: merge_def Let_def split: if_splits)
  then obtain base where base: "?bs = [base]" by (cases ?bs) auto
  obtain res cf where m: "merged e base into from = (res, cf)" by fastforce
  have "if cf = [] then e' = applied e into tb (nil_table (resolve e into)) res [b_head_commit tb, b_head_commit fb]
            \<and> mr = \<lparr>mr_base = base, mr_result = res, mr_conflicts = cf, mr_clean = True,
                    mr_commit = commit_id (e_next_id e + 1)\<rparr>
        else e' = e \<and> mr = \<lparr>mr_base = base, mr_result = res, mr_conflicts = cf, mr_clean = False, mr_commit = []\<rparr>"
    using assms m
    by (auto simp: merge_def fb tb base Let_def merged_def [symmetric] apply_merge_result_eq [OF tb] applied_def
        split: if_splits)
  then show thesis
    using that [OF fb tb] base m by (auto split: if_splits)
qed

lemma engine_merge_base_commit:
  assumes "engine_inv e" "fmlookup (e_branches e) x = Some xb" "fmlookup (e_branches e) y = Some yb"
    and "base \<in> set (merge_base e (b_head_commit xb) (b_head_commit yb))"
  shows "base \<in> fmdom' (e_commits e)"
proof -
  have "reaches (engine_graph e) (b_head_commit xb) base"
    using assms(4) by (simp add: merge_base_def engine_merge_base_def bfs.set_bases best_common_def)
  moreover have "b_head_commit xb \<in> fmdom' (e_commits e)" by (rule head_in_commits [OF assms(1,2)])
  ultimately show ?thesis
  proof (induction rule: reaches.induct)
    case (reaches_step c d p)
    then obtain cm where cm: "fmlookup (e_commits e) d = Some cm" by (auto simp: fmlookup_dom'_iff)
    have comm: "inv_commits e" using assms(1) by (simp add: engine_inv_def)
    have "p \<in> set (cm_parents cm)" using reaches_step(2) cm by (simp add: parents_of_def engine_graph_def)
    moreover obtain i where "d = commit_id i" "i \<le> e_next_id e"
      using comm cm fmdom'I [OF cm] by (auto simp: inv_commits_def)
    ultimately show ?case using comm cm by (fastforce simp: inv_commits_def)
  qed simp
qed

lemma engine_inv_applied:
  assumes inv: "engine_inv e" "has_room e" and tb: "fmlookup (e_branches e) b = Some tb"
    and ps: "ps \<noteq> []" "set ps \<subseteq> fmdom' (e_commits e)"
  shows "engine_inv (applied e b tb (nil_table (resolve e b)) result ps)"
  unfolding applied_def
  by (rule engine_inv_advanced [OF inv moves_same_tail [OF inv(1) tb]])
    (use apply_writes_on apply_writes_commit ps in
      \<open>auto intro!: apply_writes_cover simp: fmlookup_resolve [OF tb]\<close>)

lemma engine_inv_merge [inv_intros]:
  assumes "engine_inv e" "has_room e" "merge e from into = Inr (e', mr)"
  shows "engine_inv e'"
  using assms(3)
proof (rule engine_merge_cases)
  fix fb tb
  assume fb: "fmlookup (e_branches e) from = Some fb" and tb: "fmlookup (e_branches e) into = Some tb"
    and e': "if mr_clean mr
         then e' = applied e into tb (nil_table (resolve e into)) (mr_result mr) [b_head_commit tb, b_head_commit fb]
              \<and> mr_commit mr = commit_id (e_next_id e + 1)
         else e' = e \<and> mr_commit mr = []"
  have "engine_inv (applied e into tb (nil_table (resolve e into)) (mr_result mr) [b_head_commit tb, b_head_commit fb])"
    by (rule engine_inv_applied [OF assms(1,2) tb])
      (use head_in_commits [OF assms(1)] fb tb in auto)
  with e' assms(1) show ?thesis by (auto split: if_splits)
qed

lemma applied_row:
  assumes inv: "engine_inv e" "has_room e"
    and mv: "moves e b b0 bb (foldl write_version (e_rows e) (apply_writes e b bb current result))
       (\<lambda>p. find (\<lambda>n. v_pk n = p) (apply_writes e b bb current result))"
    and cur: "\<And>p. fmlookup current p = branch_row e b bb p"
  shows "row_like (fmlookup (nil_table (resolve (applied e b bb current result ps) b)) p) (fmlookup result p)"
proof -
  let ?ns = "apply_writes e b bb current result"
  have i: "inv_rows e" "inv_branches e" using inv(1) by (simp_all add: engine_inv_def)
  have "fmlookup (e_branches (applied e b bb current result ps)) b
      = Some (bb\<lparr>b_head_seq := b_head_seq bb + 1, b_head_commit := commit_id (e_next_id e + 1)\<rparr>)"
    by (simp add: applied_def advanced_branches)
  from fmlookup_resolve [OF this] have "fmlookup (nil_table (resolve (applied e b bb current result ps) b)) p
      = chain_row (hist (foldl write_version (e_rows e) ?ns)) (seg b (b_head_seq bb + 1) # b_chain bb) p"
    by (simp add: applied_def branch_row_def head_chain_def del: chain_row.simps)
  also have "\<dots> = (case find (\<lambda>n. v_pk n = p) ?ns of Some n \<Rightarrow> live n | None \<Rightarrow> branch_row e b bb p)"
    by (rule head_row_advanced [OF mv i inv(2)])
  finally show ?thesis using apply_writes_row [of current e b bb p result] cur by simp
qed

subsection \<open>UpdateFromParent\<close>

text \<open>The branch's record with the fork point advanced to the parent's head.\<close>

definition refork :: "branch \<Rightarrow> branch \<Rightarrow> branch" where
  "refork bb pp = bb\<lparr>b_fork_seq := b_head_seq pp, b_fork_commit := b_head_commit pp,
     b_chain := head_chain (b_parent bb) pp\<rparr>"

definition parent_view :: "engine \<Rightarrow> string \<Rightarrow> branch \<Rightarrow> table" where
  "parent_view e b bb = resolve_chain (e_rows e) (head_chain b bb) []"

lemma fmlookup_parent_view [simp]: "fmlookup (parent_view e b bb) p = branch_row e b bb p"
  by (simp add: parent_view_def fmlookup_resolve_chain branch_row_def e_hist_def)

lemma apply_merge_refork:
  assumes "fmlookup (e_branches e) b = Some bb"
  shows "apply_merge_result (e\<lparr>e_branches := fmupd b (refork bb pp) (e_branches e)\<rparr>) b result ps = Inr
    (applied e b (refork bb pp) (parent_view e b (refork bb pp)) result ps, commit_id (e_next_id e + 1))"
proof -
  let ?e1 = "e\<lparr>e_branches := fmupd b (refork bb pp) (e_branches e)\<rparr>"
  have l: "fmlookup (e_branches ?e1) b = Some (refork bb pp)" by simp
  have "nil_table (resolve ?e1 b) = parent_view e b (refork bb pp)"
    by (simp add: resolve_def nil_table_def parent_view_def chain_for_def head_chain_def)
  then show ?thesis
    unfolding apply_merge_result_eq [OF l] by (simp add: applied_def advanced_def apply_writes_def)
qed

lemma update_from_parent_cases:
  assumes "update_from_parent e b = Inr (e', mr)"
  obtains bb pp where "fmlookup (e_branches e) b = Some bb" "b_parent bb \<noteq> []"
    and "fmlookup (e_branches e) (b_parent bb) = Some pp" "mr_base mr = b_fork_commit bb"
    and "mr_clean mr \<longleftrightarrow> mr_conflicts mr = []"
    and "if b_head_commit pp = b_fork_commit bb
         then e' = e \<and> mr_result mr = nil_table (resolve e b) \<and> mr_conflicts mr = [] \<and> mr_commit mr = []
         else mr_result mr = fst (merged e (b_fork_commit bb) b (b_parent bb)) \<and>
              mr_conflicts mr = snd (merged e (b_fork_commit bb) b (b_parent bb)) \<and>
              (if mr_clean mr
               then e' = applied e b (refork bb pp) (parent_view e b (refork bb pp)) (mr_result mr)
                      [b_head_commit bb, b_head_commit pp] \<and> mr_commit mr = commit_id (e_next_id e + 1)
               else e' = e \<and> mr_commit mr = [])"
proof -
  obtain bb where bb: "fmlookup (e_branches e) b = Some bb"
    using assms by (auto simp: update_from_parent_def split: option.splits)
  have ne: "b_parent bb \<noteq> []" using assms bb by (auto simp: update_from_parent_def split: if_splits)
  obtain pp where pp: "fmlookup (e_branches e) (b_parent bb) = Some pp"
    using assms bb ne by (auto simp: update_from_parent_def split: option.splits)
  obtain res cf where m: "merged e (b_fork_commit bb) b (b_parent bb) = (res, cf)" by fastforce
  have inh: "inherited_chain_from e (b_parent bb) = Some (head_chain (b_parent bb) pp)"
    by (simp add: inherited_chain_from_def pp head_chain_def)
  have rf: "bb\<lparr>b_fork_seq := b_head_seq pp, b_fork_commit := b_head_commit pp,
      b_chain := head_chain (b_parent bb) pp\<rparr> = refork bb pp" by (simp add: refork_def)
  have "if b_head_commit pp = b_fork_commit bb
        then e' = e \<and> mr = \<lparr>mr_base = b_fork_commit bb, mr_result = nil_table (resolve e b), mr_conflicts = [],
                            mr_clean = True, mr_commit = []\<rparr>
        else if cf = []
        then e' = applied e b (refork bb pp) (parent_view e b (refork bb pp)) res [b_head_commit bb, b_head_commit pp]
            \<and> mr = \<lparr>mr_base = b_fork_commit bb, mr_result = res, mr_conflicts = cf, mr_clean = True,
                    mr_commit = commit_id (e_next_id e + 1)\<rparr>
        else e' = e \<and> mr = \<lparr>mr_base = b_fork_commit bb, mr_result = res, mr_conflicts = cf, mr_clean = False,
                            mr_commit = []\<rparr>"
    using assms m
    by (auto simp: update_from_parent_def bb ne pp Let_def merged_def [symmetric] inh rf
        apply_merge_refork [OF bb] split: if_splits)
  then show thesis
    using that [OF bb ne pp] m by (auto split: if_splits)
qed

lemma merged_at:
  assumes "fmlookup (e_branches e) x = Some xb" "fmlookup (e_branches e) y = Some yb"
  shows "fmlookup (fst (merged e base x y)) p
      = fst (merge_case (masked_cells (sc_cols (e_schema e)) (mask_since e x base) (mask_since e y base)) p
          (commit_row e base p) (branch_row e x xb p) (branch_row e y yb p))"
    and "snd (merged e base x y) = [] \<longleftrightarrow> (\<forall>p. snd (merge_case
          (masked_cells (sc_cols (e_schema e)) (mask_since e x base) (mask_since e y base)) p
          (commit_row e base p) (branch_row e x xb p) (branch_row e y yb p)) = [])"
  by (simp_all add: merged_def merge_states_def merge_with_clean fm_simps fmlookup_resolve [OF assms(1)]
      fmlookup_resolve [OF assms(2)])

lemma not_root_parent:
  assumes "engine_inv e" "fmlookup (e_branches e) b = Some bb" "b_parent bb \<noteq> []"
  shows "b \<noteq> root_branch"
  using engine_inv_branch [OF assms(1,2)] assms(3) by (auto simp: inv_branch_def)

lemma moves_update:
  assumes inv: "engine_inv e" and bb: "fmlookup (e_branches e) b = Some bb" "b_parent bb \<noteq> []"
    and pp: "fmlookup (e_branches e) (b_parent bb) = Some pp"
    and clean: "snd (merged e (b_fork_commit bb) b (b_parent bb)) = []"
  shows "moves e b bb (refork bb pp)
      (foldl write_version (e_rows e) (apply_writes e b (refork bb pp) (parent_view e b (refork bb pp))
         (fst (merged e (b_fork_commit bb) b (b_parent bb)))))
      (\<lambda>p. find (\<lambda>n. v_pk n = p) (apply_writes e b (refork bb pp) (parent_view e b (refork bb pp))
         (fst (merged e (b_fork_commit bb) b (b_parent bb)))))"
proof (rule moves_writes [OF inv bb(1)])
  let ?rb = "refork bb pp" and ?res = "fst (merged e (b_fork_commit bb) b (b_parent bb))"
  have root: "b \<noteq> root_branch" by (rule not_root_parent [OF inv bb])
  note tb = branch_tail [OF inv bb(1)]
  have hp: "chain_in e (head_chain (b_parent bb) pp)" by (rule head_chain_in [OF inv pp])
  have par: "par_of e b = b_parent bb" by (simp add: par_of_def bb(1))
  have ch: "b_chain ?rb = head_chain (b_parent bb) pp" by (simp add: refork_def)
  show "b_parent ?rb = b_parent bb" "b_head_seq ?rb = b_head_seq bb" by (simp_all add: refork_def)
  show "tree_path (par_of e) (names (head_chain b ?rb))"
    using hp root par by (simp add: head_chain_def [of b] ch chain_in_def) (simp add: head_chain_def)
  show "tail_in e (b_chain ?rb)" unfolding ch using hp by (simp add: chain_in_def)
  show "b_fork_commit ?rb \<in> fmdom' (e_commits e) \<and>
      (\<forall>p. commit_row e (b_fork_commit ?rb) p = chain_row (e_hist e) (b_chain ?rb) p)"
    using engine_inv_branch [OF inv pp] unfolding ch by (simp add: refork_def inv_branch_def branch_row_def)
  show "committed_on b (b_head_seq bb + 1) (apply_writes e b ?rb (parent_view e b ?rb) ?res)"
    using apply_writes_on [of b ?rb] by (simp add: refork_def)
  show "covers e b ?rb (apply_writes e b ?rb (parent_view e b ?rb) ?res)"
    by (rule apply_writes_cover) simp
  fix p c assume c: "c \<in> e_cols e"
    and eq: "cellv (branch_row e b bb p) c = cellv (chain_row (e_hist e) (b_chain bb) p) c"
  let ?mo = "mask_since e b (b_fork_commit bb)" and ?mt = "mask_since e (b_parent bb) (b_fork_commit bb)"
  have fork: "b_fork_commit bb \<in> fmdom' (e_commits e)"
    "commit_row e (b_fork_commit bb) p = chain_row (e_hist e) (b_chain bb) p"
    using tb(3) [OF root] by auto
  have t: "branch_row e (b_parent bb) pp p = chain_row (e_hist e) (b_chain ?rb) p"
    by (simp add: branch_row_def ch)
  have "cellv (fst (merge_case (masked_cells (sc_cols (e_schema e)) ?mo ?mt) p
          (commit_row e (b_fork_commit bb) p) (branch_row e b bb p) (branch_row e (b_parent bb) pp p))) c
      = cellv (branch_row e (b_parent bb) pp p) c"
  proof (rule merge_follows)
    show "snd (merge_case (masked_cells (sc_cols (e_schema e)) ?mo ?mt) p
          (commit_row e (b_fork_commit bb) p) (branch_row e b bb p) (branch_row e (b_parent bb) pp p)) = []"
      using clean merged_at(2) [OF bb(1) pp] by blast
    show "c \<in> set (sc_cols (e_schema e))" using c by (simp add: e_cols_def)
    show "cellv (branch_row e b bb p) c = cellv (commit_row e (b_fork_commit bb) p) c" using eq fork by simp
    assume "c \<notin> set (mask_candidates ?mo ?mt p)"
    then have "\<not> has_at ?mt p c" using candidates_since(1) [OF inv] by blast
    then show "cellv (branch_row e (b_parent bb) pp p) c = cellv (commit_row e (b_fork_commit bb) p) c"
      by (rule mask_since_sound_cell [OF inv pp fork(1) c])
  qed
  then have "cellv (fmlookup ?res p) c = cellv (chain_row (e_hist e) (b_chain ?rb) p) c"
    using merged_at(1) [OF bb(1) pp] t by simp
  then show "cellv (case find (\<lambda>n. v_pk n = p) (apply_writes e b ?rb (parent_view e b ?rb) ?res) of
      Some n \<Rightarrow> live n | None \<Rightarrow> branch_row e b ?rb p) c = cellv (chain_row (e_hist e) (b_chain ?rb) p) c"
    using row_like_cellv [OF apply_writes_row [of "parent_view e b ?rb" e b ?rb p ?res]] by simp
qed

lemma engine_inv_update [inv_intros]:
  assumes "engine_inv e" "has_room e" "update_from_parent e b = Inr (e', mr)"
  shows "engine_inv e'"
  using assms(3)
proof (rule update_from_parent_cases)
  fix bb pp
  assume bb: "fmlookup (e_branches e) b = Some bb" "b_parent bb \<noteq> []"
    and pp: "fmlookup (e_branches e) (b_parent bb) = Some pp"
    and clean: "mr_clean mr \<longleftrightarrow> mr_conflicts mr = []"
    and res: "if b_head_commit pp = b_fork_commit bb
         then e' = e \<and> mr_result mr = nil_table (resolve e b) \<and> mr_conflicts mr = [] \<and> mr_commit mr = []
         else mr_result mr = fst (merged e (b_fork_commit bb) b (b_parent bb)) \<and>
              mr_conflicts mr = snd (merged e (b_fork_commit bb) b (b_parent bb)) \<and>
              (if mr_clean mr
               then e' = applied e b (refork bb pp) (parent_view e b (refork bb pp)) (mr_result mr)
                      [b_head_commit bb, b_head_commit pp] \<and> mr_commit mr = commit_id (e_next_id e + 1)
               else e' = e \<and> mr_commit mr = [])"
  show ?thesis
  proof (cases "b_head_commit pp \<noteq> b_fork_commit bb \<and> mr_clean mr")
    case True
    then have "snd (merged e (b_fork_commit bb) b (b_parent bb)) = []" using res clean by simp
    note mv = moves_update [OF assms(1) bb pp this]
    have e': "e' = applied e b (refork bb pp) (parent_view e b (refork bb pp))
        (fst (merged e (b_fork_commit bb) b (b_parent bb))) [b_head_commit bb, b_head_commit pp]"
      using res True by simp
    show ?thesis
      unfolding e' applied_def
      by (rule engine_inv_advanced [OF assms(1,2) mv apply_writes_on apply_writes_commit])
        (use head_in_commits [OF assms(1)] bb pp in auto)
  next
    case False
    with res assms(1) show ?thesis by (auto split: if_splits)
  qed
qed

end
