(* ===== verification/EngineSession.thy ===== *)
theory EngineSession
  imports EngineMerge
begin

text \<open>
  \<^verbatim>\<open>New\<close>, \<^verbatim>\<open>CreateBranch\<close> and the sessions keep the engine's invariant. A session's writes touch its
  staged rows only; committing it stamps them, which is a commit of the staged versions.
\<close>

subsection \<open>Frames\<close>

lemma commit_row_cong:
  "e_hist e' = e_hist e \<Longrightarrow> fmlookup (e_commits e') c = fmlookup (e_commits e) c \<Longrightarrow>
   commit_row e' c p = commit_row e c p"
  by (simp add: commit_row_def commit_chain_def)

text \<open>Operations that leave the histories, the branches and the commits alone.\<close>

definition same_core :: "engine \<Rightarrow> engine \<Rightarrow> bool" where
  "same_core e e' \<longleftrightarrow>
     e_hist e' = e_hist e \<and> e_schema e' = e_schema e \<and> e_branches e' = e_branches e \<and>
     e_commits e' = e_commits e \<and> e_next_id e' = e_next_id e"

lemma same_core_rows:
  assumes "same_core e e'"
  shows "commit_row e' = commit_row e" "branch_row e' = branch_row e" "chain_in e' = chain_in e"
    "engine_head_seq e' = engine_head_seq e" "e_cols e' = e_cols e"
proof -
  have f: "e_hist e' = e_hist e" "e_schema e' = e_schema e" "e_branches e' = e_branches e"
    "e_commits e' = e_commits e"
    using assms by (simp_all add: same_core_def)
  show "commit_row e' = commit_row e" by (simp add: fun_eq_iff commit_row_def commit_chain_def f)
  show "branch_row e' = branch_row e" by (simp add: fun_eq_iff branch_row_def f)
  show h: "engine_head_seq e' = engine_head_seq e" by (simp add: fun_eq_iff engine_head_seq_def f)
  show c: "e_cols e' = e_cols e" by (simp add: e_cols_def f)
  have par: "par_of e' = par_of e" by (simp add: fun_eq_iff par_of_def f)
  show "chain_in e' = chain_in e" by (rule ext) (simp add: chain_in_def tail_in_def f h c par)
qed

lemma same_core_inv:
  assumes "same_core e e'" "engine_inv e"
    and "\<forall>v \<in> set (e_rows e'). mask_ok (v_changed v) \<and> (\<forall>c. mask_has (v_changed v) c \<longrightarrow> c \<in> e_cols e)"
    and "inv_sessions e'" "inv_staged e'"
  shows "engine_inv e'"
proof -
  note eqs = same_core_rows [OF assms(1)]
  have f: "e_hist e' = e_hist e" "e_branches e' = e_branches e" "e_commits e' = e_commits e"
    "e_next_id e' = e_next_id e" using assms(1) by (simp_all add: same_core_def)
  have i: "inv_rows e" "inv_branches e" "inv_commits e" "int (e_next_id e) \<le> max_seq"
    using assms(2) by (simp_all add: engine_inv_def)
  have "inv_rows e'" using i(1) assms(3) unfolding inv_rows_def eqs f by blast
  moreover have "inv_branches e'"
    using i(2) unfolding inv_branches_def inv_branch_def eqs f .
  moreover have "inv_commits e'" using i(3) unfolding inv_commits_def eqs f .
  ultimately show ?thesis using assms(4,5) i(4) f(4) by (simp add: engine_inv_def)
qed

subsection \<open>New\<close>

lemma new_engine_simps:
  "e_rows (new_engine sc) = []" "e_schema (new_engine sc) = sc" "e_sessions (new_engine sc) = fmempty"
  "e_next_id (new_engine sc) = 1" "e_next_sess (new_engine sc) = 0"
  "e_branches (new_engine sc) = fmupd root_branch
     \<lparr>b_name = root_branch, b_head_seq = 0, b_head_commit = commit_id 1, b_parent = [],
      b_fork_seq = 0, b_fork_commit = [], b_chain = []\<rparr> fmempty"
  "e_commits (new_engine sc) = fmupd (commit_id 1)
     \<lparr>cm_id = commit_id 1, cm_parents = [], cm_branch = root_branch, cm_seq = 0,
      cm_chain = [seg root_branch 0]\<rparr> fmempty"
  by (simp_all add: new_engine_def new_commit_id_def Let_def)

lemma engine_inv_new [inv_intros]: "engine_inv (new_engine sc)"
proof -
  let ?e = "new_engine sc"
  have h: "e_hist ?e = (\<lambda>b p. [])" by (simp add: e_hist_def new_engine_simps fun_eq_iff)
  have hs: "engine_head_seq ?e = (\<lambda>b. 0)"
    by (auto simp: engine_head_seq_def new_engine_simps fun_eq_iff split: option.splits)
  have ch: "chain_in ?e [seg root_branch 0]"
    by (simp add: chain_in_def tail_in_def new_engine_simps h hs seg_row_def hist_at_empty)
  have "inv_rows ?e"
    by (simp add: inv_rows_def hists_at_def hist_at_def mask_hists_def h new_engine_simps)
  moreover have "inv_branches ?e"
    using ch by (auto simp: inv_branches_def inv_branch_def new_engine_simps(4-7) head_chain_def
        commit_row_def commit_chain_def branch_row_def h seg_row_def hist_at_empty split: if_splits)
  moreover have "inv_commits ?e"
    using ch by (auto simp: inv_commits_def new_engine_simps(4-7) split: if_splits)
  moreover have "inv_sessions ?e" by (simp add: inv_sessions_def new_engine_simps)
  moreover have "inv_staged ?e" by (simp add: inv_staged_def new_engine_simps open_at_def)
  moreover have "int (e_next_id ?e) \<le> max_seq" by (simp add: new_engine_simps max_seq_def max_int64_def)
  ultimately show ?thesis by (simp add: engine_inv_def)
qed

subsection \<open>CreateBranch\<close>

definition forked :: "string \<Rightarrow> string \<Rightarrow> branch \<Rightarrow> branch" where
  "forked name from p =
     \<lparr>b_name = name, b_head_seq = 0, b_head_commit = b_head_commit p, b_parent = from,
      b_fork_seq = b_head_seq p, b_fork_commit = b_head_commit p, b_chain = head_chain from p\<rparr>"

lemma create_branch_cases:
  assumes "create_branch e name from = Inr e'"
  obtains p where "fmlookup (e_branches e) name = None" "fmlookup (e_branches e) from = Some p"
    "e' = e\<lparr>e_branches := fmupd name (forked name from p) (e_branches e)\<rparr>"
  using assms
  by (auto simp: create_branch_def inherited_chain_from_def forked_def head_chain_def
      split: if_splits option.splits)

lemma no_versions_off_branch:
  assumes "engine_inv e" "fmlookup (e_branches e) name = None"
  shows "e_hist e name p = []"
proof (cases "e_hist e name p")
  case (Cons v vs)
  have "hist_at (engine_head_seq e name) (e_hist e name p)"
    using assms(1) by (simp add: engine_inv_def inv_rows_def hists_at_def)
  moreover have "engine_head_seq e name = 0" using assms(2) by (simp add: engine_head_seq_def)
  ultimately show ?thesis using Cons by (auto simp: hist_at_def)
qed simp

lemma engine_inv_create_branch [inv_intros]:
  assumes "engine_inv e" "create_branch e name from = Inr e'"
  shows "engine_inv e'"
  using assms(2)
proof (rule create_branch_cases)
  fix p
  assume new: "fmlookup (e_branches e) name = None" and p: "fmlookup (e_branches e) from = Some p"
    and e': "e' = e\<lparr>e_branches := fmupd name (forked name from p) (e_branches e)\<rparr>"
  have i: "inv_rows e" "inv_branches e" "inv_commits e" "inv_sessions e" "inv_staged e"
    "int (e_next_id e) \<le> max_seq"
    using assms(1) by (simp_all add: engine_inv_def)
  have f: "e_hist e' = e_hist e" "e_schema e' = e_schema e" "e_cols e' = e_cols e" "e_commits e' = e_commits e"
    by (simp_all add: e' e_hist_def e_cols_def)
  have heads: "engine_head_seq e' = engine_head_seq e"
    using new by (auto simp: e' engine_head_seq_def fun_eq_iff forked_def)
  have dom: "fmdom' (e_branches e') = insert name (fmdom' (e_branches e))" by (simp add: e')
  have nd: "name \<notin> fmdom' (e_branches e)" using new by (simp add: fmlookup_None_dom)
  have par: "par_of e' x = par_of e x" if "x \<in> fmdom' (e_branches e)" for x
    using that nd by (auto simp: par_of_def e')
  have ch: "chain_in e' C" if "chain_in e C" for C
    by (rule chain_in_cong [OF f(1,2) _ _ that]) (use dom heads par in auto)
  have cr: "commit_row e' = commit_row e"
    by (simp add: fun_eq_iff commit_row_def commit_chain_def f)
  have ip: "inv_branch e from p" by (rule engine_inv_branch [OF assms(1) p])
  have nr: "name \<noteq> root_branch" using i(2) nd by (auto simp: inv_branches_def)
  have nh: "e_hist e name q = []" for q by (rule no_versions_off_branch [OF assms(1) new])
  have hp: "chain_in e' (head_chain from p)" using ch ip by (simp add: inv_branch_def)
  have hc: "head_chain name (forked name from p) = seg name 0 # head_chain from p"
    by (simp add: head_chain_def [of name] forked_def)
  have parn: "par_of e' name = from" by (simp add: par_of_def e' forked_def)
  have new_row: "branch_row e' name (forked name from p) q = branch_row e from p q" for q
    unfolding branch_row_def hc f by (simp add: nh seg_row_def hist_at_empty)
  have "chain_in e' (seg name 0 # head_chain from p)"
    using hp nr parn dom
    by (simp add: chain_in_def tail_in_def heads f nh seg_row_def hist_at_empty
        engine_head_seq_def new head_chain_def [of "from"])
  then have "inv_branch e' name (forked name from p)"
    using ip nr new_row i(2)
    by (simp add: inv_branch_def hc cr f) (simp add: forked_def e' branch_row_def)
  moreover have "inv_branch e' b bb" if "fmlookup (e_branches e) b = Some bb" for b bb
    using engine_inv_branch [OF assms(1) that] ch
    by (simp add: inv_branch_def cr f branch_row_def) (simp add: e')
  ultimately have "inv_branches e'"
    using i(2) by (auto simp: inv_branches_def dom) (auto simp: e' split: if_splits)
  moreover have "inv_rows e'" using i(1) by (simp add: inv_rows_def heads f) (simp add: e')
  moreover have "inv_commits e'"
    using i(3) ch by (auto simp: inv_commits_def f) (auto simp: e')
  moreover have "inv_sessions e'" using i(4) by (fastforce simp: inv_sessions_def f dom e')
  moreover have "inv_staged e'"
  proof -
    have o': "open_at e' = open_at e" by (simp add: open_at_def e' fun_eq_iff)
    have "s_branch s \<noteq> name" if "open_at e sid s" for sid s
      using that i(4) nd by (auto simp: open_at_def inv_sessions_def)
    then have "open_at e sid s \<Longrightarrow> fmlookup (e_branches e') (s_branch s) = fmlookup (e_branches e) (s_branch s)"
      for sid s by (auto simp: e')
    moreover have "e_rows e' = e_rows e" by (simp add: e')
    ultimately show ?thesis using i(5) unfolding inv_staged_def o' f cr by auto
  qed
  ultimately show ?thesis using i(6) by (simp add: engine_inv_def) (simp add: e')
qed

subsection \<open>OpenSession and AbandonSession\<close>

lemma open_session_cases:
  assumes "open_session e b = Inr (e', sid)"
  obtains bb where "fmlookup (e_branches e) b = Some bb" "b \<noteq> root_branch" "sid = session_id (e_next_sess e + 1)"
    "e' = e\<lparr>e_next_sess := e_next_sess e + 1,
            e_sessions := fmupd sid \<lparr>s_id = sid, s_branch = b, s_base = b_head_commit bb,
              s_base_seq = b_head_seq bb, s_open = True\<rparr> (e_sessions e)\<rparr>"
  using assms by (auto simp: open_session_def Let_def split: option.splits if_splits)

lemma session_fresh:
  assumes "engine_inv e"
  shows "fmlookup (e_sessions e) (session_id (e_next_sess e + 1)) = None"
proof (rule ccontr)
  assume "fmlookup (e_sessions e) (session_id (e_next_sess e + 1)) \<noteq> None"
  then obtain s where "fmlookup (e_sessions e) (session_id (e_next_sess e + 1)) = Some s" by blast
  moreover have "inv_sessions e" using assms by (simp add: engine_inv_def)
  ultimately obtain k where "k \<le> e_next_sess e" "session_id (e_next_sess e + 1) = session_id k"
    unfolding inv_sessions_def by blast
  then show False by simp
qed

lemma staged_session:
  assumes "inv_staged e" "v \<in> set (staged (e_rows e) sid p)" "sid \<noteq> []"
  obtains s where "open_at e sid s" "v_branch v = s_branch s" "v_commit v = []" "v \<in> set (e_rows e)"
    "v_session v = sid" "v_pk v = p"
proof -
  have v: "v \<in> set (e_rows e)" "v_session v = sid" "v_pk v = p" using assms(2) by (auto simp: staged_def)
  then have "\<exists>s. open_at e (v_session v) s \<and> v_branch v = s_branch s \<and> v_commit v = []"
    using assms(1,3) unfolding inv_staged_def by (metis (full_types))
  with v that show thesis by blast
qed

lemma ses_rows_no_staged:
  assumes "staged rows sid p = []"
  shows "ses_rows rows b sid p = hist rows b p"
proof -
  have "\<not> (v_session v = sid \<and> v_pk v = p)" if "v \<in> set rows" for v
    using assms that by (auto simp: staged_def filter_empty_conv)
  then show ?thesis unfolding ses_rows_def hist_def by (intro filter_cong) auto
qed

lemma engine_inv_open_session [inv_intros]:
  assumes "engine_inv e" "open_session e b = Inr (e', sid)"
  shows "engine_inv e'"
  using assms(2)
proof (rule open_session_cases)
  fix bb :: branch
  let ?s = "\<lparr>s_id = sid, s_branch = b, s_base = b_head_commit bb, s_base_seq = b_head_seq bb, s_open = True\<rparr>"
  assume bb: "fmlookup (e_branches e) b = Some bb" and nr: "b \<noteq> root_branch"
    and sid: "sid = session_id (e_next_sess e + 1)"
    and e': "e' = e\<lparr>e_next_sess := e_next_sess e + 1, e_sessions := fmupd sid ?s (e_sessions e)\<rparr>"
  have i: "inv_sessions e" "inv_staged e" "inv_rows e" using assms(1) by (simp_all add: engine_inv_def)
  have core: "same_core e e'" by (simp add: same_core_def e' e_hist_def)
  note eqs = same_core_rows [OF core]
  have fresh: "fmlookup (e_sessions e) sid = None" using session_fresh [OF assms(1)] sid by simp
  have o': "open_at e' x s \<longleftrightarrow> (if x = sid then s = ?s else open_at e x s)" for x s
    by (auto simp: open_at_def e')
  have none: "staged (e_rows e) sid p = []" for p
  proof (cases "staged (e_rows e) sid p")
    case (Cons v vs)
    then have "v \<in> set (staged (e_rows e) sid p)" by simp
    then obtain s where "open_at e sid s" by (rule staged_session [OF i(2)]) (use sid in simp)
    with fresh show ?thesis by (simp add: open_at_def)
  qed simp
  have ss: "inv_sessions e'"
    unfolding inv_sessions_def
  proof (intro allI impI)
    fix x s assume "fmlookup (e_sessions e') x = Some s"
    then show "(\<exists>k. 1 \<le> k \<and> k \<le> e_next_sess e' \<and> x = session_id k) \<and>
        (s_open s \<longrightarrow> s_branch s \<in> fmdom' (e_branches e') \<and> s_branch s \<noteq> root_branch \<and>
           s_base s \<in> fmdom' (e_commits e'))"
    proof (cases "x = sid")
      case True
      then have "s = ?s" using \<open>fmlookup (e_sessions e') x = Some s\<close> by (simp add: e')
      then show ?thesis
        using True sid nr head_in_commits [OF assms(1) bb] fmdom'I [OF bb] by (auto simp: e')
    next
      case False
      then have "fmlookup (e_sessions e) x = Some s" using \<open>fmlookup (e_sessions e') x = Some s\<close> by (simp add: e')
      with i(1) show ?thesis unfolding inv_sessions_def by (simp add: e') (meson le_SucI)
    qed
  qed
  have rows: "e_rows e' = e_rows e" "e_commits e' = e_commits e" "e_branches e' = e_branches e"
    by (simp_all add: e')
  have st: "inv_staged e'"
    unfolding inv_staged_def rows eqs
  proof (intro conjI allI impI ballI)
    fix v assume v: "v \<in> set (e_rows e)"
    have "v_session v \<noteq> sid"
    proof
      assume "v_session v = sid"
      then have "v \<in> set (staged (e_rows e) sid (v_pk v))" using v by (simp add: staged_def)
      with none show False by simp
    qed
    then show "if v_session v = [] then v_commit v \<in> fmdom' (e_commits e)
        else \<exists>s. open_at e' (v_session v) s \<and> v_branch v = s_branch s \<and> v_commit v = []"
      using i(2) v by (simp add: inv_staged_def o')
  next
    show "length (staged (e_rows e) x p) \<le> 1" if "x \<noteq> []" for x p
      using i(2) that by (simp add: inv_staged_def)
  next
    show "cellv (live v) c = cellv (commit_row e (s_base s) p) c"
      if "open_at e' x s" "v \<in> set (staged (e_rows e) x p)" "c \<in> e_cols e" "\<not> mask_has (v_changed v) c"
      for x s p v c
      using that i(2) none [of p] unfolding inv_staged_def o' by (auto split: if_splits)
  next
    show "ses_rows (e_rows e) (s_branch s) x p = hist (e_rows e) (s_branch s) p @ staged (e_rows e) x p"
      if "open_at e' x s" "fmlookup (e_branches e) (s_branch s) = Some bb'" "b_head_commit bb' = s_base s"
      for x s bb' p
    proof (cases "x = sid")
      case True
      then show ?thesis using none ses_rows_no_staged by simp
    next
      case False
      then show ?thesis using that i(2) by (simp add: inv_staged_def o')
    qed
  qed
  show ?thesis
    by (rule same_core_inv [OF core assms(1) _ ss st]) (use i(3) rows in \<open>simp add: inv_rows_def\<close>)
qed

lemma abandon_core:
  assumes "engine_inv e"
  shows "same_core e (abandon_session e sid)"
proof (cases "fmlookup (e_sessions e) sid")
  case (Some s0)
  have "inv_sessions e" using assms by (simp add: engine_inv_def)
  then obtain k where "sid = session_id k" using Some unfolding inv_sessions_def by blast
  then have ne: "sid \<noteq> []" by simp
  have "hist (filter (\<lambda>v. v_session v \<noteq> sid) (e_rows e)) b p = hist (e_rows e) b p" for b p
    unfolding hist_def filter_filter by (rule filter_cong) (use ne in auto)
  then show ?thesis by (simp add: same_core_def abandon_session_def Some e_hist_def fun_eq_iff)
qed (simp add: same_core_def abandon_session_def)

lemma engine_inv_abandon [inv_intros]:
  assumes "engine_inv e"
  shows "engine_inv (abandon_session e sid)"
proof (cases "fmlookup (e_sessions e) sid")
  case (Some s0)
  let ?e = "abandon_session e sid"
  have e': "?e = e\<lparr>e_rows := filter (\<lambda>v. v_session v \<noteq> sid) (e_rows e),
      e_sessions := fmupd sid (s0\<lparr>s_open := False\<rparr>) (e_sessions e)\<rparr>"
    by (simp add: abandon_session_def Some)
  have i: "inv_sessions e" "inv_staged e" "inv_rows e" using assms by (simp_all add: engine_inv_def)
  obtain k where "sid = session_id k" using i(1) Some unfolding inv_sessions_def by blast
  then have ne: "sid \<noteq> []" by simp
  have hist: "hist (filter (\<lambda>v. v_session v \<noteq> sid) (e_rows e)) b p = hist (e_rows e) b p" for b p
    unfolding hist_def filter_filter by (rule filter_cong) (use ne in auto)
  have core: "same_core e ?e" by (rule abandon_core [OF assms])
  note eqs = same_core_rows [OF core]
  have o': "open_at ?e x s \<longleftrightarrow> x \<noteq> sid \<and> open_at e x s" for x s
    by (auto simp: open_at_def e')
  have st: "staged (filter (\<lambda>v. v_session v \<noteq> sid) (e_rows e)) x p = (if x = sid then [] else staged (e_rows e) x p)"
    for x p unfolding staged_def filter_filter by (auto intro: filter_cong)
  have sr: "ses_rows (filter (\<lambda>v. v_session v \<noteq> sid) (e_rows e)) b x p = ses_rows (e_rows e) b x p"
    if "x \<noteq> sid" for b x p
    unfolding ses_rows_def filter_filter by (rule filter_cong) (use that ne in auto)
  have f: "e_commits ?e = e_commits e" "e_branches ?e = e_branches e"
    "e_rows ?e = filter (\<lambda>v. v_session v \<noteq> sid) (e_rows e)" by (simp_all add: e')
  have "inv_sessions ?e" using i(1) Some unfolding inv_sessions_def e' by simp
  moreover have "inv_staged ?e"
    using i(2) unfolding inv_staged_def o' eqs f hist st by (auto simp: sr split: if_splits)
  moreover have "\<forall>v \<in> set (e_rows ?e). mask_ok (v_changed v) \<and> (\<forall>c. mask_has (v_changed v) c \<longrightarrow> c \<in> e_cols e)"
    using i(3) by (auto simp: e' inv_rows_def)
  ultimately show ?thesis by (intro same_core_inv [OF core assms])
qed (simp add: abandon_session_def assms)

end
