(* ===== verification/EngineStaged.thy ===== *)
theory EngineStaged
  imports EngineSession
begin

text \<open>
  Writing to a session. A write replaces the staged version of its key, or appends one: the histories
  and the other sessions do not see it. The loop keeps, for the session, one staged version per key,
  masks that cover what the session changed against its base, and the view the code carries along.
\<close>

subsection \<open>One staged write\<close>

definition restage :: "op \<Rightarrow> row \<Rightarrow> colmask \<Rightarrow> version \<Rightarrow> version" where
  "restage op' r changed v = v\<lparr>v_op := op', v_row := r, v_changed := mask_or (v_changed v) changed\<rparr>"

lemma restage_simps [simp]:
  "v_branch (restage op' r m v) = v_branch v" "v_pk (restage op' r m v) = v_pk v"
  "v_session (restage op' r m v) = v_session v" "v_commit (restage op' r m v) = v_commit v"
  "v_from (restage op' r m v) = v_from v" "v_to (restage op' r m v) = v_to v"
  "v_op (restage op' r m v) = op'" "v_row (restage op' r m v) = r"
  "v_changed (restage op' r m v) = mask_or (v_changed v) m"
  by (simp_all add: restage_def)

definition put_staged :: "version list \<Rightarrow> version \<Rightarrow> version list" where
  "put_staged rows n =
     (case upsert_staged rows (v_session n) (v_pk n) (v_op n) (v_row n) (v_changed n) of
        Some rs \<Rightarrow> rs | None \<Rightarrow> rows @ [n])"

definition restage_at :: "version \<Rightarrow> version \<Rightarrow> version" where
  "restage_at n v =
     (if v_session v = v_session n \<and> v_pk v = v_pk n then restage (v_op n) (v_row n) (v_changed n) v else v)"

lemma restage_at_simps [simp]:
  "v_branch (restage_at n v) = v_branch v" "v_pk (restage_at n v) = v_pk v"
  "v_session (restage_at n v) = v_session v" "v_commit (restage_at n v) = v_commit v"
  by (simp_all add: restage_at_def)

lemma upsert_staged_map:
  "length (staged rows (v_session n) (v_pk n)) \<le> 1 \<Longrightarrow>
   upsert_staged rows (v_session n) (v_pk n) (v_op n) (v_row n) (v_changed n)
     = (if staged rows (v_session n) (v_pk n) = [] then None else Some (map (restage_at n) rows))"
proof (induction rows)
  case (Cons v rows)
  show ?case
  proof (cases "v_session v = v_session n \<and> v_pk v = v_pk n")
    case True
    then have "staged rows (v_session n) (v_pk n) = []" using Cons.prems by simp
    then have "\<forall>u \<in> set rows. \<not> (v_session u = v_session n \<and> v_pk u = v_pk n)"
      by (simp add: staged_def filter_empty_conv)
    then have "map (restage_at n) rows = rows" by (intro map_idI) (auto simp: restage_at_def)
    with True show ?thesis by (simp add: restage_at_def restage_def)
  next
    case False
    then show ?thesis using Cons by (auto simp: restage_at_def)
  qed
qed simp

lemma put_staged_eq:
  "length (staged rows (v_session n) (v_pk n)) \<le> 1 \<Longrightarrow>
   put_staged rows n = (if staged rows (v_session n) (v_pk n) = [] then rows @ [n] else map (restage_at n) rows)"
  by (simp add: put_staged_def upsert_staged_map)

text \<open>A filter that looks at branch, key and session only sees the write as a map or an append.\<close>

lemma filter_restage:
  assumes "\<And>v. P (restage_at n v) = P v"
  shows "filter P (map (restage_at n) rows) = map (restage_at n) (filter P rows)"
  using assms by (simp add: filter_map comp_def)

lemma filter_restage_other:
  assumes "\<And>v. P (restage_at n v) = P v" "\<And>v. P v \<Longrightarrow> \<not> (v_session v = v_session n \<and> v_pk v = v_pk n)"
  shows "filter P (map (restage_at n) rows) = filter P rows"
  unfolding filter_restage [where P = P, OF assms(1)] by (rule map_idI) (use assms(2) in \<open>auto simp: restage_at_def\<close>)

lemma put_staged_filter:
  assumes "length (staged rows (v_session n) (v_pk n)) \<le> 1"
    and "\<And>v. P (restage_at n v) = P v" "\<And>v. P v \<Longrightarrow> \<not> (v_session v = v_session n \<and> v_pk v = v_pk n)"
  shows "filter P (put_staged rows n) = filter P rows"
  using assms(3) [of n] by (auto simp: put_staged_eq [OF assms(1)] filter_restage_other [where P = P, OF assms(2,3)])

lemma hist_put:
  assumes "length (staged rows (v_session n) (v_pk n)) \<le> 1" "v_session n \<noteq> []"
  shows "hist (put_staged rows n) = hist rows"
  unfolding fun_eq_iff hist_def
  by (intro allI put_staged_filter [OF assms(1)]) (use assms(2) in auto)

lemma staged_put_other:
  assumes "length (staged rows (v_session n) (v_pk n)) \<le> 1" "x \<noteq> v_session n \<or> q \<noteq> v_pk n"
  shows "staged (put_staged rows n) x q = staged rows x q"
  unfolding staged_def by (rule put_staged_filter [OF assms(1)]) (use assms(2) in auto)

lemma staged_put_same:
  assumes "length (staged rows (v_session n) (v_pk n)) \<le> 1"
  shows "staged (put_staged rows n) (v_session n) (v_pk n)
    = (case staged rows (v_session n) (v_pk n) of [] \<Rightarrow> [n]
       | v # vs \<Rightarrow> [restage (v_op n) (v_row n) (v_changed n) v])"
proof (cases "staged rows (v_session n) (v_pk n)")
  case Nil
  then show ?thesis by (simp add: put_staged_eq)
next
  case (Cons v vs)
  have m: "staged (map (restage_at n) rows) (v_session n) (v_pk n)
      = map (restage_at n) (staged rows (v_session n) (v_pk n))"
    unfolding staged_def by (rule filter_restage) simp
  have "vs = []" using Cons assms by simp
  moreover have "v \<in> set (staged rows (v_session n) (v_pk n))" using Cons by simp
  then have "v_session v = v_session n" "v_pk v = v_pk n" by (auto simp: staged_def)
  ultimately show ?thesis using Cons m by (simp add: put_staged_eq [OF assms] restage_at_def)
qed

lemma ses_rows_put_other:
  assumes "length (staged rows (v_session n) (v_pk n)) \<le> 1" "v_session n \<noteq> []" "x \<noteq> v_session n \<or> q \<noteq> v_pk n"
  shows "ses_rows (put_staged rows n) b x q = ses_rows rows b x q"
  unfolding ses_rows_def by (rule put_staged_filter [OF assms(1)]) (use assms(2,3) in auto)

lemma ses_rows_put_same:
  assumes "length (staged rows (v_session n) (v_pk n)) \<le> 1" "v_session n \<noteq> []" "v_branch n = b"
    and "ses_rows rows b (v_session n) (v_pk n) = hist rows b (v_pk n) @ staged rows (v_session n) (v_pk n)"
  shows "ses_rows (put_staged rows n) b (v_session n) (v_pk n)
    = hist (put_staged rows n) b (v_pk n) @ staged (put_staged rows n) (v_session n) (v_pk n)"
proof (cases "staged rows (v_session n) (v_pk n) = []")
  case True
  then show ?thesis
    using assms by (simp add: put_staged_eq ses_rows_def)
next
  case False
  have s: "staged (map (restage_at n) rows) (v_session n) (v_pk n)
      = map (restage_at n) (staged rows (v_session n) (v_pk n))"
    unfolding staged_def by (rule filter_restage) simp
  have h: "hist (map (restage_at n) rows) b (v_pk n) = map (restage_at n) (hist rows b (v_pk n))"
    unfolding hist_def by (rule filter_restage) simp
  have "ses_rows (map (restage_at n) rows) b (v_session n) (v_pk n)
      = map (restage_at n) (ses_rows rows b (v_session n) (v_pk n))"
    unfolding ses_rows_def by (rule filter_restage) simp
  then show ?thesis using False assms(4) by (simp add: put_staged_eq [OF assms(1)] s h)
qed

lemma put_staged_mem:
  assumes "length (staged rows (v_session n) (v_pk n)) \<le> 1" "v \<in> set (put_staged rows n)"
  shows "v = n \<or> v \<in> set rows \<or> (\<exists>u \<in> set rows. v_session u = v_session n \<and> v_pk u = v_pk n \<and>
    v = restage (v_op n) (v_row n) (v_changed n) u)"
  using assms by (auto simp: put_staged_eq restage_at_def split: if_splits)

subsection \<open>The write loop\<close>

text \<open>The version a change stages, given the view before it.\<close>

definition staged_version :: "schema \<Rightarrow> string \<Rightarrow> string \<Rightarrow> int \<Rightarrow> table \<Rightarrow> change \<Rightarrow> version option" where
  "staged_version sc sid b hs view ch =
     (let before = fmlookup view (ch_pk ch);
          mk = (\<lambda>op' r. \<lparr>v_branch = b, v_pk = ch_pk ch, v_from = hs + 1, v_to = max_seq, v_op = op', v_commit = [],
                        v_session = sid, v_changed = mask_of (opt_row before) r (sc_cols sc), v_row = r\<rparr>)
      in if ch_op ch = OpDelete then if before = None then None else Some (mk OpDelete None)
         else Some (mk (if before = None then OpInsert else OpUpdate) (ch_row ch)))"

definition view_put :: "table \<Rightarrow> version \<Rightarrow> table" where
  "view_put view n = (if v_op n = OpDelete then fmdrop (v_pk n) view else fmupd (v_pk n) (v_row n) view)"

lemma session_change_staged:
  "session_change sc sid b hs (rows, view) ch
    = (case staged_version sc sid b hs view ch of
         None \<Rightarrow> (rows, view) | Some n \<Rightarrow> (put_staged rows n, view_put view n))"
  by (auto simp: session_change_def staged_version_def Let_def put_staged_def view_put_def)

lemma staged_version_facts:
  assumes "staged_version sc sid b hs view ch = Some n"
  shows "v_branch n = b" "v_pk n = ch_pk ch" "v_session n = sid" "v_commit n = []" "live n = change_row ch"
    "v_changed n = mask_of (opt_row (fmlookup view (ch_pk ch))) (v_row n) (sc_cols sc)"
    "v_op n = OpDelete \<Longrightarrow> v_row n = None"
    "fmlookup (view_put view n) q = (if q = ch_pk ch then live n else fmlookup view q)"
  using assms
  by (auto simp: staged_version_def Let_def live_def change_row_def view_put_def split: if_splits)

lemma staged_version_none:
  "staged_version sc sid b hs view ch = None \<Longrightarrow> fmlookup view (ch_pk ch) = None \<and> change_row ch = None"
  by (auto simp: staged_version_def Let_def change_row_def split: if_splits)

definition staged_view :: "engine \<Rightarrow> session \<Rightarrow> version list \<Rightarrow> string \<Rightarrow> pk \<Rightarrow> row option" where
  "staged_view e s rows sid p =
     (case staged rows sid p of [] \<Rightarrow> commit_row e (s_base s) p | v # _ \<Rightarrow> live v)"

text \<open>What the loop keeps: \<open>st\<close> is the pair of the row list and the session's view.\<close>

definition writing :: "engine \<Rightarrow> string \<Rightarrow> session \<Rightarrow> version list \<times> table \<Rightarrow> bool" where
  "writing e sid s st \<longleftrightarrow>
     (let (rows, view) = st in
      hist rows = hist (e_rows e) \<and>
      (\<forall>x q. x \<noteq> sid \<longrightarrow> staged rows x q = staged (e_rows e) x q \<and>
         (\<forall>b. ses_rows rows b x q = ses_rows (e_rows e) b x q)) \<and>
      (\<forall>q. length (staged rows sid q) \<le> 1) \<and>
      (\<forall>q. fmlookup view q = staged_view e s rows sid q) \<and>
      (\<forall>q v c. v \<in> set (staged rows sid q) \<longrightarrow> c \<in> e_cols e \<longrightarrow> \<not> mask_has (v_changed v) c \<longrightarrow>
         cellv (live v) c = cellv (commit_row e (s_base s) q) c) \<and>
      (\<forall>bb q. fmlookup (e_branches e) (s_branch s) = Some bb \<longrightarrow> b_head_commit bb = s_base s \<longrightarrow>
         ses_rows rows (s_branch s) sid q = hist rows (s_branch s) q @ staged rows sid q) \<and>
      (\<forall>v \<in> set rows. if v_session v = [] then v_commit v \<in> fmdom' (e_commits e)
         else \<exists>s. open_at e (v_session v) s \<and> v_branch v = s_branch s \<and> v_commit v = []) \<and>
      (\<forall>v \<in> set rows. mask_ok (v_changed v) \<and> (\<forall>c. mask_has (v_changed v) c \<longrightarrow> c \<in> e_cols e)))"

lemma writing_put:
  assumes o: "open_at e sid s" "sid \<noteq> []" and w: "writing e sid s (rows, view)"
    and n: "staged_version (e_schema e) sid (s_branch s) hs view ch = Some n"
  shows "writing e sid s (put_staged rows n, view_put view n)"
proof -
  note nf = staged_version_facts [OF n]
  let ?p = "ch_pk ch"
  have one: "length (staged rows sid q) \<le> 1" for q using w by (simp add: writing_def)
  have one': "length (staged rows (v_session n) (v_pk n)) \<le> 1" "v_session n \<noteq> []"
    using one nf o by simp_all
  have hist: "hist (put_staged rows n) = hist rows" by (rule hist_put [OF one'])
  have other: "x \<noteq> sid \<or> q \<noteq> ?p \<Longrightarrow> staged (put_staged rows n) x q = staged rows x q"
    "x \<noteq> sid \<or> q \<noteq> ?p \<Longrightarrow> ses_rows (put_staged rows n) b x q = ses_rows rows b x q" for x q b
    using staged_put_other [OF one'(1)] ses_rows_put_other [OF one'] nf by simp_all
  have same: "staged (put_staged rows n) sid ?p
      = (case staged rows sid ?p of [] \<Rightarrow> [n] | v # vs \<Rightarrow> [restage (v_op n) (v_row n) (v_changed n) v])"
    using staged_put_same [OF one'(1)] nf by simp
  then obtain m where m: "staged (put_staged rows n) sid ?p = [m]" "live m = live n"
    "m = n \<and> staged rows sid ?p = [] \<or>
       (\<exists>v. staged rows sid ?p = [v] \<and> m = restage (v_op n) (v_row n) (v_changed n) v)"
    using one [of ?p] by (cases "staged rows sid ?p") (auto simp: live_def)
  have mask: "mask_ok (v_changed n)" "\<And>c. mask_has (v_changed n) c \<Longrightarrow> c \<in> e_cols e"
    "\<And>c. c \<in> e_cols e \<Longrightarrow> \<not> mask_has (v_changed n) c \<Longrightarrow> cellv (live n) c = cellv (staged_view e s rows sid ?p) c"
  proof -
    have v: "fmlookup view ?p = staged_view e s rows sid ?p" using w by (simp add: writing_def)
    have ln: "cellv (live n) c = cell_of (row_get (v_row n) c)" for c
      using nf(7) by (auto simp: cellv_def live_def opt_row_def)
    show "mask_ok (v_changed n)" "\<And>c. mask_has (v_changed n) c \<Longrightarrow> c \<in> e_cols e"
      "\<And>c. c \<in> e_cols e \<Longrightarrow> \<not> mask_has (v_changed n) c \<Longrightarrow> cellv (live n) c = cellv (staged_view e s rows sid ?p) c"
      unfolding nf(6) v ln e_cols_def cellv_def [of "staged_view e s rows sid ?p"] using mask_of_covers by blast+
  qed
  have cover: "cellv (live v) c = cellv (commit_row e (s_base s) q) c"
    if "v \<in> set (staged (put_staged rows n) sid q)" "c \<in> e_cols e" "\<not> mask_has (v_changed v) c" for q v c
  proof (cases "q = ?p")
    case True
    then have vm: "v = m" using that(1) m(1) by simp
    from m(3) show ?thesis
    proof
      assume "m = n \<and> staged rows sid ?p = []"
      then show ?thesis using mask(3) [of c] that vm True by (simp add: staged_view_def)
    next
      assume "\<exists>v. staged rows sid ?p = [v] \<and> m = restage (v_op n) (v_row n) (v_changed n) v"
      then obtain u where u: "staged rows sid ?p = [u]" "m = restage (v_op n) (v_row n) (v_changed n) u" by blast
      have "\<not> mask_has (v_changed u) c" "\<not> mask_has (v_changed n) c"
        using that(3) vm u(2) by (simp_all add: mask_has_or)
      moreover from this(1) have "cellv (live u) c = cellv (commit_row e (s_base s) ?p) c"
        using w that(2) u(1) by (simp add: writing_def)
      ultimately show ?thesis
        using mask(3) [OF that(2)] u(1) m(2) vm True by (simp add: staged_view_def)
    qed
  next
    case False
    then show ?thesis using w that other(1) by (auto simp: writing_def)
  qed
  have mem: "v = n \<or> v \<in> set rows \<or> (\<exists>u \<in> set rows. v_session u = sid \<and> v_pk u = ?p \<and>
      v = restage (v_op n) (v_row n) (v_changed n) u)" if "v \<in> set (put_staged rows n)" for v
    using put_staged_mem [OF one'(1) that] nf by simp
  show ?thesis
    unfolding writing_def Let_def prod.case
  proof (intro conjI)
    show "hist (put_staged rows n) = hist (e_rows e)" using w hist by (simp add: writing_def)
    show "\<forall>x q. x \<noteq> sid \<longrightarrow> staged (put_staged rows n) x q = staged (e_rows e) x q \<and>
         (\<forall>b. ses_rows (put_staged rows n) b x q = ses_rows (e_rows e) b x q)"
      using w other by (simp add: writing_def)
    show "\<forall>q. length (staged (put_staged rows n) sid q) \<le> 1"
    proof
      show "length (staged (put_staged rows n) sid q) \<le> 1" for q
        using m(1) other(1) [of sid q] one [of q] by (cases "q = ?p") simp_all
    qed
    show "\<forall>q. fmlookup (view_put view n) q = staged_view e s (put_staged rows n) sid q"
    proof
      show "fmlookup (view_put view n) q = staged_view e s (put_staged rows n) sid q" for q
        using w m(1,2) other(1) [of sid q] nf(8) [of q]
        by (cases "q = ?p") (simp_all add: staged_view_def writing_def)
    qed
    show "\<forall>q v c. v \<in> set (staged (put_staged rows n) sid q) \<longrightarrow> c \<in> e_cols e \<longrightarrow> \<not> mask_has (v_changed v) c \<longrightarrow>
         cellv (live v) c = cellv (commit_row e (s_base s) q) c" using cover by blast
    show "\<forall>bb q. fmlookup (e_branches e) (s_branch s) = Some bb \<longrightarrow> b_head_commit bb = s_base s \<longrightarrow>
         ses_rows (put_staged rows n) (s_branch s) sid q
           = hist (put_staged rows n) (s_branch s) q @ staged (put_staged rows n) sid q"
    proof (intro allI impI)
      fix bb :: branch and q
      assume b: "fmlookup (e_branches e) (s_branch s) = Some bb" "b_head_commit bb = s_base s"
      have eq: "ses_rows rows (s_branch s) sid q = hist rows (s_branch s) q @ staged rows sid q"
        using w b by (simp add: writing_def)
      show "ses_rows (put_staged rows n) (s_branch s) sid q
           = hist (put_staged rows n) (s_branch s) q @ staged (put_staged rows n) sid q"
        using ses_rows_put_same [OF one' nf(1)] eq other hist nf(2,3) by (cases "q = ?p") simp_all
    qed
    show "\<forall>v \<in> set (put_staged rows n). if v_session v = [] then v_commit v \<in> fmdom' (e_commits e)
         else \<exists>s. open_at e (v_session v) s \<and> v_branch v = s_branch s \<and> v_commit v = []"
    proof
      fix v assume "v \<in> set (put_staged rows n)"
      from mem [OF this] consider "v = n" | "v \<in> set rows"
        | u where "u \<in> set rows" "v = restage (v_op n) (v_row n) (v_changed n) u" by blast
      then show "if v_session v = [] then v_commit v \<in> fmdom' (e_commits e)
         else \<exists>s. open_at e (v_session v) s \<and> v_branch v = s_branch s \<and> v_commit v = []"
        using w o nf(1,3,4) by cases (auto simp: writing_def)
    qed
    show "\<forall>v \<in> set (put_staged rows n). mask_ok (v_changed v) \<and> (\<forall>c. mask_has (v_changed v) c \<longrightarrow> c \<in> e_cols e)"
    proof
      fix v assume "v \<in> set (put_staged rows n)"
      from mem [OF this] consider "v = n" | "v \<in> set rows"
        | u where "u \<in> set rows" "v = restage (v_op n) (v_row n) (v_changed n) u" by blast
      then show "mask_ok (v_changed v) \<and> (\<forall>c. mask_has (v_changed v) c \<longrightarrow> c \<in> e_cols e)"
      proof cases
        case 3
        then have "mask_ok (v_changed u)" "\<forall>c. mask_has (v_changed u) c \<longrightarrow> c \<in> e_cols e"
          using w by (auto simp: writing_def)
        then show ?thesis using 3 mask(1,2) by (auto simp: mask_has_or mask_ok_or)
      qed (use w mask in \<open>auto simp: writing_def\<close>)
    qed
  qed
qed

subsection \<open>SessionWrite\<close>

lemma writing_init:
  assumes inv: "engine_inv e" and o: "open_at e sid s" and v: "session_resolve e sid = Some view"
  shows "sid \<noteq> []" "writing e sid s (e_rows e, view)"
proof -
  have i: "inv_sessions e" "inv_staged e" "inv_rows e" using inv by (simp_all add: engine_inv_def)
  obtain k where "sid = session_id k" using i(1) o unfolding inv_sessions_def open_at_def by blast
  then show ne: "sid \<noteq> []" by simp
  have "fmlookup view q = staged_view e s (e_rows e) sid q" for q
    using v o ne
    by (auto simp: session_resolve_def open_at_def fmlookup_resolve_session view_row_def staged_view_def
        commit_row_def commit_chain_def e_hist_def split: option.splits list.splits)
  then show "writing e sid s (e_rows e, view)"
    using i(2,3) o ne unfolding writing_def Let_def prod.case inv_staged_def inv_rows_def by blast
qed

lemma writing_fold:
  assumes "open_at e sid s" "sid \<noteq> []" "writing e sid s st"
  shows "writing e sid s (foldl (session_change (e_schema e) sid (s_branch s) hs) st chs)"
  using assms(3)
proof (induction chs arbitrary: st)
  case (Cons ch chs)
  obtain rows view where st: "st = (rows, view)" by fastforce
  have "writing e sid s (session_change (e_schema e) sid (s_branch s) hs st ch)"
    using Cons.prems writing_put [OF assms(1,2)]
    by (auto simp: st session_change_staged split: option.splits)
  then show ?case using Cons.IH by simp
qed simp

lemma session_write_cases:
  assumes "session_write e sid cs = Inr e'"
  obtains s b view rows view' where "open_at e sid s" "session_resolve e sid = Some view"
    "fmlookup (e_branches e) (s_branch s) = Some b"
    "foldl (session_change (e_schema e) sid (s_branch s) (b_head_seq b)) (e_rows e, view) (cs_sorted cs) = (rows, view')"
    "e' = e\<lparr>e_rows := rows\<rparr>"
  using assms
  by (auto simp: session_write_def open_at_def Let_def split: option.splits if_splits prod.splits)

lemma session_write_core:
  assumes inv: "engine_inv e" and w: "session_write e sid cs = Inr e'"
  shows "same_core e e'"
  using w
proof (rule session_write_cases)
  fix s b view rows view'
  assume o: "open_at e sid s" and v: "session_resolve e sid = Some view"
    and f: "foldl (session_change (e_schema e) sid (s_branch s) (b_head_seq b)) (e_rows e, view) (cs_sorted cs)
      = (rows, view')" and e': "e' = e\<lparr>e_rows := rows\<rparr>"
  have "writing e sid s (rows, view')" using writing_fold [OF o writing_init [OF inv o v]] f by metis
  then show ?thesis by (simp add: same_core_def e' e_hist_def writing_def)
qed

lemma engine_inv_session_write [inv_intros]:
  assumes inv: "engine_inv e" and w: "session_write e sid cs = Inr e'"
  shows "engine_inv e'"
  using w
proof (rule session_write_cases)
  fix s b view rows view'
  assume o: "open_at e sid s" and v: "session_resolve e sid = Some view"
    and f: "foldl (session_change (e_schema e) sid (s_branch s) (b_head_seq b)) (e_rows e, view) (cs_sorted cs)
      = (rows, view')" and e': "e' = e\<lparr>e_rows := rows\<rparr>"
  note init = writing_init [OF inv o v]
  have w: "writing e sid s (rows, view')" using writing_fold [OF o init] f by metis
  then have core: "same_core e e'" by (simp add: same_core_def e' e_hist_def writing_def)
  note eqs = same_core_rows [OF core]
  have o': "open_at e' = open_at e" by (simp add: open_at_def e' fun_eq_iff)
  have i: "inv_sessions e" "inv_staged e" using inv by (simp_all add: engine_inv_def)
  have r: "e_rows e' = rows" "e_commits e' = e_commits e" "e_branches e' = e_branches e"
    by (simp_all add: e')
  have h: "hist rows = hist (e_rows e)" using w by (simp add: writing_def)
  have other: "staged rows x q = staged (e_rows e) x q" "ses_rows rows bb x q = ses_rows (e_rows e) bb x q"
    if "x \<noteq> sid" for x q bb using w that by (simp_all add: writing_def)
  have "inv_sessions e'" using i(1) unfolding inv_sessions_def e' by simp
  moreover have "inv_staged e'"
    unfolding inv_staged_def o' eqs r
  proof (intro conjI allI impI)
    show "\<forall>v \<in> set rows. if v_session v = [] then v_commit v \<in> fmdom' (e_commits e)
         else \<exists>s. open_at e (v_session v) s \<and> v_branch v = s_branch s \<and> v_commit v = []"
      using w by (simp add: writing_def)
    show "length (staged rows x p) \<le> 1" if "x \<noteq> []" for x p
      using w i(2) that other by (cases "x = sid") (auto simp: writing_def inv_staged_def)
    show "cellv (live v) c = cellv (commit_row e (s_base t) p) c"
      if "open_at e x t" "v \<in> set (staged rows x p)" "c \<in> e_cols e" "\<not> mask_has (v_changed v) c" for x t p v c
    proof (cases "x = sid")
      case True
      then have "t = s" using that(1) o by (simp add: open_at_def)
      then show ?thesis using True w that by (simp add: writing_def)
    next
      case False
      then show ?thesis using i(2) that other [OF False] unfolding inv_staged_def by metis
    qed
    show "ses_rows rows (s_branch t) x p = hist rows (s_branch t) p @ staged rows x p"
      if "open_at e x t" "fmlookup (e_branches e) (s_branch t) = Some bb" "b_head_commit bb = s_base t" for x t bb p
    proof (cases "x = sid")
      case True
      then have "t = s" using that(1) o by (simp add: open_at_def)
      then show ?thesis using True w that by (simp add: writing_def)
    next
      case False
      then show ?thesis using i(2) that other [OF False] h unfolding inv_staged_def by metis
    qed
  qed
  moreover have "\<forall>v \<in> set (e_rows e'). mask_ok (v_changed v) \<and> (\<forall>c. mask_has (v_changed v) c \<longrightarrow> c \<in> e_cols e)"
    using w by (simp add: e' writing_def)
  ultimately show ?thesis by (intro same_core_inv [OF core inv])
qed

text \<open>What a session sees after a write: its view with the changes applied.\<close>

lemma session_view_fold:
  assumes "distinct (map ch_pk chs)"
    and "foldl (session_change sc sid b hs) (rows, view) chs = (rows', view')"
  shows "fmlookup view' q = (case find (\<lambda>ch. ch_pk ch = q) chs of
    None \<Rightarrow> fmlookup view q | Some ch \<Rightarrow> change_row ch)"
  using assms
proof (induction chs arbitrary: rows view)
  case (Cons ch chs)
  obtain r1 v1 where c: "session_change sc sid b hs (rows, view) ch = (r1, v1)" by fastforce
  have IH: "fmlookup view' q = (case find (\<lambda>ch. ch_pk ch = q) chs of
    None \<Rightarrow> fmlookup v1 q | Some ch \<Rightarrow> change_row ch)"
    by (rule Cons.IH [of r1 v1]) (use Cons.prems c in simp_all)
  have "fmlookup v1 q = (if q = ch_pk ch then change_row ch else fmlookup view q)"
  proof (cases "staged_version sc sid b hs view ch")
    case None
    then show ?thesis using c staged_version_none [OF None] by (auto simp: session_change_staged)
  next
    case (Some n)
    then show ?thesis using c staged_version_facts(5,8) [OF Some] by (auto simp: session_change_staged)
  qed
  moreover have "q = ch_pk ch \<Longrightarrow> find (\<lambda>ch. ch_pk ch = q) chs = None"
    using Cons.prems(1) by (auto simp: find_None_iff image_iff)
  ultimately show ?case using IH by (auto split: option.splits)
qed simp

lemma session_write_view:
  assumes inv: "engine_inv e" and k: "cs_keyed cs" and w: "session_write e sid cs = Inr e'"
  shows "fmlookup (nil_table (session_resolve e' sid)) q
    = (case fmlookup cs q of Some ch \<Rightarrow> change_row ch
       | None \<Rightarrow> fmlookup (nil_table (session_resolve e sid)) q)"
  using w
proof (rule session_write_cases)
  fix s b view rows view'
  assume o: "open_at e sid s" and v: "session_resolve e sid = Some view"
    and f: "foldl (session_change (e_schema e) sid (s_branch s) (b_head_seq b)) (e_rows e, view) (cs_sorted cs)
      = (rows, view')" and e': "e' = e\<lparr>e_rows := rows\<rparr>"
  note init = writing_init [OF inv o v]
  have w: "writing e sid s (rows, view')" using writing_fold [OF o init] f by metis
  have d: "distinct (map ch_pk (cs_sorted cs))" by (simp add: cs_sorted_pks [OF k])
  have "fmlookup view' q = (case fmlookup cs q of Some ch \<Rightarrow> change_row ch | None \<Rightarrow> fmlookup view q)"
    unfolding session_view_fold [OF d f, of q] find_keyed [OF k] by (simp split: option.splits)
  moreover have "fmlookup (nil_table (session_resolve e' sid)) q = fmlookup view' q"
    using w o v init(1)
    by (auto simp: session_resolve_def open_at_def nil_table_def fmlookup_resolve_session view_row_def
        staged_view_def commit_row_def commit_chain_def e_hist_def writing_def e' split: option.splits list.splits)
  ultimately show ?thesis by (simp add: v nil_table_def [of "Some view"] cong: option.case_cong)
qed

end
