(* ===== verification/EngineSessionCommit.thy ===== *)
theory EngineSessionCommit
  imports EngineStaged
begin

text \<open>
  \<^verbatim>\<open>CommitSession\<close>: closing the open versions of the staged keys and stamping the staged rows in place is
  one commit of the staged versions on the session's branch, because a staged row comes after every
  committed version of its key while the branch has not moved.
\<close>

lemma staged_cover:
  "inv_staged e \<Longrightarrow> open_at e sid s \<Longrightarrow> v \<in> set (staged (e_rows e) sid p) \<Longrightarrow> c \<in> e_cols e \<Longrightarrow>
   \<not> mask_has (v_changed v) c \<Longrightarrow> cellv (live v) c = cellv (commit_row e (s_base s) p) c"
  unfolding inv_staged_def by blast

lemma staged_order:
  "inv_staged e \<Longrightarrow> open_at e sid s \<Longrightarrow> fmlookup (e_branches e) (s_branch s) = Some b \<Longrightarrow>
   b_head_commit b = s_base s \<Longrightarrow>
   ses_rows (e_rows e) (s_branch s) sid p = hist (e_rows e) (s_branch s) p @ staged (e_rows e) sid p"
  unfolding inv_staged_def by blast

subsection \<open>Closing and stamping\<close>

lemma filter_close_open_same:
  assumes "\<And>v. P (v\<lparr>v_to := s\<rparr>) = P v"
    and "\<And>v. v_branch v = b \<Longrightarrow> v_pk v = p \<Longrightarrow> v_session v = [] \<Longrightarrow> P v"
  shows "filter P (close_open rows b p s) = close_open (filter P rows) b p s"
  using assms by (induction rows) auto

lemma filter_close_open_not:
  assumes "\<And>v. P (v\<lparr>v_to := s\<rparr>) = P v"
    and "\<And>v. v_branch v = b \<Longrightarrow> v_pk v = p \<Longrightarrow> v_session v = [] \<Longrightarrow> \<not> P v"
  shows "filter P (close_open rows b p s) = filter P rows"
  using assms by (induction rows) auto

lemma close_open_staged:
  "\<forall>v \<in> set st. v_session v \<noteq> [] \<Longrightarrow> close_open (h @ st) b p s = close_open h b p s @ st"
proof (induction h)
  case Nil
  then show ?case by (induction st) auto
qed simp

lemma filter_close_fold:
  assumes "\<And>v. P (v\<lparr>v_to := s\<rparr>) = P v"
    and "\<And>v. P v \<Longrightarrow> v_session v = [] \<Longrightarrow> v_branch v = b \<Longrightarrow> v_pk v \<notin> set ks"
  shows "filter P (foldl (\<lambda>rows p. close_open rows b p s) rows ks) = filter P rows"
  using assms(2)
proof (induction ks arbitrary: rows)
  case (Cons k ks)
  have "filter P (close_open rows b k s) = filter P rows"
    by (rule filter_close_open_not) (use assms(1) Cons.prems in auto)
  then show ?case using Cons by simp
qed simp

lemma ses_rows_close:
  assumes "distinct ks"
  shows "ses_rows (foldl (\<lambda>rows p. close_open rows b p s) rows ks) b sid q
    = (if q \<in> set ks then close_open (ses_rows rows b sid q) b q s else ses_rows rows b sid q)"
  using assms
proof (induction ks arbitrary: rows)
  case (Cons k ks)
  have same: "ses_rows (close_open rows b q s) b sid q = close_open (ses_rows rows b sid q) b q s"
    unfolding ses_rows_def by (rule filter_close_open_same) auto
  have other: "k \<noteq> q \<Longrightarrow> ses_rows (close_open rows b k s) b sid q = ses_rows rows b sid q"
    unfolding ses_rows_def by (rule filter_close_open_not) auto
  show ?case using Cons same other by (cases "k = q") simp_all
qed simp

lemma stamp_simps [simp]:
  "v_branch (stamp sid c s v) = v_branch v" "v_pk (stamp sid c s v) = v_pk v"
  "v_op (stamp sid c s v) = v_op v" "v_row (stamp sid c s v) = v_row v"
  "v_changed (stamp sid c s v) = v_changed v" "live (stamp sid c s v) = live v"
  by (simp_all add: stamp_def live_def)

lemma stamp_other: "v_session v \<noteq> sid \<Longrightarrow> stamp sid c s v = v"
  by (simp add: stamp_def)

lemma hist_stamp:
  assumes "sid \<noteq> []"
  shows "hist (map (stamp sid c s) rows) b p = map (stamp sid c s) (ses_rows rows b sid p)"
  using assms unfolding hist_def ses_rows_def filter_map
  by (intro arg_cong [where f = "map (stamp sid c s)"] filter_cong) (auto simp: stamp_def)

lemma staged_keys_set: "p \<in> set (staged_keys rows sid) \<longleftrightarrow> staged rows sid p \<noteq> []"
  by (auto simp: staged_keys_def staged_def filter_empty_conv)

lemma staged_keys_distinct:
  assumes "\<forall>p. length (staged rows sid p) \<le> 1"
  shows "distinct (staged_keys rows sid)"
proof -
  have "distinct (map v_pk (filter (\<lambda>v. v_session v = sid) rows))"
    using assms
  proof (induction rows)
    case (Cons v rows)
    have le: "length (staged rows sid p) \<le> length (staged (v # rows) sid p)" for p by simp
    then have IH: "distinct (map v_pk (filter (\<lambda>v. v_session v = sid) rows))"
      using Cons by (meson order_trans)
    show ?case
    proof (cases "v_session v = sid")
      case True
      then have "staged rows sid (v_pk v) = []" using Cons.prems [rule_format, of "v_pk v"] by simp
      then have "v_pk v \<notin> v_pk ` set (filter (\<lambda>v. v_session v = sid) rows)"
        by (auto simp: staged_def filter_empty_conv)
      then show ?thesis using IH True by simp
    qed (use IH in simp)
  qed simp
  then show ?thesis by (simp add: staged_keys_def)
qed

subsection \<open>The commit\<close>

definition sealed :: "engine \<Rightarrow> string \<Rightarrow> session \<Rightarrow> branch \<Rightarrow> version list" where
  "sealed e sid s b =
     map (stamp sid (commit_id (e_next_id e + 1)) (b_head_seq b + 1))
       (foldl (\<lambda>rows p. close_open rows (s_branch s) p (b_head_seq b + 1)) (e_rows e) (staged_keys (e_rows e) sid))"

definition sealed_versions :: "engine \<Rightarrow> string \<Rightarrow> branch \<Rightarrow> pk \<Rightarrow> version option" where
  "sealed_versions e sid b p =
     (case staged (e_rows e) sid p of [] \<Rightarrow> None
      | v # _ \<Rightarrow> Some (stamp sid (commit_id (e_next_id e + 1)) (b_head_seq b + 1) v))"

lemma commit_session_cases:
  assumes "commit_session e sid = Inr (e', c)"
  obtains s b where "open_at e sid s" "fmlookup (e_branches e) (s_branch s) = Some b"
    "b_head_commit b = s_base s" "c = commit_id (e_next_id e + 1)"
    "e' = advanced e (s_branch s) b (sealed e sid s b) (fmupd sid (s\<lparr>s_open := False\<rparr>) (e_sessions e))
            [b_head_commit b]"
  using assms
  by (auto simp: commit_session_def open_at_def new_commit_id_def Let_def record_commit_def advanced_def
      chain_for_def sealed_def split: option.splits if_splits)

lemma hist_sealed:
  assumes inv: "engine_inv e" and o: "open_at e sid s" and b: "fmlookup (e_branches e) (s_branch s) = Some b"
    and h: "b_head_commit b = s_base s"
  shows "hist (sealed e sid s b) x p
    = (if x = s_branch s then case sealed_versions e sid b p of
          None \<Rightarrow> hist (e_rows e) x p | Some n \<Rightarrow> push n (hist (e_rows e) x p)
       else hist (e_rows e) x p)"
proof -
  let ?seq = "b_head_seq b + 1"
  let ?st = "stamp sid (commit_id (e_next_id e + 1)) ?seq"
  let ?closed = "foldl (\<lambda>rows p. close_open rows (s_branch s) p ?seq) (e_rows e) (staged_keys (e_rows e) sid)"
  have i: "inv_sessions e" "inv_staged e" "inv_rows e" using inv by (simp_all add: engine_inv_def)
  have ne: "sid \<noteq> []" using i(1) o unfolding inv_sessions_def open_at_def by (metis ids_nonempty(2))
  have one: "\<forall>q. length (staged (e_rows e) sid q) \<le> 1" using i(2) ne by (simp add: inv_staged_def)
  have id_hist: "map ?st (hist (e_rows e) x p) = hist (e_rows e) x p"
    by (rule map_idI) (use ne in \<open>auto simp: hist_mem stamp_def\<close>)
  have seal: "hist (sealed e sid s b) x p = map ?st (ses_rows ?closed x sid p)"
    unfolding sealed_def by (rule hist_stamp [OF ne])
  show ?thesis
  proof (cases "x = s_branch s")
    case True
    have sr: "ses_rows (e_rows e) x sid p = hist (e_rows e) x p @ staged (e_rows e) sid p"
      using i(2) o b h True by (simp add: inv_staged_def)
    have closed: "ses_rows ?closed x sid p = (if p \<in> set (staged_keys (e_rows e) sid)
        then close_open (ses_rows (e_rows e) x sid p) x p ?seq else ses_rows (e_rows e) x sid p)"
      unfolding True by (rule ses_rows_close [OF staged_keys_distinct [OF one]])
    show ?thesis
    proof (cases "staged (e_rows e) sid p")
      case Nil
      then show ?thesis
        using True seal closed sr id_hist by (simp add: sealed_versions_def staged_keys_set)
    next
      case (Cons v vs)
      then have vs: "staged (e_rows e) sid p = [v]" using one [rule_format, of p] by simp
      then have "v \<in> set (staged (e_rows e) sid p)" by simp
      then have v: "v_session v = sid" by (simp add: staged_def)
      have "contig (hist (e_rows e) x p)"
        using i(3) by (simp add: inv_rows_def hists_at_def hist_at_def e_hist_def)
      then have "close_open (hist (e_rows e) x p) x p ?seq = close_last ?seq (hist (e_rows e) x p)"
        by (rule close_open_contig) (simp add: hist_mem)
      then have "ses_rows ?closed x sid p = close_last ?seq (hist (e_rows e) x p) @ [v]"
        using closed sr vs v ne by (simp add: staged_keys_set close_open_staged)
      moreover have "map ?st (close_last ?seq (hist (e_rows e) x p)) = close_last ?seq (hist (e_rows e) x p)"
      proof (rule map_idI)
        fix u assume "u \<in> set (close_last ?seq (hist (e_rows e) x p))"
        then have "v_session u = []"
          by (auto simp: close_last_def hist_mem dest: in_set_butlastD split: if_splits)
            (metis hist_mem last_in_set)
        then show "?st u = u" using ne by (simp add: stamp_def)
      qed
      moreover have "v_from (?st v) = ?seq" by (simp add: stamp_def v)
      ultimately show ?thesis using True seal vs by (simp add: sealed_versions_def push_def)
    qed
  next
    case False
    have "ses_rows ?closed x sid p = ses_rows (e_rows e) x sid p"
      unfolding ses_rows_def by (rule filter_close_fold) (use False in auto)
    moreover have "ses_rows (e_rows e) x sid p = hist (e_rows e) x p"
    proof -
      have "\<not> (v_session v = sid \<and> v_branch v = x)" if "v \<in> set (e_rows e)" for v
      proof
        assume v: "v_session v = sid \<and> v_branch v = x"
        then have "v \<in> set (staged (e_rows e) sid (v_pk v))" using that by (simp add: staged_def)
        then obtain t where "open_at e sid t" "v_branch v = s_branch t"
          using staged_session [OF i(2) _ ne] by blast
        with o False v show False by (simp add: open_at_def)
      qed
      then show ?thesis unfolding ses_rows_def hist_def by (intro filter_cong) auto
    qed
    ultimately show ?thesis using False seal id_hist by simp
  qed
qed

text \<open>Closing changes nothing but the upper bounds, position by position.\<close>

definition unbounded :: "version \<Rightarrow> version" where
  "unbounded v = v\<lparr>v_to := max_seq\<rparr>"

lemma unbounded_close: "map unbounded (close_open rows b p s) = map unbounded rows"
  by (induction rows) (auto simp: unbounded_def)

lemma unbounded_close_fold: "map unbounded (foldl (\<lambda>rows p. close_open rows b p s) rows ks) = map unbounded rows"
  by (induction ks arbitrary: rows) (simp_all add: unbounded_close)

lemma unbounded_eqD:
  "unbounded u = unbounded v \<Longrightarrow> v_branch u = v_branch v \<and> v_pk u = v_pk v \<and> v_session u = v_session v \<and>
     v_commit u = v_commit v \<and> v_changed u = v_changed v"
  by (cases u, cases v) (simp add: unbounded_def)

lemma close_fold_mem:
  assumes "v \<in> set (foldl (\<lambda>rows p. close_open rows b p s) rows ks)"
  obtains u where "u \<in> set rows" "unbounded u = unbounded v"
proof -
  have "unbounded v \<in> unbounded ` set (foldl (\<lambda>rows p. close_open rows b p s) rows ks)" using assms by simp
  also have "\<dots> = unbounded ` set rows" by (metis list.set_map unbounded_close_fold)
  finally show thesis using that by (metis image_iff)
qed

lemma filter_map_same:
  "(\<And>x. x \<in> set xs \<Longrightarrow> P (f x) = P x) \<Longrightarrow> (\<And>x. x \<in> set xs \<Longrightarrow> P x \<Longrightarrow> f x = x) \<Longrightarrow>
   filter P (map f xs) = filter P xs"
  by (induction xs) auto

lemma sealed_versions_Some:
  assumes "sealed_versions e sid b p = Some n"
  obtains v where "v \<in> set (staged (e_rows e) sid p)"
    "n = stamp sid (commit_id (e_next_id e + 1)) (b_head_seq b + 1) v"
proof (cases "staged (e_rows e) sid p")
  case (Cons v vs)
  then show thesis using assms that [of v] by (simp add: sealed_versions_def)
qed (use assms in \<open>simp add: sealed_versions_def\<close>)

lemma staged_sealed:
  assumes "sid \<noteq> []" "x \<noteq> []"
  shows "staged (sealed e sid s b) x p = (if x = sid then [] else staged (e_rows e) x p)"
proof (cases "x = sid")
  case True
  then show ?thesis using assms by (auto simp: staged_def sealed_def filter_empty_conv stamp_def)
next
  case False
  have "staged (sealed e sid s b) x p
      = staged (foldl (\<lambda>rows p. close_open rows (s_branch s) p (b_head_seq b + 1)) (e_rows e)
          (staged_keys (e_rows e) sid)) x p"
    unfolding staged_def sealed_def by (rule filter_map_same) (use False assms in \<open>auto simp: stamp_def\<close>)
  also have "\<dots> = staged (e_rows e) x p"
    unfolding staged_def by (rule filter_close_fold) (use assms in auto)
  finally show ?thesis using False by simp
qed

lemma staged_on_session_branch:
  assumes "inv_staged e" "open_at e sid s" "sid \<noteq> []" "v \<in> set (e_rows e)" "v_session v = sid"
  shows "v_branch v = s_branch s"
proof -
  have "v \<in> set (staged (e_rows e) sid (v_pk v))" using assms by (simp add: staged_def)
  then obtain t where "open_at e sid t" "v_branch v = s_branch t"
    using staged_session [OF assms(1) _ assms(3)] by blast
  with assms(2) show ?thesis by (simp add: open_at_def)
qed

lemma filter_sealed:
  assumes "inv_staged e" "open_at e sid s" "sid \<noteq> []"
    and "\<And>v t. P (v\<lparr>v_to := t\<rparr>) = P v" "\<And>v. P v \<Longrightarrow> v_branch v \<noteq> s_branch s"
  shows "filter P (sealed e sid s b) = filter P (e_rows e)"
proof -
  let ?closed = "foldl (\<lambda>rows p. close_open rows (s_branch s) p (b_head_seq b + 1)) (e_rows e)
    (staged_keys (e_rows e) sid)"
  let ?st = "stamp sid (commit_id (e_next_id e + 1)) (b_head_seq b + 1)"
  have "filter P (map ?st ?closed) = filter P ?closed"
  proof (rule filter_map_same)
    fix v assume v: "v \<in> set ?closed"
    obtain u where u: "u \<in> set (e_rows e)" "unbounded u = unbounded v" using close_fold_mem [OF v] .
    have on: "v_session v = sid \<Longrightarrow> v_branch v = s_branch s"
      using staged_on_session_branch [OF assms(1-3) u(1)] unbounded_eqD [OF u(2)] by simp
    have "P (?st v) = P v \<and> (P v \<longrightarrow> ?st v = v)"
    proof (cases "v_session v = sid")
      case True
      then have "v_branch (?st v) = s_branch s" using on by simp
      then have "\<not> P (?st v)" "\<not> P v" using assms(5) on True by blast+
      then show ?thesis by simp
    qed (simp add: stamp_other)
    then show "P (?st v) = P v" "P v \<Longrightarrow> ?st v = v" by blast+
  qed
  moreover have "filter P ?closed = filter P (e_rows e)"
    by (rule filter_close_fold) (use assms(4,5) in auto)
  ultimately show ?thesis by (simp add: sealed_def)
qed

lemma sealed_mem:
  assumes "v \<in> set (sealed e sid s b)"
  obtains u where "u \<in> set (e_rows e)" "v_branch v = v_branch u" "v_changed v = v_changed u"
    "v_session v = (if v_session u = sid then [] else v_session u)"
    "v_commit v = (if v_session u = sid then commit_id (e_next_id e + 1) else v_commit u)"
proof -
  obtain w where w: "v = stamp sid (commit_id (e_next_id e + 1)) (b_head_seq b + 1) w"
    "w \<in> set (foldl (\<lambda>rows p. close_open rows (s_branch s) p (b_head_seq b + 1)) (e_rows e)
      (staged_keys (e_rows e) sid))"
    using assms by (auto simp: sealed_def)
  from close_fold_mem [OF w(2)] obtain u where u: "u \<in> set (e_rows e)" "unbounded u = unbounded w" by blast
  show thesis by (rule that [OF u(1)]) (use unbounded_eqD [OF u(2)] w(1) in \<open>auto simp: stamp_def\<close>)
qed

lemma moves_sealed:
  assumes inv: "engine_inv e" and o: "open_at e sid s" and b: "fmlookup (e_branches e) (s_branch s) = Some b"
    and h: "b_head_commit b = s_base s"
  shows "moves e (s_branch s) b b (sealed e sid s b) (sealed_versions e sid b)"
proof -
  have i: "inv_sessions e" "inv_staged e" "inv_rows e" using inv by (simp_all add: engine_inv_def)
  have ne: "sid \<noteq> []" using i(1) o unfolding inv_sessions_def open_at_def by (metis ids_nonempty(2))
  have base: "commit_row e (s_base s) p = branch_row e (s_branch s) b p" for p
    using engine_inv_branch [OF inv b] h by (simp add: inv_branch_def)
  have cover: "cellv (live n) c = cellv (branch_row e (s_branch s) b p) c"
    if n: "sealed_versions e sid b p = Some n" "c \<in> e_cols e" "\<not> mask_has (v_changed n) c" for p n c
  proof -
    obtain v where v: "v \<in> set (staged (e_rows e) sid p)"
      and st: "n = stamp sid (commit_id (e_next_id e + 1)) (b_head_seq b + 1) v"
      using n(1) by (rule sealed_versions_Some)
    have "cellv (live v) c = cellv (commit_row e (s_base s) p) c"
      by (rule staged_cover [OF i(2) o v n(2)]) (use n(3) st in simp)
    then show ?thesis using st base by simp
  qed
  have adv: "advances (e_hist e) (hist (sealed e sid s b)) (s_branch s) (sealed_versions e sid b)"
    unfolding advances_def e_hist_def using hist_sealed [OF assms] by blast
  have new: "new_versions (b_head_seq b + 1) (sealed_versions e sid b)"
  proof -
    have "v_from n = b_head_seq b + 1 \<and> v_to n = max_seq" if n: "sealed_versions e sid b p = Some n" for p n
    proof -
      obtain v where v: "v \<in> set (staged (e_rows e) sid p)"
        "n = stamp sid (commit_id (e_next_id e + 1)) (b_head_seq b + 1) v"
        using n by (rule sealed_versions_Some)
      then have "v_session v = sid" by (simp add: staged_def)
      with v(2) show ?thesis by (simp add: stamp_def)
    qed
    then show ?thesis by (simp add: new_versions_def)
  qed
  have masks: "\<forall>v \<in> set (sealed e sid s b). mask_ok (v_changed v) \<and> (\<forall>c. mask_has (v_changed v) c \<longrightarrow> c \<in> e_cols e)"
    using i(3) unfolding inv_rows_def by (metis sealed_mem)
  have cov: "masks_cover (e_hist e) (e_cols e) (s_branch s) (b_head_seq b) (b_chain b) (sealed_versions e sid b)"
    using cover unfolding masks_cover_def branch_row_def head_chain_def by blast
  have follow: "cellv (case sealed_versions e sid b p of Some n \<Rightarrow> live n | None \<Rightarrow> branch_row e (s_branch s) b p) c
      = cellv (chain_row (e_hist e) (b_chain b) p) c"
    if "c \<in> e_cols e" "\<forall>n. sealed_versions e sid b p = Some n \<longrightarrow> \<not> mask_has (v_changed n) c"
      "cellv (branch_row e (s_branch s) b p) c = cellv (chain_row (e_hist e) (b_chain b) p) c" for p c
    using that cover by (cases "sealed_versions e sid b p") auto
  show ?thesis
    unfolding moves_def using b branch_tail [OF inv b] adv new masks cov follow by blast
qed

lemma inv_staged_sealed:
  assumes inv: "engine_inv e" "has_room e" and o: "open_at e sid s"
    and b: "fmlookup (e_branches e) (s_branch s) = Some b" and h: "b_head_commit b = s_base s"
  shows "inv_staged (advanced e (s_branch s) b (sealed e sid s b) (fmupd sid (s\<lparr>s_open := False\<rparr>) (e_sessions e)) ps)"
proof -
  let ?rows = "sealed e sid s b"
  let ?e = "advanced e (s_branch s) b ?rows (fmupd sid (s\<lparr>s_open := False\<rparr>) (e_sessions e)) ps"
  have i: "inv_sessions e" "inv_staged e" "inv_rows e" "inv_branches e" "inv_commits e"
    using inv(1) by (simp_all add: engine_inv_def)
  note mv = moves_sealed [OF inv(1) o b h]
  have known: "x \<noteq> [] \<and> s_base t \<in> fmdom' (e_commits e)" if "open_at e x t" for x t
    using that i(1) unfolding open_at_def inv_sessions_def by (metis ids_nonempty(2))
  have ne: "sid \<noteq> []" using known [OF o] by simp
  have o': "open_at ?e x t \<longleftrightarrow> x \<noteq> sid \<and> open_at e x t" for x t by (auto simp: open_at_def)
  have st: "staged ?rows x p = (if x = sid then [] else staged (e_rows e) x p)" if "x \<noteq> []" for x p
    by (rule staged_sealed [OF ne that])
  have row: "commit_row ?e (s_base t) p = commit_row e (s_base t) p" if "open_at e x t" for x t p
    by (rule commit_row_advanced [OF mv i(3,4) inv(2) i(5)]) (use known that in blast)
  show ?thesis
    unfolding inv_staged_def o' advanced_simps
  proof (intro conjI allI impI)
    show "\<forall>v \<in> set ?rows. if v_session v = [] then v_commit v \<in> fmdom' (e_commits ?e)
        else \<exists>t. (v_session v \<noteq> sid \<and> open_at e (v_session v) t) \<and> v_branch v = s_branch t \<and> v_commit v = []"
    proof
      fix v assume "v \<in> set ?rows"
      then obtain u where u: "u \<in> set (e_rows e)" "v_branch v = v_branch u"
        "v_session v = (if v_session u = sid then [] else v_session u)"
        "v_commit v = (if v_session u = sid then commit_id (e_next_id e + 1) else v_commit u)"
        by (rule sealed_mem)
      have "if v_session u = [] then v_commit u \<in> fmdom' (e_commits e)
         else \<exists>s. open_at e (v_session u) s \<and> v_branch u = s_branch s \<and> v_commit u = []"
        using i(2) u(1) unfolding inv_staged_def by blast
      then show "if v_session v = [] then v_commit v \<in> fmdom' (e_commits ?e)
        else \<exists>t. (v_session v \<noteq> sid \<and> open_at e (v_session v) t) \<and> v_branch v = s_branch t \<and> v_commit v = []"
        using u(2-4) ne by (auto split: if_splits)
    qed
    show "length (staged ?rows x p) \<le> 1" if "x \<noteq> []" for x p
      using i(2) that st by (auto simp: inv_staged_def)
    show "cellv (live v) c = cellv (commit_row ?e (s_base t) p) c"
      if "x \<noteq> sid \<and> open_at e x t" "v \<in> set (staged ?rows x p)" "c \<in> e_cols e" "\<not> mask_has (v_changed v) c"
      for x t p v c
    proof -
      have "v \<in> set (staged (e_rows e) x p)" using that(1,2) st known by auto
      then have "cellv (live v) c = cellv (commit_row e (s_base t) p) c"
        using staged_cover [OF i(2) _ _ that(3,4)] that(1) by blast
      moreover have "open_at e x t" using that(1) by simp
      ultimately show ?thesis by (simp only: row)
    qed
    show "ses_rows ?rows (s_branch t) x p = hist ?rows (s_branch t) p @ staged ?rows x p"
      if t: "x \<noteq> sid \<and> open_at e x t" and b': "fmlookup (e_branches ?e) (s_branch t) = Some bb"
        and h': "b_head_commit bb = s_base t" for x t bb p
    proof -
      have br: "s_branch t \<noteq> s_branch s"
      proof
        assume "s_branch t = s_branch s"
        then have "s_base t = commit_id (e_next_id e + 1)" using b' h' by (auto simp: advanced_branches)
        with inv_commits_fresh [OF i(5)] known t show False by metis
      qed
      have "ses_rows ?rows (s_branch t) x p = ses_rows (e_rows e) (s_branch t) x p"
        unfolding ses_rows_def by (rule filter_sealed [OF i(2) o ne]) (use br in auto)
      moreover have "hist ?rows (s_branch t) p = hist (e_rows e) (s_branch t) p"
        unfolding hist_def by (rule filter_sealed [OF i(2) o ne]) (use br in auto)
      moreover have "fmlookup (e_branches e) (s_branch t) = Some bb" using b' br by (simp add: advanced_branches)
      moreover have "staged ?rows x p = staged (e_rows e) x p" using st [of x p] known [of x t] t by simp
      ultimately show ?thesis using staged_order [OF i(2) _ _ h'] t by simp
    qed
  qed
qed

lemma engine_inv_commit_session [inv_intros]:
  assumes inv: "engine_inv e" "has_room e" and c: "commit_session e sid = Inr (e', c)"
  shows "engine_inv e'"
  using c
proof (rule commit_session_cases)
  fix s b
  assume o: "open_at e sid s" and b: "fmlookup (e_branches e) (s_branch s) = Some b"
    and h: "b_head_commit b = s_base s"
    and e': "e' = advanced e (s_branch s) b (sealed e sid s b) (fmupd sid (s\<lparr>s_open := False\<rparr>) (e_sessions e))
            [b_head_commit b]"
  have i: "inv_rows e" "inv_branches e" "inv_commits e" "inv_sessions e"
    using inv(1) by (simp_all add: engine_inv_def)
  note mv = moves_sealed [OF inv(1) o b h]
  have "inv_sessions e'"
    using i(4) o unfolding e' inv_sessions_def advanced_simps advanced_heads [OF mv]
    by (auto simp: open_at_def)
  then show ?thesis
    using inv_rows_advanced [OF mv i(1,2) inv(2)] inv_branches_advanced [OF mv i(1,2) inv(2) i(3)]
      inv_commits_advanced [OF mv i(1,2) inv(2) i(3)] head_in_commits [OF inv(1) b]
      inv_staged_sealed [OF inv o b h] inv(2)
    unfolding engine_inv_def e' by (simp add: has_room_def)
qed

text \<open>The branch then shows what the session saw.\<close>

lemma commit_session_row:
  assumes inv: "engine_inv e" "has_room e" and c: "commit_session e sid = Inr (e', c)"
    and o: "open_at e sid s"
  shows "fmlookup (nil_table (resolve e' (s_branch s))) p = fmlookup (nil_table (session_resolve e sid)) p"
  using c
proof (rule commit_session_cases)
  fix t b
  assume t: "open_at e sid t" and b: "fmlookup (e_branches e) (s_branch t) = Some b"
    and h: "b_head_commit b = s_base t"
    and e': "e' = advanced e (s_branch t) b (sealed e sid t b) (fmupd sid (t\<lparr>s_open := False\<rparr>) (e_sessions e))
            [b_head_commit b]"
  have ts: "t = s" using t o by (simp add: open_at_def)
  have i: "inv_rows e" "inv_branches e" "inv_sessions e" using inv(1) by (simp_all add: engine_inv_def)
  note mv = moves_sealed [OF inv(1) t b h]
  have "fmlookup (e_branches e') (s_branch t)
      = Some (b\<lparr>b_head_seq := b_head_seq b + 1, b_head_commit := commit_id (e_next_id e + 1)\<rparr>)"
    by (simp add: e' advanced_branches)
  from fmlookup_resolve [OF this] have "fmlookup (nil_table (resolve e' (s_branch t))) p
      = chain_row (hist (sealed e sid t b)) (seg (s_branch t) (b_head_seq b + 1) # b_chain b) p"
    by (simp add: e' branch_row_def head_chain_def del: chain_row.simps)
  also have "\<dots> = (case sealed_versions e sid b p of Some n \<Rightarrow> live n | None \<Rightarrow> branch_row e (s_branch t) b p)"
    by (rule head_row_advanced [OF mv i(1,2) inv(2)])
  also have "\<dots> = fmlookup (nil_table (session_resolve e sid)) p"
  proof -
    have ne: "sid \<noteq> []" using i(3) o unfolding inv_sessions_def open_at_def by (metis ids_nonempty(2))
    have ib: "inv_branch e (s_branch t) b" by (rule engine_inv_branch [OF inv(1) b])
    then obtain cm where cm: "fmlookup (e_commits e) (s_base t) = Some cm"
      using h by (auto simp: inv_branch_def fmlookup_dom'_iff)
    have "commit_row e (s_base t) p = branch_row e (s_branch t) b p" using ib h by (simp add: inv_branch_def)
    then have "branch_row e (s_branch t) b p = chain_row (hist (e_rows e)) (cm_chain cm) p"
      using cm by (simp add: commit_row_def commit_chain_def e_hist_def)
    then show ?thesis
      using t cm ne by (auto simp: session_resolve_def open_at_def nil_table_def fmlookup_resolve_session
          view_row_def sealed_versions_def split: list.splits)
  qed
  finally show ?thesis using ts by simp
qed

end
