(* ===== verification/EngineRun.thy ===== *)
theory EngineRun
  imports EngineSessionCommit
begin

text \<open>
  The engine as a state machine. An operation names one of the engine's methods with its arguments;
  \<open>engine_step\<close> is one successful call, \<open>engine_exec\<close> a call whose error leaves the engine as it was, and
  \<open>engine_run\<close> a sequence of calls on a new engine. By rule induction every reachable engine has the
  invariant; a step either leaves histories and commits alone or is one commit on one branch.
\<close>

datatype operation =
    OCommit string changeset
  | OCreateBranch string string
  | OMerge string string
  | OUpdate string
  | OOpen string
  | OWrite string changeset
  | OCommitSession string
  | OAbandon string

inductive engine_step :: "engine \<Rightarrow> operation \<Rightarrow> engine \<Rightarrow> bool" where
  step_commit: "engine_commit e b cs = Inr (e', c) \<Longrightarrow> engine_step e (OCommit b cs) e'"
| step_branch: "create_branch e name from = Inr e' \<Longrightarrow> engine_step e (OCreateBranch name from) e'"
| step_merge: "merge e from into = Inr (e', mr) \<Longrightarrow> engine_step e (OMerge from into) e'"
| step_update: "update_from_parent e b = Inr (e', mr) \<Longrightarrow> engine_step e (OUpdate b) e'"
| step_open: "open_session e b = Inr (e', sid) \<Longrightarrow> engine_step e (OOpen b) e'"
| step_write: "session_write e sid cs = Inr e' \<Longrightarrow> engine_step e (OWrite sid cs) e'"
| step_commit_session: "commit_session e sid = Inr (e', c) \<Longrightarrow> engine_step e (OCommitSession sid) e'"
| step_abandon: "engine_step e (OAbandon sid) (abandon_session e sid)"

inductive_cases engine_stepE: "engine_step e a e'"

inductive_simps engine_step_simps [simp]:
  "engine_step e (OCommit b cs) e'" "engine_step e (OCreateBranch name from) e'"
  "engine_step e (OMerge from into) e'" "engine_step e (OUpdate b) e'" "engine_step e (OOpen b) e'"
  "engine_step e (OWrite sid cs) e'" "engine_step e (OCommitSession sid) e'" "engine_step e (OAbandon sid) e'"

text \<open>Change sets reach the engine with each change under its own key.\<close>

fun op_keyed :: "operation \<Rightarrow> bool" where
  "op_keyed (OCommit b cs) = cs_keyed cs"
| "op_keyed (OWrite sid cs) = cs_keyed cs"
| "op_keyed _ = True"

text \<open>What a call answers: a commit id, a merge result, a session id or nothing.\<close>

datatype reply = RCommit string | RMerge merge_result | RSession string | RDone

definition reply_with :: "('b \<Rightarrow> reply) \<Rightarrow> (repo_error + 's \<times> 'b) \<Rightarrow> repo_error + 's \<times> reply" where
  "reply_with f x = map_sum id (apsnd f) x"

definition reply_done :: "(repo_error + 's) \<Rightarrow> repo_error + 's \<times> reply" where
  "reply_done x = map_sum id (\<lambda>s. (s, RDone)) x"

lemma reply_simps [simp]:
  "reply_with f (Inl err) = Inl err" "reply_with f (Inr (s, y)) = Inr (s, f y)"
  "reply_done (Inl err) = Inl err" "reply_done (Inr s) = Inr (s, RDone)"
  by (simp_all add: reply_with_def reply_done_def)

lemma reply_with_Inr: "reply_with f x = Inr (s, q) \<longleftrightarrow> (\<exists>y. x = Inr (s, y) \<and> q = f y)"
  by (cases x) (auto simp: reply_with_def)

lemma reply_done_Inr: "reply_done x = Inr (s, q) \<longleftrightarrow> x = Inr s \<and> q = RDone"
  by (cases x) (auto simp: reply_done_def)

fun engine_call :: "engine \<Rightarrow> operation \<Rightarrow> repo_error + engine \<times> reply" where
  "engine_call e (OCommit b cs) = reply_with RCommit (engine_commit e b cs)"
| "engine_call e (OCreateBranch name from) = reply_done (create_branch e name from)"
| "engine_call e (OMerge from into) = reply_with RMerge (merge e from into)"
| "engine_call e (OUpdate b) = reply_with RMerge (update_from_parent e b)"
| "engine_call e (OOpen b) = reply_with RSession (open_session e b)"
| "engine_call e (OWrite sid cs) = reply_done (session_write e sid cs)"
| "engine_call e (OCommitSession sid) = reply_with RCommit (commit_session e sid)"
| "engine_call e (OAbandon sid) = Inr (abandon_session e sid, RDone)"

definition engine_exec :: "engine \<Rightarrow> operation \<Rightarrow> engine" where
  "engine_exec e a = (case engine_call e a of Inl _ \<Rightarrow> e | Inr (e', _) \<Rightarrow> e')"

definition engine_run :: "schema \<Rightarrow> operation list \<Rightarrow> engine" where
  "engine_run sc ops = foldl engine_exec (new_engine sc) ops"

lemma engine_call_step: "engine_call e a = Inr (e', q) \<Longrightarrow> engine_step e a e'"
  by (cases a) (auto simp: reply_with_Inr reply_done_Inr)

lemma engine_exec_step: "engine_step e a (engine_exec e a) \<or> engine_exec e a = e"
  using engine_call_step [of e a] by (auto simp: engine_exec_def split: sum.splits)

subsection \<open>The invariant\<close>

lemma engine_inv_step:
  assumes "engine_step e a e'" "engine_inv e" "has_room e" "op_keyed a"
  shows "engine_inv e'"
  using assms by (induction rule: engine_step.induct) (auto intro: inv_intros)

text \<open>What one step may do: a commit on a branch, or nothing to histories and commits.\<close>

definition quiet :: "engine \<Rightarrow> engine \<Rightarrow> bool" where
  "quiet e e' \<longleftrightarrow>
     e_schema e' = e_schema e \<and> e_hist e' = e_hist e \<and> e_commits e' = e_commits e \<and> e_next_id e' = e_next_id e \<and>
     (\<forall>x bb. fmlookup (e_branches e) x = Some bb \<longrightarrow> fmlookup (e_branches e') x = Some bb)"

definition commits_on :: "engine \<Rightarrow> string \<Rightarrow> engine \<Rightarrow> bool" where
  "commits_on e b e' \<longleftrightarrow>
     (\<exists>b0 bb rows ss ps N. moves e b b0 bb rows N \<and> e' = advanced e b bb rows ss ps)"

lemma quiet_refl [simp]: "quiet e e"
  by (simp add: quiet_def)

lemma commits_onI: "moves e b b0 bb rows N \<Longrightarrow> commits_on e b (advanced e b bb rows ss ps)"
  unfolding commits_on_def by blast

text \<open>The branch an operation may commit on.\<close>

fun op_branch :: "engine \<Rightarrow> operation \<Rightarrow> string option" where
  "op_branch e (OCommit b cs) = Some b"
| "op_branch e (OMerge from into) = Some into"
| "op_branch e (OUpdate b) = Some b"
| "op_branch e (OCommitSession sid) = map_option s_branch (fmlookup (e_sessions e) sid)"
| "op_branch e _ = None"

lemma same_core_quiet: "same_core e e' \<Longrightarrow> quiet e e'"
  by (simp add: same_core_def quiet_def)

lemma commit_shape:
  assumes "engine_inv e" "cs_keyed cs" "engine_commit e b cs = Inr (e', c)"
  shows "commits_on e b e'"
proof -
  obtain b0 where b0: "fmlookup (e_branches e) b = Some b0"
    using assms(3) by (auto simp: engine_commit_def split: option.splits)
  have "e' = advanced e b b0 (foldl write_version (e_rows e) (commit_writes e b b0 cs)) (e_sessions e)
      [b_head_commit b0]"
    using assms(3) engine_commit_eq [OF b0] by simp
  then show ?thesis
    using commits_onI [OF moves_same_tail [OF assms(1) b0 commit_writes_on [OF assms(2)] commit_writes_cover [OF b0]]]
    by simp
qed

lemma merge_moves:
  assumes "engine_inv e" "fmlookup (e_branches e) b = Some tb"
  shows "moves e b tb tb (foldl write_version (e_rows e) (apply_writes e b tb (nil_table (resolve e b)) result))
    (\<lambda>p. find (\<lambda>n. v_pk n = p) (apply_writes e b tb (nil_table (resolve e b)) result))"
  by (rule moves_same_tail [OF assms apply_writes_on apply_writes_cover]) (simp add: fmlookup_resolve [OF assms(2)])

lemma merge_shape:
  assumes "engine_inv e" "merge e from into = Inr (e', mr)"
  shows "commits_on e into e' \<or> e' = e"
  using assms(2)
proof (rule engine_merge_cases)
  fix fb tb
  assume tb: "fmlookup (e_branches e) into = Some tb"
    and e': "if mr_clean mr
         then e' = applied e into tb (nil_table (resolve e into)) (mr_result mr) [b_head_commit tb, b_head_commit fb]
              \<and> mr_commit mr = commit_id (e_next_id e + 1)
         else e' = e \<and> mr_commit mr = []"
  show ?thesis
    using e' commits_onI [OF merge_moves [OF assms(1) tb]] by (auto simp: applied_def split: if_splits)
qed

lemma update_shape:
  assumes "engine_inv e" "update_from_parent e b = Inr (e', mr)"
  shows "commits_on e b e' \<or> e' = e"
  using assms(2)
proof (rule update_from_parent_cases)
  fix bb pp
  assume bb: "fmlookup (e_branches e) b = Some bb" "b_parent bb \<noteq> []"
    and pp: "fmlookup (e_branches e) (b_parent bb) = Some pp"
    and clean: "mr_clean mr \<longleftrightarrow> mr_conflicts mr = []"
    and res: "if b_head_commit pp = b_fork_commit bb
         then e' = e \<and> mr_result mr = nil_table (resolve e b) \<and> mr_conflicts mr = [] \<and> mr_commit mr = []
         else mr_result mr = fst (merged e (b_fork_commit bb) b (b_parent bb)) \<and>
              mr_conflicts mr = snd (merged e (b_fork_commit bb) b (b_parent bb)) \<and>
              (if mr_clean mr
               then e' = applied e b (refork bb pp) (parent_view e b (refork bb pp)) (mr_result mr)
                      [b_head_commit bb, b_head_commit pp] \<and> mr_commit mr = commit_id (e_next_id e + 1)
               else e' = e \<and> mr_commit mr = [])"
  show ?thesis
  proof (cases "b_head_commit pp \<noteq> b_fork_commit bb \<and> mr_clean mr")
    case True
    then have cl: "snd (merged e (b_fork_commit bb) b (b_parent bb)) = []" using res clean by simp
    have "e' = applied e b (refork bb pp) (parent_view e b (refork bb pp))
        (fst (merged e (b_fork_commit bb) b (b_parent bb))) [b_head_commit bb, b_head_commit pp]"
      using res True by simp
    then show ?thesis
      using commits_onI [OF moves_update [OF assms(1) bb pp cl]] by (simp add: applied_def)
  next
    case False
    with res show ?thesis by (auto split: if_splits)
  qed
qed

lemma engine_step_shape:
  assumes "engine_step e a e'" "engine_inv e" "op_keyed a"
  shows "quiet e e' \<or> (\<exists>b. op_branch e a = Some b \<and> commits_on e b e')"
  using assms
proof (induction rule: engine_step.induct)
  case (step_commit e b cs e' c)
  then show ?case using commit_shape by simp
next
  case (step_branch e name "from" e')
  from step_branch(1) show ?case
    by (rule create_branch_cases) (auto simp: quiet_def e_hist_def)
next
  case (step_merge e "from" into e' mr)
  then show ?case using merge_shape [OF step_merge(2,1)] by auto
next
  case (step_update e b e' mr)
  then show ?case using update_shape [OF step_update(2,1)] by auto
next
  case (step_open e b e' sid)
  from step_open(1) show ?case by (rule open_session_cases) (simp add: quiet_def e_hist_def)
next
  case (step_write e sid cs e')
  then show ?case using same_core_quiet [OF session_write_core [OF step_write(2,1)]] by blast
next
  case (step_commit_session e sid e' c)
  from step_commit_session(1) show ?case
  proof (rule commit_session_cases)
    fix s b assume o: "open_at e sid s" "fmlookup (e_branches e) (s_branch s) = Some b" "b_head_commit b = s_base s"
      and e': "e' = advanced e (s_branch s) b (sealed e sid s b) (fmupd sid (s\<lparr>s_open := False\<rparr>) (e_sessions e))
            [b_head_commit b]"
    show ?case
      using commits_onI [OF moves_sealed [OF step_commit_session(2) o]] o(1) by (simp add: e' open_at_def)
  qed
next
  case (step_abandon e sid)
  then show ?case using abandon_core same_core_quiet by blast
qed

lemma engine_step_next_id:
  assumes "engine_step e a e'" "engine_inv e" "op_keyed a"
  shows "e_next_id e' \<le> e_next_id e + 1 \<and> e_next_id e \<le> e_next_id e'"
  using engine_step_shape [OF assms] by (auto simp: quiet_def commits_on_def)

subsection \<open>Runs\<close>

text \<open>A run of keyed operations that cannot exhaust the sequence numbers.\<close>

definition run_ok :: "operation list \<Rightarrow> bool" where
  "run_ok ops \<longleftrightarrow> list_all op_keyed ops \<and> int (length ops) + 1 < max_seq"

lemma engine_exec_inv:
  assumes "engine_inv e" "has_room e" "op_keyed a"
  shows "engine_inv (engine_exec e a)" "e_next_id (engine_exec e a) \<le> e_next_id e + 1"
  using engine_exec_step [of e a] engine_inv_step [of e a "engine_exec e a"]
    engine_step_next_id [of e a "engine_exec e a"] assms by auto

lemma engine_fold_inv:
  assumes "engine_inv e" "int (e_next_id e) + int (length ops) < max_seq" "list_all op_keyed ops"
  shows "engine_inv (foldl engine_exec e ops) \<and> e_next_id (foldl engine_exec e ops) \<le> e_next_id e + length ops"
  using assms
proof (induction ops arbitrary: e)
  case (Cons a ops)
  have room: "has_room e" using Cons.prems(2) by (simp add: has_room_def)
  have "op_keyed a" using Cons.prems(3) by simp
  note x = engine_exec_inv [OF Cons.prems(1) room this]
  have "engine_inv (foldl engine_exec (engine_exec e a) ops) \<and>
      e_next_id (foldl engine_exec (engine_exec e a) ops) \<le> e_next_id (engine_exec e a) + length ops"
    by (rule Cons.IH [OF x(1)]) (use x(2) Cons.prems in simp_all)
  then show ?case using x(2) by simp
qed simp

lemma engine_run_inv:
  assumes "run_ok ops"
  shows "engine_inv (engine_run sc ops)" "has_room (engine_run sc ops)"
proof -
  have "engine_inv (foldl engine_exec (new_engine sc) ops) \<and>
      e_next_id (foldl engine_exec (new_engine sc) ops) \<le> e_next_id (new_engine sc) + length ops"
    by (rule engine_fold_inv [OF engine_inv_new]) (use assms in \<open>simp_all add: run_ok_def new_engine_simps\<close>)
  then show "engine_inv (engine_run sc ops)" "has_room (engine_run sc ops)"
    using assms by (simp_all add: engine_run_def has_room_def new_engine_simps run_ok_def)
qed

lemma run_ok_append: "run_ok (ops @ ops') \<Longrightarrow> run_ok ops"
  by (simp add: run_ok_def)

subsection \<open>Histories do not change\<close>

lemma commit_row_step:
  assumes "engine_step e a e'" "engine_inv e" "has_room e" "op_keyed a" "c \<in> fmdom' (e_commits e)"
  shows "commit_row e' c p = commit_row e c p" "c \<in> fmdom' (e_commits e')"
proof -
  have i: "inv_rows e" "inv_branches e" "inv_commits e" using assms(2) by (simp_all add: engine_inv_def)
  have "commit_row e' c p = commit_row e c p \<and> c \<in> fmdom' (e_commits e')"
    using engine_step_shape [OF assms(1,2,4)]
  proof
    assume "quiet e e'"
    then show ?thesis using assms(5) by (simp add: quiet_def commit_row_def commit_chain_def)
  next
    assume "\<exists>b. op_branch e a = Some b \<and> commits_on e b e'"
    then obtain b b0 bb rows ss ps N where mv: "moves e b b0 bb rows N" and e': "e' = advanced e b bb rows ss ps"
      unfolding commits_on_def by blast
    show ?thesis
      using commit_row_advanced [OF mv i(1,2) assms(3) i(3) assms(5)] assms(5) by (simp add: e')
  qed
  then show "commit_row e' c p = commit_row e c p" "c \<in> fmdom' (e_commits e')" by blast+
qed

lemma state_at_commit_step:
  assumes "engine_step e a e'" "engine_inv e" "has_room e" "op_keyed a" "c \<in> fmdom' (e_commits e)"
  shows "state_at_commit e' c = state_at_commit e c"
  using commit_row_step(1) [OF assms] by (intro fmap_ext) (simp add: fmlookup_state_at_commit)

lemma state_at_commit_fold:
  assumes "engine_inv e" "int (e_next_id e) + int (length ops) < max_seq" "list_all op_keyed ops"
    and "c \<in> fmdom' (e_commits e)"
  shows "state_at_commit (foldl engine_exec e ops) c = state_at_commit e c"
  using assms
proof (induction ops arbitrary: e)
  case (Cons a ops)
  have room: "has_room e" using Cons.prems(2) by (simp add: has_room_def)
  have k: "op_keyed a" using Cons.prems(3) by simp
  note x = engine_exec_inv [OF Cons.prems(1) room k]
  have c: "state_at_commit (engine_exec e a) c = state_at_commit e c \<and> c \<in> fmdom' (e_commits (engine_exec e a))"
    using engine_exec_step [of e a]
  proof
    assume s: "engine_step e a (engine_exec e a)"
    show ?thesis
      using state_at_commit_step [OF s Cons.prems(1) room k Cons.prems(4)]
        commit_row_step(2) [OF s Cons.prems(1) room k Cons.prems(4)] by blast
  qed (use Cons.prems(4) in simp)
  have "state_at_commit (foldl engine_exec (engine_exec e a) ops) c = state_at_commit (engine_exec e a) c"
    by (rule Cons.IH [OF x(1)]) (use x(2) Cons.prems c in simp_all)
  then show ?case using c by simp
qed simp

subsection \<open>Branches are isolated\<close>

lemma branch_row_step:
  assumes "engine_step e a e'" "engine_inv e" "has_room e" "op_keyed a"
    and "op_branch e a \<noteq> Some x" "fmlookup (e_branches e) x = Some bb"
  shows "fmlookup (e_branches e') x = Some bb" "branch_row e' x bb p = branch_row e x bb p"
proof -
  have i: "inv_rows e" "inv_branches e" "inv_commits e" using assms(2) by (simp_all add: engine_inv_def)
  have "fmlookup (e_branches e') x = Some bb \<and> branch_row e' x bb p = branch_row e x bb p"
    using engine_step_shape [OF assms(1,2,4)]
  proof
    assume "quiet e e'"
    then show ?thesis using assms(6) by (simp add: quiet_def branch_row_def)
  next
    assume "\<exists>b. op_branch e a = Some b \<and> commits_on e b e'"
    then obtain b b0 b1 rows ss ps N where b: "op_branch e a = Some b"
      and mv: "moves e b b0 b1 rows N" and e': "e' = advanced e b b1 rows ss ps"
      unfolding commits_on_def by blast
    have "tail_in e (head_chain x bb)" using head_chain_in [OF assms(2,6)] by (simp add: chain_in_def)
    from tail_in_advanced(2) [OF mv i(1,2) assms(3) this, of p]
    have "branch_row e' x bb p = branch_row e x bb p" by (simp add: branch_row_def e' head_chain_def)
    moreover have "fmlookup (e_branches e') x = Some bb"
      using b assms(5,6) by (simp add: e' advanced_branches)
    ultimately show ?thesis by blast
  qed
  then show "fmlookup (e_branches e') x = Some bb" "branch_row e' x bb p = branch_row e x bb p" by blast+
qed

lemma resolve_step:
  assumes "engine_step e a e'" "engine_inv e" "has_room e" "op_keyed a"
    and "op_branch e a \<noteq> Some x" "x \<in> fmdom' (e_branches e)"
  shows "resolve e' x = resolve e x"
proof -
  obtain bb where bb: "fmlookup (e_branches e) x = Some bb" using assms(6) by (auto simp: fmlookup_dom'_iff)
  have b': "fmlookup (e_branches e') x = Some bb" by (rule branch_row_step(1) [OF assms(1-5) bb])
  have "fmlookup (nil_table (resolve e' x)) p = fmlookup (nil_table (resolve e x)) p" for p
    using branch_row_step(2) [OF assms(1-5) bb, of p] by (simp add: fmlookup_resolve [OF bb] fmlookup_resolve [OF b'])
  then have "nil_table (resolve e' x) = nil_table (resolve e x)" by (rule fmap_ext)
  then show ?thesis using bb b' by (simp add: resolve_def nil_table_def)
qed

subsection \<open>Sessions are isolated\<close>

fun op_session :: "operation \<Rightarrow> string option" where
  "op_session (OWrite sid cs) = Some sid"
| "op_session (OCommitSession sid) = Some sid"
| "op_session (OAbandon sid) = Some sid"
| "op_session _ = None"

lemma session_id_nonempty:
  assumes "engine_inv e" "fmlookup (e_sessions e) x = Some s"
  shows "x \<noteq> []"
proof -
  have "inv_sessions e" using assms(1) by (simp add: engine_inv_def)
  then obtain k where "x = session_id k" using assms(2) unfolding inv_sessions_def by blast
  then show ?thesis by simp
qed

lemma applied_sessions:
  assumes "x \<noteq> []"
  shows "e_sessions (applied e b bb current result ps) = e_sessions e"
    "staged (e_rows (applied e b bb current result ps)) x p = staged (e_rows e) x p"
  using write_versions_staged [OF apply_writes_on assms] by (simp_all add: applied_def)

lemma session_step:
  assumes "engine_step e a e'" "engine_inv e" "op_keyed a" "op_session a \<noteq> Some x"
    and "fmlookup (e_sessions e) x = Some s"
  shows "fmlookup (e_sessions e') x = Some s \<and> staged (e_rows e') x p = staged (e_rows e) x p"
  using assms
proof (induction rule: engine_step.induct)
  case (step_commit e b cs e' c)
  then have ne: "x \<noteq> []" using session_id_nonempty by blast
  obtain b0 where b0: "fmlookup (e_branches e) b = Some b0"
    using step_commit(1) by (auto simp: engine_commit_def split: option.splits)
  then show ?case
    using step_commit engine_commit_eq [OF b0] write_versions_staged [OF commit_writes_on ne] by auto
next
  case (step_branch e name "from" e')
  from step_branch(1) show ?case by (rule create_branch_cases) (use step_branch in simp)
next
  case (step_merge e "from" into e' mr)
  then have ne: "x \<noteq> []" using session_id_nonempty by blast
  from step_merge(1) show ?case
    by (rule engine_merge_cases)
      (use step_merge(5) applied_sessions [OF ne] in \<open>auto split: if_splits\<close>)
next
  case (step_update e b e' mr)
  then have ne: "x \<noteq> []" using session_id_nonempty by blast
  from step_update(1) show ?case
    by (rule update_from_parent_cases)
      (use step_update(5) applied_sessions [OF ne] in \<open>auto split: if_splits\<close>)
next
  case (step_open e b e' sid)
  have "fmlookup (e_sessions e) (session_id (e_next_sess e + 1)) = None" by (rule session_fresh [OF step_open(2)])
  then have "x \<noteq> session_id (e_next_sess e + 1)" using step_open(5) by auto
  then show ?case using step_open(1) by (elim open_session_cases) (use step_open(5) in simp)
next
  case (step_write e sid cs e')
  then have ne: "x \<noteq> sid" by simp
  from step_write(1) show ?case
  proof (rule session_write_cases)
    fix t b view rows view'
    assume o: "open_at e sid t" and v: "session_resolve e sid = Some view"
      and f: "foldl (session_change (e_schema e) sid (s_branch t) (b_head_seq b)) (e_rows e, view) (cs_sorted cs)
        = (rows, view')" and e': "e' = e\<lparr>e_rows := rows\<rparr>"
    have "writing e sid t (rows, view')"
      using writing_fold [OF o writing_init [OF step_write(2) o v]] f by metis
    then show ?case using ne step_write(5) by (simp add: e' writing_def)
  qed
next
  case (step_commit_session e sid e' c)
  then have ne: "x \<noteq> []" "x \<noteq> sid" using session_id_nonempty by auto
  obtain t where "fmlookup (e_sessions e) sid = Some t"
    using step_commit_session(1) by (auto elim: commit_session_cases simp: open_at_def)
  then have "sid \<noteq> []" by (rule session_id_nonempty [OF step_commit_session(2)])
  from step_commit_session(1) show ?case
    by (rule commit_session_cases)
      (use step_commit_session(5) ne staged_sealed [OF \<open>sid \<noteq> []\<close> ne(1)] in simp)
next
  case (step_abandon e sid)
  then have "x \<noteq> sid" by simp
  then have "staged (filter (\<lambda>v. v_session v \<noteq> sid) (e_rows e)) x p = staged (e_rows e) x p"
    unfolding staged_def filter_filter by (intro filter_cong) auto
  then show ?case using step_abandon \<open>x \<noteq> sid\<close> by (simp add: abandon_session_def split: option.splits)
qed

lemma session_resolve_view:
  assumes "engine_inv e" "open_at e sid s"
  shows "session_resolve e sid \<noteq> None"
    "fmlookup (nil_table (session_resolve e sid)) q = staged_view e s (e_rows e) sid q"
proof -
  have "inv_sessions e" using assms(1) by (simp add: engine_inv_def)
  then have "s_base s \<in> fmdom' (e_commits e)" using assms(2) unfolding inv_sessions_def open_at_def by blast
  then obtain cm where cm: "fmlookup (e_commits e) (s_base s) = Some cm" by (auto simp: fmlookup_dom'_iff)
  have ne: "sid \<noteq> []" using session_id_nonempty [OF assms(1)] assms(2) by (auto simp: open_at_def)
  show "session_resolve e sid \<noteq> None" using assms(2) cm by (simp add: session_resolve_def open_at_def)
  show "fmlookup (nil_table (session_resolve e sid)) q = staged_view e s (e_rows e) sid q"
    using assms(2) cm ne
    by (auto simp: session_resolve_def open_at_def nil_table_def fmlookup_resolve_session view_row_def
        staged_view_def commit_row_def commit_chain_def e_hist_def split: list.splits)
qed

lemma session_view_step:
  assumes "engine_step e a e'" "engine_inv e" "has_room e" "op_keyed a" "op_session a \<noteq> Some x"
    and "open_at e x s"
  shows "open_at e' x s" "session_resolve e' x = session_resolve e x"
proof -
  have x: "fmlookup (e_sessions e) x = Some s" using assms(6) by (simp add: open_at_def)
  note st = session_step [OF assms(1,2,4,5) x]
  show o': "open_at e' x s" using st assms(6) by (simp add: open_at_def)
  have inv': "engine_inv e'" by (rule engine_inv_step [OF assms(1-4)])
  have "inv_sessions e" using assms(2) by (simp add: engine_inv_def)
  then have "s_base s \<in> fmdom' (e_commits e)" using assms(6) unfolding inv_sessions_def open_at_def by blast
  note cr = commit_row_step(1) [OF assms(1-4) this]
  have "fmlookup (nil_table (session_resolve e' x)) q = fmlookup (nil_table (session_resolve e x)) q" for q
    using st [of q] cr [of q]
    by (simp add: session_resolve_view(2) [OF inv' o'] session_resolve_view(2) [OF assms(2,6)] staged_view_def
        cong: list.case_cong)
  then have "nil_table (session_resolve e' x) = nil_table (session_resolve e x)" by (rule fmap_ext)
  then show "session_resolve e' x = session_resolve e x"
    using session_resolve_view(1) [OF inv' o'] session_resolve_view(1) [OF assms(2,6)]
    by (auto simp: nil_table_def)
qed

end
