(* ===== verification/EngineRefine.thy ===== *)
theory EngineRefine
  imports EngineRun
begin

text \<open>
  The engine refines the reference model: under the refinement relation every call on the engine and
  the same call on the model answer the same (the same error, the same commit or session id, the same
  merge outcome) and leave related states. Rows are compared with \<^verbatim>\<open>Row.Equal\<close>, so the relation is for
  rows without NaN. The model's full cell merge against the engine's masked merge rests on the mask
  soundness of \<open>EngineMerge\<close>.
\<close>

subsection \<open>The relation\<close>

definition branch_rel :: "branch \<Rightarrow> mbranch \<Rightarrow> bool" where
  "branch_rel b m \<longleftrightarrow>
     b_head_commit b = mb_head m \<and> b_parent b = mb_parent m \<and> b_fork_commit b = mb_fork_commit m"

definition table_rel :: "(pk \<Rightarrow> row option) \<Rightarrow> table \<Rightarrow> bool" where
  "table_rel f t \<longleftrightarrow> (\<forall>p. same_opt (f p) (fmlookup t p))"

definition commit_rel :: "engine \<Rightarrow> string \<Rightarrow> commit_meta \<Rightarrow> mcommit \<Rightarrow> bool" where
  "commit_rel e c cm mc \<longleftrightarrow> cm_parents cm = mc_parents mc \<and> table_rel (commit_row e c) (mc_state mc)"

definition session_rel :: "engine \<Rightarrow> string \<Rightarrow> session \<Rightarrow> msession \<Rightarrow> bool" where
  "session_rel e sid s m \<longleftrightarrow>
     s_branch s = ms_branch m \<and> s_base s = ms_base m \<and> s_open s = ms_open m \<and>
     (s_open s \<longrightarrow> table_rel (staged_view e s (e_rows e) sid) (ms_overlay m))"

definition refines :: "engine \<Rightarrow> repo \<Rightarrow> bool" where
  "refines e r \<longleftrightarrow>
     e_schema e = r_schema r \<and> e_next_id e = r_next_id r \<and> e_next_sess e = r_next_sess r \<and>
     (\<forall>x. rel_option branch_rel (fmlookup (e_branches e) x) (fmlookup (r_branches r) x)) \<and>
     (\<forall>c. rel_option (commit_rel e c) (fmlookup (e_commits e) c) (fmlookup (r_commits r) c)) \<and>
     (\<forall>sid. rel_option (session_rel e sid) (fmlookup (e_sessions e) sid) (fmlookup (r_sessions r) sid))"

text \<open>Change sets as the API hands them over, and free of NaN.\<close>

definition cs_ok :: "changeset \<Rightarrow> bool" where
  "cs_ok cs \<longleftrightarrow> cs_keyed cs \<and> (\<forall>k ch. fmlookup cs k = Some ch \<longrightarrow> row_ok (ch_row ch))"

fun op_ok :: "operation \<Rightarrow> bool" where
  "op_ok (OCommit b cs) = cs_ok cs"
| "op_ok (OWrite sid cs) = cs_ok cs"
| "op_ok _ = True"

lemma op_ok_keyed: "op_ok a \<Longrightarrow> op_keyed a"
  by (cases a) (auto simp: cs_ok_def)

text \<open>Answers: merge results agree up to \<^verbatim>\<open>Row.Equal\<close> and the representation of cells.\<close>

definition merge_rel :: "merge_result \<Rightarrow> merge_result \<Rightarrow> bool" where
  "merge_rel a b \<longleftrightarrow>
     mr_base a = mr_base b \<and> mr_clean a = mr_clean b \<and> mr_commit a = mr_commit b \<and>
     table_rel (fmlookup (mr_result a)) (mr_result b) \<and>
     conflict_repr ` set (mr_conflicts a) = conflict_repr ` set (mr_conflicts b)"

fun reply_rel :: "reply \<Rightarrow> reply \<Rightarrow> bool" where
  "reply_rel (RCommit c) (RCommit d) = (c = d)"
| "reply_rel (RSession c) (RSession d) = (c = d)"
| "reply_rel RDone RDone = True"
| "reply_rel (RMerge a) (RMerge b) = merge_rel a b"
| "reply_rel _ _ = False"

fun model_call :: "repo \<Rightarrow> operation \<Rightarrow> repo_error + repo \<times> reply" where
  "model_call r (OCommit b cs) = reply_with RCommit (model_commit r b cs)"
| "model_call r (OCreateBranch name from) = reply_done (model_create_branch r name from)"
| "model_call r (OMerge from into) = reply_with RMerge (model_merge r from into)"
| "model_call r (OUpdate b) = reply_with RMerge (model_update_from_parent r b)"
| "model_call r (OOpen b) = reply_with RSession (model_open_session r b)"
| "model_call r (OWrite sid cs) = reply_done (model_session_write r sid cs)"
| "model_call r (OCommitSession sid) = reply_with RCommit (model_commit_session r sid)"
| "model_call r (OAbandon sid) = Inr (model_abandon_session r sid, RDone)"

definition model_exec :: "repo \<Rightarrow> operation \<Rightarrow> repo" where
  "model_exec r a = (case model_call r a of Inl _ \<Rightarrow> r | Inr (r', _) \<Rightarrow> r')"

definition model_run :: "schema \<Rightarrow> operation list \<Rightarrow> repo" where
  "model_run sc ops = foldl model_exec (model_new sc) ops"

definition call_rel :: "repo_error + engine \<times> reply \<Rightarrow> repo_error + repo \<times> reply \<Rightarrow> bool" where
  "call_rel x y \<longleftrightarrow>
     (case x of
        Inl err \<Rightarrow> y = Inl err
      | Inr (e, q) \<Rightarrow> (case y of Inl _ \<Rightarrow> False | Inr (r, q') \<Rightarrow> refines e r \<and> reply_rel q q'))"

lemma call_rel_simps [simp]:
  "call_rel (Inl err) y \<longleftrightarrow> y = Inl err"
  "call_rel (Inr (e, q)) (Inr (r, q')) \<longleftrightarrow> refines e r \<and> reply_rel q q'"
  "\<not> call_rel (Inr (e, q)) (Inl err)"
  by (simp_all add: call_rel_def)

subsection \<open>Using the relation\<close>

lemma same_opt_trans: "same_opt a b \<Longrightarrow> same_opt b c \<Longrightarrow> same_opt a c"
  by (simp add: same_opt_iff)

lemma same_opt_sym: "same_opt a b \<Longrightarrow> same_opt b a"
  by (simp add: same_opt_iff)

lemma row_like_trans: "row_like a b \<Longrightarrow> same_opt b c \<Longrightarrow> same_opt a c"
  using same_opt_trans by (auto simp: row_like_def)

lemma refines_branch:
  assumes "refines e r"
  shows "fmlookup (e_branches e) x = None \<Longrightarrow> fmlookup (r_branches r) x = None"
    "fmlookup (e_branches e) x = Some b \<Longrightarrow> \<exists>m. fmlookup (r_branches r) x = Some m \<and> branch_rel b m"
proof -
  have "rel_option branch_rel (fmlookup (e_branches e) x) (fmlookup (r_branches r) x)"
    using assms by (simp add: refines_def)
  then show "fmlookup (e_branches e) x = None \<Longrightarrow> fmlookup (r_branches r) x = None"
    "fmlookup (e_branches e) x = Some b \<Longrightarrow> \<exists>m. fmlookup (r_branches r) x = Some m \<and> branch_rel b m"
    by (cases "fmlookup (r_branches r) x"; simp)+
qed

lemma refines_commit:
  assumes "refines e r" "c \<in> fmdom' (e_commits e)"
  obtains mc where "fmlookup (r_commits r) c = Some mc" "table_rel (commit_row e c) (mc_state mc)"
proof -
  obtain cm where cm: "fmlookup (e_commits e) c = Some cm" using assms(2) by (auto simp: fmlookup_dom'_iff)
  have "rel_option (commit_rel e c) (fmlookup (e_commits e) c) (fmlookup (r_commits r) c)"
    using assms(1) by (simp add: refines_def)
  then show thesis using cm that by (cases "fmlookup (r_commits r) c") (auto simp: commit_rel_def)
qed

lemma refines_session:
  assumes "refines e r"
  shows "fmlookup (e_sessions e) x = None \<Longrightarrow> fmlookup (r_sessions r) x = None"
    "fmlookup (e_sessions e) x = Some b \<Longrightarrow> \<exists>m. fmlookup (r_sessions r) x = Some m \<and> session_rel e x b m"
proof -
  have "rel_option (session_rel e x) (fmlookup (e_sessions e) x) (fmlookup (r_sessions r) x)"
    using assms by (simp add: refines_def)
  then show "fmlookup (e_sessions e) x = None \<Longrightarrow> fmlookup (r_sessions r) x = None"
    "fmlookup (e_sessions e) x = Some b \<Longrightarrow> \<exists>m. fmlookup (r_sessions r) x = Some m \<and> session_rel e x b m"
    by (cases "fmlookup (r_sessions r) x"; simp)+
qed

text \<open>A head commit's state is what its branch shows.\<close>

lemma refines_head:
  assumes "refines e r" "engine_inv e" "fmlookup (e_branches e) x = Some b"
  obtains mc where "fmlookup (r_commits r) (b_head_commit b) = Some mc" "table_rel (branch_row e x b) (mc_state mc)"
proof -
  obtain mc where mc: "fmlookup (r_commits r) (b_head_commit b) = Some mc"
    "table_rel (commit_row e (b_head_commit b)) (mc_state mc)"
    using refines_commit [OF assms(1) head_in_commits [OF assms(2,3)]] .
  moreover have "commit_row e (b_head_commit b) = branch_row e x b"
    using engine_inv_branch [OF assms(2,3)] by (simp add: inv_branch_def fun_eq_iff)
  ultimately show thesis using that by simp
qed

lemma refines_graph:
  assumes "refines e r"
  shows "engine_graph e = model_graph r"
proof (rule fmap_ext)
  fix c
  have "rel_option (commit_rel e c) (fmlookup (e_commits e) c) (fmlookup (r_commits r) c)"
    using assms by (simp add: refines_def)
  then show "fmlookup (engine_graph e) c = fmlookup (model_graph r) c"
    by (cases rule: option.rel_cases) (auto simp: engine_graph_def model_graph_def commit_rel_def)
qed

lemma refines_bases: "refines e r \<Longrightarrow> merge_base e a b = model_bases r a b"
  by (simp add: merge_base_def model_bases_def merge_base_agree refines_graph)

subsection \<open>Applying changes\<close>

lemma model_apply_fold:
  assumes "distinct (map ch_pk chs)"
  shows "fmlookup (foldl (\<lambda>next ch. if ch_op ch = OpDelete then fmdrop (ch_pk ch) next
       else fmupd (ch_pk ch) (ch_row ch) next) t chs) q
    = (case find (\<lambda>ch. ch_pk ch = q) chs of None \<Rightarrow> fmlookup t q | Some ch \<Rightarrow> change_row ch)"
  using assms
proof (induction chs arbitrary: t)
  case (Cons ch chs)
  have "q = ch_pk ch \<Longrightarrow> find (\<lambda>ch. ch_pk ch = q) chs = None"
    using Cons.prems by (auto simp: find_None_iff image_iff)
  then show ?case using Cons by (auto simp: change_row_def split: option.splits)
qed simp

lemma fmlookup_model_apply [fm_simps]:
  assumes "cs_keyed cs"
  shows "fmlookup (model_apply t cs) q
    = (case fmlookup cs q of None \<Rightarrow> fmlookup t q | Some ch \<Rightarrow> change_row ch)"
  unfolding model_apply_def
  by (subst model_apply_fold) (simp_all add: cs_sorted_pks [OF assms] find_keyed [OF assms])

lemma change_row_ok: "cs_ok cs \<Longrightarrow> fmlookup cs q = Some ch \<Longrightarrow> same_opt (change_row ch) (change_row ch)"
  by (auto simp: cs_ok_def change_row_def same_opt_iff opt_ok_def)

text \<open>Changes applied on both sides of a related table.\<close>

lemma table_rel_apply:
  assumes "cs_ok cs" "table_rel f t"
    and "\<And>q. g q = (case fmlookup cs q of Some ch \<Rightarrow> change_row ch | None \<Rightarrow> f q)"
  shows "table_rel g (model_apply t cs)"
proof -
  have k: "cs_keyed cs" using assms(1) by (simp add: cs_ok_def)
  show ?thesis
    using assms(2,3) change_row_ok [OF assms(1)]
    by (auto simp: table_rel_def fmlookup_model_apply [OF k] split: option.splits)
qed

subsection \<open>Frames of a step\<close>

lemma commit_rel_step:
  assumes "engine_step e a e'" "engine_inv e" "has_room e" "op_keyed a"
    and "fmlookup (e_commits e) c = Some cm" "commit_rel e c cm mc"
  shows "commit_rel e' c cm mc"
  using assms(6) commit_row_step(1) [OF assms(1-4) fmdom'I [OF assms(5)]]
  by (simp add: commit_rel_def table_rel_def)

lemma session_rel_step:
  assumes "engine_step e a e'" "engine_inv e" "has_room e" "op_keyed a" "op_session a \<noteq> Some x"
    and "fmlookup (e_sessions e) x = Some s" "session_rel e x s m"
  shows "session_rel e' x s m"
proof -
  have "staged_view e' s (e_rows e') x p = staged_view e s (e_rows e) x p" if "s_open s" for p
  proof -
    have "inv_sessions e" using assms(2) by (simp add: engine_inv_def)
    then have "s_base s \<in> fmdom' (e_commits e)" using assms(6) that unfolding inv_sessions_def by blast
    then show ?thesis
      using session_step [OF assms(1,2,4-6), of p] commit_row_step(1) [OF assms(1-4)]
      by (simp add: staged_view_def cong: list.case_cong)
  qed
  then show ?thesis using assms(7) by (simp add: session_rel_def table_rel_def)
qed

lemma sessions_step:
  assumes "engine_step e a e'" "engine_inv e" "has_room e" "op_keyed a" "op_session a \<noteq> Some x"
    and "refines e r" "fmlookup (e_sessions e') x = fmlookup (e_sessions e) x"
  shows "rel_option (session_rel e' x) (fmlookup (e_sessions e') x) (fmlookup (r_sessions r) x)"
proof (cases "fmlookup (e_sessions e) x")
  case None
  then show ?thesis using refines_session(1) [OF assms(6)] assms(7) by simp
next
  case (Some s)
  then show ?thesis
    using refines_session(2) [OF assms(6) Some] session_rel_step [OF assms(1-5) Some] assms(7) by auto
qed

text \<open>A step that changes neither commits nor sessions nor counters.\<close>

lemma refines_quiet:
  assumes "engine_step e a e'" "engine_inv e" "has_room e" "op_keyed a" "refines e r"
    and "e_schema e' = e_schema e" "e_next_id e' = e_next_id e" "e_commits e' = e_commits e"
    and "r_schema r' = r_schema r" "r_next_id r' = r_next_id r" "r_commits r' = r_commits r"
    and "e_next_sess e' = r_next_sess r'"
    and "\<And>x. rel_option branch_rel (fmlookup (e_branches e') x) (fmlookup (r_branches r') x)"
    and "\<And>x. rel_option (session_rel e' x) (fmlookup (e_sessions e') x) (fmlookup (r_sessions r') x)"
  shows "refines e' r'"
proof -
  have "rel_option (commit_rel e' c) (fmlookup (e_commits e') c) (fmlookup (r_commits r') c)" for c
  proof -
    have "rel_option (commit_rel e c) (fmlookup (e_commits e) c) (fmlookup (r_commits r) c)"
      using assms(5) by (simp add: refines_def)
    then show ?thesis
      unfolding assms(8,11) using commit_rel_step [OF assms(1-4)] by (cases rule: option.rel_cases) auto
  qed
  then show ?thesis using assms by (simp add: refines_def)
qed

lemma model_add_commit_simps:
  "model_add_commit r b m ps seq state =
     (r\<lparr>r_next_id := r_next_id r + 1,
        r_commits := fmupd (commit_id (r_next_id r + 1))
          \<lparr>mc_id = commit_id (r_next_id r + 1), mc_parents = ps, mc_branch = b, mc_seq = seq, mc_state = state\<rparr>
          (r_commits r),
        r_branches := fmupd b (m\<lparr>mb_head := commit_id (r_next_id r + 1)\<rparr>) (r_branches r)\<rparr>,
      commit_id (r_next_id r + 1))"
  by (simp add: model_add_commit_def model_new_commit_id_def Let_def)

text \<open>A step that is one commit on a branch.\<close>

lemma refines_commit_on:
  assumes step: "engine_step e a e'" "engine_inv e" "has_room e" "op_keyed a" and r: "refines e r"
    and e': "e' = advanced e b bb rows ss ps"
    and m: "mb_parent m = b_parent bb" "mb_fork_commit m = b_fork_commit bb"
    and state: "table_rel (fmlookup (nil_table (resolve e' b))) state"
    and ses: "\<And>x. rel_option (session_rel e' x) (fmlookup ss x) (fmlookup ms x)"
  shows "refines e' ((fst (model_add_commit r b m ps seq state))\<lparr>r_sessions := ms\<rparr>)"
proof -
  let ?c = "commit_id (e_next_id e + 1)"
  have inv': "engine_inv e'" by (rule engine_inv_step [OF step])
  have fr: "e_schema e = r_schema r" "e_next_id e = r_next_id r" "e_next_sess e = r_next_sess r"
    using r by (simp_all add: refines_def)
  let ?bb = "bb\<lparr>b_head_seq := b_head_seq bb + 1, b_head_commit := ?c\<rparr>"
  have b': "fmlookup (e_branches e') b = Some ?bb" by (simp add: e' advanced_branches)
  have head: "commit_row e' ?c p = fmlookup (nil_table (resolve e' b)) p" for p
    using engine_inv_branch [OF inv' b'] by (simp add: inv_branch_def fmlookup_resolve [OF b'])
  have "rel_option (commit_rel e' c) (fmlookup (e_commits e') c)
      (fmlookup (r_commits (fst (model_add_commit r b m ps seq state))) c)" for c
  proof (cases "c = ?c")
    case True
    then show ?thesis
      using state head by (simp add: e' advanced_commits model_add_commit_simps fr(2) commit_rel_def table_rel_def)
  next
    case False
    have old: "rel_option (commit_rel e c) (fmlookup (e_commits e) c) (fmlookup (r_commits r) c)"
      using r by (simp add: refines_def)
    have "fmlookup (e_commits e') c = fmlookup (e_commits e) c" using False by (simp add: e' advanced_commits)
    moreover have "fmlookup (r_commits (fst (model_add_commit r b m ps seq state))) c = fmlookup (r_commits r) c"
      using False by (simp add: model_add_commit_simps fr(2))
    ultimately show ?thesis
      using commit_rel_step [OF step] by (cases rule: option.rel_cases [OF old]) auto
  qed
  moreover have "rel_option branch_rel (fmlookup (e_branches e') x)
      (fmlookup (r_branches (fst (model_add_commit r b m ps seq state))) x)" for x
    using r m by (simp add: e' advanced_branches model_add_commit_simps fr(2) refines_def branch_rel_def)
  ultimately show ?thesis
    using fr ses by (simp add: refines_def) (simp add: e' model_add_commit_simps)
qed

subsection \<open>Branches, commits and sessions\<close>

lemma refines_new: "refines (new_engine sc) (model_new sc)"
proof -
  have "commit_row (new_engine sc) c p = None" for c p
    by (simp add: commit_row_def commit_chain_def new_engine_simps e_hist_def seg_row_def hist_at_empty
        split: option.splits)
  then have "table_rel (commit_row (new_engine sc) c) fmempty" for c by (simp add: table_rel_def same_opt_def)
  then show ?thesis
    by (simp add: refines_def new_engine_simps model_new_def model_new_commit_id_def Let_def branch_rel_def
        commit_rel_def)
qed

lemma call_create_branch:
  assumes "engine_inv e" "has_room e" "refines e r"
  shows "call_rel (engine_call e (OCreateBranch name from)) (model_call r (OCreateBranch name from))"
proof (cases "create_branch e name from")
  case (Inl err)
  then have "model_create_branch r name from = Inl err"
    using refines_branch [OF assms(3), of name] refines_branch [OF assms(3), of "from"]
    by (auto simp: create_branch_def model_create_branch_def inherited_chain_from_def split: if_splits option.splits)
  then show ?thesis using Inl by simp
next
  case (Inr e')
  then have step: "engine_step e (OCreateBranch name from) e'" by simp
  from Inr show ?thesis
  proof (rule create_branch_cases)
    fix p assume n: "fmlookup (e_branches e) name = None" and p: "fmlookup (e_branches e) from = Some p"
      and e': "e' = e\<lparr>e_branches := fmupd name (forked name from p) (e_branches e)\<rparr>"
    obtain m where m: "fmlookup (r_branches r) from = Some m" "branch_rel p m"
      using refines_branch(2) [OF assms(3) p] by blast
    let ?r = "r\<lparr>r_branches := fmupd name \<lparr>mb_name = name, mb_head = mb_head m, mb_parent = from,
      mb_fork_commit = mb_head m\<rparr> (r_branches r)\<rparr>"
    have call: "model_create_branch r name from = Inr ?r"
      using refines_branch(1) [OF assms(3) n] m by (simp add: model_create_branch_def)
    have "refines e' ?r"
    proof (rule refines_quiet [OF step assms(1,2) _ assms(3)])
      show "rel_option branch_rel (fmlookup (e_branches e') x) (fmlookup (r_branches ?r) x)" for x
        using assms(3) m by (simp add: e' forked_def branch_rel_def refines_def)
      show "rel_option (session_rel e' x) (fmlookup (e_sessions e') x) (fmlookup (r_sessions ?r) x)" for x
        using sessions_step [OF step assms(1,2) _ _ assms(3), of x] by (simp add: e')
    qed (use assms(3) in \<open>simp_all add: e' refines_def\<close>)
    then show ?thesis using Inr call by simp
  qed
qed

lemma call_commit:
  assumes "engine_inv e" "has_room e" "refines e r" "cs_ok cs"
  shows "call_rel (engine_call e (OCommit b cs)) (model_call r (OCommit b cs))"
proof (cases "fmlookup (e_branches e) b")
  case None
  then show ?thesis
    using refines_branch(1) [OF assms(3) None] by (simp add: engine_commit_def model_commit_def)
next
  case (Some b0)
  have k: "cs_keyed cs" using assms(4) by (simp add: cs_ok_def)
  obtain m where m: "fmlookup (r_branches r) b = Some m" "branch_rel b0 m"
    using refines_branch(2) [OF assms(3) Some] by blast
  obtain mc where mc: "fmlookup (r_commits r) (b_head_commit b0) = Some mc" "table_rel (branch_row e b b0) (mc_state mc)"
    using refines_head [OF assms(3,1) Some] .
  let ?e = "advanced e b b0 (foldl write_version (e_rows e) (commit_writes e b b0 cs)) (e_sessions e)
      [b_head_commit b0]"
  let ?st = "model_apply (mc_state mc) cs"
  note c = engine_commit_eq [OF Some, of cs]
  have call: "model_commit r b cs = Inr (model_add_commit r b m [mb_head m] (mc_seq mc + 1) ?st)"
    using m mc by (simp add: model_commit_def branch_rel_def)
  have step: "engine_step e (OCommit b cs) ?e" using c by simp
  have "refines ?e ((fst (model_add_commit r b m [mb_head m] (mc_seq mc + 1) ?st))\<lparr>r_sessions := r_sessions r\<rparr>)"
  proof (rule refines_commit_on [OF step assms(1,2) _ assms(3)])
    show "?e = advanced e b b0 (foldl write_version (e_rows e) (commit_writes e b b0 cs)) (e_sessions e) [mb_head m]"
      using m(2) by (simp add: branch_rel_def)
    show "table_rel (fmlookup (nil_table (resolve ?e b))) ?st"
      by (rule table_rel_apply [OF assms(4) mc(2) engine_commit_row [OF assms(1,2) k c Some]])
    show "rel_option (session_rel ?e x) (fmlookup (e_sessions e) x) (fmlookup (r_sessions r) x)" for x
      using sessions_step [OF step assms(1,2) _ _ assms(3), of x] k by simp
  qed (use k m(2) in \<open>simp_all add: branch_rel_def\<close>)
  then show ?thesis
    using c call assms(3) by (simp add: model_add_commit_simps refines_def)
qed

lemma call_open:
  assumes "engine_inv e" "has_room e" "refines e r"
  shows "call_rel (engine_call e (OOpen b)) (model_call r (OOpen b))"
proof (cases "fmlookup (e_branches e) b")
  case None
  then show ?thesis
    using refines_branch(1) [OF assms(3) None] by (simp add: open_session_def model_open_session_def)
next
  case (Some b0)
  obtain m where m: "fmlookup (r_branches r) b = Some m" "branch_rel b0 m"
    using refines_branch(2) [OF assms(3) Some] by blast
  obtain mc where mc: "fmlookup (r_commits r) (b_head_commit b0) = Some mc" "table_rel (branch_row e b b0) (mc_state mc)"
    using refines_head [OF assms(3,1) Some] .
  show ?thesis
  proof (cases "b = root_branch")
    case True
    then show ?thesis using Some m by (simp add: open_session_def model_open_session_def)
  next
    case False
    let ?sid = "session_id (e_next_sess e + 1)"
    let ?s = "\<lparr>s_id = ?sid, s_branch = b, s_base = b_head_commit b0, s_base_seq = b_head_seq b0, s_open = True\<rparr>"
    let ?e = "e\<lparr>e_next_sess := e_next_sess e + 1, e_sessions := fmupd ?sid ?s (e_sessions e)\<rparr>"
    let ?r = "r\<lparr>r_next_sess := r_next_sess r + 1, r_sessions := fmupd ?sid \<lparr>ms_id = ?sid, ms_branch = b,
      ms_base = mb_head m, ms_overlay = mc_state mc, ms_open = True\<rparr> (r_sessions r)\<rparr>"
    have n: "e_next_sess e = r_next_sess r" using assms(3) by (simp add: refines_def)
    have c: "open_session e b = Inr (?e, ?sid)" using Some False by (simp add: open_session_def Let_def)
    have call: "model_open_session r b = Inr (?r, ?sid)"
      using m mc False by (simp add: model_open_session_def Let_def branch_rel_def n)
    have step: "engine_step e (OOpen b) ?e" using c by simp
    have fresh: "staged (e_rows e) ?sid p = []" for p
    proof (cases "staged (e_rows e) ?sid p")
      case (Cons v vs)
      have i: "inv_staged e" using assms(1) by (simp add: engine_inv_def)
      have "v \<in> set (staged (e_rows e) ?sid p)" using Cons by simp
      then obtain t where "open_at e ?sid t" by (rule staged_session [OF i]) simp
      then show ?thesis using session_fresh [OF assms(1)] by (simp add: open_at_def)
    qed simp
    have row: "commit_row ?e (b_head_commit b0) p = branch_row e b b0 p" for p
      using engine_inv_branch [OF assms(1) Some]
      by (simp add: inv_branch_def commit_row_def commit_chain_def e_hist_def)
    have "refines ?e ?r"
    proof (rule refines_quiet [OF step assms(1,2) _ assms(3)])
      show "rel_option branch_rel (fmlookup (e_branches ?e) x) (fmlookup (r_branches ?r) x)" for x
        using assms(3) by (simp add: refines_def)
      show "rel_option (session_rel ?e x) (fmlookup (e_sessions ?e) x) (fmlookup (r_sessions ?r) x)" for x
      proof (cases "x = ?sid")
        case True
        have "session_rel ?e ?sid ?s \<lparr>ms_id = ?sid, ms_branch = b,
            ms_base = mb_head m, ms_overlay = mc_state mc, ms_open = True\<rparr>"
          using m(2) mc(2) row fresh by (simp add: session_rel_def branch_rel_def staged_view_def table_rel_def)
        then show ?thesis using True n by simp
      next
        case False
        then show ?thesis using sessions_step [OF step assms(1,2) _ _ assms(3), of x] by simp
      qed
    qed (use assms(3) in \<open>simp_all add: refines_def\<close>)
    then show ?thesis using c call by simp
  qed
qed

end
