(* ===== verification/EngineRefineMerge.thy ===== *)
theory EngineRefineMerge
  imports EngineRefine
begin

text \<open>
  The rest of the refinement: sessions, and the two merging operations, where the engine's merge of the
  cells its masks select agrees with the model's merge of every cell.
\<close>

subsection \<open>Sessions\<close>

lemma session_write_ok:
  assumes "engine_inv e" "open_at e sid s"
  obtains e' where "session_write e sid cs = Inr e'"
proof -
  obtain view where v: "session_resolve e sid = Some view" using session_resolve_view(1) [OF assms] by blast
  have "inv_sessions e" using assms(1) by (simp add: engine_inv_def)
  then have "s_branch s \<in> fmdom' (e_branches e)" using assms(2) unfolding inv_sessions_def open_at_def by blast
  then obtain b where b: "fmlookup (e_branches e) (s_branch s) = Some b" by (auto simp: fmlookup_dom'_iff)
  show thesis
    using that assms(2) v b by (simp add: session_write_def open_at_def Let_def split_beta)
qed

lemma session_rel_view:
  assumes "engine_inv e" "open_at e sid s" "session_rel e sid s m"
  shows "table_rel (fmlookup (nil_table (session_resolve e sid))) (ms_overlay m)"
  using assms(2,3) session_resolve_view(2) [OF assms(1,2)] by (simp add: session_rel_def table_rel_def open_at_def)

lemma call_write:
  assumes "engine_inv e" "has_room e" "refines e r" "cs_ok cs"
  shows "call_rel (engine_call e (OWrite sid cs)) (model_call r (OWrite sid cs))"
proof (cases "fmlookup (e_sessions e) sid")
  case None
  then show ?thesis
    using refines_session(1) [OF assms(3) None] by (simp add: session_write_def model_session_write_def)
next
  case (Some s)
  obtain m where m: "fmlookup (r_sessions r) sid = Some m" "session_rel e sid s m"
    using refines_session(2) [OF assms(3) Some] by blast
  show ?thesis
  proof (cases "s_open s")
    case False
    then show ?thesis using Some m by (simp add: session_write_def model_session_write_def session_rel_def)
  next
    case True
    then have o: "open_at e sid s" using Some by (simp add: open_at_def)
    obtain e' where w: "session_write e sid cs = Inr e'" using session_write_ok [OF assms(1) o] .
    have k: "cs_keyed cs" using assms(4) by (simp add: cs_ok_def)
    have step: "engine_step e (OWrite sid cs) e'" using w by simp
    have inv': "engine_inv e'" by (rule engine_inv_step [OF step assms(1,2)]) (use k in simp)
    have core: "same_core e e'" by (rule session_write_core [OF assms(1) w])
    have ses: "e_sessions e' = e_sessions e" "e_next_sess e' = e_next_sess e"
      using w by (auto elim: session_write_cases)
    have o': "open_at e' sid s" using o ses by (simp add: open_at_def)
    let ?m = "m\<lparr>ms_overlay := model_apply (ms_overlay m) cs\<rparr>"
    let ?r = "r\<lparr>r_sessions := fmupd sid ?m (r_sessions r)\<rparr>"
    have call: "model_session_write r sid cs = Inr ?r"
      using m True by (simp add: model_session_write_def session_rel_def)
    have "table_rel (fmlookup (nil_table (session_resolve e' sid))) (model_apply (ms_overlay m) cs)"
      by (rule table_rel_apply [OF assms(4) session_rel_view [OF assms(1) o m(2)] session_write_view [OF assms(1) k w]])
    then have new: "session_rel e' sid s ?m"
      using m(2) session_resolve_view(2) [OF inv' o'] by (simp add: session_rel_def table_rel_def)
    have "refines e' ?r"
    proof (rule refines_quiet [OF step assms(1,2) _ assms(3)])
      show "rel_option branch_rel (fmlookup (e_branches e') x) (fmlookup (r_branches ?r) x)" for x
        using assms(3) core by (simp add: refines_def same_core_def)
      show "rel_option (session_rel e' x) (fmlookup (e_sessions e') x) (fmlookup (r_sessions ?r) x)" for x
        using sessions_step [OF step assms(1,2) _ _ assms(3), of x] new k Some ses by (cases "x = sid") simp_all
    qed (use assms(3) core ses k in \<open>simp_all add: refines_def same_core_def\<close>)
    then show ?thesis using w call by simp
  qed
qed

lemma call_abandon:
  assumes "engine_inv e" "has_room e" "refines e r"
  shows "call_rel (engine_call e (OAbandon sid)) (model_call r (OAbandon sid))"
proof (cases "fmlookup (e_sessions e) sid")
  case None
  then show ?thesis
    using refines_session(1) [OF assms(3) None] assms(3) by (simp add: abandon_session_def model_abandon_session_def)
next
  case (Some s)
  obtain m where m: "fmlookup (r_sessions r) sid = Some m" "session_rel e sid s m"
    using refines_session(2) [OF assms(3) Some] by blast
  let ?e = "abandon_session e sid" and ?r = "r\<lparr>r_sessions := fmupd sid (m\<lparr>ms_open := False\<rparr>) (r_sessions r)\<rparr>"
  have step: "engine_step e (OAbandon sid) ?e" by simp
  have core: "same_core e ?e" by (rule abandon_core [OF assms(1)])
  have e': "e_sessions ?e = fmupd sid (s\<lparr>s_open := False\<rparr>) (e_sessions e)" "e_next_sess ?e = e_next_sess e"
    by (simp_all add: abandon_session_def Some)
  have "refines ?e ?r"
  proof (rule refines_quiet [OF step assms(1,2) _ assms(3)])
    show "rel_option branch_rel (fmlookup (e_branches ?e) x) (fmlookup (r_branches ?r) x)" for x
      using assms(3) core by (simp add: refines_def same_core_def)
    show "rel_option (session_rel ?e x) (fmlookup (e_sessions ?e) x) (fmlookup (r_sessions ?r) x)" for x
      using sessions_step [OF step assms(1,2) _ _ assms(3), of x] m(2) e' by (cases "x = sid") (simp_all add: session_rel_def)
  qed (use assms(3) core e' in \<open>simp_all add: refines_def same_core_def\<close>)
  then show ?thesis using m by (simp add: model_abandon_session_def)
qed

lemma call_commit_session:
  assumes "engine_inv e" "has_room e" "refines e r"
  shows "call_rel (engine_call e (OCommitSession sid)) (model_call r (OCommitSession sid))"
proof (cases "fmlookup (e_sessions e) sid")
  case None
  then show ?thesis
    using refines_session(1) [OF assms(3) None] by (simp add: commit_session_def model_commit_session_def)
next
  case (Some s)
  obtain m where m: "fmlookup (r_sessions r) sid = Some m" "session_rel e sid s m"
    using refines_session(2) [OF assms(3) Some] by blast
  show ?thesis
  proof (cases "s_open s")
    case False
    then show ?thesis using Some m by (simp add: commit_session_def model_commit_session_def session_rel_def)
  next
    case True
    then have o: "open_at e sid s" using Some by (simp add: open_at_def)
    have "inv_sessions e" using assms(1) by (simp add: engine_inv_def)
    then have "s_branch s \<in> fmdom' (e_branches e)" using o unfolding inv_sessions_def open_at_def by blast
    then obtain b where b: "fmlookup (e_branches e) (s_branch s) = Some b" by (auto simp: fmlookup_dom'_iff)
    obtain mb where mb: "fmlookup (r_branches r) (s_branch s) = Some mb" "branch_rel b mb"
      using refines_branch(2) [OF assms(3) b] by blast
    show ?thesis
    proof (cases "b_head_commit b = s_base s")
      case False
      then show ?thesis
        using Some True b m mb
        by (simp add: commit_session_def model_commit_session_def session_rel_def branch_rel_def Let_def)
    next
      case h: True
      obtain mc where mc: "fmlookup (r_commits r) (b_head_commit b) = Some mc"
        using refines_head [OF assms(3,1) b] by metis
      let ?ss = "fmupd sid (s\<lparr>s_open := False\<rparr>) (e_sessions e)"
      let ?e = "advanced e (s_branch s) b (sealed e sid s b) ?ss [b_head_commit b]"
      let ?ms = "fmupd sid (m\<lparr>ms_open := False\<rparr>) (r_sessions r)"
      let ?c = "commit_id (e_next_id e + 1)"
      have c: "commit_session e sid = Inr (?e, ?c)"
        using Some True b h
        by (simp add: commit_session_def new_commit_id_def Let_def record_commit_def advanced_def chain_for_def
            sealed_def)
      have step: "engine_step e (OCommitSession sid) ?e" using c by simp
      have "refines ?e ((fst (model_add_commit r (s_branch s) mb [b_head_commit b] (mc_seq mc + 1) (ms_overlay m)))
          \<lparr>r_sessions := ?ms\<rparr>)"
      proof (rule refines_commit_on [OF step assms(1,2) _ assms(3) refl])
        show "table_rel (fmlookup (nil_table (resolve ?e (s_branch s)))) (ms_overlay m)"
          using session_rel_view [OF assms(1) o m(2)] commit_session_row [OF assms(1,2) c o] by (simp add: table_rel_def)
        show "rel_option (session_rel ?e x) (fmlookup ?ss x) (fmlookup ?ms x)" for x
          using sessions_step [OF step assms(1,2) _ _ assms(3), of x] m(2)
          by (cases "x = sid") (simp_all add: session_rel_def)
      qed (use mb in \<open>simp_all add: branch_rel_def\<close>)
      moreover have "model_commit_session r sid = Inr
          ((fst (model_add_commit r (s_branch s) mb [b_head_commit b] (mc_seq mc + 1) (ms_overlay m)))
             \<lparr>r_sessions := ?ms\<rparr>, ?c)"
        using m mb mc True h assms(3)
        by (simp add: model_commit_session_def session_rel_def branch_rel_def model_add_commit_simps refines_def)
      ultimately show ?thesis using c by simp
    qed
  qed
qed

subsection \<open>The merged tables\<close>

lemma row_ok_get: "row_ok r \<Longrightarrow> val_ok (row_get r c)"
  by (simp add: row_ok_iff)

lemma masked_cells_ok:
  assumes "row_ok b" "row_ok a" "row_ok t"
  shows "row_ok (fst (masked_cells cols mo mt p b a t))"
  unfolding row_ok_iff masked_cells_row
  using assms cell_pick_ok row_ok_get by (auto split: option.splits simp: row_ok_get)

lemma full_cells_ok:
  assumes "row_ok b" "row_ok a" "row_ok t"
  shows "row_ok (fst (full_cells cols p b a t))"
  unfolding row_ok_iff full_cells_row
  using assms cell_pick_ok row_ok_get by (auto split: option.splits)

lemma opt_ok_simps [simp]: "opt_ok None" "opt_ok (Some r) = row_ok r"
  by (simp_all add: opt_ok_def)

lemma merge_case_ok:
  assumes "opt_ok b" "opt_ok a" "opt_ok t"
    and "\<And>bx ax tx. b = Some bx \<Longrightarrow> a = Some ax \<Longrightarrow> t = Some tx \<Longrightarrow> row_ok (fst (cells p bx ax tx))"
  shows "opt_ok (fst (merge_case cells p b a t))"
proof (cases "b \<noteq> None \<and> a \<noteq> None \<and> t \<noteq> None")
  case True
  then obtain bx ax tx where x: "b = Some bx" "a = Some ax" "t = Some tx" by blast
  have "row_ok (fst (cells p bx ax tx))" by (rule assms(4) [OF x])
  then show ?thesis using assms(1-3) x by (simp add: merge_case_def Let_def split_beta opt_row_def)
next
  case False
  then show ?thesis using assms(1-3) by (auto simp: merge_case_def Let_def)
qed

lemma outcome_same:
  assumes "outcome_repr x = outcome_repr y" "opt_ok (fst x)" "opt_ok (fst y)"
  shows "same_opt (fst x) (fst y)" "conflict_repr ` set (snd x) = conflict_repr ` set (snd y)"
  using assms by (simp_all add: outcome_repr_def same_opt_iff)

lemma UN_support: "(\<And>p. p \<notin> K \<Longrightarrow> F p = {}) \<Longrightarrow> (\<Union>p \<in> K. F p) = (\<Union>p. F p)"
  by blast

lemma set_snd_merge_with: "set (snd (merge_with cells b a t)) = (\<Union>p. set (snd (merge_at cells b a t p)))"
proof -
  have none: "set (snd (merge_at cells b a t p)) = {}" if "p \<notin> set (merge_keys b a t)" for p
    using that by (simp add: set_merge_keys fmlookup_None_dom [THEN iffD2])
  have "set (snd (merge_with cells b a t)) = (\<Union>p \<in> set (merge_keys b a t). set (snd (merge_at cells b a t p)))"
    by (simp only: snd_merge_with set_sort_conflicts set_concat set_map image_image)
  also have "\<dots> = (\<Union>p. set (snd (merge_at cells b a t p)))" by (rule UN_support) (rule none)
  finally show ?thesis .
qed

lemma merged_agree:
  assumes inv: "engine_inv e" and r: "refines e r"
    and x: "fmlookup (e_branches e) x = Some xb" and y: "fmlookup (e_branches e) y = Some yb"
    and base: "base \<in> fmdom' (e_commits e)"
    and tb: "table_rel (commit_row e base) sb" and tx: "table_rel (branch_row e x xb) sx"
    and ty: "table_rel (branch_row e y yb) sy"
  shows "table_rel (fmlookup (fst (merged e base x y))) (fst (merge_tables (r_schema r) sb sx sy))"
    and "conflict_repr ` set (snd (merged e base x y)) = conflict_repr ` set (snd (merge_tables (r_schema r) sb sx sy))"
proof -
  let ?mo = "mask_since e x base" and ?mt = "mask_since e y base" and ?cols = "sc_cols (e_schema e)"
  let ?m = "\<lambda>p. merge_case (masked_cells ?cols ?mo ?mt) p (commit_row e base p) (branch_row e x xb p) (branch_row e y yb p)"
  let ?f = "merge_at (full_cells ?cols) sb sx sy"
  have sc: "r_schema r = e_schema e" using r by (simp add: refines_def)
  have rel: "same_opt (commit_row e base p) (fmlookup sb p)" "same_opt (branch_row e x xb p) (fmlookup sx p)"
    "same_opt (branch_row e y yb p) (fmlookup sy p)" for p
    using tb tx ty by (simp_all add: table_rel_def)
  have rel_ok: "opt_ok (commit_row e base p)" "opt_ok (branch_row e x xb p)" "opt_ok (branch_row e y yb p)"
    "opt_ok (fmlookup sb p)" "opt_ok (fmlookup sx p)" "opt_ok (fmlookup sy p)" for p
    using rel [of p] by (simp_all add: same_opt_iff)
  have sound: "cellv (branch_row e x xb p) c = cellv (commit_row e base p) c \<and>
      cellv (branch_row e y yb p) c = cellv (commit_row e base p) c"
    if "c \<in> set ?cols" "c \<notin> set (mask_candidates ?mo ?mt p)" for c p
    using that candidates_since(1) [OF inv] mask_since_sound_cell [OF inv x base]
      mask_since_sound_cell [OF inv y base] by (auto simp: e_cols_def)
  have agree: "outcome_repr (?m p) = outcome_repr (?f p)" for p
    by (rule merge_case_agree)
      (use rel_ok rel sound candidates_since(2) [OF inv] in \<open>auto simp: same_opt_iff e_cols_def\<close>)
  have ok: "opt_ok (fst (?m p))" "opt_ok (fst (?f p))" for p
    using rel_ok [of p]
    by (intro merge_case_ok masked_cells_ok full_cells_ok; simp add: opt_ok_def)+
  show "table_rel (fmlookup (fst (merged e base x y))) (fst (merge_tables (r_schema r) sb sx sy))"
    using outcome_same(1) [OF agree ok]
    by (simp add: table_rel_def merged_at(1) [OF x y] merge_tables_def fmlookup_merge_with sc)
  have cf: "set (snd (merged e base x y)) = (\<Union>p. set (snd (?m p)))"
    by (simp add: merged_def merge_states_def set_snd_merge_with fm_simps fmlookup_resolve [OF x] fmlookup_resolve [OF y])
  show "conflict_repr ` set (snd (merged e base x y)) = conflict_repr ` set (snd (merge_tables (r_schema r) sb sx sy))"
    unfolding cf merge_tables_def set_snd_merge_with sc image_UN
    using outcome_same(2) [OF agree ok] by simp
qed

subsection \<open>Merge and UpdateFromParent\<close>

text \<open>What a merge leaves on the branch against what the model stores.\<close>

lemma applied_agree:
  assumes inv: "engine_inv e" "has_room e"
    and mv: "moves e b b0 bb (foldl write_version (e_rows e) (apply_writes e b bb current result))
       (\<lambda>p. find (\<lambda>n. v_pk n = p) (apply_writes e b bb current result))"
    and cur: "\<And>p. fmlookup current p = branch_row e b bb p"
    and rel: "table_rel (fmlookup result) t"
  shows "table_rel (fmlookup (nil_table (resolve (applied e b bb current result ps) b))) t"
  using applied_row [OF inv mv cur] rel row_like_trans unfolding table_rel_def by blast

lemma clean_agree: "conflict_repr ` set xs = conflict_repr ` set ys \<Longrightarrow> xs = [] \<longleftrightarrow> ys = []"
  by (metis image_is_empty set_empty)

text \<open>The three snapshots the model merges, from the engine's side.\<close>

lemma merge_snapshots:
  assumes "refines e r" "engine_inv e" "fmlookup (e_branches e) x = Some xb" "fmlookup (e_branches e) y = Some yb"
    and "base \<in> fmdom' (e_commits e)"
  obtains cb cx cy where "fmlookup (r_commits r) base = Some cb" "fmlookup (r_commits r) (b_head_commit xb) = Some cx"
    "fmlookup (r_commits r) (b_head_commit yb) = Some cy"
    "table_rel (fmlookup (fst (merged e base x y))) (fst (merge_tables (r_schema r) (mc_state cb) (mc_state cx) (mc_state cy)))"
    "conflict_repr ` set (snd (merged e base x y))
       = conflict_repr ` set (snd (merge_tables (r_schema r) (mc_state cb) (mc_state cx) (mc_state cy)))"
    "table_rel (branch_row e x xb) (mc_state cx)"
proof -
  obtain cb where cb: "fmlookup (r_commits r) base = Some cb" "table_rel (commit_row e base) (mc_state cb)"
    using refines_commit [OF assms(1,5)] .
  obtain cx where cx: "fmlookup (r_commits r) (b_head_commit xb) = Some cx" "table_rel (branch_row e x xb) (mc_state cx)"
    using refines_head [OF assms(1-3)] .
  obtain cy where cy: "fmlookup (r_commits r) (b_head_commit yb) = Some cy" "table_rel (branch_row e y yb) (mc_state cy)"
    using refines_head [OF assms(1,2,4)] .
  note m = merged_agree [OF assms(2,1,3,4,5) cb(2) cx(2) cy(2)]
  show thesis by (rule that [OF cb(1) cx(1) cy(1) m cx(2)])
qed

lemma call_merge:
  assumes "engine_inv e" "has_room e" "refines e r"
  shows "call_rel (engine_call e (OMerge from into)) (model_call r (OMerge from into))"
proof -
  consider (no_from) "fmlookup (e_branches e) from = None"
    | (no_into) fb where "fmlookup (e_branches e) from = Some fb" "fmlookup (e_branches e) into = None"
    | (both) fb tb where "fmlookup (e_branches e) from = Some fb" "fmlookup (e_branches e) into = Some tb"
    by blast
  then show ?thesis
  proof cases
    case no_from
    then show ?thesis using refines_branch(1) [OF assms(3) no_from] by (simp add: merge_def model_merge_def)
  next
    case no_into
    then show ?thesis
      using refines_branch(1) [OF assms(3) no_into(2)] refines_branch(2) [OF assms(3) no_into(1)]
      by (auto simp: merge_def model_merge_def)
  next
    case both
    obtain mf where mf: "fmlookup (r_branches r) from = Some mf" "branch_rel fb mf"
      using refines_branch(2) [OF assms(3) both(1)] by blast
    obtain mt where mt: "fmlookup (r_branches r) into = Some mt" "branch_rel tb mt"
      using refines_branch(2) [OF assms(3) both(2)] by blast
    let ?bs = "merge_base e (b_head_commit tb) (b_head_commit fb)"
    have bases: "model_bases r (mb_head mt) (mb_head mf) = ?bs"
      using refines_bases [OF assms(3)] mf mt by (simp add: branch_rel_def)
    show ?thesis
    proof (cases "length ?bs = 1")
      case False
      then show ?thesis using both mf mt bases by (simp add: merge_def model_merge_def Let_def)
    next
      case True
      then obtain base where base: "?bs = [base]" by (cases ?bs) auto
      have bc: "base \<in> fmdom' (e_commits e)"
        by (rule engine_merge_base_commit [OF assms(1) both(2,1)]) (simp add: base)
      obtain cb cx cy where snap: "fmlookup (r_commits r) base = Some cb"
          "fmlookup (r_commits r) (b_head_commit tb) = Some cx" "fmlookup (r_commits r) (b_head_commit fb) = Some cy"
        and tr: "table_rel (fmlookup (fst (merged e base into from)))
            (fst (merge_tables (r_schema r) (mc_state cb) (mc_state cx) (mc_state cy)))"
        and cf: "conflict_repr ` set (snd (merged e base into from))
            = conflict_repr ` set (snd (merge_tables (r_schema r) (mc_state cb) (mc_state cx) (mc_state cy)))"
        using merge_snapshots [OF assms(3,1) both(2,1) bc] .
      obtain res cs where me: "merged e base into from = (res, cs)" by fastforce
      obtain mres mcs where mm: "merge_tables (r_schema r) (mc_state cb) (mc_state cx) (mc_state cy) = (mres, mcs)"
        by fastforce
      have heads: "mb_head mt = b_head_commit tb" "mb_head mf = b_head_commit fb"
        using mt mf by (simp_all add: branch_rel_def)
      have clean: "cs = [] \<longleftrightarrow> mcs = []" by (rule clean_agree) (use cf me mm in simp)
      let ?e = "applied e into tb (nil_table (resolve e into)) res [b_head_commit tb, b_head_commit fb]"
      let ?r = "model_add_commit r into mt [b_head_commit tb, b_head_commit fb] (mc_seq cx + 1) mres"
      let ?mr = "\<lambda>res cs cl c. \<lparr>mr_base = base, mr_result = res, mr_conflicts = cs, mr_clean = cl, mr_commit = c\<rparr>"
      let ?c = "commit_id (e_next_id e + 1)"
      have ec: "merge e from into = (if cs = [] then Inr (?e, ?mr res cs True ?c) else Inr (e, ?mr res cs False []))"
        using both base me
        by (simp add: merge_def Let_def merged_def [symmetric] apply_merge_result_eq [OF both(2)] applied_def)
      have mcall: "model_merge r from into
          = (if mcs = [] then Inr (fst ?r, ?mr mres mcs True ?c) else Inr (r, ?mr mres mcs False []))"
        using mf mt bases base snap mm assms(3)
        by (simp add: model_merge_def Let_def heads model_add_commit_simps refines_def)
      show ?thesis
      proof (cases "cs = []")
        case True
        have step: "engine_step e (OMerge from into) ?e" using ec True by simp
        have "refines ?e ((fst ?r)\<lparr>r_sessions := r_sessions r\<rparr>)"
        proof (rule refines_commit_on [OF step assms(1,2) _ assms(3) applied_def])
          show "table_rel (fmlookup (nil_table (resolve ?e into))) mres"
            by (rule applied_agree [OF assms(1,2) merge_moves [OF assms(1) both(2)]])
              (use tr me mm in \<open>simp_all add: fmlookup_resolve [OF both(2)]\<close>)
          show "rel_option (session_rel ?e x) (fmlookup (e_sessions e) x) (fmlookup (r_sessions r) x)" for x
            using sessions_step [OF step assms(1,2) _ _ assms(3), of x] by (simp add: applied_def)
        qed (use mt in \<open>simp_all add: branch_rel_def\<close>)
        then show ?thesis
          using True clean ec mcall tr me mm cf by (simp add: merge_rel_def model_add_commit_simps)
      next
        case False
        then show ?thesis using clean ec mcall tr me mm cf assms(3) by (simp add: merge_rel_def)
      qed
    qed
  qed
qed

lemma call_update:
  assumes "engine_inv e" "has_room e" "refines e r"
  shows "call_rel (engine_call e (OUpdate b)) (model_call r (OUpdate b))"
proof (cases "fmlookup (e_branches e) b")
  case None
  then show ?thesis
    using refines_branch(1) [OF assms(3) None] by (simp add: update_from_parent_def model_update_from_parent_def)
next
  case (Some bb)
  obtain m where m: "fmlookup (r_branches r) b = Some m" "branch_rel bb m"
    using refines_branch(2) [OF assms(3) Some] by blast
  have mb: "mb_head m = b_head_commit bb" "mb_parent m = b_parent bb" "mb_fork_commit m = b_fork_commit bb"
    using m(2) by (simp_all add: branch_rel_def)
  show ?thesis
  proof (cases "b_parent bb = [] \<or> fmlookup (e_branches e) (b_parent bb) = None")
    case True
    then show ?thesis
      using Some m mb refines_branch(1) [OF assms(3), of "b_parent bb"]
      by (auto simp: update_from_parent_def model_update_from_parent_def)
  next
    case False
    then obtain pp where np: "b_parent bb \<noteq> []" and pp: "fmlookup (e_branches e) (b_parent bb) = Some pp" by blast
    obtain mp where mp: "fmlookup (r_branches r) (b_parent bb) = Some mp" "branch_rel pp mp"
      using refines_branch(2) [OF assms(3) pp] by blast
    have hp: "mb_head mp = b_head_commit pp" using mp(2) by (simp add: branch_rel_def)
    have root: "b \<noteq> root_branch" by (rule not_root_parent [OF assms(1) Some np])
    have fork: "b_fork_commit bb \<in> fmdom' (e_commits e)" using branch_tail(3) [OF assms(1) Some root] by blast
    obtain cb cx cy where snap: "fmlookup (r_commits r) (b_fork_commit bb) = Some cb"
        "fmlookup (r_commits r) (b_head_commit bb) = Some cx" "fmlookup (r_commits r) (b_head_commit pp) = Some cy"
      and tr: "table_rel (fmlookup (fst (merged e (b_fork_commit bb) b (b_parent bb))))
          (fst (merge_tables (r_schema r) (mc_state cb) (mc_state cx) (mc_state cy)))"
      and cf: "conflict_repr ` set (snd (merged e (b_fork_commit bb) b (b_parent bb)))
          = conflict_repr ` set (snd (merge_tables (r_schema r) (mc_state cb) (mc_state cx) (mc_state cy)))"
      and head: "table_rel (branch_row e b bb) (mc_state cx)"
      using merge_snapshots [OF assms(3,1) Some pp fork] .
    show ?thesis
    proof (cases "b_head_commit pp = b_fork_commit bb")
      case True
      have "table_rel (fmlookup (nil_table (resolve e b))) (mc_state cx)"
        using head by (simp add: table_rel_def fmlookup_resolve [OF Some])
      then show ?thesis
        using True Some np pp m mb mp hp snap assms(3)
        by (simp add: update_from_parent_def model_update_from_parent_def merge_rel_def)
    next
      case moved: False
      let ?rb = "refork bb pp" and ?mg = "merged e (b_fork_commit bb) b (b_parent bb)"
      obtain res cs where me: "?mg = (res, cs)" by fastforce
      obtain mres mcs where mm: "merge_tables (r_schema r) (mc_state cb) (mc_state cx) (mc_state cy) = (mres, mcs)"
        by fastforce
      have clean: "cs = [] \<longleftrightarrow> mcs = []" by (rule clean_agree) (use cf me mm in simp)
      let ?ps = "[b_head_commit bb, b_head_commit pp]"
      let ?e = "applied e b ?rb (parent_view e b ?rb) res ?ps"
      let ?r = "model_add_commit r b (m\<lparr>mb_fork_commit := b_head_commit pp\<rparr>) ?ps (mc_seq cx + 1) mres"
      let ?mr = "\<lambda>res cs cl c. \<lparr>mr_base = b_fork_commit bb, mr_result = res, mr_conflicts = cs, mr_clean = cl,
        mr_commit = c\<rparr>"
      let ?c = "commit_id (e_next_id e + 1)"
      have inh: "inherited_chain_from e (b_parent bb) = Some (head_chain (b_parent bb) pp)"
        by (simp add: inherited_chain_from_def pp head_chain_def)
      have rf: "bb\<lparr>b_fork_seq := b_head_seq pp, b_fork_commit := b_head_commit pp,
          b_chain := head_chain (b_parent bb) pp\<rparr> = ?rb" by (simp add: refork_def)
      have ec: "update_from_parent e b = (if cs = [] then Inr (?e, ?mr res cs True ?c) else Inr (e, ?mr res cs False []))"
        using Some np pp moved me
        by (simp add: update_from_parent_def Let_def merged_def [symmetric] inh rf apply_merge_refork [OF Some])
      have mcall: "model_update_from_parent r b
          = (if mcs = [] then Inr (fst ?r, ?mr mres mcs True ?c) else Inr (r, ?mr mres mcs False []))"
        using m mb mp hp np moved snap mm assms(3)
        by (simp add: model_update_from_parent_def Let_def model_add_commit_simps refines_def)
      show ?thesis
      proof (cases "cs = []")
        case True
        have "snd ?mg = []" using me True by simp
        note mv = moves_update [OF assms(1) Some np pp this]
        have step: "engine_step e (OUpdate b) ?e" using ec True by simp
        have "refines ?e ((fst ?r)\<lparr>r_sessions := r_sessions r\<rparr>)"
        proof (rule refines_commit_on [OF step assms(1,2) _ assms(3) applied_def])
          show "table_rel (fmlookup (nil_table (resolve ?e b))) mres"
            by (rule applied_agree [OF assms(1,2)]) (use mv tr me mm in simp_all)
          show "rel_option (session_rel ?e x) (fmlookup (e_sessions e) x) (fmlookup (r_sessions r) x)" for x
            using sessions_step [OF step assms(1,2) _ _ assms(3), of x] by (simp add: applied_def)
        qed (use mb in \<open>simp_all add: refork_def\<close>)
        then show ?thesis
          using True clean ec mcall tr me mm cf by (simp add: merge_rel_def model_add_commit_simps)
      next
        case False
        then show ?thesis using clean ec mcall tr me mm cf assms(3) by (simp add: merge_rel_def)
      qed
    qed
  qed
qed

subsection \<open>Every call, every run\<close>

lemma call_refines:
  assumes "engine_inv e" "has_room e" "refines e r" "op_ok a"
  shows "call_rel (engine_call e a) (model_call r a)"
  using assms
  by (cases a)
    (simp_all only: op_ok.simps call_commit call_create_branch call_merge call_update call_open call_write
      call_commit_session call_abandon)

lemma exec_refines:
  assumes "engine_inv e" "has_room e" "refines e r" "op_ok a"
  shows "refines (engine_exec e a) (model_exec r a)"
  using call_refines [OF assms] assms(3)
  by (auto simp: engine_exec_def model_exec_def call_rel_def split: sum.splits prod.splits)

lemma fold_refines:
  assumes "engine_inv e" "int (e_next_id e) + int (length ops) < max_seq" "list_all op_ok ops" "refines e r"
  shows "refines (foldl engine_exec e ops) (foldl model_exec r ops)"
  using assms
proof (induction ops arbitrary: e r)
  case (Cons a ops)
  have room: "has_room e" using Cons.prems(2) by (simp add: has_room_def)
  have ok: "op_ok a" using Cons.prems(3) by simp
  note x = engine_exec_inv [OF Cons.prems(1) room op_ok_keyed [OF ok]]
  have "refines (foldl engine_exec (engine_exec e a) ops) (foldl model_exec (model_exec r a) ops)"
    by (rule Cons.IH [OF x(1) _ _ exec_refines [OF Cons.prems(1) room Cons.prems(4) ok]])
      (use x(2) Cons.prems in simp_all)
  then show ?case by simp
qed simp

lemma run_refines:
  assumes "list_all op_ok ops" "int (length ops) + 1 < max_seq"
  shows "refines (engine_run sc ops) (model_run sc ops)"
  unfolding engine_run_def model_run_def
  by (rule fold_refines [OF engine_inv_new _ assms(1) refines_new]) (use assms(2) in \<open>simp add: new_engine_simps\<close>)

lemma list_all_op_ok_keyed: "list_all op_ok ops \<Longrightarrow> list_all op_keyed ops"
  using op_ok_keyed by (auto simp: list_all_iff)

end
