(* ===== verification/EngineReads.thy ===== *)
theory EngineReads
  imports EngineRefineMerge
begin

text \<open>
  The engine's other reads: the two-pass filtered read, \<^verbatim>\<open>Diff\<close>, the probes of the property harness, the
  merge bases and the nil dereferences that cannot happen. The properties of the engine are stated in
  \<open>EngineProps\<close> over these lemmas.
\<close>

subsection \<open>ResolveFiltered\<close>

lemma fold_candidates_rows:
  "fmlookup (foldl (\<lambda>acc v.
       if v_session v \<noteq> [] \<or> v_branch v \<noteq> sg_branch g then acc
       else if v_from v \<le> sg_seq g \<and> sg_seq g < v_to v \<and> v_op v \<noteq> OpDelete \<and> pred (v_row v)
            then fmupd (v_pk v) True acc else acc) acc rows) p = Some True
     \<longleftrightarrow> fmlookup acc p = Some True \<or>
         (\<exists>v \<in> set rows. in_segment g v \<and> v_op v \<noteq> OpDelete \<and> pred (v_row v) \<and> v_pk v = p)"
  by (induction rows arbitrary: acc) (auto simp: in_segment_def)

lemma filter_candidates_iff:
  "fmlookup (filter_candidates rows chain pred) p = Some True
     \<longleftrightarrow> (\<exists>g \<in> set chain. \<exists>v \<in> set rows. in_segment g v \<and> v_op v \<noteq> OpDelete \<and> pred (v_row v) \<and> v_pk v = p)"
proof -
  have "fmlookup (foldl (\<lambda>acc g. foldl (\<lambda>acc v.
       if v_session v \<noteq> [] \<or> v_branch v \<noteq> sg_branch g then acc
       else if v_from v \<le> sg_seq g \<and> sg_seq g < v_to v \<and> v_op v \<noteq> OpDelete \<and> pred (v_row v)
            then fmupd (v_pk v) True acc else acc) acc rows) acc chain) p = Some True
     \<longleftrightarrow> fmlookup acc p = Some True \<or>
         (\<exists>g \<in> set chain. \<exists>v \<in> set rows. in_segment g v \<and> v_op v \<noteq> OpDelete \<and> pred (v_row v) \<and> v_pk v = p)" for acc
  proof (induction chain arbitrary: acc)
    case (Cons g chain)
    show ?case by (simp only: foldl.simps Cons.IH fold_candidates_rows) auto
  qed simp
  from this [of fmempty] show ?thesis by (simp add: filter_candidates_def)
qed

lemma chain_version_mem:
  "chain_version (hist rows) C p = Some v \<Longrightarrow> \<exists>g \<in> set C. in_segment g v \<and> v \<in> set rows \<and> v_pk v = p"
proof (induction C)
  case (Cons g C)
  show ?case
  proof (cases "seg_version (hist rows (sg_branch g) p) (sg_seq g)")
    case None
    then show ?thesis using Cons by simp
  next
    case (Some w)
    then show ?thesis using Cons.prems seg_version_mem [OF Some] by (auto simp: hist_mem in_segment_def)
  qed
qed simp

lemma winner_candidate:
  assumes "chain_version (hist rows) C p = Some v" "v_op v \<noteq> OpDelete" "pred (v_row v)"
  shows "fmlookup (filter_candidates rows C pred) p = Some True"
  using chain_version_mem [OF assms(1)] assms(2,3) by (auto simp: filter_candidates_iff)

lemma resolve_filtered_eq: "resolve_filtered e b pred = map_option (filter_table pred) (resolve e b)"
proof (cases "fmlookup (e_branches e) b")
  case (Some bb)
  let ?C = "chain_for e b (b_head_seq bb)"
  let ?cand = "filter_candidates (e_rows e) ?C pred"
  have "fmlookup (fm_collect (\<lambda>p v. if fmlookup ?cand p \<noteq> Some True \<or> v_op v = OpDelete then None
            else if pred (v_row v) then Some (v_row v) else None) (winners (e_rows e) ?C [])) p
      = fmlookup (filter_table pred (resolve_chain (e_rows e) ?C [])) p" for p
  proof (cases "chain_version (hist (e_rows e)) ?C p")
    case None
    then show ?thesis
      by (simp add: filter_table_def resolve_chain_def fmlookup_winners view_version_def)
  next
    case (Some v)
    then show ?thesis
      using winner_candidate [OF Some]
      by (simp add: filter_table_def resolve_chain_def fmlookup_winners view_version_def)
  qed
  then have "fm_collect (\<lambda>p v. if fmlookup ?cand p \<noteq> Some True \<or> v_op v = OpDelete then None
            else if pred (v_row v) then Some (v_row v) else None) (winners (e_rows e) ?C [])
      = filter_table pred (resolve_chain (e_rows e) ?C [])" by (rule fmap_ext)
  then show ?thesis by (simp add: resolve_filtered_def resolve_def Some Let_def)
qed (simp add: resolve_filtered_def resolve_def)

subsection \<open>Diff\<close>

lemma seg_version_still:
  assumes "contig h" "s \<le> t" "t < max_seq" "\<not> (\<exists>v \<in> set h. s < v_from v \<and> v_from v \<le> t)"
  shows "seg_version h s = seg_version h t"
  using assms
proof (induction h rule: contig.induct)
  case (2 v)
  then show ?case by (auto simp: seg_version_def)
next
  case (3 u v r)
  show ?case
  proof (cases "v_from v \<le> s")
    case True
    then have "seg_version (u # v # r) s = seg_version (v # r) s" "seg_version (u # v # r) t = seg_version (v # r) t"
      using 3(2,3) by (simp_all only: seg_version_Cons2)
    then show ?thesis using 3 by simp
  next
    case False
    then have t: "t < v_from v" using 3(5) by force
    then have "t < v_from w" if "w \<in> set r" for w
      using contig_from_less [of v r w] 3(2) that by auto
    then have none: "find (\<lambda>v. v_from v \<le> x \<and> x < v_to v) (v # r) = None" if "x \<le> t" for x
      using t that \<open>\<And>w. w \<in> set r \<Longrightarrow> t < v_from w\<close> by (force simp: find_None_iff)
    have "v_from u \<le> s \<longleftrightarrow> v_from u \<le> t" using 3(3,5) by force
    then show ?thesis
      using none [of s] none [of t] 3(2,3) t by (simp add: seg_version_def del: find.simps(2)) (simp add: seg_version_def)
  qed
qed (simp add: seg_version_def)

lemma touched_keys_iff:
  "p \<in> set (touched_keys rows b s t) \<longleftrightarrow> (\<exists>v \<in> set (hist rows b p). s < v_from v \<and> v_from v \<le> t)"
  by (auto simp: touched_keys_def hist_mem)

lemma fold_diff:
  assumes "distinct ks"
  shows "fmlookup (foldl (\<lambda>out p. case f p of None \<Rightarrow> out | Some ch \<Rightarrow> fmupd p ch out) out ks) q
    = (if q \<in> set ks \<and> f q \<noteq> None then f q else fmlookup out q)"
  using assms by (induction ks arbitrary: out) (auto split: option.splits)

lemma fmlookup_diff:
  "fmlookup (diff e b s t) p
     = (if p \<in> set (touched_keys (e_rows e) b s t)
        then diff_change (e_schema e) p (fmlookup (resolve_chain (e_rows e) (chain_for e b s) []) p)
               (fmlookup (resolve_chain (e_rows e) (chain_for e b t) []) p)
        else None)"
proof -
  have "distinct (touched_keys (e_rows e) b s t)" by (simp add: touched_keys_def)
  from fold_diff [OF this, of "\<lambda>p. diff_change (e_schema e) p
      (fmlookup (resolve_chain (e_rows e) (chain_for e b s) []) p)
      (fmlookup (resolve_chain (e_rows e) (chain_for e b t) []) p)" fmempty p]
  show ?thesis by (auto simp: diff_def Let_def)
qed

lemma diff_change_facts:
  "diff_change sc p before after = Some ch \<Longrightarrow> ch_pk ch = p \<and> change_row ch = after"
  "diff_change sc p before after = None \<Longrightarrow> row_like before after"
  by (auto simp: diff_change_def change_row_def row_like_def same_opt_def split: option.splits if_splits)

lemma diff_keyed: "cs_keyed (diff e b s t)"
  using diff_change_facts(1) by (auto simp: cs_keyed_def fmlookup_diff split: if_splits)

lemma chain_for_row:
  "chain_for e b s = seg b s # (case fmlookup (e_branches e) b of None \<Rightarrow> [] | Some bb \<Rightarrow> b_chain bb)"
  by (simp add: chain_for_def split: option.splits)

lemma diff_untouched:
  assumes "inv_rows e" "s \<le> t" "t < max_seq" "p \<notin> set (touched_keys (e_rows e) b s t)"
  shows "fmlookup (resolve_chain (e_rows e) (chain_for e b s) []) p
    = fmlookup (resolve_chain (e_rows e) (chain_for e b t) []) p"
proof -
  have "contig (hist (e_rows e) b p)"
    using assms(1) by (simp add: inv_rows_def hists_at_def hist_at_def e_hist_def)
  from seg_version_still [OF this assms(2,3)] assms(4)
  have "seg_row (hist (e_rows e) b p) s = seg_row (hist (e_rows e) b p) t"
    by (simp add: touched_keys_iff seg_row_def)
  then show ?thesis by (simp add: fmlookup_resolve_chain chain_for_row)
qed

lemma diff_applies:
  assumes "inv_rows e" "s \<le> t" "t < max_seq"
  shows "row_like (fmlookup (model_apply (resolve_chain (e_rows e) (chain_for e b s) []) (diff e b s t)) p)
    (fmlookup (resolve_chain (e_rows e) (chain_for e b t) []) p)"
proof (cases "fmlookup (diff e b s t) p")
  case None
  then show ?thesis
    using diff_untouched [OF assms] diff_change_facts(2)
    by (auto simp: fmlookup_model_apply [OF diff_keyed] fmlookup_diff row_like_def split: if_splits)
next
  case (Some ch)
  then have "change_row ch = fmlookup (resolve_chain (e_rows e) (chain_for e b t) []) p"
    using diff_change_facts(1) by (auto simp: fmlookup_diff split: if_splits)
  with Some show ?thesis by (simp add: fmlookup_model_apply [OF diff_keyed] row_like_def)
qed

subsection \<open>Probes\<close>

lemma contig_sorted: "contig h \<Longrightarrow> sorted (map v_from h)"
  by (induction h rule: contig.induct) (auto intro: less_imp_le dest: contig_from_less)

lemma contig_adjacent: "contig h \<Longrightarrow> adjacent_sane h"
  by (induction h rule: contig.induct) auto

lemma intervals_sane_inv: "inv_rows e \<Longrightarrow> intervals_sane e"
proof -
  assume i: "inv_rows e"
  have eq: "filter (\<lambda>v. v_branch v = b \<and> v_pk v = p) (filter (\<lambda>v. v_session v = []) (e_rows e)) = hist (e_rows e) b p"
    for b p by (simp add: hist_def conj_commute conj_left_commute)
  have c: "contig (hist (e_rows e) b p)" for b p
    using i by (simp add: inv_rows_def hists_at_def hist_at_def e_hist_def)
  have "sort_key v_from (hist (e_rows e) b p) = hist (e_rows e) b p" for b p
    by (rule sort_key_id_if_sorted [OF contig_sorted [OF c]])
  then show ?thesis
    by (auto simp: intervals_sane_def Let_def list_all_iff eq contig_adjacent [OF c] simp del: filter_filter)
qed

definition open_count :: "version list \<Rightarrow> string \<Rightarrow> pk \<Rightarrow> nat" where
  "open_count rows b p = length (filter (\<lambda>v. v_to v = max_seq) (hist rows b p))"

definition count_at :: "(string, (pk, nat) fmap) fmap \<Rightarrow> string \<Rightarrow> pk \<Rightarrow> nat" where
  "count_at out b p = (case fmlookup out b of None \<Rightarrow> 0 | Some m \<Rightarrow>
     (case fmlookup m p of None \<Rightarrow> 0 | Some n \<Rightarrow> n))"

lemma count_at_upd:
  "count_at (fmupd (v_branch v) (fmupd (v_pk v)
      (Suc (case fmlookup (case fmlookup out (v_branch v) of None \<Rightarrow> fmempty | Some m \<Rightarrow> m) (v_pk v) of
          None \<Rightarrow> 0 | Some n \<Rightarrow> n))
      (case fmlookup out (v_branch v) of None \<Rightarrow> fmempty | Some m \<Rightarrow> m)) out) b p
    = count_at out b p + (if v_branch v = b \<and> v_pk v = p then 1 else 0)"
  by (auto simp: count_at_def split: option.splits)

lemma open_versions_count: "count_at (open_versions_per_key e) b p = open_count (e_rows e) b p"
proof -
  have "count_at (foldl (\<lambda>out v.
         if v_session v \<noteq> [] \<or> v_to v \<noteq> max_seq then out
         else
           let m = (case fmlookup out (v_branch v) of None \<Rightarrow> fmempty | Some m \<Rightarrow> m);
               n = (case fmlookup m (v_pk v) of None \<Rightarrow> 0 | Some n \<Rightarrow> n)
           in fmupd (v_branch v) (fmupd (v_pk v) (n + 1) m) out) out rows) b p
      = count_at out b p + open_count rows b p" for out rows
  proof (induction rows arbitrary: out)
    case (Cons v rows)
    show ?case
      by (simp only: foldl.simps Cons.IH) (auto simp: Let_def count_at_upd open_count_def)
  qed (simp add: open_count_def)
  from this [of fmempty] show ?thesis by (simp add: open_versions_per_key_def count_at_def)
qed

lemma contig_open_count: "contig h \<Longrightarrow> length (filter (\<lambda>v. v_to v = max_seq) h) \<le> 1"
proof (induction h rule: contig.induct)
  case (3 u v r)
  have "v_to u \<noteq> max_seq" using 3(2) contig_from_max [of v r] by simp
  then show ?case using 3 by simp
qed simp_all

lemma open_count_le:
  assumes "inv_rows e"
  shows "open_count (e_rows e) b p \<le> 1"
  unfolding open_count_def
  by (rule contig_open_count) (use assms in \<open>simp add: inv_rows_def hists_at_def hist_at_def e_hist_def\<close>)

lemma staged_on_root:
  assumes "inv_sessions e" "inv_staged e"
  shows "staged_on_branch e root_branch = 0"
proof -
  have "v_branch v \<noteq> root_branch" if v: "v \<in> set (e_rows e)" "v_session v \<noteq> []" for v
  proof -
    have "v \<in> set (staged (e_rows e) (v_session v) (v_pk v))" using v(1) by (simp add: staged_def)
    then obtain s where "open_at e (v_session v) s" "v_branch v = s_branch s"
      using staged_session [OF assms(2) _ v(2)] by blast
    then show ?thesis using assms(1) unfolding inv_sessions_def open_at_def by auto
  qed
  then show ?thesis by (auto simp: staged_on_branch_def filter_empty_conv)
qed

lemma zero_hash_none:
  assumes "inv_commits e" "inv_staged e"
  shows "zero_hash_on_branch e b = 0"
proof -
  have "v_commit v \<noteq> []" if "v \<in> set (e_rows e)" "v_session v = []" for v
  proof -
    have "v_commit v \<in> fmdom' (e_commits e)" using assms(2) that unfolding inv_staged_def by auto
    then obtain i where "v_commit v = commit_id i" using assms(1) by (auto simp: inv_commits_def)
    then show ?thesis by simp
  qed
  then show ?thesis by (auto simp: zero_hash_on_branch_def filter_empty_conv)
qed

subsection \<open>Merge bases\<close>

lemma commit_parents:
  assumes "inv_commits e" "fmlookup (e_commits e) (commit_id i) = Some cm"
  shows "cm_parents cm = [] \<longleftrightarrow> i = 1"
    "q \<in> set (cm_parents cm) \<Longrightarrow> \<exists>j. 1 \<le> j \<and> j < i \<and> q = commit_id j"
  using assms unfolding inv_commits_def by blast+

lemma commit_known: "inv_commits e \<Longrightarrow> commit_id i \<in> fmdom' (e_commits e) \<longleftrightarrow> 1 \<le> i \<and> i \<le> e_next_id e"
  by (auto simp: inv_commits_def)

text \<open>A commit's number; parents have smaller ones.\<close>

lemma reaches_older:
  assumes "inv_commits e" "reaches (engine_graph e) c d" "c = commit_id i" "c \<in> fmdom' (e_commits e)"
  shows "\<exists>j. 1 \<le> j \<and> j \<le> i \<and> d = commit_id j \<and> d \<in> fmdom' (e_commits e)"
  using assms(2-4)
proof (induction rule: reaches.induct)
  case (reaches_refl c)
  then show ?case using commit_known [OF assms(1)] by blast
next
  case (reaches_step c d p)
  obtain j where j: "1 \<le> j" "j \<le> i" "d = commit_id j" "d \<in> fmdom' (e_commits e)"
    using reaches_step.IH [OF reaches_step.prems] by blast
  obtain cm where cm: "fmlookup (e_commits e) (commit_id j) = Some cm"
    using j(3,4) by (auto simp: fmlookup_dom'_iff)
  have "p \<in> set (cm_parents cm)" using reaches_step(2) cm j(3) by (simp add: parents_of_def engine_graph_def)
  then obtain k where k: "1 \<le> k" "k < j" "p = commit_id k" using commit_parents(2) [OF assms(1) cm] by blast
  moreover have "j \<le> e_next_id e" using j commit_known [OF assms(1)] by blast
  ultimately show ?case using j commit_known [OF assms(1), of k] by (intro exI [of _ k]) simp
qed

lemma root_reached:
  assumes "inv_commits e" "commit_id i \<in> fmdom' (e_commits e)"
  shows "reaches (engine_graph e) (commit_id i) (commit_id 1)"
  using assms(2)
proof (induction i rule: less_induct)
  case (less i)
  obtain cm where cm: "fmlookup (e_commits e) (commit_id i) = Some cm" using less.prems by (auto simp: fmlookup_dom'_iff)
  show ?case
  proof (cases "i = 1")
    case True
    then show ?thesis by (simp add: reaches.reaches_refl)
  next
    case False
    then have "cm_parents cm \<noteq> []" using commit_parents(1) [OF assms(1) cm] by simp
    then obtain q where q: "q \<in> set (cm_parents cm)" by (cases "cm_parents cm") auto
    obtain j where j: "1 \<le> j" "j < i" "q = commit_id j" using commit_parents(2) [OF assms(1) cm q] by blast
    have "i \<le> e_next_id e" using less.prems commit_known [OF assms(1)] by blast
    then have "commit_id j \<in> fmdom' (e_commits e)" using j commit_known [OF assms(1)] by simp
    then have "reaches (engine_graph e) (commit_id j) (commit_id 1)" by (rule less.IH [OF j(2)])
    moreover have "commit_id j \<in> set (parents_of (engine_graph e) (commit_id i))"
      using q cm j(3) by (simp add: parents_of_def engine_graph_def)
    ultimately show ?thesis by (rule reaches_parent [rotated])
  qed
qed

lemma best_common_exists:
  assumes "inv_commits e" "a \<in> fmdom' (e_commits e)" "b \<in> fmdom' (e_commits e)"
  shows "best_common (engine_graph e) a b \<noteq> {}"
proof -
  let ?g = "engine_graph e"
  obtain i j where ij: "a = commit_id i" "b = commit_id j" using assms by (auto simp: inv_commits_def)
  let ?K = "{k. reaches ?g a (commit_id k) \<and> reaches ?g b (commit_id k)}"
  have "1 \<in> ?K" using root_reached assms ij by simp
  moreover have "?K \<subseteq> {..i}" using reaches_older [OF assms(1) _ ij(1) assms(2)] by fastforce
  ultimately have fin: "finite ?K" "?K \<noteq> {}" by (auto intro: finite_subset)
  let ?m = "Max ?K"
  have m: "?m \<in> ?K" using Max_in [OF fin] .
  have "d = commit_id ?m" if d: "reaches ?g a d" "reaches ?g b d" "reaches ?g d (commit_id ?m)" for d
  proof -
    obtain k where k: "d = commit_id k" "d \<in> fmdom' (e_commits e)"
      using reaches_older [OF assms(1) d(1) ij(1) assms(2)] by blast
    have "k \<in> ?K" using d k by simp
    then have "k \<le> ?m" using fin by simp
    moreover have "?m \<le> k" using reaches_older [OF assms(1) d(3) k] by simp
    ultimately show ?thesis using k by simp
  qed
  then show ?thesis using m by (auto simp: best_common_def)
qed

lemma merge_base_nonempty:
  assumes "engine_inv e" "fmlookup (e_branches e) x = Some xb" "fmlookup (e_branches e) y = Some yb"
  shows "merge_base e (b_head_commit xb) (b_head_commit yb) \<noteq> []"
proof -
  have "inv_commits e" using assms(1) by (simp add: engine_inv_def)
  from best_common_exists [OF this head_in_commits [OF assms(1,2)] head_in_commits [OF assms(1,3)]]
  have "set (merge_base e (b_head_commit xb) (b_head_commit yb)) \<noteq> {}"
    by (simp add: merge_base_def engine_merge_base_def bfs.set_bases)
  then show ?thesis by auto
qed

subsection \<open>No nil dereference\<close>

lemma parent_known:
  assumes "engine_inv e" "fmlookup (e_branches e) b = Some bb" "b \<noteq> root_branch"
  shows "b_parent bb \<in> fmdom' (e_branches e)" "b_parent bb \<noteq> b"
proof -
  have ch: "chain_in e (head_chain b bb)" by (rule head_chain_in [OF assms(1,2)])
  then have tp: "tree_path (par_of e) (b # names (b_chain bb))" by (simp add: chain_in_def head_chain_def)
  then obtain x xs where x: "names (b_chain bb) = x # xs" using assms(3) by (cases "names (b_chain bb)") auto
  then have "par_of e b = x" using tp by simp
  then have "b_parent bb = x" by (simp add: par_of_def assms(2))
  moreover have "x \<in> fmdom' (e_branches e)" "x \<noteq> b"
    using ch x tree_path_distinct [OF tp [unfolded x]] by (auto simp: chain_in_def tail_in_def head_chain_def)
  ultimately show "b_parent bb \<in> fmdom' (e_branches e)" "b_parent bb \<noteq> b" by simp_all
qed

lemma apply_merge_result_ok:
  "fmlookup (e_branches e) b = Some bb \<Longrightarrow> apply_merge_result e b result ps \<noteq> Inl err"
  by (simp add: apply_merge_result_eq)

lemma engine_call_no_nil:
  assumes "engine_inv e"
  shows "engine_call e a \<noteq> Inl NilDeref"
proof (cases a)
  case (OCreateBranch name "from")
  then show ?thesis
    by (auto simp: reply_done_def create_branch_def inherited_chain_from_def map_sum_def
        split: option.splits if_splits sum.splits)
next
  case (OCommitSession sid)
  have "s_branch s \<in> fmdom' (e_branches e)" if "fmlookup (e_sessions e) sid = Some s" "s_open s" for s
    using that assms unfolding engine_inv_def inv_sessions_def by blast
  then show ?thesis
    using OCommitSession by (auto simp: commit_session_def Let_def reply_with_def fmlookup_None_dom new_commit_id_def
        split: option.splits if_splits)
next
  case (OWrite sid cs)
  show ?thesis
  proof (cases "\<exists>s. open_at e sid s")
    case True
    then obtain s e' where "session_write e sid cs = Inr e'" using session_write_ok [OF assms] by metis
    then show ?thesis using OWrite by simp
  next
    case False
    then show ?thesis using OWrite by (auto simp: session_write_def open_at_def split: option.splits)
  qed
next
  case (OUpdate b)
  show ?thesis
  proof (cases "fmlookup (e_branches e) b")
    case (Some bb)
    have "b_parent bb \<noteq> [] \<Longrightarrow> b_parent bb \<in> fmdom' (e_branches e)"
      using parent_known [OF assms Some] not_root_parent [OF assms Some] by blast
    then show ?thesis
      using OUpdate Some
      by (auto simp: update_from_parent_def Let_def fmlookup_None_dom inherited_chain_from_def apply_merge_result_eq
          reply_with_def split: option.splits prod.splits if_splits)
  qed (use OUpdate in \<open>simp add: update_from_parent_def\<close>)
next
  case (OMerge "from" into)
  then show ?thesis
    by (auto simp: merge_def Let_def apply_merge_result_eq reply_with_def split: option.splits prod.splits if_splits)
qed (auto simp: engine_commit_def open_session_def Let_def new_commit_id_def split: option.splits)

end
