(* ===== verification/MergeSpec.thy ===== *)
theory MergeSpec
  imports EngineReads
begin

text \<open>
  What a three-way merge promises, without its algorithm: a key merges if one side kept it, both sides
  agree, or the row is on all three sides and no column was changed to different values; the merged
  cell is the one of the side that changed it. The engine's masked merge meets this specification.
\<close>

definition key_mergeable :: "colid list \<Rightarrow> row option \<Rightarrow> row option \<Rightarrow> row option \<Rightarrow> bool" where
  "key_mergeable cols b a t \<longleftrightarrow>
     same_opt b a \<or> same_opt b t \<or> same_opt a t \<or>
     (b \<noteq> None \<and> a \<noteq> None \<and> t \<noteq> None \<and>
      (\<forall>c \<in> set cols. cellv a c = cellv b c \<or> cellv t c = cellv b c \<or> cellv a c = cellv t c))"

definition spec_cell :: "row option \<Rightarrow> row option \<Rightarrow> row option \<Rightarrow> colid \<Rightarrow> cell" where
  "spec_cell b a t c = (if cellv a c = cellv b c then cellv t c else cellv a c)"

lemma cell_pick_spec:
  assumes "row_ok b" "row_ok a" "row_ok t"
  shows "cell_pick b a t c = None \<longleftrightarrow>
      \<not> (cellv (Some a) c = cellv (Some b) c \<or> cellv (Some t) c = cellv (Some b) c \<or> cellv (Some a) c = cellv (Some t) c)"
    and "cell_pick b a t c = Some v \<Longrightarrow> cell_of v = spec_cell (Some b) (Some a) (Some t) c"
  using assms
  by (auto simp: cell_pick_def Let_def val_equal_iff row_ok_get cellv_def opt_row_def spec_cell_def split: if_splits)

lemma full_merge_clean:
  assumes "opt_ok b" "opt_ok a" "opt_ok t"
  shows "snd (merge_case (full_cells cols) p b a t) = [] \<longleftrightarrow> key_mergeable cols b a t"
proof (cases "same_opt b a \<or> same_opt b t \<or> same_opt a t")
  case True
  then show ?thesis by (auto simp: merge_case_def Let_def key_mergeable_def)
next
  case False
  then have ne: "\<not> same_opt b a" "\<not> same_opt b t" "\<not> same_opt a t" by blast+
  show ?thesis
  proof (cases "b \<noteq> None \<and> a \<noteq> None \<and> t \<noteq> None")
    case True
    then obtain bx ax tx where x: "b = Some bx" "a = Some ax" "t = Some tx" by blast
    have "snd (merge_case (full_cells cols) p b a t) = [] \<longleftrightarrow> cell_conflicts p bx ax tx cols = []"
      unfolding x using ne x by (simp add: merge_case_cells full_cells_row)
    also have "\<dots> \<longleftrightarrow> key_mergeable cols b a t"
      using cell_pick_spec(1) [of bx ax tx] assms ne x by (simp add: cell_conflicts_empty key_mergeable_def)
    finally show ?thesis .
  next
    case False
    then have "b = None \<or> a = None \<or> t = None" by blast
    from merge_case_clash [OF ne this] show ?thesis using False ne by (auto simp: key_mergeable_def)
  qed
qed

lemma full_merge_cell:
  assumes "opt_ok b" "opt_ok a" "opt_ok t" "snd (merge_case (full_cells cols) p b a t) = []" "c \<in> set cols"
  shows "cellv (fst (merge_case (full_cells cols) p b a t)) c = spec_cell b a t c"
proof -
  consider (base_a) "same_opt b a" | (base_t) "\<not> same_opt b a" "same_opt b t"
    | (both) "\<not> same_opt b a" "\<not> same_opt b t" "same_opt a t"
    | (cells) "\<not> same_opt b a" "\<not> same_opt b t" "\<not> same_opt a t" by blast
  then show ?thesis
  proof cases
    case base_a
    then show ?thesis
      using same_opt_cellv [OF base_a] same_opt_cellv [of b t] by (auto simp: merge_case_def Let_def spec_cell_def)
  next
    case base_t
    then show ?thesis using same_opt_cellv [OF base_t(2), of c] by (simp add: merge_case_def Let_def spec_cell_def)
  next
    case both
    then show ?thesis using same_opt_cellv [OF both(3), of c] by (simp add: merge_case_def Let_def spec_cell_def)
  next
    case cells
    have "b \<noteq> None \<and> a \<noteq> None \<and> t \<noteq> None"
    proof (rule ccontr)
      assume "\<not> ?thesis"
      then have "b = None \<or> a = None \<or> t = None" by blast
      from merge_case_clash [OF cells this] assms(4) show False by simp
    qed
    then obtain bx ax tx where x: "b = Some bx" "a = Some ax" "t = Some tx" by blast
    have eq: "merge_case (full_cells cols) p b a t
      = (if snd (full_cells cols p bx ax tx) \<noteq> [] then (None, snd (full_cells cols p bx ax tx))
         else (Some (fst (full_cells cols p bx ax tx)), []))"
      unfolding x by (rule merge_case_cells) (use cells x in simp_all)
    then have nil: "snd (full_cells cols p bx ax tx) = []" using assms(4) by (auto split: if_splits)
    then obtain v where v: "cell_pick bx ax tx c = Some v"
      using assms(5) by (auto simp: full_cells_row cell_conflicts_empty)
    have "cell_of v = spec_cell b a t c"
      unfolding x by (rule cell_pick_spec(2) [OF _ _ _ v]) (use assms(1-3) x in simp_all)
    moreover have "cellv (fst (merge_case (full_cells cols) p b a t)) c = cell_of v"
      using eq nil v assms(5) by (simp add: cellv_def opt_row_def full_cells_row)
    ultimately show ?thesis by simp
  qed
qed

subsection \<open>The engine's merge\<close>

lemma engine_key_merge:
  assumes inv: "engine_inv e"
    and x: "fmlookup (e_branches e) x = Some xb" and y: "fmlookup (e_branches e) y = Some yb"
    and base: "base \<in> fmdom' (e_commits e)"
    and ok: "opt_ok (commit_row e base p)" "opt_ok (branch_row e x xb p)" "opt_ok (branch_row e y yb p)"
  shows "outcome_repr (merge_case (masked_cells (sc_cols (e_schema e)) (mask_since e x base) (mask_since e y base)) p
      (commit_row e base p) (branch_row e x xb p) (branch_row e y yb p))
    = outcome_repr (merge_case (full_cells (sc_cols (e_schema e))) p
      (commit_row e base p) (branch_row e x xb p) (branch_row e y yb p))"
proof (rule merge_case_agree)
  let ?cand = "mask_candidates (mask_since e x base) (mask_since e y base) p"
  show "set ?cand \<subseteq> set (sc_cols (e_schema e))" using candidates_since(2) [OF inv] by (simp add: e_cols_def)
  show "cellv (branch_row e x xb p) c = cellv (commit_row e base p) c \<and>
      cellv (branch_row e y yb p) c = cellv (commit_row e base p) c"
    if "c \<in> set (sc_cols (e_schema e))" "c \<notin> set ?cand" for c
    using that candidates_since(1) [OF inv] mask_since_sound_cell [OF inv x base]
      mask_since_sound_cell [OF inv y base] by (auto simp: e_cols_def)
qed (use ok in simp_all)

text \<open>The rows of an engine that refines a model carry no NaN.\<close>

lemma refines_rows_ok:
  assumes "refines e r" "engine_inv e"
  shows "c \<in> fmdom' (e_commits e) \<Longrightarrow> opt_ok (commit_row e c p)"
    "fmlookup (e_branches e) x = Some xb \<Longrightarrow> opt_ok (branch_row e x xb p)"
proof -
  show "opt_ok (commit_row e c p)" if "c \<in> fmdom' (e_commits e)"
    using refines_commit [OF assms(1) that] by (auto simp: table_rel_def same_opt_iff)
  show "opt_ok (branch_row e x xb p)" if b: "fmlookup (e_branches e) x = Some xb"
    using refines_head [OF assms b] by (auto simp: table_rel_def same_opt_iff)
qed

lemma merged_spec:
  assumes r: "refines e r" and inv: "engine_inv e"
    and x: "fmlookup (e_branches e) x = Some xb" and y: "fmlookup (e_branches e) y = Some yb"
    and base: "base \<in> fmdom' (e_commits e)"
  shows "snd (merged e base x y) = [] \<longleftrightarrow>
      (\<forall>p. key_mergeable (sc_cols (e_schema e)) (commit_row e base p) (branch_row e x xb p) (branch_row e y yb p))"
    and "snd (merged e base x y) = [] \<Longrightarrow> c \<in> e_cols e \<Longrightarrow>
      cellv (fmlookup (fst (merged e base x y)) p) c
        = spec_cell (commit_row e base p) (branch_row e x xb p) (branch_row e y yb p) c"
proof -
  let ?m = "\<lambda>p. merge_case (masked_cells (sc_cols (e_schema e)) (mask_since e x base) (mask_since e y base)) p
      (commit_row e base p) (branch_row e x xb p) (branch_row e y yb p)"
  let ?f = "\<lambda>p. merge_case (full_cells (sc_cols (e_schema e))) p
      (commit_row e base p) (branch_row e x xb p) (branch_row e y yb p)"
  note ok = refines_rows_ok(1) [OF r inv base] refines_rows_ok(2) [OF r inv x] refines_rows_ok(2) [OF r inv y]
  have agree: "outcome_repr (?m p) = outcome_repr (?f p)" for p
    by (rule engine_key_merge [OF inv x y base ok])
  have nil: "snd (?m p) = [] \<longleftrightarrow> snd (?f p) = []" for p
    using agree [of p] by (intro clean_agree) (simp add: outcome_repr_def)
  show "snd (merged e base x y) = [] \<longleftrightarrow>
      (\<forall>p. key_mergeable (sc_cols (e_schema e)) (commit_row e base p) (branch_row e x xb p) (branch_row e y yb p))"
    unfolding merged_at(2) [OF x y] nil full_merge_clean [OF ok] ..
  assume clean: "snd (merged e base x y) = []" and c: "c \<in> e_cols e"
  then have "snd (?f p) = []" using merged_at(2) [OF x y, of base] nil by blast
  then have "cellv (fst (?f p)) c = spec_cell (commit_row e base p) (branch_row e x xb p) (branch_row e y yb p) c"
    by (rule full_merge_cell [OF ok]) (use c in \<open>simp add: e_cols_def\<close>)
  moreover have "cellv (fst (?m p)) c = cellv (fst (?f p)) c"
    using agree [of p] by (intro opt_repr_cellv) (simp add: outcome_repr_def)
  ultimately show "cellv (fmlookup (fst (merged e base x y)) p) c
        = spec_cell (commit_row e base p) (branch_row e x xb p) (branch_row e y yb p) c"
    by (simp add: merged_at(1) [OF x y])
qed

end
