(* ===== verification/EngineProps.thy ===== *)
theory EngineProps
  imports MergeSpec
begin

text \<open>
  The properties of the engine, each over an arbitrary run of operations from a new engine, and their
  witnesses on a small run that commits, branches, merges and works in a session.
\<close>

subsection \<open>A sample run\<close>

definition demo_schema :: schema where
  "demo_schema = \<lparr>sc_cols = [1, 2], sc_pk_cols = [1]\<rparr>"

definition demo_row :: "i64 \<Rightarrow> i64 \<Rightarrow> row" where
  "demo_row a b = Some (fmap_of_list [(1, int_val a), (2, int_val b)])"

definition demo_put :: "pk \<Rightarrow> row \<Rightarrow> changeset" where
  "demo_put p r = fmap_of_list [(p, \<lparr>ch_pk = p, ch_op = OpInsert, ch_row = r, ch_changed = []\<rparr>)]"

text \<open>Both branches commit after the fork, and a session on \<open>dev\<close> stages a third key.\<close>

definition demo_ops :: "operation list" where
  "demo_ops =
     [OCommit ''main'' (demo_put ''k'' (demo_row 1 1)), OCreateBranch ''dev'' ''main'',
      OCommit ''dev'' (demo_put ''j'' (demo_row 2 2)), OCommit ''main'' (demo_put ''k'' (demo_row 3 1)),
      OOpen ''dev'', OWrite ''s1'' (demo_put ''i'' (demo_row 5 5))]"

lemma demo_row_ok: "row_ok (demo_row a b)"
  by (auto simp: row_ok_iff demo_row_def row_get_def fmlookup_of_list val_ok_def int_val_def null_val_def
      zero_val_def)

lemma demo_put_ok: "cs_ok (demo_put p (demo_row a b))"
  by (auto simp: cs_ok_def cs_keyed_def demo_put_def fmlookup_of_list demo_row_ok split: if_splits)

lemma demo_ops_ok: "list_all op_ok demo_ops" "int (length demo_ops) + 1 < max_seq"
  by (simp_all add: demo_ops_def demo_put_ok max_seq_def max_int64_def)

lemma demo_run_ok: "run_ok demo_ops"
  using demo_ops_ok list_all_op_ok_keyed by (simp add: run_ok_def)

subsection \<open>Refinement of the model\<close>

text \<open>
  C1: The engine refines the snapshot model: after any sequence of operations without NaN cells, the
  next operation on the engine and on the model either fail with the same error or answer the same (the
  same commit or session id, and for a merge the same base, cleanness, merged rows and conflicting
  cells), and leave states that are related again.
\<close>

theorem engine_refines_model:
  assumes "list_all op_ok ops" "int (length ops) + 1 < max_seq" "op_ok a"
  shows "call_rel (engine_call (engine_run sc ops) a) (model_call (model_run sc ops) a)"
proof -
  have "run_ok ops" using assms(1,2) list_all_op_ok_keyed by (simp add: run_ok_def)
  note inv = engine_run_inv [OF this]
  show ?thesis by (rule call_refines [OF inv run_refines [OF assms(1,2)] assms(3)])
qed

theorem engine_refines_model_witness:
  "\<exists>e r q q'. engine_call (engine_run demo_schema demo_ops) (OMerge ''dev'' ''main'') = Inr (e, q) \<and>
     model_call (model_run demo_schema demo_ops) (OMerge ''dev'' ''main'') = Inr (r, q') \<and>
     refines e r \<and> reply_rel q q'"
proof -
  let ?e = "engine_call (engine_run demo_schema demo_ops) (OMerge ''dev'' ''main'')"
  let ?m = "model_call (model_run demo_schema demo_ops) (OMerge ''dev'' ''main'')"
  have "call_rel ?e ?m" by (rule engine_refines_model [OF demo_ops_ok]) simp
  moreover have "\<not> isl ?e" by code_simp
  ultimately show ?thesis by (cases ?e; cases ?m) auto
qed

lemma table_ok_opt: "table_ok t \<longleftrightarrow> (\<forall>p. opt_ok (fmlookup t p))"
  by (auto simp: table_ok_def opt_ok_def split: option.splits)

lemma table_rel_equal: "table_rel (fmlookup t) s \<longleftrightarrow> table_equal t s"
  by (auto simp: table_rel_def same_opt_iff table_equal_iff table_ok_opt table_repr_def opt_repr_def fun_eq_iff)

lemma refines_reads:
  assumes "refines e r" "engine_inv e"
  shows "b \<in> fmdom' (e_branches e) \<Longrightarrow> table_equal (nil_table (resolve e b)) (nil_table (model_resolve r b))"
    "c \<in> fmdom' (e_commits e) \<Longrightarrow> table_equal (state_at_commit e c) (nil_table (model_resolve_at r c))"
    "session_resolve e sid \<noteq> None \<Longrightarrow>
       table_equal (nil_table (session_resolve e sid)) (nil_table (model_session_resolve r sid))"
proof -
  show "table_equal (nil_table (resolve e b)) (nil_table (model_resolve r b))" if b: "b \<in> fmdom' (e_branches e)"
  proof -
    obtain bb where bb: "fmlookup (e_branches e) b = Some bb" using b by (auto simp: fmlookup_dom'_iff)
    obtain m where m: "fmlookup (r_branches r) b = Some m" "branch_rel bb m"
      using refines_branch(2) [OF assms(1) bb] by blast
    obtain mc where mc: "fmlookup (r_commits r) (b_head_commit bb) = Some mc" "table_rel (branch_row e b bb) (mc_state mc)"
      using refines_head [OF assms bb] .
    have "nil_table (model_resolve r b) = mc_state mc"
      using m mc by (simp add: model_resolve_def model_state_def branch_rel_def nil_table_def)
    then show ?thesis
      using mc(2) by (simp add: table_rel_equal [symmetric] table_rel_def fmlookup_resolve [OF bb])
  qed
  show "table_equal (state_at_commit e c) (nil_table (model_resolve_at r c))" if c: "c \<in> fmdom' (e_commits e)"
  proof -
    obtain mc where mc: "fmlookup (r_commits r) c = Some mc" "table_rel (commit_row e c) (mc_state mc)"
      using refines_commit [OF assms(1) c] .
    then have "nil_table (model_resolve_at r c) = mc_state mc"
      by (simp add: model_resolve_at_def model_state_def nil_table_def)
    then show ?thesis
      using mc(2) by (simp add: table_rel_equal [symmetric] table_rel_def fmlookup_state_at_commit)
  qed
  show "table_equal (nil_table (session_resolve e sid)) (nil_table (model_session_resolve r sid))"
    if s: "session_resolve e sid \<noteq> None"
  proof -
    obtain t where t: "fmlookup (e_sessions e) sid = Some t" "s_open t"
      using s by (auto simp: session_resolve_def split: option.splits if_splits)
    obtain m where m: "fmlookup (r_sessions r) sid = Some m" "session_rel e sid t m"
      using refines_session(2) [OF assms(1) t(1)] by blast
    have "open_at e sid t" using t by (simp add: open_at_def)
    from session_rel_view [OF assms(2) this m(2)] show ?thesis
      using m t(2) by (simp add: table_rel_equal model_session_resolve_def session_rel_def nil_table_def)
  qed
qed

lemma ok_run:
  assumes "list_all op_ok ops" "int (length ops) + 1 < max_seq"
  shows "engine_inv (engine_run sc ops)" "has_room (engine_run sc ops)" "refines (engine_run sc ops) (model_run sc ops)"
proof -
  have "run_ok ops" using assms list_all_op_ok_keyed by (simp add: run_ok_def)
  from engine_run_inv [OF this] show "engine_inv (engine_run sc ops)" "has_room (engine_run sc ops)" by blast+
  show "refines (engine_run sc ops) (model_run sc ops)" by (rule run_refines [OF assms])
qed

text \<open>
  C8: The reads agree too: after the same operations a branch, a commit and an open session show the
  same table in the engine (row versions and resolution chains) and in the model (whole snapshots),
  compared with \<^verbatim>\<open>Table.Equal\<close>.
\<close>

theorem engine_reads_agree:
  assumes "list_all op_ok ops" "int (length ops) + 1 < max_seq"
  shows "(b \<in> fmdom' (e_branches (engine_run sc ops)) \<longrightarrow>
       table_equal (nil_table (resolve (engine_run sc ops) b)) (nil_table (model_resolve (model_run sc ops) b))) \<and>
     (c \<in> fmdom' (e_commits (engine_run sc ops)) \<longrightarrow>
       table_equal (state_at_commit (engine_run sc ops) c) (nil_table (model_resolve_at (model_run sc ops) c))) \<and>
     (session_resolve (engine_run sc ops) sid \<noteq> None \<longrightarrow>
       table_equal (nil_table (session_resolve (engine_run sc ops) sid))
         (nil_table (model_session_resolve (model_run sc ops) sid)))"
  using refines_reads [OF ok_run(3,1) [OF assms]] by blast

theorem engine_reads_agree_witness:
  "table_equal (nil_table (resolve (engine_run demo_schema demo_ops) ''dev''))
     (nil_table (model_resolve (model_run demo_schema demo_ops) ''dev''))"
proof -
  have "fmlookup (e_branches (engine_run demo_schema demo_ops)) ''dev'' \<noteq> None" by code_simp
  then have "''dev'' \<in> fmdom' (e_branches (engine_run demo_schema demo_ops))" by (auto simp: fmlookup_dom'_iff)
  then show ?thesis using engine_reads_agree [OF demo_ops_ok, of "''dev''" demo_schema "[]" "[]"] by blast
qed

subsection \<open>The engine on its own\<close>

text \<open>
  C10: History is immutable: whatever operations follow, the table recorded at a commit never changes.
\<close>

theorem history_immutable:
  assumes "run_ok (ops @ later)" "c \<in> fmdom' (e_commits (engine_run sc ops))"
  shows "state_at_commit (engine_run sc (ops @ later)) c = state_at_commit (engine_run sc ops) c"
proof -
  have ok: "run_ok ops" by (rule run_ok_append [OF assms(1)])
  have "e_next_id (engine_run sc ops) \<le> 1 + length ops"
    using engine_fold_inv [where e = "new_engine sc" and ops = ops, OF engine_inv_new] ok
    by (simp add: engine_run_def run_ok_def new_engine_simps)
  then have "int (e_next_id (engine_run sc ops)) + int (length later) < max_seq"
    using assms(1) by (simp add: run_ok_def)
  from state_at_commit_fold [OF engine_run_inv(1) [OF ok] this _ assms(2)] assms(1)
  show ?thesis by (simp add: engine_run_def run_ok_def)
qed

theorem history_immutable_witness:
  "state_at_commit (engine_run demo_schema demo_ops) ''c2'' = state_at_commit (engine_run demo_schema (take 2 demo_ops)) ''c2''"
proof -
  have "fmlookup (e_commits (engine_run demo_schema (take 2 demo_ops))) ''c2'' \<noteq> None" by code_simp
  then have "''c2'' \<in> fmdom' (e_commits (engine_run demo_schema (take 2 demo_ops)))" by (auto simp: fmlookup_dom'_iff)
  from history_immutable [OF _ this, of "drop 2 demo_ops"] show ?thesis using demo_run_ok by simp
qed

text \<open>
  Branches are isolated: an operation changes what one branch shows at most, the branch it commits
  on; opening, writing and abandoning sessions and creating branches change none.
\<close>

theorem branch_isolation:
  assumes "run_ok (ops @ [a])" "b \<in> fmdom' (e_branches (engine_run sc ops))"
    and "op_branch (engine_run sc ops) a \<noteq> Some b"
  shows "resolve (engine_run sc (ops @ [a])) b = resolve (engine_run sc ops) b"
proof -
  let ?e = "engine_run sc ops"
  note inv = engine_run_inv [OF run_ok_append [OF assms(1)], of sc]
  have k: "op_keyed a" using assms(1) by (simp add: run_ok_def)
  have eq: "engine_run sc (ops @ [a]) = engine_exec ?e a" by (simp add: engine_run_def)
  show ?thesis
    unfolding eq using engine_exec_step [of ?e a] resolve_step [OF _ inv k assms(3,2)] by auto
qed

theorem branch_isolation_witness:
  "resolve (engine_run demo_schema (demo_ops @ [OMerge ''dev'' ''main''])) ''dev''
     = resolve (engine_run demo_schema demo_ops) ''dev''"
proof (rule branch_isolation)
  show "run_ok (demo_ops @ [OMerge ''dev'' ''main''])"
    using demo_run_ok by (simp add: run_ok_def demo_ops_def max_seq_def max_int64_def)
  have "fmlookup (e_branches (engine_run demo_schema demo_ops)) ''dev'' \<noteq> None" by code_simp
  then show "''dev'' \<in> fmdom' (e_branches (engine_run demo_schema demo_ops))" by (auto simp: fmlookup_dom'_iff)
qed simp

text \<open>
  Sessions are isolated: no operation but its own writes, its commit and its abandonment changes
  what an open session sees, not even commits on its branch.
\<close>

theorem session_isolation:
  assumes "run_ok (ops @ [a])" "session_resolve (engine_run sc ops) sid \<noteq> None" "op_session a \<noteq> Some sid"
  shows "session_resolve (engine_run sc (ops @ [a])) sid = session_resolve (engine_run sc ops) sid"
proof -
  let ?e = "engine_run sc ops"
  note inv = engine_run_inv [OF run_ok_append [OF assms(1)], of sc]
  have k: "op_keyed a" using assms(1) by (simp add: run_ok_def)
  obtain s where o: "open_at ?e sid s"
    using assms(2) by (auto simp: session_resolve_def open_at_def split: option.splits if_splits)
  have eq: "engine_run sc (ops @ [a]) = engine_exec ?e a" by (simp add: engine_run_def)
  show ?thesis
    unfolding eq using engine_exec_step [of ?e a] session_view_step(2) [OF _ inv k assms(3) o] by auto
qed

theorem session_isolation_witness:
  "session_resolve (engine_run demo_schema (demo_ops @ [OCommit ''dev'' (demo_put ''k'' (demo_row 9 9))])) ''s1''
     = session_resolve (engine_run demo_schema demo_ops) ''s1''"
proof (rule session_isolation)
  show "run_ok (demo_ops @ [OCommit ''dev'' (demo_put ''k'' (demo_row 9 9))])"
    using demo_run_ok demo_put_ok [of "''k''" 9 9]
    by (simp add: run_ok_def demo_ops_def max_seq_def max_int64_def cs_ok_def)
  show "session_resolve (engine_run demo_schema demo_ops) ''s1'' \<noteq> None"
  proof -
    have "case session_resolve (engine_run demo_schema demo_ops) ''s1'' of None \<Rightarrow> False | Some _ \<Rightarrow> True" by code_simp
    then show ?thesis by (auto split: option.splits)
  qed
qed simp

text \<open>
  The engine never dereferences nil: after any run, an operation returns or fails with one of the
  errors the code constructs, and the panic the model marks as \<open>NilDeref\<close> is never reached.
\<close>

theorem engine_never_nil:
  assumes "run_ok ops"
  shows "engine_call (engine_run sc ops) a \<noteq> Inl NilDeref"
  by (rule engine_call_no_nil [OF engine_run_inv(1) [OF assms]])

theorem engine_never_nil_witness:
  "engine_call (engine_run demo_schema demo_ops) (OUpdate ''dev'') \<noteq> Inl NilDeref"
  by (rule engine_never_nil [OF demo_run_ok])

end
