(* ===== verification/EngineMergeProps.thy ===== *)
theory EngineMergeProps
  imports EngineProps
begin

text \<open>
  Properties of the engine's operations one by one: masks and merges, diffs and filtered reads, commits,
  branches and sessions, and the probes of the property harness.
\<close>

lemma schema_step:
  assumes "engine_step e a e'" "engine_inv e" "op_keyed a"
  shows "e_schema e' = e_schema e"
  using engine_step_shape [OF assms] by (auto simp: quiet_def commits_on_def)

lemma engine_fold_schema:
  assumes "engine_inv e" "int (e_next_id e) + int (length ops) < max_seq" "list_all op_keyed ops"
  shows "e_schema (foldl engine_exec e ops) = e_schema e"
  using assms
proof (induction ops arbitrary: e)
  case (Cons a ops)
  have room: "has_room e" using Cons.prems(2) by (simp add: has_room_def)
  have k: "op_keyed a" using Cons.prems(3) by simp
  note x = engine_exec_inv [OF Cons.prems(1) room k]
  have "e_schema (engine_exec e a) = e_schema e"
    using engine_exec_step [of e a] schema_step [OF _ Cons.prems(1) k] by auto
  moreover have "e_schema (foldl engine_exec (engine_exec e a) ops) = e_schema (engine_exec e a)"
    by (rule Cons.IH [OF x(1)]) (use x(2) Cons.prems in simp_all)
  ultimately show ?case by simp
qed simp

lemma engine_run_schema: "run_ok ops \<Longrightarrow> e_schema (engine_run sc ops) = sc"
  using engine_fold_schema [where e = "new_engine sc" and ops = ops, OF engine_inv_new]
  by (simp add: engine_run_def run_ok_def new_engine_simps)

lemma known_branch:
  assumes "b \<in> fmdom' (e_branches e)"
  obtains bb where "fmlookup (e_branches e) b = Some bb"
  using assms by (auto simp: fmlookup_dom'_iff)

subsection \<open>Masks and merges\<close>

text \<open>
  C7: The changed-column masks are sound: a column of the schema that \<^verbatim>\<open>maskSince\<close> does not mark for a
  row has the same cell on the branch as at the base commit, however the chain of the branch and the
  chain recorded at the base diverged.
\<close>

theorem mask_since_sound:
  assumes "run_ok ops" "b \<in> fmdom' (e_branches (engine_run sc ops))" "base \<in> fmdom' (e_commits (engine_run sc ops))"
    and "c \<in> set (sc_cols sc)" "\<not> has_at (mask_since (engine_run sc ops) b base) p c"
  shows "cellv (fmlookup (nil_table (resolve (engine_run sc ops) b)) p) c
    = cellv (fmlookup (state_at_commit (engine_run sc ops) base) p) c"
proof -
  let ?e = "engine_run sc ops"
  obtain bb where bb: "fmlookup (e_branches ?e) b = Some bb" using assms(2) by (rule known_branch)
  have "c \<in> e_cols ?e" using assms(4) by (simp add: e_cols_def engine_run_schema [OF assms(1)])
  from mask_since_sound_cell [OF engine_run_inv(1) [OF assms(1)] bb assms(3) this assms(5)]
  show ?thesis by (simp add: fmlookup_resolve [OF bb] fmlookup_state_at_commit)
qed

theorem mask_since_sound_witness:
  "cellv (fmlookup (nil_table (resolve (engine_run demo_schema demo_ops) ''main'')) ''k'') 2
     = cellv (fmlookup (state_at_commit (engine_run demo_schema demo_ops) ''c2'') ''k'') 2"
proof (rule mask_since_sound [OF demo_run_ok])
  have "fmlookup (e_branches (engine_run demo_schema demo_ops)) ''main'' \<noteq> None" by code_simp
  then show "''main'' \<in> fmdom' (e_branches (engine_run demo_schema demo_ops))" by (auto simp: fmlookup_dom'_iff)
  have "fmlookup (e_commits (engine_run demo_schema demo_ops)) ''c2'' \<noteq> None" by code_simp
  then show "''c2'' \<in> fmdom' (e_commits (engine_run demo_schema demo_ops))" by (auto simp: fmlookup_dom'_iff)
  show "2 \<in> set (sc_cols demo_schema)" by (simp add: demo_schema_def)
  show "\<not> has_at (mask_since (engine_run demo_schema demo_ops) ''main'' ''c2'') ''k'' 2"
    unfolding has_at_def by code_simp
qed

lemma merge_heads:
  assumes "engine_inv e" "merge e from into = Inr (e', mr)"
  obtains fb tb where "fmlookup (e_branches e) from = Some fb" "fmlookup (e_branches e) into = Some tb"
    and "mr_base mr \<in> fmdom' (e_commits e)"
    and "mr_result mr = fst (merged e (mr_base mr) into from)"
    and "mr_clean mr \<longleftrightarrow> snd (merged e (mr_base mr) into from) = []"
    and "mr_clean mr \<Longrightarrow>
      e' = applied e into tb (nil_table (resolve e into)) (mr_result mr) [b_head_commit tb, b_head_commit fb]"
  using assms(2)
proof (rule engine_merge_cases)
  fix fb tb
  assume h: "fmlookup (e_branches e) from = Some fb" "fmlookup (e_branches e) into = Some tb"
    and base: "merge_base e (b_head_commit tb) (b_head_commit fb) = [mr_base mr]"
    and r: "mr_result mr = fst (merged e (mr_base mr) into from)"
    and c: "mr_conflicts mr = snd (merged e (mr_base mr) into from)" "mr_clean mr \<longleftrightarrow> mr_conflicts mr = []"
    and e': "if mr_clean mr
         then e' = applied e into tb (nil_table (resolve e into)) (mr_result mr) [b_head_commit tb, b_head_commit fb]
              \<and> mr_commit mr = commit_id (e_next_id e + 1)
         else e' = e \<and> mr_commit mr = []"
  have "mr_base mr \<in> fmdom' (e_commits e)"
    by (rule engine_merge_base_commit [OF assms(1) h(2,1)]) (simp add: base)
  then show thesis using that [OF h] r c e' by simp
qed

text \<open>
  C4: A merge conflicts exactly where it must: it is clean if and only if every key was kept by one side,
  ended the same on both, or lives on all three sides with no column changed to different values.
\<close>

theorem merge_conflicts_exact:
  assumes "list_all op_ok ops" "int (length ops) + 1 < max_seq"
    and "merge (engine_run sc ops) from into = Inr (e', mr)"
  shows "mr_clean mr \<longleftrightarrow>
    (\<forall>p. key_mergeable (sc_cols sc) (fmlookup (state_at_commit (engine_run sc ops) (mr_base mr)) p)
       (fmlookup (nil_table (resolve (engine_run sc ops) into)) p)
       (fmlookup (nil_table (resolve (engine_run sc ops) from)) p))"
proof -
  let ?e = "engine_run sc ops"
  note ok = ok_run [OF assms(1,2), of sc]
  have sc: "e_schema ?e = sc"
    by (rule engine_run_schema) (use assms(1,2) list_all_op_ok_keyed in \<open>simp add: run_ok_def\<close>)
  obtain fb tb where h: "fmlookup (e_branches ?e) from = Some fb" "fmlookup (e_branches ?e) into = Some tb"
    and base: "mr_base mr \<in> fmdom' (e_commits ?e)"
    and c: "mr_clean mr \<longleftrightarrow> snd (merged ?e (mr_base mr) into from) = []"
    using merge_heads [OF ok(1) assms(3)] by metis
  show ?thesis
    unfolding c merged_spec(1) [OF ok(3,1) h(2,1) base]
    by (simp add: sc fmlookup_resolve [OF h(1)] fmlookup_resolve [OF h(2)] fmlookup_state_at_commit)
qed

lemma demo_merge: "\<exists>e' mr. merge (engine_run demo_schema demo_ops) ''dev'' ''main'' = Inr (e', mr) \<and> mr_clean mr"
proof -
  have "case merge (engine_run demo_schema demo_ops) ''dev'' ''main'' of Inl _ \<Rightarrow> False | Inr x \<Rightarrow> mr_clean (snd x)"
    by code_simp
  then show ?thesis by (auto split: sum.splits)
qed

theorem merge_conflicts_exact_witness:
  "\<exists>e' mr. merge (engine_run demo_schema demo_ops) ''dev'' ''main'' = Inr (e', mr) \<and>
     (\<forall>p. key_mergeable [1, 2] (fmlookup (state_at_commit (engine_run demo_schema demo_ops) (mr_base mr)) p)
       (fmlookup (nil_table (resolve (engine_run demo_schema demo_ops) ''main'')) p)
       (fmlookup (nil_table (resolve (engine_run demo_schema demo_ops) ''dev'')) p))"
proof -
  obtain e' mr where m: "merge (engine_run demo_schema demo_ops) ''dev'' ''main'' = Inr (e', mr)" "mr_clean mr"
    using demo_merge by blast
  from merge_conflicts_exact [OF demo_ops_ok m(1)] m show ?thesis by (simp add: demo_schema_def)
qed

text \<open>
  C6: After a clean merge every cell of the target is the one of the side that changed it since the base
  (the source's cell where the target still had the base's, and the target's own otherwise).
\<close>

theorem merge_result_cells:
  assumes "list_all op_ok ops" "int (length ops) + 1 < max_seq"
    and "merge (engine_run sc ops) from into = Inr (e', mr)" "mr_clean mr" "c \<in> set (sc_cols sc)"
  shows "cellv (fmlookup (nil_table (resolve e' into)) p) c
    = spec_cell (fmlookup (state_at_commit (engine_run sc ops) (mr_base mr)) p)
        (fmlookup (nil_table (resolve (engine_run sc ops) into)) p)
        (fmlookup (nil_table (resolve (engine_run sc ops) from)) p) c"
proof -
  let ?e = "engine_run sc ops"
  note ok = ok_run [OF assms(1,2), of sc]
  have sc: "e_schema ?e = sc"
    by (rule engine_run_schema) (use assms(1,2) list_all_op_ok_keyed in \<open>simp add: run_ok_def\<close>)
  obtain fb tb where h: "fmlookup (e_branches ?e) from = Some fb" "fmlookup (e_branches ?e) into = Some tb"
    and base: "mr_base mr \<in> fmdom' (e_commits ?e)"
    and r: "mr_result mr = fst (merged ?e (mr_base mr) into from)"
    and c: "snd (merged ?e (mr_base mr) into from) = []"
    and e': "e' = applied ?e into tb (nil_table (resolve ?e into)) (mr_result mr) [b_head_commit tb, b_head_commit fb]"
    using merge_heads [OF ok(1) assms(3)] assms(4) by metis
  have "row_like (fmlookup (nil_table (resolve e' into)) p) (fmlookup (mr_result mr) p)"
    unfolding e' by (rule applied_row [OF ok(1,2) merge_moves [OF ok(1) h(2)]]) (rule fmlookup_resolve [OF h(2)])
  from row_like_cellv [OF this]
  have "cellv (fmlookup (nil_table (resolve e' into)) p) c = cellv (fmlookup (mr_result mr) p) c" .
  moreover have "c \<in> e_cols ?e" using assms(5) by (simp add: e_cols_def sc)
  ultimately show ?thesis
    using merged_spec(2) [OF ok(3,1) h(2,1) base c]
    by (simp add: r fmlookup_resolve [OF h(1)] fmlookup_resolve [OF h(2)] fmlookup_state_at_commit)
qed

theorem merge_result_cells_witness:
  "\<exists>e' mr. merge (engine_run demo_schema demo_ops) ''dev'' ''main'' = Inr (e', mr) \<and>
     cellv (fmlookup (nil_table (resolve e' ''main'')) ''j'') 2
       = spec_cell (fmlookup (state_at_commit (engine_run demo_schema demo_ops) (mr_base mr)) ''j'')
           (fmlookup (nil_table (resolve (engine_run demo_schema demo_ops) ''main'')) ''j'')
           (fmlookup (nil_table (resolve (engine_run demo_schema demo_ops) ''dev'')) ''j'') 2"
proof -
  obtain e' mr where m: "merge (engine_run demo_schema demo_ops) ''dev'' ''main'' = Inr (e', mr)" "mr_clean mr"
    using demo_merge by blast
  from merge_result_cells [OF demo_ops_ok m, of 2 "''j''"] m show ?thesis by (simp add: demo_schema_def)
qed

text \<open>
  C26: The merge base the engine computes by breadth-first distances and the one the model computes by
  walking ancestors are the same list: the best common ancestors, in order. Two branches always have one.
\<close>

theorem merge_base_best_common:
  assumes "run_ok ops" "x \<in> fmdom' (e_branches (engine_run sc ops))" "y \<in> fmdom' (e_branches (engine_run sc ops))"
  shows "let e = engine_run sc ops; bases = merge_base e (engine_head e x) (engine_head e y) in
     bases \<noteq> [] \<and> set bases = best_common (engine_graph e) (engine_head e x) (engine_head e y) \<and>
     sorted bases \<and> bases = model_merge_base (engine_graph e) (engine_head e x) (engine_head e y)"
proof -
  let ?e = "engine_run sc ops"
  obtain xb where xb: "fmlookup (e_branches ?e) x = Some xb" using assms(2) by (rule known_branch)
  obtain yb where yb: "fmlookup (e_branches ?e) y = Some yb" using assms(3) by (rule known_branch)
  have "merge_base ?e (engine_head ?e x) (engine_head ?e y) \<noteq> []"
    using merge_base_nonempty [OF engine_run_inv(1) [OF assms(1)] xb yb] by (simp add: engine_head_def xb yb)
  then show ?thesis
    unfolding Let_def by (simp add: merge_base_def merge_base_agree [symmetric])
      (simp add: engine_merge_base_def bfs.set_bases bfs.bases_sorted)
qed

theorem merge_base_best_common_witness:
  "merge_base (engine_run demo_schema demo_ops) (engine_head (engine_run demo_schema demo_ops) ''main'')
     (engine_head (engine_run demo_schema demo_ops) ''dev'') \<noteq> []"
proof -
  have "fmlookup (e_branches (engine_run demo_schema demo_ops)) ''main'' \<noteq> None \<and>
    fmlookup (e_branches (engine_run demo_schema demo_ops)) ''dev'' \<noteq> None" by code_simp
  then have "''main'' \<in> fmdom' (e_branches (engine_run demo_schema demo_ops))"
    "''dev'' \<in> fmdom' (e_branches (engine_run demo_schema demo_ops))" by (auto simp: fmlookup_dom'_iff)
  from merge_base_best_common [OF demo_run_ok this] show ?thesis unfolding Let_def by blast
qed

end
