(* ===== verification/EngineOpProps.thy ===== *)
theory EngineOpProps
  imports EngineMergeProps
begin

text \<open>
  Properties of the engine's single operations and reads: commits, branches, sessions, diffs, filtered
  reads, predicate updates and the probes of the property harness.
\<close>

subsection \<open>Reads\<close>

text \<open>
  The two-pass filtered read, which re-checks the predicate on each candidate's winner, returns the
  rows of the resolved table that match: no stale version of a row is ever returned, none is missed.
\<close>

theorem resolve_filtered_is_filter:
  "resolve_filtered e b pred = map_option (filter_table pred) (resolve e b)"
  by (rule resolve_filtered_eq)

text \<open>
  Applying the diff between two sequence numbers of a branch to the table at the first gives the
  table at the second: the same row for every key, or one \<^verbatim>\<open>Row.Equal\<close> to it.
\<close>

theorem diff_applies_run:
  assumes "run_ok ops" "s \<le> t" "t < max_seq"
  shows "let e = engine_run sc ops in
    row_like (fmlookup (model_apply (resolve_chain (e_rows e) (chain_for e b s) []) (diff e b s t)) p)
      (fmlookup (resolve_chain (e_rows e) (chain_for e b t) []) p)"
proof -
  have "inv_rows (engine_run sc ops)" using engine_run_inv(1) [OF assms(1)] by (simp add: engine_inv_def)
  from diff_applies [OF this assms(2,3)] show ?thesis unfolding Let_def .
qed

theorem diff_applies_run_witness:
  "let e = engine_run demo_schema demo_ops in
    row_like (fmlookup (model_apply (resolve_chain (e_rows e) (chain_for e ''main'' 1) []) (diff e ''main'' 1 2)) ''k'')
      (fmlookup (resolve_chain (e_rows e) (chain_for e ''main'' 2) []) ''k'')"
  by (rule diff_applies_run [OF demo_run_ok]) (simp_all add: max_seq_def max_int64_def)

text \<open>
  A branch always shows exactly what its head commit records, and a commit known to the engine is one
  of the ids it handed out.
\<close>

theorem head_commit_state:
  assumes "run_ok ops" "b \<in> fmdom' (e_branches (engine_run sc ops))"
  shows "state_at_commit (engine_run sc ops) (engine_head (engine_run sc ops) b)
      = nil_table (resolve (engine_run sc ops) b) \<and>
    engine_head (engine_run sc ops) b \<in> commit_id ` {1..e_next_id (engine_run sc ops)}"
proof -
  let ?e = "engine_run sc ops"
  note inv = engine_run_inv(1) [OF assms(1), of sc]
  obtain bb where bb: "fmlookup (e_branches ?e) b = Some bb" using assms(2) by (rule known_branch)
  have h: "engine_head ?e b = b_head_commit bb" by (simp add: engine_head_def bb)
  have "fmlookup (state_at_commit ?e (b_head_commit bb)) p = fmlookup (nil_table (resolve ?e b)) p" for p
    using engine_inv_branch [OF inv bb] by (simp add: inv_branch_def fmlookup_state_at_commit fmlookup_resolve [OF bb])
  then have "state_at_commit ?e (b_head_commit bb) = nil_table (resolve ?e b)" by (rule fmap_ext)
  moreover have "inv_commits ?e" using inv by (simp add: engine_inv_def)
  ultimately show ?thesis using head_in_commits [OF inv bb] by (simp add: h inv_commits_def)
qed

theorem head_commit_state_witness:
  "state_at_commit (engine_run demo_schema demo_ops) (engine_head (engine_run demo_schema demo_ops) ''dev'')
     = nil_table (resolve (engine_run demo_schema demo_ops) ''dev'')"
proof -
  have "fmlookup (e_branches (engine_run demo_schema demo_ops)) ''dev'' \<noteq> None" by code_simp
  then have "''dev'' \<in> fmdom' (e_branches (engine_run demo_schema demo_ops))" by (auto simp: fmlookup_dom'_iff)
  from head_commit_state [OF demo_run_ok this] show ?thesis by blast
qed

subsection \<open>Commits and branches\<close>

text \<open>
  A commit applies exactly its changes: a deleted key is gone, an inserted or updated key has the
  change's row, every other key is as it was; the commit records the new table.
\<close>

theorem commit_applies:
  assumes "run_ok ops" "cs_keyed cs" "engine_commit (engine_run sc ops) b cs = Inr (e', c)"
  shows "fmlookup (nil_table (resolve e' b)) p
      = (case fmlookup cs p of Some ch \<Rightarrow> change_row ch
         | None \<Rightarrow> fmlookup (nil_table (resolve (engine_run sc ops) b)) p) \<and>
    state_at_commit e' c = nil_table (resolve e' b)"
proof
  let ?e = "engine_run sc ops"
  note inv = engine_run_inv [OF assms(1), of sc]
  obtain b0 where b0: "fmlookup (e_branches ?e) b = Some b0"
    using assms(3) by (auto simp: engine_commit_def split: option.splits)
  show "fmlookup (nil_table (resolve e' b)) p
      = (case fmlookup cs p of Some ch \<Rightarrow> change_row ch | None \<Rightarrow> fmlookup (nil_table (resolve ?e b)) p)"
    unfolding engine_commit_row [OF inv assms(2,3) b0] fmlookup_resolve [OF b0] ..
  have e': "e' = advanced ?e b b0 (foldl write_version (e_rows ?e) (commit_writes ?e b b0 cs)) (e_sessions ?e)
      [b_head_commit b0]" and c: "c = commit_id (e_next_id ?e + 1)"
    using assms(3) engine_commit_eq [OF b0] by simp_all
  have inv': "engine_inv e'" by (rule engine_inv_commit [OF inv assms(2,3)])
  let ?bb = "b0\<lparr>b_head_seq := b_head_seq b0 + 1, b_head_commit := c\<rparr>"
  have bb: "fmlookup (e_branches e') b = Some ?bb" by (simp add: e' advanced_branches c)
  show "state_at_commit e' c = nil_table (resolve e' b)"
    using engine_inv_branch [OF inv' bb]
    by (intro fmap_ext) (simp add: inv_branch_def fmlookup_state_at_commit fmlookup_resolve [OF bb])
qed

theorem commit_applies_witness:
  "\<exists>e' c. engine_commit (engine_run demo_schema demo_ops) ''main'' (demo_put ''z'' (demo_row 4 4)) = Inr (e', c) \<and>
     fmlookup (nil_table (resolve e' ''main'')) ''z'' = Some (demo_row 4 4)"
proof -
  let ?r = "engine_commit (engine_run demo_schema demo_ops) ''main'' (demo_put ''z'' (demo_row 4 4))"
  have "\<not> isl ?r" by code_simp
  then obtain e' c where r: "?r = Inr (e', c)" by (cases ?r) auto
  have k: "cs_keyed (demo_put ''z'' (demo_row 4 4))" using demo_put_ok by (simp add: cs_ok_def)
  from commit_applies [OF demo_run_ok k r, of "''z''"] r show ?thesis
    by (simp add: demo_put_def fmlookup_of_list change_row_def)
qed

text \<open>
  A new branch starts with exactly its parent's table, and creating it copies no row version.
\<close>

theorem create_branch_view:
  assumes "run_ok ops" "create_branch (engine_run sc ops) name from = Inr e'"
  shows "resolve e' name = resolve (engine_run sc ops) from \<and> version_count e' = version_count (engine_run sc ops)"
proof -
  let ?e = "engine_run sc ops"
  note inv = engine_run_inv(1) [OF assms(1), of sc]
  from assms(2) show ?thesis
  proof (rule create_branch_cases)
    fix p
    assume n: "fmlookup (e_branches ?e) name = None" and p: "fmlookup (e_branches ?e) from = Some p"
      and e': "e' = ?e\<lparr>e_branches := fmupd name (forked name from p) (e_branches ?e)\<rparr>"
    have b': "fmlookup (e_branches e') name = Some (forked name from p)" by (simp add: e')
    have nh: "e_hist ?e name q = []" for q by (rule no_versions_off_branch [OF inv n])
    have eh: "e_hist e' = e_hist ?e" by (simp add: e' e_hist_def)
    have "fmlookup (nil_table (resolve e' name)) q = fmlookup (nil_table (resolve ?e from)) q" for q
      by (simp add: fmlookup_resolve [OF b'] fmlookup_resolve [OF p] branch_row_def head_chain_def [of name] forked_def
          eh nh seg_row_def hist_at_empty)
    then have "nil_table (resolve e' name) = nil_table (resolve ?e from)" by (rule fmap_ext)
    then show ?thesis using b' p by (simp add: resolve_def nil_table_def version_count_def) (simp add: e')
  qed
qed

theorem create_branch_view_witness:
  "\<exists>e'. create_branch (engine_run demo_schema demo_ops) ''feat'' ''dev'' = Inr e' \<and>
     resolve e' ''feat'' = resolve (engine_run demo_schema demo_ops) ''dev''"
proof -
  let ?r = "create_branch (engine_run demo_schema demo_ops) ''feat'' ''dev''"
  have "\<not> isl ?r" by code_simp
  then obtain e' where r: "?r = Inr e'" by (cases ?r) auto
  from create_branch_view [OF demo_run_ok r] r show ?thesis by blast
qed

text \<open>
  Resolution chains are bounded by the branch tree: a branch's chain has at least one segment and at
  most as many as there are branches.
\<close>

theorem chain_depth_bound:
  assumes "run_ok ops" "b \<in> fmdom' (e_branches (engine_run sc ops))"
  shows "1 \<le> chain_depth (engine_run sc ops) b \<and>
    chain_depth (engine_run sc ops) b \<le> card (fmdom' (e_branches (engine_run sc ops)))"
proof -
  let ?e = "engine_run sc ops"
  obtain bb where bb: "fmlookup (e_branches ?e) b = Some bb" using assms(2) by (rule known_branch)
  have ch: "chain_in ?e (head_chain b bb)" by (rule head_chain_in [OF engine_run_inv(1) [OF assms(1)] bb])
  then have d: "distinct (names (head_chain b bb))" "set (names (head_chain b bb)) \<subseteq> fmdom' (e_branches ?e)"
    by (auto simp: chain_in_def tail_in_def dest: tree_path_distinct)
  have "chain_depth ?e b = length (names (head_chain b bb))"
    by (simp add: chain_depth_def bb chain_for_head [OF bb])
  also have "\<dots> = card (set (names (head_chain b bb)))" by (rule distinct_card [OF d(1), symmetric])
  also have "\<dots> \<le> card (fmdom' (e_branches ?e))" by (rule card_mono [OF _ d(2)]) simp
  finally show ?thesis using \<open>chain_depth ?e b = length (names (head_chain b bb))\<close> by (simp add: head_chain_def)
qed

theorem chain_depth_bound_witness:
  "chain_depth (engine_run demo_schema demo_ops) ''dev'' \<le> card (fmdom' (e_branches (engine_run demo_schema demo_ops)))"
proof -
  have "fmlookup (e_branches (engine_run demo_schema demo_ops)) ''dev'' \<noteq> None" by code_simp
  then have "''dev'' \<in> fmdom' (e_branches (engine_run demo_schema demo_ops))" by (auto simp: fmlookup_dom'_iff)
  from chain_depth_bound [OF demo_run_ok this] show ?thesis by blast
qed

text \<open>
  An update from the parent settles the branch: after a clean update a second one finds nothing to
  do, is clean again and makes no commit.
\<close>

theorem update_then_noop:
  assumes "run_ok ops" "update_from_parent (engine_run sc ops) b = Inr (e', mr)" "mr_clean mr"
  shows "\<exists>mr'. update_from_parent e' b = Inr (e', mr') \<and> mr_clean mr' \<and> mr_commit mr' = [] \<and>
    mr_result mr' = nil_table (resolve e' b)"
proof -
  let ?e = "engine_run sc ops"
  note inv = engine_run_inv(1) [OF assms(1), of sc]
  from assms(2) show ?thesis
  proof (rule update_from_parent_cases)
    fix bb pp
    assume bb: "fmlookup (e_branches ?e) b = Some bb" "b_parent bb \<noteq> []"
      and pp: "fmlookup (e_branches ?e) (b_parent bb) = Some pp"
      and res: "if b_head_commit pp = b_fork_commit bb
         then e' = ?e \<and> mr_result mr = nil_table (resolve ?e b) \<and> mr_conflicts mr = [] \<and> mr_commit mr = []
         else mr_result mr = fst (merged ?e (b_fork_commit bb) b (b_parent bb)) \<and>
              mr_conflicts mr = snd (merged ?e (b_fork_commit bb) b (b_parent bb)) \<and>
              (if mr_clean mr
               then e' = applied ?e b (refork bb pp) (parent_view ?e b (refork bb pp)) (mr_result mr)
                      [b_head_commit bb, b_head_commit pp] \<and> mr_commit mr = commit_id (e_next_id ?e + 1)
               else e' = ?e \<and> mr_commit mr = [])"
    show ?thesis
    proof (cases "b_head_commit pp = b_fork_commit bb")
      case True
      then show ?thesis using res bb pp by (simp add: update_from_parent_def)
    next
      case False
      then have e': "e' = applied ?e b (refork bb pp) (parent_view ?e b (refork bb pp)) (mr_result mr)
          [b_head_commit bb, b_head_commit pp]" using res assms(3) by simp
      have ne: "b_parent bb \<noteq> b"
        by (rule parent_known(2) [OF inv bb(1) not_root_parent [OF inv bb]])
      have "fmlookup (e_branches e') (b_parent bb) = Some pp" using pp ne by (simp add: e' applied_def advanced_branches)
      moreover obtain rb where "fmlookup (e_branches e') b = Some rb" "b_parent rb = b_parent bb"
        "b_fork_commit rb = b_head_commit pp"
        by (simp add: e' applied_def advanced_branches refork_def)
      ultimately show ?thesis using bb(2) by (simp add: update_from_parent_def)
    qed
  qed
qed

theorem update_then_noop_witness:
  "\<exists>e' mr mr'. update_from_parent (engine_run demo_schema demo_ops) ''dev'' = Inr (e', mr) \<and>
     update_from_parent e' ''dev'' = Inr (e', mr') \<and> mr_commit mr' = []"
proof -
  let ?r = "update_from_parent (engine_run demo_schema demo_ops) ''dev''"
  have "case ?r of Inl _ \<Rightarrow> False | Inr x \<Rightarrow> mr_clean (snd x)" by code_simp
  then obtain e' mr where r: "?r = Inr (e', mr)" "mr_clean mr" by (cases ?r) auto
  from update_then_noop [OF demo_run_ok r] r(1) show ?thesis by blast
qed

subsection \<open>Sessions\<close>

text \<open>
  A session sees its own writes: after a write its view is the old view with the changes applied,
  whatever it had staged for the same keys before.
\<close>

theorem session_reads_writes:
  assumes "run_ok ops" "cs_keyed cs" "session_write (engine_run sc ops) sid cs = Inr e'"
  shows "fmlookup (nil_table (session_resolve e' sid)) p
    = (case fmlookup cs p of Some ch \<Rightarrow> change_row ch
       | None \<Rightarrow> fmlookup (nil_table (session_resolve (engine_run sc ops) sid)) p)"
  by (rule session_write_view [OF engine_run_inv(1) [OF assms(1)] assms(2,3)])

theorem session_reads_writes_witness:
  "\<exists>e'. session_write (engine_run demo_schema demo_ops) ''s1'' (demo_put ''i'' (demo_row 6 6)) = Inr e' \<and>
     fmlookup (nil_table (session_resolve e' ''s1'')) ''i'' = Some (demo_row 6 6)"
proof -
  let ?r = "session_write (engine_run demo_schema demo_ops) ''s1'' (demo_put ''i'' (demo_row 6 6))"
  have "\<not> isl ?r" by code_simp
  then obtain e' where r: "?r = Inr e'" by (cases ?r) auto
  have k: "cs_keyed (demo_put ''i'' (demo_row 6 6))" using demo_put_ok by (simp add: cs_ok_def)
  from session_reads_writes [OF demo_run_ok k r, of "''i''"] r show ?thesis
    by (simp add: demo_put_def fmlookup_of_list change_row_def)
qed

text \<open>
  C11: Committing a session publishes its view: the session's branch then shows exactly the table the
  session saw, and the session is closed.
\<close>

theorem session_commit_publishes:
  assumes "run_ok ops" "commit_session (engine_run sc ops) sid = Inr (e', c)"
  shows "\<exists>s. fmlookup (e_sessions (engine_run sc ops)) sid = Some s \<and>
    nil_table (resolve e' (s_branch s)) = nil_table (session_resolve (engine_run sc ops) sid) \<and>
    session_resolve e' sid = None"
proof -
  let ?e = "engine_run sc ops"
  note inv = engine_run_inv [OF assms(1), of sc]
  from assms(2) show ?thesis
  proof (rule commit_session_cases)
    fix s b
    assume o: "open_at ?e sid s"
      and e': "e' = advanced ?e (s_branch s) b (sealed ?e sid s b) (fmupd sid (s\<lparr>s_open := False\<rparr>) (e_sessions ?e))
            [b_head_commit b]"
    have "nil_table (resolve e' (s_branch s)) = nil_table (session_resolve ?e sid)"
      by (rule fmap_ext) (rule commit_session_row [OF inv assms(2) o])
    moreover have "session_resolve e' sid = None" by (simp add: session_resolve_def e')
    ultimately show ?thesis using o by (auto simp: open_at_def)
  qed
qed

theorem session_commit_publishes_witness:
  "\<exists>e' c. commit_session (engine_run demo_schema demo_ops) ''s1'' = Inr (e', c) \<and> session_resolve e' ''s1'' = None"
proof -
  let ?r = "commit_session (engine_run demo_schema demo_ops) ''s1''"
  have "\<not> isl ?r" by code_simp
  then obtain e' c where r: "?r = Inr (e', c)" by (cases ?r) auto
  from session_commit_publishes [OF demo_run_ok r] r show ?thesis by blast
qed

text \<open>
  Session commits are optimistic: committing fails only for a session that is not open, or because the
  branch's head moved since the session opened; otherwise it succeeds.
\<close>

theorem session_commit_errors:
  assumes "run_ok ops"
  shows "(case commit_session (engine_run sc ops) sid of
      Inl err \<Rightarrow>
        err = NoOpenSession sid \<and> session_resolve (engine_run sc ops) sid = None \<or>
        err = BranchMoved \<and> (\<exists>s. open_at (engine_run sc ops) sid s \<and>
          engine_head (engine_run sc ops) (s_branch s) \<noteq> s_base s)
    | Inr _ \<Rightarrow> \<exists>s. open_at (engine_run sc ops) sid s \<and> engine_head (engine_run sc ops) (s_branch s) = s_base s)"
proof (cases "\<exists>s. open_at (engine_run sc ops) sid s")
  case True
  let ?e = "engine_run sc ops"
  from True obtain s where o: "open_at ?e sid s" by blast
  have "inv_sessions ?e" using engine_run_inv(1) [OF assms] by (simp add: engine_inv_def)
  then have "s_branch s \<in> fmdom' (e_branches ?e)" using o unfolding inv_sessions_def open_at_def by blast
  then obtain b where b: "fmlookup (e_branches ?e) (s_branch s) = Some b" by (rule known_branch)
  have h: "engine_head ?e (s_branch s) = b_head_commit b" by (simp add: engine_head_def b)
  have r: "commit_session ?e sid = Inl BranchMoved" if "b_head_commit b \<noteq> s_base s"
    using that o b by (simp add: commit_session_def open_at_def)
  have r': "\<exists>x. commit_session ?e sid = Inr x" if "b_head_commit b = s_base s"
    using that o b by (simp add: commit_session_def open_at_def Let_def new_commit_id_def)
  show ?thesis
    by (cases "b_head_commit b = s_base s") (use r r' o h in auto)
next
  case False
  then show ?thesis
    by (auto simp: commit_session_def open_at_def session_resolve_def split: option.splits)
qed

theorem session_commit_errors_witness:
  "\<exists>s. open_at (engine_run demo_schema demo_ops) ''s1'' s \<and>
     engine_head (engine_run demo_schema demo_ops) (s_branch s) = s_base s"
proof -
  have "\<not> isl (commit_session (engine_run demo_schema demo_ops) ''s1'')" by code_simp
  then show ?thesis
    using session_commit_errors [OF demo_run_ok, of "''s1''" demo_schema] by (auto split: sum.splits)
qed

subsection \<open>Predicate updates\<close>

text \<open>
  Planning a predicate update and committing the plan rewrites exactly the matching rows: each row of
  the branch that matches becomes its assignment (or is left, if that is \<^verbatim>\<open>Row.Equal\<close> to it), every
  other key is as it was.
\<close>

theorem plan_update_applies:
  assumes "run_ok ops"
    and "engine_commit (engine_run sc ops) b (plan_update_where (engine_run sc ops) b pred assign) = Inr (e', c)"
  shows "row_like (fmlookup (nil_table (resolve e' b)) p)
    (case fmlookup (nil_table (resolve (engine_run sc ops) b)) p of
       None \<Rightarrow> None | Some r \<Rightarrow> Some (if pred r then assign r else r))"
proof -
  let ?e = "engine_run sc ops"
  let ?plan = "plan_update_where ?e b pred assign"
  obtain bb where bb: "fmlookup (e_branches ?e) b = Some bb"
    using assms(2) by (auto simp: engine_commit_def split: option.splits)
  then obtain t where t: "resolve ?e b = Some t" by (simp add: resolve_def)
  have plan: "fmlookup ?plan q = (case fmlookup t q of None \<Rightarrow> None
      | Some r \<Rightarrow> if pred r \<and> \<not> row_equal (assign r) r
          then Some \<lparr>ch_pk = q, ch_op = OpUpdate, ch_row = assign r, ch_changed = []\<rparr> else None)" for q
    by (auto simp: plan_update_where_def plan_changes_def resolve_filtered_eq t nil_table_def filter_table_def
        split: option.splits)
  have k: "cs_keyed ?plan" by (auto simp: cs_keyed_def plan split: option.splits if_splits)
  have "fmlookup (nil_table (resolve e' b)) p
      = (case fmlookup ?plan p of Some ch \<Rightarrow> change_row ch | None \<Rightarrow> fmlookup t p)"
    using engine_commit_row [OF engine_run_inv [OF assms(1)] k assms(2) bb, of p] fmlookup_resolve [OF bb, of p]
    by (simp add: t nil_table_def cong: option.case_cong)
  then show ?thesis
    by (cases "fmlookup t p")
      (auto simp: plan t nil_table_def row_like_def change_row_def same_opt_def row_equal_iff)
qed

theorem plan_update_applies_witness:
  "\<exists>e' c. engine_commit (engine_run demo_schema demo_ops) ''main''
       (plan_update_where (engine_run demo_schema demo_ops) ''main'' (\<lambda>r. True) (\<lambda>r. demo_row 8 8)) = Inr (e', c) \<and>
     row_like (fmlookup (nil_table (resolve e' ''main'')) ''k'')
       (case fmlookup (nil_table (resolve (engine_run demo_schema demo_ops) ''main'')) ''k'' of
          None \<Rightarrow> None | Some r \<Rightarrow> Some (if True then demo_row 8 8 else r))"
proof -
  let ?r = "engine_commit (engine_run demo_schema demo_ops) ''main''
    (plan_update_where (engine_run demo_schema demo_ops) ''main'' (\<lambda>r. True) (\<lambda>r. demo_row 8 8))"
  have "\<not> isl ?r" by code_simp
  then obtain e' c where r: "?r = Inr (e', c)" by (cases ?r) auto
  from plan_update_applies [OF demo_run_ok r, of "''k''"] r show ?thesis by blast
qed

subsection \<open>Probes\<close>

text \<open>
  The interval invariant the property harness checks holds for every reachable engine: the version
  intervals of a key on a branch never overlap, and at most one of its versions is open.
\<close>

theorem intervals_hold:
  assumes "run_ok ops"
  shows "intervals_sane (engine_run sc ops) \<and> count_at (open_versions_per_key (engine_run sc ops)) b p \<le> 1"
proof -
  have "inv_rows (engine_run sc ops)" using engine_run_inv(1) [OF assms] by (simp add: engine_inv_def)
  then show ?thesis using intervals_sane_inv open_count_le by (simp add: open_versions_count)
qed

theorem intervals_hold_witness:
  "intervals_sane (engine_run demo_schema demo_ops) \<and>
     count_at (open_versions_per_key (engine_run demo_schema demo_ops)) ''main'' ''k'' \<le> 1"
  by (rule intervals_hold [OF demo_run_ok])

text \<open>
  The root branch never carries staged rows, and no committed row version is without its commit.
\<close>

theorem root_branch_clean:
  assumes "run_ok ops"
  shows "staged_on_branch (engine_run sc ops) root_branch = 0 \<and> zero_hash_on_branch (engine_run sc ops) b = 0"
  using engine_run_inv(1) [OF assms, of sc] staged_on_root zero_hash_none by (simp add: engine_inv_def)

theorem root_branch_clean_witness:
  "staged_on_branch (engine_run demo_schema demo_ops) root_branch = 0 \<and>
     zero_hash_on_branch (engine_run demo_schema demo_ops) ''dev'' = 0"
  by (rule root_branch_clean [OF demo_run_ok])

end
