(* ===== verification/HashDefs.thy ===== *)
theory HashDefs
  imports Sha256 CoreChange
begin

text \<open>
  The commit hash chain, after \<^verbatim>\<open>internal/hash/hash.go\<close>: leaf digests of row changes, the Merkle root of
  a change set, schema digests, commit ids and \<^verbatim>\<open>VerifyChain\<close>. A \<^verbatim>\<open>Digest\<close> is a string of 32 bytes; the
  \<^verbatim>\<open>time.Time\<close> of a commit is its \<^verbatim>\<open>UnixMicro\<close> count. A definition \<open>*_bytes\<close> is the buffer the function of
  that name builds before it calls SHA-256.
\<close>

type_synonym digest = bytes

definition digest_ok :: "digest \<Rightarrow> bool" where
  "digest_ok d \<longleftrightarrow> length d = 32"

definition digest_is_zero :: "digest \<Rightarrow> bool" where
  "digest_is_zero d = list_all (\<lambda>b. b = char_of (0::nat)) d"

subsection \<open>Domain separation tags\<close>

definition tag_leaf :: char where "tag_leaf = char_of (0::nat)"
definition tag_internal :: char where "tag_internal = char_of (1::nat)"
definition tag_empty :: char where "tag_empty = char_of (2::nat)"
definition tag_commit :: char where "tag_commit = char_of (3::nat)"
definition tag_schema :: char where "tag_schema = char_of (4::nat)"

subsection \<open>Leaves\<close>

record hash_change =
  hc_table :: u64
  hc_pk :: pk
  hc_op :: op
  hc_changed :: colmask
  hc_row :: row

fun op_byte :: "op \<Rightarrow> u8" where
  "op_byte OpInsert = 1"
| "op_byte OpUpdate = 2"
| "op_byte OpDelete = 3"
| "op_byte (OpOther k) = k"

text \<open>\<^verbatim>\<open>maskBytes\<close>: trailing zero words are stripped, then each word is written big-endian.\<close>

definition strip_words :: "colmask \<Rightarrow> colmask" where
  "strip_words m = rev (dropWhile (\<lambda>w. w = 0) (rev m))"

definition mask_bytes :: "colmask \<Rightarrow> bytes" where
  "mask_bytes m = foldl append_uint64 [] (strip_words m)"

definition leaf_bytes :: "hash_change \<Rightarrow> colid list \<Rightarrow> core_error + bytes" where
  "leaf_bytes c cols =
     (let buf = append_len_prefixed (append_uint64 [tag_leaf] (hc_table c)) (hc_pk c);
          buf = append_len_prefixed (buf @ [char_of (unat (op_byte (hc_op c)))]) (mask_bytes (hc_changed c))
      in if hc_op c \<noteq> OpDelete then row_encode (hc_row c) buf cols else Inr buf)"

definition leaf_digest :: "hash_change \<Rightarrow> colid list \<Rightarrow> core_error + digest" where
  "leaf_digest c cols = (case leaf_bytes c cols of Inl e \<Rightarrow> Inl e | Inr buf \<Rightarrow> Inr (sha256 buf))"

subsection \<open>The Merkle root\<close>

definition internal_bytes :: "digest \<Rightarrow> digest \<Rightarrow> bytes" where
  "internal_bytes a b = tag_internal # a @ b"

text \<open>One level of the tree: an odd last node is promoted, never duplicated.\<close>

fun merkle_level :: "digest list \<Rightarrow> digest list" where
  "merkle_level [] = []"
| "merkle_level [d] = [d]"
| "merkle_level (a # b # ds) = sha256 (internal_bytes a b) # merkle_level ds"

lemma length_merkle_level: "length (merkle_level ds) = (length ds + 1) div 2"
  by (induction ds rule: merkle_level.induct) simp_all

function merkle_loop :: "digest list \<Rightarrow> digest list" where
  "merkle_loop level = (if length level > 1 then merkle_loop (merkle_level level) else level)"
  by pat_completeness auto
termination by (relation "measure length") (auto simp: length_merkle_level)

declare merkle_loop.simps [simp del]

definition merkle_root :: "digest list \<Rightarrow> digest" where
  "merkle_root leaves =
     (if leaves = [] then sha256 [tag_empty] else hd (merkle_loop (sort leaves)))"

text \<open>The loop of \<^verbatim>\<open>ChangeDigest\<close>, which stops at the first change that has no encoding.\<close>

fun leaf_digests :: "hash_change list \<Rightarrow> colid list \<Rightarrow> core_error + digest list" where
  "leaf_digests [] cols = Inr []"
| "leaf_digests (c # cs) cols =
     (case leaf_digest c cols of
        Inl e \<Rightarrow> Inl e
      | Inr d \<Rightarrow> (case leaf_digests cs cols of Inl e \<Rightarrow> Inl e | Inr ds \<Rightarrow> Inr (d # ds)))"

definition change_digest :: "hash_change list \<Rightarrow> colid list \<Rightarrow> core_error + digest" where
  "change_digest changes cols =
     (case leaf_digests changes cols of Inl e \<Rightarrow> Inl e | Inr leaves \<Rightarrow> Inr (merkle_root leaves))"

subsection \<open>Schema digests\<close>

record schema_column =
  sc_id :: colid
  sc_name :: string
  sc_type :: string
  sc_nullable :: bool
  sc_pk :: bool

definition column_flags :: "schema_column \<Rightarrow> u8" where
  "column_flags c = (if sc_nullable c then 1 else 0) OR (if sc_pk c then 2 else 0)"

definition column_bytes :: "bytes \<Rightarrow> schema_column \<Rightarrow> bytes" where
  "column_bytes buf c =
     append_len_prefixed (append_len_prefixed (append_uint32 buf (sc_id c)) (sc_name c)) (sc_type c)
       @ [char_of (unat (column_flags c))]"

definition schema_bytes :: "u64 \<Rightarrow> schema_column list \<Rightarrow> bytes" where
  "schema_bytes table cols =
     (let sorted = sort_key sc_id cols
      in foldl column_bytes
           (append_uint32 (append_uint64 [tag_schema] table) (of_nat (length sorted))) sorted)"

definition schema_digest :: "u64 \<Rightarrow> schema_column list \<Rightarrow> digest" where
  "schema_digest table cols = sha256 (schema_bytes table cols)"

subsection \<open>Commit ids\<close>

definition canonical_version :: string where
  "canonical_version = ''datagit.commit.v1''"

record commit_input =
  ci_repo :: bytes
  ci_parents :: "digest list"
  ci_change :: digest
  ci_schema :: digest
  ci_author :: string
  ci_author_at :: i64
  ci_message :: string
  ci_external_ref :: string

definition commit_bytes :: "commit_input \<Rightarrow> bytes" where
  "commit_bytes inp =
     (let parents = sort (ci_parents inp);
          buf = append_len_prefixed [tag_commit] canonical_version @ ci_repo inp;
          buf = append_uint32 buf (of_nat (length parents));
          buf = foldl (\<lambda>b p. b @ p) buf parents;
          buf = (buf @ ci_change inp) @ ci_schema inp;
          buf = append_len_prefixed buf (ci_author inp);
          buf = append_uint64 buf (ci_author_at inp);
          buf = append_len_prefixed buf (ci_message inp)
      in append_len_prefixed buf (ci_external_ref inp))"

definition commit_hash :: "commit_input \<Rightarrow> digest" where
  "commit_hash inp = sha256 (commit_bytes inp)"

subsection \<open>Verifying a chain\<close>

text \<open>
  The error of \<^verbatim>\<open>VerifyChain\<close> carries the index, the stored id and the recomputed one; \<^term>\<open>None\<close> is nil.
\<close>

fun verify_from :: "nat \<Rightarrow> (digest \<times> commit_input) list \<Rightarrow> (digest, bool) fmap
    \<Rightarrow> (nat \<times> digest \<times> digest) option" where
  "verify_from i [] purged = None"
| "verify_from i ((d, inp) # cs) purged =
     (if fmlookup purged d = Some True then verify_from (Suc i) cs purged
      else if commit_hash inp \<noteq> d then Some (i, d, commit_hash inp)
      else verify_from (Suc i) cs purged)"

definition verify_chain :: "(digest \<times> commit_input) list \<Rightarrow> (digest, bool) fmap
    \<Rightarrow> (nat \<times> digest \<times> digest) option" where
  "verify_chain commits purged = verify_from 0 commits purged"

end
