(* ===== verification/HashFacts.thy ===== *)
theory HashFacts
  imports HashDefs
begin

text \<open>
  Facts about the buffers of the hash chain: each determines the fields it was built from, as long as
  every length fits its uint32 prefix, and the Merkle loop is the hash of a tree whose fringe is the
  sorted leaf list. The locale \<open>framed\<close> is the contract the buffers meet.
\<close>

subsection \<open>Framing\<close>

lemma image_mset_factor:
  assumes "\<And>x y. x \<in># A + B \<Longrightarrow> y \<in># A + B \<Longrightarrow> f x = f y \<Longrightarrow> g x = g y"
    and "image_mset f A = image_mset f B"
  shows "image_mset g A = image_mset g B"
proof -
  define h where "h v = g (SOME x. x \<in># A + B \<and> f x = v)" for v
  have h: "g x = h (f x)" if x: "x \<in># A + B" for x
  proof -
    have "(SOME y. y \<in># A + B \<and> f y = f x) \<in># A + B \<and> f (SOME y. y \<in># A + B \<and> f y = f x) = f x"
      by (rule someI [of _ x]) (use x in simp)
    then show ?thesis unfolding h_def by (intro assms(1)) (use x in simp_all)
  qed
  have "image_mset g A = image_mset (\<lambda>x. h (f x)) A" by (rule image_mset_cong) (use h in simp)
  moreover have "image_mset g B = image_mset (\<lambda>x. h (f x)) B" by (rule image_mset_cong) (use h in simp)
  moreover have "image_mset (\<lambda>x. h (f x)) A = image_mset (\<lambda>x. h (f x)) B"
    using arg_cong [OF assms(2), of "image_mset h"] by (simp add: multiset.map_comp o_def)
  ultimately show ?thesis by simp
qed

text \<open>Two different buffers with one digest: what a forgery has to exhibit.\<close>

definition collision :: "bytes \<Rightarrow> bytes \<Rightarrow> bool" where
  "collision x y \<longleftrightarrow> x \<noteq> y \<and> sha256 x = sha256 y"

text \<open>A buffer that determines what it was built from, for well-formed inputs.\<close>

locale framed =
  fixes frame :: "'a \<Rightarrow> bytes"
    and ok :: "'a \<Rightarrow> bool"
    and fields :: "'a \<Rightarrow> 'f"
  assumes frame_fields: "ok a \<Longrightarrow> ok b \<Longrightarrow> frame a = frame b \<longleftrightarrow> fields a = fields b"
begin

lemma same_digest:
  "ok a \<Longrightarrow> ok b \<Longrightarrow> sha256 (frame a) = sha256 (frame b) \<Longrightarrow>
     fields a = fields b \<or> collision (frame a) (frame b)"
  by (auto simp: collision_def frame_fields)

lemma digest_iff:
  "ok a \<Longrightarrow> ok b \<Longrightarrow>
     sha256 (frame a) = sha256 (frame b) \<longleftrightarrow> fields a = fields b \<or> collision (frame a) (frame b)"
  using frame_fields [of a b] by (cases "frame a = frame b") (simp_all add: collision_def)

text \<open>For whole collections: the buffers agree exactly when the fields do.\<close>

lemma image_frame_fields:
  assumes "\<forall>a \<in># A + B. ok a"
  shows "image_mset frame A = image_mset frame B \<longleftrightarrow> image_mset fields A = image_mset fields B"
proof -
  have iff: "frame x = frame y \<longleftrightarrow> fields x = fields y" if "x \<in># A + B" "y \<in># A + B" for x y
    using that assms frame_fields by blast
  show ?thesis
  proof
    assume "image_mset frame A = image_mset frame B"
    then show "image_mset fields A = image_mset fields B"
      by (rule image_mset_factor [rotated]) (use iff in blast)
  next
    assume "image_mset fields A = image_mset fields B"
    then show "image_mset frame A = image_mset frame B"
      by (rule image_mset_factor [rotated]) (use iff in blast)
  qed
qed

lemma same_fields: "ok a \<Longrightarrow> ok b \<Longrightarrow> fields a = fields b \<Longrightarrow> sha256 (frame a) = sha256 (frame b)"
  by (simp add: frame_fields [symmetric])

end

definition short :: "bytes \<Rightarrow> bool" where
  "short s \<longleftrightarrow> length s < 2 ^ 32"

definition prefixed :: "bytes \<Rightarrow> bytes" where
  "prefixed s = be32 (of_nat (length s)) @ s"

lemma append_prefixed: "append_len_prefixed dst s = dst @ prefixed s"
  by (simp add: append_len_prefixed_def prefixed_def)

lemma prefixed_inj:
  assumes "short s" "short t"
  shows "prefixed s @ x = prefixed t @ y \<longleftrightarrow> s = t \<and> x = y"
proof
  assume "prefixed s @ x = prefixed t @ y"
  then have "(of_nat (length s) :: u32) = of_nat (length t)" and e: "s @ x = t @ y"
    by (simp_all add: prefixed_def)
  then have "length s = length t" using assms by (simp add: short_def u32_length_inj)
  with e show "s = t \<and> x = y" by simp
qed simp

lemma prefixed_inj_end:
  assumes "short s" "short t"
  shows "prefixed s = prefixed t \<longleftrightarrow> s = t"
  using prefixed_inj [OF assms, of "[]" "[]"] by simp

lemma byte_mod [simp]: "unat (a :: u8) mod 256 = unat a"
proof -
  have "unat a < 2 ^ LENGTH(8)" by (rule unsigned_less)
  then show ?thesis by simp
qed

lemma byte_inj: "char_of (unat (a :: u8)) = char_of (unat b) \<longleftrightarrow> a = b"
  by (auto simp: word_unat_eq_iff)

lemma append_same_length: "length a = length b \<Longrightarrow> a @ x = b @ y \<longleftrightarrow> a = b \<and> x = y"
  by simp

lemmas framing = append_prefixed append_uint32_def append_uint64_def

lemma foldl_snoc: "foldl (\<lambda>b p. b @ f p) buf ps = buf @ concat (map f ps)"
  by (induction ps arbitrary: buf) simp_all

subsection \<open>Masks\<close>

lemma strip_split: "\<exists>n. m = strip_words m @ replicate n 0"
proof -
  let ?z = "takeWhile (\<lambda>w. w = (0::u64)) (rev m)"
  have "rev m = ?z @ dropWhile (\<lambda>w. w = 0) (rev m)" by simp
  then have "m = strip_words m @ rev ?z"
    unfolding strip_words_def by (metis rev_append rev_rev_ident)
  moreover have "rev ?z = replicate (length ?z) 0"
    by (rule replicate_eqI) (auto dest: set_takeWhileD)
  ultimately show ?thesis by metis
qed

lemma mask_has_zeros: "mask_has (m @ replicate n 0) c = mask_has m c"
  by (simp add: mask_has_def Let_def nth_append)

lemma mask_has_strip: "mask_has (strip_words m) c = mask_has m c"
  using strip_split [of m] mask_has_zeros by metis

lemma strip_last: "strip_words m \<noteq> [] \<Longrightarrow> last (strip_words m) \<noteq> 0"
  unfolding strip_words_def
  by (metis (mono_tags, lifting) hd_dropWhile last_rev rev_is_Nil_conv dropWhile_eq_Nil_conv)

lemma length_strip: "length (strip_words m) \<le> length m"
  using strip_split [of m] by (metis le_add1 length_append)


lemma colid_of_bit:
  assumes "i < 2 ^ 26" "b < 64"
  obtains c :: colid where "unat c div 64 = i" "unat c mod 64 = b"
proof -
  obtain n where n: "n = 64 * i + b" by simp
  with assms have "n < 2 ^ 32" by simp
  then have u: "unat (of_nat n :: colid) = n" by (simp add: unsigned_of_nat take_bit_nat_eq_self)
  show ?thesis by (rule that [of "of_nat n"]) (use u n assms in simp_all)
qed

lemma strip_length_le:
  assumes ok: "mask_ok m" and same: "\<And>c. mask_has m c \<Longrightarrow> mask_has k c"
  shows "length (strip_words m) \<le> length (strip_words k)"
proof (rule ccontr)
  assume longer: "\<not> ?thesis"
  let ?i = "length (strip_words m) - 1"
  have ne: "strip_words m \<noteq> []" using longer by auto
  then have "strip_words m ! ?i \<noteq> 0" using strip_last last_conv_nth by metis
  then obtain b where b: "bit (strip_words m ! ?i) b" by (metis bit_0_eq bit_eq_iff bot_apply bot_bool_def)
  have b64: "b < 64" using b bit_imp_le_length by fastforce
  have "?i < 2 ^ 26"
    using ok length_strip [of m] ne by (simp add: mask_ok_def flip: length_greater_0_conv)
  then obtain c :: colid where c: "unat c div 64 = ?i" "unat c mod 64 = b" using colid_of_bit b64 by blast
  have "mask_has (strip_words m) c" using ne b c by (simp add: mask_has_bit)
  then have "mask_has (strip_words k) c" using same by (simp add: mask_has_strip)
  then have "?i < length (strip_words k)" using c by (simp add: mask_has_bit)
  with longer show False by linarith
qed

lemma strip_words_iff:
  assumes "mask_ok m" "mask_ok k"
  shows "strip_words m = strip_words k \<longleftrightarrow> (\<forall>c. mask_has m c = mask_has k c)"
proof
  assume "strip_words m = strip_words k"
  then show "\<forall>c. mask_has m c = mask_has k c" by (metis mask_has_strip)
next
  assume same: "\<forall>c. mask_has m c = mask_has k c"
  then have len: "length (strip_words m) = length (strip_words k)"
    using strip_length_le [OF assms(1), of k] strip_length_le [OF assms(2), of m] by (simp add: le_antisym)
  show "strip_words m = strip_words k"
  proof (rule nth_equalityI [OF len])
    fix i assume i: "i < length (strip_words m)"
    have "i < 2 ^ 26" using i assms(1) length_strip [of m] by (simp add: mask_ok_def)
    show "strip_words m ! i = strip_words k ! i"
    proof (rule bit_eqI)
      fix b assume "possible_bit TYPE(u64) b"
      then have "b < 64" by (simp add: possible_bit_word)
      with \<open>i < 2 ^ 26\<close> obtain c :: colid where c: "unat c div 64 = i" "unat c mod 64 = b"
        using colid_of_bit by blast
      have "mask_has (strip_words m) c = mask_has (strip_words k) c" using same by (simp add: mask_has_strip)
      then show "bit (strip_words m ! i) b = bit (strip_words k ! i) b"
        using c i len by (simp add: mask_has_bit)
    qed
  qed
qed

lemma mask_bytes_eq: "mask_bytes m = concat (map be64 (strip_words m))"
  by (simp add: mask_bytes_def framing foldl_snoc cong: foldl_cong)

lemma be64_nonempty [simp]: "be64 w \<noteq> []"
  by (simp add: be64_def)

lemma concat_be64_inj: "concat (map be64 as) = concat (map be64 bs) \<longleftrightarrow> as = bs"
proof (induction as arbitrary: bs)
  case Nil
  then show ?case by (cases bs) simp_all
next
  case (Cons a as)
  then show ?case by (cases bs) simp_all
qed

lemma length_concat_be64: "length (concat (map be64 ws)) = 8 * length ws"
  by (induction ws) simp_all

lemma length_mask_bytes: "length (mask_bytes m) = 8 * length (strip_words m)"
  by (simp add: mask_bytes_eq length_concat_be64)

lemma mask_bytes_iff:
  "mask_ok m \<Longrightarrow> mask_ok k \<Longrightarrow> mask_bytes m = mask_bytes k \<longleftrightarrow> (\<forall>c. mask_has m c = mask_has k c)"
  by (simp add: mask_bytes_eq concat_be64_inj strip_words_iff)

lemma short_mask_bytes: "mask_ok m \<Longrightarrow> short (mask_bytes m)"
  using length_strip [of m] by (simp add: short_def length_mask_bytes mask_ok_def)


subsection \<open>Leaves\<close>

text \<open>\<open>OpOther\<close> holds the codes that are none of the three operations.\<close>

definition op_known :: "op \<Rightarrow> bool" where
  "op_known o' \<longleftrightarrow> (case o' of OpOther k \<Rightarrow> k \<notin> {1, 2, 3} | _ \<Rightarrow> True)"

lemma op_byte_inj: "op_known a \<Longrightarrow> op_known b \<Longrightarrow> op_byte a = op_byte b \<longleftrightarrow> a = b"
  by (cases a; cases b) (auto simp: op_known_def)

text \<open>What a leaf says of a change: its table, key, operation, changed columns and, unless it is a delete, its image.\<close>

definition leaf_fields :: "hash_change \<times> colid list
    \<Rightarrow> u64 \<times> pk \<times> op \<times> (colid \<Rightarrow> bool) \<times> (colid list \<times> cell list) option" where
  "leaf_fields p =
     (let c = fst p; cols = snd p in
      (hc_table c, hc_pk c, hc_op c, mask_has (hc_changed c),
       if hc_op c = OpDelete then None else Some (cols, tuple_cells (hc_row c) cols)))"

definition leaf_frame :: "hash_change \<times> colid list \<Rightarrow> bytes" where
  "leaf_frame p = (case leaf_bytes (fst p) (snd p) of Inl _ \<Rightarrow> [] | Inr b \<Rightarrow> b)"

definition leaf_sized :: "hash_change \<times> colid list \<Rightarrow> bool" where
  "leaf_sized p \<longleftrightarrow> short (hc_pk (fst p)) \<and> mask_ok (hc_changed (fst p)) \<and> op_known (hc_op (fst p))
     \<and> length (snd p) < 2 ^ 32 \<and> row_fits (hc_row (fst p))"

definition leaf_ok :: "hash_change \<times> colid list \<Rightarrow> bool" where
  "leaf_ok p \<longleftrightarrow> leaf_sized p
     \<and> (hc_op (fst p) = OpDelete \<or> (\<forall>c \<in> set (snd p). val_ok (row_get (hc_row (fst p)) c)))"

definition leaf_image :: "hash_change \<times> colid list \<Rightarrow> bytes" where
  "leaf_image p =
     (if hc_op (fst p) = OpDelete then []
      else be32 (of_nat (length (snd p))) @ cols_bytes (hc_row (fst p)) (snd p))"

lemma leaf_bytes_iff:
  "leaf_bytes c cols = Inr b \<longleftrightarrow>
     (hc_op c = OpDelete \<or> (\<forall>i \<in> set cols. val_ok (row_get (hc_row c) i))) \<and>
     b = tag_leaf # be64 (hc_table c) @ prefixed (hc_pk c) @ char_of (unat (op_byte (hc_op c)))
       # prefixed (mask_bytes (hc_changed c)) @ leaf_image (c, cols)"
  by (auto simp: leaf_bytes_def Let_def framing row_encode_iff leaf_image_def)

lemma leaf_frame_eq:
  assumes "leaf_ok (c, cols)"
  shows "leaf_bytes c cols = Inr (leaf_frame (c, cols))"
    and "leaf_frame (c, cols) = tag_leaf # be64 (hc_table c) @ prefixed (hc_pk c) @ char_of (unat (op_byte (hc_op c)))
       # prefixed (mask_bytes (hc_changed c)) @ leaf_image (c, cols)"
  using assms unfolding leaf_ok_def leaf_frame_def fst_conv snd_conv
  by (simp_all add: leaf_bytes_iff [THEN iffD2])

lemma leaf_image_inj:
  assumes "leaf_ok (c, cols)" "leaf_ok (d, dols)" "hc_op c = hc_op d"
  shows "leaf_image (c, cols) = leaf_image (d, dols)
    \<longleftrightarrow> hc_op c = OpDelete \<or> cols = dols \<and> tuple_cells (hc_row c) cols = tuple_cells (hc_row d) dols"
proof (cases "hc_op c = OpDelete")
  case False
  have fits: "list_all cell_fits (tuple_cells (hc_row c) cols)"
    "list_all cell_fits (tuple_cells (hc_row d) dols)"
    using assms False by (auto simp: leaf_ok_def leaf_sized_def intro: fits_tuple)
  have len: "(of_nat (length cols) :: u32) = of_nat (length dols) \<longleftrightarrow> length cols = length dols"
    using assms by (intro u32_length_inj) (simp_all add: leaf_ok_def leaf_sized_def)
  have "cols_bytes (hc_row c) cols = cols_bytes (hc_row d) dols \<longleftrightarrow>
      cols = dols \<and> tuple_cells (hc_row c) cols = tuple_cells (hc_row d) dols"
    if "length cols = length dols"
    using cols_bytes_prefix_free [OF that fits, of "[]" "[]"]
    by (auto simp: cols_bytes_def tuple_cells_def intro!: arg_cong [where f = concat])
  then show ?thesis using False assms(3) len by (auto simp: leaf_image_def)
qed (use assms in \<open>simp add: leaf_image_def\<close>)

interpretation leaf: framed leaf_frame leaf_ok leaf_fields
proof
  fix p q assume ok: "leaf_ok p" "leaf_ok q"
  obtain c cols d dols where pq: "p = (c, cols)" "q = (d, dols)" by fastforce
  note oks = ok [unfolded pq]
  have sz: "short (hc_pk c)" "short (hc_pk d)" "mask_ok (hc_changed c)" "mask_ok (hc_changed d)"
    "op_known (hc_op c)" "op_known (hc_op d)"
    using oks by (simp_all add: leaf_ok_def leaf_sized_def)
  show "leaf_frame p = leaf_frame q \<longleftrightarrow> leaf_fields p = leaf_fields q"
    unfolding pq leaf_frame_eq(2) [OF oks(1)] leaf_frame_eq(2) [OF oks(2)]
    using leaf_image_inj [OF oks]
    by (auto simp: leaf_fields_def prefixed_inj sz short_mask_bytes mask_bytes_iff op_byte_inj [unfolded word_unat_eq_iff] fun_eq_iff)
qed


subsection \<open>The Merkle tree\<close>

text \<open>The tree the loop builds, with its leaves kept as the buffers they hash.\<close>

datatype mtree = MLeaf bytes | MNode mtree mtree

fun mt_digest :: "mtree \<Rightarrow> digest" where
  "mt_digest (MLeaf b) = sha256 b"
| "mt_digest (MNode l r) = sha256 (internal_bytes (mt_digest l) (mt_digest r))"

fun mt_buffers :: "mtree \<Rightarrow> bytes set" where
  "mt_buffers (MLeaf b) = {b}"
| "mt_buffers (MNode l r) =
     insert (internal_bytes (mt_digest l) (mt_digest r)) (mt_buffers l \<union> mt_buffers r)"

fun mt_fringe :: "mtree \<Rightarrow> bytes list" where
  "mt_fringe (MLeaf b) = [b]"
| "mt_fringe (MNode l r) = mt_fringe l @ mt_fringe r"

fun mt_level :: "mtree list \<Rightarrow> mtree list" where
  "mt_level [] = []"
| "mt_level [t] = [t]"
| "mt_level (a # b # ts) = MNode a b # mt_level ts"

lemma mt_level_digests: "map mt_digest (mt_level ts) = merkle_level (map mt_digest ts)"
  by (induction ts rule: mt_level.induct) simp_all

lemma mt_level_fringe: "concat (map mt_fringe (mt_level ts)) = concat (map mt_fringe ts)"
  by (induction ts rule: mt_level.induct) simp_all

lemma mt_level_nonempty: "mt_level ts = [] \<longleftrightarrow> ts = []"
  by (induction ts rule: mt_level.induct) simp_all

text \<open>A tree whose leaves are tagged as leaves.\<close>

fun mt_tagged :: "mtree \<Rightarrow> bool" where
  "mt_tagged (MLeaf b) \<longleftrightarrow> (\<exists>r. b = tag_leaf # r)"
| "mt_tagged (MNode l r) \<longleftrightarrow> mt_tagged l \<and> mt_tagged r"

lemma mt_level_tagged: "list_all mt_tagged ts \<Longrightarrow> list_all mt_tagged (mt_level ts)"
  by (induction ts rule: mt_level.induct) simp_all

lemma tags_distinct [simp]:
  "tag_leaf \<noteq> tag_internal" "tag_internal \<noteq> tag_leaf" "tag_empty \<noteq> tag_leaf" "tag_empty \<noteq> tag_internal"
  "tag_leaf \<noteq> tag_empty" "tag_internal \<noteq> tag_empty"
  by (simp_all add: tag_leaf_def tag_internal_def tag_empty_def)

lemma length_mt_digest [simp]: "length (mt_digest t) = 32"
  by (cases t) simp_all

lemma internal_bytes_inj:
  "internal_bytes (mt_digest a) (mt_digest b) = internal_bytes (mt_digest c) (mt_digest d)
     \<longleftrightarrow> mt_digest a = mt_digest c \<and> mt_digest b = mt_digest d"
  by (simp add: internal_bytes_def)

text \<open>Two trees with one digest are the same tree, or exhibit a collision.\<close>

definition collides :: "bytes set \<Rightarrow> bool" where
  "collides B \<longleftrightarrow> (\<exists>x \<in> B. \<exists>y \<in> B. collision x y)"

lemma collides_mono: "collides B \<Longrightarrow> B \<subseteq> C \<Longrightarrow> collides C"
  by (auto simp: collides_def)

lemma collidesI: "sha256 x = sha256 y \<Longrightarrow> x \<noteq> y \<Longrightarrow> x \<in> B \<Longrightarrow> y \<in> B \<Longrightarrow> collides B"
  by (auto simp: collides_def collision_def)

fun mt_root :: "mtree \<Rightarrow> bytes" where
  "mt_root (MLeaf b) = b"
| "mt_root (MNode l r) = internal_bytes (mt_digest l) (mt_digest r)"

lemma mt_digest_root: "mt_digest t = sha256 (mt_root t)"
  by (cases t) simp_all

lemma mt_root_buffer: "mt_root t \<in> mt_buffers t"
  by (cases t) simp_all

lemma mt_digest_step:
  "mt_digest s = mt_digest t \<Longrightarrow> mt_root s = mt_root t \<or> collides (mt_buffers s \<union> mt_buffers t)"
  using mt_root_buffer [of s] mt_root_buffer [of t]
  by (metis Un_iff collidesI mt_digest_root)

lemma mt_root_leaf: "mt_tagged s \<Longrightarrow> mt_root s = mt_root t \<Longrightarrow> mt_tagged t \<Longrightarrow>
    (\<exists>b. s = MLeaf b) \<longleftrightarrow> (\<exists>b. t = MLeaf b)"
  by (cases s; cases t) (auto simp: internal_bytes_def)

lemma mt_digest_inj:
  assumes "mt_digest s = mt_digest t" "mt_tagged s" "mt_tagged t"
  shows "s = t \<or> collides (mt_buffers s \<union> mt_buffers t)"
  using assms
proof (induction s arbitrary: t)
  case (MLeaf b)
  then show ?case
    using mt_digest_step [OF MLeaf.prems(1)] mt_root_leaf [of "MLeaf b" t] by (cases t) auto
next
  case (MNode a b)
  from mt_digest_step [OF MNode.prems(1)] show ?case
  proof
    assume root: "mt_root (MNode a b) = mt_root t"
    obtain c d where t: "t = MNode c d"
      using mt_root_leaf [OF MNode.prems(2) root MNode.prems(3)] by (cases t) auto
    have ac: "mt_digest a = mt_digest c" and bd: "mt_digest b = mt_digest d"
      using root by (simp_all add: t internal_bytes_inj)
    have "a = c \<or> collides (mt_buffers a \<union> mt_buffers c)"
      using MNode.IH(1) [OF ac] MNode.prems by (simp add: t)
    moreover have "b = d \<or> collides (mt_buffers b \<union> mt_buffers d)"
      using MNode.IH(2) [OF bd] MNode.prems by (simp add: t)
    moreover have "mt_buffers a \<union> mt_buffers c \<subseteq> mt_buffers (MNode a b) \<union> mt_buffers (MNode c d)"
      "mt_buffers b \<union> mt_buffers d \<subseteq> mt_buffers (MNode a b) \<union> mt_buffers (MNode c d)"
      by auto
    ultimately show ?case unfolding t by (metis collides_mono)
  qed simp
qed

function mt_loop :: "mtree list \<Rightarrow> mtree list" where
  "mt_loop ts = (if length ts > 1 then mt_loop (mt_level ts) else ts)"
  by pat_completeness auto
termination
proof (relation "measure length")
  fix ts :: "mtree list" assume "1 < length ts"
  moreover have "length (mt_level ts) = (length ts + 1) div 2"
    by (induction ts rule: mt_level.induct) simp_all
  ultimately show "(mt_level ts, ts) \<in> measure length" by simp
qed simp

declare mt_loop.simps [simp del]

lemma mt_loop_facts:
  "map mt_digest (mt_loop ts) = merkle_loop (map mt_digest ts)"
  "concat (map mt_fringe (mt_loop ts)) = concat (map mt_fringe ts)"
  "list_all mt_tagged ts \<Longrightarrow> list_all mt_tagged (mt_loop ts)"
  "ts \<noteq> [] \<Longrightarrow> \<exists>t. mt_loop ts = [t]"
proof (induction ts rule: mt_loop.induct)
  case (1 ts)
  { case 1 then show ?case using "1.IH"(1)
      by (subst mt_loop.simps, subst merkle_loop.simps) (simp add: mt_level_digests) }
  { case 2 then show ?case using "1.IH"(2)
      by (subst mt_loop.simps) (simp add: mt_level_fringe) }
  { case 3 then show ?case using "1.IH"(3)
      by (subst mt_loop.simps) (simp add: mt_level_tagged) }
  { case 4 then show ?case using "1.IH"(4)
      by (subst mt_loop.simps) (auto simp: mt_level_nonempty length_Suc_conv not_less le_Suc_eq) }
qed


subsection \<open>Change digests\<close>

lemma leaf_digests_iff:
  "leaf_digests cs cols = Inr ds \<longleftrightarrow>
     (\<forall>c \<in> set cs. \<exists>b. leaf_bytes c cols = Inr b) \<and> ds = map (\<lambda>c. sha256 (leaf_frame (c, cols))) cs"
proof (induction cs arbitrary: ds)
  case (Cons c cs)
  show ?case
  proof (cases "leaf_bytes c cols")
    case (Inr b)
    show ?thesis
    proof (cases "leaf_digests cs cols")
      case (Inl e)
      then have "\<not> (\<forall>c \<in> set cs. \<exists>b. leaf_bytes c cols = Inr b)" using Cons.IH by fastforce
      with Inl Inr show ?thesis by (auto simp: leaf_digest_def)
    next
      case (Inr es)
      then have "(\<forall>c \<in> set cs. \<exists>b. leaf_bytes c cols = Inr b)
          \<and> es = map (\<lambda>c. sha256 (leaf_frame (c, cols))) cs" using Cons.IH by blast
      with Inr \<open>leaf_bytes c cols = Inr b\<close> show ?thesis
        by (auto simp: leaf_digest_def leaf_frame_def)
    qed
  qed (simp add: leaf_digest_def)
qed auto

text \<open>The tree of a change set: its leaves in the order of their digests.\<close>

definition leaf_trees :: "hash_change list \<Rightarrow> colid list \<Rightarrow> mtree list" where
  "leaf_trees cs cols = map MLeaf (sort_key sha256 (map (\<lambda>c. leaf_frame (c, cols)) cs))"

definition change_buffers :: "hash_change list \<Rightarrow> colid list \<Rightarrow> bytes set" where
  "change_buffers cs cols =
     (if cs = [] then {[tag_empty]} else mt_buffers (hd (mt_loop (leaf_trees cs cols))))"

lemma sort_map_key: "sort (map f xs) = map f (sort_key f xs)"
  by (rule properties_for_sort) simp_all

lemma leaf_trees_facts:
  assumes "cs \<noteq> []"
  obtains t where "mt_loop (leaf_trees cs cols) = [t]"
    and "mt_digest t = merkle_root (map (\<lambda>c. sha256 (leaf_frame (c, cols))) cs)"
    and "mt_fringe t = sort_key sha256 (map (\<lambda>c. leaf_frame (c, cols)) cs)"
proof -
  let ?fs = "map (\<lambda>c. leaf_frame (c, cols)) cs"
  have "length (leaf_trees cs cols) = length cs" by (simp add: leaf_trees_def)
  with assms have ne: "leaf_trees cs cols \<noteq> []" by force
  then obtain t where t: "mt_loop (leaf_trees cs cols) = [t]" using mt_loop_facts(4) by blast
  have fringe: "concat (map mt_fringe (map MLeaf bs)) = bs" for bs by (induction bs) simp_all
  have "map mt_digest (leaf_trees cs cols) = map sha256 (sort_key sha256 ?fs)"
    by (simp add: leaf_trees_def)
  also have "\<dots> = sort (map (\<lambda>c. sha256 (leaf_frame (c, cols))) cs)"
    using sort_map_key [of sha256 ?fs] by (simp add: o_def)
  finally have "merkle_loop (sort (map (\<lambda>c. sha256 (leaf_frame (c, cols))) cs)) = map mt_digest [t]"
    by (simp only: t [symmetric] mt_loop_facts(1))
  then have "mt_digest t = merkle_root (map (\<lambda>c. sha256 (leaf_frame (c, cols))) cs)"
    using assms by (simp only: merkle_root_def map_is_Nil_conv if_False) simp
  moreover have "mt_fringe t = sort_key sha256 ?fs"
    using mt_loop_facts(2) [of "leaf_trees cs cols"] fringe
    by (simp only: t) (simp add: leaf_trees_def)
  ultimately show ?thesis using that t by blast
qed

lemma leaf_trees_tagged:
  assumes "\<forall>c \<in> set cs. leaf_ok (c, cols)" "mt_loop (leaf_trees cs cols) = [t]"
  shows "mt_tagged t"
proof -
  have "list_all mt_tagged (leaf_trees cs cols)"
    using assms(1) by (auto simp: leaf_trees_def list_all_iff leaf_frame_eq(2))
  then show ?thesis using mt_loop_facts(3) [of "leaf_trees cs cols"] assms(2) by simp
qed


subsection \<open>Commit and schema buffers\<close>

definition commit_ok :: "commit_input \<Rightarrow> bool" where
  "commit_ok c \<longleftrightarrow> length (ci_repo c) = 16 \<and> list_all digest_ok (ci_parents c)
     \<and> length (ci_parents c) < 2 ^ 32 \<and> digest_ok (ci_change c) \<and> digest_ok (ci_schema c)
     \<and> short (ci_author c) \<and> short (ci_message c) \<and> short (ci_external_ref c)"

text \<open>What a commit id identifies: everything in the input, the parents as a multiset.\<close>

definition commit_fields :: "commit_input
    \<Rightarrow> bytes \<times> digest multiset \<times> digest \<times> digest \<times> string \<times> i64 \<times> string \<times> string" where
  "commit_fields c =
     (ci_repo c, mset (ci_parents c), ci_change c, ci_schema c, ci_author c, ci_author_at c,
      ci_message c, ci_external_ref c)"

lemma commit_bytes_eq:
  "commit_bytes c =
     tag_commit # prefixed canonical_version @ ci_repo c @ be32 (of_nat (length (ci_parents c)))
     @ concat (sort (ci_parents c)) @ ci_change c @ ci_schema c @ prefixed (ci_author c)
     @ be64 (ci_author_at c) @ prefixed (ci_message c) @ prefixed (ci_external_ref c)"
proof -
  have "foldl (@) buf ps = buf @ concat ps" for buf :: bytes and ps
    by (induction ps arbitrary: buf) simp_all
  then show ?thesis by (simp add: commit_bytes_def Let_def framing)
qed

lemma concat_digests_inj:
  "length as = length bs \<Longrightarrow> list_all digest_ok as \<Longrightarrow> list_all digest_ok bs \<Longrightarrow>
     concat as @ x = concat bs @ y \<longleftrightarrow> as = bs \<and> x = y"
  by (induction as bs rule: list_induct2) (auto simp: digest_ok_def)

lemma sort_eq_mset: "sort xs = sort ys \<longleftrightarrow> mset xs = mset ys"
  by (metis mset_sort properties_for_sort sorted_sort)

interpretation commit: framed commit_bytes commit_ok commit_fields
proof
  fix a b assume ok: "commit_ok a" "commit_ok b"
  have len: "(of_nat (length (ci_parents a)) :: u32) = of_nat (length (ci_parents b))
      \<longleftrightarrow> length (ci_parents a) = length (ci_parents b)"
    using ok by (intro u32_length_inj) (simp_all add: commit_ok_def)
  have parents: "length (ci_parents a) = length (ci_parents b) \<Longrightarrow>
      concat (sort (ci_parents a)) @ x = concat (sort (ci_parents b)) @ y
      \<longleftrightarrow> mset (ci_parents a) = mset (ci_parents b) \<and> x = y" for x y
    using ok concat_digests_inj [of "sort (ci_parents a)" "sort (ci_parents b)"]
    by (simp add: commit_ok_def list_all_iff sort_eq_mset)
  have sizes: "length (ci_repo a) = length (ci_repo b)" "length (ci_change a) = length (ci_change b)"
    "length (ci_schema a) = length (ci_schema b)"
    "short (ci_author a)" "short (ci_author b)" "short (ci_message a)" "short (ci_message b)"
    "short (ci_external_ref a)" "short (ci_external_ref b)"
    using ok by (simp_all add: commit_ok_def digest_ok_def)
  have mset_len: "mset (ci_parents a) = mset (ci_parents b) \<Longrightarrow>
      length (ci_parents a) = length (ci_parents b)" by (rule mset_eq_length)
  show "commit_bytes a = commit_bytes b \<longleftrightarrow> commit_fields a = commit_fields b"
  proof (cases "length (ci_parents a) = length (ci_parents b)")
    case True
    show ?thesis
      unfolding commit_bytes_eq commit_fields_def
      by (simp add: sizes prefixed_inj prefixed_inj_end True parents [OF True])
  next
    case False
    with mset_len have "mset (ci_parents a) \<noteq> mset (ci_parents b)" by blast
    with False show ?thesis
      unfolding commit_bytes_eq commit_fields_def
      by (simp add: sizes len prefixed_inj)
  qed
qed

text \<open>Schema columns: the id, name, type and the two flags.\<close>

lemma column_flags_inj:
  "column_flags c = column_flags d \<longleftrightarrow> sc_nullable c = sc_nullable d \<and> sc_pk c = sc_pk d"
  by (simp add: column_flags_def split: if_splits)

definition column_ok :: "schema_column \<Rightarrow> bool" where
  "column_ok c \<longleftrightarrow> short (sc_name c) \<and> short (sc_type c)"

definition column_frame :: "schema_column \<Rightarrow> bytes" where
  "column_frame c = be32 (sc_id c) @ prefixed (sc_name c) @ prefixed (sc_type c)
     @ [char_of (unat (column_flags c))]"

lemma column_frame_inj:
  fixes c d :: schema_column
  assumes "column_ok c" "column_ok d"
  shows "column_frame c @ x = column_frame d @ y \<longleftrightarrow> c = d \<and> x = y"
  using assms
  by (auto simp: column_frame_def column_ok_def prefixed_inj column_flags_inj simp flip: word_unat_eq_iff)

lemma concat_columns_inj:
  fixes cs ds :: "schema_column list"
  shows "length cs = length ds \<Longrightarrow> list_all column_ok cs \<Longrightarrow> list_all column_ok ds \<Longrightarrow>
     concat (map column_frame cs) = concat (map column_frame ds) \<longleftrightarrow> cs = ds"
  by (induction cs ds rule: list_induct2) (auto simp: column_frame_inj)

definition schema_ok :: "u64 \<times> schema_column list \<Rightarrow> bool" where
  "schema_ok p \<longleftrightarrow> length (snd p) < 2 ^ 32 \<and> list_all column_ok (snd p) \<and> distinct (map sc_id (snd p))"

definition schema_fields :: "u64 \<times> schema_column list \<Rightarrow> u64 \<times> schema_column set" where
  "schema_fields p = (fst p, set (snd p))"

lemma schema_bytes_eq:
  "schema_bytes t cols = tag_schema # be64 t @ be32 (of_nat (length cols))
     @ concat (map column_frame (sort_key sc_id cols))"
proof -
  have "foldl column_bytes buf cs = buf @ concat (map column_frame cs)" for buf cs
    by (induction cs arbitrary: buf) (simp_all add: column_bytes_def column_frame_def framing)
  then show ?thesis by (simp add: schema_bytes_def Let_def framing)
qed

lemma sort_columns_iff:
  assumes "distinct (map sc_id cs)" "distinct (map sc_id ds)"
  shows "sort_key sc_id cs = sort_key sc_id ds \<longleftrightarrow> set cs = set ds"
proof
  assume "sort_key sc_id cs = sort_key sc_id ds"
  then show "set cs = set ds" by (metis set_sort)
next
  assume "set cs = set ds"
  then have "mset cs = mset ds"
    using assms by (simp add: distinct_map set_eq_iff_mset_eq_distinct)
  then show "sort_key sc_id cs = sort_key sc_id ds"
    using assms by (intro sort_key_unique) (simp_all add: distinct_map)
qed

interpretation schema: framed "\<lambda>p. schema_bytes (fst p) (snd p)" schema_ok schema_fields
proof
  fix p q :: "u64 \<times> schema_column list"
  assume ok: "schema_ok p" "schema_ok q"
  have len: "(of_nat (length (snd p)) :: u32) = of_nat (length (snd q)) \<longleftrightarrow> length (snd p) = length (snd q)"
    using ok by (intro u32_length_inj) (simp_all add: schema_ok_def)
  have d: "distinct (map sc_id (snd p))" "distinct (map sc_id (snd q))"
    using ok by (simp_all add: schema_ok_def)
  have cols: "length (snd p) = length (snd q) \<Longrightarrow>
      concat (map column_frame (sort_key sc_id (snd p))) = concat (map column_frame (sort_key sc_id (snd q)))
      \<longleftrightarrow> set (snd p) = set (snd q)"
    using ok concat_columns_inj [of "sort_key sc_id (snd p)" "sort_key sc_id (snd q)"]
    by (simp add: schema_ok_def list_all_iff sort_columns_iff [OF d])
  have set_len: "set (snd p) = set (snd q) \<Longrightarrow> length (snd p) = length (snd q)"
    using d by (metis distinct_card distinct_map)
  show "schema_bytes (fst p) (snd p) = schema_bytes (fst q) (snd q) \<longleftrightarrow> schema_fields p = schema_fields q"
    unfolding schema_bytes_eq schema_fields_def using len cols set_len by auto
qed

end
