(* ===== verification/HashProps.thy ===== *)
theory HashProps
  imports HashFacts
begin

text \<open>
  What the hash chain promises: change digests, schema digests and commit ids are equal exactly when what
  they identify is equal, unless the two buffers are a SHA-256 collision, and \<^verbatim>\<open>VerifyChain\<close> reports exactly
  the first commit that does not match, so a verified history cannot have been rewritten.
\<close>

definition change_fields :: "hash_change list \<Rightarrow> colid list
    \<Rightarrow> (u64 \<times> pk \<times> op \<times> (colid \<Rightarrow> bool) \<times> (colid list \<times> cell list) option) multiset" where
  "change_fields cs cols = image_mset (\<lambda>c. leaf_fields (c, cols)) (mset cs)"

lemma change_digest_frames:
  assumes "change_digest cs cols = Inr d" "\<forall>c \<in> set cs. leaf_sized (c, cols)"
  shows "d = merkle_root (map (\<lambda>c. sha256 (leaf_frame (c, cols))) cs)"
    and "\<forall>c \<in> set cs. leaf_ok (c, cols)"
proof -
  from assms(1) obtain ds where ds: "leaf_digests cs cols = Inr ds" "d = merkle_root ds"
    by (auto simp: change_digest_def split: sum.splits)
  then have enc: "\<forall>c \<in> set cs. \<exists>b. leaf_bytes c cols = Inr b"
    and "ds = map (\<lambda>c. sha256 (leaf_frame (c, cols))) cs"
    by (simp_all add: leaf_digests_iff)
  with ds show "d = merkle_root (map (\<lambda>c. sha256 (leaf_frame (c, cols))) cs)" by simp
  show "\<forall>c \<in> set cs. leaf_ok (c, cols)"
    using enc assms(2) by (auto simp: leaf_bytes_iff leaf_ok_def)
qed

lemma change_fields_iff:
  assumes "\<forall>c \<in> set cs. leaf_ok (c, cols)" "\<forall>c \<in> set ds. leaf_ok (c, dols)"
  shows "change_fields cs cols = change_fields ds dols
    \<longleftrightarrow> mset (map (\<lambda>c. leaf_frame (c, cols)) cs) = mset (map (\<lambda>c. leaf_frame (c, dols)) ds)"
proof -
  let ?A = "image_mset (\<lambda>c. (c, cols)) (mset cs)" and ?B = "image_mset (\<lambda>c. (c, dols)) (mset ds)"
  have "image_mset leaf_frame ?A = image_mset leaf_frame ?B
      \<longleftrightarrow> image_mset leaf_fields ?A = image_mset leaf_fields ?B"
    using assms by (intro leaf.image_frame_fields) auto
  then show ?thesis by (simp add: change_fields_def multiset.map_comp o_def)
qed

lemma merkle_root_mset: "mset xs = mset ys \<Longrightarrow> merkle_root xs = merkle_root ys"
proof -
  assume m: "mset xs = mset ys"
  then have "sort xs = sort ys" by (simp only: sort_eq_mset)
  moreover from m have "xs = [] \<longleftrightarrow> ys = []" by auto
  ultimately show ?thesis by (simp only: merkle_root_def)
qed

lemma change_buffers_root:
  assumes "\<forall>c \<in> set cs. leaf_ok (c, cols)"
  obtains x where "x \<in> change_buffers cs cols"
    and "merkle_root (map (\<lambda>c. sha256 (leaf_frame (c, cols))) cs) = sha256 x"
    and "x = [tag_empty] \<longleftrightarrow> cs = []"
proof (cases "cs = []")
  case True
  then show ?thesis by (intro that [of "[tag_empty]"]) (simp_all add: change_buffers_def merkle_root_def)
next
  case False
  then obtain t where t: "mt_loop (leaf_trees cs cols) = [t]"
    and d: "mt_digest t = merkle_root (map (\<lambda>c. sha256 (leaf_frame (c, cols))) cs)"
    by (rule leaf_trees_facts)
  have "mt_tagged t" by (rule leaf_trees_tagged [OF assms t])
  then have "mt_root t \<noteq> [tag_empty]" by (cases t) (auto simp: internal_bytes_def)
  moreover have "mt_root t \<in> change_buffers cs cols"
    using False t mt_root_buffer [of t] by (simp add: change_buffers_def)
  ultimately show ?thesis using that [of "mt_root t"] d False by (simp add: mt_digest_root)
qed

lemma same_root:
  assumes ok: "\<forall>c \<in> set cs. leaf_ok (c, cols)" "\<forall>c \<in> set ds. leaf_ok (c, dols)"
    and root: "merkle_root (map (\<lambda>c. sha256 (leaf_frame (c, cols))) cs)
      = merkle_root (map (\<lambda>c. sha256 (leaf_frame (c, dols))) ds)"
  shows "mset (map (\<lambda>c. leaf_frame (c, cols)) cs) = mset (map (\<lambda>c. leaf_frame (c, dols)) ds)
    \<or> collides (change_buffers cs cols \<union> change_buffers ds dols)"
proof (cases "cs \<noteq> [] \<and> ds \<noteq> []")
  case True
  then obtain s t where s: "mt_loop (leaf_trees cs cols) = [s]"
      "mt_digest s = merkle_root (map (\<lambda>c. sha256 (leaf_frame (c, cols))) cs)"
      "mt_fringe s = sort_key sha256 (map (\<lambda>c. leaf_frame (c, cols)) cs)"
    and t: "mt_loop (leaf_trees ds dols) = [t]"
      "mt_digest t = merkle_root (map (\<lambda>c. sha256 (leaf_frame (c, dols))) ds)"
      "mt_fringe t = sort_key sha256 (map (\<lambda>c. leaf_frame (c, dols)) ds)"
    by (metis leaf_trees_facts)
  have "s = t \<or> collides (mt_buffers s \<union> mt_buffers t)"
    using root s t leaf_trees_tagged [OF ok(1) s(1)] leaf_trees_tagged [OF ok(2) t(1)]
    by (intro mt_digest_inj) simp_all
  then show ?thesis
  proof
    assume "s = t"
    then have "mset (mt_fringe s) = mset (mt_fringe t)" by simp
    then show ?thesis unfolding s(3) t(3) by simp
  qed (use True s t in \<open>simp add: change_buffers_def\<close>)
next
  case False
  obtain x where x: "x \<in> change_buffers cs cols" "x = [tag_empty] \<longleftrightarrow> cs = []"
    and rx: "merkle_root (map (\<lambda>c. sha256 (leaf_frame (c, cols))) cs) = sha256 x"
    using change_buffers_root [OF ok(1)] by blast
  obtain y where y: "y \<in> change_buffers ds dols" "y = [tag_empty] \<longleftrightarrow> ds = []"
    and ry: "merkle_root (map (\<lambda>c. sha256 (leaf_frame (c, dols))) ds) = sha256 y"
    using change_buffers_root [OF ok(2)] by blast
  from root have same: "sha256 x = sha256 y" by (simp only: rx ry)
  show ?thesis
  proof (cases "x = y")
    case True
    with False x y show ?thesis by simp
  next
    case False
    have "collides (change_buffers cs cols \<union> change_buffers ds dols)"
      by (rule collidesI [OF same False]) (use x(1) y(1) in simp_all)
    then show ?thesis ..
  qed
qed

text \<open>
  \<^verbatim>\<open>ChangeDigest\<close> identifies the change set: two change sets (with their column lists) that say the
  same thing, in any order and with masks of any width, have the same digest, and two that have the same
  digest say the same thing, or else two of the buffers hashed on the way to the two roots are an
  explicit SHA-256 collision. The bounds are those of the uint32 length prefixes.
\<close>

theorem change_digest_identifies:
  assumes "change_digest cs cols = Inr d1" "change_digest ds dols = Inr d2"
    and "\<forall>c \<in> set cs. leaf_sized (c, cols)" "\<forall>c \<in> set ds. leaf_sized (c, dols)"
  shows "(change_fields cs cols = change_fields ds dols \<longrightarrow> d1 = d2)
    \<and> (d1 = d2 \<longrightarrow> change_fields cs cols = change_fields ds dols
         \<or> collides (change_buffers cs cols \<union> change_buffers ds dols))"
proof -
  note c = change_digest_frames [OF assms(1,3)] and d = change_digest_frames [OF assms(2,4)]
  note fields = change_fields_iff [OF c(2) d(2)]
  have "mset (map (\<lambda>c. leaf_frame (c, cols)) cs) = mset (map (\<lambda>c. leaf_frame (c, dols)) ds) \<Longrightarrow> d1 = d2"
  proof -
    assume "mset (map (\<lambda>c. leaf_frame (c, cols)) cs) = mset (map (\<lambda>c. leaf_frame (c, dols)) ds)"
    then have "mset (map sha256 (map (\<lambda>c. leaf_frame (c, cols)) cs))
        = mset (map sha256 (map (\<lambda>c. leaf_frame (c, dols)) ds))"
      unfolding mset_map [of sha256] by (rule arg_cong)
    then show "d1 = d2" unfolding c(1) d(1) by (intro merkle_root_mset) (simp add: o_def)
  qed
  moreover have "d1 = d2 \<Longrightarrow>
      mset (map (\<lambda>c. leaf_frame (c, cols)) cs) = mset (map (\<lambda>c. leaf_frame (c, dols)) ds)
      \<or> collides (change_buffers cs cols \<union> change_buffers ds dols)"
    using same_root [OF c(2) d(2)] c(1) d(1) by blast
  ultimately show ?thesis using fields by blast
qed

definition demo_hash_row :: row where
  "demo_hash_row = Some (fmap_of_list [(1, text_val ''k''), (2, int_val 1)])"

definition demo_change :: "string \<Rightarrow> colmask \<Rightarrow> hash_change" where
  "demo_change k m = \<lparr>hc_table = 1, hc_pk = k, hc_op = OpUpdate, hc_changed = m, hc_row = demo_hash_row\<rparr>"

lemma demo_row_get:
  "row_get demo_hash_row c = (if c = 1 then text_val ''k'' else if c = 2 then int_val 1 else null_val)"
  by (auto simp: row_get_def demo_hash_row_def fmlookup_of_list)

lemma demo_row_plain: "row_fits demo_hash_row" "val_ok (row_get demo_hash_row c)"
  by (auto simp: row_fits_def val_fits_def val_ok_def demo_row_get int_val_def text_val_def null_val_def zero_val_def)

lemma demo_change_sized: "length k < 100 \<Longrightarrow> mask_ok m \<Longrightarrow> leaf_sized (demo_change k m, [1, 2])"
  by (simp add: leaf_sized_def demo_change_def short_def op_known_def demo_row_plain)

lemma demo_change_encodes: "\<exists>b. leaf_bytes (demo_change k m) [1, 2] = Inr b"
  by (simp add: leaf_bytes_iff demo_change_def demo_row_plain)

lemma demo_change_digest:
  "\<exists>d. change_digest [demo_change k m, demo_change j n] [1, 2] = Inr d"
proof -
  have "leaf_digests [demo_change k m, demo_change j n] [1, 2]
      = Inr (map (\<lambda>c. sha256 (leaf_frame (c, [1, 2]))) [demo_change k m, demo_change j n])"
    using demo_change_encodes by (simp only: leaf_digests_iff) simp
  then show ?thesis by (simp only: change_digest_def) simp
qed

lemma demo_change_fields:
  "leaf_fields (demo_change ''a'' [2], [1, 2]) = leaf_fields (demo_change ''a'' [2, 0], [1, 2])"
proof -
  have "mask_has [2] = mask_has ([2] @ replicate 1 0)" by (simp only: mask_has_zeros fun_eq_iff) simp
  then show ?thesis by (simp add: leaf_fields_def demo_change_def)
qed

text \<open>Two clients send the same two changes in different orders, one with a wider mask.\<close>

theorem change_digest_identifies_witness:
  "\<exists>d. change_digest [demo_change ''a'' [2], demo_change ''b'' []] [1, 2] = Inr d
     \<and> change_digest [demo_change ''b'' [], demo_change ''a'' [2, 0]] [1, 2] = Inr d"
proof -
  obtain d1 d2 where d: "change_digest [demo_change ''a'' [2], demo_change ''b'' []] [1, 2] = Inr d1"
    "change_digest [demo_change ''b'' [], demo_change ''a'' [2, 0]] [1, 2] = Inr d2"
    using demo_change_digest by blast
  have "change_fields [demo_change ''a'' [2], demo_change ''b'' []] [1, 2]
      = change_fields [demo_change ''b'' [], demo_change ''a'' [2, 0]] [1, 2]"
    by (simp add: change_fields_def demo_change_fields)
  then have "d1 = d2"
    using change_digest_identifies [OF d] by (simp add: demo_change_sized mask_ok_def)
  with d show ?thesis by blast
qed

text \<open>
  \<^verbatim>\<open>CommitID\<close> identifies the commit: for inputs within the uint32 length prefixes two commits have the
  same id exactly when repository, parents (as a multiset, whatever their order), change digest, schema
  digest, author, time, message and external reference are all the same, or their buffers are an explicit
  SHA-256 collision.
\<close>

theorem commit_hash_identifies:
  assumes "commit_ok a" "commit_ok b"
  shows "commit_hash a = commit_hash b
    \<longleftrightarrow> commit_fields a = commit_fields b \<or> collision (commit_bytes a) (commit_bytes b)"
  unfolding commit_hash_def using assms by (rule commit.digest_iff)

definition demo_digest :: "nat \<Rightarrow> digest" where
  "demo_digest n = replicate 32 (char_of n)"

definition demo_commit :: "digest list \<Rightarrow> commit_input" where
  "demo_commit ps = \<lparr>ci_repo = replicate 16 (char_of (7::nat)), ci_parents = ps, ci_change = demo_digest 3,
     ci_schema = demo_digest 4, ci_author = ''arun'', ci_author_at = 5, ci_message = ''m'',
     ci_external_ref = []\<rparr>"

lemma demo_commit_ok:
  "length ps < 100 \<Longrightarrow> list_all digest_ok ps \<Longrightarrow> commit_ok (demo_commit ps)"
  by (simp add: commit_ok_def demo_commit_def demo_digest_def digest_ok_def short_def)

theorem commit_hash_identifies_witness:
  "commit_hash (demo_commit [demo_digest 1, demo_digest 2])
     = commit_hash (demo_commit [demo_digest 2, demo_digest 1])"
proof -
  have "commit_ok (demo_commit [demo_digest 1, demo_digest 2])"
    "commit_ok (demo_commit [demo_digest 2, demo_digest 1])"
    by (simp_all add: demo_commit_ok digest_ok_def demo_digest_def)
  then show ?thesis
    using commit_hash_identifies by (auto simp: commit_fields_def demo_commit_def)
qed

text \<open>
  \<^verbatim>\<open>SchemaDigest\<close> identifies the schema version: for columns with distinct ids, two table schemas have the
  same digest exactly when the table id and the set of columns (id, name, type, nullability, key
  membership) are the same, whatever the declaration order, or their buffers are an explicit collision.
\<close>

theorem schema_digest_identifies:
  assumes "schema_ok (t, cs)" "schema_ok (u, ds)"
  shows "schema_digest t cs = schema_digest u ds
    \<longleftrightarrow> t = u \<and> set cs = set ds \<or> collision (schema_bytes t cs) (schema_bytes u ds)"
  using schema.digest_iff [OF assms] by (simp add: schema_digest_def schema_fields_def)

definition demo_column :: "colid \<Rightarrow> string \<Rightarrow> schema_column" where
  "demo_column i n = \<lparr>sc_id = i, sc_name = n, sc_type = ''text'', sc_nullable = True, sc_pk = False\<rparr>"

theorem schema_digest_identifies_witness:
  "schema_digest 7 [demo_column 1 ''sku'', demo_column 2 ''qty'']
     = schema_digest 7 [demo_column 2 ''qty'', demo_column 1 ''sku'']"
proof -
  have "schema_ok (7, [demo_column 1 ''sku'', demo_column 2 ''qty''])"
    "schema_ok (7, [demo_column 2 ''qty'', demo_column 1 ''sku''])"
    by (simp_all add: schema_ok_def column_ok_def short_def demo_column_def)
  then show ?thesis using schema_digest_identifies by auto
qed

subsection \<open>VerifyChain\<close>

definition commit_matches :: "(digest, bool) fmap \<Rightarrow> digest \<times> commit_input \<Rightarrow> bool" where
  "commit_matches purged c \<longleftrightarrow> fmlookup purged (fst c) = Some True \<or> commit_hash (snd c) = fst c"

lemma verify_from_step:
  "verify_from i (c # cs) purged =
     (if commit_matches purged c then verify_from (Suc i) cs purged
      else Some (i, fst c, commit_hash (snd c)))"
  by (cases c) (simp add: commit_matches_def)

lemma verify_from_None: "verify_from i cs purged = None \<longleftrightarrow> list_all (commit_matches purged) cs"
  by (induction cs arbitrary: i) (simp_all add: verify_from_step del: verify_from.simps(2))

lemma first_failure_step:
  "(\<exists>pre x post. c # cs = pre @ x # post \<and> list_all P pre \<and> \<not> P x \<and> Q (length pre) x) \<longleftrightarrow>
     (if P c then (\<exists>pre x post. cs = pre @ x # post \<and> list_all P pre \<and> \<not> P x \<and> Q (Suc (length pre)) x)
      else Q 0 c)"
  (is "?l \<longleftrightarrow> ?r")
proof
  assume ?l
  then obtain pre x post where "c # cs = pre @ x # post" "list_all P pre" "\<not> P x" "Q (length pre) x" by blast
  then show ?r by (cases pre) auto
next
  assume r: ?r
  show ?l
  proof (cases "P c")
    case True
    with r obtain pre x post where "cs = pre @ x # post" "list_all P pre" "\<not> P x" "Q (Suc (length pre)) x"
      by auto
    with True show ?thesis by (intro exI [of _ "c # pre"] exI [of _ x] exI [of _ post]) simp
  next
    case False
    with r show ?thesis by (intro exI [of _ "[]"] exI [of _ c] exI [of _ cs]) simp
  qed
qed

lemma verify_from_Some:
  "verify_from i cs purged = Some r \<longleftrightarrow>
     (\<exists>pre x post. cs = pre @ x # post \<and> list_all (commit_matches purged) pre \<and> \<not> commit_matches purged x
        \<and> r = (i + length pre, fst x, commit_hash (snd x)))"
proof (induction cs arbitrary: i)
  case (Cons c cs)
  show ?case
    unfolding verify_from_step
      first_failure_step [where Q = "\<lambda>n x. r = (i + n, fst x, commit_hash (snd x))"]
    by (simp add: Cons.IH) auto
qed simp

text \<open>
  C28: \<^verbatim>\<open>VerifyChain\<close> is exact: it accepts iff every commit not marked purged hashes to its stored id;
  otherwise it reports the index, the stored and the recomputed id of the first commit that does not.
\<close>

theorem verify_chain_exact:
  "(verify_chain cs purged = None \<longleftrightarrow> list_all (commit_matches purged) cs)
    \<and> (verify_chain cs purged = Some (i, d, g) \<longleftrightarrow>
      (\<exists>pre inp post. cs = pre @ (d, inp) # post \<and> list_all (commit_matches purged) pre
         \<and> \<not> commit_matches purged (d, inp) \<and> i = length pre \<and> g = commit_hash inp))"
  by (auto simp: verify_chain_def verify_from_None verify_from_Some)

text \<open>
  C27: What the hash chain fixes. Of two histories with the same stored ids that \<^verbatim>\<open>VerifyChain\<close> both accepts,
  each commit that is not marked purged, and whose digests have 32 bytes and texts fewer than \<open>2^32\<close>, has in
  both the same repository, change digest, schema digest, author, time, message and external reference and
  the same parents up to their order; or its two buffers are an explicit SHA-256 collision. The order of
  the parents is not fixed, since they are sorted before hashing, and purged commits are not compared.
\<close>

theorem verified_history_fixed:
  assumes "verify_chain cs purged = None" "verify_chain ds purged = None" "map fst cs = map fst ds"
    and "i < length cs" "fmlookup purged (fst (cs ! i)) \<noteq> Some True"
    and "commit_ok (snd (cs ! i))" "commit_ok (snd (ds ! i))"
  shows "commit_fields (snd (cs ! i)) = commit_fields (snd (ds ! i))
    \<or> collision (commit_bytes (snd (cs ! i))) (commit_bytes (snd (ds ! i)))"
proof -
  have len: "length cs = length ds" using assms(3) by (metis length_map)
  have ids: "fst (cs ! i) = fst (ds ! i)" using assms(3,4) len by (metis nth_map)
  have "commit_matches purged (cs ! i)" "commit_matches purged (ds ! i)"
    using assms(1,2,4) len by (simp_all add: verify_chain_def verify_from_None list_all_length)
  then have "commit_hash (snd (cs ! i)) = commit_hash (snd (ds ! i))"
    using assms(5) ids by (simp add: commit_matches_def)
  then show ?thesis using commit.digest_iff [OF assms(6,7)] by (simp add: commit_hash_def)
qed

theorem verified_history_fixed_witness:
  "let a = demo_commit [demo_digest 1, demo_digest 2]; b = demo_commit [demo_digest 2, demo_digest 1]
   in commit_fields a = commit_fields b \<or> collision (commit_bytes a) (commit_bytes b)"
proof -
  let ?a = "demo_commit [demo_digest 1, demo_digest 2]" and ?b = "demo_commit [demo_digest 2, demo_digest 1]"
  have ok: "commit_ok ?a" "commit_ok ?b"
    by (simp_all add: demo_commit_ok digest_ok_def demo_digest_def)
  have "commit_fields ?a = commit_fields ?b" by (simp add: commit_fields_def demo_commit_def)
  then have "commit_hash ?a = commit_hash ?b"
    using commit.same_fields [OF ok] by (simp add: commit_hash_def)
  then show ?thesis
    using verified_history_fixed [of "[(commit_hash ?a, ?a)]" fmempty "[(commit_hash ?a, ?b)]" 0] ok
    by (simp add: verify_chain_def)
qed

end
