(* ===== verification/SchemaDefs.thy ===== *)
theory SchemaDefs
  imports CoreDecimal CoreRow "HOL-Library.Product_Lexorder"
begin

text \<open>
  The schema engine, after \<^verbatim>\<open>internal/schemaeng/schema.go\<close>, with the types it takes from
  \<^verbatim>\<open>internal/adapter/adapter.go\<close>: schema versions, their difference with its risk classes, the three-way
  merge of schemas and the migration plan. The DDL generator is the interface \<^verbatim>\<open>DDLGen\<close>: a record of
  functions the plan is built with.
\<close>

subsection \<open>Types of the adapter package\<close>

record acolumn =
  ac_id :: colid
  ac_name :: string
  ac_type :: string
  ac_kind :: kind
  ac_nullable :: bool

definition zero_column :: acolumn where
  "zero_column = \<lparr>ac_id = 0, ac_name = [], ac_type = [], ac_kind = KindNull, ac_nullable = False\<rparr>"

datatype migration_class = Additive | Widening | Narrowing | Destructive

fun class_num :: "migration_class \<Rightarrow> nat" where
  "class_num Additive = 1"
| "class_num Widening = 2"
| "class_num Narrowing = 3"
| "class_num Destructive = 4"

record migration_op =
  mo_ordinal :: int
  mo_kind :: string
  mo_sql :: string
  mo_class :: migration_class
  mo_idempotent :: bool

record migration_plan =
  mp_table :: u64
  mp_ops :: "migration_op list"

record ddl_gen =
  ddl_add_column :: "string \<Rightarrow> string \<Rightarrow> string \<Rightarrow> string"
  ddl_drop_column :: "string \<Rightarrow> string \<Rightarrow> string"
  ddl_deprecate_column :: "string \<Rightarrow> string \<Rightarrow> string"
  ddl_rename_column :: "string \<Rightarrow> string \<Rightarrow> string \<Rightarrow> string"
  ddl_alter_type :: "string \<Rightarrow> string \<Rightarrow> string \<Rightarrow> string"
  ddl_set_not_null :: "string \<Rightarrow> string \<Rightarrow> string \<Rightarrow> string"
  ddl_drop_not_null :: "string \<Rightarrow> string \<Rightarrow> string \<Rightarrow> string"
  ddl_preflight_not_null :: "string \<Rightarrow> string \<Rightarrow> string"

subsection \<open>Schema versions\<close>

record schema_version =
  sv_table :: u64
  sv_epoch :: i64
  sv_columns :: "acolumn list"
  sv_pk :: "colid list"
  sv_dropped :: "(colid, i64) fmap"

definition version_column :: "schema_version \<Rightarrow> colid \<Rightarrow> acolumn option" where
  "version_column v i = find (\<lambda>c. ac_id c = i) (sv_columns v)"

definition project :: "schema_version \<Rightarrow> row \<Rightarrow> row" where
  "project v r =
     Some (foldl (\<lambda>out c. case r of None \<Rightarrow> out
         | Some m \<Rightarrow> (case fmlookup m (ac_id c) of Some x \<Rightarrow> fmupd (ac_id c) x out | None \<Rightarrow> out))
       fmempty (sv_columns v))"

subsection \<open>Type changes\<close>

text \<open>
  \<^verbatim>\<open>strings.ToLower\<close> on ASCII, which SQL type names are; a byte outside it is kept (Go would also map
  letters of other scripts).
\<close>

definition ascii_lower :: "char \<Rightarrow> char" where
  "ascii_lower c =
     (let n = (of_char c :: nat) in if 65 \<le> n \<and> n \<le> 90 then char_of (n + 32) else c)"

definition to_lower :: "string \<Rightarrow> string" where
  "to_lower s = map ascii_lower s"

definition synonyms :: "(string \<times> string) list" where
  "synonyms =
     [(''decimal'', ''numeric''), (''dec'', ''numeric''), (''fixed'', ''numeric''),
      (''int'', ''integer''), (''int4'', ''integer''), (''int2'', ''smallint''), (''int8'', ''bigint''),
      (''bool'', ''boolean''), (''varchar'', ''character varying''), (''char'', ''character''),
      (''float4'', ''real''), (''float8'', ''double precision''), (''double'', ''double precision''),
      (''timestamptz'', ''timestamp with time zone''), (''datetime'', ''timestamp''),
      (''timestamp without time zone'', ''timestamp'')]"

definition widening_table :: "(string \<times> string list) list" where
  "widening_table =
     [(''smallint'', [''integer'', ''bigint'', ''numeric'', ''double precision'']),
      (''integer'', [''bigint'', ''numeric'', ''double precision'']),
      (''bigint'', [''numeric'']),
      (''real'', [''double precision'']),
      (''character varying'', [''text'']),
      (''character'', [''character varying'', ''text''])]"

definition base_type :: "string \<Rightarrow> string" where
  "base_type s0 =
     (let s = to_lower (trim_space s0);
          s = (if CHR ''('' \<in> set s then trim_space (takeWhile (\<lambda>c. c \<noteq> CHR ''('') s) else s)
      in case map_of synonyms s of Some canonical \<Rightarrow> canonical | None \<Rightarrow> s)"

text \<open>The loop over the digits of the modifier: \<^term>\<open>None\<close> is its \<^verbatim>\<open>return 0\<close>. The int wraps at 64 bits.\<close>

fun width_digits :: "i64 \<Rightarrow> string \<Rightarrow> i64 option" where
  "width_digits n [] = Some n"
| "width_digits n (c # cs) =
     (let d = (of_char c :: nat) in
      if d < 48 \<or> 57 < d then None else width_digits (n * 10 + of_nat (d - 48)) cs)"

definition type_width :: "string \<Rightarrow> i64" where
  "type_width s =
     (if CHR ''('' \<notin> set s then 0
      else let rest = tl (dropWhile (\<lambda>c. c \<noteq> CHR ''('') s) in
        if CHR '','' \<notin> set rest \<and> CHR '')'' \<notin> set rest then 0
        else case width_digits 0 (takeWhile (\<lambda>c. c \<noteq> CHR '','' \<and> c \<noteq> CHR '')'') rest) of
          Some n \<Rightarrow> n | None \<Rightarrow> 0)"

definition section_sign :: string where
  "section_sign = [CHR 0xC2, CHR 0xA7]"

definition classify_type_change :: "string \<Rightarrow> string \<Rightarrow> migration_class \<times> string" where
  "classify_type_change from to =
     (let f = base_type from; t = base_type to in
      if f = t then
        let fw = type_width from; tw = type_width to in
        if 0 <s fw \<and> 0 <s tw then
          if fw \<le>s tw then (Widening, ''the column admits everything it did before'')
          else (Narrowing, ''requires a pre-flight scan proving no existing value is too long'')
        else (Widening, ''no change in the value domain'')
      else if t \<in> set (case map_of widening_table f of Some ws \<Rightarrow> ws | None \<Rightarrow> [])
      then (Widening, ''every existing value fits the new type'')
      else (Destructive,
        f @ '' to '' @ t @ '' can lose information, and history cannot be coerced through a lossy cast (''
          @ section_sign @ ''10.5 rule 3)''))"

subsection \<open>Diff\<close>

datatype change_kind = AddColumn | DropColumn | AlterColumnType | SetNotNull | DropNotNull | RenameColumn

fun change_kind_name :: "change_kind \<Rightarrow> string" where
  "change_kind_name AddColumn = ''add_column''"
| "change_kind_name DropColumn = ''drop_column''"
| "change_kind_name AlterColumnType = ''alter_column_type''"
| "change_kind_name SetNotNull = ''set_not_null''"
| "change_kind_name DropNotNull = ''drop_not_null''"
| "change_kind_name RenameColumn = ''rename_column''"

record schema_change =
  sch_kind :: change_kind
  sch_col :: colid
  sch_name :: string
  sch_from :: acolumn
  sch_to :: acolumn
  sch_class :: migration_class
  sch_reason :: string

text \<open>The switch over one column of the new version, with the old column of that id if there is one.\<close>

definition diff_column :: "acolumn option \<Rightarrow> acolumn \<Rightarrow> schema_change option" where
  "diff_column old c =
     (case old of
        None \<Rightarrow> Some \<lparr>sch_kind = AddColumn, sch_col = ac_id c, sch_name = ac_name c, sch_from = zero_column,
          sch_to = c, sch_class = Additive,
          sch_reason = ''a new nullable column is invisible to existing readers, which simply ignore it''\<rparr>
      | Some o' \<Rightarrow>
          if ac_name o' \<noteq> ac_name c \<and> ac_type o' = ac_type c then
            Some \<lparr>sch_kind = RenameColumn, sch_col = ac_id c, sch_name = ac_name c, sch_from = o', sch_to = c,
              sch_class = Destructive, sch_reason = ''existing readers query the old name and will break''\<rparr>
          else if ac_type o' \<noteq> ac_type c then
            (let cw = classify_type_change (ac_type o') (ac_type c) in
             Some \<lparr>sch_kind = AlterColumnType, sch_col = ac_id c, sch_name = ac_name c, sch_from = o',
               sch_to = c, sch_class = fst cw, sch_reason = snd cw\<rparr>)
          else if ac_nullable o' \<and> \<not> ac_nullable c then
            Some \<lparr>sch_kind = SetNotNull, sch_col = ac_id c, sch_name = ac_name c, sch_from = o', sch_to = c,
              sch_class = Narrowing,
              sch_reason = ''requires a pre-flight scan proving no existing row is null''\<rparr>
          else if \<not> ac_nullable o' \<and> ac_nullable c then
            Some \<lparr>sch_kind = DropNotNull, sch_col = ac_id c, sch_name = ac_name c, sch_from = o', sch_to = c,
              sch_class = Widening,
              sch_reason = ''existing readers keep working; the column merely admits more values''\<rparr>
          else None)"

definition dropped_column :: "acolumn \<Rightarrow> schema_change" where
  "dropped_column c =
     \<lparr>sch_kind = DropColumn, sch_col = ac_id c, sch_name = ac_name c, sch_from = c, sch_to = zero_column,
      sch_class = Destructive,
      sch_reason = ''every direct reader selecting this column breaks the moment it is dropped, with no rollout window''\<rparr>"

text \<open>The map \<^verbatim>\<open>have\<close>: a later column with the same id overwrites.\<close>

definition columns_by_id :: "acolumn list \<Rightarrow> colid \<Rightarrow> acolumn option" where
  "columns_by_id cs = map_of (rev (map (\<lambda>c. (ac_id c, c)) cs))"

definition diff_unsorted :: "schema_version \<Rightarrow> schema_version \<Rightarrow> schema_change list" where
  "diff_unsorted from to =
     List.map_filter (\<lambda>c. diff_column (columns_by_id (sv_columns from) (ac_id c)) c) (sv_columns to)
     @ map dropped_column
         (filter (\<lambda>c. ac_id c \<notin> ac_id ` set (sv_columns to)) (sv_columns from))"

definition schema_diff :: "schema_version \<Rightarrow> schema_version \<Rightarrow> schema_change list" where
  "schema_diff from to = sort_key (\<lambda>c. (class_num (sch_class c), sch_col c)) (diff_unsorted from to)"

subsection \<open>Merge\<close>

record schema_conflict =
  scf_col :: colid
  scf_name :: string
  scf_reason :: string

record merge_outcome =
  mo_result :: schema_version
  mo_conflicts :: "schema_conflict list"

definition same_column :: "acolumn \<Rightarrow> acolumn \<Rightarrow> bool" where
  "same_column a b \<longleftrightarrow> ac_name a = ac_name b \<and> ac_type a = ac_type b \<and> ac_nullable a = ac_nullable b"

definition describe_column :: "acolumn \<Rightarrow> string" where
  "describe_column c =
     ac_name c @ '' '' @ ac_type c @ '' '' @ (if ac_nullable c then ''NULL'' else ''NOT NULL'')"

definition add_result :: "acolumn \<Rightarrow> merge_outcome \<Rightarrow> merge_outcome" where
  "add_result c out = out\<lparr>mo_result := (mo_result out)\<lparr>sv_columns := sv_columns (mo_result out) @ [c]\<rparr>\<rparr>"

definition add_dropped :: "colid \<Rightarrow> merge_outcome \<Rightarrow> merge_outcome" where
  "add_dropped i out =
     out\<lparr>mo_result := (mo_result out)\<lparr>sv_dropped := fmupd i 0 (sv_dropped (mo_result out))\<rparr>\<rparr>"

definition add_conflict :: "schema_conflict \<Rightarrow> merge_outcome \<Rightarrow> merge_outcome" where
  "add_conflict c out = out\<lparr>mo_conflicts := mo_conflicts out @ [c]\<rparr>"

definition drop_conflict :: "colid \<Rightarrow> acolumn \<Rightarrow> schema_conflict" where
  "drop_conflict i c = \<lparr>scf_col = i, scf_name = ac_name c,
     scf_reason = ''one branch dropped this column while the other altered it''\<rparr>"

definition clash_conflict :: "colid \<Rightarrow> acolumn option \<Rightarrow> acolumn \<Rightarrow> acolumn \<Rightarrow> schema_conflict" where
  "clash_conflict i b a t = \<lparr>scf_col = i, scf_name = ac_name a,
     scf_reason = ''both branches '' @ (if b = None then ''added'' else ''altered'')
       @ '' this column differently: '' @ describe_column a @ '' vs '' @ describe_column t\<rparr>"

text \<open>One side kept the column (\<open>kept\<close>), the other does not have it.\<close>

definition merge_one_sided :: "colid \<Rightarrow> acolumn option \<Rightarrow> acolumn \<Rightarrow> merge_outcome \<Rightarrow> merge_outcome" where
  "merge_one_sided i b kept out =
     (case b of
        None \<Rightarrow> add_result kept out
      | Some b' \<Rightarrow> if \<not> same_column kept b' then add_conflict (drop_conflict i kept) out else add_dropped i out)"

definition merge_column :: "schema_version \<Rightarrow> schema_version \<Rightarrow> schema_version \<Rightarrow> merge_outcome \<Rightarrow> colid
    \<Rightarrow> merge_outcome" where
  "merge_column base ours theirs out i =
     (let b = version_column base i in
      case (version_column ours i, version_column theirs i) of
        (Some a, Some t) \<Rightarrow>
          if same_column a t then add_result a out
          else if (case b of None \<Rightarrow> False | Some b' \<Rightarrow> same_column a b') then add_result t out
          else if (case b of None \<Rightarrow> False | Some b' \<Rightarrow> same_column t b') then add_result a out
          else add_conflict (clash_conflict i b a t) out
      | (Some a, None) \<Rightarrow> merge_one_sided i b a out
      | (None, Some t) \<Rightarrow> merge_one_sided i b t out
      | (None, None) \<Rightarrow> if b \<noteq> None then add_dropped i out else out)"

definition merge_ids :: "schema_version \<Rightarrow> schema_version \<Rightarrow> schema_version \<Rightarrow> colid list" where
  "merge_ids base ours theirs =
     sort (remdups (map ac_id (sv_columns base @ sv_columns ours @ sv_columns theirs)))"

definition schema_merge :: "schema_version \<Rightarrow> schema_version \<Rightarrow> schema_version \<Rightarrow> merge_outcome" where
  "schema_merge base ours theirs =
     foldl (merge_column base ours theirs)
       \<lparr>mo_result = \<lparr>sv_table = sv_table base, sv_epoch = 0, sv_columns = [], sv_pk = sv_pk base,
          sv_dropped = fmempty\<rparr>, mo_conflicts = []\<rparr>
       (merge_ids base ours theirs)"

subsection \<open>Plan\<close>

text \<open>\<^verbatim>\<open>Plan\<close>'s closure \<open>add\<close>, with the counter it captures.\<close>

definition plan_add :: "string \<Rightarrow> string \<Rightarrow> migration_class \<Rightarrow> migration_op list \<times> int
    \<Rightarrow> migration_op list \<times> int" where
  "plan_add knd sql cls st =
     (case st of (ops, ord) \<Rightarrow>
        (ops @ [\<lparr>mo_ordinal = ord, mo_kind = knd, mo_sql = sql, mo_class = cls, mo_idempotent = True\<rparr>],
         ord + 1))"

definition plan_change :: "ddl_gen \<Rightarrow> string \<Rightarrow> migration_op list \<times> int \<Rightarrow> schema_change
    \<Rightarrow> migration_op list \<times> int" where
  "plan_change d physical st c =
     (let knd = change_kind_name (sch_kind c); cls = sch_class c;
          to_name = ac_name (sch_to c); to_type = ac_type (sch_to c); from_name = ac_name (sch_from c) in
      case sch_kind c of
        AddColumn \<Rightarrow> plan_add knd (ddl_add_column d physical to_name to_type) cls st
      | DropNotNull \<Rightarrow> plan_add knd (ddl_drop_not_null d physical to_name to_type) cls st
      | AlterColumnType \<Rightarrow> plan_add knd (ddl_alter_type d physical to_name to_type) cls st
      | SetNotNull \<Rightarrow>
          plan_add knd (ddl_set_not_null d physical to_name to_type) cls
            (plan_add ''preflight_not_null'' (ddl_preflight_not_null d physical to_name) cls st)
      | RenameColumn \<Rightarrow> plan_add knd (ddl_rename_column d physical from_name to_name) cls st
      | DropColumn \<Rightarrow>
          plan_add knd (ddl_drop_column d physical from_name) cls
            (plan_add ''deprecate_column'' (ddl_deprecate_column d physical from_name) cls st))"

definition migration_plan_of :: "ddl_gen \<Rightarrow> u64 \<Rightarrow> string \<Rightarrow> schema_change list \<Rightarrow> migration_plan" where
  "migration_plan_of d table physical changes =
     \<lparr>mp_table = table, mp_ops = fst (foldl (plan_change d physical) ([], 0) changes)\<rparr>"

definition confirmation_reason :: "migration_op \<Rightarrow> string option" where
  "confirmation_reason p =
     (case mo_class p of
        Narrowing \<Rightarrow> Some (mo_kind p @ '' narrows the column's value domain'')
      | Destructive \<Rightarrow> Some (mo_kind p @ '' breaks direct readers that use it, with no rollout window'')
      | _ \<Rightarrow> None)"

definition requires_confirmation :: "migration_plan \<Rightarrow> bool \<times> string list" where
  "requires_confirmation p =
     (let reasons = List.map_filter confirmation_reason (mp_ops p) in (reasons \<noteq> [], reasons))"

end
