(* ===== verification/SchemaFacts.thy ===== *)
theory SchemaFacts
  imports SchemaDefs
begin

text \<open>
  The schema engine against per-column specifications: the merge is a three-way merge of optional
  columns, the diff holds at most one change per column id, and a plan numbers its operations in order.
\<close>

subsection \<open>Columns by id\<close>

text \<open>Two sides agree on a column when neither has it or both have it with the same name, type and nullability.\<close>

fun same_column_opt :: "acolumn option \<Rightarrow> acolumn option \<Rightarrow> bool" where
  "same_column_opt None None \<longleftrightarrow> True"
| "same_column_opt (Some a) (Some b) \<longleftrightarrow> same_column a b"
| "same_column_opt _ _ \<longleftrightarrow> False"

lemma same_column_refl [simp]: "same_column c c"
  by (simp add: same_column_def)

lemma same_column_sym: "same_column a b \<longleftrightarrow> same_column b a"
  by (auto simp: same_column_def)

lemma same_column_opt_refl [simp]: "same_column_opt a a"
  by (cases a) simp_all

lemma same_column_opt_sym: "same_column_opt a b \<longleftrightarrow> same_column_opt b a"
  by (cases a; cases b) (simp_all add: same_column_sym)

lemma same_column_opt_trans: "same_column_opt a b \<Longrightarrow> same_column_opt b c \<Longrightarrow> same_column_opt a c"
  by (cases a; cases b; cases c) (simp_all add: same_column_def)

lemma version_column_id: "version_column v i = Some c \<Longrightarrow> ac_id c = i"
  unfolding version_column_def by (auto simp: find_Some_iff)

lemma version_column_None: "version_column v i = None \<longleftrightarrow> i \<notin> ac_id ` set (sv_columns v)"
  by (auto simp: version_column_def find_None_iff)

lemma find_distinct:
  assumes "distinct (map f xs)" "x \<in> set xs"
  shows "find (\<lambda>y. f y = f x) xs = Some x"
  using assms by (induction xs) (auto simp: image_iff)

lemma set_map_filter_iff: "r \<in> set (List.map_filter g xs) \<longleftrightarrow> (\<exists>x \<in> set xs. g x = Some r)"
  by (induction xs) (auto simp: map_filter_simps split: option.splits)

lemma find_map_filter:
  assumes "\<And>i r. i \<in> set is \<Longrightarrow> g i = Some r \<Longrightarrow> f r = i" and "distinct is"
  shows "find (\<lambda>r. f r = i) (List.map_filter g is) = (if i \<in> set is then g i else None)"
  using assms
proof (induction "is")
  case (Cons j js)
  show ?case
  proof (cases "g j")
    case None
    with Cons show ?thesis by (auto simp: map_filter_simps)
  next
    case (Some r)
    then have "f r = j" using Cons.prems by simp
    with Some Cons show ?thesis by (auto simp: map_filter_simps)
  qed
qed (simp add: map_filter_simps)

subsection \<open>Merge\<close>

text \<open>The three-way merge of one column: \<^term>\<open>None\<close> is a conflict, \<open>Some None\<close> means the column is gone.\<close>

definition merge3 :: "acolumn option \<Rightarrow> acolumn option \<Rightarrow> acolumn option \<Rightarrow> acolumn option option" where
  "merge3 b a t =
     (if same_column_opt a t then Some a
      else if same_column_opt a b then Some t
      else if same_column_opt t b then Some a
      else None)"

lemma merge3_conflict:
  "merge3 b a t = None \<longleftrightarrow> \<not> same_column_opt a t \<and> \<not> same_column_opt a b \<and> \<not> same_column_opt t b"
  by (simp add: merge3_def)

lemma merge3_sym:
  "(merge3 b a t = None \<longleftrightarrow> merge3 b t a = None) \<and>
   (\<forall>r s. merge3 b a t = Some r \<longrightarrow> merge3 b t a = Some s \<longrightarrow> same_column_opt r s)"
  by (auto simp: merge3_def same_column_opt_sym dest: same_column_opt_trans)

definition column_merge_at :: "schema_version \<Rightarrow> schema_version \<Rightarrow> schema_version \<Rightarrow> colid \<Rightarrow> acolumn option option" where
  "column_merge_at base ours theirs i = merge3 (version_column base i) (version_column ours i) (version_column theirs i)"

definition result_at :: "schema_version \<Rightarrow> schema_version \<Rightarrow> schema_version \<Rightarrow> colid \<Rightarrow> acolumn option" where
  "result_at base ours theirs i = (case column_merge_at base ours theirs i of Some r \<Rightarrow> r | None \<Rightarrow> None)"

definition conflict_at :: "schema_version \<Rightarrow> schema_version \<Rightarrow> schema_version \<Rightarrow> colid \<Rightarrow> schema_conflict option" where
  "conflict_at base ours theirs i =
     (if column_merge_at base ours theirs i \<noteq> None then None
      else case (version_column ours i, version_column theirs i) of
        (Some a, Some t) \<Rightarrow> Some (clash_conflict i (version_column base i) a t)
      | (Some a, None) \<Rightarrow> Some (drop_conflict i a)
      | (None, Some t) \<Rightarrow> Some (drop_conflict i t)
      | (None, None) \<Rightarrow> None)"

lemma conflict_at_None: "conflict_at base ours theirs i = None \<longleftrightarrow> column_merge_at base ours theirs i \<noteq> None"
  by (auto simp: conflict_at_def column_merge_at_def merge3_def split: option.splits)

lemmas merge_outcome_defs = add_result_def add_conflict_def add_dropped_def merge_one_sided_def

lemma merge_column_at:
  "merge_column base ours theirs out i =
     (case conflict_at base ours theirs i of
        Some c \<Rightarrow> add_conflict c out
      | None \<Rightarrow> (case result_at base ours theirs i of
          Some c \<Rightarrow> add_result c out
        | None \<Rightarrow> if version_column base i \<noteq> None then add_dropped i out else out))"
  by (cases "version_column base i"; cases "version_column ours i"; cases "version_column theirs i")
    (auto simp: merge_column_def column_merge_at_def result_at_def conflict_at_def merge3_def merge_one_sided_def
       same_column_sym)

lemma merge_column_step:
  "sv_columns (mo_result (merge_column base ours theirs out i))
     = sv_columns (mo_result out) @ (case result_at base ours theirs i of Some c \<Rightarrow> [c] | None \<Rightarrow> [])"
  "mo_conflicts (merge_column base ours theirs out i)
     = mo_conflicts out @ (case conflict_at base ours theirs i of Some c \<Rightarrow> [c] | None \<Rightarrow> [])"
  "sv_dropped (mo_result (merge_column base ours theirs out i))
     = (if column_merge_at base ours theirs i = Some None \<and> version_column base i \<noteq> None
        then fmupd i 0 (sv_dropped (mo_result out)) else sv_dropped (mo_result out))"
  "sv_table (mo_result (merge_column base ours theirs out i)) = sv_table (mo_result out)"
  "sv_pk (mo_result (merge_column base ours theirs out i)) = sv_pk (mo_result out)"
  using conflict_at_None [of base ours theirs i]
  by (auto simp: merge_column_at result_at_def merge_outcome_defs split: option.splits)

lemma conflict_at_col: "conflict_at base ours theirs i = Some c \<Longrightarrow> scf_col c = i"
  by (auto simp: conflict_at_def clash_conflict_def drop_conflict_def split: option.splits if_splits)

lemma result_at_col: "result_at base ours theirs i = Some c \<Longrightarrow> ac_id c = i"
  by (auto simp: result_at_def column_merge_at_def merge3_def version_column_id split: if_splits option.splits)

lemma merge_fold:
  "sv_columns (mo_result (foldl (merge_column base ours theirs) out is))
     = sv_columns (mo_result out) @ List.map_filter (result_at base ours theirs) is"
  "mo_conflicts (foldl (merge_column base ours theirs) out is)
     = mo_conflicts out @ List.map_filter (conflict_at base ours theirs) is"
  "fmlookup (sv_dropped (mo_result (foldl (merge_column base ours theirs) out is))) i
     = (if i \<in> set is \<and> column_merge_at base ours theirs i = Some None \<and> version_column base i \<noteq> None then Some 0
        else fmlookup (sv_dropped (mo_result out)) i)"
  "sv_table (mo_result (foldl (merge_column base ours theirs) out is)) = sv_table (mo_result out)"
  "sv_pk (mo_result (foldl (merge_column base ours theirs) out is)) = sv_pk (mo_result out)"
  by (induction "is" arbitrary: out)
    (auto simp: merge_column_step map_filter_simps split: option.splits)

lemma set_merge_ids:
  "set (merge_ids base ours theirs) = {i. version_column base i \<noteq> None \<or> version_column ours i \<noteq> None
     \<or> version_column theirs i \<noteq> None}"
  by (auto simp: merge_ids_def version_column_None)

lemma sorted_merge_ids: "sorted (merge_ids base ours theirs)" "distinct (merge_ids base ours theirs)"
  by (simp_all add: merge_ids_def)

lemma merge_ids_outside:
  assumes "i \<notin> set (merge_ids base ours theirs)"
  shows "column_merge_at base ours theirs i = Some None" "version_column base i = None"
  using assms by (auto simp: set_merge_ids column_merge_at_def merge3_def)

lemma schema_merge_parts:
  "sv_columns (mo_result (schema_merge base ours theirs))
     = List.map_filter (result_at base ours theirs) (merge_ids base ours theirs)"
  "mo_conflicts (schema_merge base ours theirs)
     = List.map_filter (conflict_at base ours theirs) (merge_ids base ours theirs)"
  "fmlookup (sv_dropped (mo_result (schema_merge base ours theirs))) i
     = (if column_merge_at base ours theirs i = Some None \<and> version_column base i \<noteq> None then Some 0 else None)"
  "sv_table (mo_result (schema_merge base ours theirs)) = sv_table base"
  "sv_pk (mo_result (schema_merge base ours theirs)) = sv_pk base"
  by (auto simp: schema_merge_def merge_fold set_merge_ids)

lemma merged_column:
  "version_column (mo_result (schema_merge base ours theirs)) i = result_at base ours theirs i"
proof -
  have "version_column (mo_result (schema_merge base ours theirs)) i
      = (if i \<in> set (merge_ids base ours theirs) then result_at base ours theirs i else None)"
    unfolding version_column_def schema_merge_parts
    by (rule find_map_filter) (simp_all add: result_at_col sorted_merge_ids)
  then show ?thesis using merge_ids_outside [of i base ours theirs] by (auto simp: result_at_def)
qed

lemma merged_conflicts:
  "find (\<lambda>c. scf_col c = i) (mo_conflicts (schema_merge base ours theirs)) = conflict_at base ours theirs i"
proof -
  have "find (\<lambda>c. scf_col c = i) (mo_conflicts (schema_merge base ours theirs))
      = (if i \<in> set (merge_ids base ours theirs) then conflict_at base ours theirs i else None)"
    unfolding schema_merge_parts
    by (rule find_map_filter) (simp_all add: conflict_at_col sorted_merge_ids)
  moreover have "i \<notin> set (merge_ids base ours theirs) \<Longrightarrow> conflict_at base ours theirs i = None"
    using merge_ids_outside [of i base ours theirs] by (simp add: conflict_at_None)
  ultimately show ?thesis by auto
qed

lemma sorted_map_filter:
  assumes "\<And>i r. g i = Some r \<Longrightarrow> f r = i" "sorted is" "distinct is"
  shows "sorted (map f (List.map_filter g is)) \<and> distinct (map f (List.map_filter g is))"
  using assms
proof (induction "is")
  case (Cons j js)
  show ?case
  proof (cases "g j")
    case None
    with Cons show ?thesis by (simp add: map_filter_simps)
  next
    case (Some r)
    have later: "f x \<in> set js" if "x \<in> set (List.map_filter g js)" for x
      using that Cons.prems(1) by (auto simp: set_map_filter_iff)
    have "f r = j" using Some Cons.prems(1) by simp
    moreover have "sorted (map f (List.map_filter g js)) \<and> distinct (map f (List.map_filter g js))"
      using Cons by simp
    ultimately show ?thesis using Some later Cons.prems(2,3) by (auto simp: map_filter_simps)
  qed
qed (simp add: map_filter_simps)

subsection \<open>Diff\<close>

definition distinct_columns :: "schema_version \<Rightarrow> bool" where
  "distinct_columns v \<longleftrightarrow> distinct (map ac_id (sv_columns v))"

lemma map_of_find: "map_of (map (\<lambda>c. (f c, c)) xs) i = find (\<lambda>c. f c = i) xs"
  by (induction xs) auto

lemma map_of_rev_distinct:
  assumes "distinct (map fst xs)"
  shows "map_of (rev xs) = map_of xs"
proof
  fix i
  show "map_of (rev xs) i = map_of xs i"
  proof (cases "map_of xs i")
    case None
    then show ?thesis by (metis map_of_eq_None_iff set_map set_rev)
  next
    case (Some y)
    then have "(i, y) \<in> set (rev xs)" by (simp add: map_of_SomeD)
    moreover have "distinct (map fst (rev xs))" using assms by (simp add: rev_map [symmetric])
    ultimately show ?thesis using Some by (simp add: map_of_is_SomeI)
  qed
qed

lemma columns_by_id_version:
  assumes "distinct_columns v"
  shows "columns_by_id (sv_columns v) = version_column v"
proof -
  have "distinct (map fst (map (\<lambda>c. (ac_id c, c)) (sv_columns v)))"
    using assms by (simp add: distinct_columns_def o_def)
  then show ?thesis
    by (simp add: columns_by_id_def map_of_rev_distinct fun_eq_iff map_of_find version_column_def)
qed

text \<open>What the diff holds for one column id.\<close>

definition diff_at :: "schema_version \<Rightarrow> schema_version \<Rightarrow> colid \<Rightarrow> schema_change option" where
  "diff_at from to i =
     (case version_column to i of
        Some c \<Rightarrow> diff_column (version_column from i) c
      | None \<Rightarrow> map_option dropped_column (version_column from i))"

lemma diff_column_col: "diff_column old c = Some ch \<Longrightarrow> sch_col ch = ac_id c"
  by (auto simp: diff_column_def Let_def split: option.splits if_splits)

lemma diff_column_None: "diff_column old c = None \<longleftrightarrow> same_column_opt old (Some c)"
  by (auto simp: diff_column_def Let_def same_column_def split: option.splits)

lemma diff_at_None: "diff_at from to i = None \<longleftrightarrow> same_column_opt (version_column from i) (version_column to i)"
  by (cases "version_column to i"; cases "version_column from i") (simp_all add: diff_at_def diff_column_None)

lemma diff_at_col: "diff_at from to i = Some ch \<Longrightarrow> sch_col ch = i"
  by (auto simp: diff_at_def dropped_column_def dest!: diff_column_col version_column_id
      split: option.splits)

lemma find_in_version:
  "distinct_columns v \<Longrightarrow> c \<in> set (sv_columns v) \<Longrightarrow> version_column v (ac_id c) = Some c"
  unfolding version_column_def distinct_columns_def by (rule find_distinct)

lemma diff_members:
  assumes "distinct_columns from" "distinct_columns to"
  shows "ch \<in> set (diff_unsorted from to) \<longleftrightarrow> diff_at from to (sch_col ch) = Some ch"
proof
  assume "ch \<in> set (diff_unsorted from to)"
  then consider c where "c \<in> set (sv_columns to)" "diff_column (version_column from (ac_id c)) c = Some ch"
    | c where "c \<in> set (sv_columns from)" "ac_id c \<notin> ac_id ` set (sv_columns to)" "ch = dropped_column c"
    by (auto simp: diff_unsorted_def set_map_filter_iff columns_by_id_version [OF assms(1)])
  then show "diff_at from to (sch_col ch) = Some ch"
  proof cases
    case 1
    then show ?thesis using find_in_version [OF assms(2)] by (simp add: diff_at_def diff_column_col)
  next
    case 2
    then have "version_column to (ac_id c) = None" by (simp only: version_column_None) simp
    then show ?thesis
      using 2 find_in_version [OF assms(1)] by (simp add: diff_at_def dropped_column_def)
  qed
next
  assume at: "diff_at from to (sch_col ch) = Some ch"
  show "ch \<in> set (diff_unsorted from to)"
  proof (cases "version_column to (sch_col ch)")
    case None
    with at obtain c where c: "version_column from (sch_col ch) = Some c" "ch = dropped_column c"
      by (auto simp: diff_at_def)
    have "c \<in> set (sv_columns from)" using c(1) by (auto simp: version_column_def find_Some_iff)
    with c None show ?thesis
      by (auto simp: diff_unsorted_def version_column_None dest: version_column_id)
  next
    case (Some c)
    with at have d: "diff_column (version_column from (ac_id c)) c = Some ch"
      using version_column_id [OF Some] by (simp add: diff_at_def)
    have "c \<in> set (sv_columns to)" using Some by (auto simp: version_column_def find_Some_iff)
    with d show ?thesis
      by (auto simp: diff_unsorted_def set_map_filter_iff columns_by_id_version [OF assms(1)])
  qed
qed

lemma distinct_map_filter:
  assumes "\<And>x r. g x = Some r \<Longrightarrow> h r = f x" "distinct (map f xs)"
  shows "distinct (map h (List.map_filter g xs))"
  using assms
proof (induction xs)
  case (Cons x xs)
  then show ?case
    by (cases "g x") (auto simp: map_filter_simps set_map_filter_iff)
qed (simp add: map_filter_simps)

lemma diff_distinct:
  assumes "distinct_columns from" "distinct_columns to"
  shows "distinct (map sch_col (diff_unsorted from to))"
proof -
  let ?kept = "List.map_filter (\<lambda>c. diff_column (columns_by_id (sv_columns from) (ac_id c)) c) (sv_columns to)"
  let ?gone = "filter (\<lambda>c. ac_id c \<notin> ac_id ` set (sv_columns to)) (sv_columns from)"
  have "distinct (map sch_col ?kept)"
    by (rule distinct_map_filter [where f = ac_id])
      (use assms(2) in \<open>simp_all add: diff_column_col distinct_columns_def\<close>)
  moreover have cols: "map sch_col (map dropped_column ?gone) = map ac_id ?gone"
    by (simp add: dropped_column_def)
  have "distinct (map ac_id ?gone)"
    using assms(1) by (simp add: distinct_columns_def distinct_map inj_on_def)
  moreover have "sch_col x \<in> ac_id ` set (sv_columns to)" if "x \<in> set ?kept" for x
    using that unfolding set_map_filter_iff by (metis diff_column_col imageI)
  then have "set (map sch_col ?kept) \<subseteq> ac_id ` set (sv_columns to)" by (simp only: set_map) blast
  moreover have "set (map ac_id ?gone) \<inter> ac_id ` set (sv_columns to) = {}" by auto
  ultimately show ?thesis
    unfolding diff_unsorted_def map_append distinct_append cols by blast
qed

lemma find_by_key:
  assumes "distinct (map f xs)" "\<And>x. x \<in> set xs \<longleftrightarrow> g (f x) = Some x" "\<And>i x. g i = Some x \<Longrightarrow> f x = i"
  shows "find (\<lambda>x. f x = i) xs = g i"
proof (cases "g i")
  case None
  then have "f x \<noteq> i" if "x \<in> set xs" for x using that assms(2) by auto
  with None show ?thesis by (auto simp: find_None_iff)
next
  case (Some x)
  then have "f x = i" "x \<in> set xs" using assms(2,3) by auto
  with Some show ?thesis using find_distinct [OF assms(1)] by metis
qed

lemma schema_diff_find:
  assumes "distinct_columns from" "distinct_columns to"
  shows "find (\<lambda>ch. sch_col ch = i) (schema_diff from to) = diff_at from to i"
proof (rule find_by_key)
  show "distinct (map sch_col (schema_diff from to))"
    using diff_distinct [OF assms] by (simp add: schema_diff_def distinct_map)
  show "ch \<in> set (schema_diff from to) \<longleftrightarrow> diff_at from to (sch_col ch) = Some ch" for ch
    using diff_members [OF assms] by (simp add: schema_diff_def)
qed (rule diff_at_col)

lemma schema_diff_distinct:
  "distinct_columns from \<Longrightarrow> distinct_columns to \<Longrightarrow> distinct (map sch_col (schema_diff from to))"
  using diff_distinct by (simp add: schema_diff_def distinct_map)

lemma schema_diff_set:
  "distinct_columns from \<Longrightarrow> distinct_columns to \<Longrightarrow>
     ch \<in> set (schema_diff from to) \<longleftrightarrow> diff_at from to (sch_col ch) = Some ch"
  using diff_members by (simp add: schema_diff_def)

lemma schema_diff_sorted: "sorted (map (\<lambda>ch. class_num (sch_class ch)) (schema_diff from to))"
proof -
  have "sorted (map (\<lambda>c. (class_num (sch_class c), sch_col c)) (schema_diff from to))"
    unfolding schema_diff_def by (rule sorted_sort_key)
  then show ?thesis
    by (auto simp: sorted_wrt_map sorted_map less_eq_prod_def elim!: sorted_wrt_mono_rel [rotated])
qed

subsection \<open>Applying a diff\<close>

text \<open>What each operation does to the live columns: the statement of its kind changes only what it names.\<close>

definition update_column :: "colid \<Rightarrow> (acolumn \<Rightarrow> acolumn) \<Rightarrow> acolumn list \<Rightarrow> acolumn list" where
  "update_column i f cs = map (\<lambda>c. if ac_id c = i then f c else c) cs"

definition apply_schema_change :: "acolumn list \<Rightarrow> schema_change \<Rightarrow> acolumn list" where
  "apply_schema_change cs ch =
     (case sch_kind ch of
        AddColumn \<Rightarrow> cs @ [sch_to ch]
      | DropColumn \<Rightarrow> filter (\<lambda>c. ac_id c \<noteq> sch_col ch) cs
      | AlterColumnType \<Rightarrow> update_column (sch_col ch) (\<lambda>c. c\<lparr>ac_type := ac_type (sch_to ch)\<rparr>) cs
      | SetNotNull \<Rightarrow> update_column (sch_col ch) (\<lambda>c. c\<lparr>ac_nullable := False\<rparr>) cs
      | DropNotNull \<Rightarrow> update_column (sch_col ch) (\<lambda>c. c\<lparr>ac_nullable := True\<rparr>) cs
      | RenameColumn \<Rightarrow> update_column (sch_col ch) (\<lambda>c. c\<lparr>ac_name := ac_name (sch_to ch)\<rparr>) cs)"

definition change_column :: "schema_change \<Rightarrow> acolumn option \<Rightarrow> acolumn option" where
  "change_column ch c =
     (case sch_kind ch of
        AddColumn \<Rightarrow> (case c of None \<Rightarrow> Some (sch_to ch) | Some c' \<Rightarrow> Some c')
      | DropColumn \<Rightarrow> None
      | AlterColumnType \<Rightarrow> map_option (\<lambda>c. c\<lparr>ac_type := ac_type (sch_to ch)\<rparr>) c
      | SetNotNull \<Rightarrow> map_option (\<lambda>c. c\<lparr>ac_nullable := False\<rparr>) c
      | DropNotNull \<Rightarrow> map_option (\<lambda>c. c\<lparr>ac_nullable := True\<rparr>) c
      | RenameColumn \<Rightarrow> map_option (\<lambda>c. c\<lparr>ac_name := ac_name (sch_to ch)\<rparr>) c)"

abbreviation column_in :: "acolumn list \<Rightarrow> colid \<Rightarrow> acolumn option" where
  "column_in cs i \<equiv> find (\<lambda>c. ac_id c = i) cs"

lemma column_in_update:
  "(\<And>c. ac_id (f c) = ac_id c) \<Longrightarrow>
     column_in (update_column j f cs) i = (if i = j then map_option f (column_in cs i) else column_in cs i)"
  by (induction cs) (auto simp: update_column_def)

lemma column_in_filter:
  "column_in (filter (\<lambda>c. ac_id c \<noteq> j) cs) i = (if i = j then None else column_in cs i)"
  by (induction cs) auto

lemma column_in_apply:
  assumes "sch_kind ch = AddColumn \<Longrightarrow> ac_id (sch_to ch) = sch_col ch"
  shows "column_in (apply_schema_change cs ch) i
    = (if i = sch_col ch then change_column ch (column_in cs i) else column_in cs i)"
  using assms
  by (cases "sch_kind ch")
    (auto simp: apply_schema_change_def change_column_def column_in_update column_in_filter find_append
      split: option.splits)

lemma column_in_fold:
  assumes "distinct (map sch_col chs)"
    and "\<And>ch. ch \<in> set chs \<Longrightarrow> sch_kind ch = AddColumn \<Longrightarrow> ac_id (sch_to ch) = sch_col ch"
  shows "column_in (foldl apply_schema_change cs chs) i
    = (case find (\<lambda>ch. sch_col ch = i) chs of
         None \<Rightarrow> column_in cs i | Some ch \<Rightarrow> change_column ch (column_in cs i))"
  using assms
proof (induction chs arbitrary: cs)
  case (Cons ch chs)
  have none: "find (\<lambda>x. sch_col x = sch_col ch) chs = None"
    using Cons.prems(1) unfolding find_None_iff by (simp add: image_iff) metis
  have "column_in (foldl apply_schema_change (apply_schema_change cs ch) chs) i
    = (case find (\<lambda>ch. sch_col ch = i) chs of
         None \<Rightarrow> column_in (apply_schema_change cs ch) i
       | Some x \<Rightarrow> change_column x (column_in (apply_schema_change cs ch) i))"
    using Cons by simp
  then show ?case
    using column_in_apply [where ch = ch and cs = cs and i = i] Cons.prems(2) none by (auto split: option.splits)
qed simp

lemma diff_at_add:
  "diff_at from to i = Some ch \<Longrightarrow> sch_kind ch = AddColumn \<Longrightarrow> ac_id (sch_to ch) = sch_col ch"
  by (auto simp: diff_at_def diff_column_def dropped_column_def Let_def split: option.splits if_splits)

text \<open>A column of both versions changes in at most one of name, type and nullability.\<close>

definition single_step :: "acolumn option \<Rightarrow> acolumn option \<Rightarrow> bool" where
  "single_step old new =
     (case (old, new) of
        (Some o', Some c) \<Rightarrow>
          (ac_name o' = ac_name c \<and> ac_type o' = ac_type c) \<or>
          (ac_name o' = ac_name c \<and> ac_nullable o' = ac_nullable c) \<or>
          (ac_type o' = ac_type c \<and> ac_nullable o' = ac_nullable c)
      | _ \<Rightarrow> True)"

lemma change_column_at:
  assumes "single_step (version_column from i) (version_column to i)"
  shows "same_column_opt
    (case diff_at from to i of None \<Rightarrow> version_column from i | Some ch \<Rightarrow> change_column ch (version_column from i))
    (version_column to i)"
  using assms
  by (cases "version_column from i"; cases "version_column to i")
    (auto simp: diff_at_def diff_column_def dropped_column_def change_column_def single_step_def
      same_column_def Let_def)

end
