(* ===== verification/SchemaProps.thy ===== *)
theory SchemaProps
  imports SchemaFacts
begin

text \<open>
  What the schema engine promises: the merge is the three-way merge of each column, symmetric in its two
  sides; the diff is exact and, applied, leads to the new version; the plan is ordered, idempotent and
  asks for confirmation exactly when something could break a reader.
\<close>

definition demo_col :: "colid \<Rightarrow> string \<Rightarrow> string \<Rightarrow> bool \<Rightarrow> acolumn" where
  "demo_col i n t b = \<lparr>ac_id = i, ac_name = n, ac_type = t, ac_kind = KindText, ac_nullable = b\<rparr>"

definition demo_version :: "acolumn list \<Rightarrow> schema_version" where
  "demo_version cs = \<lparr>sv_table = 1, sv_epoch = 0, sv_columns = cs, sv_pk = [1], sv_dropped = fmempty\<rparr>"

text \<open>
  \<^verbatim>\<open>Merge\<close> is a three-way merge, column id by column id: a conflict is reported exactly when both sides
  changed the column (altered, added or dropped it) and differ; otherwise the merged version has ours where
  the sides agree, and else the side that changed it; a column of the base that is gone is recorded as
  dropped. Each id gives at most one conflict and one column, in ascending order of id, and the table
  and key are those of the base.
\<close>

theorem schema_merge_three_way:
  "(find (\<lambda>c. scf_col c = i) (mo_conflicts (schema_merge base ours theirs)) \<noteq> None \<longleftrightarrow>
      \<not> same_column_opt (version_column ours i) (version_column theirs i)
      \<and> \<not> same_column_opt (version_column ours i) (version_column base i)
      \<and> \<not> same_column_opt (version_column theirs i) (version_column base i))
   \<and> version_column (mo_result (schema_merge base ours theirs)) i =
      (if same_column_opt (version_column ours i) (version_column theirs i) then version_column ours i
       else if same_column_opt (version_column ours i) (version_column base i) then version_column theirs i
       else if same_column_opt (version_column theirs i) (version_column base i) then version_column ours i
       else None)
   \<and> fmlookup (sv_dropped (mo_result (schema_merge base ours theirs))) i =
      (if version_column base i \<noteq> None
          \<and> find (\<lambda>c. scf_col c = i) (mo_conflicts (schema_merge base ours theirs)) = None
          \<and> version_column (mo_result (schema_merge base ours theirs)) i = None
       then Some 0 else None)
   \<and> sorted (map scf_col (mo_conflicts (schema_merge base ours theirs)))
   \<and> distinct (map scf_col (mo_conflicts (schema_merge base ours theirs)))
   \<and> sorted (map ac_id (sv_columns (mo_result (schema_merge base ours theirs))))
   \<and> distinct (map ac_id (sv_columns (mo_result (schema_merge base ours theirs))))
   \<and> sv_table (mo_result (schema_merge base ours theirs)) = sv_table base
   \<and> sv_pk (mo_result (schema_merge base ours theirs)) = sv_pk base"
proof -
  have conf: "find (\<lambda>c. scf_col c = i) (mo_conflicts (schema_merge base ours theirs)) = None
      \<longleftrightarrow> column_merge_at base ours theirs i \<noteq> None"
    by (simp add: merged_conflicts conflict_at_None)
  have order: "sorted (map scf_col (mo_conflicts (schema_merge base ours theirs)))
      \<and> distinct (map scf_col (mo_conflicts (schema_merge base ours theirs)))"
    "sorted (map ac_id (sv_columns (mo_result (schema_merge base ours theirs))))
      \<and> distinct (map ac_id (sv_columns (mo_result (schema_merge base ours theirs))))"
    unfolding schema_merge_parts
    by (rule sorted_map_filter; simp add: conflict_at_col result_at_col sorted_merge_ids)+
  have result: "version_column (mo_result (schema_merge base ours theirs)) i =
      (case column_merge_at base ours theirs i of Some r \<Rightarrow> r | None \<Rightarrow> None)"
    by (simp only: merged_column result_at_def)
  have "column_merge_at base ours theirs i = Some None \<longleftrightarrow>
      column_merge_at base ours theirs i \<noteq> None \<and> (case column_merge_at base ours theirs i of Some r \<Rightarrow> r | None \<Rightarrow> None) = None"
    by (simp split: option.splits)
  then show ?thesis
    unfolding conf result schema_merge_parts(3-5)
    using order by (auto simp: column_merge_at_def merge3_def)
qed

text \<open>
  Schema merges are symmetric: exchanging the two sides gives conflicts on the same columns, the same
  dropped columns and, for every id, the same column up to the sidecar kind.
\<close>

theorem schema_merge_symmetric:
  "map scf_col (mo_conflicts (schema_merge base theirs ours))
     = map scf_col (mo_conflicts (schema_merge base ours theirs))
   \<and> same_column_opt (version_column (mo_result (schema_merge base theirs ours)) i)
       (version_column (mo_result (schema_merge base ours theirs)) i)
   \<and> sv_dropped (mo_result (schema_merge base theirs ours)) = sv_dropped (mo_result (schema_merge base ours theirs))"
proof -
  have ids: "merge_ids base theirs ours = merge_ids base ours theirs"
    by (rule sorted_distinct_set_unique) (auto simp: sorted_merge_ids set_merge_ids)
  have none: "column_merge_at base theirs ours j = None \<longleftrightarrow> column_merge_at base ours theirs j = None" for j
    using merge3_sym by (simp add: column_merge_at_def)
  have same: "column_merge_at base theirs ours j = Some r \<Longrightarrow> column_merge_at base ours theirs j = Some s \<Longrightarrow>
      same_column_opt r s" for j r s
    using merge3_sym by (simp add: column_merge_at_def)
  have cols: "map scf_col (List.map_filter (conflict_at base x y) is)
      = filter (\<lambda>j. column_merge_at base x y j = None) is" for x y "is"
  proof (induction "is")
    case (Cons j js)
    then show ?case
      using conflict_at_None [of base x y j] conflict_at_col [of base x y j]
      by (cases "conflict_at base x y j") (auto simp: map_filter_simps)
  qed (simp add: map_filter_simps)
  have gone: "column_merge_at base theirs ours j = Some None \<longleftrightarrow> column_merge_at base ours theirs j = Some None" for j
    using none [of j] same [of j]
    by (cases "column_merge_at base theirs ours j"; cases "column_merge_at base ours theirs j")
      (fastforce elim: same_column_opt.elims)+
  have "sv_dropped (mo_result (schema_merge base theirs ours))
      = sv_dropped (mo_result (schema_merge base ours theirs))"
    by (rule fmap_ext) (simp add: schema_merge_parts gone)
  moreover have "same_column_opt (result_at base theirs ours i) (result_at base ours theirs i)"
    using none [of i] same [of i] by (auto simp: result_at_def split: option.splits)
  ultimately show ?thesis
    by (simp add: schema_merge_parts(2) cols none ids merged_column)
qed

text \<open>
  C29: \<^verbatim>\<open>Diff\<close> is exact: between versions with distinct column ids, each id has at most one change, the one
  \<^verbatim>\<open>Diff\<close>'s case analysis gives; the diff is empty iff the versions agree on every column; changes come in
  order of risk; and applying them, when each column changes in at most one of name, type and
  nullability, leads to the new version.
\<close>

theorem schema_diff_exact:
  assumes "distinct_columns from" "distinct_columns to"
  shows "find (\<lambda>ch. sch_col ch = i) (schema_diff from to) =
      (case version_column to i of
         Some c \<Rightarrow> diff_column (version_column from i) c
       | None \<Rightarrow> map_option dropped_column (version_column from i))
    \<and> distinct (map sch_col (schema_diff from to))
    \<and> (schema_diff from to = [] \<longleftrightarrow> (\<forall>j. same_column_opt (version_column from j) (version_column to j)))
    \<and> sorted (map (\<lambda>ch. class_num (sch_class ch)) (schema_diff from to))
    \<and> (single_step (version_column from i) (version_column to i) \<longrightarrow>
        same_column_opt (column_in (foldl apply_schema_change (sv_columns from) (schema_diff from to)) i)
          (version_column to i))"
proof -
  note find = schema_diff_find [OF assms] and members = schema_diff_set [OF assms]
    and dist = schema_diff_distinct [OF assms]
  have "schema_diff from to = [] \<longleftrightarrow> (\<forall>j. diff_at from to j = None)"
  proof
    assume "schema_diff from to = []"
    then show "\<forall>j. diff_at from to j = None" using find by (metis find.simps(1))
  next
    assume "\<forall>j. diff_at from to j = None"
    then have "\<forall>ch. ch \<notin> set (schema_diff from to)" using members by simp
    then show "schema_diff from to = []" by (cases "schema_diff from to") auto
  qed
  moreover have "column_in (foldl apply_schema_change (sv_columns from) (schema_diff from to)) i
      = (case diff_at from to i of
           None \<Rightarrow> version_column from i | Some ch \<Rightarrow> change_column ch (version_column from i))"
    using column_in_fold [OF dist, where cs = "sv_columns from" and i = i] members diff_at_add [of "from" to]
    unfolding version_column_def by (simp add: find)
  ultimately show ?thesis
    using find [of i] dist schema_diff_sorted [of "from" to] change_column_at [of "from" i to]
    by (simp add: diff_at_None) (simp add: diff_at_def)
qed

theorem schema_diff_exact_witness:
  "same_column_opt
     (column_in (foldl apply_schema_change [demo_col 1 ''sku'' ''text'' False, demo_col 2 ''qty'' ''int'' True]
        (schema_diff (demo_version [demo_col 1 ''sku'' ''text'' False, demo_col 2 ''qty'' ''int'' True])
           (demo_version [demo_col 2 ''qty'' ''bigint'' True, demo_col 3 ''price'' ''text'' True]))) 2)
     (Some (demo_col 2 ''qty'' ''bigint'' True))"
proof -
  let ?from = "demo_version [demo_col 1 ''sku'' ''text'' False, demo_col 2 ''qty'' ''int'' True]"
  let ?to = "demo_version [demo_col 2 ''qty'' ''bigint'' True, demo_col 3 ''price'' ''text'' True]"
  have "distinct_columns ?from" "distinct_columns ?to"
    by (simp_all add: distinct_columns_def demo_version_def demo_col_def)
  note exact = schema_diff_exact [OF this, of 2]
  have "version_column ?from 2 = Some (demo_col 2 ''qty'' ''int'' True)"
    "version_column ?to 2 = Some (demo_col 2 ''qty'' ''bigint'' True)"
    by (simp_all add: version_column_def demo_version_def demo_col_def)
  moreover have "sv_columns ?from = [demo_col 1 ''sku'' ''text'' False, demo_col 2 ''qty'' ''int'' True]"
    by (simp add: demo_version_def)
  moreover have "single_step (Some (demo_col 2 ''qty'' ''int'' True)) (Some (demo_col 2 ''qty'' ''bigint'' True))"
    by (simp add: single_step_def demo_col_def)
  ultimately show ?thesis using exact by simp
qed

subsection \<open>Plans\<close>

text \<open>The steps a change contributes: a not-null constraint is checked first, a dropped column deprecated first.\<close>

definition plan_steps :: "ddl_gen \<Rightarrow> string \<Rightarrow> schema_change \<Rightarrow> (string \<times> string \<times> migration_class) list" where
  "plan_steps d physical ch =
     (let knd = change_kind_name (sch_kind ch); cls = sch_class ch; new = sch_to ch; old = sch_from ch in
      case sch_kind ch of
        AddColumn \<Rightarrow> [(knd, ddl_add_column d physical (ac_name new) (ac_type new), cls)]
      | DropNotNull \<Rightarrow> [(knd, ddl_drop_not_null d physical (ac_name new) (ac_type new), cls)]
      | AlterColumnType \<Rightarrow> [(knd, ddl_alter_type d physical (ac_name new) (ac_type new), cls)]
      | SetNotNull \<Rightarrow>
          [(''preflight_not_null'', ddl_preflight_not_null d physical (ac_name new), cls),
           (knd, ddl_set_not_null d physical (ac_name new) (ac_type new), cls)]
      | RenameColumn \<Rightarrow> [(knd, ddl_rename_column d physical (ac_name old) (ac_name new), cls)]
      | DropColumn \<Rightarrow>
          [(''deprecate_column'', ddl_deprecate_column d physical (ac_name old), cls),
           (knd, ddl_drop_column d physical (ac_name old), cls)])"

definition op_step :: "migration_op \<Rightarrow> string \<times> string \<times> migration_class" where
  "op_step p = (mo_kind p, mo_sql p, mo_class p)"

definition plan_numbered :: "migration_op list \<times> int \<Rightarrow> bool" where
  "plan_numbered st \<longleftrightarrow> map mo_ordinal (fst st) = map int [0..<length (fst st)]
     \<and> snd st = int (length (fst st)) \<and> list_all mo_idempotent (fst st)"

lemma plan_add_facts:
  "map op_step (fst (plan_add k s c st)) = map op_step (fst st) @ [(k, s, c)]"
  "plan_numbered st \<Longrightarrow> plan_numbered (plan_add k s c st)"
  by (cases st; simp add: plan_add_def op_step_def plan_numbered_def)+

lemma plan_change_facts:
  "map op_step (fst (plan_change d p st ch)) = map op_step (fst st) @ plan_steps d p ch"
  "plan_numbered st \<Longrightarrow> plan_numbered (plan_change d p st ch)"
  by (cases "sch_kind ch"; simp add: plan_change_def plan_steps_def Let_def plan_add_facts del: change_kind_name.simps)+

lemma plan_fold_facts:
  "map op_step (fst (foldl (plan_change d p) st chs)) = map op_step (fst st) @ concat (map (plan_steps d p) chs)"
  "plan_numbered st \<Longrightarrow> plan_numbered (foldl (plan_change d p) st chs)"
  by (induction chs arbitrary: st) (simp_all add: plan_change_facts)

lemma plan_steps_class: "x \<in> set (plan_steps d p ch) \<Longrightarrow> snd (snd x) = sch_class ch"
  by (cases "sch_kind ch") (auto simp: plan_steps_def Let_def simp del: change_kind_name.simps)

lemma plan_steps_nonempty: "plan_steps d p ch \<noteq> []"
  by (cases "sch_kind ch") (auto simp: plan_steps_def Let_def simp del: change_kind_name.simps)

lemma map_filter_nonempty: "List.map_filter g xs \<noteq> [] \<longleftrightarrow> (\<exists>x \<in> set xs. g x \<noteq> None)"
  by (induction xs) (auto simp: map_filter_simps split: option.splits)

lemma concat_has_class:
  "(\<exists>x \<in> set (concat (map (plan_steps d p) chs)). snd (snd x) \<in> C) \<longleftrightarrow> (\<exists>ch. ch \<in> set chs \<and> sch_class ch \<in> C)"
proof (induction chs)
  case (Cons ch chs)
  have "(\<exists>x \<in> set (plan_steps d p ch). snd (snd x) \<in> C) \<longleftrightarrow> sch_class ch \<in> C"
    using plan_steps_class [of _ d p ch] plan_steps_nonempty [of d p ch]
    by (cases "plan_steps d p ch") auto
  with Cons show ?case by auto
qed simp

lemma sorted_concat_classes:
  assumes "sorted (map f chs)" "\<And>ch x. x \<in> set (g ch) \<Longrightarrow> h x = f ch"
  shows "sorted (map h (concat (map g chs)))"
  using assms(1)
proof (induction chs)
  case (Cons ch chs)
  have "map h (g ch) = replicate (length (g ch)) (f ch)"
    by (rule replicate_eqI) (use assms(2) in auto)
  moreover have "\<forall>y \<in> set (map h (concat (map g chs))). f ch \<le> y"
    using Cons.prems assms(2) by auto
  ultimately show ?case using Cons by (simp add: sorted_append)
qed simp

text \<open>
  C30: The migration plan of a schema diff is ordered. Its steps are exactly those of the changes, in their
  order: one statement each, but for SET NOT NULL, just before which comes the scan for nulls, and DROP
  COLUMN, just before which comes the deprecation. A narrowing change of a type gets no scan. The steps are
  numbered from zero without gaps and their risk class never decreases; and \<^verbatim>\<open>RequiresConfirmation\<close> answers
  true exactly when some change of the diff is narrowing or destructive.
\<close>

theorem migration_plan_ordered:
  "map op_step (mp_ops (migration_plan_of d t physical (schema_diff from to)))
     = concat (map (plan_steps d physical) (schema_diff from to))
   \<and> map mo_ordinal (mp_ops (migration_plan_of d t physical (schema_diff from to)))
     = map int [0..<length (mp_ops (migration_plan_of d t physical (schema_diff from to)))]
   \<and> sorted (map (\<lambda>p. class_num (mo_class p)) (mp_ops (migration_plan_of d t physical (schema_diff from to))))
   \<and> (fst (requires_confirmation (migration_plan_of d t physical (schema_diff from to)))
        \<longleftrightarrow> (\<exists>ch. ch \<in> set (schema_diff from to) \<and> sch_class ch \<in> {Narrowing, Destructive}))"
proof -
  let ?chs = "schema_diff from to"
  let ?ops = "mp_ops (migration_plan_of d t physical ?chs)"
  have start: "plan_numbered ([], 0)" by (simp add: plan_numbered_def)
  have steps: "map op_step ?ops = concat (map (plan_steps d physical) ?chs)"
    by (simp add: migration_plan_of_def plan_fold_facts)
  have num: "map mo_ordinal ?ops = map int [0..<length ?ops]"
    using plan_fold_facts(2) [OF start, of d physical ?chs]
    by (simp_all add: migration_plan_of_def plan_numbered_def)
  have "sorted (map (\<lambda>x. class_num (snd (snd x))) (concat (map (plan_steps d physical) ?chs)))"
    by (rule sorted_concat_classes [OF schema_diff_sorted]) (simp add: plan_steps_class)
  then have "sorted (map (\<lambda>x. class_num (snd (snd x))) (map op_step ?ops))" by (simp only: steps)
  then have sorted: "sorted (map (\<lambda>p. class_num (mo_class p)) ?ops)" by (simp add: op_step_def o_def)
  have reason: "confirmation_reason p \<noteq> None \<longleftrightarrow> mo_class p \<in> {Narrowing, Destructive}" for p
    by (cases "mo_class p") (simp_all add: confirmation_reason_def)
  have "fst (requires_confirmation (migration_plan_of d t physical ?chs))
      \<longleftrightarrow> (\<exists>p \<in> set ?ops. mo_class p \<in> {Narrowing, Destructive})"
    unfolding requires_confirmation_def Let_def fst_conv map_filter_nonempty
    by (simp only: reason)
  also have "\<dots> \<longleftrightarrow> (\<exists>x \<in> set (map op_step ?ops). snd (snd x) \<in> {Narrowing, Destructive})"
    by (simp add: op_step_def)
  also have "\<dots> \<longleftrightarrow> (\<exists>ch. ch \<in> set ?chs \<and> sch_class ch \<in> {Narrowing, Destructive})"
    unfolding steps
    by (rule concat_has_class)
  finally show ?thesis using steps num sorted by blast
qed

subsection \<open>Where the classification and the diff are too coarse\<close>

text \<open>
  A diff holds one change per column, so a column whose type and nullability both change is reported as a
  type change only: applied, the diff leaves the old nullability in place.
\<close>

lemma diff_loses_nullability:
  "let from = demo_version [demo_col 2 ''qty'' ''int'' False];
       to = demo_version [demo_col 2 ''qty'' ''text'' True]
   in map sch_kind (schema_diff from to) = [AlterColumnType]
      \<and> \<not> same_column_opt
            (column_in (foldl apply_schema_change (sv_columns from) (schema_diff from to)) 2)
            (version_column to 2)"
  by (simp add: schema_diff_def diff_unsorted_def demo_version_def demo_col_def columns_by_id_def
      diff_column_def version_column_def apply_schema_change_def update_column_def same_column_def
      map_filter_simps Let_def)

text \<open>
  The modifier is compared only when both sides have one, and only its first number: bounding an unbounded
  type, or moving digits of a numeric from the integer part to the scale, is classified as harmless.
\<close>

lemma classification_coarse:
  "classify_type_change ''varchar'' ''varchar(10)'' = (Widening, ''no change in the value domain'')"
  "classify_type_change ''numeric(12,2)'' ''numeric(12,8)'' = (Widening, ''the column admits everything it did before'')"
  by code_simp+

subsection \<open>Widths\<close>

lemma width_digits_foldl:
  "\<forall>c \<in> set s. 48 \<le> (of_char c :: nat) \<and> (of_char c :: nat) \<le> 57 \<Longrightarrow>
     width_digits w s = Some (foldl (\<lambda>a c. a * 10 + of_nat (of_char c - 48)) w s)"
  by (induction s arbitrary: w) (auto simp: Let_def not_less)

lemma foldl_width: "foldl (\<lambda>a c. a * 10 + of_nat (of_char c - 48)) (of_nat v) s
    = (of_nat (foldl (\<lambda>a c. 10 * a + (of_char c - 48)) v s) :: i64)"
proof (induction s arbitrary: v)
  case (Cons c s)
  have "of_nat v * 10 + of_nat (of_char c - 48) = (of_nat (10 * v + (of_char c - 48)) :: i64)" by simp
  then show ?case using Cons by (simp del: of_nat_add of_nat_mult)
qed simp

lemma type_width_digits:
  assumes "CHR ''('' \<notin> set p"
  shows "type_width (p @ CHR ''('' # dec_digits n @ '')'') = of_nat n"
proof -
  have digits: "\<forall>c \<in> set (dec_digits n). 48 \<le> (of_char c :: nat) \<and> (of_char c :: nat) \<le> 57"
    using dec_digits_range by blast
  have keep: "takeWhile (\<lambda>c. c \<noteq> CHR '','' \<and> c \<noteq> CHR '')'') (dec_digits n @ '')'') = dec_digits n"
    using digits by (subst takeWhile_append2) auto
  have "dropWhile (\<lambda>c. c \<noteq> CHR ''('') (p @ CHR ''('' # dec_digits n @ '')'') = CHR ''('' # dec_digits n @ '')''"
    using assms by (subst dropWhile_append2) auto
  then have "type_width (p @ CHR ''('' # dec_digits n @ '')'')
      = (case width_digits 0 (dec_digits n) of Some w \<Rightarrow> w | None \<Rightarrow> 0)"
    by (simp add: type_width_def keep)
  also have "width_digits 0 (dec_digits n) = Some (of_nat (dec_value (dec_digits n)))"
    using width_digits_foldl [OF digits, of 0] foldl_width [of 0 "dec_digits n"] by (simp add: dec_value_def)
  finally show ?thesis by (simp add: dec_value_digits)
qed

lemma base_type_modifier:
  assumes "p \<noteq> []" "to_lower p = p" "CHR ''('' \<notin> set p" "trim_space p = p"
    and "\<forall>e \<in> set space_encodings. hd e \<noteq> hd p \<and> last e \<noteq> CHR '')''"
  shows "base_type (p @ CHR ''('' # x @ '')'') = (case map_of synonyms p of Some c \<Rightarrow> c | None \<Rightarrow> p)"
proof -
  let ?s = "p @ CHR ''('' # x @ '')''"
  have "trim_space ?s = ?s" by (rule trim_space_plain) (use assms(1,5) in auto)
  moreover have "to_lower ?s = p @ CHR ''('' # to_lower (x @ '')'')"
    using assms(2) by (simp add: to_lower_def ascii_lower_def)
  moreover have "takeWhile (\<lambda>c. c \<noteq> CHR ''('') (p @ CHR ''('' # to_lower (x @ '')'')) = p"
    using assms(3) by (subst takeWhile_append2) auto
  ultimately show ?thesis using assms(4) by (simp add: base_type_def Let_def split: option.split)
qed

lemma varchar_base:
  "base_type (''varchar'' @ CHR ''('' # x @ '')'') = ''character varying''"
  "base_type (''character varying'' @ CHR ''('' # x @ '')'') = ''character varying''"
proof -
  have plain: "trim_space ''varchar'' = ''varchar''" "trim_space ''character varying'' = ''character varying''"
    "to_lower ''varchar'' = ''varchar''" "to_lower ''character varying'' = ''character varying''"
    "list_all (\<lambda>e. hd e \<noteq> hd ''varchar'' \<and> hd e \<noteq> hd ''character varying'' \<and> last e \<noteq> CHR '')'') space_encodings"
    "map_of synonyms ''varchar'' = Some ''character varying''" "map_of synonyms ''character varying'' = None"
    by code_simp+
  show "base_type (''varchar'' @ CHR ''('' # x @ '')'') = ''character varying''"
    by (subst base_type_modifier) (use plain in \<open>simp_all add: list_all_iff\<close>)
  show "base_type (''character varying'' @ CHR ''('' # x @ '')'') = ''character varying''"
    by (subst base_type_modifier) (use plain in \<open>simp_all add: list_all_iff\<close>)
qed

lemma of_nat_sless:
  assumes "m < 2 ^ 63" "n < 2 ^ 63"
  shows "(of_nat m :: i64) <s of_nat n \<longleftrightarrow> m < n" "(of_nat m :: i64) \<le>s of_nat n \<longleftrightarrow> m \<le> n"
proof -
  have "sint (of_nat k :: i64) = int k" if "k < 2 ^ 63" for k
    using that by (simp add: signed_of_nat signed_take_bit_int_eq_self)
  then show "(of_nat m :: i64) <s of_nat n \<longleftrightarrow> m < n" "(of_nat m :: i64) \<le>s of_nat n \<longleftrightarrow> m \<le> n"
    using assms by (simp_all add: word_sless_alt word_sle_eq)
qed

text \<open>
  Bounded text types are compared by their bound, under either spelling: from \<^verbatim>\<open>varchar(m)\<close> to
  \<^verbatim>\<open>character varying(n)\<close> is widening when the bound does not shrink and narrowing, with a pre-flight scan,
  when it does, for every positive bound an int64 holds.
\<close>

theorem varchar_bounds_classified:
  assumes "0 < m" "0 < n" "m < 2 ^ 63" "n < 2 ^ 63"
  shows "fst (classify_type_change (''varchar('' @ dec_digits m @ '')'') (''character varying('' @ dec_digits n @ '')''))
    = (if m \<le> n then Widening else Narrowing)"
proof -
  have forms: "''varchar('' @ x = ''varchar'' @ CHR ''('' # x"
    "''character varying('' @ x = ''character varying'' @ CHR ''('' # x" for x
    by simp_all
  have pos: "(0::i64) <s of_nat m" "(0::i64) <s of_nat n"
    using assms of_nat_sless [of 0 m] of_nat_sless [of 0 n] by simp_all
  have w: "type_width (''varchar'' @ CHR ''('' # dec_digits m @ '')'') = of_nat m"
    "type_width (''character varying'' @ CHR ''('' # dec_digits n @ '')'') = of_nat n"
    by (rule type_width_digits; simp)+
  show ?thesis
    unfolding forms classify_type_change_def Let_def w varchar_base
    using pos of_nat_sless(2) [OF assms(3,4)] by simp
qed

theorem varchar_bounds_classified_witness:
  "fst (classify_type_change ''varchar(50)'' ''character varying(10)'') = Narrowing"
proof -
  have "dec_digits 50 = ''50''" "dec_digits 10 = ''10''" by code_simp+
  then show ?thesis using varchar_bounds_classified [of 50 10] by simp
qed

end
