(* ===== verification/SqlDialect.thy ===== *)
theory SqlDialect
  imports Prelude
begin

text \<open>
  The dialect boundary, after \<^verbatim>\<open>internal/db/rebind.go\<close> and \<^verbatim>\<open>translate\<close> of \<^verbatim>\<open>internal/my/conn.go\<close>: store code
  writes one dialect of SQL (PostgreSQL's, with numbered placeholders and double-quoted identifiers), and
  this layer rewrites it for MySQL. A byte index into the statement is the rest of the string from there.
\<close>

subsection \<open>Rebind and Reorder\<close>

definition quote_char :: char where "quote_char = CHR 0x27"
definition dquote_char :: char where "dquote_char = CHR 0x22"
definition backtick_char :: char where "backtick_char = CHR 0x60"
definition backslash_char :: char where "backslash_char = CHR 0x5C"

definition digit_char :: "char \<Rightarrow> bool" where
  "digit_char c \<longleftrightarrow> CHR ''0'' \<le> c \<and> c \<le> CHR ''9''"

text \<open>\<^verbatim>\<open>strconv.Atoi\<close> on a run of digits: the int it returns is capped at \<^verbatim>\<open>MaxInt64\<close>, with an error the code drops.\<close>

definition atoi :: "string \<Rightarrow> int" where
  "atoi ds = min (int (dec_value ds)) max_int64"

lemma length_dropWhile_less [termination_simp]: "length (dropWhile P xs) < Suc (length xs)"
  using length_dropWhile_le [of P xs] by simp

text \<open>The loop: \<open>s\<close> is \<^verbatim>\<open>inString\<close>. What it returns is what it appends to the statement and to the order.\<close>

fun rebind_loop :: "bool \<Rightarrow> string \<Rightarrow> string \<times> int list" where
  "rebind_loop s [] = ([], [])"
| "rebind_loop s (c # cs) =
     (if s then
        if c = quote_char then
          (case cs of
             d # ds \<Rightarrow>
               if d = quote_char then let r = rebind_loop True ds in (c # quote_char # fst r, snd r)
               else let r = rebind_loop False cs in (c # fst r, snd r)
           | [] \<Rightarrow> let r = rebind_loop False cs in (c # fst r, snd r))
        else let r = rebind_loop True cs in (c # fst r, snd r)
      else if c = quote_char then let r = rebind_loop True cs in (c # fst r, snd r)
      else if c = CHR ''$'' \<and> cs \<noteq> [] \<and> digit_char (hd cs) then
        let r = rebind_loop False (dropWhile digit_char cs)
        in (CHR ''?'' # fst r, atoi (takeWhile digit_char cs) # snd r)
      else let r = rebind_loop False cs in (c # fst r, snd r))"

definition rebind :: "string \<Rightarrow> string \<times> int list" where
  "rebind sql = rebind_loop False sql"

text \<open>An argument is an \<^verbatim>\<open>any\<close>, \<^term>\<open>None\<close> being nil.\<close>

definition reorder :: "'a option list \<Rightarrow> int list \<Rightarrow> 'a option list" where
  "reorder args order =
     (if order = [] then args
      else map (\<lambda>n. if 1 \<le> n \<and> n \<le> int (length args) then args ! nat (n - 1) else None) order)"

subsection \<open>QuoteToBacktick\<close>

datatype quote_mode = Plain | InString | InIdent

fun backtick_loop :: "quote_mode \<Rightarrow> string \<Rightarrow> string" where
  "backtick_loop m [] = []"
| "backtick_loop m (c # cs) =
     (case m of
        InString \<Rightarrow>
          if c = quote_char then
            (case cs of
               d # ds \<Rightarrow> if d = quote_char then c # quote_char # backtick_loop InString ds
                         else c # backtick_loop Plain cs
             | [] \<Rightarrow> c # backtick_loop Plain cs)
          else c # backtick_loop InString cs
      | InIdent \<Rightarrow>
          if c = dquote_char then
            (case cs of
               d # ds \<Rightarrow> if d = dquote_char then backtick_char # backtick_char # backtick_loop InIdent ds
                         else backtick_char # backtick_loop Plain cs
             | [] \<Rightarrow> backtick_char # backtick_loop Plain cs)
          else if c = backtick_char then backtick_char # backtick_char # backtick_loop InIdent cs
          else c # backtick_loop InIdent cs
      | Plain \<Rightarrow>
          if c = quote_char then c # backtick_loop InString cs
          else if c = dquote_char then backtick_char # backtick_loop InIdent cs
          else c # backtick_loop Plain cs)"

definition quote_to_backtick :: "string \<Rightarrow> string" where
  "quote_to_backtick sql = (if dquote_char \<notin> set sql then sql else backtick_loop Plain sql)"

subsection \<open>translate\<close>

text \<open>The arguments the driver has to be helped with, and every other one.\<close>

datatype 'a driver_arg = ArgUuid bytes | ArgFixed bytes | ArgDigest bytes | ArgBytes bytes | ArgOther 'a

fun convert_arg :: "'a driver_arg \<Rightarrow> 'a driver_arg" where
  "convert_arg (ArgUuid b) = ArgBytes b"
| "convert_arg (ArgFixed b) = ArgBytes b"
| "convert_arg (ArgDigest b) = ArgBytes b"
| "convert_arg a = a"

definition convert_args :: "'a driver_arg option list \<Rightarrow> 'a driver_arg option list" where
  "convert_args args = map (map_option convert_arg) args"

definition translate :: "string \<Rightarrow> 'a driver_arg option list \<Rightarrow> string \<times> 'a driver_arg option list" where
  "translate q args =
     (let r = rebind (quote_to_backtick q) in (fst r, convert_args (reorder args (snd r))))"

subsection \<open>What the two engines read\<close>

text \<open>
  A statement as the engine's lexer reads it: code, the contents of literals and of quoted identifiers with
  their quotes unescaped, and placeholders by the number of the argument they stand for. PostgreSQL doubles
  the quote in a literal or identifier; MySQL does so too, quotes identifiers with backticks, also takes a
  backslash escape in a literal, and numbers its placeholders from left to right.
\<close>

datatype piece =
    Code char | LitOpen | LitChar char | LitEscape char | LitClose | IdOpen | IdChar char | IdClose | Hole int

fun pg_pieces :: "quote_mode \<Rightarrow> string \<Rightarrow> piece list" where
  "pg_pieces m [] = []"
| "pg_pieces Plain (c # cs) =
     (if c = quote_char then LitOpen # pg_pieces InString cs
      else if c = dquote_char then IdOpen # pg_pieces InIdent cs
      else if c = CHR ''$'' \<and> cs \<noteq> [] \<and> digit_char (hd cs)
      then Hole (atoi (takeWhile digit_char cs)) # pg_pieces Plain (dropWhile digit_char cs)
      else Code c # pg_pieces Plain cs)"
| "pg_pieces InString (c # cs) =
     (if c = quote_char then
        (case cs of
           d # ds \<Rightarrow> if d = quote_char then LitChar quote_char # pg_pieces InString ds
                     else LitClose # pg_pieces Plain cs
         | [] \<Rightarrow> LitClose # pg_pieces Plain cs)
      else LitChar c # pg_pieces InString cs)"
| "pg_pieces InIdent (c # cs) =
     (if c = dquote_char then
        (case cs of
           d # ds \<Rightarrow> if d = dquote_char then IdChar dquote_char # pg_pieces InIdent ds
                     else IdClose # pg_pieces Plain cs
         | [] \<Rightarrow> IdClose # pg_pieces Plain cs)
      else IdChar c # pg_pieces InIdent cs)"

fun my_pieces :: "quote_mode \<Rightarrow> int \<Rightarrow> string \<Rightarrow> piece list" where
  "my_pieces m k [] = []"
| "my_pieces Plain k (c # cs) =
     (if c = quote_char then LitOpen # my_pieces InString k cs
      else if c = backtick_char then IdOpen # my_pieces InIdent k cs
      else if c = CHR ''?'' then Hole k # my_pieces Plain (k + 1) cs
      else Code c # my_pieces Plain k cs)"
| "my_pieces InString k (c # cs) =
     (if c = backslash_char then
        (case cs of d # ds \<Rightarrow> LitEscape d # my_pieces InString k ds | [] \<Rightarrow> [LitChar c])
      else if c = quote_char then
        (case cs of
           d # ds \<Rightarrow> if d = quote_char then LitChar quote_char # my_pieces InString k ds
                     else LitClose # my_pieces Plain k cs
         | [] \<Rightarrow> LitClose # my_pieces Plain k cs)
      else LitChar c # my_pieces InString k cs)"
| "my_pieces InIdent k (c # cs) =
     (if c = backtick_char then
        (case cs of
           d # ds \<Rightarrow> if d = backtick_char then IdChar backtick_char # my_pieces InIdent k ds
                     else IdClose # my_pieces Plain k cs
         | [] \<Rightarrow> IdClose # my_pieces Plain k cs)
      else IdChar c # my_pieces InIdent k cs)"

text \<open>A statement with its arguments: each placeholder replaced by the argument it names, nil if there is none.\<close>

definition arg_of :: "'a option list \<Rightarrow> int \<Rightarrow> 'a option" where
  "arg_of args n = (if 1 \<le> n \<and> n \<le> int (length args) then args ! nat (n - 1) else None)"

definition fill :: "'a option list \<Rightarrow> piece list \<Rightarrow> (piece + 'a option) list" where
  "fill args ps = map (\<lambda>p. case p of Hole n \<Rightarrow> Inr (arg_of args n) | _ \<Rightarrow> Inl p) ps"

text \<open>
  The statements the store writes: outside literals and identifiers no question mark or backtick, in a
  literal no backslash, and in an identifier no quote of either kind and no dollar sign.
\<close>

fun portable :: "quote_mode \<Rightarrow> string \<Rightarrow> bool" where
  "portable m [] \<longleftrightarrow> True"
| "portable Plain (c # cs) \<longleftrightarrow>
     c \<noteq> CHR ''?'' \<and> c \<noteq> backtick_char \<and>
     (if c = quote_char then portable InString cs
      else if c = dquote_char then portable InIdent cs
      else portable Plain cs)"
| "portable InString (c # cs) \<longleftrightarrow>
     c \<noteq> backslash_char \<and>
     (if c = quote_char then
        (case cs of
           d # ds \<Rightarrow> if d = quote_char then portable InString ds else portable Plain cs
         | [] \<Rightarrow> True)
      else portable InString cs)"
| "portable InIdent (c # cs) \<longleftrightarrow>
     c \<noteq> quote_char \<and> c \<noteq> CHR ''$'' \<and>
     (if c = dquote_char then
        (case cs of
           d # ds \<Rightarrow> d \<noteq> dquote_char \<and> portable Plain cs
         | [] \<Rightarrow> True)
      else portable InIdent cs)"

end
