(* ===== verification/SqlProps.thy ===== *)
theory SqlProps
  imports SqlDialect
begin

text \<open>
  The dialect translation is faithful: MySQL reads in the translated statement, with the reordered
  arguments, what PostgreSQL reads in the original.
\<close>

lemma chars_distinct [simp]:
  "quote_char \<noteq> dquote_char" "dquote_char \<noteq> quote_char" "quote_char \<noteq> backtick_char"
  "backtick_char \<noteq> quote_char" "dquote_char \<noteq> backtick_char" "backtick_char \<noteq> dquote_char"
  "backslash_char \<noteq> quote_char" "quote_char \<noteq> backslash_char"
  "quote_char \<noteq> CHR ''$''" "backtick_char \<noteq> CHR ''$''" "dquote_char \<noteq> CHR ''$''" "CHR ''$'' \<noteq> quote_char"
  "quote_char \<noteq> CHR ''?''" "backtick_char \<noteq> CHR ''?''" "CHR ''?'' \<noteq> quote_char" "CHR ''?'' \<noteq> backtick_char"
  "CHR ''$'' \<noteq> backtick_char" "CHR ''$'' \<noteq> dquote_char"
  "\<not> digit_char quote_char" "\<not> digit_char dquote_char" "\<not> digit_char backtick_char"
  by (simp_all add: quote_char_def dquote_char_def backtick_char_def backslash_char_def digit_char_def
      less_eq_char_def)

subsection \<open>The scanners, step by step\<close>

definition holed :: "char \<Rightarrow> string \<Rightarrow> bool" where
  "holed c cs \<longleftrightarrow> c = CHR ''$'' \<and> cs \<noteq> [] \<and> digit_char (hd cs)"

lemma rebind_plain:
  "c \<noteq> quote_char \<Longrightarrow> \<not> holed c cs \<Longrightarrow>
     rebind_loop False (c # cs) = (c # fst (rebind_loop False cs), snd (rebind_loop False cs))"
  by (simp add: holed_def Let_def)

lemma rebind_hole:
  "holed c cs \<Longrightarrow> rebind_loop False (c # cs) =
     (CHR ''?'' # fst (rebind_loop False (dropWhile digit_char cs)),
      atoi (takeWhile digit_char cs) # snd (rebind_loop False (dropWhile digit_char cs)))"
  by (simp add: holed_def Let_def)

lemma rebind_open:
  "rebind_loop False (quote_char # cs) = (quote_char # fst (rebind_loop True cs), snd (rebind_loop True cs))"
  by (simp add: Let_def)

lemma rebind_string:
  "c \<noteq> quote_char \<Longrightarrow> rebind_loop True (c # cs) = (c # fst (rebind_loop True cs), snd (rebind_loop True cs))"
  "rebind_loop True (quote_char # quote_char # ds)
     = (quote_char # quote_char # fst (rebind_loop True ds), snd (rebind_loop True ds))"
  "ds = [] \<or> hd ds \<noteq> quote_char \<Longrightarrow>
     rebind_loop True (quote_char # ds) = (quote_char # fst (rebind_loop False ds), snd (rebind_loop False ds))"
  by (cases ds; simp add: Let_def)+

lemmas rebind_steps = rebind_plain rebind_hole rebind_open rebind_string

lemma rebind_Nil [simp]: "rebind_loop s [] = ([], [])"
  by simp

declare rebind_loop.simps [simp del]
declare rebind_Nil [simp]

lemma backtick_plain:
  "c \<noteq> quote_char \<Longrightarrow> c \<noteq> dquote_char \<Longrightarrow> backtick_loop Plain (c # cs) = c # backtick_loop Plain cs"
  "backtick_loop Plain (quote_char # cs) = quote_char # backtick_loop InString cs"
  "backtick_loop Plain (dquote_char # cs) = backtick_char # backtick_loop InIdent cs"
  by simp_all

lemma backtick_string:
  "c \<noteq> quote_char \<Longrightarrow> backtick_loop InString (c # cs) = c # backtick_loop InString cs"
  "backtick_loop InString (quote_char # quote_char # ds) = quote_char # quote_char # backtick_loop InString ds"
  "cs = [] \<or> hd cs \<noteq> quote_char \<Longrightarrow>
     backtick_loop InString (quote_char # cs) = quote_char # backtick_loop Plain cs"
  by (cases cs; simp)+

lemma backtick_ident:
  "c \<noteq> dquote_char \<Longrightarrow> c \<noteq> backtick_char \<Longrightarrow> backtick_loop InIdent (c # cs) = c # backtick_loop InIdent cs"
  "backtick_loop InIdent (backtick_char # cs) = backtick_char # backtick_char # backtick_loop InIdent cs"
  "cs = [] \<or> hd cs \<noteq> dquote_char \<Longrightarrow>
     backtick_loop InIdent (dquote_char # cs) = backtick_char # backtick_loop Plain cs"
  by (cases cs; simp)+

lemma backtick_Nil: "backtick_loop m [] = []"
  by simp

declare backtick_loop.simps [simp del]
declare backtick_Nil [simp]

lemma backtick_hd:
  "hd (backtick_loop Plain (c # cs)) = (if c = dquote_char then backtick_char else c)"
  by (cases "c = quote_char"; cases "c = dquote_char") (simp_all add: backtick_plain)

lemma digit_plain: "digit_char c \<Longrightarrow> c \<noteq> quote_char \<and> c \<noteq> dquote_char"
  by auto

lemma backtick_first: "cs \<noteq> [] \<Longrightarrow>
    backtick_loop Plain cs \<noteq> [] \<and> digit_char (hd (backtick_loop Plain cs)) = digit_char (hd cs)"
  by (cases cs) (auto simp: backtick_hd backtick_loop.simps)

lemma backtick_digits:
  "takeWhile digit_char (backtick_loop Plain cs) = takeWhile digit_char cs
   \<and> dropWhile digit_char (backtick_loop Plain cs) = backtick_loop Plain (dropWhile digit_char cs)"
proof (induction cs)
  case (Cons c cs)
  show ?case
  proof (cases "digit_char c")
    case True
    with Cons show ?thesis using digit_plain by (simp add: backtick_plain)
  next
    case False
    have "\<not> digit_char (hd (backtick_loop Plain (c # cs)))" "backtick_loop Plain (c # cs) \<noteq> []"
      using backtick_first [of "c # cs"] False by simp_all
    then obtain e es where "backtick_loop Plain (c # cs) = e # es" "\<not> digit_char e"
      by (cases "backtick_loop Plain (c # cs)") auto
    with False show ?thesis by simp
  qed
qed simp

lemma backtick_holed: "holed c (backtick_loop Plain cs) \<longleftrightarrow> holed c cs"
  using backtick_first [of cs] by (cases "cs = []") (auto simp: holed_def)

lemma portable_digits: "portable Plain cs \<Longrightarrow> portable Plain (dropWhile digit_char cs)"
  by (induction cs) (auto split: if_splits)

text \<open>The first character of what follows a closing quote.\<close>

lemma translated_hd:
  "\<exists>e es. fst (rebind_loop False (backtick_loop Plain (d # ds))) = e # es
     \<and> e = (if holed d ds then CHR ''?'' else if d = dquote_char then backtick_char else d)"
proof (cases "holed d ds")
  case True
  then have "d \<noteq> quote_char" "d \<noteq> dquote_char" by (auto simp: holed_def)
  with True show ?thesis by (simp add: rebind_hole backtick_holed backtick_plain)
next
  case False
  have "\<not> holed backtick_char x" for x by (simp add: holed_def)
  with False show ?thesis
    by (cases "d = quote_char"; cases "d = dquote_char")
      (simp_all add: rebind_open rebind_plain backtick_holed backtick_plain)
qed

subsection \<open>Numbering the placeholders\<close>

fun number_holes :: "int \<Rightarrow> piece list \<Rightarrow> piece list" where
  "number_holes k [] = []"
| "number_holes k (Hole n # ps) = Hole k # number_holes (k + 1) ps"
| "number_holes k (p # ps) = p # number_holes k ps"

fun holes :: "piece list \<Rightarrow> int list" where
  "holes [] = []"
| "holes (Hole n # ps) = n # holes ps"
| "holes (p # ps) = holes ps"

definition translated :: "quote_mode \<Rightarrow> string \<Rightarrow> string \<times> int list" where
  "translated m sql = rebind_loop (m = InString) (backtick_loop m sql)"

text \<open>The two rewrites together, step by step.\<close>

lemma translated_plain:
  "c \<noteq> quote_char \<Longrightarrow> c \<noteq> dquote_char \<Longrightarrow> \<not> holed c cs \<Longrightarrow>
     translated Plain (c # cs) = (c # fst (translated Plain cs), snd (translated Plain cs))"
  "translated Plain (quote_char # cs) = (quote_char # fst (translated InString cs), snd (translated InString cs))"
  "translated Plain (dquote_char # cs) = (backtick_char # fst (translated InIdent cs), snd (translated InIdent cs))"
  "holed c cs \<Longrightarrow> translated Plain (c # cs) =
     (CHR ''?'' # fst (translated Plain (dropWhile digit_char cs)),
      atoi (takeWhile digit_char cs) # snd (translated Plain (dropWhile digit_char cs)))"
proof -
  show "holed c cs \<Longrightarrow> translated Plain (c # cs) =
     (CHR ''?'' # fst (translated Plain (dropWhile digit_char cs)),
      atoi (takeWhile digit_char cs) # snd (translated Plain (dropWhile digit_char cs)))"
  proof -
    assume h: "holed c cs"
    then have "c \<noteq> quote_char" "c \<noteq> dquote_char" by (auto simp: holed_def)
    with h show ?thesis
      by (simp add: translated_def backtick_plain rebind_hole backtick_holed backtick_digits)
  qed
  have "\<not> holed backtick_char x" for x by (simp add: holed_def)
  then show "translated Plain (dquote_char # cs)
      = (backtick_char # fst (translated InIdent cs), snd (translated InIdent cs))"
    by (simp add: translated_def backtick_plain rebind_plain)
qed (simp_all add: translated_def backtick_plain rebind_plain rebind_open backtick_holed)

lemma translated_string:
  "c \<noteq> quote_char \<Longrightarrow>
     translated InString (c # cs) = (c # fst (translated InString cs), snd (translated InString cs))"
  "translated InString (quote_char # quote_char # ds)
     = (quote_char # quote_char # fst (translated InString ds), snd (translated InString ds))"
  "cs = [] \<or> hd cs \<noteq> quote_char \<Longrightarrow>
     translated InString (quote_char # cs) = (quote_char # fst (translated Plain cs), snd (translated Plain cs))"
proof -
  assume cs: "cs = [] \<or> hd cs \<noteq> quote_char"
  then have "backtick_loop Plain cs = [] \<or> hd (backtick_loop Plain cs) \<noteq> quote_char"
    by (cases cs) (simp_all add: backtick_hd)
  with cs show "translated InString (quote_char # cs)
      = (quote_char # fst (translated Plain cs), snd (translated Plain cs))"
    by (simp add: translated_def backtick_string rebind_string)
qed (simp_all add: translated_def backtick_string rebind_string)

lemma translated_ident:
  "c \<noteq> dquote_char \<Longrightarrow> c \<noteq> backtick_char \<Longrightarrow> c \<noteq> quote_char \<Longrightarrow> c \<noteq> CHR ''$'' \<Longrightarrow>
     translated InIdent (c # cs) = (c # fst (translated InIdent cs), snd (translated InIdent cs))"
  "translated InIdent (backtick_char # cs)
     = (backtick_char # backtick_char # fst (translated InIdent cs), snd (translated InIdent cs))"
  "cs = [] \<or> hd cs \<noteq> dquote_char \<Longrightarrow>
     translated InIdent (dquote_char # cs) = (backtick_char # fst (translated Plain cs), snd (translated Plain cs))"
proof -
  have no: "\<not> holed backtick_char x" "c \<noteq> CHR ''$'' \<Longrightarrow> \<not> holed c x" for c x by (simp_all add: holed_def)
  show "c \<noteq> dquote_char \<Longrightarrow> c \<noteq> backtick_char \<Longrightarrow> c \<noteq> quote_char \<Longrightarrow> c \<noteq> CHR ''$'' \<Longrightarrow>
     translated InIdent (c # cs) = (c # fst (translated InIdent cs), snd (translated InIdent cs))"
    by (simp add: translated_def backtick_ident rebind_plain no)
  show "translated InIdent (backtick_char # cs)
     = (backtick_char # backtick_char # fst (translated InIdent cs), snd (translated InIdent cs))"
    by (simp add: translated_def backtick_ident rebind_plain no)
  show "cs = [] \<or> hd cs \<noteq> dquote_char \<Longrightarrow>
     translated InIdent (dquote_char # cs) = (backtick_char # fst (translated Plain cs), snd (translated Plain cs))"
    by (simp add: translated_def backtick_ident rebind_plain no)
qed

lemma translated_Nil [simp]: "translated m [] = ([], [])"
  by (simp add: translated_def)

lemma translated_first:
  "d \<noteq> quote_char \<Longrightarrow> \<exists>e es. fst (translated Plain (d # ds)) = e # es \<and> e \<noteq> quote_char"
  "d \<noteq> dquote_char \<Longrightarrow> d \<noteq> backtick_char \<Longrightarrow>
     \<exists>e es. fst (translated Plain (d # ds)) = e # es \<and> e \<noteq> backtick_char"
  using translated_hd [of d ds] by (auto simp: translated_def)

definition reads_same :: "quote_mode \<Rightarrow> string \<Rightarrow> bool" where
  "reads_same m sql \<longleftrightarrow>
     (\<forall>k. my_pieces m k (fst (translated m sql)) = number_holes k (pg_pieces m sql))
     \<and> snd (translated m sql) = holes (pg_pieces m sql)"

lemma reads_same_plain:
  assumes "portable Plain (c # cs)"
    and "c = quote_char \<Longrightarrow> reads_same InString cs" "c = dquote_char \<Longrightarrow> reads_same InIdent cs"
    and "holed c cs \<Longrightarrow> reads_same Plain (dropWhile digit_char cs)"
    and "c \<noteq> quote_char \<Longrightarrow> c \<noteq> dquote_char \<Longrightarrow> reads_same Plain cs"
  shows "reads_same Plain (c # cs)"
proof -
  consider (str) "c = quote_char" | (ident) "c = dquote_char"
    | (hole) "c \<noteq> quote_char" "c \<noteq> dquote_char" "holed c cs"
    | (code) "c \<noteq> quote_char" "c \<noteq> dquote_char" "\<not> holed c cs" by blast
  then show ?thesis
  proof cases
    case str
    then show ?thesis using assms(2) by (simp add: reads_same_def translated_plain)
  next
    case ident
    then show ?thesis using assms(3) by (simp add: reads_same_def translated_plain)
  next
    case hole
    then have "c = CHR ''$'' \<and> cs \<noteq> [] \<and> digit_char (hd cs)" by (simp add: holed_def)
    then have "pg_pieces Plain (c # cs)
        = Hole (atoi (takeWhile digit_char cs)) # pg_pieces Plain (dropWhile digit_char cs)" by simp
    then show ?thesis using hole assms(4) by (simp add: reads_same_def translated_plain)
  next
    case code
    then have "pg_pieces Plain (c # cs) = Code c # pg_pieces Plain cs" by (simp add: holed_def)
    then show ?thesis using code assms(1,5) by (simp add: reads_same_def translated_plain)
  qed
qed

lemma reads_same_string:
  assumes "portable InString (c # cs)"
    and "c \<noteq> quote_char \<Longrightarrow> reads_same InString cs"
    and "\<And>ds. c = quote_char \<Longrightarrow> cs = quote_char # ds \<Longrightarrow> reads_same InString ds"
    and "\<And>d ds. c = quote_char \<Longrightarrow> cs = d # ds \<Longrightarrow> d \<noteq> quote_char \<Longrightarrow> reads_same Plain cs"
  shows "reads_same InString (c # cs)"
proof -
  consider (chr) "c \<noteq> quote_char" | (last) "c = quote_char" "cs = []"
    | (doubled) ds where "c = quote_char" "cs = quote_char # ds"
    | (closing) d ds where "c = quote_char" "cs = d # ds" "d \<noteq> quote_char"
    by (cases cs) blast+
  then show ?thesis
  proof cases
    case chr
    then show ?thesis using assms(1,2) by (simp add: reads_same_def translated_string)
  next
    case last
    then show ?thesis by (simp add: reads_same_def translated_string)
  next
    case doubled
    then show ?thesis using assms(3) [OF doubled] by (simp add: reads_same_def translated_string)
  next
    case closing
    obtain e es where "fst (translated Plain (d # ds)) = e # es" "e \<noteq> quote_char"
      using translated_first(1) [OF closing(3)] by blast
    then show ?thesis
      using assms(4) [OF closing] closing by (simp add: reads_same_def translated_string)
  qed
qed

lemma reads_same_ident:
  assumes "portable InIdent (c # cs)"
    and "c \<noteq> dquote_char \<Longrightarrow> reads_same InIdent cs"
    and "\<And>d ds. c = dquote_char \<Longrightarrow> cs = d # ds \<Longrightarrow> d \<noteq> dquote_char \<Longrightarrow> reads_same Plain cs"
  shows "reads_same InIdent (c # cs)"
proof -
  consider (tick) "c = backtick_char" | (chr) "c \<noteq> dquote_char" "c \<noteq> backtick_char"
    | (last) "c = dquote_char" "cs = []" | (closing) d ds where "c = dquote_char" "cs = d # ds"
    by (cases cs) blast+
  then show ?thesis
  proof cases
    case tick
    then show ?thesis using assms(2) by (simp add: reads_same_def translated_ident)
  next
    case chr
    then show ?thesis using assms(1,2) by (simp add: reads_same_def translated_ident)
  next
    case last
    then show ?thesis by (simp add: reads_same_def translated_ident)
  next
    case closing
    then have d: "d \<noteq> dquote_char" "d \<noteq> backtick_char" using assms(1) by auto
    obtain e es where "fst (translated Plain (d # ds)) = e # es" "e \<noteq> backtick_char"
      using translated_first(2) [OF d] by blast
    then show ?thesis
      using assms(3) [OF closing d(1)] closing d by (simp add: reads_same_def translated_ident)
  qed
qed

lemma portable_reads_same: "portable m sql \<Longrightarrow> reads_same m sql"
proof (induction sql arbitrary: m rule: length_induct)
  case (1 sql)
  have ih: "reads_same n s" if "length s < length sql" "portable n s" for n s using 1 that by blast
  show ?case
  proof (cases sql)
    case Nil
    then show ?thesis by (simp add: reads_same_def)
  next
    case (Cons c cs)
    have p: "portable m (c # cs)" using "1.prems" Cons by simp
    show ?thesis
    proof (cases m)
      case Plain
      show ?thesis unfolding Cons Plain
      proof (rule reads_same_plain)
        assume "holed c cs"
        then have "portable Plain cs" using p Plain by (auto simp: holed_def)
        then show "reads_same Plain (dropWhile digit_char cs)"
          using length_dropWhile_less [of digit_char cs] by (intro ih portable_digits) (simp add: Cons)
      qed (use p Plain Cons in \<open>auto intro!: ih\<close>)
    next
      case InString
      show ?thesis unfolding Cons InString
        by (rule reads_same_string) (use p InString Cons in \<open>auto intro!: ih\<close>)
    next
      case InIdent
      show ?thesis unfolding Cons InIdent
        by (rule reads_same_ident) (use p InIdent Cons in \<open>auto intro!: ih\<close>)
    qed
  qed
qed

subsection \<open>The translation as a whole\<close>

lemma backtick_id: "dquote_char \<notin> set sql \<Longrightarrow> m \<noteq> InIdent \<Longrightarrow> backtick_loop m sql = sql"
proof (induction sql arbitrary: m rule: length_induct)
  case (1 sql)
  show ?case
  proof (cases sql)
    case (Cons c cs)
    then have ih: "backtick_loop n cs = cs" if "n \<noteq> InIdent" for n using 1 that by simp
    have c: "c \<noteq> dquote_char" using "1.prems" Cons by auto
    show ?thesis
    proof (cases m)
      case Plain
      with c ih Cons show ?thesis by (cases "c = quote_char") (simp_all add: backtick_plain)
    next
      case InString
      consider "c \<noteq> quote_char" | "c = quote_char" "cs = [] \<or> hd cs \<noteq> quote_char"
        | ds where "c = quote_char" "cs = quote_char # ds" by (cases cs) auto
      then show ?thesis
      proof cases
        case (3 ds)
        then have "backtick_loop InString ds = ds" using 1 Cons by simp
        with 3 InString Cons show ?thesis by (simp add: backtick_string)
      qed (use ih InString Cons in \<open>simp_all add: backtick_string\<close>)
    qed (use "1.prems" in simp)
  qed simp
qed

lemma quote_to_backtick_loop: "quote_to_backtick sql = backtick_loop Plain sql"
  by (simp add: quote_to_backtick_def backtick_id)

lemma rebind_translated: "rebind (quote_to_backtick sql) = translated Plain sql"
  by (simp add: rebind_def quote_to_backtick_loop translated_def)

lemma fill_numbered:
  assumes "\<And>i. i < length (holes ps) \<Longrightarrow> arg_of bs (k + int i) = arg_of as (holes ps ! i)"
  shows "fill bs (number_holes k ps) = fill as ps"
  using assms
proof (induction k ps rule: number_holes.induct)
  case (2 k n ps)
  have "arg_of bs k = arg_of as n" using "2.prems" [of 0] by simp
  moreover have "fill bs (number_holes (k + 1) ps) = fill as ps"
    by (rule "2.IH") (use "2.prems" [of "Suc i" for i] in \<open>simp add: algebra_simps\<close>)
  ultimately show ?case by (simp add: fill_def)
qed (simp_all add: fill_def)

lemma arg_of_reorder:
  assumes "i < length order"
  shows "arg_of (convert_args (reorder args order)) (1 + int i) = arg_of (convert_args args) (order ! i)"
proof -
  have "reorder args order = map (arg_of args) order"
    using assms by (auto simp: reorder_def arg_of_def)
  moreover have "arg_of (map g order) (1 + int i) = g (order ! i)" for g :: "int \<Rightarrow> 'a driver_arg option"
    using assms by (simp add: arg_of_def)
  ultimately have "arg_of (convert_args (reorder args order)) (1 + int i)
      = map_option convert_arg (arg_of args (order ! i))"
    by (simp add: convert_args_def o_def)
  then show ?thesis by (simp add: arg_of_def convert_args_def nat_less_iff)
qed

text \<open>
  C31: The MySQL translation is faithful on portable statements: those with no question mark or backtick
  outside literals and identifiers, no backslash in a literal, and no single quote, dollar sign or doubled
  double quote in an identifier. For these, what MySQL reads in the rewritten text with the permuted
  arguments (code, literals, identifiers, and for every placeholder the argument bound to it) is what
  PostgreSQL reads in the original with the original arguments, whatever their order, repetition or number.
\<close>

theorem translate_faithful:
  assumes "portable Plain sql"
  shows "fill (snd (translate sql args)) (my_pieces Plain 1 (fst (translate sql args)))
    = fill (convert_args args) (pg_pieces Plain sql)"
proof -
  have "my_pieces Plain 1 (fst (translated Plain sql)) = number_holes 1 (pg_pieces Plain sql)"
    and order: "snd (translated Plain sql) = holes (pg_pieces Plain sql)"
    using portable_reads_same [OF assms] by (simp_all add: reads_same_def)
  moreover have "fill (convert_args (reorder args (holes (pg_pieces Plain sql))))
      (number_holes 1 (pg_pieces Plain sql)) = fill (convert_args args) (pg_pieces Plain sql)"
    by (rule fill_numbered) (rule arg_of_reorder)
  ultimately show ?thesis by (simp add: translate_def rebind_translated Let_def)
qed

definition demo_sql :: string where
  "demo_sql = ''SELECT '' @ [dquote_char] @ ''a'' @ [dquote_char] @ '' WHERE b = $2 AND c = ''
     @ [quote_char] @ ''it'' @ [quote_char, quote_char] @ ''s $9'' @ [quote_char] @ '' AND d = $1''"

theorem translate_faithful_witness:
  "fst (translate demo_sql [Some (ArgOther True), Some (ArgUuid ''u'')])
     = ''SELECT '' @ [backtick_char] @ ''a'' @ [backtick_char] @ '' WHERE b = ? AND c = ''
       @ [quote_char] @ ''it'' @ [quote_char, quote_char] @ ''s $9'' @ [quote_char] @ '' AND d = ?''
   \<and> snd (translate demo_sql [Some (ArgOther True), Some (ArgUuid ''u'')])
     = [Some (ArgBytes ''u''), Some (ArgOther True)]
   \<and> fill (snd (translate demo_sql [Some (ArgOther True), Some (ArgUuid ''u'')]))
       (my_pieces Plain 1 (fst (translate demo_sql [Some (ArgOther True), Some (ArgUuid ''u'')])))
     = fill (convert_args [Some (ArgOther True), Some (ArgUuid ''u'')]) (pg_pieces Plain demo_sql)"
proof (intro conjI)
  have "portable Plain demo_sql" by code_simp
  then show "fill (snd (translate demo_sql [Some (ArgOther True), Some (ArgUuid ''u'')]))
       (my_pieces Plain 1 (fst (translate demo_sql [Some (ArgOther True), Some (ArgUuid ''u'')])))
     = fill (convert_args [Some (ArgOther True), Some (ArgUuid ''u'')]) (pg_pieces Plain demo_sql)"
    by (rule translate_faithful)
qed code_simp+

text \<open>
  The one identifier the translation renames: a doubled quote inside a quoted identifier stands for the
  character itself, but becomes a doubled backtick, which stands for a backtick.
\<close>

lemma quoted_quote_renamed:
  "let sql = [dquote_char] @ ''a'' @ [dquote_char, dquote_char] @ ''b'' @ [dquote_char]
   in pg_pieces Plain sql = [IdOpen, IdChar CHR ''a'', IdChar dquote_char, IdChar CHR ''b'', IdClose]
     \<and> my_pieces Plain 1 (quote_to_backtick sql)
         = [IdOpen, IdChar CHR ''a'', IdChar backtick_char, IdChar CHR ''b'', IdClose]"
  by code_simp

end
