(* ===== verification/ValuesDefs.thy ===== *)
theory ValuesDefs
  imports SchemaDefs CoreChange SqlDialect "HOL-Library.Log_Nat"
begin

text \<open>
  Values at the database boundary, after \<^verbatim>\<open>internal/store/values.go\<close>: what is bound to a statement, what comes
  back from a driver, rows, and the decoding of a primary key. A driver value is the datatype of the
  cases of \<^verbatim>\<open>fromDriver\<close>'s type switch; \<^verbatim>\<open>pgtype.Numeric\<close> is its unscaled integer (\<^term>\<open>None\<close> a nil pointer),
  exponent and flags. Parameters are \<^verbatim>\<open>Numeric.Scan\<close> of pgtype, and \<^verbatim>\<open>strconv.ParseFloat\<close> and \<^verbatim>\<open>time.Parse\<close>.
\<close>

datatype store_error =
    MalformedKey | TruncatedValue | TruncatedBool | TruncatedInt | TruncatedFloat | TruncatedLength
  | TruncatedPayload | UnknownKeyKind u8 | KeyParts nat nat
  | NotNumeric string | CannotBind kind | NumericNaN | NilNumeric
  | NotInteger string | NotFloat string | NotBoolean string | NotTimestamp string | NotCanonical core_error
  | CannotConvert

subsection \<open>Tables\<close>

record store_table =
  st_id :: i64
  st_physical :: string
  st_columns :: "acolumn list"
  st_pk :: "colid list"

definition table_column :: "store_table \<Rightarrow> colid \<Rightarrow> acolumn option" where
  "table_column t i = find (\<lambda>c. ac_id c = i) (st_columns t)"

definition column_by_name :: "store_table \<Rightarrow> string \<Rightarrow> acolumn option" where
  "column_by_name t n = find (\<lambda>c. ac_name c = n) (st_columns t)"

definition table_col_ids :: "store_table \<Rightarrow> colid list" where
  "table_col_ids t = map ac_id (st_columns t)"

subsection \<open>Binding\<close>

record numeric =
  nm_int :: "int option"
  nm_exp :: int
  nm_nan :: bool
  nm_valid :: bool

datatype driver_value =
    DNil | DBool bool | DInt16 "16 word" | DInt32 "32 word" | DInt64 i64 | DFloat32 u32 | DFloat64 u64
  | DString string | DBytes bytes | DTime i64 | DNumeric numeric | DUuid bytes | DOther

definition bind_value :: "(string \<Rightarrow> numeric option) \<Rightarrow> val \<Rightarrow> store_error + driver_value" where
  "bind_value scan v =
     (case val_kind v of
        KindNull \<Rightarrow> Inr DNil
      | KindBool \<Rightarrow> Inr (DBool (val_bool v))
      | KindInt \<Rightarrow> Inr (DInt64 (val_int v))
      | KindFloat \<Rightarrow> Inr (DFloat64 (val_float v))
      | KindNumeric \<Rightarrow> (case scan (val_text v) of
          None \<Rightarrow> Inl (NotNumeric (val_text v)) | Some n \<Rightarrow> Inr (DNumeric n))
      | KindText \<Rightarrow> Inr (DString (val_text v))
      | KindBytes \<Rightarrow> Inr (DBytes (val_bytes v))
      | KindTime \<Rightarrow> Inr (DTime (val_int v))
      | KindOther k \<Rightarrow> Inl (CannotBind (KindOther k)))"

subsection \<open>Reading back\<close>

text \<open>\<^verbatim>\<open>float64(x)\<close> of a float32, on the bits: every float32 is a float64.\<close>

definition float32_to_64 :: "u32 \<Rightarrow> u64" where
  "float32_to_64 b =
     (let sign = push_bit 63 (drop_bit 31 (ucast b :: u64));
          e = drop_bit 23 b AND 0xFF; m = b AND 0x7FFFFF in
      if e = 0xFF then sign OR push_bit 52 0x7FF OR push_bit 29 (ucast m)
      else if e \<noteq> 0 then sign OR push_bit 52 (ucast e + 896) OR push_bit 29 (ucast m)
      else if m = 0 then sign
      else let k = floorlog 2 (unat m) - 1
        in sign OR push_bit 52 (of_nat (k + 874)) OR push_bit (52 - k) (ucast m - push_bit k 1))"

text \<open>\<^verbatim>\<open>strconv.ParseInt(s, 10, 64)\<close>: an optional sign, digits, and the range of an int64.\<close>

definition parse_int64 :: "string \<Rightarrow> i64 option" where
  "parse_int64 s =
     (let (neg, t) = split_sign s in
      if t = [] \<or> \<not> list_all is_digit t then None
      else let n = int (digits_value t); i = (if neg then - n else n) in
        if - (2 ^ 63) \<le> i \<and> i < 2 ^ 63 then Some (of_int i) else None)"

definition time_layouts :: "string list" where
  "time_layouts =
     [''2006-01-02T15:04:05.999999999Z07:00'', ''2006-01-02 15:04:05.999999'', ''2006-01-02 15:04:05'',
      ''2006-01-02'']"

fun parse_layouts :: "(string \<Rightarrow> string \<Rightarrow> i64 option) \<Rightarrow> string list \<Rightarrow> string \<Rightarrow> i64 option" where
  "parse_layouts parse [] s = None"
| "parse_layouts parse (l # ls) s =
     (case parse l s of Some t \<Rightarrow> Some t | None \<Rightarrow> parse_layouts parse ls s)"

record value_lib =
  lib_float :: "string \<Rightarrow> u64 option"
  lib_time :: "string \<Rightarrow> string \<Rightarrow> i64 option"

definition canonical_numeric :: "string \<Rightarrow> store_error + val" where
  "canonical_numeric s = (case numeric_val s of Inl e \<Rightarrow> Inl (NotCanonical e) | Inr v \<Rightarrow> Inr v)"

definition from_text :: "value_lib \<Rightarrow> string \<Rightarrow> kind \<Rightarrow> store_error + val" where
  "from_text lib s knd =
     (case knd of
        KindNumeric \<Rightarrow> canonical_numeric s
      | KindInt \<Rightarrow> (case parse_int64 s of Some n \<Rightarrow> Inr (int_val n) | None \<Rightarrow> Inl (NotInteger s))
      | KindFloat \<Rightarrow> (case lib_float lib s of Some f \<Rightarrow> Inr (float_val f) | None \<Rightarrow> Inl (NotFloat s))
      | KindBool \<Rightarrow>
          if s \<in> set [''1'', ''true'', ''TRUE'', ''t'', ''y'', ''yes''] then Inr (bool_val True)
          else if s \<in> set [''0'', ''false'', ''FALSE'', ''f'', ''n'', ''no''] then Inr (bool_val False)
          else Inl (NotBoolean s)
      | KindTime \<Rightarrow> (case parse_layouts (lib_time lib) time_layouts s of
          Some t \<Rightarrow> Inr (time_val t) | None \<Rightarrow> Inl (NotTimestamp s))
      | KindBytes \<Rightarrow> Inr (bytes_val s)
      | _ \<Rightarrow> Inr (text_val s))"

text \<open>\<^verbatim>\<open>numericString\<close>: the unscaled integer shifted by the exponent; a nil integer is a panic of \<^verbatim>\<open>big.Int.Set\<close>.\<close>

definition zero_pad :: "nat \<Rightarrow> string \<Rightarrow> string" where
  "zero_pad p digits = replicate (Suc p - length digits) (CHR ''0'') @ digits"

definition shift_digits :: "int \<Rightarrow> string \<Rightarrow> string" where
  "shift_digits e digits =
     (if 0 \<le> e then digits @ replicate (nat e) (CHR ''0'')
      else let p = nat (- e); ds = zero_pad p digits
        in take (length ds - p) ds @ ''.'' @ drop (length ds - p) ds)"

definition numeric_string :: "numeric \<Rightarrow> store_error + string" where
  "numeric_string n =
     (if \<not> nm_valid n then Inr ''0''
      else if nm_nan n then Inl NumericNaN
      else case nm_int n of
        None \<Rightarrow> Inl NilNumeric
      | Some i \<Rightarrow>
          let out = shift_digits (nm_exp n) (dec_digits (nat \<bar>i\<bar>))
          in Inr (if i < 0 then CHR ''-'' # out else out))"

definition hex_digit :: "nat \<Rightarrow> char" where
  "hex_digit n = ''0123456789abcdef'' ! n"

definition uuid_text :: "bytes \<Rightarrow> string" where
  "uuid_text u =
     concat (map (\<lambda>i. (if i \<in> {4, 6, 8, 10} then ''-'' else [])
         @ [hex_digit (of_char (u ! i) div 16), hex_digit (of_char (u ! i) mod 16)]) [0..<length u])"

definition from_driver :: "value_lib \<Rightarrow> driver_value \<Rightarrow> kind \<Rightarrow> store_error + val" where
  "from_driver lib x knd =
     (case x of
        DNil \<Rightarrow> Inr null_val
      | DBool b \<Rightarrow> Inr (bool_val b)
      | DInt16 i \<Rightarrow> Inr (int_val (scast i))
      | DInt32 i \<Rightarrow> Inr (int_val (scast i))
      | DInt64 i \<Rightarrow> Inr (int_val i)
      | DFloat32 f \<Rightarrow> Inr (float_val (float32_to_64 f))
      | DFloat64 f \<Rightarrow> Inr (float_val f)
      | DString s \<Rightarrow> from_text lib s knd
      | DBytes b \<Rightarrow> if knd = KindBytes then Inr (bytes_val b) else from_text lib b knd
      | DTime t \<Rightarrow> Inr (time_val t)
      | DNumeric n \<Rightarrow> (case numeric_string n of Inl e \<Rightarrow> Inl e | Inr s \<Rightarrow> canonical_numeric s)
      | DUuid u \<Rightarrow> Inr (text_val (uuid_text u))
      | DOther \<Rightarrow> Inl CannotConvert)"

subsection \<open>Rows\<close>

text \<open>The loop stops at the end of the scanned values; a value that does not convert reads as null.\<close>

fun fill_row :: "value_lib \<Rightarrow> acolumn list \<Rightarrow> driver_value list \<Rightarrow> (colid, val) fmap \<Rightarrow> (colid, val) fmap" where
  "fill_row lib (c # cs) (x # xs) r =
     fill_row lib cs xs
       (fmupd (ac_id c) (case from_driver lib x (ac_kind c) of Inr v \<Rightarrow> v | Inl _ \<Rightarrow> null_val) r)"
| "fill_row lib _ _ r = r"

definition values_to_row :: "value_lib \<Rightarrow> driver_value list \<Rightarrow> store_table \<Rightarrow> row" where
  "values_to_row lib vals t = Some (fill_row lib (st_columns t) vals fmempty)"

definition op_of_byte :: "u8 \<Rightarrow> op" where
  "op_of_byte b = (if b = 1 then OpInsert else if b = 2 then OpUpdate else if b = 3 then OpDelete else OpOther b)"

text \<open>\<^verbatim>\<open>scanRow\<close> after \<^verbatim>\<open>rows.Scan\<close> has filled the values and the int16 operation.\<close>

definition scan_row :: "value_lib \<Rightarrow> driver_value list \<Rightarrow> 16 word \<Rightarrow> store_table \<Rightarrow> row \<times> op" where
  "scan_row lib vals o' t = (values_to_row lib vals t, op_of_byte (ucast o'))"

subsection \<open>Decoding a primary key\<close>

definition read_u32 :: "bytes \<Rightarrow> u32" where
  "read_u32 b = of_nat (be_value (take 4 b))"

definition read_u64 :: "bytes \<Rightarrow> u64" where
  "read_u64 b = of_nat (be_value (take 8 b))"

definition decode_fixed :: "store_error \<Rightarrow> (u64 \<Rightarrow> val) \<Rightarrow> bytes \<Rightarrow> store_error + val \<times> bytes" where
  "decode_fixed e f b = (if length b < 8 then Inl e else Inr (f (read_u64 b), drop 8 b))"

text \<open>The length is compared as a uint32, so it wraps for a buffer of 4 GiB or more.\<close>

definition decode_payload :: "(bytes \<Rightarrow> val) \<Rightarrow> bytes \<Rightarrow> store_error + val \<times> bytes" where
  "decode_payload f b0 =
     (if length b0 < 4 then Inl TruncatedLength
      else let n = read_u32 b0; b = drop 4 b0 in
        if (of_nat (length b) :: u32) < n then Inl TruncatedPayload
        else Inr (f (take (unat n) b), drop (unat n) b))"

definition decode_value :: "bytes \<Rightarrow> store_error + val \<times> bytes" where
  "decode_value b0 =
     (case b0 of
        [] \<Rightarrow> Inl TruncatedValue
      | k # b \<Rightarrow>
          let n = (of_char k :: nat) in
          if n = 0 then Inr (null_val, b)
          else if n = 1 then
            (case b of [] \<Rightarrow> Inl TruncatedBool | c # rest \<Rightarrow> Inr (bool_val (of_char c = (1::nat)), rest))
          else if n = 2 then decode_fixed TruncatedInt int_val b
          else if n = 3 then
            decode_fixed TruncatedFloat (\<lambda>w. zero_val\<lparr>val_kind := KindFloat, val_float := w\<rparr>) b
          else if n = 4 then
            decode_payload (\<lambda>s. zero_val\<lparr>val_kind := KindNumeric, val_text := s\<rparr>) b
          else if n = 5 then decode_payload text_val b
          else if n = 6 then decode_payload bytes_val b
          else if n = 7 then decode_fixed TruncatedInt time_val b
          else Inl (UnknownKeyKind (of_nat n)))"

fun decode_values :: "nat \<Rightarrow> bytes \<Rightarrow> store_error + val list \<times> bytes" where
  "decode_values 0 b = Inr ([], b)"
| "decode_values (Suc n) b =
     (case decode_value b of
        Inl e \<Rightarrow> Inl e
      | Inr (v, rest) \<Rightarrow> (case decode_values n rest of Inl e \<Rightarrow> Inl e | Inr (vs, r) \<Rightarrow> Inr (v # vs, r)))"

definition decode_pk :: "pk \<Rightarrow> store_table \<Rightarrow> store_error + val list" where
  "decode_pk key t =
     (if length key < 4 then Inl MalformedKey
      else case decode_values (unat (read_u32 key)) (drop 4 key) of
        Inl e \<Rightarrow> Inl e
      | Inr (vs, _) \<Rightarrow>
          if length vs \<noteq> length (st_pk t) then Inl (KeyParts (length vs) (length (st_pk t))) else Inr vs)"

subsection \<open>Key predicates\<close>

definition quote_ident :: "string \<Rightarrow> string" where
  "quote_ident s =
     dquote_char # concat (map (\<lambda>c. if c = dquote_char then [dquote_char, dquote_char] else [c]) s) @ [dquote_char]"

definition sidecar_column :: "colid \<Rightarrow> string" where
  "sidecar_column i = ''c_'' @ dec_digits (unat i)"

text \<open>\<^verbatim>\<open>strings.Join(parts, '' AND '')\<close> and the argument list; an error of \<^verbatim>\<open>bind\<close> is dropped and leaves nil.\<close>

fun join_and :: "string list \<Rightarrow> string" where
  "join_and [] = []"
| "join_and [p] = p"
| "join_and (p # ps) = p @ '' AND '' @ join_and ps"

definition bind_or_nil :: "(string \<Rightarrow> numeric option) \<Rightarrow> val \<Rightarrow> driver_value" where
  "bind_or_nil scan v = (case bind_value scan v of Inr x \<Rightarrow> x | Inl _ \<Rightarrow> DNil)"

definition key_where :: "(string \<Rightarrow> numeric option) \<Rightarrow> string list \<Rightarrow> val list \<Rightarrow> nat
    \<Rightarrow> string \<times> driver_value list" where
  "key_where scan names vals start =
     (join_and (map (\<lambda>i. quote_ident (names ! i) @ '' = $'' @ dec_digits (start + i)) [0..<length names]),
      map (\<lambda>i. bind_or_nil scan (vals ! i)) [0..<length names])"

text \<open>\<^term>\<open>None\<close> is the panic of an index past the end of the values.\<close>

definition pk_where :: "(string \<Rightarrow> numeric option) \<Rightarrow> store_table \<Rightarrow> val list \<Rightarrow> nat
    \<Rightarrow> (string \<times> driver_value list) option" where
  "pk_where scan t vals start =
     (if length vals < length (st_pk t) then None
      else Some (key_where scan
        (map (\<lambda>i. case table_column t i of Some c \<Rightarrow> ac_name c | None \<Rightarrow> []) (st_pk t)) vals start))"

definition sidecar_pk_where :: "(string \<Rightarrow> numeric option) \<Rightarrow> store_table \<Rightarrow> val list \<Rightarrow> nat
    \<Rightarrow> (string \<times> driver_value list) option" where
  "sidecar_pk_where scan t vals start =
     (if length vals < length (st_pk t) then None
      else Some (key_where scan (map sidecar_column (st_pk t)) vals start))"

end
