(* ===== verification/ValuesFacts.thy ===== *)
theory ValuesFacts
  imports ValuesDefs SchemaProps SqlProps
begin

text \<open>
  The key decoder reads back what the key encoder wrote, exact decimals survive the driver, and quoted
  identifiers cannot be left from inside.
\<close>

subsection \<open>Decoding\<close>

text \<open>The value a cell stands for.\<close>

fun cell_val :: "cell \<Rightarrow> val" where
  "cell_val CNull = null_val"
| "cell_val (CBool b) = bool_val b"
| "cell_val (CInt i) = int_val i"
| "cell_val (CFloat b) = zero_val\<lparr>val_kind := KindFloat, val_float := b\<rparr>"
| "cell_val (CNumeric s) = zero_val\<lparr>val_kind := KindNumeric, val_text := s\<rparr>"
| "cell_val (CText s) = text_val s"
| "cell_val (CBytes s) = bytes_val s"
| "cell_val (CTime i) = time_val i"
| "cell_val (COther k) = zero_val\<lparr>val_kind := KindOther k\<rparr>"

lemmas val_makers = null_val_def bool_val_def int_val_def text_val_def bytes_val_def time_val_def float_val_def zero_val_def

lemma float_collapse_idem [simp]: "float_collapse (float_collapse b) = float_collapse b"
  by (simp add: float_collapse_def)

lemma float_collapse_nan [simp]: "float_is_nan (float_collapse b) = float_is_nan b"
  using float_zero_not_nan by (auto simp: float_collapse_def)

lemma cell_of_cell_val: "cell_of (cell_val (cell_of v)) = cell_of v"
  by (cases "val_kind v") (simp_all add: cell_of_def val_makers)

lemma val_ok_cell_val: "val_ok v \<Longrightarrow> val_ok (cell_val (cell_of v))"
  by (cases "val_kind v") (simp_all add: cell_of_def val_ok_def val_makers)

lemma cell_val_equal: "val_ok v \<Longrightarrow> val_equal (cell_val (cell_of v)) v"
  by (simp add: val_equal_iff cell_of_cell_val val_ok_cell_val)

lemma read_u32_be32 [simp]: "read_u32 (be32 w @ x) = w"
  by (simp add: read_u32_def be_value_be32)

lemma read_u64_be64 [simp]: "read_u64 (be64 w @ x) = w"
  by (simp add: read_u64_def be_value_be64)

lemma decode_fixed_be64 [simp]: "decode_fixed e f (be64 w @ x) = Inr (f w, x)"
  by (simp add: decode_fixed_def)

lemma decode_payload_prefixed:
  assumes "length s + length x < 2 ^ 32"
  shows "decode_payload f (be32 (of_nat (length s)) @ s @ x) = Inr (f s, x)"
proof -
  have small: "unat (of_nat n :: u32) = n" if "n < 2 ^ 32" for n
    using that by (simp add: unsigned_of_nat take_bit_nat_eq_self)
  have u: "unat (of_nat (length s) :: u32) = length s" "unat (of_nat (length (s @ x)) :: u32) = length (s @ x)"
    by (rule small; use assms in simp)+
  then have "\<not> (of_nat (length (s @ x)) :: u32) < of_nat (length s)"
    unfolding word_less_nat_alt by simp
  then show ?thesis using u by (simp add: decode_payload_def Let_def)
qed

lemma decode_cell:
  assumes "cell_fits c" "length (cell_bytes c @ x) < 2 ^ 32"
  shows "decode_value (cell_bytes c @ x) = Inr (cell_val c, x)"
  using assms
  by (cases c) (auto simp: decode_value_def Let_def decode_payload_prefixed)

lemma decode_cells:
  assumes "list_all cell_fits cs" "length (concat (map cell_bytes cs) @ x) < 2 ^ 32"
  shows "decode_values (length cs) (concat (map cell_bytes cs) @ x) = Inr (map cell_val cs, x)"
  using assms
proof (induction cs)
  case (Cons c cs)
  have "decode_value (cell_bytes c @ (concat (map cell_bytes cs) @ x))
      = Inr (cell_val c, concat (map cell_bytes cs) @ x)"
    by (rule decode_cell) (use Cons.prems in simp_all)
  with Cons show ?case by simp
qed simp

lemma decode_made_key:
  assumes "make_pk r cols = Some k" "row_fits r" "length k < 2 ^ 32" "length cols = length (st_pk t)"
  shows "decode_pk k t = Inr (map cell_val (tuple_cells r cols))"
    and "\<forall>c \<in> set cols. val_ok (row_get r c)"
proof -
  show ok: "\<forall>c \<in> set cols. val_ok (row_get r c)" using assms(1) by (simp add: make_pk_iff)
  have k: "k = be32 (of_nat (length cols)) @ concat (map cell_bytes (tuple_cells r cols))"
    using assms(1) by (simp add: make_pk_iff)
  have fits: "list_all cell_fits (tuple_cells r cols)" using ok assms(2) by (rule fits_tuple [rotated])
  have "length cs \<le> length (concat (map cell_bytes cs))" if "list_all cell_fits cs" for cs
    using that
  proof (induction cs)
    case (Cons c cs)
    then have "1 \<le> length (cell_bytes c)" by (cases c) simp_all
    with Cons show ?case by simp
  qed simp
  from this [OF fits] have "length cols < 2 ^ 32" using assms(3) k by (simp add: tuple_cells_def)
  then have n: "unat (of_nat (length cols) :: u32) = length (tuple_cells r cols)"
    by (simp add: unsigned_of_nat take_bit_nat_eq_self tuple_cells_def)
  have len: "length (tuple_cells r cols) = length (st_pk t)" by (simp add: tuple_cells_def assms(4))
  have "decode_values (length (tuple_cells r cols)) (concat (map cell_bytes (tuple_cells r cols)) @ [])
      = Inr (map cell_val (tuple_cells r cols), [])"
    by (rule decode_cells [OF fits]) (use assms(3) k in simp)
  then show "decode_pk k t = Inr (map cell_val (tuple_cells r cols))"
    using n len by (simp add: decode_pk_def k)
qed

subsection \<open>Decimals through the driver\<close>

definition scaled :: "int \<Rightarrow> int \<Rightarrow> rat" where
  "scaled i e = (if 0 \<le> e then of_int i * 10 ^ nat e else of_int i / 10 ^ nat (- e))"

lemma zero_pad_facts:
  "list_all is_digit ds \<Longrightarrow> list_all is_digit (zero_pad p ds)"
  "digits_value (zero_pad p ds) = digits_value ds"
  "p < length (zero_pad p ds)"
  by (auto simp: zero_pad_def list_all_append list_all_iff is_digit_def digits_value_append digits_value_zeros)

lemma shift_digits_parts:
  assumes "list_all is_digit ds" "ds \<noteq> []"
  obtains ip fp where "shift_digits e ds = (if 0 \<le> e then ip else ip @ CHR ''.'' # fp)"
    and "list_all is_digit (ip @ fp)" "ip \<noteq> []" "e < 0 \<longleftrightarrow> fp \<noteq> []"
    and "frac_value ip fp = scaled (int (digits_value ds)) e"
proof (cases "0 \<le> e")
  case True
  have "list_all is_digit (ds @ replicate (nat e) (CHR ''0''))"
    using assms by (auto simp: list_all_iff is_digit_def)
  with True assms that [of "ds @ replicate (nat e) (CHR ''0'')" "[]"] show ?thesis
    by (simp add: shift_digits_def frac_value_def scaled_def digits_value_append digits_value_zeros)
next
  case False
  let ?p = "nat (- e)" and ?z = "zero_pad (nat (- e)) ds"
  let ?ip = "take (length ?z - ?p) ?z" and ?fp = "drop (length ?z - ?p) ?z"
  have z: "list_all is_digit ?z" "digits_value ?z = digits_value ds" "?p < length ?z"
    using zero_pad_facts assms(1) by blast+
  have "length ?fp = ?p" "?ip @ ?fp = ?z" "?ip \<noteq> []" "?fp \<noteq> []" using z(3) False by auto
  with z False that [of ?ip ?fp] show ?thesis
    by (simp add: shift_digits_def frac_value_def scaled_def Let_def)
qed

lemma shifted_text:
  fixes neg :: bool
  assumes digits: "list_all is_digit (ip @ fp)" and ip: "ip \<noteq> []"
    and dot: "dot \<longleftrightarrow> fp \<noteq> []"
    and body: "body = (if dot then ip @ CHR ''.'' # fp else ip)"
    and out: "out = (if neg then CHR ''-'' # body else body)"
  shows "decimal_ok out \<and> decimal_value out = signed neg (frac_value ip fp)"
proof -
  have hd: "is_digit (hd ip)" using digits ip by (cases ip) simp_all
  have last: "is_digit (last body)"
    using digits ip dot body by (cases "fp = []") (auto simp: list_all_iff)
  have ne: "body \<noteq> []" "hd body = hd ip" using body ip by (cases ip; simp)+
  have trim: "trim_space out = out"
    by (rule trim_space_id) (use out ne hd last in \<open>auto\<close>)
  have "hd ip \<noteq> CHR ''-''" "hd ip \<noteq> CHR ''+''" using is_digit_not [OF hd] by simp_all
  then have sign: "split_sign out = (neg, body)"
    using out ne by (cases body) (auto simp: split_sign_def)
  have "\<forall>c \<in> set ip. c \<noteq> CHR ''.''" using digits is_digit_not by (auto simp: list_all_iff)
  then have "split_point body = (ip, fp)"
    using body dot split_point_plain [of ip] split_point_dot [of ip fp] by (cases dot) auto
  with trim sign have "decimal_parts out = (neg, ip, fp)" by (simp add: decimal_parts_def)
  then show ?thesis
    using digits ip out ne trim by (auto simp: decimal_ok_def decimal_value_parts signed_def)
qed

lemma numeric_string_exact:
  assumes "nm_valid n" "\<not> nm_nan n" "nm_int n = Some i"
  obtains s where "numeric_string n = Inr s" "decimal_ok s" "decimal_value s = scaled i (nm_exp n)"
proof -
  let ?ds = "dec_digits (nat \<bar>i\<bar>)" and ?e = "nm_exp n"
  obtain ip fp where body: "shift_digits ?e ?ds = (if 0 \<le> ?e then ip else ip @ CHR ''.'' # fp)"
    and parts: "list_all is_digit (ip @ fp)" "ip \<noteq> []" "?e < 0 \<longleftrightarrow> fp \<noteq> []"
    and val: "frac_value ip fp = scaled (int (digits_value ?ds)) ?e"
    using shift_digits_parts [OF dec_digits_is_digit dec_digits_nonempty] by blast
  let ?out = "if i < 0 then CHR ''-'' # shift_digits ?e ?ds else shift_digits ?e ?ds"
  have "decimal_ok ?out \<and> decimal_value ?out = signed (i < 0) (frac_value ip fp)"
    by (rule shifted_text [OF parts(1,2,3), of "shift_digits ?e ?ds"]) (use body in auto)
  moreover have "signed (i < 0) (frac_value ip fp) = scaled i ?e"
    by (simp add: val digits_value_dec signed_def scaled_def)
  moreover have "numeric_string n = Inr ?out"
    using assms by (simp add: numeric_string_def Let_def)
  ultimately show ?thesis using that by simp
qed

text \<open>What \<^verbatim>\<open>Numeric.Scan\<close> documents: the number it stores is the number of the text.\<close>

definition numeric_reads :: "numeric \<Rightarrow> string \<Rightarrow> bool" where
  "numeric_reads n s \<longleftrightarrow> nm_valid n \<and> \<not> nm_nan n
     \<and> (case nm_int n of None \<Rightarrow> False | Some i \<Rightarrow> scaled i (nm_exp n) = decimal_value s)"

lemma numeric_through_driver:
  assumes "numeric_reads n s" "normalize_decimal s = Inr s"
  shows "from_driver lib (DNumeric n) knd = Inr (zero_val\<lparr>val_kind := KindNumeric, val_text := s\<rparr>)"
proof -
  obtain i where i: "nm_valid n" "\<not> nm_nan n" "nm_int n = Some i" "scaled i (nm_exp n) = decimal_value s"
    using assms(1) by (auto simp: numeric_reads_def split: option.splits)
  obtain t where t: "numeric_string n = Inr t" "decimal_ok t" "decimal_value t = decimal_value s"
    using numeric_string_exact [OF i(1-3)] i(4) by metis
  then obtain m where m: "normalize_decimal t = Inr m"
    by (cases "decimal_parts t") (simp add: normalize_decimal_iff)
  have "m = s" by (rule normalize_decimal_unique [OF m assms(2) t(3)])
  with t m show ?thesis by (simp add: from_driver_def canonical_numeric_def numeric_val_def)
qed

end
