(* ===== verification/ValuesProps.thy ===== *)
theory ValuesProps
  imports ValuesFacts
begin

text \<open>
  What the database boundary promises: a primary key decodes to the values it was made from, a value
  written and read back is the same value, and the key predicates mean what they say whatever the names
  of the columns.
\<close>

definition demo_table :: store_table where
  "demo_table = \<lparr>st_id = 1, st_physical = ''sku'',
     st_columns = [\<lparr>ac_id = 1, ac_name = ''id'', ac_type = ''text'', ac_kind = KindText, ac_nullable = False\<rparr>,
       \<lparr>ac_id = 2, ac_name = ''n'', ac_type = ''bigint'', ac_kind = KindInt, ac_nullable = False\<rparr>],
     st_pk = [1, 2]\<rparr>"

text \<open>
  C32: \<^verbatim>\<open>decodePK\<close> inverts \<^verbatim>\<open>MakePK\<close>: the key made of the key columns of a row decodes, for a table with as many
  key columns, without error to values equal to the ones in the row, as long as the key is shorter than
  4 GiB.
\<close>

theorem decode_pk_inverts:
  assumes "make_pk r cols = Some k" "row_fits r" "length k < 2 ^ 32" "length cols = length (st_pk t)"
  shows "\<exists>vs. decode_pk k t = Inr vs \<and> map cell_of vs = tuple_cells r cols
    \<and> list_all2 (\<lambda>v c. val_equal v (row_get r c)) vs cols"
proof -
  note d = decode_made_key [OF assms]
  have "map cell_of (map cell_val (tuple_cells r cols)) = tuple_cells r cols"
    by (simp add: tuple_cells_def cell_of_cell_val)
  moreover have "list_all2 (\<lambda>v c. val_equal v (row_get r c)) (map cell_val (tuple_cells r cols)) cols"
    using d(2) by (simp add: tuple_cells_def list_all2_map1 list.rel_refl_strong cell_val_equal
        list_all2_same)
  ultimately show ?thesis using d(1) by blast
qed

theorem decode_pk_inverts_witness:
  "\<exists>k vs. make_pk sample_row [2, 1] = Some k \<and> decode_pk k demo_table = Inr vs
     \<and> map cell_of vs = [CText ''ab'', CInt 7]"
proof -
  have "\<forall>c \<in> set [2, 1]. val_ok (row_get sample_row c)"
    by (simp add: sample_row_get val_ok_def int_val_def text_val_def zero_val_def)
  then obtain k where k: "make_pk sample_row [2, 1] = Some k"
    and e: "k = be32 (of_nat (length [2, 1 :: colid])) @ concat (map cell_bytes (tuple_cells sample_row [2, 1]))"
    by (metis make_pk_iff)
  have cells: "tuple_cells sample_row [2, 1] = [CText ''ab'', CInt 7]"
    by (simp add: tuple_cells_def sample_row_get cell_of_def int_val_def text_val_def zero_val_def)
  have "length k < 2 ^ 32" by (simp add: e cells)
  then obtain vs where "decode_pk k demo_table = Inr vs" "map cell_of vs = tuple_cells sample_row [2, 1]"
    using decode_pk_inverts [OF k sample_row_fits, of demo_table] by (auto simp: demo_table_def)
  with k cells show ?thesis by auto
qed

subsection \<open>Write and read back\<close>

text \<open>A value as the constructors of the core package build it.\<close>

definition val_normal :: "val \<Rightarrow> bool" where
  "val_normal v \<longleftrightarrow> v = cell_val (cell_of v) \<and> val_ok v
     \<and> (val_kind v = KindNumeric \<longrightarrow> normalize_decimal (val_text v) = Inr (val_text v))"

lemma cell_of_val_kind:
  "val_kind v = KindNumeric \<Longrightarrow> cell_of v = CNumeric (val_text v)"
  "val_kind v = KindText \<Longrightarrow> cell_of v = CText (val_text v)"
  by (simp_all add: cell_of_def)

text \<open>
  \<^verbatim>\<open>fromDriver\<close> inverts \<^verbatim>\<open>bind\<close>: a canonical value written to a column of its kind and read back is the same
  value, so it encodes and hashes the same; decimals are exact, given that \<^verbatim>\<open>Numeric.Scan\<close> reads the number of
  the text it is given. A decimal or text that a driver hands back as characters or as bytes reads the
  same too.
\<close>

theorem bind_reads_back:
  assumes "val_normal v"
    and "val_kind v = KindNumeric \<Longrightarrow> \<exists>n. scan (val_text v) = Some n \<and> numeric_reads n (val_text v)"
  shows "(\<exists>x. bind_value scan v = Inr x \<and> from_driver lib x (val_kind v) = Inr v)
    \<and> (val_kind v \<in> {KindNumeric, KindText} \<longrightarrow>
        from_driver lib (DString (val_text v)) (val_kind v) = Inr v
        \<and> from_driver lib (DBytes (val_text v)) (val_kind v) = Inr v)"
proof -
  have v: "v = cell_val (cell_of v)" and ok: "val_ok v"
    and canon: "val_kind v = KindNumeric \<Longrightarrow> normalize_decimal (val_text v) = Inr (val_text v)"
    using assms(1) by (simp_all add: val_normal_def)
  have txtv: "v = text_val (val_text v)" if "val_kind v = KindText"
    using v cell_of_val_kind(2) [OF that] by simp
  have num: "v = zero_val\<lparr>val_kind := KindNumeric, val_text := val_text v\<rparr>" if "val_kind v = KindNumeric"
    using v cell_of_val_kind(1) [OF that] by simp
  have chars: "from_text lib (val_text v) (val_kind v) = Inr v" if "val_kind v \<in> {KindNumeric, KindText}"
    using that txtv num canon
    by (auto simp: from_text_def canonical_numeric_def numeric_val_def)
  have "\<exists>x. bind_value scan v = Inr x \<and> from_driver lib x (val_kind v) = Inr v"
  proof (cases "val_kind v = KindNumeric")
    case True
    then obtain n where n: "scan (val_text v) = Some n" "numeric_reads n (val_text v)" using assms(2) by blast
    have "from_driver lib (DNumeric n) (val_kind v) = Inr v"
      using numeric_through_driver [OF n(2) canon [OF True]] num [OF True] by simp
    with True n(1) show ?thesis by (simp add: bind_value_def)
  next
    case False
    then show ?thesis
      using v ok txtv chars
      by (cases "val_kind v")
        (auto simp: bind_value_def from_driver_def cell_of_def val_makers val_ok_def)
  qed
  moreover have "from_driver lib (DString (val_text v)) (val_kind v) = Inr v
      \<and> from_driver lib (DBytes (val_text v)) (val_kind v) = Inr v"
    if "val_kind v \<in> {KindNumeric, KindText}"
    using chars [OF that] that by (auto simp: from_driver_def)
  ultimately show ?thesis by blast
qed

theorem bind_reads_back_witness:
  "\<exists>x. bind_value (\<lambda>s. Some \<lparr>nm_int = Some 125, nm_exp = - 1, nm_nan = False, nm_valid = True\<rparr>)
         (zero_val\<lparr>val_kind := KindNumeric, val_text := ''12.5''\<rparr>) = Inr x
     \<and> from_driver \<lparr>lib_float = \<lambda>_. None, lib_time = \<lambda>_ _. None\<rparr> x KindNumeric
         = Inr (zero_val\<lparr>val_kind := KindNumeric, val_text := ''12.5''\<rparr>)"
proof -
  let ?v = "zero_val\<lparr>val_kind := KindNumeric, val_text := ''12.5''\<rparr>"
  let ?n = "\<lparr>nm_int = Some 125, nm_exp = - 1, nm_nan = False, nm_valid = True\<rparr>"
  have canon: "normalize_decimal ''12.5'' = Inr ''12.5''" by code_simp
  have "decimal_value ''12.5'' = 125 / 10" by code_simp
  then have reads: "numeric_reads ?n ''12.5''" by (simp add: numeric_reads_def scaled_def)
  have normal: "val_normal ?v" using canon by (simp add: val_normal_def cell_of_def val_ok_def zero_val_def)
  show ?thesis
    using bind_reads_back [OF normal, of "\<lambda>s. Some ?n" "\<lparr>lib_float = \<lambda>_. None, lib_time = \<lambda>_ _. None\<rparr>"] reads
    by (simp add: zero_val_def)
qed

subsection \<open>Key predicates\<close>

lemma quote_body_pieces:
  assumes "rest = [] \<or> hd rest \<noteq> dquote_char"
  shows "pg_pieces InIdent (concat (map (\<lambda>c. if c = dquote_char then [dquote_char, dquote_char] else [c]) s)
      @ dquote_char # rest) = map IdChar s @ IdClose # pg_pieces Plain rest"
  using assms by (induction s) (cases rest; simp)+

lemma quote_pieces:
  "rest = [] \<or> hd rest \<noteq> dquote_char \<Longrightarrow>
     pg_pieces Plain (quote_ident s @ rest) = IdOpen # map IdChar s @ IdClose # pg_pieces Plain rest"
  by (simp add: quote_ident_def quote_body_pieces)

definition plain_code :: "char \<Rightarrow> bool" where
  "plain_code c \<longleftrightarrow> c \<notin> {quote_char, dquote_char, CHR ''$''}"

lemma code_pieces: "list_all plain_code s \<Longrightarrow> pg_pieces Plain (s @ rest) = map Code s @ pg_pieces Plain rest"
  by (induction s) (auto simp: plain_code_def)

lemma digit_char_is_digit: "digit_char c = is_digit c"
  by (simp add: digit_char_def is_digit_def)

lemma hole_pieces:
  assumes "rest = [] \<or> \<not> digit_char (hd rest)" "int n \<le> max_int64"
  shows "pg_pieces Plain (CHR ''$'' # dec_digits n @ rest) = Hole (int n) # pg_pieces Plain rest"
proof -
  have d: "list_all digit_char (dec_digits n)" "digit_char (hd (dec_digits n @ rest))"
    using dec_digits_is_digit [of n] dec_digits_nonempty [of n]
    by (simp_all add: digit_char_is_digit list_all_iff)
  then have "takeWhile digit_char (dec_digits n @ rest) = dec_digits n"
    "dropWhile digit_char (dec_digits n @ rest) = rest"
    using assms(1) by (cases rest; auto simp: list_all_iff)+
  moreover have "atoi (dec_digits n) = int n" using assms(2) by (simp add: atoi_def dec_value_digits)
  ultimately show ?thesis using d(2) by simp
qed

text \<open>The predicate as it should read: each quoted name compared with its own placeholder.\<close>

definition test_pieces :: "string \<Rightarrow> nat \<Rightarrow> piece list" where
  "test_pieces name n = IdOpen # map IdChar name @ IdClose # map Code '' = '' @ [Hole (int n)]"

fun key_pieces :: "string list \<Rightarrow> nat \<Rightarrow> piece list" where
  "key_pieces [] n = []"
| "key_pieces [name] n = test_pieces name n"
| "key_pieces (name # names) n = test_pieces name n @ map Code '' AND '' @ key_pieces names (Suc n)"

definition key_test :: "string \<Rightarrow> nat \<Rightarrow> string" where
  "key_test name n = quote_ident name @ '' = $'' @ dec_digits n"

lemma test_reads:
  assumes "rest = [] \<or> \<not> digit_char (hd rest)" "int n \<le> max_int64"
  shows "pg_pieces Plain (key_test name n @ rest) = test_pieces name n @ pg_pieces Plain rest"
proof -
  have "pg_pieces Plain (key_test name n @ rest)
      = IdOpen # map IdChar name @ IdClose # pg_pieces Plain ('' = '' @ CHR ''$'' # dec_digits n @ rest)"
    using quote_pieces [of "'' = $'' @ dec_digits n @ rest" name] by (simp add: key_test_def dquote_char_def)
  also have "pg_pieces Plain ('' = '' @ CHR ''$'' # dec_digits n @ rest)
      = map Code '' = '' @ Hole (int n) # pg_pieces Plain rest"
    using code_pieces [of "'' = ''"] hole_pieces [OF assms]
    by (simp add: plain_code_def quote_char_def dquote_char_def)
  finally show ?thesis by (simp add: test_pieces_def)
qed

lemma and_reads: "pg_pieces Plain ('' AND '' @ x) = map Code '' AND '' @ pg_pieces Plain x"
  by (rule code_pieces) (simp add: plain_code_def quote_char_def dquote_char_def)

lemma test_and_reads:
  assumes "int n \<le> max_int64"
  shows "pg_pieces Plain (key_test name n @ '' AND '' @ x)
    = test_pieces name n @ map Code '' AND '' @ pg_pieces Plain x"
proof -
  have "\<not> digit_char (hd ('' AND '' @ x))" by (simp add: digit_char_def less_eq_char_def)
  then have "pg_pieces Plain (key_test name n @ '' AND '' @ x)
      = test_pieces name n @ pg_pieces Plain ('' AND '' @ x)" by (intro test_reads disjI2 assms)
  then show ?thesis by (simp only: and_reads)
qed

lemma join_and_step: "ps \<noteq> [] \<Longrightarrow> join_and (p # ps) = p @ '' AND '' @ join_and ps"
  by (cases ps) simp_all

lemma key_tests_step:
  "map (\<lambda>i. key_test ((name # names) ! i) (n + i)) [0..<length (name # names)]
     = key_test name n # map (\<lambda>i. key_test (names ! i) (Suc n + i)) [0..<length names]"
proof -
  have "[0..<length (name # names)] = 0 # map Suc [0..<length names]"
    by (simp add: map_Suc_upt upt_conv_Cons del: upt_Suc)
  then show ?thesis by simp
qed

lemma key_reads:
  "int (start + length names) \<le> max_int64 \<Longrightarrow>
     pg_pieces Plain (join_and (map (\<lambda>i. key_test (names ! i) (start + i)) [0..<length names]))
       = key_pieces names start"
proof (induction names start rule: key_pieces.induct)
  case (2 name n)
  then show ?case using test_reads [of "[]" n name] by simp
next
  case (3 name m names n)
  let ?rest = "map (\<lambda>i. key_test ((m # names) ! i) (Suc n + i)) [0..<length (m # names)]"
  have ih: "pg_pieces Plain (join_and ?rest) = key_pieces (m # names) (Suc n)"
    by (rule "3.IH") (use "3.prems" in simp)
  have ne: "?rest \<noteq> []" and n: "int n \<le> max_int64" using "3.prems" by simp_all
  have "pg_pieces Plain (join_and (key_test name n # ?rest))
      = test_pieces name n @ map Code '' AND '' @ key_pieces (m # names) (Suc n)"
    unfolding join_and_step [OF ne] test_and_reads [OF n] ih ..
  then show ?case unfolding key_tests_step [of name "m # names"] key_pieces.simps(3) .
qed simp

text \<open>
  \<^verbatim>\<open>pkWhere\<close> cannot be injected into: for a table whose key has as many columns as values are given, the
  predicate PostgreSQL reads is the conjunction that compares each key column, under exactly its name
  whatever characters it has, with the placeholder of its own position, and one argument is bound to each.
\<close>

theorem pk_where_reads:
  assumes "length vals = length (st_pk t)" "int (start + length vals) \<le> max_int64"
  shows "\<exists>sql args. pk_where scan t vals start = Some (sql, args)
    \<and> pg_pieces Plain sql
        = key_pieces (map (\<lambda>i. case table_column t i of Some c \<Rightarrow> ac_name c | None \<Rightarrow> []) (st_pk t)) start
    \<and> args = map (bind_or_nil scan) vals"
proof -
  let ?names = "map (\<lambda>i. case table_column t i of Some c \<Rightarrow> ac_name c | None \<Rightarrow> []) (st_pk t)"
  have len: "length ?names = length vals" using assms(1) by simp
  have "map (\<lambda>i. bind_or_nil scan (vals ! i)) [0..<length vals] = map (bind_or_nil scan) vals"
    by (rule nth_equalityI) simp_all
  moreover have "int (start + length ?names) \<le> max_int64" using assms by simp
  then have "pg_pieces Plain (fst (key_where scan ?names vals start)) = key_pieces ?names start"
    using key_reads [of start ?names] by (simp only: key_where_def fst_conv key_test_def)
  ultimately show ?thesis
    using assms(1) len by (simp add: pk_where_def key_where_def)
qed

theorem pk_where_reads_witness:
  "\<exists>sql args. pk_where (\<lambda>_. None) demo_table [text_val ''a'', int_val 7] 3 = Some (sql, args)
     \<and> pg_pieces Plain sql = test_pieces ''id'' 3 @ map Code '' AND '' @ test_pieces ''n'' 4
     \<and> args = [DString ''a'', DInt64 7]"
  using pk_where_reads [of "[text_val ''a'', int_val 7]" demo_table 3 "\<lambda>_. None"]
  by (simp add: demo_table_def table_column_def max_int64_def bind_or_nil_def bind_value_def
      text_val_def int_val_def zero_val_def)

end
