(* ===== verification/PredicateDefs.thy ===== *)
theory PredicateDefs
  imports ValuesDefs "HOL-Library.Signed_Division"
begin

text \<open>
  Predicate updates and merge validation, after \<^verbatim>\<open>internal/store/predicate.go\<close>: the closed assignment
  grammar and its evaluation, exact arithmetic on decimals, the change sets of predicate updates and
  deletes, and the constraint check of a merge. The rows a predicate selects, the state of the branch and
  the unique indexes of the live table come from the database and are arguments here. A \<^verbatim>\<open>big.Rat\<close> is a
  \<^typ>\<open>rat\<close>; the formatting of floats, times and quoted strings is a parameter.
\<close>

datatype predicate_error =
    NotANumber string | CannotConvertFloat u64 | NoArithmetic kind | UnsupportedOp u8
  | UnsupportedComparison | UnsupportedExpr | AssignError colid predicate_error
  | BadNumeric core_error | EncodePanic

subsection \<open>Printing values\<close>

record text_lib =
  tx_float_g :: "u64 \<Rightarrow> string"
  tx_float_f :: "u64 \<Rightarrow> string"
  tx_time :: "i64 \<Rightarrow> string"
  tx_quote :: "string \<Rightarrow> string"

definition int_text :: "int \<Rightarrow> string" where
  "int_text i = (if i < 0 then CHR ''-'' # dec_digits (nat (- i)) else dec_digits (nat i))"

definition hex_text :: "bytes \<Rightarrow> string" where
  "hex_text b = concat (map (\<lambda>c. [hex_digit (of_char c div 16), hex_digit (of_char c mod 16)]) b)"

definition value_string :: "text_lib \<Rightarrow> val \<Rightarrow> string" where
  "value_string lib v =
     (case val_kind v of
        KindNull \<Rightarrow> ''NULL''
      | KindBool \<Rightarrow> if val_bool v then ''true'' else ''false''
      | KindInt \<Rightarrow> int_text (sint (val_int v))
      | KindFloat \<Rightarrow> tx_float_g lib (val_float v)
      | KindNumeric \<Rightarrow> val_text v
      | KindText \<Rightarrow> tx_quote lib (val_text v)
      | KindBytes \<Rightarrow> ''0x'' @ hex_text (val_bytes v)
      | KindTime \<Rightarrow> tx_time lib (val_int v)
      | KindOther _ \<Rightarrow> ''?'')"

definition value_plain :: "text_lib \<Rightarrow> val \<Rightarrow> string" where
  "value_plain lib v =
     (case val_kind v of
        KindText \<Rightarrow> val_text v
      | KindNumeric \<Rightarrow> val_text v
      | KindNull \<Rightarrow> []
      | _ \<Rightarrow> value_string lib v)"

definition plain_string :: "text_lib \<Rightarrow> val \<Rightarrow> string" where
  "plain_string lib v = (if val_kind v = KindText then val_text v else value_string lib v)"

subsection \<open>Exact decimals\<close>

text \<open>
  \<^verbatim>\<open>Rat.SetString\<close> on plain decimals, which is what the code stores and formats; the exponent, fraction
  and prefixed forms that it also takes do not occur.
\<close>

definition rat_of_text :: "string \<Rightarrow> rat option" where
  "rat_of_text s =
     (let (neg, t) = split_sign s; (ip, fp) = split_point t in
      if ip @ fp = [] \<or> \<not> list_all is_digit (ip @ fp) then None
      else Some (if neg then - frac_value ip fp else frac_value ip fp))"

definition to_rat :: "text_lib \<Rightarrow> val \<Rightarrow> predicate_error + rat" where
  "to_rat lib v =
     (case val_kind v of
        KindInt \<Rightarrow> Inr (of_int (sint (val_int v)))
      | KindNumeric \<Rightarrow> (case rat_of_text (val_text v) of
          None \<Rightarrow> Inl (NotANumber (val_text v)) | Some r \<Rightarrow> Inr r)
      | KindFloat \<Rightarrow> (case rat_of_text (tx_float_f lib (val_float v)) of
          None \<Rightarrow> Inl (CannotConvertFloat (val_float v)) | Some r \<Rightarrow> Inr r)
      | k \<Rightarrow> Inl (NoArithmetic k))"

definition rat_precision :: nat where "rat_precision = 12"

text \<open>\<^verbatim>\<open>FloatString(prec)\<close>: rounded to the nearest last digit, halves away from zero.\<close>

definition round_half_away :: "rat \<Rightarrow> nat" where
  "round_half_away q = nat \<lfloor>q + 1 / 2\<rfloor>"

definition float_string :: "nat \<Rightarrow> rat \<Rightarrow> string" where
  "float_string prec r =
     (let n = round_half_away (\<bar>r\<bar> * 10 ^ prec);
          frac = dec_digits (n mod 10 ^ prec)
      in (if r < 0 then ''-'' else []) @ dec_digits (n div 10 ^ prec) @ ''.''
         @ replicate (prec - length frac) (CHR ''0'') @ frac)"

definition rat_is_int :: "rat \<Rightarrow> bool" where
  "rat_is_int r \<longleftrightarrow> snd (quotient_of r) = 1"

definition trim_right :: "char \<Rightarrow> string \<Rightarrow> string" where
  "trim_right c s = rev (dropWhile (\<lambda>d. d = c) (rev s))"

definition rat_string :: "rat \<Rightarrow> string" where
  "rat_string r =
     (if rat_is_int r then int_text (fst (quotient_of r))
      else trim_right (CHR ''.'') (trim_right (CHR ''0'') (float_string rat_precision r)))"

subsection \<open>Arithmetic\<close>

datatype arith_op = OpAdd | OpSub | OpMul | OpDiv | OpUnknown u8

definition int_arith :: "i64 \<Rightarrow> arith_op \<Rightarrow> i64 \<Rightarrow> val option" where
  "int_arith a o' b =
     (case o' of
        OpAdd \<Rightarrow> Some (int_val (a + b))
      | OpSub \<Rightarrow> Some (int_val (a - b))
      | OpMul \<Rightarrow> Some (int_val (a * b))
      | OpDiv \<Rightarrow> Some (if b = 0 then null_val else int_val (of_int (sint a sdiv sint b)))
      | OpUnknown _ \<Rightarrow> None)"

definition rat_arith :: "rat \<Rightarrow> arith_op \<Rightarrow> rat \<Rightarrow> predicate_error + rat option" where
  "rat_arith a o' b =
     (case o' of
        OpAdd \<Rightarrow> Inr (Some (a + b))
      | OpSub \<Rightarrow> Inr (Some (a - b))
      | OpMul \<Rightarrow> Inr (Some (a * b))
      | OpDiv \<Rightarrow> Inr (if b = 0 then None else Some (a / b))
      | OpUnknown n \<Rightarrow> Inl (UnsupportedOp n))"

definition numeric_of_rat :: "rat \<Rightarrow> predicate_error + val" where
  "numeric_of_rat r = (case numeric_val (rat_string r) of Inl e \<Rightarrow> Inl (BadNumeric e) | Inr v \<Rightarrow> Inr v)"

definition arith_exact :: "text_lib \<Rightarrow> val \<Rightarrow> arith_op \<Rightarrow> val \<Rightarrow> predicate_error + val" where
  "arith_exact lib l o' r =
     (case to_rat lib l of
        Inl e \<Rightarrow> Inl e
      | Inr a \<Rightarrow> (case to_rat lib r of
          Inl e \<Rightarrow> Inl e
        | Inr b \<Rightarrow> (case rat_arith a o' b of
            Inl e \<Rightarrow> Inl e
          | Inr None \<Rightarrow> Inr null_val
          | Inr (Some q) \<Rightarrow> numeric_of_rat q)))"

definition arith_val :: "text_lib \<Rightarrow> val \<Rightarrow> arith_op \<Rightarrow> val \<Rightarrow> predicate_error + val" where
  "arith_val lib l o' r =
     (if val_is_null l \<or> val_is_null r then Inr null_val
      else case (if val_kind l = KindInt \<and> val_kind r = KindInt then int_arith (val_int l) o' (val_int r)
                 else None) of
        Some v \<Rightarrow> Inr v
      | None \<Rightarrow> arith_exact lib l o' r)"

subsection \<open>Predicates\<close>

datatype compare_op = CmpEq | CmpNe | CmpLt | CmpLe | CmpGt | CmpGe | CmpLike | CmpOther u8

datatype expr =
    Compare colid compare_op val | In_list colid "val list" | Is_null colid
  | And_all "expr list" | Or_any "expr list" | Not_expr expr

definition string_compare :: "string \<Rightarrow> string \<Rightarrow> int" where
  "string_compare a b = (if a < b then - 1 else if a = b then 0 else 1)"

definition compare_values :: "text_lib \<Rightarrow> val \<Rightarrow> val \<Rightarrow> predicate_error + int" where
  "compare_values lib a b =
     (if val_is_null a \<or> val_is_null b then Inr 0
      else if val_kind a = KindInt \<and> val_kind b = KindInt then
        Inr (if sint (val_int a) < sint (val_int b) then - 1
             else if sint (val_int b) < sint (val_int a) then 1 else 0)
      else if val_kind a = KindText \<and> val_kind b = KindText then
        Inr (string_compare (val_text a) (val_text b))
      else case to_rat lib a of
        Inl e \<Rightarrow> Inl e
      | Inr x \<Rightarrow> (case to_rat lib b of
          Inl e \<Rightarrow> Inl e
        | Inr y \<Rightarrow> Inr (if x < y then - 1 else if y < x then 1 else 0)))"

definition eval_compare :: "text_lib \<Rightarrow> val \<Rightarrow> compare_op \<Rightarrow> val \<Rightarrow> predicate_error + bool" where
  "eval_compare lib got o' v =
     (case o' of
        CmpEq \<Rightarrow> Inr (val_equal got v)
      | CmpNe \<Rightarrow> Inr (\<not> val_equal got v)
      | _ \<Rightarrow> (case compare_values lib got v of
          Inl e \<Rightarrow> Inl e
        | Inr c \<Rightarrow> (case o' of
            CmpLt \<Rightarrow> Inr (c < 0)
          | CmpLe \<Rightarrow> Inr (c \<le> 0)
          | CmpGt \<Rightarrow> Inr (0 < c)
          | CmpGe \<Rightarrow> Inr (0 \<le> c)
          | _ \<Rightarrow> Inl UnsupportedComparison)))"

primrec eval_predicate :: "text_lib \<Rightarrow> row \<Rightarrow> expr \<Rightarrow> predicate_error + bool"
  and eval_all :: "text_lib \<Rightarrow> row \<Rightarrow> expr list \<Rightarrow> predicate_error + bool"
  and eval_any :: "text_lib \<Rightarrow> row \<Rightarrow> expr list \<Rightarrow> predicate_error + bool" where
  "eval_predicate lib r (Compare c o' v) = eval_compare lib (row_get r c) o' v"
| "eval_predicate lib r (In_list c vs) = Inr (list_ex (val_equal (row_get r c)) vs)"
| "eval_predicate lib r (Is_null c) = Inr (val_is_null (row_get r c))"
| "eval_predicate lib r (And_all es) = eval_all lib r es"
| "eval_predicate lib r (Or_any es) = eval_any lib r es"
| "eval_predicate lib r (Not_expr e) =
     (case eval_predicate lib r e of Inl x \<Rightarrow> Inl x | Inr b \<Rightarrow> Inr (\<not> b))"
| "eval_all lib r [] = Inr True"
| "eval_all lib r (e # es) =
     (case eval_predicate lib r e of
        Inl x \<Rightarrow> Inl x | Inr b \<Rightarrow> if \<not> b then Inr False else eval_all lib r es)"
| "eval_any lib r [] = Inr False"
| "eval_any lib r (e # es) =
     (case eval_predicate lib r e of
        Inl x \<Rightarrow> Inl x | Inr b \<Rightarrow> if b then Inr True else eval_any lib r es)"

subsection \<open>Assignments\<close>

text \<open>\<open>NoExpr\<close> is a nil \<^verbatim>\<open>AssignExpr\<close>; the else branch of a \<^verbatim>\<open>CASE\<close> may be one.\<close>

datatype assign_expr =
    ConstExpr val | ColRef colid | Arith assign_expr arith_op assign_expr
  | Concat "assign_expr list" | Coalesce "assign_expr list"
  | Case "(expr \<times> assign_expr) list" assign_expr | NoExpr

text \<open>The arms of a \<^verbatim>\<open>CASE\<close> give the value of the first that matches, if one does.\<close>

primrec eval_assign :: "text_lib \<Rightarrow> row \<Rightarrow> assign_expr \<Rightarrow> predicate_error + val"
  and eval_concat :: "text_lib \<Rightarrow> row \<Rightarrow> string \<Rightarrow> assign_expr list \<Rightarrow> predicate_error + val"
  and eval_coalesce :: "text_lib \<Rightarrow> row \<Rightarrow> assign_expr list \<Rightarrow> predicate_error + val"
  and eval_arms :: "text_lib \<Rightarrow> row \<Rightarrow> (expr \<times> assign_expr) list \<Rightarrow> predicate_error + val option"
  and eval_arm :: "text_lib \<Rightarrow> row \<Rightarrow> expr \<times> assign_expr \<Rightarrow> predicate_error + val option" where
  "eval_assign lib r (ConstExpr v) = Inr v"
| "eval_assign lib r (ColRef c) = Inr (row_get r c)"
| "eval_assign lib r (Arith a o' b) =
     (case eval_assign lib r a of
        Inl e \<Rightarrow> Inl e
      | Inr x \<Rightarrow> (case eval_assign lib r b of Inl e \<Rightarrow> Inl e | Inr y \<Rightarrow> arith_val lib x o' y))"
| "eval_assign lib r (Concat ps) = eval_concat lib r [] ps"
| "eval_assign lib r (Coalesce ts) = eval_coalesce lib r ts"
| "eval_assign lib r (Case arms d) =
     (case eval_arms lib r arms of
        Inl e \<Rightarrow> Inl e
      | Inr (Some v) \<Rightarrow> Inr v
      | Inr None \<Rightarrow> if d \<noteq> NoExpr then eval_assign lib r d else Inr null_val)"
| "eval_assign lib r NoExpr = Inl UnsupportedExpr"
| "eval_concat lib r buf [] = Inr (text_val buf)"
| "eval_concat lib r buf (p # ps) =
     (case eval_assign lib r p of
        Inl e \<Rightarrow> Inl e
      | Inr v \<Rightarrow> if val_is_null v then Inr null_val else eval_concat lib r (buf @ plain_string lib v) ps)"
| "eval_coalesce lib r [] = Inr null_val"
| "eval_coalesce lib r (t # ts) =
     (case eval_assign lib r t of
        Inl e \<Rightarrow> Inl e | Inr v \<Rightarrow> if \<not> val_is_null v then Inr v else eval_coalesce lib r ts)"
| "eval_arms lib r [] = Inr None"
| "eval_arms lib r (a # arms) =
     (case eval_arm lib r a of
        Inl x \<Rightarrow> Inl x | Inr (Some v) \<Rightarrow> Inr (Some v) | Inr None \<Rightarrow> eval_arms lib r arms)"
| "eval_arm lib r (c, e) =
     (case eval_predicate lib r c of
        Inl x \<Rightarrow> Inl x
      | Inr b \<Rightarrow> if b then (case eval_assign lib r e of Inl x \<Rightarrow> Inl x | Inr v \<Rightarrow> Inr (Some v))
                else Inr None)"

subsection \<open>Planning predicate updates and deletes\<close>

record assignment =
  as_col :: colid
  as_expr :: assign_expr

record store_change =
  sc_pk' :: pk
  sc_op :: op
  sc_row :: row

definition set_col :: "colid \<Rightarrow> val \<Rightarrow> row \<Rightarrow> row" where
  "set_col c v r = (case r of None \<Rightarrow> Some (fmupd c v fmempty) | Some m \<Rightarrow> Some (fmupd c v m))"

text \<open>Every expression is evaluated on the resolved row; the results go into its clone.\<close>

fun apply_assigns :: "text_lib \<Rightarrow> row \<Rightarrow> row \<Rightarrow> assignment list \<Rightarrow> predicate_error + row" where
  "apply_assigns lib r nxt [] = Inr nxt"
| "apply_assigns lib r nxt (a # as) =
     (case eval_assign lib r (as_expr a) of
        Inl e \<Rightarrow> Inl (AssignError (as_col a) e)
      | Inr v \<Rightarrow> apply_assigns lib r (set_col (as_col a) v nxt) as)"

text \<open>The loops over the rows read; a key that does not encode is the panic of \<^verbatim>\<open>MakePK\<close>.\<close>

fun plan_updates :: "text_lib \<Rightarrow> colid list \<Rightarrow> assignment list \<Rightarrow> row list
    \<Rightarrow> predicate_error + store_change list" where
  "plan_updates lib pk_cols as [] = Inr []"
| "plan_updates lib pk_cols as (r # rs) =
     (case apply_assigns lib r r as of
        Inl e \<Rightarrow> Inl e
      | Inr nxt \<Rightarrow>
          if row_equal nxt r then plan_updates lib pk_cols as rs
          else (case make_pk r pk_cols of
            None \<Rightarrow> Inl EncodePanic
          | Some k \<Rightarrow> (case plan_updates lib pk_cols as rs of
              Inl e \<Rightarrow> Inl e
            | Inr out \<Rightarrow> Inr (\<lparr>sc_pk' = k, sc_op = OpUpdate, sc_row = nxt\<rparr> # out))))"

fun plan_deletes :: "colid list \<Rightarrow> row list \<Rightarrow> predicate_error + store_change list" where
  "plan_deletes pk_cols [] = Inr []"
| "plan_deletes pk_cols (r # rs) =
     (case make_pk r pk_cols of
        None \<Rightarrow> Inl EncodePanic
      | Some k \<Rightarrow> (case plan_deletes pk_cols rs of
          Inl e \<Rightarrow> Inl e | Inr out \<Rightarrow> Inr (\<lparr>sc_pk' = k, sc_op = OpDelete, sc_row = None\<rparr> # out)))"

subsection \<open>Validating a merge\<close>

record violation =
  vi_kind :: string
  vi_detail :: string
  vi_message :: string
  vi_pks :: "pk list"

record unique_index =
  ui_name :: string
  ui_cols :: "colid list"

definition merged_state :: "(pk, row) fmap \<Rightarrow> store_change list \<Rightarrow> (pk, row) fmap" where
  "merged_state current changes =
     foldl (\<lambda>m ch. if sc_op ch = OpDelete then fmdrop (sc_pk' ch) m else fmupd (sc_pk' ch) (sc_row ch) m)
       current changes"

definition state_row :: "(pk, row) fmap \<Rightarrow> pk \<Rightarrow> row" where
  "state_row m k = (case fmlookup m k of Some r \<Rightarrow> r | None \<Rightarrow> None)"

definition null_message :: "nat \<Rightarrow> string \<Rightarrow> string" where
  "null_message n column =
     dec_digits n @ '' row(s) would leave '' @ column @ '' null, which the table forbids''"

definition unique_message :: "nat \<Rightarrow> string \<Rightarrow> string" where
  "unique_message n index = dec_digits n @ '' rows would share a value under unique index '' @ index"

definition null_violation :: "(pk, row) fmap \<Rightarrow> acolumn \<Rightarrow> violation option" where
  "null_violation current c =
     (let bad = filter (\<lambda>k. val_is_null (row_get (state_row current k) (ac_id c))) (fm_keys current)
      in if ac_nullable c \<or> bad = [] then None
         else Some \<lparr>vi_kind = ''not_null'', vi_detail = ac_name c,
                   vi_message = null_message (length bad) (ac_name c), vi_pks = bad\<rparr>)"

text \<open>The string a row has under an index: \<open>Inr None\<close> when one of its columns is null, a panic is an error.\<close>

fun index_key :: "bytes \<Rightarrow> row \<Rightarrow> colid list \<Rightarrow> predicate_error + bytes option" where
  "index_key buf r [] = Inr (Some buf)"
| "index_key buf r (c # cs) =
     (let v = row_get r c in
      if val_is_null v then Inr None
      else case val_must_encode v [] of
        None \<Rightarrow> Inl EncodePanic
      | Some b \<Rightarrow> index_key (buf @ b @ ''|'') r cs)"

fun collect_seen :: "(pk, row) fmap \<Rightarrow> colid list \<Rightarrow> pk list \<Rightarrow> (bytes, pk list) fmap
    \<Rightarrow> predicate_error + (bytes, pk list) fmap" where
  "collect_seen current cols [] seen = Inr seen"
| "collect_seen current cols (k # ks) seen =
     (case index_key [] (state_row current k) cols of
        Inl e \<Rightarrow> Inl e
      | Inr None \<Rightarrow> collect_seen current cols ks seen
      | Inr (Some b) \<Rightarrow>
          collect_seen current cols ks
            (fmupd b ((case fmlookup seen b of Some ps \<Rightarrow> ps | None \<Rightarrow> []) @ [k]) seen))"

definition unique_violations :: "(pk, row) fmap \<Rightarrow> unique_index \<Rightarrow> predicate_error + violation list" where
  "unique_violations current u =
     (case collect_seen current (ui_cols u) (fm_keys current) fmempty of
        Inl e \<Rightarrow> Inl e
      | Inr seen \<Rightarrow> Inr (List.map_filter
          (\<lambda>b. case fmlookup seen b of
             Some pks \<Rightarrow> if length pks > 1
               then Some \<lparr>vi_kind = ''unique'', vi_detail = ui_name u,
                         vi_message = unique_message (length pks) (ui_name u), vi_pks = pks\<rparr> else None
           | None \<Rightarrow> None) (fm_keys seen)))"

fun all_unique_violations :: "(pk, row) fmap \<Rightarrow> unique_index list \<Rightarrow> predicate_error + violation list" where
  "all_unique_violations current [] = Inr []"
| "all_unique_violations current (u # us) =
     (case unique_violations current u of
        Inl e \<Rightarrow> Inl e
      | Inr vs \<Rightarrow> (case all_unique_violations current us of Inl e \<Rightarrow> Inl e | Inr ws \<Rightarrow> Inr (vs @ ws)))"

text \<open>
  \<^verbatim>\<open>uniqueIndexes\<close>: the unique indexes the adapter reports of the live table, by column name, as column ids; a
  name that is not a column of the tracked table is skipped and the index kept.
\<close>

type_synonym live_index = "string \<times> string list"

definition index_column :: "store_table \<Rightarrow> string \<Rightarrow> colid option" where
  "index_column t = map_of (rev (map (\<lambda>c. (ac_name c, ac_id c)) (st_columns t)))"

definition unique_indexes :: "store_table \<Rightarrow> live_index list \<Rightarrow> unique_index list" where
  "unique_indexes t idx =
     map (\<lambda>(n, cols). \<lparr>ui_name = n, ui_cols = List.map_filter (index_column t) cols\<rparr>) idx"

definition validate_merge :: "store_table \<Rightarrow> (pk, row) fmap \<Rightarrow> store_change list \<Rightarrow> live_index list
    \<Rightarrow> predicate_error + violation list" where
  "validate_merge t current0 changes idx =
     (let current = merged_state current0 changes;
          nulls = List.map_filter (null_violation current) (st_columns t)
      in case all_unique_violations current (unique_indexes t idx) of
           Inl e \<Rightarrow> Inl e | Inr vs \<Rightarrow> Inr (nulls @ vs))"

end
