(* ===== verification/PredicateProps.thy ===== *)
theory PredicateProps
  imports PredicateDefs
begin

text \<open>
  Properties of predicate updates and merge validation: the decimal text of a computed rational denotes
  it to the last printed digit, and a merge validates exactly when the merged table satisfies the
  table's NOT NULL columns and unique indexes.
\<close>

subsection \<open>The text of a rational\<close>

definition sign_text :: "bool \<Rightarrow> string" where
  "sign_text neg = (if neg then ''-'' else [])"

definition point_text :: "string \<Rightarrow> string" where
  "point_text fp = (if fp \<noteq> [] then ''.'' @ fp else [])"

lemma plain_decimal:
  fixes neg :: bool
  assumes d: "list_all is_digit (ip @ fp)" and ne: "ip \<noteq> []"
  defines "t \<equiv> sign_text neg @ ip @ point_text fp"
  shows "decimal_value t = signed neg (frac_value ip fp)" "\<exists>n. normalize_decimal t = Inr n"
proof -
  have hd: "is_digit (hd ip)" "hd ip \<noteq> CHR ''+''" "hd ip \<noteq> CHR ''-''"
    using d ne is_digit_not by (cases ip; auto simp: is_digit_def)+
  have "is_digit (last (ip @ point_text fp))"
    using d ne by (auto simp: point_text_def list_all_iff)
  then have l: "is_digit (last t)" using ne by (auto simp: t_def)
  have h: "is_digit (hd t) \<or> hd t = CHR ''-''" using hd ne by (auto simp: t_def sign_text_def)
  have trim: "trim_space t = t"
    by (rule trim_space_id) (use h l ne in \<open>auto simp: t_def\<close>)
  have sign: "split_sign t = (neg, ip @ point_text fp)"
    using hd ne by (cases ip) (auto simp: t_def split_sign_def sign_text_def)
  have "\<forall>c \<in> set ip. c \<noteq> CHR ''.''" using d is_digit_not by (auto simp: list_all_iff)
  then have point: "split_point (ip @ point_text fp) = (ip, fp)"
    using split_point_plain split_point_dot by (auto simp: point_text_def)
  have parts: "decimal_parts t = (neg, ip, fp)"
    by (simp add: decimal_parts_def trim sign point)
  then show "decimal_value t = signed neg (frac_value ip fp)"
    by (simp add: decimal_value_parts signed_def)
  have "decimal_ok t" using parts d ne trim by (auto simp: decimal_ok_def t_def)
  then show "\<exists>n. normalize_decimal t = Inr n" using parts by (simp add: normalize_decimal_iff)
qed

lemma int_text_decimal:
  "decimal_value (int_text i) = of_int i" "\<exists>n. normalize_decimal (int_text i) = Inr n"
proof -
  have t: "int_text i = sign_text (i < 0) @ dec_digits (nat \<bar>i\<bar>) @ point_text []"
    by (simp add: int_text_def sign_text_def point_text_def)
  have d: "list_all is_digit (dec_digits (nat \<bar>i\<bar>) @ [])" by (simp add: dec_digits_is_digit)
  show "decimal_value (int_text i) = of_int i"
    using plain_decimal(1) [OF d dec_digits_nonempty, of "i < 0"]
    by (auto simp: t signed_def frac_value_def digits_value_dec)
  show "\<exists>n. normalize_decimal (int_text i) = Inr n"
    unfolding t by (rule plain_decimal(2) [OF d dec_digits_nonempty])
qed

lemma trim_right_zeros_alt: "trim_right (CHR ''0'') s = trim_right_zeros s"
  by (simp add: trim_right_def trim_right_zeros_def)

lemma trim_right_zeros_append:
  "trim_right_zeros (s @ t) = (if trim_right_zeros t = [] then trim_right_zeros s else s @ trim_right_zeros t)"
  by (auto simp: trim_right_zeros_def dropWhile_append)

lemma trim_right_last: "s \<noteq> [] \<Longrightarrow> last s \<noteq> c \<Longrightarrow> trim_right c s = s"
  by (cases s rule: rev_cases) (auto simp: trim_right_def)

definition fixed_parts :: "nat \<Rightarrow> rat \<Rightarrow> string \<times> string" where
  "fixed_parts prec r =
     (let n = round_half_away (\<bar>r\<bar> * 10 ^ prec); fr = dec_digits (n mod 10 ^ prec)
      in (dec_digits (n div 10 ^ prec), replicate (prec - length fr) (CHR ''0'') @ fr))"

lemma float_string_parts:
  "fixed_parts prec r = (ip, fp) \<Longrightarrow> float_string prec r = sign_text (r < 0) @ ip @ ''.'' @ fp"
  by (auto simp: float_string_def fixed_parts_def sign_text_def Let_def)

lemma length_dec_digits: "0 < k \<Longrightarrow> n < 10 ^ k \<Longrightarrow> length (dec_digits n) \<le> k"
proof (induction n arbitrary: k rule: dec_digits.induct)
  case (1 n)
  show ?case
  proof (cases "n < 10")
    case True
    then show ?thesis using "1.prems" by (subst dec_digits.simps) simp
  next
    case False
    then have k: "1 < k" using "1.prems" by (cases k; cases "k - 1") auto
    then have "n div 10 < 10 ^ (k - 1)"
      using "1.prems" by (cases k) (auto simp: less_mult_imp_div_less mult.commute)
    then have "length (dec_digits (n div 10)) \<le> k - 1" using "1.IH" False k by simp
    then show ?thesis using False k by (subst dec_digits.simps) simp
  qed
qed

lemma fixed_parts_facts:
  assumes "0 < prec" "fixed_parts prec r = (ip, fp)"
  shows "list_all is_digit (ip @ fp)" "ip \<noteq> []" "fp \<noteq> []" "length fp = prec"
    and "frac_value ip fp = of_nat (round_half_away (\<bar>r\<bar> * 10 ^ prec)) / 10 ^ prec"
proof -
  define n where "n = round_half_away (\<bar>r\<bar> * 10 ^ prec)"
  define fr where "fr = dec_digits (n mod 10 ^ prec)"
  have p: "ip = dec_digits (n div 10 ^ prec)" "fp = replicate (prec - length fr) (CHR ''0'') @ fr"
    using assms(2) by (auto simp: fixed_parts_def n_def fr_def Let_def)
  have d0: "is_digit (CHR ''0'')" by (simp add: is_digit_def)
  show "list_all is_digit (ip @ fp)"
    using dec_digits_is_digit d0 by (auto simp: p fr_def list_all_iff)
  show "ip \<noteq> []" "fp \<noteq> []" by (simp_all add: p fr_def)
  have "length fr \<le> prec" unfolding fr_def by (rule length_dec_digits [OF assms(1)]) simp
  then show len: "length fp = prec" by (simp add: p)
  have "digits_value (ip @ fp) = (n div 10 ^ prec) * 10 ^ length fp + digits_value fp"
    by (simp add: digits_value_append p(1) digits_value_dec)
  also have "digits_value fp = n mod 10 ^ prec"
    by (simp add: p(2) digits_value_append digits_value_zeros fr_def digits_value_dec)
  finally have "digits_value (ip @ fp) = n" by (simp only: len div_mult_mod_eq)
  then show "frac_value ip fp = of_nat (round_half_away (\<bar>r\<bar> * 10 ^ prec)) / 10 ^ prec"
    unfolding frac_value_def len n_def by simp
qed

lemma frac_value_trim_right: "frac_value ip (trim_right_zeros fp) = frac_value ip fp"
proof -
  obtain k where k: "fp = trim_right_zeros fp @ replicate k (CHR ''0'')"
    using trim_right_zeros_split by blast
  have "digits_value (ip @ fp) = digits_value (ip @ trim_right_zeros fp) * 10 ^ k"
    by (subst k) (simp add: digits_value_append digits_value_zeros power_add algebra_simps)
  moreover have "length fp = length (trim_right_zeros fp) + k" by (subst k) simp
  ultimately show ?thesis by (simp add: frac_value_def power_add)
qed

lemma rat_string_fraction:
  assumes "\<not> rat_is_int r" "fixed_parts rat_precision r = (ip, fp)"
  shows "rat_string r = sign_text (r < 0) @ ip @ point_text (trim_right_zeros fp)"
proof -
  note f = fixed_parts_facts [OF _ assms(2)]
  have pos: "0 < rat_precision" by (simp add: rat_precision_def)
  define pre where "pre = sign_text (r < 0) @ ip"
  have d: "\<And>c. is_digit c \<Longrightarrow> c \<noteq> CHR ''.''" using is_digit_not by blast
  have z: "trim_right (CHR ''0'') (float_string rat_precision r)
      = (if trim_right_zeros fp = [] then pre @ ''.'' else pre @ ''.'' @ trim_right_zeros fp)"
  proof -
    have "float_string rat_precision r = (pre @ ''.'') @ fp"
      using float_string_parts [OF assms(2)] by (simp add: pre_def)
    moreover have "trim_right_zeros (pre @ ''.'') = pre @ ''.''" by (simp add: trim_right_zeros_def)
    ultimately show ?thesis
      using trim_right_zeros_append [of "pre @ ''.''" fp] by (simp add: trim_right_zeros_alt)
  qed
  have last: "pre \<noteq> []" "last pre \<noteq> CHR ''.''"
    using f(1,2) pos d by (auto simp: pre_def list_all_iff)
  show ?thesis
  proof (cases "trim_right_zeros fp = []")
    case True
    have "trim_right (CHR ''.'') (pre @ ''.'') = trim_right (CHR ''.'') pre"
      by (simp add: trim_right_def)
    with True z last assms(1) show ?thesis
      by (simp add: rat_string_def trim_right_last pre_def point_text_def)
  next
    case False
    have "list_all is_digit (trim_right_zeros fp)" using f(1) pos digits_trim_right by simp
    then have "last (pre @ ''.'' @ trim_right_zeros fp) \<noteq> CHR ''.''"
      using False d by (auto simp: list_all_iff)
    with False z last assms(1) show ?thesis
      by (simp add: rat_string_def trim_right_last pre_def point_text_def)
  qed
qed

text \<open>The number a rational's text denotes.\<close>

definition printed :: "rat \<Rightarrow> rat" where
  "printed r = (if rat_is_int r then r
     else signed (r < 0) (of_nat (round_half_away (\<bar>r\<bar> * 10 ^ rat_precision)) / 10 ^ rat_precision))"

lemma rat_is_int_iff: "rat_is_int r \<longleftrightarrow> of_int (fst (quotient_of r)) = r"
proof
  assume "rat_is_int r"
  then show "of_int (fst (quotient_of r)) = r"
    using quotient_of_div [of r] by (cases "quotient_of r") (simp add: rat_is_int_def)
next
  assume "of_int (fst (quotient_of r)) = r"
  moreover have "quotient_of (of_int k) = (k, 1)" for k
    by (simp add: of_int_rat quotient_of_Fract Rat.normalize_def)
  ultimately show "rat_is_int r" unfolding rat_is_int_def by (metis snd_conv)
qed

lemma rat_string_value:
  "decimal_value (rat_string r) = printed r" "\<exists>n. normalize_decimal (rat_string r) = Inr n"
proof (atomize (full), cases "rat_is_int r")
  case True
  then show "decimal_value (rat_string r) = printed r \<and> (\<exists>n. normalize_decimal (rat_string r) = Inr n)"
    using int_text_decimal by (simp add: rat_string_def printed_def rat_is_int_iff)
next
  case False
  obtain ip fp where p: "fixed_parts rat_precision r = (ip, fp)" by fastforce
  have "0 < rat_precision" by (simp add: rat_precision_def)
  note f = fixed_parts_facts [OF this p]
  have d: "list_all is_digit (ip @ trim_right_zeros fp)" using f(1) digits_trim_right by simp
  note t = plain_decimal [OF d f(2), of "r < 0"]
  show "decimal_value (rat_string r) = printed r \<and> (\<exists>n. normalize_decimal (rat_string r) = Inr n)"
    using t False f(5) by (simp add: rat_string_fraction [OF False p] printed_def frac_value_trim_right)
qed


lemma round_half_away_error:
  assumes "0 \<le> q"
  shows "\<bar>of_nat (round_half_away q) - q\<bar> \<le> 1 / 2" "q \<in> \<int> \<Longrightarrow> of_nat (round_half_away q) = q"
proof -
  have n: "of_nat (round_half_away q) = (of_int \<lfloor>q + 1 / 2\<rfloor> :: rat)"
    using assms by (simp add: round_half_away_def)
  have "of_int \<lfloor>q + 1 / 2\<rfloor> \<le> q + 1 / 2" "q + 1 / 2 < of_int \<lfloor>q + 1 / 2\<rfloor> + 1"
    by (rule of_int_floor_le, linarith)
  then show "\<bar>of_nat (round_half_away q) - q\<bar> \<le> 1 / 2" unfolding n abs_le_iff by linarith
  assume "q \<in> \<int>"
  then obtain i where i: "q = of_int i" by (rule Ints_cases)
  have "\<lfloor>q + 1 / 2\<rfloor> = i" unfolding i by (rule floor_unique) simp_all
  then show "of_nat (round_half_away q) = q" using n i by simp
qed

lemma printed_error:
  "\<bar>printed r - r\<bar> \<le> 1 / (2 * 10 ^ rat_precision)" "r * 10 ^ rat_precision \<in> \<int> \<Longrightarrow> printed r = r"
proof -
  define p :: rat where "p = 10 ^ rat_precision"
  have p: "0 < p" by (simp add: p_def)
  define n :: rat where "n = of_nat (round_half_away (\<bar>r\<bar> * p))"
  have e: "\<bar>n - \<bar>r\<bar> * p\<bar> \<le> 1 / 2" "\<bar>r\<bar> * p \<in> \<int> \<Longrightarrow> n = \<bar>r\<bar> * p"
    using round_half_away_error [of "\<bar>r\<bar> * p"] p by (simp_all add: n_def)
  have pr: "printed r = (if rat_is_int r then r else signed (r < 0) (n / p))"
    by (simp add: printed_def n_def p_def)
  have "\<bar>n / p - \<bar>r\<bar>\<bar> = \<bar>n - \<bar>r\<bar> * p\<bar> / p"
    using p by (simp add: field_simps abs_divide)
  also have "\<dots> \<le> (1 / 2) / p" using e(1) p by (intro divide_right_mono) simp_all
  finally have "\<bar>n / p - \<bar>r\<bar>\<bar> \<le> 1 / (2 * p)" by simp
  then show "\<bar>printed r - r\<bar> \<le> 1 / (2 * 10 ^ rat_precision)"
    using p unfolding pr p_def [symmetric] by (auto simp: signed_def)
  assume "r * 10 ^ rat_precision \<in> \<int>"
  then have "\<bar>r\<bar> * p \<in> \<int>" by (cases "r < 0") (auto simp: p_def)
  then show "printed r = r" using e(2) p unfolding pr by (auto simp: signed_def)
qed

lemma arith_decimal_result:
  assumes "to_rat lib l = Inr a" "to_rat lib r = Inr b"
    and "\<not> (val_kind l = KindInt \<and> val_kind r = KindInt)"
    and "rat_arith a o' b = Inr (Some q)"
  shows "\<exists>v. arith_val lib l o' r = Inr v \<and> val_kind v = KindNumeric
    \<and> \<bar>decimal_value (val_text v) - q\<bar> \<le> 1 / (2 * 10 ^ 12)
    \<and> (q * 10 ^ 12 \<in> \<int> \<longrightarrow> decimal_value (val_text v) = q)
    \<and> normalize_decimal (val_text v) = Inr (val_text v)"
proof -
  obtain n where n: "normalize_decimal (rat_string q) = Inr n" using rat_string_value(2) by blast
  have nn: "\<not> (val_is_null l \<or> val_is_null r)"
    using assms(1,2) by (auto simp: to_rat_def val_is_null_def)
  have "arith_val lib l o' r = arith_exact lib l o' r"
    using nn assms(3) by (auto simp: arith_val_def)
  also have "\<dots> = Inr (zero_val\<lparr>val_kind := KindNumeric, val_text := n\<rparr>)"
    by (simp add: arith_exact_def assms numeric_of_rat_def numeric_val_def n)
  finally have v: "arith_val lib l o' r = Inr (zero_val\<lparr>val_kind := KindNumeric, val_text := n\<rparr>)" .
  obtain neg ip fp where c: "n = canon_text neg ip fp" "list_all is_digit (ip @ fp)" "no_lead ip" "no_trail fp"
    "decimal_value (rat_string q) = signed neg (frac_value ip fp)"
    using decimal_accepted [OF n] .
  have d: "decimal_value n = printed q"
    using canon_text_value [OF c(2,3)] c(1,5) rat_string_value(1) by simp
  obtain m where m: "normalize_decimal n = Inr m"
    using canon_text_ok [OF c(2,3), of neg] c(1)
    by (cases "decimal_parts n") (simp add: normalize_decimal_iff)
  have "m = n" using normalize_decimal_unique [OF m n] d rat_string_value(1) by simp
  with m have "normalize_decimal n = Inr n" by simp
  with v d printed_error [of q] show ?thesis by (simp add: rat_precision_def)
qed

text \<open>
  C34: arithmetic on operands that are numbers and not both integers. A division by zero answers NULL, an
  operator outside the four an error; any other operation, with the rational result \<open>q\<close>, answers a canonical
  decimal that is exactly \<open>q\<close> when \<open>q\<close> has at most twelve decimals, and within half a unit of the twelfth
  decimal of \<open>q\<close> otherwise.
\<close>

theorem arith_decimal_bound:
  assumes "to_rat lib l = Inr a" "to_rat lib r = Inr b"
    and "\<not> (val_kind l = KindInt \<and> val_kind r = KindInt)"
  shows "case rat_arith a o' b of
      Inl e \<Rightarrow> arith_val lib l o' r = Inl e \<and> (\<exists>n. o' = OpUnknown n)
    | Inr None \<Rightarrow> arith_val lib l o' r = Inr null_val \<and> o' = OpDiv \<and> b = 0
    | Inr (Some q) \<Rightarrow> (\<exists>v. arith_val lib l o' r = Inr v \<and> val_kind v = KindNumeric
        \<and> \<bar>decimal_value (val_text v) - q\<bar> \<le> 1 / (2 * 10 ^ 12)
        \<and> (q * 10 ^ 12 \<in> \<int> \<longrightarrow> decimal_value (val_text v) = q)
        \<and> normalize_decimal (val_text v) = Inr (val_text v))"
proof -
  have "\<not> (val_is_null l \<or> val_is_null r)"
    using assms(1,2) by (auto simp: to_rat_def val_is_null_def)
  then have e: "arith_val lib l o' r = arith_exact lib l o' r"
    using assms(3) by (auto simp: arith_val_def)
  show ?thesis
  proof (cases "rat_arith a o' b")
    case (Inl x)
    then show ?thesis using e assms(1,2) by (cases o') (simp_all add: arith_exact_def rat_arith_def)
  next
    case (Inr m)
    show ?thesis
    proof (cases m)
      case None
      with Inr show ?thesis using e assms(1,2)
        by (cases o') (simp_all add: arith_exact_def rat_arith_def split: if_splits)
    next
      case (Some q)
      with Inr arith_decimal_result [OF assms, of o' q] show ?thesis by simp
    qed
  qed
qed

definition numeric_of :: "string \<Rightarrow> val" where
  "numeric_of t = zero_val\<lparr>val_kind := KindNumeric, val_text := t\<rparr>"

lemma to_rat_numeric: "rat_of_text t = Some q \<Longrightarrow> to_rat lib (numeric_of t) = Inr q"
  by (simp add: to_rat_def numeric_of_def)

lemma rat_of_text_parts:
  "split_sign s = (False, s) \<Longrightarrow> split_point s = (ip, fp) \<Longrightarrow> ip \<noteq> [] \<and> list_all is_digit (ip @ fp) \<Longrightarrow>
     digits_value (ip @ fp) = n \<Longrightarrow> length fp = k \<Longrightarrow> rat_of_text s = Some (of_nat n / 10 ^ k)"
  by (simp add: rat_of_text_def frac_value_def)

theorem arith_decimal_bound_witness:
  "\<forall>lib. \<exists>v. arith_val lib (numeric_of ''19.99'') OpMul (numeric_of ''1.08'') = Inr v
    \<and> decimal_value (val_text v) = 215892 / 10000"
proof
  fix lib
  have "rat_of_text ''19.99'' = Some (of_nat 1999 / 10 ^ 2)"
    by (rule rat_of_text_parts [where ip = "''19''" and fp = "''99''"]) code_simp+
  then have l: "to_rat lib (numeric_of ''19.99'') = Inr (1999 / 100)" by (simp add: to_rat_numeric)
  have "rat_of_text ''1.08'' = Some (of_nat 108 / 10 ^ 2)"
    by (rule rat_of_text_parts [where ip = "''1''" and fp = "''08''"]) code_simp+
  then have r: "to_rat lib (numeric_of ''1.08'') = Inr (108 / 100)" by (simp add: to_rat_numeric)
  have k: "\<not> (val_kind (numeric_of t) = KindInt \<and> val_kind (numeric_of u) = KindInt)" for t u
    by (simp add: numeric_of_def)
  have q: "rat_arith (1999 / 100) OpMul (108 / 100) = Inr (Some (215892 / 10000))"
    by (simp add: rat_arith_def)
  have i: "(215892 / 10000) * 10 ^ 12 \<in> (\<int> :: rat set)"
  proof -
    have "(215892 / 10000) * 10 ^ 12 = (of_int 21589200000000 :: rat)" by simp
    then show ?thesis by (metis Ints_of_int)
  qed
  show "\<exists>v. arith_val lib (numeric_of ''19.99'') OpMul (numeric_of ''1.08'') = Inr v
    \<and> decimal_value (val_text v) = 215892 / 10000"
    using arith_decimal_bound [OF l r k, of OpMul, unfolded q sum.case option.case] i by blast
qed


subsection \<open>Merge validation\<close>

definition row_codes :: "row \<Rightarrow> bool" where
  "row_codes r \<longleftrightarrow> (\<forall>c. val_ok (row_get r c) \<and> val_fits (row_get r c))"

definition index_tuple :: "row \<Rightarrow> colid list \<Rightarrow> bytes" where
  "index_tuple r cs = concat (map (\<lambda>c. cell_bytes (cell_of (row_get r c)) @ ''|'') cs)"

definition has_null :: "row \<Rightarrow> colid list \<Rightarrow> bool" where
  "has_null r cs \<longleftrightarrow> (\<exists>c \<in> set cs. val_is_null (row_get r c))"

lemma index_key_fits:
  "row_codes r \<Longrightarrow> index_key buf r cs = Inr (if has_null r cs then None else Some (buf @ index_tuple r cs))"
proof (induction cs arbitrary: buf)
  case (Cons c cs)
  have "val_must_encode (row_get r c) [] = Some (cell_bytes (cell_of (row_get r c)))"
    using Cons.prems by (simp add: val_must_encode_cell row_codes_def)
  with Cons show ?case by (simp add: has_null_def index_tuple_def Let_def)
qed (simp add: has_null_def index_tuple_def)

lemma index_tuple_inj:
  "row_codes r \<Longrightarrow> row_codes s \<Longrightarrow> index_tuple r cs = index_tuple s cs \<longleftrightarrow>
     (\<forall>c \<in> set cs. val_equal (row_get r c) (row_get s c))"
proof (induction cs)
  case (Cons c cs)
  have fit: "cell_fits (cell_of (row_get r c))" "cell_fits (cell_of (row_get s c))"
    using Cons.prems val_fits_cell by (auto simp: row_codes_def)
  have eq: "val_equal (row_get r c) (row_get s c) \<longleftrightarrow> cell_of (row_get r c) = cell_of (row_get s c)"
    using Cons.prems by (auto simp: val_equal_iff row_codes_def)
  show ?case
  proof
    assume "index_tuple r (c # cs) = index_tuple s (c # cs)"
    then have "cell_bytes (cell_of (row_get r c)) @ ''|'' @ index_tuple r cs
        = cell_bytes (cell_of (row_get s c)) @ ''|'' @ index_tuple s cs"
      by (simp add: index_tuple_def)
    from cell_bytes_prefix_free [OF fit this] Cons eq
    show "\<forall>d \<in> set (c # cs). val_equal (row_get r d) (row_get s d)" by simp
  next
    assume a: "\<forall>d \<in> set (c # cs). val_equal (row_get r d) (row_get s d)"
    then have "index_tuple r cs = index_tuple s cs" using Cons by simp
    then show "index_tuple r (c # cs) = index_tuple s (c # cs)" using a eq by (simp add: index_tuple_def)
  qed
qed (simp add: index_tuple_def)

definition state_fits :: "(pk, row) fmap \<Rightarrow> bool" where
  "state_fits m \<longleftrightarrow> (\<forall>k. row_codes (state_row m k))"

definition sharing :: "(pk, row) fmap \<Rightarrow> colid list \<Rightarrow> pk list \<Rightarrow> bytes \<Rightarrow> pk list" where
  "sharing m cs ks b =
     filter (\<lambda>k. \<not> has_null (state_row m k) cs \<and> index_tuple (state_row m k) cs = b) ks"

definition listed :: "(bytes, pk list) fmap \<Rightarrow> bytes \<Rightarrow> pk list" where
  "listed seen b = (case fmlookup seen b of Some ps \<Rightarrow> ps | None \<Rightarrow> [])"

lemma collect_seen_fits:
  assumes "state_fits m"
  shows "\<exists>s. collect_seen m cs ks seen = Inr s \<and> (\<forall>b. listed s b = listed seen b @ sharing m cs ks b)"
proof (induction ks arbitrary: seen)
  case (Cons k ks)
  have "row_codes (state_row m k)" using assms by (simp add: state_fits_def)
  note key = index_key_fits [OF this, of "[]" cs]
  show ?case
  proof (cases "has_null (state_row m k) cs")
    case True
    with key Cons.IH [of seen] show ?thesis by (simp add: sharing_def)
  next
    case False
    let ?b = "index_tuple (state_row m k) cs"
    define seen' where "seen' = fmupd ?b (listed seen ?b @ [k]) seen"
    obtain s where s: "collect_seen m cs ks seen' = Inr s" "\<forall>b. listed s b = listed seen' b @ sharing m cs ks b"
      using Cons.IH by blast
    have "collect_seen m cs (k # ks) seen = Inr s"
      using False key s(1) by (simp add: seen'_def listed_def)
    moreover have "listed seen' b @ sharing m cs ks b = listed seen b @ sharing m cs (k # ks) b" for b
      using False by (auto simp: seen'_def listed_def sharing_def)
    ultimately show ?thesis using s(2) by auto
  qed
qed (simp add: sharing_def)

text \<open>What a unique index promises of a table.\<close>

definition index_unique :: "(pk, row) fmap \<Rightarrow> colid list \<Rightarrow> bool" where
  "index_unique m cs \<longleftrightarrow>
     (\<forall>k l r s. fmlookup m k = Some r \<longrightarrow> fmlookup m l = Some s \<longrightarrow> k \<noteq> l \<longrightarrow>
        \<not> has_null r cs \<longrightarrow> \<not> (\<forall>c \<in> set cs. val_equal (row_get r c) (row_get s c)))"

lemma map_filter_Nil: "List.map_filter f xs = [] \<longleftrightarrow> (\<forall>x \<in> set xs. f x = None)"
  by (induction xs) (auto simp: List.map_filter_simps split: option.splits)

lemma has_null_cong:
  "\<forall>c \<in> set cs. val_equal (row_get r c) (row_get s c) \<Longrightarrow> has_null r cs \<longleftrightarrow> has_null s cs"
  unfolding has_null_def val_is_null_def val_equal_def by (intro bex_cong) (auto split: if_splits)

lemma sharing_short:
  assumes "distinct ks"
  shows "(\<forall>b. length (sharing m cs ks b) \<le> 1) \<longleftrightarrow>
    (\<forall>k \<in> set ks. \<forall>l \<in> set ks. k \<noteq> l \<longrightarrow> \<not> has_null (state_row m k) cs \<longrightarrow> \<not> has_null (state_row m l) cs \<longrightarrow>
       index_tuple (state_row m k) cs \<noteq> index_tuple (state_row m l) cs)"
  (is "?L \<longleftrightarrow> ?R")
proof
  assume l: ?L
  show ?R
  proof (intro ballI impI notI)
    fix k l assume k: "k \<in> set ks" "l \<in> set ks" "k \<noteq> l"
      "\<not> has_null (state_row m k) cs" "\<not> has_null (state_row m l) cs"
      "index_tuple (state_row m k) cs = index_tuple (state_row m l) cs"
    let ?s = "sharing m cs ks (index_tuple (state_row m k) cs)"
    have "{k, l} \<subseteq> set ?s" using k by (simp add: sharing_def)
    then have "card {k, l} \<le> card (set ?s)" by (intro card_mono) simp_all
    also have "\<dots> \<le> length ?s" by (rule card_length)
    finally show False using k(3) l [rule_format, of "index_tuple (state_row m k) cs"] by simp
  qed
next
  assume r: ?R
  show ?L
  proof
    fix b
    have d: "distinct (sharing m cs ks b)" using assms by (simp add: sharing_def)
    have "x = y" if "x \<in> set (sharing m cs ks b)" "y \<in> set (sharing m cs ks b)" for x y
      using that r by (auto simp: sharing_def)
    then have "card (set (sharing m cs ks b)) \<le> 1" by (simp add: card_le_Suc0_iff_eq)
    with d show "length (sharing m cs ks b) \<le> 1" by (simp add: distinct_card)
  qed
qed

lemma unique_violations_exact:
  assumes "state_fits m"
  shows "\<exists>vs. unique_violations m u = Inr vs \<and> (vs = [] \<longleftrightarrow> index_unique m (ui_cols u))"
proof -
  let ?cs = "ui_cols u"
  obtain s where s: "collect_seen m ?cs (fm_keys m) fmempty = Inr s"
    and l: "\<And>b. listed s b = sharing m ?cs (fm_keys m) b"
    using collect_seen_fits [OF assms, of ?cs "fm_keys m" fmempty] by (auto simp: listed_def)
  let ?f = "\<lambda>b. case fmlookup s b of
     Some pks \<Rightarrow> if length pks > 1 then Some \<lparr>vi_kind = ''unique'', vi_detail = ui_name u,
       vi_message = unique_message (length pks) (ui_name u), vi_pks = pks\<rparr> else None
   | None \<Rightarrow> None"
  have "?f b = None \<longleftrightarrow> length (listed s b) \<le> 1" for b
    by (simp add: listed_def not_less split: option.splits)
  moreover have "length (listed s b) \<le> 1" if "b \<notin> fmdom' s" for b
    using that by (simp add: listed_def fmlookup_None_dom [THEN iffD2])
  ultimately have "List.map_filter ?f (fm_keys s) = [] \<longleftrightarrow> (\<forall>b. length (listed s b) \<le> 1)"
    unfolding map_filter_Nil set_fm_keys by blast
  also have "\<dots> \<longleftrightarrow> (\<forall>k \<in> fmdom' m. \<forall>k' \<in> fmdom' m. k \<noteq> k' \<longrightarrow> \<not> has_null (state_row m k) ?cs \<longrightarrow>
       \<not> has_null (state_row m k') ?cs \<longrightarrow> index_tuple (state_row m k) ?cs \<noteq> index_tuple (state_row m k') ?cs)"
    unfolding l sharing_short [OF distinct_fm_keys] by simp
  also have "\<dots> \<longleftrightarrow> index_unique m ?cs"
  proof -
    have row: "fmlookup m k = Some r \<Longrightarrow> state_row m k = r" for k r by (simp add: state_row_def)
    have fits: "row_codes (state_row m k)" for k using assms by (simp add: state_fits_def)
    have "(\<not> has_null (state_row m k) ?cs \<longrightarrow> \<not> has_null (state_row m k') ?cs \<longrightarrow>
            index_tuple (state_row m k) ?cs \<noteq> index_tuple (state_row m k') ?cs) \<longleftrightarrow>
          (\<not> has_null (state_row m k) ?cs \<longrightarrow>
            \<not> (\<forall>c \<in> set ?cs. val_equal (row_get (state_row m k) c) (row_get (state_row m k') c)))" for k k'
      unfolding index_tuple_inj [OF fits fits] using has_null_cong by blast
    then show ?thesis
      unfolding index_unique_def using row fmlookup_Some_dom
      by (smt (verit, ccfv_threshold) fmlookup_dom'_iff)
  qed
  finally show ?thesis using s by (simp add: unique_violations_def)
qed

lemma state_rows: "(\<forall>k \<in> fmdom' m. P (state_row m k)) \<longleftrightarrow> (\<forall>k r. fmlookup m k = Some r \<longrightarrow> P r)"
proof (intro iffI allI impI ballI)
  fix k r assume a: "\<forall>k \<in> fmdom' m. P (state_row m k)" and k: "fmlookup m k = Some r"
  have "P (state_row m k)" using a [rule_format, OF fmlookup_Some_dom [OF k]] .
  with k show "P r" by (simp add: state_row_def)
next
  fix k assume a: "\<forall>k r. fmlookup m k = Some r \<longrightarrow> P r" and "k \<in> fmdom' m"
  then obtain r where "fmlookup m k = Some r" by (auto simp: fmlookup_dom'_iff)
  with a show "P (state_row m k)" by (simp add: state_row_def)
qed

lemma all_unique_violations_exact:
  assumes "state_fits m"
  shows "\<exists>vs. all_unique_violations m us = Inr vs \<and> (vs = [] \<longleftrightarrow> (\<forall>u \<in> set us. index_unique m (ui_cols u)))"
proof (induction us)
  case (Cons u us)
  obtain vs where v: "unique_violations m u = Inr vs" "vs = [] \<longleftrightarrow> index_unique m (ui_cols u)"
    using unique_violations_exact [OF assms, of u] by blast
  with Cons show ?case by auto
qed simp

lemma known_index_columns:
  assumes "set ns \<subseteq> ac_name ` set (st_columns t)"
  shows "List.map_filter (index_column t) ns = map (\<lambda>n. the (index_column t n)) ns"
proof -
  have "index_column t n \<noteq> None" if "n \<in> set ns" for n
    using subsetD [OF assms that] by (auto simp: index_column_def map_of_eq_None_iff image_image)
  then show ?thesis by (induction ns) (fastforce simp: List.map_filter_simps split: option.split)+
qed

text \<open>
  C33: merge validation is exact for unique indexes over columns of the tracked table and rows whose values
  are in canonical form and fit the length prefixes of their encoding (\<open>state_fits\<close>): it answers, and
  reports no violation precisely when, after the change set, every NOT NULL column holds a value in every
  row and no two keys share all the values of a reported unique index, rows with a null under it left out.
  An index the adapter reports with a column outside the tracked table is read as one over the others, and
  \<open>unknown_index_blocks\<close> shows that then a state can be refused that satisfies the index.
\<close>

theorem validate_merge_exact:
  assumes "state_fits (merged_state current changes)"
    and "\<forall>i \<in> set idx. set (snd i) \<subseteq> ac_name ` set (st_columns t)"
  shows "\<exists>vs. validate_merge t current changes idx = Inr vs \<and>
    (vs = [] \<longleftrightarrow>
      (\<forall>c \<in> set (st_columns t). \<not> ac_nullable c \<longrightarrow>
         (\<forall>k r. fmlookup (merged_state current changes) k = Some r \<longrightarrow> \<not> val_is_null (row_get r (ac_id c)))) \<and>
      (\<forall>i \<in> set idx. index_unique (merged_state current changes) (map (\<lambda>n. the (index_column t n)) (snd i))))"
proof -
  let ?m = "merged_state current changes"
  obtain vs where "all_unique_violations ?m (unique_indexes t idx) = Inr vs"
    "vs = [] \<longleftrightarrow> (\<forall>u \<in> set (unique_indexes t idx). index_unique ?m (ui_cols u))"
    using all_unique_violations_exact [OF assms(1), of "unique_indexes t idx"] by blast
  then have v: "all_unique_violations ?m (unique_indexes t idx) = Inr vs"
    "vs = [] \<longleftrightarrow> (\<forall>i \<in> set idx. index_unique ?m (map (\<lambda>n. the (index_column t n)) (snd i)))"
    using known_index_columns assms(2) by (auto simp: unique_indexes_def case_prod_beta)
  have "null_violation ?m c = None \<longleftrightarrow> (\<not> ac_nullable c \<longrightarrow>
      (\<forall>k r. fmlookup ?m k = Some r \<longrightarrow> \<not> val_is_null (row_get r (ac_id c))))" for c
    unfolding state_rows [symmetric, where P = "\<lambda>r. \<not> val_is_null (row_get r (ac_id c))"]
    by (auto simp: null_violation_def Let_def filter_empty_conv)
  then have "List.map_filter (null_violation ?m) (st_columns t) = [] \<longleftrightarrow>
      (\<forall>c \<in> set (st_columns t). \<not> ac_nullable c \<longrightarrow>
         (\<forall>k r. fmlookup ?m k = Some r \<longrightarrow> \<not> val_is_null (row_get r (ac_id c))))"
    unfolding map_filter_Nil by simp
  with v show ?thesis by (simp add: validate_merge_def Let_def)
qed

theorem validate_merge_exact_witness:
  "\<exists>vs. validate_merge
      \<lparr>st_id = 1, st_physical = ''t'', st_columns = [zero_column\<lparr>ac_id := 1, ac_name := ''c'', ac_nullable := False\<rparr>],
       st_pk = [1]\<rparr>
      fmempty
      [\<lparr>sc_pk' = ''a'', sc_op = OpInsert, sc_row = Some (fmupd 1 (int_val 5) fmempty)\<rparr>,
       \<lparr>sc_pk' = ''b'', sc_op = OpInsert, sc_row = Some (fmupd 1 (int_val 5) fmempty)\<rparr>]
      [(''u'', [''c''])] = Inr vs \<and> vs \<noteq> []"
proof -
  let ?r = "Some (fmupd 1 (int_val 5) fmempty) :: row"
  let ?ch = "[\<lparr>sc_pk' = ''a'', sc_op = OpInsert, sc_row = ?r\<rparr>, \<lparr>sc_pk' = ''b'', sc_op = OpInsert, sc_row = ?r\<rparr>]"
  let ?m = "merged_state fmempty ?ch"
  have look: "fmlookup ?m k = (if k = ''a'' \<or> k = ''b'' then Some ?r else None)" for k
    by (simp add: merged_state_def)
  have "row_codes ?r" "row_codes None"
    by (simp_all add: row_codes_def row_get_upd val_ok_def val_fits_def int_val_def null_val_def zero_val_def)
  then have fits: "state_fits ?m" by (auto simp: state_fits_def state_row_def look)
  have "\<not> has_null ?r [1]" by (simp add: has_null_def row_get_upd int_val_def val_is_null_def)
  moreover have "val_equal (row_get ?r 1) (row_get ?r 1)" by (simp add: row_get_upd int_val_def val_equal_def)
  moreover have "fmlookup ?m ''a'' = Some ?r" "fmlookup ?m ''b'' = Some ?r" by (simp_all add: look)
  moreover have "''a'' \<noteq> ''b''" by simp
  ultimately have bad: "\<not> index_unique ?m [1]"
    unfolding index_unique_def by (metis empty_iff list.set set_ConsD)
  let ?t = "\<lparr>st_id = 1, st_physical = ''t'', st_columns = [zero_column\<lparr>ac_id := 1, ac_name := ''c'', ac_nullable := False\<rparr>],
       st_pk = [1]\<rparr>"
  have c: "map (\<lambda>n. the (index_column ?t n)) [''c''] = [1]" by (simp add: index_column_def zero_column_def)
  show ?thesis using validate_merge_exact [OF fits, of "[(''u'', [''c''])]" ?t] bad c by (fastforce simp: zero_column_def)
qed

subsection \<open>Where the code and its intent part\<close>

text \<open>
  \<^verbatim>\<open>compareValues\<close> answers 0 when a side is null, so in a \<^verbatim>\<open>CASE\<close> arm a null cell satisfies \<open>\<le>\<close>, \<open>\<ge>\<close>
  and, against a value, \<open>\<noteq>\<close>, where SQL has an unknown.
\<close>

lemma null_compares:
  "eval_compare lib null_val CmpLe v = Inr True" "eval_compare lib null_val CmpGe v = Inr True"
  "\<not> val_is_null v \<Longrightarrow> eval_compare lib null_val CmpNe v = Inr True"
  by (auto simp: eval_compare_def compare_values_def val_is_null_def null_val_def zero_val_def val_equal_def)

text \<open>
  \<^verbatim>\<open>uniqueIndexes\<close> leaves out the columns it does not know instead of the index. An index over one
  such column becomes the empty index, under which any two rows collide.
\<close>

lemma unknown_index_blocks:
  assumes "n \<notin> ac_name ` set (st_columns t)" "fmlookup m k = Some r" "fmlookup m l = Some s" "k \<noteq> l"
  shows "unique_indexes t [(i, [n])] = [\<lparr>ui_name = i, ui_cols = []\<rparr>]" "\<not> index_unique m []"
proof -
  have "index_column t n = None"
    using assms(1) by (auto simp: index_column_def map_of_eq_None_iff)
  then show "unique_indexes t [(i, [n])] = [\<lparr>ui_name = i, ui_cols = []\<rparr>]"
    by (simp add: unique_indexes_def List.map_filter_simps)
  show "\<not> index_unique m []" using assms(2-4) by (auto simp: index_unique_def has_null_def)
qed

text \<open>A terminating product below the twelfth decimal is stored as zero.\<close>

lemma small_product_lost: "decimal_value (rat_string (1 / 10 ^ 14)) = 0"
proof -
  have "\<not> rat_is_int (1 / 10 ^ 14)" by code_simp
  moreover have "round_half_away (\<bar>1 / 10 ^ 14\<bar> * 10 ^ 12) = 0"
    by (simp add: round_half_away_def floor_eq_iff)
  ultimately show ?thesis unfolding rat_string_value(1) printed_def by (simp add: signed_def rat_precision_def)
qed

end
