(* ===== verification/Results.thy ===== *)
theory Results
  imports Prelude
begin

text \<open>
  Sequencing of operations that may fail: an early return on error, and a loop that stops at the first
  error. The components that work on a database share them.
\<close>

definition and_then :: "'e + 'a \<Rightarrow> ('a \<Rightarrow> 'e + 'b) \<Rightarrow> 'e + 'b" where
  "and_then m f = (case m of Inl e \<Rightarrow> Inl e | Inr x \<Rightarrow> f x)"

definition guard :: "bool \<Rightarrow> 'e \<Rightarrow> 'e + unit" where
  "guard b e = (if b then Inr () else Inl e)"

definition some_or :: "'e \<Rightarrow> 'a option \<Rightarrow> 'e + 'a" where
  "some_or e x = (case x of None \<Rightarrow> Inl e | Some a \<Rightarrow> Inr a)"

definition left_map :: "('d \<Rightarrow> 'e) \<Rightarrow> 'd + 'a \<Rightarrow> 'e + 'a" where
  "left_map g m = (case m of Inl e \<Rightarrow> Inl (g e) | Inr x \<Rightarrow> Inr x)"

fun fold_steps :: "('a \<Rightarrow> 's \<Rightarrow> 'e + 's) \<Rightarrow> 'a list \<Rightarrow> 's \<Rightarrow> 'e + 's" where
  "fold_steps f [] s = Inr s"
| "fold_steps f (x # xs) s = and_then (f x s) (fold_steps f xs)"

named_theorems result_simps "when a sequence of fallible steps succeeds"

lemma and_then_simps [simp]: "and_then (Inl e) f = Inl e" "and_then (Inr x) f = f x"
  by (simp_all add: and_then_def)

lemma and_then_Inr [result_simps]: "and_then m f = Inr y \<longleftrightarrow> (\<exists>x. m = Inr x \<and> f x = Inr y)"
  by (cases m) simp_all

lemma and_then_cong [fundef_cong]:
  "m = m' \<Longrightarrow> (\<And>x. m' = Inr x \<Longrightarrow> f x = g x) \<Longrightarrow> and_then m f = and_then m' g"
  by (cases m') (simp_all add: and_then_def)

lemma guard_Inr [result_simps]: "guard b e = Inr u \<longleftrightarrow> b"
  by (simp add: guard_def)

lemma guard_simps [simp]: "b \<Longrightarrow> guard b e = Inr ()" "\<not> b \<Longrightarrow> guard b e = Inl e"
  by (simp_all add: guard_def)

lemma some_or_Inr [result_simps]: "some_or e x = Inr y \<longleftrightarrow> x = Some y"
  by (simp add: some_or_def split: option.split)

lemma some_or_simps [simp]: "some_or e (Some y) = Inr y" "some_or e None = Inl e"
  by (simp_all add: some_or_def)

lemma left_map_Inr [result_simps]: "left_map g m = Inr y \<longleftrightarrow> m = Inr y"
  by (simp add: left_map_def split: sum.split)

lemma fold_steps_append: "fold_steps f (xs @ ys) s = and_then (fold_steps f xs s) (fold_steps f ys)"
  by (induction xs arbitrary: s) (simp_all add: and_then_def split: sum.split)

lemma fold_steps_inv:
  assumes "fold_steps f xs s = Inr t" "P s" "\<And>x s t. x \<in> set xs \<Longrightarrow> P s \<Longrightarrow> f x s = Inr t \<Longrightarrow> P t"
  shows "P t"
  using assms by (induction xs arbitrary: s) (auto simp: and_then_Inr)

text \<open>An invariant of a loop that follows the elements already done.\<close>

lemma fold_steps_prefix:
  assumes "fold_steps f xs s = Inr t" "P [] s"
    and "\<And>pre x rest s t. xs = pre @ x # rest \<Longrightarrow> P pre s \<Longrightarrow> f x s = Inr t \<Longrightarrow> P (pre @ [x]) t"
  shows "P xs t"
proof -
  have "P (pre @ ys) t" if "fold_steps f ys s = Inr t" "P pre s" "xs = pre @ ys" for pre ys s
    using that
  proof (induction ys arbitrary: pre s)
    case (Cons y ys)
    then obtain s' where s': "f y s = Inr s'" "fold_steps f ys s' = Inr t" by (auto simp: and_then_Inr)
    have "P (pre @ [y]) s'" using assms(3) [of "pre" y ys s s'] Cons.prems s'(1) by simp
    from Cons.IH [OF s'(2) this] Cons.prems(3) show ?case by simp
  qed simp
  from this [of xs s "[]"] assms(1,2) show ?thesis by simp
qed

end
