(* ===== verification/StoreDefs.thy ===== *)
theory StoreDefs
  imports Results EngineDefs HashDefs PredicateDefs
begin

text \<open>
  The store on a database: references, commits and sessions as rows of the control tables, one version
  table (the sidecar) and one live table per tracked table, after \<^verbatim>\<open>internal/store/store.go\<close>,
  \<^verbatim>\<open>branch.go\<close> and \<^verbatim>\<open>read.go\<close>, with the resolution query of \<^verbatim>\<open>internal/adapter/postgres/postgres.go\<close>.
  A statement is the list operation it denotes; a violated UNIQUE or PRIMARY KEY constraint of
  \<^verbatim>\<open>internal/catalog/schema.go\<close> is an error. A transaction that fails leaves no trace, so an operation
  returns the error or the new database. NULL session ids and names are empty strings; stored JSON is the
  value it encodes. Fresh UUIDs and the clock are arguments.
\<close>

subsection \<open>State\<close>

datatype st_error =
    NoSuchBranch string | NoSuchCommit digest | NoSuchSession string | NoAuthor | HeadMoved
  | DuplicateVersion | DuplicateCommit | DuplicateRef | DuplicateTable | DuplicateColumn | NoPrimaryKey
  | EmptyChain | ChainTooDeep nat | KeyError store_error | BindError store_error | DigestError core_error
  | LiveRejected | SealError | DefaultUndeletable | HasChildren nat | RefInUse | SessionOnDefault | DuplicateSession
  | SessionNotOpen | SessionExpired | SessionBehind | NothingStaged
  | BasesFound nat | NoParentToUpdate | ValidationError predicate_error | MergeTooLarge nat nat
  | RevertRoot | UnsupportedColumns "(string \<times> string) list" | NothingToRevert | RevertDiscards "pk list" | NoReason | UnknownWriteMode

datatype ref_kind = BranchRef | TagRef

record ref =
  rf_id :: string
  rf_kind :: ref_kind
  rf_name :: string
  rf_head :: digest
  rf_seq :: int
  rf_parent :: string
  rf_fork_commit :: digest
  rf_fork_seq :: int
  rf_chain :: "segment list"
  rf_protected :: bool
  rf_min_approvals :: int
  rf_merging :: bool
  rf_by :: string

record commit_rec =
  cw_id :: digest
  cw_branch :: string
  cw_seq :: int
  cw_parents :: "digest list"
  cw_author :: string
  cw_at :: i64
  cw_message :: string
  cw_ref :: string
  cw_change :: digest
  cw_schema :: digest
  cw_chain :: "segment list"
  cw_purged :: bool

datatype session_state = SessOpen | SessCommitted | SessAbandoned | SessExpired

record session_row =
  ss_id :: string
  ss_branch :: string
  ss_principal :: string
  ss_base :: digest
  ss_base_seq :: int
  ss_state :: session_state
  ss_lease :: int

text \<open>One repository: its control rows, its tracked tables, and per table id the sidecar and the live rows.\<close>

record dbase =
  db_repo :: string
  db_default :: string
  db_refs :: "ref list"
  db_commits :: "commit_rec list"
  db_sessions :: "session_row list"
  db_tables :: "store_table list"
  db_side :: "i64 \<Rightarrow> version list"
  db_live :: "i64 \<Rightarrow> table"

text \<open>
  What the database and the key service decide: scanning a numeric parameter, the constraints of a live
  table, and the sealing of personal data in a stored row (the identity when none is designated).
\<close>

record dbenv =
  de_scan :: "string \<Rightarrow> numeric option"
  de_live_ok :: "store_table \<Rightarrow> table \<Rightarrow> bool"
  de_seal :: "store_table \<Rightarrow> row \<Rightarrow> row option"

definition default_branch :: string where
  "default_branch = ''main''"

definition max_chain_depth :: nat where
  "max_chain_depth = 8"

definition zero_digest :: digest where
  "zero_digest = replicate 32 (CHR 0x00)"

subsection \<open>References and commits\<close>

definition find_branch :: "dbase \<Rightarrow> string \<Rightarrow> ref option" where
  "find_branch db name = find (\<lambda>r. rf_kind r = BranchRef \<and> rf_name r = name) (db_refs db)"

text \<open>\<^verbatim>\<open>refRow\<close>: an empty stored chain is read as the branch itself.\<close>

definition ref_row :: "dbase \<Rightarrow> string \<Rightarrow> st_error + string \<times> digest \<times> int \<times> segment list" where
  "ref_row db name =
     and_then (some_or (NoSuchBranch name) (find_branch db name)) (\<lambda>r.
       Inr (rf_id r, rf_head r, rf_seq r,
            if rf_chain r = [] then [\<lparr>sg_branch = rf_id r, sg_seq = rf_seq r\<rparr>] else rf_chain r))"

definition find_commit :: "dbase \<Rightarrow> digest \<Rightarrow> commit_rec option" where
  "find_commit db c = find (\<lambda>w. cw_id w = c) (db_commits db)"

definition chain_at :: "dbase \<Rightarrow> digest \<Rightarrow> st_error + segment list" where
  "chain_at db c = and_then (some_or (NoSuchCommit c) (find_commit db c)) (\<lambda>w. Inr (cw_chain w))"

text \<open>The commit table's primary key and its UNIQUE (branch, sequence).\<close>

definition insert_commit :: "commit_rec \<Rightarrow> dbase \<Rightarrow> st_error + dbase" where
  "insert_commit w db =
     and_then (guard (\<not> list_ex (\<lambda>u. cw_id u = cw_id w \<or> (cw_branch u = cw_branch w \<and> cw_seq u = cw_seq w))
                        (db_commits db)) DuplicateCommit) (\<lambda>_.
       Inr (db\<lparr>db_commits := db_commits db @ [w]\<rparr>))"

definition insert_ref :: "ref \<Rightarrow> dbase \<Rightarrow> st_error + dbase" where
  "insert_ref r db =
     and_then (guard (\<not> list_ex (\<lambda>u. rf_id u = rf_id r \<or> (rf_kind u = rf_kind r \<and> rf_name u = rf_name r))
                        (db_refs db)) DuplicateRef) (\<lambda>_.
       Inr (db\<lparr>db_refs := db_refs db @ [r]\<rparr>))"

definition update_ref :: "string \<Rightarrow> (ref \<Rightarrow> ref) \<Rightarrow> dbase \<Rightarrow> dbase" where
  "update_ref i f db = db\<lparr>db_refs := map (\<lambda>r. if rf_id r = i then f r else r) (db_refs db)\<rparr>"

definition advance_ref :: "string \<Rightarrow> digest \<Rightarrow> int \<Rightarrow> segment list \<Rightarrow> dbase \<Rightarrow> dbase" where
  "advance_ref i c sq chain = update_ref i (\<lambda>r. r\<lparr>rf_head := c, rf_seq := sq, rf_chain := chain\<rparr>)"

definition fork_ref :: "string \<Rightarrow> string \<Rightarrow> string \<Rightarrow> digest \<Rightarrow> int \<Rightarrow> segment list \<Rightarrow> string \<Rightarrow> ref" where
  "fork_ref i name parent head fork_seq chain who =
     \<lparr>rf_id = i, rf_kind = BranchRef, rf_name = name, rf_head = head, rf_seq = 0, rf_parent = parent,
      rf_fork_commit = head, rf_fork_seq = fork_seq, rf_chain = chain, rf_protected = False,
      rf_min_approvals = 0, rf_merging = False, rf_by = who\<rparr>"

definition empty_change_digest :: digest where
  "empty_change_digest = (case change_digest [] [] of Inl _ \<Rightarrow> [] | Inr d \<Rightarrow> d)"

definition create_repo :: "string \<Rightarrow> string \<Rightarrow> string \<Rightarrow> i64 \<Rightarrow> st_error + dbase" where
  "create_repo repo branch author now =
     (let chain = [\<lparr>sg_branch = branch, sg_seq = 0\<rparr>];
          root = commit_hash \<lparr>ci_repo = repo, ci_parents = [], ci_change = empty_change_digest,
            ci_schema = zero_digest, ci_author = author, ci_author_at = now,
            ci_message = ''repository created'', ci_external_ref = []\<rparr>;
          db = \<lparr>db_repo = repo, db_default = branch, db_refs = [], db_commits = [], db_sessions = [],
                db_tables = [], db_side = (\<lambda>_. []), db_live = (\<lambda>_. fmempty)\<rparr>
      in and_then (insert_ref ((fork_ref branch default_branch [] root 0 chain author)
                     \<lparr>rf_fork_commit := zero_digest, rf_protected := True\<rparr>) db)
           (insert_commit \<lparr>cw_id = root, cw_branch = branch, cw_seq = 0, cw_parents = [], cw_author = author,
              cw_at = now, cw_message = ''repository created'', cw_ref = [], cw_change = empty_change_digest,
              cw_schema = zero_digest, cw_chain = chain, cw_purged = False\<rparr>))"

text \<open>The child's chain: itself, its parent pinned at the parent's head, and what the parent inherited.\<close>

definition create_ref :: "dbase \<Rightarrow> string \<Rightarrow> string \<Rightarrow> string \<Rightarrow> string \<Rightarrow> st_error + dbase" where
  "create_ref db i name from who =
     and_then (ref_row db from) (\<lambda>(parent, head, sq, pchain).
       let chain = \<lparr>sg_branch = i, sg_seq = 0\<rparr> # \<lparr>sg_branch = parent, sg_seq = sq\<rparr> # tl pchain in
       and_then (guard (length chain \<le> max_chain_depth) (ChainTooDeep (length chain))) (\<lambda>_.
         insert_ref (fork_ref i name parent head sq chain who) db))"

definition create_tag :: "dbase \<Rightarrow> string \<Rightarrow> string \<Rightarrow> digest \<Rightarrow> string \<Rightarrow> st_error + dbase" where
  "create_tag db i name c who =
     and_then (chain_at db c) (\<lambda>chain.
       insert_ref ((fork_ref i name [] c 0 chain who)\<lparr>rf_kind := TagRef, rf_fork_commit := zero_digest\<rparr>) db)"

text \<open>The count of children; the delete also fails while a session row refers to the branch.\<close>

definition delete_branch :: "dbase \<Rightarrow> string \<Rightarrow> st_error + dbase" where
  "delete_branch db name =
     and_then (guard (name \<noteq> default_branch) DefaultUndeletable) (\<lambda>_.
       let i = (case find_branch db name of Some r \<Rightarrow> rf_id r | None \<Rightarrow> []);
           n = length (filter (\<lambda>r. find_branch db name \<noteq> None \<and> rf_parent r = i) (db_refs db))
       in and_then (guard (n = 0) (HasChildren n)) (\<lambda>_.
         and_then (guard (\<not> list_ex (\<lambda>s. find_branch db name \<noteq> None \<and> ss_branch s = i) (db_sessions db)) RefInUse)
           (\<lambda>_. Inr (db\<lparr>db_refs := filter (\<lambda>r. \<not> (rf_kind r = BranchRef \<and> rf_name r = name)) (db_refs db)\<rparr>))))"

subsection \<open>The resolution query\<close>

text \<open>One arm: the committed versions of a segment's branch in interval, with the key predicate.\<close>

definition arm_rows :: "version list \<Rightarrow> (pk \<Rightarrow> bool) \<Rightarrow> segment \<Rightarrow> version list" where
  "arm_rows side kf seg =
     filter (\<lambda>v. v_branch v = sg_branch seg \<and> v_session v = [] \<and> v_from v \<le> sg_seq seg
               \<and> sg_seq seg < v_to v \<and> kf (v_pk v)) side"

record page =
  pg_limit :: int
  pg_after :: "pk \<Rightarrow> bool"
  pg_rank :: "pk \<Rightarrow> int"

definition whole :: page where
  "whole = \<lparr>pg_limit = 0, pg_after = (\<lambda>_. True), pg_rank = (\<lambda>_. 0)\<rparr>"

text \<open>\<^verbatim>\<open>ORDER BY key LIMIT 2n\<close>, in each arm and on the union of the candidates.\<close>

definition limit_keys :: "page \<Rightarrow> pk list \<Rightarrow> pk list" where
  "limit_keys pg ks =
     (if 0 < pg_limit pg then take (nat (2 * pg_limit pg)) (sort_key (pg_rank pg) ks) else ks)"

definition arm_candidates :: "version list \<Rightarrow> (pk \<Rightarrow> bool) \<Rightarrow> (row \<Rightarrow> bool) \<Rightarrow> page \<Rightarrow> segment \<Rightarrow> pk list" where
  "arm_candidates side kf f pg seg =
     limit_keys pg (filter (\<lambda>k. 0 < pg_limit pg \<longrightarrow> pg_after pg k)
       (map v_pk (filter (\<lambda>v. v_op v \<noteq> OpDelete \<and> f (v_row v)) (arm_rows side kf seg))))"

definition candidates :: "version list \<Rightarrow> segment list \<Rightarrow> (pk \<Rightarrow> bool) \<Rightarrow> (row \<Rightarrow> bool) \<Rightarrow> page \<Rightarrow> pk list" where
  "candidates side chain kf f pg = limit_keys pg (remdups (concat (map (arm_candidates side kf f pg) chain)))"

text \<open>The union: the session's staged rows at priority -1, then each segment at its position.\<close>

definition union_arms :: "version list \<Rightarrow> segment list \<Rightarrow> string \<Rightarrow> (pk \<Rightarrow> bool) \<Rightarrow> (pk \<Rightarrow> bool)
    \<Rightarrow> (int \<times> version) list" where
  "union_arms side chain sid kf cand =
     (if sid = [] then [] else map (Pair (- 1)) (filter (\<lambda>v. v_session v = sid \<and> kf (v_pk v)) side))
     @ concat (map (\<lambda>(i, seg). map (Pair (int i)) (filter (\<lambda>v. cand (v_pk v)) (arm_rows side kf seg)))
         (enumerate 0 chain))"

text \<open>\<^verbatim>\<open>SELECT DISTINCT ON (key) ... ORDER BY key, prio\<close>: the first row of least priority for each key.\<close>

definition key_winner :: "(int \<times> version) list \<Rightarrow> pk \<Rightarrow> version option" where
  "key_winner ps k =
     (case sort_key fst (filter (\<lambda>p. v_pk (snd p) = k) ps) of [] \<Rightarrow> None | p # _ \<Rightarrow> Some (snd p))"

definition distinct_on :: "(int \<times> version) list \<Rightarrow> (pk, version option) fmap" where
  "distinct_on ps = fm_tabulate (remdups (map (\<lambda>p. v_pk (snd p)) ps)) (key_winner ps)"

text \<open>Deletes and the value filter are tested outside, on the resolved row.\<close>

definition resolved :: "version list \<Rightarrow> segment list \<Rightarrow> string \<Rightarrow> (pk \<Rightarrow> bool) \<Rightarrow> (row \<Rightarrow> bool) option
    \<Rightarrow> page \<Rightarrow> table" where
  "resolved side chain sid kf filt pg =
     (let cand = (case filt of None \<Rightarrow> (\<lambda>_. True)
                  | Some f \<Rightarrow> (let ks = candidates side chain kf f pg in (\<lambda>k. k \<in> set ks)))
      in fm_collect (\<lambda>k w. case w of None \<Rightarrow> None | Some v \<Rightarrow>
             if v_op v \<noteq> OpDelete \<and> (case filt of None \<Rightarrow> True | Some f \<Rightarrow> f (v_row v)) then Some (v_row v) else None)
           (distinct_on (union_arms side chain sid kf cand)))"

definition check_chain :: "segment list \<Rightarrow> st_error + unit" where
  "check_chain chain =
     and_then (guard (chain \<noteq> []) EmptyChain) (\<lambda>_.
       guard (length chain \<le> max_chain_depth) (ChainTooDeep (length chain)))"

definition resolve_query :: "version list \<Rightarrow> segment list \<Rightarrow> string \<Rightarrow> (pk \<Rightarrow> bool) \<Rightarrow> (row \<Rightarrow> bool) option
    \<Rightarrow> page \<Rightarrow> st_error + table" where
  "resolve_query side chain sid kf filt pg =
     and_then (check_chain chain) (\<lambda>_. Inr (resolved side chain sid kf filt pg))"

text \<open>\<^verbatim>\<open>resolveMap\<close>.\<close>

definition resolve_map :: "version list \<Rightarrow> segment list \<Rightarrow> string \<Rightarrow> st_error + table" where
  "resolve_map side chain sid = resolve_query side chain sid (\<lambda>_. True) None whole"

text \<open>\<^verbatim>\<open>currentRow\<close>: one key through the whole chain.\<close>

definition current_row :: "store_table \<Rightarrow> version list \<Rightarrow> segment list \<Rightarrow> pk \<Rightarrow> st_error + row option" where
  "current_row t side chain k =
     and_then (left_map KeyError (decode_pk k t)) (\<lambda>_.
       and_then (resolve_query side chain [] (\<lambda>p. p = k) None whole) (\<lambda>m. Inr (fmlookup m k)))"

text \<open>The rows of a page: unordered without a limit, the first of the key order with one.\<close>

definition page_rows :: "page \<Rightarrow> table \<Rightarrow> row list" where
  "page_rows pg m =
     List.map_filter (fmlookup m)
       (if 0 < pg_limit pg then take (nat (pg_limit pg)) (sort_key (pg_rank pg) (fm_keys m)) else fm_keys m)"

datatype read_point = AtHead | AtCommit digest | AsOf i64

text \<open>The latest commit of a branch at or before a time.\<close>

definition commit_as_of :: "dbase \<Rightarrow> string \<Rightarrow> i64 \<Rightarrow> commit_rec option" where
  "commit_as_of db branch t =
     (case rev (sort_key cw_seq (filter (\<lambda>w. cw_branch w = branch \<and> sint (cw_at w) \<le> sint t) (db_commits db)))
      of [] \<Rightarrow> None | w # _ \<Rightarrow> Some w)"

definition read_chain :: "dbase \<Rightarrow> string \<Rightarrow> read_point \<Rightarrow> st_error + segment list" where
  "read_chain db name p =
     and_then (ref_row db (if name = [] then default_branch else name)) (\<lambda>(branch, head, sq, chain).
       case p of
         AtHead \<Rightarrow> Inr chain
       | AtCommit c \<Rightarrow> chain_at db c
       | AsOf t \<Rightarrow> and_then (some_or (NoSuchCommit []) (commit_as_of db branch t)) (\<lambda>w. chain_at db (cw_id w)))"

definition store_read :: "dbase \<Rightarrow> store_table \<Rightarrow> string \<Rightarrow> read_point \<Rightarrow> (row \<Rightarrow> bool) option \<Rightarrow> page
    \<Rightarrow> st_error + row list" where
  "store_read db t name p filt pg =
     and_then (read_chain db name p) (\<lambda>chain.
       and_then (resolve_query (db_side db (st_id t)) chain [] (\<lambda>_. True) filt pg) (\<lambda>m. Inr (page_rows pg m)))"

end
