(* ===== verification/StoreWrites.thy ===== *)
theory StoreWrites
  imports StoreDefs
begin

text \<open>
  The write paths of the store: tracking with its backfill, the atomic commit, and sessions, after
  \<^verbatim>\<open>internal/store/store.go\<close> and \<^verbatim>\<open>branch.go\<close>. A key whose row has no encodable key columns is an
  error here, since the live table is a map from keys.
\<close>

subsection \<open>Rows as they are stored\<close>

definition bind_all :: "dbenv \<Rightarrow> val list \<Rightarrow> st_error + unit" where
  "bind_all env vs =
     fold_steps (\<lambda>v _. and_then (left_map BindError (bind_value (de_scan env) v)) (\<lambda>_. Inr ())) vs ()"

text \<open>A row as its columns hold it: one value per column of the table.\<close>

definition full_row :: "store_table \<Rightarrow> row \<Rightarrow> row" where
  "full_row t r = Some (fm_tabulate (table_col_ids t) (row_get r))"

text \<open>\<^verbatim>\<open>pkValueOf\<close>: from the row when there is one, else decoded from the key, else null.\<close>

definition pk_value_of :: "store_change \<Rightarrow> store_table \<Rightarrow> colid \<Rightarrow> val" where
  "pk_value_of ch t i =
     (case sc_row ch of
        Some m \<Rightarrow> row_get (Some m) i
      | None \<Rightarrow> (case decode_pk (sc_pk' ch) t of
          Inl _ \<Rightarrow> null_val
        | Inr vs \<Rightarrow> (case find (\<lambda>p. fst p = i) (zip (st_pk t) vs) of Some (_, v) \<Rightarrow> v | None \<Rightarrow> null_val)))"

text \<open>The values of a version row: a delete carries its key and nothing else.\<close>

definition version_row :: "store_table \<Rightarrow> op \<Rightarrow> store_change \<Rightarrow> row" where
  "version_row t o' ch =
     (if o' = OpDelete then
        Some (fm_tabulate (table_col_ids t) (\<lambda>c. if c \<in> set (st_pk t) then pk_value_of ch t c else null_val))
      else full_row t (sc_row ch))"

definition row_values :: "store_table \<Rightarrow> row \<Rightarrow> val list" where
  "row_values t r = map (row_get r) (table_col_ids t)"

text \<open>The sidecar's primary key is the branch, the key and the first sequence number.\<close>

definition insert_row :: "version \<Rightarrow> version list \<Rightarrow> st_error + version list" where
  "insert_row v side =
     and_then (guard (\<not> list_ex (\<lambda>u. v_branch u = v_branch v \<and> v_pk u = v_pk v \<and> v_from u = v_from v) side)
                DuplicateVersion) (\<lambda>_. Inr (side @ [v]))"

text \<open>The key a version is stored under is the one its key columns hold, which need not be the key of the change.\<close>

definition version_key :: "store_table \<Rightarrow> row \<Rightarrow> st_error + pk" where
  "version_key t r = some_or NoPrimaryKey (make_pk r (st_pk t))"

definition insert_version :: "dbenv \<Rightarrow> store_table \<Rightarrow> string \<Rightarrow> int \<Rightarrow> op \<Rightarrow> store_change \<Rightarrow> colmask
    \<Rightarrow> version list \<Rightarrow> st_error + version list" where
  "insert_version env t branch sq o' ch msk side =
     and_then (bind_all env (row_values t (version_row t o' ch))) (\<lambda>_.
     and_then (version_key t (version_row t o' ch)) (\<lambda>k.
       insert_row \<lparr>v_branch = branch, v_pk = k, v_from = sq, v_to = max_seq, v_op = o', v_commit = [],
                   v_session = [], v_changed = msk, v_row = version_row t o' ch\<rparr> side))"

definition close_versions :: "store_table \<Rightarrow> string \<Rightarrow> pk \<Rightarrow> int \<Rightarrow> version list \<Rightarrow> st_error + version list" where
  "close_versions t branch k at_seq side =
     and_then (left_map KeyError (decode_pk k t)) (\<lambda>_.
       Inr (map (\<lambda>v. if v_branch v = branch \<and> v_session v = [] \<and> v_to v = max_seq \<and> v_pk v = k
                     then v\<lparr>v_to := at_seq\<rparr> else v) side))"

text \<open>The live table: a delete by key, or an upsert under the key of the row.\<close>

definition apply_live :: "dbenv \<Rightarrow> store_table \<Rightarrow> store_change \<Rightarrow> op \<Rightarrow> table \<Rightarrow> st_error + table" where
  "apply_live env t ch o' live =
     and_then (left_map KeyError (decode_pk (sc_pk' ch) t)) (\<lambda>_.
       and_then (if o' = OpDelete then Inr (fmdrop (sc_pk' ch) live)
                 else and_then (bind_all env (row_values t (sc_row ch))) (\<lambda>_.
                   and_then (some_or LiveRejected (make_pk (full_row t (sc_row ch)) (st_pk t))) (\<lambda>k.
                     Inr (fmupd k (full_row t (sc_row ch)) live))))
         (\<lambda>live'. and_then (guard (de_live_ok env t live') LiveRejected) (\<lambda>_. Inr live')))"

subsection \<open>Tracking\<close>

definition table_schema_digest :: "store_table \<Rightarrow> digest" where
  "table_schema_digest t =
     schema_digest (st_id t)
       (map (\<lambda>c. \<lparr>sc_id = ac_id c, sc_name = ac_name c, sc_type = ac_type c, sc_nullable = ac_nullable c,
                  sc_pk = ac_id c \<in> set (st_pk t)\<rparr>) (st_columns t))"

text \<open>The column types that have a canonical encoding, after \<^verbatim>\<open>supportedTypes\<close> and \<^verbatim>\<open>KindFor\<close>.\<close>

definition supported_types :: "(string \<times> kind) list" where
  "supported_types =
     [(''boolean'', KindBool), (''smallint'', KindInt), (''integer'', KindInt), (''bigint'', KindInt),
      (''real'', KindFloat), (''double precision'', KindFloat), (''numeric'', KindNumeric), (''text'', KindText),
      (''character varying'', KindText), (''character'', KindText), (''uuid'', KindText), (''bytea'', KindBytes),
      (''timestamp with time zone'', KindTime), (''timestamp without time zone'', KindTime), (''date'', KindTime)]"

definition kind_for :: "string \<Rightarrow> kind option" where
  "kind_for ty =
     (let base = to_lower (trim_space ty);
          base = (if CHR ''('' \<in> set base then trim_space (takeWhile (\<lambda>c. c \<noteq> CHR ''('') base) else base)
      in map_of supported_types base)"

definition unsupported_columns :: "store_table \<Rightarrow> (string \<times> string) list" where
  "unsupported_columns t =
     map (\<lambda>c. (ac_name c, ac_type c)) (filter (\<lambda>c. kind_for (ac_type c) = None) (st_columns t))"

definition import_version :: "string \<Rightarrow> int \<Rightarrow> digest \<Rightarrow> pk \<times> row \<Rightarrow> version" where
  "import_version branch sq c kr =
     \<lparr>v_branch = branch, v_pk = fst kr, v_from = sq, v_to = max_seq, v_op = OpInsert, v_commit = c,
      v_session = [], v_changed = [], v_row = snd kr\<rparr>"

text \<open>Registration and backfill of a live table that already holds rows.\<close>

definition track :: "store_table \<Rightarrow> table \<Rightarrow> dbase \<Rightarrow> st_error + dbase" where
  "track t rows db =
     and_then (guard (st_pk t \<noteq> []) NoPrimaryKey) (\<lambda>_.
     and_then (guard (unsupported_columns t = []) (UnsupportedColumns (unsupported_columns t))) (\<lambda>_.
     and_then (guard (\<not> list_ex (\<lambda>u. st_id u = st_id t \<or> st_physical u = st_physical t) (db_tables db))
                 DuplicateTable) (\<lambda>_.
     and_then (some_or (NoSuchBranch default_branch) (find (\<lambda>r. rf_id r = db_default db) (db_refs db))) (\<lambda>r.
       Inr (db\<lparr>db_tables := db_tables db @ [t],
               db_live := (db_live db)(st_id t := rows),
               db_side := (db_side db)(st_id t :=
                 map (import_version (db_default db) (rf_seq r) (rf_head r))
                   (map (\<lambda>k. (k, state_row rows k)) (fm_keys rows)))\<rparr>)))))"

definition untrack :: "store_table \<Rightarrow> dbase \<Rightarrow> dbase" where
  "untrack t db = db\<lparr>db_tables := filter (\<lambda>u. st_id u \<noteq> st_id t) (db_tables db),
                     db_side := (db_side db)(st_id t := [])\<rparr>"

subsection \<open>Commit\<close>

record commit_request =
  rq_branch :: string
  rq_changes :: "store_change list"
  rq_author :: string
  rq_message :: string
  rq_ref :: string
  rq_expected :: "digest option"
  rq_parents :: "digest list"

record commit_work =
  wk_side :: "version list"
  wk_live :: table
  wk_leaves :: "hash_change list"

text \<open>What a change comes to against the row in force: nothing, or an operation.\<close>

definition effective_op :: "store_change \<Rightarrow> row option \<Rightarrow> op option" where
  "effective_op ch before =
     (if sc_op ch = OpDelete then (if before = None then None else Some OpDelete)
      else case before of
        None \<Rightarrow> Some OpInsert
      | Some r \<Rightarrow> if row_equal r (sc_row ch) then None else Some OpUpdate)"

text \<open>The body of the loop of \<^verbatim>\<open>Commit\<close>.\<close>

definition commit_step :: "dbenv \<Rightarrow> store_table \<Rightarrow> bool \<Rightarrow> string \<Rightarrow> int \<Rightarrow> segment list \<Rightarrow> store_change
    \<Rightarrow> commit_work \<Rightarrow> st_error + commit_work" where
  "commit_step env t is_default branch sq chain ch w =
     and_then (current_row t (wk_side w) chain (sc_pk' ch)) (\<lambda>before.
       case effective_op ch before of
         None \<Rightarrow> Inr w
       | Some o' \<Rightarrow>
           let msk = mask_of (opt_row before) (sc_row ch) (table_col_ids t) in
           and_then (if is_default then apply_live env t ch o' (wk_live w) else Inr (wk_live w)) (\<lambda>live.
           and_then (close_versions t branch (sc_pk' ch) sq (wk_side w)) (\<lambda>side.
           and_then (some_or SealError (de_seal env t (sc_row ch))) (\<lambda>sealed.
           and_then (insert_version env t branch sq o' (ch\<lparr>sc_row := sealed\<rparr>) msk side) (\<lambda>side'.
             Inr \<lparr>wk_side = side', wk_live = live,
                  wk_leaves = wk_leaves w @ [\<lparr>hc_table = st_id t, hc_pk = sc_pk' ch, hc_op = o',
                     hc_changed = msk, hc_row = sc_row ch\<rparr>]\<rparr>)))))"

text \<open>The commit id goes to every version of the branch that starts at the new sequence number.\<close>

definition stamp_versions :: "string \<Rightarrow> int \<Rightarrow> digest \<Rightarrow> version list \<Rightarrow> version list" where
  "stamp_versions branch sq c side =
     map (\<lambda>v. if v_branch v = branch \<and> v_from v = sq then v\<lparr>v_commit := c\<rparr> else v) side"

text \<open>The commit record and the advanced reference, shared by commits and session commits.\<close>

definition commit_record :: "string \<Rightarrow> store_table \<Rightarrow> string \<Rightarrow> int \<Rightarrow> segment list \<Rightarrow> digest list \<Rightarrow> string \<Rightarrow> i64 \<Rightarrow> string
    \<Rightarrow> string \<Rightarrow> hash_change list \<Rightarrow> st_error + commit_rec" where
  "commit_record repo t branch sq chain parents author now message ext leaves =
     and_then (left_map DigestError (change_digest leaves (table_col_ids t))) (\<lambda>cd.
       let sd = table_schema_digest t in
       Inr \<lparr>cw_id = commit_hash \<lparr>ci_repo = repo, ci_parents = parents, ci_change = cd, ci_schema = sd,
              ci_author = author, ci_author_at = now, ci_message = message, ci_external_ref = ext\<rparr>,
            cw_branch = branch, cw_seq = sq, cw_parents = parents, cw_author = author, cw_at = now,
            cw_message = message, cw_ref = ext, cw_change = cd, cw_schema = sd, cw_chain = chain,
            cw_purged = False\<rparr>)"

definition store_commit :: "dbenv \<Rightarrow> store_table \<Rightarrow> i64 \<Rightarrow> commit_request \<Rightarrow> dbase
    \<Rightarrow> st_error + dbase \<times> digest \<times> nat" where
  "store_commit env t now rq db =
     and_then (guard (rq_author rq \<noteq> []) NoAuthor) (\<lambda>_.
     and_then (ref_row db (rq_branch rq)) (\<lambda>(branch, head, headseq, chain).
     and_then (guard (rq_expected rq = None \<or> rq_expected rq = Some head) HeadMoved) (\<lambda>_.
       let sq = headseq + 1;
           side = db_side db (st_id t)
       in and_then (fold_steps (commit_step env t (branch = db_default db) branch sq chain)
              (sort_key sc_pk' (rq_changes rq)) \<lparr>wk_side = side, wk_live = db_live db (st_id t), wk_leaves = []\<rparr>) (\<lambda>w.
          let newchain = \<lparr>sg_branch = branch, sg_seq = sq\<rparr> # tl chain in
          and_then (commit_record (db_repo db) t branch sq newchain (head # rq_parents rq) (rq_author rq) now
              (rq_message rq) (rq_ref rq) (wk_leaves w)) (\<lambda>cr.
          and_then (insert_commit cr
              (db\<lparr>db_side := (db_side db)(st_id t := stamp_versions branch sq (cw_id cr) (wk_side w)),
                 db_live := (db_live db)(st_id t := wk_live w)\<rparr>)) (\<lambda>db'.
            Inr (advance_ref branch (cw_id cr) sq newchain db', cw_id cr, length (wk_leaves w))))))))"

subsection \<open>Sessions\<close>

definition default_lease :: int where
  "default_lease = 24 * 60 * 60 * 1000000"

text \<open>The id is the session table's primary key.\<close>

definition open_session_row :: "dbase \<Rightarrow> string \<Rightarrow> string \<Rightarrow> string \<Rightarrow> int \<Rightarrow> st_error + dbase" where
  "open_session_row db sid name who now =
     and_then (guard (name \<noteq> default_branch) SessionOnDefault) (\<lambda>_.
     and_then (ref_row db name) (\<lambda>(branch, head, sq, chain).
     and_then (guard (\<not> list_ex (\<lambda>s. ss_id s = sid) (db_sessions db)) DuplicateSession) (\<lambda>_.
       Inr (db\<lparr>db_sessions := db_sessions db @
              [\<lparr>ss_id = sid, ss_branch = branch, ss_principal = who, ss_base = head, ss_base_seq = sq,
                ss_state = SessOpen, ss_lease = now + default_lease\<rparr>]\<rparr>))))"

text \<open>\<^verbatim>\<open>loadSession\<close>: the session with its branch, which must be open and within its lease.\<close>

definition load_session :: "dbase \<Rightarrow> string \<Rightarrow> int \<Rightarrow> st_error + session_row \<times> ref" where
  "load_session db sid now =
     and_then (some_or (NoSuchSession sid) (find (\<lambda>s. ss_id s = sid) (db_sessions db))) (\<lambda>s.
     and_then (some_or (NoSuchSession sid) (find (\<lambda>r. rf_id r = ss_branch s) (db_refs db))) (\<lambda>r.
     and_then (guard (ss_state s = SessOpen) SessionNotOpen) (\<lambda>_.
     and_then (guard (now \<le> ss_lease s) SessionExpired) (\<lambda>_. Inr (s, r)))))"

definition update_session :: "string \<Rightarrow> (session_row \<Rightarrow> session_row) \<Rightarrow> dbase \<Rightarrow> dbase" where
  "update_session sid f db =
     db\<lparr>db_sessions := map (\<lambda>s. if ss_id s = sid then f s else s) (db_sessions db)\<rparr>"

text \<open>\<^verbatim>\<open>sessionView\<close>: the chain of the session's base commit under the session's own staged rows.\<close>

definition session_view :: "dbase \<Rightarrow> store_table \<Rightarrow> session_row \<Rightarrow> st_error + table" where
  "session_view db t s =
     and_then (chain_at db (ss_base s)) (\<lambda>chain. resolve_map (db_side db (st_id t)) chain (ss_id s))"

definition store_session_resolve :: "dbase \<Rightarrow> store_table \<Rightarrow> string \<Rightarrow> int \<Rightarrow> st_error + table" where
  "store_session_resolve db t sid now =
     and_then (load_session db sid now) (\<lambda>(s, r). session_view db t s)"

definition staged_values :: "store_table \<Rightarrow> op \<Rightarrow> store_change \<Rightarrow> row" where
  "staged_values t o' ch =
     Some (fm_tabulate (table_col_ids t)
       (\<lambda>c. if o' = OpDelete \<and> c \<notin> set (st_pk t) then null_val else pk_value_of ch t c))"

definition staged_row :: "store_table \<Rightarrow> session_row \<Rightarrow> pk \<Rightarrow> op \<Rightarrow> store_change \<Rightarrow> colmask \<Rightarrow> version" where
  "staged_row t s k o' ch msk =
     \<lparr>v_branch = ss_branch s, v_pk = k, v_from = ss_base_seq s + 1, v_to = max_seq, v_op = o',
      v_commit = [], v_session = ss_id s, v_changed = msk, v_row = staged_values t o' ch\<rparr>"

text \<open>One change of \<^verbatim>\<open>SessionWrite\<close>, on the sidecar and the view it keeps.\<close>

definition stage_change :: "dbenv \<Rightarrow> store_table \<Rightarrow> session_row \<Rightarrow> store_change \<Rightarrow> version list \<times> table
    \<Rightarrow> st_error + version list \<times> table" where
  "stage_change env t s ch st =
     (let (side, view) = st; before = fmlookup view (sc_pk' ch) in
      case effective_op ch before of
        None \<Rightarrow> Inr st
      | Some o' \<Rightarrow>
          and_then (left_map KeyError (decode_pk (sc_pk' ch) t)) (\<lambda>_.
          and_then (bind_all env (row_values t (staged_values t o' ch))) (\<lambda>_.
          and_then (version_key t (staged_values t o' ch)) (\<lambda>k.
          and_then (insert_row (staged_row t s k o' ch (mask_of (opt_row before) (sc_row ch) (table_col_ids t))) (filter (\<lambda>u. \<not> (v_session u = ss_id s \<and> v_pk u = sc_pk' ch)) side)) (\<lambda>side'.
            Inr (side', if o' = OpDelete then fmdrop (sc_pk' ch) view
                        else fmupd (sc_pk' ch) (sc_row ch) view))))))"

definition store_session_write :: "dbenv \<Rightarrow> store_table \<Rightarrow> string \<Rightarrow> int \<Rightarrow> store_change list \<Rightarrow> dbase
    \<Rightarrow> st_error + dbase" where
  "store_session_write env t sid now changes db =
     and_then (load_session db sid now) (\<lambda>(s, r).
     and_then (session_view db t s) (\<lambda>view.
     and_then (fold_steps (stage_change env t s) changes (db_side db (st_id t), view)) (\<lambda>(side, _).
       Inr (update_session sid (\<lambda>u. u\<lparr>ss_lease := now + default_lease\<rparr>)
              (db\<lparr>db_side := (db_side db)(st_id t := side)\<rparr>)))))"

text \<open>\<^verbatim>\<open>stagedChanges\<close>, in key order; a staged row's key is the one of its key columns.\<close>

definition staged_of :: "string \<Rightarrow> version list \<Rightarrow> version list" where
  "staged_of sid side = sort_key v_pk (filter (\<lambda>v. v_session v = sid) side)"

definition staged_leaf :: "store_table \<Rightarrow> version \<Rightarrow> hash_change" where
  "staged_leaf t v =
     \<lparr>hc_table = st_id t, hc_pk = v_pk v, hc_op = v_op v, hc_changed = v_changed v,
      hc_row = (if v_op v = OpDelete then None else v_row v)\<rparr>"

definition stamp_session :: "string \<Rightarrow> int \<Rightarrow> digest \<Rightarrow> version list \<Rightarrow> version list" where
  "stamp_session sid sq c side =
     map (\<lambda>v. if v_session v = sid then v\<lparr>v_session := [], v_commit := c, v_from := sq\<rparr> else v) side"

definition keys_distinct :: "version list \<Rightarrow> bool" where
  "keys_distinct side = distinct (map (\<lambda>v. (v_branch v, v_pk v, v_from v)) side)"

definition store_commit_session :: "store_table \<Rightarrow> string \<Rightarrow> i64 \<Rightarrow> string \<Rightarrow> string \<Rightarrow> dbase
    \<Rightarrow> st_error + dbase \<times> digest \<times> nat" where
  "store_commit_session t sid now author message db =
     and_then (load_session db sid (sint now)) (\<lambda>(s, r).
     and_then (ref_row db (rf_name r)) (\<lambda>(branch, head, headseq, chain).
     and_then (guard (head = ss_base s) SessionBehind) (\<lambda>_.
       let sq = headseq + 1;
           side = db_side db (st_id t);
           staged = staged_of sid side
       in and_then (guard (staged \<noteq> []) NothingStaged) (\<lambda>_.
          and_then (fold_steps (\<lambda>v. close_versions t (ss_branch s) (v_pk v) sq) staged side) (\<lambda>closed.
          let newchain = \<lparr>sg_branch = ss_branch s, sg_seq = sq\<rparr> # tl chain in
          and_then (commit_record (db_repo db) t (ss_branch s) sq newchain [head] author now message []
              (map (staged_leaf t) staged)) (\<lambda>cr.
          let stamped = stamp_session sid sq (cw_id cr) closed in
          and_then (guard (keys_distinct stamped) DuplicateVersion) (\<lambda>_.
          and_then (insert_commit cr (db\<lparr>db_side := (db_side db)(st_id t := stamped)\<rparr>)) (\<lambda>db'.
            Inr (update_session sid (\<lambda>u. u\<lparr>ss_state := SessCommitted\<rparr>)
                   (advance_ref (ss_branch s) (cw_id cr) sq newchain db'), cw_id cr, length staged)))))))))"

definition drop_staged :: "string \<Rightarrow> version list \<Rightarrow> version list" where
  "drop_staged sid side = filter (\<lambda>v. v_session v \<noteq> sid) side"

definition store_abandon_session :: "store_table \<Rightarrow> string \<Rightarrow> dbase \<Rightarrow> dbase" where
  "store_abandon_session t sid db =
     update_session sid (\<lambda>s. s\<lparr>ss_state := SessAbandoned\<rparr>)
       (db\<lparr>db_side := (db_side db)(st_id t := drop_staged sid (db_side db (st_id t)))\<rparr>)"

definition expired_sessions :: "dbase \<Rightarrow> int \<Rightarrow> string list" where
  "expired_sessions db now =
     map ss_id (filter (\<lambda>s. ss_state s = SessOpen \<and> ss_lease s < now) (db_sessions db))"

definition reap_session :: "string \<Rightarrow> dbase \<Rightarrow> dbase" where
  "reap_session sid db =
     update_session sid (\<lambda>s. s\<lparr>ss_state := SessExpired\<rparr>)
       (foldl (\<lambda>d t. d\<lparr>db_side := (db_side d)(st_id t := drop_staged sid (db_side d (st_id t)))\<rparr>)
          db (db_tables db))"

definition reap_expired :: "int \<Rightarrow> dbase \<Rightarrow> dbase \<times> nat" where
  "reap_expired now db =
     (let ids = expired_sessions db now in (foldl (\<lambda>d sid. reap_session sid d) db ids, length ids))"

end
