(* ===== verification/StoreMerge.thy ===== *)
theory StoreMerge
  imports StoreWrites EngineOps
begin

text \<open>
  Merge bases, three-way merge, \<^verbatim>\<open>UpdateFromParent\<close>, diff, revert and the chunked apply of the store,
  after \<^verbatim>\<open>internal/store/merge.go\<close>, \<^verbatim>\<open>branch.go\<close>, \<^verbatim>\<open>read.go\<close>, \<^verbatim>\<open>revert.go\<close> and \<^verbatim>\<open>chunked.go\<close>. The
  case table of a merge and the walk of the commit graph are those of the engine, which the store repeats.
\<close>

subsection \<open>Merge\<close>

definition commit_graph :: "dbase \<Rightarrow> graph" where
  "commit_graph db = fmap_of_list (map (\<lambda>w. (cw_id w, cw_parents w)) (db_commits db))"

definition store_merge_base :: "dbase \<Rightarrow> digest \<Rightarrow> digest \<Rightarrow> digest list" where
  "store_merge_base db a b = engine_merge_base (commit_graph db) a b"

text \<open>The closure \<^verbatim>\<open>accumulate\<close> of \<^verbatim>\<open>maskSince\<close>.\<close>

definition mask_range :: "version list \<Rightarrow> string \<Rightarrow> int \<Rightarrow> int \<Rightarrow> (pk, colmask) fmap \<Rightarrow> (pk, colmask) fmap" where
  "mask_range side branch lo hi out =
     (if hi \<le> lo then out
      else foldl (\<lambda>o' v. fmupd (v_pk v) (mask_or (mask_at o' (v_pk v)) (v_changed v)) o') out
             (filter (\<lambda>v. v_branch v = branch \<and> v_session v = [] \<and> lo < v_from v \<and> v_from v \<le> hi) side))"

definition store_mask_since :: "version list \<Rightarrow> segment list \<Rightarrow> segment list \<Rightarrow> (pk, colmask) fmap" where
  "store_mask_since side chain base_chain =
     (let upper = base_upper base_chain;
          out = foldl (\<lambda>o' seg.
                  case fmlookup upper (sg_branch seg) of
                    None \<Rightarrow> mask_range side (sg_branch seg) 0 (sg_seq seg) o'
                  | Some base_seq \<Rightarrow>
                      if sg_seq seg < base_seq then mask_range side (sg_branch seg) (sg_seq seg) base_seq o'
                      else mask_range side (sg_branch seg) base_seq (sg_seq seg) o') fmempty chain
      in foldl (\<lambda>o' seg. if sg_branch seg \<notin> sg_branch ` set chain
                         then mask_range side (sg_branch seg) 0 (sg_seq seg) o' else o') out base_chain)"

definition store_merge_states :: "store_table \<Rightarrow> table \<Rightarrow> table \<Rightarrow> table \<Rightarrow> (pk, colmask) fmap
    \<Rightarrow> (pk, colmask) fmap \<Rightarrow> table \<times> conflict list" where
  "store_merge_states t base ours theirs mask_o mask_t =
     merge_with (masked_cells (table_col_ids t) mask_o mask_t) base ours theirs"

text \<open>The change set: the difference between the merged result and the target.\<close>

definition merge_write :: "table \<Rightarrow> table \<Rightarrow> pk \<Rightarrow> store_change option" where
  "merge_write merged ours k =
     (case fmlookup merged k of
        None \<Rightarrow> None
      | Some r \<Rightarrow> (case fmlookup ours k of
          None \<Rightarrow> Some \<lparr>sc_pk' = k, sc_op = OpInsert, sc_row = r\<rparr>
        | Some c \<Rightarrow> if row_equal c r then None else Some \<lparr>sc_pk' = k, sc_op = OpUpdate, sc_row = r\<rparr>))"

definition merge_changes :: "table \<Rightarrow> table \<Rightarrow> conflict list \<Rightarrow> store_change list" where
  "merge_changes merged ours conflicts =
     sort_key sc_pk'
       (List.map_filter (merge_write merged ours) (fm_keys merged) @
        map (\<lambda>k. \<lparr>sc_pk' = k, sc_op = OpDelete, sc_row = None\<rparr>)
          (filter (\<lambda>k. fmlookup merged k = None \<and> k \<notin> cf_pk ` set conflicts) (fm_keys ours)))"

definition violation_conflicts :: "violation list \<Rightarrow> conflict list" where
  "violation_conflicts vs =
     concat (map (\<lambda>v. map (\<lambda>k. \<lparr>cf_pk = k, cf_kind = ConflictConstraint, cf_col = 0, cf_has_col = False,
       cf_base = text_val (vi_kind v), cf_ours = text_val (vi_detail v), cf_theirs = text_val (vi_message v)\<rparr>)
       (vi_pks v)) vs)"

record store_merge_result =
  sm_base :: digest
  sm_clean :: bool
  sm_conflicts :: "conflict list"
  sm_changes :: "store_change list"
  sm_commit :: digest
  sm_applied :: nat

text \<open>Everything up to the commit; also the source's head, the second parent.\<close>

definition merge_plan :: "store_table \<Rightarrow> live_index list \<Rightarrow> string \<Rightarrow> string \<Rightarrow> dbase
    \<Rightarrow> st_error + store_merge_result \<times> digest" where
  "merge_plan t uniques from into db =
     and_then (ref_row db from) (\<lambda>(fid, fhead, fseq, fchain).
     and_then (ref_row db into) (\<lambda>(iid, ihead, iseq, ichain).
       let bases = store_merge_base db ihead fhead; side = db_side db (st_id t) in
       and_then (guard (length bases = 1) (BasesFound (length bases))) (\<lambda>_.
       let base = hd bases in
       and_then (chain_at db base) (\<lambda>bchain.
       and_then (resolve_map side bchain []) (\<lambda>base_state.
       and_then (resolve_map side ichain []) (\<lambda>ours.
       and_then (resolve_map side fchain []) (\<lambda>theirs.
         let (merged, conflicts) = store_merge_states t base_state ours theirs
               (store_mask_since side ichain bchain) (store_mask_since side fchain bchain);
             changes = merge_changes merged ours conflicts
         in and_then (if conflicts = [] then left_map ValidationError (validate_merge t ours changes uniques)
                      else Inr []) (\<lambda>vs.
            Inr (\<lparr>sm_base = base, sm_clean = (conflicts = [] \<and> vs = []),
                  sm_conflicts = conflicts @ violation_conflicts vs, sm_changes = changes,
                  sm_commit = zero_digest, sm_applied = 0\<rparr>, fhead)))))))))"

definition merge_message :: "string \<Rightarrow> string \<Rightarrow> string" where
  "merge_message from into = ''Merge '' @ from @ '' into '' @ into"

definition store_merge :: "dbenv \<Rightarrow> store_table \<Rightarrow> live_index list \<Rightarrow> i64 \<Rightarrow> string \<Rightarrow> string \<Rightarrow> string
    \<Rightarrow> string \<Rightarrow> bool \<Rightarrow> dbase \<Rightarrow> st_error + dbase \<times> store_merge_result" where
  "store_merge env t uniques now from into author message apply db =
     and_then (merge_plan t uniques from into db) (\<lambda>(res, fhead).
       if \<not> sm_clean res \<or> \<not> apply then Inr (db, res)
       else and_then (store_commit env t now
              \<lparr>rq_branch = into, rq_changes = sm_changes res, rq_author = author,
               rq_message = (if message = [] then merge_message from into else message), rq_ref = [],
               rq_expected = None, rq_parents = [fhead]\<rparr> db) (\<lambda>(db', c, n).
            Inr (db', res\<lparr>sm_commit := c, sm_applied := n\<rparr>)))"

definition update_message :: "string \<Rightarrow> string \<Rightarrow> string" where
  "update_message branch parent = ''Update '' @ branch @ '' from '' @ parent"

text \<open>The chain of the branch on top of the parent's current one.\<close>

definition rebase_chain :: "string \<Rightarrow> dbase \<Rightarrow> string \<Rightarrow> st_error + dbase" where
  "rebase_chain parent db name =
     and_then (ref_row db parent) (\<lambda>(pid, phead, pseq, pchain).
     and_then (ref_row db name) (\<lambda>(bid, head, sq, chain).
       Inr (update_ref bid (\<lambda>r. r\<lparr>rf_fork_commit := phead, rf_fork_seq := pseq,
              rf_chain := \<lparr>sg_branch = bid, sg_seq = sq\<rparr> # \<lparr>sg_branch = pid, sg_seq = pseq\<rparr> # tl pchain\<rparr>) db)))"

definition store_update_from_parent :: "dbenv \<Rightarrow> store_table \<Rightarrow> live_index list \<Rightarrow> i64 \<Rightarrow> string \<Rightarrow> string
    \<Rightarrow> dbase \<Rightarrow> st_error + dbase \<times> store_merge_result" where
  "store_update_from_parent env t uniques now name author db =
     and_then (some_or (NoSuchBranch name) (find_branch db name)) (\<lambda>r.
       let parent = (case find (\<lambda>p. rf_id p = rf_parent r) (db_refs db) of Some p \<Rightarrow> rf_name p | None \<Rightarrow> []) in
       and_then (guard (parent \<noteq> []) NoParentToUpdate) (\<lambda>_.
       and_then (store_merge env t uniques now parent name author (update_message name parent) True db) (\<lambda>(db', res).
         if \<not> sm_clean res then Inr (db', res)
         else and_then (rebase_chain parent db' name) (\<lambda>db''. Inr (db'', res)))))"

subsection \<open>Diff and revert\<close>

record diff_entry =
  df_pk :: pk
  df_op :: op
  df_before :: row
  df_after :: row
  df_changed :: colmask

text \<open>\<^verbatim>\<open>DiffQuery\<close>: the keys of the versions that start in the range.\<close>

definition touched :: "version list \<Rightarrow> string \<Rightarrow> int \<Rightarrow> int \<Rightarrow> pk list" where
  "touched side branch lo hi =
     remdups (map v_pk (filter (\<lambda>v. v_branch v = branch \<and> v_session v = [] \<and> lo < v_from v \<and> v_from v \<le> hi) side))"

definition replace_head :: "segment list \<Rightarrow> string \<Rightarrow> int \<Rightarrow> segment list" where
  "replace_head chain branch sq =
     (case chain of
        [] \<Rightarrow> []
      | s # ss \<Rightarrow> if sg_branch s = branch then s\<lparr>sg_seq := sq\<rparr> # ss else s # ss)"

definition row_at :: "store_table \<Rightarrow> version list \<Rightarrow> segment list \<Rightarrow> pk \<Rightarrow> st_error + row option" where
  "row_at t side chain k = (if chain = [] then Inr None else current_row t side chain k)"

definition diff_of :: "store_table \<Rightarrow> pk \<Rightarrow> row option \<Rightarrow> row option \<Rightarrow> diff_entry option" where
  "diff_of t k before after =
     (case before of
        Some b \<Rightarrow> (case after of
            None \<Rightarrow> Some \<lparr>df_pk = k, df_op = OpDelete, df_before = b, df_after = None, df_changed = []\<rparr>
          | Some a \<Rightarrow> if row_equal b a then None
              else Some \<lparr>df_pk = k, df_op = OpUpdate, df_before = b, df_after = a,
                         df_changed = mask_of b a (table_col_ids t)\<rparr>)
      | None \<Rightarrow> (case after of
            None \<Rightarrow> None
          | Some a \<Rightarrow> Some \<lparr>df_pk = k, df_op = OpInsert, df_before = None, df_after = a,
                           df_changed = mask_of None a (table_col_ids t)\<rparr>))"

definition diff_step :: "store_table \<Rightarrow> version list \<Rightarrow> segment list \<Rightarrow> segment list \<Rightarrow> pk \<Rightarrow> diff_entry list
    \<Rightarrow> st_error + diff_entry list" where
  "diff_step t side before_chain after_chain k out =
     and_then (row_at t side before_chain k) (\<lambda>before.
     and_then (row_at t side after_chain k) (\<lambda>after.
       Inr (out @ (case diff_of t k before after of None \<Rightarrow> [] | Some d \<Rightarrow> [d]))))"

definition store_diff :: "dbase \<Rightarrow> store_table \<Rightarrow> string \<Rightarrow> int \<Rightarrow> int \<Rightarrow> st_error + diff_entry list" where
  "store_diff db t name lo hi =
     and_then (ref_row db name) (\<lambda>(branch, head, headseq, chain).
       let hi = (if hi < 0 then headseq else hi); side = db_side db (st_id t) in
       fold_steps (diff_step t side (replace_head chain branch lo) (replace_head chain branch hi))
         (touched side branch lo hi) [])"

definition undo_change :: "diff_entry \<Rightarrow> store_change" where
  "undo_change d =
     (if df_op d = OpInsert then \<lparr>sc_pk' = df_pk d, sc_op = OpDelete, sc_row = None\<rparr>
      else if df_op d = OpDelete then \<lparr>sc_pk' = df_pk d, sc_op = OpInsert, sc_row = df_before d\<rparr>
      else \<lparr>sc_pk' = df_pk d, sc_op = OpUpdate, sc_row = df_before d\<rparr>)"

text \<open>The message and the external reference of a revert print digests; they are arguments.\<close>

definition store_revert :: "dbenv \<Rightarrow> store_table \<Rightarrow> i64 \<Rightarrow> string \<Rightarrow> digest \<Rightarrow> string \<Rightarrow> string \<Rightarrow> string \<Rightarrow> bool
    \<Rightarrow> dbase \<Rightarrow> st_error + dbase \<times> digest \<times> nat" where
  "store_revert env t now name target author message ext force db =
     and_then (some_or (NoSuchCommit target) (find_commit db target)) (\<lambda>w.
     and_then (guard (cw_seq w \<noteq> 0) RevertRoot) (\<lambda>_.
     and_then (store_diff db t name (cw_seq w - 1) (cw_seq w)) (\<lambda>entries.
     and_then (guard (entries \<noteq> []) NothingToRevert) (\<lambda>_.
     and_then (ref_row db name) (\<lambda>(branch, head, headseq, chain).
     and_then (if cw_seq w < headseq then store_diff db t name (cw_seq w) headseq else Inr []) (\<lambda>later.
       let changed = filter (\<lambda>k. k \<in> df_pk ` set later) (map df_pk entries) in
       and_then (guard (changed = [] \<or> force) (RevertDiscards changed)) (\<lambda>_.
         store_commit env t now
           \<lparr>rq_branch = name, rq_changes = map undo_change entries, rq_author = author, rq_message = message,
            rq_ref = ext, rq_expected = None, rq_parents = []\<rparr> db)))))))"

subsection \<open>Chunked apply\<close>

definition default_apply_limit :: int where
  "default_apply_limit = 50000"

definition apply_chunk :: "dbenv \<Rightarrow> store_table \<Rightarrow> string \<Rightarrow> store_change list \<Rightarrow> dbase \<Rightarrow> st_error + dbase" where
  "apply_chunk env t name chunk db =
     and_then (ref_row db name) (\<lambda>(branch, head, sq, chain).
       if branch \<noteq> db_default db then Inr db
       else and_then (fold_steps (\<lambda>ch live. apply_live env t ch (sc_op ch) live) chunk (db_live db (st_id t)))
              (\<lambda>live. Inr (db\<lparr>db_live := (db_live db)(st_id t := live)\<rparr>)))"

definition set_merging :: "string \<Rightarrow> bool \<Rightarrow> dbase \<Rightarrow> dbase" where
  "set_merging name on db =
     db\<lparr>db_refs := map (\<lambda>r. if rf_kind r = BranchRef \<and> rf_name r = name then r\<lparr>rf_merging := on\<rparr> else r) (db_refs db)\<rparr>"

text \<open>
  Every chunk is its own transaction: a failure keeps the chunks before it. The databases the other
  readers can see are listed, oldest first.
\<close>

function apply_chunks :: "dbenv \<Rightarrow> store_table \<Rightarrow> string \<Rightarrow> nat \<Rightarrow> store_change list \<Rightarrow> dbase
    \<Rightarrow> dbase list \<times> (st_error + dbase)" where
  "apply_chunks env t name n changes db =
     (if n = 0 \<or> changes = [] then ([db], Inr db)
      else case apply_chunk env t name (take n changes) db of
        Inl e \<Rightarrow> ([db], Inl e)
      | Inr db' \<Rightarrow> (case apply_chunks env t name n (drop n changes) db' of (seen, r) \<Rightarrow> (db # seen, r)))"
  by pat_completeness auto
termination by (relation "measure (\<lambda>(env, t, name, n, changes, db). length changes)") auto

declare apply_chunks.simps [simp del]

definition apply_chunked :: "dbenv \<Rightarrow> store_table \<Rightarrow> i64 \<Rightarrow> string \<Rightarrow> store_change list \<Rightarrow> digest list \<Rightarrow> string
    \<Rightarrow> string \<Rightarrow> int \<Rightarrow> dbase \<Rightarrow> dbase list \<times> (st_error + dbase \<times> digest \<times> nat)" where
  "apply_chunked env t now name changes parents author message chunk_size db =
     (let n = (if chunk_size \<le> 0 then 5000 else nat chunk_size);
          sorted = sort_key sc_pk' changes;
          (seen, r) = apply_chunks env t name n sorted (set_merging name True db)
      in (seen, and_then r (\<lambda>db'.
           and_then (store_commit env t now
               \<lparr>rq_branch = name, rq_changes = sorted, rq_author = author, rq_message = message, rq_ref = [],
                rq_expected = None, rq_parents = parents\<rparr> db') (\<lambda>(db'', c, k).
             Inr (set_merging name False db'', c, k)))))"

text \<open>\<^verbatim>\<open>MergeLarge\<close>: what it decides before anything is written.\<close>

datatype large_plan = LargeDone | LargeAtomic | LargeChunked

definition merge_large_plan :: "store_merge_result \<Rightarrow> bool \<Rightarrow> int \<Rightarrow> st_error + large_plan" where
  "merge_large_plan res chunked limit =
     (let lim = (if limit \<le> 0 then default_apply_limit else limit); n = length (sm_changes res) in
      if \<not> sm_clean res then Inr LargeDone
      else if int n \<le> lim then Inr LargeAtomic
      else if \<not> chunked then Inl (MergeTooLarge n (nat lim))
      else Inr LargeChunked)"

end
