(* ===== verification/StoreMaint.thy ===== *)
theory StoreMaint
  imports StoreWrites
begin

text \<open>
  Maintenance and verification of the store, after \<^verbatim>\<open>internal/store/retention.go\<close> and
  \<^verbatim>\<open>read.go\<close>: pruning, garbage collection, the hard purge, the interval, drift and integrity checks,
  history and blame. A statement is again the list operation it denotes.
\<close>

subsection \<open>Retention\<close>

record retention_policy =
  rt_keep_days :: int
  rt_keep_commits :: int

record span =
  sp_pk :: pk
  sp_lo :: int
  sp_hi :: int

text \<open>A closed, committed version of the branch that ends at or before the cutoff.\<close>

definition prunable :: "string \<Rightarrow> int \<Rightarrow> version \<Rightarrow> bool" where
  "prunable branch cutoff v \<longleftrightarrow>
     v_branch v = branch \<and> v_session v = [] \<and> v_to v \<noteq> max_seq \<and> v_to v \<le> cutoff"

text \<open>\<^verbatim>\<open>SELECT key, min(seq_from), max(seq_to) ... GROUP BY key HAVING count(*) > 1\<close>.\<close>

definition key_span :: "version list \<Rightarrow> pk \<Rightarrow> span option" where
  "key_span vs k =
     (let ks = filter (\<lambda>v. v_pk v = k) vs in
      if length ks \<le> 1 then None
      else Some \<lparr>sp_pk = k, sp_lo = Min (set (map v_from ks)), sp_hi = Max (set (map v_to ks))\<rparr>)"

definition prune_spans :: "version list \<Rightarrow> string \<Rightarrow> int \<Rightarrow> span list" where
  "prune_spans side branch cutoff =
     (let vs = filter (prunable branch cutoff) side in List.map_filter (key_span vs) (remdups (map v_pk vs)))"

definition extend_span :: "string \<Rightarrow> span \<Rightarrow> version \<Rightarrow> version" where
  "extend_span branch sp v =
     (if v_branch v = branch \<and> v_session v = [] \<and> v_from v = sp_lo sp \<and> v_pk v = sp_pk sp
      then v\<lparr>v_to := sp_hi sp\<rparr> else v)"

definition covered :: "string \<Rightarrow> int \<Rightarrow> span \<Rightarrow> version \<Rightarrow> bool" where
  "covered branch cutoff sp v \<longleftrightarrow>
     v_branch v = branch \<and> v_session v = [] \<and> sp_lo sp < v_from v \<and> v_to v \<noteq> max_seq \<and> v_to v \<le> cutoff
     \<and> v_pk v = sp_pk sp"

definition prune_span :: "string \<Rightarrow> int \<Rightarrow> span \<Rightarrow> version list \<times> nat \<Rightarrow> version list \<times> nat" where
  "prune_span branch cutoff sp st =
     (let side = map (extend_span branch sp) (fst st)
      in (filter (\<lambda>v. \<not> covered branch cutoff sp v) side,
          snd st + length (filter (covered branch cutoff sp) side)))"

definition prune_side :: "string \<Rightarrow> int \<Rightarrow> version list \<Rightarrow> version list \<times> nat" where
  "prune_side branch cutoff side =
     foldl (\<lambda>st sp. prune_span branch cutoff sp st) (side, 0) (prune_spans side branch cutoff)"

text \<open>The cutoff: by commits kept, raised to the last commit before the days kept.\<close>

definition prune_cutoff :: "dbase \<Rightarrow> string \<Rightarrow> int \<Rightarrow> retention_policy \<Rightarrow> i64 \<Rightarrow> int" where
  "prune_cutoff db branch headseq p before =
     (let by_count = (if 0 < rt_keep_commits p then headseq - rt_keep_commits p else 0);
          seqs = map cw_seq (filter (\<lambda>w. cw_branch w = branch \<and> sint (cw_at w) < sint before) (db_commits db))
      in if 0 < rt_keep_days p \<and> seqs \<noteq> [] \<and> by_count < Max (set seqs) then Max (set seqs) else by_count)"

definition protected_commits :: "dbase \<Rightarrow> digest list \<Rightarrow> digest list" where
  "protected_commits db proposal_merges = remdups (map rf_head (db_refs db) @ proposal_merges)"

record prune_report =
  pr_removed :: nat
  pr_protected :: nat

definition prune :: "store_table \<Rightarrow> retention_policy \<Rightarrow> i64 \<Rightarrow> digest list \<Rightarrow> dbase
    \<Rightarrow> st_error + dbase \<times> prune_report" where
  "prune t p before proposal_merges db =
     (let n = length (protected_commits db proposal_merges) in
      if rt_keep_days p \<le> 0 \<and> rt_keep_commits p \<le> 0 then Inr (db, \<lparr>pr_removed = 0, pr_protected = n\<rparr>)
      else and_then (ref_row db default_branch) (\<lambda>(branch, head, headseq, chain).
        let cutoff = prune_cutoff db branch headseq p before in
        if cutoff \<le> 0 then Inr (db, \<lparr>pr_removed = 0, pr_protected = n\<rparr>)
        else let (side, removed) = prune_side branch cutoff (db_side db (st_id t))
             in Inr (db\<lparr>db_side := (db_side db)(st_id t := side)\<rparr>, \<lparr>pr_removed = removed, pr_protected = n\<rparr>)))"

subsection \<open>Garbage collection and purge\<close>

record gc_report =
  gc_sessions :: nat
  gc_orphans :: nat

definition live_refs :: "dbase \<Rightarrow> string list" where
  "live_refs db = map rf_id (db_refs db)"

definition gc_table :: "string list \<Rightarrow> dbase \<times> nat \<Rightarrow> store_table \<Rightarrow> dbase \<times> nat" where
  "gc_table live st t =
     (let side = db_side (fst st) (st_id t)
      in ((fst st)\<lparr>db_side := (db_side (fst st))(st_id t := filter (\<lambda>v. v_branch v \<in> set live) side)\<rparr>,
          snd st + length (filter (\<lambda>v. v_branch v \<notin> set live) side)))"

definition gc :: "int \<Rightarrow> dbase \<Rightarrow> dbase \<times> gc_report" where
  "gc now db =
     (let (db1, reaped) = reap_expired now db;
          (db2, orphans) = foldl (gc_table (live_refs db1)) (db1, 0) (db_tables db1)
      in (db2, \<lparr>gc_sessions = reaped, gc_orphans = orphans\<rparr>))"

record purge_receipt =
  pu_removed :: nat
  pu_marked :: nat

definition purge :: "store_table \<Rightarrow> pk \<Rightarrow> string \<Rightarrow> dbase \<Rightarrow> st_error + dbase \<times> purge_receipt" where
  "purge t k reason db =
     and_then (guard (trim_space reason \<noteq> []) NoReason) (\<lambda>_.
     and_then (left_map KeyError (decode_pk k t)) (\<lambda>_.
       let side = db_side db (st_id t);
           affected = remdups (map v_commit (filter (\<lambda>v. v_pk v = k) side))
       in Inr (db\<lparr>db_side := (db_side db)(st_id t := filter (\<lambda>v. v_pk v \<noteq> k) side),
                  db_live := (db_live db)(st_id t := fmdrop k (db_live db (st_id t))),
                  db_commits := map (\<lambda>w. if cw_id w \<in> set affected then w\<lparr>cw_purged := True\<rparr> else w) (db_commits db)\<rparr>,
               \<lparr>pu_removed = length (filter (\<lambda>v. v_pk v = k) side), pu_marked = length affected\<rparr>)))"

subsection \<open>Verification\<close>

record interval_report =
  ir_overlaps :: "(string \<times> pk \<times> int \<times> int \<times> int \<times> int) list"
  ir_multiple :: "(string \<times> nat) list"

text \<open>The self-join on branch and key, with the first version starting before the second.\<close>

definition overlapping :: "version \<Rightarrow> version \<Rightarrow> bool" where
  "overlapping a b \<longleftrightarrow>
     v_branch a = v_branch b \<and> v_pk a = v_pk b \<and> v_from a < v_from b \<and> v_session a = [] \<and> v_session b = []
     \<and> v_from b < v_to a"

definition open_groups :: "version list \<Rightarrow> (string \<times> nat) list" where
  "open_groups side =
     (let vs = filter (\<lambda>v. v_session v = [] \<and> v_to v = max_seq) side
      in List.map_filter (\<lambda>(b, k). let n = length (filter (\<lambda>v. v_branch v = b \<and> v_pk v = k) vs)
             in if 1 < n then Some (b, n) else None)
           (remdups (map (\<lambda>v. (v_branch v, v_pk v)) vs)))"

definition verify_intervals :: "version list \<Rightarrow> interval_report" where
  "verify_intervals side =
     \<lparr>ir_overlaps = take 20 (map (\<lambda>(a, b). (v_branch a, v_pk a, v_from a, v_to a, v_from b, v_to b))
        (filter (\<lambda>(a, b). overlapping a b) (List.product side side))),
      ir_multiple = take 20 (open_groups side)\<rparr>"

record drift_report =
  dr_live_only :: nat
  dr_version_only :: nat
  dr_mismatched :: nat

text \<open>The live rows are scanned; a resolved row is dropped when its key has been met.\<close>

definition drift_step :: "table \<times> drift_report \<Rightarrow> pk \<times> row \<Rightarrow> table \<times> drift_report" where
  "drift_step st kr =
     (let (rmap, rep) = st in
      case fmlookup rmap (fst kr) of
        None \<Rightarrow> (rmap, rep\<lparr>dr_live_only := dr_live_only rep + 1\<rparr>)
      | Some r \<Rightarrow> (fmdrop (fst kr) rmap,
                   if row_equal (snd kr) r then rep else rep\<lparr>dr_mismatched := dr_mismatched rep + 1\<rparr>))"

definition drift_of :: "table \<Rightarrow> table \<Rightarrow> drift_report" where
  "drift_of live rmap =
     (let (rest, rep) = foldl drift_step (rmap, \<lparr>dr_live_only = 0, dr_version_only = 0, dr_mismatched = 0\<rparr>)
            (map (\<lambda>k. (k, state_row live k)) (fm_keys live))
      in rep\<lparr>dr_version_only := length (fm_keys rest)\<rparr>)"

definition verify_drift :: "dbase \<Rightarrow> store_table \<Rightarrow> st_error + drift_report" where
  "verify_drift db t =
     and_then (read_chain db default_branch AtHead) (\<lambda>chain.
     and_then (resolve_map (db_side db (st_id t)) chain []) (\<lambda>rmap.
       Inr (drift_of (db_live db (st_id t)) rmap)))"

definition stored_input :: "dbase \<Rightarrow> commit_rec \<Rightarrow> commit_input" where
  "stored_input db w =
     \<lparr>ci_repo = db_repo db, ci_parents = cw_parents w, ci_change = cw_change w, ci_schema = cw_schema w,
      ci_author = cw_author w, ci_author_at = cw_at w, ci_message = cw_message w, ci_external_ref = cw_ref w\<rparr>"

text \<open>The first commit of the branch, by sequence number, whose stored record does not hash to its id.\<close>

definition verify_integrity :: "dbase \<Rightarrow> string \<Rightarrow> st_error + commit_rec option" where
  "verify_integrity db name =
     and_then (ref_row db name) (\<lambda>(branch, head, sq, chain).
       Inr (find (\<lambda>w. \<not> cw_purged w \<and> commit_hash (stored_input db w) \<noteq> cw_id w)
              (sort_key cw_seq (filter (\<lambda>w. cw_branch w = branch) (db_commits db)))))"

subsection \<open>History and blame\<close>

record version_record =
  vr_from :: int
  vr_to :: int
  vr_op :: op
  vr_commit :: digest
  vr_changed :: colmask
  vr_row :: row
  vr_author :: string
  vr_at :: "i64 option"
  vr_message :: string

definition history_record :: "dbase \<Rightarrow> version \<Rightarrow> version_record" where
  "history_record db v =
     (case find_commit db (v_commit v) of
        None \<Rightarrow> \<lparr>vr_from = v_from v, vr_to = v_to v, vr_op = v_op v, vr_commit = v_commit v,
                 vr_changed = v_changed v, vr_row = v_row v, vr_author = [], vr_at = None, vr_message = []\<rparr>
      | Some w \<Rightarrow> \<lparr>vr_from = v_from v, vr_to = v_to v, vr_op = v_op v, vr_commit = v_commit v,
                 vr_changed = v_changed v, vr_row = v_row v, vr_author = cw_author w, vr_at = Some (cw_at w), vr_message = cw_message w\<rparr>)"

text \<open>Newest first; the opening of sealed values is the caller's.\<close>

definition store_history :: "dbase \<Rightarrow> store_table \<Rightarrow> string \<Rightarrow> pk \<Rightarrow> st_error + version_record list" where
  "store_history db t name k =
     and_then (ref_row db name) (\<lambda>(branch, head, sq, chain).
     and_then (left_map KeyError (decode_pk k t)) (\<lambda>_.
       Inr (map (history_record db) (rev (sort_key v_from
         (filter (\<lambda>v. v_branch v = branch \<and> v_session v = [] \<and> v_pk v = k) (db_side db (st_id t))))))))"

text \<open>The last record, walking back, that still holds the current value of the column.\<close>

fun attribute :: "colid \<Rightarrow> val \<Rightarrow> version_record \<Rightarrow> version_record list \<Rightarrow> version_record" where
  "attribute c cur at_rec [] = at_rec"
| "attribute c cur at_rec (v # vs) =
     (if vr_op v = OpDelete \<or> \<not> val_equal (row_get (vr_row v) c) cur then at_rec else attribute c cur v vs)"

definition blame :: "version_record list \<Rightarrow> colid list \<Rightarrow> (colid \<times> val \<times> version_record) list option" where
  "blame hist cols =
     (case hist of
        [] \<Rightarrow> None
      | h # _ \<Rightarrow> Some (map (\<lambda>c. let cur = row_get (vr_row h) c in (c, cur, attribute c cur h hist)) cols))"

end
