(* ===== verification/StoreResolve.thy ===== *)
theory StoreResolve
  imports StoreMerge StoreMaint EngineReads
begin

text \<open>
  What the resolution query returns. Each arm of the union contributes the versions of one segment, so
  for one key the first row of least priority is the version the engine's \<^verbatim>\<open>winners\<close> picks; the two
  passes of a filtered query and the key predicate in the arms do not change that.
\<close>

lemma sort_key_sorted: "sorted (map f xs) \<Longrightarrow> sort_key f xs = xs"
  by (induction xs) (auto simp: insort_is_Cons)

lemma map_filter_set: "y \<in> set (List.map_filter f xs) \<longleftrightarrow> (\<exists>x \<in> set xs. f x = Some y)"
  by (induction xs) (auto simp: List.map_filter_simps split: option.splits)

subsection \<open>The winner of the union\<close>

definition first_version :: "(int \<times> version) list \<Rightarrow> version option" where
  "first_version ps = (case ps of [] \<Rightarrow> None | p # _ \<Rightarrow> Some (snd p))"

lemma first_version_append:
  "first_version (ps @ qs) = (case first_version ps of None \<Rightarrow> first_version qs | Some v \<Rightarrow> Some v)"
  by (cases ps) (simp_all add: first_version_def)

lemma first_version_map: "first_version (map (Pair i) vs) = (case vs of [] \<Rightarrow> None | v # _ \<Rightarrow> Some v)"
  by (cases vs) (simp_all add: first_version_def)

lemma head_filter: "(case filter P xs of [] \<Rightarrow> None | x # _ \<Rightarrow> Some x) = find P xs"
  by (induction xs) auto

definition seg_arms :: "version list \<Rightarrow> (pk \<Rightarrow> bool) \<Rightarrow> (pk \<Rightarrow> bool) \<Rightarrow> nat \<Rightarrow> segment list \<Rightarrow> (int \<times> version) list" where
  "seg_arms side kf cand n chain =
     concat (map (\<lambda>(i, seg). map (Pair (int i)) (filter (\<lambda>v. cand (v_pk v)) (arm_rows side kf seg)))
       (enumerate n chain))"

lemma seg_arms_Cons:
  "seg_arms side kf cand n (g # C) =
     map (Pair (int n)) (filter (\<lambda>v. cand (v_pk v)) (arm_rows side kf g)) @ seg_arms side kf cand (Suc n) C"
  by (simp add: seg_arms_def)

lemma seg_arms_first:
  "first_version (filter (\<lambda>p. v_pk (snd p) = k) (seg_arms side kf cand n C))
     = (if kf k \<and> cand k then chain_version (hist side) C k else None)"
proof (induction C arbitrary: n)
  case Nil
  then show ?case by (simp add: seg_arms_def first_version_def)
next
  case (Cons g C)
  have f: "filter (\<lambda>p. v_pk (snd p) = k) (map (Pair (int n)) (filter (\<lambda>v. cand (v_pk v)) (arm_rows side kf g)))
      = map (Pair (int n)) (filter (\<lambda>v. in_segment g v \<and> v_pk v = k \<and> kf k \<and> cand k) side)"
  proof -
    have "filter (\<lambda>v. v_pk v = k) (filter (\<lambda>v. cand (v_pk v)) (arm_rows side kf g))
        = filter (\<lambda>v. in_segment g v \<and> v_pk v = k \<and> kf k \<and> cand k) side"
      unfolding arm_rows_def filter_filter in_segment_def by (rule filter_cong) auto
    then show ?thesis by (simp add: filter_map o_def)
  qed
  have "(case filter (\<lambda>v. in_segment g v \<and> v_pk v = k \<and> kf k \<and> cand k) side of [] \<Rightarrow> None | v # _ \<Rightarrow> Some v)
      = (if kf k \<and> cand k then seg_version (hist side (sg_branch g) k) (sg_seq g) else None)"
    unfolding head_filter seg_version_hist [symmetric] by (simp add: find_None_iff)
  then show ?case
    by (simp add: seg_arms_Cons f first_version_append first_version_map Cons.IH split: option.split)
qed

lemma seg_arms_bound: "p \<in> set (seg_arms side kf cand n C) \<Longrightarrow> int n \<le> fst p"
proof (induction C arbitrary: n)
  case (Cons g C)
  then show ?case using Cons.IH [of "Suc n"] by (fastforce simp: seg_arms_Cons)
qed (simp add: seg_arms_def)

lemma sorted_pairs: "sorted (map fst (map (Pair (i :: int)) vs))"
  by (induction vs) auto

lemma seg_arms_sorted: "sorted (map fst (seg_arms side kf cand n C))"
proof (induction C arbitrary: n)
  case (Cons g C)
  have "int (Suc n) \<le> fst p" if "p \<in> set (seg_arms side kf cand (Suc n) C)" for p
    using that by (rule seg_arms_bound)
  then show ?case unfolding seg_arms_Cons map_append sorted_append
    using Cons.IH [of "Suc n"] sorted_pairs [of "int n"] by force
qed (simp add: seg_arms_def)

lemma union_arms_sorted: "sorted (map fst (union_arms side chain sid kf cand))"
proof -
  have "0 \<le> fst p" if "p \<in> set (seg_arms side kf cand 0 chain)" for p
    using seg_arms_bound [OF that] by simp
  then show ?thesis
    unfolding union_arms_def seg_arms_def [symmetric] map_append sorted_append
    using seg_arms_sorted [of side kf cand 0 chain] sorted_pairs [of "-1"] by force
qed

lemma key_winner_union:
  "key_winner (union_arms side chain sid kf cand) k =
     (if \<not> kf k then None
      else case (if sid = [] then [] else staged side sid k) of
        v # _ \<Rightarrow> Some v
      | [] \<Rightarrow> if cand k then chain_version (hist side) chain k else None)"
proof -
  let ?u = "filter (\<lambda>p. v_pk (snd p) = k) (union_arms side chain sid kf cand)"
  have "sorted (map fst ?u)" using union_arms_sorted by (rule sorted_filter)
  then have "key_winner (union_arms side chain sid kf cand) k = first_version ?u"
    by (simp add: key_winner_def sort_key_sorted first_version_def)
  moreover have "filter (\<lambda>p. v_pk (snd p) = k) (map (Pair (- 1)) (filter (\<lambda>v. v_session v = sid \<and> kf (v_pk v)) side))
      = map (Pair (- 1 :: int)) (if kf k then staged side sid k else [])"
  proof -
    have "filter (\<lambda>v. v_pk v = k) (filter (\<lambda>v. v_session v = sid \<and> kf (v_pk v)) side)
        = (if kf k then staged side sid k else [])"
      unfolding staged_def filter_filter by (auto simp: filter_empty_conv intro!: filter_cong)
    then show ?thesis by (simp add: filter_map o_def)
  qed
  ultimately have u: "key_winner (union_arms side chain sid kf cand) k = first_version
      ((if sid = [] then [] else map (Pair (- 1)) (if kf k then staged side sid k else []))
       @ filter (\<lambda>p. v_pk (snd p) = k) (seg_arms side kf cand 0 chain))"
    by (simp add: union_arms_def seg_arms_def [symmetric])
  have none: "first_version [] = None" "first_version (p # ps) = Some (snd p)" for p ps
    by (simp_all add: first_version_def)
  show ?thesis
    unfolding u first_version_append seg_arms_first
    by (cases "sid = []"; cases "kf k"; cases "staged side sid k")
      (simp_all add: none first_version_map split: option.split)
qed

lemma key_winner_mem: "key_winner ps k = Some v \<Longrightarrow> (\<exists>i. (i, v) \<in> set ps) \<and> v_pk v = k"
proof -
  assume "key_winner ps k = Some v"
  then obtain i qs where "sort_key fst (filter (\<lambda>p. v_pk (snd p) = k) ps) = (i, v) # qs"
    by (auto simp: key_winner_def split: list.splits)
  then have "(i, v) \<in> set (sort_key fst (filter (\<lambda>p. v_pk (snd p) = k) ps))" by simp
  then show ?thesis by auto
qed

lemma fmlookup_resolved:
  "fmlookup (resolved side chain sid kf filt pg) k =
     (case key_winner (union_arms side chain sid kf
         (case filt of None \<Rightarrow> (\<lambda>_. True) | Some f \<Rightarrow> (\<lambda>k. k \<in> set (candidates side chain kf f pg)))) k of
        None \<Rightarrow> None
      | Some v \<Rightarrow> if v_op v \<noteq> OpDelete \<and> (case filt of None \<Rightarrow> True | Some f \<Rightarrow> f (v_row v))
                  then Some (v_row v) else None)"
  (is "_ = (case key_winner ?u k of None \<Rightarrow> None | Some v \<Rightarrow> ?out v)")
proof -
  have "fmlookup (distinct_on ?u) k = (if k \<in> (\<lambda>p. v_pk (snd p)) ` set ?u then Some (key_winner ?u k) else None)"
    by (simp add: distinct_on_def)
  moreover have "key_winner ?u k = None" if "k \<notin> (\<lambda>p. v_pk (snd p)) ` set ?u"
    using that key_winner_mem [of ?u k] by (cases "key_winner ?u k") force+
  ultimately show ?thesis
    by (cases "key_winner ?u k") (auto simp: resolved_def Let_def split: option.splits)
qed

subsection \<open>The two passes\<close>

lemma limit_keys_subset: "set (limit_keys pg ks) \<subseteq> set ks"
  unfolding limit_keys_def using set_take_subset [of _ "sort_key (pg_rank pg) ks"] by auto

lemma candidates_complete:
  assumes "pg_limit pg \<le> 0" "chain_version (hist side) chain k = Some v" "v_op v \<noteq> OpDelete" "f (v_row v)" "kf k"
  shows "k \<in> set (candidates side chain kf f pg)"
proof -
  obtain g where "g \<in> set chain" "in_segment g v" "v \<in> set side" "v_pk v = k"
    using chain_version_mem [OF assms(2)] by blast
  with assms show ?thesis
    by (force simp: candidates_def limit_keys_def arm_candidates_def arm_rows_def in_segment_def)
qed

definition passes :: "(row \<Rightarrow> bool) option \<Rightarrow> row \<Rightarrow> bool" where
  "passes filt r = (case filt of None \<Rightarrow> True | Some f \<Rightarrow> f r)"

lemma view_row_version:
  "view_row side chain sid k = (case view_version side chain sid k of None \<Rightarrow> None | Some v \<Rightarrow> live v)"
  by (auto simp: view_row_def view_version_def chain_row_version split: list.split)

text \<open>An unpaged query returns the engine's row for each key the key predicate allows, if it passes.\<close>

lemma fmlookup_resolved_whole:
  assumes "pg_limit pg \<le> 0"
  shows "fmlookup (resolved side chain sid kf filt pg) k =
    (if kf k then (case view_row side chain sid k of
         None \<Rightarrow> None | Some r \<Rightarrow> if passes filt r then Some r else None) else None)"
proof -
  define cand where "cand = (case filt of None \<Rightarrow> (\<lambda>_. True) | Some f \<Rightarrow> (\<lambda>k. k \<in> set (candidates side chain kf f pg)))"
  have drop: "\<not> cand k \<Longrightarrow> kf k \<Longrightarrow> chain_version (hist side) chain k = Some v \<Longrightarrow>
      v_op v = OpDelete \<or> \<not> passes filt (v_row v)" for v
    using candidates_complete [OF assms] by (auto simp: cand_def passes_def split: option.splits)
  show ?thesis
    unfolding fmlookup_resolved cand_def [symmetric] key_winner_union passes_def [symmetric]
      view_row_version view_version_def
    using drop by (auto simp: live_def split: list.split option.split)
qed

text \<open>A page of a filtered query holds rows of the resolved table that match, but it may miss some.\<close>

lemma fmlookup_resolved_page:
  assumes "fmlookup (resolved side chain sid kf filt pg) k = Some r"
  shows "view_row side chain sid k = Some r \<and> passes filt r \<and> kf k"
  using assms
  unfolding fmlookup_resolved key_winner_union view_row_version view_version_def passes_def
  by (auto simp: live_def split: list.splits option.splits if_splits)

lemma fmlookup_resolve_map:
  "resolve_map side chain sid = Inr m \<Longrightarrow> fmlookup m k = view_row side chain sid k"
  by (auto simp: resolve_map_def resolve_query_def result_simps fmlookup_resolved_whole whole_def passes_def
      split: option.split)

lemma resolve_map_Inr: "resolve_map side chain sid = Inr m \<longleftrightarrow> check_chain chain = Inr () \<and> m = resolve_chain side chain sid"
proof -
  have "resolved side chain sid (\<lambda>_. True) None whole = resolve_chain side chain sid"
    by (rule fmap_ext)
      (simp add: fmlookup_resolved_whole whole_def passes_def fmlookup_resolve_session split: option.split)
  then show ?thesis by (auto simp: resolve_map_def resolve_query_def result_simps)
qed

lemma current_row_Inr:
  "current_row t side chain k = Inr r \<longleftrightarrow>
     (\<exists>vs. decode_pk k t = Inr vs) \<and> check_chain chain = Inr () \<and> r = chain_row (hist side) chain k"
  by (auto simp: current_row_def resolve_query_def result_simps fmlookup_resolved_whole whole_def passes_def
      view_row_def split: option.split)

end
