(* ===== verification/StoreInv.thy ===== *)
theory StoreInv
  imports StoreResolve
begin

text \<open>
  The invariant of the store: the references form a tree whose stored chains follow the parent links,
  sessions and staged rows stay off the default branch, the versions of the default branch end at its
  head or are open, and for every tracked table the live rows are the open versions of the default
  branch. One lemma per operation shows that it keeps the invariant.
\<close>

subsection \<open>The parts of the invariant\<close>

definition open_row :: "version list \<Rightarrow> row option" where
  "open_row h = (case find (\<lambda>v. v_to v = max_seq) h of None \<Rightarrow> None | Some v \<Rightarrow> live v)"

definition main_ref :: "dbase \<Rightarrow> ref \<Rightarrow> bool" where
  "main_ref db r \<longleftrightarrow>
     find_branch db default_branch = Some r \<and> rf_id r = db_default db \<and> rf_parent r = []
     \<and> rf_chain r = [\<lparr>sg_branch = db_default db, sg_seq = rf_seq r\<rparr>] \<and> rf_seq r < max_seq"

definition names_ok :: "ref list \<Rightarrow> bool" where
  "names_ok rs \<longleftrightarrow> distinct (map rf_id rs) \<and> distinct (map (\<lambda>r. (rf_kind r, rf_name r)) rs) \<and> [] \<notin> rf_id ` set rs"

definition chain_ids :: "ref \<Rightarrow> string list" where
  "chain_ids r = map sg_branch (rf_chain r)"

definition tree_ok :: "ref list \<Rightarrow> bool" where
  "tree_ok rs \<longleftrightarrow>
     (\<forall>r \<in> set rs. rf_kind r = BranchRef \<longrightarrow>
        rf_chain r \<noteq> [] \<and> hd (rf_chain r) = \<lparr>sg_branch = rf_id r, sg_seq = rf_seq r\<rparr> \<and>
        length (rf_chain r) \<le> max_chain_depth \<and>
        (if rf_parent r = [] then tl (rf_chain r) = []
         else \<exists>p \<in> set rs. rf_kind p = BranchRef \<and> rf_id p = rf_parent r \<and> map sg_branch (tl (rf_chain r)) = chain_ids p))"

definition sessions_ok :: "dbase \<Rightarrow> bool" where
  "sessions_ok db \<longleftrightarrow> (\<forall>s \<in> set (db_sessions db). ss_branch s \<noteq> db_default db \<and> ss_id s \<noteq> [] \<and>
     (\<exists>r \<in> set (db_refs db). rf_kind r = BranchRef \<and> rf_id r = ss_branch s))"

definition main_head :: "dbase \<Rightarrow> int" where
  "main_head db = (case find_branch db default_branch of Some r \<Rightarrow> rf_seq r | None \<Rightarrow> 0)"

text \<open>What holds of the version table of one tracked table, by the default branch and its head.\<close>

definition side_ok :: "string \<Rightarrow> int \<Rightarrow> version list \<Rightarrow> bool" where
  "side_ok m s side \<longleftrightarrow>
     (\<forall>v \<in> set side. v_session v = [] \<longrightarrow> v_branch v = m \<longrightarrow> v_from v \<le> s \<and> (v_to v = max_seq \<or> v_to v \<le> s)) \<and>
     (\<forall>v \<in> set side. v_session v \<noteq> [] \<longrightarrow> v_branch v \<noteq> m) \<and> keys_distinct side"

definition mirrors :: "string \<Rightarrow> version list \<Rightarrow> table \<Rightarrow> bool" where
  "mirrors m side lt \<longleftrightarrow> (\<forall>k. fmlookup lt k = open_row (hist side m k))"

definition table_inv :: "dbase \<Rightarrow> store_table \<Rightarrow> bool" where
  "table_inv db t \<longleftrightarrow>
     side_ok (db_default db) (main_head db) (db_side db (st_id t)) \<and>
     mirrors (db_default db) (db_side db (st_id t)) (db_live db (st_id t))"

definition refs_inv :: "dbase \<Rightarrow> bool" where
  "refs_inv db \<longleftrightarrow> names_ok (db_refs db) \<and> tree_ok (db_refs db) \<and> (\<exists>r. main_ref db r)"

definition store_inv :: "dbase \<Rightarrow> bool" where
  "store_inv db \<longleftrightarrow> refs_inv db \<and> sessions_ok db \<and> distinct (map st_id (db_tables db))
     \<and> (\<forall>t \<in> set (db_tables db). table_inv db t)"

named_theorems store_defs "the parts of the store's invariant"
declare store_inv_def [store_defs] refs_inv_def [store_defs] table_inv_def [store_defs]

subsection \<open>Histories under the list operations\<close>

lemma hist_filter: "hist (filter P side) b k = filter P (hist side b k)"
  by (induction side) (auto simp: hist_def)

lemma hist_append: "hist (xs @ ys) b k = hist xs b k @ hist ys b k"
  by (simp add: hist_def)

lemma hist_map:
  assumes "\<And>v. v \<in> set side \<Longrightarrow> v_session (f v) = v_session v \<and> v_branch (f v) = v_branch v \<and> v_pk (f v) = v_pk v"
  shows "hist (map f side) b k = map f (hist side b k)"
  using assms by (induction side) (auto simp: hist_def)

lemma hist_mem_iff: "v \<in> set (hist side b k) \<longleftrightarrow> v \<in> set side \<and> v_session v = [] \<and> v_branch v = b \<and> v_pk v = k"
  by (auto simp: hist_def)

lemma open_row_append:
  "open_row (xs @ ys) = (if \<exists>v \<in> set xs. v_to v = max_seq then open_row xs else open_row ys)"
  by (induction xs) (auto simp: open_row_def)

lemma open_row_none: "\<forall>v \<in> set h. v_to v \<noteq> max_seq \<Longrightarrow> open_row h = None"
  by (induction h) (auto simp: open_row_def)

lemma open_row_cong:
  assumes "filter (\<lambda>v. v_to v = max_seq) h = filter (\<lambda>v. v_to v = max_seq) h'"
  shows "open_row h = open_row h'"
proof -
  have "find P xs = (case filter P xs of [] \<Rightarrow> None | x # _ \<Rightarrow> Some x)" for P and xs :: "version list"
    by (simp add: head_filter)
  then show ?thesis using assms by (simp add: open_row_def)
qed

lemma open_row_map:
  assumes "\<And>v. v \<in> set h \<Longrightarrow> v_to (f v) = v_to v \<and> live (f v) = live v"
  shows "open_row (map f h) = open_row h"
  using assms by (induction h) (auto simp: open_row_def split: option.splits if_splits)

text \<open>At its head the default branch shows its open versions.\<close>

lemma main_chain_row:
  assumes "side_ok m s side" "s < max_seq"
  shows "chain_row (hist side) [\<lparr>sg_branch = m, sg_seq = s\<rparr>] k = open_row (hist side m k)"
proof -
  have "(v_from v \<le> s \<and> s < v_to v) = (v_to v = max_seq)" if "v \<in> set (hist side m k)" for v
    using that assms by (auto simp: side_ok_def hist_mem_iff)
  then have "seg_version (hist side m k) s = find (\<lambda>v. v_to v = max_seq) (hist side m k)"
    unfolding seg_version_def by (rule find_cong_set)
  then show ?thesis by (simp add: seg_row_def open_row_def split: option.split)
qed

lemma main_head_eq: "main_ref db r \<Longrightarrow> main_head db = rf_seq r"
  by (simp add: main_ref_def main_head_def)

lemma side_ok_mono: "side_ok m s side \<Longrightarrow> s \<le> s' \<Longrightarrow> side_ok m s' side"
  by (fastforce simp: side_ok_def)

subsection \<open>The references\<close>

lemma find_branch_mem: "find_branch db n = Some r \<Longrightarrow> r \<in> set (db_refs db) \<and> rf_kind r = BranchRef \<and> rf_name r = n"
  unfolding find_branch_def by (auto dest: find_SomeD)

lemma ref_id_inj:
  "names_ok rs \<Longrightarrow> r \<in> set rs \<Longrightarrow> r' \<in> set rs \<Longrightarrow> rf_id r = rf_id r' \<Longrightarrow> r = r'"
  by (auto simp: names_ok_def distinct_map inj_on_def)

lemma ref_name_inj:
  "names_ok rs \<Longrightarrow> r \<in> set rs \<Longrightarrow> r' \<in> set rs \<Longrightarrow> rf_kind r = rf_kind r' \<Longrightarrow> rf_name r = rf_name r' \<Longrightarrow> r = r'"
  by (auto simp: names_ok_def distinct_map inj_on_def)

lemma find_branch_iff:
  "names_ok (db_refs db) \<Longrightarrow>
     find_branch db n = Some r \<longleftrightarrow> r \<in> set (db_refs db) \<and> rf_kind r = BranchRef \<and> rf_name r = n"
proof
  assume n: "names_ok (db_refs db)" and r: "r \<in> set (db_refs db) \<and> rf_kind r = BranchRef \<and> rf_name r = n"
  then obtain r' where r': "find_branch db n = Some r'"
    by (cases "find_branch db n") (auto simp: find_branch_def find_None_iff)
  from find_branch_mem [OF r'] r have "r' = r" by (intro ref_name_inj [OF n]) simp_all
  with r' show "find_branch db n = Some r" by simp
qed (rule find_branch_mem)

lemma ref_row_Inr:
  assumes "refs_inv db"
  shows "ref_row db n = Inr (i, h, s, c) \<longleftrightarrow>
    (\<exists>r. find_branch db n = Some r \<and> i = rf_id r \<and> h = rf_head r \<and> s = rf_seq r \<and> c = rf_chain r)"
  using assms find_branch_mem [of db n]
  by (fastforce simp: ref_row_def result_simps refs_inv_def tree_ok_def)

lemma tree_parent:
  assumes "tree_ok rs" "q \<in> set rs" "rf_kind q = BranchRef" "rf_parent q \<noteq> []"
  obtains p where "p \<in> set rs" "rf_kind p = BranchRef" "rf_id p = rf_parent q"
    "map sg_branch (tl (rf_chain q)) = chain_ids p"
proof -
  have "if rf_parent q = [] then tl (rf_chain q) = []
      else \<exists>p \<in> set rs. rf_kind p = BranchRef \<and> rf_id p = rf_parent q \<and> map sg_branch (tl (rf_chain q)) = chain_ids p"
    using assms(1-3) unfolding tree_ok_def by blast
  then have "\<exists>p \<in> set rs. rf_kind p = BranchRef \<and> rf_id p = rf_parent q \<and> map sg_branch (tl (rf_chain q)) = chain_ids p"
    using assms(4) by simp
  then show thesis using that by blast
qed

text \<open>An update of one reference that keeps what the tree rests on.\<close>

lemma update_ref_inv:
  assumes inv: "refs_inv db" and r: "r \<in> set (db_refs db)" "rf_kind r = BranchRef"
    and f: "rf_id (f r) = rf_id r" "rf_kind (f r) = rf_kind r" "rf_name (f r) = rf_name r"
      "rf_parent (f r) = rf_parent r" "chain_ids (f r) = chain_ids r"
      "hd (rf_chain (f r)) = \<lparr>sg_branch = rf_id r, sg_seq = rf_seq (f r)\<rparr>"
      "rf_id r = db_default db \<Longrightarrow> rf_seq (f r) < max_seq"
    and db': "db_refs db' = db_refs (update_ref (rf_id r) f db)" "db_default db' = db_default db"
  shows "refs_inv db'"
    and "find_branch db' n = map_option (\<lambda>q. if rf_id q = rf_id r then f q else q) (find_branch db n)"
proof -
  define g where "g = (\<lambda>q. if rf_id q = rf_id r then f q else q)"
  have names: "names_ok (db_refs db)" and tree: "tree_ok (db_refs db)"
    using inv by (simp_all add: refs_inv_def)
  have refs: "db_refs db' = map g (db_refs db)" using db' by (simp add: update_ref_def g_def)
  have g: "rf_id (g q) = rf_id q \<and> rf_kind (g q) = rf_kind q \<and> rf_name (g q) = rf_name q
      \<and> rf_parent (g q) = rf_parent q \<and> chain_ids (g q) = chain_ids q" if "q \<in> set (db_refs db)" for q
    using ref_id_inj [OF names that r(1)] f by (auto simp: g_def)
  have ids: "map rf_id (map g (db_refs db)) = map rf_id (db_refs db)"
    "map (\<lambda>q. (rf_kind q, rf_name q)) (map g (db_refs db)) = map (\<lambda>q. (rf_kind q, rf_name q)) (db_refs db)"
    using g by auto
  have names': "names_ok (db_refs db')"
    using names ids unfolding refs names_ok_def by (metis set_map)
  have tree': "tree_ok (db_refs db')"
    unfolding tree_ok_def
  proof (intro ballI impI)
    fix q' assume a: "q' \<in> set (db_refs db')" "rf_kind q' = BranchRef"
    from a(1) obtain q where q: "q \<in> set (db_refs db)" "q' = g q"
      unfolding refs set_map by (rule imageE) blast
    then have "rf_kind q' = rf_kind q" using g by blast
    with a(2) q have q: "q \<in> set (db_refs db)" "q' = g q" "rf_kind q = BranchRef" by simp_all
    have len: "length (rf_chain q') = length (rf_chain q)" "map sg_branch (tl (rf_chain q')) = map sg_branch (tl (rf_chain q))"
      using g [OF q(1)] q(2) unfolding chain_ids_def by (metis length_map, metis map_tl)
    have t: "rf_chain q \<noteq> []" "length (rf_chain q) \<le> max_chain_depth"
      "if rf_parent q = [] then tl (rf_chain q) = []
       else \<exists>p \<in> set (db_refs db). rf_kind p = BranchRef \<and> rf_id p = rf_parent q \<and> map sg_branch (tl (rf_chain q)) = chain_ids p"
      "hd (rf_chain q) = \<lparr>sg_branch = rf_id q, sg_seq = rf_seq q\<rparr>"
      using tree q unfolding tree_ok_def by blast+
    have hd: "hd (rf_chain q') = \<lparr>sg_branch = rf_id q', sg_seq = rf_seq q'\<rparr>"
      using t(4) f q(2) ref_id_inj [OF names q(1) r(1)] by (auto simp: g_def)
    have "if rf_parent q' = [] then tl (rf_chain q') = []
       else \<exists>p \<in> set (db_refs db'). rf_kind p = BranchRef \<and> rf_id p = rf_parent q' \<and> map sg_branch (tl (rf_chain q')) = chain_ids p"
    proof (cases "rf_parent q = []")
      case True
      then have "tl (rf_chain q') = []" using t(3) len(2) by simp
      then show ?thesis using True g [OF q(1)] q(2) by simp
    next
      case False
      then obtain p where "p \<in> set (db_refs db)" "rf_kind p = BranchRef" "rf_id p = rf_parent q"
        "map sg_branch (tl (rf_chain q)) = chain_ids p" using t(3) by auto
      then show ?thesis using False g [of p] g [OF q(1)] q(2) len(2) unfolding refs by fastforce
    qed
    then show "rf_chain q' \<noteq> [] \<and> hd (rf_chain q') = \<lparr>sg_branch = rf_id q', sg_seq = rf_seq q'\<rparr> \<and>
        length (rf_chain q') \<le> max_chain_depth \<and>
        (if rf_parent q' = [] then tl (rf_chain q') = []
         else \<exists>p \<in> set (db_refs db'). rf_kind p = BranchRef \<and> rf_id p = rf_parent q' \<and> map sg_branch (tl (rf_chain q')) = chain_ids p)"
      using len(1) t(1,2) hd by (metis length_0_conv)
  qed
  have fb: "find_branch db' n = map_option g (find_branch db n)" for n
  proof (cases "find_branch db n")
    case None
    then have "\<not> (rf_kind q = BranchRef \<and> rf_name q = n)" if "q \<in> set (db_refs db)" for q
      using that by (auto simp: find_branch_def find_None_iff)
    then have "find_branch db' n = None" using g by (auto simp: find_branch_def refs find_None_iff)
    with None show ?thesis by simp
  next
    case (Some q)
    then have "q \<in> set (db_refs db)" "rf_kind q = BranchRef" "rf_name q = n" using find_branch_mem by auto
    then have "find_branch db' n = Some (g q)" using find_branch_iff [OF names'] g refs by auto
    with Some show ?thesis by simp
  qed
  obtain m where m: "main_ref db m" using inv by (auto simp: refs_inv_def)
  then have mm: "m \<in> set (db_refs db)" "find_branch db default_branch = Some m"
    using find_branch_mem by (auto simp: main_ref_def)
  have "main_ref db' (g m)"
  proof (cases "rf_id m = rf_id r")
    case True
    then have "m = r" using ref_id_inj [OF names mm(1) r(1)] by simp
    moreover have "length (rf_chain (f r)) = length (rf_chain r)" using f(5) unfolding chain_ids_def by (metis length_map)
    ultimately have "rf_chain (f r) = [hd (rf_chain (f r))]" using m by (cases "rf_chain (f r)") (auto simp: main_ref_def)
    then show ?thesis using \<open>m = r\<close> m f fb [of default_branch] db'(2) by (simp add: main_ref_def g_def)
  next
    case False
    then show ?thesis using m fb [of default_branch] db'(2) by (simp add: main_ref_def g_def)
  qed
  with names' tree' show "refs_inv db'" by (auto simp: refs_inv_def)
  show "find_branch db' n = map_option (\<lambda>q. if rf_id q = rf_id r then f q else q) (find_branch db n)"
    using fb by (simp only: g_def)
qed

lemma insert_ref_inv:
  assumes inv: "refs_inv db" and i: "insert_ref r db = Inr db'" "rf_id r \<noteq> []"
    and t: "rf_kind r = BranchRef \<Longrightarrow>
      hd (rf_chain r) = \<lparr>sg_branch = rf_id r, sg_seq = rf_seq r\<rparr> \<and> rf_chain r \<noteq> [] \<and>
      length (rf_chain r) \<le> max_chain_depth \<and> rf_parent r \<noteq> [] \<and>
      (\<exists>p \<in> set (db_refs db). rf_kind p = BranchRef \<and> rf_id p = rf_parent r \<and>
         map sg_branch (tl (rf_chain r)) = chain_ids p)"
  shows "refs_inv db'" "db' = db\<lparr>db_refs := db_refs db @ [r]\<rparr>" "main_head db' = main_head db"
    "q \<in> set (db_refs db) \<Longrightarrow> rf_id q \<noteq> rf_id r"
proof -
  have db': "db' = db\<lparr>db_refs := db_refs db @ [r]\<rparr>"
    and new: "\<forall>u \<in> set (db_refs db). \<not> (rf_id u = rf_id r \<or> (rf_kind u = rf_kind r \<and> rf_name u = rf_name r))"
    using i(1) by (auto simp: insert_ref_def result_simps list_ex_iff)
  show "db' = db\<lparr>db_refs := db_refs db @ [r]\<rparr>" by (rule db')
  show "q \<in> set (db_refs db) \<Longrightarrow> rf_id q \<noteq> rf_id r" using new by blast
  obtain m where m: "main_ref db m" using inv by (auto simp: refs_inv_def)
  have main: "find_branch db' default_branch = Some m"
    using m by (simp add: main_ref_def find_branch_def db' find_append)
  then show "main_head db' = main_head db" using m by (simp add: main_head_def main_ref_def)
  have "names_ok (db_refs db')"
    using inv new i(2) by (auto simp: refs_inv_def names_ok_def db' image_iff)
  moreover have "tree_ok (db_refs db')"
    unfolding tree_ok_def db'
  proof (intro ballI impI)
    fix q assume "q \<in> set (db_refs (db\<lparr>db_refs := db_refs db @ [r]\<rparr>))" and k: "rf_kind q = BranchRef"
    then consider "q = r" | "q \<in> set (db_refs db)" by auto
    then show "rf_chain q \<noteq> [] \<and> hd (rf_chain q) = \<lparr>sg_branch = rf_id q, sg_seq = rf_seq q\<rparr> \<and>
      length (rf_chain q) \<le> max_chain_depth \<and>
      (if rf_parent q = [] then tl (rf_chain q) = []
       else \<exists>p \<in> set (db_refs (db\<lparr>db_refs := db_refs db @ [r]\<rparr>)). rf_kind p = BranchRef \<and> rf_id p = rf_parent q \<and>
         map sg_branch (tl (rf_chain q)) = chain_ids p)"
    proof cases
      case 1
      then show ?thesis using t k by auto
    next
      case 2
      then show ?thesis using inv k unfolding refs_inv_def tree_ok_def by fastforce
    qed
  qed
  moreover have "main_ref db' m" using m main by (simp add: main_ref_def db')
  ultimately show "refs_inv db'" by (auto simp: refs_inv_def)
qed

lemma branch_chain:
  assumes "refs_inv db" "find_branch db n = Some p"
  shows "rf_chain p = \<lparr>sg_branch = rf_id p, sg_seq = rf_seq p\<rparr> # tl (rf_chain p)" "rf_id p \<noteq> []"
    "p \<in> set (db_refs db)" "rf_kind p = BranchRef" "chain_ids p = rf_id p # map sg_branch (tl (rf_chain p))"
    "length (rf_chain p) \<le> max_chain_depth"
proof -
  show p: "p \<in> set (db_refs db)" "rf_kind p = BranchRef" using find_branch_mem [OF assms(2)] by auto
  show "rf_id p \<noteq> []" using assms(1) p(1) unfolding refs_inv_def names_ok_def by (metis imageI)
  have "rf_chain p \<noteq> []" "hd (rf_chain p) = \<lparr>sg_branch = rf_id p, sg_seq = rf_seq p\<rparr>"
    and len: "length (rf_chain p) \<le> max_chain_depth"
    using assms(1) p unfolding refs_inv_def tree_ok_def by blast+
  then show c: "rf_chain p = \<lparr>sg_branch = rf_id p, sg_seq = rf_seq p\<rparr> # tl (rf_chain p)"
    by (metis list.collapse)
  show "chain_ids p = rf_id p # map sg_branch (tl (rf_chain p))" unfolding chain_ids_def by (subst c) simp
  show "length (rf_chain p) \<le> max_chain_depth" by (rule len)
qed

lemma create_ref_inv:
  assumes inv: "refs_inv db" and c: "create_ref db i name from who = Inr db'" "i \<noteq> []"
  shows "refs_inv db'" "main_head db' = main_head db"
    "\<exists>r. db' = db\<lparr>db_refs := db_refs db @ [r]\<rparr> \<and> rf_id r = i"
proof -
  obtain p where p: "find_branch db from = Some p"
    and i: "insert_ref (fork_ref i name (rf_id p) (rf_head p) (rf_seq p)
       (\<lparr>sg_branch = i, sg_seq = 0\<rparr> # \<lparr>sg_branch = rf_id p, sg_seq = rf_seq p\<rparr> # tl (rf_chain p)) who) db = Inr db'"
    and len: "length (tl (rf_chain p)) + 2 \<le> max_chain_depth"
    using c(1) by (auto simp: create_ref_def result_simps Let_def ref_row_Inr [OF inv] guard_def split: if_splits)
  note pc = branch_chain [OF inv p]
  define r where "r = fork_ref i name (rf_id p) (rf_head p) (rf_seq p)
       (\<lparr>sg_branch = i, sg_seq = 0\<rparr> # \<lparr>sg_branch = rf_id p, sg_seq = rf_seq p\<rparr> # tl (rf_chain p)) who"
  have "map sg_branch (tl (rf_chain r)) = chain_ids p" using pc(5) by (simp add: r_def fork_ref_def)
  moreover have "rf_parent r = rf_id p" by (simp add: r_def fork_ref_def)
  ultimately have par: "rf_parent r \<noteq> [] \<and> (\<exists>p \<in> set (db_refs db). rf_kind p = BranchRef \<and> rf_id p = rf_parent r \<and>
      map sg_branch (tl (rf_chain r)) = chain_ids p)" using pc(2,3,4) by auto
  have hd: "hd (rf_chain r) = \<lparr>sg_branch = rf_id r, sg_seq = rf_seq r\<rparr> \<and> rf_chain r \<noteq> [] \<and>
      length (rf_chain r) \<le> max_chain_depth" using len by (simp add: r_def fork_ref_def)
  have id: "rf_id r = i" by (simp add: r_def fork_ref_def)
  note ins = insert_ref_inv [OF inv i [folded r_def], unfolded id, OF c(2)]
  show "refs_inv db'" by (rule ins(1)) (use hd par id in simp_all)
  show "main_head db' = main_head db" by (rule ins(3)) (use hd par id in simp_all)
  have "db' = db\<lparr>db_refs := db_refs db @ [r]\<rparr>" by (rule ins(2)) (use hd par id in simp_all)
  with id show "\<exists>r. db' = db\<lparr>db_refs := db_refs db @ [r]\<rparr> \<and> rf_id r = i" by blast
qed

lemma create_tag_inv:
  assumes inv: "refs_inv db" and c: "create_tag db i name d who = Inr db'" "i \<noteq> []"
  shows "refs_inv db'" "main_head db' = main_head db" "\<exists>r. db' = db\<lparr>db_refs := db_refs db @ [r]\<rparr> \<and> rf_id r = i"
proof -
  obtain ch where i: "insert_ref ((fork_ref i name [] d 0 ch who)\<lparr>rf_kind := TagRef, rf_fork_commit := zero_digest\<rparr>) db = Inr db'"
    using c(1) by (auto simp: create_tag_def result_simps)
  note ins = insert_ref_inv [OF inv i]
  show "refs_inv db'" "main_head db' = main_head db" "\<exists>r. db' = db\<lparr>db_refs := db_refs db @ [r]\<rparr> \<and> rf_id r = i"
    using ins c(2) by (auto simp: fork_ref_def)
qed

lemma delete_branch_inv:
  assumes inv: "refs_inv db" and d: "delete_branch db name = Inr db'"
  shows "refs_inv db'" "main_head db' = main_head db"
    "db' = db\<lparr>db_refs := filter (\<lambda>r. \<not> (rf_kind r = BranchRef \<and> rf_name r = name)) (db_refs db)\<rparr>"
proof -
  have name: "name \<noteq> default_branch"
    and db': "db' = db\<lparr>db_refs := filter (\<lambda>r. \<not> (rf_kind r = BranchRef \<and> rf_name r = name)) (db_refs db)\<rparr>"
    and kids: "\<And>b r. find_branch db name = Some b \<Longrightarrow> r \<in> set (db_refs db) \<Longrightarrow> rf_parent r \<noteq> rf_id b"
    using d by (auto simp: delete_branch_def result_simps Let_def filter_empty_conv)
  show "db' = db\<lparr>db_refs := filter (\<lambda>r. \<not> (rf_kind r = BranchRef \<and> rf_name r = name)) (db_refs db)\<rparr>" by (rule db')
  have names: "names_ok (db_refs db)" using inv by (simp add: refs_inv_def)
  obtain m where m: "main_ref db m" using inv by (auto simp: refs_inv_def)
  have names': "names_ok (db_refs db')"
    using names by (auto simp: names_ok_def db' distinct_map_filter)
  have "m \<in> set (db_refs db')" "rf_kind m = BranchRef" "rf_name m = default_branch"
    using m name find_branch_mem [of db default_branch m] by (auto simp: main_ref_def db')
  then have main: "find_branch db' default_branch = Some m" using find_branch_iff [OF names'] by blast
  then show "main_head db' = main_head db" using m by (simp add: main_head_def main_ref_def)
  have tree: "tree_ok (db_refs db)" using inv by (simp add: refs_inv_def)
  have "tree_ok (db_refs db')"
    unfolding tree_ok_def
  proof (intro ballI impI)
    fix q assume q: "q \<in> set (db_refs db')" "rf_kind q = BranchRef"
    then have q': "q \<in> set (db_refs db)" by (simp add: db')
    have "\<exists>p \<in> set (db_refs db'). rf_kind p = BranchRef \<and> rf_id p = rf_parent q \<and> map sg_branch (tl (rf_chain q)) = chain_ids p"
      if par: "rf_parent q \<noteq> []"
    proof -
      obtain p where p: "p \<in> set (db_refs db)" "rf_kind p = BranchRef" "rf_id p = rf_parent q"
        "map sg_branch (tl (rf_chain q)) = chain_ids p"
        by (rule tree_parent [OF tree q' q(2) par])
      have "rf_name p \<noteq> name"
        using kids [OF _ q', of p] p find_branch_iff [OF names, of name p] by metis
      with p show ?thesis by (auto simp: db')
    qed
    then show "rf_chain q \<noteq> [] \<and> hd (rf_chain q) = \<lparr>sg_branch = rf_id q, sg_seq = rf_seq q\<rparr> \<and>
      length (rf_chain q) \<le> max_chain_depth \<and>
      (if rf_parent q = [] then tl (rf_chain q) = []
       else \<exists>p \<in> set (db_refs db'). rf_kind p = BranchRef \<and> rf_id p = rf_parent q \<and>
         map sg_branch (tl (rf_chain q)) = chain_ids p)"
      using inv q' q(2) unfolding refs_inv_def tree_ok_def by simp
  qed
  moreover have "main_ref db' m" using m main by (simp add: main_ref_def db')
  ultimately show "refs_inv db'" using names' by (auto simp: refs_inv_def)
qed

lemma rebase_chain_inv:
  assumes inv: "refs_inv db" and r: "rebase_chain parent db name = Inr db'"
    and b: "find_branch db name = Some b" "find_branch db parent = Some p" "rf_id p = rf_parent b"
  shows "refs_inv db'" "main_head db' = main_head db" "\<exists>f. db' = update_ref (rf_id b) f db \<and> (\<forall>r. rf_id (f r) = rf_id r \<and> rf_kind (f r) = rf_kind r)"
proof -
  let ?c = "\<lparr>sg_branch = rf_id b, sg_seq = rf_seq b\<rparr> # \<lparr>sg_branch = rf_id p, sg_seq = rf_seq p\<rparr> # tl (rf_chain p)"
  let ?f = "\<lambda>r :: ref. r\<lparr>rf_fork_commit := rf_head p, rf_fork_seq := rf_seq p, rf_chain := ?c\<rparr>"
  have db': "db' = update_ref (rf_id b) ?f db"
    using r b by (auto simp: rebase_chain_def result_simps ref_row_Inr [OF inv])
  then show "\<exists>f. db' = update_ref (rf_id b) f db \<and> (\<forall>r. rf_id (f r) = rf_id r \<and> rf_kind (f r) = rf_kind r)"
    by (intro exI [of _ ?f]) simp
  note bc = branch_chain [OF inv b(1)] and pc = branch_chain [OF inv b(2)]
  have par: "rf_parent b \<noteq> []" using pc(2) b(3) by simp
  obtain p' where "p' \<in> set (db_refs db)" "rf_id p' = rf_id p" "map sg_branch (tl (rf_chain b)) = chain_ids p'"
    using tree_parent [of "db_refs db" b] inv bc(3,4) par b(3) unfolding refs_inv_def by metis
  then have "map sg_branch (tl (rf_chain b)) = chain_ids p"
    using ref_id_inj pc(3) inv unfolding refs_inv_def by metis
  then have ids: "chain_ids (?f b) = chain_ids b" using bc(5) pc(5) by (simp add: chain_ids_def)
  define f where "f = ?f"
  have f: "rf_id (f q) = rf_id q \<and> rf_kind (f q) = rf_kind q \<and> rf_name (f q) = rf_name q \<and> rf_parent (f q) = rf_parent q
      \<and> hd (rf_chain (f q)) = \<lparr>sg_branch = rf_id b, sg_seq = rf_seq b\<rparr> \<and> rf_seq (f q) = rf_seq q" for q
    by (simp add: f_def)
  have ids': "chain_ids (f b) = chain_ids b" using ids by (simp add: f_def)
  have d: "db_refs db' = db_refs (update_ref (rf_id b) f db)" "db_default db' = db_default db"
    by (simp_all add: db' f_def update_ref_def)
  note up = update_ref_inv [OF inv bc(3,4), where f = f and db' = db']
  have room: "rf_seq b < max_seq" if "rf_id b = db_default db"
  proof -
    obtain m where m: "main_ref db m" using inv by (auto simp: refs_inv_def)
    then have "m \<in> set (db_refs db)" "rf_id m = rf_id b" using that find_branch_mem by (auto simp: main_ref_def)
    then have "m = b" using ref_id_inj bc(3) inv unfolding refs_inv_def by metis
    with m show ?thesis by (simp add: main_ref_def)
  qed
  show "refs_inv db'" by (rule up(1)) (use f ids' room d in simp_all)
  have "find_branch db' default_branch = map_option (\<lambda>q. if rf_id q = rf_id b then f q else q) (find_branch db default_branch)"
    by (rule up(2)) (use f ids' room d in simp_all)
  then show "main_head db' = main_head db" using f by (simp add: main_head_def split: option.split)
qed

end
