(* ===== verification/StoreCommitInv.thy ===== *)
theory StoreCommitInv
  imports StoreInv
begin

text \<open>
  A commit keeps the store's invariant: closing the open version of a key and inserting the new one moves
  the default branch and the live table together, and a commit of another branch touches neither.
\<close>

subsection \<open>What a commit asks of its changes\<close>

text \<open>
  Nothing personal is sealed; and a change is filed under the key that the version stored for it holds: for
  an insert or an update the key columns of its row, for a delete the values its key decodes to.
\<close>

definition plain_env :: "dbenv \<Rightarrow> bool" where
  "plain_env env \<longleftrightarrow> (\<forall>t r. de_seal env t r = Some r)"

definition keyed :: "store_table \<Rightarrow> store_change \<Rightarrow> bool" where
  "keyed t ch \<longleftrightarrow> make_pk (version_row t (sc_op ch) ch) (st_pk t) = Some (sc_pk' ch)"

lemma effective_op_delete: "effective_op ch b = Some o' \<Longrightarrow> o' = OpDelete \<longleftrightarrow> sc_op ch = OpDelete"
  by (auto simp: effective_op_def split: if_splits option.splits)

lemma apply_live_keyed:
  assumes a: "apply_live env t ch o' lt = Inr lt'" and e: "effective_op ch b = Some o'" and k: "keyed t ch"
  shows "lt' = (if o' = OpDelete then fmdrop (sc_pk' ch) lt else fmupd (sc_pk' ch) (full_row t (sc_row ch)) lt)"
  using a effective_op_delete [OF e] k
  by (auto simp: apply_live_def keyed_def version_row_def result_simps split: if_splits)

subsection \<open>Closing and inserting\<close>

lemma close_versions_Inr:
  "close_versions t b k s side = Inr side' \<Longrightarrow>
     side' = map (\<lambda>v. if v_branch v = b \<and> v_session v = [] \<and> v_to v = max_seq \<and> v_pk v = k
                      then v\<lparr>v_to := s\<rparr> else v) side"
  by (auto simp: close_versions_def result_simps)

lemma insert_row_Inr:
  "insert_row v side = Inr side' \<longleftrightarrow> side' = side @ [v]
     \<and> (\<forall>u \<in> set side. \<not> (v_branch u = v_branch v \<and> v_pk u = v_pk v \<and> v_from u = v_from v))"
  by (auto simp: insert_row_def result_simps list_ex_iff)

lemma keys_distinct_map:
  "(\<And>v. v \<in> set side \<Longrightarrow> v_branch (f v) = v_branch v \<and> v_pk (f v) = v_pk v \<and> v_from (f v) = v_from v) \<Longrightarrow>
     keys_distinct (map f side) = keys_distinct side"
  unfolding keys_distinct_def map_map o_def by (metis (mono_tags, lifting) map_cong)

lemma keys_distinct_snoc:
  "keys_distinct (side @ [v]) \<longleftrightarrow> keys_distinct side
     \<and> (\<forall>u \<in> set side. \<not> (v_branch u = v_branch v \<and> v_pk u = v_pk v \<and> v_from u = v_from v))"
  by (auto simp: keys_distinct_def image_iff)

lemma keys_distinct_filter: "keys_distinct side \<Longrightarrow> keys_distinct (filter P side)"
  by (simp add: keys_distinct_def distinct_map_filter)

lemma close_insert:
  assumes c: "close_versions t b k s side = Inr side1" and i: "insert_row v side1 = Inr side2"
    and v: "v_branch v = b" "b = m \<Longrightarrow> v_pk v = k" "v_from v = s" "v_to v = max_seq" "v_session v = []"
    and ok: "side_ok m s0 side" and s: "if b = m then s0 \<le> s' \<and> s \<le> s' \<and> s < max_seq else s' = s0"
  shows "side_ok m s' side2"
    and "open_row (hist side2 m q) = (if b = m \<and> q = k then live v else open_row (hist side m q))"
proof -
  define f where "f = (\<lambda>v :: version. if v_branch v = b \<and> v_session v = [] \<and> v_to v = max_seq \<and> v_pk v = k then v\<lparr>v_to := s\<rparr> else v)"
  have side1: "side1 = map f side" using close_versions_Inr [OF c] by (simp add: f_def)
  have side2: "side2 = map f side @ [v]" using i by (simp add: insert_row_Inr side1)
  have f: "v_branch (f u) = v_branch u" "v_pk (f u) = v_pk u" "v_from (f u) = v_from u" "v_session (f u) = v_session u" for u
    by (simp_all add: f_def)
  have "keys_distinct side2"
    using ok i unfolding side2 keys_distinct_snoc by (simp add: side_ok_def keys_distinct_map f insert_row_Inr side1)
  moreover have "v_from u \<le> s' \<and> (v_to u = max_seq \<or> v_to u \<le> s')"
    if u: "u \<in> set side2" "v_session u = []" "v_branch u = m" for u
  proof (cases "u = v")
    case True
    then show ?thesis using u(3) v s by simp
  next
    case False
    then obtain w where w: "w \<in> set side" "u = f w" using u(1) unfolding side2 by auto
    then have "v_session w = []" "v_branch w = m" using u f by simp_all
    then have "v_from w \<le> s0 \<and> (v_to w = max_seq \<or> v_to w \<le> s0)" using ok w(1) unfolding side_ok_def by blast
    then show ?thesis using s w(2) \<open>v_branch w = m\<close> by (auto simp: f_def split: if_splits)
  qed
  moreover have "v_branch u \<noteq> m" if u: "u \<in> set side2" "v_session u \<noteq> []" for u
  proof (cases "u = v")
    case True
    then show ?thesis using u(2) v(5) by simp
  next
    case False
    then obtain w where w: "w \<in> set side" "u = f w" using u(1) unfolding side2 by auto
    then show ?thesis using ok u(2) f unfolding side_ok_def by simp
  qed
  ultimately show "side_ok m s' side2" by (simp add: side_ok_def)
  have h: "hist side2 m q = map f (hist side m q) @ (if b = m \<and> q = k then [v] else [])"
  proof -
    have "hist [v] m q = (if b = m \<and> q = k then [v] else [])" using v by (auto simp: hist_def)
    then show ?thesis by (simp add: side2 hist_append hist_map f)
  qed
  show "open_row (hist side2 m q) = (if b = m \<and> q = k then live v else open_row (hist side m q))"
  proof (cases "b = m \<and> q = k")
    case True
    then have "s \<noteq> max_seq" using s by simp
    have "v_to u \<noteq> max_seq" if u: "u \<in> set (map f (hist side m q))" for u
    proof -
      obtain w where "w \<in> set (hist side m q)" "u = f w" using u by auto
      with True \<open>s \<noteq> max_seq\<close> show ?thesis by (auto simp: f_def hist_mem_iff)
    qed
    then have "open_row (hist side2 m q) = open_row [v]" using True h by (auto simp: open_row_append)
    also have "open_row [v] = live v" using v(4) by (simp add: open_row_def)
    finally show ?thesis using True by simp
  next
    case False
    then have "f u = u" if "u \<in> set (hist side m q)" for u using that by (auto simp: f_def hist_mem_iff)
    then have "map f (hist side m q) = hist side m q" by (simp add: map_idI)
    then have "hist side2 m q = hist side m q" unfolding h using False by (simp only: if_False append_Nil2)
    then show ?thesis by (simp only: False if_False)
  qed
qed

subsection \<open>The loop of a commit\<close>

definition work_ok :: "string \<Rightarrow> int \<Rightarrow> commit_work \<Rightarrow> bool" where
  "work_ok m s w \<longleftrightarrow> side_ok m s (wk_side w) \<and> mirrors m (wk_side w) (wk_live w)"

lemma commit_step_ok:
  assumes st: "commit_step env t (b = m) b sq chain ch w = Inr w'"
    and w: "work_ok m s w" and e: "plain_env env" "b = m \<Longrightarrow> keyed t ch"
    and sq: "b = m \<Longrightarrow> s = sq \<and> sq < max_seq"
  shows "work_ok m s w'"
proof (cases "\<exists>before. current_row t (wk_side w) chain (sc_pk' ch) = Inr before \<and> effective_op ch before = None")
  case True
  then have "w' = w" using st by (auto simp: commit_step_def)
  with w show ?thesis by simp
next
  case False
  then obtain before o' where cur: "current_row t (wk_side w) chain (sc_pk' ch) = Inr before"
    and b: "effective_op ch before = Some o'"
    using st by (auto simp: commit_step_def result_simps)
  define msk where "msk = mask_of (opt_row before) (sc_row ch) (table_col_ids t)"
  obtain lt side1 side2 where l: "(if b = m then apply_live env t ch o' (wk_live w) else Inr (wk_live w)) = Inr lt"
    and c: "close_versions t b (sc_pk' ch) sq (wk_side w) = Inr side1"
    and i: "insert_version env t b sq o' ch msk side1 = Inr side2"
    and w': "wk_side w' = side2" "wk_live w' = lt"
    using st e(1) by (auto simp: commit_step_def cur b result_simps Let_def plain_env_def msk_def)
  obtain k where k: "make_pk (version_row t o' ch) (st_pk t) = Some k"
    and ins: "insert_row \<lparr>v_branch = b, v_pk = k, v_from = sq, v_to = max_seq, v_op = o', v_commit = [],
      v_session = [], v_changed = msk, v_row = version_row t o' ch\<rparr> side1 = Inr side2"
    using i by (auto simp: insert_version_def version_key_def result_simps)
  define v where "v = \<lparr>v_branch = b, v_pk = k, v_from = sq, v_to = max_seq, v_op = o', v_commit = [],
     v_session = [], v_changed = msk, v_row = version_row t o' ch\<rparr>"
  have i': "insert_row v side1 = Inr side2" using ins by (simp add: v_def)
  have key: "b = m \<Longrightarrow> k = sc_pk' ch"
    using k e(2) effective_op_delete [OF b] by (auto simp: keyed_def version_row_def split: if_splits)
  have lv: "live v = (if o' = OpDelete then None else Some (full_row t (sc_row ch)))"
    by (simp add: live_def v_def version_row_def)
  have ok: "side_ok m s (wk_side w)" and mir: "mirrors m (wk_side w) (wk_live w)"
    using w by (simp_all add: work_ok_def)
  have s: "if b = m then s \<le> s \<and> sq \<le> s \<and> sq < max_seq else s = s" using sq by simp
  have v: "v_branch v = b" "b = m \<Longrightarrow> v_pk v = sc_pk' ch" "v_from v = sq" "v_to v = max_seq" "v_session v = []"
    using key by (simp_all add: v_def)
  note ci = close_insert [OF c i' v ok s]
  have "fmlookup lt q = open_row (hist side2 m q)" for q
  proof (cases "b = m")
    case True
    then have "lt = (if o' = OpDelete then fmdrop (sc_pk' ch) (wk_live w) else fmupd (sc_pk' ch) (full_row t (sc_row ch)) (wk_live w))"
      using l apply_live_keyed [OF _ b e(2)] by simp
    then show ?thesis using ci(2) [of q] mir True by (simp add: lv mirrors_def)
  next
    case False
    then show ?thesis using ci(2) [of q] mir l by (simp add: mirrors_def)
  qed
  with ci(1) w' show ?thesis by (simp add: work_ok_def mirrors_def)
qed

lemma stamp_versions_ok:
  assumes "side_ok m s side" "mirrors m side lt"
  shows "side_ok m s (stamp_versions b sq c side)" "mirrors m (stamp_versions b sq c side) lt"
proof -
  define f where "f = (\<lambda>v :: version. if v_branch v = b \<and> v_from v = sq then v\<lparr>v_commit := c\<rparr> else v)"
  have st: "stamp_versions b sq c side = map f side" by (simp add: stamp_versions_def f_def)
  have f: "v_branch (f v) = v_branch v" "v_pk (f v) = v_pk v" "v_from (f v) = v_from v" "v_to (f v) = v_to v"
    "v_session (f v) = v_session v" "live (f v) = live v" for v by (simp_all add: f_def live_def)
  show "side_ok m s (stamp_versions b sq c side)"
    using assms(1) by (auto simp: side_ok_def st f keys_distinct_map)
  show "mirrors m (stamp_versions b sq c side) lt"
    using assms(2) by (simp add: mirrors_def st hist_map f open_row_map)
qed

subsection \<open>The commit\<close>

lemma table_inv_cong:
  "db_default db' = db_default db \<Longrightarrow> main_head db' = main_head db \<Longrightarrow> db_side db' (st_id t) = db_side db (st_id t) \<Longrightarrow>
     db_live db' (st_id t) = db_live db (st_id t) \<Longrightarrow> table_inv db' t = table_inv db t"
  by (simp add: table_inv_def)

text \<open>Writing one table and advancing one branch, as commits and session commits end.\<close>

lemma advance_inv:
  assumes inv: "store_inv db" and r: "r \<in> set (db_refs db)" "rf_kind r = BranchRef"
    and sq: "rf_id r = db_default db \<Longrightarrow> rf_seq r < sq \<and> sq < max_seq" and t: "t \<in> set (db_tables db)"
    and side: "\<And>s. s = (if rf_id r = db_default db then sq else main_head db) \<Longrightarrow>
      side_ok (db_default db) s side \<and> mirrors (db_default db) side lt"
    and db1: "db_refs db1 = db_refs db" "db_default db1 = db_default db" "db_tables db1 = db_tables db"
      "sessions_ok db1" "db_side db1 = (db_side db)(st_id t := side)" "db_live db1 = (db_live db)(st_id t := lt)"
    and tail: "tail = tl (rf_chain r)"
  shows "store_inv (advance_ref (rf_id r) c sq (\<lparr>sg_branch = rf_id r, sg_seq = sq\<rparr> # tail) db1)"
    (is "store_inv ?db")
    and "main_head (advance_ref (rf_id r) c sq (\<lparr>sg_branch = rf_id r, sg_seq = sq\<rparr> # tail) db1) =
      (if rf_id r = db_default db then sq else main_head db)"
proof -
  define f where "f = (\<lambda>r' :: ref. r'\<lparr>rf_head := c, rf_seq := sq, rf_chain := \<lparr>sg_branch = rf_id r, sg_seq = sq\<rparr> # tail\<rparr>)"
  have refs: "refs_inv db" using inv by (simp add: store_defs)
  have tree: "tree_ok (db_refs db)" and names: "names_ok (db_refs db)" using refs by (simp_all add: refs_inv_def)
  have rc: "rf_chain r \<noteq> []" "hd (rf_chain r) = \<lparr>sg_branch = rf_id r, sg_seq = rf_seq r\<rparr>"
    using tree r unfolding tree_ok_def by blast+
  have ids: "chain_ids (f r) = chain_ids r"
    using rc tail by (cases "rf_chain r") (simp_all add: chain_ids_def f_def)
  have dbf: "?db = update_ref (rf_id r) f db1" by (simp add: advance_ref_def f_def)
  obtain m where m: "main_ref db m" using refs by (auto simp: refs_inv_def)
  have mm: "m \<in> set (db_refs db)" "rf_id m = db_default db" "find_branch db default_branch = Some m"
    using m find_branch_mem [of db default_branch m] by (auto simp: main_ref_def)
  have f: "rf_id (f r) = rf_id r" "rf_kind (f r) = rf_kind r" "rf_name (f r) = rf_name r" "rf_parent (f r) = rf_parent r"
    "hd (rf_chain (f r)) = \<lparr>sg_branch = rf_id r, sg_seq = rf_seq (f r)\<rparr>" "rf_seq (f r) = sq" by (simp_all add: f_def)
  have d: "db_refs ?db = db_refs (update_ref (rf_id r) f db)" "db_default ?db = db_default db"
    using db1 by (simp_all add: dbf update_ref_def)
  have room: "rf_id r = db_default db \<Longrightarrow> rf_seq (f r) < max_seq" using sq f(6) by simp
  have refs': "refs_inv ?db" by (rule update_ref_inv(1) [OF refs r f(1-4) ids f(5) room d])
  have "find_branch ?db default_branch =
      map_option (\<lambda>q. if rf_id q = rf_id r then f q else q) (find_branch db default_branch)"
    by (rule update_ref_inv(2) [OF refs r f(1-4) ids f(5) room d])
  then show mh: "main_head ?db = (if rf_id r = db_default db then sq else main_head db)"
    using mm by (simp add: main_head_def f_def)
  have head: "main_head db = rf_seq m" using main_head_eq [OF m] .
  have up: "main_head db \<le> main_head ?db"
  proof (cases "rf_id r = db_default db")
    case True
    then have "r = m" using ref_id_inj [OF names r(1) mm(1)] mm(2) by simp
    then show ?thesis using True mh sq head by simp
  qed (simp add: mh)
  have rest: "db_tables ?db = db_tables db" "db_sessions ?db = db_sessions db1"
    "db_side ?db = (db_side db)(st_id t := side)" "db_live ?db = (db_live db)(st_id t := lt)"
    using db1 by (simp_all add: dbf update_ref_def)
  have "table_inv ?db u" if u: "u \<in> set (db_tables db)" for u
  proof (cases "st_id u = st_id t")
    case True
    then show ?thesis using side [of "main_head ?db"] mh d(2) rest by (simp add: table_inv_def)
  next
    case False
    have "side_ok (db_default db) (main_head db) (db_side db (st_id u))"
      "mirrors (db_default db) (db_side db (st_id u)) (db_live db (st_id u))"
      using inv u by (simp_all add: store_defs)
    then show ?thesis using False side_ok_mono [OF _ up] d(2) rest by (simp add: table_inv_def)
  qed
  moreover have "sessions_ok ?db"
    unfolding sessions_ok_def
  proof (intro ballI conjI)
    fix s assume "s \<in> set (db_sessions ?db)"
    then have s: "s \<in> set (db_sessions db1)" by (simp add: rest)
    then show "ss_branch s \<noteq> db_default ?db" "ss_id s \<noteq> []" using db1(2,4) d(2) by (auto simp: sessions_ok_def)
    obtain q where q: "q \<in> set (db_refs db)" "rf_kind q = BranchRef" "rf_id q = ss_branch s"
      using s db1(1,4) by (auto simp: sessions_ok_def)
    define q' where "q' = (if rf_id q = rf_id r then f q else q)"
    have "q' \<in> set (db_refs ?db)" unfolding d(1) update_ref_def q'_def using q(1) by simp
    moreover have "rf_kind q' = BranchRef" "rf_id q' = ss_branch s" using q by (simp_all add: q'_def f_def)
    ultimately show "\<exists>q \<in> set (db_refs ?db). rf_kind q = BranchRef \<and> rf_id q = ss_branch s" by blast
  qed
  ultimately show "store_inv ?db" using refs' inv by (simp add: store_inv_def rest)
qed

lemma store_commit_inv:
  assumes inv: "store_inv db" and c: "store_commit env t now rq db = Inr (db', d, n)"
    and t: "t \<in> set (db_tables db)" and e: "plain_env env"
    and k: "rq_branch rq = default_branch \<Longrightarrow> list_all (keyed t) (rq_changes rq)"
    and room: "main_head db + 1 < max_seq"
  shows "store_inv db'"
    and "main_head db' = (if rq_branch rq = default_branch then main_head db + 1 else main_head db)"
proof -
  have refs: "refs_inv db" using inv by (simp add: store_defs)
  then have names: "names_ok (db_refs db)" by (simp add: refs_inv_def)
  obtain r w cr db1 where r: "find_branch db (rq_branch rq) = Some r"
    and w: "fold_steps (commit_step env t (rf_id r = db_default db) (rf_id r) (rf_seq r + 1) (rf_chain r))
       (sort_key sc_pk' (rq_changes rq))
       \<lparr>wk_side = db_side db (st_id t), wk_live = db_live db (st_id t), wk_leaves = []\<rparr> = Inr w"
    and i: "insert_commit cr
       (db\<lparr>db_side := (db_side db)(st_id t := stamp_versions (rf_id r) (rf_seq r + 1) (cw_id cr) (wk_side w)),
          db_live := (db_live db)(st_id t := wk_live w)\<rparr>) = Inr db1"
    and db': "db' = advance_ref (rf_id r) (cw_id cr) (rf_seq r + 1)
       (\<lparr>sg_branch = rf_id r, sg_seq = rf_seq r + 1\<rparr> # tl (rf_chain r)) db1"
    using c by (auto simp: store_commit_def result_simps Let_def ref_row_Inr [OF refs])
  note rb = find_branch_mem [OF r]
  obtain m where m: "main_ref db m" using refs by (auto simp: refs_inv_def)
  note mm = find_branch_mem [of db default_branch m]
  have id: "rf_id r = db_default db \<longleftrightarrow> rq_branch rq = default_branch"
  proof
    assume "rf_id r = db_default db"
    then have "r = m" using ref_id_inj [OF names, of r m] rb m mm by (simp add: main_ref_def)
    then show "rq_branch rq = default_branch" using rb m mm by (simp add: main_ref_def)
  next
    assume "rq_branch rq = default_branch"
    then show "rf_id r = db_default db" using r m by (simp add: main_ref_def)
  qed
  have sr: "rf_id r = db_default db \<Longrightarrow> rf_seq r = main_head db"
    using id r by (simp add: main_head_def)
  define s where "s = (if rf_id r = db_default db then rf_seq r + 1 else main_head db)"
  have "main_head db \<le> s" using sr by (simp add: s_def)
  then have "work_ok (db_default db) s \<lparr>wk_side = db_side db (st_id t), wk_live = db_live db (st_id t), wk_leaves = []\<rparr>"
    using inv t side_ok_mono by (auto simp: work_ok_def store_defs)
  then have wk: "work_ok (db_default db) s w"
  proof (rule fold_steps_inv [OF w])
    fix ch a b
    assume ch: "ch \<in> set (sort_key sc_pk' (rq_changes rq))" and a: "work_ok (db_default db) s a"
      and st: "commit_step env t (rf_id r = db_default db) (rf_id r) (rf_seq r + 1) (rf_chain r) ch a = Inr b"
    have kd: "keyed t ch" if "rf_id r = db_default db" using k id that ch by (simp add: list_all_iff)
    show "work_ok (db_default db) s b"
      by (rule commit_step_ok [OF st a e kd]) (use room sr in \<open>simp_all add: s_def\<close>)
  qed
  have db1: "db1 = db\<lparr>db_side := (db_side db)(st_id t := stamp_versions (rf_id r) (rf_seq r + 1) (cw_id cr) (wk_side w)),
      db_live := (db_live db)(st_id t := wk_live w), db_commits := db_commits db @ [cr]\<rparr>"
    using i by (auto simp: insert_commit_def result_simps)
  have side: "side_ok (db_default db) s' (stamp_versions (rf_id r) (rf_seq r + 1) (cw_id cr) (wk_side w))
      \<and> mirrors (db_default db) (stamp_versions (rf_id r) (rf_seq r + 1) (cw_id cr) (wk_side w)) (wk_live w)"
    if "s' = (if rf_id r = db_default db then rf_seq r + 1 else main_head db)" for s'
    using wk that stamp_versions_ok unfolding work_ok_def s_def by blast
  have sess: "sessions_ok db1" using inv by (simp add: store_inv_def sessions_ok_def db1)
  have sq: "rf_id r = db_default db \<Longrightarrow> rf_seq r < rf_seq r + 1 \<and> rf_seq r + 1 < max_seq" using sr room by simp
  have eqs: "db_refs db1 = db_refs db" "db_default db1 = db_default db" "db_tables db1 = db_tables db"
    "db_side db1 = (db_side db)(st_id t := stamp_versions (rf_id r) (rf_seq r + 1) (cw_id cr) (wk_side w))"
    "db_live db1 = (db_live db)(st_id t := wk_live w)" by (simp_all add: db1)
  note adv = advance_inv [OF inv _ _ sq t side eqs(1-3) sess eqs(4,5) refl]
  show "store_inv db'" unfolding db' by (rule adv(1)) (use rb in simp_all)
  show "main_head db' = (if rq_branch rq = default_branch then main_head db + 1 else main_head db)"
    unfolding db' using adv(2) rb id sr by simp
qed

end
