(* ===== verification/StoreSteps.thy ===== *)
theory StoreSteps
  imports StoreCommitInv StoreMaint StoreMerge
begin

text \<open>
  The other operations of the store keep its invariant: references and tags, tracking, sessions, pruning,
  garbage collection and the hard purge. The last section collects them in a step relation and its
  reachable stores.
\<close>

subsection \<open>Operations on the references\<close>

text \<open>A change of the references alone.\<close>

lemma refs_step_inv:
  assumes inv: "store_inv db" and refs: "refs_inv db'" "main_head db' = main_head db"
    and db': "db_default db' = db_default db" "db_sessions db' = db_sessions db" "db_tables db' = db_tables db"
      "db_side db' = db_side db" "db_live db' = db_live db"
    and keep: "\<And>r. r \<in> set (db_refs db) \<Longrightarrow> rf_kind r = BranchRef \<Longrightarrow> rf_id r \<in> ss_branch ` set (db_sessions db) \<Longrightarrow>
      \<exists>r' \<in> set (db_refs db'). rf_kind r' = BranchRef \<and> rf_id r' = rf_id r"
  shows "store_inv db'"
proof -
  have "sessions_ok db'"
    unfolding sessions_ok_def
  proof (intro ballI conjI)
    fix s assume s: "s \<in> set (db_sessions db')"
    then show "ss_branch s \<noteq> db_default db'" "ss_id s \<noteq> []"
      using inv db' by (auto simp: store_inv_def sessions_ok_def)
    obtain r where r: "r \<in> set (db_refs db)" "rf_kind r = BranchRef" "rf_id r = ss_branch s"
      using s inv db'(2) by (auto simp: store_inv_def sessions_ok_def)
    have "rf_id r \<in> ss_branch ` set (db_sessions db)" using s db'(2) r(3) by simp
    from keep [OF r(1,2) this] r(3) show "\<exists>r \<in> set (db_refs db'). rf_kind r = BranchRef \<and> rf_id r = ss_branch s" by simp
  qed
  then show ?thesis using inv refs db' by (simp add: store_defs)
qed

lemma create_ref_store: "store_inv db \<Longrightarrow> create_ref db i name from who = Inr db' \<Longrightarrow> i \<noteq> [] \<Longrightarrow> store_inv db'"
proof -
  assume a: "store_inv db" "create_ref db i name from who = Inr db'" "i \<noteq> []"
  then have r: "refs_inv db" by (simp add: store_inv_def)
  note c = create_ref_inv [OF r a(2,3)]
  obtain x where x: "db' = db\<lparr>db_refs := db_refs db @ [x]\<rparr>" using c(3) by blast
  show "store_inv db'" by (rule refs_step_inv [OF a(1) c(1,2)]) (auto simp: x)
qed

lemma create_tag_store: "store_inv db \<Longrightarrow> create_tag db i name d who = Inr db' \<Longrightarrow> i \<noteq> [] \<Longrightarrow> store_inv db'"
proof -
  assume a: "store_inv db" "create_tag db i name d who = Inr db'" "i \<noteq> []"
  then have r: "refs_inv db" by (simp add: store_inv_def)
  note c = create_tag_inv [OF r a(2,3)]
  obtain x where x: "db' = db\<lparr>db_refs := db_refs db @ [x]\<rparr>" using c(3) by blast
  show "store_inv db'" by (rule refs_step_inv [OF a(1) c(1,2)]) (auto simp: x)
qed

lemma delete_branch_store:
  assumes inv: "store_inv db" and d: "delete_branch db name = Inr db'"
  shows "store_inv db'"
proof -
  have r: "refs_inv db" using inv by (simp add: store_inv_def)
  then have names: "names_ok (db_refs db)" by (simp add: refs_inv_def)
  note c = delete_branch_inv [OF r d]
  have used: "rf_id b \<notin> ss_branch ` set (db_sessions db)" if "find_branch db name = Some b" for b
    using d that by (auto simp: delete_branch_def result_simps Let_def list_ex_iff)
  have "q \<in> set (db_refs db')"
    if "q \<in> set (db_refs db)" "rf_kind q = BranchRef" "rf_id q \<in> ss_branch ` set (db_sessions db)" for q
    using that used [of q] find_branch_iff [OF names, of name q] by (auto simp: c(3))
  then show ?thesis by (intro refs_step_inv [OF inv c(1,2)]) (auto simp: c(3))
qed

lemma update_ref_store:
  assumes inv: "store_inv db" and f: "\<And>r. rf_id (f r) = rf_id r \<and> rf_kind (f r) = rf_kind r"
    and r: "refs_inv (update_ref i f db)" "main_head (update_ref i f db) = main_head db"
  shows "store_inv (update_ref i f db)"
proof (rule refs_step_inv [OF inv r])
  fix q assume q: "q \<in> set (db_refs db)" "rf_kind q = BranchRef"
  show "\<exists>r' \<in> set (db_refs (update_ref i f db)). rf_kind r' = BranchRef \<and> rf_id r' = rf_id q"
    using q f by (intro bexI [of _ "if rf_id q = i then f q else q"]) (auto simp: update_ref_def)
qed (simp_all add: update_ref_def)

subsection \<open>Operations on the version tables\<close>

text \<open>What a write of versions leaves alone: the default branch's bounds and open rows.\<close>

definition keeps_main :: "string \<Rightarrow> int \<Rightarrow> version list \<Rightarrow> version list \<Rightarrow> bool" where
  "keeps_main m s side side' \<longleftrightarrow>
     (side_ok m s side \<longrightarrow> side_ok m s side' \<and> (\<forall>k. open_row (hist side' m k) = open_row (hist side m k)))"

lemma keeps_main_refl: "keeps_main m s side side"
  by (simp add: keeps_main_def)

lemma keeps_main_trans: "keeps_main m s a b \<Longrightarrow> keeps_main m s b c \<Longrightarrow> keeps_main m s a c"
  by (simp add: keeps_main_def)

lemma side_step_inv:
  assumes inv: "store_inv db" and k: "\<And>i. keeps_main (db_default db) (main_head db) (db_side db i) (db_side db' i)"
    and db': "db_refs db' = db_refs db" "db_default db' = db_default db" "db_tables db' = db_tables db"
      "db_live db' = db_live db"
    and s: "\<And>s. s \<in> set (db_sessions db') \<Longrightarrow> \<exists>u \<in> set (db_sessions db). ss_id s = ss_id u \<and> ss_branch s = ss_branch u"
  shows "store_inv db'"
proof -
  have f: "find_branch db' n = find_branch db n" for n by (simp add: find_branch_def db')
  then have h: "main_head db' = main_head db" by (simp add: main_head_def)
  have "refs_inv db'" using inv by (simp add: store_inv_def refs_inv_def main_ref_def f db')
  moreover have "sessions_ok db'"
    using inv s unfolding store_inv_def sessions_ok_def db' by (metis (no_types, lifting))
  moreover have "table_inv db' t" if "t \<in> set (db_tables db)" for t
    using inv that k [of "st_id t"] by (auto simp: store_defs keeps_main_def mirrors_def h db')
  ultimately show ?thesis using inv by (simp add: store_inv_def db')
qed

text \<open>Dropping rows that are not on the default branch.\<close>

lemma keeps_main_filter:
  assumes "\<And>v. v \<in> set side \<Longrightarrow> v_session v = [] \<Longrightarrow> v_branch v = m \<Longrightarrow> P v"
  shows "keeps_main m s side (filter P side)"
proof -
  have "hist (filter P side) m k = hist side m k" for k
    using assms by (induction side) (auto simp: hist_def)
  then show ?thesis by (auto simp: keeps_main_def side_ok_def keys_distinct_filter)
qed

lemma drop_staged_keeps: "sid \<noteq> [] \<Longrightarrow> keeps_main m s side (drop_staged sid side)"
  unfolding drop_staged_def by (rule keeps_main_filter) simp

lemma update_session_inv: "store_inv db \<Longrightarrow> (\<And>s. ss_id (f s) = ss_id s \<and> ss_branch (f s) = ss_branch s) \<Longrightarrow>
    store_inv (update_session sid f db)"
  by (rule side_step_inv [of db]) (auto simp: update_session_def keeps_main_refl)

lemma set_side_inv:
  assumes "store_inv db" "keeps_main (db_default db) (main_head db) (db_side db i) side"
  shows "store_inv (db\<lparr>db_side := (db_side db)(i := side)\<rparr>)"
proof (rule side_step_inv [OF assms(1)])
  show "keeps_main (db_default db) (main_head db) (db_side db j) (db_side (db\<lparr>db_side := (db_side db)(i := side)\<rparr>) j)" for j
    using assms(2) by (simp add: keeps_main_refl)
qed auto

lemma abandon_inv: "store_inv db \<Longrightarrow> sid \<noteq> [] \<Longrightarrow> store_inv (store_abandon_session t sid db)"
  unfolding store_abandon_session_def
  by (intro update_session_inv set_side_inv drop_staged_keeps) simp_all

lemma foldl_inv: "P s \<Longrightarrow> (\<And>s x. x \<in> set xs \<Longrightarrow> P s \<Longrightarrow> P (f s x)) \<Longrightarrow> P (foldl f s xs)"
  by (induction xs arbitrary: s) simp_all

lemma reap_session_inv: "store_inv db \<Longrightarrow> sid \<noteq> [] \<Longrightarrow> store_inv (reap_session sid db)"
  unfolding reap_session_def
  by (intro update_session_inv foldl_inv [where P = store_inv] set_side_inv drop_staged_keeps) simp_all

lemma reap_expired_inv: "store_inv db \<Longrightarrow> store_inv (fst (reap_expired now db))"
proof -
  assume inv: "store_inv db"
  then have "sid \<noteq> []" if "sid \<in> set (expired_sessions db now)" for sid
    using that by (auto simp: expired_sessions_def store_inv_def sessions_ok_def)
  then show ?thesis unfolding reap_expired_def
    using inv by (auto simp: Let_def intro!: foldl_inv [where P = store_inv] reap_session_inv)
qed

lemma gc_inv: assumes inv: "store_inv db" shows "store_inv (fst (gc now db))"
proof -
  define db1 where "db1 = fst (reap_expired now db)"
  have inv1: "store_inv db1" using reap_expired_inv [OF inv] by (simp add: db1_def)
  define P where "P = (\<lambda>st :: dbase \<times> nat. store_inv (fst st) \<and> db_default (fst st) = db_default db1)"
  obtain m where "main_ref db1 m" using inv1 by (auto simp: store_inv_def refs_inv_def)
  then have "db_default db1 \<in> set (live_refs db1)"
    using find_branch_mem [of db1 default_branch m] by (force simp: main_ref_def live_refs_def)
  then have live: "db_default db1 \<in> set (live_refs db1)" .
  have step: "P (gc_table (live_refs db1) st t)" if P: "P st" for st t
  proof -
    have d: "db_default (fst st) = db_default db1" "store_inv (fst st)" using P by (simp_all add: P_def)
    have "keeps_main (db_default (fst st)) (main_head (fst st)) (db_side (fst st) (st_id t))
        (filter (\<lambda>v. v_branch v \<in> set (live_refs db1)) (db_side (fst st) (st_id t)))"
      by (rule keeps_main_filter) (simp add: d live)
    from set_side_inv [OF d(2) this] d(1) show ?thesis by (simp add: P_def gc_table_def Let_def)
  qed
  have "P (db1, 0)" using inv1 by (simp add: P_def)
  then have "P (foldl (gc_table (live_refs db1)) (db1, 0) (db_tables db1))" by (rule foldl_inv) (rule step)
  then have "store_inv (fst (foldl (gc_table (live_refs db1)) (db1, 0) (db_tables db1)))" by (simp add: P_def)
  moreover have "fst (gc now db) = fst (foldl (gc_table (live_refs db1)) (db1, 0) (db_tables db1))"
    unfolding gc_def Let_def case_prod_beta db1_def fst_conv by (rule refl)
  ultimately show ?thesis by (simp only:)
qed

subsection \<open>Tracking and purging\<close>

lemma track_inv:
  assumes inv: "store_inv db" and tr: "track t rows db = Inr db'"
  shows "store_inv db'"
proof -
  obtain r where r: "find (\<lambda>r. rf_id r = db_default db) (db_refs db) = Some r"
    and new: "\<forall>u \<in> set (db_tables db). st_id u \<noteq> st_id t"
    and db': "db' = db\<lparr>db_tables := db_tables db @ [t], db_live := (db_live db)(st_id t := rows),
       db_side := (db_side db)(st_id t := map (import_version (db_default db) (rf_seq r) (rf_head r))
                   (map (\<lambda>k. (k, state_row rows k)) (fm_keys rows)))\<rparr>"
    using tr by (auto simp: track_def result_simps list_ex_iff)
  obtain m where m: "main_ref db m" using inv by (auto simp: store_inv_def refs_inv_def)
  then have "m \<in> set (db_refs db)" "rf_id m = db_default db"
    using find_branch_mem [of db default_branch m] by (auto simp: main_ref_def)
  moreover have "r \<in> set (db_refs db)" "rf_id r = db_default db" using r by (auto dest: find_SomeD)
  ultimately have "r = m" using inv ref_id_inj [of "db_refs db" r m] by (simp add: store_inv_def refs_inv_def)
  then have s: "rf_seq r = main_head db" using main_head_eq [OF m] by simp
  have f: "find_branch db' n = find_branch db n" for n by (simp add: find_branch_def db')
  have h: "main_head db' = main_head db" by (simp add: main_head_def f)
  define side where "side = map (\<lambda>k. import_version (db_default db) (rf_seq r) (rf_head r) (k, state_row rows k)) (fm_keys rows)"
  have hist: "hist side (db_default db) k = (if fmlookup rows k = None then []
      else [import_version (db_default db) (rf_seq r) (rf_head r) (k, state_row rows k)])" for k
  proof -
    have "hist (map (\<lambda>k. import_version (db_default db) (rf_seq r) (rf_head r) (k, state_row rows k)) ks) (db_default db) k =
      (if k \<in> set ks then [import_version (db_default db) (rf_seq r) (rf_head r) (k, state_row rows k)] else [])"
      if "distinct ks" for ks
      using that by (induction ks) (auto simp: hist_def import_version_def)
    from this [of "fm_keys rows"] show ?thesis by (simp add: side_def set_fm_keys fmdom'_alt_def fmlookup_dom_iff)
  qed
  have "distinct (map (\<lambda>v. (v_branch v, v_pk v, v_from v)) side)"
    by (simp add: side_def distinct_map o_def import_version_def inj_on_def)
  then have "side_ok (db_default db) (main_head db) side"
    by (auto simp: side_ok_def side_def import_version_def s keys_distinct_def)
  moreover have "mirrors (db_default db) side rows"
    by (auto simp: mirrors_def hist open_row_def import_version_def live_def state_row_def split: option.splits)
  ultimately have "table_inv db' t" by (simp add: table_inv_def h) (simp add: db' side_def o_def)
  moreover have "table_inv db' u" if "u \<in> set (db_tables db)" for u
    using inv that new h by (auto simp: store_defs db')
  moreover have "refs_inv db'" using inv by (simp add: store_inv_def refs_inv_def main_ref_def f) (simp add: db')
  moreover have "sessions_ok db'" using inv by (simp add: store_inv_def sessions_ok_def db')
  moreover have "distinct (map st_id (db_tables db'))" using inv new by (auto simp: store_inv_def db')
  ultimately show ?thesis by (auto simp: store_inv_def db')
qed

lemma untrack_inv: "store_inv db \<Longrightarrow> store_inv (untrack t db)"
proof -
  assume inv: "store_inv db"
  have f: "find_branch (untrack t db) n = find_branch db n" for n by (simp add: find_branch_def untrack_def)
  have h: "main_head (untrack t db) = main_head db" by (simp add: main_head_def f)
  have "refs_inv (untrack t db)" using inv by (simp add: store_inv_def refs_inv_def main_ref_def f) (simp add: untrack_def)
  moreover have "sessions_ok (untrack t db)" using inv by (simp add: store_inv_def sessions_ok_def untrack_def)
  moreover have "table_inv (untrack t db) u" if "u \<in> set (db_tables (untrack t db))" for u
    using inv that h by (auto simp: store_defs untrack_def)
  moreover have "distinct (map st_id (db_tables (untrack t db)))" using inv by (simp add: store_inv_def untrack_def distinct_map_filter)
  ultimately show ?thesis by (simp add: store_inv_def)
qed

lemma purge_inv:
  assumes inv: "store_inv db" and p: "purge t k reason db = Inr (db', rep)"
  shows "store_inv db'"
proof -
  obtain cs where db': "db' = db\<lparr>db_side := (db_side db)(st_id t := filter (\<lambda>v. v_pk v \<noteq> k) (db_side db (st_id t))),
      db_live := (db_live db)(st_id t := fmdrop k (db_live db (st_id t))), db_commits := cs\<rparr>"
    using p by (auto simp: purge_def result_simps Let_def)
  have f: "find_branch db' n = find_branch db n" for n by (simp add: find_branch_def db')
  have h: "main_head db' = main_head db" by (simp add: main_head_def f)
  have hist: "hist (filter (\<lambda>v. v_pk v \<noteq> k) side) b q = (if q = k then [] else hist side b q)" for side b q
    by (induction side) (auto simp: hist_def)
  have "side_ok (db_default db) (main_head db) (filter (\<lambda>v. v_pk v \<noteq> k) side)"
    if "side_ok (db_default db) (main_head db) side" for side
    using that by (auto simp: side_ok_def keys_distinct_filter)
  moreover have "mirrors m (filter (\<lambda>v. v_pk v \<noteq> k) side) (fmdrop k lt)" if "mirrors m side lt" for m side lt
    using that by (simp add: mirrors_def hist open_row_def)
  ultimately have "table_inv db' u" if "u \<in> set (db_tables db)" for u
    using inv that h by (cases "st_id u = st_id t") (auto simp: store_defs db')
  moreover have "refs_inv db'" using inv by (simp add: store_inv_def refs_inv_def main_ref_def f) (simp add: db')
  moreover have "sessions_ok db'" using inv by (simp add: store_inv_def sessions_ok_def db')
  ultimately show ?thesis using inv by (simp add: store_inv_def db')
qed

subsection \<open>Sessions\<close>

lemma open_session_inv:
  assumes inv: "store_inv db" and o: "open_session_row db sid name who now = Inr db'" "sid \<noteq> []"
  shows "store_inv db'"
proof -
  have refs: "refs_inv db" using inv by (simp add: store_inv_def)
  then have names: "names_ok (db_refs db)" by (simp add: refs_inv_def)
  obtain r where n: "name \<noteq> default_branch" and r: "find_branch db name = Some r"
    and db': "db' = db\<lparr>db_sessions := db_sessions db @ [\<lparr>ss_id = sid, ss_branch = rf_id r, ss_principal = who, ss_base = rf_head r,
        ss_base_seq = rf_seq r, ss_state = SessOpen, ss_lease = now + default_lease\<rparr>]\<rparr>"
    using o(1) by (auto simp: open_session_row_def result_simps ref_row_Inr [OF refs])
  note rb = find_branch_mem [OF r]
  obtain m where m: "main_ref db m" using refs by (auto simp: refs_inv_def)
  then have mm: "m \<in> set (db_refs db)" "rf_id m = db_default db" "rf_name m = default_branch"
    using find_branch_mem [of db default_branch m] by (auto simp: main_ref_def)
  have off: "rf_id r \<noteq> db_default db" using ref_id_inj [OF names, of r m] rb mm n by auto
  have f: "find_branch db' k = find_branch db k" for k by (simp add: find_branch_def db')
  have h: "main_head db' = main_head db" by (simp add: main_head_def f)
  have "refs_inv db'" using refs by (simp add: refs_inv_def main_ref_def f) (simp add: db')
  moreover have "sessions_ok db'" using inv off o(2) rb by (auto simp: store_inv_def sessions_ok_def db')
  moreover have "table_inv db' t" if "t \<in> set (db_tables db)" for t
    using inv that h by (simp add: store_defs) (simp add: db')
  ultimately show ?thesis using inv by (simp add: store_inv_def db')
qed

lemma load_session_Inr:
  "load_session db sid now = Inr (s, r) \<Longrightarrow> s \<in> set (db_sessions db) \<and> ss_id s = sid \<and> r \<in> set (db_refs db)
     \<and> rf_id r = ss_branch s \<and> ss_state s = SessOpen \<and> now \<le> ss_lease s"
  by (auto simp: load_session_def result_simps dest: find_SomeD)

lemma keeps_main_snoc:
  assumes "v_branch v \<noteq> m" "insert_row v side = Inr side'"
  shows "keeps_main m s side side'"
proof -
  have side': "side' = side @ [v]" using assms(2) by (simp add: insert_row_Inr)
  have "hist [v] m k = []" for k using assms(1) by (simp add: hist_def)
  moreover have "keys_distinct side \<Longrightarrow> keys_distinct side'"
    using assms(2) by (simp add: side' keys_distinct_snoc insert_row_Inr)
  ultimately show ?thesis using assms(1) by (auto simp: keeps_main_def side_ok_def side' hist_append)
qed

lemma stage_change_keeps:
  assumes "stage_change env t s ch (side, view) = Inr (side', view')" "ss_branch s \<noteq> m" "ss_id s \<noteq> []"
  shows "keeps_main m h side side'"
proof (cases "effective_op ch (fmlookup view (sc_pk' ch))")
  case None
  then show ?thesis using assms(1) by (simp add: stage_change_def keeps_main_refl)
next
  case (Some o')
  define msk where "msk = mask_of (opt_row (fmlookup view (sc_pk' ch))) (sc_row ch) (table_col_ids t)"
  define side1 where "side1 = filter (\<lambda>u. \<not> (v_session u = ss_id s \<and> v_pk u = sc_pk' ch)) side"
  obtain k where i: "insert_row (staged_row t s k o' ch msk) side1 = Inr side'"
    using assms(1) Some by (auto simp: stage_change_def Let_def result_simps msk_def side1_def)
  have "keeps_main m h side side1" unfolding side1_def by (rule keeps_main_filter) (use assms(3) in simp)
  moreover have "keeps_main m h side1 side'"
    by (rule keeps_main_snoc [OF _ i]) (simp add: staged_row_def assms(2))
  ultimately show ?thesis by (rule keeps_main_trans)
qed

lemma session_write_inv:
  assumes inv: "store_inv db" and w: "store_session_write env t sid now changes db = Inr db'"
  shows "store_inv db'"
proof -
  obtain s r view side view' where l: "load_session db sid now = Inr (s, r)"
    and f: "fold_steps (stage_change env t s) changes (db_side db (st_id t), view) = Inr (side, view')"
    and db': "db' = update_session sid (\<lambda>u. u\<lparr>ss_lease := now + default_lease\<rparr>)
              (db\<lparr>db_side := (db_side db)(st_id t := side)\<rparr>)"
    using w by (auto simp: store_session_write_def result_simps)
  have s: "ss_branch s \<noteq> db_default db" "ss_id s \<noteq> []"
    using load_session_Inr [OF l] inv by (auto simp: store_inv_def sessions_ok_def)
  have "keeps_main (db_default db) (main_head db) (db_side db (st_id t)) (fst (side, view'))"
  proof (rule fold_steps_inv [OF f])
    show "keeps_main (db_default db) (main_head db) (db_side db (st_id t)) (fst (db_side db (st_id t), view))"
      by (simp add: keeps_main_refl)
  next
    fix ch a b
    assume a: "keeps_main (db_default db) (main_head db) (db_side db (st_id t)) (fst a)" "stage_change env t s ch a = Inr b"
    have "stage_change env t s ch (fst a, snd a) = Inr (fst b, snd b)" using a(2) by simp
    from keeps_main_trans [OF a(1) stage_change_keeps [OF this s]]
    show "keeps_main (db_default db) (main_head db) (db_side db (st_id t)) (fst b)" .
  qed
  then show ?thesis unfolding db' by (intro update_session_inv set_side_inv inv) simp_all
qed

text \<open>Committing a session closes and stamps rows of its own branch.\<close>

lemma close_other: "close_versions t b k sq side = Inr side' \<Longrightarrow> b \<noteq> m \<Longrightarrow> keeps_main m h side side'"
proof -
  assume c: "close_versions t b k sq side = Inr side'" and b: "b \<noteq> m"
  define f where "f = (\<lambda>v :: version. if v_branch v = b \<and> v_session v = [] \<and> v_to v = max_seq \<and> v_pk v = k then v\<lparr>v_to := sq\<rparr> else v)"
  have side': "side' = map f side" using close_versions_Inr [OF c] by (simp add: f_def)
  have f: "v_branch (f u) = v_branch u" "v_pk (f u) = v_pk u" "v_from (f u) = v_from u" "v_session (f u) = v_session u"
    "v_branch u = m \<Longrightarrow> f u = u" for u
    using b by (simp_all add: f_def)
  have h: "hist side' m k = hist side m k" for k
  proof -
    have "hist side' m k = map f (hist side m k)" by (simp add: side' hist_map f)
    also have "... = hist side m k" by (rule map_idI) (simp add: f hist_mem_iff)
    finally show ?thesis .
  qed
  have "keys_distinct side' = keys_distinct side" by (simp add: side' keys_distinct_map f)
  then show ?thesis using h f by (auto simp: keeps_main_def side_ok_def side')
qed

lemma hist_stamp_session:
  assumes "\<And>v. v \<in> set side \<Longrightarrow> v_session v = sid \<Longrightarrow> v_branch v \<noteq> m"
  shows "hist (stamp_session sid sq c side) m k = hist side m k"
  using assms by (induction side) (auto simp: hist_def stamp_session_def)

lemma stamp_session_keeps:
  assumes "keys_distinct (stamp_session sid sq c side)" "sid \<noteq> []"
  shows "keeps_main m h side (stamp_session sid sq c side)"
proof -
  have h: "side_ok m h side \<Longrightarrow> hist (stamp_session sid sq c side) m k = hist side m k" for k
    by (rule hist_stamp_session) (use assms(2) in \<open>auto simp: side_ok_def\<close>)
  have "side_ok m h side \<Longrightarrow> side_ok m h (stamp_session sid sq c side)"
    using assms by (auto simp: side_ok_def stamp_session_def)
  with h show ?thesis by (simp add: keeps_main_def)
qed

lemma session_commit_inv:
  assumes inv: "store_inv db" and c: "store_commit_session t sid now author message db = Inr (db', d, n)"
    and t: "t \<in> set (db_tables db)"
  shows "store_inv db'" "main_head db' = main_head db"
proof -
  have refs: "refs_inv db" using inv by (simp add: store_inv_def)
  then have names: "names_ok (db_refs db)" by (simp add: refs_inv_def)
  obtain s r q closed cr db1 where l: "load_session db sid (sint now) = Inr (s, r)"
    and q: "find_branch db (rf_name r) = Some q"
    and cl: "fold_steps (\<lambda>v. close_versions t (ss_branch s) (v_pk v) (rf_seq q + 1)) (staged_of sid (db_side db (st_id t)))
        (db_side db (st_id t)) = Inr closed"
    and kd: "keys_distinct (stamp_session sid (rf_seq q + 1) (cw_id cr) closed)"
    and ic: "insert_commit cr (db\<lparr>db_side := (db_side db)(st_id t := stamp_session sid (rf_seq q + 1) (cw_id cr) closed)\<rparr>) = Inr db1"
    and db': "db' = update_session sid (\<lambda>u. u\<lparr>ss_state := SessCommitted\<rparr>)
       (advance_ref (ss_branch s) (cw_id cr) (rf_seq q + 1)
         (\<lparr>sg_branch = ss_branch s, sg_seq = rf_seq q + 1\<rparr> # tl (rf_chain q)) db1)"
    using c by (auto simp: store_commit_session_def result_simps Let_def ref_row_Inr [OF refs])
  note ls = load_session_Inr [OF l]
  have s: "ss_branch s \<noteq> db_default db" "sid \<noteq> []" using ls inv by (auto simp: store_inv_def sessions_ok_def)
  obtain r' where r': "r' \<in> set (db_refs db)" "rf_kind r' = BranchRef" "rf_id r' = ss_branch s"
    using ls inv by (auto simp: store_inv_def sessions_ok_def)
  then have "r' = r" using ref_id_inj [OF names, of r' r] ls by simp
  then have qr: "q = r" using r' find_branch_iff [OF names] q by (metis option.inject)
  have rid: "rf_id r = ss_branch s" and rr: "r \<in> set (db_refs db)" "rf_kind r = BranchRef"
    using \<open>r' = r\<close> r' by simp_all
  have "keeps_main (db_default db) (main_head db) (db_side db (st_id t)) closed"
  proof (rule fold_steps_inv [OF cl])
    fix v a b
    assume "keeps_main (db_default db) (main_head db) (db_side db (st_id t)) a"
      "close_versions t (ss_branch s) (v_pk v) (rf_seq q + 1) a = Inr b"
    then show "keeps_main (db_default db) (main_head db) (db_side db (st_id t)) b"
      using keeps_main_trans close_other s(1) by blast
  qed (rule keeps_main_refl)
  from keeps_main_trans [OF this stamp_session_keeps [OF kd s(2)]]
  have k: "keeps_main (db_default db) (main_head db) (db_side db (st_id t)) (stamp_session sid (rf_seq q + 1) (cw_id cr) closed)" .
  define side where "side = stamp_session sid (rf_seq q + 1) (cw_id cr) closed"
  have db1: "db1 = db\<lparr>db_side := (db_side db)(st_id t := side), db_commits := db_commits db @ [cr]\<rparr>"
    using ic by (auto simp: insert_commit_def result_simps side_def)
  have tab: "side_ok (db_default db) (main_head db) side" "mirrors (db_default db) side (db_live db (st_id t))"
    using inv t k unfolding side_def [symmetric] by (simp_all add: store_defs keeps_main_def mirrors_def)
  have sess: "sessions_ok db1" using inv by (simp add: store_inv_def sessions_ok_def db1)
  have off: "rf_id r \<noteq> db_default db" using rid s(1) by simp
  have eqs: "db_refs db1 = db_refs db" "db_default db1 = db_default db" "db_tables db1 = db_tables db"
    "db_side db1 = (db_side db)(st_id t := side)" "db_live db1 = (db_live db)(st_id t := db_live db (st_id t))"
    by (simp_all add: db1)
  note adv = advance_inv [OF inv rr _ t _ eqs(1-3) sess eqs(4,5) refl, of "rf_seq q + 1" "cw_id cr", unfolded rid]
  define db2 where "db2 = advance_ref (ss_branch s) (cw_id cr) (rf_seq q + 1)
         (\<lparr>sg_branch = ss_branch s, sg_seq = rf_seq q + 1\<rparr> # tl (rf_chain q)) db1"
  have a: "store_inv db2" unfolding db2_def qr by (rule adv(1) [unfolded qr]) (use off rid tab in simp_all)
  have b: "main_head db2 = main_head db" unfolding db2_def qr
    using adv(2) [unfolded qr] off rid tab by simp
  show "store_inv db'" unfolding db' db2_def [symmetric] by (rule update_session_inv [OF a]) simp
  have "find_branch (update_session sid (\<lambda>u. u\<lparr>ss_state := SessCommitted\<rparr>) db2) x = find_branch db2 x" for x
    by (simp add: find_branch_def update_session_def)
  then show "main_head db' = main_head db" using b unfolding db' db2_def [symmetric] by (simp add: main_head_def)
qed

subsection \<open>Pruning\<close>

text \<open>The version a span extends is closed, and its new end is not open either.\<close>

definition span_ok :: "string \<Rightarrow> int \<Rightarrow> version list \<Rightarrow> span \<Rightarrow> bool" where
  "span_ok branch s side sp \<longleftrightarrow> sp_hi sp \<noteq> max_seq \<and> sp_hi sp \<le> s \<and>
     (\<forall>v \<in> set side. v_branch v = branch \<longrightarrow> v_session v = [] \<longrightarrow> v_pk v = sp_pk sp \<longrightarrow> v_from v = sp_lo sp \<longrightarrow>
        v_to v \<noteq> max_seq)"

lemma key_span_facts:
  assumes "key_span vs k = Some sp"
  shows "sp_pk sp = k" "\<exists>v \<in> set vs. v_pk v = k \<and> v_from v = sp_lo sp" "\<exists>v \<in> set vs. v_pk v = k \<and> v_to v = sp_hi sp"
proof -
  define ks where "ks = filter (\<lambda>v. v_pk v = k) vs"
  have sp: "sp = \<lparr>sp_pk = k, sp_lo = Min (set (map v_from ks)), sp_hi = Max (set (map v_to ks))\<rparr>"
    and l: "1 < length ks" using assms by (auto simp: key_span_def Let_def ks_def split: if_splits)
  have "ks \<noteq> []" using l by auto
  then have "sp_lo sp \<in> set (map v_from ks)" "sp_hi sp \<in> set (map v_to ks)"
    unfolding sp by (auto intro!: Min_in Max_in simp del: set_map)
  then show "sp_pk sp = k" "\<exists>v \<in> set vs. v_pk v = k \<and> v_from v = sp_lo sp" "\<exists>v \<in> set vs. v_pk v = k \<and> v_to v = sp_hi sp"
    by (auto simp: sp ks_def)
qed

lemma prune_spans_ok:
  assumes sp: "sp \<in> set (prune_spans side branch cutoff)" and ok: "side_ok branch s side"
  shows "span_ok branch s side sp"
proof -
  define vs where "vs = filter (prunable branch cutoff) side"
  obtain k where k: "key_span vs k = Some sp" using sp by (auto simp: prune_spans_def Let_def vs_def map_filter_set)
  note ks = key_span_facts [OF k]
  obtain lo hi where lo: "lo \<in> set vs" "v_pk lo = k" "v_from lo = sp_lo sp"
    and hi: "hi \<in> set vs" "v_to hi = sp_hi sp" using ks by auto
  have "v = lo" if "v \<in> set side" "v_branch v = branch" "v_pk v = k" "v_from v = sp_lo sp" for v
    using ok lo that by (auto simp: side_ok_def keys_distinct_def distinct_map inj_on_def vs_def prunable_def)
  moreover have "v_to hi \<le> s" using hi ok by (auto simp: side_ok_def vs_def prunable_def)
  ultimately show ?thesis using hi lo ks(1) by (auto simp: span_ok_def vs_def prunable_def)
qed

lemma filter_map_fix:
  "(\<And>x. x \<in> set xs \<Longrightarrow> P (f x) = P x) \<Longrightarrow> (\<And>x. x \<in> set xs \<Longrightarrow> P x \<Longrightarrow> f x = x) \<Longrightarrow> filter P (map f xs) = filter P xs"
  by (induction xs) auto

lemma prune_span_keeps:
  assumes "span_ok branch h (fst st) sp" "branch = m"
  shows "keeps_main m h (fst st) (fst (prune_span branch cutoff sp st))"
    and "span_ok branch h (fst st) sp' \<Longrightarrow> span_ok branch h (fst (prune_span branch cutoff sp st)) sp'"
proof -
  define side where "side = fst st"
  define ext where "ext = map (extend_span branch sp) side"
  have e: "v_branch (extend_span branch sp v) = v_branch v" "v_pk (extend_span branch sp v) = v_pk v"
    "v_from (extend_span branch sp v) = v_from v" "v_session (extend_span branch sp v) = v_session v"
    "live (extend_span branch sp v) = live v" for v
    by (simp_all add: extend_span_def live_def)
  have to: "v_to (extend_span branch sp v) = max_seq \<longleftrightarrow> v_to v = max_seq" if "v \<in> set side" for v
    using assms(1) that by (auto simp: extend_span_def span_ok_def side_def)
  have to': "v_to (extend_span branch sp v) = v_to v \<or> v_to (extend_span branch sp v) = sp_hi sp" for v
    by (simp add: extend_span_def)
  have res: "fst (prune_span branch cutoff sp st) = filter (\<lambda>v. \<not> covered branch cutoff sp v) ext"
    by (simp add: prune_span_def Let_def ext_def side_def)
  have drop: "open_row (filter (\<lambda>v. \<not> covered branch cutoff sp v) h) = open_row h" for h
    by (rule open_row_cong) (induction h; auto simp: covered_def)
  have ext_open: "open_row (map (extend_span branch sp) (hist side m k)) = open_row (hist side m k)" for k
  proof (rule open_row_cong)
    have "v_to (extend_span branch sp v) = max_seq \<longleftrightarrow> v_to v = max_seq" if "v \<in> set (hist side m k)" for v
      using that to by (simp add: hist_mem_iff)
    moreover have "extend_span branch sp v = v" if "v \<in> set (hist side m k)" "v_to v = max_seq" for v
      using that assms(1,2) by (auto simp: extend_span_def span_ok_def side_def hist_mem_iff)
    ultimately show "filter (\<lambda>v. v_to v = max_seq) (map (extend_span branch sp) (hist side m k))
        = filter (\<lambda>v. v_to v = max_seq) (hist side m k)"
      by (intro filter_map_fix) auto
  qed
  have mem: "\<exists>u \<in> set side. v = extend_span branch sp u"
    if "v \<in> set (filter (\<lambda>v. \<not> covered branch cutoff sp v) ext)" for v using that by (auto simp: ext_def)
  have "side_ok m h (filter (\<lambda>v. \<not> covered branch cutoff sp v) ext)" if ok: "side_ok m h side"
    unfolding side_ok_def
  proof (intro conjI ballI impI)
    fix v assume v: "v \<in> set (filter (\<lambda>v. \<not> covered branch cutoff sp v) ext)" "v_session v = []" "v_branch v = m"
    then obtain u where u: "u \<in> set side" "v = extend_span branch sp u" using mem by blast
    then have "v_from u \<le> h \<and> (v_to u = max_seq \<or> v_to u \<le> h)" using ok v e unfolding side_ok_def by metis
    then show "v_from v \<le> h" "v_to v = max_seq \<or> v_to v \<le> h"
      using to' [of u] to [OF u(1)] u(2) e(3) assms(1) by (auto simp: span_ok_def)
  next
    fix v assume v: "v \<in> set (filter (\<lambda>v. \<not> covered branch cutoff sp v) ext)" "v_session v \<noteq> []"
    then obtain u where u: "u \<in> set side" "v = extend_span branch sp u" using mem by blast
    then show "v_branch v \<noteq> m" using ok v(2) e unfolding side_ok_def by metis
  next
    show "keys_distinct (filter (\<lambda>v. \<not> covered branch cutoff sp v) ext)"
      using ok by (simp add: ext_def side_ok_def keys_distinct_filter keys_distinct_map e)
  qed
  then show "keeps_main m h (fst st) (fst (prune_span branch cutoff sp st))"
    unfolding keeps_main_def res
    by (simp add: hist_filter drop ext_def hist_map e ext_open side_def [symmetric])
  show "span_ok branch h (fst (prune_span branch cutoff sp st)) sp'" if s': "span_ok branch h (fst st) sp'"
    unfolding span_ok_def res
  proof (intro conjI ballI impI)
    show "sp_hi sp' \<noteq> max_seq" "sp_hi sp' \<le> h" using s' by (simp_all add: span_ok_def)
    fix v assume v: "v \<in> set (filter (\<lambda>v. \<not> covered branch cutoff sp v) ext)" "v_branch v = branch" "v_session v = []"
      "v_pk v = sp_pk sp'" "v_from v = sp_lo sp'"
    then obtain u where u: "u \<in> set side" "v = extend_span branch sp u" using mem by blast
    then have "v_to u \<noteq> max_seq" using s' v e unfolding span_ok_def side_def by metis
    then show "v_to v \<noteq> max_seq" using to u by simp
  qed
qed

lemma prune_side_keeps: "keeps_main m h side (fst (prune_side m cutoff side))"
proof (cases "side_ok m h side")
  case True
  define P where "P = (\<lambda>st :: version list \<times> nat. keeps_main m h side (fst st)
    \<and> (\<forall>sp \<in> set (prune_spans side m cutoff). span_ok m h (fst st) sp))"
  have "P (side, 0)" using prune_spans_ok [OF _ True] by (simp add: P_def keeps_main_refl)
  then have "P (foldl (\<lambda>st sp. prune_span m cutoff sp st) (side, 0) (prune_spans side m cutoff))"
  proof (rule foldl_inv)
    fix st sp assume "sp \<in> set (prune_spans side m cutoff)" "P st"
    then show "P (prune_span m cutoff sp st)"
      using prune_span_keeps [of m h st sp m] keeps_main_trans unfolding P_def by blast
  qed
  then show ?thesis by (simp add: P_def prune_side_def)
qed (simp add: keeps_main_def)

lemma prune_inv:
  assumes inv: "store_inv db" and p: "prune t pol before ms db = Inr (db', rep)"
  shows "store_inv db'"
proof -
  have refs: "refs_inv db" using inv by (simp add: store_inv_def)
  obtain m where m: "main_ref db m" using refs by (auto simp: refs_inv_def)
  have h: "main_head db = rf_seq m" "rf_id m = db_default db" "find_branch db default_branch = Some m"
    using main_head_eq [OF m] m by (simp_all add: main_ref_def)
  define cutoff where "cutoff = prune_cutoff db (db_default db) (main_head db) pol before"
  consider "db' = db" | "db' = db\<lparr>db_side := (db_side db)(st_id t := fst (prune_side (db_default db) cutoff (db_side db (st_id t))))\<rparr>"
    using p h by (auto simp: prune_def result_simps Let_def ref_row_Inr [OF refs] cutoff_def case_prod_beta split: if_splits)
  then show ?thesis
  proof cases
    case 2
    show ?thesis unfolding 2 by (rule set_side_inv [OF inv prune_side_keeps])
  qed (use inv in simp)
qed

subsection \<open>Creation\<close>

lemma create_repo_inv:
  assumes "create_repo repo branch author now = Inr db" "branch \<noteq> []"
  shows "store_inv db" "main_head db = 0" "db_tables db = []"
proof -
  define r where "r = fork_ref branch default_branch []
      (commit_hash \<lparr>ci_repo = repo, ci_parents = [], ci_change = empty_change_digest,
            ci_schema = zero_digest, ci_author = author, ci_author_at = now,
            ci_message = ''repository created'', ci_external_ref = []\<rparr>) 0 [\<lparr>sg_branch = branch, sg_seq = 0\<rparr>] author"
  have db: "db_refs db = [r\<lparr>rf_fork_commit := zero_digest, rf_protected := True\<rparr>]" "db_default db = branch"
    "db_sessions db = []" "db_tables db = []"
    using assms(1) by (auto simp: create_repo_def Let_def insert_ref_def insert_commit_def r_def)
  have r: "rf_id r = branch" "rf_name r = default_branch" "rf_kind r = BranchRef" "rf_parent r = []" "rf_seq r = 0"
    "rf_chain r = [\<lparr>sg_branch = branch, sg_seq = 0\<rparr>]" by (simp_all add: r_def fork_ref_def)
  have f: "find_branch db default_branch = Some (r\<lparr>rf_fork_commit := zero_digest, rf_protected := True\<rparr>)"
    by (simp add: find_branch_def db r)
  show "main_head db = 0" by (simp add: main_head_def f r)
  have "main_ref db (r\<lparr>rf_fork_commit := zero_digest, rf_protected := True\<rparr>)"
    by (simp add: main_ref_def f r db max_seq_def max_int64_def)
  then show "store_inv db"
    using assms(2) by (auto simp: store_inv_def refs_inv_def sessions_ok_def names_ok_def tree_ok_def db r max_chain_depth_def)
  show "db_tables db = []" by (rule db)
qed

subsection \<open>The operations that write through a commit\<close>

lemma store_commit_branches:
  assumes inv: "store_inv db" and c: "store_commit env t now rq db = Inr (db', d, n)"
  shows "\<exists>g. (\<forall>q. rf_id (g q) = rf_id q \<and> rf_parent (g q) = rf_parent q) \<and>
    (\<forall>n. find_branch db' n = map_option g (find_branch db n))"
proof -
  have refs: "refs_inv db" using inv by (simp add: store_inv_def)
  obtain i sq ch db1 where db': "db' = advance_ref i d sq ch db1" "db_refs db1 = db_refs db"
    using c by (auto simp: store_commit_def result_simps Let_def ref_row_Inr [OF refs] insert_commit_def)
  define g where "g = (\<lambda>r :: ref. if rf_id r = i then r\<lparr>rf_head := d, rf_seq := sq, rf_chain := ch\<rparr> else r)"
  have g: "rf_kind (g r) = rf_kind r" "rf_name (g r) = rf_name r" "rf_id (g r) = rf_id r" "rf_parent (g r) = rf_parent r" for r
    by (simp_all add: g_def)
  have r': "db_refs db' = map g (db_refs db)" by (simp add: db' advance_ref_def update_ref_def g_def)
  have "find_branch db' n = map_option g (find_branch db n)" for n
    unfolding find_branch_def r' by (rule find_map_inv) (simp add: g)
  then show ?thesis using g by blast
qed

lemma store_merge_cases:
  assumes "store_merge env t us now from into author msg apply db = Inr (db', res)"
  obtains "db' = db" | d n rq where "store_commit env t now rq db = Inr (db', d, n)" "rq_branch rq = into"
    "rq_changes rq = sm_changes res"
  using assms by (auto simp: store_merge_def result_simps split: if_splits)

lemma store_merge_inv:
  assumes inv: "store_inv db" and m: "store_merge env t us now from into author msg apply db = Inr (db', res)"
    and t: "t \<in> set (db_tables db)" and e: "plain_env env" and room: "main_head db + 1 < max_seq"
    and k: "into = default_branch \<Longrightarrow> list_all (keyed t) (sm_changes res)"
  shows "store_inv db'"
    "\<exists>g. (\<forall>q. rf_id (g q) = rf_id q \<and> rf_parent (g q) = rf_parent q) \<and> (\<forall>n. find_branch db' n = map_option g (find_branch db n))"
proof -
  have "store_inv db' \<and> (\<exists>g. (\<forall>q. rf_id (g q) = rf_id q \<and> rf_parent (g q) = rf_parent q) \<and>
      (\<forall>n. find_branch db' n = map_option g (find_branch db n)))"
    using m
  proof (cases rule: store_merge_cases)
    case 1
    have "\<forall>n. find_branch db n = map_option (\<lambda>q. q) (find_branch db n)" by (simp add: option.map_ident)
    then show ?thesis using inv 1 by (intro conjI exI [of _ "\<lambda>q. q"]) simp_all
  next
    case (2 d n rq)
    then show ?thesis using store_commit_inv(1) [OF inv 2(1) t e _ room] store_commit_branches [OF inv 2(1)] k by simp
  qed
  then show "store_inv db'" "\<exists>g. (\<forall>q. rf_id (g q) = rf_id q \<and> rf_parent (g q) = rf_parent q) \<and>
      (\<forall>n. find_branch db' n = map_option g (find_branch db n))" by blast+
qed

lemma update_from_parent_inv:
  assumes inv: "store_inv db" and u: "store_update_from_parent env t us now name author db = Inr (db', res)"
    and t: "t \<in> set (db_tables db)" and e: "plain_env env" and room: "main_head db + 1 < max_seq"
  shows "store_inv db'"
proof -
  have refs: "refs_inv db" using inv by (simp add: store_inv_def)
  then have tree: "tree_ok (db_refs db)" and names: "names_ok (db_refs db)" by (simp_all add: refs_inv_def)
  obtain b p db1 where b: "find_branch db name = Some b"
    and p: "find (\<lambda>p. rf_id p = rf_parent b) (db_refs db) = Some p"
    and m: "store_merge env t us now (rf_name p) name author (update_message name (rf_name p)) True db = Inr (db1, res)"
    and r: "db' = db1 \<or> rebase_chain (rf_name p) db1 name = Inr db'"
    using u by (auto simp: store_update_from_parent_def result_simps Let_def split: option.splits if_splits)
  have pm: "p \<in> set (db_refs db)" "rf_id p = rf_parent b" using p by (auto dest: find_SomeD)
  have bm: "b \<in> set (db_refs db)" "rf_kind b = BranchRef" using find_branch_mem [OF b] by auto
  have par: "rf_parent b \<noteq> []" using pm names unfolding names_ok_def by (metis imageI)
  have "name \<noteq> default_branch"
  proof
    assume "name = default_branch"
    then have "rf_parent b = []" using refs b by (auto simp: refs_inv_def main_ref_def)
    with par show False by simp
  qed
  note s1 = store_merge_inv [OF inv m t e room]
  have inv1: "store_inv db1" by (rule s1(1)) (simp add: \<open>name \<noteq> default_branch\<close>)
  obtain g where g: "\<And>q. rf_id (g q) = rf_id q \<and> rf_parent (g q) = rf_parent q"
    "\<And>n. find_branch db1 n = map_option g (find_branch db n)" using s1(2) \<open>name \<noteq> default_branch\<close> by blast
  obtain q where "q \<in> set (db_refs db)" "rf_kind q = BranchRef" "rf_id q = rf_parent b"
    using tree_parent [OF tree bm par] by blast
  then have "rf_kind p = BranchRef" using ref_id_inj [OF names, of q p] pm by simp
  then have "find_branch db (rf_name p) = Some p" using find_branch_iff [OF names] pm by blast
  then have b1: "find_branch db1 name = Some (g b)" "find_branch db1 (rf_name p) = Some (g p)" "rf_id (g p) = rf_parent (g b)"
    using g b pm by simp_all
  have refs1: "refs_inv db1" using inv1 by (simp add: store_inv_def)
  from r show ?thesis
  proof
    assume "rebase_chain (rf_name p) db1 name = Inr db'"
    note rc = rebase_chain_inv [OF refs1 this b1]
    obtain f where f: "db' = update_ref (rf_id (g b)) f db1" "\<And>r. rf_id (f r) = rf_id r \<and> rf_kind (f r) = rf_kind r"
      using rc(3) by blast
    show ?thesis unfolding f(1) by (rule update_ref_store [OF inv1 f(2)]) (use rc f(1) in simp_all)
  qed (simp add: inv1)
qed

text \<open>The rows a revert puts back.\<close>

definition revert_rows_keyed :: "store_table \<Rightarrow> dbase \<Rightarrow> string \<Rightarrow> digest \<Rightarrow> bool" where
  "revert_rows_keyed t db name target \<longleftrightarrow>
     (case find_commit db target of None \<Rightarrow> True | Some w \<Rightarrow>
        (case store_diff db t name (cw_seq w - 1) (cw_seq w) of Inl _ \<Rightarrow> True
         | Inr es \<Rightarrow> list_all (\<lambda>d. keyed t (undo_change d)) es))"

lemma store_revert_inv:
  assumes inv: "store_inv db" and r: "store_revert env t now name target author msg ext force db = Inr (db', d, n)"
    and t: "t \<in> set (db_tables db)" and e: "plain_env env" and room: "main_head db + 1 < max_seq"
    and k: "name = default_branch \<Longrightarrow> revert_rows_keyed t db name target"
  shows "store_inv db'"
proof -
  obtain w es where "find_commit db target = Some w" "store_diff db t name (cw_seq w - 1) (cw_seq w) = Inr es"
    and c: "store_commit env t now \<lparr>rq_branch = name, rq_changes = map undo_change es, rq_author = author, rq_message = msg,
            rq_ref = ext, rq_expected = None, rq_parents = []\<rparr> db = Inr (db', d, n)"
    using r by (auto simp: store_revert_def result_simps Let_def)
  then have "name = default_branch \<Longrightarrow> list_all (keyed t) (map undo_change es)"
    using k by (simp add: revert_rows_keyed_def list_all_iff)
  then show ?thesis using store_commit_inv(1) [OF inv c t e _ room] by simp
qed

end
