(* ===== verification/StoreReach.thy ===== *)
theory StoreReach
  imports StoreSteps
begin

text \<open>
  The store as a step relation over its operations and the stores it reaches from a new repository. Every
  reachable store satisfies the invariant, by rule induction over the steps.
\<close>

text \<open>
  The operations that read or write data and references, and those that also remove a reference or change
  which tables are tracked. A change reaches the default branch only if it is filed under its row's key
  (\<open>keyed\<close>): the code does not check this of the changes a client commits.
\<close>

inductive data_step :: "dbenv \<Rightarrow> dbase \<Rightarrow> dbase \<Rightarrow> bool" for env where
  Fork: "create_ref db i name from who = Inr db' \<Longrightarrow> i \<noteq> [] \<Longrightarrow> data_step env db db'"
| Tag: "create_tag db i name c who = Inr db' \<Longrightarrow> i \<noteq> [] \<Longrightarrow> data_step env db db'"
| Commit: "store_commit env t now rq db = Inr (db', d, n) \<Longrightarrow> t \<in> set (db_tables db) \<Longrightarrow> main_head db + 1 < max_seq \<Longrightarrow>
    (rq_branch rq = default_branch \<Longrightarrow> list_all (keyed t) (rq_changes rq)) \<Longrightarrow> data_step env db db'"
| Merge: "store_merge env t us now src into author msg app db = Inr (db', res) \<Longrightarrow> t \<in> set (db_tables db) \<Longrightarrow>
    main_head db + 1 < max_seq \<Longrightarrow> (into = default_branch \<Longrightarrow> list_all (keyed t) (sm_changes res)) \<Longrightarrow>
    data_step env db db'"
| Update: "store_update_from_parent env t us now name author db = Inr (db', res) \<Longrightarrow> t \<in> set (db_tables db) \<Longrightarrow>
    main_head db + 1 < max_seq \<Longrightarrow> data_step env db db'"
| Revert: "store_revert env t now name target author msg ext force db = Inr (db', d, n) \<Longrightarrow> t \<in> set (db_tables db) \<Longrightarrow>
    main_head db + 1 < max_seq \<Longrightarrow> (name = default_branch \<Longrightarrow> revert_rows_keyed t db name target) \<Longrightarrow>
    data_step env db db'"
| OpenSession: "open_session_row db sid name who lease = Inr db' \<Longrightarrow> sid \<noteq> [] \<Longrightarrow> data_step env db db'"
| SessionWrite: "store_session_write env t sid lease changes db = Inr db' \<Longrightarrow> data_step env db db'"
| SessionCommit: "store_commit_session t sid now author msg db = Inr (db', d, n) \<Longrightarrow> t \<in> set (db_tables db) \<Longrightarrow>
    data_step env db db'"
| Abandon: "sid \<noteq> [] \<Longrightarrow> data_step env db (store_abandon_session t sid db)"
| Collect: "data_step env db (fst (gc lease db))"
| Purge: "purge t k reason db = Inr (db', receipt) \<Longrightarrow> data_step env db db'"
| Prune: "prune t policy before ms db = Inr (db', removed) \<Longrightarrow> data_step env db db'"

inductive store_step :: "dbenv \<Rightarrow> dbase \<Rightarrow> dbase \<Rightarrow> bool" for env where
  Data: "data_step env db db' \<Longrightarrow> store_step env db db'"
| Delete: "delete_branch db name = Inr db' \<Longrightarrow> store_step env db db'"
| Track: "track t rows db = Inr db' \<Longrightarrow> store_step env db db'"
| Untrack: "store_step env db (untrack t db)"

inductive_cases store_stepE: "store_step env db db'"

lemma data_step_inv: "data_step env db db' \<Longrightarrow> plain_env env \<Longrightarrow> store_inv db \<Longrightarrow> store_inv db'"
proof (induction rule: data_step.induct)
  case (Commit t now rq db' d n)
  then show ?case using store_commit_inv(1) by blast
next
  case (Merge t us now src into author msg app db db' res)
  then show ?case using store_merge_inv(1) by blast
next
  case (Update t us now name author db db' res)
  then show ?case using update_from_parent_inv by blast
next
  case (Revert t now name target author msg ext force db db' d n)
  then show ?case using store_revert_inv by blast
next
  case (SessionCommit t sid now author msg db db' d n)
  then show ?case using session_commit_inv(1) by blast
next
  case Fork
  show ?case by (rule create_ref_store [OF Fork.prems(2) Fork.hyps])
next
  case Tag
  show ?case by (rule create_tag_store [OF Tag.prems(2) Tag.hyps])
next
  case OpenSession
  show ?case by (rule open_session_inv [OF OpenSession.prems(2) OpenSession.hyps])
next
  case SessionWrite
  show ?case by (rule session_write_inv [OF SessionWrite.prems(2) SessionWrite.hyps])
next
  case Abandon
  show ?case by (rule abandon_inv [OF Abandon.prems(2) Abandon.hyps])
next
  case Collect
  show ?case by (rule gc_inv [OF Collect.prems(2)])
next
  case Purge
  show ?case by (rule purge_inv [OF Purge.prems(2) Purge.hyps])
next
  case Prune
  show ?case by (rule prune_inv [OF Prune.prems(2) Prune.hyps])
qed

lemma store_step_inv:
  assumes "store_step env db db'" and "plain_env env" and "store_inv db"
  shows "store_inv db'"
  using assms(1)
proof cases
  case Data
  then show ?thesis by (rule data_step_inv [OF _ assms(2,3)])
next
  case (Delete name)
  then show ?thesis by (rule delete_branch_store [OF assms(3)])
next
  case (Track t rows)
  then show ?thesis by (rule track_inv [OF assms(3)])
next
  case (Untrack t)
  then show ?thesis using untrack_inv [OF assms(3)] by simp
qed

inductive store_reach :: "dbenv \<Rightarrow> dbase \<Rightarrow> bool" for env where
  Created: "create_repo repo branch author now = Inr db \<Longrightarrow> branch \<noteq> [] \<Longrightarrow> store_reach env db"
| Stepped: "store_reach env db \<Longrightarrow> store_step env db db' \<Longrightarrow> store_reach env db'"

lemma store_reach_inv: "store_reach env db \<Longrightarrow> plain_env env \<Longrightarrow> store_inv db"
  by (induction rule: store_reach.induct) (use create_repo_inv(1) store_step_inv in blast)+

subsection \<open>What the invariant gives a reader\<close>

lemma branch_read_chain:
  assumes "refs_inv db" "find_branch db n = Some r" "n \<noteq> []"
  shows "read_chain db n AtHead = Inr (rf_chain r)" "check_chain (rf_chain r) = Inr ()"
proof -
  have "ref_row db n = Inr (rf_id r, rf_head r, rf_seq r, rf_chain r)" using ref_row_Inr [OF assms(1)] assms(2) by blast
  then show "read_chain db n AtHead = Inr (rf_chain r)" using assms(3) by (simp add: read_chain_def)
  show "check_chain (rf_chain r) = Inr ()"
    using branch_chain [OF assms(1,2)] by (auto simp: check_chain_def result_simps)
qed

lemma default_branch_nonempty [simp]: "default_branch \<noteq> []"
  by (simp add: default_branch_def)

lemma inv_live_mirrors:
  assumes "store_inv db" "t \<in> set (db_tables db)"
  shows "and_then (read_chain db default_branch AtHead) (\<lambda>chain. resolve_map (db_side db (st_id t)) chain []) = Inr (db_live db (st_id t))"
proof -
  have refs: "refs_inv db" using assms(1) by (simp add: store_inv_def)
  then obtain r where r: "main_ref db r" by (auto simp: refs_inv_def)
  then have f: "find_branch db default_branch = Some r" and c: "rf_chain r = [\<lparr>sg_branch = db_default db, sg_seq = main_head db\<rparr>]"
    and s: "main_head db < max_seq" using main_head_eq by (auto simp: main_ref_def)
  note rc = branch_read_chain [OF refs f]
  have tab: "side_ok (db_default db) (main_head db) (db_side db (st_id t))"
    "mirrors (db_default db) (db_side db (st_id t)) (db_live db (st_id t))" using assms by (simp_all add: store_defs)
  have "resolve_chain (db_side db (st_id t)) (rf_chain r) [] = db_live db (st_id t)"
  proof (rule fmap_ext)
    fix k
    have "resolve_map (db_side db (st_id t)) (rf_chain r) [] = Inr (resolve_chain (db_side db (st_id t)) (rf_chain r) [])"
      using rc(2) by (simp add: resolve_map_Inr)
    from fmlookup_resolve_map [OF this]
    show "fmlookup (resolve_chain (db_side db (st_id t)) (rf_chain r) []) k = fmlookup (db_live db (st_id t)) k"
      using main_chain_row [OF tab(1) s, of k] tab(2) by (simp add: view_row_def c mirrors_def)
  qed
  then show ?thesis using rc resolve_map_Inr by simp
qed

end
