(* ===== verification/StoreEffects.thy ===== *)
theory StoreEffects
  imports StoreReach
begin

text \<open>
  What single operations of the store do to what readers see: the effect of a commit on the default
  branch, and the rows a session write, a prune and a collection leave alone.
\<close>

subsection \<open>A commit against the state it started from\<close>

text \<open>The rows at the old head do not move while the new versions are written.\<close>

lemma seg_row_close:
  assumes h: "h < sq" "h < max_seq" and f: "\<And>v. f v = v \<or> (v_to v = max_seq \<and> f v = v\<lparr>v_to := sq\<rparr>)"
  shows "seg_row (map f vs) h = seg_row vs h"
proof -
  have "v_from (f v) \<le> h \<and> h < v_to (f v) \<longleftrightarrow> v_from v \<le> h \<and> h < v_to v" "live (f v) = live v" for v
    using f [of v] h by (auto simp: live_def)
  then have "find (\<lambda>v. v_from v \<le> h \<and> h < v_to v) (map f vs) = map_option f (find (\<lambda>v. v_from v \<le> h \<and> h < v_to v) vs)"
    "live \<circ> f = live" by (auto intro: find_map_inv)
  then show ?thesis by (simp add: seg_row_def seg_version_def option.map_comp)
qed

lemma seg_row_later: "h < v_from v \<Longrightarrow> seg_row (vs @ [v]) h = seg_row vs h"
  by (simp add: seg_row_def seg_version_def find_append split: option.split)

lemma commit_step_cases:
  assumes st: "commit_step env t is_default b sq chain ch w = Inr w'" and e: "plain_env env"
  obtains before where "current_row t (wk_side w) chain (sc_pk' ch) = Inr before" "effective_op ch before = None" "w' = w"
  | before o' lt side1 side2 msk leaf where "current_row t (wk_side w) chain (sc_pk' ch) = Inr before"
    "effective_op ch before = Some o'" "(if is_default then apply_live env t ch o' (wk_live w) else Inr (wk_live w)) = Inr lt"
    "close_versions t b (sc_pk' ch) sq (wk_side w) = Inr side1" "insert_version env t b sq o' ch msk side1 = Inr side2"
    "w' = \<lparr>wk_side = side2, wk_live = lt, wk_leaves = wk_leaves w @ [leaf]\<rparr>"
proof -
  obtain before where b: "current_row t (wk_side w) chain (sc_pk' ch) = Inr before"
    using st by (auto simp: commit_step_def result_simps)
  show thesis
  proof (cases "effective_op ch before")
    case None
    then show thesis using that(1) [OF b] st b by (simp add: commit_step_def)
  next
    case (Some o')
    obtain lt side1 side2 where
      "(if is_default then apply_live env t ch o' (wk_live w) else Inr (wk_live w)) = Inr lt"
      "close_versions t b (sc_pk' ch) sq (wk_side w) = Inr side1"
      "insert_version env t b sq o' ch (mask_of (opt_row before) (sc_row ch) (table_col_ids t)) side1 = Inr side2"
      "\<lparr>wk_side = side2, wk_live = lt, wk_leaves = wk_leaves w @ [\<lparr>hc_table = st_id t, hc_pk = sc_pk' ch, hc_op = o',
          hc_changed = mask_of (opt_row before) (sc_row ch) (table_col_ids t), hc_row = sc_row ch\<rparr>]\<rparr> = w'"
      using st e by (auto simp: commit_step_def b Some result_simps Let_def plain_env_def)
    then show thesis by (intro that(2) [OF b Some]) auto
  qed
qed

lemma commit_step_view:
  assumes st: "commit_step env t is_default b sq chain ch w = Inr w'" and e: "plain_env env" and h: "h < sq" "h < max_seq"
  shows "seg_row (hist (wk_side w') m q) h = seg_row (hist (wk_side w) m q) h"
  using st e
proof (cases rule: commit_step_cases)
  case (2 before o' lt side1 side2 msk leaf)
  then have c: "close_versions t b (sc_pk' ch) sq (wk_side w) = Inr side1"
    and i: "insert_version env t b sq o' ch msk side1 = Inr (wk_side w')" by simp_all
  define f where "f = (\<lambda>v :: version. if v_branch v = b \<and> v_session v = [] \<and> v_to v = max_seq \<and> v_pk v = sc_pk' ch
     then v\<lparr>v_to := sq\<rparr> else v)"
  have side1: "side1 = map f (wk_side w)" using close_versions_Inr [OF c] by (simp add: f_def)
  obtain v where v: "wk_side w' = map f (wk_side w) @ [v]" "v_from v = sq"
    using i by (auto simp: insert_version_def result_simps insert_row_Inr side1)
  have "hist (wk_side w') m q = map f (hist (wk_side w) m q) @ hist [v] m q"
    unfolding v(1) hist_append by (rule arg_cong [where f = "\<lambda>x. x @ _"], rule hist_map) (simp add: f_def)
  moreover have "hist [v] m q = [] \<or> hist [v] m q = [v]" by (auto simp: hist_def)
  moreover have "seg_row (map f (hist (wk_side w) m q)) h = seg_row (hist (wk_side w) m q) h"
    by (rule seg_row_close [OF h]) (simp add: f_def)
  ultimately show ?thesis using seg_row_later [of h v] h v(2) by auto
qed simp

definition shown :: "version list \<Rightarrow> string \<Rightarrow> int \<Rightarrow> pk \<Rightarrow> row option" where
  "shown side m h q = chain_row (hist side) [\<lparr>sg_branch = m, sg_seq = h\<rparr>] q"

lemma shown_seg: "shown side m h q = (case seg_row (hist side m q) h of None \<Rightarrow> None | Some r \<Rightarrow> r)"
  by (simp add: shown_def split: option.split)

text \<open>The effect of a commit on a table: the changes that differ from the row in force before it.\<close>

definition land_change :: "store_table \<Rightarrow> table \<Rightarrow> table \<Rightarrow> store_change \<Rightarrow> table" where
  "land_change t old lt ch =
     (case effective_op ch (fmlookup old (sc_pk' ch)) of
        None \<Rightarrow> lt
      | Some o' \<Rightarrow> if o' = OpDelete then fmdrop (sc_pk' ch) lt else fmupd (sc_pk' ch) (full_row t (sc_row ch)) lt)"

definition effective_changes :: "table \<Rightarrow> store_change list \<Rightarrow> store_change list" where
  "effective_changes old = filter (\<lambda>ch. effective_op ch (fmlookup old (sc_pk' ch)) \<noteq> None)"

lemma commit_step_effect:
  assumes st: "commit_step env t True m sq [\<lparr>sg_branch = m, sg_seq = h\<rparr>] ch w = Inr w'"
    and e: "plain_env env" "keyed t ch" and v: "\<And>q. shown (wk_side w) m h q = fmlookup old q"
  shows "wk_live w' = land_change t old (wk_live w) ch"
    and "length (wk_leaves w') = length (wk_leaves w) + length (effective_changes old [ch])"
proof -
  have cur: "current_row t (wk_side w) [\<lparr>sg_branch = m, sg_seq = h\<rparr>] (sc_pk' ch) = Inr b \<Longrightarrow> b = fmlookup old (sc_pk' ch)" for b
    using v [of "sc_pk' ch"] by (auto simp: current_row_Inr shown_def)
  show "wk_live w' = land_change t old (wk_live w) ch"
    using st e(1)
  proof (cases rule: commit_step_cases)
    case (1 before)
    then show ?thesis using cur by (simp add: land_change_def)
  next
    case (2 before o' lt side1 side2 msk leaf)
    then show ?thesis using cur [OF 2(1)] apply_live_keyed [OF _ 2(2) e(2), of env "wk_live w" lt] by (simp add: land_change_def)
  qed
  show "length (wk_leaves w') = length (wk_leaves w) + length (effective_changes old [ch])"
    using st e(1)
  proof (cases rule: commit_step_cases)
    case (1 before)
    then show ?thesis using cur by (simp add: effective_changes_def)
  next
    case (2 before o' lt side1 side2 msk leaf)
    then show ?thesis using cur by (simp add: effective_changes_def)
  qed
qed

lemma store_commit_main:
  assumes inv: "store_inv db" and c: "store_commit env t now rq db = Inr (db', d, n)"
    and t: "t \<in> set (db_tables db)" and e: "plain_env env"
    and m: "rq_branch rq = default_branch" and k: "list_all (keyed t) (rq_changes rq)"
  shows "db_live db' = (db_live db)(st_id t :=
      foldl (land_change t (db_live db (st_id t))) (db_live db (st_id t)) (sort_key sc_pk' (rq_changes rq)))"
    and "n = length (effective_changes (db_live db (st_id t)) (rq_changes rq))"
proof -
  have refs: "refs_inv db" using inv by (simp add: store_inv_def)
  then obtain r where r: "main_ref db r" by (auto simp: refs_inv_def)
  then have f: "find_branch db default_branch = Some r" and id: "rf_id r = db_default db"
    and ch: "rf_chain r = [\<lparr>sg_branch = db_default db, sg_seq = rf_seq r\<rparr>]" and h: "rf_seq r < max_seq"
    by (simp_all add: main_ref_def)
  define old where "old = db_live db (st_id t)"
  define w0 where "w0 = \<lparr>wk_side = db_side db (st_id t), wk_live = old, wk_leaves = []\<rparr>"
  define cs where "cs = sort_key sc_pk' (rq_changes rq)"
  obtain w where w: "fold_steps (commit_step env t True (db_default db) (rf_seq r + 1)
       [\<lparr>sg_branch = db_default db, sg_seq = rf_seq r\<rparr>]) cs w0 = Inr w"
    and db': "db_live db' = (db_live db)(st_id t := wk_live w)" "n = length (wk_leaves w)"
    using c m f id ch
    by (auto simp: store_commit_def result_simps Let_def ref_row_Inr [OF refs] insert_commit_def advance_ref_def
        update_ref_def cs_def w0_def old_def)
  define P where "P = (\<lambda>pre (w :: commit_work). (\<forall>q. shown (wk_side w) (db_default db) (rf_seq r) q = fmlookup old q)
     \<and> wk_live w = foldl (land_change t old) old pre \<and> length (wk_leaves w) = length (effective_changes old pre))"
  have start: "P [] w0"
  proof -
    have "side_ok (db_default db) (rf_seq r) (db_side db (st_id t))" "mirrors (db_default db) (db_side db (st_id t)) old"
      using inv t main_head_eq [OF r] by (simp_all add: store_defs old_def)
    then have "shown (db_side db (st_id t)) (db_default db) (rf_seq r) q = fmlookup old q" for q
      using main_chain_row [of "db_default db" "rf_seq r" _ q] h by (simp add: mirrors_def shown_def)
    then show ?thesis by (simp add: P_def w0_def effective_changes_def)
  qed
  have "P cs w"
  proof (rule fold_steps_prefix [OF w, of P, OF start])
    fix pre x rest a b
    assume cs: "cs = pre @ x # rest" and P: "P pre a" and st: "commit_step env t True (db_default db) (rf_seq r + 1)
       [\<lparr>sg_branch = db_default db, sg_seq = rf_seq r\<rparr>] x a = Inr b"
    have "x \<in> set cs" unfolding cs by simp
    then have kx: "keyed t x" using k by (simp add: cs_def list_all_iff)
    have v: "\<And>q. shown (wk_side a) (db_default db) (rf_seq r) q = fmlookup old q" using P by (simp add: P_def)
    have "shown (wk_side b) (db_default db) (rf_seq r) q = fmlookup old q" for q
      using commit_step_view [OF st e, of "rf_seq r" "db_default db" q] v [of q] h by (simp add: shown_seg)
    moreover note commit_step_effect [OF st e kx v]
    ultimately show "P (pre @ [x]) b" using P by (simp add: P_def effective_changes_def)
  qed
  then have live: "wk_live w = foldl (land_change t old) old cs" and len: "length (wk_leaves w) = length (effective_changes old cs)"
    by (simp_all add: P_def)
  show "db_live db' = (db_live db)(st_id t :=
      foldl (land_change t (db_live db (st_id t))) (db_live db (st_id t)) (sort_key sc_pk' (rq_changes rq)))"
    using db'(1) live by (simp add: old_def cs_def)
  have "length (effective_changes old cs) = length (effective_changes old (rq_changes rq))"
    by (simp only: effective_changes_def cs_def filter_sort length_sort)
  then show "n = length (effective_changes (db_live db (st_id t)) (rq_changes rq))" using db'(2) len by (simp add: old_def)
qed

subsection \<open>What a query reads of a version table\<close>

lemma resolve_query_cong:
  assumes "\<And>g. g \<in> set chain \<Longrightarrow> arm_rows side' kf g = arm_rows side kf g"
    and "sid \<noteq> [] \<Longrightarrow> filter (\<lambda>v. v_session v = sid) side' = filter (\<lambda>v. v_session v = sid) side"
  shows "resolve_query side' chain sid kf filt pg = resolve_query side chain sid kf filt pg"
proof -
  have arms: "map (\<lambda>(i, g). map (Pair (int i)) (filter (\<lambda>v. c (v_pk v)) (arm_rows side' kf g))) (enumerate 0 chain)
      = map (\<lambda>(i, g). map (Pair (int i)) (filter (\<lambda>v. c (v_pk v)) (arm_rows side kf g))) (enumerate 0 chain)" for c
    using assms(1) by (intro map_cong refl) (auto simp: in_set_enumerate_eq)
  have sess: "sid \<noteq> [] \<Longrightarrow> filter (\<lambda>v. v_session v = sid \<and> kf (v_pk v)) side' = filter (\<lambda>v. v_session v = sid \<and> kf (v_pk v)) side"
  proof -
    assume "sid \<noteq> []"
    from arg_cong [OF assms(2) [OF this], of "filter (\<lambda>v. kf (v_pk v))"] show ?thesis by (simp add: conj_commute)
  qed
  have union: "union_arms side' chain sid kf c = union_arms side chain sid kf c" for c
    unfolding union_arms_def arms using sess by simp
  have "map (arm_candidates side' kf f pg) chain = map (arm_candidates side kf f pg) chain" for f
    using assms(1) by (intro map_cong refl) (simp add: arm_candidates_def)
  then have "candidates side' chain kf f pg = candidates side chain kf f pg" for f unfolding candidates_def by metis
  then show ?thesis by (cases filt) (simp_all add: resolve_query_def resolved_def union Let_def)
qed

text \<open>A version table from which rows outside \<open>Q\<close> have been removed.\<close>

definition thinned :: "(version \<Rightarrow> bool) \<Rightarrow> version list \<Rightarrow> version list \<Rightarrow> bool" where
  "thinned Q side side' \<longleftrightarrow> (\<exists>P. side' = filter P side \<and> (\<forall>v. Q v \<longrightarrow> P v))"

lemma thinned_refl: "thinned Q side side"
  unfolding thinned_def by (rule exI [of _ "\<lambda>_. True"]) simp

lemma thinned_filter: "thinned Q side side' \<Longrightarrow> (\<And>v. Q v \<Longrightarrow> P v) \<Longrightarrow> thinned Q side (filter P side')"
  unfolding thinned_def by (elim exE conjE, rule_tac x = "\<lambda>v. Pa v \<and> P v" in exI) (auto simp: conj_commute)

lemma thinned_arm:
  assumes "thinned Q side side'" "\<And>v. v_session v = [] \<Longrightarrow> v_branch v = sg_branch g \<Longrightarrow> Q v"
  shows "arm_rows side' kf g = arm_rows side kf g"
proof -
  obtain P where P: "side' = filter P side" "\<And>v. Q v \<Longrightarrow> P v" using assms(1) by (auto simp: thinned_def)
  show ?thesis unfolding arm_rows_def P(1) filter_filter by (rule filter_cong) (use P(2) assms(2) in auto)
qed

subsection \<open>Session writes\<close>

lemma stage_change_arms:
  assumes "stage_change env t s ch (side, view) = Inr (side', view')" "ss_id s \<noteq> []"
  shows "arm_rows side' kf g = arm_rows side kf g"
    and "sid' \<noteq> ss_id s \<Longrightarrow> filter (\<lambda>v. v_session v = sid') side' = filter (\<lambda>v. v_session v = sid') side"
proof -
  have "arm_rows side' kf g = arm_rows side kf g \<and>
    (sid' \<noteq> ss_id s \<longrightarrow> filter (\<lambda>v. v_session v = sid') side' = filter (\<lambda>v. v_session v = sid') side)"
  proof (cases "effective_op ch (fmlookup view (sc_pk' ch))")
    case None
    then show ?thesis using assms(1) by (simp add: stage_change_def)
  next
    case (Some o')
    define msk where "msk = mask_of (opt_row (fmlookup view (sc_pk' ch))) (sc_row ch) (table_col_ids t)"
    obtain k where k: "side' = filter (\<lambda>u. \<not> (v_session u = ss_id s \<and> v_pk u = sc_pk' ch)) side
        @ [staged_row t s k o' ch msk]"
      using assms(1) Some by (auto simp: stage_change_def Let_def result_simps insert_row_Inr msk_def)
    define v where "v = staged_row t s k o' ch msk"
    have v: "v_session v = ss_id s"
      "side' = filter (\<lambda>u. \<not> (v_session u = ss_id s \<and> v_pk u = sc_pk' ch)) side @ [v]"
      using k by (simp_all add: v_def staged_row_def)
    have "arm_rows side' kf g = arm_rows side kf g"
      using v assms(2) unfolding arm_rows_def by (auto intro!: filter_cong)
    moreover have "filter (\<lambda>v. v_session v = sid') side' = filter (\<lambda>v. v_session v = sid') side" if "sid' \<noteq> ss_id s"
      using v that by (auto intro!: filter_cong)
    ultimately show ?thesis by blast
  qed
  then show "arm_rows side' kf g = arm_rows side kf g"
    "sid' \<noteq> ss_id s \<Longrightarrow> filter (\<lambda>v. v_session v = sid') side' = filter (\<lambda>v. v_session v = sid') side" by blast+
qed

lemma session_write_frame:
  assumes inv: "store_inv db" and w: "store_session_write env t sid now changes db = Inr db'"
  shows "db_refs db' = db_refs db" "db_commits db' = db_commits db" "db_live db' = db_live db"
    "arm_rows (db_side db' i) kf g = arm_rows (db_side db i) kf g"
    "sid' \<noteq> sid \<Longrightarrow> filter (\<lambda>v. v_session v = sid') (db_side db' i) = filter (\<lambda>v. v_session v = sid') (db_side db i)"
    "sid' \<noteq> sid \<Longrightarrow> find (\<lambda>s. ss_id s = sid') (db_sessions db') = find (\<lambda>s. ss_id s = sid') (db_sessions db)"
proof -
  obtain s r view side view' where l: "load_session db sid now = Inr (s, r)"
    and f: "fold_steps (stage_change env t s) changes (db_side db (st_id t), view) = Inr (side, view')"
    and db': "db' = update_session sid (\<lambda>u. u\<lparr>ss_lease := now + default_lease\<rparr>)
              (db\<lparr>db_side := (db_side db)(st_id t := side)\<rparr>)"
    using w by (auto simp: store_session_write_def result_simps)
  have s: "ss_id s \<noteq> []" "ss_id s = sid"
    using load_session_Inr [OF l] inv by (auto simp: store_inv_def sessions_ok_def)
  define P where "P = (\<lambda>st :: version list \<times> table. (\<forall>kf g. arm_rows (fst st) kf g = arm_rows (db_side db (st_id t)) kf g) \<and>
    (\<forall>x. x \<noteq> sid \<longrightarrow> filter (\<lambda>v. v_session v = x) (fst st) = filter (\<lambda>v. v_session v = x) (db_side db (st_id t))))"
  have "P (side, view')"
  proof (rule fold_steps_inv [OF f])
    show "P (db_side db (st_id t), view)" by (simp add: P_def)
  next
    fix ch a b assume a: "P a" "stage_change env t s ch a = Inr b"
    have "stage_change env t s ch (fst a, snd a) = Inr (fst b, snd b)" using a(2) by simp
    from stage_change_arms [OF this s(1)] a(1) show "P b" using s(2) by (simp add: P_def)
  qed
  then have side: "arm_rows side kf g = arm_rows (db_side db (st_id t)) kf g"
    "x \<noteq> sid \<Longrightarrow> filter (\<lambda>v. v_session v = x) side = filter (\<lambda>v. v_session v = x) (db_side db (st_id t))" for kf g x
    by (simp_all add: P_def)
  show "db_refs db' = db_refs db" "db_commits db' = db_commits db" "db_live db' = db_live db"
    by (simp_all add: db' update_session_def)
  show "arm_rows (db_side db' i) kf g = arm_rows (db_side db i) kf g"
    "sid' \<noteq> sid \<Longrightarrow> filter (\<lambda>v. v_session v = sid') (db_side db' i) = filter (\<lambda>v. v_session v = sid') (db_side db i)"
    using side by (simp_all add: db' update_session_def)
  show "find (\<lambda>s. ss_id s = sid') (db_sessions db') = find (\<lambda>s. ss_id s = sid') (db_sessions db)" if "sid' \<noteq> sid"
  proof -
    have "find (\<lambda>s. ss_id s = sid') (map (\<lambda>s. if ss_id s = sid then s\<lparr>ss_lease := l\<rparr> else s) ss)
      = find (\<lambda>s. ss_id s = sid') ss" for l ss using that by (induction ss) auto
    then show ?thesis by (simp add: db' update_session_def)
  qed
qed

subsection \<open>Garbage collection\<close>

text \<open>The segments of a branch are branches that still exist.\<close>

lemma chain_ids_live:
  assumes "tree_ok rs" "r \<in> set rs" "rf_kind r = BranchRef"
  shows "set (chain_ids r) \<subseteq> rf_id ` set rs"
  using assms(2,3)
proof (induction "length (rf_chain r)" arbitrary: r rule: less_induct)
  case less
  have c: "rf_chain r \<noteq> []" "hd (rf_chain r) = \<lparr>sg_branch = rf_id r, sg_seq = rf_seq r\<rparr>"
    "rf_parent r = [] \<Longrightarrow> tl (rf_chain r) = []"
    using assms(1) less.prems unfolding tree_ok_def by (fastforce split: if_splits)+
  have ids: "chain_ids r = rf_id r # map sg_branch (tl (rf_chain r))"
    using c(1,2) by (cases "rf_chain r") (simp_all add: chain_ids_def)
  show ?case
  proof (cases "rf_parent r = []")
    case True
    then show ?thesis using ids c(3) less.prems(1) by simp
  next
    case False
    then obtain p where p: "p \<in> set rs" "rf_kind p = BranchRef" "map sg_branch (tl (rf_chain r)) = chain_ids p"
      using tree_parent [OF assms(1) less.prems] by blast
    have "length (rf_chain p) = length (tl (rf_chain r))" using arg_cong [OF p(3), of length] by (simp add: chain_ids_def)
    then have "length (rf_chain p) < length (rf_chain r)" using c(1) by (cases "rf_chain r") simp_all
    from less.hyps [OF this p(1,2)] show ?thesis using ids p(3) less.prems(1) by auto
  qed
qed

definition gc_keeps :: "dbase \<Rightarrow> version \<Rightarrow> bool" where
  "gc_keeps db v \<longleftrightarrow> v_session v = [] \<and> v_branch v \<in> set (live_refs db)"

text \<open>What a collection leaves of a database.\<close>

definition collected :: "dbase \<Rightarrow> dbase \<Rightarrow> bool" where
  "collected db db' \<longleftrightarrow> db_refs db' = db_refs db \<and> db_commits db' = db_commits db \<and> db_live db' = db_live db
     \<and> db_tables db' = db_tables db \<and> db_default db' = db_default db \<and> (\<forall>i. thinned (gc_keeps db) (db_side db i) (db_side db' i))"

lemma collected_side:
  assumes "collected db d" "\<And>v. gc_keeps db v \<Longrightarrow> P v"
  shows "collected db (d\<lparr>db_side := (db_side d)(i := filter P (db_side d i))\<rparr>)"
  using assms thinned_filter by (simp add: collected_def)

lemma collected_session: "collected db d \<Longrightarrow> collected db (update_session sid f d)"
  by (simp add: collected_def update_session_def)

lemma collected_reap: "collected db d \<Longrightarrow> sid \<noteq> [] \<Longrightarrow> collected db (reap_session sid d)"
  unfolding reap_session_def drop_staged_def
  by (intro collected_session foldl_inv [where P = "collected db"] collected_side) (auto simp: gc_keeps_def)

lemma gc_collected:
  assumes inv: "store_inv db"
  shows "collected db (fst (gc now db))"
proof -
  have ids: "sid \<noteq> []" if "sid \<in> set (expired_sessions db now)" for sid
    using that inv by (auto simp: expired_sessions_def store_inv_def sessions_ok_def)
  define db1 where "db1 = fst (reap_expired now db)"
  have "collected db db" by (simp add: collected_def thinned_refl)
  then have c1: "collected db db1"
    unfolding db1_def reap_expired_def Let_def fst_conv
    by (rule foldl_inv [where P = "collected db"]) (use ids in \<open>auto intro: collected_reap\<close>)
  then have live: "live_refs db1 = live_refs db" by (simp add: live_refs_def collected_def)
  define P where "P = (\<lambda>st :: dbase \<times> nat. collected db (fst st))"
  have "P (db1, 0)" using c1 by (simp add: P_def)
  then have "P (foldl (gc_table (live_refs db1)) (db1, 0) (db_tables db1))"
  proof (rule foldl_inv)
    fix st t assume "P st"
    then show "P (gc_table (live_refs db1) st t)"
      unfolding P_def gc_table_def Let_def fst_conv by (rule collected_side) (simp add: gc_keeps_def live)
  qed
  moreover have "fst (gc now db) = fst (foldl (gc_table (live_refs db1)) (db1, 0) (db_tables db1))"
    unfolding gc_def Let_def case_prod_beta db1_def fst_conv by (rule refl)
  ultimately show ?thesis by (simp add: P_def)
qed

lemma gc_read_head:
  assumes inv: "store_inv db" and n: "find_branch db n = Some r" "n \<noteq> []"
  shows "store_read (fst (gc now db)) t n AtHead filt pg = store_read db t n AtHead filt pg"
proof -
  define db' where "db' = fst (gc now db)"
  have c: "collected db db'" using gc_collected [OF inv] by (simp add: db'_def)
  have refs: "refs_inv db" using inv by (simp add: store_inv_def)
  have f: "find_branch db' k = find_branch db k" for k using c by (simp add: find_branch_def collected_def)
  have refs': "refs_inv db'" using gc_inv [OF inv] by (simp add: store_inv_def db'_def)
  have n': "find_branch db' n = Some r" using n f by simp
  note ch = branch_read_chain(1) [OF refs n] branch_read_chain(1) [OF refs' n' n(2)]
  have sub: "set (chain_ids r) \<subseteq> set (live_refs db)"
    using chain_ids_live [of "db_refs db" r] refs find_branch_mem [OF n(1)] by (auto simp: refs_inv_def live_refs_def)
  have "resolve_query (db_side db' (st_id t)) (rf_chain r) [] kf filt pg = resolve_query (db_side db (st_id t)) (rf_chain r) [] kf filt pg" for kf
  proof (rule resolve_query_cong)
    fix g assume "g \<in> set (rf_chain r)"
    then have "sg_branch g \<in> set (live_refs db)" using sub by (auto simp: chain_ids_def)
    moreover have "thinned (gc_keeps db) (db_side db (st_id t)) (db_side db' (st_id t))" using c by (simp add: collected_def)
    ultimately show "arm_rows (db_side db' (st_id t)) kf g = arm_rows (db_side db (st_id t)) kf g"
      by (intro thinned_arm [where Q = "gc_keeps db"]) (simp_all add: gc_keeps_def)
  qed simp
  then show ?thesis unfolding db'_def [symmetric] by (simp add: store_read_def ch)
qed

subsection \<open>Pruning\<close>

definition span_below :: "string \<Rightarrow> int \<Rightarrow> version list \<Rightarrow> span \<Rightarrow> bool" where
  "span_below b cutoff side sp \<longleftrightarrow> sp_hi sp \<le> cutoff \<and>
     (\<forall>v \<in> set side. v_branch v = b \<longrightarrow> v_session v = [] \<longrightarrow> v_pk v = sp_pk sp \<longrightarrow> v_from v = sp_lo sp \<longrightarrow> v_to v \<le> cutoff)"

lemma prune_spans_below:
  assumes sp: "sp \<in> set (prune_spans side b cutoff)" and kd: "keys_distinct side"
  shows "span_below b cutoff side sp"
proof -
  define vs where "vs = filter (prunable b cutoff) side"
  obtain k where k: "key_span vs k = Some sp" using sp by (auto simp: prune_spans_def Let_def vs_def map_filter_set)
  note ks = key_span_facts [OF k]
  obtain lo hi where lo: "lo \<in> set vs" "v_pk lo = k" "v_from lo = sp_lo sp"
    and hi: "hi \<in> set vs" "v_to hi = sp_hi sp" using ks by auto
  have "v = lo" if "v \<in> set side" "v_branch v = b" "v_pk v = k" "v_from v = sp_lo sp" for v
    using kd lo that by (auto simp: keys_distinct_def distinct_map inj_on_def vs_def prunable_def)
  then show ?thesis using hi lo ks(1) by (auto simp: span_below_def vs_def prunable_def)
qed

lemma prune_span_arms:
  assumes sp: "span_below b cutoff (fst st) sp" and g: "sg_branch g = b \<Longrightarrow> cutoff \<le> sg_seq g"
  shows "arm_rows (fst (prune_span b cutoff sp st)) kf g = arm_rows (fst st) kf g"
    and "sid \<noteq> [] \<Longrightarrow> filter (\<lambda>v. v_session v = sid) (fst (prune_span b cutoff sp st)) = filter (\<lambda>v. v_session v = sid) (fst st)"
    and "span_below b cutoff (fst st) sp' \<Longrightarrow> span_below b cutoff (fst (prune_span b cutoff sp st)) sp'"
proof -
  define side where "side = fst st"
  define ext where "ext = extend_span b sp"
  have res: "fst (prune_span b cutoff sp st) = filter (\<lambda>v. \<not> covered b cutoff sp v) (map ext side)"
    by (simp add: prune_span_def Let_def ext_def side_def)
  have e: "v_branch (ext v) = v_branch v" "v_pk (ext v) = v_pk v" "v_from (ext v) = v_from v" "v_session (ext v) = v_session v" for v
    by (simp_all add: extend_span_def ext_def)
  have to: "ext v = v \<or> (v_branch v = b \<and> v_session v = [] \<and> v_to (ext v) \<le> cutoff \<and> v_to v \<le> cutoff)" if "v \<in> set side" for v
    using sp that by (auto simp: span_below_def ext_def extend_span_def side_def)
  define Q where "Q = (\<lambda>v :: version. v_branch v = sg_branch g \<and> v_session v = [] \<and> v_from v \<le> sg_seq g \<and> sg_seq g < v_to v \<and> kf (v_pk v))"
  have "arm_rows (fst (prune_span b cutoff sp st)) kf g = filter Q (map ext side)"
    unfolding arm_rows_def res filter_filter Q_def by (rule filter_cong) (use g in \<open>auto simp: covered_def\<close>)
  also have "... = filter Q side"
  proof (rule filter_map_fix)
    fix v assume v: "v \<in> set side"
    show "Q (ext v) = Q v" using to [OF v] e [of v] g by (auto simp: Q_def)
    show "ext v = v" if "Q v" using to [OF v] g that by (auto simp: Q_def)
  qed
  finally show "arm_rows (fst (prune_span b cutoff sp st)) kf g = arm_rows (fst st) kf g"
    by (simp add: arm_rows_def Q_def side_def)
  show "filter (\<lambda>v. v_session v = sid) (fst (prune_span b cutoff sp st)) = filter (\<lambda>v. v_session v = sid) (fst st)" if sid: "sid \<noteq> []"
  proof -
    have "filter (\<lambda>v. v_session v = sid) (fst (prune_span b cutoff sp st)) = filter (\<lambda>v. v_session v = sid) (map ext side)"
      unfolding res filter_filter by (rule filter_cong) (use sid in \<open>auto simp: covered_def\<close>)
    also have "... = filter (\<lambda>v. v_session v = sid) side"
    proof (rule filter_map_fix)
      fix v assume v: "v \<in> set side"
      show "(v_session (ext v) = sid) = (v_session v = sid)" by (simp add: e)
      show "ext v = v" if "v_session v = sid" using to [OF v] sid that by auto
    qed
    finally show ?thesis by (simp add: side_def)
  qed
  show "span_below b cutoff (fst (prune_span b cutoff sp st)) sp'" if s': "span_below b cutoff (fst st) sp'"
    unfolding span_below_def res
  proof (intro conjI ballI impI)
    show "sp_hi sp' \<le> cutoff" using s' by (simp add: span_below_def)
    fix v assume v: "v \<in> set (filter (\<lambda>v. \<not> covered b cutoff sp v) (map ext side))" "v_branch v = b" "v_session v = []"
      "v_pk v = sp_pk sp'" "v_from v = sp_lo sp'"
    then obtain u where u: "u \<in> set side" "v = ext u" by auto
    then have "v_to u \<le> cutoff" using s' v e unfolding span_below_def side_def by metis
    then show "v_to v \<le> cutoff" using to [OF u(1)] u(2) by auto
  qed
qed

lemma prune_side_arms:
  assumes kd: "keys_distinct side" and g: "sg_branch g = b \<Longrightarrow> cutoff \<le> sg_seq g"
  shows "arm_rows (fst (prune_side b cutoff side)) kf g = arm_rows side kf g"
    and "sid \<noteq> [] \<Longrightarrow> filter (\<lambda>v. v_session v = sid) (fst (prune_side b cutoff side)) = filter (\<lambda>v. v_session v = sid) side"
proof -
  define P where "P = (\<lambda>st :: version list \<times> nat. arm_rows (fst st) kf g = arm_rows side kf g
    \<and> (sid \<noteq> [] \<longrightarrow> filter (\<lambda>v. v_session v = sid) (fst st) = filter (\<lambda>v. v_session v = sid) side)
    \<and> (\<forall>sp \<in> set (prune_spans side b cutoff). span_below b cutoff (fst st) sp))"
  have "P (side, 0)" using prune_spans_below [OF _ kd] by (simp add: P_def)
  then have "P (foldl (\<lambda>st sp. prune_span b cutoff sp st) (side, 0) (prune_spans side b cutoff))"
  proof (rule foldl_inv)
    fix st sp assume "sp \<in> set (prune_spans side b cutoff)" "P st"
    then show "P (prune_span b cutoff sp st)"
      using prune_span_arms [of b cutoff st sp g, OF _ g] unfolding P_def by simp
  qed
  then show "arm_rows (fst (prune_side b cutoff side)) kf g = arm_rows side kf g"
    "sid \<noteq> [] \<Longrightarrow> filter (\<lambda>v. v_session v = sid) (fst (prune_side b cutoff side)) = filter (\<lambda>v. v_session v = sid) side"
    by (simp_all add: P_def prune_side_def)
qed

lemma prune_frame:
  assumes inv: "store_inv db" and p: "prune t pol before ms db = Inr (db', rep)" and t: "t \<in> set (db_tables db)"
    and c: "\<And>g. g \<in> set chain \<Longrightarrow> sg_branch g = db_default db \<Longrightarrow>
      prune_cutoff db (db_default db) (main_head db) pol before \<le> sg_seq g"
  shows "resolve_query (db_side db' i) chain sid kf filt pg = resolve_query (db_side db i) chain sid kf filt pg"
    and "db_refs db' = db_refs db" "db_commits db' = db_commits db" "db_live db' = db_live db"
proof -
  have refs: "refs_inv db" using inv by (simp add: store_inv_def)
  obtain m where m: "main_ref db m" using refs by (auto simp: refs_inv_def)
  have h: "main_head db = rf_seq m" "rf_id m = db_default db" "find_branch db default_branch = Some m"
    using main_head_eq [OF m] m by (simp_all add: main_ref_def)
  define cutoff where "cutoff = prune_cutoff db (db_default db) (main_head db) pol before"
  consider "db' = db" | "db' = db\<lparr>db_side := (db_side db)(st_id t := fst (prune_side (db_default db) cutoff (db_side db (st_id t))))\<rparr>"
    using p h by (auto simp: prune_def result_simps Let_def ref_row_Inr [OF refs] cutoff_def case_prod_beta split: if_splits)
  then have d: "resolve_query (db_side db' i) chain sid kf filt pg = resolve_query (db_side db i) chain sid kf filt pg \<and>
    db_refs db' = db_refs db \<and> db_commits db' = db_commits db \<and> db_live db' = db_live db"
  proof cases
    case 2
    have kd: "keys_distinct (db_side db (st_id t))" using inv t by (simp add: store_defs side_ok_def)
    have "resolve_query (db_side db' i) chain sid kf filt pg = resolve_query (db_side db i) chain sid kf filt pg"
    proof (rule resolve_query_cong)
      fix g assume "g \<in> set chain"
      then show "arm_rows (db_side db' i) kf g = arm_rows (db_side db i) kf g"
        using prune_side_arms(1) [OF kd] c by (simp add: 2 cutoff_def)
    next
      assume "sid \<noteq> []"
      have "CHR ''x'' # db_default db \<noteq> db_default db" by simp
      then have "filter (\<lambda>v. v_session v = sid) (fst (prune_side (db_default db) cutoff (db_side db (st_id t))))
          = filter (\<lambda>v. v_session v = sid) (db_side db (st_id t))"
        by (intro prune_side_arms(2) [OF kd, of "\<lparr>sg_branch = CHR ''x'' # db_default db, sg_seq = 0\<rparr>"] \<open>sid \<noteq> []\<close>) simp
      then show "filter (\<lambda>v. v_session v = sid) (db_side db' i) = filter (\<lambda>v. v_session v = sid) (db_side db i)"
        by (simp add: 2)
    qed
    then show ?thesis by (simp add: 2)
  qed simp
  then show "resolve_query (db_side db' i) chain sid kf filt pg = resolve_query (db_side db i) chain sid kf filt pg"
    "db_refs db' = db_refs db" "db_commits db' = db_commits db" "db_live db' = db_live db" by blast+
qed

end
