(* ===== verification/StoreHistory.thy ===== *)
theory StoreHistory
  imports StoreReach
begin

text \<open>
  The stored history: every commit record hashes to its id, ids are distinct, and every reference's head
  is a stored commit, in every reachable store.
\<close>

definition verified :: "dbase \<Rightarrow> commit_rec \<Rightarrow> bool" where
  "verified db w \<longleftrightarrow> commit_hash (stored_input db w) = cw_id w"

definition history_ok :: "dbase \<Rightarrow> bool" where
  "history_ok db \<longleftrightarrow> distinct (map cw_id (db_commits db)) \<and> list_all (verified db) (db_commits db)
     \<and> (\<forall>r \<in> set (db_refs db). rf_head r \<in> cw_id ` set (db_commits db))"

lemma verified_cong: "db_repo db' = db_repo db \<Longrightarrow> verified db' w = verified db w"
  by (simp add: verified_def stored_input_def)

text \<open>A step that leaves the commits alone and moves no head off them.\<close>

lemma history_keep:
  assumes "history_ok db" "db_repo db' = db_repo db" "db_commits db' = db_commits db"
    and "\<And>r. r \<in> set (db_refs db') \<Longrightarrow> rf_head r \<in> cw_id ` set (db_commits db)"
  shows "history_ok db'"
  using assms verified_cong [of db' db] by (simp add: history_ok_def list_all_iff)

lemma history_same:
  assumes "history_ok db" "db_repo db' = db_repo db" "db_commits db' = db_commits db" "db_refs db' = db_refs db"
  shows "history_ok db'"
  using assms by (intro history_keep [OF assms(1-3)]) (simp add: history_ok_def)

lemma commit_record_verified:
  assumes "commit_record (db_repo db) t b sq ch ps author now msg ext leaves = Inr cr"
  shows "verified db cr"
  using assms by (auto simp: commit_record_def result_simps Let_def verified_def stored_input_def)

text \<open>The end of a commit: the record inserted and the reference advanced to it.\<close>

lemma history_advance:
  assumes h: "history_ok db" and v: "verified db cr" and i: "insert_commit cr db1 = Inr db2"
    and db1: "db_repo db1 = db_repo db" "db_commits db1 = db_commits db" "db_refs db1 = db_refs db"
  shows "history_ok (advance_ref b (cw_id cr) sq ch db2)" (is "history_ok ?db")
proof -
  have db2: "db2 = db1\<lparr>db_commits := db_commits db1 @ [cr]\<rparr>"
    and new: "\<forall>u \<in> set (db_commits db1). cw_id u \<noteq> cw_id cr"
    using i by (auto simp: insert_commit_def result_simps list_ex_iff)
  have c: "db_commits ?db = db_commits db @ [cr]" "db_repo ?db = db_repo db"
    by (simp_all add: advance_ref_def update_ref_def db2 db1)
  have "rf_head q \<in> cw_id ` set (db_commits ?db)" if "q \<in> set (db_refs ?db)" for q
  proof -
    obtain r where r: "r \<in> set (db_refs db)" "q = (if rf_id r = b then r\<lparr>rf_head := cw_id cr, rf_seq := sq, rf_chain := ch\<rparr> else r)"
      using \<open>q \<in> set (db_refs ?db)\<close> by (auto simp: advance_ref_def update_ref_def db2 db1)
    then show ?thesis using h by (cases "rf_id r = b") (simp_all add: c history_ok_def)
  qed
  moreover have "distinct (map cw_id (db_commits ?db))" using h new by (auto simp: c history_ok_def db1)
  moreover have "list_all (verified ?db) (db_commits ?db)"
    using h v verified_cong [OF c(2)] by (simp add: c(1) history_ok_def list_all_iff)
  ultimately show ?thesis by (simp add: history_ok_def)
qed

lemma store_commit_history:
  assumes h: "history_ok db" and c: "store_commit env t now rq db = Inr (db', d, n)"
  shows "history_ok db'"
proof -
  obtain i hd hs ch where r: "ref_row db (rq_branch rq) = Inr (i, hd, hs, ch)"
    using c by (auto simp: store_commit_def result_simps)
  obtain w :: commit_work and cr db2 where
    cr: "commit_record (db_repo db) t i (hs + 1) (\<lparr>sg_branch = i, sg_seq = hs + 1\<rparr> # tl ch) (hd # rq_parents rq) (rq_author rq) now
      (rq_message rq) (rq_ref rq) (wk_leaves w) = Inr cr"
    and ic: "insert_commit cr (db\<lparr>db_side := (db_side db)(st_id t := stamp_versions i (hs + 1) (cw_id cr) (wk_side w)),
                 db_live := (db_live db)(st_id t := wk_live w)\<rparr>) = Inr db2"
    and db': "db' = advance_ref i (cw_id cr) (hs + 1) (\<lparr>sg_branch = i, sg_seq = hs + 1\<rparr> # tl ch) db2"
    using c by (auto simp: store_commit_def Let_def result_simps r)
  show ?thesis unfolding db' by (rule history_advance [OF h commit_record_verified [OF cr] ic]) simp_all
qed

lemma session_commit_history:
  assumes h: "history_ok db" and c: "store_commit_session t sid now author msg db = Inr (db', d, n)"
  shows "history_ok db'"
proof -
  obtain s r where l: "load_session db sid (sint now) = Inr (s, r)"
    using c by (auto simp: store_commit_session_def result_simps)
  obtain b hd hs ch where r: "ref_row db (rf_name r) = Inr (b, hd, hs, ch)"
    using c l by (auto simp: store_commit_session_def result_simps)
  obtain leaves cr side db2 where
    cr: "commit_record (db_repo db) t (ss_branch s) (hs + 1) (\<lparr>sg_branch = ss_branch s, sg_seq = hs + 1\<rparr> # tl ch) [hd] author now msg []
        (map (staged_leaf t) leaves) = Inr cr"
    and ic: "insert_commit cr (db\<lparr>db_side := (db_side db)(st_id t := stamp_session sid (hs + 1) (cw_id cr) side)\<rparr>) = Inr db2"
    and db': "db' = update_session sid (\<lambda>u. u\<lparr>ss_state := SessCommitted\<rparr>)
       (advance_ref (ss_branch s) (cw_id cr) (hs + 1) (\<lparr>sg_branch = ss_branch s, sg_seq = hs + 1\<rparr> # tl ch) db2)"
    using c by (auto simp: store_commit_session_def Let_def result_simps l r)
  have "history_ok (advance_ref (ss_branch s) (cw_id cr) (hs + 1) (\<lparr>sg_branch = ss_branch s, sg_seq = hs + 1\<rparr> # tl ch) db2)"
    by (rule history_advance [OF h commit_record_verified [OF cr] ic]) simp_all
  then show ?thesis unfolding db' by (rule history_same) (simp_all add: update_session_def)
qed

lemma ref_row_head: "ref_row db n = Inr (i, h, s, c) \<Longrightarrow> \<exists>r \<in> set (db_refs db). rf_head r = h"
  using find_branch_mem by (fastforce simp: ref_row_def result_simps)

lemma fork_history:
  assumes h: "history_ok db" and i: "insert_ref r db = Inr db'" and r: "rf_head r \<in> cw_id ` set (db_commits db)"
  shows "history_ok db'"
proof -
  have db': "db' = db\<lparr>db_refs := db_refs db @ [r]\<rparr>" using i by (auto simp: insert_ref_def result_simps)
  show ?thesis by (rule history_keep [OF h]) (use h r in \<open>auto simp: history_ok_def db'\<close>)
qed

lemma create_ref_history: "history_ok db \<Longrightarrow> create_ref db i name src who = Inr db' \<Longrightarrow> history_ok db'"
proof -
  assume h: "history_ok db" and c: "create_ref db i name src who = Inr db'"
  obtain p hd s ch ch' where r: "ref_row db src = Inr (p, hd, s, ch)" and i: "insert_ref (fork_ref i name p hd s ch' who) db = Inr db'"
    using c by (auto simp: create_ref_def Let_def result_simps)
  have "hd \<in> cw_id ` set (db_commits db)" using ref_row_head [OF r] h by (auto simp: history_ok_def)
  then show "history_ok db'" by (intro fork_history [OF h i]) (simp add: fork_ref_def)
qed

lemma create_tag_history: "history_ok db \<Longrightarrow> create_tag db i name c who = Inr db' \<Longrightarrow> history_ok db'"
proof -
  assume h: "history_ok db" and c: "create_tag db i name c who = Inr db'"
  obtain w ch where w: "find_commit db c = Some w"
    and i: "insert_ref ((fork_ref i name [] c 0 ch who)\<lparr>rf_kind := TagRef, rf_fork_commit := zero_digest\<rparr>) db = Inr db'"
    using c by (auto simp: create_tag_def chain_at_def result_simps)
  have "c \<in> cw_id ` set (db_commits db)" using w by (auto simp: find_commit_def dest: find_SomeD)
  then show "history_ok db'" by (intro fork_history [OF h i]) (simp add: fork_ref_def)
qed

lemma update_ref_history:
  assumes "history_ok db" "\<And>r. rf_head (f r) = rf_head r"
  shows "history_ok (update_ref i f db)"
  by (rule history_keep [OF assms(1)]) (use assms in \<open>auto simp: update_ref_def history_ok_def\<close>)

lemma store_merge_history:
  assumes h: "history_ok db" and m: "store_merge env t us now src into author msg app db = Inr (db', res)"
  shows "history_ok db'"
  using m by (cases rule: store_merge_cases) (use h store_commit_history in blast)+

lemma update_from_parent_history:
  assumes h: "history_ok db" and u: "store_update_from_parent env t us now name author db = Inr (db', res)"
  shows "history_ok db'"
proof -
  obtain p db1 where m: "store_merge env t us now p name author (update_message name p) True db = Inr (db1, res)"
    and r: "db' = db1 \<or> rebase_chain p db1 name = Inr db'"
    using u by (auto simp: store_update_from_parent_def result_simps Let_def split: option.splits if_splits)
  have h1: "history_ok db1" by (rule store_merge_history [OF h m])
  from r show ?thesis
  proof
    assume "rebase_chain p db1 name = Inr db'"
    then show ?thesis by (auto simp: rebase_chain_def result_simps intro: update_ref_history [OF h1])
  qed (simp add: h1)
qed

lemma gc_history:
  assumes "history_ok db"
  shows "history_ok (fst (gc now db))"
proof -
  define P where "P = (\<lambda>d. history_ok d)"
  have drop: "P (d\<lparr>db_side := f\<rparr>)" if "P d" for d f using that unfolding P_def by (rule history_same) simp_all
  have sess: "P (update_session sid f d)" if "P d" for sid f d
    using that unfolding P_def by (rule history_same) (simp_all add: update_session_def)
  have reap: "P (reap_session sid d)" if "P d" for sid d
    unfolding reap_session_def by (intro sess foldl_inv [where P = P] that drop)
  have "P db" using assms by (simp add: P_def)
  then have 1: "P (fst (reap_expired now db))"
    unfolding reap_expired_def Let_def fst_conv by (rule foldl_inv) (rule reap)
  define Q where "Q = (\<lambda>st :: dbase \<times> nat. P (fst st))"
  have "Q (foldl (gc_table (live_refs (fst (reap_expired now db)))) (fst (reap_expired now db), 0)
      (db_tables (fst (reap_expired now db))))"
  proof (rule foldl_inv)
    show "Q (fst (reap_expired now db), 0)" using 1 by (simp add: Q_def)
    show "Q st \<Longrightarrow> Q (gc_table live st t)" for live st t
      unfolding Q_def gc_table_def Let_def fst_conv by (rule drop)
  qed
  moreover have "fst (gc now db) = fst (foldl (gc_table (live_refs (fst (reap_expired now db)))) (fst (reap_expired now db), 0)
      (db_tables (fst (reap_expired now db))))"
    unfolding gc_def Let_def case_prod_beta fst_conv by (rule refl)
  ultimately show ?thesis by (simp add: Q_def P_def)
qed

lemma purge_history:
  assumes h: "history_ok db" and p: "purge t k reason db = Inr (db', rep)"
  shows "history_ok db'"
proof -
  define A where "A = set (remdups (map v_commit (filter (\<lambda>v. v_pk v = k) (db_side db (st_id t)))))"
  have "db' = db\<lparr>db_side := (db_side db)(st_id t := filter (\<lambda>v. v_pk v \<noteq> k) (db_side db (st_id t))),
      db_live := (db_live db)(st_id t := fmdrop k (db_live db (st_id t))),
      db_commits := map (\<lambda>w. if cw_id w \<in> A then w\<lparr>cw_purged := True\<rparr> else w) (db_commits db)\<rparr>"
    using p unfolding purge_def result_simps Let_def A_def by blast
  then have c: "db_commits db' = map (\<lambda>w. if cw_id w \<in> A then w\<lparr>cw_purged := True\<rparr> else w) (db_commits db)"
    and d: "db_repo db' = db_repo db" "db_refs db' = db_refs db" by simp_all
  define f where "f = (\<lambda>w :: commit_rec. if cw_id w \<in> A then w\<lparr>cw_purged := True\<rparr> else w)"
  have f: "cw_id (f w) = cw_id w" "verified db' (f w) = verified db w" for w
    using d(1) by (simp_all add: f_def verified_def stored_input_def)
  have "map cw_id (map f (db_commits db)) = map cw_id (db_commits db)" by (simp add: f o_def)
  then have "distinct (map cw_id (map f (db_commits db)))" using h by (simp only: history_ok_def)
  moreover have "cw_id ` set (map f (db_commits db)) = cw_id ` set (db_commits db)" by (simp add: image_image f)
  ultimately show ?thesis using h f unfolding history_ok_def c d f_def [symmetric] by (simp add: list_all_iff)
qed

lemma data_step_history: "data_step env db db' \<Longrightarrow> history_ok db \<Longrightarrow> history_ok db'"
proof (induction rule: data_step.induct)
  case Fork
  show ?case by (rule create_ref_history [OF Fork.prems Fork.hyps(1)])
next
  case Tag
  show ?case by (rule create_tag_history [OF Tag.prems Tag.hyps(1)])
next
  case Commit
  show ?case by (rule store_commit_history [OF Commit.prems Commit.hyps(1)])
next
  case Merge
  show ?case by (rule store_merge_history [OF Merge.prems Merge.hyps(1)])
next
  case Update
  show ?case by (rule update_from_parent_history [OF Update.prems Update.hyps(1)])
next
  case Revert
  then show ?case using store_commit_history by (fastforce simp: store_revert_def result_simps Let_def)
next
  case OpenSession
  show ?case by (rule history_same [OF OpenSession.prems]) (use OpenSession.hyps in \<open>auto simp: open_session_row_def result_simps\<close>)
next
  case SessionWrite
  show ?case by (rule history_same [OF SessionWrite.prems])
      (use SessionWrite.hyps in \<open>auto simp: store_session_write_def result_simps update_session_def\<close>)
next
  case SessionCommit
  show ?case by (rule session_commit_history [OF SessionCommit.prems SessionCommit.hyps(1)])
next
  case Abandon
  show ?case by (rule history_same [OF Abandon.prems]) (simp_all add: store_abandon_session_def update_session_def)
next
  case Collect
  show ?case by (rule gc_history [OF Collect.prems])
next
  case Purge
  show ?case by (rule purge_history [OF Purge.prems Purge.hyps])
next
  case Prune
  show ?case by (rule history_same [OF Prune.prems])
      (use Prune.hyps in \<open>auto simp: prune_def result_simps Let_def case_prod_beta split: if_splits\<close>)
qed

lemma store_step_history:
  assumes "store_step env db db'" and h: "history_ok db"
  shows "history_ok db'"
  using assms(1)
proof cases
  case Data
  then show ?thesis by (rule data_step_history [OF _ h])
next
  case (Delete name)
  have "db_commits db' = db_commits db" "db_repo db' = db_repo db" "set (db_refs db') \<subseteq> set (db_refs db)"
    using Delete by (auto simp: delete_branch_def result_simps Let_def)
  then show ?thesis
    by (intro history_keep [OF h]) (use h in \<open>auto simp: history_ok_def\<close>)
next
  case (Track t rows)
  show ?thesis by (rule history_same [OF h]) (use Track in \<open>auto simp: track_def result_simps\<close>)
next
  case (Untrack t)
  show ?thesis by (rule history_same [OF h]) (simp_all add: Untrack untrack_def)
qed

lemma store_reach_history: "store_reach env db \<Longrightarrow> history_ok db"
proof (induction rule: store_reach.induct)
  case Created
  then show ?case
    by (auto simp: create_repo_def Let_def insert_ref_def insert_commit_def history_ok_def verified_def stored_input_def fork_ref_def)
qed (rule store_step_history)

end
