(* ===== verification/StoreProps.thy ===== *)
theory StoreProps
  imports StoreEffects StoreHistory
begin

text \<open>
  The properties of the store: the live tables mirror the head of the default branch, the SQL resolution
  is the engine's, and what commits, sessions, pruning and garbage collection change and leave alone.
\<close>

subsection \<open>A repository to instantiate with\<close>

definition demo_env :: dbenv where
  "demo_env = \<lparr>de_scan = (\<lambda>_. None), de_live_ok = (\<lambda>_ _. True), de_seal = (\<lambda>_ r. Some r)\<rparr>"

definition demo_table :: store_table where
  "demo_table = \<lparr>st_id = 1, st_physical = ''t'',
     st_columns = [\<lparr>ac_id = 1, ac_name = ''id'', ac_type = ''bigint'', ac_kind = KindInt, ac_nullable = False\<rparr>], st_pk = [1]\<rparr>"

definition demo_row :: "i64 \<Rightarrow> row" where
  "demo_row n = Some (fmap_of_list [(1, int_val n)])"

definition demo_key :: "i64 \<Rightarrow> pk" where
  "demo_key n = (case make_pk (demo_row n) [1] of Some k \<Rightarrow> k | None \<Rightarrow> [])"

definition demo_rows :: table where
  "demo_rows = fmap_of_list [(demo_key 5, demo_row 5)]"

text \<open>The repository is the one \<^verbatim>\<open>CreateRepo\<close> makes, with the table tracked; its root id is left symbolic.\<close>

definition demo_root :: commit_rec where
  "demo_root = \<lparr>cw_id = commit_hash \<lparr>ci_repo = ''r'', ci_parents = [], ci_change = empty_change_digest,
       ci_schema = zero_digest, ci_author = ''a'', ci_author_at = 0, ci_message = ''repository created'', ci_external_ref = []\<rparr>,
     cw_branch = ''b'', cw_seq = 0, cw_parents = [], cw_author = ''a'', cw_at = 0, cw_message = ''repository created'',
     cw_ref = [], cw_change = empty_change_digest, cw_schema = zero_digest,
     cw_chain = [\<lparr>sg_branch = ''b'', sg_seq = 0\<rparr>], cw_purged = False\<rparr>"

definition demo_main :: ref where
  "demo_main = (fork_ref ''b'' default_branch [] (cw_id demo_root) 0 [\<lparr>sg_branch = ''b'', sg_seq = 0\<rparr>] ''a'')
     \<lparr>rf_fork_commit := zero_digest, rf_protected := True\<rparr>"

definition demo_new :: dbase where
  "demo_new = \<lparr>db_repo = ''r'', db_default = ''b'', db_refs = [demo_main], db_commits = [demo_root], db_sessions = [],
     db_tables = [], db_side = (\<lambda>_. []), db_live = (\<lambda>_. fmempty)\<rparr>"

definition demo_side :: "version list" where
  "demo_side = [import_version ''b'' 0 (cw_id demo_root) (demo_key 5, demo_row 5)]"

definition demo_db :: dbase where
  "demo_db = demo_new\<lparr>db_tables := [demo_table], db_side := (\<lambda>_. [])(1 := demo_side), db_live := (\<lambda>_. fmempty)(1 := demo_rows)\<rparr>"

lemma demo_created: "create_repo ''r'' ''b'' ''a'' 0 = Inr demo_new"
  by (simp add: create_repo_def Let_def insert_ref_def insert_commit_def demo_new_def demo_main_def demo_root_def)

lemma demo_main_facts [simp]:
  "rf_id demo_main = ''b''" "rf_kind demo_main = BranchRef" "rf_name demo_main = default_branch" "rf_seq demo_main = 0"
  "rf_head demo_main = cw_id demo_root" "rf_chain demo_main = [\<lparr>sg_branch = ''b'', sg_seq = 0\<rparr>]" "rf_parent demo_main = []"
  by (simp_all add: demo_main_def fork_ref_def)

lemma demo_table_facts [simp]: "st_id demo_table = 1" "st_pk demo_table = [1]" "table_col_ids demo_table = [1]"
  by (simp_all add: demo_table_def table_col_ids_def)

lemma demo_rows_lookup [simp]: "fmlookup demo_rows k = (if k = demo_key 5 then Some (demo_row 5) else None)"
  by (simp add: demo_rows_def)

lemma demo_track: "track demo_table demo_rows demo_new = Inr demo_db"
proof -
  have "fm_keys demo_rows = [demo_key 5]" unfolding demo_rows_def fm_keys_code by simp
  moreover have "unsupported_columns demo_table = []" by code_simp
  ultimately show ?thesis
    by (simp add: track_def demo_new_def demo_db_def demo_side_def state_row_def)
qed

lemma demo_reach: "store_reach env demo_db"
  by (rule Stepped [OF Created [OF demo_created] Track [OF demo_track]]) simp

lemma demo_plain: "plain_env demo_env"
  by (simp add: plain_env_def demo_env_def)

lemma demo_inv: "store_inv demo_db"
  by (rule store_reach_inv [OF demo_reach demo_plain])

lemma demo_db_facts [simp]:
  "db_tables demo_db = [demo_table]" "db_live demo_db = (\<lambda>_. fmempty)(1 := demo_rows)" "db_side demo_db = (\<lambda>_. [])(1 := demo_side)"
  "db_refs demo_db = [demo_main]" "db_commits demo_db = [demo_root]" "db_sessions demo_db = []" "db_default demo_db = ''b''"
  by (simp_all add: demo_db_def demo_new_def)

lemma demo_branch [simp]: "find_branch demo_db default_branch = Some demo_main"
  by (simp add: find_branch_def)

lemma other_branch [simp]: "default_branch \<noteq> ''dev''" "''dev'' \<noteq> default_branch"
  by (simp_all add: default_branch_def)

lemma demo_key_values:
  "decode_pk (demo_key 7) demo_table = Inr [int_val 7]" "decode_pk (demo_key 5) demo_table = Inr [int_val 5]"
  "bind_all demo_env [int_val 5] = Inr ()" "demo_key 7 \<noteq> demo_key 5"
  "make_pk (full_row demo_table (demo_row 7)) [1] = Some (demo_key 7)"
  "bind_all demo_env (row_values demo_table (demo_row 7)) = Inr ()"
  by code_simp+

subsection \<open>The live tables\<close>

text \<open>
  C2: In every store reached by commits, merges, reverts, sessions, branching, tracking, pruning, purges and
  collections in any order, the live rows of a tracked table are exactly what reading the default branch
  at its head resolves, provided that every change written to the default branch is filed under the key
  of its row (\<open>keyed\<close>, part of the steps), that no personal data is sealed (\<open>plain_env\<close>) and that
  sequence numbers remain. The code does not check the first condition of the changes a client sends;
  \<open>unkeyed_commit_drifts\<close> shows what happens without it.
\<close>

theorem live_mirrors_main:
  assumes "store_reach env db" and "plain_env env" and "t \<in> set (db_tables db)"
  shows "and_then (read_chain db default_branch AtHead) (\<lambda>chain. resolve_map (db_side db (st_id t)) chain [])
    = Inr (db_live db (st_id t))"
  by (rule inv_live_mirrors [OF store_reach_inv [OF assms(1,2)] assms(3)])

theorem live_mirrors_main_witness:
  "\<exists>db. db_live db (st_id demo_table) = demo_rows \<and>
     and_then (read_chain db default_branch AtHead) (\<lambda>chain. resolve_map (db_side db (st_id demo_table)) chain [])
       = Inr demo_rows"
  using live_mirrors_main [OF demo_reach demo_plain, of demo_table] demo_reach [of demo_env]
  by (intro exI [of _ demo_db]) simp

subsection \<open>The resolution query\<close>

text \<open>
  C9: Without a page limit, the query sent to the database, a candidate pass under the filter when there is
  one and a DISTINCT ON over the session's staged rows and the segments, fails exactly on an empty or too
  deep chain, and otherwise returns for each requested key the row the engine resolves, when it passes.
  (With a limit it does not: the limit bounds the keys before deleted and shadowed rows are dropped.)
\<close>

theorem resolution_query_agrees:
  assumes "pg_limit pg \<le> 0"
  shows "resolve_query side chain sid kf filt pg =
    (if chain = [] then Inl EmptyChain
     else if max_chain_depth < length chain then Inl (ChainTooDeep (length chain))
     else Inr (fm_collect (\<lambda>k r. if kf k \<and> passes filt r then Some r else None) (resolve_chain side chain sid)))"
proof -
  have "resolved side chain sid kf filt pg =
      fm_collect (\<lambda>k r. if kf k \<and> passes filt r then Some r else None) (resolve_chain side chain sid)"
    by (rule fmap_ext) (simp add: fmlookup_resolved_whole [OF assms] fmlookup_resolve_session fmlookup_collect split: option.split)
  then show ?thesis by (simp add: resolve_query_def check_chain_def and_then_def guard_def)
qed

theorem resolution_query_agrees_witness:
  "\<exists>m. resolve_query
        [\<lparr>v_branch = ''b'', v_pk = ''k'', v_from = 1, v_to = max_seq, v_op = OpInsert, v_commit = [], v_session = [],
          v_changed = [], v_row = demo_row 5\<rparr>]
        [\<lparr>sg_branch = ''b'', sg_seq = 3\<rparr>] [] (\<lambda>_. True) (Some (\<lambda>r. r \<noteq> None)) whole = Inr m
      \<and> fmlookup m ''k'' = Some (demo_row 5)"
  unfolding resolution_query_agrees [of whole, unfolded whole_def page.simps, OF order_refl, folded whole_def]
  by (simp add: max_chain_depth_def passes_def demo_row_def fmlookup_resolve_session view_row_def
      seg_row_def seg_version_def hist_def max_seq_def max_int64_def live_def)

subsection \<open>Commits\<close>

text \<open>
  C5: From any store that satisfies the invariant, as every reachable one does, a commit on the default
  branch of changes that are each filed under the key of their row (\<open>keyed\<close>), with no personal data
  sealed (\<open>plain_env\<close>), leaves its live table with exactly the effective changes applied, in key order,
  each judged against the row before the commit; a change that equals that row writes nothing. It reports
  their number, and no other live table moves.
\<close>

theorem commit_main_effect:
  assumes "store_inv db" and "plain_env env" and "t \<in> set (db_tables db)"
    and "store_commit env t now rq db = Inr (db', d, n)" and "rq_branch rq = default_branch"
    and "list_all (keyed t) (rq_changes rq)"
  shows "db_live db' = (db_live db)(st_id t :=
      foldl (land_change t (db_live db (st_id t))) (db_live db (st_id t)) (sort_key sc_pk' (rq_changes rq)))
    \<and> n = length (effective_changes (db_live db (st_id t)) (rq_changes rq))"
  using store_commit_main [OF assms(1,4,3,2,5,6)] by blast

definition demo_request :: commit_request where
  "demo_request = \<lparr>rq_branch = default_branch, rq_changes = [\<lparr>sc_pk' = demo_key 7, sc_op = OpInsert, sc_row = demo_row 7\<rparr>],
     rq_author = ''a'', rq_message = [], rq_ref = [], rq_expected = None, rq_parents = []\<rparr>"

lemma demo_row_self: "row_get (demo_row n) 1 = int_val n"
  by (simp add: demo_row_def row_get_def)

lemma demo_full_self: "row_get (full_row demo_table (demo_row n)) 1 = int_val n"
  by (simp add: full_row_def demo_row_def row_get_def)

lemma demo_commit:
  "\<exists>db' d. store_commit demo_env demo_table 1 demo_request (demo_db\<lparr>db_commits := []\<rparr>) = Inr (db', d, 1)"
proof -
  have leaf: "\<exists>d. leaf_digest \<lparr>hc_table = 1, hc_pk = demo_key 7, hc_op = OpInsert, hc_changed = mask_of None (demo_row 7) [1],
      hc_row = demo_row 7\<rparr> [1] = Inr d"
  proof -
    have "case leaf_bytes \<lparr>hc_table = 1, hc_pk = demo_key 7, hc_op = OpInsert, hc_changed = mask_of None (demo_row 7) [1],
        hc_row = demo_row 7\<rparr> [1] of Inl _ \<Rightarrow> False | Inr _ \<Rightarrow> True" by code_simp
    then show ?thesis by (simp add: leaf_digest_def split: sum.splits)
  qed
  have find: "find_branch (demo_db\<lparr>db_commits := []\<rparr>) default_branch = Some demo_main" by (simp add: find_branch_def)
  have row: "ref_row (demo_db\<lparr>db_commits := []\<rparr>) default_branch = Inr (''b'', cw_id demo_root, 0, [\<lparr>sg_branch = ''b'', sg_seq = 0\<rparr>])"
    by (simp add: ref_row_def find)
  have cur: "current_row demo_table demo_side [\<lparr>sg_branch = ''b'', sg_seq = 0\<rparr>] (demo_key 7) = Inr None"
    using demo_key_values by (simp add: current_row_Inr check_chain_def max_chain_depth_def demo_side_def hist_def import_version_def
        seg_row_def seg_version_def)
  have live: "apply_live demo_env demo_table \<lparr>sc_pk' = demo_key 7, sc_op = OpInsert, sc_row = demo_row 7\<rparr> OpInsert demo_rows
      = Inr (fmupd (demo_key 7) (full_row demo_table (demo_row 7)) demo_rows)"
    using demo_key_values by (simp add: apply_live_def left_map_def) (simp add: demo_env_def)
  have step: "\<exists>side. commit_step demo_env demo_table True ''b'' 1 [\<lparr>sg_branch = ''b'', sg_seq = 0\<rparr>]
      \<lparr>sc_pk' = demo_key 7, sc_op = OpInsert, sc_row = demo_row 7\<rparr> \<lparr>wk_side = demo_side, wk_live = demo_rows, wk_leaves = []\<rparr>
    = Inr \<lparr>wk_side = side, wk_live = fmupd (demo_key 7) (full_row demo_table (demo_row 7)) demo_rows,
        wk_leaves = [\<lparr>hc_table = 1, hc_pk = demo_key 7, hc_op = OpInsert, hc_changed = mask_of None (demo_row 7) [1], hc_row = demo_row 7\<rparr>]\<rparr>"
    using demo_key_values
    by (simp add: commit_step_def cur effective_op_def live)
      (simp add: close_versions_def left_map_def demo_env_def insert_version_def version_key_def version_row_def demo_side_def import_version_def
        insert_row_def opt_row_def row_values_def demo_row_self demo_full_self Let_def)
  show ?thesis using step leaf
    by (auto simp: store_commit_def demo_request_def row commit_record_def change_digest_def insert_commit_def left_map_def Let_def)
qed

lemma demo_bare_inv: "store_inv (demo_db\<lparr>db_commits := []\<rparr>)"
  by (rule side_step_inv [OF demo_inv]) (simp_all add: keeps_main_refl)

theorem commit_main_effect_witness:
  "\<exists>db' d. store_commit demo_env demo_table 1 demo_request (demo_db\<lparr>db_commits := []\<rparr>) = Inr (db', d, 1)
     \<and> fmlookup (db_live db' 1) (demo_key 7) = Some (full_row demo_table (demo_row 7))
     \<and> fmlookup (db_live db' 1) (demo_key 5) = Some (demo_row 5)"
proof -
  obtain db' d where c: "store_commit demo_env demo_table 1 demo_request (demo_db\<lparr>db_commits := []\<rparr>) = Inr (db', d, 1)"
    using demo_commit by blast
  have k: "list_all (keyed demo_table) (rq_changes demo_request)"
    using demo_key_values by (simp add: demo_request_def keyed_def version_row_def)
  from commit_main_effect [OF demo_bare_inv demo_plain _ c _ k] c
  show ?thesis using demo_key_values
    by (intro exI [of _ db'] exI [of _ d]) (simp add: demo_request_def land_change_def effective_op_def)
qed

text \<open>
  Without the condition on keys a commit parts the live table from its history. A change filed under one key
  with a row of another closes the version of the first and stores one of the second; the live table gets
  the new row and keeps the old one.
\<close>

definition unkeyed_change :: store_change where
  "unkeyed_change = \<lparr>sc_pk' = demo_key 5, sc_op = OpUpdate, sc_row = demo_row 7\<rparr>"

definition unkeyed_request :: commit_request where
  "unkeyed_request = demo_request\<lparr>rq_changes := [unkeyed_change]\<rparr>"

lemma unkeyed_step:
  "commit_step demo_env demo_table True ''b'' 1 [\<lparr>sg_branch = ''b'', sg_seq = 0\<rparr>] unkeyed_change
      \<lparr>wk_side = demo_side, wk_live = demo_rows, wk_leaves = []\<rparr>
    = Inr \<lparr>wk_side = [(import_version ''b'' 0 (cw_id demo_root) (demo_key 5, demo_row 5))\<lparr>v_to := 1\<rparr>,
          \<lparr>v_branch = ''b'', v_pk = demo_key 7, v_from = 1, v_to = max_seq, v_op = OpUpdate, v_commit = [], v_session = [],
            v_changed = mask_of (demo_row 5) (demo_row 7) [1], v_row = full_row demo_table (demo_row 7)\<rparr>],
        wk_live = fmupd (demo_key 7) (full_row demo_table (demo_row 7)) demo_rows,
        wk_leaves = [\<lparr>hc_table = 1, hc_pk = demo_key 5, hc_op = OpUpdate, hc_changed = mask_of (demo_row 5) (demo_row 7) [1],
          hc_row = demo_row 7\<rparr>]\<rparr>"
proof -
  have cur: "current_row demo_table demo_side [\<lparr>sg_branch = ''b'', sg_seq = 0\<rparr>] (demo_key 5) = Inr (Some (demo_row 5))"
    using demo_key_values by (simp add: current_row_Inr check_chain_def max_chain_depth_def demo_side_def hist_def import_version_def
        seg_row_def seg_version_def live_def max_seq_def max_int64_def)
  have ne: "\<not> row_equal (demo_row 5) (demo_row 7)" by code_simp
  have live: "apply_live demo_env demo_table unkeyed_change OpUpdate demo_rows
      = Inr (fmupd (demo_key 7) (full_row demo_table (demo_row 7)) demo_rows)"
    using demo_key_values by (simp add: unkeyed_change_def apply_live_def left_map_def) (simp add: demo_env_def)
  show ?thesis
    using demo_key_values cur ne live
    by (simp add: commit_step_def unkeyed_change_def effective_op_def)
      (simp add: close_versions_def left_map_def demo_env_def insert_version_def version_key_def version_row_def demo_side_def
        import_version_def insert_row_def opt_row_def row_values_def demo_row_self demo_full_self Let_def)
qed

lemma unkeyed_commit_drifts:
  "\<exists>db' d. store_commit demo_env demo_table 1 unkeyed_request (demo_db\<lparr>db_commits := []\<rparr>) = Inr (db', d, 1)
     \<and> fmlookup (db_live db' 1) (demo_key 5) = Some (demo_row 5)
     \<and> fmlookup (resolve_chain (db_side db' 1) [\<lparr>sg_branch = ''b'', sg_seq = 1\<rparr>] []) (demo_key 5) = None"
proof -
  have leaf: "\<exists>d. leaf_digest \<lparr>hc_table = 1, hc_pk = demo_key 5, hc_op = OpUpdate, hc_changed = mask_of (demo_row 5) (demo_row 7) [1],
      hc_row = demo_row 7\<rparr> [1] = Inr d"
  proof -
    have "case leaf_bytes \<lparr>hc_table = 1, hc_pk = demo_key 5, hc_op = OpUpdate, hc_changed = mask_of (demo_row 5) (demo_row 7) [1],
        hc_row = demo_row 7\<rparr> [1] of Inl _ \<Rightarrow> False | Inr _ \<Rightarrow> True" by code_simp
    then show ?thesis by (simp add: leaf_digest_def split: sum.splits)
  qed
  have row: "ref_row (demo_db\<lparr>db_commits := []\<rparr>) default_branch = Inr (''b'', cw_id demo_root, 0, [\<lparr>sg_branch = ''b'', sg_seq = 0\<rparr>])"
    by (simp add: ref_row_def find_branch_def)
  show ?thesis using unkeyed_step leaf demo_key_values
    by (auto simp: store_commit_def unkeyed_request_def demo_request_def row commit_record_def change_digest_def insert_commit_def
        left_map_def Let_def advance_ref_def update_ref_def stamp_versions_def fmlookup_resolve_session view_row_def hist_def
        import_version_def seg_row_def seg_version_def live_def max_seq_def max_int64_def)
qed

text \<open>
  C12: In every reachable store the commit ids are distinct, every head is a stored commit, and
  VerifyIntegrity finds no commit of any branch whose record does not hash to its id.
\<close>

theorem stored_history_verifies:
  assumes "store_reach env db" and "plain_env env"
  shows "distinct (map cw_id (db_commits db)) \<and> (\<forall>r \<in> set (db_refs db). find_commit db (rf_head r) \<noteq> None)
    \<and> verify_integrity db n = (if find_branch db n = None then Inl (NoSuchBranch n) else Inr None)"
proof -
  have h: "history_ok db" by (rule store_reach_history [OF assms(1)])
  have "find_commit db c \<noteq> None" if "c \<in> cw_id ` set (db_commits db)" for c
    using that by (auto simp: find_commit_def find_None_iff)
  then have heads: "\<forall>r \<in> set (db_refs db). find_commit db (rf_head r) \<noteq> None" using h by (simp add: history_ok_def)
  have "find (\<lambda>w. \<not> cw_purged w \<and> commit_hash (stored_input db w) \<noteq> cw_id w)
      (sort_key cw_seq (filter (\<lambda>w. cw_branch w = b) (db_commits db))) = None" for b
    using h by (auto simp: find_None_iff history_ok_def list_all_iff verified_def)
  then have "verify_integrity db n = (if find_branch db n = None then Inl (NoSuchBranch n) else Inr None)"
    by (cases "find_branch db n") (simp_all add: verify_integrity_def ref_row_def)
  with h heads show ?thesis by (simp add: history_ok_def)
qed

theorem stored_history_verifies_witness:
  "\<exists>db. store_reach demo_env db \<and> verify_integrity db default_branch = Inr None"
  using stored_history_verifies [OF demo_reach demo_plain, of default_branch] demo_reach [of demo_env]
  by (intro exI [of _ demo_db]) simp

subsection \<open>What sessions, pruning and collections leave alone\<close>

text \<open>
  C15: Writing in a session changes nothing any branch shows at any point, paged or not, no live table and
  nothing another session resolves.
\<close>

theorem session_writes_unseen:
  assumes "store_reach env db" and "plain_env env" and "store_session_write env t sid now changes db = Inr db'"
  shows "store_read db' u n p filt pg = store_read db u n p filt pg \<and> db_live db' = db_live db \<and>
    (sid' \<noteq> sid \<longrightarrow> store_session_resolve db' u sid' time = store_session_resolve db u sid' time)"
proof (intro conjI impI)
  note fr = session_write_frame [OF store_reach_inv [OF assms(1,2)] assms(3)]
  have ch: "chain_at db' = chain_at db" by (rule ext) (simp add: chain_at_def find_commit_def fr(2))
  have "ref_row db' = ref_row db" by (rule ext) (simp add: ref_row_def find_branch_def fr(1))
  moreover have "commit_as_of db' = commit_as_of db" by (intro ext) (simp add: commit_as_of_def fr(2))
  ultimately have rc: "read_chain db' n p = read_chain db n p" unfolding read_chain_def ch by (simp only:)
  have "resolve_query (db_side db' (st_id u)) chain [] kf filt pg = resolve_query (db_side db (st_id u)) chain [] kf filt pg" for chain kf
    by (rule resolve_query_cong) (simp_all add: fr(4))
  then show "store_read db' u n p filt pg = store_read db u n p filt pg" by (simp add: store_read_def rc)
  show "db_live db' = db_live db" by (rule fr(3))
  assume sid: "sid' \<noteq> sid"
  have l: "load_session db' sid' time = load_session db sid' time"
    using fr(6) [OF sid] by (simp add: load_session_def fr(1))
  have q: "resolve_map (db_side db' (st_id u)) chain sid' = resolve_map (db_side db (st_id u)) chain sid'" for chain
    unfolding resolve_map_def by (rule resolve_query_cong) (simp_all add: fr(4) fr(5) [OF sid])
  have "session_view db' u s = session_view db u s" if "ss_id s = sid'" for s
    using that by (simp add: session_view_def ch q)
  moreover have "ss_id s = sid'" if "load_session db sid' time = Inr (s, r)" for s r
    using load_session_Inr [OF that] by simp
  ultimately show "store_session_resolve db' u sid' time = store_session_resolve db u sid' time"
    unfolding store_session_resolve_def l by (cases "load_session db sid' time") auto
qed

definition demo_session :: dbase where
  "demo_session = demo_db\<lparr>db_refs := [demo_main, fork_ref ''d'' ''dev'' ''b'' (cw_id demo_root) 0
       [\<lparr>sg_branch = ''d'', sg_seq = 0\<rparr>, \<lparr>sg_branch = ''b'', sg_seq = 0\<rparr>] ''a''],
     db_sessions := [\<lparr>ss_id = ''s'', ss_branch = ''d'', ss_principal = ''a'', ss_base = cw_id demo_root, ss_base_seq = 0, ss_state = SessOpen,
       ss_lease = default_lease\<rparr>]\<rparr>"

lemma demo_session_reach: "store_reach env demo_session"
proof -
  define db1 where "db1 = demo_db\<lparr>db_refs := [demo_main, fork_ref ''d'' ''dev'' ''b'' (cw_id demo_root) 0
       [\<lparr>sg_branch = ''d'', sg_seq = 0\<rparr>, \<lparr>sg_branch = ''b'', sg_seq = 0\<rparr>] ''a'']\<rparr>"
  have "create_ref demo_db ''d'' ''dev'' default_branch ''a'' = Inr db1"
    by (simp add: create_ref_def ref_row_def db1_def max_chain_depth_def insert_ref_def fork_ref_def)
  then have r: "store_reach env db1" using Stepped [OF demo_reach Data [OF Fork]] by auto
  have "open_session_row db1 ''s'' ''dev'' ''a'' 0 = Inr demo_session"
    by (simp add: open_session_row_def ref_row_def find_branch_def db1_def fork_ref_def demo_session_def)
  then show ?thesis using Stepped [OF r Data [OF OpenSession]] by auto
qed

lemma demo_staged:
  "version_key demo_table (staged_values demo_table OpDelete \<lparr>sc_pk' = demo_key 5, sc_op = OpDelete, sc_row = None\<rparr>) = Inr (demo_key 5)"
  "bind_all demo_env (row_values demo_table
     (staged_values demo_table OpDelete \<lparr>sc_pk' = demo_key 5, sc_op = OpDelete, sc_row = None\<rparr>)) = Inr ()"
  by code_simp+

theorem session_writes_unseen_witness:
  "\<exists>db'. store_session_write demo_env demo_table ''s'' 0 [\<lparr>sc_pk' = demo_key 5, sc_op = OpDelete, sc_row = None\<rparr>] demo_session = Inr db'
     \<and> db_side db' 1 \<noteq> db_side demo_session 1
     \<and> store_read db' demo_table ''dev'' AtHead None whole = store_read demo_session demo_table ''dev'' AtHead None whole"
proof -
  define ch where "ch = \<lparr>sc_pk' = demo_key 5, sc_op = OpDelete, sc_row = None\<rparr>"
  define s where "s = \<lparr>ss_id = ''s'', ss_branch = ''d'', ss_principal = ''a'', ss_base = cw_id demo_root, ss_base_seq = 0, ss_state = SessOpen,
       ss_lease = default_lease\<rparr>"
  have db: "db_side demo_session = (\<lambda>_. [])(1 := demo_side)" "db_commits demo_session = [demo_root]"
    "db_sessions demo_session = [s]" by (simp_all add: demo_session_def s_def)
  have l: "\<exists>r. load_session demo_session ''s'' 0 = Inr (s, r)"
    by (simp add: load_session_def demo_session_def s_def fork_ref_def default_lease_def)
  have chain: "chain_at demo_session (ss_base s) = Inr [\<lparr>sg_branch = ''b'', sg_seq = 0\<rparr>]"
    by (simp add: chain_at_def find_commit_def db s_def) (simp add: demo_root_def)
  define view where "view = resolve_chain demo_side [\<lparr>sg_branch = ''b'', sg_seq = 0\<rparr>] ''s''"
  have v: "session_view demo_session demo_table s = Inr view"
    unfolding session_view_def chain
    by (simp add: db resolve_map_Inr view_def check_chain_def max_chain_depth_def) (simp add: s_def)
  have before: "fmlookup view (demo_key 5) = Some (demo_row 5)"
    by (simp add: view_def fmlookup_resolve_session view_row_def staged_def demo_side_def hist_def import_version_def
        seg_row_def seg_version_def live_def max_seq_def max_int64_def)
  have step: "\<exists>side view'. stage_change demo_env demo_table s ch (demo_side, view) = Inr (side, view') \<and> side \<noteq> demo_side"
    using demo_key_values demo_staged
    by (simp add: stage_change_def ch_def before effective_op_def staged_row_def left_map_def
        insert_row_def demo_side_def import_version_def s_def)
  obtain db' where w: "store_session_write demo_env demo_table ''s'' 0 [ch] demo_session = Inr db'"
    and d: "db_side db' 1 \<noteq> demo_side"
    using l v step by (auto simp: store_session_write_def db update_session_def)
  from session_writes_unseen [OF demo_session_reach demo_plain w] w d show ?thesis
    unfolding ch_def by (intro exI [of _ db']) (simp add: db)
qed

text \<open>
  C14: Garbage collection changes nothing an existing branch shows at its head, under any filter and page,
  and no live table.
\<close>

theorem gc_keeps_branches:
  assumes "store_reach env db" and "plain_env env" and "find_branch db n \<noteq> None" and "n \<noteq> []"
  shows "store_read (fst (gc now db)) t n AtHead filt pg = store_read db t n AtHead filt pg
    \<and> db_live (fst (gc now db)) = db_live db"
proof -
  have inv: "store_inv db" by (rule store_reach_inv [OF assms(1,2)])
  obtain r where "find_branch db n = Some r" using assms(3) by auto
  then show ?thesis using gc_read_head [OF inv _ assms(4)] gc_collected [OF inv] by (simp add: collected_def)
qed

theorem gc_keeps_branches_witness:
  "store_read (fst (gc 0 demo_session)) demo_table default_branch AtHead None whole
     = store_read demo_session demo_table default_branch AtHead None whole"
  using gc_keeps_branches [OF demo_session_reach demo_plain, of default_branch]
  by (simp add: find_branch_def demo_session_def)

text \<open>
  C13: Pruning a table of the default branch changes no read of a chain whose segment of that branch lies
  at or after the cutoff, no reference and no live row.
\<close>

theorem prune_keeps_recent:
  assumes "store_reach env db" and "plain_env env" and "t \<in> set (db_tables db)"
    and "prune t policy before ms db = Inr (db', removed)"
    and "\<forall>g \<in> set chain. sg_branch g = db_default db \<longrightarrow>
      prune_cutoff db (db_default db) (main_head db) policy before \<le> sg_seq g"
  shows "resolve_query (db_side db' i) chain sid kf filt pg = resolve_query (db_side db i) chain sid kf filt pg
    \<and> db_refs db' = db_refs db \<and> db_commits db' = db_commits db \<and> db_live db' = db_live db"
proof -
  note fr = prune_frame [OF store_reach_inv [OF assms(1,2)] assms(4,3), where chain = chain]
  have c: "prune_cutoff db (db_default db) (main_head db) policy before \<le> sg_seq g"
    if "g \<in> set chain" "sg_branch g = db_default db" for g using assms(5) that by blast
  show ?thesis by (intro conjI fr c)
qed

theorem prune_keeps_recent_witness:
  "\<exists>db' n. prune demo_table \<lparr>rt_keep_days = 0, rt_keep_commits = 1\<rparr> 0 [] demo_db = Inr (db', n)
     \<and> resolve_query (db_side db' 1) [\<lparr>sg_branch = ''b'', sg_seq = 0\<rparr>] [] (\<lambda>_. True) None whole
       = resolve_query (db_side demo_db 1) [\<lparr>sg_branch = ''b'', sg_seq = 0\<rparr>] [] (\<lambda>_. True) None whole"
proof -
  have p: "\<exists>n. prune demo_table \<lparr>rt_keep_days = 0, rt_keep_commits = 1\<rparr> 0 [] demo_db = Inr (demo_db, n)"
    by (simp add: prune_def ref_row_def prune_cutoff_def Let_def)
  then obtain n where n: "prune demo_table \<lparr>rt_keep_days = 0, rt_keep_commits = 1\<rparr> 0 [] demo_db = Inr (demo_db, n)" by blast
  have c: "\<forall>g \<in> set [\<lparr>sg_branch = ''b'', sg_seq = 0\<rparr>]. sg_branch g = db_default demo_db \<longrightarrow>
      prune_cutoff demo_db (db_default demo_db) (main_head demo_db) \<lparr>rt_keep_days = 0, rt_keep_commits = 1\<rparr> 0 \<le> sg_seq g"
    by (simp add: prune_cutoff_def main_head_def)
  show ?thesis using prune_keeps_recent [OF demo_reach demo_plain _ n c] n by (intro exI [of _ demo_db] exI [of _ n]) simp
qed

end
