(* ===== verification/DdlDefs.thy ===== *)
theory DdlDefs
  imports ValuesDefs
begin

text \<open>
  The statements of a migration, after \<^verbatim>\<open>internal/adapter/postgres/ddl.go\<close> and
  \<^verbatim>\<open>internal/adapter/mysql/ddl.go\<close>: the two implementations of the interface \<^verbatim>\<open>DDLGen\<close> a plan is built with,
  as functions to the text of a statement.
\<close>

datatype dialect = PostgreSQL | MySQL

subsection \<open>PostgreSQL\<close>

definition alter_table :: "string \<Rightarrow> string" where
  "alter_table table = ''ALTER TABLE '' @ quote_ident table"

text \<open>\<^verbatim>\<open>SetNotNull\<close> and \<^verbatim>\<open>DropNotNull\<close> ignore the type.\<close>

definition preflight_query :: "(string \<Rightarrow> string) \<Rightarrow> string \<Rightarrow> string \<Rightarrow> string" where
  "preflight_query quoted table col =
     ''SELECT 1/(CASE WHEN count(*) = 0 THEN 1 ELSE 0 END) FROM '' @ quoted table @ '' WHERE '' @ quoted col @ '' IS NULL''"

definition pg_ddl :: ddl_gen where
  "pg_ddl =
     \<lparr>ddl_add_column = (\<lambda>table col sql_type.
        alter_table table @ '' ADD COLUMN IF NOT EXISTS '' @ quote_ident col @ '' '' @ sql_type),
      ddl_drop_column = (\<lambda>table col. alter_table table @ '' DROP COLUMN IF EXISTS '' @ quote_ident col),
      ddl_deprecate_column = (\<lambda>table col.
        ''COMMENT ON COLUMN '' @ quote_ident table @ ''.'' @ quote_ident col @ '' IS '' @ [quote_char]
        @ ''datagit: deprecated, pending drop'' @ [quote_char]),
      ddl_rename_column = (\<lambda>table from to.
        alter_table table @ '' RENAME COLUMN '' @ quote_ident from @ '' TO '' @ quote_ident to),
      ddl_alter_type = (\<lambda>table col sql_type.
        alter_table table @ '' ALTER COLUMN '' @ quote_ident col @ '' TYPE '' @ sql_type),
      ddl_set_not_null = (\<lambda>table col _. alter_table table @ '' ALTER COLUMN '' @ quote_ident col @ '' SET NOT NULL''),
      ddl_drop_not_null = (\<lambda>table col _. alter_table table @ '' ALTER COLUMN '' @ quote_ident col @ '' DROP NOT NULL''),
      ddl_preflight_not_null = preflight_query quote_ident\<rparr>"

subsection \<open>MySQL\<close>

definition backtick_ident :: "string \<Rightarrow> string" where
  "backtick_ident s =
     backtick_char # concat (map (\<lambda>c. if c = backtick_char then [backtick_char, backtick_char] else [c]) s) @ [backtick_char]"

text \<open>A string literal; a backslash and a quote are escaped.\<close>

definition sql_string :: "string \<Rightarrow> string" where
  "sql_string s =
     quote_char # concat (map (\<lambda>c. if c = backslash_char \<or> c = quote_char then [backslash_char, c] else [c]) s) @ [quote_char]"

text \<open>A statement made conditional: MySQL prepares it, or \<^verbatim>\<open>DO 0\<close>, from a string.\<close>

definition guarded :: "string \<Rightarrow> string \<Rightarrow> string" where
  "guarded cond ddl =
     ''SET @datagit_ddl := IF('' @ cond @ '', '' @ sql_string ddl @ '', '' @ sql_string ''DO 0'' @ ''); ''
     @ ''PREPARE datagit_stmt FROM @datagit_ddl; '' @ ''EXECUTE datagit_stmt; '' @ ''DEALLOCATE PREPARE datagit_stmt''"

definition column_count :: "string \<Rightarrow> string \<Rightarrow> string" where
  "column_count table col =
     ''(SELECT COUNT(*) FROM information_schema.COLUMNS WHERE TABLE_SCHEMA = DATABASE() AND TABLE_NAME = '' @ sql_string table
     @ '' AND COLUMN_NAME = '' @ sql_string col @ '')''"

definition column_missing :: "string \<Rightarrow> string \<Rightarrow> string" where
  "column_missing table col = column_count table col @ '' = 0''"

definition column_present :: "string \<Rightarrow> string \<Rightarrow> string" where
  "column_present table col = column_count table col @ '' > 0''"

definition my_alter :: "string \<Rightarrow> string" where
  "my_alter table = ''ALTER TABLE '' @ backtick_ident table"

definition my_add :: "string \<Rightarrow> string \<Rightarrow> string \<Rightarrow> string" where
  "my_add table col sql_type = my_alter table @ '' ADD COLUMN '' @ backtick_ident col @ '' '' @ sql_type"

definition my_drop :: "string \<Rightarrow> string \<Rightarrow> string" where
  "my_drop table col = my_alter table @ '' DROP COLUMN '' @ backtick_ident col"

definition my_rename :: "string \<Rightarrow> string \<Rightarrow> string \<Rightarrow> string" where
  "my_rename table from to = my_alter table @ '' RENAME COLUMN '' @ backtick_ident from @ '' TO '' @ backtick_ident to"

definition my_modify :: "string \<Rightarrow> string \<Rightarrow> string \<Rightarrow> string \<Rightarrow> string" where
  "my_modify table col sql_type rest =
     my_alter table @ '' MODIFY COLUMN '' @ backtick_ident col @ '' '' @ sql_type @ rest"

definition my_ddl :: ddl_gen where
  "my_ddl =
     \<lparr>ddl_add_column = (\<lambda>table col sql_type. guarded (column_missing table col) (my_add table col sql_type)),
      ddl_drop_column = (\<lambda>table col. guarded (column_present table col) (my_drop table col)),
      ddl_deprecate_column = (\<lambda>table col. ''DO 0 /* datagit: '' @ table @ ''.'' @ col @ '' deprecated, pending drop */''),
      ddl_rename_column = (\<lambda>table from to. guarded (column_present table from) (my_rename table from to)),
      ddl_alter_type = (\<lambda>table col sql_type. my_modify table col sql_type []),
      ddl_set_not_null = (\<lambda>table col sql_type. my_modify table col sql_type '' NOT NULL''),
      ddl_drop_not_null = (\<lambda>table col sql_type. my_modify table col sql_type '' NULL''),
      ddl_preflight_not_null = preflight_query backtick_ident\<rparr>"

definition ddl_of :: "dialect \<Rightarrow> ddl_gen" where
  "ddl_of q = (case q of PostgreSQL \<Rightarrow> pg_ddl | MySQL \<Rightarrow> my_ddl)"

end
