(* ===== verification/StoreMigrate.thy ===== *)
theory StoreMigrate
  imports Results SchemaDefs
begin

text \<open>
  Applying a migration plan: the journal of \<^verbatim>\<open>internal/store/journal.go\<close>, the interface \<^verbatim>\<open>Journal\<close> of
  \<^verbatim>\<open>internal/adapter/adapter.go\<close> and the resumable apply of \<^verbatim>\<open>internal/adapter/postgres/migrate.go\<close>, which
  \<^verbatim>\<open>internal/adapter/mysql/mysql.go\<close> repeats. No transaction surrounds the statements, so an apply returns
  what it did before it failed. The execution of a statement on the live database is a parameter.
\<close>

subsection \<open>The journal\<close>

record journal_row =
  jr_plan :: i64
  jr_ordinal :: int
  jr_kind :: string
  jr_sql :: string
  jr_started :: bool
  jr_completed :: bool

text \<open>The interface \<^verbatim>\<open>Journal\<close>, as the record of its methods.\<close>

record 'j journal_ops =
  jn_begin :: "migration_plan \<Rightarrow> 'j \<Rightarrow> 'j"
  jn_started :: "u64 \<Rightarrow> int \<Rightarrow> 'j \<Rightarrow> 'j"
  jn_complete :: "u64 \<Rightarrow> int \<Rightarrow> 'j \<Rightarrow> 'j"
  jn_completed :: "u64 \<Rightarrow> 'j \<Rightarrow> int list"

text \<open>An insert under the primary key plan and ordinal, which does nothing on a duplicate.\<close>

definition journal_insert :: "i64 \<Rightarrow> migration_op \<Rightarrow> journal_row list \<Rightarrow> journal_row list" where
  "journal_insert p o' j =
     (if list_ex (\<lambda>r. jr_plan r = p \<and> jr_ordinal r = mo_ordinal o') j then j
      else j @ [\<lparr>jr_plan = p, jr_ordinal = mo_ordinal o', jr_kind = mo_kind o', jr_sql = mo_sql o',
                 jr_started = False, jr_completed = False\<rparr>])"

definition journal_begin :: "migration_plan \<Rightarrow> journal_row list \<Rightarrow> journal_row list" where
  "journal_begin plan j = foldl (\<lambda>j o'. journal_insert (mp_table plan) o' j) j (mp_ops plan)"

definition mark_started :: "u64 \<Rightarrow> int \<Rightarrow> journal_row list \<Rightarrow> journal_row list" where
  "mark_started p n j =
     map (\<lambda>r. if jr_plan r = p \<and> jr_ordinal r = n then r\<lparr>jr_started := True\<rparr> else r) j"

definition mark_complete :: "u64 \<Rightarrow> int \<Rightarrow> journal_row list \<Rightarrow> journal_row list" where
  "mark_complete p n j =
     map (\<lambda>r. if jr_plan r = p \<and> jr_ordinal r = n then r\<lparr>jr_completed := True\<rparr> else r) j"

definition journal_completed :: "u64 \<Rightarrow> journal_row list \<Rightarrow> int list" where
  "journal_completed p j = map jr_ordinal (filter (\<lambda>r. jr_plan r = p \<and> jr_completed r) j)"

definition store_journal :: "journal_row list journal_ops" where
  "store_journal = \<lparr>jn_begin = journal_begin, jn_started = mark_started, jn_complete = mark_complete,
                    jn_completed = journal_completed\<rparr>"

subsection \<open>The apply\<close>

text \<open>The failing operation: its ordinal, its kind and the database's message.\<close>

datatype migration_error = OpFailed int string string

text \<open>The loop over the operations; what it did stays done.\<close>

fun run_ops :: "'j journal_ops \<Rightarrow> (string \<Rightarrow> 'd \<Rightarrow> string + 'd) \<Rightarrow> u64 \<Rightarrow> int list \<Rightarrow> migration_op list
    \<Rightarrow> 'j \<times> 'd \<Rightarrow> ('j \<times> 'd) \<times> migration_error option" where
  "run_ops J ex p dn [] (j, d) = ((j, d), None)"
| "run_ops J ex p dn (o' # ops) (j, d) =
     (if mo_ordinal o' \<in> set dn then run_ops J ex p dn ops (j, d)
      else let j1 = jn_started J p (mo_ordinal o') j in
        case ex (mo_sql o') d of
          Inl e \<Rightarrow> ((j1, d), Some (OpFailed (mo_ordinal o') (mo_kind o') e))
        | Inr d1 \<Rightarrow> run_ops J ex p dn ops (jn_complete J p (mo_ordinal o') j1, d1))"

definition apply_migration :: "'j journal_ops \<Rightarrow> (string \<Rightarrow> 'd \<Rightarrow> string + 'd) \<Rightarrow> migration_plan
    \<Rightarrow> 'j \<times> 'd \<Rightarrow> ('j \<times> 'd) \<times> migration_error option" where
  "apply_migration J ex plan st =
     (let j = jn_begin J plan (fst st) in
      run_ops J ex (mp_table plan) (jn_completed J (mp_table plan) j) (mp_ops plan) (j, snd st))"

subsection \<open>The apply as a process that may die\<close>

datatype mig_phase =
    Stopped
  | Looping "int list" "migration_op list"
  | Executing "int list" migration_op "migration_op list"
  | Executed "int list" migration_op "migration_op list"

text \<open>One statement at a time; the process may die after any of them, and may be started again.\<close>

inductive mig_step :: "'j journal_ops \<Rightarrow> (string \<Rightarrow> 'd \<Rightarrow> string + 'd) \<Rightarrow> migration_plan
    \<Rightarrow> mig_phase \<times> 'j \<times> 'd \<Rightarrow> mig_phase \<times> 'j \<times> 'd \<Rightarrow> bool"
  for J :: "'j journal_ops" and ex :: "string \<Rightarrow> 'd \<Rightarrow> string + 'd" and plan :: migration_plan where
  mig_begin: "mig_step J ex plan (Stopped, j, d)
     (Looping (jn_completed J (mp_table plan) (jn_begin J plan j)) (mp_ops plan), jn_begin J plan j, d)"
| mig_skip: "mo_ordinal o' \<in> set dn \<Longrightarrow>
     mig_step J ex plan (Looping dn (o' # ops), j, d) (Looping dn ops, j, d)"
| mig_start: "mo_ordinal o' \<notin> set dn \<Longrightarrow>
     mig_step J ex plan (Looping dn (o' # ops), j, d)
       (Executing dn o' ops, jn_started J (mp_table plan) (mo_ordinal o') j, d)"
| mig_exec: "ex (mo_sql o') d = Inr d' \<Longrightarrow>
     mig_step J ex plan (Executing dn o' ops, j, d) (Executed dn o' ops, j, d')"
| mig_fail: "ex (mo_sql o') d = Inl e \<Longrightarrow>
     mig_step J ex plan (Executing dn o' ops, j, d) (Stopped, j, d)"
| mig_complete: "mig_step J ex plan (Executed dn o' ops, j, d)
     (Looping dn ops, jn_complete J (mp_table plan) (mo_ordinal o') j, d)"
| mig_finish: "mig_step J ex plan (Looping dn [], j, d) (Stopped, j, d)"
| mig_crash: "mig_step J ex plan (ph, j, d) (Stopped, j, d)"

inductive_cases mig_stepE: "mig_step J ex plan s s'"

inductive mig_reach :: "'j journal_ops \<Rightarrow> (string \<Rightarrow> 'd \<Rightarrow> string + 'd) \<Rightarrow> migration_plan
    \<Rightarrow> mig_phase \<times> 'j \<times> 'd \<Rightarrow> mig_phase \<times> 'j \<times> 'd \<Rightarrow> bool"
  for J :: "'j journal_ops" and ex :: "string \<Rightarrow> 'd \<Rightarrow> string + 'd" and plan :: migration_plan and s where
  mig_refl: "mig_reach J ex plan s s"
| mig_more: "mig_reach J ex plan s u \<Longrightarrow> mig_step J ex plan u v \<Longrightarrow> mig_reach J ex plan s v"

text \<open>The function is a run of the process: the loop from a phase takes it to a stop.\<close>

lemma mig_reach_trans:
  assumes "mig_reach J ex plan t u" and "mig_reach J ex plan s t"
  shows "mig_reach J ex plan s u"
  using assms by (induction) (auto intro: mig_more)

lemma run_ops_reach:
  "mig_reach J ex plan (Looping dn ops, j, d)
     (Stopped, fst (run_ops J ex (mp_table plan) dn ops (j, d)))"
proof (induction ops arbitrary: j d)
  case Nil
  show ?case using mig_more [OF mig_refl mig_finish] by simp
next
  case (Cons o' ops)
  show ?case
  proof (cases "mo_ordinal o' \<in> set dn")
    case True
    with mig_reach_trans [OF Cons.IH mig_more [OF mig_refl mig_skip]] show ?thesis by simp
  next
    case False
    define j1 where "j1 = jn_started J (mp_table plan) (mo_ordinal o') j"
    have s: "mig_reach J ex plan (Looping dn (o' # ops), j, d) (Executing dn o' ops, j1, d)"
      unfolding j1_def by (rule mig_more [OF mig_refl mig_start [OF False]])
    show ?thesis
    proof (cases "ex (mo_sql o') d")
      case (Inl e)
      from mig_more [OF s mig_fail [of ex o' d e J plan dn ops j1, OF Inl]] Inl False show ?thesis
        by (simp add: j1_def Let_def)
    next
      case (Inr d1)
      from mig_more [OF mig_more [OF s mig_exec [of ex o' d d1 J plan dn ops j1, OF Inr]] mig_complete]
      have "mig_reach J ex plan (Looping dn (o' # ops), j, d)
              (Looping dn ops, jn_complete J (mp_table plan) (mo_ordinal o') j1, d1)" .
      from mig_reach_trans [OF Cons.IH this] Inr False show ?thesis by (simp add: j1_def Let_def)
    qed
  qed
qed

lemma apply_migration_reach:
  "mig_reach J ex plan (Stopped, j, d) (Stopped, fst (apply_migration J ex plan (j, d)))"
  unfolding apply_migration_def Let_def
  by (rule mig_reach_trans [OF _ mig_more [OF mig_refl mig_begin]]) (simp add: run_ops_reach)

subsection \<open>What the apply relies on in a journal\<close>

definition op_ordinals :: "migration_op list \<Rightarrow> int set" where
  "op_ordinals ops = mo_ordinal ` set ops"

lemma op_ordinals_simps [simp]:
  "op_ordinals [] = {}" "op_ordinals (o' # ops) = insert (mo_ordinal o') (op_ordinals ops)"
  "op_ordinals (xs @ ys) = op_ordinals xs \<union> op_ordinals ys"
  by (auto simp: op_ordinals_def)

text \<open>The state after the operations of a list, one after another.\<close>

fun done_ops :: "'j journal_ops \<Rightarrow> (string \<Rightarrow> 'd \<Rightarrow> string + 'd) \<Rightarrow> u64 \<Rightarrow> migration_op list
    \<Rightarrow> 'j \<times> 'd \<Rightarrow> ('j \<times> 'd) option" where
  "done_ops J ex p [] st = Some st"
| "done_ops J ex p (o' # ops) (j, d) =
     (case ex (mo_sql o') d of Inl _ \<Rightarrow> None
      | Inr d1 \<Rightarrow> done_ops J ex p ops (jn_complete J p (mo_ordinal o') (jn_started J p (mo_ordinal o') j), d1))"

text \<open>The states a dead process can leave after those: also with the next operation begun, or executed.\<close>

definition at_point :: "'j journal_ops \<Rightarrow> (string \<Rightarrow> 'd \<Rightarrow> string + 'd) \<Rightarrow> u64 \<Rightarrow> 'j \<times> 'd
    \<Rightarrow> migration_op list \<Rightarrow> 'j \<times> 'd \<Rightarrow> bool" where
  "at_point J ex p st rest s \<longleftrightarrow> s = st \<or>
     (\<exists>o' r. rest = o' # r \<and> fst s = jn_started J p (mo_ordinal o') (fst st)
        \<and> (snd s = snd st \<or> ex (mo_sql o') (snd st) = Inr (snd s)))"

definition idempotent_ops :: "(string \<Rightarrow> 'd \<Rightarrow> string + 'd) \<Rightarrow> migration_op list \<Rightarrow> bool" where
  "idempotent_ops ex ops \<longleftrightarrow>
     (\<forall>o' \<in> set ops. \<forall>d d'. ex (mo_sql o') d = Inr d' \<longrightarrow> ex (mo_sql o') d' = Inr d')"

lemma run_ops_skip:
  "op_ordinals pre \<subseteq> set dn \<Longrightarrow> run_ops J ex p dn (pre @ rest) s = run_ops J ex p dn rest s"
  by (induction pre) (cases s, simp_all)+

lemma run_ops_done:
  "op_ordinals pre \<inter> set dn = {} \<Longrightarrow> done_ops J ex p pre s = Some s' \<Longrightarrow>
     run_ops J ex p dn (pre @ rest) s = run_ops J ex p dn rest s'"
proof (induction pre arbitrary: s)
  case (Cons o' pre)
  obtain j d where s: "s = (j, d)" by (cases s)
  from Cons.prems s obtain d1 where "ex (mo_sql o') d = Inr d1"
    "done_ops J ex p pre (jn_complete J p (mo_ordinal o') (jn_started J p (mo_ordinal o') j), d1) = Some s'"
    by (auto split: sum.splits)
  with Cons.IH [OF _ this(2)] Cons.prems(1) s show ?case by (simp add: Let_def)
qed simp

lemma run_ops_unseen:
  "op_ordinals ops \<inter> set dn = {} \<Longrightarrow> op_ordinals ops \<inter> set dn' = {} \<Longrightarrow>
     run_ops J ex p dn ops s = run_ops J ex p dn' ops s"
  by (induction ops arbitrary: s) (auto simp: Let_def split: sum.split)

lemma done_ops_append:
  "done_ops J ex p (xs @ ys) s = Option.bind (done_ops J ex p xs s) (done_ops J ex p ys)"
  by (induction xs arbitrary: s) (auto split: sum.split)

locale migration_journal =
  fixes J :: "'j journal_ops" and begun :: "u64 \<Rightarrow> int set \<Rightarrow> 'j \<Rightarrow> bool"
  assumes begun_begin: "begun (mp_table plan) (op_ordinals (mp_ops plan)) (jn_begin J plan j)"
    and begin_again: "begun (mp_table plan) (op_ordinals (mp_ops plan)) j \<Longrightarrow> jn_begin J plan j = j"
    and begun_started: "begun p N j \<Longrightarrow> begun p N (jn_started J p n j)"
    and begun_complete: "begun p N j \<Longrightarrow> begun p N (jn_complete J p n j)"
    and completed_begin: "set (jn_completed J p (jn_begin J plan j)) = set (jn_completed J p j)"
    and completed_started: "set (jn_completed J p (jn_started J p n j)) = set (jn_completed J p j)"
    and completed_complete: "begun p N j \<Longrightarrow> n \<in> N \<Longrightarrow>
      set (jn_completed J p (jn_complete J p n j)) = insert n (set (jn_completed J p j))"
    and started_again: "jn_started J p n (jn_started J p n j) = jn_started J p n j"
begin

lemma done_completed:
  assumes "done_ops J ex p ops (j, d) = Some (j', d')" and "begun p N j" and "op_ordinals ops \<subseteq> N"
  shows "begun p N j' \<and> set (jn_completed J p j') = op_ordinals ops \<union> set (jn_completed J p j)"
  using assms
proof (induction ops arbitrary: j d)
  case (Cons o' ops)
  let ?j = "jn_complete J p (mo_ordinal o') (jn_started J p (mo_ordinal o') j)"
  from Cons.prems(1) obtain d1 where d1: "done_ops J ex p ops (?j, d1) = Some (j', d')"
    by (auto split: sum.splits)
  have b: "begun p N (jn_started J p (mo_ordinal o') j)" by (rule begun_started [OF Cons.prems(2)])
  have n: "mo_ordinal o' \<in> N" and ops: "op_ordinals ops \<subseteq> N" using Cons.prems(3) by auto
  from Cons.IH [OF d1 begun_complete [OF b] ops] completed_complete [OF b n] completed_started [of p]
  show ?case by simp
qed simp

lemma point_run:
  assumes "at_point J ex p st rest s" and "idempotent_ops ex rest"
    and "op_ordinals rest \<inter> set dn = {}"
  shows "run_ops J ex p dn rest s = run_ops J ex p dn rest st"
proof (cases "s = st")
  case False
  with assms(1) obtain o' r where r: "rest = o' # r"
    "fst s = jn_started J p (mo_ordinal o') (fst st)"
    "snd s = snd st \<or> ex (mo_sql o') (snd st) = Inr (snd s)"
    by (auto simp: at_point_def)
  from assms(2) r have "ex (mo_sql o') (snd s) = ex (mo_sql o') (snd st)"
    by (auto simp: idempotent_ops_def)
  with r assms(3) show ?thesis
    by (cases s; cases st) (auto simp: Let_def started_again split: sum.split)
qed simp

lemma point_completed: "at_point J ex p st rest s \<Longrightarrow>
    set (jn_completed J p (fst s)) = set (jn_completed J p (fst st))"
  by (auto simp: at_point_def completed_started)

lemma point_begun: "at_point J ex p st rest s \<Longrightarrow> begun p N (fst st) \<Longrightarrow> begun p N (fst s)"
  by (auto simp: at_point_def begun_started)

end

subsection \<open>Every crash resumes\<close>

text \<open>What is left to do of a plan: the operations the journal does not hold complete at the start.\<close>

definition ops_beyond :: "int list \<Rightarrow> migration_op list \<Rightarrow> migration_op list" where
  "ops_beyond dn ops = filter (\<lambda>o'. mo_ordinal o' \<notin> set dn) ops"

lemma ops_beyond_simps [simp]:
  "ops_beyond dn [] = []"
  "ops_beyond dn (o' # ops) = (if mo_ordinal o' \<in> set dn then ops_beyond dn ops else o' # ops_beyond dn ops)"
  by (simp_all add: ops_beyond_def)

lemma ops_beyond_disjoint: "op_ordinals (ops_beyond dn ops) \<inter> set dn = {}"
  by (induction ops) auto

lemma set_ops_beyond: "set (ops_beyond dn ops) \<subseteq> set ops"
  by (auto simp: ops_beyond_def)

lemma run_ops_beyond: "run_ops J ex p dn ops s = run_ops J ex p dn (ops_beyond dn ops) s"
  by (induction ops arbitrary: s) (auto simp: Let_def split: sum.split)

definition ordinals_distinct :: "migration_plan \<Rightarrow> bool" where
  "ordinals_distinct plan \<longleftrightarrow> distinct (map mo_ordinal (mp_ops plan))"

definition plan_todo :: "'j journal_ops \<Rightarrow> migration_plan \<Rightarrow> 'j \<Rightarrow> migration_op list" where
  "plan_todo J plan j = ops_beyond (jn_completed J (mp_table plan) j) (mp_ops plan)"

text \<open>Where the process is: \<open>pre\<close> of what was to do is done, with the state \<open>st\<close>, and \<open>rest\<close> is not.\<close>

definition mig_at :: "'j journal_ops \<Rightarrow> (string \<Rightarrow> 'd \<Rightarrow> string + 'd) \<Rightarrow> migration_plan \<Rightarrow> 'j \<times> 'd
    \<Rightarrow> migration_op list \<Rightarrow> migration_op list \<Rightarrow> 'j \<times> 'd \<Rightarrow> bool" where
  "mig_at J ex plan s0 pre rest st \<longleftrightarrow>
     plan_todo J plan (fst s0) = pre @ rest \<and>
     done_ops J ex (mp_table plan) pre (jn_begin J plan (fst s0), snd s0) = Some st"

fun mig_inv :: "'j journal_ops \<Rightarrow> (string \<Rightarrow> 'd \<Rightarrow> string + 'd) \<Rightarrow> migration_plan \<Rightarrow> 'j \<times> 'd
    \<Rightarrow> mig_phase \<times> 'j \<times> 'd \<Rightarrow> bool" where
  "mig_inv J ex plan s0 (Stopped, s) \<longleftrightarrow> s = s0 \<or>
     (\<exists>pre rest st. mig_at J ex plan s0 pre rest st \<and> at_point J ex (mp_table plan) st rest s)"
| "mig_inv J ex plan s0 (Looping dn rem, s) \<longleftrightarrow>
     (\<exists>pre st. mig_at J ex plan s0 pre (ops_beyond dn rem) st \<and> at_point J ex (mp_table plan) st (ops_beyond dn rem) s)"
| "mig_inv J ex plan s0 (Executing dn o' rem, s) \<longleftrightarrow>
     (\<exists>pre st. mig_at J ex plan s0 pre (o' # ops_beyond dn rem) st
        \<and> fst s = jn_started J (mp_table plan) (mo_ordinal o') (fst st)
        \<and> (snd s = snd st \<or> ex (mo_sql o') (snd st) = Inr (snd s)))"
| "mig_inv J ex plan s0 (Executed dn o' rem, s) \<longleftrightarrow>
     (\<exists>pre st. mig_at J ex plan s0 pre (o' # ops_beyond dn rem) st
        \<and> fst s = jn_started J (mp_table plan) (mo_ordinal o') (fst st)
        \<and> ex (mo_sql o') (snd st) = Inr (snd s))"

lemma todo_split:
  assumes "ordinals_distinct plan" and "plan_todo J plan j = pre @ rest"
    and "set dn = op_ordinals pre \<union> set (jn_completed J (mp_table plan) j)"
  shows "ops_beyond dn (mp_ops plan) = rest"
proof -
  have "distinct (map mo_ordinal (pre @ rest))"
    using assms(1) unfolding assms(2) [symmetric] plan_todo_def ops_beyond_def ordinals_distinct_def
    by (rule distinct_map_filter)
  then have d: "mo_ordinal ` set pre \<inter> mo_ordinal ` set rest = {}" by (auto simp: distinct_append)
  have "ops_beyond dn (mp_ops plan) = filter (\<lambda>o'. mo_ordinal o' \<notin> op_ordinals pre) (plan_todo J plan j)"
    by (auto simp: ops_beyond_def plan_todo_def assms(3) intro: filter_cong)
  also have "\<dots> = rest"
    unfolding assms(2) using d by (auto simp: op_ordinals_def filter_empty_conv filter_id_conv)
  finally show ?thesis .
qed

lemma mig_at_next:
  assumes "mig_at J ex plan s0 pre (o' # rest) st" and "ex (mo_sql o') (snd st) = Inr d1"
  shows "mig_at J ex plan s0 (pre @ [o']) rest
    (jn_complete J (mp_table plan) (mo_ordinal o') (jn_started J (mp_table plan) (mo_ordinal o') (fst st)), d1)"
  using assms by (cases st) (simp add: mig_at_def done_ops_append)

lemma mig_at_mem: "mig_at J ex plan s0 pre rest st \<Longrightarrow> set rest \<subseteq> set (mp_ops plan)"
  using set_ops_beyond by (fastforce simp: mig_at_def plan_todo_def dest: arg_cong [where f = set])

lemma idempotent_again:
  "idempotent_ops ex ops \<Longrightarrow> o' \<in> set ops \<Longrightarrow> ex (mo_sql o') d = Inr d' \<Longrightarrow> ex (mo_sql o') d' = Inr d'"
  by (auto simp: idempotent_ops_def)

lemma mig_inv_stopI:
  "mig_at J ex plan s0 pre rest st \<Longrightarrow> at_point J ex (mp_table plan) st rest s \<Longrightarrow>
     mig_inv J ex plan s0 (Stopped, s)"
  by (cases st) auto

lemma mig_inv_loopI:
  "mig_at J ex plan s0 pre (ops_beyond dn rem) st \<Longrightarrow> at_point J ex (mp_table plan) st (ops_beyond dn rem) s \<Longrightarrow>
     mig_inv J ex plan s0 (Looping dn rem, s)"
  unfolding mig_inv.simps by blast

lemma mig_inv_crash: "mig_inv J ex plan s0 (ph, s) \<Longrightarrow> mig_inv J ex plan s0 (Stopped, s)"
proof (cases ph)
  case (Executing dn o' rem)
  assume "mig_inv J ex plan s0 (ph, s)"
  with Executing obtain pre st where "mig_at J ex plan s0 pre (o' # ops_beyond dn rem) st"
    "at_point J ex (mp_table plan) st (o' # ops_beyond dn rem) s" by (auto simp: at_point_def)
  then show ?thesis by (rule mig_inv_stopI)
next
  case (Executed dn o' rem)
  assume "mig_inv J ex plan s0 (ph, s)"
  with Executed obtain pre st where "mig_at J ex plan s0 pre (o' # ops_beyond dn rem) st"
    "at_point J ex (mp_table plan) st (o' # ops_beyond dn rem) s" by (auto simp: at_point_def)
  then show ?thesis by (rule mig_inv_stopI)
qed (auto simp del: split_paired_Ex)

context migration_journal
begin

lemma mig_at_completed:
  assumes "mig_at J ex plan s0 pre rest st"
  shows "begun (mp_table plan) (op_ordinals (mp_ops plan)) (fst st)"
    and "set (jn_completed J (mp_table plan) (fst st)) = op_ordinals pre \<union> set (jn_completed J (mp_table plan) (fst s0))"
proof -
  let ?p = "mp_table plan" and ?N = "op_ordinals (mp_ops plan)"
  have "done_ops J ex ?p pre (jn_begin J plan (fst s0), snd s0) = Some (fst st, snd st)"
    using assms by (simp add: mig_at_def)
  moreover have "set (pre @ rest) \<subseteq> set (mp_ops plan)"
    using assms set_ops_beyond unfolding mig_at_def plan_todo_def by metis
  then have "op_ordinals pre \<subseteq> ?N" by (auto simp: op_ordinals_def)
  ultimately have "begun ?p ?N (fst st) \<and> set (jn_completed J ?p (fst st)) =
      op_ordinals pre \<union> set (jn_completed J ?p (jn_begin J plan (fst s0)))"
    by (rule done_completed [OF _ begun_begin])
  with completed_begin [of ?p plan "fst s0"]
  show "begun ?p ?N (fst st)" "set (jn_completed J ?p (fst st)) = op_ordinals pre \<union> set (jn_completed J ?p (fst s0))"
    by simp_all
qed

lemma begin_todo:
  assumes "mig_at J ex plan s0 pre rest st" and "at_point J ex (mp_table plan) st rest s" and "ordinals_distinct plan"
  shows "jn_begin J plan (fst s) = fst s"
    and "ops_beyond (jn_completed J (mp_table plan) (fst s)) (mp_ops plan) = rest"
proof -
  note c = mig_at_completed [OF assms(1)]
  show "jn_begin J plan (fst s) = fst s" by (rule begin_again [OF point_begun [OF assms(2) c(1)]])
  show "ops_beyond (jn_completed J (mp_table plan) (fst s)) (mp_ops plan) = rest"
    by (rule todo_split [OF assms(3)]) (use assms(1) c(2) point_completed [OF assms(2)] in \<open>auto simp: mig_at_def\<close>)
qed

lemma mig_inv_step:
  assumes step: "mig_step J ex plan s s'" and inv: "mig_inv J ex plan s0 s"
    and idem: "idempotent_ops ex (mp_ops plan)" and dist: "ordinals_distinct plan"
  shows "mig_inv J ex plan s0 s'"
  using step inv
proof cases
  case (mig_begin j d)
  show ?thesis
  proof (cases "(j, d) = s0")
    case True
    have "ops_beyond (jn_completed J (mp_table plan) (jn_begin J plan j)) (mp_ops plan) = plan_todo J plan j"
      by (simp add: ops_beyond_def plan_todo_def completed_begin)
    with True have "mig_at J ex plan s0 []
        (ops_beyond (jn_completed J (mp_table plan) (jn_begin J plan j)) (mp_ops plan)) (jn_begin J plan j, d)"
      by (auto simp: mig_at_def)
    from mig_inv_loopI [OF this, of "(jn_begin J plan j, d)"] show ?thesis
      using mig_begin(2) by (simp add: at_point_def)
  next
    case False
    with inv mig_begin(1) obtain pre rest st where st: "mig_at J ex plan s0 pre rest st"
      "at_point J ex (mp_table plan) st rest (j, d)" by auto
    note b = begin_todo [OF st dist, unfolded fst_conv]
    from st mig_inv_loopI [of J ex plan s0 pre "jn_completed J (mp_table plan) j" "mp_ops plan" st "(j, d)"] b
    show ?thesis using mig_begin(2) by simp
  qed
next
  case (mig_skip o' dn ops j d)
  with inv show ?thesis by simp
next
  case (mig_start o' dn ops j d)
  with inv obtain pre st where st: "mig_at J ex plan s0 pre (o' # ops_beyond dn ops) st"
    "at_point J ex (mp_table plan) st (o' # ops_beyond dn ops) (j, d)" by auto
  with mig_start(2) show ?thesis by (cases st) (fastforce simp: at_point_def started_again)
next
  case (mig_exec o' d d' dn ops j)
  with inv obtain pre st where st: "mig_at J ex plan s0 pre (o' # ops_beyond dn ops) st"
    "j = jn_started J (mp_table plan) (mo_ordinal o') (fst st)"
    "d = snd st \<or> ex (mo_sql o') (snd st) = Inr d" by auto
  have "o' \<in> set (mp_ops plan)" using mig_at_mem [OF st(1)] by simp
  from st(3) idempotent_again [OF idem this, of "snd st" d] mig_exec(3)
  have "ex (mo_sql o') (snd st) = Inr d'" by auto
  with st mig_exec(2) show ?thesis by (cases st) auto
next
  case (mig_fail o' d e dn ops j)
  with inv show ?thesis by (fastforce simp: at_point_def)
next
  case (mig_complete dn o' ops j d)
  with inv obtain pre st where st: "mig_at J ex plan s0 pre (o' # ops_beyond dn ops) st"
    "j = jn_started J (mp_table plan) (mo_ordinal o') (fst st)" "ex (mo_sql o') (snd st) = Inr d" by auto
  have "mig_inv J ex plan s0 (Looping dn ops,
      jn_complete J (mp_table plan) (mo_ordinal o') (jn_started J (mp_table plan) (mo_ordinal o') (fst st)), d)"
    by (rule mig_inv_loopI [OF mig_at_next [OF st(1,3)]]) (simp add: at_point_def)
  then show ?thesis using st(2) mig_complete(2) by simp
next
  case (mig_finish dn j d)
  with inv show ?thesis by auto
next
  case (mig_crash ph j d)
  with inv mig_inv_crash show ?thesis by blast
qed

lemma mig_inv_reach:
  assumes "mig_reach J ex plan (Stopped, s0) s"
    and "idempotent_ops ex (mp_ops plan)" and "ordinals_distinct plan"
  shows "mig_inv J ex plan s0 s"
  using assms by (induction) (simp, blast intro: mig_inv_step)

lemma apply_todo:
  "apply_migration J ex plan s =
     run_ops J ex (mp_table plan) (jn_completed J (mp_table plan) (fst s)) (plan_todo J plan (fst s)) (jn_begin J plan (fst s), snd s)"
proof -
  let ?dn = "jn_completed J (mp_table plan) (jn_begin J plan (fst s))"
  have "ops_beyond ?dn (mp_ops plan) = plan_todo J plan (fst s)"
    by (simp add: ops_beyond_def plan_todo_def completed_begin)
  moreover have "run_ops J ex (mp_table plan) ?dn (plan_todo J plan (fst s)) st =
      run_ops J ex (mp_table plan) (jn_completed J (mp_table plan) (fst s)) (plan_todo J plan (fst s)) st" for st
    by (rule run_ops_unseen) (simp_all add: completed_begin plan_todo_def ops_beyond_disjoint)
  ultimately show ?thesis by (simp add: apply_migration_def run_ops_beyond [of J ex _ ?dn "mp_ops plan"])
qed

text \<open>From whatever a process left, the next apply ends as the first one would have.\<close>

lemma resume_converges:
  assumes reach: "mig_reach J ex plan (Stopped, s0) (ph, s)"
    and idem: "idempotent_ops ex (mp_ops plan)" and dist: "ordinals_distinct plan"
  shows "apply_migration J ex plan s = apply_migration J ex plan s0"
proof -
  let ?p = "mp_table plan"
  have "mig_reach J ex plan (Stopped, s0) (Stopped, s)"
    by (rule mig_more [OF reach]) (cases s, simp add: mig_crash)
  from mig_inv_reach [OF this idem dist] consider "s = s0"
    | pre rest st where "mig_at J ex plan s0 pre rest st" "at_point J ex ?p st rest s" by auto
  then show ?thesis
  proof cases
    case (2 pre rest st)
    note b = begin_todo [OF 2 dist]
    let ?dn = "jn_completed J ?p (fst s)" and ?d0 = "jn_completed J ?p (fst s0)"
    have rest: "plan_todo J plan (fst s) = rest" using b(2) by (simp add: plan_todo_def)
    have free: "op_ordinals rest \<inter> set ?dn = {}" unfolding b(2) [symmetric] by (rule ops_beyond_disjoint)
    have d0: "set ?d0 \<subseteq> set ?dn" using point_completed [OF 2(2)] mig_at_completed(2) [OF 2(1)] by simp
    have idem': "idempotent_ops ex rest" using idem mig_at_mem [OF 2(1)] by (auto simp: idempotent_ops_def)
    have "apply_migration J ex plan s = run_ops J ex ?p ?dn rest s"
      by (simp add: apply_todo b(1) rest)
    also have "\<dots> = run_ops J ex ?p ?dn rest st" by (rule point_run [OF 2(2) idem' free])
    also have "\<dots> = run_ops J ex ?p ?d0 rest st" by (rule run_ops_unseen) (use free d0 in auto)
    also have "\<dots> = run_ops J ex ?p ?d0 (pre @ rest) (jn_begin J plan (fst s0), snd s0)"
    proof (rule run_ops_done [symmetric])
      show "op_ordinals pre \<inter> set ?d0 = {}"
        using ops_beyond_disjoint [of ?d0 "mp_ops plan"] 2(1) by (auto simp: mig_at_def plan_todo_def)
      show "done_ops J ex ?p pre (jn_begin J plan (fst s0), snd s0) = Some st" using 2(1) by (simp add: mig_at_def)
    qed
    also have "\<dots> = apply_migration J ex plan s0" using 2(1) by (simp add: apply_todo mig_at_def)
    finally show ?thesis .
  qed simp
qed

end

subsection \<open>The store's journal is such a journal\<close>

definition journal_keys :: "u64 \<Rightarrow> journal_row list \<Rightarrow> int set" where
  "journal_keys p j = set (map jr_ordinal (filter (\<lambda>r. jr_plan r = p) j))"

definition journal_has :: "u64 \<Rightarrow> int set \<Rightarrow> journal_row list \<Rightarrow> bool" where
  "journal_has p ns j \<longleftrightarrow> ns \<subseteq> journal_keys p j"

lemma journal_present: "list_ex (\<lambda>r. jr_plan r = p \<and> jr_ordinal r = n) j \<longleftrightarrow> n \<in> journal_keys p j"
  by (auto simp: journal_keys_def list_ex_iff)

lemma keys_snoc [simp]:
  "journal_keys p (j @ [r]) = (if jr_plan r = p then insert (jr_ordinal r) (journal_keys p j) else journal_keys p j)"
  by (simp add: journal_keys_def)

lemma keys_insert [simp]:
  "journal_keys p (journal_insert q o' j) =
     (if p = q then insert (mo_ordinal o') (journal_keys p j) else journal_keys p j)"
  by (auto simp: journal_insert_def journal_present)

lemma keys_begin [simp]:
  "journal_keys p (foldl (\<lambda>j o'. journal_insert p o' j) j ops) = journal_keys p j \<union> op_ordinals ops"
  by (induction ops arbitrary: j) auto

lemma journal_insert_present: "mo_ordinal o' \<in> journal_keys p j \<Longrightarrow> journal_insert p o' j = j"
  unfolding journal_insert_def journal_present by simp

lemma journal_begin_present:
  "op_ordinals ops \<subseteq> journal_keys p j \<Longrightarrow> foldl (\<lambda>j o'. journal_insert p o' j) j ops = j"
  by (induction ops) (auto simp: journal_insert_present)

lemma completed_insert [simp]: "journal_completed p (journal_insert q o' j) = journal_completed p j"
  by (simp add: journal_completed_def journal_insert_def)

lemma completed_begin_fold [simp]:
  "journal_completed p (foldl (\<lambda>j o'. journal_insert q o' j) j ops) = journal_completed p j"
  by (induction ops arbitrary: j) simp_all

lemma keys_mark [simp]:
  "journal_keys p (mark_started q n j) = journal_keys p j"
  "journal_keys p (mark_complete q n j) = journal_keys p j"
  by (induction j) (auto simp: journal_keys_def mark_started_def mark_complete_def)

lemma completed_mark_started [simp]: "journal_completed p (mark_started q n j) = journal_completed p j"
  by (induction j) (auto simp: journal_completed_def mark_started_def)

lemma completed_mark_complete:
  "set (journal_completed p (mark_complete p n j)) =
     (if n \<in> journal_keys p j then insert n (set (journal_completed p j)) else set (journal_completed p j))"
  by (induction j) (auto simp: journal_completed_def mark_complete_def journal_keys_def)

lemma mark_started_again: "mark_started p n (mark_started p n j) = mark_started p n j"
  by (simp add: mark_started_def)

interpretation sj: migration_journal store_journal journal_has
  by unfold_locales
    (auto simp: store_journal_def journal_begin_def journal_has_def journal_begin_present
      completed_mark_complete mark_started_again)

text \<open>Running the statements one after another, with no journal at all.\<close>

fun run_sql :: "(string \<Rightarrow> 'd \<Rightarrow> string + 'd) \<Rightarrow> migration_op list \<Rightarrow> 'd \<Rightarrow> string + 'd" where
  "run_sql ex [] d = Inr d"
| "run_sql ex (o' # ops) d = and_then (ex (mo_sql o') d) (run_sql ex ops)"

lemma run_ops_sql:
  assumes "run_sql ex ops d = Inr d'" and "op_ordinals ops \<inter> set dn = {}" and "op_ordinals ops \<subseteq> journal_keys p j"
  shows "\<exists>j'. run_ops store_journal ex p dn ops (j, d) = ((j', d'), None)
    \<and> set (journal_completed p j') = op_ordinals ops \<union> set (journal_completed p j)"
  using assms
proof (induction ops arbitrary: j d)
  case (Cons o' ops)
  let ?j = "mark_complete p (mo_ordinal o') (mark_started p (mo_ordinal o') j)"
  from Cons.prems(1) obtain d1 where d1: "ex (mo_sql o') d = Inr d1" "run_sql ex ops d1 = Inr d'"
    by (auto simp: result_simps)
  from Cons.IH [OF d1(2), of ?j] Cons.prems(2,3) obtain j' where
    "run_ops store_journal ex p dn ops (?j, d1) = ((j', d'), None)"
    "set (journal_completed p j') = op_ordinals ops \<union> set (journal_completed p ?j)" by auto
  with d1(1) Cons.prems(2,3) show ?case
    by (simp add: store_journal_def Let_def completed_mark_complete)
qed (simp add: store_journal_def)

lemma apply_succeeds:
  assumes "run_sql ex (plan_todo store_journal plan j) d = Inr d'"
  shows "\<exists>j'. apply_migration store_journal ex plan (j, d) = ((j', d'), None)
    \<and> op_ordinals (mp_ops plan) \<subseteq> set (journal_completed (mp_table plan) j')"
proof -
  let ?p = "mp_table plan" and ?todo = "plan_todo store_journal plan j"
  have c: "jn_completed store_journal p = journal_completed p" for p by (simp add: store_journal_def)
  have beyond: "?todo = ops_beyond (journal_completed ?p j) (mp_ops plan)" by (simp add: plan_todo_def c)
  have b: "jn_begin store_journal plan j = journal_begin plan j" by (simp add: store_journal_def)
  have "op_ordinals ?todo \<subseteq> journal_keys ?p (journal_begin plan j)"
    unfolding journal_begin_def beyond by (auto simp: op_ordinals_def ops_beyond_def)
  moreover have "op_ordinals ?todo \<inter> set (journal_completed ?p j) = {}" unfolding beyond by (rule ops_beyond_disjoint)
  ultimately obtain j' where j': "run_ops store_journal ex ?p (journal_completed ?p j) ?todo (journal_begin plan j, d) = ((j', d'), None)"
    "set (journal_completed ?p j') = op_ordinals ?todo \<union> set (journal_completed ?p (journal_begin plan j))"
    using run_ops_sql [OF assms] by blast
  have "op_ordinals (mp_ops plan) \<subseteq> op_ordinals ?todo \<union> set (journal_completed ?p j)"
    unfolding beyond by (auto simp: op_ordinals_def ops_beyond_def)
  then have "op_ordinals (mp_ops plan) \<subseteq> set (journal_completed ?p j')"
    unfolding j'(2) by (simp add: journal_begin_def)
  then show ?thesis using j'(1) by (intro exI [of _ j']) (simp add: sj.apply_todo c b)
qed

end
