(* ===== verification/DdlProps.thy ===== *)
theory DdlProps
  imports DdlDefs StoreMigrate SchemaProps
begin

text \<open>
  Interrupted migrations with the statements the adapters generate. What a database does with such a
  statement is stated as it is documented; that re-running it is harmless, or is not, follows. A plan
  resumes after any crash, unless PostgreSQL has to rename a column: then it can get stuck for good.
\<close>

subsection \<open>What the databases document\<close>

definition reruns :: "(string \<Rightarrow> 'd \<Rightarrow> string + 'd) \<Rightarrow> string \<Rightarrow> bool" where
  "reruns ex sql \<longleftrightarrow> (\<forall>d d'. ex sql d = Inr d' \<longrightarrow> ex sql d' = Inr d')"

text \<open>
  PostgreSQL, for the statements of one change. \<open>has d t c\<close> says that the table \<open>t\<close> of the database \<open>d\<close> has a
  column \<open>c\<close>. Adding a column that exists and dropping one that does not are skipped; a comment, a type and
  a NOT NULL are set, so setting them again changes nothing; a query changes nothing; and a column that does
  not exist cannot be renamed.
\<close>

definition pg_documented :: "(string \<Rightarrow> 'd \<Rightarrow> string + 'd) \<Rightarrow> ('d \<Rightarrow> string \<Rightarrow> string \<Rightarrow> bool) \<Rightarrow> string
    \<Rightarrow> schema_change \<Rightarrow> bool" where
  "pg_documented ex has table ch =
     (let new = ac_name (sch_to ch); old = ac_name (sch_from ch); ty = ac_type (sch_to ch) in
      case sch_kind ch of
        AddColumn \<Rightarrow>
          (\<forall>d. has d table new \<longrightarrow> ex (ddl_add_column pg_ddl table new ty) d = Inr d) \<and>
          (\<forall>d d'. ex (ddl_add_column pg_ddl table new ty) d = Inr d' \<longrightarrow> has d' table new)
      | DropColumn \<Rightarrow>
          reruns ex (ddl_deprecate_column pg_ddl table old) \<and>
          (\<forall>d. \<not> has d table old \<longrightarrow> ex (ddl_drop_column pg_ddl table old) d = Inr d) \<and>
          (\<forall>d d'. ex (ddl_drop_column pg_ddl table old) d = Inr d' \<longrightarrow> \<not> has d' table old)
      | AlterColumnType \<Rightarrow> reruns ex (ddl_alter_type pg_ddl table new ty)
      | SetNotNull \<Rightarrow>
          (\<forall>d d'. ex (ddl_preflight_not_null pg_ddl table new) d = Inr d' \<longrightarrow> d' = d) \<and>
          reruns ex (ddl_set_not_null pg_ddl table new ty)
      | DropNotNull \<Rightarrow> reruns ex (ddl_drop_not_null pg_ddl table new ty)
      | RenameColumn \<Rightarrow>
          (\<forall>d. \<not> has d table old \<longrightarrow> (\<exists>e. ex (ddl_rename_column pg_ddl table old new) d = Inl e)) \<and>
          (\<forall>d d'. ex (ddl_rename_column pg_ddl table old new) d = Inr d' \<longrightarrow> \<not> has d' table old))"

text \<open>
  MySQL: a guarded statement runs what it guards if the condition holds of the catalogue, and else does
  nothing. A rename to a name that differs in case only leaves a column both names find.
\<close>

definition my_documented :: "(string \<Rightarrow> 'd \<Rightarrow> string + 'd) \<Rightarrow> ('d \<Rightarrow> string \<Rightarrow> string \<Rightarrow> bool) \<Rightarrow> string
    \<Rightarrow> schema_change \<Rightarrow> bool" where
  "my_documented ex has table ch =
     (let new = ac_name (sch_to ch); old = ac_name (sch_from ch); ty = ac_type (sch_to ch) in
      case sch_kind ch of
        AddColumn \<Rightarrow>
          (\<forall>d. ex (guarded (column_missing table new) (my_add table new ty)) d =
             (if has d table new then Inr d else ex (my_add table new ty) d)) \<and>
          (\<forall>d d'. ex (my_add table new ty) d = Inr d' \<longrightarrow> has d' table new)
      | DropColumn \<Rightarrow>
          reruns ex (ddl_deprecate_column my_ddl table old) \<and>
          (\<forall>d. ex (guarded (column_present table old) (my_drop table old)) d =
             (if has d table old then ex (my_drop table old) d else Inr d)) \<and>
          (\<forall>d d'. ex (my_drop table old) d = Inr d' \<longrightarrow> \<not> has d' table old)
      | AlterColumnType \<Rightarrow> reruns ex (ddl_alter_type my_ddl table new ty)
      | SetNotNull \<Rightarrow>
          (\<forall>d d'. ex (ddl_preflight_not_null my_ddl table new) d = Inr d' \<longrightarrow> d' = d) \<and>
          reruns ex (ddl_set_not_null my_ddl table new ty)
      | DropNotNull \<Rightarrow> reruns ex (ddl_drop_not_null my_ddl table new ty)
      | RenameColumn \<Rightarrow>
          (\<forall>d. ex (guarded (column_present table old) (my_rename table old new)) d =
             (if has d table old then ex (my_rename table old new) d else Inr d)) \<and>
          (\<forall>d d'. ex (my_rename table old new) d = Inr d' \<longrightarrow>
             (if to_lower old = to_lower new then ex (my_rename table old new) d' = Inr d' else \<not> has d' table old)))"

definition ddl_documented :: "dialect \<Rightarrow> (string \<Rightarrow> 'd \<Rightarrow> string + 'd) \<Rightarrow> ('d \<Rightarrow> string \<Rightarrow> string \<Rightarrow> bool) \<Rightarrow> string
    \<Rightarrow> schema_change list \<Rightarrow> bool" where
  "ddl_documented q ex has table chs \<longleftrightarrow>
     (\<forall>ch \<in> set chs. case q of PostgreSQL \<Rightarrow> pg_documented ex has table ch | MySQL \<Rightarrow> my_documented ex has table ch)"

subsection \<open>Which statements can be run again\<close>

lemma reruns_skip:
  "(\<And>d. P d \<Longrightarrow> ex s d = Inr d) \<Longrightarrow> (\<And>d d'. ex s d = Inr d' \<Longrightarrow> P d') \<Longrightarrow> reruns ex s"
  by (simp add: reruns_def)

lemma reruns_query: "(\<And>d d'. ex s d = Inr d' \<Longrightarrow> d' = d) \<Longrightarrow> reruns ex s"
  by (simp add: reruns_def) metis

lemma reruns_guarded:
  assumes "\<And>d. ex s d = (if P d then ex u d else Inr d)"
    and "\<And>d d'. ex u d = Inr d' \<Longrightarrow> P d' \<Longrightarrow> ex u d' = Inr d'"
  shows "reruns ex s"
  unfolding reruns_def assms(1) using assms(2) by auto

lemma pg_reruns:
  assumes doc: "pg_documented ex has table ch" and "sch_kind ch \<noteq> RenameColumn"
    and st: "st \<in> set (plan_steps pg_ddl table ch)"
  shows "reruns ex (fst (snd st))"
proof (cases "sch_kind ch")
  case AddColumn
  let ?new = "ac_name (sch_to ch)"
  have "reruns ex (ddl_add_column pg_ddl table ?new (ac_type (sch_to ch)))"
    by (rule reruns_skip [where P = "\<lambda>d. has d table ?new"])
      (use doc AddColumn in \<open>simp_all add: pg_documented_def Let_def\<close>)
  with st AddColumn show ?thesis by (simp add: plan_steps_def Let_def)
next
  case DropColumn
  let ?old = "ac_name (sch_from ch)"
  have "reruns ex (ddl_drop_column pg_ddl table ?old)"
    by (rule reruns_skip [where P = "\<lambda>d. \<not> has d table ?old"])
      (use doc DropColumn in \<open>simp_all add: pg_documented_def Let_def\<close>)
  with st DropColumn doc show ?thesis by (auto simp: plan_steps_def pg_documented_def Let_def)
next
  case SetNotNull
  have "reruns ex (ddl_preflight_not_null pg_ddl table (ac_name (sch_to ch)))"
    by (rule reruns_query) (use doc SetNotNull in \<open>simp add: pg_documented_def Let_def\<close>)
  with st SetNotNull doc show ?thesis by (auto simp: plan_steps_def pg_documented_def Let_def)
qed (use assms in \<open>auto simp: plan_steps_def pg_documented_def Let_def\<close>)

lemma my_reruns:
  assumes doc: "my_documented ex has table ch" and st: "st \<in> set (plan_steps my_ddl table ch)"
  shows "reruns ex (fst (snd st))"
proof (cases "sch_kind ch")
  case AddColumn
  let ?new = "ac_name (sch_to ch)" and ?ty = "ac_type (sch_to ch)"
  have "reruns ex (guarded (column_missing table ?new) (my_add table ?new ?ty))"
    by (rule reruns_guarded [where P = "\<lambda>d. \<not> has d table ?new" and u = "my_add table ?new ?ty"])
      (use doc AddColumn in \<open>auto simp: my_documented_def Let_def\<close>)
  with st AddColumn show ?thesis by (simp add: plan_steps_def my_ddl_def Let_def)
next
  case DropColumn
  let ?old = "ac_name (sch_from ch)"
  have "reruns ex (guarded (column_present table ?old) (my_drop table ?old))"
    by (rule reruns_guarded [where P = "\<lambda>d. has d table ?old" and u = "my_drop table ?old"])
      (use doc DropColumn in \<open>auto simp: my_documented_def Let_def\<close>)
  with st DropColumn doc show ?thesis by (auto simp: plan_steps_def my_documented_def my_ddl_def Let_def)
next
  case RenameColumn
  let ?old = "ac_name (sch_from ch)" and ?new = "ac_name (sch_to ch)"
  have "reruns ex (guarded (column_present table ?old) (my_rename table ?old ?new))"
    by (rule reruns_guarded [where P = "\<lambda>d. has d table ?old" and u = "my_rename table ?old ?new"])
      (use doc RenameColumn in \<open>auto simp: my_documented_def Let_def split: if_splits\<close>)
  with st RenameColumn show ?thesis by (simp add: plan_steps_def my_ddl_def Let_def)
next
  case SetNotNull
  have "reruns ex (ddl_preflight_not_null my_ddl table (ac_name (sch_to ch)))"
    by (rule reruns_query) (use doc SetNotNull in \<open>simp add: my_documented_def Let_def\<close>)
  with st SetNotNull doc show ?thesis by (auto simp: plan_steps_def my_documented_def Let_def)
qed (use assms in \<open>auto simp: plan_steps_def my_documented_def Let_def\<close>)

definition pg_renames :: "dialect \<Rightarrow> schema_change list \<Rightarrow> bool" where
  "pg_renames q chs \<longleftrightarrow> q = PostgreSQL \<and> (\<exists>ch \<in> set chs. sch_kind ch = RenameColumn)"

lemma plan_reruns:
  assumes "ddl_documented q ex has table chs" and "\<not> pg_renames q chs"
  shows "idempotent_ops ex (mp_ops (migration_plan_of (ddl_of q) i table chs))"
proof -
  let ?ops = "mp_ops (migration_plan_of (ddl_of q) i table chs)"
  have steps: "map op_step ?ops = concat (map (plan_steps (ddl_of q) table) chs)"
    by (simp add: migration_plan_of_def plan_fold_facts)
  have "reruns ex (mo_sql o')" if "o' \<in> set ?ops" for o'
  proof -
    have "op_step o' \<in> set (concat (map (plan_steps (ddl_of q) table) chs))"
      unfolding steps [symmetric] using that by simp
    then obtain ch where "ch \<in> set chs" "op_step o' \<in> set (plan_steps (ddl_of q) table ch)" by auto
    with assms pg_reruns [of ex has table ch "op_step o'"] my_reruns [of ex has table ch "op_step o'"]
    show ?thesis by (cases q) (auto simp: ddl_documented_def ddl_of_def pg_renames_def op_step_def)
  qed
  then show ?thesis by (simp add: idempotent_ops_def reruns_def)
qed

lemma plan_ordinals: "ordinals_distinct (migration_plan_of d i table chs)"
proof -
  have "plan_numbered ([], 0)" by (simp add: plan_numbered_def)
  from plan_fold_facts(2) [OF this, of d table chs]
  have "map mo_ordinal (mp_ops (migration_plan_of d i table chs)) =
      map int [0..<length (mp_ops (migration_plan_of d i table chs))]"
    by (simp add: migration_plan_of_def plan_numbered_def)
  then show ?thesis unfolding ordinals_distinct_def by (simp add: distinct_map)
qed

subsection \<open>Interrupted applies\<close>

text \<open>
  C16: The plan that \<^verbatim>\<open>Plan\<close> makes of the changes \<open>chs\<close> is applied, by a process that may die after any
  statement, and is applied again, any number of times; the database executes the statements of the adapter's
  generator as it documents them. Unless the plan renames a column on PostgreSQL, the next apply ends,
  whatever was left, in the state and with the outcome that one undisturbed apply from the original state
  has. The operations to run are those the journal does not hold complete under the table's id, be it from an
  earlier plan of the table; if their statements succeed in a row, the next apply leaves the database they lead
  to and the journal with every operation of the plan complete.
\<close>

theorem migration_resumes:
  assumes plan: "plan = migration_plan_of (ddl_of q) i table chs"
    and doc: "ddl_documented q ex has table chs" and names: "\<not> pg_renames q chs"
    and reach: "mig_reach store_journal ex plan (Stopped, j0, d0) (ph, j, d)"
  shows "apply_migration store_journal ex plan (j, d) = apply_migration store_journal ex plan (j0, d0) \<and>
    (\<forall>d'. run_sql ex (plan_todo store_journal plan j0) d0 = Inr d' \<longrightarrow>
      (\<exists>j'. apply_migration store_journal ex plan (j, d) = ((j', d'), None)
        \<and> op_ordinals (mp_ops plan) \<subseteq> set (journal_completed (mp_table plan) j')))"
proof -
  have same: "apply_migration store_journal ex plan (j, d) = apply_migration store_journal ex plan (j0, d0)"
    by (rule sj.resume_converges [OF reach]) (simp_all add: plan plan_reruns [OF doc names] plan_ordinals)
  with apply_succeeds [of ex plan j0 d0] show ?thesis by simp
qed

subsection \<open>A rename that was executed but not recorded\<close>

lemma rename_never_resumes:
  assumes "plan = migration_plan_of (ddl_of PostgreSQL) i table [ch]" and "sch_kind ch = RenameColumn"
    and doc: "pg_documented ex has table ch"
    and fresh: "journal_completed i j = []"
    and ran: "ex (ddl_rename_column pg_ddl table (ac_name (sch_from ch)) (ac_name (sch_to ch))) d = Inr d'"
  shows "mig_reach store_journal ex plan (Stopped, j, d) (Stopped, mark_started i 0 (journal_begin plan j), d')"
    and "\<exists>j' e. apply_migration store_journal ex plan (mark_started i 0 (journal_begin plan j), d')
      = ((j', d'), Some (OpFailed 0 (change_kind_name RenameColumn) e))"
proof -
  let ?sql = "ddl_rename_column pg_ddl table (ac_name (sch_from ch)) (ac_name (sch_to ch))"
  let ?j = "journal_begin plan j" and ?r = "mig_reach store_journal ex plan (Stopped, j, d)"
  obtain o' where ops: "mp_table plan = i" "mp_ops plan = [o']" "mo_ordinal o' = 0" "mo_sql o' = ?sql"
      "mo_kind o' = change_kind_name RenameColumn"
    using assms(1,2) by (simp add: migration_plan_of_def plan_change_def plan_add_def ddl_of_def Let_def)
  have none: "journal_completed i ?j = []" using fresh by (simp add: journal_begin_def)
  from mig_more [OF mig_refl mig_begin, of store_journal ex plan j d]
  have "?r (Looping [] [o'], ?j, d)" by (simp add: store_journal_def ops none)
  from mig_more [OF mig_more [OF this mig_start] mig_exec] ran
  have "?r (Executed [] o' [], mark_started i 0 ?j, d')" by (simp add: store_journal_def ops)
  from mig_more [OF this mig_crash] show "?r (Stopped, mark_started i 0 ?j, d')" .
  from doc ran assms(2) have "\<exists>e. ex ?sql d' = Inl e" by (auto simp: pg_documented_def Let_def)
  moreover have "journal_completed i (journal_begin plan (mark_started i 0 ?j)) = []"
    using none by (simp add: journal_begin_def)
  ultimately show "\<exists>j' e. apply_migration store_journal ex plan (mark_started i 0 ?j, d')
      = ((j', d'), Some (OpFailed 0 (change_kind_name RenameColumn) e))"
    by (auto simp: apply_migration_def store_journal_def Let_def ops del: change_kind_name.simps)
qed

subsection \<open>A crash in the middle of a plan\<close>

text \<open>A PostgreSQL table to get the columns \<open>a\<close> and \<open>b\<close>; the database is the list of its columns.\<close>

definition demo_column :: "string \<Rightarrow> acolumn" where
  "demo_column name = zero_column\<lparr>ac_name := name, ac_type := ''text''\<rparr>"

definition demo_add :: "string \<Rightarrow> schema_change" where
  "demo_add name = \<lparr>sch_kind = AddColumn, sch_col = 0, sch_name = name, sch_from = zero_column,
     sch_to = demo_column name, sch_class = Additive, sch_reason = []\<rparr>"

definition demo_sql :: "string \<Rightarrow> string" where
  "demo_sql name = ddl_add_column pg_ddl ''t'' name ''text''"

definition demo_database :: "string \<Rightarrow> string list \<Rightarrow> string + string list" where
  "demo_database sql cols =
     (case find (\<lambda>c. demo_sql c = sql) [''a'', ''b''] of
        None \<Rightarrow> Inl ''syntax error''
      | Some c \<Rightarrow> Inr (if c \<in> set cols then cols else cols @ [c]))"

definition demo_plan :: migration_plan where
  "demo_plan = migration_plan_of (ddl_of PostgreSQL) 7 ''t'' [demo_add ''a'', demo_add ''b'']"

lemma demo_database_adds [simp]:
  "demo_database (demo_sql ''a'') cols = Inr (if ''a'' \<in> set cols then cols else cols @ [''a''])"
  "demo_database (demo_sql ''b'') cols = Inr (if ''b'' \<in> set cols then cols else cols @ [''b''])"
  by (simp_all add: demo_database_def demo_sql_def pg_ddl_def alter_table_def quote_ident_def)

lemma demo_plan_ops:
  "mp_table demo_plan = 7"
  "\<exists>o1 o2. mp_ops demo_plan = [o1, o2] \<and> mo_ordinal o1 = 0 \<and> mo_ordinal o2 = 1
     \<and> mo_sql o1 = demo_sql ''a'' \<and> mo_sql o2 = demo_sql ''b''"
  by (simp_all add: demo_plan_def migration_plan_of_def plan_change_def plan_add_def Let_def demo_add_def
      demo_column_def demo_sql_def ddl_of_def)

lemma demo_documented:
  "ddl_documented PostgreSQL demo_database (\<lambda>d t c. c \<in> set d) ''t'' [demo_add ''a'', demo_add ''b'']"
  by (auto simp: ddl_documented_def pg_documented_def demo_add_def demo_column_def demo_sql_def [symmetric] split: if_splits)

text \<open>The process dies between the first statement and its mark.\<close>

lemma demo_crash:
  "mig_reach store_journal demo_database demo_plan (Stopped, [], [''id''])
     (Stopped, mark_started 7 0 (journal_begin demo_plan []), [''id'', ''a''])"
proof -
  let ?j = "journal_begin demo_plan []"
  let ?r = "mig_reach store_journal demo_database demo_plan (Stopped, [], [''id''])"
  obtain o1 o2 where o: "mp_ops demo_plan = [o1, o2]" "mo_ordinal o1 = 0" "mo_sql o1 = demo_sql ''a''"
    using demo_plan_ops(2) by blast
  have none: "journal_completed 7 ?j = []" by (simp add: journal_begin_def) (simp add: journal_completed_def)
  from mig_more [OF mig_refl mig_begin, of store_journal demo_database demo_plan "[]" "[''id'']"]
  have "?r (Looping [] [o1, o2], ?j, [''id''])" by (simp add: store_journal_def o demo_plan_ops(1) none)
  from mig_more [OF mig_more [OF this mig_start] mig_exec]
  have "?r (Executed [] o1 [o2], mark_started 7 0 ?j, [''id'', ''a''])"
    by (simp add: store_journal_def o demo_plan_ops(1))
  from mig_more [OF this mig_crash] show ?thesis .
qed

theorem migration_resumes_witness:
  "\<exists>j'. apply_migration store_journal demo_database demo_plan
      (mark_started 7 0 (journal_begin demo_plan []), [''id'', ''a'']) = ((j', [''id'', ''a'', ''b'']), None)"
proof -
  obtain o1 o2 where o: "mp_ops demo_plan = [o1, o2]" "mo_ordinal o1 = 0" "mo_ordinal o2 = 1"
      "mo_sql o1 = demo_sql ''a''" "mo_sql o2 = demo_sql ''b''"
    using demo_plan_ops(2) by blast
  have "run_sql demo_database (plan_todo store_journal demo_plan []) [''id''] = Inr [''id'', ''a'', ''b'']"
    by (simp add: plan_todo_def store_journal_def journal_completed_def o)
  moreover have "\<not> pg_renames PostgreSQL [demo_add ''a'', demo_add ''b'']" by (simp add: pg_renames_def demo_add_def)
  ultimately show ?thesis
    using migration_resumes [OF demo_plan_def demo_documented _ demo_crash] by blast
qed

end
