(* ===== verification/HubDefs.thy ===== *)
theory HubDefs
  imports StoreMigrate StoreMerge
begin

text \<open>
  Schema versions and migration plans, after \<^verbatim>\<open>internal/store/schema.go\<close>, with \<^verbatim>\<open>EvolveSidecar\<close> of
  \<^verbatim>\<open>internal/adapter/postgres/postgres.go\<close>; and the state of everything the store keeps beside commits:
  schema versions, plans, the journal, the column catalogue, proposals, reviews and conflicts, as the rows
  of their control tables. Stored JSON is the value it encodes. What the live database does with a
  statement, what it reports of a table's columns and which type changes it accepts are parameters.
\<close>

subsection \<open>State\<close>

record schema_row =
  sr_table :: i64
  sr_branch :: string
  sr_epoch :: i64
  sr_columns :: "acolumn list"
  sr_dropped :: "(colid, i64) fmap"
  sr_digest :: digest
  sr_width :: int
  sr_by :: string

datatype plan_state = PlanPending | PlanApplying | PlanApplied | PlanFailed | PlanAbandoned

record plan_row =
  pl_id :: int
  pl_table :: i64
  pl_proposal :: int
  pl_ops :: "migration_op list"
  pl_target :: i64
  pl_state :: plan_state
  pl_by :: string
  pl_applied :: "(string \<times> i64) option"

record column_row =
  cr_table :: i64
  cr_id :: colid
  cr_name :: string
  cr_type :: string
  cr_kind :: kind
  cr_nullable :: bool
  cr_ordinal :: nat
  cr_dropped :: "i64 option"

datatype proposal_state = PropOpen | PropConflicted | PropApproved | PropMerged | PropClosed

record proposal_row =
  pp_id :: int
  pp_from :: string
  pp_into :: string
  pp_title :: string
  pp_description :: string
  pp_state :: proposal_state
  pp_merge :: "digest option"
  pp_by :: string
  pp_at :: i64

record review_row =
  rv_id :: int
  rv_proposal :: int
  rv_principal :: string
  rv_kind :: string
  rv_body :: string
  rv_at :: i64

record conflict_row =
  cn_id :: int
  cn_proposal :: int
  cn_table :: i64
  cn_pk :: pk
  cn_col :: "colid option"
  cn_kind :: string
  cn_base :: string
  cn_ours :: string
  cn_theirs :: string
  cn_resolution :: "(string \<times> string \<times> string) option"

datatype serial = PlanSerial | ProposalSerial | ReviewSerial | ConflictSerial

text \<open>The type of every sidecar column, per table; the live database is abstract; the next id of each table.\<close>

record 'd hub =
  hb_db :: dbase
  hb_schemas :: "schema_row list"
  hb_plans :: "plan_row list"
  hb_journal :: "journal_row list"
  hb_columns :: "column_row list"
  hb_sidecols :: "i64 \<Rightarrow> (colid, string) fmap"
  hb_live :: 'd
  hb_proposals :: "proposal_row list"
  hb_reviews :: "review_row list"
  hb_conflicts :: "conflict_row list"
  hb_serial :: "serial \<Rightarrow> int"

record 'd hubenv =
  he_store :: dbenv
  he_ddl :: ddl_gen
  he_text :: text_lib
  he_exec :: "string \<Rightarrow> 'd \<Rightarrow> string + 'd"
  he_introspect :: "'d \<Rightarrow> string \<Rightarrow> acolumn list option"
  he_cast :: "string \<Rightarrow> string \<Rightarrow> bool"

datatype hub_error =
    StoreError st_error | AlterDefault | SidecarRejected colid | NoSuchPlan int | PlanAlreadyApplied int
  | PlanWasAbandoned int | NeedsConfirmation int "string list" | MigrationFailed int migration_error
  | NoSuchTable i64 | IntrospectionFailed string
  | NoSuchProposal int | NoBranchFor string string | BadReviewKind | SelfApproval string | ProposalMerged int
  | ChangesRequested int string | TooFewApprovals string int int nat | BadResolution | BranchReferenced

definition next_serial :: "serial \<Rightarrow> 'd hub \<Rightarrow> serial \<Rightarrow> int" where
  "next_serial s h = (hb_serial h)(s := hb_serial h s + 1)"

subsection \<open>Schema versions\<close>

text \<open>\<^verbatim>\<open>loadSchemaAt\<close>: the first row in descending order of epoch; a negative epoch means the newest.\<close>

definition schema_of_row :: "store_table \<Rightarrow> schema_row \<Rightarrow> schema_version" where
  "schema_of_row t r = \<lparr>sv_table = st_id t, sv_epoch = sr_epoch r, sv_columns = sr_columns r, sv_pk = st_pk t,
                        sv_dropped = sr_dropped r\<rparr>"

definition load_schema_at :: "schema_row list \<Rightarrow> store_table \<Rightarrow> string \<Rightarrow> i64 \<Rightarrow> schema_version option" where
  "load_schema_at rows t branch epoch =
     (case rev (sort_key (\<lambda>r. sint (sr_epoch r))
             (filter (\<lambda>r. sr_table r = st_id t \<and> sr_branch r = branch
                        \<and> (0 \<le> sint epoch \<longrightarrow> sint (sr_epoch r) \<le> sint epoch)) rows)) of
        [] \<Rightarrow> None
      | r # _ \<Rightarrow> Some (schema_of_row t r))"

definition epoch_zero :: "store_table \<Rightarrow> schema_version" where
  "epoch_zero t = \<lparr>sv_table = st_id t, sv_epoch = 0, sv_columns = st_columns t, sv_pk = st_pk t, sv_dropped = fmempty\<rparr>"

text \<open>The first branch of the chain that stores a version, else the introspected shape.\<close>

definition first_schema :: "schema_row list \<Rightarrow> store_table \<Rightarrow> string list \<Rightarrow> schema_version" where
  "first_schema rows t ids =
     (case List.map_filter (\<lambda>i. load_schema_at rows t i (- 1)) ids of [] \<Rightarrow> epoch_zero t | v # _ \<Rightarrow> v)"

definition load_schema :: "'d hub \<Rightarrow> store_table \<Rightarrow> string \<Rightarrow> st_error + schema_version" where
  "load_schema h t name =
     and_then (ref_row (hb_db h) name) (\<lambda>(branch, head, sq, chain).
       Inr (first_schema (hb_schemas h) t (branch # map sg_branch chain)))"

definition next_col_id :: "schema_version \<Rightarrow> colid" where
  "next_col_id v =
     fold max (fm_keys (sv_dropped v)) (fold max (map ac_id (sv_columns v)) 0) + 1"

definition schema_version_digest :: "store_table \<Rightarrow> schema_version \<Rightarrow> digest" where
  "schema_version_digest t v =
     schema_digest (st_id t)
       (map (\<lambda>c. \<lparr>sc_id = ac_id c, sc_name = ac_name c, sc_type = ac_type c, sc_nullable = ac_nullable c,
                  sc_pk = ac_id c \<in> set (sv_pk v)\<rparr>) (sv_columns v))"

text \<open>\<^verbatim>\<open>writeSchemaVersion\<close>: an upsert under table, branch and epoch.\<close>

definition write_schema :: "store_table \<Rightarrow> string \<Rightarrow> schema_version \<Rightarrow> string \<Rightarrow> schema_row list \<Rightarrow> schema_row list" where
  "write_schema t branch v who rows =
     (let same = (\<lambda>r. sr_table r = st_id t \<and> sr_branch r = branch \<and> sr_epoch r = sv_epoch v);
          d = schema_version_digest t v; w = uint (next_col_id v)
      in if list_ex same rows
         then map (\<lambda>r. if same r then r\<lparr>sr_columns := sv_columns v, sr_dropped := sv_dropped v, sr_digest := d,
                                        sr_width := w\<rparr> else r) rows
         else rows @ [\<lparr>sr_table = st_id t, sr_branch = branch, sr_epoch = sv_epoch v, sr_columns = sv_columns v,
                       sr_dropped = sv_dropped v, sr_digest = d, sr_width = w, sr_by = who\<rparr>])"

text \<open>\<^verbatim>\<open>EvolveSidecar\<close>: \<^verbatim>\<open>ADD COLUMN IF NOT EXISTS\<close> or \<^verbatim>\<open>ALTER COLUMN TYPE\<close> per column of the new shape.\<close>

definition evolve_column :: "(string \<Rightarrow> string \<Rightarrow> bool) \<Rightarrow> acolumn list \<Rightarrow> acolumn \<Rightarrow> (colid, string) fmap
    \<Rightarrow> hub_error + (colid, string) fmap" where
  "evolve_column cast have c cols =
     (case columns_by_id have (ac_id c) of
        None \<Rightarrow> Inr (if fmlookup cols (ac_id c) = None then fmupd (ac_id c) (ac_type c) cols else cols)
      | Some old \<Rightarrow>
          if ac_type old = ac_type c then Inr cols
          else (case fmlookup cols (ac_id c) of
              None \<Rightarrow> Inl (SidecarRejected (ac_id c))
            | Some ty \<Rightarrow> and_then (guard (cast ty (ac_type c)) (SidecarRejected (ac_id c))) (\<lambda>_.
                Inr (fmupd (ac_id c) (ac_type c) cols))))"

definition evolve_sidecar :: "(string \<Rightarrow> string \<Rightarrow> bool) \<Rightarrow> acolumn list \<Rightarrow> acolumn list \<Rightarrow> (colid, string) fmap
    \<Rightarrow> hub_error + (colid, string) fmap" where
  "evolve_sidecar cast have want cols = fold_steps (evolve_column cast have) want cols"

subsection \<open>Changing a branch's schema\<close>

record schema_edit =
  se_columns :: "acolumn list"
  se_dropped :: "(colid, i64) fmap"
  se_next :: colid
  se_forked :: "string list"

definition lossy_change :: "string \<Rightarrow> string \<Rightarrow> bool" where
  "lossy_change from to \<longleftrightarrow> class_num Widening < class_num (fst (classify_type_change from to))"

text \<open>The loop over the wanted columns: a lossy type change moves to a fresh id.\<close>

definition edit_column :: "schema_version \<Rightarrow> i64 \<Rightarrow> schema_edit \<Rightarrow> acolumn \<Rightarrow> schema_edit" where
  "edit_column from epoch e c =
     (case version_column from (ac_id c) of
        Some old \<Rightarrow>
          if ac_type old \<noteq> ac_type c \<and> lossy_change (ac_type old) (ac_type c)
          then \<lparr>se_columns = se_columns e @ [c\<lparr>ac_id := se_next e\<rparr>],
                se_dropped = fmupd (ac_id c) epoch (se_dropped e), se_next = se_next e + 1,
                se_forked = se_forked e @ [ac_name c]\<rparr>
          else e\<lparr>se_columns := se_columns e @ [c]\<rparr>
      | None \<Rightarrow> e\<lparr>se_columns := se_columns e @ [c]\<rparr>)"

definition edit_columns :: "schema_version \<Rightarrow> acolumn list \<Rightarrow> schema_edit" where
  "edit_columns from want =
     foldl (edit_column from (sv_epoch from + 1))
       \<lparr>se_columns = [], se_dropped = sv_dropped from, se_next = next_col_id from, se_forked = []\<rparr> want"

text \<open>What disappeared is dropped at the new epoch; the columns are sorted by id.\<close>

definition edited_version :: "schema_version \<Rightarrow> acolumn list \<Rightarrow> schema_version" where
  "edited_version from want =
     (let e = edit_columns from want; epoch = sv_epoch from + 1 in
      \<lparr>sv_table = sv_table from, sv_epoch = epoch, sv_columns = sort_key ac_id (se_columns e), sv_pk = sv_pk from,
       sv_dropped = foldl (\<lambda>d c. if ac_id c \<in> ac_id ` set (se_columns e) then d else fmupd (ac_id c) epoch d)
         (se_dropped e) (sv_columns from)\<rparr>)"

record schema_change_result =
  sx_epoch :: i64
  sx_changes :: "schema_change list"
  sx_forked :: "string list"

definition alter_branch_schema :: "'d hubenv \<Rightarrow> store_table \<Rightarrow> string \<Rightarrow> acolumn list \<Rightarrow> string \<Rightarrow> 'd hub
    \<Rightarrow> hub_error + 'd hub \<times> schema_change_result" where
  "alter_branch_schema env t name want who h =
     and_then (guard (name \<noteq> default_branch) AlterDefault) (\<lambda>_.
     and_then (left_map StoreError (ref_row (hb_db h) name)) (\<lambda>(branch, head, sq, chain).
     and_then (left_map StoreError (load_schema h t name)) (\<lambda>from.
       let v = edited_version from want; changes = schema_diff from v in
       if changes = [] then Inr (h, \<lparr>sx_epoch = sv_epoch from, sx_changes = [], sx_forked = []\<rparr>)
       else and_then (evolve_sidecar (he_cast env) (st_columns t) (sv_columns v) (hb_sidecols h (st_id t))) (\<lambda>cols.
         Inr (h\<lparr>hb_sidecols := (hb_sidecols h)(st_id t := cols),
                hb_schemas := write_schema t branch v who (hb_schemas h)\<rparr>,
              \<lparr>sx_epoch = sv_epoch v, sx_changes = changes, sx_forked = se_forked (edit_columns from want)\<rparr>)))))"

subsection \<open>Merging schemas\<close>

record schema_merge_result =
  sy_plan :: "plan_row option"
  sy_confirm :: "string list"
  sy_conflicts :: "schema_conflict list"

definition hub_merge_schema :: "'d hubenv \<Rightarrow> store_table \<Rightarrow> string \<Rightarrow> string \<Rightarrow> int \<Rightarrow> string \<Rightarrow> 'd hub
    \<Rightarrow> hub_error + 'd hub \<times> schema_merge_result" where
  "hub_merge_schema env t src into proposal who h =
     left_map StoreError (
     and_then (load_schema h t into) (\<lambda>ours.
     and_then (load_schema h t src) (\<lambda>theirs.
     and_then (load_schema h t default_branch) (\<lambda>base.
       let out = schema_merge base ours theirs; changes = schema_diff ours (mo_result out) in
       if mo_conflicts out \<noteq> [] then Inr (h, \<lparr>sy_plan = None, sy_confirm = [], sy_conflicts = mo_conflicts out\<rparr>)
       else if changes = [] then Inr (h, \<lparr>sy_plan = None, sy_confirm = [], sy_conflicts = []\<rparr>)
       else let plan = migration_plan_of (he_ddl env) (st_id t) (st_physical t) changes;
                target = sv_epoch ours + 1;
                rec = \<lparr>pl_id = hb_serial h PlanSerial, pl_table = st_id t, pl_proposal = proposal, pl_ops = mp_ops plan,
                       pl_target = target, pl_state = PlanPending, pl_by = who, pl_applied = None\<rparr>
         in and_then (ref_row (hb_db h) into) (\<lambda>(branch, head, sq, chain).
              Inr (h\<lparr>hb_plans := hb_plans h @ [rec], hb_serial := next_serial PlanSerial h,
                     hb_schemas := write_schema t branch ((mo_result out)\<lparr>sv_epoch := target\<rparr>) who (hb_schemas h)\<rparr>,
                   \<lparr>sy_plan = Some rec, sy_confirm = snd (requires_confirmation plan), sy_conflicts = []\<rparr>))))))"

subsection \<open>Migration plans\<close>

definition load_plan :: "'d hub \<Rightarrow> int \<Rightarrow> hub_error + plan_row" where
  "load_plan h i = some_or (NoSuchPlan i) (find (\<lambda>r. pl_id r = i) (hb_plans h))"

definition plan_confirm :: "plan_row \<Rightarrow> string list" where
  "plan_confirm r = snd (requires_confirmation \<lparr>mp_table = 0, mp_ops = pl_ops r\<rparr>)"

definition list_plans :: "'d hub \<Rightarrow> plan_state list \<Rightarrow> plan_row list" where
  "list_plans h states =
     rev (sort_key pl_id (filter (\<lambda>r. states = [] \<or> pl_state r \<in> set states) (hb_plans h)))"

definition set_plan_state :: "int \<Rightarrow> plan_state \<Rightarrow> string \<Rightarrow> i64 \<Rightarrow> 'd hub \<Rightarrow> 'd hub" where
  "set_plan_state i st who now h =
     h\<lparr>hb_plans := map (\<lambda>r. if pl_id r = i
         then r\<lparr>pl_state := st, pl_applied := (if st = PlanApplied then Some (who, now) else pl_applied r)\<rparr>
         else r) (hb_plans h)\<rparr>"

text \<open>
  The map \<^verbatim>\<open>known\<close> of \<^verbatim>\<open>refreshColumns\<close>; one live column gets its id by name, else a fresh one, and an
  upsert keeps the drop mark.
\<close>

definition known_pairs :: "i64 \<Rightarrow> column_row list \<Rightarrow> (string \<times> colid) list" where
  "known_pairs table rows = map (\<lambda>r. (cr_name r, cr_id r)) (filter (\<lambda>r. cr_table r = table) rows)"

definition known_ids :: "i64 \<Rightarrow> column_row list \<Rightarrow> string \<Rightarrow> colid option" where
  "known_ids table rows = map_of (rev (known_pairs table rows))"

definition upsert_column :: "i64 \<Rightarrow> colid \<Rightarrow> nat \<Rightarrow> acolumn \<Rightarrow> column_row list \<Rightarrow> column_row list" where
  "upsert_column table i n c rows =
     (let k = (case kind_for (ac_type c) of Some k \<Rightarrow> k | None \<Rightarrow> KindNull) in
      if list_ex (\<lambda>r. cr_table r = table \<and> cr_id r = i) rows
      then map (\<lambda>r. if cr_table r = table \<and> cr_id r = i
                    then r\<lparr>cr_name := ac_name c, cr_type := ac_type c, cr_kind := k, cr_nullable := ac_nullable c,
                           cr_ordinal := n\<rparr> else r) rows
      else rows @ [\<lparr>cr_table = table, cr_id = i, cr_name = ac_name c, cr_type = ac_type c, cr_kind = k,
                    cr_nullable = ac_nullable c, cr_ordinal = n, cr_dropped = None\<rparr>])"

definition refresh_step :: "i64 \<Rightarrow> (string \<Rightarrow> colid option) \<Rightarrow> column_row list \<times> colid \<times> colid list
    \<Rightarrow> nat \<times> acolumn \<Rightarrow> column_row list \<times> colid \<times> colid list" where
  "refresh_step table known st nc =
     (case st of (rows, mx, seen) \<Rightarrow> case nc of (n, c) \<Rightarrow>
        let (i, mx') = (case known (ac_name c) of Some i \<Rightarrow> (i, mx) | None \<Rightarrow> (mx + 1, mx + 1))
        in (upsert_column table i n c rows, mx', seen @ [i]))"

definition mark_dropped :: "i64 \<Rightarrow> colid list \<Rightarrow> column_row list \<Rightarrow> column_row list" where
  "mark_dropped table gone rows =
     map (\<lambda>r. if cr_table r = table \<and> cr_id r \<in> set gone \<and> cr_dropped r = None
              then r\<lparr>cr_dropped := Some 1\<rparr> else r) rows"

definition refresh_columns :: "i64 \<Rightarrow> acolumn list \<Rightarrow> column_row list \<Rightarrow> column_row list" where
  "refresh_columns table live rows =
     (let known = known_ids table rows;
          mx = fold max (map cr_id (filter (\<lambda>r. cr_table r = table) rows)) 0;
          (rows', mx', seen) = foldl (refresh_step table known) (rows, mx, []) (enumerate 0 live);
          ids = List.map_filter (\<lambda>(n, _). known n) (known_pairs table rows)
      in mark_dropped table (filter (\<lambda>i. i \<notin> set seen) ids) rows')"

text \<open>\<^verbatim>\<open>LoadTable\<close>: the columns that are not marked dropped, by ordinal.\<close>

definition load_table :: "'d hub \<Rightarrow> string \<Rightarrow> store_table option" where
  "load_table h physical =
     map_option (\<lambda>t. t\<lparr>st_columns :=
         map (\<lambda>r. \<lparr>ac_id = cr_id r, ac_name = cr_name r, ac_type = cr_type r, ac_kind = cr_kind r,
                   ac_nullable = cr_nullable r\<rparr>)
           (sort_key cr_ordinal (filter (\<lambda>r. cr_table r = st_id t \<and> cr_dropped r = None) (hb_columns h)))\<rparr>)
       (find (\<lambda>t. st_physical t = physical) (db_tables (hb_db h)))"

text \<open>\<^verbatim>\<open>ApplyMigrationPlan\<close>: no transaction surrounds it, so it returns the state with its result.\<close>

definition apply_plan :: "'d hubenv \<Rightarrow> int \<Rightarrow> bool \<Rightarrow> string \<Rightarrow> i64 \<Rightarrow> 'd hub \<Rightarrow> 'd hub \<times> (hub_error + plan_row)" where
  "apply_plan env i confirm who now h =
     (case load_plan h i of
        Inl e \<Rightarrow> (h, Inl e)
      | Inr rec \<Rightarrow>
          if pl_state rec = PlanApplied then (h, Inl (PlanAlreadyApplied i))
          else if pl_state rec = PlanAbandoned then (h, Inl (PlanWasAbandoned i))
          else if plan_confirm rec \<noteq> [] \<and> \<not> confirm then (h, Inl (NeedsConfirmation i (plan_confirm rec)))
          else let h1 = set_plan_state i PlanApplying [] now h;
                   run = apply_migration store_journal (he_exec env)
                     \<lparr>mp_table = pl_table rec, mp_ops = pl_ops rec\<rparr> (hb_journal h1, hb_live h1);
                   h2 = h1\<lparr>hb_journal := fst (fst run), hb_live := snd (fst run)\<rparr>
            in case snd run of
                 Some e \<Rightarrow> (set_plan_state i PlanFailed [] now h2, Inl (MigrationFailed i e))
               | None \<Rightarrow>
                  (case find (\<lambda>t. st_id t = pl_table rec) (db_tables (hb_db h2)) of
                     None \<Rightarrow> (h2, Inl (NoSuchTable (pl_table rec)))
                   | Some t \<Rightarrow> (case he_introspect env (hb_live h2) (st_physical t) of
                       None \<Rightarrow> (h2, Inl (IntrospectionFailed (st_physical t)))
                     | Some live \<Rightarrow>
                         (set_plan_state i PlanApplied who now
                            (h2\<lparr>hb_columns := refresh_columns (pl_table rec) live (hb_columns h2)\<rparr>),
                          Inr (rec\<lparr>pl_state := PlanApplied\<rparr>)))))"

end
