(* ===== verification/HubSchema.thy ===== *)
theory HubSchema
  imports HubDefs SchemaProps
begin

text \<open>
  The schema flow of the store: reading back a branch's schema, what an edit of it may do to the columns
  history is stored under, what a schema merge records, and what applying a plan does.
\<close>

lemma left_map_simps [simp]: "left_map g (Inl e) = Inl (g e)" "left_map g (Inr x) = Inr x"
  by (simp_all add: left_map_def)

subsection \<open>The newest schema row\<close>

lemma last_sorted: "sorted (map f ys) \<Longrightarrow> x \<in> set ys \<Longrightarrow> f x \<le> (f (last ys) :: int)"
proof (induction ys)
  case (Cons a ys)
  then show ?case using last_in_set [of ys] by (cases "ys = []") auto
qed simp

lemma sort_key_Nil [simp]: "sort_key f xs = [] \<longleftrightarrow> xs = []"
  by (metis set_empty set_sort)

lemma newest_first:
  assumes "x \<in> set xs" and "\<And>y. y \<in> set xs \<Longrightarrow> y \<noteq> x \<Longrightarrow> f y < (f x :: int)"
  shows "\<exists>zs. rev (sort_key f xs) = x # zs"
proof -
  have mem: "x \<in> set (sort_key f xs)" using assms(1) by simp
  have "f x \<le> f (last (sort_key f xs))" by (rule last_sorted [OF sorted_sort_key mem])
  moreover have "last (sort_key f xs) \<in> set xs" using last_in_set [of "sort_key f xs"] mem by fastforce
  ultimately have "last (sort_key f xs) = x" using assms(2) by fastforce
  then show ?thesis using mem by (cases "sort_key f xs" rule: rev_cases) auto
qed

definition rows_of :: "schema_row list \<Rightarrow> store_table \<Rightarrow> string \<Rightarrow> schema_row list" where
  "rows_of rows t b = filter (\<lambda>r. sr_table r = st_id t \<and> sr_branch r = b) rows"

lemma load_newest_def:
  "load_schema_at rows t b (- 1) =
     (case rev (sort_key (\<lambda>r. sint (sr_epoch r)) (rows_of rows t b)) of [] \<Rightarrow> None | r # _ \<Rightarrow> Some (schema_of_row t r))"
  by (simp add: load_schema_at_def rows_of_def)

lemma load_newest:
  assumes "r \<in> set (rows_of rows t b)"
    and "\<And>q. q \<in> set (rows_of rows t b) \<Longrightarrow> q \<noteq> r \<Longrightarrow> sint (sr_epoch q) < sint (sr_epoch r)"
  shows "load_schema_at rows t b (- 1) = Some (schema_of_row t r)"
  unfolding load_newest_def
  using newest_first [of r "rows_of rows t b" "\<lambda>r. sint (sr_epoch r)"] assms by auto

lemma load_newest_bound:
  "load_schema_at rows t b (- 1) = Some v \<Longrightarrow> q \<in> set (rows_of rows t b) \<Longrightarrow> sint (sr_epoch q) \<le> sint (sv_epoch v)"
proof -
  assume l: "load_schema_at rows t b (- 1) = Some v" and q: "q \<in> set (rows_of rows t b)"
  obtain r rs where r: "rev (sort_key (\<lambda>r. sint (sr_epoch r)) (rows_of rows t b)) = r # rs" "v = schema_of_row t r"
    using l unfolding load_newest_def by (auto split: list.splits)
  have "sint (sr_epoch q) \<le> sint (sr_epoch (last (sort_key (\<lambda>r. sint (sr_epoch r)) (rows_of rows t b))))"
    by (rule last_sorted) (use q in simp_all)
  moreover have "last (sort_key (\<lambda>r. sint (sr_epoch r)) (rows_of rows t b)) = r"
    using r(1) by (metis last_rev list.sel(1) rev_is_Nil_conv rev_rev_ident hd_rev)
  ultimately show ?thesis using r(2) by (simp add: schema_of_row_def)
qed

lemma load_newest_None: "load_schema_at rows t b (- 1) = None \<longleftrightarrow> rows_of rows t b = []"
  unfolding load_newest_def by (auto split: list.splits)

lemma first_schema_Cons:
  "first_schema rows t (i # is) =
     (case load_schema_at rows t i (- 1) of Some v \<Rightarrow> v | None \<Rightarrow> first_schema rows t is)"
  by (simp add: first_schema_def map_filter_simps split: option.split)

lemma first_schema_pk: "sv_pk (first_schema rows t is) = st_pk t \<and> sv_table (first_schema rows t is) = st_id t"
proof (induction "is")
  case Nil
  then show ?case by (simp add: first_schema_def epoch_zero_def map_filter_simps)
next
  case (Cons i "is")
  then show ?case
    by (auto simp: first_schema_Cons load_schema_at_def schema_of_row_def split: option.split list.splits)
qed

text \<open>A write touches only its own branch's rows of its own table.\<close>

lemma filter_map_outside:
  "(\<And>r. S r \<Longrightarrow> \<not> P r \<and> \<not> P (g r)) \<Longrightarrow> filter P (map (\<lambda>r. if S r then g r else r) xs) = filter P xs"
  by (induction xs) auto

lemma write_schema_other:
  assumes "b \<noteq> branch \<or> st_id u \<noteq> st_id t"
  shows "rows_of (write_schema t branch v who rows) u b = rows_of rows u b"
proof (cases "list_ex (\<lambda>r. sr_table r = st_id t \<and> sr_branch r = branch \<and> sr_epoch r = sv_epoch v) rows")
  case True
  then show ?thesis unfolding rows_of_def write_schema_def Let_def if_P [OF True]
    by (intro filter_map_outside) (use assms in auto)
next
  case False
  then show ?thesis unfolding rows_of_def write_schema_def Let_def if_not_P [OF False]
    using assms by auto
qed

lemma first_schema_other:
  assumes "branch \<notin> set is \<or> st_id u \<noteq> st_id t"
  shows "first_schema (write_schema t branch v who rows) u is = first_schema rows u is"
proof -
  have "load_schema_at (write_schema t branch v who rows) u i (- 1) = load_schema_at rows u i (- 1)" if "i \<in> set is" for i
  proof -
    have "rows_of (write_schema t branch v who rows) u i = rows_of rows u i"
      by (rule write_schema_other) (use that assms in auto)
    then show ?thesis by (simp add: load_newest_def)
  qed
  then have "List.map_filter (\<lambda>i. load_schema_at (write_schema t branch v who rows) u i (- 1)) is
      = List.map_filter (\<lambda>i. load_schema_at rows u i (- 1)) is"
    by (induction "is") (auto simp: map_filter_simps split: option.split)
  then show ?thesis by (simp add: first_schema_def)
qed

text \<open>A version written one epoch after the branch's own is the one read back.\<close>

lemma epoch_next: "sint (e :: i64) < 2 ^ 63 - 1 \<Longrightarrow> sint (e + 1) = sint e + 1"
  using sint_ge [of e] by (simp add: sint_word_ariths signed_take_bit_int_eq_self)

lemma write_schema_read:
  assumes frm: "first_schema rows t (branch # is) = from" and e: "sv_epoch v = sv_epoch from + 1"
    and room: "sint (sv_epoch from) < 2 ^ 63 - 1" and "sv_table v = st_id t" "sv_pk v = st_pk t"
  shows "first_schema (write_schema t branch v who rows) t (branch # is) = v"
proof -
  let ?new = "\<lparr>sr_table = st_id t, sr_branch = branch, sr_epoch = sv_epoch v, sr_columns = sv_columns v,
     sr_dropped = sv_dropped v, sr_digest = schema_version_digest t v, sr_width = uint (next_col_id v), sr_by = who\<rparr>"
  have below: "sint (sr_epoch q) < sint (sv_epoch v)" if "q \<in> set (rows_of rows t branch)" for q
  proof (cases "load_schema_at rows t branch (- 1)")
    case None
    with that show ?thesis by (auto simp: load_newest_None)
  next
    case (Some u)
    with frm have "u = from" by (simp add: first_schema_Cons)
    with load_newest_bound [OF Some that] epoch_next [OF room] e show ?thesis by simp
  qed
  then have "\<not> list_ex (\<lambda>r. sr_table r = st_id t \<and> sr_branch r = branch \<and> sr_epoch r = sv_epoch v) rows"
    by (fastforce simp: list_ex_iff rows_of_def)
  then have w: "rows_of (write_schema t branch v who rows) t branch = rows_of rows t branch @ [?new]"
    by (simp add: write_schema_def Let_def rows_of_def)
  have "load_schema_at (write_schema t branch v who rows) t branch (- 1) = Some (schema_of_row t ?new)"
    by (rule load_newest) (use w below in auto)
  with assms(4,5) show ?thesis by (simp add: first_schema_Cons schema_of_row_def)
qed

subsection \<open>What an edit does to the columns\<close>

definition schema_ids :: "schema_version \<Rightarrow> colid set" where
  "schema_ids v = ac_id ` set (sv_columns v) \<union> fmdom' (sv_dropped v)"

text \<open>Ids leave room for \<open>n\<close> fresh ones in 32 bits.\<close>

definition ids_room :: "schema_version \<Rightarrow> nat \<Rightarrow> bool" where
  "ids_room v n \<longleftrightarrow> (\<forall>i \<in> schema_ids v. unat i + n + 1 < 2 ^ 32) \<and> n + 1 < 2 ^ 32"

lemma fold_max_word:
  "a \<le> fold max xs (a :: colid) \<and> (\<forall>x \<in> set xs. x \<le> fold max xs a) \<and> (fold max xs a = a \<or> fold max xs a \<in> set xs)"
proof (induction xs arbitrary: a)
  case (Cons x xs)
  from Cons.IH [of "max x a"] show ?case by (auto simp: max_def split: if_splits intro: order.trans)
qed simp

lemma next_col_id_fresh:
  assumes room: "ids_room v n" and k: "k \<le> n"
  shows "\<forall>i \<in> schema_ids v. i < next_col_id v + of_nat k"
    and "unat (next_col_id v + of_nat k) = unat (next_col_id v) + k"
proof -
  let ?m = "fold max (map ac_id (sv_columns v)) 0" and ?m' = "fold max (fm_keys (sv_dropped v)) (fold max (map ac_id (sv_columns v)) 0)"
  have m: "\<forall>i \<in> schema_ids v. i \<le> ?m'" "?m' = 0 \<or> ?m' \<in> schema_ids v"
    using fold_max_word [where xs = "map ac_id (sv_columns v)" and a = 0]
      fold_max_word [where xs = "fm_keys (sv_dropped v)" and a = ?m]
    by (auto simp: schema_ids_def image_iff intro: order.trans)
  have b: "unat ?m' + n + 1 < 2 ^ 32" using m(2) room by (auto simp: ids_room_def)
  have u: "unat (next_col_id v + of_nat j) = unat ?m' + 1 + j" if "j \<le> n" for j
  proof -
    have "unat (next_col_id v + of_nat j) = unat (of_nat (unat ?m' + 1 + j) :: colid)"
      by (simp add: next_col_id_def ac_simps)
    also have "\<dots> = unat ?m' + 1 + j" using b that by (simp only: unat_of_nat) (rule mod_less, simp)
    finally show ?thesis .
  qed
  show "unat (next_col_id v + of_nat k) = unat (next_col_id v) + k" using u [of 0] u [OF k] by simp
  show "\<forall>i \<in> schema_ids v. i < next_col_id v + of_nat k"
  proof
    fix i assume "i \<in> schema_ids v"
    with m(1) have "unat i \<le> unat ?m'" by (simp add: word_le_nat_alt)
    with u [OF k] show "i < next_col_id v + of_nat k" by (simp add: word_less_nat_alt)
  qed
qed

text \<open>
  A column of the edit is a wanted one whose type, against the old column of its id, is not lossy, or one of
  the forked columns \<open>fs\<close>, which have the first fresh ids in order.
\<close>

definition kept_safe :: "schema_version \<Rightarrow> acolumn \<Rightarrow> bool" where
  "kept_safe v c \<longleftrightarrow> (\<forall>old. version_column v (ac_id c) = Some old \<longrightarrow>
     ac_type old = ac_type c \<or> \<not> lossy_change (ac_type old) (ac_type c))"

definition edit_ok :: "schema_version \<Rightarrow> acolumn list \<Rightarrow> acolumn list \<Rightarrow> schema_edit \<Rightarrow> bool" where
  "edit_ok v ws fs e \<longleftrightarrow>
     se_next e = next_col_id v + of_nat (length fs) \<and> length fs \<le> length ws \<and> se_forked e = map ac_name fs
     \<and> map ac_id fs = map (\<lambda>k. next_col_id v + of_nat k) [0..<length fs]
     \<and> fmdom' (sv_dropped v) \<subseteq> fmdom' (se_dropped e) \<and> set fs \<subseteq> set (se_columns e)
     \<and> (\<forall>c \<in> set (se_columns e). c \<in> set fs \<or> c \<in> set ws \<and> kept_safe v c)"

lemma edit_column_ok:
  assumes "edit_ok v ws fs e"
  shows "\<exists>fs'. edit_ok v (ws @ [c]) fs' (edit_column v epoch e c)"
proof (cases "kept_safe v c")
  case True
  then have "edit_column v epoch e c = e\<lparr>se_columns := se_columns e @ [c]\<rparr>"
    by (auto simp: edit_column_def kept_safe_def split: option.split)
  with assms True have "edit_ok v (ws @ [c]) fs (edit_column v epoch e c)" by (auto simp: edit_ok_def)
  then show ?thesis ..
next
  case False
  then have "edit_column v epoch e c = \<lparr>se_columns = se_columns e @ [c\<lparr>ac_id := se_next e\<rparr>],
      se_dropped = fmupd (ac_id c) epoch (se_dropped e), se_next = se_next e + 1, se_forked = se_forked e @ [ac_name c]\<rparr>"
    by (auto simp: edit_column_def kept_safe_def)
  with assms have "edit_ok v (ws @ [c]) (fs @ [c\<lparr>ac_id := se_next e\<rparr>]) (edit_column v epoch e c)"
    by (auto simp: edit_ok_def)
  then show ?thesis ..
qed

lemma edit_columns_ok: "\<exists>fs. edit_ok v ws fs (edit_columns v ws)"
proof (induction ws rule: rev_induct)
  case Nil
  have "edit_ok v [] [] (edit_columns v [])" by (simp add: edit_ok_def edit_columns_def)
  then show ?case ..
next
  case (snoc c ws)
  then obtain fs where "edit_ok v ws fs (edit_columns v ws)" ..
  from edit_column_ok [OF this] show ?case by (simp add: edit_columns_def)
qed

lemma dropped_fold:
  "fmdom' (foldl (\<lambda>d c. if ac_id c \<in> S then d else fmupd (ac_id c) epoch d) d cs) =
     fmdom' d \<union> {i \<in> ac_id ` set cs. i \<notin> S}"
  by (induction cs arbitrary: d) auto

lemma edited_version_parts:
  "sv_epoch (edited_version v ws) = sv_epoch v + 1" "sv_pk (edited_version v ws) = sv_pk v"
  "sv_table (edited_version v ws) = sv_table v"
  "set (sv_columns (edited_version v ws)) = set (se_columns (edit_columns v ws))"
  "fmdom' (sv_dropped (edited_version v ws)) = fmdom' (se_dropped (edit_columns v ws)) \<union>
     {i \<in> ac_id ` set (sv_columns v). i \<notin> ac_id ` set (se_columns (edit_columns v ws))}"
  by (simp_all add: edited_version_def Let_def dropped_fold)

text \<open>No column of the old version is lost, and none is converted in place by a lossy change.\<close>

lemma edited_version_safe:
  assumes room: "ids_room v (length ws)" and dist: "distinct_columns v"
  shows "\<forall>c \<in> set (sv_columns v). ac_id c \<in> schema_ids (edited_version v ws)"
    and "fmdom' (sv_dropped v) \<subseteq> fmdom' (sv_dropped (edited_version v ws))"
    and "\<forall>c \<in> set (sv_columns v). \<forall>c' \<in> set (sv_columns (edited_version v ws)). ac_id c' = ac_id c \<longrightarrow>
      ac_type c = ac_type c' \<or> \<not> lossy_change (ac_type c) (ac_type c')"
    and "\<forall>n \<in> set (se_forked (edit_columns v ws)). \<exists>c \<in> set (sv_columns (edited_version v ws)).
      ac_name c = n \<and> ac_id c \<notin> schema_ids v"
proof -
  obtain fs where fs: "edit_ok v ws fs (edit_columns v ws)" using edit_columns_ok by blast
  have fresh: "ac_id c \<notin> schema_ids v" if c: "c \<in> set fs" for c
  proof -
    have "ac_id c \<in> set (map ac_id fs)" using c by simp
    also have "map ac_id fs = map (\<lambda>k. next_col_id v + of_nat k) [0..<length fs]" using fs by (simp add: edit_ok_def)
    finally obtain k where "k < length fs" "ac_id c = next_col_id v + of_nat k" by auto
    moreover have "length fs \<le> length ws" using fs by (simp add: edit_ok_def)
    ultimately show ?thesis using next_col_id_fresh(1) [OF room, of k] by auto
  qed
  show "\<forall>c \<in> set (sv_columns v). ac_id c \<in> schema_ids (edited_version v ws)"
    by (auto simp: schema_ids_def edited_version_parts)
  show "fmdom' (sv_dropped v) \<subseteq> fmdom' (sv_dropped (edited_version v ws))"
    using fs by (auto simp: edit_ok_def edited_version_parts)
  show "\<forall>n \<in> set (se_forked (edit_columns v ws)). \<exists>c \<in> set (sv_columns (edited_version v ws)).
      ac_name c = n \<and> ac_id c \<notin> schema_ids v"
    using fs fresh by (fastforce simp: edit_ok_def edited_version_parts)
  show "\<forall>c \<in> set (sv_columns v). \<forall>c' \<in> set (sv_columns (edited_version v ws)). ac_id c' = ac_id c \<longrightarrow>
      ac_type c = ac_type c' \<or> \<not> lossy_change (ac_type c) (ac_type c')"
  proof (intro ballI impI)
    fix c c' assume c: "c \<in> set (sv_columns v)" and c': "c' \<in> set (sv_columns (edited_version v ws))" and i: "ac_id c' = ac_id c"
    have "ac_id c' \<in> schema_ids v" using c i by (simp add: schema_ids_def)
    with fresh c' fs have "kept_safe v c'" by (auto simp: edit_ok_def edited_version_parts)
    moreover have "version_column v (ac_id c) = Some c"
      using find_distinct [of ac_id "sv_columns v" c] c dist by (simp add: version_column_def distinct_columns_def)
    ultimately show "ac_type c = ac_type c' \<or> \<not> lossy_change (ac_type c) (ac_type c')"
      using i by (simp add: kept_safe_def)
  qed
qed

subsection \<open>Properties\<close>

text \<open>What the rest of the store sees of a schema change: nothing but the new schema row and sidecar columns.\<close>

definition same_but_schema :: "'d hub \<Rightarrow> 'd hub \<Rightarrow> bool" where
  "same_but_schema h h' \<longleftrightarrow> h' = h\<lparr>hb_schemas := hb_schemas h', hb_sidecols := hb_sidecols h'\<rparr>"

text \<open>
  C19: Changing the schema of a branch does not rewrite history. When it changes anything, the branch reads
  back exactly the edited version, one epoch later; every column id of the old version is still a column or
  a dropped id of the new one, dropped ids stay dropped, a column keeps its id only under a type change the
  code classifies as additive or widening, and every forked column has an id that no column and no dropped
  id of the old version has. (The forked id may be that of a column the same request adds, and the
  classification is coarse; \<open>classification_coarse\<close> shows where.) Live tables, the catalogue, plans and the
  schemas of branches that do not inherit from this one are untouched; the default branch is refused.
\<close>

theorem schema_edit_keeps_history:
  assumes "alter_branch_schema env t name want who h = Inr (h', res)"
    and "load_schema h t name = Inr old" and "ids_room old (length want)" and "distinct_columns old"
    and "sint (sv_epoch old) < 2 ^ 63 - 1"
  shows "name \<noteq> default_branch \<and> same_but_schema h h' \<and>
    (sx_changes res = [] \<longrightarrow> h' = h) \<and>
    (sx_changes res \<noteq> [] \<longrightarrow> (\<exists>new. load_schema h' t name = Inr new \<and> new = edited_version old want
       \<and> sv_epoch new = sv_epoch old + 1 \<and> sx_epoch res = sv_epoch new
       \<and> (\<forall>c \<in> set (sv_columns old). ac_id c \<in> schema_ids new)
       \<and> fmdom' (sv_dropped old) \<subseteq> fmdom' (sv_dropped new)
       \<and> (\<forall>c \<in> set (sv_columns old). \<forall>c' \<in> set (sv_columns new). ac_id c' = ac_id c \<longrightarrow>
            ac_type c = ac_type c' \<or> \<not> lossy_change (ac_type c) (ac_type c'))
       \<and> (\<forall>n \<in> set (sx_forked res). \<exists>c \<in> set (sv_columns new). ac_name c = n \<and> ac_id c \<notin> schema_ids old))) \<and>
    (\<forall>n i hd sq chain j hd' sq' chain'. ref_row (hb_db h) name = Inr (i, hd, sq, chain) \<longrightarrow>
       ref_row (hb_db h) n = Inr (j, hd', sq', chain') \<longrightarrow> i \<noteq> j \<longrightarrow> i \<notin> sg_branch ` set chain' \<longrightarrow>
       load_schema h' t n = load_schema h t n)"
proof -
  from assms(1,2) obtain branch hd0 sq0 chain0 where r: "name \<noteq> default_branch"
    "ref_row (hb_db h) name = Inr (branch, hd0, sq0, chain0)"
    by (auto simp: alter_branch_schema_def result_simps)
  then have old: "first_schema (hb_schemas h) t (branch # map sg_branch chain0) = old"
    using assms(2) by (simp add: load_schema_def)
  let ?v = "edited_version old want"
  show ?thesis
  proof (cases "schema_diff old ?v = []")
    case True
    with assms(1,2) r have "h' = h \<and> sx_changes res = []" by (auto simp: alter_branch_schema_def)
    with r show ?thesis by (simp add: same_but_schema_def)
  next
    case False
    with assms(1,2) r obtain cols where h': "h' = h\<lparr>hb_sidecols := (hb_sidecols h)(st_id t := cols),
        hb_schemas := write_schema t branch ?v who (hb_schemas h)\<rparr>"
      and res: "sx_epoch res = sv_epoch ?v" "sx_changes res \<noteq> []" "sx_forked res = se_forked (edit_columns old want)"
      by (auto simp: alter_branch_schema_def result_simps Let_def)
    have "sv_table ?v = st_id t" "sv_pk ?v = st_pk t"
      using first_schema_pk [of "hb_schemas h" t "branch # map sg_branch chain0"] old by (simp_all add: edited_version_parts)
    from write_schema_read [OF old edited_version_parts(1) assms(5) this]
    have "load_schema h' t name = Inr ?v" using r by (simp add: h' load_schema_def)
    moreover have "load_schema h' t n = load_schema h t n"
      if "ref_row (hb_db h) n = Inr (j, hd', sq', chain')" "branch \<noteq> j" "branch \<notin> sg_branch ` set chain'" for n j hd' sq' chain'
      using that by (simp add: h' load_schema_def first_schema_other)
    moreover have "same_but_schema h h'" by (simp add: same_but_schema_def h')
    ultimately show ?thesis
      using edited_version_safe [OF assms(3,4)] r res by (simp add: edited_version_parts(1))
  qed
qed

subsection \<open>Merging into the default branch\<close>

lemma map_filter_None: "(\<And>x. f x = None) \<Longrightarrow> List.map_filter f xs = []"
  by (induction xs) (simp_all add: map_filter_simps)

lemma merged_ids:
  "map ac_id (sv_columns (mo_result (schema_merge base ours theirs))) =
     filter (\<lambda>i. result_at base ours theirs i \<noteq> None) (merge_ids base ours theirs)"
proof -
  have "map ac_id (List.map_filter (result_at base ours theirs) is) =
      filter (\<lambda>i. result_at base ours theirs i \<noteq> None) is" for "is"
  proof (induction "is")
    case (Cons i "is")
    have "ac_id c = i" if "result_at base ours theirs i = Some c" for c
      using that merged_column [of base ours theirs i] version_column_id by metis
    with Cons show ?case by (auto simp: map_filter_simps split: option.split)
  qed (simp add: map_filter_simps)
  then show ?thesis by (simp add: schema_merge_parts)
qed

lemma schema_merge_identity:
  "sv_table (mo_result (schema_merge base ours theirs)) = sv_table base
   \<and> sv_pk (mo_result (schema_merge base ours theirs)) = sv_pk base"
proof -
  have "sv_table (mo_result (foldl (merge_column base ours theirs) out is)) = sv_table (mo_result out)
      \<and> sv_pk (mo_result (foldl (merge_column base ours theirs) out is)) = sv_pk (mo_result out)" for out "is"
    by (induction "is" arbitrary: out)
      (auto simp: merge_column_at merge_outcome_defs split: option.split)
  then show ?thesis by (simp add: schema_merge_def)
qed

lemma merged_distinct: "distinct_columns (mo_result (schema_merge base ours theirs))"
  by (simp add: distinct_columns_def merged_ids sorted_merge_ids)

lemma schema_diff_Nil:
  assumes "distinct_columns v" "distinct_columns w"
  shows "schema_diff v w = [] \<longleftrightarrow> (\<forall>i. same_column_opt (version_column v i) (version_column w i))"
proof
  assume "schema_diff v w = []"
  then have "diff_at v w i = None" for i using schema_diff_find [OF assms, of i] by simp
  then show "\<forall>i. same_column_opt (version_column v i) (version_column w i)" by (simp add: diff_at_None)
next
  assume "\<forall>i. same_column_opt (version_column v i) (version_column w i)"
  then have "ch \<notin> set (schema_diff v w)" for ch using schema_diff_set [OF assms] by (simp add: diff_at_None [symmetric])
  then show "schema_diff v w = []" by (cases "schema_diff v w") auto
qed

text \<open>With the target's own schema as the base, the source's side always wins.\<close>

lemma merge_own_base:
  "conflict_at ours ours theirs i = None"
  "same_column_opt (result_at ours ours theirs i) (version_column theirs i)"
  by (auto simp: conflict_at_None result_at_def column_merge_at_def merge3_def)

text \<open>
  C35: A schema merge into the default branch takes the source's shape, whatever the default branch looks
  like: it never conflicts, and afterwards the default branch's schema has, under every column id, the
  source's column with its name, type and nullability, and no column the source lacks. A plan is recorded
  exactly when the two differ, and the live tables and commits are untouched. This is because \<^verbatim>\<open>MergeSchema\<close>
  takes the default branch's current schema for the common base.
\<close>

theorem schema_merge_into_default:
  assumes "hub_merge_schema env t src default_branch proposal who h = Inr (h', res)"
    and "load_schema h t src = Inr theirs" and "load_schema h t default_branch = Inr ours"
    and "distinct_columns ours" and "sint (sv_epoch ours) < 2 ^ 63 - 1"
  shows "sy_conflicts res = [] \<and> hb_db h' = hb_db h \<and> hb_live h' = hb_live h \<and>
    (sy_plan res = None \<longleftrightarrow> (\<forall>i. same_column_opt (version_column ours i) (version_column theirs i))) \<and>
    (\<exists>new. load_schema h' t default_branch = Inr new \<and>
       (\<forall>i. same_column_opt (version_column new i) (version_column theirs i)))"
proof -
  let ?out = "schema_merge ours ours theirs"
  have none: "mo_conflicts ?out = []"
    using merge_own_base(1) by (simp add: schema_merge_parts map_filter_None)
  have same: "same_column_opt (version_column (mo_result ?out) i) (version_column theirs i)" for i
    using merge_own_base(2) by (simp add: merged_column)
  have diff: "schema_diff ours (mo_result ?out) = [] \<longleftrightarrow>
      (\<forall>i. same_column_opt (version_column ours i) (version_column theirs i))"
    unfolding schema_diff_Nil [OF assms(4) merged_distinct]
    using same same_column_opt_trans same_column_opt_sym by blast
  show ?thesis
  proof (cases "schema_diff ours (mo_result ?out) = []")
    case True
    with assms(1-3) none have "h' = h \<and> sy_plan res = None \<and> sy_conflicts res = []"
      by (auto simp: hub_merge_schema_def Let_def left_map_Inr)
    with True diff assms(3) show ?thesis by simp
  next
    case False
    from assms(3) obtain branch hd sq chain where r: "ref_row (hb_db h) default_branch = Inr (branch, hd, sq, chain)"
      and ours: "first_schema (hb_schemas h) t (branch # map sg_branch chain) = ours"
      by (auto simp: load_schema_def result_simps)
    let ?v = "(mo_result ?out)\<lparr>sv_epoch := sv_epoch ours + 1\<rparr>"
    from False assms(1-3) none r have h': "hb_db h' = hb_db h" "hb_live h' = hb_live h" "sy_plan res \<noteq> None"
      "sy_conflicts res = []" "hb_schemas h' = write_schema t branch ?v who (hb_schemas h)"
      by (auto simp: hub_merge_schema_def Let_def left_map_Inr)
    have p: "sv_table (mo_result ?out) = sv_table ours \<and> sv_pk (mo_result ?out) = sv_pk ours"
      by (simp add: schema_merge_identity)
    have "sv_epoch ?v = sv_epoch ours + 1" by simp
    moreover have "sv_table ?v = st_id t" "sv_pk ?v = st_pk t"
      using first_schema_pk [of "hb_schemas h" t "branch # map sg_branch chain"] ours p by simp_all
    ultimately have "load_schema h' t default_branch = Inr ?v"
      using write_schema_read [OF ours _ assms(5), of ?v who] r h' by (simp add: load_schema_def)
    with h' False diff same show ?thesis by (auto simp: version_column_def)
  qed
qed

subsection \<open>Applying plans\<close>

lemma find_map_update:
  "(\<And>r. key (g r) = key r) \<Longrightarrow>
     find (\<lambda>r. key r = i) (map (\<lambda>r. if key r = i then g r else r) rs) = map_option g (find (\<lambda>r. key r = i) rs)"
  by (induction rs) auto

lemma load_plan_set:
  "load_plan (set_plan_state i st who now h) i =
     (case load_plan h i of Inl e \<Rightarrow> Inl e
      | Inr r \<Rightarrow> Inr (r\<lparr>pl_state := st, pl_applied := (if st = PlanApplied then Some (who, now) else pl_applied r)\<rparr>))"
  by (simp add: load_plan_def set_plan_state_def some_or_def find_map_update split: option.split)

lemma set_plan_state_keeps [simp]:
  "hb_db (set_plan_state i st who now h) = hb_db h" "hb_journal (set_plan_state i st who now h) = hb_journal h"
  "hb_live (set_plan_state i st who now h) = hb_live h" "hb_columns (set_plan_state i st who now h) = hb_columns h"
  "hb_schemas (set_plan_state i st who now h) = hb_schemas h"
  by (simp_all add: set_plan_state_def)

lemma load_plan_cong: "hb_plans h = hb_plans h' \<Longrightarrow> load_plan h i = load_plan h' i"
  by (simp add: load_plan_def)

text \<open>A run that reports no error has every operation complete.\<close>

lemma run_ops_complete:
  assumes "run_ops store_journal ex p dn ops (j, d) = ((j', d'), None)"
    and "op_ordinals ops \<subseteq> journal_keys p j" and "op_ordinals ops \<inter> set dn \<subseteq> set (journal_completed p j)"
  shows "op_ordinals ops \<union> set (journal_completed p j) \<subseteq> set (journal_completed p j')"
  using assms
proof (induction ops arbitrary: j d)
  case Nil
  then show ?case by simp
next
  case (Cons o' ops)
  show ?case
  proof (cases "mo_ordinal o' \<in> set dn")
    case True
    with Cons.prems have "run_ops store_journal ex p dn ops (j, d) = ((j', d'), None)"
      "op_ordinals ops \<subseteq> journal_keys p j" "op_ordinals ops \<inter> set dn \<subseteq> set (journal_completed p j)"
      "mo_ordinal o' \<in> set (journal_completed p j)" by auto
    with Cons.IH [OF this(1-3)] show ?thesis by auto
  next
    case False
    let ?j = "mark_complete p (mo_ordinal o') (mark_started p (mo_ordinal o') j)"
    from False Cons.prems(1) obtain d1 where "run_ops store_journal ex p dn ops (?j, d1) = ((j', d'), None)"
      by (auto simp: store_journal_def Let_def split: sum.splits)
    from Cons.IH [OF this] Cons.prems(2,3) show ?thesis by (auto simp: completed_mark_complete)
  qed
qed

lemma apply_migration_complete:
  assumes "apply_migration store_journal ex plan (j, d) = ((j', d'), None)"
  shows "op_ordinals (mp_ops plan) \<subseteq> set (journal_completed (mp_table plan) j')"
    and "set (journal_completed (mp_table plan) j) \<subseteq> set (journal_completed (mp_table plan) j')"
proof -
  have "run_ops store_journal ex (mp_table plan) (journal_completed (mp_table plan) j) (mp_ops plan)
      (journal_begin plan j, d) = ((j', d'), None)"
    using assms by (simp add: apply_migration_def store_journal_def journal_begin_def)
  from run_ops_complete [OF this] show "op_ordinals (mp_ops plan) \<subseteq> set (journal_completed (mp_table plan) j')"
    and "set (journal_completed (mp_table plan) j) \<subseteq> set (journal_completed (mp_table plan) j')"
    by (auto simp: journal_begin_def)
qed

text \<open>Operations whose ordinals are all complete under the table are passed over.\<close>

lemma apply_migration_skipped:
  assumes "op_ordinals (mp_ops plan) \<subseteq> set (journal_completed (mp_table plan) j)"
  shows "apply_migration store_journal ex plan (j, d) = ((j, d), None)"
proof -
  have "set (journal_completed (mp_table plan) j) \<subseteq> journal_keys (mp_table plan) j"
    by (auto simp: journal_completed_def journal_keys_def)
  with assms have "journal_begin plan j = j" unfolding journal_begin_def by (intro journal_begin_present) auto
  moreover have "run_ops store_journal ex p dn ops (j, d) = ((j, d), None)" if "op_ordinals ops \<subseteq> set dn" for p dn ops
    using run_ops_skip [OF that, of store_journal ex p "[]" "(j, d)"] by simp
  ultimately show ?thesis using assms by (simp add: apply_migration_def store_journal_def)
qed

text \<open>What an apply of a plan came to when it reports success.\<close>

lemma apply_plan_Inr:
  assumes "apply_plan env i confirm who now h = (h', Inr rec)"
  shows "\<exists>old j' d' t live. load_plan h i = Inr old \<and> pl_state old \<notin> {PlanApplied, PlanAbandoned}
    \<and> (confirm \<or> plan_confirm old = []) \<and> rec = old\<lparr>pl_state := PlanApplied\<rparr>
    \<and> apply_migration store_journal (he_exec env) \<lparr>mp_table = pl_table old, mp_ops = pl_ops old\<rparr>
        (hb_journal h, hb_live h) = ((j', d'), None)
    \<and> find (\<lambda>t. st_id t = pl_table old) (db_tables (hb_db h)) = Some t
    \<and> he_introspect env d' (st_physical t) = Some live
    \<and> hb_journal h' = j' \<and> hb_live h' = d' \<and> hb_db h' = hb_db h
    \<and> load_plan h' i = Inr (old\<lparr>pl_state := PlanApplied, pl_applied := Some (who, now)\<rparr>)"
proof -
  from assms obtain old where old: "load_plan h i = Inr old" by (auto simp: apply_plan_def split: sum.splits)
  let ?h1 = "set_plan_state i PlanApplying [] now h"
  obtain j' d' e where run: "apply_migration store_journal (he_exec env)
      \<lparr>mp_table = pl_table old, mp_ops = pl_ops old\<rparr> (hb_journal h, hb_live h) = ((j', d'), e)"
    by (metis surj_pair)
  let ?h2 = "?h1\<lparr>hb_journal := j', hb_live := d'\<rparr>"
  have s: "pl_state old \<notin> {PlanApplied, PlanAbandoned}" "confirm \<or> plan_confirm old = []" "e = None"
    using assms old run by (auto simp: apply_plan_def Let_def split: if_splits option.splits)
  obtain t live where t: "find (\<lambda>t. st_id t = pl_table old) (db_tables (hb_db h)) = Some t"
      "he_introspect env d' (st_physical t) = Some live"
    and h': "h' = set_plan_state i PlanApplied who now (?h2\<lparr>hb_columns := refresh_columns (pl_table old) live (hb_columns h)\<rparr>)"
      "rec = old\<lparr>pl_state := PlanApplied\<rparr>"
    using assms old run s by (auto simp: apply_plan_def Let_def split: if_splits option.splits)
  have "load_plan (?h2\<lparr>hb_columns := cs\<rparr>) i = load_plan ?h1 i" for cs by (rule load_plan_cong) simp
  then have "load_plan h' i = Inr (old\<lparr>pl_state := PlanApplied, pl_applied := Some (who, now)\<rparr>)"
    unfolding h' load_plan_set by (simp add: load_plan_set old)
  with old run s t h' show ?thesis by auto
qed

text \<open>
  C36: Two plans of one table share a journal. The journal's rows are keyed by the table, not by the plan, so
  after one plan of a table was applied, a later plan of that table with no more operations executes none of
  them: the live database is left as it was, and the plan is still reported and recorded as applied. (Every
  plan numbers its operations from zero.)
\<close>

theorem later_plan_skipped:
  assumes "apply_plan env i confirm who now h = (h1, Inr a)"
    and "apply_plan env j True who' now' h1 = (h2, r)"
    and "load_plan h1 j = Inr b" and "pl_table b = pl_table a" and "pl_state b \<notin> {PlanApplied, PlanAbandoned}"
    and "map mo_ordinal (pl_ops a) = map int [0..<length (pl_ops a)]"
    and "map mo_ordinal (pl_ops b) = map int [0..<length (pl_ops b)]" and "length (pl_ops b) \<le> length (pl_ops a)"
  shows "hb_live h2 = hb_live h1 \<and> hb_journal h2 = hb_journal h1 \<and>
    (\<forall>t. find (\<lambda>t. st_id t = pl_table a) (db_tables (hb_db h)) = Some t \<longrightarrow>
      he_introspect env (hb_live h1) (st_physical t) \<noteq> None \<longrightarrow>
      r = Inr (b\<lparr>pl_state := PlanApplied\<rparr>) \<and>
      load_plan h2 j = Inr (b\<lparr>pl_state := PlanApplied, pl_applied := Some (who', now')\<rparr>))"
proof -
  obtain old j' d' where old: "a = old\<lparr>pl_state := PlanApplied\<rparr>" "hb_journal h1 = j'" "hb_db h1 = hb_db h"
      "apply_migration store_journal (he_exec env) \<lparr>mp_table = pl_table old, mp_ops = pl_ops old\<rparr>
        (hb_journal h, hb_live h) = ((j', d'), None)"
    using apply_plan_Inr [OF assms(1)] by blast
  have "op_ordinals (pl_ops a) \<subseteq> set (journal_completed (pl_table a) (hb_journal h1))"
    using apply_migration_complete(1) [OF old(4)] old(1,2) by simp
  moreover have "op_ordinals (pl_ops b) \<subseteq> op_ordinals (pl_ops a)"
  proof -
    have "op_ordinals ops = int ` {0..<length ops}" if "map mo_ordinal ops = map int [0..<length ops]" for ops
      using arg_cong [OF that, of set] by (simp add: op_ordinals_def)
    then show ?thesis using assms(6-8) by auto
  qed
  ultimately have run: "apply_migration store_journal (he_exec env) \<lparr>mp_table = pl_table b, mp_ops = pl_ops b\<rparr>
      (hb_journal h1, hb_live h1) = ((hb_journal h1, hb_live h1), None)"
    by (intro apply_migration_skipped) (simp add: assms(4))
  have live: "hb_live h2 = hb_live h1 \<and> hb_journal h2 = hb_journal h1"
    using assms(2,3,5) run by (auto simp: apply_plan_def Let_def split: if_splits option.splits)
  moreover have "\<exists>rec. r = Inr rec"
    if "find (\<lambda>t. st_id t = pl_table a) (db_tables (hb_db h)) = Some t"
      "he_introspect env (hb_live h1) (st_physical t) \<noteq> None" for t
    using assms(2-5) run that old(3) by (auto simp: apply_plan_def Let_def split: if_splits option.splits)
  moreover have "r = Inr rec \<Longrightarrow> r = Inr (b\<lparr>pl_state := PlanApplied\<rparr>) \<and>
      load_plan h2 j = Inr (b\<lparr>pl_state := PlanApplied, pl_applied := Some (who', now')\<rparr>)" for rec
    using apply_plan_Inr [of env j True who' now' h1 h2 rec] assms(2,3) by auto
  ultimately show ?thesis by blast
qed

end
