(* ===== verification/HubReview.thy ===== *)
theory HubReview
  imports HubSchema StoreReach
begin

text \<open>
  Proposals, reviews and persisted conflicts, after \<^verbatim>\<open>internal/store/proposal.go\<close> and \<^verbatim>\<open>SaveConflicts\<close> of
  \<^verbatim>\<open>merge.go\<close>: a proposal refers to its branches by id, a review belongs to a proposal, and merging a
  proposal checks the target's protection, merges the schema and then the data. The steps of that merge are
  transactions of their own, so it returns the state it left together with its result.
\<close>

subsection \<open>Proposals and reviews\<close>

definition create_proposal :: "string \<Rightarrow> string \<Rightarrow> string \<Rightarrow> string \<Rightarrow> string \<Rightarrow> i64 \<Rightarrow> 'd hub
    \<Rightarrow> hub_error + 'd hub \<times> proposal_row" where
  "create_proposal src into title description who now h =
     (case (find_branch (hb_db h) src, find_branch (hb_db h) into) of
        (Some f, Some i) \<Rightarrow>
          let p = \<lparr>pp_id = hb_serial h ProposalSerial, pp_from = rf_id f, pp_into = rf_id i, pp_title = title,
                   pp_description = description, pp_state = PropOpen, pp_merge = None, pp_by = who, pp_at = now\<rparr>
          in Inr (h\<lparr>hb_proposals := hb_proposals h @ [p], hb_serial := next_serial ProposalSerial h\<rparr>, p)
      | _ \<Rightarrow> Inl (NoBranchFor src into))"

definition find_proposal :: "'d hub \<Rightarrow> int \<Rightarrow> proposal_row option" where
  "find_proposal h i = find (\<lambda>p. pp_id p = i) (hb_proposals h)"

definition ref_by_id :: "dbase \<Rightarrow> string \<Rightarrow> ref option" where
  "ref_by_id db i = find (\<lambda>r. rf_id r = i) (db_refs db)"

text \<open>The proposal with the names of its branches; the join finds nothing when one is missing.\<close>

definition load_proposal :: "'d hub \<Rightarrow> int \<Rightarrow> hub_error + proposal_row \<times> string \<times> string" where
  "load_proposal h i =
     and_then (some_or (NoSuchProposal i) (find_proposal h i)) (\<lambda>p.
     and_then (some_or (NoSuchProposal i) (ref_by_id (hb_db h) (pp_from p))) (\<lambda>f.
     and_then (some_or (NoSuchProposal i) (ref_by_id (hb_db h) (pp_into p))) (\<lambda>t.
       Inr (p, rf_name f, rf_name t))))"

definition review_kinds :: "string list" where
  "review_kinds = [''comment'', ''approve'', ''request_changes'']"

text \<open>On a protected target the author's own approval is refused; a review needs its proposal.\<close>

definition add_review :: "int \<Rightarrow> string \<Rightarrow> string \<Rightarrow> string \<Rightarrow> i64 \<Rightarrow> 'd hub \<Rightarrow> hub_error + 'd hub" where
  "add_review i knd body who now h =
     and_then (guard (knd \<in> set review_kinds) BadReviewKind) (\<lambda>_.
     and_then (if knd = ''approve''
       then and_then (some_or (NoSuchProposal i) (find_proposal h i)) (\<lambda>p.
            and_then (some_or (NoSuchProposal i) (ref_by_id (hb_db h) (pp_into p))) (\<lambda>t.
              guard (pp_by p \<noteq> who \<or> \<not> rf_protected t) (SelfApproval who)))
       else Inr ()) (\<lambda>_.
     and_then (guard (find_proposal h i \<noteq> None) (NoSuchProposal i)) (\<lambda>_.
       Inr (h\<lparr>hb_reviews := hb_reviews h @
                [\<lparr>rv_id = hb_serial h ReviewSerial, rv_proposal = i, rv_principal = who, rv_kind = knd,
                  rv_body = body, rv_at = now\<rparr>], hb_serial := next_serial ReviewSerial h\<rparr>))))"

definition list_reviews :: "'d hub \<Rightarrow> int \<Rightarrow> review_row list" where
  "list_reviews h i = sort_key (\<lambda>r. sint (rv_at r)) (filter (\<lambda>r. rv_proposal r = i) (hb_reviews h))"

definition list_proposals :: "'d hub \<Rightarrow> proposal_state list \<Rightarrow> proposal_row list" where
  "list_proposals h states =
     rev (sort_key pp_id (filter (\<lambda>p. (states = [] \<or> pp_state p \<in> set states)
       \<and> ref_by_id (hb_db h) (pp_from p) \<noteq> None \<and> ref_by_id (hb_db h) (pp_into p) \<noteq> None) (hb_proposals h)))"

definition set_protection :: "string \<Rightarrow> bool \<Rightarrow> int \<Rightarrow> 'd hub \<Rightarrow> 'd hub" where
  "set_protection name on n h =
     h\<lparr>hb_db := (hb_db h)\<lparr>db_refs := map (\<lambda>r. if rf_kind r = BranchRef \<and> rf_name r = name
         then r\<lparr>rf_protected := on, rf_min_approvals := n\<rparr> else r) (db_refs (hb_db h))\<rparr>\<rparr>"

definition set_proposal_state :: "int \<Rightarrow> proposal_state \<Rightarrow> digest \<Rightarrow> 'd hub \<Rightarrow> 'd hub" where
  "set_proposal_state i st c h =
     h\<lparr>hb_proposals := map (\<lambda>p. if pp_id p = i
         then p\<lparr>pp_state := st, pp_merge := (if c = zero_digest then pp_merge p else Some c)\<rparr> else p) (hb_proposals h)\<rparr>"

text \<open>A branch a proposal refers to cannot be deleted: the foreign keys of the proposal table.\<close>

definition refers_to :: "ref \<Rightarrow> proposal_row \<Rightarrow> bool" where
  "refers_to r p \<longleftrightarrow> pp_from p = rf_id r \<or> pp_into p = rf_id r"

definition hub_delete_branch :: "string \<Rightarrow> 'd hub \<Rightarrow> hub_error + 'd hub" where
  "hub_delete_branch name h =
     and_then (left_map StoreError (delete_branch (hb_db h) name)) (\<lambda>db.
     and_then (guard (\<not> list_ex (\<lambda>p. list_ex (\<lambda>r. rf_kind r = BranchRef \<and> rf_name r = name \<and> refers_to r p) (db_refs (hb_db h)))
                       (hb_proposals h)) BranchReferenced) (\<lambda>_.
       Inr (h\<lparr>hb_db := db\<rparr>)))"

subsection \<open>Conflicts\<close>

definition conflict_row_of :: "text_lib \<Rightarrow> int \<Rightarrow> store_table \<Rightarrow> int \<Rightarrow> conflict \<Rightarrow> conflict_row" where
  "conflict_row_of lib proposal t i c =
     \<lparr>cn_id = i, cn_proposal = proposal, cn_table = st_id t, cn_pk = cf_pk c,
      cn_col = (if cf_has_col c then Some (cf_col c) else None), cn_kind = conflict_kind_string (cf_kind c),
      cn_base = value_string lib (cf_base c), cn_ours = value_string lib (cf_ours c),
      cn_theirs = value_string lib (cf_theirs c), cn_resolution = None\<rparr>"

definition save_conflicts :: "text_lib \<Rightarrow> int \<Rightarrow> store_table \<Rightarrow> conflict list \<Rightarrow> 'd hub \<Rightarrow> 'd hub" where
  "save_conflicts lib i t cs h =
     foldl (\<lambda>h c. h\<lparr>hb_conflicts := hb_conflicts h @ [conflict_row_of lib i t (hb_serial h ConflictSerial) c],
                    hb_serial := next_serial ConflictSerial h\<rparr>) h cs"

definition clear_conflicts :: "int \<Rightarrow> 'd hub \<Rightarrow> 'd hub" where
  "clear_conflicts i h = h\<lparr>hb_conflicts := filter (\<lambda>c. cn_proposal c \<noteq> i) (hb_conflicts h)\<rparr>"

definition resolve_conflict :: "int \<Rightarrow> string \<Rightarrow> string \<Rightarrow> string \<Rightarrow> 'd hub \<Rightarrow> hub_error + 'd hub" where
  "resolve_conflict i res val who h =
     and_then (guard (res \<in> set [''ours'', ''theirs'', ''custom'']) BadResolution) (\<lambda>_.
       Inr (h\<lparr>hb_conflicts := map (\<lambda>c. if cn_id c = i then c\<lparr>cn_resolution := Some (res, val, who)\<rparr> else c)
                (hb_conflicts h)\<rparr>))"

text \<open>A conflict as a reviewer sees it: with the column's name, when the table still has the column.\<close>

definition list_conflicts :: "store_table \<Rightarrow> int \<Rightarrow> 'd hub \<Rightarrow> (conflict_row \<times> string \<times> bool) list" where
  "list_conflicts t i h =
     map (\<lambda>c. (c, (case cn_col c of None \<Rightarrow> []
                  | Some k \<Rightarrow> (case table_column t k of Some a \<Rightarrow> ac_name a | None \<Rightarrow> [])), cn_resolution c \<noteq> None))
       (sort_key cn_id (filter (\<lambda>c. cn_proposal c = i) (hb_conflicts h)))"

subsection \<open>Merging a proposal\<close>

text \<open>The loop over the reviews: the first request for changes stops it; approvals count once per principal.\<close>

fun count_approvals :: "int \<Rightarrow> string \<Rightarrow> review_row list \<Rightarrow> string list \<Rightarrow> hub_error + string list" where
  "count_approvals i author [] acc = Inr acc"
| "count_approvals i author (r # rs) acc =
     (if rv_kind r = ''request_changes'' then Inl (ChangesRequested i (rv_principal r))
      else count_approvals i author rs
        (if rv_kind r = ''approve'' \<and> rv_principal r \<noteq> author then List.insert (rv_principal r) acc else acc))"

definition review_gate :: "'d hub \<Rightarrow> int \<Rightarrow> proposal_row \<Rightarrow> string \<Rightarrow> ref \<Rightarrow> hub_error + unit" where
  "review_gate h i p into r =
     (if rf_protected r
      then and_then (count_approvals i (pp_by p) (list_reviews h i) []) (\<lambda>approvals.
             guard (\<not> int (length approvals) < rf_min_approvals r)
               (TooFewApprovals into (rf_min_approvals r) i (length approvals)))
      else Inr ())"

record proposal_merge =
  pm_result :: "store_merge_result option"
  pm_schema :: "schema_conflict list"
  pm_pending :: "plan_row option"

definition proposal_message :: "int \<Rightarrow> string \<Rightarrow> string" where
  "proposal_message i title = ''Merge proposal #'' @ int_text i @ '': '' @ title"

text \<open>\<^verbatim>\<open>MergeProposal\<close> up to the schema merge, and from it on.\<close>

definition start_merge :: "'d hubenv \<Rightarrow> store_table \<Rightarrow> int \<Rightarrow> string \<Rightarrow> 'd hub
    \<Rightarrow> hub_error + proposal_row \<times> string \<times> string \<times> 'd hub \<times> schema_merge_result" where
  "start_merge env t i who h =
     and_then (load_proposal h i) (\<lambda>(p, src, into).
     and_then (guard (pp_state p \<noteq> PropMerged) (ProposalMerged i)) (\<lambda>_.
     and_then (some_or (StoreError (NoSuchBranch into)) (find_branch (hb_db h) into)) (\<lambda>r.
     and_then (review_gate h i p into r) (\<lambda>_.
     and_then (hub_merge_schema env t src into i who h) (\<lambda>(h1, sm). Inr (p, src, into, h1, sm))))))"

definition finish_merge :: "'d hubenv \<Rightarrow> store_table \<Rightarrow> live_index list \<Rightarrow> int \<Rightarrow> string \<Rightarrow> i64 \<Rightarrow> proposal_row
    \<Rightarrow> string \<Rightarrow> string \<Rightarrow> 'd hub \<Rightarrow> schema_merge_result \<Rightarrow> 'd hub \<times> (hub_error + proposal_merge)" where
  "finish_merge env t uniques i who now p src into h1 sm =
     (if sy_conflicts sm \<noteq> []
      then (set_proposal_state i PropConflicted zero_digest h1,
            Inr \<lparr>pm_result = None, pm_schema = sy_conflicts sm, pm_pending = None\<rparr>)
      else (case store_merge (he_store env) t uniques now src into who (proposal_message i (pp_title p)) True (hb_db h1) of
              Inl e \<Rightarrow> (h1, Inl (StoreError e))
            | Inr (db, res) \<Rightarrow>
                let h2 = h1\<lparr>hb_db := db\<rparr>;
                    out = \<lparr>pm_result = Some res, pm_schema = [], pm_pending = sy_plan sm\<rparr>
                in if sm_clean res then (set_proposal_state i PropMerged (sm_commit res) h2, Inr out)
                   else (set_proposal_state i PropConflicted zero_digest
                          (save_conflicts (he_text env) i t (sm_conflicts res) (clear_conflicts i h2)), Inr out)))"

definition merge_proposal :: "'d hubenv \<Rightarrow> store_table \<Rightarrow> live_index list \<Rightarrow> int \<Rightarrow> string \<Rightarrow> i64 \<Rightarrow> 'd hub
    \<Rightarrow> 'd hub \<times> (hub_error + proposal_merge)" where
  "merge_proposal env t uniques i who now h =
     (case start_merge env t i who h of
        Inl e \<Rightarrow> (h, Inl e)
      | Inr (p, src, into, h1, sm) \<Rightarrow> finish_merge env t uniques i who now p src into h1 sm)"

subsection \<open>What a merge of a proposal needed, and what it did\<close>

lemma count_approvals_Inr:
  "count_approvals i author rs acc = Inr out \<Longrightarrow>
     (\<forall>r \<in> set rs. rv_kind r \<noteq> ''request_changes'') \<and>
     set out = set acc \<union> {w. w \<noteq> author \<and> (\<exists>r \<in> set rs. rv_kind r = ''approve'' \<and> rv_principal r = w)} \<and>
     (distinct acc \<longrightarrow> distinct out)"
proof (induction rs arbitrary: acc)
  case (Cons r rs)
  then have k: "rv_kind r \<noteq> ''request_changes''" by (auto split: if_splits)
  with Cons.prems have "count_approvals i author rs
      (if rv_kind r = ''approve'' \<and> rv_principal r \<noteq> author then List.insert (rv_principal r) acc else acc) = Inr out" by simp
  from Cons.IH [OF this] k show ?case by (auto split: if_splits)
qed simp

definition approvers :: "'d hub \<Rightarrow> int \<Rightarrow> string \<Rightarrow> string set" where
  "approvers h i author =
     {w. w \<noteq> author \<and> (\<exists>r \<in> set (hb_reviews h). rv_proposal r = i \<and> rv_kind r = ''approve'' \<and> rv_principal r = w)}"

lemma review_gate_Inr:
  assumes "review_gate h i p into r = Inr u" and "rf_protected r"
  shows "(\<forall>rv \<in> set (hb_reviews h). rv_proposal rv = i \<longrightarrow> rv_kind rv \<noteq> ''request_changes'') \<and>
    rf_min_approvals r \<le> int (card (approvers h i (pp_by p)))"
proof -
  from assms obtain out where out: "count_approvals i (pp_by p) (list_reviews h i) [] = Inr out"
    "rf_min_approvals r \<le> int (length out)" by (auto simp: review_gate_def result_simps)
  from count_approvals_Inr [OF out(1)] have c: "\<forall>rv \<in> set (list_reviews h i). rv_kind rv \<noteq> ''request_changes''"
    "set out = approvers h i (pp_by p)" "distinct out" by (auto simp: approvers_def list_reviews_def)
  then have "length out = card (approvers h i (pp_by p))" by (metis distinct_card)
  with c(1) out(2) show ?thesis by (auto simp: list_reviews_def)
qed

lemma hub_merge_schema_keeps:
  assumes "hub_merge_schema env t src into i who h = Inr (h1, sm)"
  shows "hb_db h1 = hb_db h \<and> hb_proposals h1 = hb_proposals h \<and> hb_reviews h1 = hb_reviews h
    \<and> hb_conflicts h1 = hb_conflicts h \<and> hb_live h1 = hb_live h \<and> hb_journal h1 = hb_journal h
    \<and> hb_columns h1 = hb_columns h \<and> hb_serial h1 ProposalSerial = hb_serial h ProposalSerial
    \<and> hb_serial h1 ReviewSerial = hb_serial h ReviewSerial \<and> hb_serial h1 ConflictSerial = hb_serial h ConflictSerial"
  using assms by (auto simp: hub_merge_schema_def left_map_Inr and_then_Inr Let_def next_serial_def split: if_splits)

lemma start_merge_Inr:
  assumes "start_merge env t i who h = Inr (p, src, into, h1, sm)"
  shows "load_proposal h i = Inr (p, src, into) \<and> pp_state p \<noteq> PropMerged
    \<and> (\<exists>target u. find_branch (hb_db h) into = Some target \<and> review_gate h i p into target = Inr u)
    \<and> hub_merge_schema env t src into i who h = Inr (h1, sm)"
  using assms by (auto simp: start_merge_def result_simps)

text \<open>
  C3: One person cannot change a protected branch alone. A merge of a proposal changes anything at all only
  when the proposal exists and was not merged before; and when its target is protected, no review of it
  requests changes and at least the branch's number of distinct principals other than the author approved it.
\<close>

theorem protected_merge_reviewed:
  assumes "merge_proposal env t us i who now h = (h', r)" and "h' \<noteq> h"
  shows "\<exists>p src into target. load_proposal h i = Inr (p, src, into) \<and> pp_state p \<noteq> PropMerged \<and>
    find_branch (hb_db h) into = Some target \<and>
    (rf_protected target \<longrightarrow>
       (\<forall>rv \<in> set (hb_reviews h). rv_proposal rv = i \<longrightarrow> rv_kind rv \<noteq> ''request_changes'') \<and>
       rf_min_approvals target \<le> int (card (approvers h i (pp_by p))))"
proof -
  from assms obtain p src into h1 sm where "start_merge env t i who h = Inr (p, src, into, h1, sm)"
    by (auto simp: merge_proposal_def split: sum.splits)
  from start_merge_Inr [OF this] review_gate_Inr show ?thesis by blast
qed

lemma save_conflicts_rows:
  "hb_conflicts (save_conflicts lib i t cs h) = hb_conflicts h @
     map (\<lambda>(n, c). conflict_row_of lib i t (hb_serial h ConflictSerial + int n) c) (enumerate 0 cs)"
  "hb_db (save_conflicts lib i t cs h) = hb_db h" "hb_proposals (save_conflicts lib i t cs h) = hb_proposals h"
  "hb_reviews (save_conflicts lib i t cs h) = hb_reviews h"
proof -
  have "hb_conflicts (save_conflicts lib i t cs h) = hb_conflicts h @
      map (\<lambda>(n, c). conflict_row_of lib i t (hb_serial h ConflictSerial - int m + int n) c) (enumerate m cs) \<and>
    hb_db (save_conflicts lib i t cs h) = hb_db h \<and> hb_proposals (save_conflicts lib i t cs h) = hb_proposals h \<and>
    hb_reviews (save_conflicts lib i t cs h) = hb_reviews h" for m
  proof (induction cs arbitrary: h m)
    case (Cons c cs)
    let ?h = "h\<lparr>hb_conflicts := hb_conflicts h @ [conflict_row_of lib i t (hb_serial h ConflictSerial) c],
       hb_serial := next_serial ConflictSerial h\<rparr>"
    have "save_conflicts lib i t (c # cs) h = save_conflicts lib i t cs ?h" by (simp add: save_conflicts_def)
    with Cons.IH [of ?h "Suc m"] show ?case by (simp add: next_serial_def)
  qed (simp add: save_conflicts_def)
  from this [of 0] show "hb_conflicts (save_conflicts lib i t cs h) = hb_conflicts h @
     map (\<lambda>(n, c). conflict_row_of lib i t (hb_serial h ConflictSerial + int n) c) (enumerate 0 cs)"
    "hb_db (save_conflicts lib i t cs h) = hb_db h" "hb_proposals (save_conflicts lib i t cs h) = hb_proposals h"
    "hb_reviews (save_conflicts lib i t cs h) = hb_reviews h" by simp_all
qed

lemma find_proposal_set:
  "find_proposal (set_proposal_state i st c h) i = map_option
     (\<lambda>p. p\<lparr>pp_state := st, pp_merge := (if c = zero_digest then pp_merge p else Some c)\<rparr>) (find_proposal h i)"
  by (simp add: find_proposal_def set_proposal_state_def find_map_update)

lemma set_proposal_state_keeps [simp]:
  "hb_db (set_proposal_state i st c h) = hb_db h" "hb_conflicts (set_proposal_state i st c h) = hb_conflicts h"
  "hb_reviews (set_proposal_state i st c h) = hb_reviews h" "hb_serial (set_proposal_state i st c h) = hb_serial h"
  by (simp_all add: set_proposal_state_def)

lemma load_proposal_find: "load_proposal h i = Inr (p, src, into) \<Longrightarrow> find_proposal h i = Some p"
  by (auto simp: load_proposal_def result_simps)

lemma merged_refused:
  "find_proposal h i = Some p \<Longrightarrow> pp_state p = PropMerged \<Longrightarrow> \<exists>e. merge_proposal env t us i who now h = (h, Inl e)"
  by (auto simp: merge_proposal_def start_merge_def and_then_def guard_def dest: load_proposal_find split: sum.splits)

lemma store_merge_unclean:
  "store_merge env t us now src into who msg app db = Inr (db', res) \<Longrightarrow> \<not> sm_clean res \<Longrightarrow> db' = db"
  by (auto simp: store_merge_def result_simps split: if_splits)

lemma find_proposal_cong: "hb_proposals h = hb_proposals h' \<Longrightarrow> find_proposal h i = find_proposal h' i"
  by (simp add: find_proposal_def)

text \<open>
  C18: What merging a proposal does to the data is exactly the store's merge of its two branches. When that is
  clean the proposal is merged, under the merge's commit, and can never be merged again; when it is not, no
  row and no branch changes, the proposal is conflicted, and the conflicts persisted for it are those of
  this merge, in order and none of them resolved, whatever was recorded for it before.
\<close>

theorem proposal_merge_outcome:
  assumes "merge_proposal env t us i who now h = (h', Inr out)" and "pm_result out = Some res"
  shows "\<exists>p src into. load_proposal h i = Inr (p, src, into) \<and>
    store_merge (he_store env) t us now src into who (proposal_message i (pp_title p)) True (hb_db h)
      = Inr (hb_db h', res) \<and>
    (if sm_clean res
     then find_proposal h' i = Some (p\<lparr>pp_state := PropMerged,
            pp_merge := (if sm_commit res = zero_digest then pp_merge p else Some (sm_commit res))\<rparr>) \<and>
          (\<forall>env' t' us' who' now'. \<exists>e. merge_proposal (env' :: 'd hubenv) t' us' i who' now' h' = (h', Inl e))
     else hb_db h' = hb_db h \<and> find_proposal h' i = Some (p\<lparr>pp_state := PropConflicted\<rparr>) \<and>
          filter (\<lambda>c. cn_proposal c = i) (hb_conflicts h') =
            map (\<lambda>(n, c). conflict_row_of (he_text env) i t (hb_serial h ConflictSerial + int n) c)
              (enumerate 0 (sm_conflicts res)))"
proof -
  from assms(1) obtain p src into h1 sm where st: "start_merge env t i who h = Inr (p, src, into, h1, sm)"
    "finish_merge env t us i who now p src into h1 sm = (h', Inr out)"
    by (auto simp: merge_proposal_def split: sum.splits)
  note s = start_merge_Inr [OF st(1)]
  then have k: "hb_db h1 = hb_db h" "hb_proposals h1 = hb_proposals h"
    "hb_serial h1 ConflictSerial = hb_serial h ConflictSerial" using hub_merge_schema_keeps by blast+
  have p: "find_proposal h1 i = Some p" using load_proposal_find s find_proposal_cong [OF k(2)] by metis
  from st(2) assms(2) obtain db where m: "store_merge (he_store env) t us now src into who
      (proposal_message i (pp_title p)) True (hb_db h) = Inr (db, res)"
    and h': "h' = (if sm_clean res then set_proposal_state i PropMerged (sm_commit res) (h1\<lparr>hb_db := db\<rparr>)
       else set_proposal_state i PropConflicted zero_digest
         (save_conflicts (he_text env) i t (sm_conflicts res) (clear_conflicts i (h1\<lparr>hb_db := db\<rparr>))))"
    by (auto simp: finish_merge_def Let_def k(1) split: if_splits sum.splits)
  show ?thesis
  proof (cases "sm_clean res")
    case True
    let ?m = "if sm_commit res = zero_digest then pp_merge p else Some (sm_commit res)"
    have "find_proposal (h1\<lparr>hb_db := db\<rparr>) i = Some p" using p by (simp add: find_proposal_def)
    then have f: "find_proposal h' i = Some (p\<lparr>pp_state := PropMerged, pp_merge := ?m\<rparr>)"
      using h' True by (simp add: find_proposal_set)
    have "\<exists>e. merge_proposal env' t' us' i who' now' h' = (h', Inl e)" for env' :: "'d hubenv" and t' us' who' now'
      by (rule merged_refused [OF f]) simp
    with f m h' s True show ?thesis by auto
  next
    case False
    let ?h2 = "clear_conflicts i (h1\<lparr>hb_db := db\<rparr>)"
    have f: "find_proposal (save_conflicts (he_text env) i t (sm_conflicts res) ?h2) i = Some p"
      using p by (simp add: find_proposal_def save_conflicts_rows clear_conflicts_def)
    have "filter (\<lambda>c. cn_proposal c = i) (map (\<lambda>(n, c). conflict_row_of (he_text env) i t (k0 + int n) c) xs)
        = map (\<lambda>(n, c). conflict_row_of (he_text env) i t (k0 + int n) c) xs" for k0 xs
      by (induction xs) (auto simp: conflict_row_of_def)
    with f h' False m k store_merge_unclean [OF m False] s show ?thesis
      by (auto simp: find_proposal_set save_conflicts_rows clear_conflicts_def)
  qed
qed

end
