(* ===== verification/StoreKeys.thy ===== *)
theory StoreKeys
  imports StoreHistory
begin

text \<open>
  The keys of the commit, session and table rows over the operations on data, and what those operations
  leave to the other control tables: the tracked tables, and every reference that a row may refer to.
\<close>

definition commit_keys :: "dbase \<Rightarrow> (string \<times> int) list" where
  "commit_keys db = map (\<lambda>w. (cw_branch w, cw_seq w)) (db_commits db)"

definition unique_rows :: "dbase \<Rightarrow> bool" where
  "unique_rows db \<longleftrightarrow> distinct (commit_keys db) \<and> distinct (map ss_id (db_sessions db))
     \<and> distinct (map st_physical (db_tables db))"

definition ref_ids :: "dbase \<Rightarrow> string set" where
  "ref_ids db = rf_id ` set (db_refs db)"

definition grows :: "dbase \<Rightarrow> dbase \<Rightarrow> bool" where
  "grows db db' \<longleftrightarrow> db_tables db' = db_tables db \<and> ref_ids db \<subseteq> ref_ids db' \<and> (unique_rows db \<longrightarrow> unique_rows db')"

lemma grows_refl [simp, intro]: "grows db db"
  by (simp add: grows_def)

lemma grows_trans: "grows db db' \<Longrightarrow> grows db' db'' \<Longrightarrow> grows db db''"
  by (auto simp: grows_def)

lemma grows_same:
  assumes "db_tables db' = db_tables db" and "commit_keys db' = commit_keys db"
    and "map ss_id (db_sessions db') = map ss_id (db_sessions db)" and "ref_ids db \<subseteq> ref_ids db'"
  shows "grows db db'"
  using assms by (simp add: grows_def unique_rows_def)

lemma commit_keys_cong: "db_commits db' = db_commits db \<Longrightarrow> commit_keys db' = commit_keys db"
  by (simp add: commit_keys_def)

lemma grows_side: "grows db (db\<lparr>db_side := f\<rparr>)"
  by (rule grows_same) (simp_all add: commit_keys_def ref_ids_def)

lemma grows_update_ref: "(\<And>r. rf_id (f r) = rf_id r) \<Longrightarrow> grows db (update_ref i f db)"
proof (rule grows_same)
  assume id: "\<And>r. rf_id (f r) = rf_id r"
  have "map rf_id (db_refs (update_ref i f db)) = map rf_id (db_refs db)" by (simp add: update_ref_def id)
  then show "ref_ids db \<subseteq> ref_ids (update_ref i f db)"
    unfolding ref_ids_def set_map [symmetric] by simp
qed (simp_all add: commit_keys_def update_ref_def)

lemma grows_session: "(\<And>s. ss_id (f s) = ss_id s) \<Longrightarrow> grows db (update_session sid f db)"
  by (rule grows_same) (auto simp: commit_keys_def ref_ids_def update_session_def)

lemma grows_insert_commit: "insert_commit w db = Inr db' \<Longrightarrow> grows db db'"
  by (fastforce simp: insert_commit_def result_simps grows_def ref_ids_def unique_rows_def commit_keys_def list_ex_iff)

lemma grows_insert_ref: "insert_ref r db = Inr db' \<Longrightarrow> grows db db'"
  by (rule grows_same) (auto simp: insert_ref_def result_simps ref_ids_def commit_keys_def)

lemma grows_advance:
  assumes "insert_commit w (db\<lparr>db_side := f, db_live := g\<rparr>) = Inr db1"
  shows "grows db (advance_ref b c sq ch db1)"
proof -
  have "grows db (db\<lparr>db_side := f, db_live := g\<rparr>)" by (rule grows_same) (simp_all add: commit_keys_def ref_ids_def)
  from grows_trans [OF grows_trans [OF this grows_insert_commit [OF assms]] grows_update_ref] show ?thesis
    by (simp add: advance_ref_def)
qed

lemma store_commit_grows: "store_commit env t now rq db = Inr (db', d, n) \<Longrightarrow> grows db db'"
  by (auto simp: store_commit_def result_simps Let_def intro: grows_advance)

lemma store_merge_grows: "store_merge env t us now src into author msg app db = Inr (db', res) \<Longrightarrow> grows db db'"
  by (cases rule: store_merge_cases) (use store_commit_grows in blast)+

lemma update_from_parent_grows:
  assumes "store_update_from_parent env t us now name author db = Inr (db', res)"
  shows "grows db db'"
proof -
  obtain p db1 where m: "store_merge env t us now p name author (update_message name p) True db = Inr (db1, res)"
    and r: "db' = db1 \<or> rebase_chain p db1 name = Inr db'"
    using assms by (auto simp: store_update_from_parent_def result_simps Let_def split: option.splits if_splits)
  have "rebase_chain p db1 name = Inr db' \<Longrightarrow> grows db1 db'"
    by (auto simp: rebase_chain_def result_simps intro: grows_update_ref)
  with r grows_trans [OF store_merge_grows [OF m]] show ?thesis by blast
qed

lemma session_commit_grows:
  assumes "store_commit_session t sid now author msg db = Inr (db', d, n)"
  shows "grows db db'"
proof -
  obtain w f b c sq ch db1 where i: "insert_commit w (db\<lparr>db_side := f\<rparr>) = Inr db1"
    and db': "db' = update_session sid (\<lambda>u. u\<lparr>ss_state := SessCommitted\<rparr>) (advance_ref b c sq ch db1)"
    using assms by (auto simp: store_commit_session_def result_simps Let_def)
  have "insert_commit w (db\<lparr>db_side := f, db_live := db_live db\<rparr>) = Inr db1" using i by simp
  from grows_trans [OF grows_advance [OF this] grows_session] show ?thesis unfolding db' by simp
qed

lemma gc_grows: "grows db (fst (gc lease db))"
proof -
  have "grows d (fst (reap_expired lease d))" for d
  proof -
    have reap: "grows db d \<Longrightarrow> grows db (reap_session sid d)" for db d :: dbase and sid
      unfolding reap_session_def
      by (rule grows_trans [OF _ grows_session], rule foldl_inv [where P = "grows db"])
        (auto intro: grows_trans [OF _ grows_side])
    show ?thesis unfolding reap_expired_def Let_def fst_conv by (rule foldl_inv [where P = "grows d"]) (auto intro: reap)
  qed
  moreover have "grows d (fst (foldl (gc_table live) (d, n) ts))" for d live n ts
    by (rule foldl_inv [where P = "\<lambda>st. grows d (fst st)"])
      (auto simp: gc_table_def Let_def intro: grows_trans [OF _ grows_side])
  ultimately show ?thesis
    unfolding gc_def Let_def case_prod_beta fst_conv using grows_trans by blast
qed

text \<open>No operation on data drops a reference or a tracked table, or gives two rows one key.\<close>

lemma data_step_grows: "data_step env db db' \<Longrightarrow> grows db db'"
proof (induction rule: data_step.induct)
  case Fork
  then show ?case by (auto simp: create_ref_def Let_def result_simps intro: grows_insert_ref)
next
  case Tag
  then show ?case by (auto simp: create_tag_def Let_def result_simps intro: grows_insert_ref)
next
  case Commit
  show ?case by (rule store_commit_grows [OF Commit.hyps(1)])
next
  case Merge
  show ?case by (rule store_merge_grows [OF Merge.hyps(1)])
next
  case Update
  show ?case by (rule update_from_parent_grows [OF Update.hyps(1)])
next
  case Revert
  then show ?case using store_commit_grows by (fastforce simp: store_revert_def result_simps Let_def)
next
  case OpenSession
  then show ?case
    by (auto simp: open_session_row_def result_simps grows_def ref_ids_def unique_rows_def commit_keys_def list_ex_iff)
next
  case (SessionWrite t sid lease changes db db')
  then show ?case
    by (intro grows_same)
      (auto simp: store_session_write_def result_simps update_session_def ref_ids_def commit_keys_def)
next
  case SessionCommit
  show ?case by (rule session_commit_grows [OF SessionCommit.hyps(1)])
next
  case Abandon
  show ?case unfolding store_abandon_session_def by (rule grows_trans [OF grows_side grows_session]) simp
next
  case Collect
  show ?case by (rule gc_grows)
next
  case Purge
  then show ?case
    by (intro grows_same) (auto simp: purge_def result_simps Let_def ref_ids_def commit_keys_def)
next
  case Prune
  then show ?case
    by (auto simp: prune_def result_simps Let_def case_prod_beta split: if_splits intro: grows_side)
qed

lemma grows_unique: "grows db db' \<Longrightarrow> unique_rows db \<Longrightarrow> unique_rows db'"
  by (simp add: grows_def)

lemma track_unique: "track t rows db = Inr db' \<Longrightarrow> unique_rows db \<Longrightarrow> unique_rows db'"
  by (fastforce simp: track_def result_simps unique_rows_def commit_keys_def list_ex_iff)

lemma untrack_unique: "unique_rows db \<Longrightarrow> unique_rows (untrack t db)"
  by (auto simp: untrack_def unique_rows_def commit_keys_def intro: distinct_map_filter)

lemma delete_unique: "delete_branch db name = Inr db' \<Longrightarrow> unique_rows db \<Longrightarrow> unique_rows db'"
  by (auto simp: delete_branch_def Let_def result_simps unique_rows_def commit_keys_def)

end
