(* ===== verification/HubReach.thy ===== *)
theory HubReach
  imports HubReview StoreKeys
begin

text \<open>
  The store with all its control tables as a transition system: commits and the other operations on data,
  schema edits, plans, proposals and reviews in any order. Every reachable state satisfies the constraints
  the control tables declare, and what reviewing rests on never goes away.
\<close>

subsection \<open>Tracking with its column catalogue\<close>

definition column_rows :: "store_table \<Rightarrow> column_row list" where
  "column_rows t =
     map (\<lambda>(n, c). \<lparr>cr_table = st_id t, cr_id = ac_id c, cr_name = ac_name c, cr_type = ac_type c,
        cr_kind = ac_kind c, cr_nullable = ac_nullable c, cr_ordinal = n, cr_dropped = None\<rparr>)
       (enumerate 0 (st_columns t))"

text \<open>The column rows are inserted under the primary key table and id; the table's id is a fresh one.\<close>

definition hub_track :: "store_table \<Rightarrow> table \<Rightarrow> 'd hub \<Rightarrow> st_error + 'd hub" where
  "hub_track t rows h =
     and_then (track t rows (hb_db h)) (\<lambda>db.
     and_then (guard (distinct (map ac_id (st_columns t))) DuplicateColumn) (\<lambda>_.
       Inr (h\<lparr>hb_db := db, hb_columns := hb_columns h @ column_rows t,
              hb_sidecols := (hb_sidecols h)(st_id t := fmap_of_list (map (\<lambda>c. (ac_id c, ac_type c)) (st_columns t)))\<rparr>)))"

definition hub_untrack :: "store_table \<Rightarrow> 'd hub \<Rightarrow> 'd hub" where
  "hub_untrack t h =
     h\<lparr>hb_db := untrack t (hb_db h), hb_columns := filter (\<lambda>r. cr_table r \<noteq> st_id t) (hb_columns h)\<rparr>"

subsection \<open>The constraints\<close>

definition refs_exist :: "dbase \<Rightarrow> proposal_row list \<Rightarrow> bool" where
  "refs_exist db ps \<longleftrightarrow> (\<forall>p \<in> set ps. ref_by_id db (pp_from p) \<noteq> None \<and> ref_by_id db (pp_into p) \<noteq> None)"

definition serial_ok :: "('r \<Rightarrow> int) \<Rightarrow> int \<Rightarrow> 'r list \<Rightarrow> bool" where
  "serial_ok key n rs \<longleftrightarrow> distinct (map key rs) \<and> (\<forall>r \<in> set rs. key r < n)"

definition reviews_ok :: "int set \<Rightarrow> review_row list \<Rightarrow> bool" where
  "reviews_ok ps rs \<longleftrightarrow> (\<forall>r \<in> set rs. rv_kind r \<in> set review_kinds \<and> rv_proposal r \<in> ps)"

definition columns_ok :: "i64 set \<Rightarrow> column_row list \<Rightarrow> bool" where
  "columns_ok ts rs \<longleftrightarrow> distinct (map (\<lambda>r. (cr_table r, cr_id r)) rs) \<and> cr_table ` set rs \<subseteq> ts"

definition proposal_ids :: "'d hub \<Rightarrow> int set" where
  "proposal_ids h = pp_id ` set (hb_proposals h)"

definition control_ok :: "'d hub \<Rightarrow> bool" where
  "control_ok h \<longleftrightarrow>
     store_inv (hb_db h) \<and> history_ok (hb_db h) \<and> unique_rows (hb_db h)
     \<and> serial_ok pp_id (hb_serial h ProposalSerial) (hb_proposals h) \<and> refs_exist (hb_db h) (hb_proposals h)
     \<and> serial_ok rv_id (hb_serial h ReviewSerial) (hb_reviews h) \<and> reviews_ok (proposal_ids h) (hb_reviews h)
     \<and> serial_ok cn_id (hb_serial h ConflictSerial) (hb_conflicts h) \<and> cn_proposal ` set (hb_conflicts h) \<subseteq> proposal_ids h
     \<and> serial_ok pl_id (hb_serial h PlanSerial) (hb_plans h)
     \<and> distinct (map (\<lambda>r. (jr_plan r, jr_ordinal r)) (hb_journal h))
     \<and> distinct (map (\<lambda>r. (sr_table r, sr_branch r, sr_epoch r)) (hb_schemas h))
     \<and> columns_ok (st_id ` set (db_tables (hb_db h))) (hb_columns h)"

lemma serial_ok_append: "serial_ok key n rs \<Longrightarrow> key r = n \<Longrightarrow> serial_ok key (n + 1) (rs @ [r])"
  by (auto simp: serial_ok_def)

lemma serial_ok_map: "(\<And>r. key (f r) = key r) \<Longrightarrow> serial_ok key n (map f rs) = serial_ok key n rs"
  by (simp add: serial_ok_def o_def)

lemma serial_ok_filter: "serial_ok key n rs \<Longrightarrow> serial_ok key n (filter P rs)"
  by (auto simp: serial_ok_def distinct_map inj_on_def)

lemma find_proposal_ids: "find_proposal h i \<noteq> None \<longleftrightarrow> i \<in> proposal_ids h"
  by (auto simp: find_proposal_def proposal_ids_def find_None_iff)

subsection \<open>The steps\<close>

inductive hub_step :: "'d hubenv \<Rightarrow> 'd hub \<Rightarrow> 'd hub \<Rightarrow> bool" for env :: "'d hubenv" where
  StoreOp: "data_step (he_store env) (hb_db h) db \<Longrightarrow> hub_step env h (h\<lparr>hb_db := db\<rparr>)"
| DeleteOp: "hub_delete_branch name h = Inr h' \<Longrightarrow> hub_step env h h'"
| TrackOp: "hub_track t rows h = Inr h' \<Longrightarrow> hub_step env h h'"
| UntrackOp: "hub_step env h (hub_untrack t h)"
| SchemaOp: "alter_branch_schema env t name want who h = Inr (h', res) \<Longrightarrow> hub_step env h h'"
| PlanOp: "apply_plan env i confirm who now h = (h', r) \<Longrightarrow> hub_step env h h'"
| ProposeOp: "create_proposal src into title description who now h = Inr (h', p) \<Longrightarrow> hub_step env h h'"
| ReviewOp: "add_review i knd body who now h = Inr h' \<Longrightarrow> hub_step env h h'"
| ProtectOp: "hub_step env h (set_protection name on n h)"
| ResolveOp: "resolve_conflict i res val who h = Inr h' \<Longrightarrow> hub_step env h h'"
| MergeOp: "merge_proposal env t us i who now h = (h', r) \<Longrightarrow> t \<in> set (db_tables (hb_db h)) \<Longrightarrow>
    main_head (hb_db h) + 1 < max_seq \<Longrightarrow>
    (\<And>out res. r = Inr out \<Longrightarrow> pm_result out = Some res \<Longrightarrow> list_all (keyed t) (sm_changes res)) \<Longrightarrow>
    hub_step env h h'"

inductive_cases hub_stepE: "hub_step env h h'"

inductive hub_reach :: "'d hubenv \<Rightarrow> 'd hub \<Rightarrow> 'd hub \<Rightarrow> bool" for env :: "'d hubenv" and h0 where
  hub_refl: "hub_reach env h0 h0"
| hub_more: "hub_reach env h0 h \<Longrightarrow> hub_step env h h' \<Longrightarrow> hub_reach env h0 h'"

subsection \<open>Each step keeps the constraints\<close>

lemma write_schema_keys:
  assumes "distinct (map (\<lambda>r. (sr_table r, sr_branch r, sr_epoch r)) rows)"
  shows "distinct (map (\<lambda>r. (sr_table r, sr_branch r, sr_epoch r)) (write_schema t branch v who rows))"
proof (cases "list_ex (\<lambda>r. sr_table r = st_id t \<and> sr_branch r = branch \<and> sr_epoch r = sv_epoch v) rows")
  case True
  have "map (\<lambda>r. (sr_table r, sr_branch r, sr_epoch r)) (write_schema t branch v who rows) =
      map (\<lambda>r. (sr_table r, sr_branch r, sr_epoch r)) rows"
    unfolding write_schema_def Let_def if_P [OF True] by simp
  with assms show ?thesis by simp
next
  case False
  then show ?thesis unfolding write_schema_def Let_def if_not_P [OF False]
    using assms by (auto simp: list_ex_iff)
qed

lemma journal_keys_distinct:
  assumes "distinct (map (\<lambda>r. (jr_plan r, jr_ordinal r)) j)"
  shows "distinct (map (\<lambda>r. (jr_plan r, jr_ordinal r)) (fst (fst (apply_migration store_journal ex plan (j, d)))))"
proof -
  let ?k = "\<lambda>r. (jr_plan r, jr_ordinal r)"
  have ins: "distinct (map ?k (journal_insert p o' j))" if "distinct (map ?k j)" for p o' j
    using that by (auto simp: journal_insert_def list_ex_iff)
  have "distinct (map ?k (journal_begin plan j))"
  proof -
    have "distinct (map ?k (foldl (\<lambda>j o'. journal_insert p o' j) j ops))" if "distinct (map ?k j)" for p ops j
      using that by (induction ops arbitrary: j) (simp_all add: ins)
    then show ?thesis using assms by (simp add: journal_begin_def)
  qed
  moreover have marks: "map ?k (mark_started p n j) = map ?k j" "map ?k (mark_complete p n j) = map ?k j" for p n j
    by (auto simp: mark_started_def mark_complete_def)
  have "map ?k (fst (fst (run_ops store_journal ex p dn ops (j, d)))) = map ?k j" for p dn ops j d
    by (induction ops arbitrary: j d) (auto simp: store_journal_def Let_def marks split: sum.split)
  ultimately show ?thesis by (simp add: apply_migration_def store_journal_def Let_def)
qed

lemma upsert_column_ok:
  assumes "columns_ok ts rows" and "table \<in> ts"
  shows "columns_ok ts (upsert_column table i n c rows)"
proof (cases "list_ex (\<lambda>r. cr_table r = table \<and> cr_id r = i) rows")
  case True
  have "map (\<lambda>r. (cr_table r, cr_id r)) (upsert_column table i n c rows) = map (\<lambda>r. (cr_table r, cr_id r)) rows"
    unfolding upsert_column_def Let_def if_P [OF True] by simp
  then have k: "map (\<lambda>r. (cr_table r, cr_id r)) (upsert_column table i n c rows) = map (\<lambda>r. (cr_table r, cr_id r)) rows" .
  have "cr_table ` set (upsert_column table i n c rows) = cr_table ` set rows"
    using arg_cong [OF k, of "\<lambda>l. fst ` set l"] by (simp add: image_image)
  with k assms show ?thesis by (simp add: columns_ok_def)
next
  case False
  then show ?thesis unfolding upsert_column_def Let_def if_not_P [OF False]
    using assms by (auto simp: columns_ok_def list_ex_iff)
qed

lemma refresh_columns_ok:
  assumes "columns_ok ts rows" and "table \<in> ts"
  shows "columns_ok ts (refresh_columns table cols rows)"
proof -
  have fold: "columns_ok ts (fst (foldl (refresh_step table known) (rows, mx, seen) ncs))"
    if "columns_ok ts rows" for known mx seen ncs rows
    using that
  proof (induction ncs arbitrary: rows mx seen)
    case (Cons nc ncs)
    show ?case
      using Cons.IH upsert_column_ok [OF Cons.prems assms(2)]
      by (cases nc) (simp add: refresh_step_def Let_def split: option.split)
  qed simp
  have mark: "columns_ok ts (mark_dropped table gone rows) = columns_ok ts rows" for gone rows
  proof -
    have k: "map (\<lambda>r. (cr_table r, cr_id r)) (mark_dropped table gone rows) = map (\<lambda>r. (cr_table r, cr_id r)) rows"
      by (simp add: mark_dropped_def)
    have "cr_table ` set (mark_dropped table gone rows) = cr_table ` set rows"
      using arg_cong [OF k, of "\<lambda>l. fst ` set l"] by (simp add: image_image)
    with k show ?thesis by (simp add: columns_ok_def)
  qed
  show ?thesis
    using fold [OF assms(1)] by (simp add: refresh_columns_def Let_def mark split: prod.split)
      (metis fst_conv)
qed

lemma ref_by_id_None: "ref_by_id db i = None \<longleftrightarrow> i \<notin> rf_id ` set (db_refs db)"
  by (auto simp: ref_by_id_def find_None_iff)

lemma refs_exist_map:
  "(\<And>p. pp_from (f p) = pp_from p \<and> pp_into (f p) = pp_into p) \<Longrightarrow> refs_exist db (map f ps) = refs_exist db ps"
  by (simp add: refs_exist_def)

lemma refs_exist_cong:
  assumes "map rf_id (db_refs db') = map rf_id (db_refs db)"
  shows "refs_exist db' ps = refs_exist db ps"
proof -
  have "rf_id ` set (db_refs db') = rf_id ` set (db_refs db)" using arg_cong [OF assms, of set] by simp
  then show ?thesis unfolding refs_exist_def ref_by_id_None by simp
qed

lemma refs_exist_mono:
  assumes "refs_exist db ps" and "ref_ids db \<subseteq> ref_ids db'"
  shows "refs_exist db' ps"
  using assms unfolding refs_exist_def ref_by_id_None ref_ids_def by blast

lemma control_ok_db:
  assumes "control_ok h" and "store_inv db" "history_ok db" "unique_rows db" and "refs_exist db (hb_proposals h)"
    and "st_id ` set (db_tables (hb_db h)) \<subseteq> st_id ` set (db_tables db)"
  shows "control_ok (h\<lparr>hb_db := db\<rparr>)"
proof -
  have "columns_ok (st_id ` set (db_tables db)) (hb_columns h)"
    using assms(1,6) order.trans by (fastforce simp: control_ok_def columns_ok_def)
  with assms(1-5) show ?thesis by (simp add: control_ok_def proposal_ids_def)
qed

lemma control_ok_data:
  assumes "control_ok h" and "store_inv db" and "history_ok db" and "grows (hb_db h) db"
  shows "control_ok (h\<lparr>hb_db := db\<rparr>)"
proof (rule control_ok_db [OF assms(1-3)])
  show "unique_rows db" using assms(1,4) by (simp add: control_ok_def grows_def)
  show "refs_exist db (hb_proposals h)"
    by (rule refs_exist_mono [of "hb_db h"]) (use assms(1,4) in \<open>simp_all add: control_ok_def grows_def\<close>)
qed (use assms(4) in \<open>simp add: grows_def\<close>)

lemma set_protection_store:
  assumes "store_inv (hb_db h)"
  shows "store_inv (hb_db (set_protection name on n h))"
    and "map rf_id (db_refs (hb_db (set_protection name on n h))) = map rf_id (db_refs (hb_db h))"
    and "db_tables (hb_db (set_protection name on n h)) = db_tables (hb_db h)"
proof -
  let ?db = "hb_db h" and ?db' = "hb_db (set_protection name on n h)"
  let ?f = "\<lambda>r :: ref. r\<lparr>rf_protected := on, rf_min_approvals := n\<rparr>"
  show "map rf_id (db_refs ?db') = map rf_id (db_refs ?db)" "db_tables ?db' = db_tables ?db"
    by (auto simp: set_protection_def)
  have refs: "refs_inv ?db" using assms by (simp add: store_inv_def)
  show "store_inv ?db'"
  proof (cases "find_branch ?db name")
    case None
    then have "map (\<lambda>r. if rf_kind r = BranchRef \<and> rf_name r = name then ?f r else r) (db_refs ?db) = db_refs ?db"
      by (auto simp: find_branch_def find_None_iff intro!: map_idI)
    then have "?db' = ?db" by (simp add: set_protection_def)
    with assms show ?thesis by simp
  next
    case (Some r)
    then have r: "r \<in> set (db_refs ?db)" "rf_kind r = BranchRef" "rf_name r = name" using find_branch_mem by auto
    have names: "names_ok (db_refs ?db)" using refs by (simp add: refs_inv_def)
    have "(rf_kind q = BranchRef \<and> rf_name q = name) \<longleftrightarrow> rf_id q = rf_id r" if "q \<in> set (db_refs ?db)" for q
      using ref_name_inj [OF names that r(1)] ref_id_inj [OF names that r(1)] r by auto
    then have db': "db_refs ?db' = db_refs (update_ref (rf_id r) ?f ?db)"
      by (auto simp: set_protection_def update_ref_def)
    have t: "rf_chain r \<noteq> [] \<and> hd (rf_chain r) = \<lparr>sg_branch = rf_id r, sg_seq = rf_seq r\<rparr>"
      using refs r unfolding refs_inv_def tree_ok_def by blast
    have seq: "rf_id r = db_default ?db \<Longrightarrow> rf_seq r < max_seq"
    proof -
      assume d: "rf_id r = db_default ?db"
      obtain m where m: "main_ref ?db m" using refs by (auto simp: refs_inv_def)
      then have "m \<in> set (db_refs ?db)" using find_branch_mem by (auto simp: main_ref_def)
      with m d ref_id_inj [OF names _ r(1)] have "m = r" by (auto simp: main_ref_def)
      with m show ?thesis by (simp add: main_ref_def)
    qed
    have dd: "db_default ?db' = db_default ?db" by (simp add: set_protection_def)
    have u: "refs_inv ?db'" "find_branch ?db' k = map_option (\<lambda>q. if rf_id q = rf_id r then ?f q else q) (find_branch ?db k)" for k
      using update_ref_inv [OF refs r(1,2), of ?f ?db'] t seq db' dd by (auto simp: chain_ids_def)
    have mh: "main_head ?db' = main_head ?db" by (auto simp: main_head_def u(2) split: option.split)
    have keep: "db_sessions ?db' = db_sessions ?db" "db_tables ?db' = db_tables ?db" "db_side ?db' = db_side ?db"
      "db_live ?db' = db_live ?db" by (simp_all add: set_protection_def)
    have ki: "map (\<lambda>r. (rf_kind r, rf_id r)) (db_refs ?db') = map (\<lambda>r. (rf_kind r, rf_id r)) (db_refs ?db)"
      by (auto simp: set_protection_def)
    have pair: "(\<exists>r \<in> set rs. rf_kind r = BranchRef \<and> rf_id r = i) \<longleftrightarrow>
        (BranchRef, i) \<in> set (map (\<lambda>r. (rf_kind r, rf_id r)) rs)" for i and rs :: "ref list" by force
    have kinds: "(\<exists>r \<in> set (db_refs ?db'). rf_kind r = BranchRef \<and> rf_id r = i) \<longleftrightarrow>
        (\<exists>r \<in> set (db_refs ?db). rf_kind r = BranchRef \<and> rf_id r = i)" for i
      unfolding pair ki ..
    have "sessions_ok ?db'"
      using assms by (simp add: store_inv_def sessions_ok_def keep dd kinds)
    with assms u(1) show ?thesis by (simp add: store_inv_def table_inv_def keep dd mh)
  qed
qed

lemma set_protection_rows:
  "history_ok (hb_db h) \<Longrightarrow> history_ok (hb_db (set_protection name on n h))"
  "unique_rows (hb_db h) \<Longrightarrow> unique_rows (hb_db (set_protection name on n h))"
proof -
  assume h: "history_ok (hb_db h)"
  show "history_ok (hb_db (set_protection name on n h))"
    by (rule history_keep [OF h]) (use h in \<open>auto simp: set_protection_def history_ok_def\<close>)
qed (simp add: set_protection_def unique_rows_def commit_keys_def)

lemma control_ok_proposal_update:
  assumes "control_ok h"
  shows "control_ok (set_proposal_state i st c h)"
proof -
  have k: "map pp_id (hb_proposals (set_proposal_state i st c h)) = map pp_id (hb_proposals h)"
    by (auto simp: set_proposal_state_def)
  then have ids: "proposal_ids (set_proposal_state i st c h) = proposal_ids h"
    unfolding proposal_ids_def by (metis set_map)
  have s: "serial_ok pp_id n (hb_proposals (set_proposal_state i st c h)) = serial_ok pp_id n (hb_proposals h)" for n
    unfolding set_proposal_state_def by (simp, rule serial_ok_map) simp
  have "refs_exist (hb_db h) (hb_proposals (set_proposal_state i st c h)) = refs_exist (hb_db h) (hb_proposals h)"
    unfolding set_proposal_state_def by (simp, rule refs_exist_map) simp
  moreover have "hb_plans (set_proposal_state i st c h) = hb_plans h" "hb_journal (set_proposal_state i st c h) = hb_journal h"
    "hb_schemas (set_proposal_state i st c h) = hb_schemas h" "hb_columns (set_proposal_state i st c h) = hb_columns h"
    by (simp_all add: set_proposal_state_def)
  ultimately show ?thesis using assms by (simp add: control_ok_def ids s)
qed

lemma control_ok_conflicts:
  fixes h :: "'d hub"
  assumes "control_ok h" and "i \<in> proposal_ids h"
  shows "control_ok (save_conflicts lib i t cs (clear_conflicts i h))"
proof -
  have clear: "control_ok (clear_conflicts i h)" "proposal_ids (clear_conflicts i h) = proposal_ids h"
    using assms(1) by (auto simp: control_ok_def clear_conflicts_def proposal_ids_def serial_ok_filter)
  have "control_ok (save_conflicts lib i t cs g)" if "control_ok g" "i \<in> proposal_ids g" for g :: "'d hub"
    using that
  proof (induction cs arbitrary: g)
    case (Cons c cs)
    let ?g = "g\<lparr>hb_conflicts := hb_conflicts g @ [conflict_row_of lib i t (hb_serial g ConflictSerial) c],
       hb_serial := next_serial ConflictSerial g\<rparr>"
    have "control_ok ?g" "i \<in> proposal_ids ?g"
      using Cons.prems serial_ok_append [of cn_id "hb_serial g ConflictSerial" "hb_conflicts g"
          "conflict_row_of lib i t (hb_serial g ConflictSerial) c"]
      by (auto simp: control_ok_def next_serial_def proposal_ids_def conflict_row_of_def)
    from Cons.IH [OF this] show ?case by (simp add: save_conflicts_def)
  qed (simp add: save_conflicts_def)
  with clear assms(2) show ?thesis by simp
qed

lemma merge_schema_ok:
  assumes "control_ok h" and "hub_merge_schema env t src into i who h = Inr (h1, sm)"
  shows "control_ok h1"
proof -
  from assms(2) consider "h1 = h"
    | rec branch v where "h1 = h\<lparr>hb_plans := hb_plans h @ [rec], hb_serial := next_serial PlanSerial h,
        hb_schemas := write_schema t branch v who (hb_schemas h)\<rparr>" "pl_id rec = hb_serial h PlanSerial"
    by (auto simp: hub_merge_schema_def left_map_Inr and_then_Inr Let_def split: if_splits)
  then show ?thesis
  proof cases
    case 2
    then show ?thesis
      using assms(1) serial_ok_append [of pl_id _ "hb_plans h" rec] write_schema_keys
      by (auto simp: control_ok_def next_serial_def proposal_ids_def)
  qed (use assms(1) in simp)
qed

lemma apply_plan_ok:
  assumes "control_ok h" and "apply_plan env i confirm who now h = (h', r)"
  shows "control_ok h'"
proof -
  have plan: "control_ok (set_plan_state j st w n g)" if "control_ok g" for j st w n and g :: "'a hub"
  proof -
    have "serial_ok pl_id m (hb_plans (set_plan_state j st w n g)) = serial_ok pl_id m (hb_plans g)" for m
      unfolding set_plan_state_def by (simp, rule serial_ok_map) simp
    moreover have "hb_proposals (set_plan_state j st w n g) = hb_proposals g" "hb_reviews (set_plan_state j st w n g) = hb_reviews g"
      "hb_conflicts (set_plan_state j st w n g) = hb_conflicts g" "hb_serial (set_plan_state j st w n g) = hb_serial g"
      by (simp_all add: set_plan_state_def)
    ultimately show ?thesis using that by (simp add: control_ok_def proposal_ids_def)
  qed
  show ?thesis
  proof (cases "load_plan h i")
    case (Inl e)
    with assms show ?thesis by (simp add: apply_plan_def)
  next
    case (Inr rec)
    let ?h1 = "set_plan_state i PlanApplying [] now h"
    let ?run = "apply_migration store_journal (he_exec env) \<lparr>mp_table = pl_table rec, mp_ops = pl_ops rec\<rparr> (hb_journal ?h1, hb_live ?h1)"
    let ?h2 = "?h1\<lparr>hb_journal := fst (fst ?run), hb_live := snd (fst ?run)\<rparr>"
    have h1: "control_ok ?h1" by (rule plan [OF assms(1)])
    then have "control_ok ?h2" using journal_keys_distinct
      by (auto simp: control_ok_def proposal_ids_def)
    moreover have "control_ok (?h2\<lparr>hb_columns := refresh_columns (pl_table rec) live (hb_columns ?h2)\<rparr>)"
      if "find (\<lambda>t. st_id t = pl_table rec) (db_tables (hb_db ?h2)) = Some t" "control_ok ?h2" for live t
    proof -
      have "pl_table rec \<in> st_id ` set (db_tables (hb_db ?h2))" using find_SomeD [OF that(1)] by (metis imageI)
      with that(2) refresh_columns_ok show ?thesis by (auto simp: control_ok_def proposal_ids_def)
    qed
    ultimately show ?thesis using assms Inr h1 plan
      by (auto simp: apply_plan_def Let_def split: if_splits option.splits)
  qed
qed

lemma track_parts:
  "track t rows db = Inr db' \<Longrightarrow> db_refs db' = db_refs db \<and> db_tables db' = db_tables db @ [t] \<and>
     st_id t \<notin> st_id ` set (db_tables db)"
  by (auto simp: track_def result_simps list_ex_iff)

lemma hub_step_ok:
  assumes "hub_step env h h'" and "control_ok h" and "plain_env (he_store env)"
  shows "control_ok h'"
  using assms(1)
proof cases
  case (StoreOp db)
  have "store_inv (hb_db h)" "history_ok (hb_db h)" using assms(2) by (simp_all add: control_ok_def)
  with StoreOp data_step_inv [OF StoreOp(2) assms(3)] data_step_history [OF StoreOp(2)] data_step_grows [OF StoreOp(2)]
  show ?thesis by (simp add: control_ok_data [OF assms(2)])
next
  case (DeleteOp name)
  then obtain db where db: "delete_branch (hb_db h) name = Inr db" "h' = h\<lparr>hb_db := db\<rparr>"
    and free: "\<forall>p \<in> set (hb_proposals h). \<forall>r \<in> set (db_refs (hb_db h)). rf_kind r = BranchRef \<longrightarrow> rf_name r = name \<longrightarrow> \<not> refers_to r p"
    by (auto simp: hub_delete_branch_def result_simps left_map_Inr list_ex_iff)
  have old: "store_inv (hb_db h)" "history_ok (hb_db h)" "unique_rows (hb_db h)" "refs_exist (hb_db h) (hb_proposals h)"
    using assms(2) by (simp_all add: control_ok_def)
  have refs: "db_refs db = filter (\<lambda>r. \<not> (rf_kind r = BranchRef \<and> rf_name r = name)) (db_refs (hb_db h))"
    "db_tables db = db_tables (hb_db h)"
    using db(1) by (auto simp: delete_branch_def Let_def result_simps)
  have "refs_exist db (hb_proposals h)"
    using old(4) free unfolding refs_exist_def ref_by_id_None refs(1) refers_to_def by fastforce
  then show ?thesis unfolding db(2)
    by (intro control_ok_db [OF assms(2)] delete_branch_store [OF old(1) db(1)] delete_unique [OF db(1) old(3)]
        store_step_history [OF store_step.Delete [OF db(1)] old(2)]) (simp_all add: refs(2))
next
  case (TrackOp t rows)
  then obtain db where db: "track t rows (hb_db h) = Inr db" "distinct (map ac_id (st_columns t))" "h' = h\<lparr>hb_db := db, hb_columns := hb_columns h @ column_rows t,
      hb_sidecols := (hb_sidecols h)(st_id t := fmap_of_list (map (\<lambda>c. (ac_id c, ac_type c)) (st_columns t)))\<rparr>"
    by (auto simp: hub_track_def result_simps)
  have "store_inv (hb_db h)" "history_ok (hb_db h)" "unique_rows (hb_db h)" using assms(2) by (simp_all add: control_ok_def)
  note inv = track_inv [OF this(1) db(1)] store_step_history [OF store_step.Track [OF db(1)] this(2)]
    track_unique [OF db(1) this(3)]
  note p = track_parts [OF db(1)]
  have k: "map (\<lambda>r. (cr_table r, cr_id r)) (column_rows t) = map (\<lambda>c. (st_id t, ac_id c)) (st_columns t)"
    by (rule nth_equalityI) (auto simp: column_rows_def nth_enumerate_eq)
  have "distinct (map (\<lambda>c. (st_id t, ac_id c)) (st_columns t))"
    using db(2) by (auto simp: distinct_map inj_on_def)
  then have d: "distinct (map (\<lambda>r. (cr_table r, cr_id r)) (column_rows t))" by (simp add: k)
  have t: "cr_table ` set (column_rows t) \<subseteq> {st_id t}" by (auto simp: column_rows_def)
  have old: "cr_table ` set (hb_columns h) \<subseteq> st_id ` set (db_tables (hb_db h))"
    "distinct (map (\<lambda>r. (cr_table r, cr_id r)) (hb_columns h))"
    using assms(2) by (simp_all add: control_ok_def columns_ok_def)
  have "cr_table r \<noteq> cr_table q" if "r \<in> set (hb_columns h)" "q \<in> set (column_rows t)" for r q
  proof -
    have "cr_table r \<in> st_id ` set (db_tables (hb_db h))" using subsetD [OF old(1) imageI [OF that(1)]] .
    moreover have "cr_table q = st_id t" using subsetD [OF t imageI [OF that(2)]] by simp
    ultimately show ?thesis using p by metis
  qed
  then have disj: "set (map (\<lambda>r. (cr_table r, cr_id r)) (hb_columns h)) \<inter> set (map (\<lambda>r. (cr_table r, cr_id r)) (column_rows t)) = {}"
    by auto
  have tabs: "st_id ` set (db_tables db) = insert (st_id t) (st_id ` set (db_tables (hb_db h)))" using p by auto
  have "cr_table ` set (hb_columns h @ column_rows t) \<subseteq> st_id ` set (db_tables db)"
    unfolding set_append image_Un tabs
    by (rule Un_least) (rule subset_insertI2 [OF old(1)], rule order.trans [OF t], simp)
  moreover have "distinct (map (\<lambda>r. (cr_table r, cr_id r)) (hb_columns h @ column_rows t))"
    unfolding map_append distinct_append using d old(2) disj by (intro conjI)
  ultimately have "columns_ok (st_id ` set (db_tables db)) (hb_columns h @ column_rows t)"
    unfolding columns_ok_def by (rule conjI [rotated])
  with assms(2) inv p show ?thesis
    by (simp add: db(3) control_ok_def proposal_ids_def refs_exist_cong [of db "hb_db h"])
next
  case (UntrackOp t)
  have "store_inv (hb_db h)" "history_ok (hb_db h)" "unique_rows (hb_db h)" using assms(2) by (simp_all add: control_ok_def)
  note inv = untrack_inv [OF this(1), of t] store_step_history [OF store_step.Untrack this(2), of t]
    untrack_unique [OF this(3), of t]
  have "columns_ok (st_id ` set (db_tables (untrack t (hb_db h)))) (filter (\<lambda>r. cr_table r \<noteq> st_id t) (hb_columns h))"
  proof -
    have old: "cr_table ` set (hb_columns h) \<subseteq> st_id ` set (db_tables (hb_db h))"
      "distinct (map (\<lambda>r. (cr_table r, cr_id r)) (hb_columns h))"
      using assms(2) by (simp_all add: control_ok_def columns_ok_def)
    have "distinct (map (\<lambda>r. (cr_table r, cr_id r)) (filter (\<lambda>r. cr_table r \<noteq> st_id t) (hb_columns h)))"
      by (rule List.distinct_map_filter [OF old(2)])
    moreover have "cr_table r \<in> st_id ` set (db_tables (untrack t (hb_db h)))"
      if r: "r \<in> set (filter (\<lambda>r. cr_table r \<noteq> st_id t) (hb_columns h))" for r
    proof -
      have "cr_table r \<in> st_id ` set (db_tables (hb_db h))" using subsetD [OF old(1) imageI [of r]] r by simp
      then obtain u where "u \<in> set (db_tables (hb_db h))" "cr_table r = st_id u" by blast
      with r show ?thesis by (simp add: untrack_def image_def) metis
    qed
    ultimately show ?thesis unfolding columns_ok_def by blast
  qed
  moreover have "db_refs (untrack t (hb_db h)) = db_refs (hb_db h)" by (simp add: untrack_def)
  ultimately show ?thesis using assms(2) inv
    by (simp add: UntrackOp hub_untrack_def control_ok_def proposal_ids_def refs_exist_cong [of "untrack t (hb_db h)" "hb_db h"])
next
  case (SchemaOp t name want who res)
  then consider "h' = h" | branch v cols where "h' = h\<lparr>hb_sidecols := (hb_sidecols h)(st_id t := cols),
      hb_schemas := write_schema t branch v who (hb_schemas h)\<rparr>"
    by (auto simp: alter_branch_schema_def result_simps Let_def split: if_splits)
  then show ?thesis
    using assms(2) write_schema_keys by cases (auto simp: control_ok_def proposal_ids_def)
next
  case PlanOp
  then show ?thesis using apply_plan_ok [OF assms(2)] by blast
next
  case (ProposeOp src into title description who now p)
  then obtain f i where fi: "find_branch (hb_db h) src = Some f" "find_branch (hb_db h) into = Some i"
    and h': "h' = h\<lparr>hb_proposals := hb_proposals h @ [p], hb_serial := next_serial ProposalSerial h\<rparr>"
    "pp_id p = hb_serial h ProposalSerial" "pp_from p = rf_id f" "pp_into p = rf_id i"
    by (auto simp: create_proposal_def Let_def split: option.splits)
  have "refs_exist (hb_db h) [p]"
    using find_branch_mem [OF fi(1)] find_branch_mem [OF fi(2)] h' by (auto simp: refs_exist_def ref_by_id_None simp del: not_None_eq)
  with assms(2) serial_ok_append [of pp_id _ "hb_proposals h" p] show ?thesis
    by (auto simp: h' control_ok_def next_serial_def proposal_ids_def refs_exist_def reviews_ok_def)
next
  case (ReviewOp i knd body who now)
  let ?r = "\<lparr>rv_id = hb_serial h ReviewSerial, rv_proposal = i, rv_principal = who, rv_kind = knd, rv_body = body, rv_at = now\<rparr>"
  from ReviewOp have "h' = h\<lparr>hb_reviews := hb_reviews h @ [?r], hb_serial := next_serial ReviewSerial h\<rparr>"
    "knd \<in> set review_kinds" "find_proposal h i \<noteq> None"
    by (auto simp: add_review_def result_simps)
  with assms(2) serial_ok_append [of rv_id _ "hb_reviews h" ?r] show ?thesis
    by (auto simp: control_ok_def next_serial_def proposal_ids_def reviews_ok_def find_proposal_ids simp del: not_None_eq)
next
  case (ProtectOp name on n)
  have inv: "store_inv (hb_db h)" using assms(2) by (simp add: control_ok_def)
  have h': "h' = h\<lparr>hb_db := hb_db (set_protection name on n h)\<rparr>" by (simp add: ProtectOp set_protection_def)
  have "refs_exist (hb_db h) (hb_proposals h)" using assms(2) by (simp add: control_ok_def)
  then have "refs_exist (hb_db (set_protection name on n h)) (hb_proposals h)"
    by (simp only: refs_exist_cong [OF set_protection_store(2) [OF inv]])
  then show ?thesis unfolding h'
    by (intro control_ok_db [OF assms(2) set_protection_store(1) [OF inv]] set_protection_rows)
      (use assms(2) in \<open>simp_all add: set_protection_store(3) [OF inv] control_ok_def\<close>)
next
  case (ResolveOp i res val who)
  then have "h' = h\<lparr>hb_conflicts := map (\<lambda>c. if cn_id c = i then c\<lparr>cn_resolution := Some (res, val, who)\<rparr> else c) (hb_conflicts h)\<rparr>"
    by (auto simp: resolve_conflict_def result_simps)
  with assms(2) show ?thesis
    by (auto simp: control_ok_def proposal_ids_def serial_ok_map)
next
  case (MergeOp t us i who now r)
  show ?thesis
  proof (cases "start_merge env t i who h")
    case (Inl e)
    with MergeOp(1) assms(2) show ?thesis by (simp add: merge_proposal_def)
  next
    case (Inr x)
    then obtain p src into h1 sm where st: "start_merge env t i who h = Inr (p, src, into, h1, sm)" by (cases x) auto
    then have fin: "finish_merge env t us i who now p src into h1 sm = (h', r)" using MergeOp(1) by (simp add: merge_proposal_def)
    note s = start_merge_Inr [OF st]
    then have hm: "hub_merge_schema env t src into i who h = Inr (h1, sm)" by blast
    note k = hub_merge_schema_keeps [OF hm]
    have h1: "control_ok h1" by (rule merge_schema_ok [OF assms(2) hm])
    have i: "i \<in> proposal_ids h1" using s k load_proposal_find [of h i] find_proposal_ids [of h i]
      by (auto simp: proposal_ids_def)
    show ?thesis
    proof (cases "sy_conflicts sm = []")
      case False
      with fin control_ok_proposal_update [OF h1] show ?thesis by (auto simp: finish_merge_def)
    next
      case True
      show ?thesis
      proof (cases "store_merge (he_store env) t us now src into who (proposal_message i (pp_title p)) True (hb_db h1)")
        case (Inl e)
        with fin True h1 show ?thesis by (simp add: finish_merge_def)
      next
        case (Inr y)
        then obtain db res where m: "store_merge (he_store env) t us now src into who (proposal_message i (pp_title p)) True (hb_db h1) = Inr (db, res)"
          by (cases y) auto
        let ?h2 = "h1\<lparr>hb_db := db\<rparr>"
        have keyed: "list_all (keyed t) (sm_changes res)"
          using MergeOp(4) fin True m by (auto simp: finish_merge_def Let_def split: if_splits)
        have step: "data_step (he_store env) (hb_db h1) db"
          by (rule Merge [OF m]) (use MergeOp(2,3) k keyed in simp_all)
        have h2: "control_ok ?h2"
          by (rule control_ok_data [OF h1 data_step_inv [OF step assms(3)] data_step_history [OF step] data_step_grows [OF step]])
            (use h1 in \<open>simp_all add: control_ok_def\<close>)
        have "i \<in> proposal_ids ?h2" using i by (simp add: proposal_ids_def)
        with fin True m control_ok_proposal_update [OF h2] control_ok_proposal_update [OF control_ok_conflicts [OF h2 this]]
        show ?thesis by (auto simp: finish_merge_def Let_def split: if_splits)
      qed
    qed
  qed
qed

end
