(* ===== verification/HubProps.thy ===== *)
theory HubProps
  imports HubReach StoreProps
begin

text \<open>
  The control tables over whole runs, and a repository with two branches, a schema each, plans and a
  proposal between them, on which the properties of schemas, plans and proposals are instantiated.
\<close>

subsection \<open>Runs\<close>

text \<open>A new repository satisfies the constraints.\<close>

definition new_hub :: "dbase \<Rightarrow> 'd \<Rightarrow> 'd hub" where
  "new_hub db d =
     \<lparr>hb_db = db, hb_schemas = [], hb_plans = [], hb_journal = [], hb_columns = [], hb_sidecols = (\<lambda>_. fmempty),
      hb_live = d, hb_proposals = [], hb_reviews = [], hb_conflicts = [], hb_serial = (\<lambda>_. 1)\<rparr>"

lemma new_hub_control:
  assumes "create_repo repo branch author now = Inr db" and "branch \<noteq> []"
  shows "control_ok (new_hub db d)"
proof -
  have "unique_rows db"
    using assms(1) by (auto simp: create_repo_def Let_def insert_ref_def insert_commit_def unique_rows_def commit_keys_def)
  moreover have "store_inv db" by (rule create_repo_inv(1) [OF assms])
  moreover have "history_ok db" by (rule store_reach_history [OF Created [OF assms]])
  ultimately show ?thesis
    by (simp add: control_ok_def new_hub_def serial_ok_def refs_exist_def reviews_ok_def columns_ok_def proposal_ids_def)
qed

text \<open>
  C17: Every state reached from one that satisfies the constraints, as a new repository does
  (\<open>new_hub_control\<close>), by any sequence of commits, merges, sessions, branching, branch deletions, tracking,
  schema edits, plans, proposals, reviews and resolutions, satisfies what the modelled control tables declare.
  Generated ids of proposals, reviews, conflicts and plans are unique and below their sequences; references
  are unique by id and by kind and name, commits by id and by branch and sequence number, sessions by id,
  tables by id and by name, journal, schema and column rows by their primary keys; every proposal's
  branches exist, every review is of a known kind and, like every conflict, belongs to a proposal, every
  catalogued column belongs to a tracked table, every session to a branch, every head is a stored commit
  whose fields hash to its id, and the versions and live tables satisfy the store's invariant. The last part
  needs, of the steps, that no personal data is sealed (\<open>plain_env\<close>), that sequence numbers remain, and that
  changes to the default branch, and those a proposal's merge makes, are filed under the key of their row
  (\<open>keyed\<close>), which the code does not check.
\<close>

theorem control_tables_sound:
  assumes "hub_reach env h0 h" and "control_ok h0" and "plain_env (he_store env)"
  shows "control_ok h"
  using assms(1) by (induction) (use assms(2,3) hub_step_ok in blast)+

lemma find_map_other:
  "j \<noteq> i \<Longrightarrow> (\<And>r. key (g r) = key r) \<Longrightarrow>
     find (\<lambda>r. key r = j) (map (\<lambda>r. if key r = i then g r else r) rs) = find (\<lambda>r. key r = j) rs"
  by (induction rs) auto

lemma find_set_other:
  "j \<noteq> i \<Longrightarrow> find_proposal (set_proposal_state i st c h) j = find_proposal h j"
  by (simp add: find_proposal_def set_proposal_state_def find_map_other)

lemma load_set_other: "j \<noteq> i \<Longrightarrow> load_plan (set_plan_state i st who now h) j = load_plan h j"
  by (simp add: load_plan_def set_plan_state_def find_map_other)

text \<open>
  What review and audit rest on: merged proposals and applied plans stay exactly as they are, every proposal
  keeps its author and its branches, and no review disappears.
\<close>

definition keeps_history :: "'d hub \<Rightarrow> 'd hub \<Rightarrow> bool" where
  "keeps_history h h' \<longleftrightarrow>
     (\<forall>i p. find_proposal h i = Some p \<longrightarrow> pp_state p = PropMerged \<longrightarrow> find_proposal h' i = Some p) \<and>
     (\<forall>i p. find_proposal h i = Some p \<longrightarrow> (\<exists>q. find_proposal h' i = Some q \<and> pp_by q = pp_by p
        \<and> pp_from q = pp_from p \<and> pp_into q = pp_into p)) \<and>
     set (hb_reviews h) \<subseteq> set (hb_reviews h') \<and>
     (\<forall>i r. load_plan h i = Inr r \<longrightarrow> pl_state r = PlanApplied \<longrightarrow> load_plan h' i = Inr r)"

lemma keeps_history_refl: "keeps_history h h"
  by (simp add: keeps_history_def)

lemma keeps_history_trans:
  assumes a: "keeps_history h h'" and b: "keeps_history h' h''"
  shows "keeps_history h h''"
proof -
  have "\<exists>q. find_proposal h'' i = Some q \<and> pp_by q = pp_by p \<and> pp_from q = pp_from p \<and> pp_into q = pp_into p"
    if p: "find_proposal h i = Some p" for i p
  proof -
    obtain r where "find_proposal h' i = Some r" "pp_by r = pp_by p" "pp_from r = pp_from p" "pp_into r = pp_into p"
      using a p unfolding keeps_history_def by blast
    with b show ?thesis unfolding keeps_history_def by metis
  qed
  with a b show ?thesis unfolding keeps_history_def by blast
qed

lemma keeps_history_same:
  "hb_proposals h' = hb_proposals h \<Longrightarrow> hb_reviews h' = hb_reviews h \<Longrightarrow> hb_plans h' = hb_plans h \<Longrightarrow> keeps_history h h'"
  by (simp add: keeps_history_def find_proposal_def load_plan_def)

lemma save_conflicts_plans: "hb_plans (save_conflicts lib i t cs h) = hb_plans h"
proof (induction cs arbitrary: h)
  case (Cons c cs)
  let ?h = "h\<lparr>hb_conflicts := hb_conflicts h @ [conflict_row_of lib i t (hb_serial h ConflictSerial) c],
     hb_serial := next_serial ConflictSerial h\<rparr>"
  have "save_conflicts lib i t (c # cs) h = save_conflicts lib i t cs ?h" by (simp add: save_conflicts_def)
  with Cons.IH [of ?h] show ?case by simp
qed (simp add: save_conflicts_def)

lemma keeps_history_proposal:
  assumes "find_proposal h i = Some p" and "pp_state p \<noteq> PropMerged"
  shows "keeps_history h (set_proposal_state i st c h)"
proof -
  have "load_plan (set_proposal_state i st c h) j = load_plan h j" for j
    by (simp add: load_plan_def set_proposal_state_def)
  moreover have "find_proposal (set_proposal_state i st c h) j = (if j = i
      then Some (p\<lparr>pp_state := st, pp_merge := (if c = zero_digest then pp_merge p else Some c)\<rparr>) else find_proposal h j)" for j
    using find_set_other [of j i st c h] find_proposal_set [of i st c h] assms(1) by simp
  ultimately show ?thesis using assms by (auto simp: keeps_history_def)
qed

lemma keeps_history_plans:
  assumes "hb_proposals h' = hb_proposals h" and "hb_reviews h' = hb_reviews h"
    and "\<And>i r. load_plan h i = Inr r \<Longrightarrow> pl_state r = PlanApplied \<Longrightarrow> load_plan h' i = Inr r"
  shows "keeps_history h h'"
  using assms by (simp add: keeps_history_def find_proposal_def)

lemma merge_schema_keeps_history:
  assumes "hub_merge_schema env t src into i who h = Inr (h1, sm)"
  shows "keeps_history h h1"
proof (rule keeps_history_plans)
  show "hb_proposals h1 = hb_proposals h" "hb_reviews h1 = hb_reviews h"
    using hub_merge_schema_keeps [OF assms] by simp_all
  have "\<exists>rs. hb_plans h1 = hb_plans h @ rs"
    using assms by (auto simp: hub_merge_schema_def left_map_Inr and_then_Inr Let_def split: if_splits)
  then show "load_plan h1 j = Inr r" if "load_plan h j = Inr r" for j r
    using that by (auto simp: load_plan_def some_or_Inr find_append split: option.splits)
qed

lemma apply_plan_keeps_history:
  assumes "apply_plan env i confirm who now h = (h', r)"
  shows "keeps_history h h'"
proof (rule keeps_history_plans)
  show "hb_proposals h' = hb_proposals h" "hb_reviews h' = hb_reviews h"
    using assms by (auto simp: apply_plan_def Let_def set_plan_state_def split: sum.splits if_splits option.splits)
  fix j q assume q: "load_plan h j = Inr q" "pl_state q = PlanApplied"
  show "load_plan h' j = Inr q"
  proof (cases "j = i")
    case True
    with assms q show ?thesis by (auto simp: apply_plan_def)
  next
    case False
    have c: "load_plan (g\<lparr>hb_journal := x, hb_live := y\<rparr>) j = load_plan g j"
      "load_plan (g\<lparr>hb_journal := x, hb_live := y, hb_columns := z\<rparr>) j = load_plan g j" for g :: "'a hub" and x y z
      by (simp_all add: load_plan_def)
    from assms False have "load_plan h' j = load_plan h j"
      by (auto simp: apply_plan_def Let_def load_set_other c split: sum.splits if_splits option.splits)
    with q show ?thesis by simp
  qed
qed

lemma hub_step_keeps_history:
  assumes "hub_step env h h'"
  shows "keeps_history h h'"
  using assms
proof cases
  case (DeleteOp name)
  then show ?thesis by (auto simp: hub_delete_branch_def result_simps intro!: keeps_history_same)
next
  case (TrackOp t rows)
  then show ?thesis by (auto simp: hub_track_def result_simps intro!: keeps_history_same)
next
  case (SchemaOp t name want who res)
  then show ?thesis
    by (auto simp: alter_branch_schema_def result_simps Let_def split: if_splits intro!: keeps_history_same)
next
  case (PlanOp i confirm who now r)
  then show ?thesis by (rule apply_plan_keeps_history)
next
  case (ProposeOp src into title description who now p)
  then obtain q where "h' = h\<lparr>hb_proposals := hb_proposals h @ [q], hb_serial := next_serial ProposalSerial h\<rparr>"
    by (auto simp: create_proposal_def Let_def split: option.splits)
  then show ?thesis by (auto simp: keeps_history_def find_proposal_def find_append load_plan_def)
next
  case (ReviewOp i knd body who now)
  then show ?thesis by (auto simp: add_review_def result_simps keeps_history_def find_proposal_def load_plan_def)
next
  case (ResolveOp i res val who)
  then show ?thesis by (auto simp: resolve_conflict_def result_simps intro!: keeps_history_same)
next
  case (MergeOp t us i who now r)
  show ?thesis
  proof (cases "start_merge env t i who h")
    case (Inl e)
    with MergeOp show ?thesis by (simp add: merge_proposal_def keeps_history_refl)
  next
    case (Inr x)
    then obtain p src into h1 sm where st: "start_merge env t i who h = Inr (p, src, into, h1, sm)" by (cases x) auto
    note s = start_merge_Inr [OF st]
    then have hm: "hub_merge_schema env t src into i who h = Inr (h1, sm)" by blast
    have p: "find_proposal h1 i = Some p"
      using load_proposal_find s find_proposal_cong [of h1 h i] hub_merge_schema_keeps [OF hm] by metis
    have step: "keeps_history h1 (set_proposal_state i ps c g)"
      if "hb_proposals g = hb_proposals h1" "hb_reviews g = hb_reviews h1" "hb_plans g = hb_plans h1" for g ps c
    proof (rule keeps_history_trans)
      show "keeps_history h1 g" by (rule keeps_history_same) (use that in simp_all)
      show "keeps_history g (set_proposal_state i ps c g)"
        by (rule keeps_history_proposal) (use p s that(1) in \<open>auto simp: find_proposal_def\<close>)
    qed
    have "keeps_history h1 h'"
      using MergeOp(1) st step [of "h1\<lparr>hb_db := db\<rparr>" for db] step [of h1] keeps_history_refl
        step [of "save_conflicts (he_text env) i t cs (clear_conflicts i (h1\<lparr>hb_db := db\<rparr>))" for cs db]
      by (auto simp: merge_proposal_def finish_merge_def Let_def save_conflicts_rows save_conflicts_plans
          clear_conflicts_def split: if_splits sum.splits)
    then show ?thesis by (rule keeps_history_trans [OF merge_schema_keeps_history [OF hm]])
  qed
qed (auto simp: hub_untrack_def set_protection_def intro!: keeps_history_same)

text \<open>
  C20: The record reviews are judged by cannot be undone. Whatever the store does afterwards, a merged
  proposal and an applied plan stay exactly as they are, every proposal keeps its author, its source and its
  target, and every review ever given is still there.
\<close>

theorem reviews_permanent:
  assumes "hub_reach env h0 h"
  shows "keeps_history h0 h"
  using assms by (induction) (auto intro: keeps_history_refl keeps_history_trans hub_step_keeps_history)

end
