(* ===== verification/HubDemo.thy ===== *)
theory HubDemo
  imports HubProps
begin

text \<open>
  A repository with four branches, a schema of its own on one of them, two plans and two proposals, and
  the properties of schemas, plans, proposals and reviews applied to it.
\<close>

subsection \<open>The repository\<close>

text \<open>A database of which a statement only adds its own text, once; it runs the plans below.\<close>

definition demo_exec :: "string \<Rightarrow> string list \<Rightarrow> string + string list" where
  "demo_exec sql cols = Inr (if sql \<in> set cols then cols else cols @ [sql])"

definition demo_op :: "int \<Rightarrow> string \<Rightarrow> migration_op" where
  "demo_op n sql = \<lparr>mo_ordinal = n, mo_kind = ''add_column'', mo_sql = sql, mo_class = Additive, mo_idempotent = True\<rparr>"

definition two_column :: "colid \<Rightarrow> string \<Rightarrow> string \<Rightarrow> acolumn" where
  "two_column i n ty = \<lparr>ac_id = i, ac_name = n, ac_type = ty, ac_kind = KindInt, ac_nullable = False\<rparr>"

definition two_table :: store_table where
  "two_table = \<lparr>st_id = 1, st_physical = ''t'',
     st_columns = [two_column 1 ''id'' ''bigint'', two_column 2 ''n'' ''bigint''], st_pk = [1]\<rparr>"

definition two_row :: "i64 \<Rightarrow> i64 \<Rightarrow> row" where
  "two_row n m = Some (fmap_of_list [(1, int_val n), (2, int_val m)])"

definition two_key :: "i64 \<Rightarrow> pk" where
  "two_key n = (case make_pk (two_row n 0) [1] of Some k \<Rightarrow> k | None \<Rightarrow> [])"

definition two_commit :: "string \<Rightarrow> string \<Rightarrow> int \<Rightarrow> string list \<Rightarrow> segment list \<Rightarrow> commit_rec" where
  "two_commit i b n ps chain =
     \<lparr>cw_id = i, cw_branch = b, cw_seq = n, cw_parents = ps, cw_author = ''a'', cw_at = 0, cw_message = ''m'',
      cw_ref = [], cw_change = [], cw_schema = [], cw_chain = chain, cw_purged = False\<rparr>"

definition on_main :: "string \<Rightarrow> int \<Rightarrow> segment list" where
  "on_main b n = [\<lparr>sg_branch = b, sg_seq = n\<rparr>, \<lparr>sg_branch = ''b'', sg_seq = 0\<rparr>]"

definition two_version :: "string \<Rightarrow> string \<Rightarrow> i64 \<Rightarrow> version" where
  "two_version b c m =
     \<lparr>v_branch = b, v_pk = two_key 7, v_from = 1, v_to = max_seq, v_op = OpInsert, v_commit = c, v_session = [],
      v_changed = mask_of None (two_row 7 m) [1, 2], v_row = two_row 7 m\<rparr>"

definition two_feat :: ref where
  "two_feat = (fork_ref ''f'' ''feat'' ''b'' ''c0'' 0 (on_main ''f'' 1) ''a'')
     \<lparr>rf_head := ''c2'', rf_seq := 1, rf_protected := True, rf_min_approvals := 1\<rparr>"

text \<open>The branches dev and feat both insert the row 7, with different values; feat is protected by one approval.\<close>

definition two_db :: dbase where
  "two_db =
     \<lparr>db_repo = ''r'', db_default = ''b'',
      db_refs = [fork_ref ''b'' default_branch [] ''c0'' 0 [\<lparr>sg_branch = ''b'', sg_seq = 0\<rparr>] ''a'',
                 (fork_ref ''d'' ''dev'' ''b'' ''c0'' 0 (on_main ''d'' 1) ''a'')\<lparr>rf_head := ''c1'', rf_seq := 1\<rparr>,
                 two_feat, fork_ref ''s'' ''side'' ''b'' ''c0'' 0 (on_main ''s'' 0) ''a''],
      db_commits = [two_commit ''c0'' ''b'' 0 [] [\<lparr>sg_branch = ''b'', sg_seq = 0\<rparr>],
                    two_commit ''c1'' ''d'' 1 [''c0''] (on_main ''d'' 1),
                    two_commit ''c2'' ''f'' 1 [''c0''] (on_main ''f'' 1)],
      db_sessions = [], db_tables = [two_table],
      db_side = (\<lambda>_. [])(1 := [two_version ''d'' ''c1'' 1, two_version ''f'' ''c2'' 2]), db_live = (\<lambda>_. fmempty)\<rparr>"

definition two_proposal :: "int \<Rightarrow> string \<Rightarrow> string \<Rightarrow> proposal_row" where
  "two_proposal i src into =
     \<lparr>pp_id = i, pp_from = src, pp_into = into, pp_title = ''p'', pp_description = [], pp_state = PropOpen,
      pp_merge = None, pp_by = ''a'', pp_at = 0\<rparr>"

definition two_plan :: "int \<Rightarrow> string \<Rightarrow> plan_row" where
  "two_plan i sql =
     \<lparr>pl_id = i, pl_table = 1, pl_proposal = 0, pl_ops = [demo_op 0 sql], pl_target = 2, pl_state = PlanPending,
      pl_by = ''a'', pl_applied = None\<rparr>"

definition two_hub :: "string list hub" where
  "two_hub =
     \<lparr>hb_db = two_db,
      hb_schemas = [\<lparr>sr_table = 1, sr_branch = ''s'', sr_epoch = 1,
                     sr_columns = [two_column 1 ''id'' ''bigint'', two_column 2 ''n'' ''bigint'', two_column 3 ''x'' ''text''],
                     sr_dropped = fmempty, sr_digest = [], sr_width = 4, sr_by = ''a''\<rparr>],
      hb_plans = [two_plan 1 ''a'', two_plan 2 ''b''], hb_journal = [], hb_columns = [], hb_sidecols = (\<lambda>_. fmempty),
      hb_live = [''id''], hb_proposals = [two_proposal 1 ''d'' ''f'', two_proposal 2 ''f'' ''d''],
      hb_reviews = [\<lparr>rv_id = 1, rv_proposal = 1, rv_principal = ''r'', rv_kind = ''approve'', rv_body = [], rv_at = 0\<rparr>],
      hb_conflicts = [], hb_serial = (\<lambda>_. 9)\<rparr>"

definition two_env :: "string list hubenv" where
  "two_env =
     \<lparr>he_store = demo_env,
      he_ddl = \<lparr>ddl_add_column = (\<lambda>_ c _. c), ddl_drop_column = (\<lambda>_ c. c), ddl_deprecate_column = (\<lambda>_ c. c),
                ddl_rename_column = (\<lambda>_ c _. c), ddl_alter_type = (\<lambda>_ c _. c), ddl_set_not_null = (\<lambda>_ c _. c),
                ddl_drop_not_null = (\<lambda>_ c _. c), ddl_preflight_not_null = (\<lambda>_ c. c)\<rparr>,
      he_text = \<lparr>tx_float_g = (\<lambda>_. []), tx_float_f = (\<lambda>_. []), tx_time = (\<lambda>_. []), tx_quote = (\<lambda>s. s)\<rparr>,
      he_exec = demo_exec, he_introspect = (\<lambda>d _. Some (map (\<lambda>n. two_column 0 n ''bigint'') d)),
      he_cast = (\<lambda>_ _. True)\<rparr>"

lemma merge_unclean_changes:
  assumes "merge_proposal env t us i who now h = (h', Inr out)" and "pm_result out = Some res" and "\<not> sm_clean res"
    and "find_proposal h i = Some p" and "pp_state p \<noteq> PropConflicted"
  shows "h' \<noteq> h"
proof -
  obtain p' src into h1 sm where st: "start_merge env t i who h = Inr (p', src, into, h1, sm)"
    "finish_merge env t us i who now p' src into h1 sm = (h', Inr out)"
    using assms(1) by (auto simp: merge_proposal_def split: sum.splits)
  have k: "hb_proposals h1 = hb_proposals h" using start_merge_Inr [OF st(1)] hub_merge_schema_keeps by blast
  from st(2) assms(2,3) obtain g where g: "h' = set_proposal_state i PropConflicted zero_digest g"
    "hb_proposals g = hb_proposals h"
    by (auto simp: finish_merge_def Let_def save_conflicts_rows clear_conflicts_def k split: if_splits sum.splits)
  have "find_proposal h' i = Some (p\<lparr>pp_state := PropConflicted\<rparr>)"
    using assms(4) find_proposal_cong [OF g(2)] by (simp add: g(1) find_proposal_set)
  with assms(4) have "h' = h \<Longrightarrow> pp_state (p\<lparr>pp_state := PropConflicted\<rparr>) = pp_state p" by simp
  with assms(5) show ?thesis by auto
qed

lemma two_merge_conflicts:
  "case snd (merge_proposal two_env two_table [] 2 ''a'' 5 two_hub) of
     Inl _ \<Rightarrow> False
   | Inr out \<Rightarrow> (case pm_result out of None \<Rightarrow> False | Some res \<Rightarrow> \<not> sm_clean res \<and> length (sm_conflicts res) = 1)"
  by code_simp

theorem proposal_merge_outcome_witness:
  "\<exists>h' :: string list hub. find_proposal h' 2 = Some ((two_proposal 2 ''f'' ''d'')\<lparr>pp_state := PropConflicted\<rparr>) \<and>
     hb_db h' = two_db \<and> length (filter (\<lambda>c. cn_proposal c = 2) (hb_conflicts h')) = 1"
proof -
  obtain h' r where m: "merge_proposal two_env two_table [] 2 ''a'' 5 two_hub = (h', r)" by fastforce
  with two_merge_conflicts obtain out res where out: "r = Inr out" "pm_result out = Some res" "\<not> sm_clean res"
    "length (sm_conflicts res) = 1" by (auto split: sum.splits option.splits)
  have p: "load_proposal two_hub 2 = Inr (two_proposal 2 ''f'' ''d'', ''feat'', ''dev'')" by code_simp
  have "hb_db two_hub = two_db" by (simp add: two_hub_def)
  moreover obtain q src into where "load_proposal two_hub 2 = Inr (q, src, into)" "hb_db h' = hb_db two_hub"
    "find_proposal h' 2 = Some (q\<lparr>pp_state := PropConflicted\<rparr>)"
    "length (filter (\<lambda>c. cn_proposal c = 2) (hb_conflicts h')) = length (sm_conflicts res)"
    using proposal_merge_outcome [OF m [unfolded out(1)] out(2)] out(3) by auto
  ultimately show ?thesis using p out(4) by auto
qed

lemma two_proposal_one: "load_proposal two_hub 1 = Inr (two_proposal 1 ''d'' ''f'', ''dev'', ''feat'')"
  by code_simp

lemma two_gate: "review_gate two_hub 1 (two_proposal 1 ''d'' ''f'') ''feat'' two_feat = Inr ()"
proof -
  have "list_reviews two_hub 1 = hb_reviews two_hub" "count_approvals 1 ''a'' (hb_reviews two_hub) [] = Inr [''r'']"
    by code_simp+
  then show ?thesis by (simp add: review_gate_def two_proposal_def two_feat_def fork_ref_def and_then_def guard_def)
qed

lemma two_protected_merge:
  "\<exists>h' out res. merge_proposal two_env two_table [] 1 ''a'' 5 two_hub = (h', Inr out) \<and> pm_result out = Some res \<and> \<not> sm_clean res"
proof -
  have "case hub_merge_schema two_env two_table ''dev'' ''feat'' 1 ''a'' two_hub of Inl _ \<Rightarrow> False | Inr (h, sm) \<Rightarrow> sy_conflicts sm = []"
    by code_simp
  then obtain h1 sm where sm: "hub_merge_schema two_env two_table ''dev'' ''feat'' 1 ''a'' two_hub = Inr (h1, sm)"
    "sy_conflicts sm = []" by (auto split: sum.splits)
  moreover have "find_branch (hb_db two_hub) ''feat'' = Some two_feat" by code_simp
  ultimately have st: "start_merge two_env two_table 1 ''a'' two_hub = Inr (two_proposal 1 ''d'' ''f'', ''dev'', ''feat'', h1, sm)"
    using two_gate by (simp add: start_merge_def two_proposal_one and_then_def guard_def some_or_def two_proposal_def)
  have "case store_merge (he_store two_env) two_table [] 5 ''dev'' ''feat'' ''a'' (proposal_message 1 ''p'') True (hb_db two_hub) of
      Inl _ \<Rightarrow> False | Inr (_, res) \<Rightarrow> \<not> sm_clean res" by code_simp
  moreover have "hb_db h1 = hb_db two_hub" using hub_merge_schema_keeps [OF sm(1)] by blast
  ultimately obtain db res where "store_merge (he_store two_env) two_table [] 5 ''dev'' ''feat'' ''a'' (proposal_message 1 ''p'') True (hb_db h1)
      = Inr (db, res)" "\<not> sm_clean res" by (auto split: sum.splits)
  then show ?thesis by (simp add: merge_proposal_def st finish_merge_def sm(2) Let_def two_proposal_def)
qed

theorem protected_merge_reviewed_witness:
  "rf_protected two_feat \<and> rf_min_approvals two_feat = 1 \<and> 1 \<le> card (approvers two_hub 1 ''a'')"
proof -
  obtain h' out res where m: "merge_proposal two_env two_table [] 1 ''a'' 5 two_hub = (h', Inr out)"
    "pm_result out = Some res" "\<not> sm_clean res" using two_protected_merge by blast
  have "h' \<noteq> two_hub"
    by (rule merge_unclean_changes [OF m load_proposal_find [OF two_proposal_one]]) (simp add: two_proposal_def)
  from protected_merge_reviewed [OF m(1) this] obtain p src into target where
    "load_proposal two_hub 1 = Inr (p, src, into)" "find_branch (hb_db two_hub) into = Some target"
    "rf_protected target \<longrightarrow> rf_min_approvals target \<le> int (card (approvers two_hub 1 (pp_by p)))" by blast
  moreover have "find_branch (hb_db two_hub) ''feat'' = Some two_feat" by code_simp
  moreover have "pp_by (two_proposal 1 ''d'' ''f'') = ''a''" by (simp add: two_proposal_def)
  moreover have "rf_protected two_feat" "rf_min_approvals two_feat = 1" by (simp_all add: two_feat_def)
  ultimately show ?thesis using two_proposal_one by auto
qed

text \<open>On the branch side the column n becomes an integer, which is lossy, and the column x is dropped.\<close>

definition two_edit :: "acolumn list" where
  "two_edit = [two_column 1 ''id'' ''bigint'', two_column 2 ''n'' ''integer'']"

definition side_schema :: schema_version where
  "side_schema =
     \<lparr>sv_table = 1, sv_epoch = 1, sv_columns = [two_column 1 ''id'' ''bigint'', two_column 2 ''n'' ''bigint'',
      two_column 3 ''x'' ''text''], sv_pk = [1], sv_dropped = fmempty\<rparr>"

lemma side_loads:
  "load_schema two_hub two_table ''side'' = Inr side_schema"
  "load_schema two_hub two_table default_branch = Inr (epoch_zero two_table)"
  by code_simp+

lemma two_altered:
  "\<exists>h' res. alter_branch_schema two_env two_table ''side'' two_edit ''a'' two_hub = Inr (h', res) \<and> sx_changes res \<noteq> []
     \<and> sx_forked res = [''n'']"
proof -
  have "schema_diff side_schema (edited_version side_schema two_edit) \<noteq> []"
    "se_forked (edit_columns side_schema two_edit) = [''n'']" by code_simp+
  moreover have "case evolve_sidecar (\<lambda>_ _. True) (st_columns two_table) (sv_columns (edited_version side_schema two_edit)) fmempty of
      Inl _ \<Rightarrow> False | Inr _ \<Rightarrow> True" by code_simp
  moreover have "\<exists>x. ref_row (hb_db two_hub) ''side'' = Inr x" using side_loads(1) by (auto simp: load_schema_def result_simps)
  moreover have "he_cast two_env = (\<lambda>_ _. True)" "hb_sidecols two_hub (st_id two_table) = fmempty"
    by (simp_all add: two_env_def two_hub_def)
  ultimately show ?thesis
    by (auto simp: alter_branch_schema_def side_loads Let_def default_branch_def and_then_def guard_def split: sum.splits)
qed

theorem schema_edit_keeps_history_witness:
  "\<exists>h' res new. alter_branch_schema two_env two_table ''side'' two_edit ''a'' two_hub = Inr (h', res) \<and>
     load_schema h' two_table ''side'' = Inr new \<and> {1, 2, 3} \<subseteq> schema_ids new \<and>
     (\<exists>c \<in> set (sv_columns new). ac_name c = ''n'' \<and> ac_id c \<notin> {1, 2, 3})"
proof -
  obtain h' res where e: "alter_branch_schema two_env two_table ''side'' two_edit ''a'' two_hub = Inr (h', res)"
    "sx_changes res \<noteq> []" "sx_forked res = [''n'']" using two_altered by blast
  have ids: "schema_ids side_schema = {1, 2, 3}" by (auto simp: schema_ids_def two_column_def side_schema_def)
  then have room: "ids_room side_schema (length two_edit)" by (simp add: ids_room_def two_edit_def)
  have dist: "distinct_columns side_schema" by (simp add: distinct_columns_def two_column_def side_schema_def)
  have "sint (sv_epoch side_schema) < 2 ^ 63 - 1" by (simp add: side_schema_def)
  from schema_edit_keeps_history [OF e(1) side_loads(1) room dist this] e(2) obtain new where
    n: "load_schema h' two_table ''side'' = Inr new" "\<forall>c \<in> set (sv_columns side_schema). ac_id c \<in> schema_ids new"
    "\<forall>n \<in> set (sx_forked res). \<exists>c \<in> set (sv_columns new). ac_name c = n \<and> ac_id c \<notin> schema_ids side_schema"
    by blast
  from n(2) have "{1, 2, 3} \<subseteq> schema_ids new" by (simp add: side_schema_def two_column_def)
  moreover from n(3) have "\<exists>c \<in> set (sv_columns new). ac_name c = ''n'' \<and> ac_id c \<notin> {1, 2, 3}" by (simp add: e(3) ids)
  ultimately show ?thesis using e(1) n(1) by blast
qed

lemma two_schema_merged:
  "\<exists>h' res. hub_merge_schema two_env two_table ''side'' default_branch 1 ''a'' two_hub = Inr (h', res) \<and> sy_plan res \<noteq> None"
proof -
  have "mo_conflicts (schema_merge (epoch_zero two_table) (epoch_zero two_table) side_schema) = []"
    "schema_diff (epoch_zero two_table) (mo_result (schema_merge (epoch_zero two_table) (epoch_zero two_table) side_schema)) \<noteq> []"
    by code_simp+
  moreover have "\<exists>x. ref_row (hb_db two_hub) default_branch = Inr x"
    using side_loads(2) by (auto simp: load_schema_def result_simps)
  ultimately show ?thesis by (auto simp: hub_merge_schema_def side_loads Let_def and_then_def)
qed

theorem schema_merge_into_default_witness:
  "\<exists>h' res new. hub_merge_schema two_env two_table ''side'' default_branch 1 ''a'' two_hub = Inr (h', res) \<and>
     sy_plan res \<noteq> None \<and> load_schema h' two_table default_branch = Inr new \<and> version_column new 3 \<noteq> None"
proof -
  obtain h' res where e: "hub_merge_schema two_env two_table ''side'' default_branch 1 ''a'' two_hub = Inr (h', res)"
    "sy_plan res \<noteq> None" using two_schema_merged by blast
  have d: "distinct_columns (epoch_zero two_table)" "sint (sv_epoch (epoch_zero two_table)) < 2 ^ 63 - 1"
    by (simp_all add: distinct_columns_def two_column_def epoch_zero_def two_table_def)
  from schema_merge_into_default [OF e(1) side_loads d] obtain new where
    new: "load_schema h' two_table default_branch = Inr new"
    "same_column_opt (version_column new 3) (version_column side_schema 3)" by auto
  moreover have "version_column side_schema 3 = Some (two_column 3 ''x'' ''text'')" by code_simp
  ultimately have "version_column new 3 \<noteq> None" by (cases "version_column new 3") simp_all
  with e new(1) show ?thesis by blast
qed

text \<open>The second plan would add the column b; it is marked applied and the column is not there.\<close>

theorem later_plan_skipped_witness:
  "\<exists>h1 h2 a r. apply_plan two_env 1 True ''a'' 1 two_hub = (h1, Inr a) \<and> apply_plan two_env 2 True ''a'' 2 h1 = (h2, r) \<and>
     hb_live h1 = [''id'', ''a''] \<and> hb_live h2 = [''id'', ''a'']"
proof -
  have "case apply_plan two_env 1 True ''a'' 1 two_hub of (h1, Inl _) \<Rightarrow> False
    | (h1, Inr a) \<Rightarrow> hb_live h1 = [''id'', ''a''] \<and> a = (two_plan 1 ''a'')\<lparr>pl_state := PlanApplied\<rparr>
        \<and> load_plan h1 2 = Inr (two_plan 2 ''b'')" by code_simp
  then obtain h1 where one: "apply_plan two_env 1 True ''a'' 1 two_hub = (h1, Inr ((two_plan 1 ''a'')\<lparr>pl_state := PlanApplied\<rparr>))"
    "hb_live h1 = [''id'', ''a'']" "load_plan h1 2 = Inr (two_plan 2 ''b'')" by (auto split: prod.splits sum.splits)
  obtain h2 r where two: "apply_plan two_env 2 True ''a'' 2 h1 = (h2, r)" by fastforce
  from later_plan_skipped [OF one(1) two one(3)] have "hb_live h2 = hb_live h1"
    by (simp add: two_plan_def demo_op_def)
  with one two show ?thesis by auto
qed

subsection \<open>A run\<close>

text \<open>A proposal on the tracked repository, and a review of it that asks for changes.\<close>

definition one_hub :: "string list hub" where
  "one_hub = new_hub demo_db []"

definition one_proposed :: "string list hub" where
  "one_proposed = one_hub\<lparr>hb_proposals := [two_proposal 1 ''b'' ''b''], hb_serial := next_serial ProposalSerial one_hub\<rparr>"

definition one_reviewed :: "string list hub" where
  "one_reviewed = one_proposed\<lparr>hb_reviews := [\<lparr>rv_id = 1, rv_proposal = 1, rv_principal = ''r'', rv_kind = ''comment'',
     rv_body = [], rv_at = 3\<rparr>], hb_serial := next_serial ReviewSerial one_proposed\<rparr>"

lemma one_control: "control_ok one_hub"
proof -
  have "unique_rows demo_db" by (simp add: unique_rows_def commit_keys_def)
  with demo_inv store_reach_history [OF demo_reach] show ?thesis
    by (simp add: control_ok_def one_hub_def new_hub_def serial_ok_def refs_exist_def reviews_ok_def columns_ok_def proposal_ids_def)
qed

lemma one_run: "hub_reach two_env one_hub one_reviewed"
proof -
  have "create_proposal default_branch default_branch ''p'' [] ''a'' 0 one_hub = Inr (one_proposed, two_proposal 1 ''b'' ''b'')"
    by (simp add: create_proposal_def one_hub_def new_hub_def one_proposed_def two_proposal_def next_serial_def Let_def)
  from hub_more [OF hub_refl ProposeOp [OF this]] have a: "hub_reach two_env one_hub one_proposed" .
  have "add_review 1 ''comment'' [] ''r'' 3 one_proposed = Inr one_reviewed"
    by (simp add: add_review_def review_kinds_def find_proposal_def one_proposed_def one_hub_def new_hub_def one_reviewed_def
        next_serial_def two_proposal_def and_then_def guard_def)
  from hub_more [OF a ReviewOp [OF this]] show ?thesis .
qed

theorem control_tables_sound_witness: "control_ok one_reviewed \<and> hb_reviews one_reviewed \<noteq> []"
  using control_tables_sound [OF one_run one_control] demo_plain by (simp add: two_env_def one_reviewed_def)

text \<open>The same run with a merged proposal and an applied plan at its start.\<close>

definition one_merged :: "string list hub" where
  "one_merged = one_proposed\<lparr>hb_proposals := [(two_proposal 1 ''b'' ''b'')\<lparr>pp_state := PropMerged, pp_merge := Some ''c''\<rparr>],
     hb_plans := [(two_plan 1 ''a'')\<lparr>pl_state := PlanApplied\<rparr>]\<rparr>"

theorem reviews_permanent_witness:
  "\<exists>h. hub_reach two_env one_merged h \<and> hb_reviews h \<noteq> []
     \<and> find_proposal h 1 = Some ((two_proposal 1 ''b'' ''b'')\<lparr>pp_state := PropMerged, pp_merge := Some ''c''\<rparr>)
     \<and> load_plan h 1 = Inr ((two_plan 1 ''a'')\<lparr>pl_state := PlanApplied\<rparr>)"
proof -
  have "\<exists>h. add_review 1 ''comment'' [] ''r'' 3 one_merged = Inr h \<and> hb_reviews h \<noteq> []"
    by (simp add: add_review_def review_kinds_def find_proposal_def one_merged_def two_proposal_def and_then_def guard_def)
  then obtain h where h: "add_review 1 ''comment'' [] ''r'' 3 one_merged = Inr h" "hb_reviews h \<noteq> []" by blast
  have r: "hub_reach two_env one_merged h" by (rule hub_more [OF hub_refl ReviewOp [OF h(1)]])
  have "find_proposal one_merged 1 = Some ((two_proposal 1 ''b'' ''b'')\<lparr>pp_state := PropMerged, pp_merge := Some ''c''\<rparr>)"
    "load_plan one_merged 1 = Inr ((two_plan 1 ''a'')\<lparr>pl_state := PlanApplied\<rparr>)"
    by (simp_all add: find_proposal_def load_plan_def one_merged_def two_proposal_def two_plan_def)
  with reviews_permanent [OF r] have "find_proposal h 1 = Some ((two_proposal 1 ''b'' ''b'')\<lparr>pp_state := PropMerged, pp_merge := Some ''c''\<rparr>)"
    "load_plan h 1 = Inr ((two_plan 1 ''a'')\<lparr>pl_state := PlanApplied\<rparr>)" by (simp_all add: keeps_history_def)
  with r h(2) show ?thesis by blast
qed

end
