(* ===== verification/AesGcm.thy ===== *)
theory AesGcm
  imports CoreRow
begin

text \<open>
  AES-256 in Galois/counter mode (FIPS 197, NIST SP 800-38D) with a nonce of 12 bytes and a tag of 16: what
  \<^verbatim>\<open>crypto/aes\<close> and \<^verbatim>\<open>cipher.NewGCM\<close> of Go's standard library give \<^verbatim>\<open>internal/crypto\<close>. Only the forward cipher is
  needed. What the development uses of it is that opening a sealed message under the same key, nonce and
  additional data returns the message; secrecy and authenticity are computational and no theorems of HOL.
\<close>

subsection \<open>The block cipher\<close>

definition aes_sbox :: "u8 list" where
  "aes_sbox =
    [0x63, 0x7C, 0x77, 0x7B, 0xF2, 0x6B, 0x6F, 0xC5, 0x30, 0x01, 0x67, 0x2B, 0xFE, 0xD7, 0xAB, 0x76,
     0xCA, 0x82, 0xC9, 0x7D, 0xFA, 0x59, 0x47, 0xF0, 0xAD, 0xD4, 0xA2, 0xAF, 0x9C, 0xA4, 0x72, 0xC0,
     0xB7, 0xFD, 0x93, 0x26, 0x36, 0x3F, 0xF7, 0xCC, 0x34, 0xA5, 0xE5, 0xF1, 0x71, 0xD8, 0x31, 0x15,
     0x04, 0xC7, 0x23, 0xC3, 0x18, 0x96, 0x05, 0x9A, 0x07, 0x12, 0x80, 0xE2, 0xEB, 0x27, 0xB2, 0x75,
     0x09, 0x83, 0x2C, 0x1A, 0x1B, 0x6E, 0x5A, 0xA0, 0x52, 0x3B, 0xD6, 0xB3, 0x29, 0xE3, 0x2F, 0x84,
     0x53, 0xD1, 0x00, 0xED, 0x20, 0xFC, 0xB1, 0x5B, 0x6A, 0xCB, 0xBE, 0x39, 0x4A, 0x4C, 0x58, 0xCF,
     0xD0, 0xEF, 0xAA, 0xFB, 0x43, 0x4D, 0x33, 0x85, 0x45, 0xF9, 0x02, 0x7F, 0x50, 0x3C, 0x9F, 0xA8,
     0x51, 0xA3, 0x40, 0x8F, 0x92, 0x9D, 0x38, 0xF5, 0xBC, 0xB6, 0xDA, 0x21, 0x10, 0xFF, 0xF3, 0xD2,
     0xCD, 0x0C, 0x13, 0xEC, 0x5F, 0x97, 0x44, 0x17, 0xC4, 0xA7, 0x7E, 0x3D, 0x64, 0x5D, 0x19, 0x73,
     0x60, 0x81, 0x4F, 0xDC, 0x22, 0x2A, 0x90, 0x88, 0x46, 0xEE, 0xB8, 0x14, 0xDE, 0x5E, 0x0B, 0xDB,
     0xE0, 0x32, 0x3A, 0x0A, 0x49, 0x06, 0x24, 0x5C, 0xC2, 0xD3, 0xAC, 0x62, 0x91, 0x95, 0xE4, 0x79,
     0xE7, 0xC8, 0x37, 0x6D, 0x8D, 0xD5, 0x4E, 0xA9, 0x6C, 0x56, 0xF4, 0xEA, 0x65, 0x7A, 0xAE, 0x08,
     0xBA, 0x78, 0x25, 0x2E, 0x1C, 0xA6, 0xB4, 0xC6, 0xE8, 0xDD, 0x74, 0x1F, 0x4B, 0xBD, 0x8B, 0x8A,
     0x70, 0x3E, 0xB5, 0x66, 0x48, 0x03, 0xF6, 0x0E, 0x61, 0x35, 0x57, 0xB9, 0x86, 0xC1, 0x1D, 0x9E,
     0xE1, 0xF8, 0x98, 0x11, 0x69, 0xD9, 0x8E, 0x94, 0x9B, 0x1E, 0x87, 0xE9, 0xCE, 0x55, 0x28, 0xDF,
     0x8C, 0xA1, 0x89, 0x0D, 0xBF, 0xE6, 0x42, 0x68, 0x41, 0x99, 0x2D, 0x0F, 0xB0, 0x54, 0xBB, 0x16]"

definition sub_byte :: "u8 \<Rightarrow> u8" where
  "sub_byte b = aes_sbox ! unat b"

definition xtime :: "u8 \<Rightarrow> u8" where
  "xtime b = push_bit 1 b XOR (if bit b 7 then 0x1B else 0)"

text \<open>A state is its sixteen bytes, column by column.\<close>

definition shift_rows :: "u8 list \<Rightarrow> u8 list" where
  "shift_rows st = map (\<lambda>i. st ! ((i + 4 * (i mod 4)) mod 16)) [0..<16]"

definition mix_byte :: "u8 list \<Rightarrow> nat \<Rightarrow> u8" where
  "mix_byte st i =
     (let byte = (\<lambda>k. st ! (i - i mod 4 + (i + k) mod 4))
      in xtime (byte 0) XOR (xtime (byte 1) XOR byte 1) XOR byte 2 XOR byte 3)"

definition mix_columns :: "u8 list \<Rightarrow> u8 list" where
  "mix_columns st = map (mix_byte st) [0..<16]"

definition add_round_key :: "u8 list \<Rightarrow> u8 list \<Rightarrow> u8 list" where
  "add_round_key rk st = map (\<lambda>i. st ! i XOR rk ! i) [0..<16]"

text \<open>The key schedule: sixty words of four bytes, the first eight the key.\<close>

definition aes_rcon :: "u8 list" where
  "aes_rcon = [0x00, 0x01, 0x02, 0x04, 0x08, 0x10, 0x20, 0x40]"

definition key_word :: "u8 list list \<Rightarrow> nat \<Rightarrow> u8 list" where
  "key_word ws i =
     (let prev = last ws;
          temp = (if i mod 8 = 0 then (case map sub_byte (rotate1 prev) of
                                         [] \<Rightarrow> [] | b # bs \<Rightarrow> (b XOR aes_rcon ! (i div 8)) # bs)
                  else if i mod 8 = 4 then map sub_byte prev else prev)
      in map2 (XOR) (ws ! (i - 8)) temp)"

definition key_schedule :: "u8 list \<Rightarrow> u8 list list" where
  "key_schedule key =
     foldl (\<lambda>ws i. ws @ [key_word ws i]) (map (\<lambda>i. take 4 (drop (4 * i) key)) [0..<8]) [8..<60]"

definition round_key :: "u8 list list \<Rightarrow> nat \<Rightarrow> u8 list" where
  "round_key ws r = concat (map (\<lambda>i. ws ! (4 * r + i)) [0..<4])"

definition aes_cipher :: "u8 list \<Rightarrow> u8 list \<Rightarrow> u8 list" where
  "aes_cipher key st =
     (let ws = key_schedule key;
          mid = foldl (\<lambda>s r. add_round_key (round_key ws r) (mix_columns (shift_rows (map sub_byte s))))
                  (add_round_key (round_key ws 0) st) [1..<14]
      in add_round_key (round_key ws 14) (shift_rows (map sub_byte mid)))"

definition aes_block :: "bytes \<Rightarrow> bytes \<Rightarrow> bytes" where
  "aes_block key b = map (\<lambda>w. char_of (unat w)) (aes_cipher (map of_char key) (map of_char b))"

lemma length_aes_block [simp]: "length (aes_block key b) = 16"
  by (simp add: aes_block_def aes_cipher_def add_round_key_def Let_def)

subsection \<open>Counter mode\<close>

type_synonym block = "128 word"

definition block_of :: "bytes \<Rightarrow> block" where
  "block_of bs = of_nat (be_value bs)"

definition block_bytes :: "block \<Rightarrow> bytes" where
  "block_bytes w = be64 (ucast (drop_bit 64 w)) @ be64 (ucast w)"

definition inc32 :: "block \<Rightarrow> block" where
  "inc32 w = push_bit 32 (drop_bit 32 w) OR ucast (ucast w + 1 :: u32)"

definition xor_byte :: "char \<Rightarrow> char \<Rightarrow> char" where
  "xor_byte a b = char_of (unat ((of_char a :: u8) XOR of_char b))"

function gctr :: "bytes \<Rightarrow> block \<Rightarrow> bytes \<Rightarrow> bytes" where
  "gctr key c bs =
     (if bs = [] then []
      else map2 xor_byte (take 16 bs) (aes_block key (block_bytes c)) @ gctr key (inc32 c) (drop 16 bs))"
  by pat_completeness auto
termination by (relation "measure (\<lambda>(key, c, bs). length bs)") auto

declare gctr.simps [simp del]

lemma xor_byte_twice [simp]: "xor_byte (xor_byte a b) b = a"
proof -
  have "(of_char (char_of (unat w)) :: u8) = w" for w :: u8
  proof -
    have "unat w < 256" using unsigned_less [of w] by simp
    then have "(of_char (char_of (unat w)) :: nat) = unat w" by simp
    moreover have "(of_char (char_of (unat w)) :: u8) = of_nat (of_char (char_of (unat w)))"
      by (rule of_nat_of_char [symmetric])
    ultimately show ?thesis by (simp del: of_nat_of_char)
  qed
  moreover have "char_of (unat (of_char a :: u8)) = a"
  proof -
    have "(of_char a :: u8) = of_nat (of_char a)" by (rule of_nat_of_char [symmetric])
    moreover have "(of_char a :: nat) < 256" by simp
    ultimately have "unat (of_char a :: u8) = of_char a"
      by (simp add: unsigned_of_nat take_bit_nat_eq_self del: of_nat_of_char)
    then show ?thesis by simp
  qed
  ultimately show ?thesis by (simp add: xor_byte_def xor.assoc)
qed

lemma map2_xor_twice: "length xs \<le> length ks \<Longrightarrow> map2 xor_byte (map2 xor_byte xs ks) ks = xs"
  by (induction xs ks rule: list_induct2') simp_all

lemma length_gctr [simp]: "length (gctr key c bs) = length bs"
proof (induction key c bs rule: gctr.induct)
  case (1 key c bs)
  then show ?case by (subst gctr.simps) (auto simp: min_def)
qed

lemma gctr_twice: "gctr key c (gctr key c bs) = bs"
proof (induction key c bs rule: gctr.induct)
  case (1 key c bs)
  show ?case
  proof (cases "bs = []")
    case False
    let ?k = "aes_block key (block_bytes c)"
    let ?x = "map2 xor_byte (take 16 bs) ?k" and ?y = "gctr key (inc32 c) (drop 16 bs)"
    have g: "gctr key c bs = ?x @ ?y" using False by (subst gctr.simps) simp
    have "length ?x = 16 \<or> ?y = []" using False by (cases "16 \<le> length bs") (auto simp: gctr.simps [of _ _ "[]"])
    then have "take 16 (?x @ ?y) = ?x" "drop 16 (?x @ ?y) = ?y" by auto
    moreover have "?x @ ?y \<noteq> []"
    proof -
      have "length (?x @ ?y) = length bs" by (simp add: min_def)
      with False show ?thesis by (metis length_0_conv)
    qed
    ultimately have "gctr key c (?x @ ?y) = map2 xor_byte ?x ?k @ gctr key (inc32 c) ?y"
      by (subst gctr.simps) (simp del: take_append drop_append append_is_Nil_conv)
    also have "map2 xor_byte ?x ?k = take 16 bs" by (rule map2_xor_twice) simp
    also have "gctr key (inc32 c) ?y = drop 16 bs" using 1 False by simp
    finally show ?thesis using g by simp
  qed (simp add: gctr.simps)
qed

subsection \<open>The tag\<close>

fun gf_mul :: "nat \<Rightarrow> block \<Rightarrow> block \<Rightarrow> block \<Rightarrow> block" where
  "gf_mul 0 x z v = z"
| "gf_mul (Suc n) x z v =
     gf_mul n x (if bit x n then z XOR v else z)
       (if bit v 0 then drop_bit 1 v XOR push_bit 120 0xE1 else drop_bit 1 v)"

function blocks_of :: "bytes \<Rightarrow> block list" where
  "blocks_of bs = (if bs = [] then [] else block_of (take 16 bs) # blocks_of (drop 16 bs))"
  by pat_completeness auto
termination by (relation "measure length") auto

declare blocks_of.simps [simp del]

definition ghash :: "block \<Rightarrow> bytes \<Rightarrow> block" where
  "ghash h bs = foldl (\<lambda>y x. gf_mul 128 (y XOR x) 0 h) 0 (blocks_of bs)"

definition pad16 :: "bytes \<Rightarrow> bytes" where
  "pad16 bs = bs @ replicate ((16 - length bs mod 16) mod 16) (char_of (0 :: nat))"

definition first_counter :: "bytes \<Rightarrow> block" where
  "first_counter nonce = block_of (nonce @ be32 1)"

definition gcm_tag :: "bytes \<Rightarrow> bytes \<Rightarrow> bytes \<Rightarrow> bytes \<Rightarrow> bytes" where
  "gcm_tag key nonce aad ct =
     block_bytes (ghash (block_of (aes_block key (replicate 16 (char_of (0 :: nat)))))
                    (pad16 aad @ pad16 ct @ be64 (of_nat (8 * length aad)) @ be64 (of_nat (8 * length ct)))
                  XOR block_of (aes_block key (block_bytes (first_counter nonce))))"

lemma length_gcm_tag [simp]: "length (gcm_tag key nonce aad ct) = 16"
  by (simp add: gcm_tag_def block_bytes_def)

definition gcm_seal :: "bytes \<Rightarrow> bytes \<Rightarrow> bytes \<Rightarrow> bytes \<Rightarrow> bytes" where
  "gcm_seal key nonce plain aad =
     (let ct = gctr key (inc32 (first_counter nonce)) plain in ct @ gcm_tag key nonce aad ct)"

definition gcm_open :: "bytes \<Rightarrow> bytes \<Rightarrow> bytes \<Rightarrow> bytes \<Rightarrow> bytes option" where
  "gcm_open key nonce body aad =
     (if length body < 16 then None
      else let ct = take (length body - 16) body
        in if drop (length body - 16) body = gcm_tag key nonce aad ct
           then Some (gctr key (inc32 (first_counter nonce)) ct) else None)"

lemma gcm_open_seal [simp]: "gcm_open key nonce (gcm_seal key nonce plain aad) aad = Some plain"
  by (simp add: gcm_open_def gcm_seal_def Let_def gctr_twice)

end
