(* ===== verification/Shred.thy ===== *)
theory Shred
  imports AesGcm Results
begin

text \<open>
  Crypto-shredding keys, after \<^verbatim>\<open>internal/crypto/shred.go\<close>: data keys, the sealing of one cell, the binding of a
  ciphertext to its cell, and envelopes that wrap a data key; with the base64 of \<^verbatim>\<open>encoding/base64\<close> a sealed
  value is stored in. The random source is the bytes it will yield, consumed from the front; reading past
  their end is the error of \<^verbatim>\<open>io.ReadFull\<close>.
\<close>

datatype crypto_error = NoEntropy | BadKeyLength nat | ShortCiphertext | AuthFailed | ErrErased

subsection \<open>Sealing one cell\<close>

definition read_random :: "nat \<Rightarrow> bytes \<Rightarrow> crypto_error + bytes \<times> bytes" where
  "read_random n rnd = (if length rnd < n then Inl NoEntropy else Inr (take n rnd, drop n rnd))"

definition key_len :: nat where "key_len = 32"

definition nonce_size :: nat where "nonce_size = 12"

definition new_dek :: "bytes \<Rightarrow> crypto_error + bytes \<times> bytes" where
  "new_dek rnd = read_random key_len rnd"

definition new_gcm :: "bytes \<Rightarrow> crypto_error + unit" where
  "new_gcm dek = guard (length dek = key_len) (BadKeyLength (length dek))"

definition encrypt :: "bytes \<Rightarrow> bytes \<Rightarrow> bytes \<Rightarrow> bytes \<Rightarrow> crypto_error + bytes \<times> bytes" where
  "encrypt dek plain aad rnd =
     and_then (new_gcm dek) (\<lambda>_.
     and_then (read_random nonce_size rnd) (\<lambda>(nonce, rnd').
       Inr (nonce @ gcm_seal dek nonce plain aad, rnd')))"

definition decrypt :: "bytes \<Rightarrow> bytes \<Rightarrow> bytes \<Rightarrow> crypto_error + bytes" where
  "decrypt dek ct aad =
     and_then (guard (dek \<noteq> []) ErrErased) (\<lambda>_.
     and_then (new_gcm dek) (\<lambda>_.
     and_then (guard (nonce_size \<le> length ct) ShortCiphertext) (\<lambda>_.
       some_or AuthFailed (gcm_open dek (take nonce_size ct) (drop nonce_size ct) aad))))"

definition cell_aad :: "u64 \<Rightarrow> string \<Rightarrow> u32 \<Rightarrow> bytes" where
  "cell_aad table k col = ''datagit/'' @ dec_digits (unat table) @ ''/'' @ k @ ''/'' @ dec_digits (unat col)"

lemma encrypt_Inr:
  "encrypt dek plain aad rnd = Inr (ct, rnd') \<longleftrightarrow>
     length dek = 32 \<and> 12 \<le> length rnd \<and> ct = take 12 rnd @ gcm_seal dek (take 12 rnd) plain aad \<and> rnd' = drop 12 rnd"
  by (auto simp: encrypt_def new_gcm_def read_random_def key_len_def nonce_size_def and_then_Inr guard_Inr
      split: if_splits)

lemma decrypt_encrypt: "encrypt dek plain aad rnd = Inr (ct, rnd') \<Longrightarrow> decrypt dek ct aad = Inr plain"
  by (auto simp: encrypt_Inr decrypt_def new_gcm_def key_len_def nonce_size_def guard_def some_or_def and_then_def)

text \<open>The text binds the cell: the table is before the first slash, the column after the last.\<close>

lemma split_at_first:
  "c \<notin> set a \<Longrightarrow> c \<notin> set b \<Longrightarrow> a @ c # x = b @ c # y \<longleftrightarrow> a = b \<and> x = y"
  by (induction a arbitrary: b) (case_tac b; auto)+

lemma split_at_last:
  assumes "c \<notin> set x" and "c \<notin> set y"
  shows "a @ c # x = b @ c # y \<longleftrightarrow> a = b \<and> x = y"
proof -
  have "a @ c # x = b @ c # y \<longleftrightarrow> rev (a @ c # x) = rev (b @ c # y)" by (rule rev_is_rev_conv [symmetric])
  also have "\<dots> \<longleftrightarrow> rev x @ c # rev a = rev y @ c # rev b" by simp
  also have "\<dots> \<longleftrightarrow> rev x = rev y \<and> rev a = rev b" by (rule split_at_first) (use assms in simp_all)
  finally show ?thesis by auto
qed

lemma slash_digits: "CHR ''/'' \<notin> set (dec_digits n)"
proof
  assume "CHR ''/'' \<in> set (dec_digits n)"
  from dec_digits_range [OF this] show False by simp
qed

lemma cell_aad_binds: "cell_aad t k c = cell_aad t' k' c' \<longleftrightarrow> t = t' \<and> k = k' \<and> c = c'"
proof -
  have "cell_aad t k c = cell_aad t' k' c' \<longleftrightarrow>
      dec_digits (unat t) @ CHR ''/'' # (k @ CHR ''/'' # dec_digits (unat c)) =
      dec_digits (unat t') @ CHR ''/'' # (k' @ CHR ''/'' # dec_digits (unat c'))"
    by (simp add: cell_aad_def)
  then show ?thesis
    by (auto simp: split_at_first [OF slash_digits slash_digits] split_at_last [OF slash_digits slash_digits]
        dest!: dec_digits_inj [THEN iffD1] unsigned_word_eqI)
qed

subsection \<open>Envelopes\<close>

text \<open>What callers rely on: a key that was wrapped comes back, and a wrapped key is never empty.\<close>

locale envelope =
  fixes wrap :: "bytes \<Rightarrow> bytes \<Rightarrow> crypto_error + bytes \<times> bytes"
    and unwrap :: "bytes \<Rightarrow> crypto_error + bytes"
  assumes unwrap_wrap: "wrap dek rnd = Inr (w, rnd') \<Longrightarrow> unwrap w = Inr dek"
    and wrapped_nonempty: "wrap dek rnd = Inr (w, rnd') \<Longrightarrow> w \<noteq> []"
begin

lemma wrap_inj: "wrap dek rnd = Inr (w, r) \<Longrightarrow> wrap dek' rnd' = Inr (w, r') \<Longrightarrow> dek = dek'"
  using unwrap_wrap by (metis sum.inject(2))

end

definition dek_label :: bytes where "dek_label = ''datagit/dek''"

definition local_wrap :: "bytes \<Rightarrow> bytes \<Rightarrow> bytes \<Rightarrow> crypto_error + bytes \<times> bytes" where
  "local_wrap kek dek rnd = encrypt kek dek dek_label rnd"

definition local_unwrap :: "bytes \<Rightarrow> bytes \<Rightarrow> crypto_error + bytes" where
  "local_unwrap kek w = decrypt kek w dek_label"

definition new_local_envelope :: "bytes \<Rightarrow> crypto_error + bytes" where
  "new_local_envelope kek = and_then (guard (length kek = key_len) (BadKeyLength key_len)) (\<lambda>_. Inr kek)"

interpretation le: envelope "local_wrap kek" "local_unwrap kek" for kek
  by unfold_locales (auto simp: local_wrap_def local_unwrap_def decrypt_encrypt, auto simp: encrypt_Inr)

subsection \<open>Base64\<close>

definition b64_alphabet :: string where
  "b64_alphabet = ''ABCDEFGHIJKLMNOPQRSTUVWXYZabcdefghijklmnopqrstuvwxyz0123456789+/''"

definition b64_char :: "nat \<Rightarrow> char" where
  "b64_char n = b64_alphabet ! n"

fun b64_encode :: "bytes \<Rightarrow> string" where
  "b64_encode [] = []"
| "b64_encode [a] =
     (let x = of_char a in [b64_char (x div 4), b64_char (x mod 4 * 16), CHR ''='', CHR ''=''])"
| "b64_encode [a, b] =
     (let x = of_char a; y = of_char b
      in [b64_char (x div 4), b64_char (x mod 4 * 16 + y div 16), b64_char (y mod 16 * 4), CHR ''=''])"
| "b64_encode (a # b # c # bs) =
     (let x = of_char a; y = of_char b; z = of_char c
      in b64_char (x div 4) # b64_char (x mod 4 * 16 + y div 16) # b64_char (y mod 16 * 4 + z div 64)
           # b64_char (z mod 64) # b64_encode bs)"

fun index_of :: "char \<Rightarrow> string \<Rightarrow> nat option" where
  "index_of c [] = None"
| "index_of c (d # ds) = (if c = d then Some 0 else map_option Suc (index_of c ds))"

definition b64_value :: "char \<Rightarrow> nat option" where
  "b64_value c = index_of c b64_alphabet"

text \<open>The decoder on text without line breaks: padding only at the end, unused bits ignored.\<close>

fun b64_groups :: "string \<Rightarrow> bytes option" where
  "b64_groups [] = Some []"
| "b64_groups (p # q # r # s # rest) =
     (case (b64_value p, b64_value q) of
        (Some x, Some y) \<Rightarrow>
          if r = CHR ''='' then (if s = CHR ''='' \<and> rest = [] then Some [char_of (x * 4 + y div 16)] else None)
          else (case b64_value r of
              None \<Rightarrow> None
            | Some z \<Rightarrow>
                if s = CHR ''='' then (if rest = [] then Some [char_of (x * 4 + y div 16), char_of (y mod 16 * 16 + z div 4)]
                                      else None)
                else (case b64_value s of
                    None \<Rightarrow> None
                  | Some w \<Rightarrow> map_option (\<lambda>bs. char_of (x * 4 + y div 16) # char_of (y mod 16 * 16 + z div 4)
                                                # char_of (z mod 4 * 64 + w) # bs) (b64_groups rest)))
      | _ \<Rightarrow> None)"
| "b64_groups _ = None"

text \<open>Line breaks are skipped wherever they stand.\<close>

definition line_break :: "char \<Rightarrow> bool" where
  "line_break c \<longleftrightarrow> c = CHR 0x0A \<or> c = CHR 0x0D"

definition b64_decode :: "string \<Rightarrow> bytes option" where
  "b64_decode s = b64_groups (filter (\<lambda>c. \<not> line_break c) s)"

lemma b64_chars: "n < 64 \<Longrightarrow> b64_value (b64_char n) = Some n \<and> b64_char n \<noteq> CHR ''='' \<and> \<not> line_break (b64_char n)"
proof -
  have "list_all (\<lambda>n. b64_value (b64_char n) = Some n \<and> b64_char n \<noteq> CHR ''='' \<and> \<not> line_break (b64_char n)) [0..<64]"
    by code_simp
  then show "n < 64 \<Longrightarrow> ?thesis" by (simp add: list_all_iff)
qed

lemma char_less_256: "(of_char c :: nat) < 256"
  by simp

lemma b64_small:
  assumes "x < 256" and "y < (256 :: nat)"
  shows "x div 4 < 64" "x div 16 < 16" "x div 64 < 4" "x mod 4 * 16 + y div 16 < 64" "x mod 16 * 4 + y div 64 < 64"
proof -
  have d: "z div 4 < 64" "z div 16 < 16" "z div 64 < 4" if "z < (256 :: nat)" for z
    using that by (simp_all add: div_less_iff_less_mult)
  show "x div 4 < 64" "x div 16 < 16" "x div 64 < 4" using d [OF assms(1)] by simp_all
  have "x mod 4 \<le> 3" "x mod 16 \<le> 15" using mod_less_divisor [of 4 x] mod_less_divisor [of 16 x] by linarith+
  then show "x mod 4 * 16 + y div 16 < 64" "x mod 16 * 4 + y div 64 < 64" using d [OF assms(2)] by linarith+
qed

lemma b64_sextets:
  "(of_char a :: nat) div 4 < 64" "(of_char a :: nat) mod 4 * 16 < 64" "(of_char a :: nat) mod 64 < 64"
  "(of_char a :: nat) mod 4 * 16 + of_char b div 16 < 64" "(of_char a :: nat) mod 16 * 4 < 64"
  "(of_char a :: nat) mod 16 * 4 + of_char b div 64 < 64"
  using b64_small [OF char_less_256 [of a] char_less_256 [of b]] by simp_all

text \<open>The bytes come back out of their sextets.\<close>

lemma b64_bytes:
  assumes "x < 256" and "y < 256" and "z < (256 :: nat)"
  shows "x div 4 * 4 + (x mod 4 * 16 + y div 16) div 16 = x" "x div 4 * 4 + (x mod 4 * 16) div 16 = x"
    "(x mod 4 * 16 + y div 16) mod 16 * 16 + (y mod 16 * 4 + z div 64) div 4 = y"
    "(x mod 4 * 16 + y div 16) mod 16 * 16 + (y mod 16 * 4) div 4 = y"
    "(y mod 16 * 4 + z div 64) mod 4 * 64 + z mod 64 = z"
proof -
  have s: "y div 16 < 16" "z div 64 < 4" using b64_small(2,3) assms by blast+
  have d: "(x mod 4 * 16 + y div 16) div 16 = x mod 4" "(x mod 4 * 16 + y div 16) mod 16 = y div 16"
    "(y mod 16 * 4 + z div 64) div 4 = y mod 16" "(y mod 16 * 4 + z div 64) mod 4 = z div 64" using s by simp_all
  show "x div 4 * 4 + (x mod 4 * 16 + y div 16) div 16 = x" "x div 4 * 4 + (x mod 4 * 16) div 16 = x"
    "(x mod 4 * 16 + y div 16) mod 16 * 16 + (y mod 16 * 4 + z div 64) div 4 = y"
    "(x mod 4 * 16 + y div 16) mod 16 * 16 + (y mod 16 * 4) div 4 = y"
    "(y mod 16 * 4 + z div 64) mod 4 * 64 + z mod 64 = z"
    unfolding d by simp_all
qed

lemma b64_groups_encode: "b64_groups (b64_encode bs) = Some bs"
proof (induction bs rule: b64_encode.induct)
  case (2 a)
  show ?case using b64_chars [OF b64_sextets(1) [of a]] b64_chars [OF b64_sextets(2) [of a]]
      b64_bytes [OF char_less_256 [of a] char_less_256 char_less_256] by (simp add: Let_def)
next
  case (3 a b)
  show ?case using b64_chars [OF b64_sextets(1) [of a]] b64_chars [OF b64_sextets(4) [of a b]] b64_chars [OF b64_sextets(5) [of b]]
      b64_bytes [OF char_less_256 [of a] char_less_256 [of b] char_less_256] by (simp add: Let_def)
next
  case (4 a b c bs)
  show ?case using b64_chars [OF b64_sextets(1) [of a]] b64_chars [OF b64_sextets(4) [of a b]]
      b64_chars [OF b64_sextets(6) [of b c]] b64_chars [OF b64_sextets(3) [of c]] 4
      b64_bytes [OF char_less_256 [of a] char_less_256 [of b] char_less_256 [of c]] by (simp add: Let_def)
qed simp

lemma b64_encode_plain: "\<forall>c \<in> set (b64_encode bs). \<not> line_break c"
proof (induction bs rule: b64_encode.induct)
  case (2 a)
  show ?case using b64_chars [OF b64_sextets(1) [of a]] b64_chars [OF b64_sextets(2) [of a]]
    by (simp add: Let_def) (simp add: line_break_def)
next
  case (3 a b)
  show ?case using b64_chars [OF b64_sextets(1) [of a]] b64_chars [OF b64_sextets(4) [of a b]] b64_chars [OF b64_sextets(5) [of b]]
    by (simp add: Let_def) (simp add: line_break_def)
next
  case (4 a b c bs)
  show ?case using b64_chars [OF b64_sextets(1) [of a]] b64_chars [OF b64_sextets(4) [of a b]]
      b64_chars [OF b64_sextets(6) [of b c]] b64_chars [OF b64_sextets(3) [of c]] 4 by (simp add: Let_def)
qed simp

lemma b64_decode_encode [simp]: "b64_decode (b64_encode bs) = Some bs"
  using b64_encode_plain [of bs] by (simp add: b64_decode_def b64_groups_encode filter_id_conv)

end
