(* ===== verification/PiiDefs.thy ===== *)
theory PiiDefs
  imports Shred StoreWrites
begin

text \<open>
  Personal data, after \<^verbatim>\<open>internal/store/pii.go\<close>: designated columns, one key per data subject, the sealing of rows
  on their way into the sidecar and of the history already there, the opening of stored rows, and erasure.
  Each statement or transaction commits on its own, so an operation returns the state it left together
  with its result. A state is the two control tables, the random source and the database.
\<close>

subsection \<open>State\<close>

record pii_row =
  pi_table :: i64
  pi_col :: colid
  pi_subject :: colid
  pi_by :: string

record dek_row =
  dk_subject :: string
  dk_wrapped :: "bytes option"
  dk_erased :: "(i64 \<times> string) option"

record vault =
  va_pii :: "pii_row list"
  va_keys :: "dek_row list"
  va_random :: bytes
  va_db :: dbase

record wrapping =
  en_wrap :: "bytes \<Rightarrow> bytes \<Rightarrow> crypto_error + bytes \<times> bytes"
  en_unwrap :: "bytes \<Rightarrow> crypto_error + bytes"

text \<open>
  The store's environment: its key envelope, if any; the printing of values; \<^verbatim>\<open>fmt.Sprint\<close> of the driver values
  other than text, bytes and nil.
\<close>

record piienv =
  pe_store :: dbenv
  pe_envelope :: "wrapping option"
  pe_text :: text_lib
  pe_sprint :: "driver_value \<Rightarrow> string"

datatype pii_error =
    NoColumnNamed string | NoSubjectColumn string | KeyDesignated string | NoEnvelope | CryptoFailed crypto_error
  | NoPrincipal | NothingDesignated | PiiStoreError st_error | KeyPanic

definition local_envelope :: "bytes \<Rightarrow> wrapping" where
  "local_envelope kek = \<lparr>en_wrap = local_wrap kek, en_unwrap = local_unwrap kek\<rparr>"

subsection \<open>Designated columns\<close>

definition pii_columns :: "vault \<Rightarrow> store_table \<Rightarrow> pii_row list" where
  "pii_columns va t = sort_key pi_col (filter (\<lambda>r. pi_table r = st_id t) (va_pii va))"

definition designate_row :: "store_table \<Rightarrow> colid \<Rightarrow> colid \<Rightarrow> string \<Rightarrow> pii_row list \<Rightarrow> pii_row list" where
  "designate_row t col subj who rows =
     (if list_ex (\<lambda>r. pi_table r = st_id t \<and> pi_col r = col) rows
      then map (\<lambda>r. if pi_table r = st_id t \<and> pi_col r = col then r\<lparr>pi_subject := subj, pi_by := who\<rparr> else r) rows
      else rows @ [\<lparr>pi_table = st_id t, pi_col = col, pi_subject = subj, pi_by = who\<rparr>])"

text \<open>The subject of a row is that of the table's first designated column.\<close>

definition subject_for :: "text_lib \<Rightarrow> pii_row list \<Rightarrow> row \<Rightarrow> string" where
  "subject_for lib cols r =
     (case cols of
        [] \<Rightarrow> []
      | c # _ \<Rightarrow> if val_kind (row_get r (pi_subject c)) = KindNull then [] else value_plain lib (row_get r (pi_subject c)))"

subsection \<open>Subject keys\<close>

definition find_dek :: "vault \<Rightarrow> string \<Rightarrow> dek_row option" where
  "find_dek va s = find (\<lambda>r. dk_subject r = s) (va_keys va)"

text \<open>A stored key is unwrapped; an erased one, or none at all, is \<^verbatim>\<open>ErrErased\<close>.\<close>

definition stored_dek :: "wrapping \<Rightarrow> vault \<Rightarrow> string \<Rightarrow> crypto_error + bytes" where
  "stored_dek en va s =
     (case find_dek va s of
        None \<Rightarrow> Inl ErrErased
      | Some r \<Rightarrow> (case dk_wrapped r of
          None \<Rightarrow> Inl ErrErased
        | Some w \<Rightarrow> if dk_erased r \<noteq> None \<or> w = [] then Inl ErrErased else en_unwrap en w))"

text \<open>\<^verbatim>\<open>INSERT ... ON CONFLICT DO NOTHING\<close>.\<close>

definition insert_dek :: "string \<Rightarrow> bytes \<Rightarrow> vault \<Rightarrow> vault" where
  "insert_dek s w va =
     (if find_dek va s = None
      then va\<lparr>va_keys := va_keys va @ [\<lparr>dk_subject = s, dk_wrapped = Some w, dk_erased = None\<rparr>]\<rparr> else va)"

definition issue_dek :: "wrapping \<Rightarrow> string \<Rightarrow> vault \<Rightarrow> vault \<times> (crypto_error + bytes)" where
  "issue_dek en s va =
     (case and_then (new_dek (va_random va)) (\<lambda>(dek, rnd). en_wrap en dek rnd) of
        Inl e \<Rightarrow> (va, Inl e)
      | Inr (w, rnd) \<Rightarrow> (let va' = insert_dek s w (va\<lparr>va_random := rnd\<rparr>) in (va', stored_dek en va' s)))"

definition dek_for :: "piienv \<Rightarrow> string \<Rightarrow> bool \<Rightarrow> vault \<Rightarrow> vault \<times> (pii_error + bytes)" where
  "dek_for env s create va =
     (case pe_envelope env of
        None \<Rightarrow> (va, Inl NoEnvelope)
      | Some en \<Rightarrow>
          if find_dek va s = None \<and> create
          then (case issue_dek en s va of (va', r) \<Rightarrow> (va', left_map CryptoFailed r))
          else (va, left_map CryptoFailed (stored_dek en va s)))"

subsection \<open>Sealing rows\<close>

definition ciphertext_prefix :: string where "ciphertext_prefix = ''datagit:enc:v1:''"

definition has_prefix :: "string \<Rightarrow> string \<Rightarrow> bool" where
  "has_prefix p s \<longleftrightarrow> take (length p) s = p"

definition sealed_text :: "bytes \<Rightarrow> string" where
  "sealed_text ct = ciphertext_prefix @ b64_encode ct"

text \<open>One designated column of a row, under the row's key.\<close>

definition seal_cell :: "text_lib \<Rightarrow> bytes \<Rightarrow> store_table \<Rightarrow> pk \<Rightarrow> row \<Rightarrow> (colid, val) fmap \<times> bytes \<Rightarrow> pii_row
    \<Rightarrow> crypto_error + (colid, val) fmap \<times> bytes" where
  "seal_cell lib dek t k r st c =
     (let v = row_get r (pi_col c) in
      if val_kind v = KindNull then Inr st
      else and_then (encrypt dek (value_plain lib v) (cell_aad (st_id t) k (pi_col c)) (snd st)) (\<lambda>(ct, rnd).
             Inr (fmupd (pi_col c) (text_val (sealed_text ct)) (fst st), rnd)))"

definition seal_cells :: "text_lib \<Rightarrow> bytes \<Rightarrow> store_table \<Rightarrow> pk \<Rightarrow> row \<Rightarrow> pii_row list \<Rightarrow> (colid, val) fmap \<Rightarrow> bytes
    \<Rightarrow> crypto_error + (colid, val) fmap \<times> bytes" where
  "seal_cells lib dek t k r cols m rnd = fold_steps (\<lambda>c st. seal_cell lib dek t k r st c) cols (m, rnd)"

text \<open>
  \<^verbatim>\<open>seal\<close> of a sealer: the table's columns, read once for a commit, and the keys it has looked up so far. The
  key of a row that does not encode is a panic.
\<close>

record sealer =
  sl_cols :: "pii_row list"
  sl_keys :: "(string, bytes) fmap"

definition sealer_key :: "piienv \<Rightarrow> string \<Rightarrow> sealer \<Rightarrow> vault \<Rightarrow> sealer \<times> vault \<times> (pii_error + bytes)" where
  "sealer_key env s sl va =
     (case fmlookup (sl_keys sl) s of
        Some dek \<Rightarrow> (sl, va, Inr dek)
      | None \<Rightarrow> (case dek_for env s True va of
          (va', Inl e) \<Rightarrow> (sl, va', Inl e)
        | (va', Inr dek) \<Rightarrow> (sl\<lparr>sl_keys := fmupd s dek (sl_keys sl)\<rparr>, va', Inr dek)))"

definition seal_row :: "piienv \<Rightarrow> store_table \<Rightarrow> row \<Rightarrow> sealer \<Rightarrow> vault \<Rightarrow> sealer \<times> vault \<times> (pii_error + row)" where
  "seal_row env t r sl va =
     (case r of
        None \<Rightarrow> (sl, va, Inr r)
      | Some m \<Rightarrow>
          if val_kind (row_get r (pi_subject (hd (sl_cols sl)))) = KindNull then (sl, va, Inr r)
          else (case sealer_key env (value_plain (pe_text env) (row_get r (pi_subject (hd (sl_cols sl))))) sl va of
              (sl', va', Inl e) \<Rightarrow> (sl', va', Inl e)
            | (sl', va', Inr dek) \<Rightarrow>
                (case make_pk r (st_pk t) of
                   None \<Rightarrow> (sl', va', Inl KeyPanic)
                 | Some k \<Rightarrow>
                     (case seal_cells (pe_text env) dek t k r (sl_cols sl) m (va_random va') of
                        Inl e \<Rightarrow> (sl', va', Inl (CryptoFailed e))
                      | Inr (m', rnd) \<Rightarrow> (sl', va'\<lparr>va_random := rnd\<rparr>, Inr (Some m'))))))"

text \<open>No sealer at all without an envelope or a designated column: the row is stored as it is.\<close>

definition new_sealer :: "piienv \<Rightarrow> store_table \<Rightarrow> vault \<Rightarrow> sealer option" where
  "new_sealer env t va =
     (if pe_envelope env = None \<or> pii_columns va t = [] then None
      else Some \<lparr>sl_cols = pii_columns va t, sl_keys = fmempty\<rparr>)"

definition store_sealed :: "piienv \<Rightarrow> store_table \<Rightarrow> row \<Rightarrow> vault \<Rightarrow> vault \<times> (pii_error + row)" where
  "store_sealed env t r va =
     (case new_sealer env t va of None \<Rightarrow> (va, Inr r) | Some sl \<Rightarrow> snd (seal_row env t r sl va))"

subsection \<open>Opening rows\<close>

definition decode_ciphertext :: "val \<Rightarrow> bytes option" where
  "decode_ciphertext v =
     (if val_kind v = KindText \<and> has_prefix ciphertext_prefix (val_text v)
      then b64_decode (drop (length ciphertext_prefix) (val_text v)) else None)"

definition erased_marker :: string where "erased_marker = ''<erased>''"

definition open_cell :: "bytes \<Rightarrow> store_table \<Rightarrow> pk \<Rightarrow> row \<Rightarrow> (colid, val) fmap \<Rightarrow> pii_row \<Rightarrow> (colid, val) fmap" where
  "open_cell dek t k r m c =
     (case decode_ciphertext (row_get r (pi_col c)) of
        None \<Rightarrow> m
      | Some ct \<Rightarrow> (case decrypt dek ct (cell_aad (st_id t) k (pi_col c)) of
          Inl _ \<Rightarrow> fmupd (pi_col c) (text_val erased_marker) m
        | Inr pt \<Rightarrow> fmupd (pi_col c) (text_val pt) m))"

definition mark_cell :: "row \<Rightarrow> (colid, val) fmap \<Rightarrow> pii_row \<Rightarrow> (colid, val) fmap" where
  "mark_cell r m c =
     (if val_kind (row_get r (pi_col c)) = KindNull then m else fmupd (pi_col c) (text_val erased_marker) m)"

definition decrypt_pii :: "piienv \<Rightarrow> store_table \<Rightarrow> vault \<Rightarrow> row \<Rightarrow> row option" where
  "decrypt_pii env t va r =
     (let cols = pii_columns va t; s = subject_for (pe_text env) cols r in
      if cols = [] \<or> s = [] then Some r
      else (case make_pk r (st_pk t) of
          None \<Rightarrow> None
        | Some k \<Rightarrow>
            let m = (case r of None \<Rightarrow> fmempty | Some m \<Rightarrow> m) in
            (case snd (dek_for env s False va) of
               Inl _ \<Rightarrow> Some (Some (foldl (mark_cell r) m cols))
             | Inr dek \<Rightarrow> Some (Some (foldl (open_cell dek t k r) m cols)))))"

subsection \<open>Sealing the history that exists\<close>

definition as_string :: "piienv \<Rightarrow> driver_value \<Rightarrow> string" where
  "as_string env x = (case x of DString s \<Rightarrow> s | DBytes b \<Rightarrow> b | DNil \<Rightarrow> [] | _ \<Rightarrow> pe_sprint env x)"

record pending =
  pn_branch :: string
  pn_pk :: pk
  pn_row :: row
  pn_subject :: string
  pn_value :: string

definition pending_of :: "piienv \<Rightarrow> colid \<Rightarrow> colid \<Rightarrow> version \<Rightarrow> pending option" where
  "pending_of env col subj v =
     (let text = (\<lambda>c. as_string env (bind_or_nil (de_scan (pe_store env)) (row_get (v_row v) c)));
          p = \<lparr>pn_branch = v_branch v, pn_pk = v_pk v, pn_row = v_row v, pn_subject = text subj, pn_value = text col\<rparr>
      in if val_kind (row_get (v_row v) col) = KindNull \<or> pn_subject p = [] \<or> has_prefix ciphertext_prefix (pn_value p)
         then None else Some p)"

text \<open>\<^verbatim>\<open>UPDATE sidecar SET column = $1 WHERE branch_id = $2 AND key\<close>: every version of the key on the branch.\<close>

definition overwrite :: "string \<Rightarrow> pk \<Rightarrow> colid \<Rightarrow> val \<Rightarrow> version list \<Rightarrow> version list" where
  "overwrite branch k col x side =
     map (\<lambda>v. if v_branch v = branch \<and> v_pk v = k
              then v\<lparr>v_row := Some (fmupd col x (case v_row v of None \<Rightarrow> fmempty | Some m \<Rightarrow> m))\<rparr> else v) side"

definition set_side :: "store_table \<Rightarrow> (version list \<Rightarrow> version list) \<Rightarrow> vault \<Rightarrow> vault" where
  "set_side t f va =
     va\<lparr>va_db := (va_db va)\<lparr>db_side := (db_side (va_db va))(st_id t := f (db_side (va_db va) (st_id t)))\<rparr>\<rparr>"

definition seal_pending :: "piienv \<Rightarrow> store_table \<Rightarrow> colid \<Rightarrow> pending \<Rightarrow> (string, bytes) fmap \<times> vault
    \<Rightarrow> ((string, bytes) fmap \<times> vault) \<times> pii_error option" where
  "seal_pending env t col p st =
     (case sealer_key env (pn_subject p) \<lparr>sl_cols = [], sl_keys = fst st\<rparr> (snd st) of
        (sl, va, Inl e) \<Rightarrow> ((sl_keys sl, va), Some e)
      | (sl, va, Inr dek) \<Rightarrow>
          (case make_pk (pn_row p) (st_pk t) of
             None \<Rightarrow> ((sl_keys sl, va), Some KeyPanic)
           | Some k \<Rightarrow>
               (case encrypt dek (pn_value p) (cell_aad (st_id t) k col) (va_random va) of
                  Inl e \<Rightarrow> ((sl_keys sl, va), Some (CryptoFailed e))
                | Inr (ct, rnd) \<Rightarrow>
                    ((sl_keys sl, set_side t (overwrite (pn_branch p) (pn_pk p) col (text_val (sealed_text ct)))
                                    (va\<lparr>va_random := rnd\<rparr>)), None))))"

fun seal_all :: "piienv \<Rightarrow> store_table \<Rightarrow> colid \<Rightarrow> pending list \<Rightarrow> (string, bytes) fmap \<times> vault
    \<Rightarrow> ((string, bytes) fmap \<times> vault) \<times> pii_error option" where
  "seal_all env t col [] st = (st, None)"
| "seal_all env t col (p # ps) st =
     (case seal_pending env t col p st of
        (st', Some e) \<Rightarrow> (st', Some e)
      | (st', None) \<Rightarrow> seal_all env t col ps st')"

definition seal_existing :: "piienv \<Rightarrow> store_table \<Rightarrow> colid \<Rightarrow> colid \<Rightarrow> vault \<Rightarrow> vault \<times> pii_error option" where
  "seal_existing env t col subj va =
     (if pe_envelope env = None then (va, Some NoEnvelope)
      else (case seal_all env t col (List.map_filter (pending_of env col subj) (db_side (va_db va) (st_id t))) (fmempty, va) of
          ((_, va'), e) \<Rightarrow> (va', e)))"

definition designate_pii :: "piienv \<Rightarrow> store_table \<Rightarrow> string \<Rightarrow> string \<Rightarrow> string \<Rightarrow> vault \<Rightarrow> vault \<times> pii_error option" where
  "designate_pii env t column subject who va =
     (case column_by_name t column of
        None \<Rightarrow> (va, Some (NoColumnNamed column))
      | Some c \<Rightarrow> (case column_by_name t subject of
          None \<Rightarrow> (va, Some (NoSubjectColumn subject))
        | Some s \<Rightarrow>
            if ac_id c \<in> set (st_pk t) then (va, Some (KeyDesignated column))
            else seal_existing env t (ac_id c) (ac_id s)
                   (va\<lparr>va_pii := designate_row t (ac_id c) (ac_id s) who (va_pii va)\<rparr>)))"

subsection \<open>Erasure\<close>

record erasure_report =
  er_rows :: nat
  er_commit :: "digest option"
  er_key_destroyed :: bool

definition destroy_key :: "string \<Rightarrow> i64 \<Rightarrow> string \<Rightarrow> vault \<Rightarrow> vault" where
  "destroy_key s now who va =
     va\<lparr>va_keys := map (\<lambda>r. if dk_subject r = s then r\<lparr>dk_wrapped := None, dk_erased := Some (now, who)\<rparr> else r)
          (va_keys va)\<rparr>"

definition erase_message :: "string \<Rightarrow> string \<Rightarrow> string" where
  "erase_message s reason = ''Erase data subject '' @ s @ '': '' @ reason"

text \<open>The filter of the read is an equality with a text; on a column of text it is this.\<close>

definition subject_rows :: "colid \<Rightarrow> string \<Rightarrow> row \<Rightarrow> bool" where
  "subject_rows c s r \<longleftrightarrow> val_kind (row_get r c) = KindText \<and> val_text (row_get r c) = s"

definition erase_changes :: "store_table \<Rightarrow> row list \<Rightarrow> store_change list option" where
  "erase_changes t rows =
     those (map (\<lambda>r. map_option (\<lambda>k. \<lparr>sc_pk' = k, sc_op = OpDelete, sc_row = None\<rparr>) (make_pk r (st_pk t))) rows)"

definition erase_subject :: "piienv \<Rightarrow> store_table \<Rightarrow> string \<Rightarrow> string \<Rightarrow> string \<Rightarrow> i64 \<Rightarrow> vault
    \<Rightarrow> vault \<times> (pii_error + erasure_report)" where
  "erase_subject env t s reason who now va =
     (if who = [] then (va, Inl NoPrincipal)
      else case pii_columns va t of
        [] \<Rightarrow> (va, Inl NothingDesignated)
      | c # _ \<Rightarrow>
         (case store_read (va_db va) t default_branch AtHead (Some (subject_rows (pi_subject c) s)) whole of
            Inl e \<Rightarrow> (va, Inl (PiiStoreError e))
          | Inr [] \<Rightarrow> (destroy_key s now who va, Inr \<lparr>er_rows = 0, er_commit = None, er_key_destroyed = True\<rparr>)
          | Inr (r # rs) \<Rightarrow>
             (case erase_changes t (r # rs) of
                None \<Rightarrow> (va, Inl KeyPanic)
              | Some changes \<Rightarrow>
                 (case store_commit (pe_store env) t now
                    \<lparr>rq_branch = default_branch, rq_changes = changes, rq_author = who,
                     rq_message = erase_message s reason, rq_ref = [], rq_expected = None, rq_parents = []\<rparr> (va_db va) of
                    Inl e \<Rightarrow> (va, Inl (PiiStoreError e))
                  | Inr (db, d, n) \<Rightarrow>
                      (destroy_key s now who (va\<lparr>va_db := db\<rparr>),
                       Inr \<lparr>er_rows = n, er_commit = Some d, er_key_destroyed = True\<rparr>)))))"

definition subject_erased :: "vault \<Rightarrow> string \<Rightarrow> bool" where
  "subject_erased va s = (case find_dek va s of None \<Rightarrow> False | Some r \<Rightarrow> dk_erased r \<noteq> None)"

end
