(* ===== verification/PiiProps.thy ===== *)
theory PiiProps
  imports PiiDefs
begin

text \<open>
  What sealing and erasing personal data guarantee: a sealed row reads back, an erased subject's key never
  returns, and what designating a column does to the history that is already there.
\<close>

subsection \<open>Keys\<close>

lemma find_dek_random [simp]: "find_dek (va\<lparr>va_random := rnd\<rparr>) s = find_dek va s"
  by (simp add: find_dek_def)

lemma stored_dek_random [simp]: "stored_dek en (va\<lparr>va_random := rnd\<rparr>) s = stored_dek en va s"
  by (simp add: stored_dek_def)

lemma find_dek_insert:
  "find_dek (insert_dek s w va) s' =
     (if find_dek va s = None \<and> s' = s then Some \<lparr>dk_subject = s, dk_wrapped = Some w, dk_erased = None\<rparr>
      else find_dek va s')"
  by (auto simp: insert_dek_def find_dek_def find_append split: option.split)

text \<open>Key lookups touch only the key table and the random source.\<close>

definition same_rest :: "vault \<Rightarrow> vault \<Rightarrow> bool" where
  "same_rest va va' \<longleftrightarrow> va_pii va' = va_pii va \<and> va_db va' = va_db va"

text \<open>Keys of subjects other than \<open>s\<close> and keys that exist are kept.\<close>

definition keys_kept :: "vault \<Rightarrow> vault \<Rightarrow> bool" where
  "keys_kept va va' \<longleftrightarrow> (\<forall>s r. find_dek va s = Some r \<longrightarrow> find_dek va' s = Some r)"

lemma keys_kept_refl [simp]: "keys_kept va va" "keys_kept va (va\<lparr>va_random := rnd\<rparr>)"
  by (simp_all add: keys_kept_def)

lemma keys_kept_trans: "keys_kept a b \<Longrightarrow> keys_kept b c \<Longrightarrow> keys_kept a c"
  by (simp add: keys_kept_def)

lemma issue_dek_facts:
  assumes "issue_dek en s va = (va', r)" and "find_dek va s = None"
  shows "same_rest va va' \<and> keys_kept va va' \<and> (\<forall>dek. r = Inr dek \<longrightarrow> stored_dek en va' s = Inr dek \<and> find_dek va' s \<noteq> None)"
  using assms
  by (auto simp: issue_dek_def Let_def same_rest_def keys_kept_def insert_dek_def find_dek_insert split: sum.splits)
    (auto simp: find_dek_def find_append split: option.splits)

lemma dek_for_facts:
  assumes "dek_for env s create va = (va', r)"
  shows "same_rest va va' \<and> keys_kept va va' \<and>
    (\<forall>dek. r = Inr dek \<longrightarrow> (\<forall>rnd. snd (dek_for env s False (va'\<lparr>va_random := rnd\<rparr>)) = Inr dek))"
proof (cases "pe_envelope env")
  case None
  with assms show ?thesis by (auto simp: dek_for_def same_rest_def)
next
  case (Some en)
  show ?thesis
  proof (cases "find_dek va s = None \<and> create")
    case True
    with assms Some obtain q where q: "issue_dek en s va = (va', q)" "r = left_map CryptoFailed q"
      by (auto simp: dek_for_def split: prod.splits)
    from issue_dek_facts [OF q(1)] True q(2) Some show ?thesis
      by (auto simp: dek_for_def left_map_def split: sum.splits)
  next
    case False
    then have "va' = va \<and> r = left_map CryptoFailed (stored_dek en va s)" using assms Some by (auto simp: dek_for_def)
    with Some show ?thesis by (simp add: dek_for_def same_rest_def)
  qed
qed

text \<open>A key is issued whenever there is entropy for it, and is the one later lookups give.\<close>

lemma issue_dek_total:
  assumes "find_dek va s = None" and "length kek = 32" and "44 \<le> length (va_random va)"
  shows "\<exists>va'. issue_dek (local_envelope kek) s va = (va', Inr (take 32 (va_random va))) \<and>
    va_random va' = drop 44 (va_random va)"
proof -
  let ?dek = "take 32 (va_random va)" and ?rnd = "drop 32 (va_random va)"
  obtain w where w: "local_wrap kek ?dek ?rnd = Inr (w, drop 12 ?rnd)"
    using assms(2,3) by (auto simp: local_wrap_def encrypt_Inr)
  from assms(3) have "new_dek (va_random va) = Inr (?dek, ?rnd)" by (simp add: new_dek_def read_random_def key_len_def)
  then have "issue_dek (local_envelope kek) s va =
      (let va' = insert_dek s w (va\<lparr>va_random := drop 44 (va_random va)\<rparr>) in (va', stored_dek (local_envelope kek) va' s))"
    using w by (simp add: issue_dek_def local_envelope_def)
  moreover have "stored_dek (local_envelope kek) (insert_dek s w (va\<lparr>va_random := drop 44 (va_random va)\<rparr>)) s = Inr ?dek"
    using le.unwrap_wrap [OF w] le.wrapped_nonempty [OF w] assms(1)
    by (simp add: stored_dek_def find_dek_insert local_envelope_def)
  ultimately show ?thesis by (simp add: Let_def insert_dek_def)
qed

subsection \<open>A sealed row reads back\<close>

lemma has_prefix_append [simp]: "has_prefix p (p @ s)"
  by (simp add: has_prefix_def)

lemma decode_sealed [simp]: "decode_ciphertext (text_val (sealed_text ct)) = Some ct"
  by (simp add: decode_ciphertext_def sealed_text_def text_val_def)

text \<open>What sealing the columns does to each cell.\<close>

lemma seal_cells_get:
  assumes "seal_cells lib dek t k r cols m rnd = Inr (m', rnd')" and "distinct (map pi_col cols)"
  shows "\<forall>c. (c \<in> pi_col ` set cols \<and> val_kind (row_get r c) \<noteq> KindNull \<longrightarrow>
        (\<exists>ct. fmlookup m' c = Some (text_val (sealed_text ct))
          \<and> decrypt dek ct (cell_aad (st_id t) k c) = Inr (value_plain lib (row_get r c)))) \<and>
      (c \<notin> pi_col ` set cols \<or> val_kind (row_get r c) = KindNull \<longrightarrow> fmlookup m' c = fmlookup m c)"
  using assms
proof (induction cols arbitrary: m rnd)
  case Nil
  then show ?case by (simp add: seal_cells_def)
next
  case (Cons p cols)
  then obtain m1 rnd1 where one: "seal_cell lib dek t k r (m, rnd) p = Inr (m1, rnd1)"
    "seal_cells lib dek t k r cols m1 rnd1 = Inr (m', rnd')"
    by (auto simp: seal_cells_def and_then_Inr)
  note ih = Cons.IH [OF one(2)]
  show ?case
  proof (cases "val_kind (row_get r (pi_col p)) = KindNull")
    case True
    then have "m1 = m" using one(1) by (simp add: seal_cell_def)
    with ih Cons.prems(2) True show ?thesis by (auto simp: image_iff)
  next
    case False
    with one(1) obtain ct where ct: "encrypt dek (value_plain lib (row_get r (pi_col p))) (cell_aad (st_id t) k (pi_col p)) rnd = Inr (ct, rnd1)"
      "m1 = fmupd (pi_col p) (text_val (sealed_text ct)) m"
      by (auto simp: seal_cell_def Let_def and_then_Inr)
    have p: "pi_col p \<notin> pi_col ` set cols" using Cons.prems(2) by auto
    with ih Cons.prems(2) have "fmlookup m' (pi_col p) = Some (text_val (sealed_text ct))" by (simp add: ct(2))
    with decrypt_encrypt [OF ct(1)] ih Cons.prems(2) p False show ?thesis by (auto simp: ct(2))
  qed
qed

lemma row_get_lookup: "row_get (Some m) c = (case fmlookup m c of None \<Rightarrow> null_val | Some v \<Rightarrow> v)"
  by (simp add: row_get_def)

text \<open>A cell after opening, from the one before.\<close>

definition opened :: "bytes \<Rightarrow> store_table \<Rightarrow> pk \<Rightarrow> row \<Rightarrow> colid \<Rightarrow> val option \<Rightarrow> val option" where
  "opened dek t k r c x =
     (case decode_ciphertext (row_get r c) of
        None \<Rightarrow> x
      | Some ct \<Rightarrow> (case decrypt dek ct (cell_aad (st_id t) k c) of
          Inl _ \<Rightarrow> Some (text_val erased_marker) | Inr pt \<Rightarrow> Some (text_val pt)))"

lemma open_cell_lookup:
  "fmlookup (open_cell dek t k r m p) c = (if c = pi_col p then opened dek t k r c (fmlookup m c) else fmlookup m c)"
  by (auto simp: open_cell_def opened_def split: option.split sum.split)

lemma open_cells_get:
  "distinct (map pi_col cols) \<Longrightarrow> fmlookup (foldl (open_cell dek t k r) m cols) c =
    (if c \<in> pi_col ` set cols then opened dek t k r c (fmlookup m c) else fmlookup m c)"
  by (induction cols arbitrary: m) (auto simp: open_cell_lookup)

text \<open>Designations as the table holds them, with no key column and no subject column among the designated ones.\<close>

definition designations_ok :: "store_table \<Rightarrow> pii_row list \<Rightarrow> bool" where
  "designations_ok t cols \<longleftrightarrow>
     distinct (map pi_col cols) \<and> set (st_pk t) \<inter> pi_col ` set cols = {} \<and>
     pi_subject (hd cols) \<notin> pi_col ` set cols"

lemma make_pk_cols_cong:
  "\<forall>c \<in> set cs. row_get r c = row_get r' c \<Longrightarrow> make_pk_cols r buf cs = make_pk_cols r' buf cs"
  by (induction cs arbitrary: buf) (auto split: option.split)

lemma make_pk_cong: "\<forall>c \<in> set ks. row_get r c = row_get r' c \<Longrightarrow> make_pk r ks = make_pk r' ks"
  by (simp add: make_pk_def make_pk_cols_cong)

lemma subject_for_some:
  assumes "subject_for lib cols r \<noteq> []"
  shows "\<exists>m. cols \<noteq> [] \<and> r = Some m \<and> val_kind (row_get r (pi_subject (hd cols))) \<noteq> KindNull
    \<and> subject_for lib cols r = value_plain lib (row_get r (pi_subject (hd cols)))"
  using assms by (cases r) (auto simp: subject_for_def null_val_def zero_val_def split: list.splits if_splits)

lemma sealed_parts:
  assumes "store_sealed env t r va = (va', Inr stored)" and "pe_envelope env \<noteq> None" and "pii_columns va t \<noteq> []"
    and "val_kind (row_get r (pi_subject (hd (pii_columns va t)))) \<noteq> KindNull"
  obtains m m' va1 dek k rnd where "r = Some m" "stored = Some m'"
    "dek_for env (subject_for (pe_text env) (pii_columns va t) r) True va = (va1, Inr dek)" "make_pk r (st_pk t) = Some k"
    "seal_cells (pe_text env) dek t k r (pii_columns va t) m (va_random va1) = Inr (m', rnd)" "va' = va1\<lparr>va_random := rnd\<rparr>"
proof -
  from assms(4) obtain m where m: "r = Some m" by (cases r) (simp_all add: null_val_def zero_val_def)
  from assms(3,4) have "subject_for (pe_text env) (pii_columns va t) r =
      value_plain (pe_text env) (row_get r (pi_subject (hd (pii_columns va t))))"
    by (cases "pii_columns va t") (simp_all add: subject_for_def)
  moreover have "new_sealer env t va = Some \<lparr>sl_cols = pii_columns va t, sl_keys = fmempty\<rparr>"
    using assms(2,3) by (simp add: new_sealer_def)
  ultimately show thesis using assms(1,4) m that
    by (auto simp: store_sealed_def seal_row_def sealer_key_def split: prod.splits sum.splits option.splits)
qed

text \<open>What sealing the cells of a row leaves of the others, and what opening them gives.\<close>

lemma sealed_same:
  assumes "seal_cells lib dek t k (Some m) cols m rnd = Inr (m', rnd')" and "distinct (map pi_col cols)"
    and "c \<notin> pi_col ` set cols \<or> val_kind (row_get (Some m) c) = KindNull"
  shows "row_get (Some m') c = row_get (Some m) c"
  using seal_cells_get [OF assms(1,2)] assms(3) by (auto simp: row_get_lookup)

lemma sealed_opens:
  assumes s: "seal_cells lib dek t k (Some m) cols m rnd = Inr (m', rnd')" and d: "distinct (map pi_col cols)"
  shows "row_get (Some (foldl (open_cell dek t k (Some m')) m' cols)) c =
      (if c \<in> pi_col ` set cols \<and> val_kind (row_get (Some m) c) \<noteq> KindNull
       then text_val (value_plain lib (row_get (Some m) c)) else row_get (Some m) c)"
proof (cases "c \<in> pi_col ` set cols \<and> val_kind (row_get (Some m) c) \<noteq> KindNull")
  case True
  with seal_cells_get [OF s d] obtain ct where ct: "fmlookup m' c = Some (text_val (sealed_text ct))"
    "decrypt dek ct (cell_aad (st_id t) k c) = Inr (value_plain lib (row_get (Some m) c))" by blast
  then have "decode_ciphertext (row_get (Some m') c) = Some ct" by (simp add: row_get_lookup)
  then have "fmlookup (foldl (open_cell dek t k (Some m')) m' cols) c = Some (text_val (value_plain lib (row_get (Some m) c)))"
    unfolding open_cells_get [OF d] using True ct(2) by (simp add: opened_def)
  with True show ?thesis by (simp add: row_get_lookup)
next
  case False
  have "c \<in> pi_col ` set cols \<longrightarrow> decode_ciphertext (row_get (Some m') c) = None"
    using False sealed_same [OF s d, of c] by (auto simp: decode_ciphertext_def)
  then have "fmlookup (foldl (open_cell dek t k (Some m')) m' cols) c = fmlookup m' c"
    unfolding open_cells_get [OF d] by (simp add: opened_def)
  with sealed_same [OF s d, of c] False show ?thesis by (auto simp: row_get_lookup)
qed

subsection \<open>Properties\<close>

text \<open>
  C37: What goes into the sidecar comes out again, for a row whose subject is not the empty text and a table
  that designates neither its subject column nor a key column (\<open>designations_ok\<close>). When such a row is sealed,
  every designated cell that is not null is stored as a tagged ciphertext, and opening the stored row gives
  the row back, with each of those cells as the text of its value. Opening needs only what is stored: the
  subject's key is the one sealing used, whether it existed or was issued on the way. The code refuses only
  key columns: with the subject column designated, or an empty subject, stored rows do not open again
  (\<open>empty_subject_stays_sealed\<close>).
\<close>

theorem sealed_row_reads_back:
  assumes "store_sealed env t r va = (va', Inr stored)" and "pe_envelope env = Some (local_envelope kek)"
    and "designations_ok t (pii_columns va t)" and "subject_for (pe_text env) (pii_columns va t) r \<noteq> []"
  shows "\<exists>out. decrypt_pii env t va' stored = Some (Some out) \<and>
    (\<forall>c. row_get (Some out) c =
       (if c \<in> pi_col ` set (pii_columns va t) \<and> val_kind (row_get r c) \<noteq> KindNull
        then text_val (value_plain (pe_text env) (row_get r c)) else row_get r c)) \<and>
    (\<forall>c \<in> pi_col ` set (pii_columns va t). val_kind (row_get r c) \<noteq> KindNull \<longrightarrow>
       (\<exists>ct. row_get stored c = text_val (sealed_text ct)))"
proof -
  let ?cols = "pii_columns va t" and ?s = "subject_for (pe_text env) (pii_columns va t) r"
  from assms(2) have "pe_envelope env \<noteq> None" by simp
  moreover have some: "?cols \<noteq> []" "val_kind (row_get r (pi_subject (hd ?cols))) \<noteq> KindNull"
    using subject_for_some [OF assms(4)] by blast+
  ultimately obtain m m' va1 dek k rnd where st0: "r = Some m" "stored = Some m'"
    "dek_for env ?s True va = (va1, Inr dek)" "make_pk r (st_pk t) = Some k"
    "seal_cells (pe_text env) dek t k r ?cols m (va_random va1) = Inr (m', rnd)" "va' = va1\<lparr>va_random := rnd\<rparr>"
    by (rule sealed_parts [OF assms(1)])
  note st = st0(1,2) some(1) st0(3-)
  have d: "distinct (map pi_col ?cols)" using assms(3) by (simp add: designations_ok_def)
  note get = seal_cells_get [OF st(6) d]
  note seal = st(6) [unfolded st(1)]
  have same: "row_get stored c = row_get r c" if "c \<notin> pi_col ` set ?cols \<or> val_kind (row_get r c) = KindNull" for c
    using sealed_same [OF seal d] that st(1,2) by simp
  have sub: "subject_for (pe_text env) ?cols stored = ?s"
  proof -
    have "row_get stored (pi_subject (hd ?cols)) = row_get r (pi_subject (hd ?cols))"
      by (rule same) (use assms(3) in \<open>simp add: designations_ok_def\<close>)
    with st(3) show ?thesis by (cases ?cols) (simp_all add: subject_for_def)
  qed
  have key: "make_pk stored (st_pk t) = Some k"
    using make_pk_cong [of "st_pk t" stored r] same st(5) assms(3) by (auto simp: designations_ok_def)
  note df = dek_for_facts [OF st(4)]
  have cols: "pii_columns va' t = ?cols" using df st(7) by (simp add: same_rest_def pii_columns_def)
  have "snd (dek_for env ?s False va') = Inr dek" using df st(7) by simp
  then have dec: "decrypt_pii env t va' stored = Some (Some (foldl (open_cell dek t k stored) m' ?cols))"
    using key sub cols st(2,3) assms(4) by (simp add: decrypt_pii_def Let_def)
  have cell: "row_get (Some (foldl (open_cell dek t k stored) m' ?cols)) c =
      (if c \<in> pi_col ` set ?cols \<and> val_kind (row_get r c) \<noteq> KindNull
       then text_val (value_plain (pe_text env) (row_get r c)) else row_get r c)" for c
    using sealed_opens [OF seal d] st(1,2) by simp
  moreover have "\<exists>ct. row_get stored c = text_val (sealed_text ct)"
    if "c \<in> pi_col ` set ?cols" "val_kind (row_get r c) \<noteq> KindNull" for c
    using get that st(2) by (fastforce simp: row_get_lookup)
  ultimately show ?thesis using dec by blast
qed

text \<open>The empty subject: the cells are sealed under a key for the empty text, and reading opens none of them.\<close>

lemma empty_subject_stays_sealed:
  assumes seal: "store_sealed env t r va = (va', Inr stored)" and "pe_envelope env \<noteq> None"
    and ok: "designations_ok t (pii_columns va t)" and cols: "pii_columns va t \<noteq> []"
    and some: "val_kind (row_get r (pi_subject (hd (pii_columns va t)))) \<noteq> KindNull"
    and empty: "subject_for (pe_text env) (pii_columns va t) r = []"
  shows "decrypt_pii env t va' stored = Some stored"
    and "c \<in> pi_col ` set (pii_columns va t) \<Longrightarrow> val_kind (row_get r c) \<noteq> KindNull \<Longrightarrow>
      \<exists>ct. row_get stored c = text_val (sealed_text ct)"
proof -
  let ?cols = "pii_columns va t"
  obtain m m' va1 dek k rnd where st: "r = Some m" "stored = Some m'" "dek_for env [] True va = (va1, Inr dek)"
    "seal_cells (pe_text env) dek t k (Some m) ?cols m (va_random va1) = Inr (m', rnd)" "va' = va1\<lparr>va_random := rnd\<rparr>"
    using sealed_parts [OF assms(1,2) cols some, unfolded empty] by metis
  have d: "distinct (map pi_col ?cols)" using ok by (simp add: designations_ok_def)
  have "pii_columns va' t = ?cols" using dek_for_facts [OF st(3)] st(5) by (simp add: same_rest_def pii_columns_def)
  moreover have "row_get stored (pi_subject (hd ?cols)) = row_get r (pi_subject (hd ?cols))"
    unfolding st(1,2) by (rule sealed_same [OF st(4) d]) (use ok in \<open>simp add: designations_ok_def\<close>)
  then have "subject_for (pe_text env) ?cols stored = []"
    using cols empty some by (cases ?cols) (simp_all add: subject_for_def)
  ultimately show "decrypt_pii env t va' stored = Some stored" by (simp add: decrypt_pii_def Let_def)
  show "\<exists>ct. row_get stored c = text_val (sealed_text ct)" if "c \<in> pi_col ` set ?cols" "val_kind (row_get r c) \<noteq> KindNull"
    using seal_cells_get [OF st(4) d] that st(1,2) by (fastforce simp: row_get_lookup)
qed

subsection \<open>Erasure is for good\<close>

definition erased_in :: "vault \<Rightarrow> string \<Rightarrow> bool" where
  "erased_in va s \<longleftrightarrow> (\<exists>r. find_dek va s = Some r \<and> dk_wrapped r = None \<and> dk_erased r \<noteq> None)"

text \<open>Everything that happens to the key table: designations, rows stored by commits in progress, erasures; and data.\<close>

inductive pii_step :: "piienv \<Rightarrow> vault \<Rightarrow> vault \<Rightarrow> bool" for env :: piienv where
  DesignateStep: "designate_pii env t column subject who va = (va', e) \<Longrightarrow> pii_step env va va'"
| SealStep: "seal_row env t r sl va = (sl', va', x) \<Longrightarrow> pii_step env va va'"
| KeyStep: "dek_for env s create va = (va', x) \<Longrightarrow> pii_step env va va'"
| EraseStep: "erase_subject env t s reason who now va = (va', x) \<Longrightarrow> pii_step env va va'"
| DataStep: "pii_step env va (va\<lparr>va_db := db\<rparr>)"

inductive pii_reach :: "piienv \<Rightarrow> vault \<Rightarrow> vault \<Rightarrow> bool" for env :: piienv and v0 where
  pii_refl: "pii_reach env v0 v0"
| pii_more: "pii_reach env v0 va \<Longrightarrow> pii_step env va va' \<Longrightarrow> pii_reach env v0 va'"

lemma erased_kept: "erased_in va s \<Longrightarrow> keys_kept va va' \<Longrightarrow> erased_in va' s"
  by (auto simp: erased_in_def keys_kept_def)

lemma sealer_key_kept: "sealer_key env s sl va = (sl', va', x) \<Longrightarrow> keys_kept va va'"
  by (auto simp: sealer_key_def split: option.splits prod.splits sum.splits dest: dek_for_facts)

lemma set_side_kept: "keys_kept va (set_side t f va)"
  by (simp add: keys_kept_def set_side_def find_dek_def)

lemma seal_pending_kept:
  assumes "seal_pending env t col p (keys, va) = ((keys', va'), e)"
  shows "keys_kept va va'"
proof -
  obtain sl va1 x where k: "sealer_key env (pn_subject p) \<lparr>sl_cols = [], sl_keys = keys\<rparr> va = (sl, va1, x)"
    by (metis prod_cases3)
  have "keys_kept va1 va'"
    using assms k keys_kept_trans [OF keys_kept_refl(2) set_side_kept]
    by (auto simp: seal_pending_def split: sum.splits option.splits prod.splits)
  with keys_kept_trans [OF sealer_key_kept [OF k]] show ?thesis by blast
qed

lemma seal_all_kept: "seal_all env t col ps (keys, va) = ((keys', va'), e) \<Longrightarrow> keys_kept va va'"
proof (induction ps arbitrary: keys va)
  case (Cons p ps)
  obtain k1 va1 x where one: "seal_pending env t col p (keys, va) = ((k1, va1), x)" by (metis prod.collapse)
  with Cons show ?case
    using seal_pending_kept [OF one] keys_kept_trans by (auto split: option.splits)
qed simp

lemma find_dek_destroy:
  "find_dek (destroy_key s now who va) s' = map_option (\<lambda>r. if s' = s then r\<lparr>dk_wrapped := None, dk_erased := Some (now, who)\<rparr> else r)
     (find_dek va s')"
proof -
  have "find (\<lambda>r. dk_subject r = s') (map (\<lambda>r. if dk_subject r = s then r\<lparr>dk_wrapped := None, dk_erased := Some (now, who)\<rparr> else r) rs)
      = map_option (\<lambda>r. if s' = s then r\<lparr>dk_wrapped := None, dk_erased := Some (now, who)\<rparr> else r)
          (find (\<lambda>r. dk_subject r = s') rs)" for rs
    by (induction rs) auto
  then show ?thesis by (simp add: find_dek_def destroy_key_def)
qed

lemma erase_subject_cases:
  assumes "erase_subject env t s reason who now va = (va', x)"
  shows "va' = va \<and> (\<exists>e. x = Inl e) \<or> (\<exists>db rep. va' = destroy_key s now who (va\<lparr>va_db := db\<rparr>) \<and> x = Inr rep \<and> er_key_destroyed rep)"
proof -
  have e: "destroy_key s now who va = destroy_key s now who (va\<lparr>va_db := va_db va\<rparr>)" by simp
  show ?thesis using assms
    by (auto simp: erase_subject_def split: if_splits list.splits sum.splits option.splits intro: e)
qed

lemma destroy_key_erased:
  assumes "erased_in va s \<or> s' = s \<and> find_dek va s \<noteq> None"
  shows "erased_in (destroy_key s' now who (va\<lparr>va_db := db\<rparr>)) s"
proof -
  have "find_dek (va\<lparr>va_db := db\<rparr>) s = find_dek va s" by (simp add: find_dek_def)
  with assms show ?thesis by (cases "s' = s") (auto simp: erased_in_def find_dek_destroy)
qed

lemma pii_step_erased:
  assumes "pii_step env va va'" and "erased_in va s"
  shows "erased_in va' s"
  using assms(1)
proof cases
  case (DesignateStep t column subject who e)
  then have "va' = va \<or> (\<exists>rows c q. seal_existing env t c q (va\<lparr>va_pii := rows\<rparr>) = (va', e))"
    by (auto simp: designate_pii_def split: option.splits if_splits)
  moreover have "keys_kept va va'" if "seal_existing env t c q (va\<lparr>va_pii := rows\<rparr>) = (va', e)" for rows c q
  proof -
    have "keys_kept va (va\<lparr>va_pii := rows\<rparr>)" by (simp add: keys_kept_def find_dek_def)
    moreover have "keys_kept (va\<lparr>va_pii := rows\<rparr>) va'"
      using that by (auto simp: seal_existing_def split: if_splits prod.splits dest: seal_all_kept)
    ultimately show ?thesis by (rule keys_kept_trans)
  qed
  ultimately show ?thesis using assms(2) erased_kept by blast
next
  case (SealStep t r sl sl' x)
  show ?thesis
  proof (cases r)
    case None
    with SealStep assms(2) show ?thesis by (simp add: seal_row_def)
  next
    case (Some m)
    have "keys_kept va va'"
      using SealStep Some sealer_key_kept keys_kept_trans [OF _ keys_kept_refl(2)]
      by (auto simp: seal_row_def split: if_splits prod.splits sum.splits option.splits) 
    with assms(2) erased_kept show ?thesis by blast
  qed
next
  case (KeyStep s' create x)
  with dek_for_facts assms(2) erased_kept show ?thesis by blast
next
  case (EraseStep t s' reason who now x)
  from erase_subject_cases [OF this] assms(2) destroy_key_erased show ?thesis by blast
next
  case (DataStep db)
  with assms(2) show ?thesis by (simp add: erased_in_def find_dek_def)
qed

lemma pii_reach_erased: "pii_reach env va va' \<Longrightarrow> erased_in va s \<Longrightarrow> erased_in va' s"
  by (induction rule: pii_reach.induct) (auto intro: pii_step_erased)

lemma erased_no_key:
  assumes "erased_in va s"
  shows "fst (dek_for env s create va) = va \<and> (\<exists>e. snd (dek_for env s create va) = Inl e)"
  using assms by (auto simp: erased_in_def dek_for_def stored_dek_def left_map_def split: option.split)

lemma mark_cells_get:
  "fmlookup (foldl (mark_cell r) m cols) c =
     (if c \<in> pi_col ` set cols \<and> val_kind (row_get r c) \<noteq> KindNull then Some (text_val erased_marker) else fmlookup m c)"
  by (induction cols arbitrary: m) (auto simp: mark_cell_def)

text \<open>
  C22: Erasure cannot be undone. Once a subject with a key was erased, then whatever follows, the key table
  answers for that subject with an error and issues no new key, the subject counts as erased, and opening any
  stored row of the subject shows the erased marker in every designated column that is not null.
\<close>

theorem erased_for_good:
  assumes "erase_subject env t s reason who now va = (va1, Inr rep)" and "find_dek va s \<noteq> None"
    and "pii_reach env va1 va2"
  shows "subject_erased va2 s \<and>
    (\<forall>env' create. fst (dek_for env' s create va2) = va2 \<and> (\<exists>e. snd (dek_for env' s create va2) = Inl e)) \<and>
    (\<forall>t' r out. subject_for (pe_text env) (pii_columns va2 t') r = s \<longrightarrow> s \<noteq> [] \<longrightarrow>
       decrypt_pii env t' va2 r = Some out \<longrightarrow>
       (\<forall>c \<in> pi_col ` set (pii_columns va2 t'). val_kind (row_get r c) \<noteq> KindNull \<longrightarrow>
          row_get out c = text_val erased_marker))"
proof -
  from erase_subject_cases [OF assms(1)] obtain db where "va1 = destroy_key s now who (va\<lparr>va_db := db\<rparr>)" by auto
  with assms(2) destroy_key_erased have "erased_in va1 s" by blast
  with pii_reach_erased [OF assms(3)] have e: "erased_in va2 s" by blast
  have "row_get out c = text_val erased_marker"
    if "subject_for (pe_text env) (pii_columns va2 t') r = s" "s \<noteq> []" "decrypt_pii env t' va2 r = Some out"
      "c \<in> pi_col ` set (pii_columns va2 t')" "val_kind (row_get r c) \<noteq> KindNull" for t' r out c
  proof -
    obtain x where "snd (dek_for env s False va2) = Inl x" using erased_no_key [OF e] by blast
    with that obtain m where "out = Some (foldl (mark_cell r) m (pii_columns va2 t'))"
      by (auto simp: decrypt_pii_def Let_def split: if_splits option.splits)
    with that(4,5) show ?thesis by (simp add: row_get_lookup mark_cells_get)
  qed
  moreover have "subject_erased va2 s" using e by (auto simp: erased_in_def subject_erased_def)
  ultimately show ?thesis using erased_no_key [OF e] by blast
qed

text \<open>
  C39: An erasure of a subject that never had a key destroys nothing, and says it did. The report claims the
  key destroyed, yet the subject does not count as erased, and the next row of the subject issues it a fresh
  key, as for anyone, whenever there is entropy for one.
\<close>

theorem erasure_without_key:
  assumes "erase_subject env t s reason who now va = (va', Inr rep)" and "find_dek va s = None"
  shows "er_key_destroyed rep \<and> \<not> subject_erased va' s \<and>
    (\<forall>kek. pe_envelope env = Some (local_envelope kek) \<longrightarrow> length kek = 32 \<longrightarrow> 44 \<le> length (va_random va) \<longrightarrow>
       snd (dek_for env s True va') = Inr (take 32 (va_random va)))"
proof -
  from erase_subject_cases [OF assms(1)] obtain db where va': "va' = destroy_key s now who (va\<lparr>va_db := db\<rparr>)"
    and "er_key_destroyed rep" by auto
  have none: "find_dek va' s = None" using assms(2) by (simp add: va' find_dek_destroy) (simp add: find_dek_def)
  have "snd (dek_for env s True va') = Inr (take 32 (va_random va))"
    if e: "pe_envelope env = Some (local_envelope kek)" and k: "length kek = 32" "44 \<le> length (va_random va)" for kek
  proof -
    have r: "va_random va' = va_random va" by (simp add: va' destroy_key_def)
    obtain v where "issue_dek (local_envelope kek) s va' = (v, Inr (take 32 (va_random va)))"
      using issue_dek_total [OF none k(1)] k(2) r by auto
    with none e show ?thesis by (simp add: dek_for_def left_map_def)
  qed
  with none \<open>er_key_destroyed rep\<close> show ?thesis by (simp add: subject_erased_def)
qed

subsection \<open>Sealing what is already stored\<close>

text \<open>All versions of the keys \<open>bk\<close>, a branch and a primary key each, hold one sealed text in the column.\<close>

definition uniform :: "colid \<Rightarrow> string \<times> pk \<Rightarrow> version list \<Rightarrow> bool" where
  "uniform col bk side \<longleftrightarrow>
     (\<exists>ct. \<forall>v \<in> set side. (v_branch v, v_pk v) = bk \<longrightarrow> row_get (v_row v) col = text_val (sealed_text ct))"

lemma row_get_set: "row_get (Some (fmupd c x (case r of None \<Rightarrow> fmempty | Some m \<Rightarrow> m))) d = (if d = c then x else row_get r d)"
  by (auto simp: row_get_def split: option.split)

lemma overwrite_mem:
  assumes "v \<in> set (overwrite b k col x side)"
  shows "if (v_branch v, v_pk v) = (b, k) then row_get (v_row v) col = x else v \<in> set side"
proof -
  from assms obtain u where u: "u \<in> set side" "v = (if v_branch u = b \<and> v_pk u = k
      then u\<lparr>v_row := Some (fmupd col x (case v_row u of None \<Rightarrow> fmempty | Some m \<Rightarrow> m))\<rparr> else u)"
    unfolding overwrite_def by auto
  show ?thesis
  proof (cases "v_branch u = b \<and> v_pk u = k")
    case True
    then have "v_branch v = b \<and> v_pk v = k \<and> row_get (v_row v) col = x" using u(2) by (simp add: row_get_set)
    then show ?thesis by simp
  next
    case False
    with u show ?thesis by auto
  qed
qed

lemma overwrite_uniform:
  assumes "uniform col bk side \<or> bk = (b, k)"
  shows "uniform col bk (overwrite b k col (text_val (sealed_text ct)) side)"
proof (cases "bk = (b, k)")
  case True
  then show ?thesis unfolding uniform_def using overwrite_mem by metis
next
  case False
  with assms obtain x where x: "\<forall>v \<in> set side. (v_branch v, v_pk v) = bk \<longrightarrow> row_get (v_row v) col = text_val (sealed_text x)"
    by (auto simp: uniform_def)
  with False show ?thesis unfolding uniform_def using overwrite_mem by metis
qed

lemma seal_pending_uniform:
  assumes "seal_pending env t col p (keys, va) = ((keys', va'), None)"
    and "uniform col bk (db_side (va_db va) (st_id t)) \<or> bk = (pn_branch p, pn_pk p)"
  shows "uniform col bk (db_side (va_db va') (st_id t))"
proof -
  obtain sl va1 x where k: "sealer_key env (pn_subject p) \<lparr>sl_cols = [], sl_keys = keys\<rparr> va = (sl, va1, x)"
    by (metis prod_cases3)
  have db: "va_db va1 = va_db va"
    using k by (auto simp: sealer_key_def split: option.splits prod.splits sum.splits dest!: dek_for_facts simp: same_rest_def)
  from assms(1) k obtain ct rnd where
    "va' = set_side t (overwrite (pn_branch p) (pn_pk p) col (text_val (sealed_text ct))) (va1\<lparr>va_random := rnd\<rparr>)"
    by (auto simp: seal_pending_def split: sum.splits option.splits prod.splits)
  with overwrite_uniform [OF assms(2)] db show ?thesis by (simp add: set_side_def)
qed

lemma seal_all_uniform:
  "seal_all env t col ps (keys, va) = ((keys', va'), None) \<Longrightarrow>
     uniform col bk (db_side (va_db va) (st_id t)) \<or> bk \<in> (\<lambda>p. (pn_branch p, pn_pk p)) ` set ps \<Longrightarrow>
     uniform col bk (db_side (va_db va') (st_id t))"
proof (induction ps arbitrary: keys va)
  case (Cons p ps)
  obtain k1 va1 x where one: "seal_pending env t col p (keys, va) = ((k1, va1), x)" by (metis prod.collapse)
  with Cons.prems(1) have x: "x = None" "seal_all env t col ps (k1, va1) = ((keys', va'), None)"
    by (auto split: option.splits)
  show ?case
    by (rule Cons.IH [OF x(2)]) (use seal_pending_uniform [OF one [unfolded x(1)], of bk] Cons.prems(2) in auto)
qed auto

text \<open>
  C38: Designating a column rewrites its history instead of sealing it. The update that stores a sealed value
  is keyed by branch and primary key only: after a successful designation all versions of a key on a branch
  that had a value to seal hold one and the same ciphertext in the column, whatever each of them held.
\<close>

theorem designation_overwrites:
  assumes "designate_pii env t column subject who va = (va', None)"
    and "column_by_name t column = Some c" and "column_by_name t subject = Some s"
    and "v \<in> set (db_side (va_db va) (st_id t))" and "pending_of env (ac_id c) (ac_id s) v \<noteq> None"
  shows "\<exists>ct. \<forall>u \<in> set (db_side (va_db va') (st_id t)). v_branch u = v_branch v \<longrightarrow> v_pk u = v_pk v \<longrightarrow>
    row_get (v_row u) (ac_id c) = text_val (sealed_text ct)"
proof -
  let ?va = "va\<lparr>va_pii := designate_row t (ac_id c) (ac_id s) who (va_pii va)\<rparr>"
  let ?ps = "List.map_filter (pending_of env (ac_id c) (ac_id s)) (db_side (va_db va) (st_id t))"
  from assms(1-3) have "seal_existing env t (ac_id c) (ac_id s) ?va = (va', None)"
    by (auto simp: designate_pii_def split: if_splits)
  then obtain keys where all: "seal_all env t (ac_id c) ?ps (fmempty, ?va) = ((keys, va'), None)"
    by (auto simp: seal_existing_def split: if_splits prod.splits)
  from assms(5) obtain p where p: "pending_of env (ac_id c) (ac_id s) v = Some p" by auto
  then have "pn_branch p = v_branch v" "pn_pk p = v_pk v" by (auto simp: pending_of_def Let_def split: if_splits)
  moreover have "p \<in> set ?ps"
  proof -
    have "v \<in> set (filter (\<lambda>x. pending_of env (ac_id c) (ac_id s) x \<noteq> None) (db_side (va_db va) (st_id t)))"
      using assms(4) p by simp
    then have "the (pending_of env (ac_id c) (ac_id s) v) \<in> set ?ps"
      unfolding List.map_filter_def by (simp only: set_map o_def image_eqI)
    with p show ?thesis by simp
  qed
  ultimately have "(v_branch v, v_pk v) \<in> (\<lambda>p. (pn_branch p, pn_pk p)) ` set ?ps"
    using imageI [of p "set ?ps" "\<lambda>p. (pn_branch p, pn_pk p)"] by simp
  then have "uniform (ac_id c) (v_branch v, v_pk v) (db_side (va_db va') (st_id t))"
    by (intro seal_all_uniform [OF all]) blast
  then show ?thesis by (auto simp: uniform_def)
qed

subsection \<open>A table with a designated column\<close>

text \<open>Sealing succeeds when there is entropy for the key and one nonce per column.\<close>

lemma seal_cells_total:
  "length dek = 32 \<Longrightarrow> 12 * length cols \<le> length rnd \<Longrightarrow> \<exists>x. seal_cells lib dek t k r cols m rnd = Inr x"
proof (induction cols arbitrary: m rnd)
  case Nil
  then show ?case by (simp add: seal_cells_def)
next
  case (Cons p cols)
  obtain m1 rnd1 where one: "seal_cell lib dek t k r (m, rnd) p = Inr (m1, rnd1)" "12 * length cols \<le> length rnd1"
  proof (cases "val_kind (row_get r (pi_col p)) = KindNull")
    case True
    with Cons.prems show ?thesis by (intro that [of m rnd]) (simp_all add: seal_cell_def)
  next
    case False
    let ?ct = "take 12 rnd @ gcm_seal dek (take 12 rnd) (value_plain lib (row_get r (pi_col p))) (cell_aad (st_id t) k (pi_col p))"
    have "encrypt dek (value_plain lib (row_get r (pi_col p))) (cell_aad (st_id t) k (pi_col p)) rnd = Inr (?ct, drop 12 rnd)"
      using Cons.prems by (simp add: encrypt_Inr)
    with False Cons.prems show ?thesis
      by (intro that [of "fmupd (pi_col p) (text_val (sealed_text ?ct)) m" "drop 12 rnd"]) (simp_all add: seal_cell_def)
  qed
  from Cons.IH [OF Cons.prems(1) one(2)] one(1) show ?case by (simp add: seal_cells_def)
qed

lemma store_sealed_total:
  assumes "pe_envelope env = Some (local_envelope kek)" and "length kek = 32"
    and "find_dek va (subject_for (pe_text env) (pii_columns va t) r) = None"
    and "subject_for (pe_text env) (pii_columns va t) r \<noteq> []" and "make_pk r (st_pk t) = Some k"
    and "44 + 12 * length (pii_columns va t) \<le> length (va_random va)"
  shows "\<exists>va' stored. store_sealed env t r va = (va', Inr stored)"
proof -
  let ?cols = "pii_columns va t" and ?s = "subject_for (pe_text env) (pii_columns va t) r"
  from subject_for_some [OF assms(4)] obtain m where m: "?cols \<noteq> []" "r = Some m"
    "val_kind (row_get r (pi_subject (hd ?cols))) \<noteq> KindNull" "?s = value_plain (pe_text env) (row_get r (pi_subject (hd ?cols)))"
    by blast
  from assms(6) have "44 \<le> length (va_random va)" by simp
  from issue_dek_total [OF assms(3,2) this] obtain va1 where va1:
    "issue_dek (local_envelope kek) ?s va = (va1, Inr (take 32 (va_random va)))" "va_random va1 = drop 44 (va_random va)" by blast
  obtain m' rnd where c: "seal_cells (pe_text env) (take 32 (va_random va)) t k r ?cols m (va_random va1) = Inr (m', rnd)"
    using seal_cells_total [of "take 32 (va_random va)" ?cols "va_random va1"] assms(6) va1(2) by fastforce
  have d: "dek_for env ?s True va = (va1, Inr (take 32 (va_random va)))"
    using va1(1) assms(1,3) by (simp add: dek_for_def left_map_def)
  let ?sl = "\<lparr>sl_cols = ?cols, sl_keys = fmempty\<rparr>"
  have "sealer_key env (value_plain (pe_text env) (row_get r (pi_subject (hd ?cols)))) ?sl va =
      (?sl\<lparr>sl_keys := fmupd ?s (take 32 (va_random va)) fmempty\<rparr>, va1, Inr (take 32 (va_random va)))"
    using d by (simp add: sealer_key_def m(4) [symmetric])
  then have "snd (snd (seal_row env t r ?sl va)) = Inr (Some m')"
    using m(2,3) c assms(5) by (simp add: seal_row_def)
  moreover have "store_sealed env t r va = snd (seal_row env t r ?sl va)"
    using assms(1) m(1) by (simp add: store_sealed_def new_sealer_def)
  ultimately show ?thesis by (metis prod.collapse)
qed

lemma seal_pending_fresh:
  assumes "pe_envelope env = Some (local_envelope kek)" and "length kek = 32" and "fmlookup keys (pn_subject p) = None"
    and "find_dek va (pn_subject p) = None" and "make_pk (pn_row p) (st_pk t) = Some k" and "56 \<le> length (va_random va)"
  shows "\<exists>va'. seal_pending env t col p (keys, va) = ((fmupd (pn_subject p) (take 32 (va_random va)) keys, va'), None)
    \<and> va_random va' = drop 56 (va_random va)"
proof -
  from assms(6) have "44 \<le> length (va_random va)" by simp
  from issue_dek_total [OF assms(4,2) this] obtain va1 where va1:
    "issue_dek (local_envelope kek) (pn_subject p) va = (va1, Inr (take 32 (va_random va)))" "va_random va1 = drop 44 (va_random va)" by blast
  let ?ct = "take 12 (va_random va1) @ gcm_seal (take 32 (va_random va)) (take 12 (va_random va1)) (pn_value p) (cell_aad (st_id t) k col)"
  have "encrypt (take 32 (va_random va)) (pn_value p) (cell_aad (st_id t) k col) (va_random va1) = Inr (?ct, drop 12 (va_random va1))"
    using assms(6) va1(2) by (simp add: encrypt_Inr)
  moreover have "dek_for env (pn_subject p) True va = (va1, Inr (take 32 (va_random va)))"
    using va1(1) assms(1,4) by (simp add: dek_for_def left_map_def)
  then have "sealer_key env (pn_subject p) \<lparr>sl_cols = [], sl_keys = keys\<rparr> va =
      (\<lparr>sl_cols = [], sl_keys = fmupd (pn_subject p) (take 32 (va_random va)) keys\<rparr>, va1, Inr (take 32 (va_random va)))"
    using assms(3) by (simp add: sealer_key_def)
  moreover have "drop 12 (va_random va1) = drop 56 (va_random va)" using va1(2) by simp
  ultimately show ?thesis using assms(5) by (simp add: seal_pending_def set_side_def)
qed

lemma seal_pending_cached:
  assumes "fmlookup keys (pn_subject p) = Some dek" and "length dek = 32" and "make_pk (pn_row p) (st_pk t) = Some k"
    and "12 \<le> length (va_random va)"
  shows "\<exists>va'. seal_pending env t col p (keys, va) = ((keys, va'), None)"
proof -
  let ?ct = "take 12 (va_random va) @ gcm_seal dek (take 12 (va_random va)) (pn_value p) (cell_aad (st_id t) k col)"
  have "encrypt dek (pn_value p) (cell_aad (st_id t) k col) (va_random va) = Inr (?ct, drop 12 (va_random va))"
    using assms by (simp add: encrypt_Inr)
  with assms(1,3) show ?thesis by (simp add: seal_pending_def sealer_key_def)
qed

definition people_column :: "colid \<Rightarrow> string \<Rightarrow> string \<Rightarrow> kind \<Rightarrow> acolumn" where
  "people_column i n ty knd = \<lparr>ac_id = i, ac_name = n, ac_type = ty, ac_kind = knd, ac_nullable = True\<rparr>"

definition people_table :: store_table where
  "people_table = \<lparr>st_id = 1, st_physical = ''people'',
     st_columns = [people_column 1 ''id'' ''bigint'' KindInt, people_column 2 ''name'' ''text'' KindText,
                   people_column 3 ''who'' ''text'' KindText], st_pk = [1]\<rparr>"

definition people_row :: "string \<Rightarrow> row" where
  "people_row n = Some (fmap_of_list [(1, int_val 7), (2, text_val n), (3, text_val ''u1'')])"

definition people_key :: pk where
  "people_key = (case make_pk (people_row []) [1] of Some k \<Rightarrow> k | None \<Rightarrow> [])"

definition people_version :: "int \<Rightarrow> int \<Rightarrow> string \<Rightarrow> version" where
  "people_version lo hi n =
     \<lparr>v_branch = ''b'', v_pk = people_key, v_from = lo, v_to = hi, v_op = OpInsert, v_commit = ''c'', v_session = [],
      v_changed = [], v_row = people_row n\<rparr>"

definition people_db :: "version list \<Rightarrow> dbase" where
  "people_db side =
     \<lparr>db_repo = ''r'', db_default = ''b'', db_refs = [fork_ref ''b'' default_branch [] ''c'' 0 [\<lparr>sg_branch = ''b'', sg_seq = 0\<rparr>] ''a''],
      db_commits = [], db_sessions = [], db_tables = [people_table], db_side = (\<lambda>_. [])(1 := side), db_live = (\<lambda>_. fmempty)\<rparr>"

definition people_kek :: bytes where "people_kek = replicate 32 (CHR ''k'')"

definition people_env :: piienv where
  "people_env =
     \<lparr>pe_store = \<lparr>de_scan = (\<lambda>_. None), de_live_ok = (\<lambda>_ _. True), de_seal = (\<lambda>_ r. Some r)\<rparr>,
      pe_envelope = Some (local_envelope people_kek),
      pe_text = \<lparr>tx_float_g = (\<lambda>_. []), tx_float_f = (\<lambda>_. []), tx_time = (\<lambda>_. []), tx_quote = (\<lambda>s. s)\<rparr>,
      pe_sprint = (\<lambda>_. [])\<rparr>"

definition people_vault :: "dek_row list \<Rightarrow> version list \<Rightarrow> vault" where
  "people_vault keys side =
     \<lparr>va_pii = [\<lparr>pi_table = 1, pi_col = 2, pi_subject = 3, pi_by = ''a''\<rparr>], va_keys = keys,
      va_random = replicate 100 (CHR ''x''), va_db = people_db side\<rparr>"

lemma people_columns: "pii_columns (people_vault keys side) people_table = [\<lparr>pi_table = 1, pi_col = 2, pi_subject = 3, pi_by = ''a''\<rparr>]"
  by (simp add: pii_columns_def people_vault_def people_table_def)

lemma people_env_facts [simp]:
  "pe_envelope people_env = Some (local_envelope people_kek)" "length people_kek = 32"
  by (simp_all add: people_env_def people_kek_def)

lemma people_keys: "make_pk (people_row n) (st_pk people_table) = Some people_key"
proof -
  have "\<exists>k. make_pk (people_row []) [1] = Some k"
  proof -
    have "case make_pk (people_row []) [1] of None \<Rightarrow> False | Some _ \<Rightarrow> True" by code_simp
    then show ?thesis by (auto split: option.splits)
  qed
  moreover have "make_pk (people_row n) [1] = make_pk (people_row []) [1]"
    by (rule make_pk_cong) (simp add: people_row_def row_get_lookup)
  ultimately show ?thesis by (auto simp: people_key_def people_table_def)
qed

theorem sealed_row_reads_back_witness:
  "\<exists>va' stored out. store_sealed people_env people_table (people_row ''ann'') (people_vault [] []) = (va', Inr stored) \<and>
     (\<exists>ct. row_get stored 2 = text_val (sealed_text ct)) \<and>
     decrypt_pii people_env people_table va' stored = Some (Some out) \<and> row_get (Some out) 2 = text_val ''ann''"
proof -
  let ?va = "people_vault [] []" and ?r = "people_row ''ann''"
  have sub: "subject_for (pe_text people_env) (pii_columns ?va people_table) ?r = ''u1''"
    by (simp add: subject_for_def people_columns people_row_def row_get_lookup text_val_def zero_val_def value_plain_def)
  have "find_dek ?va (subject_for (pe_text people_env) (pii_columns ?va people_table) ?r) = None"
    by (simp add: find_dek_def people_vault_def)
  moreover have "44 + 12 * length (pii_columns ?va people_table) \<le> length (va_random ?va)"
    unfolding people_columns by (simp add: people_vault_def)
  moreover have "subject_for (pe_text people_env) (pii_columns ?va people_table) ?r \<noteq> []" unfolding sub by simp
  ultimately obtain va' stored where s: "store_sealed people_env people_table ?r ?va = (va', Inr stored)"
    using store_sealed_total [OF people_env_facts _ _ people_keys] by blast
  have ok: "designations_ok people_table (pii_columns ?va people_table)"
    unfolding designations_ok_def people_columns by (simp add: people_table_def)
  have val: "row_get ?r 2 = text_val ''ann''" "val_kind (text_val ''ann'') = KindText" "value_plain lib (text_val n) = n" for lib n
    by (simp_all add: people_row_def row_get_lookup text_val_def zero_val_def value_plain_def)
  have two: "(2 :: colid) \<in> pi_col ` set (pii_columns ?va people_table)" by (simp add: people_columns)
  from sealed_row_reads_back [OF s people_env_facts(1) ok] sub obtain out where
    "decrypt_pii people_env people_table va' stored = Some (Some out)"
    "row_get (Some out) 2 = text_val ''ann''" "\<exists>ct. row_get stored 2 = text_val (sealed_text ct)"
    using two val by fastforce
  with s show ?thesis by blast
qed

definition known_key :: "dek_row list" where
  "known_key = [\<lparr>dk_subject = ''u1'', dk_wrapped = Some ''w'', dk_erased = None\<rparr>]"

theorem erased_for_good_witness:
  "\<exists>va1. fst (erase_subject people_env people_table ''u1'' ''gdpr'' ''a'' 9 (people_vault known_key [])) = va1 \<and>
     subject_erased va1 ''u1'' \<and> (\<exists>e. snd (dek_for people_env ''u1'' True va1) = Inl e)"
proof -
  have "case erase_subject people_env people_table ''u1'' ''gdpr'' ''a'' 9 (people_vault known_key []) of (_, x) \<Rightarrow>
      (case x of Inl _ \<Rightarrow> False | Inr _ \<Rightarrow> True)" by code_simp
  then obtain va1 rep where e: "erase_subject people_env people_table ''u1'' ''gdpr'' ''a'' 9 (people_vault known_key []) = (va1, Inr rep)"
    by (auto split: prod.splits sum.splits)
  have "find_dek (people_vault known_key []) ''u1'' \<noteq> None" by (simp add: find_dek_def people_vault_def known_key_def)
  from erased_for_good [OF e this pii_refl] e show ?thesis by auto
qed

theorem erasure_without_key_witness:
  "\<exists>va1 rep. erase_subject people_env people_table ''u1'' ''gdpr'' ''a'' 9 (people_vault [] []) = (va1, Inr rep) \<and>
     er_key_destroyed rep \<and> snd (dek_for people_env ''u1'' True va1) = Inr (replicate 32 (CHR ''x''))"
proof -
  have "case erase_subject people_env people_table ''u1'' ''gdpr'' ''a'' 9 (people_vault [] []) of (_, x) \<Rightarrow>
      (case x of Inl _ \<Rightarrow> False | Inr _ \<Rightarrow> True)" by code_simp
  then obtain va1 rep where e: "erase_subject people_env people_table ''u1'' ''gdpr'' ''a'' 9 (people_vault [] []) = (va1, Inr rep)"
    by (auto split: prod.splits sum.splits)
  have none: "find_dek (people_vault [] []) ''u1'' = None" by (simp add: find_dek_def people_vault_def)
  have "va_random (people_vault [] []) = replicate 100 (CHR ''x'')" by (simp add: people_vault_def)
  with erasure_without_key [OF e none] e people_env_facts show ?thesis by auto
qed

text \<open>One key with two versions, the name ann and then the name bob: after the designation both hold the same text.\<close>

definition people_history :: "version list" where
  "people_history = [people_version 1 2 ''ann'', people_version 2 max_seq ''bob'']"

definition people_pending :: "string \<Rightarrow> pending" where
  "people_pending n =
     \<lparr>pn_branch = ''b'', pn_pk = people_key, pn_row = people_row n, pn_subject = ''u1'', pn_value = n\<rparr>"

lemma people_pending_of:
  "pending_of people_env 2 3 (people_version 1 2 ''ann'') = Some (people_pending ''ann'')"
  "pending_of people_env 2 3 (people_version 2 max_seq ''bob'') = Some (people_pending ''bob'')"
  by (simp_all add: pending_of_def Let_def people_version_def people_row_def row_get_lookup people_env_def bind_or_nil_def
      bind_value_def text_val_def zero_val_def as_string_def has_prefix_def ciphertext_prefix_def people_pending_def)

theorem designation_overwrites_witness:
  "\<exists>va'. designate_pii people_env people_table ''name'' ''who'' ''a'' (people_vault [] people_history) = (va', None) \<and>
     (\<exists>ct. \<forall>u \<in> set (db_side (va_db va') 1). v_branch u = ''b'' \<longrightarrow> v_pk u = people_key \<longrightarrow>
        row_get (v_row u) 2 = text_val (sealed_text ct))"
proof -
  let ?va = "people_vault [] people_history"
  let ?designated = "?va\<lparr>va_pii := designate_row people_table 2 3 ''a'' (va_pii ?va)\<rparr>"
  have cols: "column_by_name people_table ''name'' = Some (people_column 2 ''name'' ''text'' KindText)"
    "column_by_name people_table ''who'' = Some (people_column 3 ''who'' ''text'' KindText)"
    by (simp_all add: column_by_name_def people_table_def people_column_def)
  have ids: "ac_id (people_column i n ty knd) = i" for i n ty knd by (simp add: people_column_def)
  have side: "db_side (va_db ?va) (st_id people_table) = people_history"
    by (simp add: people_vault_def people_db_def people_table_def)
  have ps: "List.map_filter (pending_of people_env 2 3) people_history = [people_pending ''ann'', people_pending ''bob'']"
    by (simp add: people_history_def people_pending_of List.map_filter_simps)
  have k: "make_pk (pn_row (people_pending n)) (st_pk people_table) = Some people_key" for n
    using people_keys by (simp add: people_pending_def)
  have r: "va_random ?designated = replicate 100 (CHR ''x'')" "find_dek ?designated (pn_subject (people_pending n)) = None" for n
    by (simp_all add: people_vault_def find_dek_def)
  obtain va1 where one: "seal_pending people_env people_table 2 (people_pending ''ann'') (fmempty, ?designated) =
      ((fmupd ''u1'' (replicate 32 (CHR ''x'')) fmempty, va1), None)" "va_random va1 = replicate 44 (CHR ''x'')"
    using seal_pending_fresh [OF people_env_facts, of fmempty "people_pending ''ann''" ?designated people_table people_key 2] k r
    by (auto simp: people_pending_def)
  obtain va2 where two: "seal_pending people_env people_table 2 (people_pending ''bob'') (fmupd ''u1'' (replicate 32 (CHR ''x'')) fmempty, va1) =
      ((fmupd ''u1'' (replicate 32 (CHR ''x'')) fmempty, va2), None)"
    using seal_pending_cached [of "fmupd ''u1'' (replicate 32 (CHR ''x'')) fmempty" "people_pending ''bob''"
        "replicate 32 (CHR ''x'')" people_table people_key va1 people_env 2] k one(2)
    by (auto simp: people_pending_def)
  have "seal_all people_env people_table 2 [people_pending ''ann'', people_pending ''bob''] (fmempty, ?designated) =
      ((fmupd ''u1'' (replicate 32 (CHR ''x'')) fmempty, va2), None)" using one two by simp
  then have "seal_existing people_env people_table 2 3 ?designated = (va2, None)" using side ps by (simp add: seal_existing_def)
  moreover have "(2 :: colid) \<notin> set (st_pk people_table)" by (simp add: people_table_def)
  ultimately have d: "designate_pii people_env people_table ''name'' ''who'' ''a'' ?va = (va2, None)"
    unfolding designate_pii_def cols by (simp only: option.case ids if_False)
  have v: "people_version 1 2 ''ann'' \<in> set (db_side (va_db ?va) (st_id people_table))"
    "pending_of people_env (ac_id (people_column 2 ''name'' ''text'' KindText))
       (ac_id (people_column 3 ''who'' ''text'' KindText)) (people_version 1 2 ''ann'') \<noteq> None"
    unfolding side ids using people_pending_of(1) by (simp_all add: people_history_def)
  from designation_overwrites [OF d cols v] d show ?thesis
    by (simp add: people_version_def people_column_def people_table_def)
qed

end
