(* ===== verification/ServerWire.thy ===== *)
theory ServerWire
  imports StoreMerge
begin

text \<open>
  The boundary of the service, after \<^verbatim>\<open>internal/server/convert.go\<close>: protobuf messages to the values, rows,
  changes and predicates of the store and back. A message is modelled by the fields the code reads; an open
  enum is its 32-bit number. A value or predicate inside another message is always present, because decoding
  a protobuf message yields no nil element.
\<close>

subsection \<open>Values\<close>

text \<open>\<open>WireUnset\<close> is a \<^verbatim>\<open>Value\<close> whose \<^verbatim>\<open>kind\<close> is not set; a timestamp is its seconds and nanoseconds.\<close>

datatype wire_value =
    WireNull bool | WireBool bool | WireInt i64 | WireFloat u64 | WireNumeric string | WireText string
  | WireBytes bytes | WireTime i64 u32 | WireUnset

datatype wire_error =
    UnknownValueKind | BadWireNumeric core_error | WireColumn colid wire_error | NoOperation pk
  | UnknownNode | UnknownComparison u32

text \<open>\<^verbatim>\<open>timestamppb.New\<close> of a time in microseconds, and \<^verbatim>\<open>AsTime().UnixMicro()\<close> of a timestamp.\<close>

definition timestamp_of :: "i64 \<Rightarrow> i64 \<times> u32" where
  "timestamp_of us = (word_of_int (sint us div 1000000), word_of_int (sint us mod 1000000 * 1000))"

definition micros_of :: "i64 \<Rightarrow> u32 \<Rightarrow> i64" where
  "micros_of secs nanos =
     word_of_int ((sint secs + sint nanos div 1000000000) * 1000000 + sint nanos mod 1000000000 div 1000)"

definition value_to_wire :: "val \<Rightarrow> wire_value" where
  "value_to_wire v =
     (case val_kind v of
        KindNull \<Rightarrow> WireNull True
      | KindBool \<Rightarrow> WireBool (val_bool v)
      | KindInt \<Rightarrow> WireInt (val_int v)
      | KindFloat \<Rightarrow> WireFloat (val_float v)
      | KindNumeric \<Rightarrow> WireNumeric (val_text v)
      | KindText \<Rightarrow> WireText (val_text v)
      | KindBytes \<Rightarrow> WireBytes (val_bytes v)
      | KindTime \<Rightarrow> (case timestamp_of (val_int v) of (s, n) \<Rightarrow> WireTime s n)
      | KindOther _ \<Rightarrow> WireNull True)"

fun value_from_wire :: "wire_value \<Rightarrow> wire_error + val" where
  "value_from_wire (WireNull _) = Inr null_val"
| "value_from_wire (WireBool b) = Inr (bool_val b)"
| "value_from_wire (WireInt i) = Inr (int_val i)"
| "value_from_wire (WireFloat f) = Inr (float_val f)"
| "value_from_wire (WireNumeric s) = left_map BadWireNumeric (numeric_val s)"
| "value_from_wire (WireText s) = Inr (text_val s)"
| "value_from_wire (WireBytes b) = Inr (bytes_val b)"
| "value_from_wire (WireTime s n) = Inr (time_val (micros_of s n))"
| "value_from_wire WireUnset = Inl UnknownValueKind"

subsection \<open>Rows and changes\<close>

type_synonym wire_row = "(colid, wire_value) fmap"

definition row_to_wire :: "row \<Rightarrow> wire_row" where
  "row_to_wire r = fm_tabulate (row_cols r) (\<lambda>c. value_to_wire (row_get r c))"

text \<open>
  The loop over the cells of a row. Go visits a map in any order, which only decides which of several errors
  is reported; here it is by column.
\<close>

definition cell_from_wire :: "wire_row \<Rightarrow> colid \<Rightarrow> (colid, val) fmap \<Rightarrow> wire_error + (colid, val) fmap" where
  "cell_from_wire m c out =
     (case fmlookup m c of
        None \<Rightarrow> Inr out
      | Some w \<Rightarrow> and_then (left_map (WireColumn c) (value_from_wire w)) (\<lambda>v. Inr (fmupd c v out)))"

definition row_from_wire :: "wire_row option \<Rightarrow> wire_error + row" where
  "row_from_wire r =
     (case r of
        None \<Rightarrow> Inr None
      | Some m \<Rightarrow> and_then (fold_steps (cell_from_wire m) (fm_keys m) fmempty) (\<lambda>out. Inr (Some out)))"

record wire_change =
  wc_pk :: pk
  wc_op :: u32
  wc_row :: "wire_row option"

text \<open>\<^verbatim>\<open>core.Op(c.GetOp())\<close> keeps the low byte; the operation zero is refused.\<close>

definition change_from_wire :: "wire_change \<Rightarrow> wire_error + store_change" where
  "change_from_wire c =
     and_then (row_from_wire (wc_row c)) (\<lambda>r.
     and_then (guard (ucast (wc_op c) \<noteq> (0 :: u8)) (NoOperation (wc_pk c))) (\<lambda>_.
       Inr \<lparr>sc_pk' = wc_pk c, sc_op = op_of_byte (ucast (wc_op c)), sc_row = r\<rparr>))"

definition changes_from_wire :: "wire_change list \<Rightarrow> wire_error + store_change list" where
  "changes_from_wire cs =
     fold_steps (\<lambda>c out. and_then (change_from_wire c) (\<lambda>ch. Inr (out @ [ch]))) cs []"

subsection \<open>Predicates\<close>

text \<open>\<open>WireNode\<close> is an \<^verbatim>\<open>Expr\<close> whose \<^verbatim>\<open>node\<close> is not set.\<close>

datatype wire_expr =
    WireCompare colid u32 "wire_value option" | WireIn colid "wire_value list" | WireIsNull colid
  | WireAnd "wire_expr list" | WireOr "wire_expr list" | WireNot wire_expr | WireNode

definition compare_from_wire :: "u32 \<Rightarrow> wire_error + compare_op" where
  "compare_from_wire o' =
     (if o' = 1 then Inr CmpEq else if o' = 2 then Inr CmpNe else if o' = 3 then Inr CmpLt
      else if o' = 4 then Inr CmpLe else if o' = 5 then Inr CmpGt else if o' = 6 then Inr CmpGe
      else if o' = 7 then Inr CmpLike else Inl (UnknownComparison o'))"

definition values_from_wire :: "wire_value list \<Rightarrow> wire_error + val list" where
  "values_from_wire ws = fold_steps (\<lambda>w out. and_then (value_from_wire w) (\<lambda>v. Inr (out @ [v]))) ws []"

fun expr_from_wire :: "wire_expr \<Rightarrow> wire_error + expr"
  and exprs_from_wire :: "wire_expr list \<Rightarrow> wire_error + expr list" where
  "expr_from_wire (WireCompare c o' w) =
     and_then (case w of None \<Rightarrow> Inr null_val | Some x \<Rightarrow> value_from_wire x) (\<lambda>v.
     and_then (compare_from_wire o') (\<lambda>p. Inr (Compare c p v)))"
| "expr_from_wire (WireIn c ws) = and_then (values_from_wire ws) (\<lambda>vs. Inr (In_list c vs))"
| "expr_from_wire (WireIsNull c) = Inr (Is_null c)"
| "expr_from_wire (WireAnd es) = and_then (exprs_from_wire es) (\<lambda>ts. Inr (And_all ts))"
| "expr_from_wire (WireOr es) = and_then (exprs_from_wire es) (\<lambda>ts. Inr (Or_any ts))"
| "expr_from_wire (WireNot e) = and_then (expr_from_wire e) (\<lambda>t. Inr (Not_expr t))"
| "expr_from_wire WireNode = Inl UnknownNode"
| "exprs_from_wire [] = Inr []"
| "exprs_from_wire (e # es) =
     and_then (expr_from_wire e) (\<lambda>t. and_then (exprs_from_wire es) (\<lambda>ts. Inr (t # ts)))"

text \<open>\<^verbatim>\<open>keyFilter\<close> of the store: the predicate of one key.\<close>

definition key_expr :: "store_table \<Rightarrow> pk \<Rightarrow> store_error + expr" where
  "key_expr t k =
     and_then (decode_pk k t) (\<lambda>vs.
       let terms = map (\<lambda>(c, v). Compare c CmpEq v) (zip (st_pk t) vs)
       in Inr (case terms of [e] \<Rightarrow> e | _ \<Rightarrow> And_all terms))"

end
