(* ===== verification/ServerDefs.thy ===== *)
theory ServerDefs
  imports ServerWire HubReview HubReach
begin

text \<open>
  The service, after \<^verbatim>\<open>internal/server/auth.go\<close>, \<^verbatim>\<open>server.go\<close> and \<^verbatim>\<open>handlers2.go\<close>: authentication by API
  key, capabilities, and one definition per handler on the state of one repository. A handler answers with a
  status or a response and leaves a state. The gRPC and REST surfaces call these same handlers. Metrics are left
  out; a stream is the list of the messages sent.
\<close>

subsection \<open>Authentication\<close>

text \<open>\<^verbatim>\<open>APIKeyAuth\<close>: the principal of each hashed key and the capabilities of each principal.\<close>

record keyring =
  kr_keys :: "(string, string) fmap"
  kr_caps :: "(string, string list) fmap"

definition new_keyring :: keyring where
  "new_keyring = \<lparr>kr_keys = fmempty, kr_caps = fmempty\<rparr>"

definition hash_key :: "string \<Rightarrow> string" where
  "hash_key key = hex_text (sha256 key)"

definition caps_of :: "keyring \<Rightarrow> string \<Rightarrow> string list" where
  "caps_of kr p = (case fmlookup (kr_caps kr) p of None \<Rightarrow> [] | Some cs \<Rightarrow> cs)"

definition add_hashed_key :: "string \<Rightarrow> string \<Rightarrow> string list \<Rightarrow> keyring \<Rightarrow> keyring" where
  "add_hashed_key h p cs kr =
     kr\<lparr>kr_keys := fmupd h p (kr_keys kr), kr_caps := fmupd p (caps_of kr p @ cs) (kr_caps kr)\<rparr>"

definition add_key :: "string \<Rightarrow> string \<Rightarrow> string list \<Rightarrow> keyring \<Rightarrow> keyring" where
  "add_key key p cs kr = add_hashed_key (hash_key key) p cs kr"

datatype code =
    Unauthenticated | PermissionDenied | NotFound | InvalidArgument | FailedPrecondition | ResourceExhausted
  | Internal | Unavailable

text \<open>\<open>NilTable\<close>: the store is called with a nil table; unless it fails before using it, the handler panics.\<close>

datatype reason =
    NoCredential | UnknownCredential | LacksCapability string string | UnknownRepo string | UnknownTable string
  | BadWire wire_error | BadKey store_error | BadSessionId string | NoSuchRow | NoHistory | NilTable
  | NotIntrospected string | StoreFailed hub_error

datatype status = Status code reason

text \<open>A call: the values of its \<^verbatim>\<open>authorization\<close> metadata, the clock, and the identifier made for it.\<close>

record call =
  cl_authorization :: "string list"
  cl_now :: i64
  cl_id :: string

definition bearer :: string where "bearer = ''Bearer ''"

definition token_of :: "string \<Rightarrow> string" where
  "token_of raw = trim_space (if take (length bearer) raw = bearer then drop (length bearer) raw else raw)"

definition auth_principal :: "keyring \<Rightarrow> call \<Rightarrow> reason + string" where
  "auth_principal kr c =
     (case cl_authorization c of
        [] \<Rightarrow> Inl NoCredential
      | raw # _ \<Rightarrow>
          if token_of raw = [] then Inl NoCredential
          else (case fmlookup (kr_keys kr) (hash_key (token_of raw)) of
              None \<Rightarrow> Inl UnknownCredential
            | Some p \<Rightarrow> if p = [] then Inl UnknownCredential else Inr p))"

definition auth_can :: "keyring \<Rightarrow> string \<Rightarrow> string \<Rightarrow> bool" where
  "auth_can kr p cap \<longleftrightarrow>
     (let cs = caps_of kr p in
      cap \<in> set cs
      \<or> ''admin'' \<in> set cs \<and> cap \<in> set [''read'', ''write'', ''branch'', ''merge'', ''approve'']
      \<or> ''write'' \<in> set cs \<and> cap = ''read'')"

definition require :: "keyring \<Rightarrow> call \<Rightarrow> string \<Rightarrow> status + string" where
  "require kr c cap =
     and_then (left_map (Status Unauthenticated) (auth_principal kr c)) (\<lambda>p.
     and_then (guard (auth_can kr p cap) (Status PermissionDenied (LacksCapability p cap))) (\<lambda>_. Inr p))"

subsection \<open>Requests, replies and the environment\<close>

text \<open>
  The environment: the store's, the name of the repository, what the database makes of a compiled predicate,
  how it orders keys, what it reports of a live table and its unique indexes, the parsing of session ids, and
  the text of an error.
\<close>

record 'd srvenv =
  se_hub :: "'d hubenv"
  se_repo :: string
  se_where :: "expr \<Rightarrow> row \<Rightarrow> bool"
  se_page :: "store_table \<Rightarrow> int \<Rightarrow> pk \<Rightarrow> page"
  se_import :: "'d \<Rightarrow> string \<Rightarrow> (store_table \<times> table) option"
  se_uniques :: "'d \<Rightarrow> store_table \<Rightarrow> live_index list"
  se_uuid :: "string \<Rightarrow> string option"
  se_days_ago :: "i64 \<Rightarrow> int \<Rightarrow> i64"
  se_text :: "st_error \<Rightarrow> string"

type_synonym timestamp = "i64 \<times> u32"

datatype request =
    TrackTable string string
  | UntrackTable string string
  | GetStatus string
  | CommitRows string string string "wire_change list" string string bytes
  | GetLog string string "32 word"
  | BlameKey string string string pk "colid list"
  | RevertCommit string string string bytes string bool
  | ScanRows string string string "wire_expr option" "32 word" pk bytes "timestamp option"
  | GetRow string string string pk
  | CreateBranch string string string
  | DeleteBranch string string
  | ListRefs string
  | CreateTag string string bytes
  | UpdateFromParent string string string
  | Protect string string bool "32 word"
  | DiffRows string string string i64 i64
  | HistoryOf string string string pk
  | OpenSession string string
  | SessionWrite string string string "wire_change list"
  | CommitSession string string string string
  | AbandonSession string string string
  | CreateProposal string string string string string
  | ReviewProposal string i64 string string
  | MergeProposal string string i64
  | ListConflicts string string i64
  | ResolveConflict i64 string string
  | PurgeKey string string pk string
  | PruneTable string string "32 word" "32 word"
  | RunGC string
  | VerifyRepo string string bool bool bool

record merge_reply =
  mr_clean :: bool
  mr_applied :: u32
  mr_commit :: "digest option"
  mr_conflicts :: "(pk \<times> string \<times> string \<times> string \<times> string) list"

record change_detail =
  cd_pk :: pk
  cd_op :: op
  cd_before :: "wire_row option"
  cd_after :: "wire_row option"
  cd_columns :: "colid list"

record row_version =
  rw_version :: version_record
  rw_row :: "wire_row option"

record finding =
  fi_check :: string
  fi_table :: string
  fi_ok :: bool

datatype response =
    Done
  | TableInfo store_table
  | RepoStatus "store_table list" "(ref \<times> string) list"
  | Committed digest int u32
  | CommitLog "commit_rec list"
  | CellBlames "(colid \<times> wire_value \<times> version_record) list"
  | Rows "wire_row list"
  | RefInfo string digest
  | RefList "(ref \<times> string) list"
  | Merged merge_reply
  | Changes "change_detail list"
  | Versions "row_version list"
  | SessionInfo string string
  | ProposalInfo proposal_row
  | Conflicts "(conflict_row \<times> string \<times> bool) list"
  | Purged u32 u32
  | Pruned u32 u32
  | Collected u32 u32
  | Findings "finding list"

type_synonym 'd outcome = "'d hub \<times> (status + response)"

subsection \<open>Helpers\<close>

definition branch_or :: "string \<Rightarrow> string" where
  "branch_or b = (if b = [] then default_branch else b)"

definition find_repo :: "'d srvenv \<Rightarrow> string \<Rightarrow> status + unit" where
  "find_repo env name = guard (name = se_repo env) (Status NotFound (UnknownRepo name))"

text \<open>An empty table name is answered with a nil table.\<close>

definition lookup_table :: "'d srvenv \<Rightarrow> 'd hub \<Rightarrow> string \<Rightarrow> string \<Rightarrow> status + store_table option" where
  "lookup_table env h name table =
     and_then (find_repo env name) (\<lambda>_.
       if table = [] then Inr None
       else and_then (some_or (Status NotFound (UnknownTable table)) (load_table h table)) (\<lambda>t. Inr (Some t)))"

definition need_table :: "store_table option \<Rightarrow> status + store_table" where
  "need_table t = some_or (Status Unavailable NilTable) t"

definition fails :: "code \<Rightarrow> hub_error + 'a \<Rightarrow> status + 'a" where
  "fails c m = left_map (\<lambda>e. Status c (StoreFailed e)) m"

definition db_fails :: "code \<Rightarrow> st_error + 'a \<Rightarrow> status + 'a" where
  "db_fails c m = fails c (left_map StoreError m)"

definition bad_wire :: "wire_error + 'a \<Rightarrow> status + 'a" where
  "bad_wire m = left_map (\<lambda>e. Status InvalidArgument (BadWire e)) m"

text \<open>\<^verbatim>\<open>contains\<close> and \<^verbatim>\<open>isPrecondition\<close>: the kind of a failure is read off the text of its error.\<close>

fun contains :: "string \<Rightarrow> string \<Rightarrow> bool" where
  "contains [] sub = (sub = [])"
| "contains (c # s) sub = (take (length sub) (c # s) = sub \<or> contains s sub)"

definition is_precondition :: "string \<Rightarrow> bool" where
  "is_precondition msg = list_ex (contains msg) [''moved'', ''expected head'', ''FAILED_PRECONDITION'']"

definition commit_fails :: "'d srvenv \<Rightarrow> st_error + 'a \<Rightarrow> status + 'a" where
  "commit_fails env m =
     left_map (\<lambda>e. Status (if is_precondition (se_text env e) then FailedPrecondition else Internal)
                     (StoreFailed (StoreError e))) m"

definition count32 :: "nat \<Rightarrow> u32" where "count32 n = word_of_nat n"

text \<open>\<^verbatim>\<open>copy(d[:], b)\<close> into a zero digest, and the digest of a field that must have its size to be read at all.\<close>

definition digest_of :: "bytes \<Rightarrow> digest" where
  "digest_of b = take 32 (b @ zero_digest)"

definition sized_digest :: "bytes \<Rightarrow> digest option" where
  "sized_digest b = (if length b = 32 then Some b else None)"

definition commit_seq :: "dbase \<Rightarrow> digest \<Rightarrow> int" where
  "commit_seq db d = (case find_commit db d of None \<Rightarrow> 0 | Some w \<Rightarrow> cw_seq w)"

definition merge_reply_of :: "text_lib \<Rightarrow> store_merge_result option \<Rightarrow> merge_reply" where
  "merge_reply_of lib res =
     (case res of
        None \<Rightarrow> \<lparr>mr_clean = False, mr_applied = 0, mr_commit = None, mr_conflicts = []\<rparr>
      | Some r \<Rightarrow>
          \<lparr>mr_clean = sm_clean r, mr_applied = count32 (sm_applied r),
           mr_commit = (if sm_clean r then Some (sm_commit r) else None),
           mr_conflicts = map (\<lambda>c. (cf_pk c, conflict_kind_string (cf_kind c), value_string lib (cf_base c),
                             value_string lib (cf_ours c), value_string lib (cf_theirs c))) (sm_conflicts r)\<rparr>)"

definition respond :: "'d hub \<Rightarrow> status + 'd hub \<times> response \<Rightarrow> 'd outcome" where
  "respond h m = (case m of Inl e \<Rightarrow> (h, Inl e) | Inr (h', r) \<Rightarrow> (h', Inr r))"

text \<open>A handler that only reads.\<close>

definition answer :: "'d hub \<Rightarrow> status + response \<Rightarrow> 'd outcome" where
  "answer h m = (h, m)"

subsection \<open>Listings of the store\<close>

definition list_tables :: "'d hub \<Rightarrow> store_table list" where
  "list_tables h = List.map_filter (load_table h) (sort (map st_physical (db_tables (hb_db h))))"

text \<open>By kind, then name, each with the name of its parent.\<close>

definition list_refs :: "dbase \<Rightarrow> (ref \<times> string) list" where
  "list_refs db =
     map (\<lambda>r. (r, case find (\<lambda>p. rf_id p = rf_parent r) (db_refs db) of Some p \<Rightarrow> rf_name p | None \<Rightarrow> []))
       (sort_key rf_name (filter (\<lambda>r. rf_kind r = BranchRef) (db_refs db))
        @ sort_key rf_name (filter (\<lambda>r. rf_kind r = TagRef) (db_refs db)))"

definition store_log :: "dbase \<Rightarrow> string \<Rightarrow> int \<Rightarrow> st_error + commit_rec list" where
  "store_log db name limit =
     and_then (ref_row db name) (\<lambda>(branch, head, sq, chain).
       Inr (take (nat (if limit \<le> 0 then 20 else limit))
         (rev (sort_key cw_seq (filter (\<lambda>w. cw_branch w = branch) (db_commits db))))))"

subsection \<open>Repository\<close>

definition serve_track :: "'d srvenv \<Rightarrow> keyring \<Rightarrow> call \<Rightarrow> string \<Rightarrow> string \<Rightarrow> 'd hub \<Rightarrow> 'd outcome" where
  "serve_track env kr c repo table h =
     respond h (
       and_then (require kr c ''admin'') (\<lambda>_.
       and_then (find_repo env repo) (\<lambda>_.
       and_then (some_or (Status FailedPrecondition (NotIntrospected table)) (se_import env (hb_live h) table)) (\<lambda>(t, rows).
       and_then (db_fails FailedPrecondition (hub_track t rows h)) (\<lambda>h'. Inr (h', TableInfo t))))))"

definition serve_untrack :: "'d srvenv \<Rightarrow> keyring \<Rightarrow> call \<Rightarrow> string \<Rightarrow> string \<Rightarrow> 'd hub \<Rightarrow> 'd outcome" where
  "serve_untrack env kr c repo table h =
     respond h (
       and_then (require kr c ''admin'') (\<lambda>_.
       and_then (lookup_table env h repo table) (\<lambda>t.
       and_then (need_table t) (\<lambda>t. Inr (hub_untrack t h, Done)))))"

definition serve_status :: "'d srvenv \<Rightarrow> keyring \<Rightarrow> call \<Rightarrow> string \<Rightarrow> 'd hub \<Rightarrow> 'd outcome" where
  "serve_status env kr c repo h =
     answer h (
       and_then (require kr c ''read'') (\<lambda>_.
       and_then (find_repo env repo) (\<lambda>_. Inr (RepoStatus (list_tables h) (list_refs (hb_db h))))))"

subsection \<open>Version\<close>

definition serve_commit :: "'d srvenv \<Rightarrow> keyring \<Rightarrow> call \<Rightarrow> string \<Rightarrow> string \<Rightarrow> string \<Rightarrow> wire_change list \<Rightarrow> string
    \<Rightarrow> string \<Rightarrow> bytes \<Rightarrow> 'd hub \<Rightarrow> 'd outcome" where
  "serve_commit env kr c repo table branch changes message ext expected h =
     respond h (
       and_then (require kr c ''write'') (\<lambda>p.
       and_then (lookup_table env h repo table) (\<lambda>t.
       and_then (bad_wire (changes_from_wire changes)) (\<lambda>chs.
       and_then (need_table t) (\<lambda>t.
       and_then (commit_fails env (store_commit (he_store (se_hub env)) t (cl_now c)
           \<lparr>rq_branch = branch_or branch, rq_changes = chs, rq_author = p, rq_message = message, rq_ref = ext,
            rq_expected = sized_digest expected, rq_parents = []\<rparr> (hb_db h))) (\<lambda>(db, d, n).
         Inr (h\<lparr>hb_db := db\<rparr>, Committed d (commit_seq db d) (count32 n))))))))"

definition serve_log :: "'d srvenv \<Rightarrow> keyring \<Rightarrow> call \<Rightarrow> string \<Rightarrow> string \<Rightarrow> 32 word \<Rightarrow> 'd hub \<Rightarrow> 'd outcome" where
  "serve_log env kr c repo branch limit h =
     answer h (
       and_then (require kr c ''read'') (\<lambda>_.
       and_then (find_repo env repo) (\<lambda>_.
       and_then (db_fails Internal (store_log (hb_db h) (branch_or branch) (sint limit))) (\<lambda>ws. Inr (CommitLog ws)))))"

definition serve_blame :: "'d srvenv \<Rightarrow> keyring \<Rightarrow> call \<Rightarrow> string \<Rightarrow> string \<Rightarrow> string \<Rightarrow> pk \<Rightarrow> colid list \<Rightarrow> 'd hub
    \<Rightarrow> 'd outcome" where
  "serve_blame env kr c repo table branch k cols h =
     answer h (
       and_then (require kr c ''read'') (\<lambda>_.
       and_then (lookup_table env h repo table) (\<lambda>t.
       and_then (need_table t) (\<lambda>t.
       and_then (db_fails Internal (store_history (hb_db h) t (branch_or branch) k)) (\<lambda>hist.
       and_then (some_or (Status Internal NoHistory) (blame hist (if cols = [] then table_col_ids t else cols))) (\<lambda>bs.
         Inr (CellBlames (map (\<lambda>(i, v, r). (i, value_to_wire v, r)) bs))))))))"

definition revert_message :: "digest \<Rightarrow> string \<Rightarrow> string" where
  "revert_message d message = (if message = [] then ''Revert '' @ hex_text (take 4 d) else message)"

definition serve_revert :: "'d srvenv \<Rightarrow> keyring \<Rightarrow> call \<Rightarrow> string \<Rightarrow> string \<Rightarrow> string \<Rightarrow> bytes \<Rightarrow> string \<Rightarrow> bool
    \<Rightarrow> 'd hub \<Rightarrow> 'd outcome" where
  "serve_revert env kr c repo table branch target message force h =
     respond h (
       and_then (require kr c ''write'') (\<lambda>p.
       and_then (lookup_table env h repo table) (\<lambda>t.
       and_then (need_table t) (\<lambda>t.
         let d = digest_of target in
         and_then (db_fails FailedPrecondition (store_revert (he_store (se_hub env)) t (cl_now c) (branch_or branch) d p
             (revert_message d message) (''revert:'' @ hex_text d) force (hb_db h))) (\<lambda>(db, d', n).
           Inr (h\<lparr>hb_db := db\<rparr>, Committed d' (commit_seq db d') (count32 n)))))))"

definition some_row :: "row \<Rightarrow> wire_row option" where
  "some_row r = (if r = None then None else Some (row_to_wire r))"

definition serve_diff :: "'d srvenv \<Rightarrow> keyring \<Rightarrow> call \<Rightarrow> string \<Rightarrow> string \<Rightarrow> string \<Rightarrow> i64 \<Rightarrow> i64 \<Rightarrow> 'd hub \<Rightarrow> 'd outcome" where
  "serve_diff env kr c repo table branch lo hi h =
     answer h (
       and_then (require kr c ''read'') (\<lambda>_.
       and_then (lookup_table env h repo table) (\<lambda>t.
       and_then (need_table t) (\<lambda>t.
       and_then (db_fails Internal (store_diff (hb_db h) t (branch_or branch) (sint lo)
           (if hi = 0 then - 1 else sint hi))) (\<lambda>ds.
         Inr (Changes (map (\<lambda>d. \<lparr>cd_pk = df_pk d, cd_op = df_op d, cd_before = some_row (df_before d),
                cd_after = some_row (df_after d), cd_columns = mask_cols (df_changed d)\<rparr>) ds)))))))"

definition serve_history :: "'d srvenv \<Rightarrow> keyring \<Rightarrow> call \<Rightarrow> string \<Rightarrow> string \<Rightarrow> string \<Rightarrow> pk \<Rightarrow> 'd hub \<Rightarrow> 'd outcome" where
  "serve_history env kr c repo table branch k h =
     answer h (
       and_then (require kr c ''read'') (\<lambda>_.
       and_then (lookup_table env h repo table) (\<lambda>t.
       and_then (need_table t) (\<lambda>t.
       and_then (db_fails Internal (store_history (hb_db h) t (branch_or branch) k)) (\<lambda>vs.
         Inr (Versions (map (\<lambda>v. \<lparr>rw_version = v, rw_row = some_row (vr_row v)\<rparr>) vs)))))))"

subsection \<open>Data\<close>

text \<open>A commit of the wrong size is not read at all; a time of day counts only without a commit.\<close>

definition read_point_of :: "bytes \<Rightarrow> timestamp option \<Rightarrow> read_point" where
  "read_point_of at_commit as_of =
     (case sized_digest at_commit of
        Some d \<Rightarrow> AtCommit d
      | None \<Rightarrow> (case as_of of Some (s, n) \<Rightarrow> AsOf (micros_of s n) | None \<Rightarrow> AtHead))"

definition serve_scan :: "'d srvenv \<Rightarrow> keyring \<Rightarrow> call \<Rightarrow> string \<Rightarrow> string \<Rightarrow> string \<Rightarrow> wire_expr option \<Rightarrow> 32 word
    \<Rightarrow> pk \<Rightarrow> bytes \<Rightarrow> timestamp option \<Rightarrow> 'd hub \<Rightarrow> 'd outcome" where
  "serve_scan env kr c repo table branch filt limit after at_commit as_of h =
     answer h (
       and_then (require kr c ''read'') (\<lambda>_.
       and_then (lookup_table env h repo table) (\<lambda>t.
       and_then (case filt of None \<Rightarrow> Inr None
           | Some e \<Rightarrow> and_then (bad_wire (expr_from_wire e)) (\<lambda>x. Inr (Some (se_where env x)))) (\<lambda>f.
       and_then (need_table t) (\<lambda>t.
       and_then (db_fails Internal (store_read (hb_db h) t (branch_or branch) (read_point_of at_commit as_of) f
           (se_page env t (sint limit) after))) (\<lambda>rs.
         Inr (Rows (map row_to_wire rs))))))))"

definition serve_get :: "'d srvenv \<Rightarrow> keyring \<Rightarrow> call \<Rightarrow> string \<Rightarrow> string \<Rightarrow> string \<Rightarrow> pk \<Rightarrow> 'd hub \<Rightarrow> 'd outcome" where
  "serve_get env kr c repo table branch k h =
     answer h (
       and_then (require kr c ''read'') (\<lambda>_.
       and_then (lookup_table env h repo table) (\<lambda>t.
       and_then (need_table t) (\<lambda>t.
       and_then (left_map (\<lambda>e. Status InvalidArgument (BadKey e)) (key_expr t k)) (\<lambda>e.
       and_then (db_fails Internal (store_read (hb_db h) t (branch_or branch) AtHead (Some (se_where env e))
           (se_page env t 1 []))) (\<lambda>rs.
         case rs of [] \<Rightarrow> Inl (Status NotFound NoSuchRow) | r # _ \<Rightarrow> Inr (Rows [row_to_wire r])))))))"

end
