(* ===== verification/ServerHandlers.thy ===== *)
theory ServerHandlers
  imports ServerDefs
begin

text \<open>
  The handlers of branches, sessions, proposals and administration, and the service as one function from
  requests to outcomes.
\<close>

subsection \<open>Branching\<close>

definition serve_create_branch :: "'d srvenv \<Rightarrow> keyring \<Rightarrow> call \<Rightarrow> string \<Rightarrow> string \<Rightarrow> string \<Rightarrow> 'd hub \<Rightarrow> 'd outcome" where
  "serve_create_branch env kr c repo name from_branch h =
     respond h (
       and_then (require kr c ''branch'') (\<lambda>p.
       and_then (find_repo env repo) (\<lambda>_.
       and_then (db_fails FailedPrecondition (create_ref (hb_db h) (cl_id c) name (branch_or from_branch) p)) (\<lambda>db.
         Inr (h\<lparr>hb_db := db\<rparr>, RefInfo name (case find_branch db name of Some r \<Rightarrow> rf_head r | None \<Rightarrow> zero_digest))))))"

definition serve_delete_branch :: "'d srvenv \<Rightarrow> keyring \<Rightarrow> call \<Rightarrow> string \<Rightarrow> string \<Rightarrow> 'd hub \<Rightarrow> 'd outcome" where
  "serve_delete_branch env kr c repo name h =
     respond h (
       and_then (require kr c ''branch'') (\<lambda>_.
       and_then (find_repo env repo) (\<lambda>_.
       and_then (fails FailedPrecondition (hub_delete_branch name h)) (\<lambda>h'. Inr (h', Done)))))"

definition serve_list_refs :: "'d srvenv \<Rightarrow> keyring \<Rightarrow> call \<Rightarrow> string \<Rightarrow> 'd hub \<Rightarrow> 'd outcome" where
  "serve_list_refs env kr c repo h =
     answer h (
       and_then (require kr c ''read'') (\<lambda>_.
       and_then (find_repo env repo) (\<lambda>_. Inr (RefList (list_refs (hb_db h))))))"

definition serve_create_tag :: "'d srvenv \<Rightarrow> keyring \<Rightarrow> call \<Rightarrow> string \<Rightarrow> string \<Rightarrow> bytes \<Rightarrow> 'd hub \<Rightarrow> 'd outcome" where
  "serve_create_tag env kr c repo name at_commit h =
     respond h (
       and_then (require kr c ''branch'') (\<lambda>p.
       and_then (find_repo env repo) (\<lambda>_.
       and_then (db_fails Internal (create_tag (hb_db h) (cl_id c) name (digest_of at_commit) p)) (\<lambda>db.
         Inr (h\<lparr>hb_db := db\<rparr>, RefInfo name (digest_of at_commit))))))"

definition serve_update :: "'d srvenv \<Rightarrow> keyring \<Rightarrow> call \<Rightarrow> string \<Rightarrow> string \<Rightarrow> string \<Rightarrow> 'd hub \<Rightarrow> 'd outcome" where
  "serve_update env kr c repo table branch h =
     respond h (
       and_then (require kr c ''merge'') (\<lambda>p.
       and_then (lookup_table env h repo table) (\<lambda>t.
       and_then (need_table t) (\<lambda>t.
       and_then (db_fails FailedPrecondition (store_update_from_parent (he_store (se_hub env)) t
           (se_uniques env (hb_live h) t) (cl_now c) branch p (hb_db h))) (\<lambda>(db, res).
         Inr (h\<lparr>hb_db := db\<rparr>, Merged (merge_reply_of (he_text (se_hub env)) (Some res))))))))"

definition serve_protect :: "'d srvenv \<Rightarrow> keyring \<Rightarrow> call \<Rightarrow> string \<Rightarrow> string \<Rightarrow> bool \<Rightarrow> 32 word \<Rightarrow> 'd hub \<Rightarrow> 'd outcome" where
  "serve_protect env kr c repo branch on n h =
     respond h (
       and_then (require kr c ''admin'') (\<lambda>_.
       and_then (find_repo env repo) (\<lambda>_. Inr (set_protection branch on (sint n) h, Done))))"

subsection \<open>Sessions\<close>

definition parse_uuid :: "'d srvenv \<Rightarrow> string \<Rightarrow> status + string" where
  "parse_uuid env s = some_or (Status InvalidArgument (BadSessionId s)) (se_uuid env s)"

definition serve_open_session :: "'d srvenv \<Rightarrow> keyring \<Rightarrow> call \<Rightarrow> string \<Rightarrow> string \<Rightarrow> 'd hub \<Rightarrow> 'd outcome" where
  "serve_open_session env kr c repo branch h =
     respond h (
       and_then (require kr c ''write'') (\<lambda>p.
       and_then (find_repo env repo) (\<lambda>_.
       and_then (db_fails FailedPrecondition (open_session_row (hb_db h) (cl_id c) branch p (sint (cl_now c)))) (\<lambda>db.
         Inr (h\<lparr>hb_db := db\<rparr>, SessionInfo (cl_id c) branch)))))"

definition serve_session_write :: "'d srvenv \<Rightarrow> keyring \<Rightarrow> call \<Rightarrow> string \<Rightarrow> string \<Rightarrow> string \<Rightarrow> wire_change list
    \<Rightarrow> 'd hub \<Rightarrow> 'd outcome" where
  "serve_session_write env kr c repo table sid changes h =
     respond h (
       and_then (require kr c ''write'') (\<lambda>_.
       and_then (lookup_table env h repo table) (\<lambda>t.
       and_then (parse_uuid env sid) (\<lambda>s.
       and_then (bad_wire (changes_from_wire changes)) (\<lambda>chs.
       and_then (need_table t) (\<lambda>t.
       and_then (db_fails FailedPrecondition
           (store_session_write (he_store (se_hub env)) t s (sint (cl_now c)) chs (hb_db h))) (\<lambda>db.
         Inr (h\<lparr>hb_db := db\<rparr>, Done))))))))"

definition serve_commit_session :: "'d srvenv \<Rightarrow> keyring \<Rightarrow> call \<Rightarrow> string \<Rightarrow> string \<Rightarrow> string \<Rightarrow> string \<Rightarrow> 'd hub
    \<Rightarrow> 'd outcome" where
  "serve_commit_session env kr c repo table sid message h =
     respond h (
       and_then (require kr c ''write'') (\<lambda>p.
       and_then (lookup_table env h repo table) (\<lambda>t.
       and_then (parse_uuid env sid) (\<lambda>s.
       and_then (need_table t) (\<lambda>t.
       and_then (db_fails FailedPrecondition (store_commit_session t s (cl_now c) p message (hb_db h))) (\<lambda>(db, d, n).
         Inr (h\<lparr>hb_db := db\<rparr>, Committed d (commit_seq db d) (count32 n))))))))"

definition serve_abandon_session :: "'d srvenv \<Rightarrow> keyring \<Rightarrow> call \<Rightarrow> string \<Rightarrow> string \<Rightarrow> string \<Rightarrow> 'd hub \<Rightarrow> 'd outcome" where
  "serve_abandon_session env kr c repo table sid h =
     respond h (
       and_then (require kr c ''write'') (\<lambda>_.
       and_then (lookup_table env h repo table) (\<lambda>t.
       and_then (parse_uuid env sid) (\<lambda>s.
       and_then (need_table t) (\<lambda>t. Inr (h\<lparr>hb_db := store_abandon_session t s (hb_db h)\<rparr>, Done))))))"

subsection \<open>Proposals\<close>

definition serve_create_proposal :: "'d srvenv \<Rightarrow> keyring \<Rightarrow> call \<Rightarrow> string \<Rightarrow> string \<Rightarrow> string \<Rightarrow> string \<Rightarrow> string
    \<Rightarrow> 'd hub \<Rightarrow> 'd outcome" where
  "serve_create_proposal env kr c repo src into title description h =
     respond h (
       and_then (require kr c ''write'') (\<lambda>p.
       and_then (find_repo env repo) (\<lambda>_.
       and_then (fails Internal (create_proposal src (branch_or into) title description p (cl_now c) h)) (\<lambda>(h', q).
         Inr (h', ProposalInfo q)))))"

definition review_capability :: "string \<Rightarrow> string" where
  "review_capability knd = (if knd = ''comment'' then ''read'' else ''approve'')"

definition serve_review :: "'d srvenv \<Rightarrow> keyring \<Rightarrow> call \<Rightarrow> string \<Rightarrow> i64 \<Rightarrow> string \<Rightarrow> string \<Rightarrow> 'd hub \<Rightarrow> 'd outcome" where
  "serve_review env kr c repo i knd body h =
     respond h (
       and_then (require kr c (review_capability knd)) (\<lambda>p.
       and_then (find_repo env repo) (\<lambda>_.
       and_then (fails PermissionDenied (add_review (sint i) knd body p (cl_now c) h)) (\<lambda>h'. Inr (h', Done)))))"

definition merge_code :: "hub_error \<Rightarrow> code" where
  "merge_code e = (case e of StoreError (MergeTooLarge _ _) \<Rightarrow> ResourceExhausted | _ \<Rightarrow> FailedPrecondition)"

definition serve_merge :: "'d srvenv \<Rightarrow> keyring \<Rightarrow> call \<Rightarrow> string \<Rightarrow> string \<Rightarrow> i64 \<Rightarrow> 'd hub \<Rightarrow> 'd outcome" where
  "serve_merge env kr c repo table i h =
     (case and_then (require kr c ''merge'') (\<lambda>p.
           and_then (lookup_table env h repo table) (\<lambda>t.
           and_then (need_table t) (\<lambda>t. Inr (p, t)))) of
        Inl e \<Rightarrow> (h, Inl e)
      | Inr (p, t) \<Rightarrow>
          (case merge_proposal (se_hub env) t (se_uniques env (hb_live h) t) (sint i) p (cl_now c) h of
             (h', Inl e) \<Rightarrow> (h', Inl (Status (merge_code e) (StoreFailed e)))
           | (h', Inr out) \<Rightarrow> (h', Inr (Merged (merge_reply_of (he_text (se_hub env)) (pm_result out))))))"

definition serve_list_conflicts :: "'d srvenv \<Rightarrow> keyring \<Rightarrow> call \<Rightarrow> string \<Rightarrow> string \<Rightarrow> i64 \<Rightarrow> 'd hub \<Rightarrow> 'd outcome" where
  "serve_list_conflicts env kr c repo table i h =
     answer h (
       and_then (require kr c ''read'') (\<lambda>_.
       and_then (lookup_table env h repo table) (\<lambda>t.
       and_then (need_table t) (\<lambda>t. Inr (Conflicts (list_conflicts t (sint i) h))))))"

definition serve_resolve :: "'d srvenv \<Rightarrow> keyring \<Rightarrow> call \<Rightarrow> i64 \<Rightarrow> string \<Rightarrow> string \<Rightarrow> 'd hub \<Rightarrow> 'd outcome" where
  "serve_resolve env kr c i res x h =
     respond h (
       and_then (require kr c ''write'') (\<lambda>p.
       and_then (fails InvalidArgument (resolve_conflict (sint i) res x p h)) (\<lambda>h'. Inr (h', Done))))"

subsection \<open>Administration\<close>

definition serve_purge :: "'d srvenv \<Rightarrow> keyring \<Rightarrow> call \<Rightarrow> string \<Rightarrow> string \<Rightarrow> pk \<Rightarrow> string \<Rightarrow> 'd hub \<Rightarrow> 'd outcome" where
  "serve_purge env kr c repo table k why h =
     respond h (
       and_then (require kr c ''purge'') (\<lambda>_.
       and_then (lookup_table env h repo table) (\<lambda>t.
       and_then (need_table t) (\<lambda>t.
       and_then (db_fails InvalidArgument (purge t k why (hb_db h))) (\<lambda>(db, rec).
         Inr (h\<lparr>hb_db := db\<rparr>, Purged (count32 (pu_removed rec)) (count32 (pu_marked rec))))))))"

definition serve_prune :: "'d srvenv \<Rightarrow> keyring \<Rightarrow> call \<Rightarrow> string \<Rightarrow> string \<Rightarrow> 32 word \<Rightarrow> 32 word \<Rightarrow> 'd hub \<Rightarrow> 'd outcome" where
  "serve_prune env kr c repo table days commits h =
     respond h (
       and_then (require kr c ''admin'') (\<lambda>_.
       and_then (lookup_table env h repo table) (\<lambda>t.
       and_then (need_table t) (\<lambda>t.
       and_then (db_fails Internal (prune t \<lparr>rt_keep_days = sint days, rt_keep_commits = sint commits\<rparr>
           (se_days_ago env (cl_now c) (sint days)) (List.map_filter pp_merge (hb_proposals h)) (hb_db h))) (\<lambda>(db, rep).
         Inr (h\<lparr>hb_db := db\<rparr>, Pruned (count32 (pr_removed rep)) (count32 (pr_protected rep))))))))"

definition serve_gc :: "'d srvenv \<Rightarrow> keyring \<Rightarrow> call \<Rightarrow> string \<Rightarrow> 'd hub \<Rightarrow> 'd outcome" where
  "serve_gc env kr c repo h =
     respond h (
       and_then (require kr c ''admin'') (\<lambda>_.
       and_then (find_repo env repo) (\<lambda>_.
         case gc (sint (cl_now c)) (hb_db h) of
           (db, rep) \<Rightarrow> Inr (h\<lparr>hb_db := db\<rparr>, Collected (count32 (gc_orphans rep)) (count32 (gc_sessions rep))))))"

text \<open>The checks of one table; a drift check that cannot read its branch ends the stream with an error.\<close>

definition table_findings :: "'d hub \<Rightarrow> bool \<Rightarrow> bool \<Rightarrow> store_table \<Rightarrow> finding list \<Rightarrow> status + finding list" where
  "table_findings h drift intervals t out =
     and_then (if drift
       then and_then (db_fails Internal (verify_drift (hb_db h) t)) (\<lambda>rep.
              Inr [\<lparr>fi_check = ''drift'', fi_table = st_physical t,
                    fi_ok = (dr_live_only rep + dr_version_only rep + dr_mismatched rep = 0)\<rparr>])
       else Inr []) (\<lambda>ds.
     let rep = verify_intervals (db_side (hb_db h) (st_id t)) in
       Inr (out @ ds @ (if intervals
         then [\<lparr>fi_check = ''intervals'', fi_table = st_physical t,
                fi_ok = (length (ir_overlaps rep) + length (ir_multiple rep) = 0)\<rparr>] else [])))"

definition serve_verify :: "'d srvenv \<Rightarrow> keyring \<Rightarrow> call \<Rightarrow> string \<Rightarrow> string \<Rightarrow> bool \<Rightarrow> bool \<Rightarrow> bool \<Rightarrow> 'd hub
    \<Rightarrow> 'd outcome" where
  "serve_verify env kr c repo branch drift integrity intervals h =
     answer h (
       and_then (require kr c ''read'') (\<lambda>_.
       and_then (find_repo env repo) (\<lambda>_.
       and_then (fold_steps (table_findings h drift intervals) (list_tables h)
           (if integrity then [\<lparr>fi_check = ''integrity'', fi_table = [],
              fi_ok = (verify_integrity (hb_db h) (branch_or branch) = Inr None)\<rparr>] else [])) (\<lambda>fs.
         Inr (Findings fs)))))"

subsection \<open>The service\<close>

fun serve :: "'d srvenv \<Rightarrow> keyring \<Rightarrow> call \<Rightarrow> request \<Rightarrow> 'd hub \<Rightarrow> 'd outcome" where
  "serve env kr c (TrackTable r t) = serve_track env kr c r t"
| "serve env kr c (UntrackTable r t) = serve_untrack env kr c r t"
| "serve env kr c (GetStatus r) = serve_status env kr c r"
| "serve env kr c (CommitRows r t b chs m x e) = serve_commit env kr c r t b chs m x e"
| "serve env kr c (GetLog r b n) = serve_log env kr c r b n"
| "serve env kr c (BlameKey r t b k cols) = serve_blame env kr c r t b k cols"
| "serve env kr c (RevertCommit r t b d m f) = serve_revert env kr c r t b d m f"
| "serve env kr c (ScanRows r t b f n k d s) = serve_scan env kr c r t b f n k d s"
| "serve env kr c (GetRow r t b k) = serve_get env kr c r t b k"
| "serve env kr c (CreateBranch r n f) = serve_create_branch env kr c r n f"
| "serve env kr c (DeleteBranch r n) = serve_delete_branch env kr c r n"
| "serve env kr c (ListRefs r) = serve_list_refs env kr c r"
| "serve env kr c (CreateTag r n d) = serve_create_tag env kr c r n d"
| "serve env kr c (UpdateFromParent r t b) = serve_update env kr c r t b"
| "serve env kr c (Protect r b on n) = serve_protect env kr c r b on n"
| "serve env kr c (DiffRows r t b lo hi) = serve_diff env kr c r t b lo hi"
| "serve env kr c (HistoryOf r t b k) = serve_history env kr c r t b k"
| "serve env kr c (OpenSession r b) = serve_open_session env kr c r b"
| "serve env kr c (SessionWrite r t s chs) = serve_session_write env kr c r t s chs"
| "serve env kr c (CommitSession r t s m) = serve_commit_session env kr c r t s m"
| "serve env kr c (AbandonSession r t s) = serve_abandon_session env kr c r t s"
| "serve env kr c (CreateProposal r f i t d) = serve_create_proposal env kr c r f i t d"
| "serve env kr c (ReviewProposal r i k b) = serve_review env kr c r i k b"
| "serve env kr c (MergeProposal r t i) = serve_merge env kr c r t i"
| "serve env kr c (ListConflicts r t i) = serve_list_conflicts env kr c r t i"
| "serve env kr c (ResolveConflict i res x) = serve_resolve env kr c i res x"
| "serve env kr c (PurgeKey r t k why) = serve_purge env kr c r t k why"
| "serve env kr c (PruneTable r t d n) = serve_prune env kr c r t d n"
| "serve env kr c (RunGC r) = serve_gc env kr c r"
| "serve env kr c (VerifyRepo r b d i v) = serve_verify env kr c r b d i v"

end
