(* ===== verification/ServerProps.thy ===== *)
theory ServerProps
  imports ServerHandlers HubDemo
begin

text \<open>
  What the service guarantees: values cross the wire without a change of their encoding; a request changes
  something only for an authenticated principal with the capability the request needs, and what it adds is
  attributed to that principal; branch protection is not looked at by a commit.
\<close>

subsection \<open>The wire\<close>

lemma sint_word_fits:
  fixes i :: int
  assumes "- (2 ^ (LENGTH('a :: len) - 1)) \<le> i" and "i < 2 ^ (LENGTH('a) - 1)"
  shows "sint (word_of_int i :: 'a word) = i"
  using assms by (simp add: signed_of_int signed_take_bit_int_eq_self)

lemma timestamp_roundtrip:
  assumes t: "timestamp_of us = (s, n)"
  shows "micros_of s n = us"
proof -
  have lim: "- (2 ^ 63) \<le> sint us" "sint us < 2 ^ 63"
    using sint_ge [of us] sint_lt [of us] by simp_all
  let ?q = "sint us div 1000000" and ?r = "sint us mod 1000000"
  have q: "- (2 ^ 63) \<le> ?q" "?q < 2 ^ 63" using lim by linarith+
  have r: "0 \<le> ?r" "?r < 1000000" by simp_all
  have "sint s = ?q" using t q sint_word_fits [of ?q, where 'a = 64] by (auto simp: timestamp_of_def)
  moreover have "sint n = ?r * 1000"
    using t r sint_word_fits [of "?r * 1000", where 'a = 32] by (auto simp: timestamp_of_def)
  moreover have "?r * 1000 div 1000000000 = 0" "?r * 1000 mod 1000000000 div 1000 = ?r" using r by simp_all
  moreover have "?q * 1000000 + ?r = sint us" by simp
  ultimately show ?thesis by (simp add: micros_of_def)
qed

text \<open>A value whose kind has a tag, a decimal one in its normal form.\<close>

definition wire_ok :: "val \<Rightarrow> bool" where
  "wire_ok v \<longleftrightarrow> (case val_kind v of
       KindOther _ \<Rightarrow> False | KindNumeric \<Rightarrow> normalize_decimal (val_text v) = Inr (val_text v) | _ \<Rightarrow> True)"

lemma value_crosses:
  assumes "wire_ok v"
  shows "\<exists>w. value_from_wire (value_to_wire v) = Inr w \<and> val_kind w = val_kind v \<and> (\<forall>dst. val_encode w dst = val_encode v dst)"
proof -
  have col: "float_is_nan (float_collapse f) = float_is_nan f" "float_collapse (float_collapse f) = float_collapse f" for f
    using float_zero_not_nan [of f] by (auto simp: float_collapse_def)
  obtain s n where t: "timestamp_of (val_int v) = (s, n)" by fastforce
  note micros = timestamp_roundtrip [OF t]
  show ?thesis
    using assms t micros
    by (cases "val_kind v")
      (auto simp: value_to_wire_def wire_ok_def val_encode_def null_val_def bool_val_def int_val_def float_val_def
        text_val_def bytes_val_def time_val_def numeric_val_def zero_val_def left_map_def col Let_def)
qed

lemma cells_cross:
  assumes "\<And>c. c \<in> set ks \<Longrightarrow> fmlookup m c = Some (x c) \<and> value_from_wire (x c) = Inr (f c)"
  shows "\<exists>out'. fold_steps (cell_from_wire m) ks out = Inr out' \<and>
    (\<forall>c. fmlookup out' c = (if c \<in> set ks then Some (f c) else fmlookup out c))"
  using assms
proof (induction ks arbitrary: out)
  case (Cons k ks)
  have "cell_from_wire m k out = Inr (fmupd k (f k) out)"
    using Cons.prems [of k] by (simp add: cell_from_wire_def left_map_def)
  moreover obtain out' where "fold_steps (cell_from_wire m) ks (fmupd k (f k) out) = Inr out'"
    "\<forall>c. fmlookup out' c = (if c \<in> set ks then Some (f c) else fmlookup (fmupd k (f k) out) c)"
    using Cons.IH [of "fmupd k (f k) out"] Cons.prems by fastforce
  ultimately show ?case by auto
qed simp

lemma row_get_cols: "c \<notin> set (row_cols r) \<Longrightarrow> row_get r c = null_val"
  by (auto simp: row_cols_def row_get_def fmlookup_dom'_iff split: option.splits)

lemma encode_cols_cong:
  "(\<And>c dst. val_encode (row_get r c) dst = val_encode (row_get s c) dst) \<Longrightarrow> row_encode_cols r dst cols = row_encode_cols s dst cols"
  by (induction cols arbitrary: dst) (simp_all split: sum.split)

lemma pk_encoding_cong:
  "(\<And>c dst. val_encode (row_get r c) dst = val_encode (row_get s c) dst) \<Longrightarrow> make_pk_cols r dst cols = make_pk_cols s dst cols"
  by (induction cols arbitrary: dst) (simp_all add: val_must_encode_def split: sum.split)

text \<open>
  C23: A row keeps its meaning across the wire. Sent to a client and back, a row of values with a kind tag, its
  decimals in normal form, is accepted and has the same columns, the same kinds, the same key and, for every
  list of columns, the same canonical encoding, so the same contribution to a commit's id. Its times are
  split into seconds and nanoseconds and put together again over the whole range of an int64.
\<close>

theorem wire_row_keeps_encoding:
  assumes "\<forall>c \<in> set (row_cols r). wire_ok (row_get r c)"
  shows "\<exists>r'. row_from_wire (Some (row_to_wire r)) = Inr r' \<and> row_cols r' = row_cols r
    \<and> (\<forall>c. val_kind (row_get r' c) = val_kind (row_get r c))
    \<and> (\<forall>cols dst. row_encode r' dst cols = row_encode r dst cols) \<and> (\<forall>cols. make_pk r' cols = make_pk r cols)"
proof -
  have "\<forall>c \<in> set (row_cols r). \<exists>w. value_from_wire (value_to_wire (row_get r c)) = Inr w \<and>
      val_kind w = val_kind (row_get r c) \<and> (\<forall>dst. val_encode w dst = val_encode (row_get r c) dst)"
    using assms value_crosses by blast
  then obtain f where f: "\<And>c. c \<in> set (row_cols r) \<Longrightarrow> value_from_wire (value_to_wire (row_get r c)) = Inr (f c)"
    "\<And>c. c \<in> set (row_cols r) \<Longrightarrow> val_kind (f c) = val_kind (row_get r c)"
    "\<And>c dst. c \<in> set (row_cols r) \<Longrightarrow> val_encode (f c) dst = val_encode (row_get r c) dst" by metis
  have dom: "fmdom' (row_to_wire r) = set (row_cols r)"
    by (auto simp: row_to_wire_def fmlookup_dom'_iff split: if_splits)
  then have keys: "fm_keys (row_to_wire r) = row_cols r"
    by (cases r) (simp_all add: fm_keys_def row_cols_def fmdom'_alt_def)
  have "fmlookup (row_to_wire r) c = Some (value_to_wire (row_get r c))" if "c \<in> set (row_cols r)" for c
    using that by (simp add: row_to_wire_def)
  then obtain out where out: "fold_steps (cell_from_wire (row_to_wire r)) (row_cols r) fmempty = Inr out"
    "\<And>c. fmlookup out c = (if c \<in> set (row_cols r) then Some (f c) else None)"
    using cells_cross [of "row_cols r" "row_to_wire r" "\<lambda>c. value_to_wire (row_get r c)" f fmempty] f(1) by auto
  have get: "row_get (Some out) c = (if c \<in> set (row_cols r) then f c else null_val)" for c
    by (simp add: row_get_def out(2))
  have enc: "val_encode (row_get (Some out) c) dst = val_encode (row_get r c) dst" for c dst
    using f(3) row_get_cols [of c r] by (simp add: get)
  have "fmdom' out = set (row_cols r)" by (auto simp: fmlookup_dom'_iff out(2) split: if_splits)
  then have "row_cols (Some out) = row_cols r"
    by (cases r) (simp_all add: row_cols_def fm_keys_def)
  moreover have "row_from_wire (Some (row_to_wire r)) = Inr (Some out)"
    by (simp add: row_from_wire_def keys out(1))
  moreover have "val_kind (row_get (Some out) c) = val_kind (row_get r c)" for c
    using f(2) row_get_cols [of c r] by (simp add: get)
  ultimately show ?thesis
    using encode_cols_cong [OF enc] pk_encoding_cong [OF enc] by (auto simp: row_encode_def make_pk_def)
qed

theorem wire_row_keeps_encoding_witness:
  "\<exists>r'. row_from_wire (Some (row_to_wire (two_row 7 (- 1)))) = Inr r' \<and> row_cols r' = [1, 2]
     \<and> row_encode r' [] [1, 2] = row_encode (two_row 7 (- 1)) [] [1, 2]"
proof -
  have "row_cols (two_row 7 (- 1)) = [1, 2]" by code_simp
  moreover have "\<forall>c \<in> set (row_cols (two_row 7 (- 1))). wire_ok (row_get (two_row 7 (- 1)) c)" by code_simp
  ultimately show ?thesis using wire_row_keeps_encoding [of "two_row 7 (- 1)"] by auto
qed

subsection \<open>Whose work the records are\<close>

text \<open>
  Every commit of the later state is an earlier one, by its author and newly marked purged only by a purge,
  or is a new one of the principal.
\<close>

definition log_from :: "bool \<Rightarrow> string \<Rightarrow> dbase \<Rightarrow> dbase \<Rightarrow> bool" where
  "log_from purging p db db' \<longleftrightarrow> (\<forall>w' \<in> set (db_commits db').
     (\<exists>w \<in> set (db_commits db). cw_id w = cw_id w' \<and> cw_author w = cw_author w' \<and> (cw_purged w' \<longrightarrow> cw_purged w \<or> purging))
     \<or> cw_author w' = p \<and> \<not> cw_purged w')"

lemma log_from_same: "db_commits db' = db_commits db \<Longrightarrow> log_from b p db db'"
  by (auto simp: log_from_def)

lemma log_from_append:
  "db_commits db' = db_commits db @ [w] \<Longrightarrow> cw_author w = p \<Longrightarrow> \<not> cw_purged w \<Longrightarrow> log_from b p db db'"
  by (auto simp: log_from_def)

lemma log_from_frame: "log_from b p db db1 \<Longrightarrow> db_commits db2 = db_commits db1 \<Longrightarrow> log_from b p db db2"
  by (simp add: log_from_def)

lemma store_commit_log:
  assumes "store_commit env t now rq db = Inr (db', d, n)"
  shows "log_from b (rq_author rq) db db'"
proof -
  obtain w where "db_commits db' = db_commits db @ [w]" "cw_author w = rq_author rq" "\<not> cw_purged w"
    using assms by (auto simp: store_commit_def result_simps Let_def insert_commit_def advance_ref_def update_ref_def
        commit_record_def)
  then show ?thesis by (rule log_from_append)
qed

lemma commit_session_log:
  assumes "store_commit_session t sid now author message db = Inr (db', d, n)"
  shows "log_from b author db db'"
proof -
  obtain w where "db_commits db' = db_commits db @ [w]" "cw_author w = author" "\<not> cw_purged w"
    using assms by (auto simp: store_commit_session_def result_simps Let_def insert_commit_def advance_ref_def
        update_ref_def update_session_def commit_record_def)
  then show ?thesis by (rule log_from_append)
qed

lemma store_merge_log:
  assumes "store_merge env t us now src into author m app db = Inr (db', res)"
  shows "log_from b author db db'"
  using assms log_from_same [of db db b author]
  by (auto simp: store_merge_def result_simps split: if_splits dest: store_commit_log [where b = b])

lemma update_parent_log:
  assumes "store_update_from_parent env t us now name author db = Inr (db', res)"
  shows "log_from b author db db'"
proof -
  obtain par db1 m where m: "store_merge env t us now par name author m True db = Inr (db1, res)"
    and "db' = db1 \<or> rebase_chain par db1 name = Inr db'"
    using assms by (auto simp: store_update_from_parent_def result_simps Let_def split: if_splits)
  then have "db_commits db' = db_commits db1"
    by (auto simp: rebase_chain_def result_simps update_ref_def)
  with store_merge_log [OF m] show ?thesis by (rule log_from_frame)
qed

lemma store_revert_log:
  assumes "store_revert env t now name d author m x force db = Inr (db', d', n)"
  shows "log_from b author db db'"
  using assms by (auto simp: store_revert_def result_simps Let_def dest: store_commit_log [where b = b])

text \<open>The operations that write no commit.\<close>

lemma same_commits:
  "create_ref db i name src who = Inr db' \<Longrightarrow> db_commits db' = db_commits db"
  "create_tag db i name d who = Inr db' \<Longrightarrow> db_commits db' = db_commits db"
  "delete_branch db name = Inr db' \<Longrightarrow> db_commits db' = db_commits db"
  "open_session_row db sid name who n = Inr db' \<Longrightarrow> db_commits db' = db_commits db"
  "store_session_write env t sid n chs db = Inr db' \<Longrightarrow> db_commits db' = db_commits db"
  "db_commits (store_abandon_session t sid db) = db_commits db"
  "track t rows db = Inr db' \<Longrightarrow> db_commits db' = db_commits db"
  "db_commits (untrack t db) = db_commits db"
  "prune t pol before ms db = Inr (db', rep) \<Longrightarrow> db_commits db' = db_commits db"
  by (auto simp: create_ref_def create_tag_def delete_branch_def open_session_row_def store_session_write_def
      store_abandon_session_def track_def untrack_def prune_def insert_ref_def update_session_def result_simps Let_def
      split: if_splits prod.splits)

lemma purge_log:
  assumes "purge t k why db = Inr (db', rec)"
  shows "log_from True p db db'"
proof -
  define A where "A = set (remdups (map v_commit (filter (\<lambda>v. v_pk v = k) (db_side db (st_id t)))))"
  define f where "f = (\<lambda>w :: commit_rec. if cw_id w \<in> A then w\<lparr>cw_purged := True\<rparr> else w)"
  have c: "db_commits db' = map f (db_commits db)"
    using assms by (auto simp: purge_def result_simps Let_def A_def f_def)
  have f: "cw_id (f w) = cw_id w \<and> cw_author (f w) = cw_author w" for w by (simp add: f_def)
  show ?thesis unfolding log_from_def c set_map using f by fastforce
qed

definition signed_by :: "bool \<Rightarrow> string \<Rightarrow> 'd hub \<Rightarrow> 'd hub \<Rightarrow> bool" where
  "signed_by purging p h h' \<longleftrightarrow> log_from purging p (hb_db h) (hb_db h')
     \<and> (\<forall>q' \<in> set (hb_proposals h'). (\<exists>q \<in> set (hb_proposals h). pp_id q = pp_id q' \<and> pp_by q = pp_by q') \<or> pp_by q' = p)
     \<and> (\<forall>v \<in> set (hb_reviews h'). v \<in> set (hb_reviews h) \<or> rv_principal v = p)
     \<and> (\<forall>c' \<in> set (hb_conflicts h'). (\<exists>c \<in> set (hb_conflicts h). cn_id c = cn_id c' \<and> cn_resolution c = cn_resolution c')
          \<or> cn_resolution c' = None \<or> (\<exists>res x. cn_resolution c' = Some (res, x, p)))"

lemma signed_by_same:
  "log_from b p (hb_db h) (hb_db h') \<Longrightarrow> hb_proposals h' = hb_proposals h \<Longrightarrow> hb_reviews h' = hb_reviews h
     \<Longrightarrow> hb_conflicts h' = hb_conflicts h \<Longrightarrow> signed_by b p h h'"
  by (auto simp: signed_by_def)

lemma signed_by_db: "log_from b p (hb_db h) db \<Longrightarrow> signed_by b p h (h\<lparr>hb_db := db\<rparr>)"
  by (rule signed_by_same) simp_all

lemma signed_by_mono: "signed_by b p h h' \<Longrightarrow> (b \<Longrightarrow> b') \<Longrightarrow> signed_by b' p h h'"
  by (auto simp: signed_by_def log_from_def)

lemma merge_proposal_signed:
  assumes "merge_proposal env t us i who now h = (h', r)"
  shows "signed_by b who h h'"
proof (cases "start_merge env t i who h")
  case (Inl e)
  with assms show ?thesis by (auto simp: merge_proposal_def intro!: signed_by_same log_from_same)
next
  case (Inr x)
  then obtain p src into h1 sm where st: "start_merge env t i who h = Inr (p, src, into, h1, sm)" by (cases x) auto
  then have k: "hb_db h1 = hb_db h" "hb_proposals h1 = hb_proposals h" "hb_reviews h1 = hb_reviews h"
    "hb_conflicts h1 = hb_conflicts h"
    using start_merge_Inr hub_merge_schema_keeps by blast+
  have set: "signed_by b who h (set_proposal_state i s c g)" if "signed_by b who h g" for s c g
    using that by (auto simp: signed_by_def set_proposal_state_def)
  have save: "signed_by b who h (save_conflicts lib i t cs (clear_conflicts i g))" if "signed_by b who h g" for lib cs g
    using that unfolding signed_by_def save_conflicts_rows by (auto simp: clear_conflicts_def conflict_row_of_def)
  have h1: "signed_by b who h h1" by (rule signed_by_same) (simp_all add: k log_from_same)
  have db: "signed_by b who h (h1\<lparr>hb_db := db\<rparr>)" if "store_merge en t us now src into who m True (hb_db h1) = Inr (db, res)"
    for en m db res
    by (rule signed_by_same) (use store_merge_log [OF that, of b] in \<open>simp_all add: k\<close>)
  show ?thesis
    using assms st h1 set [OF h1] set [OF db] set [OF save [OF db]]
    by (auto simp: merge_proposal_def finish_merge_def Let_def split: if_splits sum.splits)
qed

lemma gc_commits: "db_commits (fst (gc now db)) = db_commits db"
proof -
  let ?same = "\<lambda>d. db_commits d = db_commits db"
  have reap: "?same (reap_session sid d)" if "?same d" for sid d
    unfolding reap_session_def update_session_def using that
    by (auto intro: foldl_inv [where P = ?same])
  define d where "d = fst (reap_expired now db)"
  have "?same d"
    unfolding d_def reap_expired_def Let_def fst_conv by (rule foldl_inv [where P = ?same]) (auto intro: reap)
  then have "?same (fst (foldl (gc_table (live_refs d)) (d, 0) (db_tables d)))"
    by (intro foldl_inv [where P = "\<lambda>st :: dbase \<times> nat. ?same (fst st)"]) (auto simp: gc_table_def Let_def)
  then show ?thesis by (simp add: gc_def Let_def case_prod_beta d_def)
qed

subsection \<open>The handlers\<close>

lemma require_Inr: "require kr c cap = Inr p \<longleftrightarrow> auth_principal kr c = Inr p \<and> auth_can kr p cap"
  by (auto simp: require_def result_simps)

lemma respond_change: "respond h m = (h', r) \<Longrightarrow> h' \<noteq> h \<Longrightarrow> \<exists>x. m = Inr (h', x)"
  by (auto simp: respond_def split: sum.splits)

lemmas failing = fails_def db_fails_def commit_fails_def bad_wire_def

text \<open>The handler changed the state for a principal with a capability, who signs what is new.\<close>

definition acted :: "bool \<Rightarrow> keyring \<Rightarrow> call \<Rightarrow> string \<Rightarrow> 'd hub \<Rightarrow> 'd hub \<Rightarrow> bool" where
  "acted purging kr c cap h h' \<longleftrightarrow> (\<exists>p. require kr c cap = Inr p \<and> signed_by purging p h h')"

lemma acted_db:
  assumes "respond h (and_then (require kr c cap) f) = (h', r)" and "h' \<noteq> h"
    and "\<And>p x. f p = Inr (h', x) \<Longrightarrow> signed_by b p h h'"
  shows "acted b kr c cap h h'"
  using respond_change [OF assms(1,2)] assms(3) by (auto simp: acted_def and_then_Inr)

lemma serve_repository:
  "serve_track env kr c repo table h = (h', r) \<Longrightarrow> h' \<noteq> h \<Longrightarrow> acted False kr c ''admin'' h h'"
  "serve_untrack env kr c repo table h = (h', r) \<Longrightarrow> h' \<noteq> h \<Longrightarrow> acted False kr c ''admin'' h h'"
  unfolding serve_track_def serve_untrack_def
  by (erule (1) acted_db; auto simp: failing result_simps hub_track_def hub_untrack_def
      intro!: signed_by_same log_from_same dest: same_commits(7) simp: same_commits(8))+

lemma serve_version:
  "serve_commit env kr c repo table branch chs m x e h = (h', r) \<Longrightarrow> h' \<noteq> h \<Longrightarrow> acted False kr c ''write'' h h'"
  "serve_revert env kr c repo table branch d m f h = (h', r) \<Longrightarrow> h' \<noteq> h \<Longrightarrow> acted False kr c ''write'' h h'"
  unfolding serve_commit_def serve_revert_def Let_def
  by (erule (1) acted_db;
      auto simp: failing result_simps intro!: signed_by_db dest: store_commit_log [where b = False] store_revert_log [where b = False])+

lemma serve_branching:
  "serve_create_branch env kr c repo name src h = (h', r) \<Longrightarrow> h' \<noteq> h \<Longrightarrow> acted False kr c ''branch'' h h'"
  "serve_delete_branch env kr c repo name h = (h', r) \<Longrightarrow> h' \<noteq> h \<Longrightarrow> acted False kr c ''branch'' h h'"
  "serve_create_tag env kr c repo name d h = (h', r) \<Longrightarrow> h' \<noteq> h \<Longrightarrow> acted False kr c ''branch'' h h'"
  "serve_protect env kr c repo branch on n h = (h', r) \<Longrightarrow> h' \<noteq> h \<Longrightarrow> acted False kr c ''admin'' h h'"
  unfolding serve_create_branch_def serve_delete_branch_def serve_create_tag_def serve_protect_def
  by (erule (1) acted_db;
      auto simp: failing result_simps hub_delete_branch_def set_protection_def intro!: signed_by_db log_from_same
      dest: same_commits(1,2,3))+

lemma serve_parent:
  "serve_update env kr c repo table branch h = (h', r) \<Longrightarrow> h' \<noteq> h \<Longrightarrow> acted False kr c ''merge'' h h'"
  unfolding serve_update_def
  by (erule (1) acted_db; auto simp: failing result_simps intro!: signed_by_db dest: update_parent_log [where b = False])

lemma serve_sessions:
  "serve_open_session env kr c repo branch h = (h', r) \<Longrightarrow> h' \<noteq> h \<Longrightarrow> acted False kr c ''write'' h h'"
  "serve_session_write env kr c repo table sid chs h = (h', r) \<Longrightarrow> h' \<noteq> h \<Longrightarrow> acted False kr c ''write'' h h'"
  "serve_commit_session env kr c repo table sid m h = (h', r) \<Longrightarrow> h' \<noteq> h \<Longrightarrow> acted False kr c ''write'' h h'"
  "serve_abandon_session env kr c repo table sid h = (h', r) \<Longrightarrow> h' \<noteq> h \<Longrightarrow> acted False kr c ''write'' h h'"
  unfolding serve_open_session_def serve_session_write_def serve_commit_session_def serve_abandon_session_def
  by (erule (1) acted_db;
      auto simp: failing result_simps same_commits(6) intro!: signed_by_db
      dest: commit_session_log [where b = False] intro: log_from_same [OF same_commits(4)] log_from_same [OF same_commits(5)]
        log_from_same [OF same_commits(6)])+

lemma serve_admin:
  "serve_prune env kr c repo table d n h = (h', r) \<Longrightarrow> h' \<noteq> h \<Longrightarrow> acted False kr c ''admin'' h h'"
  "serve_gc env kr c repo h = (h', r) \<Longrightarrow> h' \<noteq> h \<Longrightarrow> acted False kr c ''admin'' h h'"
  "serve_purge env kr c repo table k why h = (h', r) \<Longrightarrow> h' \<noteq> h \<Longrightarrow> acted True kr c ''purge'' h h'"
  unfolding serve_prune_def serve_gc_def serve_purge_def case_prod_beta
  by (erule (1) acted_db;
      auto simp: failing result_simps intro!: signed_by_db intro: purge_log log_from_same [OF gc_commits]
        log_from_same [OF same_commits(9)])+

lemma serve_proposals:
  "serve_create_proposal env kr c repo src into ti de h = (h', r) \<Longrightarrow> h' \<noteq> h \<Longrightarrow> acted False kr c ''write'' h h'"
  "serve_review env kr c repo i knd body h = (h', r) \<Longrightarrow> h' \<noteq> h \<Longrightarrow> acted False kr c (review_capability knd) h h'"
  "serve_resolve env kr c i res x h = (h', r) \<Longrightarrow> h' \<noteq> h \<Longrightarrow> acted False kr c ''write'' h h'"
  unfolding serve_create_proposal_def serve_review_def serve_resolve_def
  by (erule (1) acted_db;
      auto simp: failing result_simps create_proposal_def add_review_def resolve_conflict_def signed_by_def Let_def
        log_from_same split: option.splits)+

lemma serve_merging:
  assumes "serve_merge env kr c repo table i h = (h', r)" and "h' \<noteq> h"
  shows "acted False kr c ''merge'' h h'"
  using assms merge_proposal_signed [where b = False]
  by (fastforce simp: serve_merge_def acted_def and_then_Inr split: sum.splits prod.splits)

definition comment_added :: "string \<Rightarrow> 'd hub \<Rightarrow> 'd hub \<Rightarrow> bool" where
  "comment_added p h h' \<longleftrightarrow>
     (\<exists>v. h' = h\<lparr>hb_reviews := hb_reviews h @ [v], hb_serial := next_serial ReviewSerial h\<rparr>
        \<and> rv_kind v = ''comment'' \<and> rv_principal v = p)"

lemma review_comment:
  assumes "serve_review env kr c repo i knd body h = (h', r)" and "h' \<noteq> h" and "review_capability knd = ''read''"
  shows "\<exists>p. auth_principal kr c = Inr p \<and> comment_added p h h'"
proof -
  from assms(3) have k: "knd = ''comment''" by (simp add: review_capability_def split: if_splits)
  from respond_change [OF assms(1) [unfolded serve_review_def] assms(2)] obtain p where
    "require kr c (review_capability knd) = Inr p" "add_review (sint i) knd body p (cl_now c) h = Inr h'"
    by (auto simp: failing result_simps)
  with k show ?thesis by (auto simp: add_review_def result_simps require_Inr comment_added_def)
qed

fun needed :: "request \<Rightarrow> string" where
  "needed (TrackTable _ _) = ''admin''"
| "needed (UntrackTable _ _) = ''admin''"
| "needed (CommitRows _ _ _ _ _ _ _) = ''write''"
| "needed (RevertCommit _ _ _ _ _ _) = ''write''"
| "needed (CreateBranch _ _ _) = ''branch''"
| "needed (DeleteBranch _ _) = ''branch''"
| "needed (CreateTag _ _ _) = ''branch''"
| "needed (UpdateFromParent _ _ _) = ''merge''"
| "needed (Protect _ _ _ _) = ''admin''"
| "needed (OpenSession _ _) = ''write''"
| "needed (SessionWrite _ _ _ _) = ''write''"
| "needed (CommitSession _ _ _ _) = ''write''"
| "needed (AbandonSession _ _ _) = ''write''"
| "needed (CreateProposal _ _ _ _ _) = ''write''"
| "needed (ReviewProposal _ _ knd _) = review_capability knd"
| "needed (MergeProposal _ _ _) = ''merge''"
| "needed (ResolveConflict _ _ _) = ''write''"
| "needed (PurgeKey _ _ _ _) = ''purge''"
| "needed (PruneTable _ _ _ _) = ''admin''"
| "needed (RunGC _) = ''admin''"
| "needed _ = ''read''"

lemma can_purge: "auth_can kr p ''purge'' \<longleftrightarrow> ''purge'' \<in> set (caps_of kr p)"
  by (simp add: auth_can_def Let_def)

lemma review_not_purge [simp]: "review_capability knd \<noteq> ''purge''"
  by (simp add: review_capability_def)

lemma serve_acted:
  assumes "serve env kr c req h = (h', r)" and "h' \<noteq> h"
  shows "acted (needed req = ''purge'') kr c (needed req) h h'"
  using assms serve_repository serve_version serve_branching serve_parent serve_sessions serve_admin serve_proposals
    serve_merging
  by (cases req) (simp_all add: serve_status_def serve_log_def serve_blame_def serve_scan_def serve_get_def serve_list_refs_def
      serve_diff_def serve_history_def serve_list_conflicts_def serve_verify_def answer_def)

lemma reader_comments:
  assumes "serve env kr c req h = (h', r)" and "h' \<noteq> h" and "needed req = ''read''"
  shows "\<exists>p. auth_principal kr c = Inr p \<and> comment_added p h h'"
  using assms review_comment
  by (cases req) (simp_all add: serve_status_def serve_log_def serve_blame_def serve_scan_def serve_get_def serve_list_refs_def
      serve_diff_def serve_history_def serve_list_conflicts_def serve_verify_def answer_def)

text \<open>
  C21: The service acts for its authenticated callers only. Whatever a request changes, its credential is the
  key of a principal that holds the capability the request needs; every commit it adds has that principal as
  its author, every proposal as its creator, every review as its reviewer and every resolution of a conflict as
  its resolver, none of them named by the request; commits are newly marked purged only for a principal granted
  the purge capability itself, which administration does not imply; and a request that needs no more than
  reading adds at most a comment.
\<close>

theorem requests_act_for_principal:
  assumes "serve env kr c req h = (h', r)" and "h' \<noteq> h"
  shows "\<exists>p. auth_principal kr c = Inr p \<and> auth_can kr p (needed req)
    \<and> signed_by (''purge'' \<in> set (caps_of kr p)) p h h'
    \<and> (needed req = ''read'' \<longrightarrow> comment_added p h h')"
proof -
  obtain p where p: "auth_principal kr c = Inr p" "auth_can kr p (needed req)"
    "signed_by (needed req = ''purge'') p h h'"
    using serve_acted [OF assms] by (auto simp: acted_def require_Inr)
  have "signed_by (''purge'' \<in> set (caps_of kr p)) p h h'"
    by (rule signed_by_mono [OF p(3)]) (use p(2) can_purge in simp)
  with p show ?thesis using reader_comments [OF assms] by auto
qed

text \<open>A reader comments on the proposal of the run above.\<close>

definition demo_srv :: "string list srvenv" where
  "demo_srv =
     \<lparr>se_hub = two_env, se_repo = ''repo'', se_where = (\<lambda>_ _. True), se_page = (\<lambda>_ _ _. whole),
      se_import = (\<lambda>_ _. None), se_uniques = (\<lambda>_ _. []), se_uuid = Some, se_days_ago = (\<lambda>now _. now), se_text = (\<lambda>_. [])\<rparr>"

definition demo_keys :: keyring where
  "demo_keys = add_key ''k'' ''r'' [''read''] new_keyring"

definition demo_call :: call where
  "demo_call = \<lparr>cl_authorization = [''Bearer k''], cl_now = 3, cl_id = []\<rparr>"

lemma demo_principal: "auth_principal demo_keys demo_call = Inr ''r''"
proof -
  have "token_of ''Bearer k'' = ''k''" by code_simp
  then show ?thesis
    by (simp add: auth_principal_def demo_keys_def demo_call_def add_key_def add_hashed_key_def)
qed

lemma demo_reader: "auth_can demo_keys ''r'' ''read''"
  by (simp add: auth_can_def caps_of_def demo_keys_def add_key_def add_hashed_key_def new_keyring_def)

theorem requests_act_for_principal_witness:
  "\<exists>h' r. serve demo_srv demo_keys demo_call (ReviewProposal ''repo'' 1 ''comment'' []) one_proposed = (h', r) \<and>
     h' \<noteq> one_proposed \<and> comment_added ''r'' one_proposed h'"
proof -
  have req: "require demo_keys demo_call ''read'' = Inr ''r''"
    using demo_principal demo_reader by (simp add: require_Inr)
  have add: "add_review 1 ''comment'' [] ''r'' 3 one_proposed = Inr one_reviewed"
    by (simp add: add_review_def review_kinds_def find_proposal_def one_proposed_def one_hub_def new_hub_def one_reviewed_def
        next_serial_def two_proposal_def and_then_def guard_def)
  have s: "serve demo_srv demo_keys demo_call (ReviewProposal ''repo'' 1 ''comment'' []) one_proposed = (one_reviewed, Inr Done)"
    using req add by (simp add: serve_review_def review_capability_def find_repo_def demo_srv_def demo_call_def respond_def failing
        left_map_def)
  have ne: "one_reviewed \<noteq> one_proposed"
  proof
    assume "one_reviewed = one_proposed"
    then have "length (hb_reviews one_reviewed) = length (hb_reviews one_proposed)" by simp
    then show False by (simp add: one_reviewed_def one_proposed_def one_hub_def new_hub_def)
  qed
  from requests_act_for_principal [OF s ne] have "comment_added ''r'' one_proposed one_reviewed"
    using demo_principal by (auto simp: review_capability_def)
  with s ne show ?thesis by blast
qed

subsection \<open>Protection and commits\<close>

definition protect :: "string \<Rightarrow> bool \<Rightarrow> int \<Rightarrow> ref \<Rightarrow> ref" where
  "protect name on n r =
     (if rf_kind r = BranchRef \<and> rf_name r = name then r\<lparr>rf_protected := on, rf_min_approvals := n\<rparr> else r)"

definition protect_db :: "string \<Rightarrow> bool \<Rightarrow> int \<Rightarrow> dbase \<Rightarrow> dbase" where
  "protect_db name on n db = db\<lparr>db_refs := map (protect name on n) (db_refs db)\<rparr>"

lemma set_protection_db: "set_protection name on n h = h\<lparr>hb_db := protect_db name on n (hb_db h)\<rparr>"
  unfolding set_protection_def protect_db_def protect_def ..

lemma protect_fields [simp]:
  "rf_id (protect name on n r) = rf_id r" "rf_kind (protect name on n r) = rf_kind r"
  "rf_name (protect name on n r) = rf_name r" "rf_head (protect name on n r) = rf_head r"
  "rf_seq (protect name on n r) = rf_seq r" "rf_chain (protect name on n r) = rf_chain r"
  by (simp_all add: protect_def)

lemma protect_db_fields [simp]:
  "db_side (protect_db name on n db) = db_side db" "db_live (protect_db name on n db) = db_live db"
  "db_commits (protect_db name on n db) = db_commits db" "db_repo (protect_db name on n db) = db_repo db"
  "db_default (protect_db name on n db) = db_default db" "db_tables (protect_db name on n db) = db_tables db"
  by (simp_all add: protect_db_def)

lemma find_branch_protect: "find_branch (protect_db name on n db) b = map_option (protect name on n) (find_branch db b)"
proof -
  have "find (\<lambda>r. rf_kind r = BranchRef \<and> rf_name r = b) (map (protect name on n) rs) =
      map_option (protect name on n) (find (\<lambda>r. rf_kind r = BranchRef \<and> rf_name r = b) rs)" for rs
    by (induction rs) simp_all
  then show ?thesis by (simp add: find_branch_def protect_db_def)
qed

lemma ref_row_protect: "ref_row (protect_db name on n db) b = ref_row db b"
  by (simp add: ref_row_def find_branch_protect some_or_def split: option.split)

lemma advance_protect: "advance_ref i c sq chain (protect_db name on n db) = protect_db name on n (advance_ref i c sq chain db)"
  by (simp add: advance_ref_def update_ref_def protect_db_def protect_def)

lemma insert_commit_protect:
  "insert_commit w (protect_db name on n db) = map_sum id (protect_db name on n) (insert_commit w db)"
  by (simp add: insert_commit_def protect_db_def guard_def)

lemma map_and_then: "map_sum id F (and_then m f) = and_then m (\<lambda>x. map_sum id F (f x))"
  by (cases m) simp_all

lemma and_then_map: "and_then (map_sum id F m) f = and_then m (\<lambda>x. f (F x))"
  by (cases m) simp_all

lemma protect_side:
  "(protect_db name on n db)\<lparr>db_side := s, db_live := l\<rparr> = protect_db name on n (db\<lparr>db_side := s, db_live := l\<rparr>)"
  by (simp add: protect_db_def)

lemma store_commit_protect:
  "store_commit env t now rq (protect_db name on n db) = map_sum id (map_prod (protect_db name on n) id) (store_commit env t now rq db)"
  unfolding store_commit_def Let_def case_prod_beta
  by (simp add: ref_row_protect map_and_then protect_side insert_commit_protect and_then_map advance_protect)

lemma map_left_map: "map_sum id F (left_map g m) = left_map g (map_sum id F m)"
  by (cases m) (simp_all add: left_map_def)

lemma respond_map: "respond (F h) (map_sum id (map_prod F id) m) = map_prod F id (respond h m)"
  by (cases m) (auto simp: respond_def)

lemma lookup_protect: "lookup_table env (set_protection name on n h) repo table = lookup_table env h repo table"
  by (simp add: lookup_table_def load_table_def set_protection_db)

lemma and_then_cong2: "(\<And>x. f x = g x) \<Longrightarrow> and_then m f = and_then m g"
  by (cases m) simp_all

text \<open>
  C40: Branch protection is a rule about proposals only. A commit request is answered, and changes the data, in
  exactly the same way whatever protection an administrator has set: a principal that may write can commit to
  a protected branch directly, with no review at all.
\<close>

theorem commit_ignores_protection:
  "serve env kr c (CommitRows repo table branch changes message ext expected) (set_protection name on n h) =
     map_prod (set_protection name on n) id (serve env kr c (CommitRows repo table branch changes message ext expected) h)"
proof -
  let ?F = "set_protection name on n"
  have seq: "commit_seq (protect_db name on n db) d = commit_seq db d" for db d
    by (simp add: commit_seq_def find_commit_def)
  have commit: "commit_fails env (store_commit en t now rq (hb_db (?F h))) =
      map_sum id (map_prod (protect_db name on n) id) (commit_fails env (store_commit en t now rq (hb_db h)))" for en t now rq
    by (simp add: set_protection_db store_commit_protect commit_fails_def map_left_map)
  have upd: "(?F h)\<lparr>hb_db := protect_db name on n db\<rparr> = ?F (h\<lparr>hb_db := db\<rparr>)" for db
    by (simp add: set_protection_db)
  show ?thesis
    unfolding serve.simps serve_commit_def respond_map [symmetric] map_and_then lookup_protect commit and_then_map
    by (intro arg_cong2 [where f = respond] refl and_then_cong2) (auto simp: case_prod_beta upd seq)
qed

end
