(* ===== verification/Spec2Isabelle.thy ===== *)
theory Spec2Isabelle
  imports CoreDecimal EngineOpProps HashProps SchemaProps SqlProps ValuesProps PredicateProps StoreProps DdlProps HubDemo PiiProps
    ServerProps
begin

text \<open>
  A verification development for DataGit (\<^verbatim>\<open>github.com/Glyph-Software/datagit\<close>), a version-control layer
  over relational tables: branches, commits, merges, sessions, proposals and migrations on rows that stay
  in an ordinary database. All paths below are under \<^verbatim>\<open>src/internal\<close>.

  \<^bold>\<open>The program.\<close> A version of a row belongs to a branch, a key and a half-open interval of sequence
  numbers. A branch carries a resolution chain, one segment per ancestor with the sequence number it is
  read at; a key resolves to its version in the first segment that has one. \<^verbatim>\<open>engine\<close> is this scheme in
  memory, \<^verbatim>\<open>model\<close> a simple implementation that snapshots every commit, against which the code's property
  tests compare it. \<^verbatim>\<open>store\<close> is the scheme on a database: versions in one sidecar table per tracked table,
  while the default branch is also the live table the application uses. \<^verbatim>\<open>server\<close> puts authentication,
  capabilities and protobuf in front of it. \<^verbatim>\<open>core\<close>, \<^verbatim>\<open>hash\<close>, \<^verbatim>\<open>schemaeng\<close>, \<^verbatim>\<open>crypto\<close> and \<^verbatim>\<open>db\<close> are used
  by these.

  \<^bold>\<open>Representation.\<close> A Go \<^verbatim>\<open>string\<close> and \<^verbatim>\<open>[]byte\<close> are lists of bytes (\<^typ>\<open>char\<close>), ordered bytewise; slices
  are lists; maps are finite maps, ranged over in key order where the code sorts; structs are records,
  tagged unions datatypes. Integers whose width matters are words (masks, SHA-256, AES, \<^verbatim>\<open>int64\<close> cells,
  column ids); sequence numbers are \<^typ>\<open>int\<close>, and the hypotheses below keep them under \<^verbatim>\<open>MaxInt64\<close>. An
  operation that can fail returns an error or its result, with an error datatype per component;
  \<^theory_text>\<open>Results\<close> sequences them. State is passed and returned; a failed transaction returns no state, and where
  an operation of the code is several transactions the model returns the state between them. \<^verbatim>\<open>Clone\<close> is
  the identity, since values are immutable here. \<^theory_text>\<open>Prelude\<close> holds what all theories share.

  \<^bold>\<open>Theories and code.\<close>
  \<^item> \<^theory_text>\<open>CoreValue\<close>, \<^theory_text>\<open>CoreDecimal\<close>, \<^theory_text>\<open>CoreRow\<close>: \<^verbatim>\<open>core/value.go\<close>. Values, canonical encoding, exact decimals,
    rows, keys. Encoding of a row is injective; decimals have one spelling per number. The locale
    \<open>canonical_eq\<close> is the contract of the four equality tests, interpreted for values, rows, tables and
    optional values; NaN is outside of it, because Go's \<^verbatim>\<open>==\<close> is not reflexive on it.
  \<^item> \<^theory_text>\<open>ColMask\<close>: \<^verbatim>\<open>core/mask.go\<close>; masks are sets of columns (locale \<open>column_set\<close>). \<^theory_text>\<open>CoreChange\<close>:
    \<^verbatim>\<open>core/change.go\<close>.
  \<^item> \<^theory_text>\<open>ModelDefs\<close>: \<^verbatim>\<open>model/model.go\<close>. \<^theory_text>\<open>EngineDefs\<close>, \<^theory_text>\<open>EngineOps\<close>: \<^verbatim>\<open>engine/engine.go\<close>, each method one definition,
    \<^verbatim>\<open>engine.Engine\<close> the record \<open>engine\<close>. \<^theory_text>\<open>CommitGraph\<close>: the ancestor walks of both, which meet the locale
    \<open>ancestry\<close>, and the best common ancestors.
  \<^item> \<^theory_text>\<open>EngineInv\<close> states the engine's invariant; \<^theory_text>\<open>EngineVis\<close>, \<^theory_text>\<open>EngineRows\<close>, \<^theory_text>\<open>HistAdvance\<close>, \<^theory_text>\<open>MaskSound\<close>,
    \<^theory_text>\<open>EngineReads\<close>, \<^theory_text>\<open>EngineCommit\<close>, \<^theory_text>\<open>EngineMerge\<close>, \<^theory_text>\<open>EngineStaged\<close>, \<^theory_text>\<open>EngineSession\<close>, \<^theory_text>\<open>EngineSessionCommit\<close>
    show that every operation keeps it. \<^theory_text>\<open>MergeSpec\<close> and \<^theory_text>\<open>MergeFacts\<close> state what a three-way merge is.
    \<^theory_text>\<open>EngineRun\<close> is the step relation; \<^theory_text>\<open>EngineRefine\<close>, \<^theory_text>\<open>EngineRefineMerge\<close> show that engine and model
    simulate each other call by call. \<^theory_text>\<open>EngineProps\<close>, \<^theory_text>\<open>EngineMergeProps\<close>, \<^theory_text>\<open>EngineOpProps\<close> are the results.
  \<^item> \<^theory_text>\<open>Sha256\<close>, \<^theory_text>\<open>HashDefs\<close>, \<^theory_text>\<open>HashFacts\<close>, \<^theory_text>\<open>HashProps\<close>: \<^verbatim>\<open>hash/hash.go\<close> on a SHA-256 written out in full.
    Digests identify what they digest unless two different buffers collide, and the collision is
    exhibited in the statement; no collision-freeness is assumed. The locale \<open>framed\<close> is what a
    length-prefixed buffer promises.
  \<^item> \<^theory_text>\<open>SchemaDefs\<close>, \<^theory_text>\<open>SchemaFacts\<close>, \<^theory_text>\<open>SchemaProps\<close>: \<^verbatim>\<open>schemaeng/schema.go\<close>; diff, merge, plan.
  \<^item> \<^theory_text>\<open>SqlDialect\<close>, \<^theory_text>\<open>SqlProps\<close>: \<^verbatim>\<open>db/rebind.go\<close> and the translation in \<^verbatim>\<open>my/conn.go\<close>, against a reading of
    SQL text as tokens.
  \<^item> \<^theory_text>\<open>ValuesDefs\<close>, \<^theory_text>\<open>ValuesFacts\<close>, \<^theory_text>\<open>ValuesProps\<close>: \<^verbatim>\<open>store/values.go\<close>. \<^theory_text>\<open>PredicateDefs\<close>, \<^theory_text>\<open>PredicateProps\<close>:
    \<^verbatim>\<open>store/predicate.go\<close>.
  \<^item> \<^theory_text>\<open>StoreDefs\<close> (references, commits, reads), \<^theory_text>\<open>StoreWrites\<close> (tracking, commits, sessions), \<^theory_text>\<open>StoreMerge\<close>
    (merge, diff, revert, chunks), \<^theory_text>\<open>StoreMaint\<close> (retention, verification, history): \<^verbatim>\<open>store/store.go\<close>,
    \<^verbatim>\<open>branch.go\<close>, \<^verbatim>\<open>read.go\<close>, \<^verbatim>\<open>merge.go\<close>, \<^verbatim>\<open>revert.go\<close>, \<^verbatim>\<open>chunked.go\<close>, \<^verbatim>\<open>retention.go\<close>, and the resolution query
    of \<^verbatim>\<open>adapter/postgres/postgres.go\<close> as the list operation its SQL denotes. The record \<open>dbase\<close> is the
    database: control tables, sidecars, live tables, sessions. \<^theory_text>\<open>StoreInv\<close>, \<^theory_text>\<open>StoreCommitInv\<close>, \<^theory_text>\<open>StoreSteps\<close>,
    \<^theory_text>\<open>StoreReach\<close>, \<^theory_text>\<open>StoreEffects\<close>, \<^theory_text>\<open>StoreHistory\<close>, \<^theory_text>\<open>StoreKeys\<close>, \<^theory_text>\<open>StoreResolve\<close> give invariants of every
    reachable store and effects of single operations; \<^theory_text>\<open>StoreProps\<close> the results. \<open>data_step\<close> is a step that
    reads or writes data and references, \<open>store_step\<close> also one that deletes a branch, tracks or untracks.
  \<^item> \<^theory_text>\<open>StoreMigrate\<close>: \<^verbatim>\<open>store/journal.go\<close> and the loop of \<^verbatim>\<open>adapter/postgres/migrate.go\<close>, with the interface
    \<^verbatim>\<open>adapter.Journal\<close> as the locale \<open>migration_journal\<close>, interpreted by the store's journal table; the
    process may die between any two statements. \<^theory_text>\<open>DdlDefs\<close>: the statements themselves, after \<^verbatim>\<open>ddl.go\<close> of
    both adapters; \<^theory_text>\<open>DdlProps\<close> derives, from what the databases document of such statements, that plans of
    them resume after a crash, and where one does not.
  \<^item> \<^theory_text>\<open>HubDefs\<close>, \<^theory_text>\<open>HubSchema\<close>: \<^verbatim>\<open>store/schema.go\<close>; \<^theory_text>\<open>HubReview\<close>: \<^verbatim>\<open>store/proposal.go\<close>. The record \<open>hub\<close> is
    \<open>dbase\<close> with the tables of schemas, plans, journal, proposals, reviews and conflicts. \<^theory_text>\<open>HubReach\<close> is its
    step relation, \<^theory_text>\<open>HubProps\<close> its results, \<^theory_text>\<open>HubDemo\<close> a repository the witnesses use.
  \<^item> \<^theory_text>\<open>AesGcm\<close>, \<^theory_text>\<open>Shred\<close>: \<^verbatim>\<open>crypto/shred.go\<close>, with AES-256-GCM and base64 written out; the interface
    \<^verbatim>\<open>Envelope\<close> is the locale \<open>envelope\<close>, interpreted by the local envelope. \<^theory_text>\<open>PiiDefs\<close>, \<^theory_text>\<open>PiiProps\<close>:
    \<^verbatim>\<open>store/pii.go\<close>; \<open>vault\<close> is the record of the tables it uses.
  \<^item> \<^theory_text>\<open>ServerWire\<close>: \<^verbatim>\<open>server/convert.go\<close>; \<^theory_text>\<open>ServerDefs\<close>, \<^theory_text>\<open>ServerHandlers\<close>: \<^verbatim>\<open>server/auth.go\<close>, \<^verbatim>\<open>server.go\<close>,
    \<^verbatim>\<open>handlers2.go\<close>, each handler one function from a request to its status or response and the next
    state; \<^theory_text>\<open>ServerProps\<close> the results.
\<close>

text \<open>
  \<^bold>\<open>What the lemmas show.\<close> The engine refines the snapshot model and never changes recorded history; its
  masks are sound, merges conflict exactly where the specification says and merged cells come from the
  side that changed them. In every store reached from a new repository the live table is the head of the
  default branch, references and stored hashes verify, pruning and collection keep what the branches
  show, and the SQL resolution without a page limit gives what the engine's does. Interrupted migrations
  resume to the same end, except that a rename on PostgreSQL that was executed and not recorded never does.
  A schema edit loses no column id, and the ids it forks are not those of the old version; they may clash
  with columns added by the same request, and a merged version may reuse a dropped id. Control tables keep
  their constraints, merges into protected branches through proposals are reviewed. Statements are
  translated to MySQL faithfully when they are \<open>portable\<close>. Sealed cells read back, an erased subject's key
  never returns. Requests act only for an authenticated caller with the capability. Several properties
  state a defect instead, as a theorem about the code as written: a later migration plan of a table is
  skipped, a schema merge into the default branch ignores that branch's changes, designating a
  column flattens its history, erasing an unknown subject leaves no trace, commits ignore protection.

  \<^bold>\<open>Conditions the code does not check.\<close> The properties of live rows and of the store's invariant are for
  changes to the default branch that are filed under the key of their row (\<open>keyed\<close>, a premise of the steps
  that commit, merge and revert): a client may send others, the store takes them, and then the live table
  is not what the branch resolves (\<open>unkeyed_commit_drifts\<close>). Sealed rows read back when neither their
  subject column nor a key column is designated (\<open>designations_ok\<close>) and their subject is not the empty
  text (\<open>empty_subject_stays_sealed\<close>). Merge validation is exact for indexes over tracked columns
  (\<open>unknown_index_blocks\<close>). The class of a type change is the one the code assigns
  (\<open>classification_coarse\<close>).

  \<^bold>\<open>Bounds.\<close> Runs of the engine satisfy \<open>run_ok\<close>: fewer operations than sequence numbers below \<open>max_seq\<close>, so
  that no counter reaches the open-interval sentinel, with rows that have their key columns. Store
  operations assume room for one more sequence number in the same way, schema edits room for new
  32-bit column ids (\<open>ids_room\<close>), and encodings payloads below \<open>2^32\<close> bytes, the width of the length
  prefixes. Equality and refinement are for cells without NaN. Loops are structural recursions or
  have a termination proof, the ancestor walks by the commits not yet visited, so every definition is
  total and none takes fuel. The properties of the store that speak of live rows
  are for a store that seals no personal data (\<open>plain_env\<close>); \<^theory_text>\<open>PiiProps\<close> treats sealing itself.

  \<^bold>\<open>Parameters.\<close> What the code only calls is an argument: the database's reading of a decimal, type
  casts, introspection and the effect of a DDL statement (\<open>dbenv\<close>, \<open>hubenv\<close>), the driver's printing
  (\<open>piienv\<close>), the database's filtering and ordering, session id parsing and error texts (\<open>srvenv\<close>), the
  parsing of floats and times, fresh UUIDs, the clock and random bytes. The schema component takes the
  generator of statements as an argument, as the code does; \<open>ddl_of\<close> gives the two there are. Timestamps
  that no code reads, as those of the journal, are reduced to whether they are set. Reference
  locks only serialise transactions, so an operation is one step. \<^verbatim>\<open>ToLower\<close> is on ASCII. The server is
  that of one repository, its streams are lists, and a nil table passed to the store is an outcome of
  its own.

  \<^bold>\<open>Not modelled.\<close> The text of generated queries and sidecar DDL, introspection and partitions (\<^verbatim>\<open>adapter/postgres\<close>,
  \<^verbatim>\<open>adapter/mysql\<close>, \<^verbatim>\<open>catalog\<close>), connections and pools (\<^verbatim>\<open>pg\<close>, \<^verbatim>\<open>my\<close>, \<^verbatim>\<open>connect\<close>), REST routing, Export and
  Materialize, which write streams and DDL, the JSON of stored lists (\<^verbatim>\<open>store/portable.go\<close>), triggers
  (\<^verbatim>\<open>store/guard.go\<close>), external anchors, metrics, the commands, generated code, spikes and tests: they are
  I/O or text without state of their own.
\<close>

end
